(* ===== verification/Baseliner_Prelude.thy ===== *)
theory Baseliner_Prelude
  imports Complex_Main "HOL-Library.Word" "HOL-Library.Multiset"
begin

unbundle bit_operations_syntax

text \<open>
  Shared vocabulary of the development: machine-integer abbreviations, the list operations
  that model the queue macros of \<^verbatim>\<open>sys/queue.h\<close> (update or removal of the first
  or the last node that satisfies a test), and the interface of a transition system whose
  invariant is kept by every step.
\<close>

section \<open>Collections of simplification rules\<close>

named_theorems wf_simps \<open>unfolding of well-formedness predicates\<close>
named_theorems op_defs \<open>definitions of the operations of a component\<close>

section \<open>Machine types\<close>

type_synonym u8 = "8 word"
type_synonym u16 = "16 word"
type_synonym u32 = "32 word"
type_synonym u64 = "64 word"

text \<open>A C conversion of a signed value to \<^verbatim>\<open>uint32_t\<close> keeps the low 32 bits.\<close>

abbreviation to_u32 :: "int \<Rightarrow> u32" where
  "to_u32 i \<equiv> word_of_int i"

lemma uint_to_u32 [simp]: "0 \<le> i \<Longrightarrow> i < 2 ^ 32 \<Longrightarrow> uint (to_u32 i) = i"
  by (simp add: uint_word_of_int)

lemma unat_u32_less: "unat (w :: u32) < 4294967296"
  using unsigned_less [where 'a = nat, of w] by simp

lemma sint_u64_small: "unat (w :: u64) < 2 ^ 63 \<Longrightarrow> sint w = int (unat w)"
proof -
  assume "unat w < 2 ^ 63"
  then have "int (unat w) < int (2 ^ 63)" by (simp only: of_nat_less_iff)
  then have "uint w < 2 ^ 63" by simp
  moreover have "- (2 ^ 63) \<le> uint w" by (rule order_trans [OF _ uint_ge_0]) simp
  ultimately have "signed_take_bit 63 (uint w) = uint w" by (intro signed_take_bit_int_eq_self)
  then show ?thesis by (simp add: sint_uint)
qed

text \<open>C's integer division truncates towards zero.\<close>

definition c_div :: "int \<Rightarrow> int \<Rightarrow> int" where
  "c_div a b = sgn a * sgn b * (\<bar>a\<bar> div \<bar>b\<bar>)"

definition c_mod :: "int \<Rightarrow> int \<Rightarrow> int" where
  "c_mod a b = a - b * c_div a b"

lemma c_div_nonneg [simp]: "0 \<le> a \<Longrightarrow> 0 < b \<Longrightarrow> c_div a b = a div b"
  by (cases "a = 0") (simp_all add: c_div_def)

lemma c_mod_nonneg [simp]: "0 \<le> a \<Longrightarrow> 0 < b \<Longrightarrow> c_mod a b = a mod b"
  by (simp add: c_mod_def minus_mult_div_eq_mod)

section \<open>Linked lists: first and last match\<close>

text \<open>
  \<open>upd_first p f xs\<close> replaces the first element that satisfies \<open>p\<close> by the elements of
  \<open>f x\<close>: a singleton for an update in place, the empty list for a removal.
\<close>

fun upd_first :: "('a \<Rightarrow> bool) \<Rightarrow> ('a \<Rightarrow> 'a list) \<Rightarrow> 'a list \<Rightarrow> 'a list" where
  "upd_first p f [] = []"
| "upd_first p f (x # xs) = (if p x then f x @ xs else x # upd_first p f xs)"

definition upd_last :: "('a \<Rightarrow> bool) \<Rightarrow> ('a \<Rightarrow> 'a list) \<Rightarrow> 'a list \<Rightarrow> 'a list" where
  "upd_last p f xs = rev (upd_first p (\<lambda>x. rev (f x)) (rev xs))"

definition find_last :: "('a \<Rightarrow> bool) \<Rightarrow> 'a list \<Rightarrow> 'a option" where
  "find_last p xs = List.find p (rev xs)"

lemma upd_first_none: "List.find p xs = None \<Longrightarrow> upd_first p f xs = xs"
  by (induction xs) (auto split: if_splits)

lemma upd_first_split:
  "List.find p xs = Some x \<Longrightarrow>
   \<exists>ys zs. xs = ys @ x # zs \<and> p x \<and> (\<forall>y \<in> set ys. \<not> p y) \<and> (\<forall>f. upd_first p f xs = ys @ f x @ zs)"
proof (induction xs)
  case Nil
  then show ?case by simp
next
  case (Cons a xs)
  show ?case
  proof (cases "p a")
    case True
    with Cons.prems have "x = a" by simp
    with True show ?thesis by (intro exI [of _ "[]"] exI [of _ xs]) simp
  next
    case False
    with Cons.prems have "List.find p xs = Some x" by simp
    from Cons.IH [OF this] obtain ys zs where
      "xs = ys @ x # zs" "p x" "\<forall>y \<in> set ys. \<not> p y" "\<forall>f. upd_first p f xs = ys @ f x @ zs"
      by blast
    with False show ?thesis by (intro exI [of _ "a # ys"] exI [of _ zs]) simp
  qed
qed

lemma find_SomeD: "List.find p xs = Some x \<Longrightarrow> p x \<and> x \<in> set xs"
  using upd_first_split by fastforce

lemma find_none_iff: "List.find p xs = None \<longleftrightarrow> (\<forall>x \<in> set xs. \<not> p x)"
  by (induction xs) auto

lemma upd_first_all:
  assumes "\<forall>x \<in> set xs. P x" and "\<And>x. x \<in> set xs \<Longrightarrow> p x \<Longrightarrow> \<forall>y \<in> set (f x). P y"
  shows "\<forall>y \<in> set (upd_first p f xs). P y"
  using assms
proof (induction xs)
  case Nil
  then show ?case by simp
next
  case (Cons a xs)
  show ?case
  proof (cases "p a")
    case True
    with Cons.prems show ?thesis by auto
  next
    case False
    have "\<forall>y \<in> set (upd_first p f xs). P y"
      by (rule Cons.IH) (use Cons.prems in auto)
    with False Cons.prems show ?thesis by simp
  qed
qed

lemma map_upd_first:
  "(\<And>x. x \<in> set xs \<Longrightarrow> p x \<Longrightarrow> map g (f x) = [g x]) \<Longrightarrow> map g (upd_first p f xs) = map g xs"
  by (induction xs) auto

lemma map_upd_last:
  assumes "\<And>x. x \<in> set xs \<Longrightarrow> p x \<Longrightarrow> map g (f x) = [g x]"
  shows "map g (upd_last p f xs) = map g xs"
proof -
  have "map g (upd_first p (\<lambda>x. rev (f x)) (rev xs)) = map g (rev xs)"
    by (rule map_upd_first) (use assms in \<open>simp add: rev_map [symmetric]\<close>)
  then show ?thesis by (simp add: upd_last_def rev_map [symmetric])
qed

lemma upd_last_all:
  assumes "\<forall>x \<in> set xs. P x" and "\<And>x. x \<in> set xs \<Longrightarrow> p x \<Longrightarrow> \<forall>y \<in> set (f x). P y"
  shows "\<forall>y \<in> set (upd_last p f xs). P y"
  unfolding upd_last_def set_rev by (rule upd_first_all) (use assms in auto)

lemma list_all_upd_first:
  "list_all P xs \<Longrightarrow> (\<And>x. x \<in> set xs \<Longrightarrow> p x \<Longrightarrow> list_all P (f x)) \<Longrightarrow> list_all P (upd_first p f xs)"
  using upd_first_all [of xs P p f] by (simp add: list_all_iff)

lemma list_all_upd_last:
  "list_all P xs \<Longrightarrow> (\<And>x. x \<in> set xs \<Longrightarrow> p x \<Longrightarrow> list_all P (f x)) \<Longrightarrow> list_all P (upd_last p f xs)"
  using upd_last_all [of xs P p f] by (simp add: list_all_iff)

lemma list_all_update:
  "list_all P xs \<Longrightarrow> P y \<Longrightarrow> list_all P (xs[k := y])"
  by (auto simp: list_all_iff dest!: set_update_subset_insert [THEN subsetD])

lemma map_update_same: "k < length xs \<Longrightarrow> f y = f (xs ! k) \<Longrightarrow> map f (xs[k := y]) = map f xs"
  by (metis map_update list_update_id nth_map)

lemma length_upd_first:
  "(\<And>x. x \<in> set xs \<Longrightarrow> p x \<Longrightarrow> length (f x) = 1) \<Longrightarrow> length (upd_first p f xs) = length xs"
  by (induction xs) auto

lemma length_upd_last:
  "(\<And>x. x \<in> set xs \<Longrightarrow> p x \<Longrightarrow> length (f x) = 1) \<Longrightarrow> length (upd_last p f xs) = length xs"
  using length_upd_first [of "rev xs" p "\<lambda>x. rev (f x)"] by (simp add: upd_last_def)

lemma sum_list_upd_first:
  fixes g :: "'a \<Rightarrow> int"
  shows "sum_list (map g (upd_first p f xs)) =
    sum_list (map g xs) +
    (case List.find p xs of None \<Rightarrow> 0 | Some x \<Rightarrow> sum_list (map g (f x)) - g x)"
  by (induction xs) auto

lemma sum_list_upd_last:
  fixes g :: "'a \<Rightarrow> int"
  shows "sum_list (map g (upd_last p f xs)) =
    sum_list (map g xs) +
    (case find_last p xs of None \<Rightarrow> 0 | Some x \<Rightarrow> sum_list (map g (f x)) - g x)"
proof -
  have rev_sum: "sum_list (map g (rev zs)) = sum_list (map g zs)" for zs :: "'a list"
    by (induction zs) simp_all
  show ?thesis
    unfolding upd_last_def find_last_def rev_sum sum_list_upd_first by simp
qed

lemma find_last_unique:
  assumes "distinct (map g xs)" and "List.find (\<lambda>x. g x = k) xs = Some x"
  shows "find_last (\<lambda>x. g x = k) xs = Some x"
proof -
  from find_SomeD [OF assms(2)] have x: "x \<in> set xs" "g x = k" by auto
  have "List.find (\<lambda>x. g x = k) (rev xs) \<noteq> None"
    using x by (auto simp: find_none_iff)
  then obtain y where y: "List.find (\<lambda>x. g x = k) (rev xs) = Some y" by auto
  from find_SomeD [OF this] have "y \<in> set xs" "g y = k" by auto
  with x assms(1) have "y = x" by (auto simp: distinct_map inj_on_def)
  with y show ?thesis by (simp add: find_last_def)
qed

section \<open>Transition systems\<close>

text \<open>
  The interface of a component as a deterministic machine: \<open>step\<close> takes an input and the
  state. What a provider promises is that the start state satisfies the invariant and that
  every step on an admissible input keeps it; a run over a list of admissible inputs then
  ends in a state of the invariant, and so does every state on the way.
\<close>

locale step_system =
  fixes step :: "'i \<Rightarrow> 's \<Rightarrow> 's"
    and start :: "'s"
    and adm :: "'i \<Rightarrow> bool"
    and invar :: "'s \<Rightarrow> bool"
  assumes invar_start: "invar start"
    and invar_step: "invar s \<Longrightarrow> adm i \<Longrightarrow> invar (step i s)"
begin

lemma invar_fold: "invar s \<Longrightarrow> (\<forall>i \<in> set is. adm i) \<Longrightarrow> invar (fold step is s)"
  by (induction "is" arbitrary: s) (auto intro: invar_step)

lemma invar_run: "(\<forall>i \<in> set is. adm i) \<Longrightarrow> invar (fold step is start)"
  by (rule invar_fold [OF invar_start])

lemma invar_prefix: "(\<forall>i \<in> set (is @ js). adm i) \<Longrightarrow> invar (fold step is start)"
  by (rule invar_run) simp

end

end
