(* ===== verification/Timespec.thy ===== *)
theory Timespec
  imports Baseliner_Prelude
begin

text \<open>
  Time values of \<^verbatim>\<open>SLANG-probed/util.c\<close>: the difference \<^verbatim>\<open>diff_ts\<close> and the
  comparison \<^verbatim>\<open>cmp_ts\<close> of two \<^verbatim>\<open>struct timespec\<close>, with the interface of a
  comparison (\<open>comparator\<close>) that the statistics of the client rely on for their running
  minimum and maximum.
\<close>

section \<open>Definitions\<close>

record timespec =
  tv_sec :: int
  tv_nsec :: int

abbreviation ts_make :: "int \<Rightarrow> int \<Rightarrow> timespec" where
  "ts_make s n \<equiv> \<lparr>tv_sec = s, tv_nsec = n\<rparr>"

definition ts_zero :: timespec where
  "ts_zero = \<lparr>tv_sec = 0, tv_nsec = 0\<rparr>"

definition ts_ok :: "timespec \<Rightarrow> bool" where
  "ts_ok t \<longleftrightarrow> 0 \<le> tv_nsec t \<and> tv_nsec t < 1000000000"

definition ts_ns :: "timespec \<Rightarrow> int" where
  "ts_ns t = tv_sec t * 1000000000 + tv_nsec t"

text \<open>
  \<^verbatim>\<open>diff_ts(r, a, b)\<close>: the pair of what it writes to \<^verbatim>\<open>*r\<close> and of the sign it
  returns (1 for negative). The branches are the source's.
\<close>

definition diff_ts :: "timespec \<Rightarrow> timespec \<Rightarrow> timespec \<times> int" where
  "diff_ts a b =
    (if tv_sec a > tv_sec b then
       (if tv_nsec a > tv_nsec b then
          (\<lparr>tv_sec = tv_sec a - tv_sec b, tv_nsec = tv_nsec a - tv_nsec b\<rparr>, 0)
        else if tv_nsec a < tv_nsec b then
          (\<lparr>tv_sec = tv_sec a - tv_sec b - 1,
            tv_nsec = 1000000000 + tv_nsec a - tv_nsec b\<rparr>, 0)
        else (\<lparr>tv_sec = tv_sec a - tv_sec b, tv_nsec = 0\<rparr>, 0))
     else if tv_sec a < tv_sec b then
       (if tv_nsec a > tv_nsec b then
          (\<lparr>tv_sec = tv_sec b - tv_sec a - 1,
            tv_nsec = tv_nsec b + 1000000000 - tv_nsec a\<rparr>, 1)
        else if tv_nsec a < tv_nsec b then
          (\<lparr>tv_sec = tv_sec b - tv_sec a, tv_nsec = tv_nsec b - tv_nsec a\<rparr>, 1)
        else (\<lparr>tv_sec = tv_sec b - tv_sec a, tv_nsec = 0\<rparr>, 1))
     else
       (if tv_nsec a > tv_nsec b then
          (\<lparr>tv_sec = 0, tv_nsec = tv_nsec a - tv_nsec b\<rparr>, 0)
        else if tv_nsec a < tv_nsec b then
          (\<lparr>tv_sec = 0, tv_nsec = tv_nsec b - tv_nsec a\<rparr>, 1)
        else (\<lparr>tv_sec = 0, tv_nsec = 0\<rparr>, 0)))"

definition cmp_ts :: "timespec \<Rightarrow> timespec \<Rightarrow> int" where
  "cmp_ts t1 t2 =
    (if tv_sec t1 < tv_sec t2 then -1
     else if tv_sec t1 > tv_sec t2 then 1
     else if tv_nsec t1 < tv_nsec t2 then -1
     else if tv_nsec t1 > tv_nsec t2 then 1
     else 0)"

section \<open>The comparison interface\<close>

text \<open>
  A three-way comparison agrees with the order of a key on the values it is meant for. A
  client that keeps the largest (smallest) value seen by replacing it whenever the
  comparison says so ends with the largest (smallest) key.
\<close>

locale comparator =
  fixes cmp :: "'t \<Rightarrow> 't \<Rightarrow> int"
    and key :: "'t \<Rightarrow> int"
    and okay :: "'t \<Rightarrow> bool"
  assumes cmp_key: "okay a \<Longrightarrow> okay b \<Longrightarrow> cmp a b = sgn (key a - key b)"
begin

lemma cmp_less: "okay a \<Longrightarrow> okay b \<Longrightarrow> cmp a b = -1 \<longleftrightarrow> key a < key b"
  by (simp add: cmp_key sgn_if)

lemma cmp_greater: "okay a \<Longrightarrow> okay b \<Longrightarrow> cmp a b = 1 \<longleftrightarrow> key b < key a"
  by (simp add: cmp_key sgn_if)

lemma cmp_equal: "okay a \<Longrightarrow> okay b \<Longrightarrow> cmp a b = 0 \<longleftrightarrow> key a = key b"
  by (simp add: cmp_key sgn_if)

lemma cmp_antisym: "okay a \<Longrightarrow> okay b \<Longrightarrow> cmp b a = - cmp a b"
  by (simp add: cmp_key sgn_if)

lemma cmp_trans:
  "okay a \<Longrightarrow> okay b \<Longrightarrow> okay c \<Longrightarrow> cmp a b = -1 \<Longrightarrow> cmp b c = -1 \<Longrightarrow> cmp a c = -1"
  by (simp add: cmp_less)

lemma keep_max:
  "okay m \<Longrightarrow> okay x \<Longrightarrow> key (if cmp m x = -1 then x else m) = max (key m) (key x)"
  by (simp add: cmp_less)

lemma keep_min:
  "okay m \<Longrightarrow> okay x \<Longrightarrow> key (if cmp m x = 1 then x else m) = min (key m) (key x)"
  by (simp add: cmp_greater)

end

section \<open>Correctness of the difference and the comparison\<close>

lemma ts_zero_simps [simp]: "tv_sec ts_zero = 0" "tv_nsec ts_zero = 0" "ts_ok ts_zero" "ts_ns ts_zero = 0"
  by (simp_all add: ts_zero_def ts_ok_def ts_ns_def)

lemma ts_ns_nonneg: "ts_ok t \<Longrightarrow> 0 \<le> tv_sec t \<Longrightarrow> 0 \<le> ts_ns t"
  by (simp add: ts_ok_def ts_ns_def)

lemma ts_ns_sec: "ts_ok t \<Longrightarrow> tv_sec t = ts_ns t div 1000000000"
  by (simp add: ts_ok_def ts_ns_def)

lemma ns_div_le: "(x :: int) div 1000000000 \<le> k \<longleftrightarrow> x < (k + 1) * 1000000000"
proof -
  define q r where "q = x div 1000000000" and "r = x mod 1000000000"
  have eq: "x = q * 1000000000 + r" "0 \<le> r" "r < 1000000000" by (simp_all add: q_def r_def)
  show ?thesis unfolding q_def [symmetric] eq(1) using eq(2,3) by (simp add: algebra_simps) linarith?
qed

lemma ts_ns_nsec: "ts_ok t \<Longrightarrow> tv_nsec t = ts_ns t mod 1000000000"
  by (simp add: ts_ok_def ts_ns_def)

lemma ts_ns_inject: "ts_ok a \<Longrightarrow> ts_ok b \<Longrightarrow> ts_ns a = ts_ns b \<Longrightarrow> a = b"
  using ts_ns_sec [of a] ts_ns_sec [of b] by (cases a; cases b) (simp add: ts_ns_def)

lemma diff_ts_ok: "ts_ok a \<Longrightarrow> ts_ok b \<Longrightarrow> ts_ok (fst (diff_ts a b))"
  by (auto simp: diff_ts_def ts_ok_def)

lemma diff_ts_ns: "ts_ok a \<Longrightarrow> ts_ok b \<Longrightarrow> ts_ns (fst (diff_ts a b)) = \<bar>ts_ns a - ts_ns b\<bar>"
  by (auto simp: diff_ts_def ts_ok_def ts_ns_def)

lemma diff_ts_neg: "ts_ok a \<Longrightarrow> ts_ok b \<Longrightarrow> snd (diff_ts a b) = (if ts_ns a < ts_ns b then 1 else 0)"
  by (auto simp: diff_ts_def ts_ok_def ts_ns_def)

lemma diff_ts_sec_nonneg: "0 \<le> tv_sec (fst (diff_ts a b))"
  by (auto simp: diff_ts_def)

lemma diff_ts_sec: "ts_ok a \<Longrightarrow> ts_ok b \<Longrightarrow>
    tv_sec (fst (diff_ts a b)) = \<bar>ts_ns a - ts_ns b\<bar> div 1000000000"
  using ts_ns_sec [OF diff_ts_ok] by (simp add: diff_ts_ns)

lemmas diff_ts_facts = diff_ts_ok diff_ts_ns diff_ts_neg

lemma cmp_ts_sgn: "ts_ok a \<Longrightarrow> ts_ok b \<Longrightarrow> cmp_ts a b = sgn (ts_ns a - ts_ns b)"
  by (auto simp: cmp_ts_def ts_ok_def ts_ns_def sgn_if)

interpretation ts_cmp: comparator cmp_ts ts_ns ts_ok
  by unfold_locales (rule cmp_ts_sgn)

end
