(* ===== verification/Probed_Net.thy ===== *)
theory Probed_Net
  imports Timespec
begin

text \<open>
  Packets, control messages and time stamps of \<^verbatim>\<open>SLANG-probed\<close>: the types of
  \<^verbatim>\<open>probed.h\<close>, the choice of a time-stamping mode and the extraction of time stamps
  (\<^verbatim>\<open>tstamp.c\<close>), the DSCP field and the receive and send wrappers (\<^verbatim>\<open>net.c\<close>). What
  the kernel returns is an input of each operation.
\<close>

section \<open>Types and constants of \<^verbatim>\<open>probed.h\<close>\<close>

datatype opmode = HELP | SERVER | CLIENT | DAEMON
datatype tsmode = HARDWARE | KERNEL | USERLAND
datatype lockmode = DISABLED | ENABLED
datatype fsmode = OFF | ON

type_synonym in6_addr = "128 word"

record addr_t =
  sin6_addr :: in6_addr
  sin6_port :: u16

record data_t =
  d_type :: u32
  d_seq :: u32
  d_id :: u32
  d_t2 :: timespec
  d_t3 :: timespec

definition TYPE_PING :: u32 where "TYPE_PING = 1"
definition TYPE_PONG :: u32 where "TYPE_PONG = 2"
definition TYPE_TIME :: u32 where "TYPE_TIME = 3"
definition TYPE_HELO :: u32 where "TYPE_HELO = 4"

lemmas type_defs = TYPE_PING_def TYPE_PONG_def TYPE_TIME_def TYPE_HELO_def

definition data_zero :: data_t where
  "data_zero = \<lparr>d_type = 0, d_seq = 0, d_id = 0, d_t2 = ts_zero, d_t3 = ts_zero\<rparr>"

record pkt_t =
  pkt_addr :: addr_t
  pkt_dscp :: u8
  pkt_data :: data_t
  pkt_ts :: timespec

definition DATALEN :: int where "DATALEN = 48"

section \<open>Control messages\<close>

text \<open>
  A control message: its level and type, and what \<^verbatim>\<open>CMSG_DATA\<close> reads as under each of
  the casts that the code makes (three time stamps, one time stamp, the origin of an
  extended error, an \<^verbatim>\<open>int\<close>).
\<close>

record cmsg =
  cmsg_level :: int
  cmsg_type :: int
  as_systime :: timespec
  as_hwtimeraw :: timespec
  as_timespec :: timespec
  as_ee_origin :: int
  as_int :: int

definition SOL_SOCKET :: int where "SOL_SOCKET = 1"
definition SO_TIMESTAMPING :: int where "SO_TIMESTAMPING = 37"
definition SO_TIMESTAMPNS :: int where "SO_TIMESTAMPNS = 35"
definition IPPROTO_IP :: int where "IPPROTO_IP = 0"
definition IPPROTO_IPV6 :: int where "IPPROTO_IPV6 = 41"
definition IP_TOS :: int where "IP_TOS = 1"
definition IPV6_TCLASS :: int where "IPV6_TCLASS = 67"
definition IPV6_RECVERR :: int where "IPV6_RECVERR = 25"
definition SO_EE_ORIGIN_TIMESTAMPING :: int where "SO_EE_ORIGIN_TIMESTAMPING = 4"

lemmas cmsg_consts = SOL_SOCKET_def SO_TIMESTAMPING_def SO_TIMESTAMPNS_def IPPROTO_IP_def
  IPPROTO_IPV6_def IP_TOS_def IPV6_TCLASS_def IPV6_RECVERR_def SO_EE_ORIGIN_TIMESTAMPING_def

section \<open>Time-stamping modes\<close>

text \<open>
  The three set-up functions, each with the outcomes of its system calls (\<open>True\<close>: the
  call returned a non-negative value), return the value that ends in \<^verbatim>\<open>cfg.ts\<close>. A
  failed \<^verbatim>\<open>setsockopt\<close> of the userland mode is logged and has no other effect.
\<close>

definition tstamp_mode_userland :: "bool \<Rightarrow> tsmode" where
  "tstamp_mode_userland _ = USERLAND"

definition tstamp_mode_kernel :: "bool \<Rightarrow> bool \<Rightarrow> tsmode" where
  "tstamp_mode_kernel sockopt_ok ns_ok =
    (if \<not> sockopt_ok then tstamp_mode_userland ns_ok else KERNEL)"

definition tstamp_mode_hardware :: "bool \<Rightarrow> bool \<Rightarrow> bool \<Rightarrow> tsmode" where
  "tstamp_mode_hardware ioctl_ok sockopt_ok ns_ok =
    (if \<not> ioctl_ok then tstamp_mode_kernel sockopt_ok ns_ok
     else if \<not> sockopt_ok then tstamp_mode_userland ns_ok
     else HARDWARE)"

section \<open>Extraction of time stamps and DSCP\<close>

text \<open>
  The loop of \<^verbatim>\<open>tstamp_extract\<close> over the control messages: \<open>ok\<close> and \<open>ts\<close> are the
  local \<^verbatim>\<open>ok\<close> and the output \<^verbatim>\<open>*ts\<close>; the result is the return value with \<^verbatim>\<open>*ts\<close>.
\<close>

fun tstamp_loop :: "tsmode \<Rightarrow> bool \<Rightarrow> u32 \<Rightarrow> timespec \<Rightarrow> cmsg list \<Rightarrow> int \<times> timespec" where
  "tstamp_loop mode tx ok ts [] = (-1, ts)"
| "tstamp_loop mode tx ok ts (m # ms) =
    (if cmsg_level m = SOL_SOCKET \<and> mode \<noteq> USERLAND \<and> cmsg_type m = SO_TIMESTAMPING then
       (let ts' = (if mode = HARDWARE then as_hwtimeraw m else as_systime m)
        in if \<not> tx then (0, ts')
           else if ok OR 1 = 3 then (0, ts')
           else tstamp_loop mode tx (ok OR 1) ts' ms)
     else if cmsg_level m = SOL_SOCKET \<and> mode = USERLAND \<and> cmsg_type m = SO_TIMESTAMPNS then
       (0, as_timespec m)
     else if tx \<and> cmsg_level m = IPPROTO_IPV6 \<and> cmsg_type m = IPV6_RECVERR \<and>
          as_ee_origin m = SO_EE_ORIGIN_TIMESTAMPING then
       (if ok OR 2 = 3 then (0, ts) else tstamp_loop mode tx (ok OR 2) ts ms)
     else tstamp_loop mode tx ok ts ms)"

definition tstamp_extract :: "tsmode \<Rightarrow> bool \<Rightarrow> cmsg list \<Rightarrow> int \<times> timespec" where
  "tstamp_extract mode tx ms = tstamp_loop mode tx 0 ts_zero ms"

definition is_stamp :: "tsmode \<Rightarrow> cmsg \<Rightarrow> bool" where
  "is_stamp mode m \<longleftrightarrow> cmsg_level m = SOL_SOCKET \<and>
     (if mode = USERLAND then cmsg_type m = SO_TIMESTAMPNS else cmsg_type m = SO_TIMESTAMPING)"

definition stamp_of :: "tsmode \<Rightarrow> cmsg \<Rightarrow> timespec" where
  "stamp_of mode m = (case mode of HARDWARE \<Rightarrow> as_hwtimeraw m | KERNEL \<Rightarrow> as_systime m
     | USERLAND \<Rightarrow> as_timespec m)"

definition is_tx_mark :: "cmsg \<Rightarrow> bool" where
  "is_tx_mark m \<longleftrightarrow> cmsg_level m = IPPROTO_IPV6 \<and> cmsg_type m = IPV6_RECVERR \<and>
     as_ee_origin m = SO_EE_ORIGIN_TIMESTAMPING"

fun dscp_extract :: "cmsg list \<Rightarrow> int \<times> u8" where
  "dscp_extract [] = (-1, 0)"
| "dscp_extract (m # ms) =
    (if cmsg_level m = IPPROTO_IP \<and> cmsg_type m = IP_TOS then (0, drop_bit 2 (word_of_int (as_int m)))
     else if cmsg_level m = IPPROTO_IPV6 \<and> cmsg_type m = IPV6_TCLASS then
       (0, drop_bit 2 (word_of_int (as_int m)))
     else dscp_extract ms)"

text \<open>
  \<^verbatim>\<open>dscp_set\<close> with the outcomes of its two \<^verbatim>\<open>setsockopt\<close> calls: the return value,
  and the values that the successful calls put in the socket's traffic class and TOS.
\<close>

definition dscp_set :: "u8 \<Rightarrow> bool \<Rightarrow> bool \<Rightarrow> int \<times> int option \<times> u8 option" where
  "dscp_set dscp v6_ok v4_ok =
    (let d = push_bit 2 dscp; tclass = uint d
     in if \<not> v6_ok then (-1, None, None)
        else if \<not> v4_ok then (-1, Some tclass, None)
        else (0, Some tclass, Some d))"

section \<open>Receiving and sending\<close>

record rx_msg =
  rx_len :: int
  rx_addr :: addr_t
  rx_data :: data_t
  rx_cmsgs :: "cmsg list"

text \<open>
  \<^verbatim>\<open>recv_w_ts\<close>: \<open>None\<close> for the return value -1, where no caller reads the packet. A
  read of the error queue leaves the data zeroed; a normal packet is delivered even
  when its time stamp or its DSCP is missing.
\<close>

definition recv_w_ts :: "tsmode \<Rightarrow> bool \<Rightarrow> rx_msg \<Rightarrow> u8 \<Rightarrow> pkt_t option" where
  "recv_w_ts mode errqueue r old_dscp =
    (if rx_len r \<noteq> DATALEN then None
     else if errqueue then
       (let (ret, ts) = tstamp_extract mode True (rx_cmsgs r)
        in if ret < 0 then None
           else Some \<lparr>pkt_addr = rx_addr r, pkt_dscp = old_dscp, pkt_data = data_zero, pkt_ts = ts\<rparr>)
     else
       (let (_, ts) = tstamp_extract mode False (rx_cmsgs r);
            (_, dscp) = dscp_extract (rx_cmsgs r)
        in Some \<lparr>pkt_addr = rx_addr r, pkt_dscp = dscp, pkt_data = rx_data r, pkt_ts = ts\<rparr>))"

text \<open>
  One round of the wait for a transmit time stamp: whether \<^verbatim>\<open>select\<close> reported the
  socket, what a read of the error queue would return then, and the time of day (in
  microseconds) read at the end of the round. A list of rounds is what happens until the
  waiting time is over; after the last one nothing more arrives in time.
\<close>

record poll =
  poll_ready :: bool
  poll_msg :: rx_msg
  poll_now :: int

fun fetch_loop :: "tsmode \<Rightarrow> int \<Rightarrow> int \<Rightarrow> poll list \<Rightarrow> int \<times> timespec" where
  "fetch_loop mode t0 now [] = (-1, ts_zero)"
| "fetch_loop mode t0 now (p # ps) =
    (if now - t0 < 10000 then
       (case (if poll_ready p then recv_w_ts mode True (poll_msg p) 0 else None) of
          Some pkt \<Rightarrow> (0, pkt_ts pkt)
        | None \<Rightarrow> fetch_loop mode t0 (poll_now p) ps)
     else (-1, ts_zero))"

definition tstamp_fetch_tx :: "tsmode \<Rightarrow> int \<Rightarrow> int \<Rightarrow> poll list \<Rightarrow> int \<times> timespec" where
  "tstamp_fetch_tx mode t0 now ps = fetch_loop mode t0 now ps"

record tx_env =
  tx_clock :: timespec
  tx_sendto_ok :: bool
  tx_last :: int
  tx_now :: int
  tx_polls :: "poll list"

definition send_w_ts :: "tsmode \<Rightarrow> tx_env \<Rightarrow> int \<times> timespec" where
  "send_w_ts mode e =
    (let ts = (if mode = USERLAND then tx_clock e else ts_zero)
     in if \<not> tx_sendto_ok e then (-1, ts)
        else if mode \<noteq> USERLAND then
          (let (ret, ts') = tstamp_fetch_tx mode (tx_last e) (tx_now e) (tx_polls e)
           in if ret < 0 then (-1, ts') else (0, ts'))
        else (0, ts))"

section \<open>Facts about the extraction\<close>

lemma is_stamp_not_mark: "is_stamp mode m \<Longrightarrow> \<not> is_tx_mark m"
  by (simp add: is_stamp_def is_tx_mark_def cmsg_consts)

lemma tstamp_rx_find:
  "tstamp_loop mode False ok ts ms =
    (case List.find (is_stamp mode) ms of Some m \<Rightarrow> (0, stamp_of mode m) | None \<Rightarrow> (-1, ts))"
  by (induction ms) (auto simp: is_stamp_def stamp_of_def split: tsmode.splits)

lemma tstamp_loop_userland:
  "tstamp_loop USERLAND tx ok ts ms = (case List.find (is_stamp USERLAND) ms of
     Some m \<Rightarrow> (0, stamp_of USERLAND m) | None \<Rightarrow> (-1, ts))"
  if "\<not> tx \<or> (\<forall>m \<in> set ms. \<not> is_tx_mark m)"
  using that
  by (induction ms arbitrary: ok)
    (auto simp: is_stamp_def stamp_of_def is_tx_mark_def cmsg_consts split: tsmode.splits)

lemma tstamp_loop_got_stamp:
  "mode \<noteq> USERLAND \<Longrightarrow>
   fst (tstamp_loop mode True 1 ts ms) = (if \<exists>m \<in> set ms. is_tx_mark m then 0 else -1)"
  by (induction ms arbitrary: ts) (auto simp: is_tx_mark_def cmsg_consts)

lemma tstamp_loop_got_mark:
  "mode \<noteq> USERLAND \<Longrightarrow>
   fst (tstamp_loop mode True 2 ts ms) = (if \<exists>m \<in> set ms. is_stamp mode m then 0 else -1)"
  by (induction ms arbitrary: ts) (auto simp: is_stamp_def cmsg_consts)

lemma tstamp_tx_iff:
  assumes "mode \<noteq> USERLAND"
  shows "fst (tstamp_loop mode True 0 ts ms) =
    (if (\<exists>m \<in> set ms. is_stamp mode m) \<and> (\<exists>m \<in> set ms. is_tx_mark m) then 0 else -1)"
proof (induction ms arbitrary: ts)
  case Nil
  then show ?case by simp
next
  case (Cons m ms)
  consider (stamp) "is_stamp mode m" | (mark) "is_tx_mark m" "\<not> is_stamp mode m"
    | (other) "\<not> is_stamp mode m" "\<not> is_tx_mark m" by blast
  then show ?case
  proof cases
    case stamp
    then show ?thesis
      using assms tstamp_loop_got_stamp [OF assms] is_stamp_not_mark [OF stamp]
      by (auto simp: is_stamp_def Let_def)
  next
    case mark
    then show ?thesis
      using assms tstamp_loop_got_mark [OF assms, of ts ms]
      by (auto simp: is_tx_mark_def is_stamp_def cmsg_consts)
  next
    case other
    then show ?thesis
      using assms Cons.IH by (auto simp: is_tx_mark_def is_stamp_def cmsg_consts)
  qed
qed

text \<open>The time stamp a successful transmit extraction yields was in one of the messages.\<close>

lemma tstamp_tx_value:
  "mode \<noteq> USERLAND \<Longrightarrow> fst (tstamp_loop mode True ok ts ms) = 0 \<Longrightarrow>
   snd (tstamp_loop mode True ok ts ms) = ts \<or>
   (\<exists>m \<in> set ms. is_stamp mode m \<and> snd (tstamp_loop mode True ok ts ms) = stamp_of mode m)"
proof (induction ms arbitrary: ok ts)
  case Nil
  then show ?case by simp
next
  case (Cons m ms)
  then show ?case
    by (cases mode) (fastforce simp: is_stamp_def stamp_of_def Let_def split: if_splits)+
qed

lemma recv_w_ts_rx:
  "rx_len r = DATALEN \<Longrightarrow> \<exists>p. recv_w_ts mode False r d = Some p \<and> pkt_addr p = rx_addr r \<and>
     pkt_data p = rx_data r \<and> pkt_ts p = snd (tstamp_extract mode False (rx_cmsgs r)) \<and>
     pkt_dscp p = snd (dscp_extract (rx_cmsgs r))"
  by (simp add: recv_w_ts_def split: prod.splits)

lemma fetch_loop_late: "10000 \<le> now - t0 \<Longrightarrow> fetch_loop mode t0 now ps = (-1, ts_zero)"
  by (cases ps) simp_all

lemma fetch_loop_quiet:
  "\<forall>p \<in> set ps. \<not> poll_ready p \<Longrightarrow> fetch_loop mode t0 now ps = (-1, ts_zero)"
  by (induction ps arbitrary: now) auto

lemma fetch_loop_result:
  "fetch_loop mode t0 now ps = (ret, ts) \<Longrightarrow>
     ret = -1 \<and> ts = ts_zero \<or>
     ret = 0 \<and> (\<exists>p \<in> set ps. poll_ready p \<and> rx_len (poll_msg p) = DATALEN \<and>
       tstamp_extract mode True (rx_cmsgs (poll_msg p)) = (0, ts))"
proof (induction ps arbitrary: now)
  case Nil
  then show ?case by simp
next
  case (Cons p ps)
  have ret: "fst (tstamp_loop m tx ok t cs) \<in> {0, -1}" for m tx ok t cs
    by (induction m tx ok t cs rule: tstamp_loop.induct) (auto simp: Let_def)
  show ?case
  proof (cases "if poll_ready p then recv_w_ts mode True (poll_msg p) 0 else None")
    case None
    then show ?thesis using Cons by (fastforce split: if_splits)
  next
    case (Some pkt)
    then show ?thesis
      using Cons.prems ret [of mode True 0 ts_zero "rx_cmsgs (poll_msg p)"]
      by (auto simp: recv_w_ts_def tstamp_extract_def split: if_splits prod.splits)
  qed
qed

lemma push_drop_dscp: "(d :: u8) < 64 \<Longrightarrow> drop_bit 2 (push_bit 2 d) = d"
proof -
  assume "d < 64"
  then have "uint d < 64" by (simp add: word_less_def)
  then have "uint d * 4 mod 256 div 4 = uint d" by simp
  then show ?thesis
    by (simp add: word_uint_eq_iff push_bit_eq_mult drop_bit_eq_div uint_div uint_word_ariths(3))
qed

end
