(* ===== verification/Probed_Stats.thy ===== *)
theory Probed_Stats
  imports Timespec
begin

text \<open>
  The running statistics of \<^verbatim>\<open>SLANG-probed/client.c\<close>: minimum, maximum, mean and sum
  of squared deviations of a series of time differences. The source keeps three copies of
  the same variables (\<^verbatim>\<open>res_rtt_*\<close>, \<^verbatim>\<open>total_rtt_*\<close>, \<^verbatim>\<open>kernel_OH_*\<close>); each is
  one value of the record \<open>acc\<close>. Floating-point arithmetic is the exact operation
  followed by a rounding, and the two roundings (to \<^verbatim>\<open>double\<close> and to \<^verbatim>\<open>float\<close>) are
  parameters.
\<close>

section \<open>Definitions\<close>

record fpu =
  rnd_double :: "real \<Rightarrow> real"
  rnd_float :: "real \<Rightarrow> real"

definition exact_fpu :: fpu where
  "exact_fpu = \<lparr>rnd_double = (\<lambda>x. x), rnd_float = (\<lambda>x. x)\<rparr>"

record acc =
  acc_mean :: real
  acc_delta :: real
  acc_delta2 :: real
  acc_m2 :: real
  acc_min :: timespec
  acc_max :: timespec

definition acc_init :: acc where
  "acc_init = \<lparr>acc_mean = 0, acc_delta = 0, acc_delta2 = 0, acc_m2 = 0,
     acc_min = \<lparr>tv_sec = -1, tv_nsec = 0\<rparr>, acc_max = \<lparr>tv_sec = 0, tv_nsec = 0\<rparr>\<rparr>"

text \<open>The new maximum, then the two assignments to the minimum, in the source's order.\<close>

definition acc_extremes :: "timespec \<Rightarrow> acc \<Rightarrow> acc" where
  "acc_extremes t a =
    (let a1 = (if cmp_ts (acc_max a) t = -1 then a\<lparr>acc_max := t\<rparr> else a);
         a2 = (if tv_sec (acc_min a1) = -1 then a1\<lparr>acc_min := t\<rparr> else a1)
     in if cmp_ts (acc_min a2) t = 1 then a2\<lparr>acc_min := t\<rparr> else a2)"

text \<open>
  The mean and the squared deviations. \<^verbatim>\<open>n\<close> is \<^verbatim>\<open>res_ok\<close> after its increment; the
  sample is a \<^verbatim>\<open>long\<close> converted to \<^verbatim>\<open>double\<close>, the divisor an \<^verbatim>\<open>int\<close> converted to
  \<^verbatim>\<open>float\<close>.
\<close>

definition acc_moments :: "fpu \<Rightarrow> int \<Rightarrow> timespec \<Rightarrow> acc \<Rightarrow> acc" where
  "acc_moments u n t a =
    (let x = rnd_double u (of_int (tv_sec t * 1000000000 + tv_nsec t));
         d = rnd_double u (x - acc_mean a);
         m = rnd_double u (acc_mean a + rnd_double u (d / rnd_float u (of_int n)));
         d2 = rnd_double u (x - m)
     in a\<lparr>acc_delta := d, acc_mean := m, acc_delta2 := d2,
          acc_m2 := rnd_double u (acc_m2 a + rnd_double u (d * d2))\<rparr>)"

definition acc_update :: "fpu \<Rightarrow> int \<Rightarrow> timespec \<Rightarrow> acc \<Rightarrow> acc" where
  "acc_update u n t a = acc_moments u n t (acc_extremes t a)"

text \<open>A whole series: the \<open>k\<close>-th sample is folded in with the count \<open>k\<close>.\<close>

fun acc_run :: "fpu \<Rightarrow> int \<Rightarrow> timespec list \<Rightarrow> acc \<Rightarrow> acc" where
  "acc_run u n [] a = a"
| "acc_run u n (t # ts) a = acc_run u (n + 1) ts (acc_update u (n + 1) t a)"

section \<open>Minimum and maximum\<close>

lemma acc_moments_extremes [simp]:
  "acc_min (acc_moments u n t a) = acc_min a" "acc_max (acc_moments u n t a) = acc_max a"
  by (simp_all add: acc_moments_def Let_def)

lemma acc_extremes_moments [simp]:
  "acc_mean (acc_extremes t a) = acc_mean a" "acc_m2 (acc_extremes t a) = acc_m2 a"
  by (simp_all add: acc_extremes_def Let_def)

lemma acc_max_extremes: "acc_max (acc_extremes t a) = (if cmp_ts (acc_max a) t = -1 then t else acc_max a)"
  by (simp add: acc_extremes_def Let_def)

lemma cmp_ts_refl [simp]: "cmp_ts t t = 0"
  by (simp add: cmp_ts_def)

lemma acc_min_extremes:
  "acc_min (acc_extremes t a) =
     (if tv_sec (acc_min a) = -1 then t
      else if cmp_ts (acc_min a) t = 1 then t else acc_min a)"
  by (simp add: acc_extremes_def Let_def)

definition ts_sample :: "timespec \<Rightarrow> bool" where
  "ts_sample t \<longleftrightarrow> ts_ok t \<and> 0 \<le> tv_sec t"

lemma ts_sampleD: "ts_sample t \<Longrightarrow> ts_ok t" "ts_sample t \<Longrightarrow> 0 \<le> tv_sec t" "ts_sample t \<Longrightarrow> 0 \<le> ts_ns t"
  by (simp_all add: ts_sample_def ts_ns_nonneg)

lemma diff_ts_sample: "ts_ok a \<Longrightarrow> ts_ok b \<Longrightarrow> ts_sample (fst (diff_ts a b))"
  by (simp add: ts_sample_def diff_ts_ok diff_ts_sec_nonneg)

definition acc_bounded :: "acc \<Rightarrow> bool" where
  "acc_bounded a \<longleftrightarrow> ts_sample (acc_min a) \<and> ts_sample (acc_max a)"

lemma acc_update_bounded:
  assumes "acc_bounded a" and "ts_sample t"
  shows "acc_bounded (acc_update u n t a)"
    and "ts_ns (acc_max (acc_update u n t a)) = max (ts_ns (acc_max a)) (ts_ns t)"
    and "ts_ns (acc_min (acc_update u n t a)) = min (ts_ns (acc_min a)) (ts_ns t)"
proof -
  from assms have ok: "ts_ok (acc_min a)" "ts_ok (acc_max a)" "ts_ok t" "0 \<le> tv_sec (acc_min a)"
    by (auto simp: acc_bounded_def dest: ts_sampleD)
  show "acc_bounded (acc_update u n t a)"
    using assms by (auto simp: acc_bounded_def acc_update_def acc_max_extremes acc_min_extremes)
  show "ts_ns (acc_max (acc_update u n t a)) = max (ts_ns (acc_max a)) (ts_ns t)"
    using ts_cmp.keep_max [OF ok(2,3)] by (simp add: acc_update_def acc_max_extremes)
  show "ts_ns (acc_min (acc_update u n t a)) = min (ts_ns (acc_min a)) (ts_ns t)"
    using ok(4) ts_cmp.keep_min [OF ok(1,3)] by (simp add: acc_update_def acc_min_extremes)
qed

lemma acc_run_bounded:
  "acc_bounded a \<Longrightarrow> \<forall>t \<in> set ts. ts_sample t \<Longrightarrow>
   ts_ns (acc_max (acc_run u n ts a)) = fold max (map ts_ns ts) (ts_ns (acc_max a)) \<and>
   ts_ns (acc_min (acc_run u n ts a)) = fold min (map ts_ns ts) (ts_ns (acc_min a))"
proof (induction ts arbitrary: n a)
  case Nil
  then show ?case by simp
next
  case (Cons t ts)
  then have t: "ts_sample t" by simp
  note b = acc_update_bounded [OF Cons.prems(1) t]
  show ?case
    using Cons.IH [OF b(1)] Cons.prems(2)
    by (simp add: b(2,3) max.commute min.commute)
qed

lemma acc_first:
  assumes "ts_sample t"
  shows "acc_bounded (acc_update u n t acc_init)"
    and "ts_ns (acc_max (acc_update u n t acc_init)) = ts_ns t"
    and "ts_ns (acc_min (acc_update u n t acc_init)) = ts_ns t"
proof -
  have init: "ts_ok (acc_max acc_init)" "ts_sample (acc_max acc_init)" "ts_ns (acc_max acc_init) = 0"
    "tv_sec (acc_min acc_init) = -1"
    by (simp_all add: acc_init_def ts_ok_def ts_ns_def ts_sample_def)
  show "acc_bounded (acc_update u n t acc_init)"
    using assms init by (auto simp: acc_bounded_def acc_update_def acc_max_extremes acc_min_extremes)
  show "ts_ns (acc_max (acc_update u n t acc_init)) = ts_ns t"
    using ts_cmp.keep_max [OF init(1) ts_sampleD(1) [OF assms]] ts_sampleD(3) [OF assms] init(3)
    by (simp add: acc_update_def acc_max_extremes)
  show "ts_ns (acc_min (acc_update u n t acc_init)) = ts_ns t"
    using init(4) by (simp add: acc_update_def acc_min_extremes)
qed

lemma fold_max_Max: "fold max xs (x :: int) = Max (set (x # xs))"
  by (metis Max.set_eq_fold)

lemma fold_min_Min: "fold min xs (x :: int) = Min (set (x # xs))"
  by (metis Min.set_eq_fold)

section \<open>Mean and squared deviations in exact arithmetic\<close>

abbreviation xval :: "timespec \<Rightarrow> real" where
  "xval t \<equiv> of_int (ts_ns t)"

definition sq_dev :: "real \<Rightarrow> timespec list \<Rightarrow> real" where
  "sq_dev m ts = (\<Sum>t \<leftarrow> ts. (xval t - m)\<^sup>2)"

definition acc_summary :: "timespec list \<Rightarrow> acc \<Rightarrow> bool" where
  "acc_summary ts a \<longleftrightarrow>
     acc_mean a * real (length ts) = (\<Sum>t \<leftarrow> ts. xval t) \<and> acc_m2 a = sq_dev (acc_mean a) ts"

text \<open>Moving the centre from the old mean of \<open>n\<close> samples to any other point.\<close>

lemma sq_dev_shift:
  "sq_dev m' ts = sq_dev m ts + 2 * (m - m') * ((\<Sum>t \<leftarrow> ts. xval t) - m * real (length ts))
     + real (length ts) * (m - m')\<^sup>2"
  unfolding sq_dev_def by (induction ts) (simp_all add: algebra_simps power2_eq_square)

lemma sq_dev_append [simp]: "sq_dev m (ts @ us) = sq_dev m ts + sq_dev m us"
  by (simp add: sq_dev_def)

lemma welford_step:
  fixes x m m' k :: real
  assumes m': "m' = m + (x - m) / (k + 1)" and k: "k + 1 \<noteq> 0"
  shows "(x - m) * (x - m') = k * (m - m')\<^sup>2 + (x - m')\<^sup>2" and "m' * (k + 1) = m * k + x"
proof -
  have e: "(m' - m) * (k + 1) = x - m" using m' k by simp
  then show "m' * (k + 1) = m * k + x" by (simp add: algebra_simps)
  have "x - m' = k * (m' - m)" using e by (simp add: algebra_simps)
  then show "(x - m) * (x - m') = k * (m - m')\<^sup>2 + (x - m')\<^sup>2"
    using e by (simp add: power2_eq_square) algebra
qed

lemma acc_update_summary:
  assumes "acc_summary ts a"
  shows "acc_summary (ts @ [t]) (acc_update exact_fpu (int (length ts) + 1) t a)"
proof -
  let ?k = "real (length ts)" and ?x = "xval t" and ?m = "acc_mean a"
  let ?a = "acc_update exact_fpu (int (length ts) + 1) t a"
  let ?m' = "acc_mean ?a"
  have m': "?m' = ?m + (?x - ?m) / (?k + 1)"
    by (simp add: acc_update_def acc_moments_def exact_fpu_def ts_ns_def Let_def)
  have m2: "acc_m2 ?a = acc_m2 a + (?x - ?m) * (?x - ?m')"
    by (simp add: acc_update_def acc_moments_def exact_fpu_def ts_ns_def Let_def)
  have k: "?k + 1 \<noteq> 0" by (simp add: add_nonneg_eq_0_iff)
  note w = welford_step [OF m' k]
  have mean: "?m * ?k = (\<Sum>t \<leftarrow> ts. xval t)" and dev: "acc_m2 a = sq_dev ?m ts"
    using assms by (simp_all add: acc_summary_def)
  have "sq_dev ?m' ts = sq_dev ?m ts + ?k * (?m - ?m')\<^sup>2"
    by (subst sq_dev_shift [of ?m' ts ?m]) (simp add: mean)
  then have "acc_m2 ?a = sq_dev ?m' (ts @ [t])"
    unfolding m2 dev w(1) by (simp add: sq_dev_def)
  moreover have "?m' * real (length (ts @ [t])) = (\<Sum>t \<leftarrow> ts @ [t]. xval t)"
    using w(2) mean by (simp add: add.commute)
  ultimately show ?thesis by (simp add: acc_summary_def)
qed

lemma acc_run_summary:
  "acc_summary us a \<Longrightarrow> acc_summary (us @ ts) (acc_run exact_fpu (int (length us)) ts a)"
proof (induction ts arbitrary: us a)
  case Nil
  then show ?case by simp
next
  case (Cons t ts)
  have "int (length us) + 1 = int (length (us @ [t]))" by simp
  then show ?case
    using Cons.IH [OF acc_update_summary [OF Cons.prems, of t]] by (simp add: add.commute)
qed

lemma acc_init_summary: "acc_summary [] acc_init"
  by (simp add: acc_summary_def acc_init_def sq_dev_def)

end
