(* ===== verification/Probed_Client.thy ===== *)
theory Probed_Client
  imports Probed_Net Probed_Stats
begin

unbundle bit_operations_syntax

text \<open>
  The client side of \<^verbatim>\<open>SLANG-probed\<close> (\<^verbatim>\<open>client.c\<close>): measurement sessions, the list of
  outstanding probes of each session, the update of a probe when a PONG or a TCP time
  stamp arrives, its report (to the FIFO in daemon mode, to the counters and statistics
  in client mode), the removal of timed-out probes, the FIFO queue, and the transmission
  of PINGs. System calls are inputs: the environment \<open>sys\<close> says what the \<open>n\<close>-th system
  call of the run returns, and \<open>tick\<close> in the state counts the calls made.
\<close>

section \<open>State\<close>

definition MASK_PING :: u32 where "MASK_PING = 1"
definition MASK_PONG :: u32 where "MASK_PONG = 2"
definition MASK_TIME :: u32 where "MASK_TIME = 4"
definition MASK_DONE :: u32 where "MASK_DONE = 7"
definition MASK_DSCP :: u32 where "MASK_DSCP = 8"

definition STATE_SUCCESS :: u32 where "STATE_SUCCESS = 1"
definition STATE_DS_ERR :: u32 where "STATE_DS_ERR = 2"
definition STATE_TS_ERR :: u32 where "STATE_TS_ERR = 3"
definition STATE_PONGLOSS :: u32 where "STATE_PONGLOSS = 4"
definition STATE_TIMEOUT :: u32 where "STATE_TIMEOUT = 5"
definition STATE_DUP :: u32 where "STATE_DUP = 6"

definition TIMEOUT :: int where "TIMEOUT = 10"

lemmas mask_defs = MASK_PING_def MASK_PONG_def MASK_TIME_def MASK_DONE_def MASK_DSCP_def
lemmas state_defs = STATE_SUCCESS_def STATE_DS_ERR_def STATE_TS_ERR_def STATE_PONGLOSS_def
  STATE_TIMEOUT_def STATE_DUP_def

record res =
  created :: timespec
  r_state :: u32
  r_addr :: in6_addr
  r_id :: u32
  r_seq :: u32
  r_ts :: "timespec list"

record msess =
  s_id :: u32
  res_head :: "res list"
  s_dst :: addr_t
  msec_interval :: int
  s_timeout :: int
  got_hello :: int
  s_dscp :: u8
  child_pid :: int
  last_seq :: u32

record res_fifo =
  f_id :: u32
  f_seq :: u32
  f_state :: u32
  f_created_sec :: u32
  f_created_nsec :: u32
  f_rtt_sec :: u32
  f_rtt_nsec :: u32

text \<open>One line of standard output of client mode, with the values it prints.\<close>

datatype line =
    Error_Timestamps u32 u32
  | Error_DSCP u32 u32 int
  | Negative_RTT int int int
  | Response u32 u32 timespec timespec timespec
  | Error_Missing_T2T3 u32 u32 int
  | Timeout_Missing_Pong u32 u32 int
  | Timeout_Missing_All u32 u32 int
  | Error_Unknown u32 u32
  | Unknown_Dup u32 u32

record client =
  cfg_op :: opmode
  cfg_ts :: tsmode
  msess_head :: "msess list"
  fifoq_head :: "res_fifo list"
  count_client_sent :: int
  count_client_done :: int
  count_client_find :: int
  count_client_fifoq :: int
  count_client_fifoq_max :: int
  last_tx_id :: u32
  last_tx_seq :: u32
  res_ok :: int
  res_timeout :: int
  res_pongloss :: int
  res_tserror :: int
  res_dserror :: int
  res_dup :: int
  res_thold :: int
  res_n_thold :: int
  res_rtt :: acc
  total_rtt :: acc
  kernel_OH :: acc
  tick :: nat
  fifo_out :: "res_fifo list"
  stdout :: "line list"
  sigint :: bool
  kills :: "int list"

text \<open>
  The environment: the outcome of the \<open>n\<close>-th system call of the run, by kind of call,
  and the floating-point unit. \<open>fifo_out\<close>, \<open>stdout\<close>, \<open>sigint\<close> and \<open>kills\<close> of the state
  record what was written to the FIFO, what was printed, whether \<^verbatim>\<open>raise(SIGINT)\<close> was
  called, and the process identifiers given to \<^verbatim>\<open>kill\<close>.
\<close>

record sys =
  sys_write :: "nat \<Rightarrow> bool"
  sys_malloc :: "nat \<Rightarrow> bool"
  sys_clock :: "nat \<Rightarrow> timespec"
  sys_tx :: "nat \<Rightarrow> tx_env"
  sys_fork :: "nat \<Rightarrow> int"
  sys_fpu :: fpu

definition client_init :: "opmode \<Rightarrow> tsmode \<Rightarrow> client" where
  "client_init op ts = \<lparr>cfg_op = op, cfg_ts = ts, msess_head = [], fifoq_head = [],
     count_client_sent = 0, count_client_done = 0, count_client_find = 0,
     count_client_fifoq = 0, count_client_fifoq_max = 0, last_tx_id = 0, last_tx_seq = 0,
     res_ok = 0, res_timeout = 0, res_pongloss = 0, res_tserror = 0, res_dserror = 0,
     res_dup = 0, res_thold = -1, res_n_thold = 0,
     res_rtt = acc_init, total_rtt = acc_init, kernel_OH = acc_init,
     tick = 0, fifo_out = [], stdout = [], sigint = False, kills = []\<rparr>"

abbreviation say :: "line \<Rightarrow> client \<Rightarrow> client" where
  "say l c \<equiv> c\<lparr>stdout := stdout c @ [l]\<rparr>"

section \<open>The FIFO of daemon mode\<close>

text \<open>
  The first loop of \<^verbatim>\<open>client_write_fifo\<close>: write queued results until a write fails.
  The result is the number of calls made, what was written and what stays queued.
\<close>

fun fifo_flush :: "(nat \<Rightarrow> bool) \<Rightarrow> nat \<Rightarrow> res_fifo list \<Rightarrow> nat \<times> res_fifo list \<times> res_fifo list" where
  "fifo_flush wr n [] = (n, [], [])"
| "fifo_flush wr n (q # qs) =
    (if \<not> wr n then (Suc n, [], q # qs)
     else (let (n', out, rest) = fifo_flush wr (Suc n) qs in (n', q # out, rest)))"

definition client_write_fifo :: "sys \<Rightarrow> res_fifo \<Rightarrow> client \<Rightarrow> client" where
  "client_write_fifo e r c =
    (let (n, out, rest) = fifo_flush (sys_write e) (tick c) (fifoq_head c);
         c1 = c\<lparr>tick := n, fifo_out := fifo_out c @ out, fifoq_head := rest,
                count_client_fifoq := count_client_fifoq c - int (length out)\<rparr>;
         c2 = c1\<lparr>tick := Suc n\<rparr>
     in if sys_write e n then c2\<lparr>fifo_out := fifo_out c2 @ [r]\<rparr>
        else
          (let c3 = c2\<lparr>tick := Suc (Suc n)\<rparr>
           in if \<not> sys_malloc e (Suc n) then c3
              else (let k = count_client_fifoq c3 + 1
                    in c3\<lparr>fifoq_head := fifoq_head c3 @ [r], count_client_fifoq := k,
                          count_client_fifoq_max := max (count_client_fifoq_max c3) k\<rparr>)))"

section \<open>Inserting a probe\<close>

text \<open>
  \<^verbatim>\<open>client_res_insert\<close> keeps the \<^emph>\<open>last\<close> session of the list whose identifier matches,
  and puts the new probe at the head of its list.
\<close>

definition client_res_insert :: "sys \<Rightarrow> addr_t \<Rightarrow> data_t \<Rightarrow> timespec \<Rightarrow> client \<Rightarrow> client" where
  "client_res_insert e a d ts c =
    (case find_last (\<lambda>s. s_id s = d_id d) (msess_head c) of
       None \<Rightarrow> c
     | Some _ \<Rightarrow>
         (if \<not> sys_malloc e (tick c) then c\<lparr>tick := Suc (tick c)\<rparr>
          else
            (let r = \<lparr>created = sys_clock e (Suc (tick c)), r_state = MASK_PING,
                      r_addr = sin6_addr a, r_id = d_id d, r_seq = d_seq d,
                      r_ts = [ts, ts_zero, ts_zero, ts_zero]\<rparr>
             in c\<lparr>tick := Suc (Suc (tick c)),
                  msess_head := upd_last (\<lambda>s. s_id s = d_id d)
                     (\<lambda>s. [s\<lparr>res_head := r # res_head s\<rparr>]) (msess_head c)\<rparr>)))"

section \<open>Updating a probe\<close>

definition res_match :: "addr_t \<Rightarrow> data_t \<Rightarrow> res \<Rightarrow> bool" where
  "res_match a d r \<longleftrightarrow> r_id r = d_id d \<and> r_seq r = d_seq d \<and> r_addr r = sin6_addr a"

text \<open>
  The time stamps and the state mask of a matching probe. \<open>ts\<close> is the pointer argument
  (\<open>None\<close> for \<^verbatim>\<open>NULL\<close>); \<open>dscp\<close> is the \<^verbatim>\<open>int\<close> argument, cast to \<^verbatim>\<open>uint8_t\<close>.
\<close>

definition res_apply :: "u8 \<Rightarrow> data_t \<Rightarrow> timespec option \<Rightarrow> int \<Rightarrow> res \<Rightarrow> res" where
  "res_apply sdscp d ts dscp r =
    (if d_type d = TYPE_PONG then
       (let r1 = r\<lparr>r_state := r_state r OR MASK_PONG\<rparr>;
            r2 = (case ts of None \<Rightarrow> r1 | Some t \<Rightarrow> r1\<lparr>r_ts := (r_ts r1)[3 := t]\<rparr>)
        in if sdscp \<noteq> word_of_int dscp then r2\<lparr>r_state := r_state r2 OR MASK_DSCP\<rparr> else r2)
     else if d_type d = TYPE_TIME then
       r\<lparr>r_state := r_state r OR MASK_TIME,
         r_ts := ((r_ts r)[1 := d_t2 d])[2 := d_t3 d]\<rparr>
     else r)"

definition res_done :: "res \<Rightarrow> bool" where
  "res_done r \<longleftrightarrow> r_state r AND MASK_DONE = MASK_DONE"

text \<open>The three differences: T4 - T1, T3 - T2, and the difference of the two.\<close>

definition res_total :: "res \<Rightarrow> timespec \<times> int" where
  "res_total r = diff_ts (r_ts r ! 3) (r_ts r ! 0)"

definition res_overhead :: "res \<Rightarrow> timespec \<times> int" where
  "res_overhead r = diff_ts (r_ts r ! 2) (r_ts r ! 1)"

definition res_nic :: "res \<Rightarrow> timespec \<times> int" where
  "res_nic r = diff_ts (fst (res_total r)) (fst (res_overhead r))"

definition ts_missing :: "timespec \<Rightarrow> bool" where
  "ts_missing t \<longleftrightarrow> tv_sec t = 0 \<and> tv_nsec t = 0"

text \<open>The result record of a finished probe, its state code after all the checks.\<close>

definition fifo_of_res :: "res \<Rightarrow> res_fifo" where
  "fifo_of_res r =
    (let rtt = fst (res_nic r);
         st1 = (if r_state r AND MASK_DSCP \<noteq> 0 then STATE_DS_ERR else STATE_SUCCESS);
         st2 = (if snd (res_total r) \<noteq> 0 \<or> snd (res_overhead r) \<noteq> 0 \<or> snd (res_nic r) \<noteq> 0
                then STATE_TS_ERR else st1);
         st3 = (if list_ex (\<lambda>i. ts_missing (r_ts r ! i)) [0, 1, 2, 3] then STATE_TS_ERR else st2);
         st4 = (if st3 = STATE_SUCCESS \<and> to_u32 (tv_sec rtt) > 20 then STATE_TS_ERR else st3)
     in \<lparr>f_id = r_id r, f_seq = r_seq r, f_state = st4,
         f_created_sec = to_u32 (tv_sec (created r)),
         f_created_nsec = to_u32 (tv_nsec (created r)),
         f_rtt_sec = to_u32 (tv_sec rtt), f_rtt_nsec = to_u32 (tv_nsec rtt)\<rparr>)"

text \<open>The success branch of client mode: counters, the three statistics, the threshold.\<close>

definition report_ok :: "sys \<Rightarrow> int \<Rightarrow> res \<Rightarrow> client \<Rightarrow> client" where
  "report_ok e thold r c =
    (let (diff, neg1) = res_total r; (now, neg2) = res_overhead r; (rtt, neg3) = res_nic r;
         n = res_ok c + 1;
         c0 = c\<lparr>res_ok := n\<rparr>;
         c1 = (if neg1 \<noteq> 0 \<or> neg2 \<noteq> 0 \<or> neg3 \<noteq> 0 then say (Negative_RTT neg1 neg2 neg3) c0 else c0);
         c2 = say (Response (r_seq r) (r_id r) rtt diff now) c1;
         c3 = c2\<lparr>res_rtt := acc_update (sys_fpu e) n rtt (res_rtt c2),
                 total_rtt := acc_update (sys_fpu e) n diff (total_rtt c2),
                 kernel_OH := acc_update (sys_fpu e) n now (kernel_OH c2)\<rparr>;
         c4 = (if res_thold c3 < 0 then c3\<lparr>res_thold := thold\<rparr> else c3)
     in if ts_ns rtt > res_thold c4 then c4\<lparr>res_n_thold := res_n_thold c4 + 1\<rparr> else c4)"

definition report_done :: "sys \<Rightarrow> int \<Rightarrow> res \<Rightarrow> client \<Rightarrow> client" where
  "report_done e thold r c =
    (let f = fifo_of_res r;
         c1 = c\<lparr>count_client_done := count_client_done c + 1\<rparr>;
         c2 = (if cfg_op c1 = DAEMON then client_write_fifo e f c1 else c1)
     in if cfg_op c2 = CLIENT then
          (if f_state f = STATE_TS_ERR then
             say (Error_Timestamps (r_seq r) (r_id r)) (c2\<lparr>res_tserror := res_tserror c2 + 1\<rparr>)
           else if f_state f = STATE_DS_ERR then
             say (Error_DSCP (r_seq r) (r_id r) (tv_sec (fst (res_total r))))
               (c2\<lparr>res_dserror := res_dserror c2 + 1\<rparr>)
           else report_ok e thold r c2)
        else c2)"

text \<open>
  The second part of \<^verbatim>\<open>client_res_update\<close>, reached when no probe matches: a PONG whose
  sequence number was sent before is reported as a duplicate.
\<close>

definition is_dup :: "addr_t \<Rightarrow> data_t \<Rightarrow> msess \<Rightarrow> bool" where
  "is_dup a d s \<longleftrightarrow> sin6_addr (s_dst s) = sin6_addr a \<and> d_type d = TYPE_PONG \<and>
     s_id s = d_id d \<and> last_seq s \<ge> d_seq d"

definition report_dup :: "sys \<Rightarrow> addr_t \<Rightarrow> data_t \<Rightarrow> client \<Rightarrow> client" where
  "report_dup e a d c =
    (if \<not> list_ex (is_dup a d) (msess_head c) then c
     else
       (let now = sys_clock e (tick c);
            c1 = c\<lparr>tick := Suc (tick c)\<rparr>;
            f = \<lparr>f_id = d_id d, f_seq = d_seq d, f_state = STATE_DUP,
                 f_created_sec = to_u32 (tv_sec now), f_created_nsec = to_u32 (tv_nsec now),
                 f_rtt_sec = 0, f_rtt_nsec = 0\<rparr>;
            c2 = (if cfg_op c1 = DAEMON then client_write_fifo e f c1 else c1)
        in if cfg_op c2 = CLIENT
           then say (Unknown_Dup (d_seq d) (d_id d)) (c2\<lparr>res_dup := res_dup c2 + 1\<rparr>) else c2))"

text \<open>How many probes the search of the list looks at.\<close>

fun scan_count :: "('a \<Rightarrow> bool) \<Rightarrow> 'a list \<Rightarrow> int" where
  "scan_count p [] = 0"
| "scan_count p (x # xs) = (if p x then 1 else 1 + scan_count p xs)"

definition set_sess_res :: "u32 \<Rightarrow> (res list \<Rightarrow> res list) \<Rightarrow> client \<Rightarrow> client" where
  "set_sess_res i g c = c\<lparr>msess_head := upd_first (\<lambda>s. s_id s = i)
     (\<lambda>s. [s\<lparr>res_head := g (res_head s)\<rparr>]) (msess_head c)\<rparr>"

text \<open>
  \<^verbatim>\<open>client_res_update\<close> searches the \<^emph>\<open>first\<close> session whose identifier matches. After
  a match it compares \<^verbatim>\<open>res_ok\<close> with the number of packets asked for.
\<close>

definition client_res_update ::
    "sys \<Rightarrow> addr_t \<Rightarrow> data_t \<Rightarrow> timespec option \<Rightarrow> int \<Rightarrow> int \<Rightarrow> int \<Rightarrow> client \<Rightarrow> client" where
  "client_res_update e a d ts dscp npackets thold c =
    (case List.find (\<lambda>s. s_id s = d_id d) (msess_head c) of
       None \<Rightarrow> c
     | Some s \<Rightarrow>
         (let c0 = c\<lparr>count_client_find := scan_count (res_match a d) (res_head s)\<rparr>
          in case List.find (res_match a d) (res_head s) of
               None \<Rightarrow> report_dup e a d c0
             | Some r \<Rightarrow>
                 (let r' = res_apply (s_dscp s) d ts dscp r;
                      c1 = (if res_done r'
                            then set_sess_res (d_id d) (upd_first (res_match a d) (\<lambda>_. []))
                                   (report_done e thold r' c0)
                            else set_sess_res (d_id d) (upd_first (res_match a d) (\<lambda>_. [r'])) c0)
                  in if res_ok c1 \<ge> npackets then c1\<lparr>sigint := True\<rparr> else c1)))"

section \<open>Removing timed-out probes\<close>

definition timeout_state :: "res \<Rightarrow> u32" where
  "timeout_state r =
    (if r_state r AND MASK_TIME \<noteq> 0 then STATE_PONGLOSS
     else if r_state r AND MASK_PONG \<noteq> 0 then STATE_TS_ERR
     else STATE_TIMEOUT)"

definition report_timeout :: "sys \<Rightarrow> timespec \<Rightarrow> res \<Rightarrow> client \<Rightarrow> client" where
  "report_timeout e now r c =
    (let sec = tv_sec (fst (diff_ts now (created r)));
         st = timeout_state r;
         f = \<lparr>f_id = r_id r, f_seq = r_seq r, f_state = st,
              f_created_sec = to_u32 (tv_sec (created r)),
              f_created_nsec = to_u32 (tv_nsec (created r)), f_rtt_sec = 0, f_rtt_nsec = 0\<rparr>;
         c1 = c\<lparr>count_client_done := count_client_done c + 1\<rparr>;
         c2 = (if cfg_op c1 = DAEMON then client_write_fifo e f c1 else c1)
     in if cfg_op c2 = CLIENT then
          (if st = STATE_TS_ERR then
             say (Error_Missing_T2T3 (r_seq r) (r_id r) sec) (c2\<lparr>res_tserror := res_tserror c2 + 1\<rparr>)
           else if st = STATE_PONGLOSS then
             say (Timeout_Missing_Pong (r_seq r) (r_id r) sec) (c2\<lparr>res_pongloss := res_pongloss c2 + 1\<rparr>)
           else if st = STATE_TIMEOUT then
             say (Timeout_Missing_All (r_seq r) (r_id r) sec) (c2\<lparr>res_timeout := res_timeout c2 + 1\<rparr>)
           else say (Error_Unknown (r_seq r) (r_id r)) c2)
        else c2)"

definition res_old :: "timespec \<Rightarrow> res \<Rightarrow> bool" where
  "res_old now r \<longleftrightarrow> \<not> tv_sec (fst (diff_ts now (created r))) \<le> TIMEOUT"

text \<open>
  The inner loop walks the list of a session from its tail, reports and removes old
  probes, and stops at the first young one. Its argument is the reversed list.
\<close>

fun clear_rev :: "sys \<Rightarrow> timespec \<Rightarrow> res list \<Rightarrow> client \<Rightarrow> res list \<times> client" where
  "clear_rev e now [] c = ([], c)"
| "clear_rev e now (r # rs) c =
    (if \<not> res_old now r then (r # rs, c) else clear_rev e now rs (report_timeout e now r c))"

fun clear_sessions :: "sys \<Rightarrow> timespec \<Rightarrow> msess list \<Rightarrow> client \<Rightarrow> msess list \<times> client" where
  "clear_sessions e now [] c = ([], c)"
| "clear_sessions e now (s # ss) c =
    (let (rs, c1) = clear_rev e now (rev (res_head s)) c;
         (ss', c2) = clear_sessions e now ss c1
     in (s\<lparr>res_head := rev rs\<rparr> # ss', c2))"

definition client_res_clear_timeouts :: "sys \<Rightarrow> client \<Rightarrow> client" where
  "client_res_clear_timeouts e c =
    (let now = sys_clock e (tick c);
         (ss, c1) = clear_sessions e now (msess_head c) (c\<lparr>tick := Suc (tick c)\<rparr>)
     in c1\<lparr>msess_head := ss\<rparr>)"

section \<open>Measurement sessions\<close>

definition msess_zero :: msess where
  "msess_zero = \<lparr>s_id = 0, res_head = [], s_dst = \<lparr>sin6_addr = 0, sin6_port = 0\<rparr>,
     msec_interval = 0, s_timeout = 0, got_hello = 0, s_dscp = 0, child_pid = 0, last_seq = 0\<rparr>"

text \<open>
  \<^verbatim>\<open>client_msess_add\<close>; \<open>addr\<close> is what \<^verbatim>\<open>getaddrinfo\<close> yields (\<open>None\<close> where it
  returns a negative value).
\<close>

definition client_msess_add ::
    "sys \<Rightarrow> addr_t option \<Rightarrow> u8 \<Rightarrow> int \<Rightarrow> u32 \<Rightarrow> client \<Rightarrow> int \<times> client" where
  "client_msess_add e addr dscp wait i c =
    (let c1 = c\<lparr>tick := Suc (tick c)\<rparr>
     in if \<not> sys_malloc e (tick c) then (-1, c1)
        else (case addr of
                None \<Rightarrow> (-1, c1)
              | Some a \<Rightarrow> (0, c1\<lparr>msess_head :=
                   msess_zero\<lparr>s_id := i, s_dscp := dscp, msec_interval := wait, s_dst := a\<rparr>
                   # msess_head c1\<rparr>)))"

text \<open>One session of \<^verbatim>\<open>client_msess_transmit\<close>; \<open>k\<close> is its position in the list.\<close>

definition transmit_one :: "sys \<Rightarrow> int \<Rightarrow> nat \<Rightarrow> client \<Rightarrow> client" where
  "transmit_one e sends k c =
    (let s = msess_head c ! k
     in if got_hello s \<noteq> 1 then c
        else if msec_interval s < 1 then c
        else if c_mod sends (msec_interval s) = 0 then
          (let q = last_seq s + 1;
               tx = data_zero\<lparr>d_type := TYPE_PING, d_id := s_id s, d_seq := q\<rparr>;
               c1 = c\<lparr>count_client_sent := count_client_sent c + 1,
                      msess_head := (msess_head c)[k := s\<lparr>last_seq := q\<rparr>],
                      last_tx_id := s_id s, last_tx_seq := q, tick := Suc (tick c)\<rparr>;
               (ret, ts) = send_w_ts (cfg_ts c) (sys_tx e (tick c))
           in if ret < 0 then c1 else client_res_insert e (s_dst s) tx ts c1)
        else c)"

definition client_msess_transmit :: "sys \<Rightarrow> int \<Rightarrow> client \<Rightarrow> client" where
  "client_msess_transmit e sends c =
     fold (transmit_one e sends) [0..<length (msess_head c)] c"

definition client_msess_gothello :: "addr_t \<Rightarrow> client \<Rightarrow> int \<times> client" where
  "client_msess_gothello a c =
    (let hit = (\<lambda>s. sin6_addr a = sin6_addr (s_dst s))
     in (if list_ex hit (msess_head c) then 0 else -1,
         c\<lparr>msess_head := map (\<lambda>s. if hit s then s\<lparr>got_hello := 1\<rparr> else s) (msess_head c)\<rparr>))"

definition client_msess_isaddrtaken :: "addr_t \<Rightarrow> u32 \<Rightarrow> msess list \<Rightarrow> int" where
  "client_msess_isaddrtaken a i ss =
    (if list_ex (\<lambda>s. s_id s \<noteq> i \<and> child_pid s \<noteq> 0 \<and> sin6_addr a = sin6_addr (s_dst s)) ss
     then 1 else 0)"

text \<open>
  \<^verbatim>\<open>client_fork\<close> as its caller sees it: the value of \<^verbatim>\<open>fork()\<close>, or -1 where the
  address cannot be printed; both are what the environment says.
\<close>

definition forkall_one :: "sys \<Rightarrow> nat \<Rightarrow> client \<Rightarrow> client" where
  "forkall_one e k c =
    (let s = msess_head c ! k
     in if client_msess_isaddrtaken (s_dst s) (s_id s) (msess_head c) = 1 then c
        else c\<lparr>msess_head := (msess_head c)[k := s\<lparr>child_pid := sys_fork e (tick c)\<rparr>],
               tick := Suc (tick c)\<rparr>)"

definition client_msess_forkall :: "sys \<Rightarrow> client \<Rightarrow> client" where
  "client_msess_forkall e c = fold (forkall_one e) [0..<length (msess_head c)] c"

section \<open>Frame facts: what an operation leaves alone\<close>

lemma client_write_fifo_frame [simp]:
  "cfg_op (client_write_fifo e r c) = cfg_op c"
  "msess_head (client_write_fifo e r c) = msess_head c"
  "count_client_done (client_write_fifo e r c) = count_client_done c"
  "res_ok (client_write_fifo e r c) = res_ok c"
  "res_timeout (client_write_fifo e r c) = res_timeout c"
  "res_pongloss (client_write_fifo e r c) = res_pongloss c"
  "res_tserror (client_write_fifo e r c) = res_tserror c"
  "res_dserror (client_write_fifo e r c) = res_dserror c"
  "res_dup (client_write_fifo e r c) = res_dup c"
  "res_thold (client_write_fifo e r c) = res_thold c"
  "res_n_thold (client_write_fifo e r c) = res_n_thold c"
  "res_rtt (client_write_fifo e r c) = res_rtt c"
  "stdout (client_write_fifo e r c) = stdout c"
  "kills (client_write_fifo e r c) = kills c"
  by (simp_all add: client_write_fifo_def Let_def split: prod.splits)

lemma report_ok_frame [simp]:
  "cfg_op (report_ok e th r c) = cfg_op c"
  "msess_head (report_ok e th r c) = msess_head c"
  "fifoq_head (report_ok e th r c) = fifoq_head c"
  "fifo_out (report_ok e th r c) = fifo_out c"
  "count_client_fifoq (report_ok e th r c) = count_client_fifoq c"
  "count_client_fifoq_max (report_ok e th r c) = count_client_fifoq_max c"
  "count_client_done (report_ok e th r c) = count_client_done c"
  "res_ok (report_ok e th r c) = res_ok c + 1"
  "res_timeout (report_ok e th r c) = res_timeout c"
  "res_pongloss (report_ok e th r c) = res_pongloss c"
  "res_tserror (report_ok e th r c) = res_tserror c"
  "res_dserror (report_ok e th r c) = res_dserror c"
  "kills (report_ok e th r c) = kills c"
  by (simp_all add: report_ok_def Let_def split: prod.splits)

lemma report_ok_stats:
  "res_rtt (report_ok e th r c) = acc_update (sys_fpu e) (res_ok c + 1) (fst (res_nic r)) (res_rtt c)"
  "total_rtt (report_ok e th r c) = acc_update (sys_fpu e) (res_ok c + 1) (fst (res_total r)) (total_rtt c)"
  "kernel_OH (report_ok e th r c) = acc_update (sys_fpu e) (res_ok c + 1) (fst (res_overhead r)) (kernel_OH c)"
  by (simp_all add: report_ok_def Let_def split: prod.splits)

lemma report_done_frame [simp]:
  "cfg_op (report_done e th r c) = cfg_op c"
  "msess_head (report_done e th r c) = msess_head c"
  "count_client_done (report_done e th r c) = count_client_done c + 1"
  "kills (report_done e th r c) = kills c"
  by (simp_all add: report_done_def Let_def)

lemma report_timeout_frame [simp]:
  "cfg_op (report_timeout e now r c) = cfg_op c"
  "msess_head (report_timeout e now r c) = msess_head c"
  "count_client_done (report_timeout e now r c) = count_client_done c + 1"
  "kills (report_timeout e now r c) = kills c"
  by (simp_all add: report_timeout_def Let_def)

lemma report_dup_frame [simp]:
  "cfg_op (report_dup e a d c) = cfg_op c"
  "msess_head (report_dup e a d c) = msess_head c"
  "count_client_done (report_dup e a d c) = count_client_done c"
  "kills (report_dup e a d c) = kills c"
  by (simp_all add: report_dup_def Let_def)

lemma set_sess_res_frame [simp]:
  "cfg_op (set_sess_res i g c) = cfg_op c"
  "fifoq_head (set_sess_res i g c) = fifoq_head c"
  "fifo_out (set_sess_res i g c) = fifo_out c"
  "count_client_done (set_sess_res i g c) = count_client_done c"
  "count_client_fifoq (set_sess_res i g c) = count_client_fifoq c"
  "count_client_fifoq_max (set_sess_res i g c) = count_client_fifoq_max c"
  "res_ok (set_sess_res i g c) = res_ok c"
  "res_timeout (set_sess_res i g c) = res_timeout c"
  "res_pongloss (set_sess_res i g c) = res_pongloss c"
  "res_tserror (set_sess_res i g c) = res_tserror c"
  "res_dserror (set_sess_res i g c) = res_dserror c"
  "kills (set_sess_res i g c) = kills c"
  by (simp_all add: set_sess_res_def)

section \<open>The FIFO queue\<close>

lemma fifo_flush_split: "fifo_flush wr n qs = (n', out, rest) \<Longrightarrow> qs = out @ rest"
  by (induction wr n qs arbitrary: n' out rest rule: fifo_flush.induct)
    (auto split: if_splits prod.splits)

lemma fifo_flush_calls:
  "fifo_flush wr n qs = (n', out, rest) \<Longrightarrow>
     n' = n + length out + (if rest = [] then 0 else 1) \<and> (\<forall>i < length out. wr (n + i)) \<and>
     (rest \<noteq> [] \<longrightarrow> \<not> wr (n + length out))"
proof (induction wr n qs arbitrary: n' out rest rule: fifo_flush.induct)
  case (1 wr n)
  then show ?case by simp
next
  case (2 wr n q qs)
  show ?case
  proof (cases "wr n")
    case False
    with "2.prems" show ?thesis by auto
  next
    case True
    obtain m o' r' where fl: "fifo_flush wr (Suc n) qs = (m, o', r')" by (metis prod_cases3)
    with True "2.prems" have eq: "n' = m" "out = q # o'" "rest = r'" by auto
    have "\<forall>i < Suc (length o'). wr (n + i)"
    proof (intro allI impI)
      fix i assume "i < Suc (length o')"
      then show "wr (n + i)" using True "2.IH" [OF _ fl] by (cases i) auto
    qed
    then show ?thesis using True "2.IH" [OF _ fl] eq by auto
  qed
qed

text \<open>What was written and what is queued, in order.\<close>

abbreviation fifo_all :: "client \<Rightarrow> res_fifo list" where
  "fifo_all c \<equiv> fifo_out c @ fifoq_head c"

definition fifo_wf :: "client \<Rightarrow> bool" where
  "fifo_wf c \<longleftrightarrow> count_client_fifoq c = int (length (fifoq_head c)) \<and>
     count_client_fifoq c \<le> count_client_fifoq_max c"

lemma client_write_fifo_wf: "fifo_wf c \<Longrightarrow> fifo_wf (client_write_fifo e r c)"
  by (auto simp: client_write_fifo_def fifo_wf_def Let_def dest: fifo_flush_split split: prod.splits)

lemma client_write_fifo_mset:
  assumes "\<forall>n. sys_malloc e n"
  shows "mset (fifo_all (client_write_fifo e r c)) = add_mset r (mset (fifo_all c))"
  using assms by (auto simp: client_write_fifo_def Let_def dest!: fifo_flush_split split: prod.splits)

lemma client_write_fifo_order:
  assumes "\<forall>n. sys_malloc e n" and "\<forall>n \<ge> tick c. \<not> sys_write e n \<longrightarrow> \<not> sys_write e (Suc n)"
  shows "fifo_all (client_write_fifo e r c) = fifo_all c @ [r]"
proof -
  obtain n out rest where fl: "fifo_flush (sys_write e) (tick c) (fifoq_head c) = (n, out, rest)"
    by (metis prod_cases3)
  note split = fifo_flush_split [OF fl] and calls = fifo_flush_calls [OF fl]
  show ?thesis
  proof (cases "sys_write e n")
    case False
    with fl split assms(1) show ?thesis by (simp add: client_write_fifo_def Let_def)
  next
    case True
    with calls assms(2) have "rest = []" by (auto split: if_splits)
    with True fl split show ?thesis by (simp add: client_write_fifo_def Let_def)
  qed
qed

end
