(* ===== verification/Probed_Probes.thy ===== *)
theory Probed_Probes
  imports Probed_Client
begin

unbundle bit_operations_syntax

text \<open>
  The life of a probe: which states of the mask a queued probe can be in, what a PONG and a
  TCP time stamp do to it, when it is finished and how it is classified, which probes the
  timeout pass removes, and the accounting of probes over all operations of the client.
\<close>

section \<open>The states of a queued probe\<close>

text \<open>
  A probe in the list of a session has its PING bit, has not both other bits, and has the
  DSCP bit only together with the PONG bit.
\<close>

definition res_wf :: "res \<Rightarrow> bool" where
  "res_wf r \<longleftrightarrow> length (r_ts r) = 4 \<and>
     r_state r \<in> {MASK_PING, MASK_PING OR MASK_PONG, MASK_PING OR MASK_TIME,
                  MASK_PING OR MASK_PONG OR MASK_DSCP}"

definition got_pong :: "res \<Rightarrow> bool" where
  "got_pong r \<longleftrightarrow> r_state r AND MASK_PONG \<noteq> 0"

definition got_time :: "res \<Rightarrow> bool" where
  "got_time r \<longleftrightarrow> r_state r AND MASK_TIME \<noteq> 0"

definition dscp_failed :: "res \<Rightarrow> bool" where
  "dscp_failed r \<longleftrightarrow> r_state r AND MASK_DSCP \<noteq> 0"

lemma res_wf_not_done: "res_wf r \<Longrightarrow> \<not> res_done r"
  by (auto simp: res_wf_def res_done_def mask_defs)

lemma res_wf_not_both: "res_wf r \<Longrightarrow> \<not> (got_pong r \<and> got_time r)"
  by (auto simp: res_wf_def got_pong_def got_time_def mask_defs)

lemma res_apply_keeps [simp]:
  "r_id (res_apply q d ts dscp r) = r_id r" "r_seq (res_apply q d ts dscp r) = r_seq r"
  "r_addr (res_apply q d ts dscp r) = r_addr r" "created (res_apply q d ts dscp r) = created r"
  "length (r_ts (res_apply q d ts dscp r)) = length (r_ts r)"
  by (auto simp: res_apply_def Let_def split: option.splits)

lemma res_apply_state:
  "r_state (res_apply q d ts dscp r) =
    (if d_type d = TYPE_PONG then
       r_state r OR MASK_PONG OR (if q \<noteq> word_of_int dscp then MASK_DSCP else 0)
     else if d_type d = TYPE_TIME then r_state r OR MASK_TIME else r_state r)"
  by (auto simp: res_apply_def Let_def or.assoc split: option.splits)

lemma res_apply_wf: "res_wf r \<Longrightarrow> \<not> res_done (res_apply q d ts dscp r) \<Longrightarrow> res_wf (res_apply q d ts dscp r)"
  by (auto simp: res_wf_def res_done_def res_apply_state mask_defs split: if_splits)

lemma res_apply_done_iff:
  "res_wf r \<Longrightarrow> res_done (res_apply q d ts dscp r) \<longleftrightarrow>
     d_type d = TYPE_PONG \<and> got_time r \<or> d_type d = TYPE_TIME \<and> got_pong r"
  by (auto simp: res_wf_def res_done_def res_apply_state got_pong_def got_time_def mask_defs type_defs
      split: if_splits)

lemma timeout_state_wf:
  assumes "res_wf r"
  shows "timeout_state r =
    (if got_time r then STATE_PONGLOSS else if got_pong r then STATE_TS_ERR else STATE_TIMEOUT)"
  by (simp add: timeout_state_def got_time_def got_pong_def)

section \<open>The verdict on a finished probe\<close>

definition ts_all_ok :: "res \<Rightarrow> bool" where
  "ts_all_ok r \<longleftrightarrow> length (r_ts r) = 4 \<and> (\<forall>t \<in> set (r_ts r). ts_ok t)"

text \<open>T1 to T4 of a probe in nanoseconds.\<close>

abbreviation T :: "nat \<Rightarrow> res \<Rightarrow> int" where
  "T i r \<equiv> ts_ns (r_ts r ! (i - 1))"

lemma ts_all_ok_nth: "ts_all_ok r \<Longrightarrow> i < 4 \<Longrightarrow> ts_ok (r_ts r ! i)"
  by (simp add: ts_all_ok_def)

lemma ts_missing_zero: "ts_ok t \<Longrightarrow> ts_missing t \<longleftrightarrow> ts_ns t = 0"
  using ts_ns_inject [of t ts_zero] by (auto simp: ts_missing_def ts_ns_def)

lemma res_total_facts:
  assumes "ts_all_ok r"
  shows "ts_ok (fst (res_total r))" "ts_ns (fst (res_total r)) = \<bar>T 4 r - T 1 r\<bar>"
    "snd (res_total r) \<noteq> 0 \<longleftrightarrow> T 4 r < T 1 r"
  using ts_all_ok_nth [OF assms, of 3] ts_all_ok_nth [OF assms, of 0]
  by (simp_all add: res_total_def diff_ts_facts)

lemma res_overhead_facts:
  assumes "ts_all_ok r"
  shows "ts_ok (fst (res_overhead r))" "ts_ns (fst (res_overhead r)) = \<bar>T 3 r - T 2 r\<bar>"
    "snd (res_overhead r) \<noteq> 0 \<longleftrightarrow> T 3 r < T 2 r"
  using ts_all_ok_nth [OF assms, of 2] ts_all_ok_nth [OF assms, of 1]
  by (simp_all add: res_overhead_def diff_ts_facts)

lemma res_nic_facts:
  assumes "ts_all_ok r"
  shows "ts_ok (fst (res_nic r))"
    "ts_ns (fst (res_nic r)) = \<bar>\<bar>T 4 r - T 1 r\<bar> - \<bar>T 3 r - T 2 r\<bar>\<bar>"
    "snd (res_nic r) \<noteq> 0 \<longleftrightarrow> \<bar>T 4 r - T 1 r\<bar> < \<bar>T 3 r - T 2 r\<bar>"
  using res_total_facts [OF assms] res_overhead_facts [OF assms]
  by (simp_all add: res_nic_def diff_ts_facts)

lemmas res_diff_facts = res_total_facts res_overhead_facts res_nic_facts

text \<open>All time stamps present, in a sensible order, and the round trip below 21 seconds.\<close>

definition stamps_sound :: "res \<Rightarrow> bool" where
  "stamps_sound r \<longleftrightarrow> (\<forall>i \<in> {1, 2, 3, 4}. T i r \<noteq> 0) \<and> T 1 r \<le> T 4 r \<and> T 2 r \<le> T 3 r \<and>
     T 3 r - T 2 r \<le> T 4 r - T 1 r"

definition res_rtt_ns :: "res \<Rightarrow> int" where
  "res_rtt_ns r = (T 4 r - T 1 r) - (T 3 r - T 2 r)"

lemma missing_iff:
  "ts_all_ok r \<Longrightarrow> list_ex (\<lambda>i. ts_missing (r_ts r ! i)) [0, 1, 2, 3] \<longleftrightarrow>
     (\<exists>i \<in> {1, 2, 3, 4}. T i r = 0)"
  by (simp add: ts_missing_zero ts_all_ok_nth)

lemma negative_iff:
  assumes "ts_all_ok r"
  shows "(snd (res_total r) \<noteq> 0 \<or> snd (res_overhead r) \<noteq> 0 \<or> snd (res_nic r) \<noteq> 0) \<longleftrightarrow>
    \<not> (T 1 r \<le> T 4 r \<and> T 2 r \<le> T 3 r \<and> T 3 r - T 2 r \<le> T 4 r - T 1 r)"
  unfolding res_diff_facts(3,6,9) [OF assms] by linarith

lemma res_nic_rtt: "ts_all_ok r \<Longrightarrow> stamps_sound r \<Longrightarrow> ts_ns (fst (res_nic r)) = res_rtt_ns r"
  by (simp add: res_diff_facts stamps_sound_def res_rtt_ns_def)

lemma res_nic_sec: "ts_all_ok r \<Longrightarrow> stamps_sound r \<Longrightarrow> tv_sec (fst (res_nic r)) = res_rtt_ns r div 1000000000"
  using ts_ns_sec [OF res_nic_facts(1)] by (simp add: res_nic_rtt)

lemma state_distinct [simp]:
  "STATE_SUCCESS \<noteq> STATE_DS_ERR" "STATE_SUCCESS \<noteq> STATE_TS_ERR" "STATE_DS_ERR \<noteq> STATE_TS_ERR"
  "STATE_DS_ERR \<noteq> STATE_SUCCESS" "STATE_TS_ERR \<noteq> STATE_SUCCESS" "STATE_TS_ERR \<noteq> STATE_DS_ERR"
  "STATE_PONGLOSS \<noteq> STATE_TS_ERR" "STATE_TIMEOUT \<noteq> STATE_TS_ERR" "STATE_TIMEOUT \<noteq> STATE_PONGLOSS"
  by (simp_all add: state_defs)

lemma fifo_of_res_state:
  assumes "ts_all_ok r"
  shows "f_state (fifo_of_res r) =
    (if \<not> stamps_sound r then STATE_TS_ERR
     else if dscp_failed r then STATE_DS_ERR
     else if to_u32 (tv_sec (fst (res_nic r))) > 20 then STATE_TS_ERR
     else STATE_SUCCESS)"
  unfolding fifo_of_res_def Let_def missing_iff [OF assms] negative_iff [OF assms]
  by (auto simp: stamps_sound_def dscp_failed_def)

section \<open>The timeout pass\<close>

lemma clear_rev_eq:
  "clear_rev e now rs c =
    (dropWhile (res_old now) rs, fold (report_timeout e now) (takeWhile (res_old now) rs) c)"
  by (induction rs arbitrary: c) auto

definition sess_expired :: "timespec \<Rightarrow> msess \<Rightarrow> res list" where
  "sess_expired now s = takeWhile (res_old now) (rev (res_head s))"

definition sess_kept :: "timespec \<Rightarrow> msess \<Rightarrow> res list" where
  "sess_kept now s = rev (dropWhile (res_old now) (rev (res_head s)))"

lemma sess_kept_expired: "res_head s = sess_kept now s @ rev (sess_expired now s)"
  unfolding sess_kept_def sess_expired_def
  by (metis rev_append rev_rev_ident takeWhile_dropWhile_id)

lemma clear_sessions_eq:
  "clear_sessions e now ss c =
    (map (\<lambda>s. s\<lparr>res_head := sess_kept now s\<rparr>) ss,
     fold (report_timeout e now) (concat (map (sess_expired now) ss)) c)"
  by (induction ss arbitrary: c) (simp_all add: clear_rev_eq sess_kept_def sess_expired_def)

definition expired :: "timespec \<Rightarrow> client \<Rightarrow> res list" where
  "expired now c = concat (map (sess_expired now) (msess_head c))"

lemma client_res_clear_timeouts_eq:
  "client_res_clear_timeouts e c =
    (let now = sys_clock e (tick c)
     in (fold (report_timeout e now) (expired now c) (c\<lparr>tick := Suc (tick c)\<rparr>))
          \<lparr>msess_head := map (\<lambda>s. s\<lparr>res_head := sess_kept now s\<rparr>) (msess_head c)\<rparr>)"
  by (simp add: client_res_clear_timeouts_def clear_sessions_eq expired_def Let_def)

lemma fold_report_timeout_frame [simp]:
  "cfg_op (fold (report_timeout e now) rs c) = cfg_op c"
  "msess_head (fold (report_timeout e now) rs c) = msess_head c"
  "count_client_done (fold (report_timeout e now) rs c) = count_client_done c + int (length rs)"
  "kills (fold (report_timeout e now) rs c) = kills c"
  by (induction rs arbitrary: c) simp_all

text \<open>
  Where the list is in order of creation, newest first, the pass removes the old probes
  and no other.
\<close>

definition newest_first :: "res list \<Rightarrow> bool" where
  "newest_first rs \<longleftrightarrow> sorted_wrt (\<lambda>a b. ts_ns (created b) \<le> ts_ns (created a)) rs"

definition probe_past :: "timespec \<Rightarrow> res \<Rightarrow> bool" where
  "probe_past now r \<longleftrightarrow> ts_ok (created r) \<and> ts_ns (created r) \<le> ts_ns now"

lemma res_old_mono:
  assumes "ts_ok now" "probe_past now a" "probe_past now b" "ts_ns (created b) \<le> ts_ns (created a)" "res_old now a"
  shows "res_old now b"
proof -
  have "(ts_ns now - ts_ns (created a)) div 1000000000 \<le> (ts_ns now - ts_ns (created b)) div 1000000000"
    using assms(4) by (intro zdiv_mono1) simp_all
  then show ?thesis using assms by (simp add: res_old_def probe_past_def diff_ts_sec)
qed

lemma dropWhile_filter_sorted:
  "sorted_wrt (\<lambda>a b. P b \<longrightarrow> P a) xs \<Longrightarrow> dropWhile P xs = filter (\<lambda>x. \<not> P x) xs"
  by (induction xs) (auto simp: filter_id_conv)

lemma sess_kept_young:
  assumes "ts_ok now" "newest_first (res_head s)" "\<forall>r \<in> set (res_head s). probe_past now r"
  shows "sess_kept now s = filter (\<lambda>r. \<not> res_old now r) (res_head s)"
proof -
  have "sorted_wrt (\<lambda>a b. res_old now b \<longrightarrow> res_old now a) (rev (res_head s))"
    unfolding sorted_wrt_rev
    by (rule sorted_wrt_mono_rel [OF _ assms(2) [unfolded newest_first_def]])
      (use assms in \<open>auto intro: res_old_mono\<close>)
  from dropWhile_filter_sorted [OF this] show ?thesis
    by (simp add: sess_kept_def rev_filter)
qed

section \<open>The invariant of the client\<close>

definition sess_wf :: "msess \<Rightarrow> bool" where
  "sess_wf s \<longleftrightarrow> (\<forall>r \<in> set (res_head s). res_wf r \<and> r_id r = s_id s)"

definition client_wf :: "client \<Rightarrow> bool" where
  "client_wf c \<longleftrightarrow> list_all sess_wf (msess_head c) \<and> fifo_wf c"

lemma fifo_wf_frame [simp]:
  "fifo_wf (c\<lparr>count_client_done := k\<rparr>) = fifo_wf c" "fifo_wf (c\<lparr>tick := n\<rparr>) = fifo_wf c"
  "fifo_wf (c\<lparr>count_client_find := k\<rparr>) = fifo_wf c" "fifo_wf (c\<lparr>count_client_sent := k\<rparr>) = fifo_wf c"
  "fifo_wf (c\<lparr>res_tserror := k\<rparr>) = fifo_wf c" "fifo_wf (c\<lparr>res_dserror := k\<rparr>) = fifo_wf c"
  "fifo_wf (c\<lparr>res_timeout := k\<rparr>) = fifo_wf c" "fifo_wf (c\<lparr>res_pongloss := k\<rparr>) = fifo_wf c"
  "fifo_wf (c\<lparr>res_dup := k\<rparr>) = fifo_wf c" "fifo_wf (c\<lparr>stdout := l\<rparr>) = fifo_wf c"
  "fifo_wf (c\<lparr>msess_head := ss\<rparr>) = fifo_wf c" "fifo_wf (c\<lparr>sigint := b\<rparr>) = fifo_wf c"
  "fifo_wf (c\<lparr>last_tx_id := i\<rparr>) = fifo_wf c" "fifo_wf (c\<lparr>last_tx_seq := i\<rparr>) = fifo_wf c"
  "fifo_wf (c\<lparr>kills := ps\<rparr>) = fifo_wf c"
  "fifo_wf (set_sess_res j g c) = fifo_wf c" "fifo_wf (report_ok e th r c) = fifo_wf c"
  by (simp_all add: fifo_wf_def)

lemma fifo_wf_reports:
  "fifo_wf c \<Longrightarrow> fifo_wf (report_done e th r c)"
  "fifo_wf c \<Longrightarrow> fifo_wf (report_timeout e now r c)"
  "fifo_wf c \<Longrightarrow> fifo_wf (report_dup e a d c)"
  by (simp_all add: report_done_def report_timeout_def report_dup_def Let_def client_write_fifo_wf)

lemma fifo_wf_fold: "fifo_wf c \<Longrightarrow> fifo_wf (fold (report_timeout e now) rs c)"
  by (induction rs arbitrary: c) (simp_all add: fifo_wf_reports)

lemma set_sess_res_wf:
  assumes "list_all sess_wf (msess_head c)"
    and "\<And>s. sess_wf s \<Longrightarrow> sess_wf (s\<lparr>res_head := g (res_head s)\<rparr>)"
  shows "list_all sess_wf (msess_head (set_sess_res i g c))"
  unfolding set_sess_res_def
  by (simp, rule list_all_upd_first [OF assms(1)]) (use assms in \<open>auto simp: list_all_iff\<close>)

lemma sess_wf_replace:
  assumes "sess_wf s" and "s_id s = d_id d \<Longrightarrow> \<forall>z \<in> set zs. res_wf z \<and> r_id z = d_id d"
  shows "sess_wf (s\<lparr>res_head := upd_first (res_match a d) (\<lambda>_. zs) (res_head s)\<rparr>)"
proof -
  have "\<forall>r \<in> set (upd_first (res_match a d) (\<lambda>_. zs) (res_head s)). res_wf r \<and> r_id r = s_id s"
    by (rule upd_first_all) (use assms in \<open>auto simp: sess_wf_def res_match_def\<close>)
  then show ?thesis by (simp add: sess_wf_def)
qed

lemma client_res_update_wf:
  assumes "client_wf c"
  shows "client_wf (client_res_update e a d ts dscp np th c)"
proof (cases "List.find (\<lambda>s. s_id s = d_id d) (msess_head c)")
  case None
  then show ?thesis using assms by (simp add: client_res_update_def)
next
  case (Some s)
  let ?c0 = "c\<lparr>count_client_find := scan_count (res_match a d) (res_head s)\<rparr>"
  have ss: "list_all sess_wf (msess_head c)" and fq: "fifo_wf ?c0"
    using assms by (simp_all add: client_wf_def)
  show ?thesis
  proof (cases "List.find (res_match a d) (res_head s)")
    case None
    then show ?thesis
      using Some ss fq by (simp add: client_res_update_def client_wf_def fifo_wf_reports)
  next
    case (Some r)
    note fs = \<open>List.find (\<lambda>s. s_id s = d_id d) (msess_head c) = Some s\<close>
    let ?r = "res_apply (s_dscp s) d ts dscp r"
    have "sess_wf s" "s_id s = d_id d" using find_SomeD [OF fs] ss by (auto simp: list_all_iff)
    then have rw: "res_wf r" "r_id r = d_id d"
      using find_SomeD [OF Some] by (auto simp: sess_wf_def)
    have done_case: "client_wf (set_sess_res (d_id d) (upd_first (res_match a d) (\<lambda>_. []))
        (report_done e th ?r ?c0))"
      unfolding client_wf_def using ss fq
      by (intro conjI set_sess_res_wf sess_wf_replace) (simp_all add: fifo_wf_reports)
    have open_case: "client_wf (set_sess_res (d_id d) (upd_first (res_match a d) (\<lambda>_. [?r])) ?c0)"
      if "\<not> res_done ?r"
      unfolding client_wf_def using ss fq rw that
      by (intro conjI set_sess_res_wf sess_wf_replace) (simp_all add: res_apply_wf)
    show ?thesis
      using fs Some done_case open_case
      by (simp add: client_res_update_def Let_def client_wf_def)
  qed
qed

lemma client_res_insert_wf:
  assumes "client_wf c"
  shows "client_wf (client_res_insert e a d ts c)"
proof -
  have "list_all sess_wf (upd_last (\<lambda>s. s_id s = d_id d) (\<lambda>s. [s\<lparr>res_head := r # res_head s\<rparr>]) (msess_head c))"
    if "res_wf r" "r_id r = d_id d" for r
    by (rule list_all_upd_last) (use assms that in \<open>auto simp: client_wf_def sess_wf_def list_all_iff\<close>)
  moreover have "res_wf \<lparr>created = t, r_state = MASK_PING, r_addr = x, r_id = i, r_seq = q,
      r_ts = [ts, ts_zero, ts_zero, ts_zero]\<rparr>" for t x i q
    by (simp add: res_wf_def)
  ultimately show ?thesis
    using assms by (simp add: client_res_insert_def client_wf_def Let_def split: option.splits)
qed

lemma client_res_clear_timeouts_wf:
  assumes "client_wf c"
  shows "client_wf (client_res_clear_timeouts e c)"
proof -
  have kept: "sess_wf s \<Longrightarrow> sess_wf (s\<lparr>res_head := sess_kept now s\<rparr>)" for s now
    using sess_kept_expired [of s now] by (auto simp: sess_wf_def)
  have "fifo_wf (c\<lparr>tick := n\<rparr>)" for n using assms by (simp add: client_wf_def)
  from fifo_wf_fold [OF this] show ?thesis
    using assms kept by (simp add: client_wf_def client_res_clear_timeouts_eq Let_def list_all_iff)
qed

lemma sess_wf_update:
  "list_all sess_wf ss \<Longrightarrow> k < length ss \<Longrightarrow> s_id s' = s_id (ss ! k) \<Longrightarrow>
     res_head s' = res_head (ss ! k) \<Longrightarrow> list_all sess_wf (ss[k := s'])"
  by (rule list_all_update) (simp_all add: list_all_length sess_wf_def)

lemma transmit_one_wf:
  assumes "client_wf c" "k < length (msess_head c)"
  shows "client_wf (transmit_one e sends k c)"
proof -
  let ?s = "msess_head c ! k"
  have "client_wf (c\<lparr>count_client_sent := n, msess_head := (msess_head c)[k := ?s\<lparr>last_seq := q\<rparr>],
      last_tx_id := i, last_tx_seq := q, tick := m\<rparr>)" for n q i m
    using assms by (simp add: client_wf_def sess_wf_update)
  then show ?thesis
    using assms by (auto simp: transmit_one_def Let_def intro: client_res_insert_wf split: prod.splits)
qed

lemma length_sessions [simp]:
  "length (msess_head (client_res_insert e a d ts c)) = length (msess_head c)"
  "length (msess_head (transmit_one e sends k c)) = length (msess_head c)"
proof -
  show ins: "length (msess_head (client_res_insert e a d ts c)) = length (msess_head c)" for a d ts c
    by (simp add: client_res_insert_def Let_def length_upd_last split: option.splits)
  show "length (msess_head (transmit_one e sends k c)) = length (msess_head c)"
    by (auto simp: transmit_one_def Let_def ins split: prod.splits)
qed

lemma transmit_fold_wf:
  "client_wf c \<Longrightarrow> \<forall>k \<in> set ks. k < length (msess_head c) \<Longrightarrow> client_wf (fold (transmit_one e sends) ks c)"
  by (induction ks arbitrary: c) (simp_all add: transmit_one_wf)

lemma client_msess_transmit_wf: "client_wf c \<Longrightarrow> client_wf (client_msess_transmit e sends c)"
  unfolding client_msess_transmit_def by (rule transmit_fold_wf) auto

lemma forkall_one_wf:
  "client_wf c \<Longrightarrow> k < length (msess_head c) \<Longrightarrow>
     client_wf (forkall_one e k c) \<and> length (msess_head (forkall_one e k c)) = length (msess_head c)"
  by (simp add: forkall_one_def Let_def client_wf_def sess_wf_update)

lemma client_msess_forkall_wf: "client_wf c \<Longrightarrow> client_wf (client_msess_forkall e c)"
proof -
  have "client_wf c \<Longrightarrow> \<forall>k \<in> set ks. k < length (msess_head c) \<Longrightarrow> client_wf (fold (forkall_one e) ks c)" for ks c
    by (induction ks arbitrary: c) (simp_all add: forkall_one_wf)
  then show "client_wf c \<Longrightarrow> client_wf (client_msess_forkall e c)"
    by (simp add: client_msess_forkall_def)
qed

lemma client_msess_add_wf: "client_wf c \<Longrightarrow> client_wf (snd (client_msess_add e addr dscp w i c))"
  by (auto simp: client_msess_add_def Let_def client_wf_def sess_wf_def msess_zero_def
      split: option.splits)

lemma client_msess_gothello_wf: "client_wf c \<Longrightarrow> client_wf (snd (client_msess_gothello a c))"
  by (auto simp: client_msess_gothello_def Let_def client_wf_def sess_wf_def list_all_iff)

section \<open>Accounting of probes\<close>

definition outstanding :: "client \<Rightarrow> int" where
  "outstanding c = (\<Sum>s \<leftarrow> msess_head c. int (length (res_head s)))"

definition verdicts :: "client \<Rightarrow> int" where
  "verdicts c = res_ok c + res_dserror c + res_tserror c + res_timeout c + res_pongloss c"

lemma outstanding_insert:
  "outstanding (client_res_insert e a d ts c) = outstanding c +
    (if find_last (\<lambda>s. s_id s = d_id d) (msess_head c) \<noteq> None \<and> sys_malloc e (tick c) then 1 else 0)"
  by (simp add: client_res_insert_def outstanding_def Let_def sum_list_upd_last split: option.splits)

lemma outstanding_set_sess_res:
  "outstanding (set_sess_res i g c) = outstanding c +
    (case List.find (\<lambda>s. s_id s = i) (msess_head c) of None \<Rightarrow> 0
     | Some s \<Rightarrow> int (length (g (res_head s))) - int (length (res_head s)))"
  by (simp add: set_sess_res_def outstanding_def sum_list_upd_first split: option.splits)

lemma length_upd_first_match:
  "List.find p xs = Some x \<Longrightarrow> int (length (upd_first p f xs)) = int (length xs) + int (length (f x)) - 1"
  using upd_first_split [of p xs x] by fastforce

lemma outstanding_frame [simp]:
  "outstanding (report_done e th r c) = outstanding c" "outstanding (report_dup e a d c) = outstanding c"
  "outstanding (c\<lparr>count_client_find := k\<rparr>) = outstanding c" "outstanding (c\<lparr>sigint := b\<rparr>) = outstanding c"
  by (simp_all add: outstanding_def)

lemma update_meter:
  "outstanding (client_res_update e a d ts dscp np th c) + count_client_done (client_res_update e a d ts dscp np th c)
     = outstanding c + count_client_done c"
  by (simp add: client_res_update_def Let_def outstanding_set_sess_res length_upd_first_match
      split: option.splits)

lemma clear_meter:
  "outstanding (client_res_clear_timeouts e c) + count_client_done (client_res_clear_timeouts e c)
     = outstanding c + count_client_done c"
proof -
  have "(\<Sum>s \<leftarrow> ss. int (length (sess_kept now s))) + int (length (concat (map (sess_expired now) ss)))
      = (\<Sum>s \<leftarrow> ss. int (length (res_head s)))" for ss now
  proof (induction ss)
    case Nil
    show ?case by simp
  next
    case (Cons s ss)
    then show ?case using sess_kept_expired [of s now] by simp
  qed
  then show ?thesis
    by (simp add: client_res_clear_timeouts_eq Let_def outstanding_def expired_def comp_def)
qed

text \<open>In client mode every finished probe has exactly one verdict.\<close>

lemma report_ok_verdicts: "verdicts (report_ok e th r c) = verdicts c + 1"
  by (simp add: verdicts_def)

lemma fifo_of_res_cases: "f_state (fifo_of_res r) \<in> {STATE_SUCCESS, STATE_DS_ERR, STATE_TS_ERR}"
  by (simp add: fifo_of_res_def Let_def)

lemma timeout_state_cases: "timeout_state r \<in> {STATE_PONGLOSS, STATE_TS_ERR, STATE_TIMEOUT}"
  by (simp add: timeout_state_def)

lemma verdicts_frame [simp]:
  "verdicts (c\<lparr>count_client_done := k\<rparr>) = verdicts c" "verdicts (c\<lparr>count_client_find := k\<rparr>) = verdicts c"
  "verdicts (c\<lparr>sigint := b\<rparr>) = verdicts c" "verdicts (set_sess_res i g c) = verdicts c"
  "verdicts (c\<lparr>count_client_sent := k\<rparr>) = verdicts c" "verdicts (c\<lparr>last_tx_id := j\<rparr>) = verdicts c"
  "verdicts (c\<lparr>last_tx_seq := j\<rparr>) = verdicts c"
  "verdicts (c\<lparr>tick := n\<rparr>) = verdicts c" "verdicts (c\<lparr>msess_head := ss\<rparr>) = verdicts c"
  by (simp_all add: verdicts_def)

lemma report_verdicts:
  assumes "cfg_op c = CLIENT"
  shows "verdicts (report_done e th r c) = verdicts c + 1"
    and "verdicts (report_timeout e now r c) = verdicts c + 1"
    and "verdicts (report_dup e a d c) = verdicts c"
proof -
  show "verdicts (report_done e th r c) = verdicts c + 1"
    using assms fifo_of_res_cases [of r] by (auto simp: report_done_def Let_def verdicts_def)
  show "verdicts (report_timeout e now r c) = verdicts c + 1"
    using assms timeout_state_cases [of r] by (auto simp: report_timeout_def Let_def verdicts_def)
  show "verdicts (report_dup e a d c) = verdicts c"
    using assms by (auto simp: report_dup_def Let_def verdicts_def)
qed

lemma update_verdicts:
  "cfg_op c = CLIENT \<Longrightarrow>
   verdicts (client_res_update e a d ts dscp np th c) - count_client_done (client_res_update e a d ts dscp np th c)
     = verdicts c - count_client_done c"
  by (simp add: client_res_update_def Let_def report_verdicts split: option.splits)

lemma fold_timeout_verdicts:
  "cfg_op c = CLIENT \<Longrightarrow> verdicts (fold (report_timeout e now) rs c) = verdicts c + int (length rs)"
  by (induction rs arbitrary: c) (simp_all add: report_verdicts)

lemma clear_verdicts:
  "cfg_op c = CLIENT \<Longrightarrow>
   verdicts (client_res_clear_timeouts e c) - count_client_done (client_res_clear_timeouts e c)
     = verdicts c - count_client_done c"
  by (simp add: client_res_clear_timeouts_eq Let_def fold_timeout_verdicts)

end
