(* ===== verification/Probed_Config.thy ===== *)
theory Probed_Config
  imports Probed_Probes
begin

text \<open>
  The configuration of measurement sessions (\<^verbatim>\<open>client_msess_reconf\<close> and
  \<^verbatim>\<open>client_msess_forkall\<close> of \<^verbatim>\<open>SLANG-probed/client.c\<close>): a reload ends the child
  processes, drops all sessions and builds new ones from the parsed XML document; then one
  child process is started for every destination address. The XML parser and
  \<^verbatim>\<open>getaddrinfo\<close> are parameters: the document is given as its list of nodes, and
  \<open>resolve\<close> maps a host name to the address found for it.
\<close>

section \<open>Definitions\<close>

text \<open>\<^verbatim>\<open>atoi\<close> of the C library: white space, a sign, digits; the result is an \<^verbatim>\<open>int\<close>.\<close>

definition is_space :: "char \<Rightarrow> bool" where
  "is_space ch \<longleftrightarrow> of_char ch \<in> {32, 9, 10, 11, 12, 13 :: nat}"

definition is_digit :: "char \<Rightarrow> bool" where
  "is_digit ch \<longleftrightarrow> 48 \<le> (of_char ch :: nat) \<and> (of_char ch :: nat) \<le> 57"

definition digits_value :: "string \<Rightarrow> int" where
  "digits_value s = fold (\<lambda>ch v. 10 * v + (of_char ch - 48)) (takeWhile is_digit s) 0"

definition atoi :: "string \<Rightarrow> int" where
  "atoi str =
    (let s = dropWhile is_space str;
         v = (case s of [] \<Rightarrow> 0
              | ch # t \<Rightarrow> if ch = CHR ''-'' then - digits_value t
                        else if ch = CHR ''+'' then digits_value t else digits_value s);
         clamped = max (- (2 ^ 63)) (min (2 ^ 63 - 1) v)
     in sint (word_of_int clamped :: u32))"

record xml_child =
  xc_elem :: bool
  xc_name :: string
  xc_content :: string

record xml_probe =
  xp_elem :: bool
  xp_name :: string
  xp_id :: "string option"
  xp_children :: "xml_child list"

text \<open>The result of parsing: no document, a document with no root, or the root's children.\<close>

datatype xml_doc = No_Document | No_Root | Root "xml_probe list"

definition reconf_child ::
    "(string \<Rightarrow> addr_t option) \<Rightarrow> xml_child \<Rightarrow> msess \<times> bool \<Rightarrow> msess \<times> bool" where
  "reconf_child resolve k = (\<lambda>(s, ok).
    (if \<not> xc_elem k then (s, ok)
     else
       (let s1 = (if xc_name k = ''interval'' then s\<lparr>msec_interval := atoi (xc_content k)\<rparr> else s);
            (s2, ok2) = (if xc_name k = ''address'' then
                (case resolve (xc_content k) of None \<Rightarrow> (s1, ok) | Some a \<Rightarrow> (s1\<lparr>s_dst := a\<rparr>, True))
              else (s1, ok));
            s3 = (if xc_name k = ''dscp'' then s2\<lparr>s_dscp := word_of_int (atoi (xc_content k))\<rparr> else s2)
        in (s3, ok2))))"

definition reconf_session :: "(string \<Rightarrow> addr_t option) \<Rightarrow> string \<Rightarrow> xml_child list \<Rightarrow> msess \<times> bool" where
  "reconf_session resolve i ks =
     fold (reconf_child resolve) ks
       (msess_zero\<lparr>s_id := word_of_int (atoi i), msec_interval := 1000\<rparr>, False)"

definition reconf_probe :: "sys \<Rightarrow> (string \<Rightarrow> addr_t option) \<Rightarrow> xml_probe \<Rightarrow> client \<Rightarrow> client" where
  "reconf_probe e resolve n c =
    (if \<not> xp_elem n then c
     else if take 5 (xp_name n) \<noteq> ''probe'' then c
     else (case xp_id n of
         None \<Rightarrow> c
       | Some i \<Rightarrow>
           (let c1 = c\<lparr>tick := Suc (tick c)\<rparr>
            in if \<not> sys_malloc e (tick c) then c1
               else (let (s, ok) = reconf_session resolve i (xp_children n)
                     in if ok then c1\<lparr>msess_head := s # msess_head c1\<rparr> else c1))))"

text \<open>The loop that ends all clients: a signal for every recorded process identifier but 0.\<close>

definition reconf_kill :: "client \<Rightarrow> client" where
  "reconf_kill c = c\<lparr>kills := kills c @ filter (\<lambda>p. p \<noteq> 0) (map child_pid (msess_head c)),
                     msess_head := []\<rparr>"

definition client_msess_reconf ::
    "sys \<Rightarrow> (string \<Rightarrow> addr_t option) \<Rightarrow> xml_doc \<Rightarrow> client \<Rightarrow> int \<times> client" where
  "client_msess_reconf e resolve doc c =
    (if cfg_op c \<noteq> DAEMON then (-1, c)
     else (case doc of
         No_Document \<Rightarrow> (-1, c)
       | No_Root \<Rightarrow> (-1, c)
       | Root ns \<Rightarrow> (0, fold (reconf_probe e resolve) ns (reconf_kill c))))"

section \<open>What a reload leaves\<close>

text \<open>The session a node of the document stands for, if it is complete.\<close>

definition node_session :: "(string \<Rightarrow> addr_t option) \<Rightarrow> xml_probe \<Rightarrow> msess option" where
  "node_session resolve n =
    (if xp_elem n \<and> take 5 (xp_name n) = ''probe'' then
       (case xp_id n of None \<Rightarrow> None
        | Some i \<Rightarrow> (let (s, ok) = reconf_session resolve i (xp_children n) in if ok then Some s else None))
     else None)"

lemma reconf_probe_sessions:
  "\<forall>n. sys_malloc e n \<Longrightarrow> msess_head (reconf_probe e resolve n c) =
     (case node_session resolve n of None \<Rightarrow> msess_head c | Some s \<Rightarrow> s # msess_head c)"
  by (auto simp: reconf_probe_def node_session_def Let_def split: option.splits prod.splits)

lemma fold_reconf_sessions:
  "\<forall>n. sys_malloc e n \<Longrightarrow> msess_head (fold (reconf_probe e resolve) ns c) =
     rev (List.map_filter (node_session resolve) ns) @ msess_head c"
  by (induction ns arbitrary: c) (auto simp: reconf_probe_sessions List.map_filter_simps split: option.splits)

lemma reconf_child_fresh:
  "res_head (fst (reconf_child resolve k p)) = res_head (fst p)"
  "child_pid (fst (reconf_child resolve k p)) = child_pid (fst p)"
  "got_hello (fst (reconf_child resolve k p)) = got_hello (fst p)"
  "last_seq (fst (reconf_child resolve k p)) = last_seq (fst p)"
  "s_id (fst (reconf_child resolve k p)) = s_id (fst p)"
  by (cases p; simp add: reconf_child_def Let_def split: option.splits)+

definition sess_fresh :: "msess \<Rightarrow> bool" where
  "sess_fresh s \<longleftrightarrow> res_head s = [] \<and> child_pid s = 0 \<and> got_hello s = 0 \<and> last_seq s = 0"

lemma reconf_session_fresh: "sess_fresh (fst (reconf_session resolve i ks))"
proof -
  have "sess_fresh (fst p) \<Longrightarrow> sess_fresh (fst (fold (reconf_child resolve) ks p))" for p
    by (induction ks arbitrary: p) (simp_all add: sess_fresh_def reconf_child_fresh)
  then show ?thesis by (simp add: reconf_session_def sess_fresh_def msess_zero_def)
qed

lemma reconf_probe_fresh:
  "list_all sess_fresh (msess_head c) \<Longrightarrow> list_all sess_fresh (msess_head (reconf_probe e resolve n c))"
  using reconf_session_fresh
  by (auto simp: reconf_probe_def Let_def split: option.splits prod.splits) (metis fst_conv)

lemma fold_reconf_fresh:
  "list_all sess_fresh (msess_head c) \<Longrightarrow> list_all sess_fresh (msess_head (fold (reconf_probe e resolve) ns c))"
  by (induction ns arbitrary: c) (simp_all add: reconf_probe_fresh)

lemma fold_reconf_frame [simp]:
  "kills (fold (reconf_probe e resolve) ns c) = kills c"
  "fifo_wf (fold (reconf_probe e resolve) ns c) = fifo_wf c"
  "cfg_op (fold (reconf_probe e resolve) ns c) = cfg_op c"
proof -
  have one: "kills (reconf_probe e resolve n c) = kills c" "fifo_wf (reconf_probe e resolve n c) = fifo_wf c"
    "cfg_op (reconf_probe e resolve n c) = cfg_op c" for n c
    by (simp_all add: reconf_probe_def Let_def split: option.splits prod.splits)
  show "kills (fold (reconf_probe e resolve) ns c) = kills c"
    "fifo_wf (fold (reconf_probe e resolve) ns c) = fifo_wf c"
    "cfg_op (fold (reconf_probe e resolve) ns c) = cfg_op c"
    by (induction ns arbitrary: c) (simp_all add: one)
qed

lemma sess_fresh_wf: "sess_fresh s \<Longrightarrow> sess_wf s"
  by (simp add: sess_fresh_def sess_wf_def)

lemma reconf_kill_facts [simp]:
  "msess_head (reconf_kill c) = []" "fifo_wf (reconf_kill c) = fifo_wf c"
  "kills (reconf_kill c) = kills c @ filter (\<lambda>p. p \<noteq> 0) (map child_pid (msess_head c))"
  by (simp_all add: reconf_kill_def)

lemma client_msess_reconf_wf: "client_wf c \<Longrightarrow> client_wf (snd (client_msess_reconf e resolve doc c))"
proof -
  have fresh: "list_all sess_fresh (msess_head (fold (reconf_probe e resolve) ns (reconf_kill c)))" for ns
    by (rule fold_reconf_fresh) simp
  then have "list_all sess_wf (msess_head (fold (reconf_probe e resolve) ns (reconf_kill c)))" for ns
    by (simp add: list_all_iff sess_fresh_wf)
  then show "client_wf c \<Longrightarrow> ?thesis"
    by (simp add: client_msess_reconf_def client_wf_def split: xml_doc.splits)
qed

section \<open>One child process per address\<close>

abbreviation sess_addr :: "msess list \<Rightarrow> nat \<Rightarrow> in6_addr" where
  "sess_addr ss i \<equiv> sin6_addr (s_dst (ss ! i))"

definition first_of_addr :: "msess list \<Rightarrow> nat \<Rightarrow> bool" where
  "first_of_addr ss i \<longleftrightarrow> (\<forall>j < i. sess_addr ss j \<noteq> sess_addr ss i)"

lemma first_of_addr_exists: "\<exists>j \<le> i. first_of_addr ss j \<and> sess_addr ss j = sess_addr ss i"
proof (induction i rule: less_induct)
  case (less i)
  show ?case
  proof (cases "first_of_addr ss i")
    case True
    then show ?thesis by blast
  next
    case False
    then obtain j where "j < i" "sess_addr ss j = sess_addr ss i" by (auto simp: first_of_addr_def)
    with less.IH [of j] show ?thesis by (metis le_trans less_imp_le)
  qed
qed

lemma addrtaken_iff:
  "client_msess_isaddrtaken a i ss = 1 \<longleftrightarrow>
     (\<exists>j < length ss. s_id (ss ! j) \<noteq> i \<and> child_pid (ss ! j) \<noteq> 0 \<and> sin6_addr a = sess_addr ss j)"
  by (simp add: client_msess_isaddrtaken_def list_ex_length)

definition forked_upto :: "msess list \<Rightarrow> nat \<Rightarrow> msess list \<Rightarrow> bool" where
  "forked_upto ss k ss' \<longleftrightarrow> length ss' = length ss \<and>
     (\<forall>i < length ss. s_id (ss' ! i) = s_id (ss ! i) \<and> s_dst (ss' ! i) = s_dst (ss ! i) \<and>
        (child_pid (ss' ! i) \<noteq> 0 \<longleftrightarrow> i < k \<and> first_of_addr ss i))"

lemma forkall_one_upto:
  assumes dist: "distinct (map s_id ss)" and fork: "\<forall>n. sys_fork e n \<noteq> 0"
    and upto: "forked_upto ss k (msess_head c)" and k: "k < length ss"
  shows "forked_upto ss (Suc k) (msess_head (forkall_one e k c))"
proof -
  let ?ss = "msess_head c"
  have len: "length ?ss = length ss" using upto by (simp add: forked_upto_def)
  have at: "s_id (?ss ! i) = s_id (ss ! i)" "s_dst (?ss ! i) = s_dst (ss ! i)"
    "child_pid (?ss ! i) \<noteq> 0 \<longleftrightarrow> i < k \<and> first_of_addr ss i" if "i < length ss" for i
    using upto that by (auto simp: forked_upto_def)
  have "client_msess_isaddrtaken (s_dst (?ss ! k)) (s_id (?ss ! k)) ?ss = 1 \<longleftrightarrow> \<not> first_of_addr ss k"
  proof
    assume "client_msess_isaddrtaken (s_dst (?ss ! k)) (s_id (?ss ! k)) ?ss = 1"
    then obtain j where "j < length ss" "child_pid (?ss ! j) \<noteq> 0" "sess_addr ss k = sess_addr ss j"
      using at k len by (auto simp: addrtaken_iff)
    then show "\<not> first_of_addr ss k" using at by (auto simp: first_of_addr_def)
  next
    assume "\<not> first_of_addr ss k"
    then obtain j where j: "j < k" "first_of_addr ss j" "sess_addr ss j = sess_addr ss k"
      using first_of_addr_exists [where i = k and ss = ss] by (metis le_neq_implies_less)
    moreover have "s_id (ss ! j) \<noteq> s_id (ss ! k)"
      using dist j k nth_eq_iff_index_eq [of "map s_id ss" j k] by simp
    moreover have "j < length ss" using j k by simp
    ultimately show "client_msess_isaddrtaken (s_dst (?ss ! k)) (s_id (?ss ! k)) ?ss = 1"
      using at [of j] at [of k] k len unfolding addrtaken_iff by (intro exI [of _ j]) simp
  qed
  then show ?thesis
    using upto fork k by (auto simp: forkall_one_def Let_def forked_upto_def nth_list_update less_Suc_eq)
qed

lemma forkall_upto:
  assumes "distinct (map s_id ss)" "\<forall>n. sys_fork e n \<noteq> 0" "\<forall>s \<in> set ss. child_pid s = 0" "msess_head c = ss"
  shows "k \<le> length ss \<Longrightarrow> forked_upto ss k (msess_head (fold (forkall_one e) [0..<k] c))"
proof (induction k)
  case 0
  then show ?case using assms(3,4) by (simp add: forked_upto_def)
next
  case (Suc k)
  then show ?case using forkall_one_upto [OF assms(1,2)] by simp
qed

section \<open>The client as a transition system\<close>

text \<open>
  Everything \<^verbatim>\<open>main.c\<close> and \<^verbatim>\<open>loop.c\<close> do to the state of the client: the calls of its functions, the reload
  of the configuration (\<^verbatim>\<open>loop.c\<close>, line 259), the reset of the counters after the statistics of daemon mode (lines
  292 and 293), and the identifiers of a PING that is answered.
\<close>

datatype client_op =
    Op_Add "addr_t option" u8 int u32
  | Op_Transmit int
  | Op_Update addr_t data_t "timespec option" int int int
  | Op_Clear
  | Op_Hello addr_t
  | Op_Forkall
  | Op_Reconf "string \<Rightarrow> addr_t option" xml_doc
  | Op_Stats
  | Op_Answer u32 u32

definition client_stats :: "client \<Rightarrow> client" where
  "client_stats c = (if cfg_op c = DAEMON then c\<lparr>count_client_sent := 0, count_client_done := 0\<rparr> else c)"

fun client_step :: "sys \<Rightarrow> client_op \<Rightarrow> client \<Rightarrow> client" where
  "client_step e (Op_Add addr dscp w i) c = snd (client_msess_add e addr dscp w i c)"
| "client_step e (Op_Transmit sends) c = client_msess_transmit e sends c"
| "client_step e (Op_Update a d ts dscp np th) c = client_res_update e a d ts dscp np th c"
| "client_step e Op_Clear c = client_res_clear_timeouts e c"
| "client_step e (Op_Hello a) c = snd (client_msess_gothello a c)"
| "client_step e Op_Forkall c = client_msess_forkall e c"
| "client_step e (Op_Reconf resolve doc) c = snd (client_msess_reconf e resolve doc c)"
| "client_step e Op_Stats c = client_stats c"
| "client_step e (Op_Answer i q) c = c\<lparr>last_tx_id := i, last_tx_seq := q\<rparr>"

lemma client_counters_wf:
  "client_wf (client_stats c) = client_wf c" "client_wf (c\<lparr>last_tx_id := i, last_tx_seq := q\<rparr>) = client_wf c"
  by (simp_all add: client_stats_def client_wf_def fifo_wf_def)

lemma client_step_wf: "client_wf c \<Longrightarrow> client_wf (client_step e i c)"
  by (cases i) (simp_all add: client_msess_add_wf client_msess_transmit_wf client_res_update_wf
      client_res_clear_timeouts_wf client_msess_gothello_wf client_msess_forkall_wf client_msess_reconf_wf
      client_counters_wf)

lemma client_init_wf: "client_wf (client_init op ts)"
  by (simp add: client_wf_def fifo_wf_def client_init_def)

interpretation client_sys: step_system "client_step e" "client_init op ts" "\<lambda>_. True" client_wf
  for e op ts
  by unfold_locales (simp_all add: client_init_wf client_step_wf)

end
