(* ===== verification/Probed_Runs.thy ===== *)
theory Probed_Runs
  imports Probed_Config
begin

text \<open>
  Whole runs of the probing client: the accounting of probes in client mode, the order of
  the probe lists under a clock that does not run backwards, and the two orders in which
  the PONG and the TCP time stamp of a probe can arrive.
\<close>

section \<open>Accounting over runs\<close>

lemma insert_frame [simp]:
  "cfg_op (client_res_insert e a d ts c) = cfg_op c"
  "count_client_done (client_res_insert e a d ts c) = count_client_done c"
  "count_client_sent (client_res_insert e a d ts c) = count_client_sent c"
  "verdicts (client_res_insert e a d ts c) = verdicts c"
  by (simp_all add: client_res_insert_def verdicts_def Let_def split: option.splits)

lemma transmit_one_frame [simp]:
  "cfg_op (transmit_one e n k c) = cfg_op c"
  "count_client_done (transmit_one e n k c) = count_client_done c"
  "verdicts (transmit_one e n k c) = verdicts c"
  by (simp_all add: transmit_one_def Let_def split: prod.splits)

lemma outstanding_last_seq:
  "k < length ss \<Longrightarrow> (\<Sum>s \<leftarrow> ss[k := (ss ! k)\<lparr>last_seq := q\<rparr>]. int (length (res_head s)))
     = (\<Sum>s \<leftarrow> ss. int (length (res_head s)))"
  by (simp add: map_update_same)

lemma transmit_one_meter:
  assumes "k < length (msess_head c)"
  shows "outstanding (transmit_one e n k c) - count_client_sent (transmit_one e n k c)
     \<le> outstanding c - count_client_sent c"
  using assms
  by (auto simp: transmit_one_def Let_def outstanding_insert outstanding_last_seq
      outstanding_def [of "_\<lparr>count_client_sent := _, msess_head := _, last_tx_id := _,
        last_tx_seq := _, tick := _\<rparr>"] outstanding_def [of c] split: prod.splits)

lemma transmit_fold_acct:
  "\<forall>k \<in> set ks. k < length (msess_head c) \<Longrightarrow>
   outstanding (fold (transmit_one e n) ks c) - count_client_sent (fold (transmit_one e n) ks c)
     \<le> outstanding c - count_client_sent c \<and>
   cfg_op (fold (transmit_one e n) ks c) = cfg_op c \<and>
   count_client_done (fold (transmit_one e n) ks c) = count_client_done c \<and>
   verdicts (fold (transmit_one e n) ks c) = verdicts c"
proof (induction ks arbitrary: c)
  case Nil
  show ?case by simp
next
  case (Cons k ks)
  from Cons.prems have k: "k < length (msess_head c)" by simp
  have "\<forall>j \<in> set ks. j < length (msess_head (transmit_one e n k c))" using Cons.prems by simp
  note IH = Cons.IH [OF this]
  show ?case using IH transmit_one_meter [OF k, of e n] by simp
qed

lemmas client_msess_transmit_acct =
  transmit_fold_acct [of "[0..<length (msess_head c)]" c for c, simplified,
    folded client_msess_transmit_def]

text \<open>
  In client mode the number of finished probes is the sum of the five verdicts, and with
  the probes still queued it is at most the number of PINGs sent.
\<close>

definition client_acct :: "client \<Rightarrow> bool" where
  "client_acct c \<longleftrightarrow> cfg_op c = CLIENT \<and> verdicts c = count_client_done c \<and>
     outstanding c + count_client_done c \<le> count_client_sent c"

lemma sent_frame [simp]:
  "count_client_sent (client_write_fifo e f c) = count_client_sent c"
  "count_client_sent (report_done e th r c) = count_client_sent c"
  "count_client_sent (report_timeout e now r c) = count_client_sent c"
  "count_client_sent (report_dup e a d c) = count_client_sent c"
  "count_client_sent (set_sess_res i g c) = count_client_sent c"
  by (simp_all add: client_write_fifo_def report_done_def report_ok_def report_timeout_def
      report_dup_def set_sess_res_def Let_def split: prod.splits)

lemma update_frame [simp]:
  "cfg_op (client_res_update e a d ts dscp np th c) = cfg_op c"
  "count_client_sent (client_res_update e a d ts dscp np th c) = count_client_sent c"
  by (simp_all add: client_res_update_def Let_def split: option.splits)

lemma fold_timeout_sent [simp]:
  "count_client_sent (fold (report_timeout e now) rs c) = count_client_sent c"
  by (induction rs arbitrary: c) simp_all

lemma clear_frame [simp]:
  "cfg_op (client_res_clear_timeouts e c) = cfg_op c"
  "count_client_sent (client_res_clear_timeouts e c) = count_client_sent c"
  by (simp_all add: client_res_clear_timeouts_eq Let_def)

lemma forkall_one_frame:
  assumes "k < length (msess_head c)"
  shows "cfg_op (forkall_one e k c) = cfg_op c" "verdicts (forkall_one e k c) = verdicts c"
    "count_client_done (forkall_one e k c) = count_client_done c"
    "count_client_sent (forkall_one e k c) = count_client_sent c"
    "outstanding (forkall_one e k c) = outstanding c"
    "length (msess_head (forkall_one e k c)) = length (msess_head c)"
  using assms
  by (simp_all add: forkall_one_def Let_def outstanding_def map_update_same)

lemma forkall_acct: "client_acct c \<Longrightarrow> client_acct (client_msess_forkall e c)"
proof -
  have "client_acct c \<Longrightarrow> \<forall>k \<in> set ks. k < length (msess_head c) \<Longrightarrow>
      client_acct (fold (forkall_one e) ks c)" for ks c
    by (induction ks arbitrary: c) (simp_all add: forkall_one_frame client_acct_def)
  then show "client_acct c \<Longrightarrow> client_acct (client_msess_forkall e c)"
    by (simp add: client_msess_forkall_def)
qed

lemma client_step_acct: "client_acct c \<Longrightarrow> client_acct (client_step e i c)"
proof (cases i)
  case (Op_Add a d w j)
  then show "client_acct c \<Longrightarrow> client_acct (client_step e i c)"
    by (simp add: client_msess_add_def Let_def client_acct_def outstanding_def verdicts_def msess_zero_def
        split: option.splits)
next
  case (Op_Transmit n)
  then show "client_acct c \<Longrightarrow> client_acct (client_step e i c)"
    using client_msess_transmit_acct [of c e n] by (simp add: client_acct_def)
next
  case (Op_Update a d ts dscp np th)
  then show "client_acct c \<Longrightarrow> client_acct (client_step e i c)"
    using update_meter [of e a d ts dscp np th c] update_verdicts [of c e a d ts dscp np th]
    by (simp add: client_acct_def)
next
  case Op_Clear
  then show "client_acct c \<Longrightarrow> client_acct (client_step e i c)"
    using clear_meter [of e c] clear_verdicts [of c e] by (simp add: client_acct_def)
next
  case (Op_Hello a)
  then show "client_acct c \<Longrightarrow> client_acct (client_step e i c)"
    by (simp add: client_msess_gothello_def Let_def client_acct_def outstanding_def verdicts_def
        comp_def if_distrib cong: if_cong)
next
  case Op_Forkall
  then show "client_acct c \<Longrightarrow> client_acct (client_step e i c)" by (simp add: forkall_acct)
next
  case (Op_Reconf resolve doc)
  then show "client_acct c \<Longrightarrow> client_acct (client_step e i c)"
    by (auto simp: client_msess_reconf_def client_acct_def)
next
  case Op_Stats
  then show "client_acct c \<Longrightarrow> client_acct (client_step e i c)"
    by (auto simp: client_stats_def client_acct_def)
next
  case (Op_Answer j q)
  then show "client_acct c \<Longrightarrow> client_acct (client_step e i c)"
    by (simp add: client_acct_def outstanding_def verdicts_def)
qed

lemma client_init_acct: "client_acct (client_init CLIENT ts)"
  by (simp add: client_acct_def client_init_def verdicts_def outstanding_def)

interpretation acct_sys: step_system "client_step e" "client_init CLIENT ts" "\<lambda>_. True" client_acct
  for e ts
  by unfold_locales (simp_all add: client_init_acct client_step_acct)

section \<open>The two orders of arrival\<close>

text \<open>
  A PONG and a TCP time stamp for the same probe change different fields; whichever comes
  first, the finished probe is the same.
\<close>

lemma res_apply_commute:
  assumes "d_type p = TYPE_PONG" "d_type t = TYPE_TIME" "length (r_ts r) = 4"
  shows "res_apply q t ts' dscp' (res_apply q p ts dscp r) = res_apply q p ts dscp (res_apply q t ts' dscp' r)"
proof -
  have types: "TYPE_PONG \<noteq> TYPE_TIME" by (simp add: type_defs)
  obtain t0 t1 t2 t3 where "r_ts r = [t0, t1, t2, t3]"
    using assms(3) by (auto simp: numeral_eq_Suc length_Suc_conv)
  then show ?thesis
    using assms(1,2) types
    by (cases ts) (simp_all add: res_apply_def Let_def or.assoc or.left_commute or.commute numeral_eq_Suc)
qed

section \<open>Probe lists under a clock that does not run backwards\<close>

definition clock_ok :: "sys \<Rightarrow> bool" where
  "clock_ok e \<longleftrightarrow> (\<forall>n. ts_ok (sys_clock e n)) \<and>
     (\<forall>m n. m \<le> n \<longrightarrow> ts_ns (sys_clock e m) \<le> ts_ns (sys_clock e n))"

definition sess_ordered :: "timespec \<Rightarrow> msess \<Rightarrow> bool" where
  "sess_ordered now s \<longleftrightarrow> newest_first (res_head s) \<and> (\<forall>r \<in> set (res_head s). probe_past now r)"

definition client_ordered :: "sys \<Rightarrow> client \<Rightarrow> bool" where
  "client_ordered e c \<longleftrightarrow> list_all (sess_ordered (sys_clock e (tick c))) (msess_head c)"

lemma sess_ordered_later:
  "sess_ordered now s \<Longrightarrow> ts_ns now \<le> ts_ns now' \<Longrightarrow> sess_ordered now' s"
  by (auto simp: sess_ordered_def probe_past_def)

lemma client_ordered_later:
  assumes "clock_ok e" "list_all (sess_ordered (sys_clock e m)) ss" "m \<le> n"
  shows "list_all (sess_ordered (sys_clock e n)) ss"
  using assms by (auto simp: list_all_iff clock_ok_def intro: sess_ordered_later)

lemma newest_first_append:
  "newest_first (xs @ ys) \<longleftrightarrow> newest_first xs \<and> newest_first ys \<and>
     (\<forall>x \<in> set xs. \<forall>y \<in> set ys. ts_ns (created y) \<le> ts_ns (created x))"
  by (simp add: newest_first_def sorted_wrt_append)

lemma newest_first_Cons:
  "newest_first (x # xs) \<longleftrightarrow> newest_first xs \<and> (\<forall>y \<in> set xs. ts_ns (created y) \<le> ts_ns (created x))"
  by (auto simp: newest_first_def)

lemma newest_first_Nil [simp]: "newest_first []"
  by (simp add: newest_first_def)

lemma tick_mono:
  "tick c \<le> tick (client_write_fifo e f c)" "tick c \<le> tick (report_done e th r c)"
  "tick c \<le> tick (report_timeout e now r c)" "tick c \<le> tick (report_dup e a d c)"
proof -
  show w: "tick c \<le> tick (client_write_fifo e f c)" for f c
    by (auto simp: client_write_fifo_def Let_def dest!: fifo_flush_calls split: prod.splits)
  have ok: "tick (report_ok e th r c) = tick c" for th r c
    by (simp add: report_ok_def Let_def split: prod.splits)
  show "tick c \<le> tick (report_done e th r c)"
    using w [of "c\<lparr>count_client_done := count_client_done c + 1\<rparr>"] by (simp add: report_done_def Let_def ok)
  show "tick c \<le> tick (report_timeout e now r c)"
    using w [of "c\<lparr>count_client_done := count_client_done c + 1\<rparr>"] by (simp add: report_timeout_def Let_def)
  have "tick c \<le> tick (client_write_fifo e f (c\<lparr>tick := Suc (tick c)\<rparr>))" for f
    using w [of "c\<lparr>tick := Suc (tick c)\<rparr>" f] by simp
  then show "tick c \<le> tick (report_dup e a d c)"
    by (simp add: report_dup_def Let_def)
qed

lemma tick_fold: "tick c \<le> tick (fold (report_timeout e now) rs c)"
  by (induction rs arbitrary: c) (auto intro: order_trans [OF tick_mono(3)])

lemma set_sess_res_tick [simp]: "tick (set_sess_res i g c) = tick c"
  by (simp add: set_sess_res_def)

lemma ordered_insert:
  assumes "clock_ok e" "client_ordered e c"
  shows "client_ordered e (client_res_insert e a d ts c)"
proof (cases "find_last (\<lambda>s. s_id s = d_id d) (msess_head c) = None \<or> \<not> sys_malloc e (tick c)")
  case True
  then show ?thesis
    using assms client_ordered_later [OF assms(1), of "tick c" "msess_head c" "Suc (tick c)"]
    by (auto simp: client_res_insert_def client_ordered_def split: option.splits)
next
  case False
  let ?now = "sys_clock e (Suc (tick c))" and ?now' = "sys_clock e (Suc (Suc (tick c)))"
  have clk: "ts_ok ?now" "ts_ns ?now \<le> ts_ns ?now'" using assms(1) by (auto simp: clock_ok_def)
  have old: "list_all (sess_ordered ?now) (msess_head c)"
    using client_ordered_later [OF assms(1)] assms(2) by (auto simp: client_ordered_def)
  have "sess_ordered ?now (s\<lparr>res_head := r # res_head s\<rparr>)"
    if "sess_ordered ?now s" "created r = ?now" for s r
    using that clk by (auto simp: sess_ordered_def newest_first_Cons probe_past_def)
  with old have "list_all (sess_ordered ?now) (upd_last (\<lambda>s. s_id s = d_id d)
      (\<lambda>s. [s\<lparr>res_head := r # res_head s\<rparr>]) (msess_head c))" if "created r = ?now" for r
    using that by (intro list_all_upd_last) (auto simp: list_all_iff)
  then show ?thesis
    using False client_ordered_later [OF assms(1), of "Suc (tick c)" _ "Suc (Suc (tick c))"]
    by (auto simp: client_res_insert_def client_ordered_def Let_def split: option.splits)
qed

lemma ordered_set_sess_res:
  assumes "list_all (sess_ordered now) (msess_head c)"
    and "\<And>s. sess_ordered now s \<Longrightarrow> s \<in> set (msess_head c) \<Longrightarrow>
      List.find (\<lambda>s. s_id s = i) (msess_head c) = Some s \<Longrightarrow> sess_ordered now (s\<lparr>res_head := g (res_head s)\<rparr>)"
  shows "list_all (sess_ordered now) (msess_head (set_sess_res i g c))"
proof (cases "List.find (\<lambda>s. s_id s = i) (msess_head c)")
  case None
  then show ?thesis using assms(1) by (simp add: set_sess_res_def upd_first_none)
next
  case (Some s)
  from upd_first_split [OF this] obtain ys zs where
    split: "msess_head c = ys @ s # zs"
      "\<forall>f. upd_first (\<lambda>s. s_id s = i) f (msess_head c) = ys @ f s @ zs" by blast
  have "sess_ordered now s" using assms(1) split(1) by simp
  with assms(2) Some split(1) have "sess_ordered now (s\<lparr>res_head := g (res_head s)\<rparr>)" by simp
  then show ?thesis using assms(1) split by (simp add: set_sess_res_def)
qed

lemma ordered_update:
  assumes "clock_ok e" "client_ordered e c"
  shows "client_ordered e (client_res_update e a d ts dscp np th c)"
proof (cases "List.find (\<lambda>s. s_id s = d_id d) (msess_head c)")
  case None
  then show ?thesis using assms by (simp add: client_res_update_def)
next
  case (Some s)
  note fs = Some
  let ?c0 = "c\<lparr>count_client_find := scan_count (res_match a d) (res_head s)\<rparr>"
  have later: "list_all (sess_ordered (sys_clock e n)) (msess_head c)" if "tick c \<le> n" for n
    using client_ordered_later [OF assms(1) _ that] assms(2) by (simp add: client_ordered_def)
  show ?thesis
  proof (cases "List.find (res_match a d) (res_head s)")
    case None
    then show ?thesis
      using fs later tick_mono(4) [of ?c0] by (simp add: client_res_update_def client_ordered_def)
  next
    case (Some r)
    let ?r = "res_apply (s_dscp s) d ts dscp r"
    have upd: "sess_ordered now (s\<lparr>res_head := upd_first (res_match a d) (\<lambda>_. zs) (res_head s)\<rparr>)"
      if "sess_ordered now s" "zs = [] \<or> zs = [?r]" for zs now
    proof -
      from upd_first_split [OF Some] obtain us vs where
        sp: "res_head s = us @ r # vs" "\<forall>f. upd_first (res_match a d) f (res_head s) = us @ f r @ vs"
        by blast
      with that show ?thesis
        by (auto simp: sess_ordered_def newest_first_append newest_first_Cons probe_past_def)
    qed
    have done_case: "client_ordered e (set_sess_res (d_id d) (upd_first (res_match a d) (\<lambda>_. []))
        (report_done e th ?r ?c0))"
      unfolding client_ordered_def set_sess_res_tick
      by (rule ordered_set_sess_res)
        (use fs later tick_mono(2) [of ?c0] upd in \<open>auto simp: list_all_iff\<close>)
    have open_case: "client_ordered e (set_sess_res (d_id d) (upd_first (res_match a d) (\<lambda>_. [?r])) ?c0)"
      unfolding client_ordered_def set_sess_res_tick
      by (rule ordered_set_sess_res) (use fs later upd in \<open>auto simp: list_all_iff\<close>)
    show ?thesis
      using fs Some done_case open_case
      by (simp add: client_res_update_def Let_def client_ordered_def)
  qed
qed

lemma sess_ordered_kept: "sess_ordered now s \<Longrightarrow> sess_ordered now (s\<lparr>res_head := sess_kept t s\<rparr>)"
  using sess_kept_expired [of s t] by (auto simp: sess_ordered_def newest_first_append)

lemma ordered_clear:
  assumes "clock_ok e" "client_ordered e c"
  shows "client_ordered e (client_res_clear_timeouts e c)"
proof -
  let ?c = "fold (report_timeout e (sys_clock e (tick c))) (expired (sys_clock e (tick c)) c) (c\<lparr>tick := Suc (tick c)\<rparr>)"
  have "Suc (tick c) \<le> tick ?c"
    using tick_fold [of "c\<lparr>tick := Suc (tick c)\<rparr>"] by simp
  then have "list_all (sess_ordered (sys_clock e (tick ?c))) (msess_head c)"
    using client_ordered_later [OF assms(1), of "tick c"] assms(2) by (simp add: client_ordered_def)
  then show ?thesis
    by (simp add: client_ordered_def client_res_clear_timeouts_eq Let_def list_all_iff sess_ordered_kept)
qed

lemma ordered_same_heads:
  assumes "clock_ok e" "client_ordered e c" "tick c \<le> tick c'"
    "map res_head (msess_head c') = map res_head (msess_head c)"
  shows "client_ordered e c'"
proof -
  have now: "list_all (sess_ordered (sys_clock e (tick c'))) (msess_head c)"
    using client_ordered_later [OF assms(1) _ assms(3)] assms(2) by (simp add: client_ordered_def)
  have heads: "list_all (sess_ordered t) ss \<longleftrightarrow>
      list_all (\<lambda>rs. newest_first rs \<and> (\<forall>r \<in> set rs. probe_past t r)) (map res_head ss)" for t ss
    by (simp add: list_all_iff sess_ordered_def)
  show ?thesis
    unfolding client_ordered_def heads assms(4) using now by (simp add: heads)
qed

lemma ordered_transmit_one:
  assumes "clock_ok e" "client_ordered e c" "k < length (msess_head c)"
  shows "client_ordered e (transmit_one e n k c)"
proof -
  let ?s = "msess_head c ! k"
  have "client_ordered e (c\<lparr>count_client_sent := m, msess_head := (msess_head c)[k := ?s\<lparr>last_seq := q\<rparr>],
      last_tx_id := i, last_tx_seq := q, tick := Suc (tick c)\<rparr>)" for m q i
    by (rule ordered_same_heads [OF assms(1,2)]) (simp_all add: map_update_same assms(3))
  then show ?thesis
    using assms by (auto simp: transmit_one_def Let_def intro: ordered_insert split: prod.splits)
qed

lemma ordered_transmit: "clock_ok e \<Longrightarrow> client_ordered e c \<Longrightarrow> client_ordered e (client_msess_transmit e n c)"
proof -
  have "clock_ok e \<Longrightarrow> client_ordered e c \<Longrightarrow> \<forall>k \<in> set ks. k < length (msess_head c) \<Longrightarrow>
      client_ordered e (fold (transmit_one e n) ks c)" for ks c
    by (induction ks arbitrary: c) (simp_all add: ordered_transmit_one)
  then show "clock_ok e \<Longrightarrow> client_ordered e c \<Longrightarrow> ?thesis"
    by (simp add: client_msess_transmit_def)
qed

lemma ordered_forkall: "clock_ok e \<Longrightarrow> client_ordered e c \<Longrightarrow> client_ordered e (client_msess_forkall e c)"
proof -
  have one: "clock_ok e \<Longrightarrow> client_ordered e c \<Longrightarrow> k < length (msess_head c) \<Longrightarrow>
      client_ordered e (forkall_one e k c)" for k c
    by (rule ordered_same_heads [of e c]) (simp_all add: forkall_one_def Let_def map_update_same)
  have "clock_ok e \<Longrightarrow> client_ordered e c \<Longrightarrow> \<forall>k \<in> set ks. k < length (msess_head c) \<Longrightarrow>
      client_ordered e (fold (forkall_one e) ks c)" for ks c
    by (induction ks arbitrary: c) (simp_all add: one forkall_one_frame)
  then show "clock_ok e \<Longrightarrow> client_ordered e c \<Longrightarrow> ?thesis"
    by (simp add: client_msess_forkall_def)
qed

lemma ordered_reconf:
  assumes "clock_ok e" "client_ordered e c"
  shows "client_ordered e (snd (client_msess_reconf e resolve doc c))"
proof -
  have "list_all sess_fresh (msess_head (fold (reconf_probe e resolve) ns (reconf_kill c)))" for ns
    by (rule fold_reconf_fresh) simp
  then have "client_ordered e (fold (reconf_probe e resolve) ns (reconf_kill c))" for ns
    by (simp add: client_ordered_def list_all_iff sess_fresh_def sess_ordered_def)
  then show ?thesis using assms(2) by (simp add: client_msess_reconf_def split: xml_doc.splits)
qed

lemma client_step_ordered:
  assumes "clock_ok e" "client_ordered e c"
  shows "client_ordered e (client_step e i c)"
proof (cases i)
  case (Op_Add a d w j)
  have "list_all (sess_ordered (sys_clock e (Suc (tick c)))) (msess_head c)"
    using client_ordered_later [OF assms(1), of "tick c"] assms(2) by (simp add: client_ordered_def)
  then show ?thesis
    using Op_Add by (simp add: client_msess_add_def Let_def client_ordered_def sess_ordered_def msess_zero_def
        list_all_iff split: option.splits)
next
  case (Op_Hello a)
  then show ?thesis
    using ordered_same_heads [OF assms, of "snd (client_msess_gothello a c)"]
    by (simp add: client_msess_gothello_def Let_def comp_def if_distrib cong: if_cong)
next
  case Op_Stats
  then show ?thesis using assms(2) by (simp add: client_stats_def client_ordered_def)
next
  case (Op_Answer j q)
  then show ?thesis using assms(2) by (simp add: client_ordered_def)
qed (simp_all add: assms ordered_update ordered_clear ordered_transmit ordered_forkall ordered_reconf)

text \<open>The clock is part of the environment; the machine starts with no session.\<close>

definition ordered_or_bad_clock :: "sys \<Rightarrow> client \<Rightarrow> bool" where
  "ordered_or_bad_clock e c \<longleftrightarrow> (clock_ok e \<longrightarrow> client_ordered e c)"

interpretation ordered_sys: step_system "client_step e" "client_init op ts" "\<lambda>_. True" "ordered_or_bad_clock e"
  for e op ts
proof unfold_locales
  show "ordered_or_bad_clock e (client_init op ts)"
    by (simp add: ordered_or_bad_clock_def client_ordered_def client_init_def)
  show "ordered_or_bad_clock e s \<Longrightarrow> ordered_or_bad_clock e (client_step e i s)" for s i
    by (simp add: ordered_or_bad_clock_def client_step_ordered)
qed

lemma run_ordered: "clock_ok e \<Longrightarrow> client_ordered e (fold (client_step e) is (client_init op ts))"
  using ordered_sys.invar_run [of "is" e op ts] by (simp add: ordered_or_bad_clock_def)

end
