(* ===== verification/Probed_Rounding.thy ===== *)
theory Probed_Rounding
  imports Probed_Probes
begin

text \<open>
  The running mean of \<^verbatim>\<open>SLANG-probed/client.c\<close> in double precision: how far it is from the mean of the samples, for any
  rounding with the relative error of IEEE doubles.
\<close>

section \<open>Rounding\<close>

text \<open>
  What IEEE arithmetic promises for results that do not overflow: half a unit in the last place of a \<^verbatim>\<open>double\<close>, or half the
  smallest subnormal number; integers of 53 bits are doubles, integers of 24 bits are floats.
\<close>

definition ieee_fpu :: "fpu \<Rightarrow> bool" where
  "ieee_fpu u \<longleftrightarrow> (\<forall>x. \<bar>x\<bar> \<le> 2 ^ 1000 \<longrightarrow> \<bar>rnd_double u x - x\<bar> \<le> \<bar>x\<bar> / 2 ^ 53 + 1 / 2 ^ 1075)
     \<and> (\<forall>k :: int. \<bar>k\<bar> \<le> 2 ^ 53 \<longrightarrow> rnd_double u (of_int k) = of_int k)
     \<and> (\<forall>k :: int. \<bar>k\<bar> \<le> 2 ^ 24 \<longrightarrow> rnd_float u (of_int k) = of_int k)"

text \<open>In units of \<open>w\<close>, which is \<open>B / 2 ^ 53\<close> for numbers up to a small multiple of \<open>B\<close>.\<close>

lemma rounded_by:
  assumes "ieee_fpu u" and "1 \<le> B" and "B \<le> 2 ^ 53" and "\<bar>x\<bar> \<le> real k * B" and "k \<le> 8"
  shows "\<bar>rnd_double u x - x\<bar> \<le> (real k + 1) * (B / 2 ^ 53)"
proof -
  have k: "real k * B \<le> 8 * 2 ^ 53" using assms(2,3,5) by (intro mult_mono) simp_all
  have "(8 * 2 ^ 53 :: real) \<le> 2 ^ 1000" by simp
  then have "\<bar>rnd_double u x - x\<bar> \<le> \<bar>x\<bar> / 2 ^ 53 + 1 / 2 ^ 1075" using assms(1,4) k by (simp add: ieee_fpu_def)
  also have "\<dots> \<le> real k * B / 2 ^ 53 + B / 2 ^ 53"
  proof (rule add_mono)
    show "\<bar>x\<bar> / 2 ^ 53 \<le> real k * B / 2 ^ 53" using assms(4) by (rule divide_right_mono) simp
    have "(1 / 2 ^ 1075 :: real) \<le> 1 / 2 ^ 53" by simp
    also have "\<dots> \<le> B / 2 ^ 53" using assms(2) by (rule divide_right_mono) simp
    finally show "1 / 2 ^ 1075 \<le> B / 2 ^ 53" .
  qed
  finally show ?thesis by (simp add: algebra_simps add_divide_distrib)
qed

section \<open>One sample\<close>

lemma mean_step:
  fixes x m B :: real and n :: int
  assumes "ieee_fpu u" and "1 \<le> B" and "B \<le> 2 ^ 53" and "1 \<le> n" and "\<bar>x\<bar> \<le> B" and "\<bar>m\<bar> \<le> 2 * B"
  defines "d \<equiv> rnd_double u (x - m)"
  shows "\<bar>rnd_double u (m + rnd_double u (d / of_int n)) - (m + (x - m) / of_int n)\<bar> \<le> 17 * (B / 2 ^ 53)"
proof -
  define w where "w = B / 2 ^ 53"
  define q where "q = rnd_double u (d / of_int n)"
  have w: "0 \<le> w" "16 * w \<le> B" using assms(2) by (simp_all add: w_def)
  have n: "1 \<le> real_of_int n" using assms(4) by simp
  have shrink: "\<bar>a / of_int n\<bar> \<le> \<bar>a\<bar>" for a :: real
  proof -
    have "\<bar>a\<bar> / of_int n \<le> \<bar>a\<bar> / 1" using n by (intro divide_left_mono) simp_all
    then show ?thesis using n by simp
  qed
  have 1: "\<bar>d - (x - m)\<bar> \<le> 4 * w"
    using rounded_by [OF assms(1-3), of "x - m" 3] assms(5,6) by (simp add: d_def w_def)
  then have d: "\<bar>d\<bar> \<le> 4 * B" using assms(5,6) w by linarith
  then have "\<bar>d / of_int n\<bar> \<le> 4 * B" using shrink [of d] by linarith
  then have 2: "\<bar>q - d / of_int n\<bar> \<le> 5 * w"
    using rounded_by [OF assms(1-3), of "d / of_int n" 4] by (simp add: q_def w_def)
  have "\<bar>q\<bar> \<le> 5 * B" using 2 \<open>\<bar>d / of_int n\<bar> \<le> 4 * B\<close> w by linarith
  then have 3: "\<bar>rnd_double u (m + q) - (m + q)\<bar> \<le> 8 * w"
    using rounded_by [OF assms(1-3), of "m + q" 7] assms(6) by (simp add: w_def)
  have 4: "\<bar>d / of_int n - (x - m) / of_int n\<bar> \<le> 4 * w"
    using shrink [of "d - (x - m)"] 1 by (simp add: diff_divide_distrib)
  have "\<bar>rnd_double u (m + q) - (m + (x - m) / of_int n)\<bar> \<le> 17 * w" using 2 3 4 by linarith
  then show ?thesis by (simp add: q_def w_def)
qed

text \<open>The distance of \<open>n\<close> times the mean from the sum grows by \<open>n\<close> times that.\<close>

definition mean_near :: "real \<Rightarrow> nat \<Rightarrow> real \<Rightarrow> acc \<Rightarrow> bool" where
  "mean_near B n S a \<longleftrightarrow> \<bar>real n * acc_mean a - S\<bar> \<le> 17 * (B / 2 ^ 53) * (real n * (real n + 1) / 2)"

lemma mean_near_bound:
  assumes "mean_near B n S a" and "\<bar>S\<bar> \<le> real n * B" and "0 < n"
  shows "\<bar>acc_mean a - S / real n\<bar> \<le> 17 * (real n + 1) * B / 2 ^ 54"
proof -
  have "\<bar>real n * (acc_mean a - S / real n)\<bar> \<le> real n * (17 * (real n + 1) * B / 2 ^ 54)"
    using assms(1,3) by (simp add: mean_near_def algebra_simps)
  then show ?thesis using assms(3) by (simp add: abs_mult)
qed

lemma mean_stays_small:
  assumes "mean_near B n S a" and "\<bar>S\<bar> \<le> real n * B" and "n < 2 ^ 24" and "1 \<le> B" and "n = 0 \<longrightarrow> acc_mean a = 0"
  shows "\<bar>acc_mean a\<bar> \<le> 2 * B"
proof (cases "n = 0")
  case False
  then have n: "0 < n" "real n + 1 \<le> 2 ^ 24" using assms(3) by simp_all
  have "17 * (real n + 1) * B / 2 ^ 54 \<le> 17 * 2 ^ 24 * B / 2 ^ 54"
    using n(2) assms(4) by (intro divide_right_mono mult_right_mono mult_left_mono) simp_all
  also have "\<dots> \<le> B" using assms(4) by simp
  finally have "\<bar>acc_mean a - S / real n\<bar> \<le> B" using mean_near_bound [OF assms(1,2) n(1)] by linarith
  moreover have "\<bar>S / real n\<bar> \<le> B" using assms(2) n(1) by (simp add: field_simps)
  ultimately show ?thesis by linarith
qed (use assms(4,5) in simp)

lemma acc_update_mean:
  assumes "ieee_fpu u" and "\<bar>ts_ns t\<bar> \<le> 2 ^ 53" and "1 \<le> n" and "n \<le> 2 ^ 24"
  shows "acc_mean (acc_update u n t a) = rnd_double u (acc_mean a + rnd_double u (rnd_double u (xval t - acc_mean a) / of_int n))"
proof -
  have "rnd_float u (of_int n) = of_int n" "rnd_double u (xval t) = xval t" using assms unfolding ieee_fpu_def by auto
  then show ?thesis by (simp add: acc_update_def acc_moments_def Let_def ts_ns_def)
qed

lemma acc_update_near:
  assumes "ieee_fpu u" and "1 \<le> B" and "B \<le> 2 ^ 53" and "\<bar>xval t\<bar> \<le> B" and "n < 2 ^ 24"
    and "mean_near B n S a" and "\<bar>S\<bar> \<le> real n * B" and "n = 0 \<longrightarrow> acc_mean a = 0"
  shows "mean_near B (Suc n) (S + xval t) (acc_update u (int n + 1) t a)" and "\<bar>S + xval t\<bar> \<le> real (Suc n) * B"
proof -
  define w where "w = 17 * (B / 2 ^ 53)"
  define m where "m = acc_mean a"
  define m' where "m' = acc_mean (acc_update u (int n + 1) t a)"
  have "\<bar>real_of_int (ts_ns t)\<bar> \<le> 2 ^ 53" using assms(3,4) by linarith
  then have "\<bar>ts_ns t\<bar> \<le> 2 ^ 53" by (simp flip: of_int_abs)
  then have m': "m' = rnd_double u (m + rnd_double u (rnd_double u (xval t - m) / of_int (int n + 1)))"
    unfolding m'_def m_def by (rule acc_update_mean [OF assms(1)]) (use assms(5) in simp_all)
  have "\<bar>m\<bar> \<le> 2 * B" unfolding m_def by (rule mean_stays_small [OF assms(6,7,5,2,8)])
  then have one: "\<bar>m' - (m + (xval t - m) / of_int (int n + 1))\<bar> \<le> w"
    unfolding m' w_def by (intro mean_step [OF assms(1-3)]) (use assms(4) in simp_all)
  define k where "k = real n + 1"
  have k: "0 < k" "k = real (Suc n)" "of_int (int n + 1) = k" by (simp_all add: k_def)
  have e: "k * (m + (xval t - m) / k) - (S + xval t) = real n * m - S"
    using k(1) by (simp add: field_simps) (simp add: k_def algebra_simps)
  have "\<bar>k * m' - k * (m + (xval t - m) / k)\<bar> \<le> k * w"
    using one k by (simp add: abs_mult flip: right_diff_distrib)
  moreover have "\<bar>real n * m - S\<bar> \<le> w * (real n * k / 2)" using assms(6) by (simp add: mean_near_def w_def m_def k_def)
  ultimately have "\<bar>k * m' - (S + xval t)\<bar> \<le> k * w + w * (real n * k / 2)" using e by linarith
  also have "\<dots> = w * (k * (k + 1) / 2)" by (simp add: k_def algebra_simps)
  finally show "mean_near B (Suc n) (S + xval t) (acc_update u (int n + 1) t a)"
    by (simp add: mean_near_def m'_def w_def k(2))
  show "\<bar>S + xval t\<bar> \<le> real (Suc n) * B" using assms(4,7) by (simp add: algebra_simps)
qed

lemma acc_run_near:
  assumes "ieee_fpu u" and "1 \<le> B" and "B \<le> 2 ^ 53"
  shows "\<forall>t \<in> set ts. \<bar>xval t\<bar> \<le> B \<Longrightarrow> n + length ts \<le> 2 ^ 24 \<Longrightarrow> mean_near B n S a \<Longrightarrow> \<bar>S\<bar> \<le> real n * B
    \<Longrightarrow> n = 0 \<longrightarrow> acc_mean a = 0
    \<Longrightarrow> mean_near B (n + length ts) (S + (\<Sum>t \<leftarrow> ts. xval t)) (acc_run u (int n) ts a)
      \<and> \<bar>S + (\<Sum>t \<leftarrow> ts. xval t)\<bar> \<le> real (n + length ts) * B"
proof (induction ts arbitrary: n S a)
  case (Cons t ts)
  note step = acc_update_near [OF assms, of t n S a]
  have t: "\<bar>xval t\<bar> \<le> B" "n < 2 ^ 24" using Cons.prems(1,2) by simp_all
  have "mean_near B (Suc n + length ts) (S + xval t + (\<Sum>t \<leftarrow> ts. xval t)) (acc_run u (int (Suc n)) ts (acc_update u (int n + 1) t a))
      \<and> \<bar>S + xval t + (\<Sum>t \<leftarrow> ts. xval t)\<bar> \<le> real (Suc n + length ts) * B"
    by (rule Cons.IH) (use Cons.prems step t in simp_all)
  then show ?case by (simp add: add_ac)
qed simp

lemma acc_run_mean_error:
  assumes "ieee_fpu u" and "1 \<le> B" and "B \<le> 2 ^ 53" and "\<forall>t \<in> set ts. \<bar>xval t\<bar> \<le> B" and "length ts \<le> 2 ^ 24" and "ts \<noteq> []"
  shows "\<bar>acc_mean (acc_run u 0 ts acc_init) - (\<Sum>t \<leftarrow> ts. xval t) / real (length ts)\<bar> \<le> 17 * (real (length ts) + 1) * B / 2 ^ 54"
  using acc_run_near [OF assms(1-4), of 0 0 acc_init] assms(5,6) mean_near_bound [of B "length ts" "\<Sum>t \<leftarrow> ts. xval t"]
  by (simp add: mean_near_def [of B 0] acc_init_def)

section \<open>The statistics of the client\<close>

text \<open>The finished probes that count as successful, in client mode, are the samples of all three statistics.\<close>

definition succeeded :: "res \<Rightarrow> bool" where
  "succeeded r \<longleftrightarrow> f_state (fifo_of_res r) = STATE_SUCCESS"

lemma report_done_statistics:
  assumes "cfg_op c = CLIENT"
  shows "res_rtt (report_done e th r c) = (if succeeded r then acc_update (sys_fpu e) (res_ok c + 1) (fst (res_nic r)) (res_rtt c) else res_rtt c)"
    and "total_rtt (report_done e th r c) = (if succeeded r then acc_update (sys_fpu e) (res_ok c + 1) (fst (res_total r)) (total_rtt c) else total_rtt c)"
    and "kernel_OH (report_done e th r c) = (if succeeded r then acc_update (sys_fpu e) (res_ok c + 1) (fst (res_overhead r)) (kernel_OH c) else kernel_OH c)"
    and "res_ok (report_done e th r c) = (if succeeded r then res_ok c + 1 else res_ok c)"
    and "cfg_op (report_done e th r c) = CLIENT"
  using assms fifo_of_res_cases [of r]
  by (auto simp: report_done_def report_ok_def Let_def succeeded_def state_defs split: prod.splits)

lemma reports_statistics:
  assumes "cfg_op c = CLIENT"
  shows "res_rtt (fold (report_done e th) rs c) = acc_run (sys_fpu e) (res_ok c) (map (fst \<circ> res_nic) (filter succeeded rs)) (res_rtt c)
    \<and> total_rtt (fold (report_done e th) rs c) = acc_run (sys_fpu e) (res_ok c) (map (fst \<circ> res_total) (filter succeeded rs)) (total_rtt c)
    \<and> kernel_OH (fold (report_done e th) rs c) = acc_run (sys_fpu e) (res_ok c) (map (fst \<circ> res_overhead) (filter succeeded rs)) (kernel_OH c)"
  using assms
proof (induction rs arbitrary: c)
  case (Cons r rs)
  show ?case using Cons.IH [OF report_done_statistics(5) [OF Cons.prems]] by (simp add: report_done_statistics [OF Cons.prems])
qed simp

end
