(* ===== verification/Probed_Processes.thy ===== *)
theory Probed_Processes
  imports Probed_Client
begin

text \<open>
  The child processes of \<^verbatim>\<open>SLANG-probed/client.c\<close>: the transmit timer of
  \<^verbatim>\<open>client_send_fork\<close>, which corrects its sleeping time from the time that a hundred
  rounds took, and the TCP client of \<^verbatim>\<open>client_fork\<close>, which relays time stamps from the
  server to the main loop and gives up after repeated failures.
\<close>

section \<open>The transmit timer\<close>

definition SEND_INTERVAL :: int where "SEND_INTERVAL = 1000"
definition SEND_INTERVAL_DEV_INTERVAL :: int where "SEND_INTERVAL_DEV_INTERVAL = 100"

record timer =
  niter :: int
  time_dev :: int
  t_last :: timespec

definition timer_start :: "timespec \<Rightarrow> timer" where
  "timer_start now = \<lparr>niter = 0, time_dev = 0, t_last = now\<rparr>"

text \<open>The argument of \<^verbatim>\<open>usleep\<close> in the next round, in microseconds.\<close>

definition timer_sleep :: "timer \<Rightarrow> int" where
  "timer_sleep t = SEND_INTERVAL - time_dev t"

definition timer_ideal :: timespec where
  "timer_ideal = \<lparr>tv_sec = 0, tv_nsec = SEND_INTERVAL * SEND_INTERVAL_DEV_INTERVAL * 1000\<rparr>"

text \<open>
  One round of the endless loop after the sleep and the write to the pipe; \<open>now\<close> is what
  \<^verbatim>\<open>clock_gettime\<close> returns in it.
\<close>

definition timer_round :: "timespec \<Rightarrow> timer \<Rightarrow> timer" where
  "timer_round now t =
    (let t1 =
       (if c_mod (niter t) SEND_INTERVAL_DEV_INTERVAL = 0 then
          (let time_passed = fst (diff_ts now (t_last t));
               (diff, neg) = diff_ts time_passed timer_ideal;
               t_dev = c_div (c_div (tv_nsec diff) 1000) SEND_INTERVAL_DEV_INTERVAL;
               dev = (if neg \<noteq> 0 then time_dev t - t_dev else time_dev t + t_dev);
               dev' = (if dev > 300 \<or> dev < -300 then (if dev > 300 then 300 else -300) else dev)
           in t\<lparr>t_last := now, time_dev := dev'\<rparr>)
        else t)
     in t1\<lparr>niter := niter t1 + 1\<rparr>)"

definition timer_wf :: "timer \<Rightarrow> bool" where
  "timer_wf t \<longleftrightarrow> -300 \<le> time_dev t \<and> time_dev t \<le> 300 \<and> 0 \<le> niter t"

lemma timer_round_wf: "timer_wf t \<Longrightarrow> timer_wf (timer_round now t)"
  by (auto simp: timer_round_def timer_wf_def Let_def split: prod.splits)

interpretation timer_sys: step_system timer_round "timer_start t0" "\<lambda>_. True" timer_wf
  for t0
  by unfold_locales (simp_all add: timer_wf_def timer_start_def timer_round_wf [unfolded timer_wf_def])

lemma timer_sleep_bounds: "timer_wf t \<Longrightarrow> 700 \<le> timer_sleep t \<and> timer_sleep t \<le> 1300"
  by (simp add: timer_wf_def timer_sleep_def SEND_INTERVAL_def)

lemma timer_ideal_facts [simp]: "ts_ok timer_ideal" "ts_ns timer_ideal = 100000000" "tv_sec timer_ideal = 0"
  by (simp_all add: timer_ideal_def ts_ok_def ts_ns_def SEND_INTERVAL_def SEND_INTERVAL_DEV_INTERVAL_def)

lemma scaled_div: "0 \<le> x \<Longrightarrow> c_div (c_div x 1000) 100 = x div 100000"
  by (simp add: pos_imp_zdiv_nonneg_iff zdiv_zmult2_eq [symmetric])

definition clamp300 :: "int \<Rightarrow> int" where
  "clamp300 dev = (if dev > 300 \<or> dev < -300 then (if dev > 300 then 300 else -300) else dev)"

lemma clamp300_eq: "clamp300 x = max (-300) (min 300 x)"
  by (simp add: clamp300_def)

text \<open>
  A measuring round: \<open>p\<close> is the time in nanoseconds since the last measurement. The
  correction is the deviation from the ideal below the second, in units of 100
  microseconds.
\<close>

lemma timer_round_measure:
  assumes "ts_ok now" "ts_ok (t_last t)" "niter t = 100 * k" "0 \<le> k"
    and p: "p = \<bar>ts_ns now - ts_ns (t_last t)\<bar>"
  shows "time_dev (timer_round now t) =
    max (-300) (min 300 (time_dev t +
      (if p < 100000000 then - ((100000000 - p) mod 1000000000 div 100000)
       else (p - 100000000) mod 1000000000 div 100000)))"
proof -
  let ?tp = "fst (diff_ts now (t_last t))"
  obtain d neg where pair: "diff_ts ?tp timer_ideal = (d, neg)" by force
  have tp: "ts_ok ?tp" "ts_ns ?tp = p" using assms(1,2) p by (simp_all add: diff_ts_facts)
  have d: "ts_ok d" "ts_ns d = \<bar>p - 100000000\<bar>" "neg = (if p < 100000000 then 1 else 0)"
    using diff_ts_facts [OF tp(1) timer_ideal_facts(1)] tp(2) by (simp_all add: pair)
  have nsec: "0 \<le> tv_nsec d" "tv_nsec d = \<bar>p - 100000000\<bar> mod 1000000000"
    using d(1,2) ts_ns_nsec [OF d(1)] by (simp_all add: ts_ok_def)
  have dev: "c_div (c_div (tv_nsec d) 1000) 100 = \<bar>p - 100000000\<bar> mod 1000000000 div 100000"
    unfolding scaled_div [OF nsec(1)] unfolding nsec(2) ..
  have round: "c_mod (niter t) 100 = 0" using assms(3,4) by simp
  have "time_dev (timer_round now t) = clamp300 (if neg \<noteq> 0
      then time_dev t - \<bar>p - 100000000\<bar> mod 1000000000 div 100000
      else time_dev t + \<bar>p - 100000000\<bar> mod 1000000000 div 100000)"
    unfolding timer_round_def SEND_INTERVAL_DEV_INTERVAL_def Let_def round pair prod.case dev clamp300_def
    by simp
  note dev_eq = this
  show ?thesis
  proof (cases "p < 100000000")
    case True
    then have "\<bar>p - 100000000\<bar> = 100000000 - p" "neg \<noteq> 0" using d(3) by simp_all
    with dev_eq True show ?thesis by (simp only: clamp300_eq if_True simp_thms diff_conv_add_uminus)
  next
    case False
    then have "\<bar>p - 100000000\<bar> = p - 100000000" "neg = 0" using d(3) by simp_all
    with dev_eq False show ?thesis by (simp only: clamp300_eq if_False simp_thms)
  qed
qed

section \<open>The TCP client\<close>

datatype sess_end = Select_Error | Read_Timeout | Peer_Closed | Recv_Error

text \<open>
  One pass of the outer loop: a failure to set the connection up, or a connection with the
  data received on it (each with the outcome of the write to the pipe) and its end.
\<close>

datatype attempt =
    Addr_Fail
  | Socket_Fail
  | Connect_Fail
  | Connected "(data_t \<times> bool) list" sess_end

record child =
  fail_setup :: int
  fail_exec :: int
  pipe_out :: "pkt_t list"
  exited :: bool

definition child_start :: child where
  "child_start = \<lparr>fail_setup = 0, fail_exec = 0, pipe_out = [], exited = False\<rparr>"

definition child_pkt :: "addr_t \<Rightarrow> data_t \<Rightarrow> pkt_t" where
  "child_pkt server d = \<lparr>pkt_addr = server, pkt_dscp = 0, pkt_data = d, pkt_ts = ts_zero\<rparr>"

definition setup_failed :: "child \<Rightarrow> child" where
  "setup_failed s = (let n = fail_setup s + 1 in s\<lparr>fail_setup := n, exited := (n > 3)\<rparr>)"

fun child_attempt :: "addr_t \<Rightarrow> attempt \<Rightarrow> child \<Rightarrow> child" where
  "child_attempt server Addr_Fail s = setup_failed s"
| "child_attempt server Socket_Fail s = setup_failed s"
| "child_attempt server Connect_Fail s = setup_failed s"
| "child_attempt server (Connected ds _) s =
    (let n = fail_exec s + 1
     in s\<lparr>pipe_out := pipe_out s @ map (child_pkt server \<circ> fst) (filter snd ds),
          fail_exec := n, exited := (n \<ge> 12)\<rparr>)"

fun client_fork_child :: "addr_t \<Rightarrow> attempt list \<Rightarrow> child \<Rightarrow> child" where
  "client_fork_child server [] s = s"
| "client_fork_child server (a # as) s =
    (let s' = child_attempt server a s in if exited s' then s' else client_fork_child server as s')"

definition child_wf :: "child \<Rightarrow> bool" where
  "child_wf s \<longleftrightarrow> 0 \<le> fail_setup s \<and> 0 \<le> fail_exec s \<and>
     (if exited s then fail_setup s \<le> 4 \<and> fail_exec s \<le> 12 \<and> (fail_setup s = 4 \<or> fail_exec s = 12)
      else fail_setup s \<le> 3 \<and> fail_exec s \<le> 11)"

lemma child_attempt_wf: "child_wf s \<Longrightarrow> \<not> exited s \<Longrightarrow> child_wf (child_attempt server a s)"
  by (cases a) (auto simp: child_wf_def setup_failed_def Let_def)

lemma child_attempt_counts:
  "fail_setup (child_attempt server a s) + fail_exec (child_attempt server a s)
     = fail_setup s + fail_exec s + 1"
  by (cases a) (auto simp: setup_failed_def Let_def)

lemma client_fork_child_wf:
  "child_wf s \<Longrightarrow> \<not> exited s \<Longrightarrow> child_wf (client_fork_child server as s)"
  by (induction server as s rule: client_fork_child.induct) (auto simp: Let_def child_attempt_wf)

lemma client_fork_child_counts:
  "child_wf s \<Longrightarrow> \<not> exited s \<Longrightarrow> \<not> exited (client_fork_child server as s) \<Longrightarrow>
   fail_setup (client_fork_child server as s) + fail_exec (client_fork_child server as s)
     = fail_setup s + fail_exec s + int (length as)"
proof (induction server as s rule: client_fork_child.induct)
  case (1 server s)
  then show ?case by simp
next
  case (2 server a as s)
  let ?s = "child_attempt server a s"
  from "2.prems"(3) have ne: "\<not> exited ?s" by (auto simp: Let_def split: if_splits)
  show ?case
    using "2.IH" [OF refl ne child_attempt_wf [OF "2.prems"(1,2)] ne] "2.prems"(3) ne
      child_attempt_counts [of server a s]
    by (simp add: Let_def)
qed

text \<open>What one pass writes to the pipe.\<close>

definition attempt_out :: "addr_t \<Rightarrow> attempt \<Rightarrow> pkt_t list" where
  "attempt_out server a =
    (case a of Connected ds _ \<Rightarrow> map (child_pkt server \<circ> fst) (filter snd ds) | _ \<Rightarrow> [])"

lemma child_attempt_out: "pipe_out (child_attempt server a s) = pipe_out s @ attempt_out server a"
  by (cases a) (simp_all add: attempt_out_def setup_failed_def Let_def)

lemma client_fork_child_out:
  "\<exists>n \<le> length as. pipe_out (client_fork_child server as s) =
     pipe_out s @ concat (map (attempt_out server) (take n as))"
proof (induction server as s rule: client_fork_child.induct)
  case (1 server s)
  then show ?case by simp
next
  case (2 server a as s)
  let ?s = "child_attempt server a s"
  show ?case
  proof (cases "exited ?s")
    case True
    then show ?thesis by (intro exI [of _ 1]) (simp add: child_attempt_out)
  next
    case False
    from "2.IH" [OF refl False] obtain n where
      "n \<le> length as" "pipe_out (client_fork_child server as ?s) =
         pipe_out ?s @ concat (map (attempt_out server) (take n as))" by blast
    then show ?thesis using False by (intro exI [of _ "Suc n"]) (simp add: child_attempt_out)
  qed
qed

end
