(* ===== verification/Probed_Summary.thy ===== *)
theory Probed_Summary
  imports Probed_Client
begin

text \<open>
  The report of client mode, \<^verbatim>\<open>client_res_summary\<close> of \<^verbatim>\<open>SLANG-probed/client.c\<close>: the
  values printed and, with the option \<^verbatim>\<open>-o\<close>, the line of the CSV file. A quotient whose
  divisor is zero (\<^verbatim>\<open>NaN\<close> in the source) is \<open>None\<close>.
\<close>

section \<open>Definitions\<close>

text \<open>A printed time: seconds with nanoseconds, or nanoseconds alone.\<close>

datatype shown = Seconds int int | Nanos int | Nanos_Real real

definition shown_ts :: "int \<Rightarrow> timespec \<Rightarrow> shown" where
  "shown_ts guard t = (if guard > 0 then Seconds (tv_sec t) (tv_nsec t) else Nanos (tv_nsec t))"

definition to_long :: "real \<Rightarrow> int" where
  "to_long x = (if x \<ge> 0 then \<lfloor>x\<rfloor> else \<lceil>x\<rceil>)"

definition shown_mean :: "real \<Rightarrow> shown" where
  "shown_mean m = (if m \<ge> 1000000000
     then Seconds (c_div (to_long m) 1000000000) (c_mod (to_long m) 1000000000) else Nanos_Real m)"

definition float_ratio :: "fpu \<Rightarrow> real \<Rightarrow> int \<Rightarrow> real option" where
  "float_ratio u x n = (if n = 0 then None else Some (x / rnd_float u (of_int n)))"

definition stdev :: "fpu \<Rightarrow> acc \<Rightarrow> int \<Rightarrow> real option" where
  "stdev u a n = map_option (\<lambda>q. rnd_double u (sqrt (rnd_double u q))) (float_ratio u (acc_m2 a) n)"

record stat_line =
  l_max :: shown
  l_avg :: shown
  l_min :: shown
  l_stdev :: "real option"

record csv_stat =
  v_max :: int
  v_min :: int
  v_mean :: real
  v_stdev :: "real option"

record summary =
  y_ok :: int
  y_dserror :: int
  y_tserror :: int
  y_dup :: int
  y_pongloss :: int
  y_timeout :: int
  y_loss :: "real option"
  y_thold :: int
  y_over_thold :: "real option"
  y_rtt :: stat_line
  y_total :: stat_line
  y_kernel :: stat_line
  y_csv :: "(csv_stat \<times> csv_stat \<times> csv_stat) option"

definition csv_of :: "fpu \<Rightarrow> acc \<Rightarrow> int \<Rightarrow> csv_stat" where
  "csv_of u a n = \<lparr>v_max = tv_sec (acc_max a) * 1000000000 + tv_nsec (acc_max a),
     v_min = tv_sec (acc_min a) * 1000000000 + tv_nsec (acc_min a),
     v_mean = acc_mean a, v_stdev = stdev u a n\<rparr>"

definition percent :: "fpu \<Rightarrow> int \<Rightarrow> int \<Rightarrow> real option" where
  "percent u k n = map_option (\<lambda>q. rnd_float u (rnd_float u q * 100))
     (float_ratio u (rnd_float u (of_int k)) n)"

text \<open>
  The three lines of statistics: the guard of each printed time is the seconds field the
  source tests, which for the minimum of the total round trip is the one of
  \<^verbatim>\<open>res_rtt_min\<close>. \<open>csv_file\<close> says whether the option is set and the file could be opened.
\<close>

definition client_res_summary :: "fpu \<Rightarrow> bool \<Rightarrow> client \<Rightarrow> summary" where
  "client_res_summary u csv_file c =
    (let total = res_ok c + res_dserror c + res_tserror c + res_timeout c + res_pongloss c;
         line = (\<lambda>a guard. \<lparr>l_max = shown_ts (tv_sec (acc_max a)) (acc_max a),
                   l_avg = shown_mean (acc_mean a),
                   l_min = shown_ts guard (acc_min a), l_stdev = stdev u a (res_ok c)\<rparr>)
     in \<lparr>y_ok = res_ok c, y_dserror = res_dserror c, y_tserror = res_tserror c, y_dup = res_dup c,
         y_pongloss = res_pongloss c, y_timeout = res_timeout c,
         y_loss = percent u (res_timeout c + res_pongloss c) total,
         y_thold = res_thold c, y_over_thold = percent u (res_n_thold c) (res_ok c),
         y_rtt = line (res_rtt c) (tv_sec (acc_min (res_rtt c))),
         y_total = line (total_rtt c) (tv_sec (acc_min (res_rtt c))),
         y_kernel = line (kernel_OH c) (tv_sec (acc_min (kernel_OH c))),
         y_csv = (if csv_file then Some (csv_of u (res_rtt c) (res_ok c), csv_of u (total_rtt c) (res_ok c),
                    csv_of u (kernel_OH c) (res_ok c)) else None)\<rparr>)"

section \<open>What the printed values denote\<close>

fun shown_ns :: "shown \<Rightarrow> int" where
  "shown_ns (Seconds s n) = s * 1000000000 + n"
| "shown_ns (Nanos n) = n"
| "shown_ns (Nanos_Real x) = to_long x"

lemma shown_ts_ns: "0 \<le> tv_sec t \<Longrightarrow> shown_ns (shown_ts (tv_sec t) t) = ts_ns t"
  by (simp add: shown_ts_def ts_ns_def)

lemma shown_mean_ns: "shown_ns (shown_mean m) = to_long m"
proof (cases "m \<ge> 1000000000")
  case True
  then have "0 \<le> to_long m" by (simp add: to_long_def)
  then show ?thesis using True by (simp add: shown_mean_def)
next
  case False
  then show ?thesis by (simp add: shown_mean_def)
qed

lemma percent_exact:
  "n \<noteq> 0 \<Longrightarrow> percent exact_fpu k n = Some (of_int k / of_int n * 100)"
  by (simp add: percent_def float_ratio_def exact_fpu_def)

end
