(* ===== verification/Probed_Server.thy ===== *)
theory Probed_Server
  imports Probed_Config
begin

text \<open>
  The main loop of \<^verbatim>\<open>SLANG-probed/loop.c\<close>: the table of TCP peers, the descriptor set
  given to \<^verbatim>\<open>select\<close>, and one iteration of \<^verbatim>\<open>loop_or_die\<close> over the five sources of
  events (UDP, TCP accept, the pipe from the TCP clients, the transmit timer, and peers
  that disconnect). What the system calls of an iteration return is its input.
\<close>

section \<open>State\<close>

record server_peer =
  p_addr :: addr_t
  p_fd :: int

text \<open>The descriptors opened before the loop, and the arguments of \<^verbatim>\<open>loop_or_die\<close>.\<close>

record loop_cfg =
  s_udp :: int
  s_tcp :: int
  client_pipe :: int
  send_pipe :: int
  fd_client_low :: int
  npackets :: int
  thold :: int
  cfg_lm :: lockmode

record server =
  peers :: "server_peer list"
  nclients :: u32
  fs :: "int set"
  fd_max :: int
  tx :: data_t
  sends :: int
  should_reload :: bool
  count_server_resp :: int
  sock_dscp :: u8
  udp_out :: "(addr_t \<times> data_t) list"
  tcp_out :: "(int \<times> data_t) list"
  closed :: "int list"
  halted :: bool
  cl :: client

text \<open>
  The input of one iteration: the descriptors that \<^verbatim>\<open>select\<close> reports, the packet read
  from the UDP socket, the outcome of the calls that answer it, the accepted connection,
  the packet read from the pipe, the number of trigger bytes, and the XML document that a
  reload would find.
\<close>

record loop_in =
  fs_tmp :: "int set"
  in_udp :: "pkt_t option"
  in_tx :: tx_env
  stamp_sent :: bool
  acc_fd :: int
  acc_addr :: addr_t
  acc_addr_ok :: bool
  hello_sent :: bool
  peer_malloc :: bool
  in_pipe :: "pkt_t option"
  triggers :: int
  in_doc :: xml_doc

section \<open>Peers\<close>

definition server_find_peer_fd :: "addr_t \<Rightarrow> server \<Rightarrow> int" where
  "server_find_peer_fd a s =
    (case List.find (\<lambda>p. sin6_addr (p_addr p) = sin6_addr a) (peers s) of
       Some p \<Rightarrow> p_fd p | None \<Rightarrow> -1)"

definition server_kill_peer :: "int \<Rightarrow> server \<Rightarrow> server" where
  "server_kill_peer fd s =
     s\<lparr>nclients := nclients s - 1,
       peers := upd_first (\<lambda>p. p_fd p = fd) (\<lambda>_. []) (peers s),
       closed := closed s @ [fd],
       fs := fs s - {fd},
       fd_max := (if fd = fd_max s then fd_max s - 1 else fd_max s)\<rparr>"

section \<open>One iteration of the loop\<close>

text \<open>
  Each part returns the new state and the local \<^verbatim>\<open>ok\<close>; the UDP part also says whether it
  left the iteration by \<^verbatim>\<open>continue\<close>. An update of the results that raises \<^verbatim>\<open>SIGINT\<close>
  ends the process: in client mode the handler prints the summary and exits.
\<close>

definition run_update :: "(client \<Rightarrow> client) \<Rightarrow> server \<Rightarrow> server" where
  "run_update g s = (let c = g (cl s) in s\<lparr>cl := c, halted := sigint c\<rparr>)"

definition loop_udp :: "loop_cfg \<Rightarrow> sys \<Rightarrow> loop_in \<Rightarrow> server \<Rightarrow> server \<times> int \<times> bool" where
  "loop_udp k e i s =
    (if s_udp k \<notin> fs_tmp i then (s, 0, False)
     else (case in_udp i of
         None \<Rightarrow> (s, 0, False)
       | Some pkt \<Rightarrow>
           (let rx = pkt_data pkt
            in if d_type rx = TYPE_PING then
                 (let tx1 = (tx s)\<lparr>d_type := TYPE_PONG, d_id := d_id rx, d_seq := d_seq rx, d_t2 := pkt_ts pkt\<rparr>;
                      ts = snd (send_w_ts (cfg_ts (cl s)) (in_tx i));
                      tx2 = tx1\<lparr>d_type := TYPE_TIME, d_t3 := ts\<rparr>;
                      s1 = s\<lparr>count_server_resp := count_server_resp s + 1,
                             cl := (cl s)\<lparr>last_tx_id := d_id rx, last_tx_seq := d_seq rx\<rparr>,
                             sock_dscp := pkt_dscp pkt,
                             udp_out := udp_out s @ [(pkt_addr pkt, tx1)], tx := tx2\<rparr>;
                      fd = server_find_peer_fd (pkt_addr pkt) s1
                  in if fd < 0 then (s1, 1, True)
                     else if stamp_sent i then (s1\<lparr>tcp_out := tcp_out s1 @ [(fd, tx2)]\<rparr>, 1, False)
                     else (server_kill_peer fd s1, 1, False))
               else if d_type rx = TYPE_PONG then
                 (run_update (client_res_update e (pkt_addr pkt) rx (Some (pkt_ts pkt))
                       (uint (pkt_dscp pkt)) (npackets k) (thold k)) s, 1, False)
               else (s, 1, False))))"

definition loop_accept :: "loop_cfg \<Rightarrow> loop_in \<Rightarrow> server \<Rightarrow> int \<Rightarrow> server \<times> int" where
  "loop_accept k i s ok =
    (if s_tcp k \<notin> fs_tmp i then (s, ok)
     else if acc_fd i < 0 \<or> \<not> acc_addr_ok i then (s, 0)
     else if nclients s > 0 \<and> cfg_lm k = ENABLED then (s, 0)
     else
       (let s1 = s\<lparr>nclients := nclients s + 1, fs := insert (acc_fd i) (fs s),
                   fd_max := (if acc_fd i > fd_max s then acc_fd i else fd_max s),
                   tx := data_zero\<lparr>d_type := TYPE_HELO\<rparr>\<rparr>;
            s2 = (if hello_sent i then s1\<lparr>tcp_out := tcp_out s1 @ [(acc_fd i, tx s1)]\<rparr>
                  else server_kill_peer (acc_fd i) s1)
        in if \<not> peer_malloc i then (s2\<lparr>halted := True\<rparr>, 1)
           else (s2\<lparr>peers := \<lparr>p_addr = acc_addr i, p_fd = acc_fd i\<rparr> # peers s2\<rparr>, 1)))"

definition loop_pipe :: "loop_cfg \<Rightarrow> sys \<Rightarrow> loop_in \<Rightarrow> server \<Rightarrow> int \<Rightarrow> server \<times> int" where
  "loop_pipe k e i s ok =
    (if client_pipe k \<notin> fs_tmp i then (s, ok)
     else (case in_pipe i of
         None \<Rightarrow> (s, 0)
       | Some pkt \<Rightarrow>
           (let rx = pkt_data pkt
            in if d_type rx = TYPE_HELO then
                 (s\<lparr>cl := snd (client_msess_gothello (pkt_addr pkt) (cl s))\<rparr>, 1)
               else if d_type rx = TYPE_TIME then
                 (run_update (client_res_update e (pkt_addr pkt) rx None (-1) (npackets k) (thold k)) s, 1)
               else (s, 1))))"

definition reload_clients :: "sys \<Rightarrow> (string \<Rightarrow> addr_t option) \<Rightarrow> xml_doc \<Rightarrow> client \<Rightarrow> client" where
  "reload_clients e resolve doc c =
     client_msess_forkall e (snd (client_msess_reconf e resolve doc c))"

definition loop_trigger ::
    "loop_cfg \<Rightarrow> sys \<Rightarrow> (string \<Rightarrow> addr_t option) \<Rightarrow> loop_in \<Rightarrow> server \<Rightarrow> int \<Rightarrow> server \<times> int" where
  "loop_trigger k e resolve i s ok =
    (if send_pipe k \<notin> fs_tmp i then (s, ok)
     else if triggers i > 0 then
       (let c1 = client_msess_transmit e (sends s) (cl s);
            c2 = (if should_reload s then reload_clients e resolve (in_doc i) c1 else c1);
            c3 = (if c_mod (sends s) 100 = 0 then client_res_clear_timeouts e c2 else c2);
            stats = (c_mod (sends s) 10000 = 0 \<and> cfg_op c3 = DAEMON);
            c4 = (if stats then c3\<lparr>count_client_sent := 0, count_client_done := 0\<rparr> else c3)
        in (s\<lparr>cl := c4, should_reload := False, sends := sends s + 1,
              count_server_resp := (if stats then 0 else count_server_resp s)\<rparr>, triggers i))
     else (s, 0))"

text \<open>The last part: a descriptor above the static ones that speaks is closed.\<close>

definition loop_kill :: "loop_cfg \<Rightarrow> loop_in \<Rightarrow> server \<Rightarrow> server" where
  "loop_kill k i s =
     fold (\<lambda>j s. if j \<le> fd_max s \<and> j \<in> fs_tmp i then server_kill_peer j s else s)
       [fd_client_low k..fd_max s] s"

definition loop_step ::
    "loop_cfg \<Rightarrow> sys \<Rightarrow> (string \<Rightarrow> addr_t option) \<Rightarrow> loop_in \<Rightarrow> server \<Rightarrow> server" where
  "loop_step k e resolve i s =
    (if halted s then s
     else
       (let (s1, ok1, continue) = loop_udp k e i s
        in if continue \<or> halted s1 then s1
           else
             (let (s2, ok2) = loop_accept k i s1 ok1
              in if halted s2 then s2
                 else
                   (let (s3, ok3) = loop_pipe k e i s2 ok2
                    in if halted s3 then s3
                       else
                         (let (s4, ok4) = loop_trigger k e resolve i s3 ok3
                          in if ok4 = 0 then loop_kill k i s4 else s4)))))"

definition loop_init :: "loop_cfg \<Rightarrow> int \<Rightarrow> bool \<Rightarrow> data_t \<Rightarrow> client \<Rightarrow> server" where
  "loop_init k fdm reload tx0 c = \<lparr>peers = [], nclients = 0,
     fs = {s_udp k, s_tcp k, client_pipe k, send_pipe k}, fd_max = fdm, tx = tx0, sends = 0,
     should_reload = reload, count_server_resp = 0, sock_dscp = 0, udp_out = [], tcp_out = [],
     closed = [], halted = False, cl = c\<rparr>"

text \<open>
  The initial \<^verbatim>\<open>fd_max\<close>, which is also \<^verbatim>\<open>fd_client_low\<close>: the largest of the two sockets
  and the four pipe ends.
\<close>

definition loop_fd_max :: "int \<Rightarrow> int \<Rightarrow> int \<times> int \<Rightarrow> int \<times> int \<Rightarrow> int" where
  "loop_fd_max udp tcp cpipe spipe =
     max (max (max (max (max (max 0 udp) tcp) (fst cpipe)) (snd cpipe)) (fst spipe)) (snd spipe)"

section \<open>The descriptor set\<close>

definition statics :: "loop_cfg \<Rightarrow> int set" where
  "statics k = {s_udp k, s_tcp k, client_pipe k, send_pipe k}"

text \<open>
  \<^verbatim>\<open>select\<close> is told a bound above every watched descriptor, the descriptors opened before
  the loop stay watched, and no peer has one of them.
\<close>

definition fds_wf :: "loop_cfg \<Rightarrow> server \<Rightarrow> bool" where
  "fds_wf k s \<longleftrightarrow> (\<forall>x \<in> fs s. x \<le> fd_max s) \<and> statics k \<subseteq> fs s \<and>
     (\<forall>p \<in> set (peers s). p_fd p \<notin> statics k) \<and> set (closed s) \<inter> statics k = {}"

text \<open>What the kernel promises: an accepted connection has a descriptor not in use.\<close>

definition fresh_accept :: "loop_cfg \<Rightarrow> loop_in \<Rightarrow> bool" where
  "fresh_accept k i \<longleftrightarrow> acc_fd i \<notin> statics k"

definition low_above :: "loop_cfg \<Rightarrow> bool" where
  "low_above k \<longleftrightarrow> (\<forall>x \<in> statics k. x < fd_client_low k)"

lemma set_upd_first_remove: "set (upd_first p (\<lambda>_. []) xs) \<subseteq> set xs"
  by (induction xs) auto

lemma server_kill_peer_fds: "fds_wf k s \<Longrightarrow> fd \<notin> statics k \<Longrightarrow> fds_wf k (server_kill_peer fd s)"
  using set_upd_first_remove [of "\<lambda>p. p_fd p = fd" "peers s"]
  by (fastforce simp: server_kill_peer_def fds_wf_def)

lemma fds_wf_frame [simp]:
  "fds_wf k (s\<lparr>count_server_resp := n\<rparr>) = fds_wf k s" "fds_wf k (s\<lparr>cl := c\<rparr>) = fds_wf k s"
  "fds_wf k (s\<lparr>sock_dscp := d\<rparr>) = fds_wf k s" "fds_wf k (s\<lparr>udp_out := u\<rparr>) = fds_wf k s"
  "fds_wf k (s\<lparr>tx := t\<rparr>) = fds_wf k s" "fds_wf k (s\<lparr>tcp_out := v\<rparr>) = fds_wf k s"
  "fds_wf k (s\<lparr>halted := b\<rparr>) = fds_wf k s" "fds_wf k (s\<lparr>sends := m\<rparr>) = fds_wf k s"
  "fds_wf k (s\<lparr>should_reload := b\<rparr>) = fds_wf k s"
  "fds_wf k (run_update g s) = fds_wf k s"
  by (simp_all add: fds_wf_def run_update_def Let_def)

lemma find_peer_fd_cases:
  "server_find_peer_fd a s = -1 \<or> (\<exists>p \<in> set (peers s). server_find_peer_fd a s = p_fd p)"
  by (auto simp: server_find_peer_fd_def split: option.splits dest: find_SomeD)

lemma loop_udp_fds:
  assumes "fds_wf k s"
  shows "fds_wf k (fst (loop_udp k e i s))"
proof -
  have kill: "fds_wf k (server_kill_peer (server_find_peer_fd a s') s')"
    if "fds_wf k s'" "0 \<le> server_find_peer_fd a s'" for a s'
    using find_peer_fd_cases [of a s'] that
    by (intro server_kill_peer_fds) (auto simp: fds_wf_def)
  show ?thesis
    using assms by (auto simp: loop_udp_def Let_def split: option.splits intro!: kill)
qed

lemma loop_accept_fds:
  assumes "fds_wf k s" "fresh_accept k i"
  shows "fds_wf k (fst (loop_accept k i s ok))"
proof -
  let ?s = "s\<lparr>nclients := nclients s + 1, fs := insert (acc_fd i) (fs s),
      fd_max := (if acc_fd i > fd_max s then acc_fd i else fd_max s), tx := data_zero\<lparr>d_type := TYPE_HELO\<rparr>\<rparr>"
  have s1: "fds_wf k ?s" using assms(1) by (fastforce simp: fds_wf_def)
  have s2: "fds_wf k (server_kill_peer (acc_fd i) ?s)"
    using server_kill_peer_fds [OF s1] assms(2) by (simp add: fresh_accept_def)
  have add: "fds_wf k s' \<Longrightarrow> fds_wf k (s'\<lparr>peers := \<lparr>p_addr = a, p_fd = acc_fd i\<rparr> # peers s'\<rparr>)" for s' a
    using assms(2) by (simp add: fds_wf_def fresh_accept_def)
  show ?thesis
    using assms(1) s1 s2 by (simp add: loop_accept_def Let_def add)
qed

lemma loop_pipe_fds: "fds_wf k s \<Longrightarrow> fds_wf k (fst (loop_pipe k e i s ok))"
  by (simp add: loop_pipe_def Let_def split: option.splits)

lemma loop_trigger_fds: "fds_wf k s \<Longrightarrow> fds_wf k (fst (loop_trigger k e resolve i s ok))"
  by (simp add: loop_trigger_def Let_def)

lemma loop_kill_fds:
  assumes "low_above k" "fds_wf k s"
  shows "fds_wf k (loop_kill k i s)"
proof -
  let ?f = "\<lambda>j s. if j \<le> fd_max s \<and> j \<in> fs_tmp i then server_kill_peer j s else s"
  have "fds_wf k s \<Longrightarrow> \<forall>j \<in> set js. j \<notin> statics k \<Longrightarrow> fds_wf k (fold ?f js s)" for js s
    by (induction js arbitrary: s) (simp_all add: server_kill_peer_fds)
  moreover have "\<forall>j \<in> set [fd_client_low k..fd_max s]. j \<notin> statics k"
    using assms(1) by (auto simp: low_above_def)
  ultimately show ?thesis using assms(2) by (simp add: loop_kill_def)
qed

lemma loop_step_fds:
  assumes "low_above k" "fds_wf k s" "fresh_accept k i"
  shows "fds_wf k (loop_step k e resolve i s)"
proof -
  obtain s1 ok1 b where u: "loop_udp k e i s = (s1, ok1, b)" by (metis prod_cases3)
  obtain s2 ok2 where a: "loop_accept k i s1 ok1 = (s2, ok2)" by force
  obtain s3 ok3 where p: "loop_pipe k e i s2 ok2 = (s3, ok3)" by force
  obtain s4 ok4 where t: "loop_trigger k e resolve i s3 ok3 = (s4, ok4)" by force
  have 1: "fds_wf k s1" using loop_udp_fds [OF assms(2)] u by (metis fst_conv)
  have 2: "fds_wf k s2" using loop_accept_fds [OF 1 assms(3)] a by (metis fst_conv)
  have 3: "fds_wf k s3" using loop_pipe_fds [OF 2] p by (metis fst_conv)
  have 4: "fds_wf k s4" using loop_trigger_fds [OF 3] t by (metis fst_conv)
  show ?thesis
    using assms(2) 1 2 3 4 loop_kill_fds [OF assms(1) 4] by (simp add: loop_step_def u a p t)
qed

definition loop_safe :: "loop_cfg \<Rightarrow> server \<Rightarrow> bool" where
  "loop_safe k s \<longleftrightarrow> (low_above k \<longrightarrow> fds_wf k s)"

text \<open>The static descriptors lie below the initial maximum.\<close>

lemma loop_init_fds: "low_above k \<Longrightarrow> fdm = fd_client_low k \<Longrightarrow> fds_wf k (loop_init k fdm reload tx0 c)"
  by (auto simp: fds_wf_def loop_init_def low_above_def statics_def)

interpretation loop_sys: step_system "loop_step k e resolve" "loop_init k (fd_client_low k) reload tx0 c"
  "fresh_accept k" "loop_safe k"
  for k e resolve reload tx0 c
proof unfold_locales
  show "loop_safe k (loop_init k (fd_client_low k) reload tx0 c)"
    by (simp add: loop_safe_def loop_init_fds)
  show "loop_safe k s \<Longrightarrow> fresh_accept k i \<Longrightarrow> loop_safe k (loop_step k e resolve i s)" for s i
    by (simp add: loop_safe_def loop_step_fds)
qed

section \<open>Counting clients\<close>

text \<open>
  The counter of clients is the length of the table, and no two peers share a descriptor,
  as long as every greeting is sent and only descriptors of peers are closed.
\<close>

definition counts_wf :: "server \<Rightarrow> bool" where
  "counts_wf s \<longleftrightarrow> nclients s = of_nat (length (peers s)) \<and> distinct (map p_fd (peers s))"

lemma kill_peer_removes:
  fixes ps :: "server_peer list"
  assumes "distinct (map p_fd ps)" "fd \<in> p_fd ` set ps"
  shows "upd_first (\<lambda>p. p_fd p = fd) (\<lambda>_. []) ps = filter (\<lambda>p. p_fd p \<noteq> fd) ps"
    and "length ps = Suc (length (filter (\<lambda>p. p_fd p \<noteq> fd) ps))"
proof -
  have none: "filter (\<lambda>p. p_fd p \<noteq> x) qs = qs" if "x \<notin> p_fd ` set qs" for x and qs :: "server_peer list"
    using that by (induction qs) auto
  show "upd_first (\<lambda>p. p_fd p = fd) (\<lambda>_. []) ps = filter (\<lambda>p. p_fd p \<noteq> fd) ps"
    "length ps = Suc (length (filter (\<lambda>p. p_fd p \<noteq> fd) ps))"
    using assms by (induction ps) (auto simp: none)
qed

lemma server_kill_peer_counts:
  assumes "counts_wf s" "fd \<in> p_fd ` set (peers s)"
  shows "counts_wf (server_kill_peer fd s)"
  using kill_peer_removes [of "peers s" fd] assms
  by (simp add: counts_wf_def server_kill_peer_def distinct_map_filter)

lemma loop_accept_counts:
  assumes "counts_wf s" "hello_sent i" "acc_fd i \<notin> p_fd ` set (peers s)" "peer_malloc i"
  shows "counts_wf (fst (loop_accept k i s ok))"
  using assms by (auto simp: loop_accept_def Let_def counts_wf_def add.commute)

lemma loop_accept_refuses:
  "s_tcp k \<in> fs_tmp i \<Longrightarrow> cfg_lm k = ENABLED \<Longrightarrow> nclients s > 0 \<Longrightarrow> loop_accept k i s ok = (s, 0)"
  by (simp add: loop_accept_def)

section \<open>The client inside the loop\<close>

text \<open>Whatever an iteration does to the client is a sequence of the operations of the client.\<close>

definition client_reach :: "sys \<Rightarrow> client \<Rightarrow> client \<Rightarrow> bool" where
  "client_reach e c c1 \<longleftrightarrow> (\<exists>ops. c1 = fold (client_step e) ops c)"

lemma client_reach_refl [simp]: "client_reach e c c"
  unfolding client_reach_def by (rule exI [of _ "[]"]) simp

lemma client_reach_step: "client_reach e c (client_step e i c)"
  unfolding client_reach_def by (rule exI [of _ "[i]"]) simp

lemma client_reach_trans: "client_reach e c c1 \<Longrightarrow> client_reach e c1 c2 \<Longrightarrow> client_reach e c c2"
  unfolding client_reach_def by (metis fold_append o_apply)

lemma client_reach_one:
  "client_reach e c (client_res_update e a d ts dscp np th c)" "client_reach e c (client_msess_transmit e n c)"
  "client_reach e c (client_res_clear_timeouts e c)" "client_reach e c (snd (client_msess_gothello a c))"
  "client_reach e c (client_stats c)" "client_reach e c (c\<lparr>last_tx_id := i, last_tx_seq := q\<rparr>)"
  using client_reach_step [of e c "Op_Update a d ts dscp np th"] client_reach_step [of e c "Op_Transmit n"]
    client_reach_step [of e c Op_Clear] client_reach_step [of e c "Op_Hello a"] client_reach_step [of e c Op_Stats]
    client_reach_step [of e c "Op_Answer i q"]
  by simp_all

lemma client_reach_reload: "client_reach e c (reload_clients e resolve doc c)"
  unfolding client_reach_def reload_clients_def by (rule exI [of _ "[Op_Reconf resolve doc, Op_Forkall]"]) simp

lemma kill_peer_client [simp]: "cl (server_kill_peer fd s) = cl s"
  by (simp add: server_kill_peer_def)

lemma loop_kill_client [simp]: "cl (loop_kill k i s) = cl s"
proof -
  have "cl (fold (\<lambda>j s. if j \<le> fd_max s \<and> j \<in> fs_tmp i then server_kill_peer j s else s) js s) = cl s" for js s
    by (induction js arbitrary: s) simp_all
  then show ?thesis by (simp add: loop_kill_def)
qed

lemma loop_udp_client: "client_reach e (cl s) (cl (fst (loop_udp k e i s)))"
  by (simp add: loop_udp_def Let_def run_update_def client_reach_one split: option.split)

lemma loop_accept_client: "cl (fst (loop_accept k i s ok)) = cl s"
  by (simp add: loop_accept_def Let_def)

lemma loop_pipe_client: "client_reach e (cl s) (cl (fst (loop_pipe k e i s ok)))"
  by (simp add: loop_pipe_def Let_def run_update_def client_reach_one split: option.split)

lemma loop_trigger_client: "client_reach e (cl s) (cl (fst (loop_trigger k e resolve i s ok)))"
proof -
  define c1 where "c1 = client_msess_transmit e (sends s) (cl s)"
  define c2 where "c2 = (if should_reload s then reload_clients e resolve (in_doc i) c1 else c1)"
  define c3 where "c3 = (if c_mod (sends s) 100 = 0 then client_res_clear_timeouts e c2 else c2)"
  define c4 where "c4 = (if c_mod (sends s) 10000 = 0 \<and> cfg_op c3 = DAEMON then c3\<lparr>count_client_sent := 0, count_client_done := 0\<rparr> else c3)"
  have "client_reach e (cl s) c1" "client_reach e c1 c2" "client_reach e c2 c3"
    by (simp_all add: c1_def c2_def c3_def client_reach_one client_reach_reload)
  moreover have "c4 = client_stats c3 \<or> c4 = c3" by (simp add: c4_def client_stats_def)
  then have "client_reach e c3 c4" using client_reach_one(5) by auto
  ultimately have "client_reach e (cl s) c4" using client_reach_trans by blast
  moreover have "cl (fst (loop_trigger k e resolve i s ok)) \<in> {cl s, c4}"
    unfolding loop_trigger_def Let_def c4_def c3_def c2_def c1_def by simp
  ultimately show ?thesis by auto
qed

lemma loop_step_client: "client_reach e (cl s) (cl (loop_step k e resolve i s))"
proof -
  obtain s1 ok1 b where u: "loop_udp k e i s = (s1, ok1, b)" by (metis prod_cases3)
  obtain s2 ok2 where a: "loop_accept k i s1 ok1 = (s2, ok2)" by force
  obtain s3 ok3 where p: "loop_pipe k e i s2 ok2 = (s3, ok3)" by force
  obtain s4 ok4 where t: "loop_trigger k e resolve i s3 ok3 = (s4, ok4)" by force
  have 1: "client_reach e (cl s) (cl s1)" using loop_udp_client [of e s k i] u by simp
  have 2: "cl s2 = cl s1" using loop_accept_client [of k i s1 ok1] a by simp
  have 3: "client_reach e (cl s) (cl s3)" using client_reach_trans [OF 1] loop_pipe_client [of e s2 k i ok2] p 2 by simp
  have 4: "client_reach e (cl s) (cl s4)" using client_reach_trans [OF 3] loop_trigger_client [of e s3 k resolve i ok3] t by simp
  show ?thesis using 1 2 3 4 by (simp add: loop_step_def u a p t)
qed

lemma loop_run_client: "client_reach e (cl s) (cl (fold (loop_step k e resolve) ins s))"
proof (induction ins arbitrary: s)
  case (Cons i ins)
  show ?case using client_reach_trans [OF loop_step_client [of e s k resolve i] Cons] by simp
qed simp

end
