(* ===== verification/Probed_Main.thy ===== *)
theory Probed_Main
  imports Probed_Server
begin

text \<open>
  The start of \<^verbatim>\<open>probed\<close> (\<^verbatim>\<open>SLANG-probed/main.c\<close>): default settings, the options in
  the order \<^verbatim>\<open>getopt\<close> delivers them, and what each mode of operation hands to the main
  loop.
\<close>

section \<open>Command line\<close>

record main_cfg =
  m_cfgpath :: string
  m_quiet :: bool
  m_iface :: string
  m_port :: string
  m_op :: opmode
  m_lm :: lockmode
  m_fs :: fsmode
  m_tstamp :: tsmode
  m_addr :: string
  m_fifopath :: string
  m_wait :: string
  m_npackets :: string
  m_thold :: string

datatype main_exit = Exit_Help | Exit_Usage | Exit_No_Session

definition main_defaults :: main_cfg where
  "main_defaults = \<lparr>m_cfgpath = ''probed.conf'', m_quiet = False, m_iface = ''eth0'', m_port = ''60666'',
     m_op = HELP, m_lm = DISABLED, m_fs = OFF, m_tstamp = HARDWARE, m_addr = '''', m_fifopath = '''',
     m_wait = ''500'', m_npackets = ''2147483646'', m_thold = ''0''\<rparr>"

text \<open>One option: the character that \<^verbatim>\<open>getopt\<close> returns and \<^verbatim>\<open>optarg\<close>.\<close>

definition main_option :: "char \<Rightarrow> string \<Rightarrow> main_cfg \<Rightarrow> main_exit + main_cfg" where
  "main_option arg optarg m =
    (if arg = CHR ''h'' then Inl Exit_Help
     else if arg = CHR ''?'' then Inl Exit_Usage
     else Inr (
       if arg = CHR ''q'' then m\<lparr>m_quiet := True\<rparr>
       else if arg = CHR ''f'' then m\<lparr>m_cfgpath := optarg\<rparr>
       else if arg = CHR ''i'' then m\<lparr>m_iface := optarg\<rparr>
       else if arg = CHR ''p'' then m\<lparr>m_port := optarg\<rparr>
       else if arg = CHR ''w'' then m\<lparr>m_wait := optarg\<rparr>
       else if arg = CHR ''n'' then m\<lparr>m_npackets := optarg\<rparr>
       else if arg = CHR ''t'' then m\<lparr>m_thold := optarg\<rparr>
       else if arg = CHR ''k'' then m\<lparr>m_tstamp := KERNEL\<rparr>
       else if arg = CHR ''u'' then m\<lparr>m_tstamp := USERLAND\<rparr>
       else if arg = CHR ''s'' then m\<lparr>m_op := SERVER\<rparr>
       else if arg = CHR ''l'' then m\<lparr>m_lm := ENABLED\<rparr>
       else if arg = CHR ''o'' then m\<lparr>m_fs := ON\<rparr>
       else if arg = CHR ''d'' then m\<lparr>m_op := DAEMON, m_fifopath := optarg\<rparr>
       else if arg = CHR ''c'' then m\<lparr>m_op := CLIENT, m_addr := optarg\<rparr>
       else m))"

fun main_options :: "(char \<times> string) list \<Rightarrow> main_cfg \<Rightarrow> main_exit + main_cfg" where
  "main_options [] m = (if m_op m = HELP then Inl Exit_Help else Inr m)"
| "main_options ((arg, optarg) # opts) m =
    (case main_option arg optarg m of Inl x \<Rightarrow> Inl x | Inr m' \<Rightarrow> main_options opts m')"

text \<open>The time-stamping mode in force after the set-up call; the three outcomes are its system calls.\<close>

definition main_tsmode :: "tsmode \<Rightarrow> bool \<Rightarrow> bool \<Rightarrow> bool \<Rightarrow> tsmode" where
  "main_tsmode want ioctl_ok sockopt_ok ns_ok =
    (case want of HARDWARE \<Rightarrow> tstamp_mode_hardware ioctl_ok sockopt_ok ns_ok
     | KERNEL \<Rightarrow> tstamp_mode_kernel sockopt_ok ns_ok
     | USERLAND \<Rightarrow> tstamp_mode_userland ns_ok)"

text \<open>
  The client state and the reload request with which the loop starts; in client mode one
  session with identifier 0 is added first.
\<close>

definition main_start ::
    "sys \<Rightarrow> (string \<Rightarrow> addr_t option) \<Rightarrow> tsmode \<Rightarrow> main_cfg \<Rightarrow> main_exit + (client \<times> bool)" where
  "main_start e resolve ts m =
    (case m_op m of
       SERVER \<Rightarrow> Inr (client_init SERVER ts, False)
     | CLIENT \<Rightarrow>
         (let (ret, c) = client_msess_add e (resolve (m_addr m)) 0 (atoi (m_wait m)) 0 (client_init CLIENT ts)
          in if ret \<noteq> 0 then Inl Exit_No_Session else Inr (c, True))
     | _ \<Rightarrow> Inr (client_init DAEMON ts, True))"

definition main_loop_args :: "main_cfg \<Rightarrow> int \<times> int" where
  "main_loop_args m = (atoi (m_npackets m), atoi (m_thold m))"

section \<open>Facts\<close>

lemma main_options_mode:
  "main_options opts m = Inr m' \<Longrightarrow> m_op m' \<noteq> HELP"
  by (induction opts m rule: main_options.induct) (auto split: if_splits sum.splits)

lemma main_start_wf: "main_start e resolve ts m = Inr (c, b) \<Longrightarrow> client_wf c"
  using client_msess_add_wf [OF client_init_wf]
  by (auto simp: main_start_def client_init_wf split: opmode.splits prod.splits if_splits) (metis snd_conv)

text \<open>Every state of the client in the running program is reached by operations of the client.\<close>

lemma main_start_reach: "main_start e resolve ts m = Inr (c, b) \<Longrightarrow> \<exists>op. client_reach e (client_init op ts) c"
  using client_reach_step [of e "client_init CLIENT ts" "Op_Add (resolve (m_addr m)) 0 (atoi (m_wait m)) 0"]
  by (auto simp: main_start_def split: opmode.splits prod.splits if_splits) (metis client_reach_refl snd_conv)+

lemma program_client_run:
  assumes "main_start e resolve ts m = Inr (c0, reload)"
  obtains op ops where "cl (fold (loop_step k e resolve) ins (loop_init k fdm reload tx0 c0)) = fold (client_step e) ops (client_init op ts)"
proof -
  obtain op where "client_reach e (client_init op ts) c0" using main_start_reach [OF assms] by blast
  moreover have "client_reach e c0 (cl (fold (loop_step k e resolve) ins (loop_init k fdm reload tx0 c0)))"
    using loop_run_client [of e "loop_init k fdm reload tx0 c0" k resolve ins] by (simp add: loop_init_def)
  ultimately show thesis using that client_reach_trans unfolding client_reach_def by blast
qed

end
