(* ===== verification/Probed_Properties.thy ===== *)
theory Probed_Properties
  imports Probed_Runs Probed_Rounding Probed_Processes Probed_Summary Probed_Main
begin

unbundle bit_operations_syntax

text \<open>
  The properties of the prober \<^verbatim>\<open>SLANG-probed\<close>: time arithmetic, statistics, time-stamp
  extraction, the FIFO, the life and the accounting of probes, sessions and their child
  processes, the report, and the descriptors and peers of the main loop.
\<close>

section \<open>An environment for examples\<close>

definition demo_sys :: sys where
  "demo_sys = \<lparr>sys_write = (\<lambda>_. True), sys_malloc = (\<lambda>_. True),
     sys_clock = (\<lambda>n. \<lparr>tv_sec = int n, tv_nsec = 0\<rparr>),
     sys_tx = (\<lambda>n. \<lparr>tx_clock = \<lparr>tv_sec = int n, tv_nsec = 5\<rparr>, tx_sendto_ok = True,
        tx_last = 0, tx_now = 0, tx_polls = []\<rparr>),
     sys_fork = (\<lambda>n. int n + 100), sys_fpu = exact_fpu\<rparr>"

definition demo_addr :: addr_t where
  "demo_addr = \<lparr>sin6_addr = 1, sin6_port = 60666\<rparr>"

definition demo_res :: res where
  "demo_res = \<lparr>created = \<lparr>tv_sec = 5, tv_nsec = 0\<rparr>, r_state = 7, r_addr = 1, r_id = 0, r_seq = 1,
     r_ts = [\<lparr>tv_sec = 5, tv_nsec = 0\<rparr>, \<lparr>tv_sec = 5, tv_nsec = 400\<rparr>, \<lparr>tv_sec = 5, tv_nsec = 600\<rparr>,
             \<lparr>tv_sec = 5, tv_nsec = 1000\<rparr>]\<rparr>"

section \<open>Time arithmetic and statistics\<close>

text \<open>
  For normalised times \<^verbatim>\<open>diff_ts\<close> writes the absolute difference, itself normalised
  and with non-negative seconds, and returns 1 exactly when the first time is the smaller.
\<close>

theorem diff_ts_correct:
  assumes "ts_ok a" "ts_ok b" "diff_ts a b = (r, neg)"
  shows "ts_ok r \<and> 0 \<le> tv_sec r \<and> ts_ns r = \<bar>ts_ns a - ts_ns b\<bar> \<and>
    (neg = 1 \<longleftrightarrow> ts_ns a < ts_ns b) \<and> (neg = 0 \<longleftrightarrow> ts_ns b \<le> ts_ns a)"
  using diff_ts_facts [OF assms(1,2)] diff_ts_sec_nonneg [of a b] assms(3) by auto

theorem diff_ts_correct_witness:
  "ts_ns (ts_make 1 999999999) = \<bar>ts_ns (ts_make 3 5) - ts_ns (ts_make 5 4)\<bar>"
proof -
  have "ts_ok (ts_make 3 5)" "ts_ok (ts_make 5 4)"
    "diff_ts (ts_make 3 5) (ts_make 5 4) = (ts_make 1 999999999, 1)"
    by (simp_all add: ts_ok_def diff_ts_def)
  from diff_ts_correct [OF this] show ?thesis by simp
qed

text \<open>
  \<^verbatim>\<open>cmp_ts\<close> is the three-way comparison of the nanosecond values: on normalised times
  its sign is that of the difference, so it is antisymmetric and transitive.
\<close>

theorem cmp_ts_correct:
  assumes "ts_ok a" "ts_ok b" "ts_ok c"
  shows "cmp_ts a b = sgn (ts_ns a - ts_ns b) \<and> cmp_ts b a = - cmp_ts a b \<and>
    (cmp_ts a b = 0 \<longleftrightarrow> a = b) \<and> (cmp_ts a b = -1 \<and> cmp_ts b c = -1 \<longrightarrow> cmp_ts a c = -1)"
proof -
  have "cmp_ts a b = 0 \<longleftrightarrow> a = b"
    using ts_cmp.cmp_equal [OF assms(1,2)] ts_ns_inject [OF assms(1,2)] by blast
  then show ?thesis
    using ts_cmp.cmp_key [OF assms(1,2)] ts_cmp.cmp_antisym [OF assms(1,2)] ts_cmp.cmp_trans [OF assms]
    by blast
qed

theorem cmp_ts_correct_witness: "cmp_ts (ts_make 1 5) (ts_make 1 7) = -1"
proof -
  have "ts_ok (ts_make 1 5)" "ts_ok (ts_make 1 7)" by (simp_all add: ts_ok_def)
  from cmp_ts_correct [OF this this(1)] show ?thesis by (simp add: ts_ns_def)
qed

text \<open>
  C24. The means kept in client mode, with the double precision arithmetic of the machine. After any finished probes, up to
  \<open>2 ^ 24\<close> of them successful, each of the three running means (of the round trip, the total time and the time at the
  remote host) is within \<open>17 (n + 1) B / 2 ^ 54\<close> of the mean of the \<open>n\<close> samples of the successful probes, when these are at most
  \<open>B\<close> nanoseconds in size, \<open>B\<close> at most \<open>2 ^ 53\<close>.
\<close>

theorem client_mean_accuracy:
  fixes B :: real and e :: sys and th :: int and ts :: tsmode and rs :: "res list"
  defines "c \<equiv> fold (report_done e th) rs (client_init CLIENT ts)" and "oks \<equiv> filter succeeded rs"
  assumes "ieee_fpu (sys_fpu e)" and "1 \<le> B" and "B \<le> 2 ^ 53" and "oks \<noteq> []" and "length oks \<le> 2 ^ 24"
    and "\<forall>r \<in> set oks. \<forall>sample \<in> {res_nic, res_total, res_overhead}. \<bar>of_int (ts_ns (fst (sample r)))\<bar> \<le> B"
  shows "\<forall>(stat, sample) \<in> {(res_rtt c, res_nic), (total_rtt c, res_total), (kernel_OH c, res_overhead)}.
    \<bar>acc_mean stat - (\<Sum>r \<leftarrow> oks. of_int (ts_ns (fst (sample r)))) / real (length oks)\<bar> \<le> 17 * (real (length oks) + 1) * B / 2 ^ 54"
proof -
  have one: "\<bar>acc_mean (acc_run (sys_fpu e) 0 (map (fst \<circ> sample) oks) acc_init)
      - (\<Sum>r \<leftarrow> oks. of_int (ts_ns (fst (sample r)))) / real (length oks)\<bar> \<le> 17 * (real (length oks) + 1) * B / 2 ^ 54"
    if "sample \<in> {res_nic, res_total, res_overhead}" for sample
    using acc_run_mean_error [OF assms(3-5), of "map (fst \<circ> sample) oks"] assms(6-8) that by (auto simp: comp_def)
  have init: "cfg_op (client_init CLIENT ts) = CLIENT" "res_ok (client_init CLIENT ts) = 0" "res_rtt (client_init CLIENT ts) = acc_init"
    "total_rtt (client_init CLIENT ts) = acc_init" "kernel_OH (client_init CLIENT ts) = acc_init" by (simp_all add: client_init_def)
  show ?thesis
    using reports_statistics [OF init(1), of e th rs] one [of res_nic] one [of res_total] one [of res_overhead]
    by (simp add: c_def oks_def init)
qed

text \<open>An arithmetic that rounds down to multiples of \<open>2 ^ -1075\<close>, and two probes with round trips of 800 and 1800 nanoseconds.\<close>

definition grid_fpu :: fpu where
  "grid_fpu = \<lparr>rnd_double = (\<lambda>x. of_int \<lfloor>x * 2 ^ 1075\<rfloor> / 2 ^ 1075), rnd_float = (\<lambda>x. x)\<rparr>"

lemma grid_near:
  fixes x g :: real
  assumes "0 < g"
  shows "\<bar>of_int \<lfloor>x * g\<rfloor> / g - x\<bar> \<le> 1 / g"
proof -
  have "\<bar>of_int \<lfloor>x * g\<rfloor> - x * g\<bar> \<le> 1" by linarith
  then have "\<bar>(of_int \<lfloor>x * g\<rfloor> - x * g) / g\<bar> \<le> 1 / g" using assms by (simp add: divide_right_mono)
  then show ?thesis using assms by (simp add: diff_divide_distrib)
qed

lemma grid_exact:
  fixes g :: real
  assumes "0 < g" and "g = of_int G"
  shows "of_int \<lfloor>of_int k * g\<rfloor> / g = of_int k"
proof -
  have "of_int k * g = of_int (k * G)" using assms(2) by simp
  then have "real_of_int \<lfloor>of_int k * g\<rfloor> = of_int k * g" by (metis floor_of_int)
  then have "real_of_int \<lfloor>of_int k * g\<rfloor> / g = of_int k * g / g" by (rule arg_cong [where f = "\<lambda>y. y / g"])
  also have "\<dots> = of_int k" using assms(1) by simp
  finally show ?thesis .
qed

lemma grid_fpu_ieee: "ieee_fpu grid_fpu"
proof -
  define g where "g = (2 ^ 1075 :: real)"
  have g: "0 < g" "g = of_int (2 ^ 1075)" unfolding g_def by (simp_all only: zero_less_power zero_less_numeral of_int_power of_int_numeral)
  have "\<bar>of_int \<lfloor>x * g\<rfloor> / g - x\<bar> \<le> \<bar>x\<bar> / 2 ^ 53 + 1 / g" for x :: real
  proof -
    have "0 \<le> \<bar>x\<bar> / 2 ^ 53" by simp
    then show ?thesis using grid_near [OF g(1), of x] by linarith
  qed
  then show ?thesis unfolding ieee_fpu_def grid_fpu_def g_def [symmetric] using grid_exact [OF g] by simp
qed

theorem client_mean_accuracy_witness:
  "\<bar>acc_mean (res_rtt (fold (report_done (demo_sys\<lparr>sys_fpu := grid_fpu\<rparr>) 0)
      [demo_res, demo_res\<lparr>r_ts := [ts_make 5 0, ts_make 5 400, ts_make 5 600, ts_make 5 2000]\<rparr>] (client_init CLIENT KERNEL))) - 1300\<bar> \<le> 1 / 1000"
proof -
  let ?r = "demo_res\<lparr>r_ts := [ts_make 5 0, ts_make 5 400, ts_make 5 600, ts_make 5 2000]\<rparr>"
  have ok: "filter succeeded [demo_res, ?r] = [demo_res, ?r]" unfolding succeeded_def by code_simp
  have ns: "ts_ns (fst (res_nic demo_res)) = 800" "ts_ns (fst (res_total demo_res)) = 1000" "ts_ns (fst (res_overhead demo_res)) = 200"
    "ts_ns (fst (res_nic ?r)) = 1800" "ts_ns (fst (res_total ?r)) = 2000" "ts_ns (fst (res_overhead ?r)) = 200" by code_simp+
  have "\<bar>acc_mean (res_rtt (fold (report_done (demo_sys\<lparr>sys_fpu := grid_fpu\<rparr>) 0) [demo_res, ?r] (client_init CLIENT KERNEL)))
      - (800 + 1800) / 2\<bar> \<le> 17 * (2 + 1) * 2000 / 2 ^ 54"
    using client_mean_accuracy [of "demo_sys\<lparr>sys_fpu := grid_fpu\<rparr>" 2000 "[demo_res, ?r]" 0 KERNEL] grid_fpu_ieee
    unfolding ok by (simp add: ns)
  moreover have "(17 * (2 + 1) * 2000 / 2 ^ 54 :: real) \<le> 1 / 1000" "(800 + 1800) / 2 = (1300 :: real)" by simp_all
  ultimately show ?thesis by linarith
qed

text \<open>
  In exact arithmetic the running update of \<^verbatim>\<open>client.c\<close> (Welford's method) ends with
  the mean of the samples and the sum of their squared deviations from that mean.
\<close>

theorem acc_run_mean_and_deviation:
  fixes ts :: "timespec list"
  assumes "ts \<noteq> []"
  defines "a \<equiv> acc_run exact_fpu 0 ts acc_init"
  shows "acc_mean a = (\<Sum>t \<leftarrow> ts. of_int (ts_ns t)) / real (length ts) \<and>
    acc_m2 a = (\<Sum>t \<leftarrow> ts. (of_int (ts_ns t) - acc_mean a)\<^sup>2)"
proof -
  have "acc_summary ts a"
    using acc_run_summary [OF acc_init_summary, of ts] by (simp add: a_def)
  then show ?thesis using assms(1) by (simp add: acc_summary_def sq_dev_def field_simps)
qed

theorem acc_run_mean_and_deviation_witness:
  "acc_mean (acc_run exact_fpu 0 [ts_make 0 10, ts_make 0 20] acc_init) = 15"
  using acc_run_mean_and_deviation [of "[ts_make 0 10, ts_make 0 20]"] by (simp add: ts_ns_def)

text \<open>
  Whatever the rounding, after any non-empty series of samples the recorded extremes
  are the smallest and the largest sample, although the minimum starts at an invalid value
  and the maximum at zero.
\<close>

theorem acc_run_extremes:
  fixes u :: fpu and t :: timespec and ts :: "timespec list"
  assumes "\<forall>x \<in> set (t # ts). ts_sample x"
  defines "a \<equiv> acc_run u 0 (t # ts) acc_init"
  shows "ts_ns (acc_max a) = Max (ts_ns ` set (t # ts)) \<and> ts_ns (acc_min a) = Min (ts_ns ` set (t # ts))"
proof -
  have t: "ts_sample t" and ts: "\<forall>x \<in> set ts. ts_sample x" using assms(1) by auto
  note f = acc_first [OF t, of u 1]
  have "ts_ns (acc_max a) = fold max (map ts_ns ts) (ts_ns t)"
    "ts_ns (acc_min a) = fold min (map ts_ns ts) (ts_ns t)"
    using acc_run_bounded [OF f(1) ts, of u 1] f(2,3) by (simp_all add: a_def)
  then show ?thesis by (simp add: fold_max_Max fold_min_Min)
qed

theorem acc_run_extremes_witness:
  "ts_ns (acc_min (acc_run exact_fpu 0 [ts_make 0 20, ts_make 0 10] acc_init)) = 10"
  using acc_run_extremes [of "ts_make 0 20" "[ts_make 0 10]" exact_fpu]
  by (simp add: ts_sample_def ts_ok_def ts_ns_def)

section \<open>Time stamps and DSCP\<close>

text \<open>
  A received packet gets the time stamp of the first control message that carries one
  for the mode in force; a transmit time stamp is accepted, in hardware and kernel mode,
  exactly when both a time stamp and the mark of the error queue are present, in any
  order, and is then the value of one of the messages.
\<close>

theorem tstamp_extract_spec:
  "tstamp_extract mode False ms =
     (case List.find (is_stamp mode) ms of Some m \<Rightarrow> (0, stamp_of mode m) | None \<Rightarrow> (-1, ts_zero)) \<and>
   (mode \<noteq> USERLAND \<longrightarrow>
     (fst (tstamp_extract mode True ms) = 0 \<longleftrightarrow>
        (\<exists>m \<in> set ms. is_stamp mode m) \<and> (\<exists>m \<in> set ms. is_tx_mark m)))"
  unfolding tstamp_extract_def using tstamp_rx_find tstamp_tx_iff by auto

definition demo_cmsgs :: "cmsg list" where
  "demo_cmsgs = [\<lparr>cmsg_level = 1, cmsg_type = 37, as_systime = ts_make 9 1, as_hwtimeraw = ts_make 9 2,
      as_timespec = ts_zero, as_ee_origin = 0, as_int = 0\<rparr>,
     \<lparr>cmsg_level = 41, cmsg_type = 25, as_systime = ts_zero, as_hwtimeraw = ts_zero,
      as_timespec = ts_zero, as_ee_origin = 4, as_int = 0\<rparr>]"

theorem tstamp_extract_spec_witness: "fst (tstamp_extract KERNEL True demo_cmsgs) = 0"
  using tstamp_extract_spec [of KERNEL demo_cmsgs]
  by (simp add: demo_cmsgs_def is_stamp_def is_tx_mark_def cmsg_consts)

text \<open>
  A DSCP value below 64 set on the sending socket is the value extracted from the TOS
  or the traffic class of the packet at the receiver.
\<close>

theorem dscp_roundtrip:
  assumes "d < 64" "dscp_set d True True = (0, Some tclass, Some tos)"
    and "is_v4 \<longrightarrow> cmsg_level m = IPPROTO_IP \<and> cmsg_type m = IP_TOS \<and> as_int m = uint tos"
    and "\<not> is_v4 \<longrightarrow> cmsg_level m = IPPROTO_IPV6 \<and> cmsg_type m = IPV6_TCLASS \<and> as_int m = tclass"
  shows "dscp_extract (m # ms) = (0, d)"
  using assms push_drop_dscp [OF assms(1)]
  by (cases is_v4) (auto simp: dscp_set_def Let_def cmsg_consts)

theorem dscp_roundtrip_witness:
  "dscp_extract [\<lparr>cmsg_level = 0, cmsg_type = 1, as_systime = ts_zero, as_hwtimeraw = ts_zero,
      as_timespec = ts_zero, as_ee_origin = 0, as_int = 184\<rparr>] = (0, 46)"
  by (rule dscp_roundtrip [of 46 184 184 True]) (simp_all add: dscp_set_def cmsg_consts)

text \<open>
  A successful send carries a real transmit time: the clock read before the call in
  userland mode, and otherwise a time stamp extracted from a message of the error queue
  that arrived while waiting. When the wait fails the send is reported as failed.
\<close>

theorem send_w_ts_success:
  assumes "send_w_ts mode e = (0, ts)"
  shows "tx_sendto_ok e \<and>
    (if mode = USERLAND then ts = tx_clock e
     else \<exists>p \<in> set (tx_polls e). poll_ready p \<and> rx_len (poll_msg p) = DATALEN \<and>
            tstamp_extract mode True (rx_cmsgs (poll_msg p)) = (0, ts))"
  using assms fetch_loop_result [of mode "tx_last e" "tx_now e" "tx_polls e" _ ts]
  by (fastforce simp: send_w_ts_def tstamp_fetch_tx_def Let_def split: if_splits prod.splits)

definition demo_tx :: tx_env where
  "demo_tx = \<lparr>tx_clock = ts_zero, tx_sendto_ok = True, tx_last = 0, tx_now = 5,
     tx_polls = [\<lparr>poll_ready = True, poll_msg = \<lparr>rx_len = 48, rx_addr = demo_addr, rx_data = data_zero,
        rx_cmsgs = demo_cmsgs\<rparr>, poll_now = 9\<rparr>]\<rparr>"

theorem send_w_ts_success_witness: "tx_sendto_ok demo_tx"
proof -
  have "send_w_ts KERNEL demo_tx = (0, ts_make 9 1)"
    by (simp add: send_w_ts_def demo_tx_def tstamp_fetch_tx_def recv_w_ts_def DATALEN_def
        tstamp_extract_def demo_cmsgs_def cmsg_consts)
  from send_w_ts_success [OF this] show ?thesis by simp
qed

section \<open>The FIFO\<close>

text \<open>
  Reporting a result in daemon mode never loses or repeats one while memory lasts: what
  was written together with what is queued grows by exactly the new result, and the queue
  counters stay right. If a failing FIFO keeps failing within the call, the order of the
  results is kept as well.
\<close>

theorem client_write_fifo_conserves:
  assumes "\<forall>n. sys_malloc e n" "fifo_wf c"
  shows "mset (fifo_all (client_write_fifo e r c)) = add_mset r (mset (fifo_all c)) \<and>
    fifo_wf (client_write_fifo e r c) \<and>
    ((\<forall>n \<ge> tick c. \<not> sys_write e n \<longrightarrow> \<not> sys_write e (Suc n)) \<longrightarrow>
       fifo_all (client_write_fifo e r c) = fifo_all c @ [r])"
  using client_write_fifo_mset [OF assms(1)] client_write_fifo_wf [OF assms(2)]
    client_write_fifo_order [OF assms(1)] by blast

definition demo_fifo :: res_fifo where
  "demo_fifo = \<lparr>f_id = 1, f_seq = 2, f_state = 1, f_created_sec = 0, f_created_nsec = 0,
     f_rtt_sec = 0, f_rtt_nsec = 9\<rparr>"

theorem client_write_fifo_conserves_witness:
  "mset (fifo_all (client_write_fifo demo_sys demo_fifo (client_init DAEMON KERNEL))) = {#demo_fifo#}"
  using client_write_fifo_conserves [of demo_sys "client_init DAEMON KERNEL" demo_fifo]
  by (simp add: demo_sys_def client_init_def fifo_wf_def)

text \<open>
  The new result is written even when the flush of the queue has just failed, so a
  FIFO that recovers between the two writes delivers it before older results.
\<close>

theorem client_write_fifo_overtakes:
  assumes "fifoq_head c = q # qs" "\<not> sys_write e (tick c)" "sys_write e (Suc (tick c))"
  shows "fifo_out (client_write_fifo e r c) = fifo_out c @ [r] \<and>
    fifoq_head (client_write_fifo e r c) = q # qs"
  using assms by (simp add: client_write_fifo_def)

theorem client_write_fifo_overtakes_witness:
  "fifo_out (client_write_fifo (demo_sys\<lparr>sys_write := (\<lambda>n. n \<noteq> 0)\<rparr>) demo_fifo
      ((client_init DAEMON KERNEL)\<lparr>fifoq_head := [demo_fifo\<lparr>f_seq := 1\<rparr>]\<rparr>)) = [demo_fifo]"
  using client_write_fifo_overtakes [of "(client_init DAEMON KERNEL)\<lparr>fifoq_head := [demo_fifo\<lparr>f_seq := 1\<rparr>]\<rparr>"
      "demo_fifo\<lparr>f_seq := 1\<rparr>" "[]" "demo_sys\<lparr>sys_write := (\<lambda>n. n \<noteq> 0)\<rparr>" demo_fifo]
  by (simp add: client_init_def)

section \<open>The life of a probe\<close>


definition demo_sess :: msess where
  "demo_sess = \<lparr>s_id = 0, res_head = [\<lparr>created = ts_make 3 0, r_state = 1, r_addr = 1, r_id = 0, r_seq = 1,
       r_ts = [ts_make 1 5, ts_zero, ts_zero, ts_zero]\<rparr>], s_dst = demo_addr, msec_interval = 1,
     s_timeout = 0, got_hello = 1, s_dscp = 0, child_pid = 0, last_seq = 1\<rparr>"




definition demo_cfg :: loop_cfg where
  "demo_cfg = \<lparr>s_udp = 3, s_tcp = 4, client_pipe = 5, send_pipe = 7, fd_client_low = 8,
     npackets = 10, thold = 0, cfg_lm = ENABLED\<rparr>"

definition demo_in :: loop_in where
  "demo_in = \<lparr>fs_tmp = {4}, in_udp = None, in_tx = demo_tx, stamp_sent = False, acc_fd = 9,
     acc_addr = demo_addr, acc_addr_ok = True, hello_sent = False, peer_malloc = True,
     in_pipe = None, triggers = 0, in_doc = No_Document\<rparr>"






text \<open>
  C14. The verdict on a finished probe: success exactly when its four time stamps are
  present and in order, the DSCP value came back unchanged and the round trip is below 21
  seconds; the reported round trip is then (T4 - T1) - (T3 - T2).
\<close>

theorem finished_probe_verdict:
  assumes "ts_all_ok r" "res_rtt_ns r < 2 ^ 32 * 1000000000"
  shows "(f_state (fifo_of_res r) = STATE_SUCCESS \<longleftrightarrow>
      stamps_sound r \<and> \<not> dscp_failed r \<and> res_rtt_ns r < 21 * 1000000000) \<and>
    (f_state (fifo_of_res r) = STATE_DS_ERR \<longleftrightarrow> stamps_sound r \<and> dscp_failed r) \<and>
    (f_state (fifo_of_res r) = STATE_SUCCESS \<longrightarrow>
      uint (f_rtt_sec (fifo_of_res r)) * 1000000000 + uint (f_rtt_nsec (fifo_of_res r)) = res_rtt_ns r)"
proof -
  let ?t = "fst (res_nic r)"
  have sec: "stamps_sound r \<Longrightarrow> 0 \<le> tv_sec ?t \<and> tv_sec ?t < 2 ^ 32 \<and> (tv_sec ?t > 20 \<longleftrightarrow> \<not> res_rtt_ns r < 21 * 1000000000)"
  proof -
    assume "stamps_sound r"
    note s = res_nic_sec [OF assms(1) this]
    show ?thesis
      using assms(2) diff_ts_sec_nonneg [of "fst (res_total r)" "fst (res_overhead r)"]
        ns_div_le [of "res_rtt_ns r" 20] ns_div_le [of "res_rtt_ns r" "2 ^ 32 - 1"]
      by (simp add: s [symmetric]) (simp add: res_nic_def not_le [symmetric])
  qed
  have nsec: "0 \<le> tv_nsec ?t \<and> tv_nsec ?t < 2 ^ 32"
    using res_nic_facts(1) [OF assms(1)] by (simp add: ts_ok_def)
  have gt: "stamps_sound r \<Longrightarrow> (to_u32 (tv_sec ?t) > 20) = (tv_sec ?t > 20)"
    using sec by (simp add: word_less_def)
  have rtt: "f_rtt_sec (fifo_of_res r) = to_u32 (tv_sec ?t)" "f_rtt_nsec (fifo_of_res r) = to_u32 (tv_nsec ?t)"
    by (simp_all add: fifo_of_res_def Let_def)
  have val: "stamps_sound r \<Longrightarrow> tv_sec ?t * 1000000000 + tv_nsec ?t = res_rtt_ns r"
    using res_nic_rtt [OF assms(1)] by (simp add: ts_ns_def)
  show ?thesis
    unfolding fifo_of_res_state [OF assms(1)] rtt using sec nsec gt val by auto
qed

theorem finished_probe_verdict_witness: "f_state (fifo_of_res demo_res) = STATE_SUCCESS"
proof -
  have "ts_all_ok demo_res" "res_rtt_ns demo_res < 2 ^ 32 * 1000000000"
    by (simp_all add: ts_all_ok_def demo_res_def ts_ok_def res_rtt_ns_def ts_ns_def)
  from finished_probe_verdict [OF this] show ?thesis
    by (simp add: stamps_sound_def dscp_failed_def res_rtt_ns_def demo_res_def ts_ns_def mask_defs)
qed

text \<open>
  The PONG (over UDP) and the time stamp (over TCP) of a probe may arrive in either
  order: in both the first leaves the probe queued, the second finishes it, and the
  finished probe is the same.
\<close>

theorem arrival_order_irrelevant:
  assumes "res_wf r" "\<not> got_pong r" "\<not> got_time r" "d_type p = TYPE_PONG" "d_type t = TYPE_TIME"
  shows "\<not> res_done (res_apply q p ts dscp r) \<and> \<not> res_done (res_apply q t None (-1) r) \<and>
    res_done (res_apply q t None (-1) (res_apply q p ts dscp r)) \<and>
    res_apply q t None (-1) (res_apply q p ts dscp r) = res_apply q p ts dscp (res_apply q t None (-1) r)"
proof -
  have ty: "TYPE_PONG \<noteq> TYPE_TIME" by (simp add: type_defs)
  have nd: "\<not> res_done (res_apply q p ts dscp r)" "\<not> res_done (res_apply q t None (-1) r)"
    using assms ty by (simp_all add: res_apply_done_iff)
  have "got_pong (res_apply q p ts dscp r)"
    using assms(1,4) by (auto simp: got_pong_def res_apply_state res_wf_def mask_defs)
  then have "res_done (res_apply q t None (-1) (res_apply q p ts dscp r))"
    using res_apply_done_iff [OF res_apply_wf [OF assms(1) nd(1)]] assms(5) by simp
  then show ?thesis
    using nd res_apply_commute [OF assms(4,5)] assms(1) by (simp add: res_wf_def)
qed

theorem arrival_order_irrelevant_witness:
  "res_done (res_apply 0 (data_zero\<lparr>d_type := TYPE_TIME\<rparr>) None (-1)
     (res_apply 0 (data_zero\<lparr>d_type := TYPE_PONG\<rparr>) (Some (ts_make 7 1)) 0 (hd (res_head demo_sess))))"
proof -
  have "res_wf (hd (res_head demo_sess))" "\<not> got_pong (hd (res_head demo_sess))"
    "\<not> got_time (hd (res_head demo_sess))"
    by (simp_all add: demo_sess_def res_wf_def got_pong_def got_time_def mask_defs)
  moreover have "d_type (data_zero\<lparr>d_type := TYPE_PONG\<rparr>) = TYPE_PONG"
    "d_type (data_zero\<lparr>d_type := TYPE_TIME\<rparr>) = TYPE_TIME" by simp_all
  ultimately show ?thesis using arrival_order_irrelevant by blast
qed




text \<open>
  Each probe removed by the timeout pass is classified by what had arrived: a time
  stamp but no PONG is a lost PONG, a PONG but no time stamp a time-stamp error, nothing a
  timeout.
\<close>

theorem timeout_classification:
  assumes "res_wf r"
  shows "(timeout_state r = STATE_PONGLOSS \<longleftrightarrow> got_time r \<and> \<not> got_pong r) \<and>
    (timeout_state r = STATE_TS_ERR \<longleftrightarrow> got_pong r \<and> \<not> got_time r) \<and>
    (timeout_state r = STATE_TIMEOUT \<longleftrightarrow> \<not> got_pong r \<and> \<not> got_time r)"
  unfolding timeout_state_wf [OF assms] using res_wf_not_both [OF assms] by (auto simp: state_defs)

theorem timeout_classification_witness: "timeout_state (hd (res_head demo_sess)) = STATE_TIMEOUT"
  using timeout_classification [of "hd (res_head demo_sess)"]
  by (simp add: demo_sess_def res_wf_def got_pong_def got_time_def mask_defs)

text \<open>
  C8. In client mode, after any sequence of operations, every finished probe has exactly
  one of the five verdicts, and finished and queued probes together are at most as many as
  the PINGs sent.
\<close>

theorem client_accounting:
  fixes e :: sys and ops :: "client_op list" and ts :: tsmode
  defines "c \<equiv> fold (client_step e) ops (client_init CLIENT ts)"
  shows "res_ok c + res_dserror c + res_tserror c + res_timeout c + res_pongloss c = count_client_done c \<and>
    (\<Sum>s \<leftarrow> msess_head c. int (length (res_head s))) + count_client_done c \<le> count_client_sent c"
  using acct_sys.invar_run [of ops e ts]
  by (simp add: c_def client_acct_def verdicts_def outstanding_def)

text \<open>
  Where session identifiers are distinct, a probe is inserted into the very session
  that an update with the same identifier will search, at the head of its list.
\<close>

theorem insert_reaches_searched_session:
  assumes "distinct (map s_id (msess_head c))" "List.find (\<lambda>s. s_id s = d_id d) (msess_head c) = Some s"
    and "sys_malloc e (tick c)"
  shows "\<exists>r s'. List.find (\<lambda>s. s_id s = d_id d) (msess_head (client_res_insert e a d ts c)) = Some s' \<and>
    res_head s' = r # res_head s \<and> r_seq r = d_seq d \<and> r_addr r = sin6_addr a \<and> r_ts r ! 0 = ts"
proof -
  from upd_first_split [OF assms(2)] obtain ys zs where
    split: "msess_head c = ys @ s # zs" "s_id s = d_id d" "\<forall>y \<in> set ys. s_id y \<noteq> d_id d" by blast
  have zs: "\<forall>z \<in> set zs. s_id z \<noteq> d_id d"
    using assms(1) split(1,2) by auto (metis image_eqI)
  have upd: "upd_first p f (xs @ [x]) = xs @ f x" if "p x" "\<forall>y \<in> set xs. \<not> p y"
    for p and f :: "msess \<Rightarrow> msess list" and xs x using that by (induction xs) auto
  have upd': "upd_first p f (xs @ x # us) = xs @ f x @ us" if "p x" "\<forall>y \<in> set xs. \<not> p y"
    for p and f :: "msess \<Rightarrow> msess list" and xs x us using that by (induction xs) auto
  have ins: "upd_last (\<lambda>s. s_id s = d_id d) (\<lambda>s. [s\<lparr>res_head := r # res_head s\<rparr>]) (msess_head c) =
      ys @ [s\<lparr>res_head := r # res_head s\<rparr>] @ zs" for r
    using split zs by (simp add: upd_last_def upd')
  have fl: "find_last (\<lambda>s. s_id s = d_id d) (msess_head c) = Some s"
    by (rule find_last_unique [OF assms(1,2)])
  have fnd: "List.find p (ys @ x # zs) = Some x" if "p x" "\<forall>y \<in> set ys. \<not> p y" for p and x :: msess
    using that by (induction ys) auto
  show ?thesis
    using fl assms(3) split(2,3)
    by (simp add: client_res_insert_def Let_def ins fnd)
qed

theorem insert_reaches_searched_session_witness:
  "\<exists>s'. List.find (\<lambda>s. s_id s = 0) (msess_head (client_res_insert demo_sys demo_addr data_zero ts_zero
      ((client_init CLIENT KERNEL)\<lparr>msess_head := [demo_sess]\<rparr>))) = Some s'"
  using insert_reaches_searched_session [of "(client_init CLIENT KERNEL)\<lparr>msess_head := [demo_sess]\<rparr>"
      data_zero demo_sess demo_sys demo_addr ts_zero]
  by (auto simp: demo_sess_def data_zero_def demo_sys_def)

text \<open>
  With two sessions of the same identifier, the probe goes to the last and the update
  searches the first: the PONG of a probe that was just sent finds no probe.
\<close>

theorem duplicate_ids_lose_pong:
  fixes c :: client and e :: sys and a :: addr_t and d :: data_t and t1 :: timespec
  assumes "msess_head c = [s1, s2]" "s_id s1 = i" "s_id s2 = i" "res_head s1 = []"
    and "sys_malloc e (tick c)" "d_id d = i" "d_type d = TYPE_PONG"
  defines "c' \<equiv> client_res_insert e a (d\<lparr>d_type := TYPE_PING\<rparr>) t1 c"
  shows "length (res_head (msess_head c' ! 1)) = length (res_head s2) + 1 \<and>
    map res_head (msess_head (client_res_update e a d (Some t4) dscp np th c')) = map res_head (msess_head c') \<and>
    res_ok (client_res_update e a d (Some t4) dscp np th c') = res_ok c'"
proof -
  have m: "msess_head c' = [s1, s2\<lparr>res_head := \<lparr>created = sys_clock e (Suc (tick c)), r_state = MASK_PING,
      r_addr = sin6_addr a, r_id = i, r_seq = d_seq d, r_ts = [t1, ts_zero, ts_zero, ts_zero]\<rparr> # res_head s2\<rparr>]"
    using assms(1-6) by (simp add: c'_def client_res_insert_def find_last_def upd_last_def Let_def)
  have f: "List.find (\<lambda>s. s_id s = d_id d) (msess_head c') = Some s1" using assms(2,6) by (simp add: m)
  have dup: "res_ok (report_dup e a d x) = res_ok x" for x
    by (simp add: report_dup_def Let_def)
  show ?thesis using assms(4) by (simp add: client_res_update_def f dup) (simp add: m)
qed

theorem duplicate_ids_lose_pong_witness:
  "map res_head (msess_head (client_res_update demo_sys demo_addr (data_zero\<lparr>d_type := TYPE_PONG\<rparr>) (Some ts_zero) 0 5 0
     (client_res_insert demo_sys demo_addr (data_zero\<lparr>d_type := TYPE_PONG, d_type := TYPE_PING\<rparr>) ts_zero
       ((client_init CLIENT KERNEL)\<lparr>msess_head := [msess_zero, msess_zero]\<rparr>)))) =
   map res_head (msess_head
     (client_res_insert demo_sys demo_addr (data_zero\<lparr>d_type := TYPE_PONG, d_type := TYPE_PING\<rparr>) ts_zero
       ((client_init CLIENT KERNEL)\<lparr>msess_head := [msess_zero, msess_zero]\<rparr>)))"
  using duplicate_ids_lose_pong [of "(client_init CLIENT KERNEL)\<lparr>msess_head := [msess_zero, msess_zero]\<rparr>"
      msess_zero msess_zero 0 demo_sys "data_zero\<lparr>d_type := TYPE_PONG\<rparr>" demo_addr ts_zero ts_zero 0 5 0]
  by (simp add: msess_zero_def data_zero_def demo_sys_def)

section \<open>Sessions and child processes\<close>

text \<open>
  A reload that cannot read its configuration, or runs outside daemon mode, reports an
  error and changes nothing. Otherwise, while memory lasts, the sessions are exactly those
  of the complete probe nodes of the document (the last node first), all of them fresh,
  with no probe outstanding and no child process.
\<close>

theorem reconf_sessions:
  "(cfg_op c \<noteq> DAEMON \<or> doc = No_Document \<or> doc = No_Root \<longrightarrow>
     client_msess_reconf e resolve doc c = (-1, c)) \<and>
   (cfg_op c = DAEMON \<and> doc = Root ns \<and> (\<forall>n. sys_malloc e n) \<longrightarrow>
     fst (client_msess_reconf e resolve doc c) = 0 \<and>
     msess_head (snd (client_msess_reconf e resolve doc c)) = rev (List.map_filter (node_session resolve) ns) \<and>
     (\<forall>s \<in> set (msess_head (snd (client_msess_reconf e resolve doc c))). sess_fresh s))"
proof -
  have "list_all sess_fresh (msess_head (fold (reconf_probe e resolve) ns (reconf_kill c)))"
    by (rule fold_reconf_fresh) simp
  then show ?thesis
    by (auto simp: client_msess_reconf_def fold_reconf_sessions list_all_iff split: xml_doc.splits)
qed

definition demo_nodes :: "xml_probe list" where
  "demo_nodes = [\<lparr>xp_elem = True, xp_name = ''probe'', xp_id = Some ''7'',
     xp_children = [\<lparr>xc_elem = True, xc_name = ''address'', xc_content = ''h''\<rparr>]\<rparr>]"

theorem reconf_sessions_witness:
  "client_msess_reconf demo_sys (\<lambda>_. Some demo_addr) No_Root (client_init DAEMON KERNEL)
      = (-1, client_init DAEMON KERNEL) \<and>
   length (msess_head (snd (client_msess_reconf demo_sys (\<lambda>_. Some demo_addr) (Root demo_nodes)
      (client_init DAEMON KERNEL)))) = 1"
  using reconf_sessions [of "client_init DAEMON KERNEL" No_Root demo_sys "\<lambda>_. Some demo_addr" "[]"]
    reconf_sessions [of "client_init DAEMON KERNEL" "Root demo_nodes" demo_sys "\<lambda>_. Some demo_addr" demo_nodes]
  by (simp add: client_init_def demo_sys_def demo_nodes_def node_session_def reconf_session_def
      reconf_child_def List.map_filter_simps)

text \<open>
  A successful reload sends a kill signal to the recorded child of every session whose
  process identifier is not 0, and to nothing else. A session whose \<^verbatim>\<open>fork\<close> failed has
  the identifier -1 recorded, and the reload then signals -1, that is every process.
\<close>

theorem reconf_kills:
  assumes "cfg_op c = DAEMON"
  shows "kills (snd (client_msess_reconf e resolve (Root ns) c)) =
      kills c @ filter (\<lambda>p. p \<noteq> 0) (map child_pid (msess_head c)) \<and>
    (\<forall>s \<in> set (msess_head c). child_pid s = -1 \<longrightarrow>
      -1 \<in> set (kills (snd (client_msess_reconf e resolve (Root ns) c))))"
  using assms by (force simp: client_msess_reconf_def)

theorem reconf_kills_witness:
  "kills (snd (client_msess_reconf demo_sys (\<lambda>_. None) (Root [])
     (client_msess_forkall (demo_sys\<lparr>sys_fork := (\<lambda>_. -1)\<rparr>)
        ((client_init DAEMON KERNEL)\<lparr>msess_head := [demo_sess]\<rparr>)))) = [-1]"
proof -
  let ?c = "client_msess_forkall (demo_sys\<lparr>sys_fork := (\<lambda>_. -1)\<rparr>)
     ((client_init DAEMON KERNEL)\<lparr>msess_head := [demo_sess]\<rparr>)"
  have c: "?c = (client_init DAEMON KERNEL)\<lparr>msess_head := [demo_sess\<lparr>child_pid := -1\<rparr>], tick := 1\<rparr>"
    by (simp add: client_msess_forkall_def forkall_one_def client_msess_isaddrtaken_def demo_sess_def
        client_init_def)
  have "cfg_op ?c = DAEMON" unfolding c by (simp add: client_init_def)
  from reconf_kills [OF this] show ?thesis by (simp add: c) (simp add: client_init_def)
qed

text \<open>
  Starting the children of a fresh set of sessions with distinct identifiers gives a
  child to the first session of each destination address and to no other, so no two
  children connect to the same server.
\<close>

theorem forkall_one_child_per_address:
  assumes "distinct (map s_id (msess_head c))" "\<forall>s \<in> set (msess_head c). child_pid s = 0"
    and "\<forall>n. sys_fork e n \<noteq> 0"
  shows "length (msess_head (client_msess_forkall e c)) = length (msess_head c) \<and>
    (\<forall>i < length (msess_head c).
       child_pid (msess_head (client_msess_forkall e c) ! i) \<noteq> 0 \<longleftrightarrow>
         (\<forall>j < i. sin6_addr (s_dst (msess_head c ! j)) \<noteq> sin6_addr (s_dst (msess_head c ! i))))"
  using forkall_upto [OF assms(1,3,2) refl, of "length (msess_head c)"]
  by (auto simp: client_msess_forkall_def forked_upto_def first_of_addr_def)

theorem forkall_one_child_per_address_witness:
  "child_pid (msess_head (client_msess_forkall demo_sys
     ((client_init CLIENT KERNEL)\<lparr>msess_head := [demo_sess, demo_sess\<lparr>s_id := 5\<rparr>]\<rparr>)) ! 1) = 0"
proof -
  let ?c = "(client_init CLIENT KERNEL)\<lparr>msess_head := [demo_sess, demo_sess\<lparr>s_id := 5\<rparr>]\<rparr>"
  have "distinct (map s_id (msess_head ?c))" "\<forall>s \<in> set (msess_head ?c). child_pid s = 0"
    "\<forall>n. sys_fork demo_sys n \<noteq> 0"
    by (simp_all add: demo_sess_def demo_sys_def)
  from conjunct2 [OF forkall_one_child_per_address [OF this], rule_format, of 1] show ?thesis by auto
qed

text \<open>
  Whatever the clock does, the transmit timer sleeps between 0.7 and 1.3 milliseconds
  in every round.
\<close>

theorem timer_sleep_bounded:
  "700 \<le> timer_sleep (fold timer_round nows (timer_start t0)) \<and>
   timer_sleep (fold timer_round nows (timer_start t0)) \<le> 1300"
  by (rule timer_sleep_bounds [OF timer_sys.invar_run]) simp

text \<open>
  The first measurement of the timer is taken after one round but compared with the
  time of a hundred: unless that round took more than 70 milliseconds, the correction goes
  to its lower limit and the next hundred rounds sleep 1.3 instead of 1 millisecond.
\<close>

theorem timer_first_correction:
  assumes "ts_ok t0" "ts_ok now" "\<bar>ts_ns now - ts_ns t0\<bar> \<le> 70000000"
  shows "timer_sleep (timer_round now (timer_start t0)) = 1300"
proof -
  define p where "p = \<bar>ts_ns now - ts_ns t0\<bar>"
  have p: "0 \<le> p" "p \<le> 70000000" using assms(3) by (simp_all add: p_def)
  have start: "niter (timer_start t0) = 100 * 0" "t_last (timer_start t0) = t0" "time_dev (timer_start t0) = 0"
    by (simp_all add: timer_start_def)
  have "300 \<le> (100000000 - p) mod 1000000000 div 100000"
  proof -
    have "(100000000 - p) mod 1000000000 = 100000000 - p" using p by simp
    moreover have "30000000 div 100000 \<le> (100000000 - p) div 100000" using p by (intro zdiv_mono1) simp_all
    ultimately show ?thesis by simp
  qed
  moreover have "time_dev (timer_round now (timer_start t0)) =
      max (-300) (min 300 (0 + - ((100000000 - p) mod 1000000000 div 100000)))"
  proof -
    have lt: "p < 100000000" using p by simp
    have "p = \<bar>ts_ns now - ts_ns (t_last (timer_start t0))\<bar>" by (simp only: p_def start(2))
    from timer_round_measure [OF assms(2) _ start(1) _ this] assms(1) show ?thesis
      by (simp only: start(2,3) lt if_True order_refl)
  qed
  ultimately have "time_dev (timer_round now (timer_start t0)) = -300" by linarith
  then show ?thesis by (simp add: timer_sleep_def SEND_INTERVAL_def)
qed

theorem timer_first_correction_witness:
  "timer_sleep (timer_round (ts_make 5 1000000) (timer_start (ts_make 5 0))) = 1300"
  by (rule timer_first_correction) (simp_all add: ts_ok_def ts_ns_def)

text \<open>
  The TCP client gives up: after fifteen passes it has exited, whatever happened in
  them, and it exits at the fourth failure to connect or the twelfth lost connection.
\<close>

theorem client_fork_gives_up:
  assumes "15 \<le> length as"
  shows "exited (client_fork_child server as child_start) \<and>
    (fail_setup (client_fork_child server as child_start) = 4 \<or>
     fail_exec (client_fork_child server as child_start) = 12)"
proof -
  have start: "child_wf child_start" "\<not> exited child_start" "fail_setup child_start = 0" "fail_exec child_start = 0"
    by (simp_all add: child_wf_def child_start_def)
  have wf: "child_wf (client_fork_child server as child_start)"
    by (rule client_fork_child_wf [OF start(1,2)])
  moreover have "exited (client_fork_child server as child_start)"
  proof (rule ccontr)
    assume ne: "\<not> exited (client_fork_child server as child_start)"
    from client_fork_child_counts [OF start(1,2) ne] wf ne assms show False
      by (simp add: child_wf_def start(3,4))
  qed
  ultimately show ?thesis by (auto simp: child_wf_def)
qed

theorem client_fork_gives_up_witness:
  "exited (client_fork_child demo_addr (replicate 15 Connect_Fail) child_start)"
  using client_fork_gives_up [of "replicate 15 Connect_Fail" demo_addr] by simp

section \<open>The report\<close>

text \<open>
  The report of a run with at least one response shows the recorded times: maxima and
  the minima of the first and third statistics in full, the loss in percent of all
  verdicts. The minimum of the total round trip is shown in full only where the minimum of
  the first statistic has a whole second too; otherwise its seconds are dropped.
\<close>

theorem summary_values:
  fixes c :: client and csv :: bool
  assumes "acc_bounded (res_rtt c)" "acc_bounded (total_rtt c)" "acc_bounded (kernel_OH c)"
    and "0 < verdicts c"
  defines "y \<equiv> client_res_summary exact_fpu csv c"
  shows "shown_ns (l_max (y_rtt y)) = ts_ns (acc_max (res_rtt c)) \<and>
    shown_ns (l_min (y_rtt y)) = ts_ns (acc_min (res_rtt c)) \<and>
    shown_ns (l_max (y_total y)) = ts_ns (acc_max (total_rtt c)) \<and>
    shown_ns (l_min (y_kernel y)) = ts_ns (acc_min (kernel_OH c)) \<and>
    shown_ns (l_min (y_total y)) =
      (if tv_sec (acc_min (res_rtt c)) > 0 then ts_ns (acc_min (total_rtt c))
       else ts_ns (acc_min (total_rtt c)) - tv_sec (acc_min (total_rtt c)) * 1000000000) \<and>
    y_loss y = Some ((res_timeout c + res_pongloss c) / verdicts c * 100)"
proof -
  have nn: "0 \<le> tv_sec (acc_max (res_rtt c))" "0 \<le> tv_sec (acc_min (res_rtt c))"
    "0 \<le> tv_sec (acc_max (total_rtt c))" "0 \<le> tv_sec (acc_min (kernel_OH c))"
    using assms(1-3) by (simp_all add: acc_bounded_def ts_sample_def)
  have loss: "y_loss y = Some ((res_timeout c + res_pongloss c) / verdicts c * 100)"
    using percent_exact [of "verdicts c" "res_timeout c + res_pongloss c"] assms(4)
    by (simp add: y_def client_res_summary_def Let_def verdicts_def)
  show ?thesis
    using nn loss by (auto simp: y_def client_res_summary_def Let_def shown_ts_ns) (simp_all add: shown_ts_def ts_ns_def)
qed

definition demo_client :: client where
  "demo_client = report_ok demo_sys 0 demo_res (client_init CLIENT KERNEL)"

theorem summary_values_witness:
  "shown_ns (l_max (y_rtt (client_res_summary exact_fpu False demo_client))) = ts_ns (acc_max (res_rtt demo_client))"
proof -
  have "ts_all_ok demo_res" by (simp add: ts_all_ok_def demo_res_def ts_ok_def)
  note f = res_diff_facts(1,4,7) [OF this]
  have samples: "ts_sample (fst (res_nic demo_res))" "ts_sample (fst (res_total demo_res))"
    "ts_sample (fst (res_overhead demo_res))"
    using f diff_ts_sec_nonneg by (simp_all add: ts_sample_def res_total_def res_overhead_def res_nic_def)
  have start: "res_rtt (client_init CLIENT KERNEL) = acc_init" "total_rtt (client_init CLIENT KERNEL) = acc_init"
    "kernel_OH (client_init CLIENT KERNEL) = acc_init" by (simp_all add: client_init_def)
  have "acc_bounded (res_rtt demo_client)" "acc_bounded (total_rtt demo_client)" "acc_bounded (kernel_OH demo_client)"
    by (simp_all add: demo_client_def report_ok_stats start acc_first(1) samples)
  moreover have "0 < verdicts demo_client"
    by (simp add: demo_client_def report_ok_verdicts) (simp add: verdicts_def client_init_def)
  ultimately show ?thesis using summary_values by blast
qed

section \<open>The main loop\<close>

text \<open>
  However clients connect, disconnect and fail, the descriptors of the two listening
  sockets and of the two pipes stay open and watched, and every watched descriptor is
  below the bound given to \<^verbatim>\<open>select\<close>, provided the kernel hands out unused descriptors and
  the last pipe end has the largest of the initial ones.
\<close>

theorem loop_keeps_static_descriptors:
  fixes k :: loop_cfg and reload :: bool and tx0 :: data_t and c :: client
    and e :: sys and resolve :: "string \<Rightarrow> addr_t option"
  assumes "low_above k" "\<forall>i \<in> set is. fresh_accept k i"
  defines "s \<equiv> fold (loop_step k e resolve) is (loop_init k (fd_client_low k) reload tx0 c)"
  shows "{s_udp k, s_tcp k, client_pipe k, send_pipe k} \<subseteq> fs s \<and>
    set (closed s) \<inter> {s_udp k, s_tcp k, client_pipe k, send_pipe k} = {} \<and> (\<forall>x \<in> fs s. x \<le> fd_max s)"
  using loop_sys.invar_run [OF assms(2), of e resolve reload tx0 c] assms(1)
  by (simp add: s_def loop_safe_def fds_wf_def statics_def)

theorem loop_keeps_static_descriptors_witness:
  "{3, 4, 5, 7} \<subseteq> fs (fold (loop_step demo_cfg demo_sys (\<lambda>_. None)) [demo_in, demo_in]
     (loop_init demo_cfg 8 False data_zero (client_init SERVER KERNEL)))"
  using loop_keeps_static_descriptors [of demo_cfg "[demo_in, demo_in]" demo_sys "\<lambda>_. None" False data_zero
      "client_init SERVER KERNEL"]
  by (simp add: demo_cfg_def demo_in_def low_above_def fresh_accept_def statics_def)

text \<open>
  While greetings are sent and only peers are closed, the client counter equals the
  number of peers with distinct descriptors, so in lock mode a server with one client
  refuses the next one and never has two.
\<close>

theorem lock_mode_admits_one:
  assumes "counts_wf s" "length (peers s) \<le> 1" "cfg_lm k = ENABLED"
    and "hello_sent i" "peer_malloc i" "acc_fd i \<notin> p_fd ` set (peers s)"
  shows "counts_wf (fst (loop_accept k i s ok)) \<and> length (peers (fst (loop_accept k i s ok))) \<le> 1 \<and>
    (\<forall>fd \<in> p_fd ` set (peers s). counts_wf (server_kill_peer fd s) \<and> peers (server_kill_peer fd s) = [])"
proof -
  have acc: "length (peers (fst (loop_accept k i s ok))) \<le> 1"
  proof (cases "peers s")
    case Nil
    then show ?thesis using assms(4) by (simp add: loop_accept_def Let_def)
  next
    case (Cons p ps)
    then have "nclients s > 0" using assms(1,2) by (simp add: counts_wf_def)
    then show ?thesis using Cons assms(2,3) by (simp add: loop_accept_def)
  qed
  have "peers (server_kill_peer fd s) = []" if "fd \<in> p_fd ` set (peers s)" for fd
    using that assms(2) by (cases "peers s") (auto simp: server_kill_peer_def)
  then show ?thesis
    using acc loop_accept_counts [OF assms(1,4,6,5)] server_kill_peer_counts [OF assms(1)] by blast
qed

theorem lock_mode_admits_one_witness:
  "length (peers (fst (loop_accept demo_cfg (demo_in\<lparr>hello_sent := True\<rparr>)
     (loop_init demo_cfg 8 False data_zero (client_init SERVER KERNEL)) 0))) \<le> 1"
proof -
  let ?s = "loop_init demo_cfg 8 False data_zero (client_init SERVER KERNEL)"
  have "counts_wf ?s" "length (peers ?s) \<le> 1" "cfg_lm demo_cfg = ENABLED" "hello_sent (demo_in\<lparr>hello_sent := True\<rparr>)"
    "peer_malloc (demo_in\<lparr>hello_sent := True\<rparr>)" "acc_fd (demo_in\<lparr>hello_sent := True\<rparr>) \<notin> p_fd ` set (peers ?s)"
    by (simp_all add: counts_wf_def loop_init_def demo_cfg_def demo_in_def)
  from lock_mode_admits_one [OF this] show ?thesis by simp
qed

text \<open>
  When the greeting of a new client cannot be sent, the peer is closed but entered into
  the table all the same. The next PING from its address closes it a second time, the
  unsigned client counter goes below zero, and a server in lock mode refuses every client
  from then on.
\<close>

theorem failed_greeting_locks_out:
  fixes k :: loop_cfg and i :: loop_in and s :: server and ok :: int
  assumes "peers s = []" "nclients s = 0" "cfg_lm k = ENABLED" "s_tcp k \<in> fs_tmp i" "0 \<le> acc_fd i"
    and "acc_addr_ok i" "\<not> hello_sent i" "peer_malloc i"
  defines "s1 \<equiv> fst (loop_accept k i s ok)"
  defines "s2 \<equiv> server_kill_peer (server_find_peer_fd (acc_addr i) s1) s1"
  shows "acc_fd i \<in> set (closed s1) \<and> server_find_peer_fd (acc_addr i) s1 = acc_fd i \<and>
    nclients s2 = -1 \<and> (s_tcp k \<in> fs_tmp j \<longrightarrow> loop_accept k j s2 ok' = (s2, 0))"
proof -
  have s1: "acc_fd i \<in> set (closed s1)" "server_find_peer_fd (acc_addr i) s1 = acc_fd i" "nclients s1 = 0"
    using assms(1-8)
    by (simp_all add: s1_def loop_accept_def Let_def server_kill_peer_def server_find_peer_fd_def)
  then have s2: "nclients s2 = -1" by (simp add: s2_def server_kill_peer_def)
  then have "s_tcp k \<in> fs_tmp j \<longrightarrow> loop_accept k j s2 ok' = (s2, 0)"
    using loop_accept_refuses [OF _ assms(3), of j s2 ok'] by (simp add: word_gt_0)
  with s1 s2 show ?thesis by blast
qed

theorem failed_greeting_locks_out_witness:
  "9 \<in> set (closed (fst (loop_accept demo_cfg demo_in
     (loop_init demo_cfg 8 False data_zero (client_init SERVER KERNEL)) 0)))"
  using failed_greeting_locks_out [of "loop_init demo_cfg 8 False data_zero (client_init SERVER KERNEL)"
      demo_cfg demo_in 0 demo_in 0]
  by (simp add: demo_cfg_def demo_in_def loop_init_def)

end
