(* ===== verification/Cube_Heapsort.thy ===== *)
theory Cube_Heapsort
  imports Baseliner_Prelude
begin

text \<open>
  The two heap sorts of \<^verbatim>\<open>NPB-CPUTests/DC/jobcntl.c\<close>: \<^verbatim>\<open>vszsort\<close> orders the views by
  size, \<^verbatim>\<open>onessort\<close> by the number of attributes. The source has the code twice, for two
  record types; here the loops are written once over a key, and the two sorts are instances.
  Positions are counted from one, as in the source, and element \<open>j\<close> is \<open>x ! (j - 1)\<close>.
\<close>

section \<open>The sort\<close>

record TUPLE_VIEWSIZE =
  viewsize :: u64
  vs_tuple :: u64

record TUPLE_ONES =
  nOnes :: u32
  to_tuple :: u64

definition swap_at :: "nat \<Rightarrow> nat \<Rightarrow> 'a list \<Rightarrow> 'a list" where
  "swap_at a b x = x[a := x ! b, b := x ! a]"

text \<open>The larger child of \<open>j\<close>.\<close>

definition big_child :: "('a \<Rightarrow> 'k::linorder) \<Rightarrow> 'a list \<Rightarrow> nat \<Rightarrow> nat \<Rightarrow> nat" where
  "big_child key x j l =
    (let tj = j * 2 in if tj < l \<and> key (x ! (tj - 1)) < key (x ! tj) then tj + 1 else tj)"

function restore_by :: "('a \<Rightarrow> 'k::linorder) \<Rightarrow> 'a list \<Rightarrow> nat \<Rightarrow> nat \<Rightarrow> 'a list" where
  "restore_by key x j l =
    (if 1 \<le> j \<and> j \<le> l div 2 then
       (let m = big_child key x j l
        in if key (x ! (m - 1)) > key (x ! (j - 1))
           then restore_by key (swap_at (m - 1) (j - 1) x) m l
           else x)
     else x)"
  by pat_completeness auto
termination
  by (relation "measure (\<lambda>(key, x, j, l). l - j)") (auto simp: big_child_def Let_def split: if_splits)

declare restore_by.simps [simp del]

fun build_loop :: "('a \<Rightarrow> 'k::linorder) \<Rightarrow> nat \<Rightarrow> nat \<Rightarrow> 'a list \<Rightarrow> 'a list" where
  "build_loop key 0 n x = x"
| "build_loop key (Suc i) n x = build_loop key i n (restore_by key x (Suc i) n)"

fun sort_loop :: "('a \<Rightarrow> 'k::linorder) \<Rightarrow> nat \<Rightarrow> 'a list \<Rightarrow> 'a list" where
  "sort_loop key 0 x = x"
| "sort_loop key (Suc 0) x = x"
| "sort_loop key (Suc (Suc i)) x =
    sort_loop key (Suc i) (restore_by key (swap_at 0 (Suc i) x) 1 (Suc i))"

definition heapsort_by :: "('a \<Rightarrow> 'k::linorder) \<Rightarrow> 'a list \<Rightarrow> nat \<Rightarrow> 'a list" where
  "heapsort_by key x n = sort_loop key n (build_loop key (n div 2) n x)"

definition restore :: "TUPLE_VIEWSIZE list \<Rightarrow> nat \<Rightarrow> nat \<Rightarrow> TUPLE_VIEWSIZE list" where
  "restore x f l = restore_by viewsize x f l"

definition vszsort :: "TUPLE_VIEWSIZE list \<Rightarrow> nat \<Rightarrow> TUPLE_VIEWSIZE list" where
  "vszsort x n = heapsort_by viewsize x n"

definition restoreo :: "TUPLE_ONES list \<Rightarrow> nat \<Rightarrow> nat \<Rightarrow> TUPLE_ONES list" where
  "restoreo x f l = restore_by nOnes x f l"

definition onessort :: "TUPLE_ONES list \<Rightarrow> nat \<Rightarrow> TUPLE_ONES list" where
  "onessort x n = heapsort_by nOnes x n"

section \<open>Permutation and frame\<close>

lemma length_swap_at [simp]: "length (swap_at a b x) = length x"
  by (simp add: swap_at_def)

lemma mset_swap_at: "a < length x \<Longrightarrow> b < length x \<Longrightarrow> mset (swap_at a b x) = mset x"
  by (simp add: swap_at_def mset_swap)

lemma nth_swap_at:
  "a < length x \<Longrightarrow> b < length x \<Longrightarrow>
   swap_at a b x ! i = (if i = a then x ! b else if i = b then x ! a else x ! i)"
  by (auto simp: swap_at_def nth_list_update)

lemma big_child_bounds:
  "1 \<le> j \<Longrightarrow> j \<le> l div 2 \<Longrightarrow> j < big_child key x j l \<and> big_child key x j l \<le> l \<and> big_child key x j l div 2 = j"
  by (auto simp: big_child_def Let_def)

lemma restore_by_perm:
  "l \<le> length x \<Longrightarrow>
   mset (restore_by key x j l) = mset x \<and> length (restore_by key x j l) = length x \<and>
   (\<forall>i. l \<le> i \<longrightarrow> restore_by key x j l ! i = x ! i)"
proof (induction key x j l rule: restore_by.induct)
  case (1 key x j l)
  let ?m = "big_child key x j l"
  show ?case
  proof (cases "1 \<le> j \<and> j \<le> l div 2 \<and> key (x ! (j - 1)) < key (x ! (?m - 1))")
    case True
    note b = big_child_bounds [of j l key x]
    have in_range: "?m - 1 < length x" "j - 1 < length x" "?m - 1 < l" "j - 1 < l"
      using b True 1(2) by auto
    have "restore_by key x j l = restore_by key (swap_at (?m - 1) (j - 1) x) ?m l"
      using True by (subst restore_by.simps) (simp add: Let_def)
    then show ?thesis
      using 1(1) [of ?m] True 1(2) in_range
      by (simp add: mset_swap_at nth_swap_at)
  next
    case False
    then have "restore_by key x j l = x" by (subst restore_by.simps) (auto simp: Let_def)
    then show ?thesis by simp
  qed
qed

section \<open>The heap property\<close>

text \<open>
  \<open>heap_from key x f l\<close>: every element up to \<open>l\<close> whose parent is at \<open>f\<close> or later is at most
  its parent. \<open>heap_but\<close> leaves out the children of \<open>j\<close>, which are instead at most the
  parent of \<open>j\<close>.
\<close>

definition heap_from :: "('a \<Rightarrow> 'k::linorder) \<Rightarrow> 'a list \<Rightarrow> nat \<Rightarrow> nat \<Rightarrow> bool" where
  "heap_from key x f l \<longleftrightarrow>
    (\<forall>i. f \<le> i div 2 \<and> i \<le> l \<longrightarrow> key (x ! (i - 1)) \<le> key (x ! (i div 2 - 1)))"

definition heap_but :: "('a \<Rightarrow> 'k::linorder) \<Rightarrow> 'a list \<Rightarrow> nat \<Rightarrow> nat \<Rightarrow> nat \<Rightarrow> bool" where
  "heap_but key x f l j \<longleftrightarrow>
    (\<forall>i. f \<le> i div 2 \<and> i \<le> l \<and> i div 2 \<noteq> j \<longrightarrow> key (x ! (i - 1)) \<le> key (x ! (i div 2 - 1))) \<and>
    (\<forall>i. i div 2 = j \<and> i \<le> l \<and> f \<le> j div 2 \<longrightarrow> key (x ! (i - 1)) \<le> key (x ! (j div 2 - 1)))"

lemma big_child_max:
  assumes "1 \<le> j" "j \<le> l div 2" "i div 2 = j" "i \<le> l"
  shows "key (x ! (i - 1)) \<le> key (x ! (big_child key x j l - 1))"
proof -
  from assms(3) consider "i = 2 * j" | "i = 2 * j + 1" by linarith
  then show ?thesis
    using assms(4) by cases (auto simp: big_child_def Let_def mult.commute not_less)
qed

lemma heap_but_swap:
  assumes but: "heap_but key x f l j" and j: "1 \<le> f" "f \<le> j" "j \<le> l div 2" and l: "l \<le> length x"
    and m: "m = big_child key x j l" and gt: "key (x ! (m - 1)) > key (x ! (j - 1))"
  shows "heap_but key (swap_at (m - 1) (j - 1) x) f l m"
proof -
  let ?y = "swap_at (m - 1) (j - 1) x"
  have b: "j < m" "m \<le> l" "m div 2 = j" using big_child_bounds [of j l key x] j m by auto
  have y: "?y ! (m - 1) = x ! (j - 1)" "?y ! (j - 1) = x ! (m - 1)"
    "?y ! (i - 1) = x ! (i - 1)" if "i \<noteq> m" "i \<noteq> j" "1 \<le> i" for i
    using b j l that by (auto simp: nth_swap_at)
  have y': "?y ! (m - 1) = x ! (j - 1)" "?y ! (j - 1) = x ! (m - 1)"
    using b j l by (auto simp: nth_swap_at)
  have par: "key (x ! (i - 1)) \<le> key (x ! (i div 2 - 1))" if "f \<le> i div 2" "i \<le> l" "i div 2 \<noteq> j" for i
    using but that by (simp add: heap_but_def)
  have gran: "key (x ! (i - 1)) \<le> key (x ! (j div 2 - 1))" if "i div 2 = j" "i \<le> l" "f \<le> j div 2" for i
    using but that by (simp add: heap_but_def)
  show ?thesis
    unfolding heap_but_def
  proof (intro conjI allI impI)
    fix i assume i: "f \<le> i div 2 \<and> i \<le> l \<and> i div 2 \<noteq> m"
    then have "1 \<le> i" "1 \<le> i div 2" using j by auto
    consider "i = m" | "i div 2 = j" "i \<noteq> m" | "i = j" | "i div 2 \<noteq> j" "i \<noteq> j" "i \<noteq> m" by blast
    then show "key (?y ! (i - 1)) \<le> key (?y ! (i div 2 - 1))"
    proof cases
      case 1
      then show ?thesis using y' gt b by simp
    next
      case 2
      then have "i \<noteq> j" using \<open>1 \<le> i\<close> by auto
      have "key (x ! (i - 1)) \<le> key (x ! (m - 1))"
        using big_child_max [of j l i key x] 2 i j m by simp
      then show ?thesis using y(3) [OF 2(2) \<open>i \<noteq> j\<close> \<open>1 \<le> i\<close>] y' 2 by simp
    next
      case 3
      then have "i div 2 \<noteq> j" "i div 2 \<noteq> m" using \<open>1 \<le> i\<close> i by auto
      then have "?y ! (i div 2 - 1) = x ! (i div 2 - 1)" using y(3) \<open>1 \<le> i div 2\<close> by blast
      moreover have "key (x ! (m - 1)) \<le> key (x ! (j div 2 - 1))" using gran [of m] b i 3 by simp
      ultimately show ?thesis using y' 3 by simp
    next
      case 4
      have "?y ! (i - 1) = x ! (i - 1)" using y(3) 4 \<open>1 \<le> i\<close> by blast
      moreover have "?y ! (i div 2 - 1) = x ! (i div 2 - 1)"
        using y(3) [of "i div 2"] 4 i \<open>1 \<le> i div 2\<close> by blast
      ultimately show ?thesis using par [of i] i 4 by simp
    qed
  next
    fix i assume i: "i div 2 = m \<and> i \<le> l \<and> f \<le> m div 2"
    then have "i \<noteq> m" "i \<noteq> j" "1 \<le> i" "i div 2 \<noteq> j" using b j by auto
    then have "?y ! (i - 1) = x ! (i - 1)" using y(3) by blast
    moreover have "key (x ! (i - 1)) \<le> key (x ! (m - 1))" using par [of i] i b j \<open>i div 2 \<noteq> j\<close> by simp
    ultimately show "key (?y ! (i - 1)) \<le> key (?y ! (m div 2 - 1))" using y' b by simp
  qed
qed

lemma restore_by_heap:
  "l \<le> length x \<Longrightarrow> 1 \<le> f \<Longrightarrow> f \<le> j \<Longrightarrow> heap_but key x f l j \<Longrightarrow> heap_from key (restore_by key x j l) f l"
proof (induction key x j l rule: restore_by.induct)
  case (1 key x j l)
  let ?m = "big_child key x j l"
  consider "j \<le> l div 2" "key (x ! (j - 1)) < key (x ! (?m - 1))"
    | "j \<le> l div 2" "key (x ! (?m - 1)) \<le> key (x ! (j - 1))" | "\<not> j \<le> l div 2" by fastforce
  then show ?case
  proof cases
    case 1
    have "restore_by key x j l = restore_by key (swap_at (?m - 1) (j - 1) x) ?m l"
      using 1 "1.prems" by (subst restore_by.simps) (simp add: Let_def)
    moreover have "heap_but key (swap_at (?m - 1) (j - 1) x) f l ?m"
      by (rule heap_but_swap) (use 1 "1.prems" in auto)
    moreover have "f \<le> ?m" using big_child_bounds [of j l key x] 1 "1.prems" by simp
    ultimately show ?thesis using "1.IH" [of ?m] 1 "1.prems" by simp
  next
    case 2
    have "restore_by key x j l = x" using 2 by (subst restore_by.simps) (auto simp: Let_def)
    moreover have "heap_from key x f l"
      unfolding heap_from_def
    proof (intro allI impI)
      fix i assume i: "f \<le> i div 2 \<and> i \<le> l"
      show "key (x ! (i - 1)) \<le> key (x ! (i div 2 - 1))"
      proof (cases "i div 2 = j")
        case True
        then have "key (x ! (i - 1)) \<le> key (x ! (?m - 1))"
          using big_child_max [of j l i key x] 2 i "1.prems" by simp
        with 2 True show ?thesis by simp
      qed (use i "1.prems" in \<open>simp add: heap_but_def\<close>)
    qed
    ultimately show ?thesis by simp
  next
    case 3
    have "restore_by key x j l = x" using 3 by (subst restore_by.simps) simp
    moreover have "heap_from key x f l"
      using 3 "1.prems"(4) unfolding heap_from_def heap_but_def by (metis div_le_mono)
    ultimately show ?thesis by simp
  qed
qed

section \<open>The result is sorted\<close>

lemma build_loop_ok:
  "n \<le> length x \<Longrightarrow> heap_from key x (Suc i) n \<Longrightarrow>
   heap_from key (build_loop key i n x) 1 n \<and> mset (build_loop key i n x) = mset x \<and>
   (\<forall>k. n \<le> k \<longrightarrow> build_loop key i n x ! k = x ! k)"
proof (induction i arbitrary: x)
  case (Suc i)
  let ?y = "restore_by key x (Suc i) n"
  note perm = restore_by_perm [OF Suc.prems(1), of key "Suc i"]
  have "heap_but key x (Suc i) n (Suc i)"
    using Suc.prems(2) by (auto simp: heap_but_def heap_from_def)
  then have "heap_from key ?y (Suc i) n" by (intro restore_by_heap) (use Suc.prems in auto)
  with Suc.IH [of ?y] Suc.prems perm show ?case by simp
qed simp

lemma heap_root:
  assumes "heap_from key x 1 k" "i < k"
  shows "key (x ! i) \<le> key (x ! 0)"
  using assms(2)
proof (induction i rule: less_induct)
  case (less i)
  show ?case
  proof (cases "i = 0")
    case False
    let ?p = "Suc i div 2 - 1"
    have "key (x ! i) \<le> key (x ! ?p)"
      using assms(1) less.prems False unfolding heap_from_def
      by (metis Suc_le_eq diff_Suc_1 One_nat_def div_greater_zero_iff less_2_cases_iff
          linorder_not_less nat_less_le zero_less_Suc Suc_lessI not_less_eq numeral_2_eq_2)
    also have "\<dots> \<le> key (x ! 0)" using False less.prems by (intro less.IH) auto
    finally show ?thesis .
  qed simp
qed

lemma take_perm:
  assumes "mset x = mset y" "\<forall>i \<ge> k. x ! i = y ! i"
  shows "set (take k x) = set (take k y)"
proof -
  have len: "length x = length y" using assms(1) by (rule mset_eq_length)
  then have "drop k x = drop k y" using assms(2) by (intro nth_equalityI) auto
  moreover have "mset (take k x) + mset (drop k x) = mset (take k y) + mset (drop k y)"
    using assms(1) by (simp flip: mset_append)
  ultimately have "mset (take k x) = mset (take k y)" by simp
  then show ?thesis by (metis set_mset_mset)
qed

definition tail_sorted :: "('a \<Rightarrow> 'k::linorder) \<Rightarrow> 'a list \<Rightarrow> nat \<Rightarrow> nat \<Rightarrow> bool" where
  "tail_sorted key x k n \<longleftrightarrow>
    (\<forall>a b. k \<le> a \<and> a \<le> b \<and> b < n \<longrightarrow> key (x ! a) \<le> key (x ! b)) \<and>
    (\<forall>e \<in> set (take k x). \<forall>b. k \<le> b \<and> b < n \<longrightarrow> key e \<le> key (x ! b))"

lemma sort_step:
  assumes heap: "heap_from key x 1 (Suc k)" and tail: "tail_sorted key x (Suc k) n"
    and k: "1 \<le> k" "Suc k \<le> n" "n \<le> length x"
  defines "z \<equiv> restore_by key (swap_at 0 k x) 1 k"
  shows "heap_from key z 1 k" "tail_sorted key z k n" "mset z = mset x" "\<forall>i. n \<le> i \<longrightarrow> z ! i = x ! i"
proof -
  let ?y = "swap_at 0 k x"
  have lens: "0 < length x" "k < length x" using k by linarith+
  from nth_swap_at [OF this]
  have y: "?y ! i = (if i = 0 then x ! k else if i = k then x ! 0 else x ! i)" for i .
  have perm: "mset z = mset ?y" "\<forall>i. k \<le> i \<longrightarrow> z ! i = ?y ! i"
    using restore_by_perm [of k ?y key 1] k by (simp_all add: z_def)
  have "heap_but key ?y 1 k 1"
    using heap by (auto simp: heap_but_def heap_from_def y)
  then show "heap_from key z 1 k"
    unfolding z_def by (intro restore_by_heap) (use k in auto)
  show "mset z = mset x" using perm(1) mset_swap_at [OF lens] by simp
  show "\<forall>i. n \<le> i \<longrightarrow> z ! i = x ! i" using perm(2) k by (simp add: y)
  have top: "key (x ! i) \<le> key (x ! 0)" if "i \<le> k" for i using heap_root [OF heap, of i] that by simp
  have "set (take k z) = set (take k ?y)" by (rule take_perm) (use perm in auto)
  also have "\<dots> \<subseteq> set (take (Suc k) x)"
  proof
    fix e assume "e \<in> set (take k ?y)"
    then obtain i where i: "i < k" "e = ?y ! i" by (auto simp: in_set_conv_nth)
    then have "e = x ! k \<or> e = x ! i" by (auto simp: y)
    then obtain j where "j < Suc k" "e = x ! j" using i by (metis less_SucI lessI)
    with lens(2) show "e \<in> set (take (Suc k) x)" by (auto simp: in_set_conv_nth)
  qed
  finally have front: "set (take k z) \<subseteq> set (take (Suc k) x)" .
  have zb: "z ! b = (if b = k then x ! 0 else x ! b)" if "k \<le> b" for b
    using perm(2) that k by (simp add: y)
  have x0: "x ! 0 \<in> set (take (Suc k) x)" using k by (auto simp: in_set_conv_nth intro!: exI [of _ 0])
  have front_le: "key e \<le> key (x ! 0)" if "e \<in> set (take (Suc k) x)" for e
    using that top by (auto simp: in_set_conv_nth)
  show "tail_sorted key z k n"
    unfolding tail_sorted_def
  proof (intro conjI allI impI ballI)
    fix a b assume ab: "k \<le> a \<and> a \<le> b \<and> b < n"
    show "key (z ! a) \<le> key (z ! b)"
      using tail ab x0 by (cases "a = k"; cases "b = k") (auto simp: zb tail_sorted_def)
  next
    fix e b assume "e \<in> set (take k z)" "k \<le> b \<and> b < n"
    with front front_le tail show "key e \<le> key (z ! b)"
      by (cases "b = k") (auto simp: zb tail_sorted_def subset_iff)
  qed
qed

lemma sort_loop_ok:
  "heap_from key x 1 k \<Longrightarrow> tail_sorted key x k n \<Longrightarrow> k \<le> n \<Longrightarrow> n \<le> length x \<Longrightarrow>
   mset (sort_loop key k x) = mset x \<and> (\<forall>i. n \<le> i \<longrightarrow> sort_loop key k x ! i = x ! i) \<and>
   tail_sorted key (sort_loop key k x) 0 n"
proof (induction key k x rule: sort_loop.induct)
  case (2 key x)
  then have "x ! 0 \<in> set (take (Suc 0) x)" by (cases x) auto
  then have first: "key (x ! 0) \<le> key (x ! b)" if "1 \<le> b" "b < n" for b
    using 2(2) that by (auto simp: tail_sorted_def)
  have "key (x ! a) \<le> key (x ! b)" if "a \<le> b" "b < n" for a b
  proof (cases "a = 0")
    case True
    with first [of b] that show ?thesis by (cases "b = 0") auto
  next
    case False
    then show ?thesis using 2(2) that by (auto simp: tail_sorted_def)
  qed
  then show ?case by (simp add: tail_sorted_def)
next
  case (3 key i x)
  let ?z = "restore_by key (swap_at 0 (Suc i) x) 1 (Suc i)"
  note st = sort_step [OF 3(2,3) _ 3(4,5)]
  have "length ?z = length x" by (rule mset_eq_length [OF st(3)]) simp
  with 3(1) [of] st 3(4,5) show ?case by simp
qed simp

theorem heapsort_by_ok:
  assumes "n \<le> length x"
  shows "mset (heapsort_by key x n) = mset x"
    and "sorted (map key (take n (heapsort_by key x n)))"
    and "drop n (heapsort_by key x n) = drop n x"
proof -
  have "heap_from key x (Suc (n div 2)) n"
    unfolding heap_from_def
  proof (intro allI impI)
    fix i assume "Suc (n div 2) \<le> i div 2 \<and> i \<le> n"
    then show "key (x ! (i - 1)) \<le> key (x ! (i div 2 - 1))" using div_le_mono [of i n 2] by simp
  qed
  note b = build_loop_ok [OF assms this]
  let ?y = "build_loop key (n div 2) n x"
  have len: "length ?y = length x" by (rule mset_eq_length) (use b in simp)
  have "tail_sorted key ?y n n" by (auto simp: tail_sorted_def)
  with b sort_loop_ok [of key ?y n n] assms len
  have s: "mset (heapsort_by key x n) = mset x" "\<forall>i. n \<le> i \<longrightarrow> heapsort_by key x n ! i = x ! i"
    "tail_sorted key (heapsort_by key x n) 0 n"
    by (simp_all add: heapsort_by_def)
  show "mset (heapsort_by key x n) = mset x" by (rule s)
  then have len2: "length (heapsort_by key x n) = length x" by (rule mset_eq_length)
  then show "sorted (map key (take n (heapsort_by key x n)))"
    using s(3) assms by (auto simp: sorted_iff_nth_mono tail_sorted_def)
  show "drop n (heapsort_by key x n) = drop n x"
    using s(2) len2 by (intro nth_equalityI) auto
qed

end
