(* ===== verification/Cube_Records.thy ===== *)
theory Cube_Records
  imports Baseliner_Prelude "HOL-Library.List_Lexorder"
begin

text \<open>
  Records of the data-cube benchmark (\<^verbatim>\<open>NPB-CPUTests/DC\<close>). A row is \<^verbatim>\<open>nm\<close> 64-bit
  measures followed by 32-bit dimension attributes; the buffers of the source hold exactly
  these words. The theory has the comparison of keys (\<^verbatim>\<open>KeyComp\<close>), the projection of an
  input row on the attributes of a view (\<^verbatim>\<open>SelectToView\<close>), the in-place accumulation of
  measures, and the abstract meaning of a view: one row per key, in key order, with the sums
  of the measures (\<open>groupby\<close>), together with its incremental form (\<open>agg_ins\<close>).
\<close>

section \<open>Rows, keys and projections\<close>

record drec =
  dr_meas :: "u64 list"
  dr_dims :: "u32 list"

text \<open>
  \<^verbatim>\<open>KeyComp(a, b, n)\<close> compares the first \<^verbatim>\<open>n\<close> words. Both arguments have at least
  \<^verbatim>\<open>n\<close> words wherever it is called; the last equation stands for a read past the end.
\<close>

fun KeyComp :: "u32 list \<Rightarrow> u32 list \<Rightarrow> nat \<Rightarrow> int" where
  "KeyComp a b 0 = 0"
| "KeyComp (x # a) (y # b) (Suc n) =
    (if x < y then -1 else if x > y then 1 else KeyComp a b n)"
| "KeyComp _ _ (Suc n) = 0"

text \<open>
  \<^verbatim>\<open>SelectToView\<close>: attribute \<^verbatim>\<open>ix[i]\<close>, counted from one, becomes attribute \<open>i\<close> of the
  view; the measures are copied.
\<close>

definition SelectToView :: "drec \<Rightarrow> u32 list \<Rightarrow> nat \<Rightarrow> drec" where
  "SelectToView ib ix nv =
    \<lparr>dr_meas = dr_meas ib, dr_dims = map (\<lambda>i. dr_dims ib ! (unat (ix ! i) - 1)) [0..<nv]\<rparr>"

definition add_meas :: "u64 list \<Rightarrow> u64 list \<Rightarrow> u64 list" where
  "add_meas xs ys = map2 (+) xs ys"

definition acc_rec :: "drec \<Rightarrow> drec \<Rightarrow> drec" where
  "acc_rec old new = old\<lparr>dr_meas := add_meas (dr_meas old) (dr_meas new)\<rparr>"

lemma drec_eta [simp]: "\<lparr>dr_meas = dr_meas r, dr_dims = dr_dims r\<rparr> = (r :: drec)"
  by simp

definition rec_ok :: "nat \<Rightarrow> nat \<Rightarrow> drec \<Rightarrow> bool" where
  "rec_ok nd nm r \<longleftrightarrow> length (dr_dims r) = nd \<and> length (dr_meas r) = nm"

lemma rec_ok_SelectToView [simp]:
  "length (dr_meas r) = nm \<Longrightarrow> rec_ok nv nm (SelectToView r ix nv)"
  by (simp add: rec_ok_def SelectToView_def)

lemma length_add_meas [simp]: "length (add_meas xs ys) = min (length xs) (length ys)"
  by (simp add: add_meas_def)

lemma acc_rec_dims [simp]: "dr_dims (acc_rec a b) = dr_dims a"
  by (simp add: acc_rec_def)

lemma rec_ok_acc [simp]: "rec_ok nd nm a \<Longrightarrow> rec_ok nd nm b \<Longrightarrow> rec_ok nd nm (acc_rec a b)"
  by (simp add: rec_ok_def acc_rec_def)

lemma KeyComp_lex:
  "length a = n \<Longrightarrow> length b = n \<Longrightarrow>
   KeyComp a b n = (if a < b then -1 else if b < a then 1 else 0)"
proof (induction a b n rule: KeyComp.induct)
  case (2 x a y b n)
  then show ?case by (auto simp: not_less_iff_gr_or_eq)
qed simp_all

lemma KeyComp_eq_0 [simp]:
  "length a = n \<Longrightarrow> length b = n \<Longrightarrow> KeyComp a b n = 0 \<longleftrightarrow> a = b"
  by (auto simp: KeyComp_lex)

section \<open>The meaning of a view\<close>

definition meas_sum :: "nat \<Rightarrow> drec list \<Rightarrow> u64 list" where
  "meas_sum nm rs = map (\<lambda>i. \<Sum>r\<leftarrow>rs. dr_meas r ! i) [0..<nm]"

definition with_key :: "u32 list \<Rightarrow> drec list \<Rightarrow> drec list" where
  "with_key k rs = filter (\<lambda>r. dr_dims r = k) rs"

definition groupby :: "nat \<Rightarrow> drec list \<Rightarrow> drec list" where
  "groupby nm rs =
    map (\<lambda>k. \<lparr>dr_meas = meas_sum nm (with_key k rs), dr_dims = k\<rparr>)
      (sorted_list_of_set (dr_dims ` set rs))"

text \<open>The incremental form: one more row goes into an ordered list of rows.\<close>

fun agg_ins :: "drec \<Rightarrow> drec list \<Rightarrow> drec list" where
  "agg_ins r [] = [r]"
| "agg_ins r (x # xs) =
    (if dr_dims r < dr_dims x then r # x # xs
     else if dr_dims x < dr_dims r then x # agg_ins r xs
     else acc_rec x r # xs)"

definition view_sorted :: "drec list \<Rightarrow> bool" where
  "view_sorted xs \<longleftrightarrow> sorted_wrt (<) (map dr_dims xs)"

lemma meas_sum_snoc:
  "length (dr_meas r) = nm \<Longrightarrow> meas_sum nm (rs @ [r]) = add_meas (meas_sum nm rs) (dr_meas r)"
  by (rule nth_equalityI) (simp_all add: meas_sum_def add_meas_def)

lemma meas_sum_single: "length (dr_meas r) = nm \<Longrightarrow> meas_sum nm [r] = dr_meas r"
  by (rule nth_equalityI) (simp_all add: meas_sum_def)

lemma add_meas_nth [simp]:
  "i < length xs \<Longrightarrow> i < length ys \<Longrightarrow> add_meas xs ys ! i = xs ! i + ys ! i"
  by (simp add: add_meas_def)

lemma agg_ins_keys: "set (map dr_dims (agg_ins r xs)) = insert (dr_dims r) (dr_dims ` set xs)"
  by (induction xs) auto

lemma agg_ins_sorted: "view_sorted xs \<Longrightarrow> view_sorted (agg_ins r xs)"
proof (induction xs)
  case (Cons x xs)
  then show ?case
    using agg_ins_keys [of r xs] by (fastforce simp: view_sorted_def)
qed (simp add: view_sorted_def)

lemma agg_ins_rec_ok:
  "rec_ok nd nm r \<Longrightarrow> list_all (rec_ok nd nm) xs \<Longrightarrow> list_all (rec_ok nd nm) (agg_ins r xs)"
  by (induction xs) auto

text \<open>What a row of the grown list holds, by key.\<close>

lemma agg_ins_mem:
  assumes "view_sorted xs"
  shows "x \<in> set (agg_ins r xs) \<longleftrightarrow>
    (dr_dims x \<noteq> dr_dims r \<and> x \<in> set xs) \<or>
    (dr_dims x = dr_dims r \<and>
      (if dr_dims r \<in> dr_dims ` set xs then \<exists>y \<in> set xs. dr_dims y = dr_dims r \<and> x = acc_rec y r
       else x = r))"
  using assms
proof (induction xs)
  case (Cons y ys)
  then have IH: "x \<in> set (agg_ins r ys) \<longleftrightarrow>
    (dr_dims x \<noteq> dr_dims r \<and> x \<in> set ys) \<or>
    (dr_dims x = dr_dims r \<and>
      (if dr_dims r \<in> dr_dims ` set ys then \<exists>y \<in> set ys. dr_dims y = dr_dims r \<and> x = acc_rec y r
       else x = r))"
    and lt: "\<forall>z \<in> set ys. dr_dims y < dr_dims z" by (auto simp: view_sorted_def)
  consider "dr_dims r < dr_dims y" | "dr_dims y < dr_dims r" | "dr_dims r = dr_dims y"
    by fastforce
  then show ?case
  proof cases
    case 1
    with lt have "dr_dims r \<notin> dr_dims ` set (y # ys)" by (auto dest: less_trans)
    with 1 show ?thesis by (auto simp: image_iff)
  next
    case 2
    with IH show ?thesis by auto
  next
    case 3
    with lt show ?thesis by (auto simp: image_iff)
  qed
qed auto

text \<open>An ordered list of rows is determined by its rows.\<close>

lemma view_sorted_distinct: "view_sorted xs \<Longrightarrow> distinct (map dr_dims xs)"
  unfolding view_sorted_def by (simp add: strict_sorted_iff)

lemma view_sorted_unique:
  assumes "view_sorted xs" "view_sorted ys" "set xs = set ys"
  shows "xs = ys"
  by (rule map_sorted_distinct_set_unique [where f = dr_dims])
    (use assms in \<open>auto simp: view_sorted_def strict_sorted_iff distinct_map\<close>)

lemma groupby_dims: "map dr_dims (groupby nm rs) = sorted_list_of_set (dr_dims ` set rs)"
  by (simp add: groupby_def comp_def)

lemma groupby_sorted [simp]: "view_sorted (groupby nm rs)"
  by (simp add: view_sorted_def groupby_dims)

lemma groupby_keys [simp]: "dr_dims ` set (groupby nm rs) = dr_dims ` set rs"
  by (metis List.finite_set finite_imageI groupby_dims set_map set_sorted_list_of_set)

lemma groupby_mem:
  "x \<in> set (groupby nm rs) \<longleftrightarrow>
    dr_dims x \<in> dr_dims ` set rs \<and> x = \<lparr>dr_meas = meas_sum nm (with_key (dr_dims x) rs), dr_dims = dr_dims x\<rparr>"
  by (auto simp: groupby_def)

lemma groupby_rec_ok: "list_all (rec_ok nd nm) rs \<Longrightarrow> list_all (rec_ok nd nm) (groupby nm rs)"
  by (auto simp: list_all_iff groupby_def rec_ok_def meas_sum_def)

lemma groupby_Nil [simp]: "groupby nm [] = []"
  by (simp add: groupby_def)

lemma groupby_empty [simp]: "groupby nm rs = [] \<longleftrightarrow> rs = []"
  using groupby_keys [of nm rs] by (metis groupby_Nil image_is_empty list.set(1) set_empty)

lemma with_key_none: "k \<notin> dr_dims ` set rs \<Longrightarrow> with_key k rs = []"
  by (auto simp: with_key_def filter_empty_conv)

lemma agg_ins_groupby:
  assumes r: "length (dr_meas r) = nm"
  shows "agg_ins r (groupby nm rs) = groupby nm (rs @ [r])"
proof (rule view_sorted_unique)
  show "set (agg_ins r (groupby nm rs)) = set (groupby nm (rs @ [r]))"
  proof (rule set_eqI)
    fix x :: drec
    note mem = agg_ins_mem [OF groupby_sorted, of x r nm rs]
    show "x \<in> set (agg_ins r (groupby nm rs)) \<longleftrightarrow> x \<in> set (groupby nm (rs @ [r]))"
    proof (cases "dr_dims x = dr_dims r")
      case False
      then show ?thesis by (auto simp: mem groupby_mem with_key_def)
    next
      case True
      show ?thesis
      proof (cases "dr_dims r \<in> dr_dims ` set rs")
        case in_rs: True
        then have "(\<exists>y \<in> set (groupby nm rs). dr_dims y = dr_dims r \<and> x = acc_rec y r) \<longleftrightarrow>
          x = acc_rec \<lparr>dr_meas = meas_sum nm (with_key (dr_dims r) rs), dr_dims = dr_dims r\<rparr> r"
          by (force simp: groupby_def)
        with True in_rs show ?thesis
          by (simp add: mem groupby_mem with_key_def acc_rec_def meas_sum_snoc [OF r])
      next
        case not_in: False
        then have "with_key (dr_dims r) (rs @ [r]) = [r]"
          using with_key_none [OF not_in] by (simp add: with_key_def)
        with True not_in show ?thesis
          by (simp add: mem groupby_mem meas_sum_single [OF r])
      qed
    qed
  qed
qed (simp_all add: agg_ins_sorted)

lemma fold_agg_ins:
  "list_all (rec_ok nd nm) rs \<Longrightarrow> fold agg_ins rs (groupby nm ss) = groupby nm (ss @ rs)"
  by (induction rs arbitrary: ss) (simp_all add: agg_ins_groupby rec_ok_def)

text \<open>A view depends on its rows, not on their order, and may be computed in parts.\<close>

lemma meas_sum_mset: "mset rs = mset ss \<Longrightarrow> meas_sum nm rs = meas_sum nm ss"
proof -
  assume "mset rs = mset ss"
  then have "sum_mset (image_mset f (mset rs)) = sum_mset (image_mset f (mset ss))" for f :: "drec \<Rightarrow> u64"
    by simp
  then have "(\<Sum>r\<leftarrow>rs. f r) = (\<Sum>r\<leftarrow>ss. f r)" for f :: "drec \<Rightarrow> u64"
    by (metis mset_map sum_mset_sum_list)
  then show ?thesis by (simp add: meas_sum_def)
qed

lemma groupby_mset: "mset rs = mset ss \<Longrightarrow> groupby nm rs = groupby nm ss"
proof -
  assume eq: "mset rs = mset ss"
  have "meas_sum nm (with_key k rs) = meas_sum nm (with_key k ss)" for k
    by (rule meas_sum_mset) (simp add: with_key_def eq)
  moreover have "set rs = set ss" using eq by (metis set_mset_mset)
  ultimately show ?thesis by (simp add: groupby_def)
qed

lemma filter_eq_distinct: "distinct xs \<Longrightarrow> filter (\<lambda>x. x = k) xs = (if k \<in> set xs then [k] else [])"
  by (induction xs) (auto simp: filter_empty_conv)

lemma with_key_groupby:
  "with_key k (groupby nm rs) =
    (if k \<in> dr_dims ` set rs then [\<lparr>dr_meas = meas_sum nm (with_key k rs), dr_dims = k\<rparr>] else [])"
  by (simp add: with_key_def groupby_def filter_map comp_def filter_eq_distinct)

lemma meas_sum_append:
  "meas_sum nm (rs @ ss) = map (\<lambda>i. meas_sum nm rs ! i + meas_sum nm ss ! i) [0..<nm]"
  by (simp add: meas_sum_def)

lemma meas_sum_with_key_groupby:
  "meas_sum nm (with_key k (groupby nm rs)) = meas_sum nm (with_key k rs)"
  by (simp add: with_key_groupby with_key_none meas_sum_single meas_sum_def)

lemma groupby_part: "groupby nm (groupby nm rs @ ss) = groupby nm (rs @ ss)"
proof -
  have "meas_sum nm (with_key k (groupby nm rs @ ss)) = meas_sum nm (with_key k (rs @ ss))" for k
    using meas_sum_with_key_groupby [of nm k rs]
    by (simp add: with_key_def meas_sum_append)
  moreover have "dr_dims ` set (groupby nm rs @ ss) = dr_dims ` set (rs @ ss)"
    by (simp add: image_Un)
  ultimately show ?thesis unfolding groupby_def [of nm "_ @ _"] by (simp only:)
qed

lemma groupby_concat:
  "groupby nm (concat (map (groupby nm) rss)) = groupby nm (concat rss)"
proof (induction rss)
  case (Cons rs rss)
  have "groupby nm (groupby nm rs @ concat (map (groupby nm) rss)) =
      groupby nm (concat (map (groupby nm) rss) @ rs)"
    unfolding groupby_part by (rule groupby_mset) simp
  also have "\<dots> = groupby nm (concat rss @ rs)"
    using Cons.IH by (metis groupby_part)
  also have "\<dots> = groupby nm (rs @ concat rss)" by (rule groupby_mset) simp
  finally show ?case by simp
qed simp

text \<open>A list of rows that is already in key order is its own view.\<close>

lemma groupby_id:
  assumes "view_sorted xs" "list_all (rec_ok nd nm) xs"
  shows "groupby nm xs = xs"
proof (rule view_sorted_unique [OF groupby_sorted assms(1)], rule set_eqI)
  fix x :: drec
  have "with_key (dr_dims y) xs = [y]" if "y \<in> set xs" for y
  proof -
    have "distinct (map dr_dims xs)" by (rule view_sorted_distinct [OF assms(1)])
    then have "distinct xs" "\<And>z. z \<in> set xs \<Longrightarrow> dr_dims z = dr_dims y \<longleftrightarrow> z = y"
      using that by (auto simp: distinct_map inj_on_def)
    then have "with_key (dr_dims y) xs = filter (\<lambda>z. z = y) xs"
      unfolding with_key_def by (intro filter_cong) auto
    with \<open>distinct xs\<close> that show ?thesis by (simp add: filter_eq_distinct)
  qed
  moreover have "meas_sum nm [y] = dr_meas y" if "y \<in> set xs" for y
    using that assms(2) by (intro meas_sum_single) (auto simp: list_all_iff rec_ok_def)
  ultimately show "x \<in> set (groupby nm xs) \<longleftrightarrow> x \<in> set xs"
    by (force simp: groupby_def image_iff)
qed

end
