(* ===== verification/Cube_Tree.thy ===== *)
theory Cube_Tree
  imports Cube_Records
begin

text \<open>
  The red-black tree of the data-cube benchmark (\<^verbatim>\<open>NPB-CPUTests/DC/rbt.c\<close>). The tree is
  a value; the arrays \<^verbatim>\<open>nodes\<close> and \<^verbatim>\<open>drcts\<close> that \<^verbatim>\<open>TreeInsert\<close> fills on its way
  down are a list of \<open>pnode\<close>, the innermost node first: for every node passed, the direction
  taken, the subtree not taken, the colour and the row. \<^verbatim>\<open>sl\<close> is one more than the length
  of that list, since \<^verbatim>\<open>nodes[0]\<close> is the sentinel \<^verbatim>\<open>&tree->root\<close>. The memory pool is
  its counters. Shown are the red-black properties, that the rows in order are those of
  \<open>agg_ins\<close>, and the bounds of the node pool and of the path arrays.
\<close>

section \<open>Nodes and paths\<close>

datatype color = BLACK | RED

datatype treeNode = NULL | TN (lft: treeNode) (rgt: treeNode) (clr: color) (dat: drec)

record pnode =
  pn_drct :: nat
  pn_other :: treeNode
  pn_clr :: color
  pn_dat :: drec

text \<open>The node of a path entry with \<open>x\<close> as its child in the direction taken.\<close>

definition mk_node :: "pnode \<Rightarrow> treeNode \<Rightarrow> treeNode" where
  "mk_node p x =
    (if pn_drct p = 0 then TN x (pn_other p) (pn_clr p) (pn_dat p)
     else TN (pn_other p) x (pn_clr p) (pn_dat p))"

fun plug :: "treeNode \<Rightarrow> pnode list \<Rightarrow> treeNode" where
  "plug x [] = x"
| "plug x (p # ps) = plug (mk_node p x) ps"

fun set_clr :: "color \<Rightarrow> treeNode \<Rightarrow> treeNode" where
  "set_clr c NULL = NULL"
| "set_clr c (TN l r _ d) = TN l r c d"

definition is_red :: "treeNode \<Rightarrow> bool" where
  "is_red t \<longleftrightarrow> t \<noteq> NULL \<and> clr t = RED"

text \<open>The first loop: down to the node with the key of \<open>r\<close>, or off the tree.\<close>

fun tree_path :: "nat \<Rightarrow> drec \<Rightarrow> treeNode \<Rightarrow> pnode list \<Rightarrow> pnode list \<times> treeNode" where
  "tree_path nd r NULL ps = (ps, NULL)"
| "tree_path nd r (TN a b c d) ps =
    (let cmpres = KeyComp (dr_dims r) (dr_dims d) nd
     in if cmpres < 0 then
          tree_path nd r a (\<lparr>pn_drct = 0, pn_other = b, pn_clr = c, pn_dat = d\<rparr> # ps)
        else if cmpres > 0 then
          tree_path nd r b (\<lparr>pn_drct = 1, pn_other = a, pn_clr = c, pn_dat = d\<rparr> # ps)
        else (ps, TN a b c d))"

text \<open>
  The two rotations. \<open>x\<close> is the subtree below \<open>p = nodes[sl-1]\<close>, and \<open>g\<close> is
  \<open>nodes[sl-2]\<close>; an inner grandchild is first rotated above \<open>p\<close>.
\<close>

definition rotate_right :: "treeNode \<Rightarrow> pnode \<Rightarrow> pnode \<Rightarrow> treeNode" where
  "rotate_right x p g =
    (let yNd = (if pn_drct p = 1
                then TN (TN (pn_other p) (lft x) (pn_clr p) (pn_dat p)) (rgt x) (clr x) (dat x)
                else mk_node p x);
         xNd = TN (rgt yNd) (pn_other g) RED (pn_dat g)
     in TN (lft yNd) xNd BLACK (dat yNd))"

definition rotate_left :: "treeNode \<Rightarrow> pnode \<Rightarrow> pnode \<Rightarrow> treeNode" where
  "rotate_left x p g =
    (let yNd = (if pn_drct p = 0
                then TN (lft x) (TN (rgt x) (pn_other p) (pn_clr p) (pn_dat p)) (clr x) (dat x)
                else mk_node p x);
         xNd = TN (pn_other g) (lft yNd) RED (pn_dat g)
     in TN xNd (rgt yNd) BLACK (dat yNd))"

text \<open>
  The second loop. \<open>sl < 3\<close> is a path of at most one node. A red uncle recolours and moves
  two levels up; otherwise one rotation ends the loop, and its result takes the place of
  \<^verbatim>\<open>nodes[sl-2]\<close> below \<^verbatim>\<open>nodes[sl-3]\<close>.
\<close>

fun tree_fixup :: "treeNode \<Rightarrow> pnode list \<Rightarrow> treeNode" where
  "tree_fixup x (p # g # ps) =
    (if pn_clr p \<noteq> RED then plug x (p # g # ps)
     else if is_red (pn_other g) then
       tree_fixup (mk_node (g\<lparr>pn_clr := RED, pn_other := set_clr BLACK (pn_other g)\<rparr>)
                     (mk_node (p\<lparr>pn_clr := BLACK\<rparr>) x)) ps
     else if pn_drct g = 0 then plug (rotate_right x p g) ps
     else plug (rotate_left x p g) ps)"
| "tree_fixup x ps = plug x ps"

section \<open>The tree and its memory pool\<close>

record RBTree =
  root_left :: treeNode
  count :: u32
  treeNodeSize :: u32
  nodeDataSize :: u32
  memoryLimit :: u32
  memaddr :: u32
  memoryIsFull :: u32
  freeNodeCounter :: u32
  nNodesLimit :: u32
  t_nd :: u32
  t_nm :: u32

definition MAX_TREE_HEIGHT :: nat where
  "MAX_TREE_HEIGHT = 64"

text \<open>\<^verbatim>\<open>sizeof(struct treeNode)\<close>: two pointers, the colour with its padding, one word.\<close>

definition sizeof_treeNode :: u32 where
  "sizeof_treeNode = 32"

definition NEW_TREE_NODE :: "RBTree \<Rightarrow> RBTree" where
  "NEW_TREE_NODE t =
    (let t1 = t\<lparr>memaddr := memaddr t + treeNodeSize t, freeNodeCounter := freeNodeCounter t - 1\<rparr>
     in if freeNodeCounter t1 = 0 then t1\<lparr>memoryIsFull := 1\<rparr> else t1)"

definition TreeInsert :: "drec \<Rightarrow> RBTree \<Rightarrow> RBTree" where
  "TreeInsert attrs t =
    (if root_left t = NULL then
       (NEW_TREE_NODE (t\<lparr>count := count t + 1\<rparr>))\<lparr>root_left := TN NULL NULL BLACK attrs\<rparr>
     else
       (case tree_path (unat (t_nd t)) attrs (root_left t) [] of
          (ps, NULL) \<Rightarrow>
            (NEW_TREE_NODE (t\<lparr>count := count t + 1\<rparr>))
              \<lparr>root_left := set_clr BLACK (tree_fixup (TN NULL NULL RED attrs) ps)\<rparr>
        | (ps, TN a b c d) \<Rightarrow> t\<lparr>root_left := plug (TN a b c (acc_rec d attrs)) ps\<rparr>))"

definition node_size :: "u32 \<Rightarrow> u32 \<Rightarrow> u32" where
  "node_size nd nm =
    (let s = sizeof_treeNode + 4 * (nd - 1) + 8 * nm in if s mod 8 \<noteq> 0 then s + 4 else s)"

definition InitializeTree :: "u32 \<Rightarrow> u32 \<Rightarrow> RBTree \<Rightarrow> RBTree" where
  "InitializeTree nd nm t =
    t\<lparr>root_left := NULL, count := 0, memaddr := 0, treeNodeSize := node_size nd nm,
      memoryIsFull := 0, nodeDataSize := 4 * nd + 8 * nm,
      nNodesLimit := memoryLimit t div node_size nd nm,
      freeNodeCounter := memoryLimit t div node_size nd nm, t_nd := nd, t_nm := nm\<rparr>"

text \<open>
  \<^verbatim>\<open>CreateEmptyTree\<close>: \<open>None\<close> where one of the three allocations fails. The pool itself
  belongs to the caller.
\<close>

definition CreateEmptyTree :: "(nat \<Rightarrow> bool) \<Rightarrow> u32 \<Rightarrow> u32 \<Rightarrow> u32 \<Rightarrow> RBTree option" where
  "CreateEmptyTree alloc nd nm mlim =
    (if \<not> alloc 0 then None
     else
       (let sz = node_size nd nm;
            t = \<lparr>root_left = NULL, count = 0, treeNodeSize = sz, nodeDataSize = 4 * nd + 8 * nm,
                 memoryLimit = mlim, memaddr = 0, memoryIsFull = 0, freeNodeCounter = mlim div sz,
                 nNodesLimit = mlim div sz, t_nd = nd, t_nm = nm\<rparr>
        in if \<not> alloc 1 then None else if \<not> alloc 2 then None else Some t))"

section \<open>Rows in order\<close>

fun rows :: "treeNode \<Rightarrow> drec list" where
  "rows NULL = []"
| "rows (TN a b c d) = rows a @ d # rows b"

fun nodes_of :: "treeNode \<Rightarrow> nat" where
  "nodes_of NULL = 0"
| "nodes_of (TN a b c d) = nodes_of a + nodes_of b + 1"

fun height_of :: "treeNode \<Rightarrow> nat" where
  "height_of NULL = 0"
| "height_of (TN a b c d) = max (height_of a) (height_of b) + 1"

fun lefts :: "pnode list \<Rightarrow> drec list" where
  "lefts [] = []"
| "lefts (p # ps) = lefts ps @ (if pn_drct p = 0 then [] else rows (pn_other p) @ [pn_dat p])"

fun rights :: "pnode list \<Rightarrow> drec list" where
  "rights [] = []"
| "rights (p # ps) = (if pn_drct p = 0 then pn_dat p # rows (pn_other p) else []) @ rights ps"

definition drct_ok :: "pnode \<Rightarrow> bool" where
  "drct_ok p \<longleftrightarrow> pn_drct p = 0 \<or> pn_drct p = 1"

lemma nodes_of_rows: "nodes_of t = length (rows t)"
  by (induction t) simp_all

lemma rows_NULL [simp]: "rows t = [] \<longleftrightarrow> t = NULL"
  by (cases t) simp_all

lemma rows_set_clr [simp]: "rows (set_clr c t) = rows t"
  by (cases t) simp_all

lemma rows_plug [simp]: "rows (plug x ps) = lefts ps @ rows x @ rights ps"
  by (induction x ps rule: plug.induct) (simp_all add: mk_node_def)

lemma rows_rotate_right:
  "x \<noteq> NULL \<Longrightarrow> drct_ok p \<Longrightarrow> pn_drct g = 0 \<Longrightarrow>
   rows (rotate_right x p g) = rows (mk_node g (mk_node p x))"
  by (cases x) (auto simp: rotate_right_def mk_node_def drct_ok_def)

lemma rows_rotate_left:
  "x \<noteq> NULL \<Longrightarrow> drct_ok p \<Longrightarrow> pn_drct g \<noteq> 0 \<Longrightarrow>
   rows (rotate_left x p g) = rows (mk_node g (mk_node p x))"
  by (cases x) (auto simp: rotate_left_def mk_node_def drct_ok_def)

lemma mk_node_ne [simp]: "mk_node p x \<noteq> NULL"
  by (simp add: mk_node_def)

lemma rows_fixup:
  "x \<noteq> NULL \<Longrightarrow> list_all drct_ok ps \<Longrightarrow> rows (tree_fixup x ps) = lefts ps @ rows x @ rights ps"
proof (induction x ps rule: tree_fixup.induct)
  case (1 x p g ps)
  then have "drct_ok p" by simp
  note rot = rows_rotate_right [OF \<open>x \<noteq> NULL\<close> this] rows_rotate_left [OF \<open>x \<noteq> NULL\<close> this]
  from 1 show ?case
    by (auto simp: rot) (auto simp: mk_node_def)
qed (simp_all add: mk_node_def)

text \<open>The descent keeps what is above it and finds the place of the key.\<close>

lemma tree_path_plug: "tree_path nd r t ps = (qs, x) \<Longrightarrow> plug x qs = plug t ps"
  by (induction nd r t ps rule: tree_path.induct)
    (auto simp: Let_def mk_node_def split: if_splits)

lemma tree_path_drct:
  "tree_path nd r t ps = (qs, x) \<Longrightarrow> list_all drct_ok ps \<Longrightarrow> list_all drct_ok qs"
  by (induction nd r t ps rule: tree_path.induct)
    (auto simp: Let_def drct_ok_def split: if_splits)

lemma tree_path_length:
  "tree_path nd r t ps = (qs, x) \<Longrightarrow> length qs \<le> length ps + height_of t"
  by (induction nd r t ps rule: tree_path.induct)
    (fastforce simp: Let_def split: if_splits)+

lemma agg_ins_right:
  "list_all (\<lambda>y. dr_dims y < dr_dims r) ls \<Longrightarrow> agg_ins r (ls @ ys) = ls @ agg_ins r ys"
  by (induction ls) auto

lemma agg_ins_left: "list_all (\<lambda>y. dr_dims r < dr_dims y) rs \<Longrightarrow> agg_ins r rs = r # rs"
  by (cases rs) auto

definition keys_below :: "drec \<Rightarrow> drec list \<Rightarrow> bool" where
  "keys_below r xs \<longleftrightarrow> list_all (\<lambda>y. dr_dims y < dr_dims r) xs"

definition keys_above :: "drec \<Rightarrow> drec list \<Rightarrow> bool" where
  "keys_above r xs \<longleftrightarrow> list_all (\<lambda>y. dr_dims r < dr_dims y) xs"

lemma view_sorted_app:
  "view_sorted (xs @ d # ys) \<longleftrightarrow>
    view_sorted xs \<and> view_sorted ys \<and> keys_below d xs \<and> keys_above d ys"
  by (auto simp: view_sorted_def sorted_wrt_append keys_below_def keys_above_def list_all_iff
      dest: less_trans)

lemma keys_trans:
  "keys_below d xs \<Longrightarrow> dr_dims d < dr_dims r \<Longrightarrow> keys_below r xs"
  "keys_above d xs \<Longrightarrow> dr_dims r < dr_dims d \<Longrightarrow> keys_above r xs"
  by (auto simp: keys_below_def keys_above_def list_all_iff dest: less_trans)

lemma tree_path_split:
  assumes "tree_path nd r t ps = (qs, x)" "view_sorted (rows t)"
    "list_all (rec_ok nd nm) (rows t)" "rec_ok nd nm r"
  shows "\<exists>ls rs. lefts qs = lefts ps @ ls \<and> rights qs = rs @ rights ps \<and> rows t = ls @ rows x @ rs \<and>
    keys_below r ls \<and> keys_above r rs \<and> (x \<noteq> NULL \<longrightarrow> dr_dims (dat x) = dr_dims r)"
  using assms
proof (induction nd r t ps rule: tree_path.induct)
  case (1 nd r ps)
  then show ?case by (simp add: keys_below_def keys_above_def)
next
  case (2 nd r a b c d ps)
  let ?k = "KeyComp (dr_dims r) (dr_dims d) nd"
  have cmp: "?k = (if dr_dims r < dr_dims d then -1 else if dr_dims d < dr_dims r then 1 else 0)"
    using 2 by (intro KeyComp_lex) (auto simp: rec_ok_def)
  have sorted: "view_sorted (rows a)" "view_sorted (rows b)" "keys_below d (rows a)" "keys_above d (rows b)"
    using 2(4) by (simp_all add: view_sorted_app)
  have ok: "list_all (rec_ok nd nm) (rows a)" "list_all (rec_ok nd nm) (rows b)"
    using 2(5) by simp_all
  consider "dr_dims r < dr_dims d" | "dr_dims d < dr_dims r" | "dr_dims r = dr_dims d" by fastforce
  then show ?case
  proof cases
    case 1
    with cmp have neg: "?k < 0" by simp
    with 2(3) have path: "tree_path nd r a (\<lparr>pn_drct = 0, pn_other = b, pn_clr = c, pn_dat = d\<rparr> # ps) = (qs, x)"
      by (simp add: Let_def)
    from 2(1) [OF refl neg path sorted(1) ok(1) 2(6)] obtain ls rs where
      "lefts qs = lefts ps @ ls" "rights qs = rs @ d # rows b @ rights ps" "rows a = ls @ rows x @ rs"
      "keys_below r ls" "keys_above r rs" "x \<noteq> NULL \<longrightarrow> dr_dims (dat x) = dr_dims r"
      by auto
    moreover have "keys_above r (d # rows b)"
      using keys_trans(2) [OF sorted(4) 1] 1 by (simp add: keys_above_def)
    ultimately show ?thesis
      by (intro exI [of _ ls] exI [of _ "rs @ d # rows b"]) (simp add: keys_above_def)
  next
    case gt: 2
    then have "\<not> dr_dims r < dr_dims d" by simp
    with gt cmp have pos: "\<not> ?k < 0" "0 < ?k" by simp_all
    with 2(3) have path: "tree_path nd r b (\<lparr>pn_drct = 1, pn_other = a, pn_clr = c, pn_dat = d\<rparr> # ps) = (qs, x)"
      by (simp add: Let_def)
    from 2(2) [OF refl pos path sorted(2) ok(2) 2(6)] obtain ls rs where
      "lefts qs = lefts ps @ rows a @ d # ls" "rights qs = rs @ rights ps" "rows b = ls @ rows x @ rs"
      "keys_below r ls" "keys_above r rs" "x \<noteq> NULL \<longrightarrow> dr_dims (dat x) = dr_dims r"
      by auto
    moreover have "keys_below r (rows a @ [d])"
      using keys_trans(1) [OF sorted(3) gt] gt by (simp add: keys_below_def)
    ultimately show ?thesis
      by (intro exI [of _ "rows a @ d # ls"] exI [of _ rs]) (simp add: keys_below_def)
  next
    case 3
    with 2(3) cmp have "qs = ps" "x = TN a b c d" by simp_all
    with 3 show ?thesis by (simp add: keys_below_def keys_above_def)
  qed
qed

definition path_bound :: "RBTree \<Rightarrow> drec \<Rightarrow> nat" where
  "path_bound t attrs = length (fst (tree_path (unat (t_nd t)) attrs (root_left t) []))"

lemma TreeInsert_rows:
  assumes sorted: "view_sorted (rows (root_left t))"
    and ok: "list_all (rec_ok (unat (t_nd t)) nm) (rows (root_left t))"
    and r: "rec_ok (unat (t_nd t)) nm attrs"
  shows "rows (root_left (TreeInsert attrs t)) = agg_ins attrs (rows (root_left t))"
proof (cases "root_left t = NULL")
  case True
  then show ?thesis by (simp add: TreeInsert_def)
next
  case False
  obtain ps x where path: "tree_path (unat (t_nd t)) attrs (root_left t) [] = (ps, x)" by fastforce
  from tree_path_split [OF path sorted ok r] obtain
    eq: "rows (root_left t) = lefts ps @ rows x @ rights ps"
    and below: "list_all (\<lambda>y. dr_dims y < dr_dims attrs) (lefts ps)"
    and above: "list_all (\<lambda>y. dr_dims attrs < dr_dims y) (rights ps)"
    and key: "x \<noteq> NULL \<longrightarrow> dr_dims (dat x) = dr_dims attrs"
    by (auto simp: keys_below_def keys_above_def)
  show ?thesis
  proof (cases x)
    case NULL
    with path False have "rows (root_left (TreeInsert attrs t)) = lefts ps @ attrs # rights ps"
      using rows_fixup [of "TN NULL NULL RED attrs" ps] tree_path_drct [OF path] by (simp add: TreeInsert_def)
    with NULL eq show ?thesis by (simp add: agg_ins_right [OF below] agg_ins_left [OF above])
  next
    case (TN a b c d)
    with eq key sorted have "list_all (\<lambda>y. dr_dims y < dr_dims attrs) (rows a)"
      using view_sorted_app [of "lefts ps @ rows a" d "rows b @ rights ps"]
      by (simp add: keys_below_def)
    with TN path False eq key show ?thesis
      by (simp add: TreeInsert_def agg_ins_right [OF below] agg_ins_right)
  qed
qed

section \<open>Colours and heights\<close>

text \<open>
  \<open>bh\<close> counts the black nodes on the left spine; \<open>rb\<close> demands that no red node has a red
  child and that both subtrees of every node have the same count.
\<close>

fun bh :: "treeNode \<Rightarrow> nat" where
  "bh NULL = 0"
| "bh (TN a b c d) = bh a + (if c = BLACK then 1 else 0)"

fun rb :: "treeNode \<Rightarrow> bool" where
  "rb NULL \<longleftrightarrow> True"
| "rb (TN a b c d) \<longleftrightarrow> rb a \<and> rb b \<and> bh a = bh b \<and> (c = RED \<longrightarrow> \<not> is_red a \<and> \<not> is_red b)"

text \<open>The head of a path is red: the node below it must then be black.\<close>

fun red_head :: "pnode list \<Rightarrow> bool" where
  "red_head [] \<longleftrightarrow> False"
| "red_head (p # ps) \<longleftrightarrow> pn_clr p = RED"

text \<open>
  \<open>rb_path h ps\<close>: a tree of black height \<open>h\<close> fits at the end of the path. A red node of the
  path has a black sibling branch and a black parent, so the outermost node is black.
\<close>

fun rb_path :: "nat \<Rightarrow> pnode list \<Rightarrow> bool" where
  "rb_path h [] \<longleftrightarrow> True"
| "rb_path h (p # ps) \<longleftrightarrow>
    drct_ok p \<and> rb (pn_other p) \<and> bh (pn_other p) = h \<and>
    (pn_clr p = RED \<longrightarrow> \<not> is_red (pn_other p) \<and> ps \<noteq> [] \<and> \<not> red_head ps) \<and>
    rb_path (if pn_clr p = BLACK then Suc h else h) ps"

lemma is_red_simps [simp]: "\<not> is_red NULL" "is_red (TN a b c d) \<longleftrightarrow> c = RED"
  by (simp_all add: is_red_def)

lemma not_RED [simp]: "c \<noteq> RED \<longleftrightarrow> c = BLACK"
  by (cases c) simp_all

lemma rb_plug:
  "rb x \<Longrightarrow> rb_path (bh x) ps \<Longrightarrow> (is_red x \<longrightarrow> \<not> red_head ps) \<Longrightarrow> rb (plug x ps)"
proof (induction x ps rule: plug.induct)
  case (2 x p ps)
  have "rb (mk_node p x)" "bh (mk_node p x) = (if pn_clr p = BLACK then Suc (bh x) else bh x)"
    "is_red (mk_node p x) \<longleftrightarrow> pn_clr p = RED"
    using 2 by (auto simp: mk_node_def drct_ok_def)
  with 2 show ?case by (auto split: if_splits)
qed simp

lemma is_red_plug: "is_red (plug x ps) \<longleftrightarrow> (if ps = [] then is_red x else pn_clr (last ps) = RED)"
  by (induction x ps rule: plug.induct) (auto simp: mk_node_def)

lemma rb_set_black [simp]: "rb x \<Longrightarrow> rb (set_clr BLACK x)"
  by (cases x) auto

lemma bh_set_black: "is_red x \<Longrightarrow> bh (set_clr BLACK x) = Suc (bh x)"
  by (cases x) auto

lemma not_red_set_black [simp]: "\<not> is_red (set_clr BLACK x)"
  by (cases x) auto

lemma rb_rotate:
  assumes "rb x" "is_red x" "rb_path (bh x) (p # g # ps)" "pn_clr p = RED" "\<not> is_red (pn_other g)"
  shows "pn_drct g = 0 \<Longrightarrow> rb (rotate_right x p g) \<and> bh (rotate_right x p g) = Suc (bh x)
      \<and> \<not> is_red (rotate_right x p g)"
    and "pn_drct g = 1 \<Longrightarrow> rb (rotate_left x p g) \<and> bh (rotate_left x p g) = Suc (bh x)
      \<and> \<not> is_red (rotate_left x p g)"
  using assms
  by (cases x; auto simp: rotate_right_def rotate_left_def mk_node_def drct_ok_def Let_def)+

lemma rb_fixup:
  "rb x \<Longrightarrow> is_red x \<Longrightarrow> rb_path (bh x) ps \<Longrightarrow> rb (tree_fixup x ps)"
proof (induction x ps rule: tree_fixup.induct)
  case (1 x p g ps)
  show ?case
  proof (cases "pn_clr p = RED")
    case False
    have "rb (plug x (p # g # ps))"
      by (rule rb_plug) (use 1(2,4) False in auto)
    with False show ?thesis by simp
  next
    case red: True
    with 1 have g: "pn_clr g = BLACK" "drct_ok g" "drct_ok p" "rb_path (Suc (bh x)) ps"
      "rb (pn_other g)" "bh (pn_other g) = bh x" by auto
    show ?thesis
    proof (cases "is_red (pn_other g)")
      case True
      let ?x = "mk_node (g\<lparr>pn_clr := RED, pn_other := set_clr BLACK (pn_other g)\<rparr>)
                     (mk_node (p\<lparr>pn_clr := BLACK\<rparr>) x)"
      have "rb ?x" "is_red ?x" "bh ?x = Suc (bh x)"
        using 1 g red bh_set_black [OF True] by (auto simp: mk_node_def)
      with 1 red True g show ?thesis by simp
    next
      case False
      with g(2) consider "pn_drct g = 0" | "pn_drct g = 1" by (auto simp: drct_ok_def)
      then show ?thesis
        using rb_rotate [OF 1(2,3,4) red False] red False g(4)
        by cases (auto intro!: rb_plug)
    qed
  qed
qed (auto simp del: plug.simps intro!: rb_plug)

lemma rb_tree_path:
  "tree_path nd r t ps = (qs, x) \<Longrightarrow> rb t \<Longrightarrow> rb_path (bh t) ps \<Longrightarrow> (is_red t \<longrightarrow> ps \<noteq> [] \<and> \<not> red_head ps) \<Longrightarrow>
   rb x \<and> rb_path (bh x) qs \<and> (is_red x \<longrightarrow> \<not> red_head qs)"
proof (induction nd r t ps rule: tree_path.induct)
  case (2 nd r a b c d ps)
  then show ?case by (auto simp: Let_def drct_ok_def split: if_splits)
qed auto

text \<open>The consequence for the height, and so for the path.\<close>

lemma rb_size: "rb t \<Longrightarrow> 2 ^ bh t \<le> nodes_of t + 1"
  by (induction t) auto

lemma rb_height: "rb t \<Longrightarrow> height_of t \<le> 2 * bh t + (if is_red t then 1 else 0)"
proof (induction t)
  case (TN a b c d)
  then show ?case by (auto split: if_splits)
qed simp

lemma rb_height_size:
  assumes "rb t" "\<not> is_red t"
  shows "2 ^ height_of t \<le> (nodes_of t + 1) ^ 2"
proof -
  have "height_of t \<le> 2 * bh t" using rb_height [OF assms(1)] assms(2) by simp
  then have "(2::nat) ^ height_of t \<le> (2 ^ bh t) ^ 2"
    by (metis power_mult mult.commute one_le_numeral power_increasing)
  also have "\<dots> \<le> (nodes_of t + 1) ^ 2" by (rule power_mono [OF rb_size [OF assms(1)]]) simp
  finally show ?thesis .
qed

section \<open>The memory pool\<close>

text \<open>
  The state of a tree between two insertions: the rows are an ordered view of rows of the
  tree's own dimensions, the tree is red-black with a black root, and the counters describe
  the pool.
\<close>

definition pool_ok :: "RBTree \<Rightarrow> bool" where
  "pool_ok t \<longleftrightarrow>
    unat (count t) = nodes_of (root_left t) \<and>
    unat (freeNodeCounter t) + nodes_of (root_left t) = unat (nNodesLimit t) \<and>
    nNodesLimit t = memoryLimit t div treeNodeSize t \<and>
    treeNodeSize t = node_size (t_nd t) (t_nm t) \<and> nodeDataSize t = 4 * t_nd t + 8 * t_nm t \<and>
    memaddr t = count t * treeNodeSize t \<and>
    memoryIsFull t = (if freeNodeCounter t = 0 then 1 else 0)"

definition tree_ok :: "RBTree \<Rightarrow> bool" where
  "tree_ok t \<longleftrightarrow>
    view_sorted (rows (root_left t)) \<and>
    list_all (rec_ok (unat (t_nd t)) (unat (t_nm t))) (rows (root_left t)) \<and>
    rb (root_left t) \<and> \<not> is_red (root_left t) \<and> pool_ok t"

lemma NEW_TREE_NODE_simps [simp]:
  "root_left (NEW_TREE_NODE t) = root_left t"
  "count (NEW_TREE_NODE t) = count t"
  "treeNodeSize (NEW_TREE_NODE t) = treeNodeSize t"
  "nodeDataSize (NEW_TREE_NODE t) = nodeDataSize t"
  "memoryLimit (NEW_TREE_NODE t) = memoryLimit t"
  "memaddr (NEW_TREE_NODE t) = memaddr t + treeNodeSize t"
  "memoryIsFull (NEW_TREE_NODE t) = (if freeNodeCounter t = 1 then 1 else memoryIsFull t)"
  "freeNodeCounter (NEW_TREE_NODE t) = freeNodeCounter t - 1"
  "nNodesLimit (NEW_TREE_NODE t) = nNodesLimit t"
  "t_nd (NEW_TREE_NODE t) = t_nd t"
  "t_nm (NEW_TREE_NODE t) = t_nm t"
  by (simp_all add: NEW_TREE_NODE_def Let_def)

text \<open>Whether an insertion finds its key decides whether the pool is used.\<close>

lemma TreeInsert_cases:
  obtains (new) x where
      "TreeInsert attrs t = (NEW_TREE_NODE (t\<lparr>count := count t + 1\<rparr>))\<lparr>root_left := x\<rparr>"
      "nodes_of x = nodes_of (root_left t) + 1"
  | (found) x where "TreeInsert attrs t = t\<lparr>root_left := x\<rparr>" "nodes_of x = nodes_of (root_left t)"
proof (cases "root_left t = NULL")
  case True
  then show ?thesis by (intro new) (auto simp: TreeInsert_def)
next
  case False
  obtain ps x where path: "tree_path (unat (t_nd t)) attrs (root_left t) [] = (ps, x)" by fastforce
  have eq: "rows (root_left t) = lefts ps @ rows x @ rights ps"
    using arg_cong [OF tree_path_plug [OF path], of rows] by simp
  have dr: "list_all drct_ok ps" using tree_path_drct [OF path] by simp
  show ?thesis
  proof (cases x)
    case NULL
    with False path eq dr show ?thesis
      by (intro new [of "set_clr BLACK (tree_fixup (TN NULL NULL RED attrs) ps)"])
        (auto simp: TreeInsert_def nodes_of_rows rows_fixup)
  next
    case (TN a b c d)
    with False path eq show ?thesis
      by (intro found [of "plug (TN a b c (acc_rec d attrs)) ps"]) (auto simp: TreeInsert_def nodes_of_rows)
  qed
qed

lemma TreeInsert_frame [simp]:
  "t_nd (TreeInsert attrs t) = t_nd t" "t_nm (TreeInsert attrs t) = t_nm t"
  "memoryLimit (TreeInsert attrs t) = memoryLimit t"
  "treeNodeSize (TreeInsert attrs t) = treeNodeSize t"
  "nNodesLimit (TreeInsert attrs t) = nNodesLimit t"
  by (cases rule: TreeInsert_cases [of attrs t]; simp)+

lemma TreeInsert_rb:
  assumes "rb (root_left t)" "\<not> is_red (root_left t)"
  shows "rb (root_left (TreeInsert attrs t)) \<and> \<not> is_red (root_left (TreeInsert attrs t))"
proof (cases "root_left t = NULL")
  case True
  then show ?thesis by (simp add: TreeInsert_def)
next
  case False
  obtain ps x where path: "tree_path (unat (t_nd t)) attrs (root_left t) [] = (ps, x)" by fastforce
  from rb_tree_path [OF path] assms
  have x: "rb x" "rb_path (bh x) ps" "is_red x \<longrightarrow> \<not> red_head ps" by simp_all
  show ?thesis
  proof (cases x)
    case NULL
    have "rb (tree_fixup (TN NULL NULL RED attrs) ps)"
      by (rule rb_fixup) (use x NULL in simp_all)
    with NULL path False show ?thesis by (simp add: TreeInsert_def)
  next
    case (TN a b c d)
    let ?x = "TN a b c (acc_rec d attrs)"
    have "rb (plug ?x ps)" by (rule rb_plug) (use x TN in auto)
    moreover have "is_red (plug ?x ps) = is_red (plug x ps)" by (simp add: is_red_plug TN)
    ultimately show ?thesis
      using TN path False assms(2) tree_path_plug [OF path] by (simp add: TreeInsert_def)
  qed
qed

lemma pool_room:
  assumes "pool_ok t" "memoryIsFull t = 0"
  shows "freeNodeCounter t \<noteq> 0" "unat (count t) + 1 \<le> unat (nNodesLimit t)"
proof -
  show f: "freeNodeCounter t \<noteq> 0" using assms by (auto simp: pool_ok_def split: if_splits)
  then have "0 < unat (freeNodeCounter t)" by (simp add: unat_gt_0)
  moreover have "unat (count t) = nodes_of (root_left t)"
    "unat (freeNodeCounter t) + nodes_of (root_left t) = unat (nNodesLimit t)"
    using assms(1) unfolding pool_ok_def by blast+
  ultimately show "unat (count t) + 1 \<le> unat (nNodesLimit t)" by linarith
qed

lemma pool_limit:
  "pool_ok t \<Longrightarrow> unat (nNodesLimit t) = unat (memoryLimit t) div unat (treeNodeSize t)"
  "pool_ok t \<Longrightarrow> nodes_of (root_left t) \<le> unat (nNodesLimit t)"
  unfolding pool_ok_def by (simp only: unat_div_distrib) linarith

lemma pool_ok_TreeInsert:
  assumes ok: "pool_ok t" and free: "memoryIsFull t = 0"
  shows "pool_ok (TreeInsert attrs t)"
proof (cases rule: TreeInsert_cases [of attrs t])
  case (new x)
  note f = pool_room [OF ok free]
  have f': "unat (freeNodeCounter t - 1) + 1 = unat (freeNodeCounter t)"
    using unat_minus_one [OF f(1)] f(1) unat_gt_0 [of "freeNodeCounter t"] by linarith
  have c: "unat (count t + 1) = unat (count t) + 1"
    using f(2) unat_u32_less [of "nNodesLimit t"] by (simp add: unat_word_ariths)
  have sums: "unat (count t) = nodes_of (root_left t)"
    "unat (freeNodeCounter t) + nodes_of (root_left t) = unat (nNodesLimit t)"
    using ok unfolding pool_ok_def by blast+
  have "unat (freeNodeCounter t - 1) + (nodes_of (root_left t) + 1) = unat (nNodesLimit t)"
    using sums f' by linarith
  with ok free c sums(1) new show ?thesis
    by (simp add: pool_ok_def distrib_right)
next
  case (found x)
  with ok show ?thesis by (simp add: pool_ok_def)
qed

lemma tree_ok_TreeInsert:
  assumes "tree_ok t" "memoryIsFull t = 0" "rec_ok (unat (t_nd t)) (unat (t_nm t)) attrs"
  shows "tree_ok (TreeInsert attrs t)"
    and "rows (root_left (TreeInsert attrs t)) = agg_ins attrs (rows (root_left t))"
proof -
  show eq: "rows (root_left (TreeInsert attrs t)) = agg_ins attrs (rows (root_left t))"
    by (rule TreeInsert_rows) (use assms in \<open>auto simp: tree_ok_def\<close>)
  show "tree_ok (TreeInsert attrs t)"
    using assms eq TreeInsert_rb [of t attrs] pool_ok_TreeInsert [of t attrs]
    by (simp add: tree_ok_def agg_ins_sorted agg_ins_rec_ok)
qed

lemma tree_ok_InitializeTree:
  "memoryLimit t div node_size nd nm \<noteq> 0 \<Longrightarrow> tree_ok (InitializeTree nd nm t)"
  by (simp add: tree_ok_def pool_ok_def InitializeTree_def view_sorted_def)

lemma InitializeTree_simps [simp]:
  "root_left (InitializeTree nd nm t) = NULL" "count (InitializeTree nd nm t) = 0"
  "memoryIsFull (InitializeTree nd nm t) = 0" "memoryLimit (InitializeTree nd nm t) = memoryLimit t"
  "t_nd (InitializeTree nd nm t) = nd" "t_nm (InitializeTree nd nm t) = nm"
  by (simp_all add: InitializeTree_def)

lemma node_size_unat:
  assumes "1 \<le> unat nd" "unat nd \<le> 20" "unat nm \<le> 4"
  shows "unat (node_size nd nm) =
    (if even (unat nd) then 32 + 4 * unat nd + 8 * unat nm else 28 + 4 * unat nd + 8 * unat nm)"
proof -
  have "nd \<noteq> 0" using assms(1) by auto
  then have nd1: "unat (nd - 1) = unat nd - 1" by (rule unat_minus_one)
  define w where "w = sizeof_treeNode + 4 * (nd - 1) + 8 * nm"
  have s: "unat w = 28 + 4 * unat nd + 8 * unat nm"
    using assms by (simp add: w_def sizeof_treeNode_def unat_word_ariths nd1 unat_numeral)
  have "(28 + 4 * n + 8 * m) mod 8 = (if even n then 4 else 0)" for n m :: nat
    by presburger
  then have "unat (w mod 8) = (if even (unat nd) then 4 else 0)"
    by (simp add: unat_mod_distrib s)
  then have "unat (w mod 8) \<noteq> 0 \<longleftrightarrow> even (unat nd)" by presburger
  then have "w mod 8 \<noteq> 0 \<longleftrightarrow> even (unat nd)" by (simp only: unat_eq_zero)
  moreover have "unat (w + 4) = unat w + 4"
    using assms s by (simp add: unat_word_ariths)
  moreover have "node_size nd nm = (if w mod 8 \<noteq> 0 then w + 4 else w)"
    unfolding node_size_def w_def Let_def by (rule refl)
  ultimately show ?thesis using s by simp
qed

text \<open>
  Memory safety: the node that an insertion takes lies inside the pool, with no wrap-around
  of its address, its data fit behind the three header fields, and the path of the search
  has room in the arrays of \<open>MAX_TREE_HEIGHT\<close> entries.
\<close>

lemma pool_in_bounds:
  assumes "pool_ok t" "memoryIsFull t = 0"
  shows "unat (memaddr t) + unat (treeNodeSize t) \<le> unat (memoryLimit t)"
proof -
  have "(unat (count t) + 1) * unat (treeNodeSize t) \<le> unat (nNodesLimit t) * unat (treeNodeSize t)"
    by (rule mult_le_mono1 [OF pool_room(2) [OF assms]])
  also have "\<dots> \<le> unat (memoryLimit t)"
    unfolding pool_limit(1) [OF assms(1)] by simp
  finally have le: "(unat (count t) + 1) * unat (treeNodeSize t) \<le> unat (memoryLimit t)" .
  then have "unat (count t) * unat (treeNodeSize t) < 2 ^ 32"
    using unat_u32_less [of "memoryLimit t"] by simp
  then have "unat (memaddr t) = unat (count t) * unat (treeNodeSize t)"
    using assms(1) unfolding pool_ok_def by (simp only: unat_word_ariths) simp
  with le show ?thesis by (simp add: algebra_simps)
qed

lemma path_in_bounds:
  assumes "tree_ok t" "32 \<le> unat (treeNodeSize t)"
  shows "path_bound t attrs < MAX_TREE_HEIGHT"
proof -
  have "nodes_of (root_left t) \<le> unat (memoryLimit t) div unat (treeNodeSize t)"
    using assms(1) pool_limit [of t] by (simp add: tree_ok_def)
  also have "\<dots> \<le> unat (memoryLimit t) div 32"
    using assms(2) by (intro div_le_mono2) simp_all
  also have "\<dots> < 2 ^ 27" using unat_u32_less [of "memoryLimit t"] by simp
  finally have n: "nodes_of (root_left t) + 1 \<le> 2 ^ 27" by simp
  have "(2::nat) ^ height_of (root_left t) \<le> (2 ^ 27) ^ 2"
    using rb_height_size [of "root_left t"] assms(1) power_mono [OF n, of 2]
    by (simp add: tree_ok_def del: power_mono_iff)
  then have "(2::nat) ^ height_of (root_left t) \<le> 2 ^ 54" by (simp flip: power_mult)
  then have "height_of (root_left t) \<le> 54" by (rule power_le_imp_le_exp [rotated]) simp
  moreover have "path_bound t attrs \<le> height_of (root_left t)"
    using tree_path_length [of _ attrs "root_left t" "[]"]
    by (simp add: path_bound_def) (metis prod.collapse)
  ultimately show ?thesis by (simp add: MAX_TREE_HEIGHT_def)
qed

section \<open>The interface of an aggregating container\<close>

text \<open>
  What the computation of a view relies on: while there is room, an insertion acts on the
  rows as \<open>agg_ins\<close> and keeps the invariant. A run of insertions that meets room before
  each of them then builds the rows of the inserted records.
\<close>

locale aggregator =
  fixes ins :: "drec \<Rightarrow> 't \<Rightarrow> 't"
    and rows_of :: "'t \<Rightarrow> drec list"
    and full :: "'t \<Rightarrow> bool"
    and good :: "drec \<Rightarrow> bool"
    and inv :: "'t \<Rightarrow> bool"
  assumes ins_rows: "inv t \<Longrightarrow> \<not> full t \<Longrightarrow> good r \<Longrightarrow> rows_of (ins r t) = agg_ins r (rows_of t)"
    and ins_inv: "inv t \<Longrightarrow> \<not> full t \<Longrightarrow> good r \<Longrightarrow> inv (ins r t)"
begin

lemma run_rows:
  "inv t \<Longrightarrow> (\<forall>k < length rs. \<not> full (fold ins (take k rs) t)) \<Longrightarrow> list_all good rs \<Longrightarrow>
   inv (fold ins rs t) \<and> rows_of (fold ins rs t) = fold agg_ins rs (rows_of t)"
proof (induction rs arbitrary: t)
  case (Cons r rs)
  from Cons.prems(2) have room: "\<not> full t" by (metis fold_simps(1) length_greater_0_conv list.distinct(1) take_0)
  have "\<forall>k < length rs. \<not> full (fold ins (take k rs) (ins r t))"
  proof (intro allI impI)
    fix k assume "k < length rs"
    with Cons.prems(2) [rule_format, of "Suc k"]
    show "\<not> full (fold ins (take k rs) (ins r t))" by simp
  qed
  with Cons.IH [of "ins r t"] Cons.prems room show ?case
    by (simp add: ins_rows ins_inv)
qed simp

end

definition tree_for :: "u32 \<Rightarrow> u32 \<Rightarrow> RBTree \<Rightarrow> bool" where
  "tree_for nd nm t \<longleftrightarrow> tree_ok t \<and> t_nd t = nd \<and> t_nm t = nm"

interpretation cube_tree: aggregator TreeInsert "\<lambda>t. rows (root_left t)" "\<lambda>t. memoryIsFull t \<noteq> 0"
  "rec_ok (unat nd) (unat nm)" "tree_for nd nm" for nd nm
  by unfold_locales (auto simp: tree_for_def tree_ok_TreeInsert)

end
