(* ===== verification/Cube_Views.thy ===== *)
theory Cube_Views
  imports Cube_Tree
begin

text \<open>
  Computation of one view of the data cube: the traversals of the tree in
  \<^verbatim>\<open>NPB-CPUTests/DC/rbt.c\<close> and the external sort of \<^verbatim>\<open>NPB-CPUTests/DC/extbuild.c\<close>.
  Files are lists of rows: \<open>viewFile\<close> is what has been appended to the view file,
  \<open>fileOfChunks\<close> what has been written to the chunk file since it was rewound. \<open>writes\<close>
  counts the calls of \<^verbatim>\<open>fwrite\<close>, and the parameter \<open>wr\<close> says which of them succeed.
  The buffer of the merge is a function from record positions to rows whose start value
  (the old contents of the memory pool) is a parameter. The 32-bit bookkeeping of chunks
  never leaves the range of the pool's node count and is kept as natural numbers; measures
  and checksums are 64-bit words.
\<close>

section \<open>State\<close>

definition ADC_OK :: int where "ADC_OK = 0"
definition ADC_WRITE_FAILED :: int where "ADC_WRITE_FAILED = 1"
definition ADC_INTERNAL_ERROR :: int where "ADC_INTERNAL_ERROR = 2"
definition MAX_NUM_OF_CHUNKS :: nat where "MAX_NUM_OF_CHUNKS = 1024"
definition measbound :: nat where "measbound = 31415"

lemmas adc_codes = ADC_OK_def ADC_WRITE_FAILED_def ADC_INTERNAL_ERROR_def

record CHUNKS =
  curChunkNum :: nat
  chunkOffset :: int
  posSubChunk :: nat
  curSubChunk :: nat

record ADC_VIEW_CNTL =
  v_nm :: u32
  v_nd :: u32
  v_nv :: u32
  selection :: "u32 list"
  outRecSize :: u32
  v_memoryLimit :: u32
  nViewRows :: u32
  totalOfViewRows :: u32
  tree :: RBTree
  numberOfChunks :: nat
  chunksParams :: "CHUNKS list"
  mSums :: "u64 list"
  checksums :: "u64 list"
  viewFile :: "drec list"
  fileOfChunks :: "drec list"
  writes :: nat

abbreviation nm_of :: "ADC_VIEW_CNTL \<Rightarrow> nat" where
  "nm_of v \<equiv> unat (v_nm v)"

abbreviation nv_of :: "ADC_VIEW_CNTL \<Rightarrow> nat" where
  "nv_of v \<equiv> unat (v_nv v)"

definition GetRecSize :: "u32 \<Rightarrow> u32 \<Rightarrow> u32" where
  "GetRecSize nd nm = 4 * nd + 8 * nm"

section \<open>Writing the tree\<close>

definition write_view :: "(nat \<Rightarrow> bool) \<Rightarrow> drec \<Rightarrow> ADC_VIEW_CNTL \<Rightarrow> int \<times> ADC_VIEW_CNTL" where
  "write_view wr r v =
    (if wr (writes v) then (ADC_OK, v\<lparr>writes := Suc (writes v), viewFile := viewFile v @ [r]\<rparr>)
     else (ADC_WRITE_FAILED, v\<lparr>writes := Suc (writes v)\<rparr>))"

definition write_chunk :: "(nat \<Rightarrow> bool) \<Rightarrow> drec \<Rightarrow> ADC_VIEW_CNTL \<Rightarrow> int \<times> ADC_VIEW_CNTL" where
  "write_chunk wr r v =
    (if wr (writes v) then (ADC_OK, v\<lparr>writes := Suc (writes v), fileOfChunks := fileOfChunks v @ [r]\<rparr>)
     else (ADC_WRITE_FAILED, v\<lparr>writes := Suc (writes v)\<rparr>))"

definition add_sums :: "drec \<Rightarrow> ADC_VIEW_CNTL \<Rightarrow> ADC_VIEW_CNTL" where
  "add_sums r v = v\<lparr>mSums := add_meas (mSums v) (dr_meas r)\<rparr>"

text \<open>
  The checksum of the traversals: the order number is advanced for every measure, and the
  product and its remainder are unsigned.
\<close>

definition add_checks :: "u64 \<Rightarrow> drec \<Rightarrow> ADC_VIEW_CNTL \<Rightarrow> ADC_VIEW_CNTL" where
  "add_checks ordern r v =
    v\<lparr>checksums := map (\<lambda>i. checksums v ! i + ((ordern + of_nat (Suc i)) * dr_meas r ! i) mod of_nat measbound)
        [0..<nm_of v]\<rparr>"

fun WriteViewToDisk :: "(nat \<Rightarrow> bool) \<Rightarrow> treeNode \<Rightarrow> ADC_VIEW_CNTL \<Rightarrow> int \<times> ADC_VIEW_CNTL" where
  "WriteViewToDisk wr NULL v = (ADC_OK, v)"
| "WriteViewToDisk wr (TN a b c d) v =
    (case WriteViewToDisk wr a v of (ret1, v1) \<Rightarrow>
       if ret1 \<noteq> 0 then (ADC_WRITE_FAILED, v1)
       else (case write_view wr d (add_sums d v1) of (ret2, v2) \<Rightarrow>
         if ret2 \<noteq> 0 then (ADC_WRITE_FAILED, v2)
         else (case WriteViewToDisk wr b v2 of (ret3, v3) \<Rightarrow>
           if ret3 \<noteq> 0 then (ADC_WRITE_FAILED, v3) else (ADC_OK, v3))))"

fun WriteViewToDiskCS ::
  "(nat \<Rightarrow> bool) \<Rightarrow> treeNode \<Rightarrow> u64 \<Rightarrow> ADC_VIEW_CNTL \<Rightarrow> int \<times> u64 \<times> ADC_VIEW_CNTL" where
  "WriteViewToDiskCS wr NULL ordern v = (ADC_OK, ordern, v)"
| "WriteViewToDiskCS wr (TN a b c d) ordern v =
    (case WriteViewToDiskCS wr a ordern v of (ret1, o1, v1) \<Rightarrow>
       if ret1 \<noteq> 0 then (ADC_WRITE_FAILED, o1, v1)
       else (case write_view wr d (add_checks o1 d (add_sums d v1)) of (ret2, v2) \<Rightarrow>
         let o2 = o1 + ucast (v_nm v) in
         if ret2 \<noteq> 0 then (ADC_WRITE_FAILED, o2, v2)
         else (case WriteViewToDiskCS wr b o2 v2 of (ret3, o3, v3) \<Rightarrow>
           if ret3 \<noteq> 0 then (ADC_WRITE_FAILED, o3, v3) else (ADC_OK, o3, v3))))"

fun computeChecksum :: "treeNode \<Rightarrow> u64 \<Rightarrow> ADC_VIEW_CNTL \<Rightarrow> u64 \<times> ADC_VIEW_CNTL" where
  "computeChecksum NULL ordern v = (ordern, v)"
| "computeChecksum (TN a b c d) ordern v =
    (case computeChecksum a ordern v of (o1, v1) \<Rightarrow>
       computeChecksum b (o1 + ucast (v_nm v)) (add_checks o1 d v1))"

fun WriteChunkToDisk :: "(nat \<Rightarrow> bool) \<Rightarrow> treeNode \<Rightarrow> ADC_VIEW_CNTL \<Rightarrow> int \<times> ADC_VIEW_CNTL" where
  "WriteChunkToDisk wr NULL v = (ADC_OK, v)"
| "WriteChunkToDisk wr (TN a b c d) v =
    (case WriteChunkToDisk wr a v of (ret1, v1) \<Rightarrow>
       if ret1 \<noteq> 0 then (ADC_WRITE_FAILED, v1)
       else (case write_chunk wr d v1 of (ret2, v2) \<Rightarrow>
         if ret2 \<noteq> 0 then (ADC_WRITE_FAILED, v2)
         else (case WriteChunkToDisk wr b v2 of (ret3, v3) \<Rightarrow>
           if ret3 \<noteq> 0 then (ADC_WRITE_FAILED, v3) else (ADC_OK, v3))))"

section \<open>In-memory views\<close>

text \<open>
  \<^verbatim>\<open>ComputeMemoryFittedView\<close> without \<^verbatim>\<open>VIEW_FILE_OUTPUT\<close>, over the rows of the input
  buffer. It returns 1 as soon as the pool is used up.
\<close>

definition init_tree :: "ADC_VIEW_CNTL \<Rightarrow> ADC_VIEW_CNTL" where
  "init_tree v = v\<lparr>tree := InitializeTree (v_nv v) (v_nm v) (tree v)\<rparr>"

definition insert_row :: "drec \<Rightarrow> ADC_VIEW_CNTL \<Rightarrow> ADC_VIEW_CNTL" where
  "insert_row ib v = v\<lparr>tree := TreeInsert (SelectToView ib (selection v) (nv_of v)) (tree v)\<rparr>"

fun fitted_loop :: "drec list \<Rightarrow> ADC_VIEW_CNTL \<Rightarrow> int \<times> ADC_VIEW_CNTL" where
  "fitted_loop [] v = (ADC_OK, v)"
| "fitted_loop (r # rs) v =
    (let v1 = insert_row r v
     in if memoryIsFull (tree v1) \<noteq> 0 then (1, v1) else fitted_loop rs v1)"

definition ComputeMemoryFittedView :: "drec list \<Rightarrow> ADC_VIEW_CNTL \<Rightarrow> int \<times> ADC_VIEW_CNTL" where
  "ComputeMemoryFittedView inp v =
    (case fitted_loop inp (init_tree v) of (ret, v1) \<Rightarrow>
       if ret \<noteq> 0 then (ret, v1)
       else
         (let v2 = snd (computeChecksum (root_left (tree v1)) 0 v1);
              v3 = v2\<lparr>nViewRows := count (tree v2), totalOfViewRows := totalOfViewRows v2 + count (tree v2)\<rparr>
          in (ADC_OK, init_tree v3)))"

section \<open>Forming the runs\<close>

definition add_chunk :: "int \<Rightarrow> ADC_VIEW_CNTL \<Rightarrow> ADC_VIEW_CNTL" where
  "add_chunk off v =
    v\<lparr>chunksParams := (chunksParams v)[numberOfChunks v :=
        (chunksParams v ! numberOfChunks v)\<lparr>curChunkNum := unat (count (tree v)), chunkOffset := off\<rparr>],
      numberOfChunks := Suc (numberOfChunks v)\<rparr>"

fun run_loop :: "(nat \<Rightarrow> bool) \<Rightarrow> drec list \<Rightarrow> int \<Rightarrow> ADC_VIEW_CNTL \<Rightarrow> int \<times> int \<times> ADC_VIEW_CNTL" where
  "run_loop wr [] off v = (ADC_OK, off, v)"
| "run_loop wr (r # rs) off v =
    (let v1 = insert_row r v
     in if memoryIsFull (tree v1) = 0 then run_loop wr rs off v1
        else
          (let v2 = add_chunk off v1
           in if numberOfChunks v2 \<ge> MAX_NUM_OF_CHUNKS then (ADC_INTERNAL_ERROR, off, v2)
              else
                (let off2 = off + int (unat (count (tree v2) * outRecSize v2))
                 in case WriteChunkToDisk wr (root_left (tree v2)) v2 of (ret, v3) \<Rightarrow>
                      if ret \<noteq> 0 then (ADC_WRITE_FAILED, off2, v3)
                      else run_loop wr rs off2 (init_tree v3))))"

definition RunFormation :: "(nat \<Rightarrow> bool) \<Rightarrow> drec list \<Rightarrow> ADC_VIEW_CNTL \<Rightarrow> int \<times> ADC_VIEW_CNTL" where
  "RunFormation wr inp v =
    (case run_loop wr inp 0 (init_tree v) of (ret, off, v1) \<Rightarrow>
       if ret \<noteq> 0 then (ret, v1)
       else if numberOfChunks v1 \<noteq> 0 \<and> count (tree v1) \<noteq> 0 then
         (case WriteChunkToDisk wr (root_left (tree v1)) (add_chunk off v1) of (ret2, v2) \<Rightarrow>
            if ret2 \<noteq> 0 then (ADC_WRITE_FAILED, v2) else (ADC_OK, v2))
       else (ADC_OK, v1))"

section \<open>Merging the runs\<close>

text \<open>
  \<^verbatim>\<open>SeekAndReadNextSubChunk\<close>: \<open>num\<close> records of the chunk file, from the byte offset
  \<open>offs\<close>, go to the buffer from position \<open>k\<close> on; a negative offset fails to seek and ends
  the program (\<open>None\<close>).
\<close>

definition SeekAndReadNextSubChunk ::
  "(nat \<Rightarrow> drec) \<Rightarrow> nat \<Rightarrow> drec list \<Rightarrow> nat \<Rightarrow> int \<Rightarrow> nat \<Rightarrow> (nat \<Rightarrow> drec) option" where
  "SeekAndReadNextSubChunk buf k file recSize offs num =
    (if offs < 0 then None
     else Some (\<lambda>j. if k \<le> j \<and> j < k + num then file ! (nat offs div recSize + (j - k)) else buf j))"

definition ReadSubChunk ::
  "nat \<Rightarrow> nat \<Rightarrow> nat \<Rightarrow> drec list \<Rightarrow> (nat \<Rightarrow> drec) \<times> CHUNKS list \<Rightarrow> ((nat \<Rightarrow> drec) \<times> CHUNKS list) option" where
  "ReadSubChunk recSize reg i file bc =
    (case bc of (buf, chunks) \<Rightarrow>
      (let c = chunks ! i
       in if curChunkNum c > 0 then
            (if curChunkNum c < reg then
               map_option (\<lambda>b. (b, chunks[i := c\<lparr>posSubChunk := reg - curChunkNum c,
                   curSubChunk := curChunkNum c, curChunkNum := 0, chunkOffset := -1\<rparr>]))
                 (SeekAndReadNextSubChunk buf (i * reg + (reg - curChunkNum c)) file recSize
                   (chunkOffset c) (curChunkNum c))
             else
               map_option (\<lambda>b. (b, chunks[i := c\<lparr>posSubChunk := 0, curSubChunk := reg,
                   curChunkNum := curChunkNum c - reg,
                   chunkOffset := chunkOffset c + int (reg * recSize)\<rparr>]))
                 (SeekAndReadNextSubChunk buf (i * reg) file recSize (chunkOffset c) reg))
          else Some (buf, chunks)))"

fun read_all :: "nat \<Rightarrow> nat \<Rightarrow> nat list \<Rightarrow> drec list \<Rightarrow> (nat \<Rightarrow> drec) \<times> CHUNKS list \<Rightarrow>
    ((nat \<Rightarrow> drec) \<times> CHUNKS list) option" where
  "read_all recSize reg [] file bc = Some bc"
| "read_all recSize reg (i # is) file bc =
    (case ReadSubChunk recSize reg i file bc of
       None \<Rightarrow> None
     | Some bc' \<Rightarrow> read_all recSize reg is file bc')"

text \<open>
  The choice of the next record: the first chunk with buffered records, then every later
  one with a smaller key. \<open>None\<close> stands for the undefined case that no chunk has a record.
\<close>

definition chunk_head :: "nat \<Rightarrow> (nat \<Rightarrow> drec) \<Rightarrow> CHUNKS list \<Rightarrow> nat \<Rightarrow> drec" where
  "chunk_head reg buf chunks i = buf (i * reg + posSubChunk (chunks ! i))"

fun scan_min :: "nat \<Rightarrow> nat \<Rightarrow> (nat \<Rightarrow> drec) \<Rightarrow> CHUNKS list \<Rightarrow> nat list \<Rightarrow> drec \<times> nat \<Rightarrow> drec \<times> nat" where
  "scan_min nv reg buf chunks [] m = m"
| "scan_min nv reg buf chunks (i # is) m =
    (if curSubChunk (chunks ! i) > 0 \<and>
        KeyComp (dr_dims (chunk_head reg buf chunks i)) (dr_dims (fst m)) nv < 0
     then scan_min nv reg buf chunks is (chunk_head reg buf chunks i, i)
     else scan_min nv reg buf chunks is m)"

definition merge_pick :: "nat \<Rightarrow> nat \<Rightarrow> nat \<Rightarrow> (nat \<Rightarrow> drec) \<Rightarrow> CHUNKS list \<Rightarrow> (drec \<times> nat) option" where
  "merge_pick nv reg n buf chunks =
    (case List.find (\<lambda>i. curSubChunk (chunks ! i) > 0) [0..<n] of
       None \<Rightarrow> None
     | Some i \<Rightarrow> Some (scan_min nv reg buf chunks [i..<n] (chunk_head reg buf chunks i, i)))"

text \<open>
  The checksum of the merge: the row number times the measure, as a signed product and
  remainder.
\<close>

definition merge_checks :: "drec \<Rightarrow> ADC_VIEW_CNTL \<Rightarrow> ADC_VIEW_CNTL" where
  "merge_checks r v =
    v\<lparr>checksums := map (\<lambda>i. checksums v ! i +
          word_of_int (c_mod (sint (ucast (nViewRows v) * dr_meas r ! i)) (int measbound)))
        [0..<nm_of v]\<rparr>"

definition merge_out :: "(nat \<Rightarrow> bool) \<Rightarrow> drec \<Rightarrow> ADC_VIEW_CNTL \<Rightarrow> int \<times> ADC_VIEW_CNTL" where
  "merge_out wr r v =
    (case write_view wr r v of (ret, v1) \<Rightarrow>
       if ret \<noteq> 0 then (ADC_WRITE_FAILED, v1)
       else (ADC_OK, merge_checks r (add_sums r (v1\<lparr>nViewRows := nViewRows v1 + 1\<rparr>))))"

text \<open>Aggregation of the chosen record with the output buffer (\<open>None\<close> before the first one).\<close>

definition merge_agg ::
  "(nat \<Rightarrow> bool) \<Rightarrow> drec \<Rightarrow> drec option \<Rightarrow> ADC_VIEW_CNTL \<Rightarrow> int \<times> drec \<times> ADC_VIEW_CNTL" where
  "merge_agg wr r outp v =
    (case outp of
       None \<Rightarrow> (ADC_OK, r, v)
     | Some q \<Rightarrow>
         if KeyComp (dr_dims q) (dr_dims r) (nv_of v) = 0 then (ADC_OK, acc_rec q r, v)
         else (case merge_out wr q v of (ret, v1) \<Rightarrow>
                 if ret \<noteq> 0 then (ret, q, v1) else (ADC_OK, r, v1)))"

definition step_chunk :: "nat \<Rightarrow> CHUNKS list \<Rightarrow> CHUNKS list" where
  "step_chunk k chunks =
    (let c = chunks ! k
     in if curSubChunk c \<noteq> 0
        then chunks[k := c\<lparr>curSubChunk := curSubChunk c - 1, posSubChunk := posSubChunk c + 1\<rparr>]
        else chunks)"

text \<open>
  The loop, with fuel. \<open>None\<close>: out of fuel, the undefined choice, or the exit of a failed
  seek.
\<close>

fun merge_loop ::
  "(nat \<Rightarrow> bool) \<Rightarrow> nat \<Rightarrow> nat \<Rightarrow> (nat \<Rightarrow> drec) \<Rightarrow> drec option \<Rightarrow> ADC_VIEW_CNTL \<Rightarrow>
    (int \<times> drec \<times> ADC_VIEW_CNTL) option" where
  "merge_loop wr reg 0 buf outp v = None"
| "merge_loop wr reg (Suc fuel) buf outp v =
    (case merge_pick (nv_of v) reg (numberOfChunks v) buf (chunksParams v) of
       None \<Rightarrow> None
     | Some (r, k) \<Rightarrow>
         (case merge_agg wr r outp (v\<lparr>chunksParams := step_chunk k (chunksParams v)\<rparr>) of (ret, q, v1) \<Rightarrow>
            if ret \<noteq> 0 then Some (ret, q, v1)
            else if list_all (\<lambda>c. curSubChunk c = 0 \<and> curChunkNum c = 0) (take (numberOfChunks v1) (chunksParams v1))
            then Some (ADC_OK, q, v1)
            else if curSubChunk (chunksParams v1 ! k) = 0 then
              (case ReadSubChunk (unat (outRecSize v1)) reg k (fileOfChunks v1) (buf, chunksParams v1) of
                 None \<Rightarrow> None
               | Some (buf2, chunks2) \<Rightarrow> merge_loop wr reg fuel buf2 (Some q) (v1\<lparr>chunksParams := chunks2\<rparr>))
            else merge_loop wr reg fuel buf (Some q) v1))"

definition merge_fuel :: "ADC_VIEW_CNTL \<Rightarrow> nat" where
  "merge_fuel v = sum_list (map curChunkNum (take (numberOfChunks v) (chunksParams v)))"

definition MultiWayMerge :: "(nat \<Rightarrow> bool) \<Rightarrow> (nat \<Rightarrow> drec) \<Rightarrow> ADC_VIEW_CNTL \<Rightarrow> (int \<times> ADC_VIEW_CNTL) option" where
  "MultiWayMerge wr pool v =
    (let recSize = unat (outRecSize v);
         reg = unat (v_memoryLimit v) div numberOfChunks v div recSize;
         v0 = v\<lparr>nViewRows := 0\<rparr>
     in if reg = 0 then Some (ADC_INTERNAL_ERROR, v0)
        else
          (case read_all recSize reg [0..<numberOfChunks v] (fileOfChunks v) (pool, chunksParams v) of
             None \<Rightarrow> None
           | Some (buf, chunks) \<Rightarrow>
               (case merge_loop wr reg (merge_fuel v) buf None (v0\<lparr>chunksParams := chunks\<rparr>) of
                  None \<Rightarrow> None
                | Some (ret, q, v1) \<Rightarrow>
                    if ret \<noteq> 0 then Some (ret, v1)
                    else (case merge_out wr q v1 of (ret2, v2) \<Rightarrow>
                            if ret2 \<noteq> 0 then Some (ret2, v2)
                            else Some (ADC_OK, v2\<lparr>totalOfViewRows := totalOfViewRows v2 + nViewRows v2\<rparr>)))))"

text \<open>
  The part of \<^verbatim>\<open>ComputeGivenGroupbys\<close> that builds one view (without \<^verbatim>\<open>IN_CORE\<close> and
  \<^verbatim>\<open>OPTIMIZATION\<close>): runs, then either the tree that fits or the merge.
\<close>

definition compute_view :: "(nat \<Rightarrow> bool) \<Rightarrow> (nat \<Rightarrow> drec) \<Rightarrow> drec list \<Rightarrow> ADC_VIEW_CNTL \<Rightarrow> (int \<times> ADC_VIEW_CNTL) option" where
  "compute_view wr pool inp v =
    (case RunFormation wr inp v of (ret, v1) \<Rightarrow>
       if ret \<noteq> ADC_OK then Some (ret, v1)
       else if numberOfChunks v1 = 0 then
         (let v2 = v1\<lparr>nViewRows := count (tree v1), totalOfViewRows := totalOfViewRows v1 + count (tree v1)\<rparr>
          in case WriteViewToDiskCS wr (root_left (tree v2)) 0 v2 of (ret2, _, v3) \<Rightarrow>
               if ret2 \<noteq> ADC_OK then Some (ADC_WRITE_FAILED, v3) else Some (ADC_OK, v3))
       else MultiWayMerge wr pool v1)"

end
