(* ===== verification/Cube_Sort.thy ===== *)
theory Cube_Sort
  imports Cube_Views
begin

text \<open>
  Correctness of the computation of a view: the traversals write the rows of the tree in
  order, the runs of \<^verbatim>\<open>RunFormation\<close> are the views of consecutive parts of the input, and
  \<^verbatim>\<open>MultiWayMerge\<close> joins them into the view of the whole. The merge is related to a list
  of lists of remaining rows: what a chunk has left is its buffered records followed by its
  part of the chunk file.
\<close>

section \<open>Traversals\<close>

definition put_chunks :: "drec list \<Rightarrow> ADC_VIEW_CNTL \<Rightarrow> ADC_VIEW_CNTL" where
  "put_chunks rs v = v\<lparr>writes := writes v + length rs, fileOfChunks := fileOfChunks v @ rs\<rparr>"

lemma WriteChunkToDisk_ok:
  "(\<forall>n. wr n) \<Longrightarrow> WriteChunkToDisk wr t v = (ADC_OK, put_chunks (rows t) v)"
  by (induction t arbitrary: v) (simp_all add: write_chunk_def put_chunks_def adc_codes)

definition put_row_cs :: "drec \<Rightarrow> u64 \<times> ADC_VIEW_CNTL \<Rightarrow> u64 \<times> ADC_VIEW_CNTL" where
  "put_row_cs d ov =
    (fst ov + ucast (v_nm (snd ov)),
     (add_checks (fst ov) d (add_sums d (snd ov)))
       \<lparr>writes := Suc (writes (snd ov)), viewFile := viewFile (snd ov) @ [d]\<rparr>)"

lemma add_sums_frame [simp]:
  "v_nm (add_sums d v) = v_nm v" "v_nv (add_sums d v) = v_nv v" "writes (add_sums d v) = writes v"
  "viewFile (add_sums d v) = viewFile v" "nViewRows (add_sums d v) = nViewRows v"
  "checksums (add_sums d v) = checksums v" "totalOfViewRows (add_sums d v) = totalOfViewRows v"
  "tree (add_sums d v) = tree v" "numberOfChunks (add_sums d v) = numberOfChunks v"
  "mSums (add_sums d v) = add_meas (mSums v) (dr_meas d)"
  by (simp_all add: add_sums_def)

lemma add_checks_frame [simp]:
  "v_nm (add_checks k d v) = v_nm v" "v_nv (add_checks k d v) = v_nv v"
  "writes (add_checks k d v) = writes v" "viewFile (add_checks k d v) = viewFile v"
  "nViewRows (add_checks k d v) = nViewRows v" "mSums (add_checks k d v) = mSums v"
  "totalOfViewRows (add_checks k d v) = totalOfViewRows v" "tree (add_checks k d v) = tree v"
  "numberOfChunks (add_checks k d v) = numberOfChunks v"
  by (simp_all add: add_checks_def)

lemma put_row_cs_frame [simp]: "v_nm (snd (put_row_cs d ov)) = v_nm (snd ov)"
  "viewFile (snd (put_row_cs d ov)) = viewFile (snd ov) @ [d]"
  "mSums (snd (put_row_cs d ov)) = add_meas (mSums (snd ov)) (dr_meas d)"
  "nViewRows (snd (put_row_cs d ov)) = nViewRows (snd ov)"
  "totalOfViewRows (snd (put_row_cs d ov)) = totalOfViewRows (snd ov)"
  by (simp_all add: put_row_cs_def)

lemma put_row_cs_pair:
  "put_row_cs d (k, v) = (k + ucast (v_nm v),
     (add_checks k d (add_sums d v))\<lparr>writes := Suc (writes v), viewFile := viewFile v @ [d]\<rparr>)"
  by (simp add: put_row_cs_def)

lemma fold_put_row_cs_frame [simp]:
  "v_nm (snd (fold put_row_cs rs ov)) = v_nm (snd ov)"
  "viewFile (snd (fold put_row_cs rs ov)) = viewFile (snd ov) @ rs"
  "nViewRows (snd (fold put_row_cs rs ov)) = nViewRows (snd ov)"
  "totalOfViewRows (snd (fold put_row_cs rs ov)) = totalOfViewRows (snd ov)"
  by (induction rs arbitrary: ov) simp_all

lemma WriteViewToDiskCS_ok:
  "(\<forall>n. wr n) \<Longrightarrow> WriteViewToDiskCS wr t k v =
    (ADC_OK, fst (fold put_row_cs (rows t) (k, v)), snd (fold put_row_cs (rows t) (k, v)))"
proof (induction t arbitrary: k v)
  case (TN a b c d)
  obtain k1 v1 where L: "fold put_row_cs (rows a) (k, v) = (k1, v1)" by fastforce
  have nm: "v_nm v1 = v_nm v" using fold_put_row_cs_frame(1) [of "rows a" "(k, v)"] by (simp add: L)
  show ?case
    using TN nm by (simp add: L write_view_def put_row_cs_pair adc_codes)
qed (simp add: adc_codes)

text \<open>Sums and checksums of a sequence of rows.\<close>

lemma fold_add_meas:
  assumes "length s = nm" "list_all (rec_ok nd nm) rs"
  shows "fold (\<lambda>d s. add_meas s (dr_meas d)) rs s = add_meas s (meas_sum nm rs)"
  using assms
proof (induction rs rule: rev_induct)
  case Nil
  then show ?case by (intro nth_equalityI) (simp_all add: meas_sum_def)
next
  case (snoc r rs)
  then have "length (dr_meas r) = nm" by (simp add: rec_ok_def)
  with snoc show ?case
    by (intro nth_equalityI) (simp_all add: meas_sum_def add.assoc)
qed

lemma mSums_put_row_cs:
  "mSums (snd (fold put_row_cs rs ov)) = fold (\<lambda>d s. add_meas s (dr_meas d)) rs (mSums (snd ov))"
  by (induction rs arbitrary: ov) simp_all

text \<open>The checksum contribution of row \<open>j\<close> in measure \<open>i\<close>, for the traversals.\<close>

definition cs_term :: "u64 \<Rightarrow> nat \<Rightarrow> drec list \<Rightarrow> nat \<Rightarrow> nat \<Rightarrow> u64" where
  "cs_term k nm rs i j = ((k + of_nat (j * nm + Suc i)) * dr_meas (rs ! j) ! i) mod of_nat measbound"

lemma cs_term_last:
  "cs_term k nm (rs @ [r]) i (length rs) =
    ((k + of_nat (length rs * nm) + of_nat (Suc i)) * dr_meas r ! i) mod of_nat measbound"
  by (simp add: cs_term_def algebra_simps)

lemma fold_put_row_cs_order:
  "fst (fold put_row_cs rs (k, v)) = k + of_nat (length rs * nm_of v)"
proof (induction rs rule: rev_induct)
  case (snoc r rs)
  obtain k1 v1 where L: "fold put_row_cs rs (k, v) = (k1, v1)" by fastforce
  have "v_nm v1 = v_nm v" using fold_put_row_cs_frame(1) [of rs "(k, v)"] by (simp add: L)
  with snoc show ?case by (simp add: L put_row_cs_pair algebra_simps)
qed simp

lemma checksums_put_row_cs:
  assumes "length (checksums v) = nm_of v"
  shows "checksums (snd (fold put_row_cs rs (k, v))) =
    map (\<lambda>i. checksums v ! i + (\<Sum>j\<leftarrow>[0..<length rs]. cs_term k (nm_of v) rs i j)) [0..<nm_of v]"
proof (induction rs rule: rev_induct)
  case Nil
  show ?case by (rule nth_equalityI) (simp_all add: assms)
next
  case (snoc r rs)
  have eq: "(\<Sum>j\<leftarrow>[0..<length rs]. cs_term k (nm_of v) (rs @ [r]) i j) =
      (\<Sum>j\<leftarrow>[0..<length rs]. cs_term k (nm_of v) rs i j)" for i
    by (intro arg_cong [of _ _ sum_list] map_cong) (auto simp: cs_term_def nth_append)
  obtain k1 v1 where L: "fold put_row_cs rs (k, v) = (k1, v1)" by fastforce
  have "v_nm v1 = v_nm v" using fold_put_row_cs_frame(1) [of rs "(k, v)"] by (simp add: L)
  moreover have "k1 = k + of_nat (length rs * nm_of v)" using fold_put_row_cs_order [of rs k v] by (simp add: L)
  ultimately show ?case
    using snoc unfolding length_append_singleton upt_Suc_append [OF le0] map_append sum_list_append eq
    by (simp add: L put_row_cs_pair add_checks_def cs_term_last add.assoc del: of_nat_Suc)
qed

section \<open>Chunks and what they have left\<close>

definition buffered :: "nat \<Rightarrow> (nat \<Rightarrow> drec) \<Rightarrow> nat \<Rightarrow> CHUNKS \<Rightarrow> drec list" where
  "buffered reg buf i c = map (\<lambda>j. buf (i * reg + j)) [posSubChunk c..<posSubChunk c + curSubChunk c]"

definition on_file :: "nat \<Rightarrow> drec list \<Rightarrow> CHUNKS \<Rightarrow> drec list" where
  "on_file recSize file c = take (curChunkNum c) (drop (nat (chunkOffset c) div recSize) file)"

definition file_ok :: "nat \<Rightarrow> drec list \<Rightarrow> CHUNKS \<Rightarrow> bool" where
  "file_ok recSize file c \<longleftrightarrow> (curChunkNum c > 0 \<longrightarrow> chunkOffset c \<ge> 0 \<and>
     nat (chunkOffset c) div recSize + curChunkNum c \<le> length file)"

definition chunk_ok :: "nat \<Rightarrow> nat \<Rightarrow> drec list \<Rightarrow> CHUNKS \<Rightarrow> bool" where
  "chunk_ok reg recSize file c \<longleftrightarrow> file_ok recSize file c \<and>
     (curSubChunk c > 0 \<longrightarrow> posSubChunk c + curSubChunk c = reg) \<and>
     (curSubChunk c = 0 \<longrightarrow> curChunkNum c = 0)"

definition chunk_rest :: "nat \<Rightarrow> nat \<Rightarrow> drec list \<Rightarrow> (nat \<Rightarrow> drec) \<Rightarrow> nat \<Rightarrow> CHUNKS \<Rightarrow> drec list" where
  "chunk_rest reg recSize file buf i c = buffered reg buf i c @ on_file recSize file c"

definition same_outside :: "nat \<Rightarrow> nat \<Rightarrow> (nat \<Rightarrow> drec) \<Rightarrow> (nat \<Rightarrow> drec) \<Rightarrow> bool" where
  "same_outside reg i buf buf' \<longleftrightarrow> (\<forall>j. j < i * reg \<or> i * reg + reg \<le> j \<longrightarrow> buf' j = buf j)"

text \<open>One read moves the next part of a chunk from the file to its own part of the buffer.\<close>

lemma ReadSubChunk_ok:
  assumes ok: "file_ok recSize file (chunks ! i)" and pos: "0 < reg" "0 < recSize"
    and i: "i < length chunks" and some: "0 < curChunkNum (chunks ! i)"
  obtains buf' c' where
    "ReadSubChunk recSize reg i file (buf, chunks) = Some (buf', chunks[i := c'])"
    "chunk_ok reg recSize file c'" "same_outside reg i buf buf'"
    "chunk_rest reg recSize file buf' i c' = on_file recSize file (chunks ! i)" "0 < curSubChunk c'"
proof -
  define c where "c = chunks ! i"
  define fo where "fo = nat (chunkOffset c) div recSize"
  from ok some have off: "chunkOffset c \<ge> 0" "fo + curChunkNum c \<le> length file"
    by (simp_all add: file_ok_def c_def fo_def)
  have seg: "map (\<lambda>j. file ! (fo + (j - a))) [a..<a + n] = take n (drop fo file)"
    if "fo + n \<le> length file" for a n
    by (rule nth_equalityI) (use that in simp_all)
  show thesis
  proof (cases "curChunkNum c < reg")
    case True
    let ?p = "reg - curChunkNum c"
    let ?b = "\<lambda>j. if i * reg + ?p \<le> j \<and> j < i * reg + ?p + curChunkNum c
        then file ! (fo + (j - (i * reg + ?p))) else buf j"
    let ?c = "c\<lparr>posSubChunk := ?p, curSubChunk := curChunkNum c, curChunkNum := 0, chunkOffset := -1\<rparr>"
    have "map (\<lambda>j. ?b (i * reg + j)) [?p..<?p + curChunkNum c] =
        map (\<lambda>j. file ! (fo + (j - ?p))) [?p..<?p + curChunkNum c]"
      by (rule map_cong) auto
    with seg [OF off(2)] have "buffered reg ?b i ?c = on_file recSize file c"
      by (simp add: buffered_def on_file_def fo_def)
    then show thesis
      by (intro that [of ?b ?c])
        (use True some off pos i in \<open>auto simp: ReadSubChunk_def SeekAndReadNextSubChunk_def Let_def
          chunk_ok_def file_ok_def same_outside_def chunk_rest_def c_def [symmetric] fo_def [symmetric] on_file_def\<close>)
  next
    case False
    let ?b = "\<lambda>j. if i * reg \<le> j \<and> j < i * reg + reg then file ! (fo + (j - i * reg)) else buf j"
    let ?c = "c\<lparr>posSubChunk := 0, curSubChunk := reg, curChunkNum := curChunkNum c - reg,
        chunkOffset := chunkOffset c + int (reg * recSize)\<rparr>"
    have fo': "nat (chunkOffset c + int (reg * recSize)) div recSize = fo + reg"
      using off(1) pos by (simp add: nat_add_distrib fo_def nat_mult_distrib del: of_nat_mult)
    have split: "take reg (drop fo file) @ take (curChunkNum c - reg) (drop (fo + reg) file) =
        take (curChunkNum c) (drop fo file)"
      using False take_add [of reg "curChunkNum c - reg" "drop fo file"] by (simp add: add.commute)
    have "map (\<lambda>j. ?b (i * reg + j)) [0..<reg] = map (\<lambda>j. file ! (fo + (j - 0))) [0..<0 + reg]"
      by (rule map_cong) auto
    also have "\<dots> = take reg (drop fo file)" by (rule seg) (use off False in simp)
    finally have "buffered reg ?b i ?c @ on_file recSize file ?c = on_file recSize file c"
      using split fo' by (simp add: buffered_def on_file_def fo_def [symmetric])
    then show thesis
      by (intro that [of ?b ?c])
        (use False some off pos i fo' in \<open>auto simp: ReadSubChunk_def SeekAndReadNextSubChunk_def Let_def
          chunk_ok_def file_ok_def same_outside_def chunk_rest_def c_def [symmetric] fo_def [symmetric]\<close>)
  qed
qed

text \<open>The whole array of chunks against the list of what each has left.\<close>

definition chunks_rel ::
  "nat \<Rightarrow> nat \<Rightarrow> drec list \<Rightarrow> (nat \<Rightarrow> drec) \<Rightarrow> CHUNKS list \<Rightarrow> drec list list \<Rightarrow> bool" where
  "chunks_rel reg recSize file buf chunks gs \<longleftrightarrow> length gs \<le> length chunks \<and>
    (\<forall>i < length gs. chunk_ok reg recSize file (chunks ! i) \<and>
       chunk_rest reg recSize file buf i (chunks ! i) = gs ! i)"

lemma chunk_rest_outside:
  assumes "same_outside reg k buf buf'" "chunk_ok reg recSize file c" "i \<noteq> k"
  shows "chunk_rest reg recSize file buf' i c = chunk_rest reg recSize file buf i c"
proof -
  have "buf' (i * reg + j) = buf (i * reg + j)" if "j < reg" for j
  proof -
    from assms(3) consider "Suc i \<le> k" | "Suc k \<le> i" by linarith
    then have "i * reg + j < k * reg \<or> k * reg + reg \<le> i * reg + j"
    proof cases
      case 1
      then have "Suc i * reg \<le> k * reg" by (rule mult_le_mono1)
      with that show ?thesis by simp
    next
      case 2
      then have "Suc k * reg \<le> i * reg" by (rule mult_le_mono1)
      then show ?thesis by simp
    qed
    with assms(1) show ?thesis unfolding same_outside_def by blast
  qed
  then have "buffered reg buf' i c = buffered reg buf i c"
    using assms(2) by (cases "curSubChunk c = 0") (auto simp: buffered_def chunk_ok_def)
  then show ?thesis by (simp add: chunk_rest_def)
qed

text \<open>Filling the buffer at the start.\<close>

lemma read_all_ok:
  assumes "0 < reg" "0 < recSize" "distinct is"
    and "\<forall>i \<in> set is. i < length chunks \<and> file_ok recSize file (chunks ! i) \<and> 0 < curChunkNum (chunks ! i)"
  shows "\<exists>buf' chunks'. read_all recSize reg is file (buf, chunks) = Some (buf', chunks') \<and>
    length chunks' = length chunks \<and>
    (\<forall>i \<in> set is. chunk_ok reg recSize file (chunks' ! i) \<and>
       chunk_rest reg recSize file buf' i (chunks' ! i) = on_file recSize file (chunks ! i)) \<and>
    (\<forall>i. i \<notin> set is \<longrightarrow> chunks' ! i = chunks ! i \<and>
       (\<forall>c. chunk_ok reg recSize file c \<longrightarrow>
          chunk_rest reg recSize file buf' i c = chunk_rest reg recSize file buf i c))"
  using assms(3,4)
proof (induction "is" arbitrary: buf chunks)
  case (Cons i "is")
  then have i: "file_ok recSize file (chunks ! i)" "i < length chunks" "0 < curChunkNum (chunks ! i)"
    and rest: "i \<notin> set is" "distinct is" by simp_all
  obtain b c where r: "ReadSubChunk recSize reg i file (buf, chunks) = Some (b, chunks[i := c])"
    "chunk_ok reg recSize file c" "same_outside reg i buf b"
    "chunk_rest reg recSize file b i c = on_file recSize file (chunks ! i)" "0 < curSubChunk c"
    by (rule ReadSubChunk_ok [where buf = buf, OF i(1) assms(1,2) i(2,3)])
  have ne: "chunks[i := c] ! j = chunks ! j" if "j \<in> set is" for j
    using that rest by (metis nth_list_update_neq)
  have "\<forall>j \<in> set is. j < length (chunks[i := c]) \<and> file_ok recSize file (chunks[i := c] ! j) \<and>
      0 < curChunkNum (chunks[i := c] ! j)"
    using Cons.prems(2) ne by simp
  from Cons.IH [OF rest(2) this, of b] obtain buf' chunks' where IH:
    "read_all recSize reg is file (b, chunks[i := c]) = Some (buf', chunks')"
    "length chunks' = length chunks"
    "\<forall>j \<in> set is. chunk_ok reg recSize file (chunks' ! j) \<and>
       chunk_rest reg recSize file buf' j (chunks' ! j) = on_file recSize file (chunks[i := c] ! j)"
    "\<And>j. j \<notin> set is \<Longrightarrow> chunks' ! j = chunks[i := c] ! j \<and>
       (\<forall>c. chunk_ok reg recSize file c \<longrightarrow>
          chunk_rest reg recSize file buf' j c = chunk_rest reg recSize file b j c)"
    by auto
  have "chunks' ! i = c" using IH(4) [OF rest(1)] i(2) by simp
  then have "chunk_rest reg recSize file buf' i (chunks' ! i) = on_file recSize file (chunks ! i)"
    using IH(4) [OF rest(1)] r by simp
  moreover have "chunk_rest reg recSize file buf' j c' = chunk_rest reg recSize file buf j c'"
    if "j \<notin> set (i # is)" "chunk_ok reg recSize file c'" for j c'
    using IH(4) [of j] that chunk_rest_outside [OF r(3) that(2)] by simp
  ultimately show ?case
    using IH r(1,2) ne \<open>chunks' ! i = c\<close>
    by (intro exI [of _ buf'] exI [of _ chunks']) (auto simp: nth_list_update)
qed simp

section \<open>One round of the merge\<close>

lemma chunk_head_rest:
  assumes "chunk_ok reg recSize file (chunks ! i)" "0 < curSubChunk (chunks ! i)"
  shows "chunk_rest reg recSize file buf i (chunks ! i) =
    chunk_head reg buf chunks i # map (\<lambda>j. buf (i * reg + j)) [Suc (posSubChunk (chunks ! i))..<posSubChunk (chunks ! i) + curSubChunk (chunks ! i)] @
      on_file recSize file (chunks ! i)"
  using assms by (simp add: chunk_rest_def buffered_def chunk_head_def upt_conv_Cons)

lemma rest_empty_iff:
  "chunk_ok reg recSize file c \<Longrightarrow> chunk_rest reg recSize file buf i c = [] \<longleftrightarrow> curSubChunk c = 0"
  by (auto simp: chunk_ok_def chunk_rest_def buffered_def on_file_def)

lemma scan_min_ok:
  assumes "\<forall>i \<in> set is. curSubChunk (chunks ! i) > 0 \<longrightarrow> length (dr_dims (chunk_head reg buf chunks i)) = nv"
    and "length (dr_dims (chunk_head reg buf chunks k)) = nv" "0 < curSubChunk (chunks ! k)"
  shows "\<exists>k'. scan_min nv reg buf chunks is (chunk_head reg buf chunks k, k) = (chunk_head reg buf chunks k', k') \<and>
    (k' = k \<or> k' \<in> set is) \<and> 0 < curSubChunk (chunks ! k') \<and>
    (\<forall>i \<in> insert k (set is). curSubChunk (chunks ! i) > 0 \<longrightarrow>
       dr_dims (chunk_head reg buf chunks k') \<le> dr_dims (chunk_head reg buf chunks i))"
  using assms
proof (induction "is" arbitrary: k)
  case (Cons i "is")
  let ?h = "chunk_head reg buf chunks"
  show ?case
  proof (cases "curSubChunk (chunks ! i) > 0 \<and> KeyComp (dr_dims (?h i)) (dr_dims (?h k)) nv < 0")
    case True
    with Cons.prems have lt: "dr_dims (?h i) < dr_dims (?h k)"
      by (auto simp: KeyComp_lex split: if_splits)
    obtain k' where k': "scan_min nv reg buf chunks is (?h i, i) = (?h k', k')" "k' = i \<or> k' \<in> set is"
      "0 < curSubChunk (chunks ! k')"
      "\<forall>j \<in> insert i (set is). curSubChunk (chunks ! j) > 0 \<longrightarrow> dr_dims (?h k') \<le> dr_dims (?h j)"
      using Cons.IH [of i] Cons.prems True by auto
    then have "dr_dims (?h k') \<le> dr_dims (?h k)" using lt True by auto
    with k' True show ?thesis by auto
  next
    case False
    obtain k' where k': "scan_min nv reg buf chunks is (?h k, k) = (?h k', k')" "k' = k \<or> k' \<in> set is"
      "0 < curSubChunk (chunks ! k')"
      "\<forall>j \<in> insert k (set is). curSubChunk (chunks ! j) > 0 \<longrightarrow> dr_dims (?h k') \<le> dr_dims (?h j)"
      using Cons.IH [of k] Cons.prems by auto
    have "dr_dims (?h k') \<le> dr_dims (?h i)" if "curSubChunk (chunks ! i) > 0"
    proof -
      from that False Cons.prems have "\<not> dr_dims (?h i) < dr_dims (?h k)"
        by (auto simp: KeyComp_lex split: if_splits)
      with k'(4) Cons.prems(3) show ?thesis by (meson insertI1 not_less order_trans)
    qed
    with k' False show ?thesis by auto
  qed
qed auto

lemma merge_pick_ok:
  assumes rel: "chunks_rel reg recSize file buf chunks gs"
    and dims: "\<forall>g \<in> set gs. \<forall>r \<in> set g. length (dr_dims r) = nv"
    and some: "\<exists>i < length gs. gs ! i \<noteq> []"
  shows "\<exists>k < length gs. merge_pick nv reg (length gs) buf chunks = Some (hd (gs ! k), k) \<and> gs ! k \<noteq> [] \<and>
    (\<forall>i < length gs. gs ! i \<noteq> [] \<longrightarrow> dr_dims (hd (gs ! k)) \<le> dr_dims (hd (gs ! i)))"
proof -
  let ?n = "length gs" and ?h = "chunk_head reg buf chunks"
  have ok: "chunk_ok reg recSize file (chunks ! i)" "chunk_rest reg recSize file buf i (chunks ! i) = gs ! i"
    if "i < ?n" for i using rel that by (simp_all add: chunks_rel_def)
  have live: "curSubChunk (chunks ! i) > 0 \<longleftrightarrow> gs ! i \<noteq> []" if "i < ?n" for i
    using rest_empty_iff [OF ok(1) [OF that], of buf i] ok(2) [OF that] by simp
  have head: "?h i = hd (gs ! i)" if "i < ?n" "gs ! i \<noteq> []" for i
    using chunk_head_rest [OF ok(1) [OF that(1)], of buf] live [OF that(1)] that(2) ok(2) [OF that(1)] by simp
  have len: "length (dr_dims (?h i)) = nv" if "i < ?n" "curSubChunk (chunks ! i) > 0" for i
    using that dims head live by (metis list.set_sel(1) nth_mem)
  obtain i0 where "List.find (\<lambda>i. curSubChunk (chunks ! i) > 0) [0..<?n] = Some i0"
    using some live by (cases "List.find (\<lambda>i. curSubChunk (chunks ! i) > 0) [0..<?n]")
      (auto simp: find_none_iff)
  moreover from this have i0: "i0 < ?n" "curSubChunk (chunks ! i0) > 0"
    "\<forall>j < i0. curSubChunk (chunks ! j) = 0"
    by (auto simp: find_Some_iff)
  moreover obtain k where k: "scan_min nv reg buf chunks [i0..<?n] (?h i0, i0) = (?h k, k)"
    "k = i0 \<or> k \<in> set [i0..<?n]" "0 < curSubChunk (chunks ! k)"
    "\<forall>i \<in> insert i0 (set [i0..<?n]). curSubChunk (chunks ! i) > 0 \<longrightarrow> dr_dims (?h k) \<le> dr_dims (?h i)"
    using scan_min_ok [of "[i0..<?n]" chunks reg buf nv i0] len i0 by auto
  ultimately have pick: "merge_pick nv reg ?n buf chunks = Some (?h k, k)" by (simp add: merge_pick_def)
  have "k < ?n" using k(2) i0(1) by auto
  moreover have "gs ! k \<noteq> []" using k(3) live [OF \<open>k < ?n\<close>] by simp
  moreover have "dr_dims (hd (gs ! k)) \<le> dr_dims (hd (gs ! i))" if "i < ?n" "gs ! i \<noteq> []" for i
  proof -
    have "curSubChunk (chunks ! i) > 0" using live that by simp
    moreover from this have "i0 \<le> i" using i0(3) by (metis not_less less_irrefl)
    ultimately have "dr_dims (?h k) \<le> dr_dims (?h i)" using k(4) that by simp
    with head that \<open>k < ?n\<close> \<open>gs ! k \<noteq> []\<close> show ?thesis by simp
  qed
  ultimately show ?thesis using pick head by auto
qed

text \<open>Stepping forward in the chosen chunk, and reading on when its buffer is empty.\<close>

lemma step_chunk_rest:
  assumes rel: "chunks_rel reg recSize file buf chunks gs" and k: "k < length gs" "gs ! k \<noteq> []"
  defines "c \<equiv> step_chunk k chunks ! k"
  shows "step_chunk k chunks = chunks[k := c]" "file_ok recSize file c"
    "curSubChunk c > 0 \<longrightarrow> posSubChunk c + curSubChunk c = reg"
    "chunk_rest reg recSize file buf k c = tl (gs ! k)"
proof -
  have kc: "k < length chunks" "chunk_ok reg recSize file (chunks ! k)"
    "chunk_rest reg recSize file buf k (chunks ! k) = gs ! k"
    using rel k by (auto simp: chunks_rel_def)
  then have live: "curSubChunk (chunks ! k) > 0" using k(2) rest_empty_iff [OF kc(2), of buf k] by simp
  then have c: "c = (chunks ! k)\<lparr>curSubChunk := curSubChunk (chunks ! k) - 1, posSubChunk := posSubChunk (chunks ! k) + 1\<rparr>"
    using kc(1) by (simp add: c_def step_chunk_def Let_def)
  show "step_chunk k chunks = chunks[k := c]" using live by (simp add: c step_chunk_def Let_def)
  show "file_ok recSize file c" using kc(2) by (simp add: c chunk_ok_def file_ok_def)
  show "curSubChunk c > 0 \<longrightarrow> posSubChunk c + curSubChunk c = reg"
    using kc(2) live by (auto simp: c chunk_ok_def)
  show "chunk_rest reg recSize file buf k c = tl (gs ! k)"
    using chunk_head_rest [OF kc(2) live, of buf] kc(3) live
    by (simp add: c chunk_rest_def buffered_def on_file_def flip: kc(3))
qed

lemma chunks_rel_update:
  assumes "chunks_rel reg recSize file buf chunks gs" "k < length gs" "same_outside reg k buf buf'"
    "chunk_ok reg recSize file c" "chunk_rest reg recSize file buf' k c = g"
  shows "chunks_rel reg recSize file buf' (chunks[k := c]) (gs[k := g])"
proof -
  have "chunk_ok reg recSize file (chunks[k := c] ! i) \<and>
      chunk_rest reg recSize file buf' i (chunks[k := c] ! i) = gs[k := g] ! i" if "i < length gs" for i
    using assms that chunk_rest_outside [OF assms(3), of recSize "file" "chunks ! i" i]
    by (cases "i = k") (auto simp: chunks_rel_def)
  with assms(1) show ?thesis by (simp add: chunks_rel_def)
qed

lemma same_outside_refl [simp]: "same_outside reg k buf buf"
  by (simp add: same_outside_def)

lemma step_chunk_live:
  assumes rel: "chunks_rel reg recSize file buf chunks gs" and k: "k < length gs" "gs ! k \<noteq> []"
    and live: "curSubChunk (step_chunk k chunks ! k) \<noteq> 0"
  shows "chunks_rel reg recSize file buf (step_chunk k chunks) (gs[k := tl (gs ! k)])"
  using step_chunk_rest [OF rel k] live chunks_rel_update [OF rel k(1) same_outside_refl]
  by (metis bot_nat_0.not_eq_extremum chunk_ok_def)

lemma step_chunk_refill:
  assumes rel: "chunks_rel reg recSize file buf chunks gs" and k: "k < length gs" "gs ! k \<noteq> []"
    and empty: "curSubChunk (step_chunk k chunks ! k) = 0" and pos: "0 < reg" "0 < recSize"
  shows "\<exists>buf2 chunks2. ReadSubChunk recSize reg k file (buf, step_chunk k chunks) = Some (buf2, chunks2) \<and>
    chunks_rel reg recSize file buf2 chunks2 (gs[k := tl (gs ! k)])"
proof -
  let ?c = "step_chunk k chunks ! k"
  note st = step_chunk_rest [OF rel k]
  have len: "k < length (step_chunk k chunks)"
    using rel k st(1) by (metis chunks_rel_def length_list_update order_less_le_trans)
  have tl: "on_file recSize file ?c = tl (gs ! k)"
    using st(4) empty by (simp add: chunk_rest_def buffered_def)
  show ?thesis
  proof (cases "curChunkNum ?c = 0")
    case True
    then have "chunk_ok reg recSize file ?c" using st empty by (simp add: chunk_ok_def)
    from chunks_rel_update [OF rel k(1) same_outside_refl this st(4)] True st(1)
    show ?thesis by (simp add: ReadSubChunk_def)
  next
    case False
    then have "0 < curChunkNum ?c" by simp
    obtain b c where r: "ReadSubChunk recSize reg k file (buf, step_chunk k chunks) = Some (b, (step_chunk k chunks)[k := c])"
      "chunk_ok reg recSize file c" "same_outside reg k buf b"
      "chunk_rest reg recSize file b k c = on_file recSize file ?c" "0 < curSubChunk c"
      by (rule ReadSubChunk_ok [where buf = buf, OF st(2) pos len \<open>0 < curChunkNum ?c\<close>])
    have "chunks_rel reg recSize file b (chunks[k := c]) (gs[k := tl (gs ! k)])"
      using chunks_rel_update [OF rel k(1) r(3,2)] r(4) tl by simp
    moreover have "(step_chunk k chunks)[k := c] = chunks[k := c]" using st(1) by (metis list_update_overwrite)
    ultimately show ?thesis using r(1) by auto
  qed
qed

lemma on_file_empty: "file_ok recSize file c \<Longrightarrow> on_file recSize file c = [] \<longleftrightarrow> curChunkNum c = 0"
  by (auto simp: on_file_def file_ok_def)

lemma step_chunk_finished:
  assumes rel: "chunks_rel reg recSize file buf chunks gs" and k: "k < length gs" "gs ! k \<noteq> []"
  shows "list_all (\<lambda>c. curSubChunk c = 0 \<and> curChunkNum c = 0) (take (length gs) (step_chunk k chunks)) \<longleftrightarrow>
    (\<forall>i < length gs. gs[k := tl (gs ! k)] ! i = [])"
proof -
  let ?cs = "step_chunk k chunks"
  note st = step_chunk_rest [OF rel k]
  have len: "length gs \<le> length ?cs" using rel st(1) by (metis chunks_rel_def length_list_update)
  have "curSubChunk (?cs ! i) = 0 \<and> curChunkNum (?cs ! i) = 0 \<longleftrightarrow> gs[k := tl (gs ! k)] ! i = []"
    if "i < length gs" for i
  proof (cases "i = k")
    case True
    have "tl (gs ! k) = [] \<longleftrightarrow> curSubChunk (?cs ! k) = 0 \<and> curChunkNum (?cs ! k) = 0"
      unfolding st(4) [symmetric] using on_file_empty [OF st(2)]
      by (auto simp: chunk_rest_def buffered_def)
    with True that show ?thesis by simp
  next
    case False
    then have "?cs ! i = chunks ! i" using st(1) by (metis nth_list_update_neq)
    moreover have "chunk_ok reg recSize file (chunks ! i)" "chunk_rest reg recSize file buf i (chunks ! i) = gs ! i"
      using rel that by (simp_all add: chunks_rel_def)
    ultimately show ?thesis
      using False rest_empty_iff [of reg recSize "file" "chunks ! i" buf i] by (auto simp: chunk_ok_def)
  qed
  with len show ?thesis by (auto simp: list_all_length)
qed

section \<open>The rows of the merge\<close>

definition put_row :: "drec \<Rightarrow> ADC_VIEW_CNTL \<Rightarrow> ADC_VIEW_CNTL" where
  "put_row r v =
    merge_checks r (add_sums r (v\<lparr>writes := Suc (writes v), viewFile := viewFile v @ [r], nViewRows := nViewRows v + 1\<rparr>))"

lemma merge_out_ok: "(\<forall>n. wr n) \<Longrightarrow> merge_out wr r v = (ADC_OK, put_row r v)"
  by (simp add: merge_out_def write_view_def put_row_def adc_codes)

lemma put_row_chunks: "put_row r (v\<lparr>chunksParams := cs\<rparr>) = (put_row r v)\<lparr>chunksParams := cs\<rparr>"
  by (simp add: put_row_def merge_checks_def add_sums_def)

lemma put_row_frame [simp]:
  "v_nm (put_row r v) = v_nm v" "v_nv (put_row r v) = v_nv v" "outRecSize (put_row r v) = outRecSize v"
  "fileOfChunks (put_row r v) = fileOfChunks v" "numberOfChunks (put_row r v) = numberOfChunks v"
  "chunksParams (put_row r v) = chunksParams v" "nViewRows (put_row r v) = nViewRows v + 1"
  "viewFile (put_row r v) = viewFile v @ [r]" "totalOfViewRows (put_row r v) = totalOfViewRows v"
  "mSums (put_row r v) = add_meas (mSums v) (dr_meas r)" "tree (put_row r v) = tree v"
  by (simp_all add: put_row_def merge_checks_def add_sums_def)

lemma fold_put_row_frame [simp]:
  "v_nm (fold put_row rs v) = v_nm v" "v_nv (fold put_row rs v) = v_nv v"
  "outRecSize (fold put_row rs v) = outRecSize v" "fileOfChunks (fold put_row rs v) = fileOfChunks v"
  "numberOfChunks (fold put_row rs v) = numberOfChunks v"
  "nViewRows (fold put_row rs v) = nViewRows v + of_nat (length rs)"
  "viewFile (fold put_row rs v) = viewFile v @ rs"
  "totalOfViewRows (fold put_row rs v) = totalOfViewRows v"
  by (induction rs arbitrary: v) simp_all

lemma mSums_put_row: "mSums (fold put_row rs v) = fold (\<lambda>d s. add_meas s (dr_meas d)) rs (mSums v)"
  by (induction rs arbitrary: v) simp_all

definition out_rows :: "drec option \<Rightarrow> drec list" where
  "out_rows outp = (case outp of None \<Rightarrow> [] | Some q \<Rightarrow> [q])"

definition merge_inv :: "nat \<Rightarrow> nat \<Rightarrow> drec list \<Rightarrow> drec option \<Rightarrow> drec list list \<Rightarrow> bool" where
  "merge_inv nd nm ws outp gs \<longleftrightarrow>
    list_all (rec_ok nd nm) (ws @ out_rows outp @ concat gs) \<and> (\<forall>g \<in> set gs. view_sorted g) \<and>
    (case outp of None \<Rightarrow> ws = []
     | Some q \<Rightarrow> view_sorted (ws @ [q]) \<and> (\<forall>r \<in> set (concat gs). dr_dims q \<le> dr_dims r))"

text \<open>The abstract step: \<open>r\<close> joins the output.\<close>

definition merge_emit :: "drec \<Rightarrow> drec list \<Rightarrow> drec option \<Rightarrow> drec list \<times> drec" where
  "merge_emit r ws outp =
    (case outp of None \<Rightarrow> (ws, r)
     | Some q \<Rightarrow> if dr_dims q = dr_dims r then (ws, acc_rec q r) else (ws @ [q], r))"

lemma mset_concat_take:
  "k < length gs \<Longrightarrow> gs ! k \<noteq> [] \<Longrightarrow>
   mset (concat gs) = add_mset (hd (gs ! k)) (mset (concat (gs[k := tl (gs ! k)])))"
proof (induction gs arbitrary: k)
  case (Cons g gs)
  show ?case
  proof (cases k)
    case 0
    with Cons.prems have "g = hd g # tl g" by simp
    then have "mset g = add_mset (hd g) (mset (tl g))" by (metis mset.simps(2))
    with 0 show ?thesis by simp
  next
    case (Suc j)
    with Cons show ?thesis by simp
  qed
qed simp

lemma groupby_acc:
  assumes "rec_ok nd nm q" "rec_ok nd nm r" "dr_dims q = dr_dims r"
  shows "groupby nm (ws @ acc_rec q r # xs) = groupby nm (ws @ q # r # xs)"
proof -
  have q: "groupby nm [q] = [q]"
    using assms(1) by (intro groupby_id [of _ nd]) (simp_all add: view_sorted_def)
  have two: "groupby nm [q, r] = [acc_rec q r]"
    using agg_ins_groupby [of r nm "[q]"] assms q by (simp add: rec_ok_def)
  have "groupby nm (ws @ acc_rec q r # xs) = groupby nm ([acc_rec q r] @ ws @ xs)"
    by (rule groupby_mset) simp
  also have "\<dots> = groupby nm ([q, r] @ ws @ xs)"
    using groupby_part [of nm "[q, r]" "ws @ xs"] two by simp
  also have "\<dots> = groupby nm (ws @ q # r # xs)" by (rule groupby_mset) simp
  finally show ?thesis .
qed

lemma view_sorted_hd: "view_sorted g \<Longrightarrow> r \<in> set g \<Longrightarrow> dr_dims (hd g) \<le> dr_dims r"
  by (cases g) (auto simp: view_sorted_def less_imp_le)

lemma merge_emit_ok:
  assumes inv: "merge_inv nd nm ws outp gs" and k: "k < length gs" "gs ! k \<noteq> []"
    and least: "\<forall>i < length gs. gs ! i \<noteq> [] \<longrightarrow> dr_dims (hd (gs ! k)) \<le> dr_dims (hd (gs ! i))"
    and emit: "merge_emit (hd (gs ! k)) ws outp = (ws', q')"
  shows "merge_inv nd nm ws' (Some q') (gs[k := tl (gs ! k)]) \<and>
    groupby nm (ws' @ q' # concat (gs[k := tl (gs ! k)])) = groupby nm (ws @ out_rows outp @ concat gs)"
proof -
  define r where "r = hd (gs ! k)"
  define gs' where "gs' = gs[k := tl (gs ! k)]"
  have perm: "mset (concat gs) = add_mset r (mset (concat gs'))"
    using mset_concat_take [OF k] by (simp add: r_def gs'_def)
  then have set: "set (concat gs) = insert r (set (concat gs'))"
    by (metis set_mset_add_mset_insert set_mset_mset)
  have sorted: "\<forall>g \<in> set gs. view_sorted g" using inv by (simp add: merge_inv_def)
  have sorted': "\<forall>g \<in> set gs'. view_sorted g"
  proof
    fix g assume "g \<in> set gs'"
    then consider "g = tl (gs ! k)" | "g \<in> set gs"
      unfolding gs'_def using set_update_subset_insert by fastforce
    then show "view_sorted g"
    proof cases
      case 1
      have "view_sorted (gs ! k)" using sorted k by simp
      with 1 show ?thesis by (cases "gs ! k") (auto simp: view_sorted_def)
    qed (use sorted in simp)
  qed
  have low: "dr_dims r \<le> dr_dims x" if x: "x \<in> set (concat gs)" for x
  proof -
    from x obtain i where i: "i < length gs" "x \<in> set (gs ! i)"
      by (metis UN_E in_set_conv_nth set_concat)
    then have "gs ! i \<noteq> []" by auto
    then have "dr_dims r \<le> dr_dims (hd (gs ! i))" using least i by (simp add: r_def)
    also have "\<dots> \<le> dr_dims x" by (rule view_sorted_hd) (use sorted i in auto)
    finally show ?thesis .
  qed
  have low': "\<forall>g \<in> set gs'. \<forall>x \<in> set g. dr_dims r \<le> dr_dims x"
  proof (intro ballI)
    fix g x assume "g \<in> set gs'" "x \<in> set g"
    then have "x \<in> set (concat gs)" unfolding set by auto
    then show "dr_dims r \<le> dr_dims x" by (rule low)
  qed
  have ok: "list_all (rec_ok nd nm) (ws @ out_rows outp)" "rec_ok nd nm r" "list_all (rec_ok nd nm) (concat gs')"
    using inv set by (auto simp: merge_inv_def list_all_iff)
  have gb: "groupby nm (ws @ out_rows outp @ concat gs) = groupby nm (ws @ out_rows outp @ r # concat gs')"
    by (rule groupby_mset) (simp add: perm)
  consider "outp = None" "ws' = ws" "q' = r"
    | q where "outp = Some q" "dr_dims q = dr_dims r" "ws' = ws" "q' = acc_rec q r"
    | q where "outp = Some q" "dr_dims q \<noteq> dr_dims r" "ws' = ws @ [q]" "q' = r"
    using emit by (auto simp: merge_emit_def r_def split: option.splits if_splits)
  then have "merge_inv nd nm ws' (Some q') gs' \<and>
    groupby nm (ws' @ q' # concat gs') = groupby nm (ws @ out_rows outp @ concat gs)"
  proof cases
    case 1
    with inv ok gb sorted' low' show ?thesis
      by (simp add: merge_inv_def out_rows_def view_sorted_def)
  next
    case (2 q)
    then have "rec_ok nd nm q" using ok(1) by (simp add: out_rows_def)
    with 2 ok(2) have "groupby nm (ws' @ q' # concat gs') = groupby nm (ws @ out_rows outp @ concat gs)"
      unfolding gb by (simp add: out_rows_def groupby_acc)
    with 2 inv ok sorted' low' \<open>rec_ok nd nm q\<close> show ?thesis
      by (simp add: merge_inv_def out_rows_def view_sorted_def)
  next
    case (3 q)
    have "r \<in> set (concat gs)" unfolding set by simp
    moreover have "\<forall>x \<in> set (concat gs). dr_dims q \<le> dr_dims x" using 3 inv by (simp add: merge_inv_def)
    ultimately have "dr_dims q \<le> dr_dims r" by blast
    with 3 have "dr_dims q < dr_dims r" by simp
    with 3 inv ok gb sorted' low' show ?thesis
      by (auto simp: merge_inv_def out_rows_def view_sorted_def sorted_wrt_append)
  qed
  then show ?thesis by (simp add: gs'_def)
qed

lemma merge_agg_ok:
  assumes "\<forall>n. wr n" "merge_emit r ws outp = (ws', q')" "v = (fold put_row ws v0)\<lparr>chunksParams := cs\<rparr>"
    "length (dr_dims r) = nv_of v0" "\<forall>q. outp = Some q \<longrightarrow> length (dr_dims q) = nv_of v0"
  shows "merge_agg wr r outp v = (ADC_OK, q', (fold put_row ws' v0)\<lparr>chunksParams := cs\<rparr>)"
  using assms
  by (auto simp: merge_agg_def merge_emit_def merge_out_ok put_row_chunks adc_codes split: option.splits if_splits)

lemma sum_lengths_zero: "(\<forall>i < length gs. gs ! i = []) \<longleftrightarrow> sum_list (map length gs) = 0"
  by (auto simp: all_set_conv_all_nth [symmetric, of gs "\<lambda>g. g = []"])

lemma sum_lengths_take:
  "k < length gs \<Longrightarrow> gs ! k \<noteq> [] \<Longrightarrow>
   sum_list (map length gs) = Suc (sum_list (map length (gs[k := tl (gs ! k)])))"
  using arg_cong [OF mset_concat_take, of k gs size] by (simp add: length_concat [symmetric])

text \<open>The loop ends, with the whole view in the file and the output buffer.\<close>

lemma merge_loop_ok:
  assumes wr: "\<forall>n. wr n" and pos: "0 < reg" "0 < unat (outRecSize v0)"
  shows "chunks_rel reg (unat (outRecSize v0)) (fileOfChunks v0) buf cs gs \<Longrightarrow> length gs = numberOfChunks v0 \<Longrightarrow>
    merge_inv (nv_of v0) nm ws outp gs \<Longrightarrow> sum_list (map length gs) = fuel \<Longrightarrow> 0 < fuel \<Longrightarrow>
    \<exists>ws' q cs'. merge_loop wr reg fuel buf outp ((fold put_row ws v0)\<lparr>chunksParams := cs\<rparr>) =
        Some (ADC_OK, q, (fold put_row ws' v0)\<lparr>chunksParams := cs'\<rparr>) \<and>
      ws' @ [q] = groupby nm (ws @ out_rows outp @ concat gs)"
proof (induction fuel arbitrary: buf cs gs ws outp)
  case (Suc fuel)
  let ?rec = "unat (outRecSize v0)" and ?file = "fileOfChunks v0" and ?nv = "nv_of v0"
  note rel = Suc.prems(1) and n = Suc.prems(2) [symmetric] and inv = Suc.prems(3)
  have dims: "\<forall>g \<in> set gs. \<forall>r \<in> set g. length (dr_dims r) = ?nv"
    using inv by (auto simp: merge_inv_def list_all_iff rec_ok_def)
  have "\<exists>i < length gs. gs ! i \<noteq> []" using Suc.prems(4) sum_lengths_zero [of gs] by auto
  from merge_pick_ok [OF rel dims this] obtain k where k: "k < length gs" "gs ! k \<noteq> []"
    and pick: "merge_pick ?nv reg (length gs) buf cs = Some (hd (gs ! k), k)"
    and least: "\<forall>i < length gs. gs ! i \<noteq> [] \<longrightarrow> dr_dims (hd (gs ! k)) \<le> dr_dims (hd (gs ! i))" by blast
  let ?gs = "gs[k := tl (gs ! k)]" and ?cs = "step_chunk k cs"
  obtain ws1 q where emit: "merge_emit (hd (gs ! k)) ws outp = (ws1, q)" by fastforce
  have qd: "\<forall>q. outp = Some q \<longrightarrow> length (dr_dims q) = ?nv"
    using inv by (auto simp: merge_inv_def rec_ok_def out_rows_def)
  have rd: "length (dr_dims (hd (gs ! k))) = ?nv"
    using dims k by (metis list.set_sel(1) nth_mem)
  let ?v1 = "(fold put_row ws1 v0)\<lparr>chunksParams := ?cs\<rparr>"
  have agg: "merge_agg wr (hd (gs ! k)) outp ((fold put_row ws v0)\<lparr>chunksParams := ?cs\<rparr>) = (ADC_OK, q, ?v1)"
    by (rule merge_agg_ok [OF wr emit refl rd qd])
  note new = merge_emit_ok [OF inv k least emit]
  have fuel: "sum_list (map length ?gs) = fuel"
    using sum_lengths_take [OF k] Suc.prems(4) by simp
  note fin = step_chunk_finished [OF rel k]
  show ?case
  proof (cases "fuel = 0")
    case True
    then have empty: "\<forall>i < length ?gs. ?gs ! i = []" using fuel sum_lengths_zero [of ?gs] by simp
    then have "concat ?gs = []" by (simp add: all_set_conv_all_nth)
    with new have g: "groupby nm (ws1 @ [q]) = groupby nm (ws @ out_rows outp @ concat gs)"
      and sorted: "view_sorted (ws1 @ [q])" "list_all (rec_ok ?nv nm) (ws1 @ [q])"
      by (auto simp: merge_inv_def out_rows_def)
    have "merge_loop wr reg (Suc fuel) buf outp ((fold put_row ws v0)\<lparr>chunksParams := cs\<rparr>) = Some (ADC_OK, q, ?v1)"
      using pick agg fin empty by (simp add: n adc_codes)
    with g groupby_id [OF sorted] show ?thesis by (intro exI [of _ ws1] exI [of _ q] exI [of _ ?cs]) simp
  next
    case False
    have not_fin: "\<not> list_all (\<lambda>c. curSubChunk c = 0 \<and> curChunkNum c = 0) (take (length gs) ?cs)"
      using False fuel sum_lengths_zero [of ?gs] fin by simp
    have out: "out_rows (Some q) = [q]" by (simp add: out_rows_def)
    have IH: "\<exists>ws' q' cs'. merge_loop wr reg fuel buf2 (Some q) ((fold put_row ws1 v0)\<lparr>chunksParams := cs2\<rparr>) =
        Some (ADC_OK, q', (fold put_row ws' v0)\<lparr>chunksParams := cs'\<rparr>) \<and>
      ws' @ [q'] = groupby nm (ws @ out_rows outp @ concat gs)"
      if "chunks_rel reg ?rec ?file buf2 cs2 ?gs" for buf2 cs2
      using Suc.IH [OF that, of ws1 "Some q"] new fuel False n by (simp add: out)
    show ?thesis
    proof (cases "curSubChunk (?cs ! k) = 0")
      case True
      from step_chunk_refill [OF rel k True pos] obtain buf2 cs2 where
        "ReadSubChunk ?rec reg k ?file (buf, ?cs) = Some (buf2, cs2)" "chunks_rel reg ?rec ?file buf2 cs2 ?gs" by blast
      with IH [OF this(2)] pick agg not_fin True show ?thesis by (simp add: n adc_codes)
    next
      case live: False
      with IH [OF step_chunk_live [OF rel k live]] pick agg not_fin show ?thesis by (simp add: n adc_codes)
    qed
  qed
qed simp

section \<open>Runs\<close>

text \<open>The parameters of a view as \<^verbatim>\<open>InitAdcViewCntl\<close> sets them, with the limits of \<^verbatim>\<open>adcc.h\<close>.\<close>

definition view_ok :: "ADC_VIEW_CNTL \<Rightarrow> bool" where
  "view_ok v \<longleftrightarrow> 1 \<le> nv_of v \<and> nv_of v \<le> 20 \<and> nm_of v \<le> 4 \<and>
    outRecSize v = GetRecSize (v_nv v) (v_nm v) \<and>
    memoryLimit (tree v) div node_size (v_nv v) (v_nm v) \<noteq> 0 \<and>
    MAX_NUM_OF_CHUNKS \<le> length (chunksParams v)"

definition view_row :: "ADC_VIEW_CNTL \<Rightarrow> drec \<Rightarrow> drec" where
  "view_row v r = SelectToView r (selection v) (nv_of v)"

text \<open>The fields that forming the runs does not touch.\<close>

definition same_view :: "ADC_VIEW_CNTL \<Rightarrow> ADC_VIEW_CNTL \<Rightarrow> bool" where
  "same_view v v' \<longleftrightarrow> v_nm v' = v_nm v \<and> v_nd v' = v_nd v \<and> v_nv v' = v_nv v \<and> selection v' = selection v \<and>
    outRecSize v' = outRecSize v \<and> v_memoryLimit v' = v_memoryLimit v \<and> nViewRows v' = nViewRows v \<and>
    totalOfViewRows v' = totalOfViewRows v \<and> mSums v' = mSums v \<and> checksums v' = checksums v \<and>
    viewFile v' = viewFile v \<and> memoryLimit (tree v') = memoryLimit (tree v) \<and>
    length (chunksParams v') = length (chunksParams v)"

lemma same_view_refl [simp]: "same_view v v"
  by (simp add: same_view_def)

lemma same_view_trans: "same_view u v \<Longrightarrow> same_view v w \<Longrightarrow> same_view u w"
  by (simp add: same_view_def)

lemma same_view_ok: "same_view v v' \<Longrightarrow> view_ok v \<Longrightarrow> view_ok v'"
  by (simp add: same_view_def view_ok_def)

lemma same_view_row: "same_view v v' \<Longrightarrow> view_row v' = view_row v"
  by (simp add: same_view_def view_row_def fun_eq_iff)

lemma same_view_ops [simp]:
  "same_view v (init_tree v)" "same_view v (insert_row r v)" "same_view v (add_chunk off v)"
  "same_view v (put_chunks rs v)"
  by (simp_all add: same_view_def init_tree_def insert_row_def add_chunk_def put_chunks_def)

lemma recsize_unat:
  "view_ok v \<Longrightarrow> unat (outRecSize v) = 4 * nv_of v + 8 * nm_of v"
  by (simp add: view_ok_def GetRecSize_def unat_word_ariths)

lemma recsize_pos: "view_ok v \<Longrightarrow> 0 < unat (outRecSize v)"
  using recsize_unat by (simp add: view_ok_def)

text \<open>A full pool holds fewer bytes of rows than its limit, so the offset does not wrap.\<close>

lemma chunk_bytes:
  assumes ok: "view_ok v" and t: "tree_for (v_nv v) (v_nm v) (tree v)"
  shows "unat (count (tree v) * outRecSize v) = unat (count (tree v)) * unat (outRecSize v)"
proof -
  let ?t = "tree v"
  have pool: "pool_ok ?t" using t by (simp add: tree_for_def tree_ok_def)
  have size: "treeNodeSize ?t = node_size (v_nv v) (v_nm v)"
    using t by (simp add: tree_for_def tree_ok_def pool_ok_def)
  have "unat (outRecSize v) \<le> unat (treeNodeSize ?t)"
    using recsize_unat [OF ok] node_size_unat [of "v_nv v" "v_nm v"] ok by (simp add: size view_ok_def)
  moreover have "unat (count ?t) = nodes_of (root_left ?t)"
    using pool unfolding pool_ok_def by blast
  then have "unat (count ?t) \<le> unat (nNodesLimit ?t)" using pool_limit(2) [OF pool] by simp
  ultimately have "unat (count ?t) * unat (outRecSize v) \<le> unat (nNodesLimit ?t) * unat (treeNodeSize ?t)"
    by (simp add: mult_le_mono)
  also have "\<dots> \<le> unat (memoryLimit ?t)" unfolding pool_limit(1) [OF pool] by simp
  also have "\<dots> < 4294967296" by (rule unat_u32_less)
  finally show ?thesis by (simp add: unat_word_ariths)
qed

definition chunk_at :: "nat \<Rightarrow> drec list list \<Rightarrow> nat \<Rightarrow> CHUNKS \<Rightarrow> bool" where
  "chunk_at recSize gs i c \<longleftrightarrow> curChunkNum c = length (gs ! i) \<and> 0 < length (gs ! i) \<and>
     chunkOffset c = int (recSize * length (concat (take i gs)))"

definition runs_rel :: "drec list list \<Rightarrow> ADC_VIEW_CNTL \<Rightarrow> bool" where
  "runs_rel gs v \<longleftrightarrow> numberOfChunks v = length gs \<and> fileOfChunks v = concat gs \<and>
     (\<forall>i < length gs. chunk_at (unat (outRecSize v)) gs i (chunksParams v ! i))"

lemma runs_rel_flush:
  assumes rel: "runs_rel gs v" and room: "length gs < length (chunksParams v)"
    and cnt: "unat (count (tree v)) = length g" "g \<noteq> []"
  shows "runs_rel (gs @ [g]) (put_chunks g (add_chunk (int (unat (outRecSize v) * length (concat gs))) v))"
proof -
  let ?v = "put_chunks g (add_chunk (int (unat (outRecSize v) * length (concat gs))) v)"
  have "chunk_at (unat (outRecSize ?v)) (gs @ [g]) i (chunksParams ?v ! i)" if "i < length (gs @ [g])" for i
    using rel room cnt that
    by (cases "i = length gs")
      (auto simp: runs_rel_def chunk_at_def add_chunk_def put_chunks_def nth_append)
  with rel show ?thesis by (simp add: runs_rel_def add_chunk_def put_chunks_def)
qed

text \<open>
  The invariant of the loop: the finished runs are the views of the \<open>parts\<close>, the tree holds
  the view of the rows \<open>cur\<close> read since.
\<close>

definition run_inv :: "drec list list \<Rightarrow> drec list \<Rightarrow> int \<Rightarrow> ADC_VIEW_CNTL \<Rightarrow> bool" where
  "run_inv parts cur off v \<longleftrightarrow>
    runs_rel (map (groupby (nm_of v)) parts) v \<and> length parts < MAX_NUM_OF_CHUNKS \<and>
    off = int (unat (outRecSize v) * length (fileOfChunks v)) \<and>
    tree_for (v_nv v) (v_nm v) (tree v) \<and> memoryIsFull (tree v) = 0 \<and>
    rows (root_left (tree v)) = groupby (nm_of v) cur"

lemma tree_for_init: "view_ok v \<Longrightarrow> tree_for (v_nv v) (v_nm v) (tree (init_tree v))"
  by (simp add: init_tree_def tree_for_def tree_ok_InitializeTree view_ok_def)

lemma tree_count_rows: "tree_for nv nm t \<Longrightarrow> unat (count t) = length (rows (root_left t))"
  unfolding tree_for_def tree_ok_def pool_ok_def nodes_of_rows by blast

lemma insert_row_inv:
  assumes inv: "run_inv parts cur off v" and r: "length (dr_meas r) = nm_of v"
  shows "tree_for (v_nv v) (v_nm v) (tree (insert_row r v))"
    "rows (root_left (tree (insert_row r v))) = groupby (nm_of v) (cur @ [view_row v r])"
proof -
  have r': "rec_ok (nv_of v) (nm_of v) (view_row v r)" using r by (simp add: view_row_def)
  note t = inv [unfolded run_inv_def]
  show "tree_for (v_nv v) (v_nm v) (tree (insert_row r v))"
    using cube_tree.ins_inv [of "v_nv v" "v_nm v" "tree v" "view_row v r"] t r'
    by (simp add: insert_row_def view_row_def)
  have "rows (root_left (tree (insert_row r v))) = agg_ins (view_row v r) (groupby (nm_of v) cur)"
    using cube_tree.ins_rows [of "v_nv v" "v_nm v" "tree v" "view_row v r"] t r'
    by (simp add: insert_row_def view_row_def)
  then show "rows (root_left (tree (insert_row r v))) = groupby (nm_of v) (cur @ [view_row v r])"
    using r' by (simp add: agg_ins_groupby rec_ok_def)
qed

text \<open>What happens to a full tree: its rows become the next run.\<close>

lemma flush_inv:
  assumes wr: "\<forall>n. wr n" and ok: "view_ok v" and inv: "run_inv parts cur off v"
    and r: "length (dr_meas r) = nm_of v" and room: "Suc (length parts) < MAX_NUM_OF_CHUNKS"
  defines "w \<equiv> add_chunk off (insert_row r v)"
  shows "\<exists>v3. WriteChunkToDisk wr (root_left (tree w)) w = (ADC_OK, v3) \<and> same_view v v3 \<and>
    run_inv (parts @ [cur @ [view_row v r]]) [] (off + int (unat (count (tree w) * outRecSize w))) (init_tree v3)"
proof -
  let ?u = "insert_row r v" and ?g = "groupby (nm_of v) (cur @ [view_row v r])"
  note t = insert_row_inv [OF inv r]
  have u: "same_view v ?u" "numberOfChunks ?u = numberOfChunks v" "fileOfChunks ?u = fileOfChunks v"
    "chunksParams ?u = chunksParams v" by (simp_all add: insert_row_def same_view_def)
  have g: "?g \<noteq> []" by simp
  have w: "tree w = tree ?u" "outRecSize w = outRecSize v" by (simp_all add: w_def add_chunk_def insert_row_def)
  have ok_u: "view_ok ?u" by (rule same_view_ok [OF u(1) ok])
  have gs: "runs_rel (map (groupby (nm_of v)) parts) ?u" "off = int (unat (outRecSize ?u) * length (concat (map (groupby (nm_of v)) parts)))"
    using inv u by (auto simp: run_inv_def runs_rel_def same_view_def)
  have len: "length (map (groupby (nm_of v)) parts) < length (chunksParams ?u)"
    using room ok_u by (simp add: view_ok_def)
  have cnt: "unat (count (tree ?u)) = length ?g" using tree_count_rows [OF t(1)] t(2) by simp
  note rel = runs_rel_flush [OF gs(1) len cnt g, folded gs(2), folded w_def]
  let ?v3 = "put_chunks ?g w"
  have wc: "WriteChunkToDisk wr (root_left (tree w)) w = (ADC_OK, ?v3)"
    using WriteChunkToDisk_ok [OF wr] t(2) w(1) by simp
  have sv: "same_view v ?v3" unfolding w_def
    by (rule same_view_trans [OF u(1) same_view_trans [OF same_view_ops(3,4)]])
  have "tree_for (v_nv ?v3) (v_nm ?v3) (tree (init_tree ?v3))"
    by (rule tree_for_init [OF same_view_ok [OF sv ok]])
  moreover have "off + int (unat (count (tree w) * outRecSize w)) =
      int (unat (outRecSize ?v3) * length (fileOfChunks ?v3))"
    using chunk_bytes [OF ok_u] t(1) cnt w gs(2) rel u
    by (simp add: runs_rel_def put_chunks_def same_view_def algebra_simps)
  ultimately have "run_inv (parts @ [cur @ [view_row v r]]) [] (off + int (unat (count (tree w) * outRecSize w))) (init_tree ?v3)"
    using rel room sv by (simp add: run_inv_def init_tree_def runs_rel_def same_view_def)
  with wc sv show ?thesis by blast
qed

lemma run_loop_ok:
  assumes wr: "\<forall>n. wr n"
  shows "view_ok v \<Longrightarrow> run_inv parts cur off v \<Longrightarrow> list_all (\<lambda>r. length (dr_meas r) = nm_of v) inp \<Longrightarrow>
    run_loop wr inp off v = (ret, off', v') \<Longrightarrow>
    ret = ADC_INTERNAL_ERROR \<or>
    (ret = ADC_OK \<and> same_view v v' \<and> (\<exists>parts' cur'. run_inv parts' cur' off' v' \<and>
       concat parts' @ cur' = concat parts @ cur @ map (view_row v) inp))"
proof (induction inp arbitrary: parts cur off v)
  case Nil
  then show ?case by auto
next
  case (Cons r inp)
  let ?u = "insert_row r v"
  have r: "length (dr_meas r) = nm_of v" using Cons.prems(3) by simp
  note t = insert_row_inv [OF Cons.prems(2) r]
  have su: "same_view v ?u" by simp
  show ?case
  proof (cases "memoryIsFull (tree ?u) = 0")
    case True
    then have "run_inv parts (cur @ [view_row v r]) off ?u"
      using Cons.prems(2) t by (simp add: run_inv_def insert_row_def runs_rel_def)
    from Cons.IH [OF same_view_ok [OF su Cons.prems(1)] this] Cons.prems(3,4) True
    show ?thesis using same_view_row [OF su] same_view_trans [OF su] by (simp add: Let_def) (auto simp: insert_row_def)
  next
    case False
    define w where "w = add_chunk off ?u"
    have n: "numberOfChunks w = Suc (length parts)"
      using Cons.prems(2) by (simp add: w_def add_chunk_def insert_row_def run_inv_def runs_rel_def)
    show ?thesis
    proof (cases "Suc (length parts) < MAX_NUM_OF_CHUNKS")
      case room: True
      obtain v3 where v3: "WriteChunkToDisk wr (root_left (tree w)) w = (ADC_OK, v3)" "same_view v v3"
        "run_inv (parts @ [cur @ [view_row v r]]) [] (off + int (unat (count (tree w) * outRecSize w))) (init_tree v3)"
        using flush_inv [OF wr Cons.prems(1,2) r room] unfolding w_def by blast
      have si: "same_view v (init_tree v3)" by (rule same_view_trans [OF v3(2)]) simp
      have "run_loop wr inp (off + int (unat (count (tree w) * outRecSize w))) (init_tree v3) = (ret, off', v')"
        using Cons.prems(4) False room n v3(1) by (simp add: Let_def w_def [symmetric] adc_codes)
      from Cons.IH [OF same_view_ok [OF si Cons.prems(1)] v3(3) _ this] Cons.prems(3) si
      show ?thesis using same_view_row [OF si] same_view_trans [OF si] by (auto simp: same_view_def)
    next
      case no_room: False
      then have "ret = ADC_INTERNAL_ERROR"
        using Cons.prems(4) False n by (simp add: Let_def w_def [symmetric])
      then show ?thesis by simp
    qed
  qed
qed

lemma RunFormation_ok:
  assumes wr: "\<forall>n. wr n" and ok: "view_ok v" and start: "numberOfChunks v = 0" "fileOfChunks v = []"
    and inp: "list_all (\<lambda>r. length (dr_meas r) = nm_of v) inp"
    and run: "RunFormation wr inp v = (ret, v')"
  shows "ret = ADC_INTERNAL_ERROR \<or> (ret = ADC_OK \<and> same_view v v' \<and>
    (if numberOfChunks v' = 0
     then tree_for (v_nv v) (v_nm v) (tree v') \<and>
       rows (root_left (tree v')) = groupby (nm_of v) (map (view_row v) inp)
     else \<exists>parts. runs_rel (map (groupby (nm_of v)) parts) v' \<and>
       concat parts = map (view_row v) inp \<and> length parts \<le> MAX_NUM_OF_CHUNKS))"
proof -
  obtain ret1 off v1 where loop: "run_loop wr inp 0 (init_tree v) = (ret1, off, v1)" by (metis prod_cases3)
  have si: "same_view v (init_tree v)" by simp
  have "run_inv [] [] 0 (init_tree v)"
    using start tree_for_init [OF ok] by (simp add: run_inv_def runs_rel_def init_tree_def MAX_NUM_OF_CHUNKS_def)
  from run_loop_ok [OF wr same_view_ok [OF si ok] this _ loop] inp
  consider "ret1 = ADC_INTERNAL_ERROR"
    | parts cur where "ret1 = ADC_OK" "same_view v v1" "run_inv parts cur off v1"
      "concat parts @ cur = map (view_row v) inp"
    using same_view_row [OF si] same_view_trans [OF si] by (auto simp: init_tree_def)
  then show ?thesis
  proof cases
    case 1
    with run loop show ?thesis by (simp add: RunFormation_def adc_codes)
  next
    case (2 parts cur)
    let ?gs = "map (groupby (nm_of v)) parts"
    have v1: "v_nm v1 = v_nm v" "v_nv v1 = v_nv v" using 2(2) by (simp_all add: same_view_def)
    have rel: "runs_rel ?gs v1" and n: "numberOfChunks v1 = length parts"
      and t: "tree_for (v_nv v) (v_nm v) (tree v1)" "rows (root_left (tree v1)) = groupby (nm_of v) cur"
      and off: "off = int (unat (outRecSize v1) * length (concat ?gs))"
      using 2(3) v1 by (auto simp: run_inv_def runs_rel_def)
    have cnt: "unat (count (tree v1)) = length (groupby (nm_of v) cur)"
      using tree_count_rows [OF t(1)] t(2) by simp
    then have empty: "count (tree v1) = 0 \<longleftrightarrow> cur = []"
      by (metis groupby_empty length_0_conv unat_eq_zero)
    show ?thesis
    proof (cases "numberOfChunks v1 \<noteq> 0 \<and> count (tree v1) \<noteq> 0")
      case True
      let ?v2 = "put_chunks (groupby (nm_of v) cur) (add_chunk off v1)"
      have res: "ret = ADC_OK" "v' = ?v2"
        using run loop 2(1) True WriteChunkToDisk_ok [OF wr, of "root_left (tree v1)" "add_chunk off v1"]
        by (auto simp: RunFormation_def adc_codes t(2))
      have room: "length ?gs < length (chunksParams v1)"
        using 2(3) same_view_ok [OF 2(2) ok] by (simp add: run_inv_def view_ok_def)
      have "runs_rel (?gs @ [groupby (nm_of v) cur]) ?v2"
        using runs_rel_flush [OF rel room cnt] True empty off by simp
      then have "runs_rel (map (groupby (nm_of v)) (parts @ [cur])) ?v2" by simp
      moreover have "numberOfChunks ?v2 \<noteq> 0" by (simp add: put_chunks_def add_chunk_def)
      moreover have "same_view v ?v2" by (rule same_view_trans [OF 2(2) same_view_trans [OF same_view_ops(3,4)]])
      moreover have "concat (parts @ [cur]) = map (view_row v) inp" using 2(4) by simp
      moreover have "length (parts @ [cur]) \<le> MAX_NUM_OF_CHUNKS" using 2(3) by (simp add: run_inv_def)
      ultimately show ?thesis unfolding res by (metis (no_types, lifting))
    next
      case False
      then have res: "ret = ADC_OK" "v' = v1" using run loop 2(1) by (auto simp: RunFormation_def adc_codes)
      show ?thesis
      proof (cases "parts = []")
        case True
        with 2 t n res show ?thesis by simp
      next
        case parts: False
        with False n empty have "cur = []" by simp
        with parts 2 n res rel show ?thesis by (auto simp: run_inv_def less_imp_le)
      qed
    qed
  qed
qed

section \<open>The merge as a whole\<close>

lemma concat_segment:
  "i < length gs \<Longrightarrow> take (length (gs ! i)) (drop (length (concat (take i gs))) (concat gs)) = gs ! i"
  by (metis append_eq_conv_conj concat.simps(2) concat_append id_take_nth_drop)

lemma concat_segment_le:
  "i < length gs \<Longrightarrow> length (concat (take i gs)) + length (gs ! i) \<le> length (concat gs)"
  using arg_cong [OF id_take_nth_drop [of i gs], of "\<lambda>x. length (concat x)"] by simp

lemma chunk_at_file:
  assumes "chunk_at recSize gs i c" "i < length gs" "0 < recSize"
  shows "file_ok recSize (concat gs) c \<and> 0 < curChunkNum c \<and> on_file recSize (concat gs) c = gs ! i"
proof -
  have "nat (chunkOffset c) div recSize = length (concat (take i gs))"
    using assms(1,3) by (simp add: chunk_at_def nat_mult_distrib)
  then show ?thesis
    using assms(1) concat_segment [OF assms(2)] concat_segment_le [OF assms(2)]
    by (simp add: chunk_at_def file_ok_def on_file_def)
qed

lemma merge_fuel_runs:
  assumes "runs_rel gs v" "length gs \<le> length (chunksParams v)"
  shows "merge_fuel v = sum_list (map length gs)"
proof -
  have "map curChunkNum (take (length gs) (chunksParams v)) = map length gs"
    by (rule nth_equalityI) (use assms in \<open>auto simp: runs_rel_def chunk_at_def\<close>)
  then show ?thesis using assms by (simp add: merge_fuel_def runs_rel_def)
qed

lemma MultiWayMerge_ok:
  assumes wr: "\<forall>n. wr n" and ok: "view_ok v" and rel: "runs_rel (map (groupby (nm_of v)) parts) v"
    and parts: "parts \<noteq> []" "length parts \<le> MAX_NUM_OF_CHUNKS"
    and rows: "list_all (rec_ok (nv_of v) (nm_of v)) (concat parts)"
    and mem: "unat (v_memoryLimit v) div numberOfChunks v div unat (outRecSize v) \<noteq> 0"
  shows "\<exists>cs. MultiWayMerge wr pool v = Some (ADC_OK,
    (let w = (fold put_row (groupby (nm_of v) (concat parts)) (v\<lparr>nViewRows := 0\<rparr>))\<lparr>chunksParams := cs\<rparr>
     in w\<lparr>totalOfViewRows := totalOfViewRows w + nViewRows w\<rparr>))"
proof -
  let ?gs = "map (groupby (nm_of v)) parts" and ?rec = "unat (outRecSize v)"
  let ?reg = "unat (v_memoryLimit v) div numberOfChunks v div ?rec" and ?file = "fileOfChunks v"
  have pos: "0 < ?reg" "0 < ?rec" using mem recsize_pos [OF ok] by simp_all
  have n: "numberOfChunks v = length ?gs" and fl: "?file = concat ?gs"
    and at: "\<forall>i < length ?gs. chunk_at ?rec ?gs i (chunksParams v ! i)"
    using rel by (simp_all add: runs_rel_def)
  have len: "length ?gs \<le> length (chunksParams v)" using parts(2) ok by (simp add: view_ok_def)
  have fok: "file_ok ?rec ?file (chunksParams v ! i) \<and> 0 < curChunkNum (chunksParams v ! i) \<and>
      on_file ?rec ?file (chunksParams v ! i) = ?gs ! i" if "i < length ?gs" for i
    unfolding fl by (rule chunk_at_file) (use at that pos(2) in auto)
  obtain buf cs where rd: "read_all ?rec ?reg [0..<length ?gs] ?file (pool, chunksParams v) = Some (buf, cs)"
    "chunks_rel ?reg ?rec ?file buf cs ?gs"
    using read_all_ok [OF pos, of "[0..<length ?gs]" "chunksParams v" ?file pool] fok len
    by (fastforce simp: chunks_rel_def)
  have "\<forall>g \<in> set ?gs. view_sorted g" by auto
  moreover have "list_all (rec_ok (nv_of v) (nm_of v)) (concat ?gs)"
    using rows groupby_rec_ok [of "nv_of v" "nm_of v"] by (fastforce simp: list_all_iff)
  ultimately have inv: "merge_inv (nv_of v) (nm_of v) [] None ?gs" by (simp add: merge_inv_def out_rows_def)
  have fuel: "sum_list (map length ?gs) = merge_fuel v" using merge_fuel_runs [OF rel len] by simp
  have "?gs ! 0 \<noteq> []" "0 < length ?gs" using at parts(1) by (simp_all add: chunk_at_def)
  then have "0 < merge_fuel v" using fuel sum_lengths_zero [of ?gs] by (metis gr0I)
  let ?v0 = "v\<lparr>nViewRows := 0\<rparr>"
  from merge_loop_ok [OF wr, of ?reg ?v0 buf cs ?gs "nm_of v" "[]" None "merge_fuel v"] pos rd(2) n inv fuel \<open>0 < merge_fuel v\<close>
  obtain ws q cs' where loop:
    "merge_loop wr ?reg (merge_fuel v) buf None (?v0\<lparr>chunksParams := cs\<rparr>) =
       Some (ADC_OK, q, (fold put_row ws ?v0)\<lparr>chunksParams := cs'\<rparr>)"
    "ws @ [q] = groupby (nm_of v) (concat ?gs)"
    by (auto simp: out_rows_def)
  have eq: "fold put_row (groupby (nm_of v) (concat parts)) ?v0 = put_row q (fold put_row ws ?v0)"
    using loop(2) groupby_concat [of "nm_of v" parts] by (metis fold_simps comp_apply fold_append)
  show ?thesis
    using pos(1) rd(1) loop(1) merge_out_ok [OF wr] n
    by (intro exI [of _ cs']) (simp add: MultiWayMerge_def Let_def adc_codes put_row_chunks eq)
qed

end
