(* ===== verification/Cube_Compute.thy ===== *)
theory Cube_Compute
  imports Cube_Sort
begin

text \<open>
  A view from the rows of its parent. In memory, the result is the view exactly when the
  keys leave a node of the pool unused; with the external sort it is the view whatever the
  number of keys, as long as neither the chunk table nor the merge buffer is too small.
\<close>

section \<open>Room in the pool\<close>

lemma length_groupby: "length (groupby nm rs) = card (dr_dims ` set rs)"
  by (simp add: groupby_def)

lemma length_groupby_le: "length (groupby nm rs) \<le> length rs"
  unfolding length_groupby by (metis card_length length_map set_map)

lemma length_groupby_mono: "length (groupby nm rs) \<le> length (groupby nm (rs @ ss))"
  unfolding length_groupby by (intro card_mono) auto

lemma tree_full_iff:
  assumes "tree_for nv nm t"
  shows "memoryIsFull t \<noteq> 0 \<longleftrightarrow> length (rows (root_left t)) = unat (nNodesLimit t)"
proof -
  have pool: "pool_ok t" using assms by (simp add: tree_for_def tree_ok_def)
  then have "unat (freeNodeCounter t) + length (rows (root_left t)) = unat (nNodesLimit t)"
    unfolding pool_ok_def nodes_of_rows by blast
  moreover have "memoryIsFull t \<noteq> 0 \<longleftrightarrow> unat (freeNodeCounter t) = 0"
    using pool unfolding pool_ok_def unat_eq_zero by simp
  ultimately show ?thesis by linarith
qed

definition pool_nodes :: "ADC_VIEW_CNTL \<Rightarrow> nat" where
  "pool_nodes v = unat (memoryLimit (tree v) div node_size (v_nv v) (v_nm v))"

lemma pool_nodes_tree:
  assumes "tree_for (v_nv v) (v_nm v) (tree v)"
  shows "unat (nNodesLimit (tree v)) = pool_nodes v"
proof -
  have "nNodesLimit (tree v) = memoryLimit (tree v) div treeNodeSize (tree v)"
    "treeNodeSize (tree v) = node_size (v_nv v) (v_nm v)"
    using assms unfolding tree_for_def tree_ok_def pool_ok_def by auto
  then show ?thesis by (simp add: pool_nodes_def)
qed

lemma same_view_nodes: "same_view v v' \<Longrightarrow> pool_nodes v' = pool_nodes v"
  by (simp add: same_view_def pool_nodes_def)

text \<open>The state of the loop over the rows of an in-memory view.\<close>

definition fit_inv :: "drec list \<Rightarrow> ADC_VIEW_CNTL \<Rightarrow> bool" where
  "fit_inv cur v \<longleftrightarrow> tree_for (v_nv v) (v_nm v) (tree v) \<and> memoryIsFull (tree v) = 0 \<and>
     rows (root_left (tree v)) = groupby (nm_of v) cur"

lemma fit_insert:
  assumes inv: "fit_inv cur v" and r: "length (dr_meas r) = nm_of v"
  shows "tree_for (v_nv v) (v_nm v) (tree (insert_row r v))"
    "rows (root_left (tree (insert_row r v))) = groupby (nm_of v) (cur @ [view_row v r])"
    "memoryIsFull (tree (insert_row r v)) \<noteq> 0 \<longleftrightarrow>
       length (groupby (nm_of v) (cur @ [view_row v r])) = pool_nodes v"
proof -
  have r': "rec_ok (nv_of v) (nm_of v) (view_row v r)" using r by (simp add: view_row_def)
  show t: "tree_for (v_nv v) (v_nm v) (tree (insert_row r v))"
    using cube_tree.ins_inv [of "v_nv v" "v_nm v" "tree v" "view_row v r"] inv r'
    by (simp add: fit_inv_def insert_row_def view_row_def)
  show rows: "rows (root_left (tree (insert_row r v))) = groupby (nm_of v) (cur @ [view_row v r])"
    using cube_tree.ins_rows [of "v_nv v" "v_nm v" "tree v" "view_row v r"] inv r' r
    by (simp add: fit_inv_def insert_row_def view_row_def agg_ins_groupby SelectToView_def)
  have "pool_nodes (insert_row r v) = pool_nodes v" by (rule same_view_nodes) simp
  with pool_nodes_tree [of "insert_row r v"] tree_full_iff [OF t] t rows
  show "memoryIsFull (tree (insert_row r v)) \<noteq> 0 \<longleftrightarrow>
       length (groupby (nm_of v) (cur @ [view_row v r])) = pool_nodes v"
    by (simp add: insert_row_def)
qed

lemma fitted_loop_ok:
  "fit_inv cur v \<Longrightarrow> list_all (\<lambda>r. length (dr_meas r) = nm_of v) inp \<Longrightarrow>
   length (groupby (nm_of v) cur) < pool_nodes v \<Longrightarrow>
   (if length (groupby (nm_of v) (cur @ map (view_row v) inp)) < pool_nodes v
    then \<exists>t. fitted_loop inp v = (ADC_OK, v\<lparr>tree := t\<rparr>) \<and> fit_inv (cur @ map (view_row v) inp) (v\<lparr>tree := t\<rparr>)
    else fst (fitted_loop inp v) = 1)"
proof (induction inp arbitrary: cur v)
  case Nil
  then show ?case by (auto simp: adc_codes intro: exI [of _ "tree v"])
next
  case (Cons r inp)
  let ?u = "insert_row r v" and ?cur = "cur @ [view_row v r]"
  have r: "length (dr_meas r) = nm_of v" using Cons.prems(2) by simp
  note t = fit_insert [OF Cons.prems(1) r]
  have u: "?u\<lparr>tree := t\<rparr> = v\<lparr>tree := t\<rparr>" for t by (simp add: insert_row_def)
  have mono: "length (groupby (nm_of v) ?cur) \<le> length (groupby (nm_of v) (cur @ map (view_row v) (r # inp)))"
    using length_groupby_mono [of "nm_of v" ?cur "map (view_row v) inp"] by simp
  show ?case
  proof (cases "memoryIsFull (tree ?u) = 0")
    case True
    have inv: "fit_inv ?cur ?u" using t True by (simp add: fit_inv_def insert_row_def)
    have le: "length (groupby (nm_of v) ?cur) \<le> Suc (length (groupby (nm_of v) cur))"
      unfolding length_groupby by (simp add: card_insert_le_m1 card_insert_if)
    have "length (groupby (nm_of v) ?cur) < pool_nodes v"
      using le Cons.prems(3) t(3) True by linarith
    moreover have "view_row ?u = view_row v" "nm_of ?u = nm_of v" "pool_nodes ?u = pool_nodes v"
      by (simp_all add: same_view_row same_view_nodes) (simp add: insert_row_def)
    ultimately show ?thesis
      using Cons.IH [OF inv] Cons.prems(2) True by (simp add: Let_def u split: if_splits)
  next
    case False
    with t(3) mono show ?thesis by (simp add: Let_def)
  qed
qed

section \<open>Checksums in memory\<close>

definition check_row :: "drec \<Rightarrow> u64 \<times> ADC_VIEW_CNTL \<Rightarrow> u64 \<times> ADC_VIEW_CNTL" where
  "check_row d kv = (fst kv + ucast (v_nm (snd kv)), add_checks (fst kv) d (snd kv))"

lemma check_row_pair: "check_row d (k, v) = (k + ucast (v_nm v), add_checks k d v)"
  by (simp add: check_row_def)

lemma v_nm_check_rows: "v_nm (snd (fold check_row rs kv)) = v_nm (snd kv)"
  by (induction rs arbitrary: kv) (simp_all add: check_row_pair check_row_def [of _ kv] prod_eq_iff check_row_def)

lemma computeChecksum_rows: "computeChecksum t k v = fold check_row (rows t) (k, v)"
proof (induction t arbitrary: k v)
  case (TN a b c d)
  obtain k1 v1 where L: "fold check_row (rows a) (k, v) = (k1, v1)" by fastforce
  have "v_nm v1 = v_nm v" using v_nm_check_rows [of "rows a" "(k, v)"] by (simp add: L)
  with TN show ?case by (simp add: L check_row_pair)
qed simp

lemma check_rows_put:
  "fst (fold check_row rs (k, v)) = fst (fold put_row_cs rs (k, v)) \<and>
   snd (fold check_row rs (k, v)) = v\<lparr>checksums := checksums (snd (fold put_row_cs rs (k, v)))\<rparr>"
proof (induction rs rule: rev_induct)
  case (snoc r rs)
  obtain k1 v1 where L: "fold put_row_cs rs (k, v) = (k1, v1)" by fastforce
  have "v_nm v1 = v_nm v" using fold_put_row_cs_frame(1) [of rs "(k, v)"] by (simp add: L)
  moreover from snoc L have "fold check_row rs (k, v) = (k1, v\<lparr>checksums := checksums v1\<rparr>)"
    by (simp add: prod_eq_iff)
  ultimately show ?case by (simp add: L check_row_pair put_row_cs_pair add_checks_def)
qed simp

definition view_checks :: "nat \<Rightarrow> u64 list \<Rightarrow> drec list \<Rightarrow> u64 list" where
  "view_checks nm cs rs = map (\<lambda>i. cs ! i + (\<Sum>j\<leftarrow>[0..<length rs]. cs_term 0 nm rs i j)) [0..<nm]"

lemma computeChecksum_ok:
  "length (checksums v) = nm_of v \<Longrightarrow>
   snd (computeChecksum t 0 v) = v\<lparr>checksums := view_checks (nm_of v) (checksums v) (rows t)\<rparr>"
  by (simp add: computeChecksum_rows check_rows_put checksums_put_row_cs view_checks_def)

section \<open>The two ways to a view\<close>

lemma init_fit_inv: "view_ok v \<Longrightarrow> fit_inv [] (init_tree v)"
  using tree_for_init [of v] by (simp add: fit_inv_def init_tree_def)

lemma init_view_row [simp]: "view_row (init_tree v) = view_row v" "v_nm (init_tree v) = v_nm v"
  "v_nv (init_tree v) = v_nv v" "pool_nodes (init_tree v) = pool_nodes v"
  "checksums (init_tree v) = checksums v"
  by (simp_all add: same_view_row same_view_nodes) (simp_all add: init_tree_def)

lemma tree_count_word: "tree_for nv nm t \<Longrightarrow> count t = of_nat (length (rows (root_left t)))"
  by (simp flip: tree_count_rows)

lemma fit_count: "fit_inv cur v \<Longrightarrow> count (tree v) = of_nat (length (groupby (nm_of v) cur))"
  using tree_count_word [of "v_nv v" "v_nm v" "tree v"] by (simp add: fit_inv_def)

lemma ComputeMemoryFittedView_ok:
  assumes ok: "view_ok v" and inp: "list_all (\<lambda>r. length (dr_meas r) = nm_of v) inp"
    and cs: "length (checksums v) = nm_of v"
  defines "g \<equiv> groupby (nm_of v) (map (view_row v) inp)"
  shows "if length g < pool_nodes v
    then \<exists>v'. ComputeMemoryFittedView inp v = (ADC_OK, v') \<and> nViewRows v' = of_nat (length g) \<and>
      totalOfViewRows v' = totalOfViewRows v + of_nat (length g) \<and> checksums v' = view_checks (nm_of v) (checksums v) g
    else fst (ComputeMemoryFittedView inp v) = 1"
proof -
  have "0 < pool_nodes v" using ok by (simp add: view_ok_def pool_nodes_def unat_gt_0)
  then have loop: "if length g < pool_nodes v
    then \<exists>t. fitted_loop inp (init_tree v) = (ADC_OK, (init_tree v)\<lparr>tree := t\<rparr>) \<and> fit_inv (map (view_row v) inp) ((init_tree v)\<lparr>tree := t\<rparr>)
    else fst (fitted_loop inp (init_tree v)) = 1"
    using fitted_loop_ok [OF init_fit_inv [OF ok], of inp] inp by (auto simp: g_def split: if_splits)
  show ?thesis
  proof (cases "length g < pool_nodes v")
    case True
    with loop obtain t where t: "fitted_loop inp (init_tree v) = (ADC_OK, (init_tree v)\<lparr>tree := t\<rparr>)"
      "fit_inv (map (view_row v) inp) ((init_tree v)\<lparr>tree := t\<rparr>)" by auto
    have "rows (root_left t) = g" "count t = of_nat (length g)"
      using t(2) fit_count [OF t(2)] by (simp_all add: fit_inv_def g_def)
    with True t(1) cs computeChecksum_ok [of "(init_tree v)\<lparr>tree := t\<rparr>" "root_left t"] show ?thesis
      by (simp add: ComputeMemoryFittedView_def adc_codes Let_def) (simp add: init_tree_def)
  next
    case False
    with loop show ?thesis by (auto simp: ComputeMemoryFittedView_def split: prod.splits)
  qed
qed

text \<open>The rows and totals that a finished view leaves.\<close>

definition view_done :: "ADC_VIEW_CNTL \<Rightarrow> drec list \<Rightarrow> ADC_VIEW_CNTL \<Rightarrow> bool" where
  "view_done v g v' \<longleftrightarrow> viewFile v' = viewFile v @ g \<and> nViewRows v' = of_nat (length g) \<and>
    totalOfViewRows v' = totalOfViewRows v + of_nat (length g) \<and>
    mSums v' = add_meas (mSums v) (meas_sum (nm_of v) g)"

lemma rows_rec_ok:
  "list_all (\<lambda>r. length (dr_meas r) = nm_of v) inp \<Longrightarrow> list_all (rec_ok (nv_of v) (nm_of v)) (map (view_row v) inp)"
  by (induction inp) (simp_all add: view_row_def)

lemma compute_view_ok:
  assumes wr: "\<forall>n. wr n" and ok: "view_ok v" and start: "numberOfChunks v = 0" "fileOfChunks v = []"
    and inp: "list_all (\<lambda>r. length (dr_meas r) = nm_of v) inp" and ms: "length (mSums v) = nm_of v"
  defines "g \<equiv> groupby (nm_of v) (map (view_row v) inp)"
  shows "\<exists>ret v'. compute_view wr pool inp v = Some (ret, v') \<and>
    (ret = ADC_INTERNAL_ERROR \<or> (ret = ADC_OK \<and> view_done v g v'))"
proof -
  obtain ret v1 where run: "RunFormation wr inp v = (ret, v1)" by fastforce
  have g_ok: "list_all (rec_ok (nv_of v) (nm_of v)) g"
    unfolding g_def by (rule groupby_rec_ok [OF rows_rec_ok [OF inp]])
  note sums = fold_add_meas [OF ms g_ok]
  from RunFormation_ok [OF wr ok start inp run] consider "ret = ADC_INTERNAL_ERROR"
    | "ret = ADC_OK" "same_view v v1" "numberOfChunks v1 = 0" "tree_for (v_nv v) (v_nm v) (tree v1)"
      "rows (root_left (tree v1)) = g"
    | parts where "ret = ADC_OK" "same_view v v1" "numberOfChunks v1 \<noteq> 0"
      "runs_rel (map (groupby (nm_of v)) parts) v1" "concat parts = map (view_row v) inp"
      "length parts \<le> MAX_NUM_OF_CHUNKS"
    by (auto simp: g_def split: if_splits)
  then show ?thesis
  proof cases
    case 1
    with run show ?thesis by (simp add: compute_view_def adc_codes)
  next
    case 2
    have "count (tree v1) = of_nat (length g)"
      using tree_count_word [OF 2(4)] 2(5) by simp
    with run 2 sums show ?thesis
      by (simp add: compute_view_def WriteViewToDiskCS_ok [OF wr] view_done_def same_view_def
          mSums_put_row_cs case_prod_unfold)
  next
    case (3 parts)
    have nm: "nm_of v1 = nm_of v" "nv_of v1 = nv_of v" using 3(2) by (simp_all add: same_view_def)
    have parts: "parts \<noteq> []" using 3(3,4) by (auto simp: runs_rel_def)
    let ?reg = "unat (v_memoryLimit v1) div numberOfChunks v1 div unat (outRecSize v1)"
    show ?thesis
    proof (cases "?reg = 0")
      case True
      with run 3 show ?thesis by (simp add: compute_view_def MultiWayMerge_def)
    next
      case False
      with MultiWayMerge_ok [OF wr same_view_ok [OF 3(2) ok], of parts pool] 3 parts False nm
        rows_rec_ok [OF inp]
      obtain cs where "MultiWayMerge wr pool v1 = Some (ADC_OK,
        (let w = (fold put_row g (v1\<lparr>nViewRows := 0\<rparr>))\<lparr>chunksParams := cs\<rparr>
         in w\<lparr>totalOfViewRows := totalOfViewRows w + nViewRows w\<rparr>))"
        by (auto simp: g_def)
      with run 3 sums show ?thesis
        by (simp add: compute_view_def view_done_def Let_def mSums_put_row same_view_def)
    qed
  qed
qed

section \<open>Failing writes\<close>

text \<open>How many of \<open>n\<close> writes, from the \<open>k\<close>-th call on, succeed before the first failure.\<close>

definition good_writes :: "(nat \<Rightarrow> bool) \<Rightarrow> nat \<Rightarrow> nat \<Rightarrow> nat" where
  "good_writes wr k n = length (takeWhile wr [k..<k + n])"

lemma good_writes_le: "good_writes wr k n \<le> n"
  using length_takeWhile_le [of wr "[k..<k + n]"] by (simp add: good_writes_def)

lemma good_writes_0 [simp]: "good_writes wr k 0 = 0"
  by (simp add: good_writes_def)

lemma good_writes_Suc: "good_writes wr k (Suc n) = (if wr k then Suc (good_writes wr (Suc k) n) else 0)"
  by (simp add: good_writes_def upt_conv_Cons del: upt_Suc)

lemma good_writes_add:
  "good_writes wr k (m + n) = (if good_writes wr k m = m then m + good_writes wr (k + m) n else good_writes wr k m)"
  by (induction m arbitrary: k) (simp_all add: good_writes_Suc)

lemma WriteViewToDiskCS_writes:
  "WriteViewToDiskCS wr t k v = (ret, k', v') \<Longrightarrow>
   (let n = length (rows t); g = good_writes wr (writes v) n
    in ret = (if g = n then ADC_OK else ADC_WRITE_FAILED) \<and> viewFile v' = viewFile v @ take g (rows t) \<and>
       (g = n \<longrightarrow> writes v' = writes v + n))"
proof (induction t arbitrary: k v ret k' v')
  case (TN a b c d)
  obtain r1 k1 v1 where a: "WriteViewToDiskCS wr a k v = (r1, k1, v1)" by (metis prod_cases3)
  note IHa = TN.IH(1) [OF a, unfolded Let_def]
  let ?na = "length (rows a)" and ?nb = "length (rows b)"
  let ?ga = "good_writes wr (writes v) ?na"
  have len: "length (rows (TN a b c d)) = ?na + Suc ?nb" by simp
  show ?case
  proof (cases "?ga = ?na")
    case False
    then have g: "good_writes wr (writes v) (?na + Suc ?nb) = ?ga" by (subst good_writes_add) simp
    have "?ga < ?na" using False good_writes_le [of wr "writes v" ?na] by simp
    with TN.prems a IHa show ?thesis unfolding Let_def len g by (simp add: adc_codes)
  next
    case True
    with IHa have v1: "r1 = ADC_OK" "viewFile v1 = viewFile v @ rows a" "writes v1 = writes v + ?na" by simp_all
    show ?thesis
    proof (cases "wr (writes v1)")
      case False
      then have g: "good_writes wr (writes v) (?na + Suc ?nb) = ?na"
        using True v1 by (subst good_writes_add) (simp add: good_writes_Suc)
      from False TN.prems a v1 show ?thesis unfolding Let_def len g by (auto simp: adc_codes write_view_def)
    next
      case w: True
      let ?v2 = "(add_checks k1 d (add_sums d v1))\<lparr>writes := Suc (writes v1), viewFile := viewFile v1 @ [d]\<rparr>"
      obtain r3 k3 v3 where b: "WriteViewToDiskCS wr b (k1 + ucast (v_nm v)) ?v2 = (r3, k3, v3)" by (metis prod_cases3)
      note IHb = TN.IH(2) [OF b, unfolded Let_def]
      have g: "good_writes wr (writes v) (?na + Suc ?nb) = ?na + Suc (good_writes wr (Suc (writes v1)) ?nb)"
        using True w v1 by (subst good_writes_add) (simp add: good_writes_Suc)
      from TN.prems a b v1 w IHb show ?thesis unfolding Let_def len g
        by (auto simp: adc_codes write_view_def split: if_splits)
    qed
  qed
qed (simp add: Let_def adc_codes)

end
