(* ===== verification/Cube_Jobs.thy ===== *)
theory Cube_Jobs
  imports Cube_Compute
begin

text \<open>
  The lattice of views (\<^verbatim>\<open>NPB-CPUTests/DC/jobcntl.c\<close>): sets of attributes as bit tuples,
  most significant bit first, the conversions between a tuple and the list of selected
  attributes, the pool of finished views and the choice of a parent from which the next view
  is computed. Shown are that the conversions are inverse to each other, that a chosen parent
  has all attributes of the view, and that a view computed from such a parent is the view of
  the input.
\<close>

section \<open>Bit tuples\<close>

definition MLB :: u64 where
  "MLB = 0x8000000000000000"

definition MLB32 :: u32 where
  "MLB32 = 0x80000000"

definition SetOneBit :: "nat \<Rightarrow> u64 \<Rightarrow> u64" where
  "SetOneBit pos s = s OR drop_bit pos MLB"

definition SetOneBit32 :: "nat \<Rightarrow> u32 \<Rightarrow> u32" where
  "SetOneBit32 pos s = s OR drop_bit pos MLB32"

fun mlo_loop :: "nat \<Rightarrow> u32 \<Rightarrow> u32 \<Rightarrow> nat \<Rightarrow> nat" where
  "mlo_loop 0 om x k = k"
| "mlo_loop (Suc n) om x k = (if om AND x \<noteq> 0 then k else mlo_loop n (drop_bit 1 om) x (k + 1))"

definition Mlo32 :: "u32 \<Rightarrow> nat" where
  "Mlo32 x = mlo_loop 32 MLB32 x 0"

fun mro_loop :: "nat \<Rightarrow> u32 \<Rightarrow> u32 \<Rightarrow> nat \<Rightarrow> nat" where
  "mro_loop 0 om x k = k"
| "mro_loop (Suc n) om x k = (if om AND x \<noteq> 0 then k else mro_loop n (push_bit 1 om) x (k - 1))"

definition mro32 :: "u32 \<Rightarrow> nat" where
  "mro32 x = mro_loop 32 1 x 32"

text \<open>The mask is a signed integer: its shift to the right keeps the sign bit.\<close>

fun ones_loop :: "nat \<Rightarrow> u32 \<Rightarrow> u32 \<Rightarrow> u32" where
  "ones_loop 0 om x = x"
| "ones_loop (Suc n) om x = ones_loop n (signed_drop_bit 1 om) (x OR om)"

definition setLeadingOnes32 :: "nat \<Rightarrow> u32" where
  "setLeadingOnes32 n = ones_loop n 0x80000000 0"

fun count_loop :: "nat \<Rightarrow> u64 \<Rightarrow> u64 \<Rightarrow> nat \<Rightarrow> nat" where
  "count_loop 0 ob s k = k"
| "count_loop (Suc n) ob s k = count_loop n (drop_bit 1 ob) s (if s AND ob \<noteq> 0 then k + 1 else k)"

definition NumberOfOnes :: "u64 \<Rightarrow> nat" where
  "NumberOfOnes s = count_loop 64 MLB s 0"

text \<open>The list of selected attributes; its length is \<^verbatim>\<open>*numOfUnits\<close>.\<close>

fun reg64_loop :: "nat \<Rightarrow> nat \<Rightarrow> u64 \<Rightarrow> u64 \<Rightarrow> u32 list" where
  "reg64_loop 0 i oc t = []"
| "reg64_loop (Suc n) i oc t =
    (if t AND oc \<noteq> 0 then [of_nat (i + 1)] else []) @ reg64_loop n (i + 1) (drop_bit 1 oc) t"

definition GetRegTupleFromBin64 :: "u64 \<Rightarrow> nat \<Rightarrow> u32 list" where
  "GetRegTupleFromBin64 t numDims = reg64_loop numDims 0 MLB t"

fun reg32_loop :: "nat \<Rightarrow> nat \<Rightarrow> u32 \<Rightarrow> u32 \<Rightarrow> u32 list" where
  "reg32_loop 0 i oc t = []"
| "reg32_loop (Suc n) i oc t =
    (if t AND oc \<noteq> 0 then [of_nat (i + 1)] else []) @ reg32_loop n (i + 1) (drop_bit 1 oc) t"

definition getRegTupleFromBin32 :: "u32 \<Rightarrow> nat \<Rightarrow> u32 list" where
  "getRegTupleFromBin32 t numDims = reg32_loop numDims 0 MLB32 t"

text \<open>The tuple of 64 bits cut down to the 32-bit tuple of \<open>nd\<close> attributes.\<close>

definition tuple32 :: "nat \<Rightarrow> u64 \<Rightarrow> u32" where
  "tuple32 nd t = push_bit (32 - nd) (ucast (drop_bit (64 - nd) t))"

fun parent_loop :: "nat \<Rightarrow> u32 \<Rightarrow> u32 \<Rightarrow> u32 \<Rightarrow> nat \<Rightarrow> u32 list" where
  "parent_loop 0 oc p t k = []"
| "parent_loop (Suc n) oc p t k =
    (let k1 = (if p AND oc \<noteq> 0 then k + 1 else k)
     in (if p AND oc \<noteq> 0 \<and> t AND oc \<noteq> 0 then [of_nat k1] else []) @ parent_loop n (drop_bit 1 oc) p t k1)"

definition GetRegTupleFromParent :: "u64 \<Rightarrow> u32 \<Rightarrow> nat \<Rightarrow> u32 list" where
  "GetRegTupleFromParent t p nd = parent_loop nd MLB32 p (tuple32 nd t) 0"

definition CreateBinTuple :: "u32 list \<Rightarrow> u64" where
  "CreateBinTuple sel = fold (\<lambda>a. SetOneBit (unat (a - 1))) sel 0"

section \<open>The pool of finished views\<close>

record JOB_POOL =
  grpb :: u32
  jp_nv :: nat
  nRows :: nat
  jp_offset :: int

record LAYER =
  layerIndex :: nat
  layerQuantityLimit :: nat
  layerCurrentPopulation :: nat

record jobs =
  nTopDims :: nat
  j_groupby :: u32
  jpp :: "JOB_POOL list"
  lpp :: "LAYER list"
  smallestParentLevel :: nat
  viewOffset :: int
  nParentViewRows :: nat
  parBinRepTuple :: u32

fun combs_loop :: "nat \<Rightarrow> u32 \<Rightarrow> u32 \<Rightarrow> u32 \<Rightarrow> u32" where
  "combs_loop 0 n l c = c"
| "combs_loop (Suc k) n l c = combs_loop k n (l + 1) (c * (n - l + 1) div l)"

definition NumOfCombsFromNbyK :: "u32 \<Rightarrow> u32 \<Rightarrow> u32" where
  "NumOfCombsFromNbyK n k = (if k > n then 0 else combs_loop (unat k) n 1 1)"

definition JobPoolInit :: "nat \<Rightarrow> JOB_POOL list \<Rightarrow> JOB_POOL list" where
  "JobPoolInit n js = replicate n \<lparr>grpb = 0, jp_nv = 0, nRows = 0, jp_offset = 0\<rparr> @ drop n js"

definition JobPoolUpdate :: "nat \<Rightarrow> nat \<Rightarrow> int \<Rightarrow> jobs \<Rightarrow> jobs" where
  "JobPoolUpdate l nrows off j =
    (let k = layerIndex (lpp j ! l) + layerCurrentPopulation (lpp j ! l)
     in j\<lparr>jpp := (jpp j)[k := \<lparr>grpb = j_groupby j, jp_nv = l, nRows = nrows, jp_offset = off\<rparr>],
          lpp := (lpp j)[l := (lpp j ! l)\<lparr>layerCurrentPopulation := layerCurrentPopulation (lpp j ! l) + 1\<rparr>]\<rparr>)"

text \<open>
  The scan of one level for the accepted entry with the fewest rows; the first of several.
  \<open>None\<close> is the state before the first find (\<^verbatim>\<open>ft\<close>).
\<close>

fun scan_level :: "(u32 \<Rightarrow> bool) \<Rightarrow> JOB_POOL list \<Rightarrow> nat \<Rightarrow> nat \<Rightarrow> nat option \<Rightarrow> nat option" where
  "scan_level acc js ig 0 best = best"
| "scan_level acc js ig (Suc n) best =
    scan_level acc js (ig + 1) n
      (if acc (grpb (js ! ig)) then
         (case best of None \<Rightarrow> Some ig
          | Some b \<Rightarrow> if nRows (js ! b) > nRows (js ! ig) then Some ig else Some b)
       else best)"

definition level_best :: "(u32 \<Rightarrow> bool) \<Rightarrow> jobs \<Rightarrow> nat \<Rightarrow> nat option" where
  "level_best acc j level =
    scan_level acc (jpp j) (layerIndex (lpp j ! level)) (layerCurrentPopulation (lpp j ! level)) None"

definition take_parent :: "nat \<Rightarrow> nat \<Rightarrow> jobs \<Rightarrow> jobs" where
  "take_parent level ig j =
    j\<lparr>smallestParentLevel := level, viewOffset := jp_offset (jpp j ! ig),
      nParentViewRows := nRows (jpp j ! ig), parBinRepTuple := grpb (jpp j ! ig)\<rparr>"

definition sp_test :: "jobs \<Rightarrow> u32 \<Rightarrow> bool" where
  "sp_test j t \<longleftrightarrow> j_groupby j AND t = j_groupby j"

fun smallest_loop :: "jobs \<Rightarrow> nat list \<Rightarrow> bool \<times> jobs" where
  "smallest_loop j [] = (False, j)"
| "smallest_loop j (level # levels) =
    (case level_best (sp_test j) j level of
       None \<Rightarrow> smallest_loop j levels
     | Some ig \<Rightarrow> (True, take_parent level ig j))"

definition GetSmallestParent :: "u32 \<Rightarrow> jobs \<Rightarrow> bool \<times> jobs" where
  "GetSmallestParent t j = smallest_loop j [NumberOfOnes (ucast t)..<Suc (nTopDims j)]"

definition pf_test :: "u32 \<Rightarrow> jobs \<Rightarrow> u32 \<Rightarrow> bool" where
  "pf_test bin j t \<longleftrightarrow> sp_test j t \<and> t AND setLeadingOnes32 (mro32 (j_groupby j)) = bin"

fun prefixed_loop :: "u32 \<Rightarrow> jobs \<Rightarrow> nat list \<Rightarrow> bool \<times> jobs" where
  "prefixed_loop bin j [] = (False, j)"
| "prefixed_loop bin j (level # levels) =
    (case level_best (pf_test bin j) j level of
       None \<Rightarrow> prefixed_loop bin j levels
     | Some ig \<Rightarrow> (True, take_parent level ig j))"

definition GetPrefixedParent :: "u32 \<Rightarrow> jobs \<Rightarrow> bool \<times> jobs" where
  "GetPrefixedParent t j = prefixed_loop t j [NumberOfOnes (ucast t)..<Suc (nTopDims j)]"

definition ss_test :: "jobs \<Rightarrow> u32 \<Rightarrow> bool" where
  "ss_test j t \<longleftrightarrow> sp_test j t \<and> t AND SetOneBit32 (Mlo32 (j_groupby j)) 0 \<noteq> 0 \<and>
     t AND setLeadingOnes32 (Mlo32 (j_groupby j)) = 0"

datatype parent = smallestParent | prefixedParent | sharedSortParent | noneParent

text \<open>
  \<^verbatim>\<open>GetParent\<close>: three scans in one pass over a level. The first level with any superset of
  the view decides, since every prefixed or shared-sort parent is one.
\<close>

fun parent_levels :: "u32 \<Rightarrow> jobs \<Rightarrow> nat list \<Rightarrow> parent \<times> jobs" where
  "parent_levels bin j [] = (noneParent, j)"
| "parent_levels bin j (level # levels) =
    (case level_best (pf_test bin j) j level of
       Some ig \<Rightarrow> (prefixedParent, take_parent level ig j)
     | None \<Rightarrow>
         (case level_best (ss_test j) j level of
            Some ig \<Rightarrow> (sharedSortParent, take_parent level ig j)
          | None \<Rightarrow>
              (case level_best (sp_test j) j level of
                 Some ig \<Rightarrow> (smallestParent, take_parent level ig j)
               | None \<Rightarrow> parent_levels bin j levels)))"

definition GetParent :: "u32 \<Rightarrow> jobs \<Rightarrow> parent \<times> jobs" where
  "GetParent t j = parent_levels t j [NumberOfOnes (ucast t)..<Suc (nTopDims j)]"

section \<open>Tuples and selections\<close>

lemma MLB_bit: "i < 64 \<Longrightarrow> bit (drop_bit i MLB) n \<longleftrightarrow> n = 63 - i"
proof -
  assume i: "i < 64"
  have eq: "MLB = 2 ^ 63" by (simp add: MLB_def)
  have "bit (drop_bit i MLB) n \<longleftrightarrow> bit MLB (i + n)" by (simp only: bit_drop_bit_eq comp_def)
  also have "\<dots> \<longleftrightarrow> i + n = 63" unfolding eq bit_exp_iff possible_bit_word by auto
  finally show ?thesis using i by linarith
qed

lemma MLB32_bit: "i < 32 \<Longrightarrow> bit (drop_bit i MLB32) n \<longleftrightarrow> n = 31 - i"
proof -
  assume i: "i < 32"
  have eq: "MLB32 = 2 ^ 31" by (simp add: MLB32_def)
  have "bit (drop_bit i MLB32) n \<longleftrightarrow> bit MLB32 (i + n)" by (simp only: bit_drop_bit_eq comp_def)
  also have "\<dots> \<longleftrightarrow> i + n = 31" unfolding eq bit_exp_iff possible_bit_word by auto
  finally show ?thesis using i by linarith
qed

lemma and_single_bit:
  fixes t w :: "'a::len word"
  assumes "\<And>n. bit w n \<longleftrightarrow> n = k"
  shows "t AND w \<noteq> 0 \<longleftrightarrow> bit t k"
  unfolding bit_eq_iff [of "t AND w" 0] using assms
  by (auto simp: bit_and_iff dest: bit_imp_le_length)

lemma test64: "i < 64 \<Longrightarrow> t AND drop_bit i MLB \<noteq> 0 \<longleftrightarrow> bit t (63 - i)"
  by (rule and_single_bit) (simp add: MLB_bit)

lemma test32: "i < 32 \<Longrightarrow> t AND drop_bit i MLB32 \<noteq> 0 \<longleftrightarrow> bit t (31 - i)"
  by (rule and_single_bit) (simp add: MLB32_bit)

lemma drop_shift: "drop_bit 1 (drop_bit i w) = drop_bit (i + 1) (w :: 'a::len word)"
  by (simp add: add.commute)

lemma upt_head: "[i..<i + Suc n] = i # [Suc i..<i + Suc n]"
  by (simp add: upt_conv_Cons)

lemma reg64_loop_filter:
  "i + n \<le> 64 \<Longrightarrow>
   reg64_loop n i (drop_bit i MLB) t = map (\<lambda>i. of_nat (i + 1)) (filter (\<lambda>i. bit t (63 - i)) [i..<i + n])"
proof (induction n arbitrary: i)
  case (Suc n)
  have "reg64_loop (Suc n) i (drop_bit i MLB) t =
      (if bit t (63 - i) then [of_nat (i + 1)] else []) @ reg64_loop n (i + 1) (drop_bit (i + 1) MLB) t"
    using test64 [of i t] Suc.prems by (simp only: reg64_loop.simps drop_shift)
  also have "reg64_loop n (i + 1) (drop_bit (i + 1) MLB) t =
      map (\<lambda>i. of_nat (i + 1)) (filter (\<lambda>i. bit t (63 - i)) [Suc i..<i + Suc n])"
    using Suc.IH [of "i + 1"] Suc.prems by simp
  finally show ?case unfolding upt_head by simp
qed simp

lemma reg32_loop_filter:
  "i + n \<le> 32 \<Longrightarrow>
   reg32_loop n i (drop_bit i MLB32) t = map (\<lambda>i. of_nat (i + 1)) (filter (\<lambda>i. bit t (31 - i)) [i..<i + n])"
proof (induction n arbitrary: i)
  case (Suc n)
  have "reg32_loop (Suc n) i (drop_bit i MLB32) t =
      (if bit t (31 - i) then [of_nat (i + 1)] else []) @ reg32_loop n (i + 1) (drop_bit (i + 1) MLB32) t"
    using test32 [of i t] Suc.prems by (simp only: reg32_loop.simps drop_shift)
  also have "reg32_loop n (i + 1) (drop_bit (i + 1) MLB32) t =
      map (\<lambda>i. of_nat (i + 1)) (filter (\<lambda>i. bit t (31 - i)) [Suc i..<i + Suc n])"
    using Suc.IH [of "i + 1"] Suc.prems by simp
  finally show ?case unfolding upt_head by simp
qed simp

lemma GetRegTupleFromBin64_filter:
  "n \<le> 64 \<Longrightarrow> GetRegTupleFromBin64 t n = map (\<lambda>i. of_nat (i + 1)) (filter (\<lambda>i. bit t (63 - i)) [0..<n])"
  using reg64_loop_filter [of 0 n t] by (simp add: GetRegTupleFromBin64_def)

lemma getRegTupleFromBin32_filter:
  "n \<le> 32 \<Longrightarrow> getRegTupleFromBin32 t n = map (\<lambda>i. of_nat (i + 1)) (filter (\<lambda>i. bit t (31 - i)) [0..<n])"
  using reg32_loop_filter [of 0 n t] by (simp add: getRegTupleFromBin32_def)

lemma count_loop_filter:
  "i + n \<le> 64 \<Longrightarrow> count_loop n (drop_bit i MLB) t k = k + length (filter (\<lambda>i. bit t (63 - i)) [i..<i + n])"
proof (induction n arbitrary: i k)
  case (Suc n)
  have "count_loop (Suc n) (drop_bit i MLB) t k =
      count_loop n (drop_bit (i + 1) MLB) t (if bit t (63 - i) then k + 1 else k)"
    using test64 [of i t] Suc.prems by (simp only: count_loop.simps drop_shift)
  also have "\<dots> = (if bit t (63 - i) then k + 1 else k) +
      length (filter (\<lambda>i. bit t (63 - i)) [Suc i..<i + Suc n])"
    using Suc.IH [of "i + 1"] Suc.prems by simp
  finally show ?case unfolding upt_head by simp
qed simp

lemma NumberOfOnes_length: "NumberOfOnes t = length (GetRegTupleFromBin64 t 64)"
  using count_loop_filter [of 0 64 t 0] by (simp add: NumberOfOnes_def GetRegTupleFromBin64_filter)

lemma CreateBinTuple_bit:
  assumes "\<forall>a \<in> set sel. 1 \<le> unat a \<and> unat a \<le> 64" "i < 64"
  shows "bit (CreateBinTuple sel) (63 - i) \<longleftrightarrow> of_nat (i + 1) \<in> set sel"
proof -
  have one: "bit (SetOneBit (unat (a - 1)) s) (63 - i) \<longleftrightarrow> a = of_nat (i + 1) \<or> bit s (63 - i)"
    if "1 \<le> unat a" "unat a \<le> 64" for a :: u32 and s
  proof -
    have "unat (a - 1) = unat a - 1" using that by (intro unat_minus_one) auto
    moreover have "a = of_nat (i + 1) \<longleftrightarrow> unat a = i + 1"
    proof
      assume "unat a = i + 1"
      then have "of_nat (unat a) = (of_nat (i + 1) :: u32)" by (rule arg_cong)
      then show "a = of_nat (i + 1)" by simp
    next
      assume "a = of_nat (i + 1)"
      then show "unat a = i + 1" using assms(2) by (simp add: unat_of_nat take_bit_eq_mod del: of_nat_Suc of_nat_add)
    qed
    ultimately show ?thesis using that assms(2) by (auto simp: SetOneBit_def bit_or_iff MLB_bit)
  qed
  have "bit (fold (\<lambda>a. SetOneBit (unat (a - 1))) sel s) (63 - i) \<longleftrightarrow> of_nat (i + 1) \<in> set sel \<or> bit s (63 - i)" for s
    using assms(1) by (induction sel arbitrary: s) (auto simp: one)
  then show ?thesis by (simp add: CreateBinTuple_def)
qed

lemma tuple32_bit:
  assumes "nd \<le> 32" "i < nd"
  shows "bit (tuple32 nd t) (31 - i) \<longleftrightarrow> bit t (63 - i)"
proof -
  have "64 - nd + (31 - i - (32 - nd)) = 63 - i" "32 - nd \<le> 31 - i" "31 - i - (32 - nd) < 32" "31 - i < 32"
    using assms by linarith+
  then show ?thesis
    using assms by (simp add: tuple32_def bit_push_bit_iff bit_unsigned_iff bit_drop_bit_eq)
qed

definition rank :: "(nat \<Rightarrow> bool) \<Rightarrow> nat \<Rightarrow> nat \<Rightarrow> nat" where
  "rank Q i j = length (filter Q [i..<Suc j])"

lemma rank_Suc: "i < j \<Longrightarrow> rank Q i j = (if Q i then 1 else 0) + rank Q (Suc i) j"
  by (simp add: rank_def upt_conv_Cons del: upt_Suc)

lemma parent_loop_filter:
  "i + n \<le> 32 \<Longrightarrow>
   parent_loop n (drop_bit i MLB32) p t k =
     map (\<lambda>j. of_nat (k + rank (\<lambda>i. bit p (31 - i)) i j))
       (filter (\<lambda>j. bit p (31 - j) \<and> bit t (31 - j)) [i..<i + n])"
proof (induction n arbitrary: i k)
  case (Suc n)
  let ?Q = "\<lambda>i. bit p (31 - i)"
  define k1 where "k1 = (if ?Q i then k + 1 else k)"
  have "parent_loop (Suc n) (drop_bit i MLB32) p t k =
      (if ?Q i \<and> bit t (31 - i) then [of_nat k1] else []) @ parent_loop n (drop_bit (i + 1) MLB32) p t k1"
    using test32 [of i p] test32 [of i t] Suc.prems
    by (simp only: parent_loop.simps drop_shift Let_def k1_def)
  also have "parent_loop n (drop_bit (i + 1) MLB32) p t k1 =
      map (\<lambda>j. of_nat (k1 + rank ?Q (Suc i) j))
        (filter (\<lambda>j. ?Q j \<and> bit t (31 - j)) [Suc i..<i + Suc n])"
    using Suc.IH [of "i + 1" k1] Suc.prems by simp
  also have "\<dots> = map (\<lambda>j. of_nat (k + rank ?Q i j))
        (filter (\<lambda>j. ?Q j \<and> bit t (31 - j)) [Suc i..<i + Suc n])"
    by (rule map_cong) (auto simp: rank_Suc k1_def)
  finally show ?case unfolding upt_head by (simp add: rank_def k1_def)
qed simp

lemma filter_rank: "j < n \<Longrightarrow> Q j \<Longrightarrow> filter Q [0..<n] ! (rank Q 0 j - 1) = j"
proof -
  assume j: "j < n" "Q j"
  have "[0..<n] = [0..<j] @ j # [Suc j..<n]"
    using j(1) by (metis le_add_same_cancel1 less_imp_le upt_add_eq_append upt_conv_Cons zero_le le_add_diff_inverse)
  then have "filter Q [0..<n] = filter Q [0..<j] @ j # filter Q [Suc j..<n]" using j(2) by simp
  moreover have "rank Q 0 j - 1 = length (filter Q [0..<j])" using j(2) by (simp add: rank_def)
  ultimately show ?thesis by simp
qed

lemma rank_bounds: "Q j \<Longrightarrow> 1 \<le> rank Q 0 j" "rank Q 0 j \<le> Suc j"
  using length_filter_le [of Q "[0..<Suc j]"] by (simp_all add: rank_def)

lemma unat_small: "n < 4294967296 \<Longrightarrow> unat (of_nat n :: u32) = n"
  by (simp add: unat_of_nat take_bit_eq_mod)

text \<open>A projection is determined by the positions it reads.\<close>

lemma SelectToView_positions:
  assumes "\<forall>i \<in> set xs. i < 4294967295"
  shows "SelectToView r (map (\<lambda>i. of_nat (i + 1)) xs) (length xs) =
    \<lparr>dr_meas = dr_meas r, dr_dims = map (\<lambda>i. dr_dims r ! i) xs\<rparr>"
proof -
  have "map (\<lambda>i. dr_dims r ! (unat (map (\<lambda>i. of_nat (i + 1) :: u32) xs ! i) - 1)) [0..<length xs] = map (\<lambda>i. dr_dims r ! i) xs"
  proof (rule nth_equalityI)
    fix i assume "i < length (map (\<lambda>i. dr_dims r ! (unat (map (\<lambda>i. of_nat (i + 1) :: u32) xs ! i) - 1)) [0..<length xs])"
    then have i: "i < length xs" by simp
    then have "unat (of_nat (xs ! i + 1) :: u32) = xs ! i + 1" using assms by (intro unat_small) (simp add: Suc_less_eq)
    with i show "map (\<lambda>i. dr_dims r ! (unat (map (\<lambda>i. of_nat (i + 1) :: u32) xs ! i) - 1)) [0..<length xs] ! i =
        map (\<lambda>i. dr_dims r ! i) xs ! i" by (simp del: of_nat_add of_nat_Suc)
  qed simp
  then show ?thesis by (simp add: SelectToView_def)
qed

definition tuple_sub :: "nat \<Rightarrow> u64 \<Rightarrow> u32 \<Rightarrow> bool" where
  "tuple_sub nd t p \<longleftrightarrow> (\<forall>i < nd. bit t (63 - i) \<longrightarrow> bit p (31 - i))"

lemma GetRegTupleFromParent_ranks:
  assumes "nd \<le> 32" "tuple_sub nd t p"
  shows "GetRegTupleFromParent t p nd =
    map (\<lambda>j. of_nat (rank (\<lambda>i. bit p (31 - i)) 0 j)) (filter (\<lambda>j. bit t (63 - j)) [0..<nd])"
proof -
  have "filter (\<lambda>j. bit p (31 - j) \<and> bit (tuple32 nd t) (31 - j)) [0..<nd] = filter (\<lambda>j. bit t (63 - j)) [0..<nd]"
    using assms by (intro filter_cong) (auto simp: tuple32_bit tuple_sub_def)
  then show ?thesis
    using parent_loop_filter [of 0 nd p "tuple32 nd t" 0] assms(1) by (simp add: GetRegTupleFromParent_def)
qed

lemma select_via_parent:
  assumes nd: "nd \<le> 32" and sub: "tuple_sub nd t p"
  defines "P \<equiv> getRegTupleFromBin32 p nd" and "R \<equiv> GetRegTupleFromParent t p nd"
    and "C \<equiv> GetRegTupleFromBin64 t nd"
  shows "SelectToView (SelectToView r P (length P)) R (length C) = SelectToView r C (length C)"
proof -
  let ?Q = "\<lambda>i. bit p (31 - i)" and ?T = "\<lambda>j. bit t (63 - j)"
  define ps where "ps = filter ?Q [0..<nd]"
  define cs where "cs = filter ?T [0..<nd]"
  have small: "\<forall>i \<in> set xs. i < 4294967295" if "set xs \<subseteq> {0..<nd}" for xs
    using that nd by (auto simp: subset_iff)
  have P: "P = map (\<lambda>i. of_nat (i + 1)) ps" and C: "C = map (\<lambda>i. of_nat (i + 1)) cs"
    using nd by (simp_all add: P_def C_def ps_def cs_def getRegTupleFromBin32_filter GetRegTupleFromBin64_filter)
  have ps_small: "\<forall>i \<in> set ps. i < 4294967295" by (rule small) (auto simp: ps_def)
  have cs_small: "\<forall>i \<in> set cs. i < 4294967295" by (rule small) (auto simp: cs_def)
  have rk: "rank ?Q 0 j - 1 + 1 = rank ?Q 0 j" if "j \<in> set cs" for j
    using sub that by (intro le_add_diff_inverse2 rank_bounds(1)) (auto simp: cs_def tuple_sub_def)
  have R: "R = map (\<lambda>i. of_nat (i + 1)) (map (\<lambda>j. rank ?Q 0 j - 1) cs)"
    unfolding R_def GetRegTupleFromParent_ranks [OF nd sub] map_map comp_def cs_def [symmetric]
    by (rule map_cong [OF refl], subst rk, assumption, rule refl)
  have rank_le: "rank ?Q 0 j - 1 < nd" if "j \<in> set cs" for j
    using rank_bounds(2) [of ?Q j] that by (auto simp: cs_def)
  have r_small: "\<forall>i \<in> set (map (\<lambda>j. rank ?Q 0 j - 1) cs). i < 4294967295"
    by (rule small) (use rank_le in auto)
  have par: "SelectToView r P (length P) = \<lparr>dr_meas = dr_meas r, dr_dims = map (\<lambda>i. dr_dims r ! i) ps\<rparr>"
    unfolding P length_map by (rule SelectToView_positions [OF ps_small])
  have at: "map (\<lambda>i. dr_dims r ! i) ps ! (rank ?Q 0 j - 1) = dr_dims r ! j" if "j \<in> set cs" for j
  proof -
    have j: "j < nd" "?Q j" using that sub by (auto simp: cs_def tuple_sub_def)
    have "ps ! (rank ?Q 0 j - 1) = j" unfolding ps_def by (rule filter_rank) (use j in auto)
    moreover have "rank ?Q 0 j - 1 < length ps"
    proof -
      have "rank ?Q 0 j \<le> length ps"
        unfolding rank_def ps_def
        by (metis (no_types, lifting) Suc_leI filter_append j(1) le_add1 length_append upt_add_eq_append zero_le le_add_diff_inverse)
      with rank_bounds(1) [of ?Q j] j show ?thesis by simp
    qed
    ultimately show ?thesis by simp
  qed
  have "SelectToView (SelectToView r P (length P)) R (length C) =
      \<lparr>dr_meas = dr_meas r, dr_dims = map (\<lambda>j. dr_dims r ! j) cs\<rparr>"
    using SelectToView_positions [OF r_small, of "SelectToView r P (length P)"] at
    by (simp add: R C par comp_def)
  also have "\<dots> = SelectToView r C (length C)"
    unfolding C length_map by (rule SelectToView_positions [OF cs_small, symmetric])
  finally show ?thesis .
qed

text \<open>Projecting a view and grouping again is grouping the projected rows.\<close>

definition projection :: "(drec \<Rightarrow> drec) \<Rightarrow> bool" where
  "projection f \<longleftrightarrow> (\<forall>r s. dr_meas (f r) = dr_meas r \<and> (dr_dims r = dr_dims s \<longrightarrow> dr_dims (f r) = dr_dims (f s)))"

lemma projection_SelectToView: "projection (\<lambda>r. SelectToView r ix nv)"
  by (simp add: projection_def SelectToView_def)

lemma projectionD:
  assumes "projection f"
  shows "dr_meas (f r) = dr_meas r" "dr_dims r = dr_dims s \<Longrightarrow> dr_dims (f r) = dr_dims (f s)"
  using assms unfolding projection_def by blast+

lemma projection_acc:
  assumes f: "projection f"
  shows "f (acc_rec x r) = acc_rec (f x) (f r)"
proof (rule drec.equality)
  show "dr_meas (f (acc_rec x r)) = dr_meas (acc_rec (f x) (f r))"
    by (simp add: projectionD(1) [OF f] acc_rec_def)
  show "dr_dims (f (acc_rec x r)) = dr_dims (acc_rec (f x) (f r))"
    using projectionD(2) [OF f, of "acc_rec x r" x] by simp
qed simp

lemma groupby_map_agg_ins:
  assumes f: "projection f" and nd: "\<And>r. length (dr_dims (f r)) = nd"
  shows "length (dr_meas r) = nm \<Longrightarrow> \<forall>x \<in> set xs. length (dr_meas x) = nm \<Longrightarrow>
    groupby nm (map f (agg_ins r xs)) = groupby nm (f r # map f xs)"
proof (induction xs)
  case (Cons x xs)
  have ok: "rec_ok nd nm (f y)" if "length (dr_meas y) = nm" for y
    using that nd by (simp add: rec_ok_def projectionD(1) [OF f])
  consider "dr_dims r < dr_dims x" | "dr_dims x < dr_dims r" | "dr_dims r = dr_dims x" by fastforce
  then show ?case
  proof cases
    case 2
    then have e: "agg_ins r (x # xs) = x # agg_ins r xs" by auto
    have "groupby nm (map f (agg_ins r (x # xs))) = groupby nm (map f (agg_ins r xs) @ [f x])"
      unfolding e by (rule groupby_mset) simp
    also have "\<dots> = groupby nm ((f r # map f xs) @ [f x])"
      using Cons by (metis groupby_part list.set_intros(2))
    also have "\<dots> = groupby nm (f r # map f (x # xs))" by (rule groupby_mset) simp
    finally show ?thesis .
  next
    case 3
    then have e: "agg_ins r (x # xs) = acc_rec x r # xs" by simp
    have dims: "dr_dims (f x) = dr_dims (f r)" by (rule projectionD(2) [OF f 3 [symmetric]])
    have "groupby nm (map f (agg_ins r (x # xs))) = groupby nm (acc_rec (f x) (f r) # map f xs)"
      unfolding e list.map projection_acc [OF f] ..
    also have "\<dots> = groupby nm (f x # f r # map f xs)"
      using groupby_acc [of nd nm "f x" "f r" "[]" "map f xs"] ok Cons.prems dims by simp
    also have "\<dots> = groupby nm (f r # map f (x # xs))" by (rule groupby_mset) simp
    finally show ?thesis .
  qed simp
qed simp

lemma groupby_projection:
  assumes f: "projection f" and nd: "\<And>r. length (dr_dims (f r)) = nd"
    and rs: "\<forall>r \<in> set rs. length (dr_meas r) = nm"
  shows "groupby nm (map f (groupby nm rs)) = groupby nm (map f rs)"
  using rs
proof (induction rs rule: rev_induct)
  case (snoc r rs)
  have meas: "\<forall>x \<in> set (groupby nm rs). length (dr_meas x) = nm"
    by (auto simp: groupby_def meas_sum_def)
  have "groupby nm (map f (groupby nm (rs @ [r]))) = groupby nm (map f (agg_ins r (groupby nm rs)))"
    using snoc.prems by (simp add: agg_ins_groupby)
  also have "\<dots> = groupby nm (f r # map f (groupby nm rs))"
    by (rule groupby_map_agg_ins [OF f nd]) (use snoc.prems meas in auto)
  also have "\<dots> = groupby nm (map f (groupby nm rs) @ [f r])" by (rule groupby_mset) simp
  also have "\<dots> = groupby nm (map f rs @ [f r])" using snoc by (metis UnI1 groupby_part set_append)
  finally show ?case by simp
qed simp

section \<open>The choice of a parent\<close>

lemma scan_level_best:
  "scan_level acc js ig n best = Some b \<Longrightarrow>
   best = Some b \<or> (ig \<le> b \<and> b < ig + n \<and> acc (grpb (js ! b)))"
proof (induction acc js ig n best rule: scan_level.induct)
  case (2 acc js ig n best)
  then have "scan_level acc js (ig + 1) n (if acc (grpb (js ! ig)) then
         (case best of None \<Rightarrow> Some ig
          | Some b \<Rightarrow> if nRows (js ! b) > nRows (js ! ig) then Some ig else Some b)
       else best) = Some b" by simp
  from 2(1) [OF this] show ?case by (auto split: if_splits option.splits)
qed simp

lemma scan_level_min:
  "scan_level acc js ig n best = Some b \<Longrightarrow>
   (\<forall>b0. best = Some b0 \<longrightarrow> nRows (js ! b) \<le> nRows (js ! b0)) \<and>
   (\<forall>i. ig \<le> i \<and> i < ig + n \<and> acc (grpb (js ! i)) \<longrightarrow> nRows (js ! b) \<le> nRows (js ! i))"
proof (induction acc js ig n best rule: scan_level.induct)
  case (2 acc js ig n best)
  let ?best = "if acc (grpb (js ! ig)) then
         (case best of None \<Rightarrow> Some ig
          | Some b \<Rightarrow> if nRows (js ! b) > nRows (js ! ig) then Some ig else Some b)
       else best"
  have "scan_level acc js (ig + 1) n ?best = Some b" using 2(2) by simp
  note IH = 2(1) [OF this]
  have first: "nRows (js ! b) \<le> nRows (js ! ig)" if "acc (grpb (js ! ig))"
    using IH that by (force split: option.splits if_splits)
  have "nRows (js ! b) \<le> nRows (js ! b0)" if "best = Some b0" for b0
    using IH that by (force split: if_splits)
  moreover have "nRows (js ! b) \<le> nRows (js ! i)" if "ig \<le> i" "i < ig + Suc n" "acc (grpb (js ! i))" for i
    using IH first that by (cases "i = ig") auto
  ultimately show ?case by blast
qed simp

lemma scan_level_none:
  "scan_level acc js ig n best = None \<longleftrightarrow> best = None \<and> (\<forall>i. ig \<le> i \<and> i < ig + n \<longrightarrow> \<not> acc (grpb (js ! i)))"
proof (induction acc js ig n best rule: scan_level.induct)
  case (2 acc js ig n best)
  have "(\<forall>i. ig \<le> i \<and> i < ig + Suc n \<longrightarrow> \<not> acc (grpb (js ! i))) \<longleftrightarrow>
      \<not> acc (grpb (js ! ig)) \<and> (\<forall>i. ig + 1 \<le> i \<and> i < ig + 1 + n \<longrightarrow> \<not> acc (grpb (js ! i)))"
    by (auto simp: less_Suc_eq_le Suc_le_eq) (metis le_neq_implies_less)
  with 2 show ?case by (auto split: option.splits)
qed auto

text \<open>The finished views of a level.\<close>

definition level_views :: "jobs \<Rightarrow> nat \<Rightarrow> nat set" where
  "level_views j level = {layerIndex (lpp j ! level)..<layerIndex (lpp j ! level) + layerCurrentPopulation (lpp j ! level)}"

lemma level_best_some:
  "level_best acc j level = Some ig \<Longrightarrow> ig \<in> level_views j level \<and> acc (grpb (jpp j ! ig)) \<and>
   (\<forall>i \<in> level_views j level. acc (grpb (jpp j ! i)) \<longrightarrow> nRows (jpp j ! ig) \<le> nRows (jpp j ! i))"
  using scan_level_best [of acc "jpp j" _ _ None ig] scan_level_min [of acc "jpp j" _ _ None ig]
  by (auto simp: level_best_def level_views_def)

lemma level_best_none:
  "level_best acc j level = None \<longleftrightarrow> (\<forall>i \<in> level_views j level. \<not> acc (grpb (jpp j ! i)))"
  by (auto simp: level_best_def level_views_def scan_level_none)

text \<open>What a search returns: nothing exactly when no level has a superset of the view.\<close>

lemma parent_levels_ok:
  "parent_levels bin j levels = (k, j') \<Longrightarrow>
   (k = noneParent \<and> j' = j \<and> (\<forall>l \<in> set levels. \<forall>i \<in> level_views j l. \<not> sp_test j (grpb (jpp j ! i)))) \<or>
   (k \<noteq> noneParent \<and> (\<exists>l \<in> set levels. \<exists>ig \<in> level_views j l. j' = take_parent l ig j \<and> sp_test j (grpb (jpp j ! ig))))"
proof (induction bin j levels rule: parent_levels.induct)
  case (2 bin j level levels)
  show ?case
  proof (cases "level_best (sp_test j) j level")
    case None
    then have none: "\<forall>i \<in> level_views j level. \<not> sp_test j (grpb (jpp j ! i))" by (simp add: level_best_none)
    then have "level_best (pf_test bin j) j level = None" "level_best (ss_test j) j level = None"
      by (auto simp: level_best_none pf_test_def ss_test_def)
    with 2 None none show ?thesis by auto
  next
    case (Some ig)
    with 2(2) level_best_some [of "pf_test bin j" j level] level_best_some [of "ss_test j" j level]
      level_best_some [of "sp_test j" j level] show ?thesis
      by (auto simp: pf_test_def ss_test_def split: option.splits)
  qed
qed simp

lemma smallest_loop_ok:
  "smallest_loop j levels = (found, j') \<Longrightarrow>
   (\<not> found \<and> j' = j \<and> (\<forall>l \<in> set levels. \<forall>i \<in> level_views j l. \<not> sp_test j (grpb (jpp j ! i)))) \<or>
   (found \<and> (\<exists>ls l rs ig. levels = ls @ l # rs \<and> ig \<in> level_views j l \<and> j' = take_parent l ig j \<and>
      sp_test j (grpb (jpp j ! ig)) \<and>
      (\<forall>m \<in> set ls. \<forall>i \<in> level_views j m. \<not> sp_test j (grpb (jpp j ! i))) \<and>
      (\<forall>i \<in> level_views j l. sp_test j (grpb (jpp j ! i)) \<longrightarrow> nRows (jpp j ! ig) \<le> nRows (jpp j ! i))))"
proof (induction j levels rule: smallest_loop.induct)
  case (2 j level levels)
  show ?case
  proof (cases "level_best (sp_test j) j level")
    case None
    then have none: "\<forall>i \<in> level_views j level. \<not> sp_test j (grpb (jpp j ! i))" by (simp add: level_best_none)
    from 2(1) [OF None] 2(2) None consider
      "\<not> found" "j' = j" "\<forall>l \<in> set levels. \<forall>i \<in> level_views j l. \<not> sp_test j (grpb (jpp j ! i))"
      | ls l rs ig where "found" "levels = ls @ l # rs" "ig \<in> level_views j l" "j' = take_parent l ig j"
        "sp_test j (grpb (jpp j ! ig))" "\<forall>m \<in> set ls. \<forall>i \<in> level_views j m. \<not> sp_test j (grpb (jpp j ! i))"
        "\<forall>i \<in> level_views j l. sp_test j (grpb (jpp j ! i)) \<longrightarrow> nRows (jpp j ! ig) \<le> nRows (jpp j ! i)"
      by auto
    then show ?thesis
    proof cases
      case (2 ls l rs ig)
      with none show ?thesis by (intro disjI2) (auto intro!: exI [of _ "level # ls"])
    qed (use none in simp)
  next
    case (Some ig)
    have found: "found" "j' = take_parent level ig j" using 2(2) Some by simp_all
    show ?thesis
      by (rule disjI2, rule conjI [OF found(1)], rule exI [of _ "[]"], rule exI [of _ level],
          rule exI [of _ levels], rule exI [of _ ig])
        (use level_best_some [OF Some] found(2) in simp)
  qed
qed simp

text \<open>The test of the searches is the subset relation on attributes.\<close>

lemma sp_test_sub:
  assumes "nd \<le> 32" "j_groupby j = tuple32 nd t" "sp_test j p"
  shows "tuple_sub nd t p"
  unfolding tuple_sub_def
proof (intro allI impI)
  fix i assume i: "i < nd" "bit t (63 - i)"
  then have "bit (j_groupby j) (31 - i)" using assms(1,2) by (simp add: tuple32_bit)
  moreover have "j_groupby j AND p = j_groupby j" using assms(3) by (simp add: sp_test_def)
  ultimately show "bit p (31 - i)" by (metis bit_and_iff)
qed

end
