(* ===== verification/Cube_Prefixed.thy ===== *)
theory Cube_Prefixed
  imports Cube_Compute
begin

text \<open>
  Aggregation over a parent view whose order can be shared (\<^verbatim>\<open>PrefixedAggregate\<close> of
  \<^verbatim>\<open>NPB-CPUTests/DC/extbuild.c\<close>, used with \<^verbatim>\<open>OPTIMIZATION\<close>). The rows of the parent view are an
  argument; the view's rows go through a buffer in the memory pool and from there to the
  end of the same file. \<open>None\<close> is the exit on rows that are out of order.
\<close>

section \<open>The function\<close>

text \<open>Writing nothing is a failure, since \<^verbatim>\<open>fwrite\<close> returns zero for items of size zero.\<close>

definition write_rows :: "(nat \<Rightarrow> bool) \<Rightarrow> drec list \<Rightarrow> ADC_VIEW_CNTL \<Rightarrow> int \<times> ADC_VIEW_CNTL" where
  "write_rows wr rs v =
    (if rs \<noteq> [] \<and> wr (writes v) then (ADC_OK, v\<lparr>writes := Suc (writes v), viewFile := viewFile v @ rs\<rparr>)
     else (ADC_WRITE_FAILED, v\<lparr>writes := Suc (writes v)\<rparr>))"

text \<open>Sums and checksums of the row that becomes number \<open>n\<close> of the buffer.\<close>

definition pa_sums :: "nat \<Rightarrow> drec \<Rightarrow> ADC_VIEW_CNTL \<Rightarrow> ADC_VIEW_CNTL" where
  "pa_sums n r v = (add_sums r v)\<lparr>checksums := map (\<lambda>i. checksums v ! i +
      word_of_int (c_mod (sint (of_nat n * dr_meas r ! i)) (int measbound))) [0..<nm_of v]\<rparr>"

text \<open>
  The body of the loop for all rows but the first: \<open>prev\<close> is the previous row, \<open>agg\<close> the row that
  is being summed up, \<open>out\<close> the buffer, \<open>n\<close> the number of rows written before.
\<close>

fun pa_loop :: "(nat \<Rightarrow> bool) \<Rightarrow> nat \<Rightarrow> drec list \<Rightarrow> drec \<Rightarrow> drec \<Rightarrow> drec list \<Rightarrow> nat \<Rightarrow> ADC_VIEW_CNTL \<Rightarrow>
    (int \<times> drec \<times> drec list \<times> nat \<times> ADC_VIEW_CNTL) option" where
  "pa_loop wr nOutBufRecs [] prev agg out n v = Some (ADC_OK, agg, out, n, v)"
| "pa_loop wr nOutBufRecs (r # rs) prev agg out n v =
    (let cur = SelectToView r (selection v) (nv_of v);
         c = KeyComp (dr_dims cur) (dr_dims prev) (nv_of v)
     in if c < 0 then None
        else
          (let (agg1, out1, v1) =
             (if c > 0 then (cur, out @ [agg], pa_sums (Suc (length out)) agg v) else (acc_rec agg cur, out, v))
           in if length out1 = nOutBufRecs
              then (case write_rows wr out1 v1 of (ret, v2) \<Rightarrow>
                      if ret \<noteq> 0 then Some (ret, agg1, out1, n, v2)
                      else pa_loop wr nOutBufRecs rs cur agg1 [] (n + length out1) v2)
              else pa_loop wr nOutBufRecs rs cur agg1 out1 n v1))"

definition PrefixedAggregate :: "(nat \<Rightarrow> bool) \<Rightarrow> drec list \<Rightarrow> ADC_VIEW_CNTL \<Rightarrow> (int \<times> ADC_VIEW_CNTL) option" where
  "PrefixedAggregate wr inp v =
    (let nOutBufRecs = unat (v_memoryLimit v div outRecSize v);
         zero = \<lparr>dr_meas = replicate (nm_of v) 0, dr_dims = replicate (nv_of v) 0\<rparr>
     in case (case inp of
                [] \<Rightarrow> Some (ADC_OK, zero, [], 0, v)
              | r # rs \<Rightarrow> (let cur = SelectToView r (selection v) (nv_of v) in pa_loop wr nOutBufRecs rs cur cur [] 0 v)) of
          None \<Rightarrow> None
        | Some (ret, agg, out, n, v1) \<Rightarrow>
            (if ret \<noteq> 0 then Some (ret, v1)
             else (case write_rows wr (out @ [agg]) (pa_sums (Suc (length out)) agg v1) of (ret2, v2) \<Rightarrow>
                     if ret2 \<noteq> 0 then Some (ret2, v2)
                     else Some (ADC_OK, v2\<lparr>nViewRows := of_nat (n + Suc (length out)),
                       totalOfViewRows := totalOfViewRows v2 + of_nat (n + Suc (length out))\<rparr>))))"

section \<open>Ordered rows\<close>

lemma agg_ins_beyond: "(\<forall>x \<in> set xs. dr_dims x < dr_dims r) \<Longrightarrow> agg_ins r xs = xs @ [r]"
  by (induction xs) auto

lemma agg_ins_last:
  "view_sorted (xs @ [q]) \<Longrightarrow> dr_dims q = dr_dims r \<Longrightarrow> agg_ins r (xs @ [q]) = xs @ [acc_rec q r]"
  by (induction xs) (auto simp: view_sorted_def)

lemma groupby_next_same:
  assumes "length (dr_meas r) = nm" "groupby nm rs = xs @ [q]" "dr_dims q = dr_dims r"
  shows "groupby nm (rs @ [r]) = xs @ [acc_rec q r]"
  using agg_ins_groupby [OF assms(1), of rs] agg_ins_last [of xs q r] groupby_sorted [of nm rs] assms(2,3) by simp

lemma groupby_next_new:
  assumes "length (dr_meas r) = nm" "groupby nm rs = xs @ [q]" "dr_dims q < dr_dims r"
  shows "groupby nm (rs @ [r]) = xs @ [q, r]"
proof -
  have "view_sorted (xs @ [q])" using groupby_sorted [of nm rs] assms(2) by simp
  then have "\<forall>x \<in> set (xs @ [q]). dr_dims x < dr_dims r"
    using assms(3) by (auto simp: view_sorted_def sorted_wrt_append intro: less_trans)
  from agg_ins_beyond [OF this] agg_ins_groupby [OF assms(1), of rs] assms(2) show ?thesis by simp
qed

section \<open>The loop\<close>

text \<open>
  After the rows \<open>done\<close>, with \<open>v0\<close> the state at the start: the rows in the file, in the buffer and
  the current row are the view of \<open>done\<close>.
\<close>

definition pa_inv :: "ADC_VIEW_CNTL \<Rightarrow> drec list \<Rightarrow> drec \<Rightarrow> drec \<Rightarrow> drec list \<Rightarrow> nat \<Rightarrow> ADC_VIEW_CNTL \<Rightarrow> bool" where
  "pa_inv v0 seen prev agg out n v \<longleftrightarrow>
    (\<exists>written. groupby (nm_of v0) seen = written @ out @ [agg] \<and> viewFile v = viewFile v0 @ written \<and> n = length written \<and>
      mSums v = fold (\<lambda>d s. add_meas s (dr_meas d)) (written @ out) (mSums v0)) \<and>
    dr_dims prev = dr_dims agg \<and> length (dr_dims prev) = nv_of v0 \<and>
    v_nm v = v_nm v0 \<and> v_nv v = v_nv v0 \<and> selection v = selection v0 \<and> totalOfViewRows v = totalOfViewRows v0"

lemma pa_sums_frame [simp]:
  "viewFile (pa_sums n r v) = viewFile v" "writes (pa_sums n r v) = writes v" "mSums (pa_sums n r v) = add_meas (mSums v) (dr_meas r)"
  "v_nm (pa_sums n r v) = v_nm v" "v_nv (pa_sums n r v) = v_nv v" "selection (pa_sums n r v) = selection v"
  "totalOfViewRows (pa_sums n r v) = totalOfViewRows v"
  by (simp_all add: pa_sums_def add_sums_def)

lemma pa_step:
  assumes inv: "pa_inv v0 seen prev agg out n v" and r: "length (dr_meas r) = nm_of v0"
  defines "cur \<equiv> view_row v0 r"
  assumes le: "\<not> dr_dims cur < dr_dims prev"
  shows "if dr_dims prev < dr_dims cur then pa_inv v0 (seen @ [cur]) cur cur (out @ [agg]) n (pa_sums k agg v)
    else pa_inv v0 (seen @ [cur]) cur (acc_rec agg cur) out n v"
proof -
  from inv obtain w where w: "groupby (nm_of v0) seen = (w @ out) @ [agg]" "viewFile v = viewFile v0 @ w" "n = length w"
    "mSums v = fold (\<lambda>d s. add_meas s (dr_meas d)) (w @ out) (mSums v0)" and f: "dr_dims prev = dr_dims agg"
    "v_nm v = v_nm v0" "v_nv v = v_nv v0" "selection v = selection v0" "totalOfViewRows v = totalOfViewRows v0"
    by (auto simp: pa_inv_def)
  have c: "length (dr_meas cur) = nm_of v0" "length (dr_dims cur) = nv_of v0"
    using r by (simp_all add: cur_def view_row_def SelectToView_def)
  show ?thesis
  proof (cases "dr_dims prev < dr_dims cur")
    case True
    from groupby_next_new [OF c(1) w(1)] True f(1) have "groupby (nm_of v0) (seen @ [cur]) = w @ (out @ [agg]) @ [cur]" by simp
    with True w f c show ?thesis by (auto simp: pa_inv_def intro!: exI [of _ w])
  next
    case False
    with le f(1) have "dr_dims agg = dr_dims cur" by auto
    from groupby_next_same [OF c(1) w(1) this] have "groupby (nm_of v0) (seen @ [cur]) = w @ out @ [acc_rec agg cur]" by simp
    with False \<open>dr_dims agg = dr_dims cur\<close> w f c show ?thesis by (auto simp: pa_inv_def intro!: exI [of _ w])
  qed
qed

lemma pa_flush:
  assumes "pa_inv v0 seen prev agg out n v" "\<forall>n. wr n" "out \<noteq> []"
  shows "\<exists>v'. write_rows wr out v = (ADC_OK, v') \<and> pa_inv v0 seen prev agg [] (n + length out) v'"
  using assms by (auto simp: pa_inv_def write_rows_def intro!: exI [of _ "_ @ out"])

lemma pa_row:
  assumes "pa_inv v0 seen prev agg out n v"
  shows "SelectToView r (selection v) (nv_of v) = view_row v0 r"
    and "KeyComp (dr_dims (view_row v0 r)) (dr_dims prev) (nv_of v) =
      (if dr_dims (view_row v0 r) < dr_dims prev then -1 else if dr_dims prev < dr_dims (view_row v0 r) then 1 else 0)"
proof -
  show "SelectToView r (selection v) (nv_of v) = view_row v0 r" using assms by (simp add: pa_inv_def view_row_def)
  have "length (dr_dims prev) = nv_of v" "nv_of v0 = nv_of v" using assms by (auto simp: pa_inv_def)
  then show "KeyComp (dr_dims (view_row v0 r)) (dr_dims prev) (nv_of v) =
      (if dr_dims (view_row v0 r) < dr_dims prev then -1 else if dr_dims prev < dr_dims (view_row v0 r) then 1 else 0)"
    by (intro KeyComp_lex) (simp_all add: view_row_def SelectToView_def)
qed

text \<open>One row in order leads to the same loop on the remaining rows, with the invariant.\<close>

lemma pa_loop_next:
  assumes inv: "pa_inv v0 seen prev agg out n v" and wr: "\<forall>n. wr n" and out: "length out < nOutBufRecs"
    and r: "length (dr_meas r) = nm_of v0" and le: "\<not> dr_dims (view_row v0 r) < dr_dims prev"
  shows "\<exists>agg' out' n' v'. pa_loop wr nOutBufRecs (r # rs) prev agg out n v = pa_loop wr nOutBufRecs rs (view_row v0 r) agg' out' n' v' \<and>
    pa_inv v0 (seen @ [view_row v0 r]) (view_row v0 r) agg' out' n' v' \<and> length out' < nOutBufRecs"
proof -
  let ?cur = "view_row v0 r" let ?c = "KeyComp (dr_dims ?cur) (dr_dims prev) (nv_of v)"
  note row = pa_row [OF inv, of r]
  have c0: "\<not> ?c < 0" using row(2) le by simp
  define x where "x = (if ?c > 0 then (?cur, out @ [agg], pa_sums (Suc (length out)) agg v) else (acc_rec agg ?cur, out, v))"
  obtain agg1 out1 v1 where x: "x = (agg1, out1, v1)" using prod_cases3 by blast
  have inv1: "pa_inv v0 (seen @ [?cur]) ?cur agg1 out1 n v1"
    using pa_step [OF inv r le, of "Suc (length out)"] row(2) le x by (auto simp: x_def split: if_splits)
  have len: "length out1 \<le> Suc (length out)" using x by (auto simp: x_def split: if_splits)
  have loop: "pa_loop wr nOutBufRecs (r # rs) prev agg out n v = (if length out1 = nOutBufRecs
      then (case write_rows wr out1 v1 of (ret, v2) \<Rightarrow> if ret \<noteq> 0 then Some (ret, agg1, out1, n, v2)
            else pa_loop wr nOutBufRecs rs ?cur agg1 [] (n + length out1) v2)
      else pa_loop wr nOutBufRecs rs ?cur agg1 out1 n v1)"
    using c0 by (simp only: pa_loop.simps Let_def row(1) if_False x_def [symmetric] x prod.case)
  show ?thesis
  proof (cases "length out1 = nOutBufRecs")
    case True
    then have "out1 \<noteq> []" using out by auto
    from pa_flush [OF inv1 wr this] obtain v2 where "write_rows wr out1 v1 = (ADC_OK, v2)"
      "pa_inv v0 (seen @ [?cur]) ?cur agg1 [] (n + length out1) v2" by blast
    moreover have "length ([] :: drec list) < nOutBufRecs" using out by simp
    ultimately show ?thesis using True unfolding loop by (fastforce simp: ADC_OK_def)
  next
    case False
    then show ?thesis using inv1 len out unfolding loop by fastforce
  qed
qed

lemma pa_loop_ok:
  assumes "pa_inv v0 seen prev agg out n v" "\<forall>n. wr n" "length out < nOutBufRecs"
    and "list_all (\<lambda>r. length (dr_meas r) = nm_of v0) rs"
  shows "if sorted (map dr_dims (prev # map (view_row v0) rs))
    then \<exists>prev' agg' out' n' v'. pa_loop wr nOutBufRecs rs prev agg out n v = Some (ADC_OK, agg', out', n', v') \<and>
      pa_inv v0 (seen @ map (view_row v0) rs) prev' agg' out' n' v'
    else pa_loop wr nOutBufRecs rs prev agg out n v = None"
  using assms(1,3,4)
proof (induction rs arbitrary: seen prev agg out n v)
  case (Cons r rs)
  let ?cur = "view_row v0 r"
  show ?case
  proof (cases "dr_dims ?cur < dr_dims prev")
    case True
    then have "pa_loop wr nOutBufRecs (r # rs) prev agg out n v = None"
      by (simp only: pa_loop.simps Let_def pa_row [OF Cons.prems(1)]) simp
    moreover have "\<not> sorted (map dr_dims (prev # map (view_row v0) (r # rs)))" using True by auto
    ultimately show ?thesis by (simp only: if_False)
  next
    case False
    have m: "length (dr_meas r) = nm_of v0" "list_all (\<lambda>r. length (dr_meas r) = nm_of v0) rs" using Cons.prems(3) by simp_all
    from pa_loop_next [OF Cons.prems(1) assms(2) Cons.prems(2) m(1) False, of rs] obtain agg' out' n' v' where
      e: "pa_loop wr nOutBufRecs (r # rs) prev agg out n v = pa_loop wr nOutBufRecs rs ?cur agg' out' n' v'"
      and i: "pa_inv v0 (seen @ [?cur]) ?cur agg' out' n' v'" "length out' < nOutBufRecs" by blast
    have s: "sorted (map dr_dims (prev # map (view_row v0) (r # rs))) \<longleftrightarrow> sorted (map dr_dims (?cur # map (view_row v0) rs))"
      using False by (auto simp: sorted2 simp del: sorted_simps)
    have a: "seen @ map (view_row v0) (r # rs) = (seen @ [?cur]) @ map (view_row v0) rs" by simp
    show ?thesis unfolding s e a by (rule Cons.IH [OF i m(2)])
  qed
qed auto

section \<open>The view\<close>

lemma groupby_single: "length (dr_meas r) = nm \<Longrightarrow> groupby nm [r] = [r]"
  using agg_ins_groupby [of r nm "[]"] by simp

lemma PrefixedAggregate_ok:
  assumes wr: "\<forall>n. wr n" and lim: "v_memoryLimit v div outRecSize v \<noteq> 0" and ne: "inp \<noteq> []"
    and inp: "list_all (\<lambda>r. length (dr_meas r) = nm_of v) inp" and ms: "length (mSums v) = nm_of v"
  shows "if sorted (map (dr_dims \<circ> view_row v) inp)
    then \<exists>v'. PrefixedAggregate wr inp v = Some (ADC_OK, v') \<and> view_done v (groupby (nm_of v) (map (view_row v) inp)) v'
    else PrefixedAggregate wr inp v = None"
proof -
  obtain r rs where r: "inp = r # rs" using ne by (cases inp) auto
  let ?cur = "view_row v r" let ?N = "unat (v_memoryLimit v div outRecSize v)"
  have m: "length (dr_meas r) = nm_of v" "list_all (\<lambda>r. length (dr_meas r) = nm_of v) rs" using inp r by simp_all
  then have "pa_inv v [?cur] ?cur ?cur [] 0 v"
    by (simp add: pa_inv_def groupby_single view_row_def SelectToView_def)
  note loop = pa_loop_ok [OF this wr _ m(2), of ?N]
  have N: "0 < ?N" using lim by (simp add: unat_gt_0)
  have start: "PrefixedAggregate wr inp v = (case pa_loop wr ?N rs ?cur ?cur [] 0 v of None \<Rightarrow> None
      | Some (ret, agg, out, n, v1) \<Rightarrow>
            (if ret \<noteq> 0 then Some (ret, v1)
             else (case write_rows wr (out @ [agg]) (pa_sums (Suc (length out)) agg v1) of (ret2, v2) \<Rightarrow>
                     if ret2 \<noteq> 0 then Some (ret2, v2)
                     else Some (ADC_OK, v2\<lparr>nViewRows := of_nat (n + Suc (length out)),
                       totalOfViewRows := totalOfViewRows v2 + of_nat (n + Suc (length out))\<rparr>))))"
    by (simp add: PrefixedAggregate_def r Let_def view_row_def)
  show ?thesis
  proof (cases "sorted (map (dr_dims \<circ> view_row v) inp)")
    case True
    with loop N r obtain prev' agg out n v' where l: "pa_loop wr ?N rs ?cur ?cur [] 0 v = Some (ADC_OK, agg, out, n, v')"
      "pa_inv v (map (view_row v) inp) prev' agg out n v'" by (auto split: if_splits)
    then obtain w where w: "groupby (nm_of v) (map (view_row v) inp) = w @ out @ [agg]" "viewFile v' = viewFile v @ w" "n = length w"
      "mSums v' = fold (\<lambda>d s. add_meas s (dr_meas d)) (w @ out) (mSums v)" "totalOfViewRows v' = totalOfViewRows v"
      by (auto simp: pa_inv_def)
    have "fold (\<lambda>d s. add_meas s (dr_meas d)) (w @ out @ [agg]) (mSums v) = add_meas (mSums v) (meas_sum (nm_of v) (w @ out @ [agg]))"
      using fold_add_meas [OF ms groupby_rec_ok [OF rows_rec_ok [OF inp]]] w(1) by simp
    with True l(1) w wr show ?thesis by (simp add: start write_rows_def view_done_def adc_codes)
  next
    case False
    with loop N r have "pa_loop wr ?N rs ?cur ?cur [] 0 v = None" by (auto split: if_splits)
    with False show ?thesis by (simp add: start)
  qed
qed

section \<open>Prefixes\<close>

lemma take_mono_lex: "(a :: 'a :: linorder list) \<le> b \<Longrightarrow> take n a \<le> take n b"
proof (induction a arbitrary: b n)
  case (Cons x a)
  then obtain y b' where b: "b = y # b'" by (cases b) auto
  show ?case
  proof (cases n)
    case (Suc m)
    then show ?thesis using Cons.IH [of b' m] Cons.prems by (auto simp: b)
  qed simp
qed simp

lemma prefix_row:
  assumes "selection v = map of_nat [1..<Suc (nv_of v)]" "nv_of v \<le> length (dr_dims r)" "nv_of v < 2 ^ 32"
  shows "dr_dims (view_row v r) = take (nv_of v) (dr_dims r)"
proof (rule nth_equalityI)
  show "length (dr_dims (view_row v r)) = length (take (nv_of v) (dr_dims r))"
    using assms(2) by (simp add: view_row_def SelectToView_def)
next
  fix i assume "i < length (dr_dims (view_row v r))"
  then have i: "i < nv_of v" by (simp add: view_row_def SelectToView_def)
  have "unat (of_nat (Suc i) :: u32) = Suc i" using i assms(3) by (simp only: unat_of_nat take_bit_eq_mod) simp
  then show "dr_dims (view_row v r) ! i = take (nv_of v) (dr_dims r) ! i"
    using i assms(1) by (simp add: view_row_def SelectToView_def nth_append del: upt_Suc of_nat_Suc)
qed

lemma prefix_sorted:
  assumes "selection v = map of_nat [1..<Suc (nv_of v)]" "nv_of v < 2 ^ 32" "\<forall>r \<in> set inp. nv_of v \<le> length (dr_dims r)"
    and "sorted (map dr_dims inp)"
  shows "sorted (map (dr_dims \<circ> view_row v) inp)"
proof -
  have "map (dr_dims \<circ> view_row v) inp = map (\<lambda>r. take (nv_of v) (dr_dims r)) inp"
    by (rule map_cong [OF refl]) (use assms(3) prefix_row [OF assms(1) _ assms(2)] in simp)
  moreover have "sorted (map (\<lambda>r. take (nv_of v) (dr_dims r)) inp)"
    using assms(4) by (simp add: sorted_map) (rule sorted_wrt_mono_rel, auto intro: take_mono_lex)
  ultimately show ?thesis by (simp only:)
qed

end
