(* ===== verification/Cube_Properties.thy ===== *)
theory Cube_Properties
  imports Cube_Heapsort Cube_Jobs Cube_Prefixed
begin

text \<open>
  The properties of the data-cube benchmark \<^verbatim>\<open>NPB-CPUTests/DC\<close>: the tree and its pool, the
  computation of a view in memory and by external sort, the choice of a parent view, the bit
  tuples and the sorts of the job control.
\<close>

section \<open>Examples\<close>

definition demo_rows :: "drec list" where
  "demo_rows = [\<lparr>dr_meas = [5], dr_dims = [1, 7]\<rparr>, \<lparr>dr_meas = [6], dr_dims = [2, 7]\<rparr>,
     \<lparr>dr_meas = [8], dr_dims = [1, 9]\<rparr>]"

definition demo_tree :: RBTree where
  "demo_tree = \<lparr>root_left = NULL, count = 0, treeNodeSize = 40, nodeDataSize = 12, memoryLimit = 4000,
     memaddr = 0, memoryIsFull = 0, freeNodeCounter = 100, nNodesLimit = 100, t_nd = 1, t_nm = 1\<rparr>"

definition demo_view :: ADC_VIEW_CNTL where
  "demo_view = \<lparr>v_nm = 1, v_nd = 2, v_nv = 1, selection = [1], outRecSize = 12, v_memoryLimit = 4000,
     nViewRows = 0, totalOfViewRows = 0, tree = demo_tree, numberOfChunks = 0,
     chunksParams = replicate 1024 \<lparr>curChunkNum = 0, chunkOffset = 0, posSubChunk = 0, curSubChunk = 0\<rparr>,
     mSums = [0], checksums = [0], viewFile = [], fileOfChunks = [], writes = 0\<rparr>"

lemma demo_node_size: "node_size 1 1 = 40"
  by (simp add: node_size_def sizeof_treeNode_def)

lemma demo_view_ok: "view_ok demo_view"
  by (simp add: view_ok_def demo_view_def demo_tree_def GetRecSize_def demo_node_size MAX_NUM_OF_CHUNKS_def)

lemma demo_tree_ok: "tree_ok demo_tree"
  by (simp add: tree_ok_def pool_ok_def demo_tree_def view_sorted_def demo_node_size)

section \<open>The tree\<close>

text \<open>
  C11. \<^verbatim>\<open>TreeInsert\<close> refines the insertion into an ordered list of rows: while the pool has a
  free node it keeps the invariant (key order, red-black shape with a black root, counters of
  the pool), and the rows in order become those of \<open>agg_ins\<close>: a new key is inserted in its
  place, a known one has the measures added modulo \<open>2 ^ 64\<close>.
\<close>

theorem TreeInsert_refines:
  assumes "tree_ok t" "memoryIsFull t = 0" "rec_ok (unat (t_nd t)) (unat (t_nm t)) attrs"
  shows "tree_ok (TreeInsert attrs t) \<and>
    rows (root_left (TreeInsert attrs t)) = agg_ins attrs (rows (root_left t))"
  using tree_ok_TreeInsert [OF assms] by simp

theorem TreeInsert_refines_witness:
  "rows (root_left (TreeInsert \<lparr>dr_meas = [5], dr_dims = [1]\<rparr> demo_tree)) = [\<lparr>dr_meas = [5], dr_dims = [1]\<rparr>]"
  using TreeInsert_refines [OF demo_tree_ok, of "\<lparr>dr_meas = [5], dr_dims = [1]\<rparr>"]
  by (simp add: demo_tree_def rec_ok_def)

text \<open>
  C28. Memory safety of \<^verbatim>\<open>TreeInsert\<close> within the limits of \<^verbatim>\<open>adcc.h\<close>: the node it takes
  lies inside the pool and its address does not wrap, the row fits into the node behind the
  two pointers and the colour, and the search path stays below the 64 entries of the arrays
  \<^verbatim>\<open>nodes\<close> and \<^verbatim>\<open>drcts\<close>.
\<close>

theorem TreeInsert_memory_safe:
  assumes "tree_ok t" "memoryIsFull t = 0" "1 \<le> unat (t_nd t)" "unat (t_nd t) \<le> 20" "unat (t_nm t) \<le> 4"
  shows "unat (memaddr t) + unat (treeNodeSize t) \<le> unat (memoryLimit t) \<and>
    24 + unat (nodeDataSize t) \<le> unat (treeNodeSize t) \<and> 8 dvd unat (treeNodeSize t) \<and>
    path_bound t attrs < MAX_TREE_HEIGHT"
proof -
  have pool: "pool_ok t" using assms(1) by (simp add: tree_ok_def)
  then have sz: "treeNodeSize t = node_size (t_nd t) (t_nm t)" "nodeDataSize t = 4 * t_nd t + 8 * t_nm t"
    unfolding pool_ok_def by blast+
  have "unat (nodeDataSize t) = 4 * unat (t_nd t) + 8 * unat (t_nm t)"
    using assms(3-5) by (simp add: sz(2) unat_word_ariths)
  moreover note node_size_unat [OF assms(3-5)]
  ultimately have size: "24 + unat (nodeDataSize t) \<le> unat (treeNodeSize t)" "32 \<le> unat (treeNodeSize t)"
    "8 dvd unat (treeNodeSize t)"
    using assms(3) unfolding sz(1) by (auto elim!: evenE oddE)
  with pool_in_bounds [OF pool assms(2)] path_in_bounds [OF assms(1) size(2)] show ?thesis by simp
qed

theorem TreeInsert_memory_safe_witness:
  "path_bound demo_tree \<lparr>dr_meas = [5], dr_dims = [1]\<rparr> < MAX_TREE_HEIGHT"
  using TreeInsert_memory_safe [OF demo_tree_ok, of "\<lparr>dr_meas = [5], dr_dims = [1]\<rparr>"]
  by (simp add: demo_tree_def)

section \<open>Views\<close>

text \<open>
  C1. The external sort computes the view: with successful writes, whatever the size of the
  pool, \<^verbatim>\<open>RunFormation\<close> followed by \<^verbatim>\<open>WriteViewToDiskCS\<close> or \<^verbatim>\<open>MultiWayMerge\<close> returns, and
  unless it reports too many chunks or too little merge memory, it has appended to the view
  file one row per key, in key order, with the sums of the measures; the row counters and the
  totals agree with those rows.
\<close>

theorem compute_view_correct:
  fixes v :: ADC_VIEW_CNTL
  assumes "\<forall>n. wr n" "view_ok v" "numberOfChunks v = 0" "fileOfChunks v = []"
    and "\<forall>r \<in> set inp. length (dr_meas r) = nm_of v" "length (mSums v) = nm_of v"
  defines "g \<equiv> groupby (nm_of v) (map (\<lambda>r. SelectToView r (selection v) (nv_of v)) inp)"
  shows "\<exists>ret v'. compute_view wr pool inp v = Some (ret, v') \<and>
    (ret = ADC_INTERNAL_ERROR \<or>
     (ret = ADC_OK \<and> viewFile v' = viewFile v @ g \<and> nViewRows v' = of_nat (length g) \<and>
      totalOfViewRows v' = totalOfViewRows v + of_nat (length g) \<and>
      mSums v' = add_meas (mSums v) (meas_sum (nm_of v) g)))"
proof -
  have "view_row v = (\<lambda>r. SelectToView r (selection v) (nv_of v))" by (simp add: view_row_def fun_eq_iff)
  then show ?thesis
    using compute_view_ok [OF assms(1-4), of inp pool] assms(5,6)
    by (auto simp: list_all_iff view_done_def g_def)
qed

theorem compute_view_correct_witness:
  "\<exists>ret v'. compute_view (\<lambda>_. True) (\<lambda>_. hd demo_rows) demo_rows demo_view = Some (ret, v') \<and>
    (ret = ADC_INTERNAL_ERROR \<or> viewFile v' =
       groupby 1 (map (\<lambda>r. SelectToView r [1] 1) demo_rows))"
  using compute_view_correct [of "\<lambda>_. True" demo_view demo_rows "\<lambda>_. hd demo_rows", OF _ demo_view_ok]
  by (fastforce simp: demo_view_def demo_rows_def)

text \<open>
  \<^verbatim>\<open>ComputeMemoryFittedView\<close> succeeds exactly when the view leaves a node of the pool
  unused, and then counts the rows of the view and adds its checksums; otherwise it returns
  1. A view with as many rows as the pool has nodes is therefore refused although it would fit.
\<close>

theorem memory_fitted_view:
  fixes v :: ADC_VIEW_CNTL
  assumes "view_ok v" "\<forall>r \<in> set inp. length (dr_meas r) = nm_of v" "length (checksums v) = nm_of v"
  defines "g \<equiv> groupby (nm_of v) (map (\<lambda>r. SelectToView r (selection v) (nv_of v)) inp)"
  shows "if length g < unat (memoryLimit (tree v) div node_size (v_nv v) (v_nm v))
    then \<exists>v'. ComputeMemoryFittedView inp v = (ADC_OK, v') \<and> nViewRows v' = of_nat (length g) \<and>
      totalOfViewRows v' = totalOfViewRows v + of_nat (length g) \<and>
      checksums v' = view_checks (nm_of v) (checksums v) g
    else fst (ComputeMemoryFittedView inp v) = 1"
proof -
  have eq: "view_row v = (\<lambda>r. SelectToView r (selection v) (nv_of v))" by (simp add: view_row_def fun_eq_iff)
  have "list_all (\<lambda>r. length (dr_meas r) = nm_of v) inp" using assms(2) by (simp add: list_all_iff)
  from ComputeMemoryFittedView_ok [OF assms(1) this assms(3)] show ?thesis
    unfolding g_def pool_nodes_def eq .
qed

theorem memory_fitted_view_witness: "fst (ComputeMemoryFittedView demo_rows demo_view) = ADC_OK"
proof -
  have "length (groupby 1 (map (\<lambda>r. SelectToView r [1] 1) demo_rows)) \<le> 3"
    by (rule order_trans [OF length_groupby_le]) (simp add: demo_rows_def)
  then have "length (groupby (nm_of demo_view) (map (\<lambda>r. SelectToView r (selection demo_view) (nv_of demo_view)) demo_rows))
      < unat (memoryLimit (tree demo_view) div node_size (v_nv demo_view) (v_nm demo_view))"
    by (simp add: demo_view_def demo_tree_def demo_node_size)
  with memory_fitted_view [OF demo_view_ok, of demo_rows] show ?thesis
    by (fastforce simp: demo_view_def demo_rows_def)
qed

text \<open>
  A failed \<^verbatim>\<open>fwrite\<close> is reported: \<^verbatim>\<open>WriteViewToDiskCS\<close> returns \<^verbatim>\<open>ADC_OK\<close> exactly when
  every row was written, and in any case the view file has grown by the rows, in order, that
  precede the first failure.
\<close>

theorem WriteViewToDiskCS_reports_failure:
  assumes "WriteViewToDiskCS wr t k v = (ret, k', v')"
  shows "(ret = ADC_OK \<longleftrightarrow> (\<forall>i < length (rows t). wr (writes v + i))) \<and>
    (\<exists>g \<le> length (rows t). viewFile v' = viewFile v @ take g (rows t) \<and> (\<forall>i < g. wr (writes v + i)) \<and>
       (g < length (rows t) \<longrightarrow> \<not> wr (writes v + g) \<and> ret = ADC_WRITE_FAILED))"
proof -
  let ?n = "length (rows t)"
  let ?g = "good_writes wr (writes v) ?n"
  have all: "\<forall>i < ?g. wr (writes v + i)"
  proof (intro allI impI)
    fix i assume "i < ?g"
    then have "i < length (takeWhile wr [writes v..<writes v + ?n])" by (simp add: good_writes_def)
    then show "wr (writes v + i)" using nth_mem set_takeWhileD takeWhile_nth
      by (metis good_writes_def good_writes_le \<open>i < ?g\<close> nth_upt add_less_cancel_left order_less_le_trans)
  qed
  have stop: "\<not> wr (writes v + ?g)" if "?g < ?n"
    using nth_length_takeWhile [of wr "[writes v..<writes v + ?n]"] that by (simp add: good_writes_def)
  have "(?g = ?n) \<longleftrightarrow> (\<forall>i < ?n. wr (writes v + i))"
    using all stop good_writes_le [of wr "writes v" ?n] by (metis le_neq_implies_less)
  with WriteViewToDiskCS_writes [OF assms] all stop good_writes_le [of wr "writes v" ?n] show ?thesis
    by (auto simp: Let_def adc_codes intro!: exI [of _ ?g])
qed

theorem WriteViewToDiskCS_reports_failure_witness:
  "fst (WriteViewToDiskCS (\<lambda>n. n < 1) (TN NULL (TN NULL NULL RED (demo_rows ! 1)) BLACK (demo_rows ! 0)) 0 demo_view)
    = ADC_WRITE_FAILED"
proof -
  obtain ret k' v' where eq: "WriteViewToDiskCS (\<lambda>n. n < 1)
      (TN NULL (TN NULL NULL RED (demo_rows ! 1)) BLACK (demo_rows ! 0)) 0 demo_view = (ret, k', v')"
    by (metis prod_cases3)
  have w: "writes demo_view = 0" by (simp add: demo_view_def)
  from WriteViewToDiskCS_reports_failure [OF eq] obtain g where g: "g \<le> 2"
    "\<forall>i < g. writes demo_view + i < 1" "g < 2 \<longrightarrow> ret = ADC_WRITE_FAILED" by auto
  have "g < 2"
  proof (rule ccontr)
    assume "\<not> g < 2"
    with g(2) [rule_format, of 1] w show False by simp
  qed
  with g(3) eq show ?thesis by simp
qed

text \<open>
  The two ways of writing a view disagree on its checksums as soon as there are two
  measures: \<^verbatim>\<open>WriteViewToDiskCS\<close> (and \<^verbatim>\<open>computeChecksum\<close>) advance the order number for every
  measure, \<^verbatim>\<open>MultiWayMerge\<close> multiplies by the number of the row. For one row of small
  measures the second checksum is doubled by the one and not by the other, so the result of
  the benchmark depends on whether the tree fitted into memory.
\<close>

theorem checksum_paths_differ:
  fixes v :: ADC_VIEW_CNTL and a b :: u64 and ds :: "u32 list"
  assumes "wr (writes v)" "nm_of v = 2" "nViewRows v = 0" "unat b < 15000" "0 < unat b"
    and "checksums v = [0, 0]"
  defines "r \<equiv> \<lparr>dr_meas = [a, b], dr_dims = ds\<rparr>"
  shows "checksums (snd (snd (WriteViewToDiskCS wr (TN NULL NULL c r) 0 v))) ! 1 = 2 * b \<and>
    checksums (snd (merge_out wr r v)) ! 1 = b \<and> 2 * b \<noteq> b"
proof -
  have mb: "unat (of_nat measbound :: u64) = 31415" by (simp add: measbound_def)
  have two: "unat (2 * b) = 2 * unat b" using assms(4) by (simp add: unat_word_ariths)
  then have m2: "2 * b mod of_nat measbound = 2 * b"
    using assms(4) by (intro mod_word_less) (simp add: word_less_nat_alt mb)
  have "sint b = int (unat b)"
    using assms(4) by (intro sint_u64_small) simp
  moreover have "int (unat b) < int 15000" using assms(4) by (simp only: of_nat_less_iff)
  ultimately have "c_mod (sint b) (int measbound) = int (unat b)" by (simp add: measbound_def)
  moreover have "2 * b \<noteq> b" using two assms(5) by auto
  ultimately show ?thesis
    using m2 assms(1-3,6)
    by (simp add: r_def write_view_def add_checks_def add_sums_def merge_out_def merge_checks_def adc_codes upt_rec)
qed

theorem checksum_paths_differ_witness:
  "checksums (snd (merge_out (\<lambda>_. True) \<lparr>dr_meas = [3, 4], dr_dims = [1]\<rparr>
     (demo_view\<lparr>v_nm := 2, mSums := [0, 0], checksums := [0, 0]\<rparr>))) ! 1 = 4"
  using checksum_paths_differ [where wr = "\<lambda>_. True" and b = 4 and a = 3 and ds = "[1]" and c = RED
      and v = "demo_view\<lparr>v_nm := 2, mSums := [0, 0], checksums := [0, 0]\<rparr>"]
  by (simp add: demo_view_def)

section \<open>The lattice of views\<close>

text \<open>
  C20. A view computed from the parent that \<^verbatim>\<open>GetParent\<close> chooses is the view of the input. The
  chosen entry of the pool has all attributes of the view; if its rows are the view of the
  input for its own tuple, then projecting them on the selection that
  \<^verbatim>\<open>GetRegTupleFromParent\<close> computes and grouping again yields exactly the view of the input
  for the attributes of \<^verbatim>\<open>GetRegTupleFromBin64\<close>.
\<close>

theorem view_from_parent:
  fixes nm :: nat and inp :: "drec list"
  assumes "nTopDims j \<le> 32" "j_groupby j = tuple32 (nTopDims j) t"
    and "GetParent (j_groupby j) j = (k, j')" "k \<noteq> noneParent"
    and "\<forall>r \<in> set inp. length (dr_meas r) = nm"
  defines "nd \<equiv> nTopDims j" and "p \<equiv> parBinRepTuple j'"
  defines "P \<equiv> getRegTupleFromBin32 p nd" and "R \<equiv> GetRegTupleFromParent t p nd"
    and "C \<equiv> GetRegTupleFromBin64 t nd"
  shows "(\<exists>l. \<exists>i \<in> level_views j l. j' = take_parent l i j) \<and>
    groupby nm (map (\<lambda>r. SelectToView r R (length C)) (groupby nm (map (\<lambda>r. SelectToView r P (length P)) inp))) =
      groupby nm (map (\<lambda>r. SelectToView r C (length C)) inp)"
proof -
  from parent_levels_ok [OF assms(3) [unfolded GetParent_def]] assms(4) obtain l i where
    i: "i \<in> level_views j l" "j' = take_parent l i j" "sp_test j (grpb (jpp j ! i))" by blast
  then have "sp_test j p" by (simp add: p_def take_parent_def)
  then have sub: "tuple_sub nd t p" using sp_test_sub [OF assms(1,2)] by (simp add: nd_def)
  have sel: "SelectToView (SelectToView r P (length P)) R (length C) = SelectToView r C (length C)" for r
    using select_via_parent [OF assms(1) [folded nd_def] sub, of r] by (simp add: P_def R_def C_def)
  have "\<forall>r \<in> set (map (\<lambda>r. SelectToView r P (length P)) inp). length (dr_meas r) = nm"
    using assms(5) by (auto simp: SelectToView_def)
  moreover have "length (dr_dims (SelectToView r R (length C))) = length C" for r
    by (simp add: SelectToView_def)
  ultimately show ?thesis
    using groupby_projection [OF projection_SelectToView, of R "length C" "length C"
        "map (\<lambda>r. SelectToView r P (length P)) inp" nm] i by (auto simp: comp_def sel)
qed

definition demo_jobs :: jobs where
  "demo_jobs = \<lparr>nTopDims = 2, j_groupby = 0x80000000,
     jpp = [\<lparr>grpb = 0, jp_nv = 0, nRows = 0, jp_offset = 0\<rparr>, \<lparr>grpb = 0, jp_nv = 0, nRows = 0, jp_offset = 0\<rparr>,
            \<lparr>grpb = 0, jp_nv = 0, nRows = 0, jp_offset = 0\<rparr>, \<lparr>grpb = 0xC0000000, jp_nv = 2, nRows = 3, jp_offset = 0\<rparr>],
     lpp = [\<lparr>layerIndex = 0, layerQuantityLimit = 0, layerCurrentPopulation = 0\<rparr>,
            \<lparr>layerIndex = 1, layerQuantityLimit = 2, layerCurrentPopulation = 0\<rparr>,
            \<lparr>layerIndex = 3, layerQuantityLimit = 1, layerCurrentPopulation = 1\<rparr>],
     smallestParentLevel = 0, viewOffset = 0, nParentViewRows = 0, parBinRepTuple = 0\<rparr>"

theorem view_from_parent_witness:
  "groupby 1 (map (\<lambda>r. SelectToView r [1] 1) (groupby 1 (map (\<lambda>r. SelectToView r [1, 2] 2) demo_rows))) =
    groupby 1 (map (\<lambda>r. SelectToView r [1] 1) demo_rows)"
proof -
  have run: "GetParent 0x80000000 demo_jobs = (prefixedParent, take_parent 2 3 demo_jobs)"
    by code_simp
  have g: "j_groupby demo_jobs = 0x80000000" by (simp add: demo_jobs_def)
  have t: "j_groupby demo_jobs = tuple32 (nTopDims demo_jobs) 0x8000000000000000" by code_simp
  have sel: "getRegTupleFromBin32 0xC0000000 2 = [1, 2]" "GetRegTupleFromParent 0x8000000000000000 0xC0000000 2 = [1]"
    "GetRegTupleFromBin64 0x8000000000000000 2 = [1]" by code_simp+
  have nd: "nTopDims demo_jobs = 2" "parBinRepTuple (take_parent 2 3 demo_jobs) = 0xC0000000"
    by (simp_all add: demo_jobs_def take_parent_def)
  have "\<forall>r \<in> set demo_rows. length (dr_meas r) = 1" by (simp add: demo_rows_def)
  from view_from_parent [OF _ t run [folded g] _ this] show ?thesis by (simp add: nd sel flip: numeral_2_eq_2)
qed

text \<open>
  C31. \<^verbatim>\<open>PrefixedAggregate\<close>, a single pass without a tree, computes the same view as grouping the
  input: from a parent view of which the view takes the first attributes, and whatever the size
  of its buffer, the rows written are those of the view, and their number and the sums of the
  measures are the right ones.
\<close>

theorem prefixed_view_correct:
  fixes v :: ADC_VIEW_CNTL
  assumes "\<forall>n. wr n" "v_memoryLimit v div outRecSize v \<noteq> 0" "length (mSums v) = nm_of v"
    and "base \<noteq> []" "list_all (rec_ok nd (nm_of v)) base" "nv_of v \<le> nd" "selection v = map of_nat [1..<Suc (nv_of v)]"
  defines "g \<equiv> groupby (nm_of v) (map (\<lambda>r. SelectToView r (selection v) (nv_of v)) base)"
  shows "\<exists>v'. PrefixedAggregate wr (groupby (nm_of v) base) v = Some (ADC_OK, v') \<and>
    viewFile v' = viewFile v @ g \<and> nViewRows v' = of_nat (length g) \<and>
    totalOfViewRows v' = totalOfViewRows v + of_nat (length g) \<and> mSums v' = add_meas (mSums v) (meas_sum (nm_of v) g)"
proof -
  let ?inp = "groupby (nm_of v) base"
  have ok: "list_all (rec_ok nd (nm_of v)) ?inp" by (rule groupby_rec_ok [OF assms(5)])
  have ne: "?inp \<noteq> []" using assms(4) by simp
  have "sorted (map (dr_dims \<circ> view_row v) ?inp)"
    by (rule prefix_sorted [OF assms(7)])
      (use ok assms(6) unat_u32_less [of "v_nv v"] in \<open>auto simp: list_all_iff rec_ok_def groupby_dims\<close>)
  with PrefixedAggregate_ok [OF assms(1,2) ne _ assms(3)] ok
  obtain v' where v': "PrefixedAggregate wr ?inp v = Some (ADC_OK, v')" "view_done v (groupby (nm_of v) (map (view_row v) ?inp)) v'"
    by (auto simp: list_all_iff rec_ok_def)
  have "view_row v = (\<lambda>r. SelectToView r (selection v) (nv_of v))" by (simp add: view_row_def fun_eq_iff)
  moreover have "\<forall>r \<in> set base. length (dr_meas r) = nm_of v" using assms(5) by (simp add: list_all_iff rec_ok_def)
  ultimately have "groupby (nm_of v) (map (view_row v) ?inp) = g"
    using groupby_projection [OF projection_SelectToView, of "selection v" "nv_of v" "nv_of v" base] by (simp add: g_def SelectToView_def)
  with v' show ?thesis by (simp add: view_done_def)
qed

theorem prefixed_view_correct_witness:
  "\<exists>v'. PrefixedAggregate (\<lambda>_. True) (groupby 1 demo_rows) demo_view = Some (ADC_OK, v') \<and>
    viewFile v' = groupby 1 (map (\<lambda>r. SelectToView r [1] 1) demo_rows)"
  using prefixed_view_correct [of "\<lambda>_. True" demo_view demo_rows 2]
  by (fastforce simp: demo_view_def demo_rows_def rec_ok_def)

text \<open>
  Its checksums depend on the size of the buffer: the number of the row is counted from the start
  of the buffer.
\<close>
lemma prefixed_checksum_depends_on_buffer:
  defines "v \<equiv> \<lparr>v_nm = 1, v_nd = 2, v_nv = 1, selection = [1], outRecSize = 12, v_memoryLimit = 4000, nViewRows = 0,
      totalOfViewRows = 0, tree = demo_tree, numberOfChunks = 0, chunksParams = [], mSums = [0], checksums = [0], viewFile = [],
      fileOfChunks = [], writes = 0\<rparr>" and "rs \<equiv> [\<lparr>dr_meas = [5], dr_dims = [1, 7]\<rparr>, \<lparr>dr_meas = [6], dr_dims = [2, 7]\<rparr>]"
  shows "map_option (checksums \<circ> snd) (PrefixedAggregate (\<lambda>_. True) rs v) = Some [17] \<and>
    map_option (checksums \<circ> snd) (PrefixedAggregate (\<lambda>_. True) rs (v\<lparr>v_memoryLimit := 12\<rparr>)) = Some [11]"
  by (simp add: v_def rs_def PrefixedAggregate_def pa_sums_def add_sums_def add_meas_def write_rows_def SelectToView_def measbound_def adc_codes)

text \<open>
  \<^verbatim>\<open>GetSmallestParent\<close> fails exactly when no finished view of the levels it searches has
  all attributes of the view; otherwise it takes, from the first level that has one, a parent
  with the fewest rows.
\<close>

theorem GetSmallestParent_minimal:
  assumes "GetSmallestParent bin j = (found, j')"
  defines "L \<equiv> {NumberOfOnes (ucast bin)..nTopDims j}"
  shows "(\<not> found \<longrightarrow> j' = j \<and> (\<forall>l \<in> L. \<forall>i \<in> level_views j l. \<not> sp_test j (grpb (jpp j ! i)))) \<and>
    (found \<longrightarrow> (\<exists>l \<in> L. \<exists>ig \<in> level_views j l. j' = take_parent l ig j \<and> sp_test j (grpb (jpp j ! ig)) \<and>
       (\<forall>m \<in> L. m < l \<longrightarrow> (\<forall>i \<in> level_views j m. \<not> sp_test j (grpb (jpp j ! i)))) \<and>
       (\<forall>i \<in> level_views j l. sp_test j (grpb (jpp j ! i)) \<longrightarrow> nRows (jpp j ! ig) \<le> nRows (jpp j ! i))))"
proof -
  let ?levels = "[NumberOfOnes (ucast bin)..<Suc (nTopDims j)]"
  have L: "set ?levels = L" by (auto simp: L_def)
  from smallest_loop_ok [OF assms(1) [unfolded GetSmallestParent_def]] show ?thesis
  proof (elim disjE conjE exE)
    fix ls l rs ig
    assume split: "?levels = ls @ l # rs" and found: "found"
      and rest: "ig \<in> level_views j l" "j' = take_parent l ig j" "sp_test j (grpb (jpp j ! ig))"
        "\<forall>m \<in> set ls. \<forall>i \<in> level_views j m. \<not> sp_test j (grpb (jpp j ! i))"
        "\<forall>i \<in> level_views j l. sp_test j (grpb (jpp j ! i)) \<longrightarrow> nRows (jpp j ! ig) \<le> nRows (jpp j ! i)"
    have "sorted_wrt (<) (ls @ l # rs)" using sorted_wrt_upt [of "NumberOfOnes (ucast bin)" "Suc (nTopDims j)"] split by simp
    moreover have Ls: "L = set ls \<union> {l} \<union> set rs" using L unfolding split by auto
    ultimately have "m \<in> set ls" if "m \<in> L" "m < l" for m
      using that by (auto simp: sorted_wrt_append)
    moreover have "l \<in> L" using Ls by simp
    ultimately show ?thesis using found rest by blast
  qed (use L in auto)
qed

theorem GetSmallestParent_minimal_witness:
  "\<exists>l \<in> {NumberOfOnes 0x80000000..2}. \<exists>ig \<in> level_views demo_jobs l. sp_test demo_jobs (grpb (jpp demo_jobs ! ig))"
proof -
  have "GetSmallestParent 0x80000000 demo_jobs = (True, take_parent 2 3 demo_jobs)" by code_simp
  from GetSmallestParent_minimal [OF this] show ?thesis by (auto simp: demo_jobs_def)
qed

text \<open>
  Tuples and selections are inverse to each other: \<^verbatim>\<open>GetRegTupleFromBin64\<close> recovers any
  increasing selection of attributes from the tuple that \<^verbatim>\<open>CreateBinTuple\<close> made of it, and the
  number of ones of that tuple is the number of selected attributes.
\<close>

theorem tuple_selection_roundtrip:
  assumes "sorted_wrt (<) sel" "\<forall>a \<in> set sel. 1 \<le> unat a \<and> unat a \<le> nd" "nd \<le> 64"
  shows "GetRegTupleFromBin64 (CreateBinTuple sel) nd = sel \<and> NumberOfOnes (CreateBinTuple sel) = length sel"
proof -
  have all64: "\<forall>a \<in> set sel. 1 \<le> unat a \<and> unat a \<le> 64" using assms(2,3) by auto
  have conv: "GetRegTupleFromBin64 (CreateBinTuple sel) m = sel" if m: "m \<le> 64" "nd \<le> m" for m
  proof -
    let ?f = "\<lambda>i. of_nat (i + 1) :: u32"
    have "filter (\<lambda>i. bit (CreateBinTuple sel) (63 - i)) [0..<m] = filter (\<lambda>i. ?f i \<in> set sel) [0..<m]"
      using m(1) by (intro filter_cong) (auto simp: CreateBinTuple_bit [OF all64] simp del: of_nat_add)
    then have eq: "GetRegTupleFromBin64 (CreateBinTuple sel) m = map ?f (filter (\<lambda>i. ?f i \<in> set sel) [0..<m])"
      using GetRegTupleFromBin64_filter [OF m(1)] by simp
    have mono: "?f i < ?f k \<longleftrightarrow> i < k" if "i < 64" "k < 64" for i k
      using that unat_small [of "i + 1"] unat_small [of "k + 1"] by (simp add: word_less_nat_alt del: of_nat_add)
    have "sorted_wrt (<) (map ?f (filter (\<lambda>i. ?f i \<in> set sel) [0..<m]))"
    proof -
      have "sorted_wrt (<) (filter (\<lambda>i. ?f i \<in> set sel) [0..<m])" by (rule sorted_wrt_filter) (rule sorted_wrt_upt)
      then show ?thesis unfolding sorted_wrt_map
        by (rule sorted_wrt_mono_rel [rotated]) (use m mono in auto)
    qed
    moreover have "set (map ?f (filter (\<lambda>i. ?f i \<in> set sel) [0..<m])) = set sel"
    proof
      show "set sel \<subseteq> set (map ?f (filter (\<lambda>i. ?f i \<in> set sel) [0..<m]))"
      proof
        fix a assume a: "a \<in> set sel"
        then have r: "1 \<le> unat a" "unat a \<le> m" using assms(2) m(2) by auto
        then have "?f (unat a - 1) = a" by (simp del: of_nat_add of_nat_diff)
        moreover have "unat a - 1 < m" using r by simp
        ultimately show "a \<in> set (map ?f (filter (\<lambda>i. ?f i \<in> set sel) [0..<m]))"
          using a by (auto simp del: of_nat_add intro!: image_eqI [of _ _ "unat a - 1"])
      qed
    qed auto
    ultimately show ?thesis
      unfolding eq using assms(1) by (metis sorted_list_of_set_unique strict_sorted_equal List.finite_set)
  qed
  show ?thesis using conv [of nd] conv [of 64] assms(3) by (simp add: NumberOfOnes_length)
qed

theorem tuple_selection_roundtrip_witness: "GetRegTupleFromBin64 (CreateBinTuple [1, 3]) 4 = [1, 3]"
  using tuple_selection_roundtrip [of "[1, 3]" 4] by simp

text \<open>
  \<^verbatim>\<open>vszsort\<close> and \<^verbatim>\<open>onessort\<close> sort: the first \<open>n\<close> entries end in increasing order of the
  view size (of the number of attributes), as a permutation of what they were, and the
  entries behind them are untouched.
\<close>

theorem heap_sorts_correct:
  assumes "n \<le> length x" "m \<le> length y"
  shows "mset (vszsort x n) = mset x \<and> sorted (map viewsize (take n (vszsort x n))) \<and> drop n (vszsort x n) = drop n x \<and>
    mset (onessort y m) = mset y \<and> sorted (map nOnes (take m (onessort y m))) \<and> drop m (onessort y m) = drop m y"
  unfolding vszsort_def onessort_def
  using heapsort_by_ok [OF assms(1), of viewsize] heapsort_by_ok [OF assms(2), of nOnes] by blast

theorem heap_sorts_correct_witness:
  "sorted (map viewsize (vszsort [\<lparr>viewsize = 9, vs_tuple = 1\<rparr>, \<lparr>viewsize = 4, vs_tuple = 2\<rparr>] 2))"
proof -
  let ?x = "[\<lparr>viewsize = 9, vs_tuple = 1\<rparr>, \<lparr>viewsize = 4, vs_tuple = 2\<rparr>]"
  have r: "2 \<le> length ?x" "0 \<le> length ([] :: TUPLE_ONES list)" by simp_all
  have "mset (vszsort ?x 2) = mset ?x" using heap_sorts_correct [OF r] by blast
  then have "length (vszsort ?x 2) = 2" using mset_eq_length by fastforce
  then show ?thesis using heap_sorts_correct [OF r] by simp
qed

end
