(* ===== verification/Tftp_Buffers.thy ===== *)
theory Tftp_Buffers
  imports Baseliner_Prelude
begin

text \<open>
  The read-ahead and write-behind buffers of the TFTP server
  (\<^verbatim>\<open>src/iputils-ns/tftpsubs.c\<close>): two packet buffers, the conversion between a file
  and netascii, and their functional specification. A packet buffer is the list of its
  \<^verbatim>\<open>PKTSIZE\<close> bytes, so that what an earlier packet left behind stays visible; a file that
  is read is the list of the bytes still to come, a file that is written is its contents
  with a position.
\<close>

section \<open>Constants of tftp.h and the header fields\<close>

type_synonym byte = u8

definition SEGSIZE :: nat where "SEGSIZE = 512"
definition PKTSIZE :: nat where "PKTSIZE = SEGSIZE + 4"
definition RRQ :: int where "RRQ = 1"
definition WRQ :: int where "WRQ = 2"
definition DATA :: int where "DATA = 3"
definition ACK :: int where "ACK = 4"
definition ERROR :: int where "ERROR = 5"

text \<open>
  A \<^verbatim>\<open>short\<close> in memory, low byte first; the same number in network order; and the two
  assignments \<^verbatim>\<open>h = ntohs(h)\<close> on the header of a buffer.
\<close>

definition short_le :: "byte \<Rightarrow> byte \<Rightarrow> int" where
  "short_le a b = sint (word_of_int (uint a + 256 * uint b) :: 16 word)"

definition be16 :: "int \<Rightarrow> byte list" where
  "be16 n = [word_of_int (n div 256), word_of_int n]"

definition th_opcode :: "byte list \<Rightarrow> int" where
  "th_opcode b = short_le (b ! 0) (b ! 1)"

definition th_block :: "byte list \<Rightarrow> int" where
  "th_block b = short_le (b ! 2) (b ! 3)"

fun hdr_ntohs :: "byte list \<Rightarrow> byte list" where
  "hdr_ntohs (a # b # c # d # r) = b # a # d # c # r"
| "hdr_ntohs r = r"

text \<open>Storing a received datagram, the header, and the data part, over a buffer.\<close>

definition recv_into :: "byte list \<Rightarrow> byte list \<Rightarrow> byte list" where
  "recv_into p b = (let q = take PKTSIZE p in q @ drop (length q) b)"

definition set_header :: "int \<Rightarrow> int \<Rightarrow> byte list \<Rightarrow> byte list" where
  "set_header opc blk b = be16 opc @ be16 blk @ drop 4 b"

definition store_data :: "byte list \<Rightarrow> byte list \<Rightarrow> byte list" where
  "store_data ds b = take 4 b @ ds @ drop (4 + length ds) b"

section \<open>Files\<close>

text \<open>
  \<open>in_rest\<close> holds the bytes that can still be read; \<open>in_err\<close> says whether an error rather
  than the end of the file follows them. \<open>out_room\<close> is the size up to which the file can
  grow.
\<close>

record infile =
  in_rest :: "byte list"
  in_err :: bool

record outfile =
  out_data :: "byte list"
  out_pos :: nat
  out_room :: nat

definition putc_out :: "byte \<Rightarrow> outfile \<Rightarrow> outfile" where
  "putc_out c f =
    (if out_pos f < out_room f
     then f\<lparr>out_data := take (out_pos f) (out_data f) @ [c] @ drop (Suc (out_pos f)) (out_data f),
            out_pos := Suc (out_pos f)\<rparr>
     else f)"

definition seek_back :: "outfile \<Rightarrow> outfile" where
  "seek_back f = f\<lparr>out_pos := out_pos f - 1\<rparr>"

definition write_out :: "byte list \<Rightarrow> outfile \<Rightarrow> int \<times> outfile" where
  "write_out bs f =
    (let k = min (length bs) (out_room f - out_pos f)
     in (if k = 0 then -1 else int k,
         f\<lparr>out_data := take (out_pos f) (out_data f) @ take k bs @ drop (out_pos f + k) (out_data f),
           out_pos := out_pos f + k\<rparr>))"

section \<open>The two buffers\<close>

record bf =
  counter :: int
  buf :: "byte list"

definition BF_ALLOC :: int where "BF_ALLOC = -3"
definition BF_FREE :: int where "BF_FREE = -2"

record tftp_bufs =
  bfs :: "bf list"
  nextone :: nat
  current :: nat
  newline :: int
  prevchar :: int

definition rw_init :: "nat \<Rightarrow> tftp_bufs \<Rightarrow> tftp_bufs" where
  "rw_init x t =
    t\<lparr>newline := 0, prevchar := -1,
      bfs := [(bfs t ! 0)\<lparr>counter := BF_ALLOC\<rparr>, (bfs t ! 1)\<lparr>counter := BF_FREE\<rparr>],
      current := 0, nextone := x\<rparr>"

definition w_init :: "tftp_bufs \<Rightarrow> tftp_bufs" where "w_init = rw_init 0"
definition r_init :: "tftp_bufs \<Rightarrow> tftp_bufs" where "r_init = rw_init 1"

text \<open>
  The loop of \<^verbatim>\<open>read_ahead\<close> for netascii: it fills at most \<open>k\<close> bytes and returns them with
  the new \<^verbatim>\<open>newline\<close>, \<^verbatim>\<open>prevchar\<close> and the rest of the file.
\<close>

fun fill_loop :: "nat \<Rightarrow> int \<Rightarrow> int \<Rightarrow> byte list \<Rightarrow> byte list \<times> int \<times> int \<times> byte list" where
  "fill_loop 0 nl pc cs = ([], nl, pc, cs)"
| "fill_loop (Suc k) nl pc cs =
    (if nl \<noteq> 0 then
       (case fill_loop k 0 pc cs of (out, r) \<Rightarrow> ((if pc = 10 then 10 else 0) # out, r))
     else (case cs of
         [] \<Rightarrow> ([], nl, pc, [])
       | c # cs' \<Rightarrow>
           if c = 10 \<or> c = 13 then (case fill_loop k 1 (uint c) cs' of (out, r) \<Rightarrow> (13 # out, r))
           else (case fill_loop k nl pc cs' of (out, r) \<Rightarrow> (c # out, r))))"

definition read_ahead :: "int \<Rightarrow> infile \<Rightarrow> tftp_bufs \<Rightarrow> infile \<times> tftp_bufs" where
  "read_ahead convert f t =
    (let n = nextone t; b = bfs t ! n
     in if counter b \<noteq> BF_FREE then (f, t)
        else
          (let t1 = t\<lparr>nextone := 1 - n\<rparr>
           in if convert = 0 then
                (if in_rest f = [] \<and> in_err f then (f, t1\<lparr>bfs := (bfs t1)[n := b\<lparr>counter := -1\<rparr>]\<rparr>)
                 else
                   (let ds = take SEGSIZE (in_rest f)
                    in (f\<lparr>in_rest := drop SEGSIZE (in_rest f)\<rparr>,
                        t1\<lparr>bfs := (bfs t1)[n := \<lparr>counter = int (length ds), buf = store_data ds (buf b)\<rparr>]\<rparr>)))
              else
                (case fill_loop SEGSIZE (newline t1) (prevchar t1) (in_rest f) of (ds, nl, pc, r) \<Rightarrow>
                   (f\<lparr>in_rest := r\<rparr>,
                    t1\<lparr>newline := nl, prevchar := pc,
                       bfs := (bfs t1)[n := \<lparr>counter = int (length ds), buf = store_data ds (buf b)\<rparr>]\<rparr>))))"

definition readit :: "int \<Rightarrow> infile \<Rightarrow> tftp_bufs \<Rightarrow> int \<times> infile \<times> tftp_bufs" where
  "readit convert f t =
    (let c = current t; c' = 1 - c;
         t1 = t\<lparr>bfs := (bfs t)[c := (bfs t ! c)\<lparr>counter := BF_FREE\<rparr>], current := c'\<rparr>;
         (f2, t2) = (if counter (bfs t1 ! c') = BF_FREE then read_ahead convert f t1 else (f, t1))
     in (counter (bfs t2 ! c'), f2, t2))"

text \<open>The loop of \<^verbatim>\<open>write_behind\<close> for netascii.\<close>

fun put_loop :: "byte list \<Rightarrow> int \<Rightarrow> outfile \<Rightarrow> int \<times> outfile" where
  "put_loop [] pc f = (pc, f)"
| "put_loop (c # cs) pc f =
    put_loop cs (sint c)
      (if pc = 13 then
         (if c = 10 then putc_out c (seek_back f) else if c = 0 then f else putc_out c f)
       else putc_out c f)"

definition write_behind :: "int \<Rightarrow> outfile \<Rightarrow> tftp_bufs \<Rightarrow> int \<times> outfile \<times> tftp_bufs" where
  "write_behind convert f t =
    (let n = nextone t; b = bfs t ! n
     in if counter b < -1 then (0, f, t)
        else
          (let ct = counter b;
               t1 = t\<lparr>bfs := (bfs t)[n := b\<lparr>counter := BF_FREE\<rparr>], nextone := 1 - n\<rparr>;
               ds = take (nat ct) (drop 4 (buf b))
           in if ct \<le> 0 then (-1, f, t1)
              else if convert = 0 then (case write_out ds f of (r, f1) \<Rightarrow> (r, f1, t1))
              else (case put_loop ds (prevchar t1) f of (pc, f1) \<Rightarrow> (ct, f1, t1\<lparr>prevchar := pc\<rparr>))))"

definition writeit :: "int \<Rightarrow> int \<Rightarrow> outfile \<Rightarrow> tftp_bufs \<Rightarrow> int \<times> outfile \<times> tftp_bufs" where
  "writeit ct convert f t =
    (let c = current t; c' = 1 - c;
         t1 = t\<lparr>bfs := (bfs t)[c := (bfs t ! c)\<lparr>counter := ct\<rparr>], current := c'\<rparr>;
         (f2, t2) = (if counter (bfs t1 ! c') \<noteq> BF_FREE
                     then (case write_behind convert f t1 of (r, f2, t2) \<Rightarrow> (f2, t2)) else (f, t1))
     in (ct, f2, t2\<lparr>bfs := (bfs t2)[c' := (bfs t2 ! c')\<lparr>counter := BF_ALLOC\<rparr>]\<rparr>))"

section \<open>Netascii, as a function of the whole file\<close>

definition nvt :: "byte \<Rightarrow> byte list" where
  "nvt c = (if c = 10 then [13, 10] else if c = 13 then [13, 0] else [c])"

definition netascii :: "byte list \<Rightarrow> byte list" where
  "netascii cs = concat (map nvt cs)"

fun from_netascii :: "byte list \<Rightarrow> byte list" where
  "from_netascii [] = []"
| "from_netascii [c] = [c]"
| "from_netascii (c # d # r) =
    (if c = 13 \<and> d = 10 then 10 # from_netascii r
     else if c = 13 \<and> d = 0 then 13 # from_netascii r
     else c # from_netascii (d # r))"

definition wire_of :: "int \<Rightarrow> byte list \<Rightarrow> byte list" where
  "wire_of convert cs = (if convert = 0 then cs else netascii cs)"

definition from_wire :: "int \<Rightarrow> byte list \<Rightarrow> byte list" where
  "from_wire convert ws = (if convert = 0 then ws else from_netascii ws)"

lemma netascii_simps [simp]:
  "netascii [] = []" "netascii (c # cs) = nvt c @ netascii cs"
  by (simp_all add: netascii_def)

lemma from_netascii_plain: "c \<noteq> 13 \<Longrightarrow> from_netascii (c # r) = c # from_netascii r"
  by (cases r) auto

lemma from_netascii_netascii [simp]: "from_netascii (netascii cs) = cs"
  by (induction cs) (auto simp: nvt_def from_netascii_plain)

lemma from_wire_wire_of [simp]: "from_wire cv (wire_of cv cs) = cs"
  by (simp add: from_wire_def wire_of_def)

text \<open>One more byte at the end: a line feed takes the place of the carriage return.\<close>

definition nvt_put :: "byte list \<Rightarrow> byte \<Rightarrow> byte list \<Rightarrow> byte list" where
  "nvt_put u c w =
    (if u \<noteq> [] \<and> last u = 13 \<and> c = 10 then butlast w @ [10]
     else if u \<noteq> [] \<and> last u = 13 \<and> c = 0 then w else w @ [c])"

lemma from_netascii_eq_Nil [simp]: "from_netascii u = [] \<longleftrightarrow> u = []"
  by (induction u rule: from_netascii.induct) auto

lemma from_netascii_snoc: "from_netascii (u @ [c]) = nvt_put u c (from_netascii u)"
  by (induction u rule: from_netascii.induct) (auto simp: nvt_put_def)

lemma length_from_netascii: "length (from_netascii u) \<le> length u"
  by (induction u rule: from_netascii.induct) auto

lemma length_from_wire: "length (from_wire cv u) \<le> length u"
  by (simp add: from_wire_def length_from_netascii)

section \<open>What the buffers promise to the sender\<close>

text \<open>Block \<open>k\<close> of a transfer of the bytes \<open>w\<close>, counted from 0: short at the end only.\<close>

definition seg :: "byte list \<Rightarrow> nat \<Rightarrow> byte list" where
  "seg w k = take SEGSIZE (drop (SEGSIZE * k) w)"

locale segment_source =
  fixes inv :: "nat \<Rightarrow> 's \<Rightarrow> bool"
    and packet :: "'s \<Rightarrow> 'p"
    and content :: "'p \<Rightarrow> byte list"
    and refill :: "'s \<Rightarrow> 's"
    and advance :: "'s \<Rightarrow> int \<times> 's"
    and block :: "nat \<Rightarrow> byte list"
  assumes refill: "inv m s \<Longrightarrow> inv m (refill s) \<and> packet (refill s) = packet s"
    and advance: "inv m s \<Longrightarrow> advance s = (n, s') \<Longrightarrow>
      inv (Suc m) s' \<and> (n = -1 \<or> content (packet s') = block m \<and> n = int (length (block m)))"
begin

lemma refills: "inv m s \<Longrightarrow> inv m ((refill ^^ i) s) \<and> packet ((refill ^^ i) s) = packet s"
  by (induction i) (auto simp: refill)

lemma advance_after_refills:
  assumes "inv m s" "advance ((refill ^^ i) s) = (n, s')" "0 \<le> n"
  shows "content (packet ((refill ^^ j) s')) = block m" "n = int (length (block m))" "inv (Suc m) ((refill ^^ j) s')"
  using advance [OF conjunct1 [OF refills [OF assms(1)]] assms(2)] assms(3) refills [of "Suc m" s']
  by auto

end

definition pending :: "int \<Rightarrow> int \<Rightarrow> byte list" where
  "pending nl pc = (if nl \<noteq> 0 then [if pc = 10 then 10 else 0] else [])"

definition to_come :: "int \<Rightarrow> infile \<times> tftp_bufs \<Rightarrow> byte list" where
  "to_come convert s =
    (if convert = 0 then in_rest (fst s)
     else pending (newline (snd s)) (prevchar (snd s)) @ netascii (in_rest (fst s)))"

definition bufs_wf :: "tftp_bufs \<Rightarrow> bool" where
  "bufs_wf t \<longleftrightarrow> length (bfs t) = 2 \<and> list_all (\<lambda>b. length (buf b) = PKTSIZE) (bfs t)
     \<and> current t < 2 \<and> nextone t < 2"

definition cur_bf :: "tftp_bufs \<Rightarrow> bf" where
  "cur_bf t = bfs t ! current t"

definition other_bf :: "tftp_bufs \<Rightarrow> bf" where
  "other_bf t = bfs t ! (1 - current t)"

definition bf_data :: "bf \<Rightarrow> byte list" where
  "bf_data b = take (nat (counter b)) (drop 4 (buf b))"

definition holds_block :: "byte list \<Rightarrow> nat \<Rightarrow> bf \<Rightarrow> bool" where
  "holds_block w m b \<longleftrightarrow> counter b = -1 \<or> counter b = int (length (seg w m)) \<and> bf_data b = seg w m"

definition src_inv :: "int \<Rightarrow> byte list \<Rightarrow> nat \<Rightarrow> infile \<times> tftp_bufs \<Rightarrow> bool" where
  "src_inv convert w m s \<longleftrightarrow>
    bufs_wf (snd s) \<and> counter (cur_bf (snd s)) \<noteq> BF_FREE \<and>
    (counter (other_bf (snd s)) = BF_FREE \<and> nextone (snd s) = 1 - current (snd s)
       \<and> to_come convert s = drop (SEGSIZE * m) w
     \<or> holds_block w m (other_bf (snd s)) \<and> nextone (snd s) = current (snd s)
       \<and> to_come convert s = drop (SEGSIZE * Suc m) w)"

lemma length_seg: "length (seg w k) \<le> SEGSIZE"
  by (simp add: seg_def)

lemma fill_loop_spec:
  "case fill_loop k nl pc cs of (out, nl', pc', r) \<Rightarrow>
     out = take k (pending nl pc @ netascii cs) \<and> pending nl' pc' @ netascii r = drop k (pending nl pc @ netascii cs)"
proof (induction k nl pc cs rule: fill_loop.induct)
  case (2 k nl pc cs)
  consider (pend) "nl \<noteq> 0" | (eof) "nl = 0" "cs = []"
    | (nl) c cs' where "nl = 0" "cs = c # cs'" "c = 10 \<or> c = 13"
    | (plain) c cs' where "nl = 0" "cs = c # cs'" "c \<noteq> 10" "c \<noteq> 13"
    by (cases cs) auto
  then show ?case
  proof cases
    case pend
    obtain out nl' pc' r where e: "fill_loop k 0 pc cs = (out, nl', pc', r)"
      by (metis prod_cases4)
    from 2(1) [OF pend] e pend show ?thesis by (simp add: pending_def)
  next
    case eof
    then show ?thesis by (simp add: pending_def)
  next
    case nl
    obtain out nl' pc' r where e: "fill_loop k 1 (uint c) cs' = (out, nl', pc', r)"
      by (metis prod_cases4)
    from 2(2) [of c cs'] e nl show ?thesis by (auto simp: pending_def nvt_def simp del: take_append drop_append)
  next
    case plain
    obtain out nl' pc' r where e: "fill_loop k nl pc cs' = (out, nl', pc', r)"
      by (metis prod_cases4)
    from 2(3) [of c cs'] e plain show ?thesis by (auto simp: pending_def nvt_def)
  qed
qed simp

lemma length_store_data:
  "length b = PKTSIZE \<Longrightarrow> length ds \<le> SEGSIZE \<Longrightarrow> length (store_data ds b) = PKTSIZE"
  by (simp add: store_data_def PKTSIZE_def)

lemma data_of_store [simp]:
  "length b = PKTSIZE \<Longrightarrow> take (length ds) (drop 4 (store_data ds b)) = ds"
  by (simp add: store_data_def PKTSIZE_def)

lemma holds_stored:
  assumes "length b = PKTSIZE"
  shows "holds_block w m \<lparr>counter = int (length (seg w m)), buf = store_data (seg w m) b\<rparr>"
    and "length (store_data (seg w m) b) = PKTSIZE"
  using assms length_seg [of w m] by (simp_all add: holds_block_def bf_data_def length_store_data)

lemma two_elems: "length xs = 2 \<Longrightarrow> \<exists>a b. xs = [a, b]"
  by (auto simp: numeral_2_eq_2 length_Suc_conv)

text \<open>The effect of filling the free buffer \<open>n\<close>.\<close>

lemma read_ahead_fills:
  assumes wf: "bufs_wf t" and free: "counter (bfs t ! nextone t) = BF_FREE"
    and r: "read_ahead cv f t = (f', t')" and w: "to_come cv (f, t) = drop (SEGSIZE * m) w"
  shows "bufs_wf t'" "nextone t' = 1 - nextone t" "current t' = current t"
    "\<exists>b. bfs t' = (bfs t)[nextone t := b] \<and> holds_block w m b"
    "to_come cv (f', t') = drop (SEGSIZE * Suc m) w"
proof -
  let ?n = "nextone t" let ?b = "bfs t ! nextone t"
  have n: "?n < length (bfs t)" "length (buf ?b) = PKTSIZE"
    using wf by (auto simp: bufs_wf_def list_all_length)
  have sg: "seg w m = take SEGSIZE (to_come cv (f, t))" by (simp add: seg_def w)
  obtain ds nl pc rest where fl: "fill_loop SEGSIZE (newline t) (prevchar t) (in_rest f) = (ds, nl, pc, rest)"
    by (metis prod_cases4)
  have fs: "cv \<noteq> 0 \<Longrightarrow> ds = seg w m \<and> pending nl pc @ netascii rest = drop SEGSIZE (to_come cv (f, t))"
    using fill_loop_spec [of SEGSIZE "newline t" "prevchar t" "in_rest f"] fl sg
    by (auto simp: to_come_def)
  have b: "\<exists>b. bfs t' = (bfs t)[?n := b] \<and> holds_block w m b \<and> length (buf b) = PKTSIZE"
  proof (cases "cv = 0")
    case True
    with sg have "seg w m = take SEGSIZE (in_rest f)" by (simp add: to_come_def)
    with True r free n holds_stored [OF n(2), of w m] show ?thesis
      by (auto simp: read_ahead_def Let_def holds_block_def split: if_splits)
  next
    case False
    with r free n fs fl holds_stored [OF n(2), of w m] show ?thesis
      by (auto simp: read_ahead_def Let_def)
  qed
  then show "\<exists>b. bfs t' = (bfs t)[?n := b] \<and> holds_block w m b" by blast
  show n': "nextone t' = 1 - nextone t" and c': "current t' = current t"
    using r free fl by (auto simp: read_ahead_def Let_def split: if_splits)
  show "bufs_wf t'"
    using b wf n' c' by (auto simp: bufs_wf_def list_all_length nth_list_update)
  have "to_come cv (f', t') = drop SEGSIZE (to_come cv (f, t))"
    using r free fl fs by (auto simp: read_ahead_def Let_def to_come_def split: if_splits)
  then show "to_come cv (f', t') = drop (SEGSIZE * Suc m) w" by (simp add: w add.commute)
qed

definition read_ahead_st :: "int \<Rightarrow> infile \<times> tftp_bufs \<Rightarrow> infile \<times> tftp_bufs" where
  "read_ahead_st cv s = read_ahead cv (fst s) (snd s)"

definition readit_st :: "int \<Rightarrow> infile \<times> tftp_bufs \<Rightarrow> int \<times> infile \<times> tftp_bufs" where
  "readit_st cv s = readit cv (fst s) (snd s)"

definition cur_packet :: "infile \<times> tftp_bufs \<Rightarrow> bf" where
  "cur_packet s = cur_bf (snd s)"

lemma holds_not_free: "holds_block w m b \<Longrightarrow> counter b \<noteq> BF_FREE"
  by (auto simp: holds_block_def BF_FREE_def)

lemma flip_idx: "(i::nat) < 2 \<Longrightarrow> 1 - (1 - i) = i" "(i::nat) < 2 \<Longrightarrow> 1 - i < 2" "(i::nat) < 2 \<Longrightarrow> 1 - i \<noteq> i"
  by arith+

lemma src_inv_refill:
  assumes "src_inv cv w m s"
  shows "src_inv cv w m (read_ahead_st cv s) \<and> cur_packet (read_ahead_st cv s) = cur_packet s"
proof -
  obtain f t where s: "s = (f, t)" by (cases s)
  obtain f' t' where r: "read_ahead cv f t = (f', t')" by (cases "read_ahead cv f t")
  from assms have wf: "bufs_wf t" and c: "counter (cur_bf t) \<noteq> BF_FREE" by (auto simp: src_inv_def s)
  then have idx: "current t < 2" "length (bfs t) = 2" by (auto simp: bufs_wf_def)
  show ?thesis
  proof (cases "nextone t = current t")
    case True
    with c have "(f', t') = s" using r by (simp add: read_ahead_def cur_bf_def s)
    with assms r s show ?thesis by (simp add: read_ahead_st_def)
  next
    case False
    with assms have o: "counter (bfs t ! nextone t) = BF_FREE" "nextone t = 1 - current t"
      "to_come cv (f, t) = drop (SEGSIZE * m) w" by (auto simp: src_inv_def other_bf_def s)
    note fills = read_ahead_fills [OF wf o(1) r o(3)]
    from fills(4) obtain b where b: "bfs t' = (bfs t)[nextone t := b]" "holds_block w m b" by blast
    have "cur_bf t' = cur_bf t" "other_bf t' = b"
      using b fills(3) o(2) idx flip_idx [of "current t"] by (simp_all add: cur_bf_def other_bf_def)
    with fills b c o(2) idx flip_idx [of "current t"] show ?thesis
      by (simp add: src_inv_def read_ahead_st_def cur_packet_def s r)
  qed
qed

lemma src_inv_advance:
  assumes "src_inv cv w m s" "readit_st cv s = (n, s')"
  shows "src_inv cv w (Suc m) s' \<and> (n = -1 \<or> bf_data (cur_packet s') = seg w m \<and> n = int (length (seg w m)))"
proof -
  obtain f t where s: "s = (f, t)" by (cases s)
  let ?c = "current t" let ?o = "1 - current t"
  let ?t1 = "t\<lparr>bfs := (bfs t)[?c := (bfs t ! ?c)\<lparr>counter := BF_FREE\<rparr>], current := ?o\<rparr>"
  from assms have wf: "bufs_wf t" by (simp add: src_inv_def s)
  then have idx: "?c < 2" "length (bfs t) = 2" "length (buf (bfs t ! ?c)) = PKTSIZE" "?o < 2" "?o \<noteq> ?c" "1 - ?o = ?c"
    using flip_idx [of ?c] by (simp_all add: bufs_wf_def list_all_length)
  have wf1: "bufs_wf ?t1" using wf idx by (auto simp: bufs_wf_def list_all_length nth_list_update)
  have fin: "src_inv cv w (Suc m) (f2, t2) \<and> (counter (bfs t2 ! ?o) = -1 \<or> bf_data (cur_packet (f2, t2)) = seg w m
      \<and> counter (bfs t2 ! ?o) = int (length (seg w m)))"
    if "bufs_wf t2" "current t2 = ?o" "nextone t2 = ?c" "holds_block w m (bfs t2 ! ?o)"
      "counter (bfs t2 ! ?c) = BF_FREE" "to_come cv (f2, t2) = drop (SEGSIZE * Suc m) w" for f2 t2
    using that idx holds_not_free [OF that(4)]
    by (auto simp: src_inv_def cur_bf_def other_bf_def cur_packet_def holds_block_def)
  show ?thesis
  proof (cases "counter (other_bf t) = BF_FREE")
    case True
    with assms(1) have o: "nextone t = ?o" "to_come cv (f, t) = drop (SEGSIZE * m) w"
      by (auto simp: src_inv_def s dest: holds_not_free)
    obtain f2 t2 where r: "read_ahead cv f ?t1 = (f2, t2)" by (cases "read_ahead cv f ?t1")
    have free: "counter (bfs ?t1 ! nextone ?t1) = BF_FREE" "to_come cv (f, ?t1) = drop (SEGSIZE * m) w"
      using True o idx by (auto simp: other_bf_def to_come_def)
    note fills = read_ahead_fills [OF wf1 free(1) r free(2)]
    have "(n, s') = (counter (bfs t2 ! ?o), f2, t2)"
      using assms(2) r True idx by (simp add: readit_st_def readit_def s Let_def other_bf_def)
    moreover have "bufs_wf t2" "current t2 = ?o" "nextone t2 = ?c" "holds_block w m (bfs t2 ! ?o)"
      "counter (bfs t2 ! ?c) = BF_FREE" "to_come cv (f2, t2) = drop (SEGSIZE * Suc m) w"
      using fills o idx by (auto simp: nth_list_update)
    ultimately show ?thesis using fin by simp
  next
    case False
    with assms(1) have o: "nextone t = ?c" "holds_block w m (bfs t ! ?o)" "to_come cv (f, t) = drop (SEGSIZE * Suc m) w"
      by (auto simp: src_inv_def other_bf_def s)
    have "(n, s') = (counter (bfs ?t1 ! ?o), f, ?t1)"
      using assms(2) False idx by (simp add: readit_st_def readit_def s Let_def other_bf_def)
    moreover have "to_come cv (f, ?t1) = drop (SEGSIZE * Suc m) w" using o(3) by (simp add: to_come_def split: if_splits)
    ultimately show ?thesis using fin [of ?t1 f] wf1 o(1,2) idx by simp
  qed
qed

interpretation src: segment_source "src_inv cv w" cur_packet bf_data "read_ahead_st cv" "readit_st cv" "seg w"
  for cv w
  by unfold_locales (use src_inv_refill in blast, use src_inv_advance in blast)

lemma src_inv_init:
  assumes "length (bfs t) = 2" "list_all (\<lambda>b. length (buf b) = PKTSIZE) (bfs t)"
  shows "src_inv cv (wire_of cv (in_rest f)) 0 (f, r_init t)"
  using two_elems [OF assms(1)] assms(2)
  by (auto simp: src_inv_def r_init_def rw_init_def bufs_wf_def cur_bf_def other_bf_def to_come_def
      wire_of_def pending_def BF_ALLOC_def BF_FREE_def)

section \<open>What the buffers promise to the receiver\<close>

text \<open>
  A file is opened without truncation: what was in it beyond the new bytes stays.
\<close>

definition over :: "byte list \<Rightarrow> byte list \<Rightarrow> byte list" where
  "over xs old = xs @ drop (length xs) old"

definition written :: "int \<Rightarrow> byte list \<Rightarrow> byte list \<Rightarrow> outfile \<Rightarrow> int \<Rightarrow> bool" where
  "written cv old v f pc \<longleftrightarrow>
    out_data f = over (from_wire cv v) old \<and> out_pos f = length (from_wire cv v) \<and>
    (cv \<noteq> 0 \<longrightarrow> (pc = 13 \<longleftrightarrow> v \<noteq> [] \<and> last v = 13))"

lemma over_Nil [simp]: "over [] old = old"
  by (simp add: over_def)

lemma putc_out_over:
  assumes "out_data f = over w old" "out_pos f = length w" "length w < out_room f"
  shows "putc_out c f = f\<lparr>out_data := over (w @ [c]) old, out_pos := Suc (length w)\<rparr>"
  using assms by (simp add: putc_out_def over_def)

lemma smash_over:
  assumes "out_data f = over w old" "out_pos f = length w" "length w \<le> out_room f" "w \<noteq> []"
  shows "putc_out c (seek_back f) = f\<lparr>out_data := over (butlast w @ [c]) old, out_pos := length w\<rparr>"
proof -
  have "0 < length w" using assms(4) by simp
  then have "length w - 1 < out_room f" "Suc (length w - 1) = length w" using assms(3) by arith+
  with assms show ?thesis
    by (simp add: putc_out_def seek_back_def over_def butlast_conv_take)
qed

lemma sint_byte_eq: "(sint (c :: byte) = 13) = (c = 13)"
proof -
  have "sint (13 :: byte) = 13" by simp
  then show ?thesis by (metis signed_word_eqI)
qed

lemma put_loop_written:
  assumes "written cv old v f pc" "cv \<noteq> 0" "length (v @ cs) \<le> out_room f" "put_loop cs pc f = (pc', f')"
  shows "written cv old (v @ cs) f' pc' \<and> out_room f' = out_room f"
  using assms
proof (induction cs arbitrary: v f pc)
  case (Cons c cs)
  let ?w = "from_netascii v"
  let ?f = "if pc = 13 then (if c = 10 then putc_out c (seek_back f) else if c = 0 then f else putc_out c f)
       else putc_out c f"
  have w: "out_data f = over ?w old" "out_pos f = length ?w" "pc = 13 \<longleftrightarrow> v \<noteq> [] \<and> last v = 13"
    using Cons.prems(1,2) by (auto simp: written_def from_wire_def)
  have room: "length ?w < out_room f" using length_from_netascii [of v] Cons.prems(3) by simp
  have "written cv old (v @ [c]) ?f (sint c) \<and> out_room ?f = out_room f"
  proof (cases "pc = 13 \<and> c = 10")
    case True
    with w(3) have "?w \<noteq> []" by simp
    then have "0 < length ?w" unfolding length_greater_0_conv .
    with True w smash_over [OF w(1,2) less_imp_le [OF room] \<open>?w \<noteq> []\<close>, of c] Cons.prems(2)
    show ?thesis by (simp add: written_def from_wire_def from_netascii_snoc nvt_put_def sint_byte_eq)
  next
    case False
    with w putc_out_over [OF w(1,2) room, of c] Cons.prems(2)
    show ?thesis by (auto simp: written_def from_wire_def from_netascii_snoc nvt_put_def sint_byte_eq)
  qed
  then have "written cv old (v @ [c]) ?f (sint c)" "out_room ?f = out_room f" by simp_all
  moreover have "put_loop cs (sint c) ?f = (pc', f')" using Cons.prems(4) by simp
  moreover have "length ((v @ [c]) @ cs) \<le> out_room ?f" using Cons.prems(3) calculation(2) by simp
  ultimately have "written cv old ((v @ [c]) @ cs) f' pc' \<and> out_room f' = out_room ?f"
    using Cons.IH Cons.prems(2) by blast
  with \<open>out_room ?f = out_room f\<close> show ?case by simp
qed simp

lemma write_out_written:
  assumes "written cv old v f pc" "cv = 0" "length (v @ cs) \<le> out_room f" "write_out cs f = (r, f')"
  shows "written cv old (v @ cs) f' pc \<and> out_room f' = out_room f"
proof -
  have "min (length cs) (out_room f - out_pos f) = length cs"
    using assms(1-3) by (simp add: written_def from_wire_def)
  with assms show ?thesis
    by (auto simp: written_def from_wire_def write_out_def over_def add.commute Let_def)
qed

text \<open>
  The interface: a sink takes the accepted wire bytes block by block; at any time at most
  the last block is still in memory, and flushing it makes the file hold all of them.
\<close>

locale segment_sink =
  fixes inv :: "byte list \<Rightarrow> 's \<Rightarrow> bool"
    and flushed :: "byte list \<Rightarrow> 's \<Rightarrow> bool"
    and flush :: "'s \<Rightarrow> 's"
    and accept :: "byte list \<Rightarrow> 's \<Rightarrow> 's"
    and fits :: "byte list \<Rightarrow> byte list \<Rightarrow> 's \<Rightarrow> bool"
  assumes flush: "inv u s \<Longrightarrow> flushed u (flush s)"
    and flushed_inv: "flushed u s \<Longrightarrow> inv u s"
    and accept: "inv u s \<Longrightarrow> fits u ds s \<Longrightarrow> inv (u @ ds) (accept ds s)"
begin

lemma accept_flush: "inv u s \<Longrightarrow> fits u ds s \<Longrightarrow> flushed (u @ ds) (flush (accept ds s))"
  using accept flush by blast

lemma flush_twice: "inv u s \<Longrightarrow> flushed u (flush (flush s))"
  using flush flushed_inv by blast

end

definition in_memory :: "tftp_bufs \<Rightarrow> byte list" where
  "in_memory t = (if nextone t = current t then [] else bf_data (other_bf t))"

definition snk_inv :: "int \<Rightarrow> byte list \<Rightarrow> nat \<Rightarrow> byte list \<Rightarrow> outfile \<times> tftp_bufs \<Rightarrow> bool" where
  "snk_inv cv old room u s \<longleftrightarrow>
    bufs_wf (snd s) \<and> length u \<le> room \<and> out_room (fst s) = room \<and> counter (cur_bf (snd s)) = BF_ALLOC \<and>
    (if nextone (snd s) = current (snd s) then counter (other_bf (snd s)) = BF_FREE
     else 0 \<le> counter (other_bf (snd s))) \<and>
    (\<exists>v. u = v @ in_memory (snd s) \<and> written cv old v (fst s) (prevchar (snd s)))"

definition snk_flushed :: "int \<Rightarrow> byte list \<Rightarrow> nat \<Rightarrow> byte list \<Rightarrow> outfile \<times> tftp_bufs \<Rightarrow> bool" where
  "snk_flushed cv old room u s \<longleftrightarrow> snk_inv cv old room u s \<and> nextone (snd s) = current (snd s)"

definition write_behind_st :: "int \<Rightarrow> outfile \<times> tftp_bufs \<Rightarrow> outfile \<times> tftp_bufs" where
  "write_behind_st cv s = snd (write_behind cv (fst s) (snd s))"

definition writeit_st :: "int \<Rightarrow> byte list \<Rightarrow> outfile \<times> tftp_bufs \<Rightarrow> outfile \<times> tftp_bufs" where
  "writeit_st cv ds s = snd (writeit (int (length ds)) cv (fst s) (snd s))"

definition arrived :: "nat \<Rightarrow> byte list \<Rightarrow> byte list \<Rightarrow> outfile \<times> tftp_bufs \<Rightarrow> bool" where
  "arrived room u ds s \<longleftrightarrow>
    take (length ds) (drop 4 (buf (cur_bf (snd s)))) = ds \<and> length (u @ ds) \<le> room"

lemma write_behind_flushes:
  assumes inv: "snk_inv cv old room u s"
  shows "snk_flushed cv old room u (write_behind_st cv s)"
proof -
  obtain f t where s: "s = (f, t)" by (cases s)
  from inv have wf: "bufs_wf t" and len: "length u \<le> room" and room: "out_room f = room" and c: "counter (cur_bf t) = BF_ALLOC"
    by (auto simp: snk_inv_def s)
  have idx: "current t < 2" "nextone t < 2" "length (bfs t) = 2" using wf by (auto simp: bufs_wf_def)
  show ?thesis
  proof (cases "nextone t = current t")
    case True
    with c have "write_behind_st cv s = s"
      by (simp add: write_behind_st_def write_behind_def s cur_bf_def BF_ALLOC_def)
    with inv True show ?thesis by (simp add: snk_flushed_def s)
  next
    case False
    then have n: "nextone t = 1 - current t" using idx by arith
    let ?b = "other_bf t"
    let ?t1 = "t\<lparr>bfs := (bfs t)[1 - current t := ?b\<lparr>counter := BF_FREE\<rparr>], nextone := current t\<rparr>"
    from inv False have b: "0 \<le> counter ?b" by (simp add: snk_inv_def s)
    from inv False obtain v where v: "u = v @ bf_data ?b" "written cv old v f (prevchar t)"
      by (auto simp: snk_inv_def s in_memory_def)
    have t1: "bufs_wf ?t1" "cur_bf ?t1 = cur_bf t" "counter (other_bf ?t1) = BF_FREE"
      using wf idx flip_idx [OF idx(1)]
      by (auto simp: bufs_wf_def list_all_length nth_list_update cur_bf_def other_bf_def)
    have fin: "snk_flushed cv old room u (f', ?t1\<lparr>prevchar := pc\<rparr>)"
      if "written cv old u f' pc" "out_room f' = room" for f' pc
      using that t1 c len
      by (auto simp: snk_flushed_def snk_inv_def in_memory_def bufs_wf_def cur_bf_def other_bf_def)
    consider "counter ?b = 0" | "0 < counter ?b" "cv = 0" | "0 < counter ?b" "cv \<noteq> 0" using b by linarith
    then show ?thesis
    proof cases
      case 1
      then have "write_behind_st cv s = (f, ?t1)"
        using n flip_idx(1) [OF idx(1)]
        by (simp add: write_behind_st_def write_behind_def s other_bf_def Let_def)
      with 1 v room fin [of f "prevchar t"] show ?thesis by (simp add: bf_data_def)
    next
      case 2
      obtain r f' where wo: "write_out (bf_data ?b) f = (r, f')" by (cases "write_out (bf_data ?b) f")
      then have "write_behind_st cv s = (f', ?t1)"
        using 2 n flip_idx(1) [OF idx(1)]
        by (simp add: write_behind_st_def write_behind_def s other_bf_def Let_def bf_data_def)
      with write_out_written [OF v(2) 2(2) _ wo] v(1) len room fin [of f' "prevchar t"] show ?thesis by simp
    next
      case 3
      obtain pc f' where wo: "put_loop (bf_data ?b) (prevchar t) f = (pc, f')"
        by (cases "put_loop (bf_data ?b) (prevchar t) f")
      then have "write_behind_st cv s = (f', ?t1\<lparr>prevchar := pc\<rparr>)"
        using 3 n flip_idx(1) [OF idx(1)]
        by (simp add: write_behind_st_def write_behind_def s other_bf_def Let_def bf_data_def)
      with put_loop_written [OF v(2) 3(2) _ wo] v(1) len room fin [of f' pc] show ?thesis by simp
    qed
  qed
qed

lemma write_behind_bufs:
  assumes "write_behind cv f t = (r, f', t')" "0 \<le> counter (bfs t ! nextone t)"
  shows "bfs t' = (bfs t)[nextone t := (bfs t ! nextone t)\<lparr>counter := BF_FREE\<rparr>]"
    "nextone t' = 1 - nextone t" "current t' = current t"
  using assms by (auto simp: write_behind_def Let_def split: if_splits prod.splits)

lemma writeit_accepts:
  assumes inv: "snk_inv cv old room u s" and arr: "arrived room u ds s"
  shows "snk_inv cv old room (u @ ds) (writeit_st cv ds s)"
proof -
  obtain f t where s: "s = (f, t)" by (cases s)
  let ?c = "current t" let ?o = "1 - current t"
  let ?t1 = "t\<lparr>bfs := (bfs t)[?c := (bfs t ! ?c)\<lparr>counter := int (length ds)\<rparr>], current := ?o\<rparr>"
  from inv have wf: "bufs_wf t" by (simp add: snk_inv_def s)
  then have idx: "?c < 2" "nextone t < 2" "length (bfs t) = 2" "?o < 2" "?o \<noteq> ?c" "1 - ?o = ?c"
    "\<forall>i < 2. length (buf (bfs t ! i)) = PKTSIZE"
    using flip_idx [of ?c] by (simp_all add: bufs_wf_def list_all_length)
  have fin: "snk_inv cv old room (u @ ds) (f', t'\<lparr>bfs := (bfs t')[?o := (bfs t' ! ?o)\<lparr>counter := BF_ALLOC\<rparr>]\<rparr>)"
    if t': "bufs_wf t'" "current t' = ?o" "nextone t' = ?c" "bfs t' ! ?c = (bfs t ! ?c)\<lparr>counter := int (length ds)\<rparr>"
      and f': "written cv old u f' (prevchar t')" "out_room f' = room" for f' t'
  proof -
    have l: "length (bfs t') = 2" "\<forall>i < 2. length (buf (bfs t' ! i)) = PKTSIZE"
      using t'(1) by (simp_all add: bufs_wf_def list_all_length)
    then have "bufs_wf (t'\<lparr>bfs := (bfs t')[?o := (bfs t' ! ?o)\<lparr>counter := BF_ALLOC\<rparr>]\<rparr>)"
      using t'(1) idx by (simp add: bufs_wf_def list_all_length nth_list_update)
    with t' f' l idx arr show ?thesis
      by (auto simp: snk_inv_def arrived_def s cur_bf_def other_bf_def in_memory_def bf_data_def)
  qed
  show ?thesis
  proof (cases "nextone t = ?c")
    case True
    with inv have "counter (bfs t ! ?o) = BF_FREE" "written cv old u f (prevchar t)" "out_room f = room"
      by (auto simp: snk_inv_def s other_bf_def in_memory_def)
    moreover have "bufs_wf ?t1" using wf idx by (auto simp: bufs_wf_def list_all_length nth_list_update)
    ultimately show ?thesis
      using fin [of ?t1 f] True idx by (simp add: writeit_st_def writeit_def s Let_def)
  next
    case False
    then have n: "nextone t = ?o" using idx by arith
    let ?s1 = "(f, ?t1)"
    obtain f2 t2 where w: "write_behind_st cv s = (f2, t2)" by (cases "write_behind_st cv s")
    obtain r f3 t3 where w3: "write_behind cv f ?t1 = (r, f3, t3)" by (metis prod_cases3)
    have nf: "counter (bfs t ! ?o) \<noteq> BF_FREE"
      using inv False by (auto simp: snk_inv_def s other_bf_def BF_FREE_def)
    have same: "f3 = f2" "prevchar t3 = prevchar t2"
      using w w3 n idx
      by (auto simp: write_behind_st_def write_behind_def s Let_def split: if_splits prod.splits)
    have t3: "bufs_wf t3" "current t3 = ?o" "nextone t3 = ?c" "bfs t3 ! ?c = (bfs t ! ?c)\<lparr>counter := int (length ds)\<rparr>"
      using write_behind_bufs [OF w3] inv False wf n idx
      by (simp_all add: snk_inv_def s other_bf_def bufs_wf_def list_all_length nth_list_update)
    from write_behind_flushes [OF inv] w have "written cv old u f2 (prevchar t2)" "out_room f2 = room"
      by (auto simp: snk_flushed_def snk_inv_def in_memory_def)
    with fin [of t3 f3] t3 same nf w3 idx show ?thesis
      by (simp add: writeit_st_def writeit_def s Let_def)
  qed
qed

interpretation snk: segment_sink "snk_inv cv old room" "snk_flushed cv old room"
    "write_behind_st cv" "writeit_st cv" "arrived room"
  for cv old room
  by unfold_locales (use write_behind_flushes in blast, simp add: snk_flushed_def, use writeit_accepts in blast)

lemma snk_flushed_file:
  "snk_flushed cv old room u (f, t) \<Longrightarrow> out_data f = over (from_wire cv u) old"
  by (auto simp: snk_flushed_def snk_inv_def in_memory_def written_def)

lemma snk_inv_init:
  assumes "length (bfs t) = 2" "list_all (\<lambda>b. length (buf b) = PKTSIZE) (bfs t)"
  shows "snk_flushed cv old room [] (\<lparr>out_data = old, out_pos = 0, out_room = room\<rparr>, w_init t)"
  using two_elems [OF assms(1)] assms(2)
  by (auto simp: snk_flushed_def snk_inv_def w_init_def rw_init_def bufs_wf_def cur_bf_def other_bf_def
      in_memory_def written_def from_wire_def)

end
