(* ===== verification/Tftp_Transfer.thy ===== *)
theory Tftp_Transfer
  imports Tftp_Buffers
begin

text \<open>
  The transfer loops of the TFTP server (\<^verbatim>\<open>sendfile\<close>, \<^verbatim>\<open>recvfile\<close>, \<^verbatim>\<open>timer\<close> and \<^verbatim>\<open>nak\<close>
  of \<^verbatim>\<open>src/iputils-ns/tftpd.c\<close>, \<^verbatim>\<open>synchnet\<close> of \<^verbatim>\<open>src/iputils-ns/tftpsubs.c\<close>). The network is
  the finite list of what reaches the connected socket, in order: datagrams, moments at
  which the receive queue is empty, expiries of the retransmission alarm, socket errors.
  After its end nothing arrives any more, so every further wait ends by the alarm.
\<close>

section \<open>The network\<close>

datatype net = Datagram "byte list" | Quiet | Alarm | Sock_Error

datatype rcv = Got "byte list" | Timed_Out | Failed

fun net_recv :: "net list \<Rightarrow> rcv \<times> net list" where
  "net_recv [] = (Timed_Out, [])"
| "net_recv (Datagram p # es) = (Got p, es)"
| "net_recv (Quiet # es) = net_recv es"
| "net_recv (Alarm # es) = (Timed_Out, es)"
| "net_recv (Sock_Error # es) = (Failed, es)"

text \<open>Non-blocking receives until one fails, because the queue is empty or for an error.\<close>

fun synchnet :: "net list \<Rightarrow> int \<times> net list" where
  "synchnet (Datagram p # es) = (case synchnet es of (j, r) \<Rightarrow> (j + 1, r))"
| "synchnet (Sock_Error # es) = (0, es)"
| "synchnet es = (0, es)"

lemma net_recv_length: "net_recv es = (r, es') \<Longrightarrow> length es' \<le> length es \<and> (r \<noteq> Timed_Out \<longrightarrow> length es' < length es)"
  by (induction es rule: net_recv.induct) auto

lemma net_recv_alarm: "net_recv es = (Timed_Out, es') \<Longrightarrow> es' = [] \<or> length es' < length es"
  by (induction es rule: net_recv.induct) auto

lemma synchnet_length: "length (snd (synchnet es)) \<le> length es"
  by (induction es rule: synchnet.induct) (auto split: prod.splits)

section \<open>State and elementary steps\<close>

record tftp_sys =
  send_ok :: "nat \<Rightarrow> bool"
  errno_val :: int
  strerror :: "int \<Rightarrow> string"

record 'f tftpd =
  td_file :: 'f
  td_io :: tftp_bufs
  confirmed :: int
  td_timeout :: int
  ackbuf :: "byte list"
  td_net :: "net list"
  td_tick :: nat
  td_sent :: "(byte list \<times> int) list"

datatype outcome = Done | Aborted | Exited

definition rexmtval :: int where "rexmtval = 5"
definition maxtimeout :: int where "maxtimeout = 5 * 5"
definition MSG_CONFIRM :: int where "MSG_CONFIRM = 2048"

definition td_send :: "tftp_sys \<Rightarrow> byte list \<Rightarrow> int \<Rightarrow> 'f tftpd \<Rightarrow> bool \<times> 'f tftpd" where
  "td_send e p fl d =
    (let ok = send_ok e (td_tick d)
     in (ok, d\<lparr>td_tick := Suc (td_tick d), td_sent := td_sent d @ (if ok then [(p, fl)] else [])\<rparr>))"

text \<open>The signal handler: \<open>None\<close> for \<^verbatim>\<open>exit(1)\<close>, otherwise the state at the long jump.\<close>

definition timer_sig :: "'f tftpd \<Rightarrow> 'f tftpd option" where
  "timer_sig d =
    (let d1 = d\<lparr>confirmed := 0, td_timeout := td_timeout d + rexmtval\<rparr>
     in if maxtimeout \<le> td_timeout d1 then None else Some d1)"

definition cur_buf :: "'f tftpd \<Rightarrow> byte list" where
  "cur_buf d = buf (cur_bf (td_io d))"

definition set_cur_buf :: "byte list \<Rightarrow> tftp_bufs \<Rightarrow> tftp_bufs" where
  "set_cur_buf b t = t\<lparr>bfs := (bfs t)[current t := (cur_bf t)\<lparr>buf := b\<rparr>]\<rparr>"

definition errmsgs :: "(int \<times> string) list" where
  "errmsgs =
    [(0, ''Undefined error code''), (1, ''File not found''), (2, ''Access violation''),
     (3, ''Disk full or allocation exceeded''), (4, ''Illegal TFTP operation''),
     (5, ''Unknown transfer ID''), (6, ''File already exists''), (7, ''No such user'')]"

definition bytes_of :: "string \<Rightarrow> byte list" where
  "bytes_of s = map of_char s"

definition nak_packet :: "tftp_sys \<Rightarrow> int \<Rightarrow> byte list" where
  "nak_packet e err =
    (case map_of errmsgs err of
       Some m \<Rightarrow> be16 ERROR @ be16 err @ bytes_of m @ [0]
     | None \<Rightarrow> be16 ERROR @ be16 0 @ bytes_of (strerror e (err - 100)) @ [0])"

definition nak :: "tftp_sys \<Rightarrow> int \<Rightarrow> 'f tftpd \<Rightarrow> 'f tftpd" where
  "nak e err d = snd (td_send e (nak_packet e err) 0 d)"

section \<open>Waiting loops\<close>

text \<open>
  The inner loop of both directions is a machine with two labels: \<open>True\<close> is
  \<^verbatim>\<open>send_data\<close> or \<^verbatim>\<open>send_ack\<close>, \<open>False\<close> the top of the \<^verbatim>\<open>for (;;)\<close> that waits for the
  peer. A step ends the loop (\<open>Inl\<close>) or goes to a label (\<open>Inr\<close>). The long jump of the
  signal handler goes to \<open>True\<close>. The loop ends because it consumes the network, and in a
  silent network because the time-out grows.
\<close>

locale waiting_loop =
  fixes step :: "'s \<Rightarrow> 'r + 's" and run :: "'s \<Rightarrow> 'r" and rel :: "('s \<times> 's) set"
  assumes wf_rel: "wf rel"
    and decreases: "step s = Inr s' \<Longrightarrow> (s', s) \<in> rel"
    and unfold: "run s = (case step s of Inl r \<Rightarrow> r | Inr s' \<Rightarrow> run s')"
begin

lemma invariant_rule:
  assumes "I s" and "\<And>s s'. I s \<Longrightarrow> step s = Inr s' \<Longrightarrow> I s'" and "\<And>s r. I s \<Longrightarrow> step s = Inl r \<Longrightarrow> Q r"
  shows "Q (run s)"
  using assms(1)
proof (induction s rule: wf_induct_rule [OF wf_rel])
  case (1 s)
  show ?case
  proof (cases "step s")
    case (Inl r)
    with assms(3) 1(2) show ?thesis by (simp add: unfold)
  next
    case (Inr s')
    then have "Q (run s')" using 1 assms(2) decreases by blast
    with Inr show ?thesis by (simp add: unfold [of s])
  qed
qed

lemma step_to: "step s = Inr s' \<Longrightarrow> run s = run s'"
  and step_out: "step s = Inl r \<Longrightarrow> run s = r"
  by (simp_all add: unfold [of s])

end

definition wait_measure :: "bool \<times> 'f tftpd \<Rightarrow> nat \<times> nat \<times> nat" where
  "wait_measure x = (length (td_net (snd x)), nat (25 - td_timeout (snd x)), if fst x then 1 else 0)"

definition wait_rel :: "((bool \<times> 'f tftpd) \<times> (bool \<times> 'f tftpd)) set" where
  "wait_rel = inv_image (less_than <*lex*> less_than <*lex*> less_than) wait_measure"

lemma wf_wait_rel [simp]: "wf wait_rel"
  by (simp add: wait_rel_def wf_lex_prod)

lemma timer_sig_net: "timer_sig d = Some d1 \<Longrightarrow>
  td_net d1 = td_net d \<and> td_timeout d1 = td_timeout d + 5 \<and> td_timeout d1 < 25"
  by (auto simp: timer_sig_def Let_def rexmtval_def maxtimeout_def split: if_splits)

lemma td_send_net: "td_send e p fl d = (ok, d1) \<Longrightarrow>
  td_net d1 = td_net d \<and> td_timeout d1 = td_timeout d \<and> td_file d1 = td_file d \<and> td_io d1 = td_io d
  \<and> ackbuf d1 = ackbuf d \<and> confirmed d1 = confirmed d"
  by (auto simp: td_send_def Let_def)

lemma wait_rel_sent: "td_net d' = td_net d \<Longrightarrow> td_timeout d' = td_timeout d \<Longrightarrow> ((False, d'), (True, d)) \<in> wait_rel"
  by (simp add: wait_rel_def wait_measure_def)

lemma wait_rel_timer:
  assumes "net_recv (td_net d) = (Timed_Out, es)" "timer_sig (d\<lparr>td_net := es\<rparr>) = Some d1"
  shows "((True, d1), (False, d)) \<in> wait_rel"
proof -
  note t = timer_sig_net [OF assms(2)]
  have "length es < length (td_net d) \<or> length es = length (td_net d)"
    using net_recv_alarm [OF assms(1)] net_recv_length [OF assms(1)] by auto
  with t show ?thesis by (auto simp: wait_rel_def wait_measure_def)
qed

lemma wait_rel_got:
  assumes "net_recv (td_net d) = (Got p, es)" "length (td_net d') \<le> length es"
  shows "((b, d'), (False, d)) \<in> wait_rel"
  using net_recv_length [OF assms(1)] assms(2) by (auto simp: wait_rel_def wait_measure_def)

section \<open>Sending a file\<close>

fun send_step ::
  "tftp_sys \<Rightarrow> int \<Rightarrow> int \<Rightarrow> int \<Rightarrow> bool \<times> infile tftpd \<Rightarrow> (outcome \<times> infile tftpd) + (bool \<times> infile tftpd)" where
  "send_step e cv block sz (True, d) =
    (case td_send e (take (nat (sz + 4)) (cur_buf d)) (confirmed d) d of (ok, d1) \<Rightarrow>
       if \<not> ok then Inl (Aborted, d1)
       else
         (case read_ahead cv (td_file d1) (td_io d1) of (f, t) \<Rightarrow>
            Inr (False, d1\<lparr>confirmed := 0, td_file := f, td_io := t\<rparr>)))"
| "send_step e cv block sz (False, d) =
    (case net_recv (td_net d) of
       (Timed_Out, es) \<Rightarrow>
         (case timer_sig (d\<lparr>td_net := es\<rparr>) of
            None \<Rightarrow> Inl (Exited, d\<lparr>td_net := es\<rparr>)
          | Some d1 \<Rightarrow> Inr (True, d1))
     | (Failed, es) \<Rightarrow> Inl (Aborted, d\<lparr>td_net := es\<rparr>)
     | (Got p, es) \<Rightarrow>
         (let ab = hdr_ntohs (recv_into p (ackbuf d)); d1 = d\<lparr>td_net := es, ackbuf := ab\<rparr>
          in if th_opcode ab = ERROR then Inl (Aborted, d1)
             else if th_opcode ab = ACK then
               (if th_block ab = block then Inl (Done, d1\<lparr>confirmed := MSG_CONFIRM\<rparr>)
                else Inr (th_block ab = block - 1, d1\<lparr>td_net := snd (synchnet es)\<rparr>))
             else Inr (False, d1)))"

lemma send_step_decreases: "send_step e cv block sz s = Inr s' \<Longrightarrow> (s', s) \<in> wait_rel"
  by (induction e cv block sz s rule: send_step.induct)
    (auto simp: Let_def synchnet_length split: prod.splits if_splits rcv.splits option.splits
      intro: wait_rel_got wait_rel_timer intro!: wait_rel_sent dest!: td_send_net)

function send_wait ::
  "tftp_sys \<Rightarrow> int \<Rightarrow> int \<Rightarrow> int \<Rightarrow> bool \<times> infile tftpd \<Rightarrow> outcome \<times> infile tftpd" where
  "send_wait e cv block sz s =
    (case send_step e cv block sz s of Inl r \<Rightarrow> r | Inr s' \<Rightarrow> send_wait e cv block sz s')"
  by pat_completeness auto

termination send_wait
  by (relation "inv_image wait_rel (\<lambda>(e, cv, block, sz, s). s)") (auto intro: send_step_decreases)

declare send_wait.simps [simp del]

interpretation sw: waiting_loop "send_step e cv block sz" "send_wait e cv block sz" wait_rel
  for e cv block sz
  by unfold_locales (use send_step_decreases in \<open>auto simp: send_wait.simps [of e cv block sz]\<close>)

lemma send_wait_net:
  assumes "send_wait e cv block sz s = (r, d')"
  shows "r = Done \<Longrightarrow> length (td_net d') < length (td_net (snd s))"
proof -
  let ?N = "length (td_net (snd s))"
  have "fst (send_wait e cv block sz s) = Done \<longrightarrow> length (td_net (snd (send_wait e cv block sz s))) < ?N"
  proof (rule sw.invariant_rule [where I = "\<lambda>s. length (td_net (snd s)) \<le> ?N"])
    fix s s' assume "length (td_net (snd s)) \<le> ?N" "send_step e cv block sz s = Inr s'"
    moreover from send_step_decreases [OF this(2)] have "length (td_net (snd s')) \<le> length (td_net (snd s))"
      by (auto simp: wait_rel_def wait_measure_def)
    ultimately show "length (td_net (snd s')) \<le> ?N" by simp
  next
    fix s x assume "length (td_net (snd s)) \<le> ?N" "send_step e cv block sz s = Inl x"
    then show "fst x = Done \<longrightarrow> length (td_net (snd x)) < ?N"
      by (cases "(e, cv, block, sz, s)" rule: send_step.cases)
        (auto simp: Let_def split: prod.splits if_splits rcv.splits option.splits dest!: net_recv_length)
  qed simp
  with assms show "r = Done \<Longrightarrow> length (td_net d') < length (td_net (snd s))" by simp
qed

function send_blocks ::
  "tftp_sys \<Rightarrow> int \<Rightarrow> int \<Rightarrow> infile tftpd \<Rightarrow> outcome \<times> infile tftpd" where
  "send_blocks e cv block d =
    (case readit cv (td_file d) (td_io d) of (sz, f, t) \<Rightarrow>
       let d1 = d\<lparr>td_file := f, td_io := t\<rparr>
       in if sz < 0 then (Aborted, nak e (errno_val e + 100) d1)
          else
            (let d2 = d1\<lparr>td_io := set_cur_buf (set_header DATA block (cur_buf d1)) (td_io d1), td_timeout := 0\<rparr>
             in case send_wait e cv block sz (True, d2) of
                  (Done, d3) \<Rightarrow> if sz = int SEGSIZE then send_blocks e cv (block + 1) d3 else (Done, d3)
                | (r, d3) \<Rightarrow> (r, d3)))"
  by pat_completeness auto

termination send_blocks
  by (relation "measure (\<lambda>(e, cv, block, d). length (td_net d))") (auto dest!: send_wait_net [OF sym])

definition sendfile :: "tftp_sys \<Rightarrow> int \<Rightarrow> infile tftpd \<Rightarrow> outcome \<times> infile tftpd" where
  "sendfile e cv d = send_blocks e cv 1 (d\<lparr>confirmed := 0, td_io := r_init (td_io d)\<rparr>)"

section \<open>Receiving a file\<close>

text \<open>The loop that waits for the expected block also returns the size of its datagram.\<close>

fun recv_step ::
  "tftp_sys \<Rightarrow> int \<Rightarrow> int \<Rightarrow> bool \<times> outfile tftpd \<Rightarrow> (outcome \<times> int \<times> outfile tftpd) + (bool \<times> outfile tftpd)" where
  "recv_step e cv block (True, d) =
    (case td_send e (take 4 (ackbuf d)) (confirmed d) d of (ok, d1) \<Rightarrow>
       if \<not> ok then Inl (Aborted, 0, d1)
       else
         (case write_behind cv (td_file d1) (td_io d1) of (_, f, t) \<Rightarrow>
            Inr (False, d1\<lparr>confirmed := 0, td_file := f, td_io := t\<rparr>)))"
| "recv_step e cv block (False, d) =
    (case net_recv (td_net d) of
       (Timed_Out, es) \<Rightarrow>
         (case timer_sig (d\<lparr>td_net := es\<rparr>) of
            None \<Rightarrow> Inl (Exited, 0, d\<lparr>td_net := es\<rparr>)
          | Some d1 \<Rightarrow> Inr (True, d1))
     | (Failed, es) \<Rightarrow> Inl (Aborted, -1, d\<lparr>td_net := es\<rparr>)
     | (Got p, es) \<Rightarrow>
         (let dp = hdr_ntohs (recv_into p (cur_buf d));
              d1 = d\<lparr>td_net := es, td_io := set_cur_buf dp (td_io d)\<rparr>;
              n = int (length (take PKTSIZE p))
          in if th_opcode dp = ERROR then Inl (Aborted, n, d1)
             else if th_opcode dp = DATA then
               (if th_block dp = block then Inl (Done, n, d1\<lparr>confirmed := MSG_CONFIRM\<rparr>)
                else Inr (th_block dp = block - 1, d1\<lparr>td_net := snd (synchnet es)\<rparr>))
             else Inr (False, d1)))"

lemma recv_step_decreases: "recv_step e cv block s = Inr s' \<Longrightarrow> (s', s) \<in> wait_rel"
  by (induction e cv block s rule: recv_step.induct)
    (auto simp: Let_def synchnet_length split: prod.splits if_splits rcv.splits option.splits
      intro: wait_rel_got wait_rel_timer intro!: wait_rel_sent dest!: td_send_net)

function recv_wait ::
  "tftp_sys \<Rightarrow> int \<Rightarrow> int \<Rightarrow> bool \<times> outfile tftpd \<Rightarrow> outcome \<times> int \<times> outfile tftpd" where
  "recv_wait e cv block s =
    (case recv_step e cv block s of Inl r \<Rightarrow> r | Inr s' \<Rightarrow> recv_wait e cv block s')"
  by pat_completeness auto

termination recv_wait
  by (relation "inv_image wait_rel (\<lambda>(e, cv, block, s). s)") (auto intro: recv_step_decreases)

declare recv_wait.simps [simp del]

interpretation rw: waiting_loop "recv_step e cv block" "recv_wait e cv block" wait_rel
  for e cv block
  by unfold_locales (use recv_step_decreases in \<open>auto simp: recv_wait.simps [of e cv block]\<close>)

lemma recv_wait_net:
  assumes "recv_wait e cv block s = (r, n, d')"
  shows "r = Done \<Longrightarrow> length (td_net d') < length (td_net (snd s))"
proof -
  let ?N = "length (td_net (snd s))"
  have "fst (recv_wait e cv block s) = Done \<longrightarrow> length (td_net (snd (snd (recv_wait e cv block s)))) < ?N"
  proof (rule rw.invariant_rule [where I = "\<lambda>s. length (td_net (snd s)) \<le> ?N"])
    fix s s' assume "length (td_net (snd s)) \<le> ?N" "recv_step e cv block s = Inr s'"
    moreover from recv_step_decreases [OF this(2)] have "length (td_net (snd s')) \<le> length (td_net (snd s))"
      by (auto simp: wait_rel_def wait_measure_def)
    ultimately show "length (td_net (snd s')) \<le> ?N" by simp
  next
    fix s x assume "length (td_net (snd s)) \<le> ?N" "recv_step e cv block s = Inl x"
    then show "fst x = Done \<longrightarrow> length (td_net (snd (snd x))) < ?N"
      by (cases "(e, cv, block, s)" rule: recv_step.cases)
        (auto simp: Let_def split: prod.splits if_splits rcv.splits option.splits dest!: net_recv_length)
  qed simp
  with assms show "r = Done \<Longrightarrow> length (td_net d') < length (td_net (snd s))" by simp
qed

text \<open>
  The last acknowledgement and the wait after it: the handler of this wait leaves the
  program with \<^verbatim>\<open>exit(0)\<close>; a datagram is received into the request buffer, but the
  header that is examined is the one \<^verbatim>\<open>dp\<close> points to.
\<close>

definition recv_finish :: "tftp_sys \<Rightarrow> int \<Rightarrow> int \<Rightarrow> outfile tftpd \<Rightarrow> outcome \<times> outfile tftpd" where
  "recv_finish e cv block d =
    (case write_behind cv (td_file d) (td_io d) of (_, f, t) \<Rightarrow>
       let d1 = d\<lparr>td_file := f, td_io := t, ackbuf := set_header ACK block (ackbuf d)\<rparr>;
           d2 = snd (td_send e (take 4 (ackbuf d1)) (confirmed d1) d1)
       in case net_recv (td_net d2) of
            (Got p, es) \<Rightarrow>
              (let d3 = d2\<lparr>td_net := es\<rparr>
               in (Done, if 4 \<le> length p \<and> th_opcode (cur_buf d3) = DATA \<and> block = th_block (cur_buf d3)
                         then snd (td_send e (take 4 (ackbuf d3)) 0 d3) else d3))
          | (_, es) \<Rightarrow> (Done, d2\<lparr>td_net := es\<rparr>))"

function recv_blocks ::
  "tftp_sys \<Rightarrow> int \<Rightarrow> int \<Rightarrow> outfile tftpd \<Rightarrow> outcome \<times> outfile tftpd" where
  "recv_blocks e cv block d =
    (let d1 = d\<lparr>td_timeout := 0, ackbuf := set_header ACK block (ackbuf d)\<rparr>
     in case recv_wait e cv (block + 1) (True, d1) of
          (Done, n, d2) \<Rightarrow>
            (case writeit (n - 4) cv (td_file d2) (td_io d2) of (sz, f, t) \<Rightarrow>
               let d3 = d2\<lparr>td_file := f, td_io := t\<rparr>
               in if sz \<noteq> n - 4 then (Aborted, nak e (if sz < 0 then errno_val e + 100 else 3) d3)
                  else if sz = int SEGSIZE then recv_blocks e cv (block + 1) d3
                  else recv_finish e cv (block + 1) d3)
        | (r, n, d2) \<Rightarrow> (r, d2))"
  by pat_completeness auto

termination recv_blocks
  by (relation "measure (\<lambda>(e, cv, block, d). length (td_net d))") (auto dest!: recv_wait_net [OF sym])

definition recvfile :: "tftp_sys \<Rightarrow> int \<Rightarrow> outfile tftpd \<Rightarrow> outcome \<times> outfile tftpd" where
  "recvfile e cv d = recv_blocks e cv 0 (d\<lparr>confirmed := 0, td_io := w_init (td_io d)\<rparr>)"

declare send_blocks.simps [simp del] recv_blocks.simps [simp del]

end
