(* ===== verification/Tftp_Send.thy ===== *)
theory Tftp_Send
  imports Tftp_Transfer
begin

text \<open>
  What a download delivers: the datagrams \<^verbatim>\<open>sendfile\<close> puts on the network are the blocks of
  the file in its transfer encoding, in order, each repeated as often as the peer needs it;
  and with a peer that acknowledges, the transfer completes.
\<close>

section \<open>Packets\<close>

definition data_packet :: "byte list \<Rightarrow> nat \<Rightarrow> byte list" where
  "data_packet w k = be16 DATA @ be16 (int k + 1) @ seg w k"

definition ack_packet :: "nat \<Rightarrow> byte list" where
  "ack_packet k = be16 ACK @ be16 (int k)"

definition n_blocks :: "byte list \<Rightarrow> nat" where
  "n_blocks w = length w div SEGSIZE + 1"

lemma length_be16 [simp]: "length (be16 n) = 2"
  by (simp add: be16_def)

lemma short_be16: "short_le (word_of_int n) (word_of_int (n div 256)) = sint (word_of_int n :: 16 word)"
proof -
  have "n mod 256 + 256 * (n div 256 mod 256) = n mod 65536"
    using zmod_zmult2_eq [of 256 n 256] by simp
  moreover have "word_of_int (n mod 65536) = (word_of_int n :: 16 word)"
    by (simp add: word_of_int_eq_iff take_bit_eq_mod)
  ultimately show ?thesis by (simp add: short_le_def uint_word_of_int)
qed

lemma sint16_small: "- 32768 \<le> n \<Longrightarrow> n < 32768 \<Longrightarrow> sint (word_of_int n :: 16 word) = n"
  
proof -
  assume "- 32768 \<le> n" "n < 32768"
  then have "signed_take_bit 15 n = n" by (intro signed_take_bit_int_eq_self) simp_all
  then show ?thesis by (simp add: sint_sbintrunc')
qed

lemma sint16_bound: "sint (x :: 16 word) < 32768" "- 32768 \<le> sint (x :: 16 word)"
  using sint_lt [of x] sint_ge [of x] by simp_all

lemma short_le_bound: "short_le a b \<le> 32767"
  using sint16_bound(1) [of "word_of_int (uint a + 256 * uint b)"] by (simp add: short_le_def)

lemma received_header:
  assumes "length p \<le> SEGSIZE"
  shows "th_opcode (hdr_ntohs (recv_into (be16 x @ be16 y @ p) b)) = sint (word_of_int x :: 16 word)"
    and "th_block (hdr_ntohs (recv_into (be16 x @ be16 y @ p) b)) = sint (word_of_int y :: 16 word)"
  using assms by (simp_all add: recv_into_def PKTSIZE_def be16_def th_opcode_def th_block_def Let_def short_be16)

lemma remdups_adj_snoc:
  "remdups_adj (xs @ [x]) = (if xs \<noteq> [] \<and> last xs = x then remdups_adj xs else remdups_adj xs @ [x])"
  by (cases xs rule: rev_cases) (auto simp: remdups_adj_append_two)

lemma data_packet_next: "data_packet w (Suc k) \<noteq> data_packet w k"
proof
  assume "data_packet w (Suc k) = data_packet w k"
  then have "(word_of_int (int k + 2) :: byte) = word_of_int (int k + 1)"
    by (simp add: data_packet_def be16_def add.commute)
  then have "(word_of_int 1 :: byte) = 0"
    by (simp add: wi_hom_add [symmetric])
  then show False by simp
qed

section \<open>The blocks go out in order\<close>

definition blocks_sent :: "'f tftpd \<Rightarrow> byte list list" where
  "blocks_sent d = remdups_adj (map fst (td_sent d))"

text \<open>
  During the transfer of block \<open>m\<close> the current buffer holds its packet; at the first
  passage of \<^verbatim>\<open>send_data\<close> it has not been sent yet.
\<close>

definition send_inv :: "int \<Rightarrow> byte list \<Rightarrow> nat \<Rightarrow> bool \<times> infile tftpd \<Rightarrow> bool" where
  "send_inv cv w m s \<longleftrightarrow>
    src_inv cv w (Suc m) (td_file (snd s), td_io (snd s)) \<and>
    take 4 (cur_buf (snd s)) = be16 DATA @ be16 (int m + 1) \<and>
    bf_data (cur_bf (td_io (snd s))) = seg w m \<and>
    (blocks_sent (snd s) = map (data_packet w) [0..<Suc m]
      \<or> fst s \<and> blocks_sent (snd s) = map (data_packet w) [0..<m])"

lemma take_prefix_length: "take a xs = ys \<Longrightarrow> take (length ys) xs = ys"
  by (metis append_eq_conv_conj append_take_drop_id)

lemma send_inv_packet:
  "send_inv cv w m (b, d) \<Longrightarrow> take (nat (int (length (seg w m)) + 4)) (cur_buf d) = data_packet w m"
proof -
  assume i: "send_inv cv w m (b, d)"
  have "nat (int (length (seg w m)) + 4) = 4 + length (seg w m)" by simp
  moreover from i have "take (length (seg w m)) (drop 4 (cur_buf d)) = seg w m"
    by (auto simp: send_inv_def bf_data_def cur_buf_def intro: take_prefix_length)
  ultimately show ?thesis using i by (simp add: take_add send_inv_def data_packet_def)
qed

lemma blocks_sent_snoc:
  assumes "blocks_sent d = map (data_packet w) [0..<Suc m] \<or> blocks_sent d = map (data_packet w) [0..<m]"
  shows "remdups_adj (map fst (td_sent d) @ [data_packet w m]) = map (data_packet w) [0..<Suc m]"
  using assms
proof
  assume a: "blocks_sent d = map (data_packet w) [0..<Suc m]"
  then have "map fst (td_sent d) \<noteq> []" by (auto simp: blocks_sent_def)
  moreover have "last (map fst (td_sent d)) = data_packet w m"
    using arg_cong [OF a, of last] by (simp add: blocks_sent_def)
  ultimately show ?thesis using a by (simp only: remdups_adj_snoc blocks_sent_def) simp
next
  assume a: "blocks_sent d = map (data_packet w) [0..<m]"
  have "last (map fst (td_sent d)) \<noteq> data_packet w m" if ne: "map fst (td_sent d) \<noteq> []"
  proof (cases m)
    case 0
    with a ne show ?thesis by (simp add: blocks_sent_def)
  next
    case (Suc k)
    have "last (map fst (td_sent d)) = data_packet w k"
      using arg_cong [OF a, of last] by (simp add: blocks_sent_def Suc)
    with Suc data_packet_next [of w k] show ?thesis by simp
  qed
  with a show ?thesis by (simp only: remdups_adj_snoc blocks_sent_def) auto
qed

lemma src_inv_read_ahead:
  assumes "src_inv cv w m (f, t)" "read_ahead cv f t = (f', t')"
  shows "src_inv cv w m (f', t')" "cur_bf t' = cur_bf t"
  using src.refill [OF assms(1)] assms(2) by (simp_all add: read_ahead_st_def cur_packet_def)

lemma send_inv_step:
  assumes "send_inv cv w m s" "send_step e cv block (int (length (seg w m))) s = Inr s'"
  shows "send_inv cv w m s'"
proof (cases s)
  case (Pair b d)
  show ?thesis
  proof (cases b)
    case True
    note pk = send_inv_packet [OF assms(1) [unfolded Pair]]
    from assms(2) Pair True pk obtain f t where
      ok: "send_ok e (td_tick d)" and ra: "read_ahead cv (td_file d) (td_io d) = (f, t)"
      and s': "s' = (False, d\<lparr>td_tick := Suc (td_tick d), td_sent := td_sent d @ [(data_packet w m, confirmed d)],
        confirmed := 0, td_file := f, td_io := t\<rparr>)"
      by (auto simp: td_send_def Let_def split: prod.splits if_splits)
    have "src_inv cv w (Suc m) (td_file d, td_io d)" using assms(1) by (simp add: send_inv_def Pair)
    from src_inv_read_ahead [OF this ra] assms(1) blocks_sent_snoc [of d w m] Pair show ?thesis
      by (auto simp: send_inv_def s' cur_buf_def blocks_sent_def)
  next
    case False
    with assms Pair show ?thesis
      by (auto simp: send_inv_def Let_def timer_sig_def cur_buf_def blocks_sent_def
          split: prod.splits if_splits rcv.splits option.splits)
  qed
qed

lemma send_inv_exit:
  assumes "send_inv cv w m s" "send_step e cv block (int (length (seg w m))) s = Inl (r, d')"
  shows "src_inv cv w (Suc m) (td_file d', td_io d')"
    "blocks_sent d' = map (data_packet w) [0..<Suc m] \<or> r \<noteq> Done \<and> blocks_sent d' = map (data_packet w) [0..<m]"
    "r = Done \<Longrightarrow> block \<le> 32767"
  using assms short_le_bound
  by (cases s; cases "fst s"; fastforce simp: send_inv_def Let_def td_send_def blocks_sent_def th_block_def
      split: prod.splits if_splits rcv.splits option.splits)+

lemma send_wait_spec:
  assumes "send_inv cv w m (True, d)" "send_wait e cv block (int (length (seg w m))) (True, d) = (r, d')"
  shows "src_inv cv w (Suc m) (td_file d', td_io d')"
    "blocks_sent d' = map (data_packet w) [0..<Suc m] \<or> r \<noteq> Done \<and> blocks_sent d' = map (data_packet w) [0..<m]"
    "r = Done \<Longrightarrow> block \<le> 32767"
proof -
  let ?sz = "int (length (seg w m))"
  let ?Q = "\<lambda>(r, d'). src_inv cv w (Suc m) (td_file d', td_io d') \<and>
    (blocks_sent d' = map (data_packet w) [0..<Suc m] \<or> r \<noteq> Done \<and> blocks_sent d' = map (data_packet w) [0..<m]) \<and>
    (r = Done \<longrightarrow> block \<le> 32767)"
  have "?Q (send_wait e cv block ?sz (True, d))"
  proof (rule sw.invariant_rule [where I = "send_inv cv w m"])
    show "send_inv cv w m (True, d)" by (rule assms(1))
    show "send_inv cv w m s'" if "send_inv cv w m s" "send_step e cv block ?sz s = Inr s'" for s s'
      using that by (rule send_inv_step)
    show "?Q x" if "send_inv cv w m s" "send_step e cv block ?sz s = Inl x" for s x
      using send_inv_exit [of cv w m s e block "fst x" "snd x"] that by (cases x) auto
  qed
  then show "src_inv cv w (Suc m) (td_file d', td_io d')"
    "blocks_sent d' = map (data_packet w) [0..<Suc m] \<or> r \<noteq> Done \<and> blocks_sent d' = map (data_packet w) [0..<m]"
    "r = Done \<Longrightarrow> block \<le> 32767"
    using assms(2) by auto
qed

text \<open>Preparing the packet in place leaves the buffers as they are otherwise.\<close>

lemma set_cur_buf_simps [simp]:
  "current (set_cur_buf b t) = current t" "nextone (set_cur_buf b t) = nextone t"
  "newline (set_cur_buf b t) = newline t" "prevchar (set_cur_buf b t) = prevchar t"
  by (simp_all add: set_cur_buf_def)

lemma set_cur_buf_bf:
  assumes "bufs_wf t"
  shows "cur_bf (set_cur_buf b t) = (cur_bf t)\<lparr>buf := b\<rparr>" "other_bf (set_cur_buf b t) = other_bf t"
    "length b = PKTSIZE \<Longrightarrow> bufs_wf (set_cur_buf b t)"
  using assms flip_idx [of "current t"]
  by (simp_all add: set_cur_buf_def cur_bf_def other_bf_def bufs_wf_def list_all_length nth_list_update)

lemma length_cur_buf: "bufs_wf t \<Longrightarrow> length (buf (cur_bf t)) = PKTSIZE"
  by (simp add: bufs_wf_def list_all_length cur_bf_def)

lemma src_inv_set_cur_buf:
  "src_inv cv w m (f, t) \<Longrightarrow> length b = PKTSIZE \<Longrightarrow> src_inv cv w m (f, set_cur_buf b t)"
  by (auto simp: src_inv_def set_cur_buf_bf to_come_def)

lemma set_header_simps [simp]:
  "length b = PKTSIZE \<Longrightarrow> length (set_header x y b) = PKTSIZE"
  "take 4 (set_header x y b) = be16 x @ be16 y" "drop 4 (set_header x y b) = drop 4 b"
  by (simp_all add: set_header_def PKTSIZE_def)

lemma block_prepared:
  assumes "src_inv cv w m (td_file d, td_io d)" "readit cv (td_file d) (td_io d) = (sz, f, t)" "0 \<le> sz"
    and "blocks_sent d = map (data_packet w) [0..<m]"
  shows "sz = int (length (seg w m))"
    and "send_inv cv w m (True, d\<lparr>td_file := f,
      td_io := set_cur_buf (set_header DATA (int m + 1) (cur_buf (d\<lparr>td_file := f, td_io := t\<rparr>))) t, td_timeout := 0\<rparr>)"
proof -
  have "readit_st cv (td_file d, td_io d) = (sz, f, t)" using assms(2) by (simp add: readit_st_def)
  note adv = src.advance [OF assms(1) this]
  then show "sz = int (length (seg w m))" using assms(3) by simp
  have wf: "bufs_wf t" using adv by (simp add: src_inv_def)
  have inv: "src_inv cv w (Suc m) (f, set_cur_buf (set_header DATA (int m + 1) (buf (cur_bf t))) t)"
    using adv by (intro src_inv_set_cur_buf set_header_simps length_cur_buf [OF wf]) simp
  have "bf_data (cur_bf t) = seg w m" using adv assms(3) by (simp add: cur_packet_def)
  with inv assms(4) show "send_inv cv w m (True, d\<lparr>td_file := f,
      td_io := set_cur_buf (set_header DATA (int m + 1) (cur_buf (d\<lparr>td_file := f, td_io := t\<rparr>))) t, td_timeout := 0\<rparr>)"
    by (simp add: send_inv_def cur_buf_def set_cur_buf_bf [OF wf] bf_data_def blocks_sent_def)
qed

lemma full_seg_iff: "length (seg w m) = SEGSIZE \<longleftrightarrow> SEGSIZE * Suc m \<le> length w"
  by (auto simp: seg_def SEGSIZE_def)

lemma last_seg_iff: "SEGSIZE * m \<le> length w \<Longrightarrow> length (seg w m) \<noteq> SEGSIZE \<longleftrightarrow> n_blocks w = Suc m"
  by (simp add: full_seg_iff n_blocks_def) (simp add: SEGSIZE_def, linarith)

lemma block_le_n: "SEGSIZE * m \<le> length w \<longleftrightarrow> m < n_blocks w"
  by (simp add: n_blocks_def SEGSIZE_def) linarith

definition sent_in_order :: "tftp_sys \<Rightarrow> byte list \<Rightarrow> outcome \<Rightarrow> infile tftpd \<Rightarrow> bool" where
  "sent_in_order e w r d \<longleftrightarrow>
    (\<exists>j \<le> n_blocks w. blocks_sent d = map (data_packet w) [0..<j]
       \<or> r = Aborted \<and> blocks_sent d = map (data_packet w) [0..<j] @ [nak_packet e (errno_val e + 100)]) \<and>
    (r = Done \<longrightarrow> blocks_sent d = map (data_packet w) [0..<n_blocks w] \<and> n_blocks w \<le> 32767)"

lemma data_not_nak: "data_packet w k \<noteq> nak_packet e err"
  by (auto simp: data_packet_def nak_packet_def be16_def DATA_def ERROR_def split: option.splits)

lemma blocks_sent_nak:
  assumes "blocks_sent d = map (data_packet w) [0..<m]"
  shows "blocks_sent (nak e err d) = map (data_packet w) [0..<m]
    \<or> blocks_sent (nak e err d) = map (data_packet w) [0..<m] @ [nak_packet e err]"
proof -
  have "last (map fst (td_sent d)) \<noteq> nak_packet e err" if "map fst (td_sent d) \<noteq> []"
  proof -
    have "last (map fst (td_sent d)) \<in> set (map fst (td_sent d))" using that by (rule last_in_set)
    also have "\<dots> = set (blocks_sent d)" by (simp add: blocks_sent_def)
    also have "\<dots> = data_packet w ` {0..<m}" by (simp add: assms)
    finally show ?thesis using data_not_nak by (metis image_iff)
  qed
  with assms show ?thesis by (auto simp: nak_def td_send_def Let_def blocks_sent_def remdups_adj_snoc)
qed

lemma send_blocks_spec:
  assumes "src_inv cv w m (td_file d, td_io d)" "m < n_blocks w"
    and "blocks_sent d = map (data_packet w) [0..<m]" and "send_blocks e cv (int m + 1) d = (r, d')"
  shows "sent_in_order e w r d'"
  using assms
proof (induction "length (td_net d)" arbitrary: d m rule: less_induct)
  case less
  obtain sz f t where rd: "readit cv (td_file d) (td_io d) = (sz, f, t)" by (metis prod_cases3)
  let ?d1 = "d\<lparr>td_file := f, td_io := t\<rparr>"
  let ?d2 = "d\<lparr>td_file := f, td_io := set_cur_buf (set_header DATA (int m + 1) (cur_buf ?d1)) t, td_timeout := 0\<rparr>"
  show ?case
  proof (cases "sz < 0")
    case True
    with rd less.prems(4) have "r = Aborted" "d' = nak e (errno_val e + 100) ?d1"
      by (auto simp: send_blocks.simps Let_def)
    moreover have "blocks_sent ?d1 = map (data_packet w) [0..<m]" using less.prems(3) by (simp add: blocks_sent_def)
    ultimately show ?thesis
      using blocks_sent_nak [of ?d1 w m e "errno_val e + 100"] less.prems(2)
      by (auto simp: sent_in_order_def intro!: exI [of _ m])
  next
    case False
    then have sz: "sz = int (length (seg w m))" and inv: "send_inv cv w m (True, ?d2)"
      using block_prepared [OF less.prems(1) rd _ less.prems(3)] by simp_all
    obtain x d3 where sw: "send_wait e cv (int m + 1) sz (True, ?d2) = (x, d3)"
      by (cases "send_wait e cv (int m + 1) sz (True, ?d2)")
    note spec = send_wait_spec [OF inv sw [unfolded sz]]
    have run: "send_blocks e cv (int m + 1) d =
        (if x = Done then if sz = int SEGSIZE then send_blocks e cv (int m + 1 + 1) d3 else (Done, d3) else (x, d3))"
      using rd False sw by (subst send_blocks.simps) (simp add: Let_def split: outcome.splits)
    consider (more) "x = Done" "sz = int SEGSIZE" | (last) "x = Done" "sz \<noteq> int SEGSIZE" | (out) "x \<noteq> Done" by blast
    then show ?thesis
    proof cases
      case more
      have "length (td_net d3) < length (td_net d)" using send_wait_net [OF sw more(1)] by simp
      moreover have "Suc m < n_blocks w" using more(2) sz by (simp add: full_seg_iff flip: block_le_n)
      moreover have "send_blocks e cv (int (Suc m) + 1) d3 = (r, d')"
        using run more less.prems(4) by (simp add: add.commute)
      ultimately show ?thesis using less.hyps spec(1,2) more(1) by blast
    next
      case last
      then have "n_blocks w = Suc m"
        using sz last_seg_iff [of m w] less.prems(2) by (simp add: block_le_n)
      with last run less.prems(4) spec show ?thesis by (auto simp: sent_in_order_def)
    next
      case out
      with run less.prems(4) have "r \<noteq> Done" "d' = d3" by auto
      moreover have "Suc m \<le> n_blocks w" "m \<le> n_blocks w" using less.prems(2) by simp_all
      ultimately show ?thesis using spec(2) by (auto simp only: sent_in_order_def)
    qed
  qed
qed

section \<open>With a peer that acknowledges, the transfer completes\<close>

definition no_err :: "infile \<Rightarrow> tftp_bufs \<Rightarrow> bool" where
  "no_err f t \<longleftrightarrow> \<not> in_err f \<and> (\<forall>b \<in> set (bfs t). counter b \<noteq> -1)"

lemma no_err_read_ahead:
  "no_err f t \<Longrightarrow> read_ahead cv f t = (f', t') \<Longrightarrow> no_err f' t'"
  by (auto simp: no_err_def read_ahead_def Let_def dest!: set_update_subset_insert [THEN subsetD]
      split: if_splits prod.splits)

lemma no_err_readit:
  assumes "src_inv cv w m (f, t)" "no_err f t" "readit cv f t = (sz, f', t')"
  shows "no_err f' t' \<and> 0 \<le> sz"
proof -
  let ?t1 = "t\<lparr>bfs := (bfs t)[current t := (bfs t ! current t)\<lparr>counter := BF_FREE\<rparr>], current := 1 - current t\<rparr>"
  have "no_err f ?t1"
    using assms(2) by (auto simp: no_err_def BF_FREE_def dest!: set_update_subset_insert [THEN subsetD])
  then have e: "no_err f' t'"
    using assms(3) no_err_read_ahead [of f ?t1 cv f' t'] by (auto simp: readit_def Let_def split: prod.splits if_splits)
  have adv: "src_inv cv w (Suc m) (f', t')" "sz = -1 \<or> sz = int (length (seg w m))"
    using src.advance [OF assms(1), of sz "(f', t')"] assms(3) by (auto simp: readit_st_def)
  have c: "sz = counter (cur_bf t')"
    using assms(3) by (auto simp: readit_def Let_def cur_bf_def read_ahead_def split: prod.splits if_splits)
  have "cur_bf t' \<in> set (bfs t')" using adv(1) by (simp add: src_inv_def bufs_wf_def cur_bf_def)
  with e c adv(2) show ?thesis by (auto simp: no_err_def)
qed

text \<open>
  The peer of a live transfer: before the acknowledgement of block \<open>k\<close> arrives, the alarm may
  expire up to four times.
\<close>

definition acks :: "(nat \<Rightarrow> nat) \<Rightarrow> nat \<Rightarrow> nat \<Rightarrow> net list" where
  "acks late m n = concat (map (\<lambda>k. replicate (late k) Alarm @ [Datagram (ack_packet (Suc k))]) [m..<n])"

lemma acks_Cons: "m < n \<Longrightarrow> acks late m n = replicate (late m) Alarm @ Datagram (ack_packet (Suc m)) # acks late (Suc m) n"
  by (simp add: acks_def upt_conv_Cons)

lemma send_step_sends:
  assumes "\<And>i. send_ok e i"
  obtains d' where "send_step e cv block sz (True, d) = Inr (False, d')"
    "td_net d' = td_net d" "td_timeout d' = td_timeout d" "no_err (td_file d) (td_io d) \<Longrightarrow> no_err (td_file d') (td_io d')"
  using assms no_err_read_ahead [of "td_file d" "td_io d" cv]
  by (cases "read_ahead cv (td_file d) (td_io d)") (auto simp: td_send_def Let_def)

lemma send_phase:
  assumes "\<And>i. send_ok e i" "Suc m \<le> 32767"
    and "td_net d = replicate a Alarm @ Datagram (ack_packet (Suc m)) # rest" "td_timeout d + 5 * int a < 25"
    and "no_err (td_file d) (td_io d)"
  shows "\<exists>d'. send_wait e cv (int m + 1) sz (True, d) = (Done, d') \<and> td_net d' = rest \<and> no_err (td_file d') (td_io d')"
  using assms(3-5)
proof (induction a arbitrary: d)
  case 0
  from send_step_sends [OF assms(1)] obtain d1 where
    d1: "send_step e cv (int m + 1) sz (True, d) = Inr (False, d1)" "td_net d1 = td_net d"
      "no_err (td_file d1) (td_io d1)" using 0(3) by metis
  have hdr: "th_opcode (hdr_ntohs (recv_into (ack_packet (Suc m)) b)) = ACK"
    "th_block (hdr_ntohs (recv_into (ack_packet (Suc m)) b)) = int m + 1" for b
    using received_header [of "[]" ACK "int m + 1" b] sint16_small [of "int m + 1"] sint16_small [of ACK] assms(2)
    by (simp_all add: ack_packet_def ACK_def add.commute del: of_int_add of_int_numeral)
  have "net_recv (td_net d1) = (Got (ack_packet (Suc m)), rest)" using 0 d1(2) by simp
  then have "\<exists>d'. send_step e cv (int m + 1) sz (False, d1) = Inl (Done, d') \<and> td_net d' = rest
      \<and> no_err (td_file d') (td_io d')"
    using hdr [of "ackbuf d1"] d1(3) by (simp add: Let_def ACK_def ERROR_def)
  with d1(1) show ?case using sw.step_to sw.step_out by metis
next
  case (Suc a)
  from send_step_sends [OF assms(1)] obtain d1 where
    d1: "send_step e cv (int m + 1) sz (True, d) = Inr (False, d1)" "td_net d1 = td_net d"
      "td_timeout d1 = td_timeout d" "no_err (td_file d1) (td_io d1)" using Suc.prems(3) by metis
  let ?es = "replicate a Alarm @ Datagram (ack_packet (Suc m)) # rest"
  let ?d2 = "d1\<lparr>td_net := ?es, confirmed := 0, td_timeout := td_timeout d1 + 5\<rparr>"
  have "send_step e cv (int m + 1) sz (False, d1) = Inr (True, ?d2)"
    using Suc.prems(1,2) d1(2,3) by (simp add: timer_sig_def Let_def rexmtval_def maxtimeout_def)
  moreover have "\<exists>d'. send_wait e cv (int m + 1) sz (True, ?d2) = (Done, d') \<and> td_net d' = rest
      \<and> no_err (td_file d') (td_io d')"
    using Suc.prems(2) d1(3,4) by (intro Suc.IH) simp_all
  ultimately show ?case using d1(1) sw.step_to by metis
qed

lemma send_blocks_live:
  assumes "\<And>i. send_ok e i" "\<And>k. late k \<le> 4" "n_blocks w \<le> 32767"
    and "src_inv cv w m (td_file d, td_io d)" "no_err (td_file d) (td_io d)" "m < n_blocks w"
    and "blocks_sent d = map (data_packet w) [0..<m]" "td_net d = acks late m (n_blocks w)"
  shows "fst (send_blocks e cv (int m + 1) d) = Done"
  using assms(4-8)
proof (induction "n_blocks w - m" arbitrary: d m rule: less_induct)
  case less
  obtain sz f t where rd: "readit cv (td_file d) (td_io d) = (sz, f, t)" by (metis prod_cases3)
  let ?d1 = "d\<lparr>td_file := f, td_io := t\<rparr>"
  let ?d2 = "d\<lparr>td_file := f, td_io := set_cur_buf (set_header DATA (int m + 1) (cur_buf ?d1)) t, td_timeout := 0\<rparr>"
  have ne: "no_err f t" "0 \<le> sz" using no_err_readit [OF less.prems(1,2) rd] by simp_all
  have sz: "sz = int (length (seg w m))" and inv: "send_inv cv w m (True, ?d2)"
    using block_prepared [OF less.prems(1) rd ne(2) less.prems(4)] by simp_all
  have ne2: "no_err f (set_cur_buf b t)" for b
    using ne(1) src.advance [OF less.prems(1), of sz "(f, t)"] rd
    by (auto simp: no_err_def set_cur_buf_def readit_st_def src_inv_def bufs_wf_def cur_bf_def
        dest!: set_update_subset_insert [THEN subsetD])
  obtain d3 where d3: "send_wait e cv (int m + 1) sz (True, ?d2) = (Done, d3)"
      "td_net d3 = acks late (Suc m) (n_blocks w)" "no_err (td_file d3) (td_io d3)"
    using send_phase [OF assms(1), of m ?d2 "late m" "acks late (Suc m) (n_blocks w)" cv sz] assms(2) [of m]
      less.prems(3,5) assms(3) ne2 by (auto simp: acks_Cons)
  note spec = send_wait_spec [OF inv d3(1) [unfolded sz]]
  have run: "send_blocks e cv (int m + 1) d =
      (if sz = int SEGSIZE then send_blocks e cv (int m + 1 + 1) d3 else (Done, d3))"
    using rd ne(2) d3(1) by (subst send_blocks.simps) (simp add: Let_def)
  show ?case
  proof (cases "sz = int SEGSIZE")
    case True
    then have "Suc m < n_blocks w" using sz by (simp add: full_seg_iff flip: block_le_n)
    with less.hyps [of "Suc m" d3] spec(1,2) d3 True run less.prems(3) show ?thesis
      by (simp add: add.commute add.left_commute)
  next
    case False
    with run show ?thesis by simp
  qed
qed

end
