(* ===== verification/Tftp_Recv.thy ===== *)
theory Tftp_Recv
  imports Tftp_Send
begin

text \<open>
  What an upload leaves on disk: if the data packets that reach \<^verbatim>\<open>recvfile\<close> are blocks of one
  file (lost, repeated, delayed or reordered in any way, mixed with packets of other types),
  then a completed transfer has written that file.
\<close>

section \<open>The network of an upload\<close>

definition authentic :: "byte list \<Rightarrow> byte list \<Rightarrow> bool" where
  "authentic w p \<longleftrightarrow> (\<exists>k < n_blocks w. p = data_packet w k) \<or> 4 \<le> length p \<and> take 2 p \<noteq> be16 DATA"

definition net_ok :: "byte list \<Rightarrow> net list \<Rightarrow> bool" where
  "net_ok w es \<longleftrightarrow> list_all (\<lambda>ev. case ev of Datagram p \<Rightarrow> authentic w p | _ \<Rightarrow> True) es"

lemma net_recv_suffix: "net_recv es = (x, es') \<Longrightarrow> set es' \<subseteq> set es \<and> (\<forall>p. x = Got p \<longrightarrow> Datagram p \<in> set es)"
  by (induction es rule: net_recv.induct) auto

lemma synchnet_suffix: "set (snd (synchnet es)) \<subseteq> set es"
  by (induction es rule: synchnet.induct) (auto split: prod.splits)

lemma net_ok_mono: "net_ok w es \<Longrightarrow> set es' \<subseteq> set es \<Longrightarrow> net_ok w es'"
  by (auto simp: net_ok_def list_all_iff)

lemma net_ok_recv:
  assumes "net_ok w es" "net_recv es = (x, es')"
  shows "net_ok w es'" "net_ok w (snd (synchnet es'))" "x = Got p \<Longrightarrow> authentic w p"
proof -
  note s = net_recv_suffix [OF assms(2)]
  show "net_ok w es'" "net_ok w (snd (synchnet es'))"
    using net_ok_mono [OF assms(1)] s synchnet_suffix [of es'] by blast+
  show "x = Got p \<Longrightarrow> authentic w p"
    using s assms(1) by (fastforce simp: net_ok_def list_all_iff)
qed

lemma byte_bound: "uint (a :: byte) < 256" "0 \<le> uint a"
  using uint_lt2p [of a] by simp_all

lemma low_byte: "0 \<le> x \<Longrightarrow> 0 \<le> y \<Longrightarrow> y < 256 \<Longrightarrow> y + 256 * x = (3::int) \<Longrightarrow> x = 0 \<and> y = 3"
proof -
  assume a: "0 \<le> x" "0 \<le> y" "y < 256" "y + 256 * x = 3"
  then have "x = 0" by linarith
  with a show ?thesis by simp
qed

lemma opcode_DATA: "short_le b a = DATA \<Longrightarrow> [a, b] = be16 DATA"
proof -
  let ?x = "word_of_int (uint b + 256 * uint a) :: 16 word"
  assume "short_le b a = DATA"
  then have "sint ?x = 3" by (simp add: short_le_def DATA_def)
  then have "?x = 3" by (intro signed_word_eqI) simp
  then have "uint ?x = 3" by simp
  moreover have "(uint b + 256 * uint a) mod 65536 = uint b + 256 * uint a"
    using byte_bound [of a] byte_bound [of b] by (intro mod_pos_pos_trivial) simp_all
  ultimately have "uint b + 256 * uint a = 3" by (simp only: uint_word_of_int) simp
  then have "uint a = 0" "uint b = 3" using byte_bound [of a] byte_bound [of b] low_byte by blast+
  then have "a = 0" "b = 3" by (simp_all add: word_uint_eq_iff)
  then show ?thesis by (simp add: be16_def DATA_def)
qed

lemma four_elems: "4 \<le> length (p :: byte list) \<Longrightarrow> \<exists>a b c d r. p = a # b # c # d # r"
  by (cases p rule: hdr_ntohs.cases) auto

lemma PKTSIZE_Suc: "PKTSIZE = Suc (Suc (Suc (Suc SEGSIZE)))"
  by (simp add: PKTSIZE_def)

lemma authentic_data:
  assumes "authentic w p" "th_opcode (hdr_ntohs (recv_into p b)) = DATA" "n_blocks w \<le> 32767"
  obtains k where "k < n_blocks w" "p = data_packet w k"
    "th_block (hdr_ntohs (recv_into p b)) = int k + 1"
proof (cases "4 \<le> length p \<and> take 2 p \<noteq> be16 DATA")
  case True
  then obtain x y u v r where p: "p = x # y # u # v # r" using four_elems by blast
  have "th_opcode (hdr_ntohs (recv_into p b)) = short_le y x"
    by (simp add: p recv_into_def PKTSIZE_Suc Let_def th_opcode_def)
  with assms(2) opcode_DATA True p show ?thesis by simp
next
  case False
  then obtain k where k: "k < n_blocks w" "p = data_packet w k" using assms(1) by (auto simp: authentic_def)
  have "th_block (hdr_ntohs (recv_into p b)) = sint (word_of_int (int k + 1) :: 16 word)"
    using received_header(2) [OF length_seg, of DATA "int k + 1" w k b] by (simp add: k data_packet_def)
  also have "\<dots> = int k + 1" by (rule sint16_small) (use k(1) assms(3) in simp_all)
  finally show ?thesis using that k by blast
qed

section \<open>The invariant of the receiver\<close>

text \<open>
  Contents of the two packet buffers under the operations: writing behind does not touch
  them, and \<^verbatim>\<open>writeit\<close> exchanges their roles.
\<close>

lemma write_behind_buf:
  assumes "write_behind cv f t = (r, f', t')" "bufs_wf t"
  shows "buf (cur_bf t') = buf (cur_bf t)" "buf (other_bf t') = buf (other_bf t)" "current t' = current t"
  using assms
  by (auto simp: write_behind_def Let_def cur_bf_def other_bf_def bufs_wf_def nth_list_update
      split: if_splits prod.splits)

lemma writeit_buf:
  assumes "writeit ct cv f t = (r, f', t')" "bufs_wf t"
  shows "buf (cur_bf t') = buf (other_bf t)" "buf (other_bf t') = buf (cur_bf t)" "r = ct"
proof -
  let ?c = "current t"
  let ?t1 = "t\<lparr>bfs := (bfs t)[?c := (bfs t ! ?c)\<lparr>counter := ct\<rparr>], current := 1 - ?c\<rparr>"
  have idx: "?c < 2" "1 - ?c < 2" "1 - ?c \<noteq> ?c" "1 - (1 - ?c) = ?c" "length (bfs t) = 2"
    using assms(2) flip_idx [of ?c] by (simp_all add: bufs_wf_def)
  have wf1: "bufs_wf ?t1" using assms(2) idx by (auto simp: bufs_wf_def list_all_length nth_list_update)
  have b1: "buf (cur_bf ?t1) = buf (other_bf t)" "buf (other_bf ?t1) = buf (cur_bf t)"
    using idx by (simp_all add: cur_bf_def other_bf_def)
  obtain r2 f2 t2 where w: "write_behind cv f ?t1 = (r2, f2, t2)" by (metis prod_cases3)
  let ?t2 = "if counter (bfs ?t1 ! (1 - ?c)) \<noteq> BF_FREE then t2 else ?t1"
  have t2: "buf (cur_bf ?t2) = buf (cur_bf ?t1)" "buf (other_bf ?t2) = buf (other_bf ?t1)" "current ?t2 = current ?t1"
    using write_behind_buf [OF w wf1] by auto
  have l2: "length (bfs ?t2) = 2"
    using w wf1 by (auto simp: write_behind_def Let_def bufs_wf_def split: if_splits prod.splits)
  have "t' = ?t2\<lparr>bfs := (bfs ?t2)[1 - ?c := (bfs ?t2 ! (1 - ?c))\<lparr>counter := BF_ALLOC\<rparr>]\<rparr>" "r = ct"
    using assms(1) w by (auto simp: writeit_def Let_def split: prod.splits if_splits)
  with t2 l2 b1 idx show "buf (cur_bf t') = buf (other_bf t)" "buf (other_bf t') = buf (cur_bf t)" "r = ct"
    by (simp_all add: cur_bf_def other_bf_def nth_list_update)
qed

text \<open>
  While block \<open>m\<close> (counted from 0) is awaited: the file and the buffers hold the blocks before
  it; only the acknowledgements up to number \<open>m\<close> were sent; the buffer that is not in use does
  not show the header of block \<open>m + 1\<close>.
\<close>

definition recv_inv :: "int \<Rightarrow> byte list \<Rightarrow> nat \<Rightarrow> byte list \<Rightarrow> nat \<Rightarrow> bool \<times> outfile tftpd \<Rightarrow> bool" where
  "recv_inv cv old room w m s \<longleftrightarrow>
    snk_inv cv old room (take (SEGSIZE * m) w) (td_file (snd s), td_io (snd s)) \<and>
    (\<not> fst s \<longrightarrow> snk_flushed cv old room (take (SEGSIZE * m) w) (td_file (snd s), td_io (snd s))) \<and>
    net_ok w (td_net (snd s)) \<and> take 4 (ackbuf (snd s)) = ack_packet m \<and>
    fst ` set (td_sent (snd s)) \<subseteq> ack_packet ` {0..m} \<and>
    \<not> (th_opcode (buf (other_bf (td_io (snd s)))) = DATA \<and> th_block (buf (other_bf (td_io (snd s)))) = int m + 1)"

lemma snk_flushed_set_cur_buf:
  assumes "snk_flushed cv old room u (f, t)" "length b = PKTSIZE"
  shows "snk_flushed cv old room u (f, set_cur_buf b t)"
proof -
  have "bufs_wf t" using assms(1) by (simp add: snk_flushed_def snk_inv_def)
  with assms show ?thesis
    by (auto simp: snk_flushed_def snk_inv_def in_memory_def set_cur_buf_bf)
qed

lemma length_hdr_ntohs [simp]: "length (hdr_ntohs b) = length b"
  by (cases b rule: hdr_ntohs.cases) auto

lemma length_recv_into [simp]: "length b = PKTSIZE \<Longrightarrow> length (recv_into p b) = PKTSIZE"
  by (simp add: recv_into_def Let_def)

lemma recv_inv_wf: "recv_inv cv old room w m (b, d) \<Longrightarrow> bufs_wf (td_io d)"
  by (simp add: recv_inv_def snk_inv_def)

lemma recv_inv_step:
  assumes i: "recv_inv cv old room w m s" and st: "recv_step e cv (int m + 1) s = Inr s'"
  shows "recv_inv cv old room w m s'"
proof (cases s)
  case (Pair b d)
  note wf = recv_inv_wf [OF i [unfolded Pair]]
  show ?thesis
  proof (cases b)
    case True
    obtain r f t where wb: "write_behind cv (td_file d) (td_io d) = (r, f, t)" by (metis prod_cases3)
    have s': "s' = (False, d\<lparr>td_tick := Suc (td_tick d), td_sent := td_sent d @ [(ack_packet m, confirmed d)],
        confirmed := 0, td_file := f, td_io := t\<rparr>)"
      using st wb Pair True i by (auto simp: td_send_def Let_def recv_inv_def split: if_splits)
    have "snk_flushed cv old room (take (SEGSIZE * m) w) (f, t)"
      using snk.flush [of cv old room "take (SEGSIZE * m) w" "(td_file d, td_io d)"] i wb Pair
      by (simp add: recv_inv_def write_behind_st_def)
    with i s' snk.flushed_inv write_behind_buf(2) [OF wb wf] Pair show ?thesis
      by (auto simp: recv_inv_def Let_def)
  next
    case False
    obtain x es where n: "net_recv (td_net d) = (x, es)" by (cases "net_recv (td_net d)")
    have ok: "net_ok w es" "net_ok w (snd (synchnet es))"
      using net_ok_recv [OF _ n] i Pair by (auto simp: recv_inv_def)
    show ?thesis
    proof (cases x)
      case (Got p)
      let ?dp = "hdr_ntohs (recv_into p (cur_buf d))"
      have l: "length ?dp = PKTSIZE" using length_cur_buf [OF wf] by (simp add: cur_buf_def)
      have fl: "snk_flushed cv old room (take (SEGSIZE * m) w) (td_file d, set_cur_buf ?dp (td_io d))"
        using i Pair False l by (intro snk_flushed_set_cur_buf) (simp_all add: recv_inv_def Let_def)
      have "td_file (snd s') = td_file d" "td_io (snd s') = set_cur_buf ?dp (td_io d)"
        "td_net (snd s') = es \<or> td_net (snd s') = snd (synchnet es)" "ackbuf (snd s') = ackbuf d" "td_sent (snd s') = td_sent d"
        using st n Got Pair False by (auto simp: Let_def split: if_splits)
      with i ok fl snk.flushed_inv [OF fl] Pair set_cur_buf_bf(2) [OF wf] show ?thesis
        by (auto simp: recv_inv_def Let_def)
    next
      case Timed_Out
      with st n Pair False obtain d1 where "timer_sig (d\<lparr>td_net := es\<rparr>) = Some d1" "s' = (True, d1)"
        by (auto split: option.splits)
      with i ok Pair False show ?thesis
        by (clarsimp simp: timer_sig_def Let_def recv_inv_def split: if_splits)
    next
      case Failed
      with st n Pair False show ?thesis by simp
    qed
  qed
qed

lemma recv_step_done:
  assumes "recv_step e cv block (b, d) = Inl (Done, n, d')"
  shows "\<exists>p es. \<not> b \<and> net_recv (td_net d) = (Got p, es) \<and> th_opcode (hdr_ntohs (recv_into p (cur_buf d))) = DATA
    \<and> th_block (hdr_ntohs (recv_into p (cur_buf d))) = block \<and> n = int (length (take PKTSIZE p))
    \<and> d' = d\<lparr>td_net := es, td_io := set_cur_buf (hdr_ntohs (recv_into p (cur_buf d))) (td_io d), confirmed := MSG_CONFIRM\<rparr>"
proof (cases b)
  case True
  with assms show ?thesis by (simp split: prod.splits if_splits)
next
  case False
  obtain x es where n: "net_recv (td_net d) = (x, es)" by (cases "net_recv (td_net d)")
  show ?thesis
  proof (cases x)
    case (Got p)
    then show ?thesis
      using assms False n
      by (cases "th_opcode (hdr_ntohs (recv_into p (cur_buf d))) = DATA") (simp_all add: Let_def split: if_splits)
  qed (use assms False n in \<open>simp_all split: option.splits\<close>)
qed

lemma recv_inv_exit:
  assumes i: "recv_inv cv old room w m s" and st: "recv_step e cv (int m + 1) s = Inl (Done, n, d')"
    and small: "n_blocks w \<le> 32767"
  shows "recv_inv cv old room w m (False, d')" "n = int (length (seg w m)) + 4" "m < n_blocks w"
    "take (length (seg w m)) (drop 4 (cur_buf d')) = seg w m"
    "th_block (cur_buf d') = int m + 1" "ackbuf d' = ackbuf (snd s)"
proof -
  obtain b d where s: "s = (b, d)" by (cases s)
  note wf = recv_inv_wf [OF i [unfolded s]]
  from recv_step_done [OF st [unfolded s]] obtain p es where b: "\<not> b" and n: "net_recv (td_net d) = (Got p, es)"
    and opc: "th_opcode (hdr_ntohs (recv_into p (cur_buf d))) = DATA"
    and blk: "th_block (hdr_ntohs (recv_into p (cur_buf d))) = int m + 1"
    and nn: "n = int (length (take PKTSIZE p))"
    and d': "d' = d\<lparr>td_net := es, td_io := set_cur_buf (hdr_ntohs (recv_into p (cur_buf d))) (td_io d), confirmed := MSG_CONFIRM\<rparr>"
    by blast
  have aok: "net_ok w es" "authentic w p" using net_ok_recv [OF _ n] i s by (auto simp: recv_inv_def)
  obtain k where k: "k < n_blocks w" "p = data_packet w k" "th_block (hdr_ntohs (recv_into p (cur_buf d))) = int k + 1"
    using authentic_data [OF aok(2) opc small] by metis
  then have "k = m" using blk by simp
  with k have p': "p = data_packet w m" "m < n_blocks w" by simp_all
  let ?dp = "hdr_ntohs (recv_into p (cur_buf d))"
  have lb: "length (cur_buf d) = PKTSIZE" using length_cur_buf [OF wf] by (simp add: cur_buf_def)
  have len: "length p = 4 + length (seg w m)" "length p \<le> PKTSIZE"
    using length_seg [of w m] by (simp_all add: p' data_packet_def PKTSIZE_def)
  then show "n = int (length (seg w m)) + 4" using nn by simp
  have cb: "cur_buf d' = ?dp" by (simp add: d' cur_buf_def set_cur_buf_bf(1) [OF wf])
  have "drop 4 ?dp = seg w m @ drop (length p) (cur_buf d)"
    using len by (simp add: p' recv_into_def Let_def data_packet_def be16_def)
  then show "take (length (seg w m)) (drop 4 (cur_buf d')) = seg w m" by (simp add: cb)
  show "th_block (cur_buf d') = int m + 1" by (simp add: cb blk)
  show "m < n_blocks w" by (rule p'(2))
  show "ackbuf d' = ackbuf (snd s)" by (simp add: d' s)
  have "snk_flushed cv old room (take (SEGSIZE * m) w) (td_file d, set_cur_buf ?dp (td_io d))"
    using i s b lb by (intro snk_flushed_set_cur_buf) (simp_all add: recv_inv_def)
  with i s b aok(1) snk.flushed_inv [OF this] set_cur_buf_bf(2) [OF wf]
  show "recv_inv cv old room w m (False, d')" by (simp add: recv_inv_def d')
qed

lemma recv_wait_spec:
  assumes "recv_inv cv old room w m (True, d)" "recv_wait e cv (int m + 1) (True, d) = (Done, n, d')"
    and "n_blocks w \<le> 32767"
  shows "recv_inv cv old room w m (False, d')" "n = int (length (seg w m)) + 4" "m < n_blocks w"
    "take (length (seg w m)) (drop 4 (cur_buf d')) = seg w m" "th_block (cur_buf d') = int m + 1"
proof -
  let ?Q = "\<lambda>(r, n, d'). r = Done \<longrightarrow> recv_inv cv old room w m (False, d') \<and> n = int (length (seg w m)) + 4
    \<and> m < n_blocks w \<and> take (length (seg w m)) (drop 4 (cur_buf d')) = seg w m \<and> th_block (cur_buf d') = int m + 1"
  have "?Q (recv_wait e cv (int m + 1) (True, d))"
  proof (rule rw.invariant_rule [where I = "recv_inv cv old room w m"])
    show "recv_inv cv old room w m (True, d)" by (rule assms(1))
    show "recv_inv cv old room w m s'" if "recv_inv cv old room w m s" "recv_step e cv (int m + 1) s = Inr s'" for s s'
      using that by (rule recv_inv_step)
    show "?Q x" if "recv_inv cv old room w m s" "recv_step e cv (int m + 1) s = Inl x" for s x
      using recv_inv_exit [OF that(1) _ assms(3)] that(2) by (cases x) auto
  qed
  with assms(2) show "recv_inv cv old room w m (False, d')" "n = int (length (seg w m)) + 4" "m < n_blocks w"
    "take (length (seg w m)) (drop 4 (cur_buf d')) = seg w m" "th_block (cur_buf d') = int m + 1" by auto
qed

section \<open>A completed upload\<close>

definition recv_ready :: "int \<Rightarrow> byte list \<Rightarrow> nat \<Rightarrow> byte list \<Rightarrow> nat \<Rightarrow> outfile tftpd \<Rightarrow> bool" where
  "recv_ready cv old room w m d \<longleftrightarrow>
    snk_inv cv old room (take (SEGSIZE * m) w) (td_file d, td_io d) \<and> net_ok w (td_net d) \<and>
    fst ` set (td_sent d) \<subseteq> ack_packet ` {0..<m} \<and>
    \<not> (th_opcode (buf (other_bf (td_io d))) = DATA \<and> th_block (buf (other_bf (td_io d))) = int m + 1)"

definition uploaded :: "int \<Rightarrow> byte list \<Rightarrow> byte list \<Rightarrow> outfile tftpd \<Rightarrow> bool" where
  "uploaded cv old w d \<longleftrightarrow>
    out_data (td_file d) = over (from_wire cv w) old \<and>
    (\<exists>before final. td_sent d = before @ final \<and> length final \<le> 1 \<and>
       fst ` set before \<subseteq> ack_packet ` {0..<n_blocks w} \<and> fst ` set final \<subseteq> {ack_packet (n_blocks w)})"

lemma recv_ready_inv:
  "recv_ready cv old room w m d \<Longrightarrow>
   recv_inv cv old room w m (True, d\<lparr>td_timeout := 0, ackbuf := set_header ACK (int m) (ackbuf d)\<rparr>)"
  by (auto simp: recv_ready_def recv_inv_def ack_packet_def)

lemma take_next_seg: "take (SEGSIZE * m) w @ seg w m = take (SEGSIZE * Suc m) w"
  using take_add [of "SEGSIZE * m" SEGSIZE w] by (simp add: seg_def add.commute)

lemma accepted_block:
  assumes i: "recv_inv cv old room w m (False, d)" and room: "length w \<le> room"
    and dat: "take (length (seg w m)) (drop 4 (cur_buf d)) = seg w m" and blk: "th_block (cur_buf d) = int m + 1"
    and wi: "writeit (int (length (seg w m))) cv (td_file d) (td_io d) = (sz, f, t)"
  shows "snk_inv cv old room (take (SEGSIZE * Suc m) w) (f, t)"
    and "buf (cur_bf t) = buf (other_bf (td_io d))" and "sz = int (length (seg w m))"
    and "recv_ready cv old room w (Suc m) (d\<lparr>td_file := f, td_io := t\<rparr>)"
proof -
  note wf = recv_inv_wf [OF i] and wb = writeit_buf [OF wi recv_inv_wf [OF i]]
  have "arrived room (take (SEGSIZE * m) w) (seg w m) (td_file d, td_io d)"
    using dat room by (simp add: arrived_def cur_buf_def seg_def)
  with snk.accept [of cv old room "take (SEGSIZE * m) w" "(td_file d, td_io d)" "seg w m"] i wi
  show inv: "snk_inv cv old room (take (SEGSIZE * Suc m) w) (f, t)"
    by (simp add: recv_inv_def writeit_st_def take_next_seg)
  show "buf (cur_bf t) = buf (other_bf (td_io d))" "sz = int (length (seg w m))" using wb by simp_all
  have "ack_packet ` {0..m} = ack_packet ` {0..<Suc m}" by (simp add: atLeastLessThanSuc_atLeastAtMost)
  with i inv wb(2) blk show "recv_ready cv old room w (Suc m) (d\<lparr>td_file := f, td_io := t\<rparr>)"
    by (simp add: recv_ready_def recv_inv_def cur_buf_def)
qed

lemma recv_finish_spec:
  assumes sn: "snk_inv cv old room w (td_file d, td_io d)"
    and stale: "\<not> (th_opcode (cur_buf d) = DATA \<and> th_block (cur_buf d) = int (n_blocks w))"
    and sent: "fst ` set (td_sent d) \<subseteq> ack_packet ` {0..<n_blocks w}"
    and run: "recv_finish e cv (int (n_blocks w)) d = (r, d')"
  shows "uploaded cv old w d'"
proof -
  obtain x f t where wb: "write_behind cv (td_file d) (td_io d) = (x, f, t)" by (metis prod_cases3)
  have wf: "bufs_wf (td_io d)" using sn by (simp add: snk_inv_def)
  have fl: "snk_flushed cv old room w (f, t)" using snk.flush [OF sn] wb by (simp add: write_behind_st_def)
  let ?d1 = "d\<lparr>td_file := f, td_io := t, ackbuf := set_header ACK (int (n_blocks w)) (ackbuf d)\<rparr>"
  obtain ok d2 where s2: "td_send e (ack_packet (n_blocks w)) (confirmed d) ?d1 = (ok, d2)"
    by (cases "td_send e (ack_packet (n_blocks w)) (confirmed d) ?d1")
  have d2: "td_file d2 = f" "buf (cur_bf (td_io d2)) = cur_buf d"
    "\<exists>fin. td_sent d2 = td_sent d @ fin \<and> length fin \<le> 1 \<and> fst ` set fin \<subseteq> {ack_packet (n_blocks w)}"
    using s2 write_behind_buf(1) [OF wb wf] by (auto simp: td_send_def Let_def cur_buf_def)
  have hdr: "take 4 (set_header ACK (int (n_blocks w)) (ackbuf d)) = ack_packet (n_blocks w)"
    by (simp add: ack_packet_def)
  obtain y es where n: "net_recv (td_net d2) = (y, es)" by (cases "net_recv (td_net d2)")
  have "d' = d2\<lparr>td_net := es\<rparr>"
    using run wb s2 n hdr stale d2(2)
    by (auto simp: recv_finish_def Let_def cur_buf_def split: rcv.splits if_splits)
  with d2 snk_flushed_file [OF fl] sent show ?thesis by (auto simp: uploaded_def)
qed

lemma recv_blocks_spec:
  assumes "recv_ready cv old room w m d" "recv_blocks e cv (int m) d = (Done, d')"
    and "n_blocks w \<le> 32767" "length w \<le> room"
  shows "uploaded cv old w d'"
  using assms(1,2)
proof (induction "length (td_net d)" arbitrary: d m rule: less_induct)
  case less
  let ?d1 = "d\<lparr>td_timeout := 0, ackbuf := set_header ACK (int m) (ackbuf d)\<rparr>"
  obtain x n d2 where rw: "recv_wait e cv (int m + 1) (True, ?d1) = (x, n, d2)" by (metis prod_cases3)
  then have x: "x = Done" using less.prems(2) by (cases x) (auto simp: recv_blocks.simps [of e cv "int m"] Let_def)
  note spec = recv_wait_spec [OF recv_ready_inv [OF less.prems(1)] rw [unfolded x] assms(3)]
  obtain sz f t where wi: "writeit (int (length (seg w m))) cv (td_file d2) (td_io d2) = (sz, f, t)" by (metis prod_cases3)
  note acc = accepted_block [OF spec(1) assms(4) spec(4,5) wi]
  let ?d3 = "d2\<lparr>td_file := f, td_io := t\<rparr>"
  have run: "recv_blocks e cv (int m) d =
      (if length (seg w m) = SEGSIZE then recv_blocks e cv (int m + 1) ?d3 else recv_finish e cv (int m + 1) ?d3)"
    using rw x wi spec(2) acc(3) by (subst recv_blocks.simps) (simp add: Let_def)
  show ?case
  proof (cases "length (seg w m) = SEGSIZE")
    case True
    have "length (td_net ?d3) < length (td_net d)" using recv_wait_net [OF rw x] by simp
    with less.hyps [of ?d3 "Suc m"] acc(4) run True less.prems(2) show ?thesis by (simp add: add.commute)
  next
    case False
    then have nb: "n_blocks w = Suc m" using last_seg_iff [of m w] spec(3) by (simp add: block_le_n)
    have "take (SEGSIZE * Suc m) w = w"
      using False nb full_seg_iff [of w m] by simp
    then have "snk_inv cv old room w (td_file ?d3, td_io ?d3)" using acc(1) by simp
    moreover have "\<not> (th_opcode (cur_buf ?d3) = DATA \<and> th_block (cur_buf ?d3) = int (n_blocks w))"
      using spec(1) acc(2) nb by (simp add: recv_inv_def cur_buf_def add.commute)
    moreover have "fst ` set (td_sent ?d3) \<subseteq> ack_packet ` {0..<n_blocks w}"
      using acc(4) nb by (simp add: recv_ready_def)
    moreover have "recv_finish e cv (int (n_blocks w)) ?d3 = (Done, d')"
      using run False less.prems(2) nb by (simp add: add.commute)
    ultimately show ?thesis by (rule recv_finish_spec)
  qed
qed

section \<open>With a peer that sends its blocks, the upload completes\<close>

definition datas :: "(nat \<Rightarrow> nat) \<Rightarrow> byte list \<Rightarrow> nat \<Rightarrow> net list" where
  "datas late w m = concat (map (\<lambda>k. replicate (late k) Alarm @ [Datagram (data_packet w k)]) [m..<n_blocks w])"

lemma datas_Cons: "m < n_blocks w \<Longrightarrow>
  datas late w m = replicate (late m) Alarm @ Datagram (data_packet w m) # datas late w (Suc m)"
  by (simp add: datas_def upt_conv_Cons)

lemma net_ok_datas: "net_ok w (datas late w m)"
  by (auto simp: net_ok_def datas_def list_all_iff authentic_def)

lemma recv_step_acks:
  assumes "\<And>i. send_ok e i"
  obtains d' where "recv_step e cv block (True, d) = Inr (False, d')" "td_net d' = td_net d" "td_timeout d' = td_timeout d"
  using assms by (cases "write_behind cv (td_file d) (td_io d)") (auto simp: td_send_def Let_def)

lemma data_header:
  assumes "Suc m \<le> 32767"
  shows "th_opcode (hdr_ntohs (recv_into (data_packet w m) b)) = DATA"
    "th_block (hdr_ntohs (recv_into (data_packet w m) b)) = int m + 1"
  using received_header [OF length_seg, of DATA "int m + 1" w m b] sint16_small [of "int m + 1"] sint16_small [of DATA] assms
  by (simp_all add: data_packet_def DATA_def del: of_int_add of_int_numeral)

lemma recv_phase:
  assumes "\<And>i. send_ok e i" "Suc m \<le> 32767"
    and "td_net d = replicate a Alarm @ Datagram (data_packet w m) # rest" "td_timeout d + 5 * int a < 25"
  shows "\<exists>n d'. recv_wait e cv (int m + 1) (True, d) = (Done, n, d') \<and> td_net d' = rest"
  using assms(3,4)
proof (induction a arbitrary: d)
  case 0
  from recv_step_acks [OF assms(1)] obtain d1 where
    d1: "recv_step e cv (int m + 1) (True, d) = Inr (False, d1)" "td_net d1 = td_net d" by metis
  have "net_recv (td_net d1) = (Got (data_packet w m), rest)" using 0 d1(2) by simp
  then have "\<exists>n d'. recv_step e cv (int m + 1) (False, d1) = Inl (Done, n, d') \<and> td_net d' = rest"
    using data_header [OF assms(2), of w "cur_buf d1"] by (simp add: Let_def DATA_def ERROR_def)
  with d1(1) show ?case using rw.step_to rw.step_out by metis
next
  case (Suc a)
  from recv_step_acks [OF assms(1)] obtain d1 where
    d1: "recv_step e cv (int m + 1) (True, d) = Inr (False, d1)" "td_net d1 = td_net d" "td_timeout d1 = td_timeout d"
    by metis
  let ?d2 = "d1\<lparr>td_net := replicate a Alarm @ Datagram (data_packet w m) # rest, confirmed := 0, td_timeout := td_timeout d1 + 5\<rparr>"
  have "recv_step e cv (int m + 1) (False, d1) = Inr (True, ?d2)"
    using Suc.prems d1(2,3) by (simp add: timer_sig_def Let_def rexmtval_def maxtimeout_def)
  moreover have "\<exists>n d'. recv_wait e cv (int m + 1) (True, ?d2) = (Done, n, d') \<and> td_net d' = rest"
    using Suc.prems(2) d1(3) by (intro Suc.IH) simp_all
  ultimately show ?case using d1(1) rw.step_to by metis
qed

lemma recv_finish_done: "fst (recv_finish e cv block d) = Done"
  by (auto simp: recv_finish_def Let_def split: prod.splits rcv.splits)

lemma recv_blocks_live:
  assumes "\<And>i. send_ok e i" "\<And>k. late k \<le> 4" "n_blocks w \<le> 32767" "length w \<le> room"
    and "recv_ready cv old room w m d" "m < n_blocks w" "td_net d = datas late w m"
  shows "fst (recv_blocks e cv (int m) d) = Done"
  using assms(5-7)
proof (induction "n_blocks w - m" arbitrary: d m rule: less_induct)
  case less
  let ?d1 = "d\<lparr>td_timeout := 0, ackbuf := set_header ACK (int m) (ackbuf d)\<rparr>"
  obtain n d2 where rw: "recv_wait e cv (int m + 1) (True, ?d1) = (Done, n, d2)" "td_net d2 = datas late w (Suc m)"
    using recv_phase [OF assms(1), of m ?d1 "late m" w "datas late w (Suc m)" cv] assms(2) [of m] assms(3)
      less.prems(2,3) by (auto simp: datas_Cons)
  note spec = recv_wait_spec [OF recv_ready_inv [OF less.prems(1)] rw(1) assms(3)]
  obtain sz f t where wi: "writeit (int (length (seg w m))) cv (td_file d2) (td_io d2) = (sz, f, t)" by (metis prod_cases3)
  note acc = accepted_block [OF spec(1) assms(4) spec(4,5) wi]
  let ?d3 = "d2\<lparr>td_file := f, td_io := t\<rparr>"
  have run: "recv_blocks e cv (int m) d =
      (if length (seg w m) = SEGSIZE then recv_blocks e cv (int m + 1) ?d3 else recv_finish e cv (int m + 1) ?d3)"
    using rw wi spec(2) acc(3) by (subst recv_blocks.simps) (simp add: Let_def)
  show ?case
  proof (cases "length (seg w m) = SEGSIZE")
    case True
    then have "Suc m < n_blocks w" by (simp add: full_seg_iff flip: block_le_n)
    with less.hyps [of "Suc m" ?d3] acc(4) rw(2) run True less.prems(2) show ?thesis by (simp add: add.commute)
  next
    case False
    with run recv_finish_done show ?thesis by simp
  qed
qed

end
