(* ===== verification/Tftp_Server.thy ===== *)
theory Tftp_Server
  imports Tftp_Recv
begin

text \<open>
  The request side of the TFTP server: \<^verbatim>\<open>main\<close>, \<^verbatim>\<open>tftp\<close> and \<^verbatim>\<open>validate_access\<close> of
  \<^verbatim>\<open>src/iputils-ns/tftpd.c\<close>. The file system and the process environment are parameters. A
  C string is the list of its bytes before the terminating zero.
\<close>

definition ENOTFOUND :: int where "ENOTFOUND = 1"
definition EACCESS :: int where "EACCESS = 2"
definition EBADOP :: int where "EBADOP = 4"

section \<open>Access checks\<close>

text \<open>
  \<open>fs_stat\<close> gives the error number or the mode bits; \<open>fs_open\<close> (with the flag of
  \<^verbatim>\<open>open\<close>) and \<open>fs_fdopen\<close> give the error number of a failure.
\<close>

record tftp_fs =
  fs_stat :: "byte list \<Rightarrow> int + int"
  fs_open :: "byte list \<Rightarrow> int \<Rightarrow> int option"
  fs_fdopen :: "byte list \<Rightarrow> int option"

definition bad_path :: "byte list \<Rightarrow> bool" where
  "bad_path fn \<longleftrightarrow>
    list_ex (\<lambda>i. fn ! i = 46 \<and> (i = 0 \<or> take 4 (drop (i - 1) fn) = [47, 46, 46, 47])) [0..<length fn]"

definition strip_slash :: "byte list \<Rightarrow> byte list" where
  "strip_slash fn = (if fn \<noteq> [] \<and> hd fn = 47 then tl fn else fn)"

text \<open>\<open>Inl\<close> is the error code for the peer, \<open>Inr\<close> the path of the file that was opened.\<close>

definition validate_access :: "tftp_fs \<Rightarrow> byte list option \<Rightarrow> byte list \<Rightarrow> int \<Rightarrow> int + byte list" where
  "validate_access fs dirs filename mode =
    (if bad_path filename then Inl EACCESS
     else (case dirs of
         None \<Rightarrow> Inl EACCESS
       | Some dir \<Rightarrow>
           (let path = take 1534 (dir @ [47] @ strip_slash filename)
            in case fs_stat fs path of
                 Inl err \<Rightarrow> Inl (if err = 2 then ENOTFOUND else EACCESS)
               | Inr st \<Rightarrow>
                   if mode = RRQ \<and> st AND 4 = 0 then Inl EACCESS
                   else if mode \<noteq> RRQ \<and> st AND 2 = 0 then Inl EACCESS
                   else (case fs_open fs path (if mode = RRQ then 0 else 1) of
                       Some err \<Rightarrow> Inl (err + 100)
                     | None \<Rightarrow>
                         (case fs_fdopen fs path of Some err \<Rightarrow> Inl (err + 100) | None \<Rightarrow> Inr path)))))"

section \<open>The request\<close>

function scan_nul :: "byte list \<Rightarrow> nat \<Rightarrow> nat \<Rightarrow> nat" where
  "scan_nul b n i = (if i < n \<and> b ! i \<noteq> 0 then scan_nul b n (Suc i) else i)"
  by pat_completeness auto
termination by (relation "measure (\<lambda>(b, n, i). n - i)") auto

declare scan_nul.simps [simp del]

definition c_string :: "byte list \<Rightarrow> nat \<Rightarrow> byte list" where
  "c_string b i = takeWhile (\<lambda>c. c \<noteq> 0) (drop i b)"

definition tolower_byte :: "byte \<Rightarrow> byte" where
  "tolower_byte c = (if 65 \<le> c \<and> c \<le> 90 then c + 32 else c)"

definition formats :: "(string \<times> int) list" where
  "formats = [(''netascii'', 1), (''octet'', 0)]"

definition find_format :: "byte list \<Rightarrow> int option" where
  "find_format mode = map_option snd (List.find (\<lambda>(nm, cv). bytes_of nm = mode) formats)"

text \<open>
  What becomes of a request: a read past the end of the request buffer (undefined in C), an
  error packet, or a transfer of a file with a conversion flag.
\<close>

datatype tftp_act = Overread | Nak int | Transfer int "byte list" int

definition tftp_request :: "tftp_fs \<Rightarrow> byte list option \<Rightarrow> int \<Rightarrow> byte list \<Rightarrow> nat \<Rightarrow> tftp_act" where
  "tftp_request fs dirs opcode b n =
    (let i1 = scan_nul b n 2
     in if length b \<le> i1 then Overread
        else if b ! i1 \<noteq> 0 then Nak EBADOP
        else
          (let i2 = scan_nul b n (Suc i1)
           in if length b \<le> i2 then Overread
              else if b ! i2 \<noteq> 0 then Nak EBADOP
              else
                (case find_format (map tolower_byte (c_string b (Suc i1))) of
                   None \<Rightarrow> Nak EBADOP
                 | Some convert \<Rightarrow>
                     (case validate_access fs dirs (c_string b 2) opcode of
                        Inl ecode \<Rightarrow> Nak ecode
                      | Inr path \<Rightarrow> Transfer opcode path convert))))"

text \<open>
  \<^verbatim>\<open>tftp\<close> with the transfer it starts, in a fresh process: static storage is zero. \<open>disk\<close>
  gives the contents of files and \<open>room\<close> the size to which they can grow.
\<close>

definition tftpd_start :: "'f \<Rightarrow> net list \<Rightarrow> 'f tftpd" where
  "tftpd_start f es =
    \<lparr>td_file = f,
     td_io = \<lparr>bfs = replicate 2 \<lparr>counter = 0, buf = replicate PKTSIZE 0\<rparr>, nextone = 0, current = 0, newline = 0, prevchar = -1\<rparr>,
     confirmed = 0, td_timeout = 0, ackbuf = replicate PKTSIZE 0, td_net = es, td_tick = 0, td_sent = []\<rparr>"

datatype tftp_end =
    End_Overread
  | End_Nak "(byte list \<times> int) list"
  | End_Sent outcome "infile tftpd"
  | End_Received outcome "outfile tftpd"

definition tftp ::
  "tftp_sys \<Rightarrow> tftp_fs \<Rightarrow> (byte list \<Rightarrow> byte list) \<Rightarrow> nat \<Rightarrow> byte list option \<Rightarrow> int \<Rightarrow> byte list \<Rightarrow> nat \<Rightarrow> net list \<Rightarrow> tftp_end" where
  "tftp e fs disk room dirs opcode b n es =
    (case tftp_request fs dirs opcode b n of
       Overread \<Rightarrow> End_Overread
     | Nak ecode \<Rightarrow> End_Nak (td_sent (nak e ecode (tftpd_start () es)))
     | Transfer opc path convert \<Rightarrow>
         if opc = WRQ then
           (case recvfile e convert (tftpd_start \<lparr>out_data = disk path, out_pos = 0, out_room = room\<rparr> es) of (r, d) \<Rightarrow>
              End_Received r d)
         else
           (case sendfile e convert (tftpd_start \<lparr>in_rest = disk path, in_err = False\<rparr> es) of (r, d) \<Rightarrow>
              End_Sent r d))"

section \<open>The start of the process\<close>

record tftp_main =
  m_root :: bool
  m_setids :: bool
  m_ioctl :: bool
  m_first :: "byte list option"
  m_fork :: "nat \<Rightarrow> int"
  m_next :: "nat \<Rightarrow> byte list option"
  m_socket :: bool
  m_connect :: bool

text \<open>
  The retry loop around \<^verbatim>\<open>fork\<close>: the result of \<^verbatim>\<open>recvfrom\<close> is stored in the loop counter. With
  fuel; \<open>None\<close> means that the loop is still running. The result holds the last process
  number, the size and the bytes of the request.
\<close>

fun fork_loop :: "tftp_main \<Rightarrow> nat \<Rightarrow> nat \<Rightarrow> int \<Rightarrow> int \<Rightarrow> nat \<Rightarrow> byte list \<Rightarrow> (int \<times> nat \<times> byte list) option" where
  "fork_loop e 0 k pid i n b = None"
| "fork_loop e (Suc fuel) k pid i n b =
    (if i < 20 then
       (let pid1 = m_fork e k
        in if pid1 < 0 then
             (case m_next e k of
                None \<Rightarrow> fork_loop e fuel (Suc k) pid1 (-1 + 1) n b
              | Some p \<Rightarrow>
                  (let j = length (take PKTSIZE p)
                   in fork_loop e fuel (Suc k) pid1 (int j + 1) (if 0 < j then j else n) (recv_into p b)))
           else Some (pid1, n, b))
     else Some (pid, n, b))"

text \<open>\<open>Inl\<close> is an exit status, \<open>Inr\<close> the opcode and the request the child serves.\<close>

definition tftpd_main :: "tftp_main \<Rightarrow> nat \<Rightarrow> (int + int \<times> byte list \<times> nat) option" where
  "tftpd_main e fuel =
    (if m_root e \<and> \<not> m_setids e then Some (Inl 1)
     else if \<not> m_ioctl e then Some (Inl 1)
     else (case m_first e of
         None \<Rightarrow> Some (Inl 1)
       | Some p \<Rightarrow>
           (case fork_loop e fuel 0 0 1 (length (take PKTSIZE p)) (recv_into p (replicate PKTSIZE 0)) of
              None \<Rightarrow> None
            | Some (pid, n, b) \<Rightarrow>
                if pid < 0 then Some (Inl 1)
                else if pid \<noteq> 0 then Some (Inl 0)
                else if \<not> m_socket e \<or> \<not> m_connect e then Some (Inl 1)
                else
                  (let opcode = short_le (b ! 1) (b ! 0)
                   in if opcode = RRQ \<or> opcode = WRQ then Some (Inr (opcode, b, n)) else Some (Inl 1)))))"

section \<open>Paths and their components\<close>

fun comps :: "byte list \<Rightarrow> byte list list" where
  "comps [] = [[]]"
| "comps (c # cs) = (if c = 47 then [] # comps cs else (case comps cs of x # xs \<Rightarrow> (c # x) # xs))"

lemma comps_nonempty [simp]: "comps f \<noteq> []"
  by (induction f) (auto split: list.splits)

lemma comps_Cons:
  "comps f = x # xs \<Longrightarrow> (xs = [] \<and> f = x) \<or> (\<exists>r. f = x @ 47 # r \<and> comps r = xs)"
proof (induction f arbitrary: x)
  case (Cons c f)
  show ?case
  proof (cases "c = 47")
    case True
    with Cons.prems show ?thesis by auto
  next
    case False
    with Cons.prems obtain y where "x = c # y" "comps f = y # xs"
      by (cases "comps f") auto
    with Cons.IH show ?thesis by fastforce
  qed
qed simp

lemma dotdot_component:
  "[46, 46] \<in> set (butlast (comps f)) \<Longrightarrow> (\<exists>r. f = [46, 46, 47] @ r) \<or> (\<exists>p r. f = p @ [47, 46, 46, 47] @ r)"
proof (induction "length f" arbitrary: f rule: less_induct)
  case less
  obtain x xs where c: "comps f = x # xs" by (cases "comps f") auto
  with less.prems have ne: "xs \<noteq> []" by auto
  with comps_Cons [OF c] obtain r where r: "f = x @ 47 # r" "comps r = xs" by auto
  show ?case
  proof (cases "x = [46, 46]")
    case True
    with r show ?thesis by simp
  next
    case False
    with less.prems c ne r have "[46, 46] \<in> set (butlast (comps r))" by auto
    with less.hyps [of r] r(1) have "(\<exists>q. r = [46, 46, 47] @ q) \<or> (\<exists>p q. r = p @ [47, 46, 46, 47] @ q)" by simp
    then show ?thesis
    proof (elim disjE exE)
      fix q assume "r = [46, 46, 47] @ q"
      with r(1) have "f = x @ [47, 46, 46, 47] @ q" by simp
      then show ?thesis by blast
    next
      fix p q assume "r = p @ [47, 46, 46, 47] @ q"
      with r(1) have "f = (x @ 47 # p) @ [47, 46, 46, 47] @ q" by simp
      then show ?thesis by blast
    qed
  qed
qed

lemma good_path:
  assumes "\<not> bad_path f"
  shows "[46, 46] \<notin> set (butlast (comps f))" "f = [] \<or> hd f \<noteq> 46"
proof -
  have ok: "f ! i = 46 \<Longrightarrow> i < length f \<Longrightarrow> i \<noteq> 0 \<and> take 4 (drop (i - 1) f) \<noteq> [47, 46, 46, 47]" for i
    using assms by (auto simp: bad_path_def list_ex_iff)
  show "f = [] \<or> hd f \<noteq> 46" using ok [of 0] by (cases f) auto
  show "[46, 46] \<notin> set (butlast (comps f))"
  proof
    assume "[46, 46] \<in> set (butlast (comps f))"
    then consider r where "f = [46, 46, 47] @ r" | p r where "f = p @ [47, 46, 46, 47] @ r"
      using dotdot_component by blast
    then show False
    proof cases
      case (1 r)
      with ok [of 0] show False by simp
    next
      case (2 p r)
      with ok [of "Suc (length p)"] show False by (simp add: nth_append)
    qed
  qed
qed

lemma good_strip:
  assumes "\<not> bad_path f"
  shows "[46, 46] \<notin> set (butlast (comps (strip_slash f)))"
proof (cases "f \<noteq> [] \<and> hd f = 47")
  case True
  then obtain r where "f = 47 # r" by (cases f) auto
  with good_path(1) [OF assms] show ?thesis by (auto simp: strip_slash_def)
next
  case False
  with good_path(1) [OF assms] show ?thesis by (auto simp: strip_slash_def)
qed

text \<open>A prefix of a name has no further components but its last.\<close>

lemma comps_append: "comps (f @ g) = butlast (comps f) @ (last (comps f) @ hd (comps g)) # tl (comps g)"
proof (induction f)
  case (Cons c f)
  then show ?case by (cases "comps f"; cases "comps g") (auto split: list.splits if_splits)
qed simp

lemma comps_take: "set (butlast (comps (take k f))) \<subseteq> set (butlast (comps f))"
proof -
  have "comps f = butlast (comps (take k f)) @ (last (comps (take k f)) @ hd (comps (drop k f))) # tl (comps (drop k f))"
    using comps_append [of "take k f" "drop k f"] by simp
  then have "butlast (comps f) = butlast (comps (take k f)) @ butlast ((last (comps (take k f)) @ hd (comps (drop k f))) # tl (comps (drop k f)))"
    by (metis butlast_append list.discI)
  then show ?thesis by (metis Un_upper1 set_append)
qed

text \<open>
  Where a path leads from a directory, given by the names above it, when no symbolic link is met: empty components and
  \<open>.\<close> stay, \<open>..\<close> goes up.
\<close>

fun walk :: "byte list list \<Rightarrow> byte list list \<Rightarrow> byte list list" where
  "walk here [] = here"
| "walk here (c # cs) = walk (if c = [] \<or> c = [46] then here else if c = [46, 46] then butlast here else here @ [c]) cs"

definition named :: "byte list \<Rightarrow> bool" where
  "named c \<longleftrightarrow> c \<noteq> [] \<and> c \<noteq> [46]"

lemma walk_append: "walk here (cs @ ds) = walk (walk here cs) ds"
  by (induction here cs rule: walk.induct) simp_all

lemma walk_down: "[46, 46] \<notin> set cs \<Longrightarrow> walk here cs = here @ filter named cs"
  by (induction here cs rule: walk.induct) (auto simp: named_def)

lemma walk_last_up:
  assumes "[46, 46] \<notin> set (butlast cs)" and "cs \<noteq> []"
  shows "walk here cs = (if last cs = [46, 46] then butlast (here @ filter named (butlast cs)) else here @ filter named cs)"
proof (cases "last cs = [46, 46]")
  case True
  have "walk here (butlast cs @ [last cs]) = butlast (here @ filter named (butlast cs))"
    unfolding walk_append walk_down [OF assms(1)] using True by simp
  moreover have "butlast cs @ [last cs] = cs" using assms(2) by simp
  ultimately show ?thesis using True by (simp only: if_True refl)
next
  case False
  have "set cs = set (butlast cs @ [last cs])" using assms(2) by simp
  then have "[46, 46] \<notin> set cs" using False assms(1) by simp
  then show ?thesis using walk_down False by simp
qed

section \<open>Scanning a request, and the retry loop\<close>

lemma scan_nul_le: "scan_nul b n i \<le> max n i"
  by (induction b n i rule: scan_nul.induct) (subst scan_nul.simps, auto)

lemma scan_nul_none: "(\<And>j. i \<le> j \<Longrightarrow> j < n \<Longrightarrow> b ! j \<noteq> 0) \<Longrightarrow> i \<le> n \<Longrightarrow> scan_nul b n i = n"
proof (induction b n i rule: scan_nul.induct)
  case (1 b n i)
  show ?case
  proof (cases "i < n")
    case True
    with 1 have "scan_nul b n (Suc i) = n" by simp
    with 1(2) [of i] True show ?thesis by (subst scan_nul.simps) simp
  next
    case False
    with 1(3) show ?thesis by (subst scan_nul.simps) simp
  qed
qed

lemma fork_loop_runs:
  assumes "\<And>k. m_fork e k < 0" "\<And>k. m_next e k = None" "i < 20"
  shows "fork_loop e fuel k pid i n b = None"
  using assms(3) by (induction fuel arbitrary: k pid i) (auto simp: assms Let_def)

end
