(* ===== verification/Tftp_Properties.thy ===== *)
theory Tftp_Properties
  imports Tftp_Server
begin

text \<open>
  The properties of the TFTP server, each with
  an application to a concrete transfer where it has hypotheses.
\<close>

lemma start_wf:
  "length (bfs (td_io (tftpd_start f es))) = 2"
  "list_all (\<lambda>b. length (buf b) = PKTSIZE) (bfs (td_io (tftpd_start f es)))"
  by (simp_all add: tftpd_start_def numeral_2_eq_2)

lemma sendfile_spec:
  assumes "sendfile e cv (tftpd_start \<lparr>in_rest = cs, in_err = err\<rparr> es) = (r, d)"
  shows "sent_in_order e (wire_of cv cs) r d"
proof (rule send_blocks_spec [where m = 0])
  let ?d = "tftpd_start \<lparr>in_rest = cs, in_err = err\<rparr> es"
  show "send_blocks e cv (int 0 + 1) (?d\<lparr>confirmed := 0, td_io := r_init (td_io ?d)\<rparr>) = (r, d)"
    using assms by (simp add: sendfile_def)
  show "src_inv cv (wire_of cv cs) 0
      (td_file (?d\<lparr>confirmed := 0, td_io := r_init (td_io ?d)\<rparr>), td_io (?d\<lparr>confirmed := 0, td_io := r_init (td_io ?d)\<rparr>))"
    using src_inv_init [OF start_wf, of cv "\<lparr>in_rest = cs, in_err = err\<rparr>"] by (simp add: tftpd_start_def)
qed (simp_all add: n_blocks_def blocks_sent_def tftpd_start_def)

lemma recv_ready_start:
  assumes "net_ok w es"
  shows "recv_ready cv old room w 0
    (tftpd_start \<lparr>out_data = old, out_pos = 0, out_room = room\<rparr> es\<lparr>confirmed := 0,
      td_io := w_init (td_io (tftpd_start \<lparr>out_data = old, out_pos = 0, out_room = room\<rparr> es))\<rparr>)"
proof -
  let ?d = "tftpd_start \<lparr>out_data = old, out_pos = 0, out_room = room\<rparr> es"
  have "buf (other_bf (w_init (td_io ?d))) = replicate PKTSIZE 0"
    by (simp add: tftpd_start_def w_init_def rw_init_def other_bf_def numeral_2_eq_2)
  then have "th_opcode (buf (other_bf (w_init (td_io ?d)))) = 0"
    by (simp add: th_opcode_def PKTSIZE_def short_le_def)
  with snk_inv_init [OF start_wf, of cv old room "\<lparr>out_data = old, out_pos = 0, out_room = room\<rparr>" es] assms
  show ?thesis by (simp add: recv_ready_def snk_flushed_def tftpd_start_def DATA_def)
qed

lemma recvfile_spec:
  assumes "recvfile e cv (tftpd_start \<lparr>out_data = old, out_pos = 0, out_room = room\<rparr> es) = (Done, d)"
    and "net_ok w es" "n_blocks w \<le> 32767" "length w \<le> room"
  shows "uploaded cv old w d"
  using recv_blocks_spec [OF recv_ready_start [OF assms(2)], of e cv] assms(1,3,4) by (simp add: recvfile_def)

lemma in_order_authentic:
  assumes "sent_in_order e w r d" "p \<in> fst ` set (td_sent d)"
  shows "authentic w p"
proof -
  have "p \<in> set (blocks_sent d)" using assms(2) by (simp add: blocks_sent_def)
  moreover obtain j where j: "j \<le> n_blocks w" "blocks_sent d = map (data_packet w) [0..<j]
      \<or> blocks_sent d = map (data_packet w) [0..<j] @ [nak_packet e (errno_val e + 100)]"
    using assms(1) unfolding sent_in_order_def by blast
  ultimately have "p \<in> data_packet w ` {0..<j} \<or> p = nak_packet e (errno_val e + 100)" by auto
  moreover have "authentic w (nak_packet e err)" for err
    by (auto simp: authentic_def nak_packet_def be16_def DATA_def ERROR_def split: option.splits)
  moreover have "authentic w (data_packet w k)" if "k < j" for k
    using less_le_trans [OF that j(1)] unfolding authentic_def by blast
  ultimately show ?thesis by auto
qed

text \<open>The environment of the examples: no send fails.\<close>

definition demo_tftp_sys :: tftp_sys where
  "demo_tftp_sys = \<lparr>send_ok = (\<lambda>_. True), errno_val = 5, strerror = (\<lambda>_. ''Input/output error'')\<rparr>"

section \<open>Downloads\<close>

text \<open>
  C12. Blocks in order. Whatever arrives from the peer and whenever the alarm expires, the
  datagrams of \<^verbatim>\<open>sendfile\<close>, with immediate repetitions removed, are the first blocks of the
  file in its transfer encoding, in order and without a gap, followed by an error packet at
  most when the transfer was aborted. A transfer that completes has sent all of them, and
  then the file has at most 32767 blocks: block numbers are compared as signed 16-bit
  values, so that no longer file can ever be delivered.
\<close>
theorem sendfile_in_order:
  assumes "sendfile e cv (tftpd_start \<lparr>in_rest = cs, in_err = err\<rparr> es) = (r, d)"
  shows "(\<exists>j \<le> n_blocks (wire_of cv cs). blocks_sent d = map (data_packet (wire_of cv cs)) [0..<j]
       \<or> r = Aborted \<and> blocks_sent d = map (data_packet (wire_of cv cs)) [0..<j] @ [nak_packet e (errno_val e + 100)])
    \<and> (r = Done \<longrightarrow> blocks_sent d = map (data_packet (wire_of cv cs)) [0..<n_blocks (wire_of cv cs)]
         \<and> n_blocks (wire_of cv cs) \<le> 32767)"
  using sendfile_spec [OF assms] by (simp add: sent_in_order_def)

text \<open>
  C26. Downloads complete. If every send succeeds, the file has at most 32767 blocks, and
  the peer acknowledges each block before the fifth expiry of the alarm, \<^verbatim>\<open>sendfile\<close>
  completes the transfer.
\<close>
theorem download_completes:
  assumes "\<And>i. send_ok e i" "\<And>k. late k \<le> 4" "n_blocks (wire_of cv cs) \<le> 32767"
  shows "fst (sendfile e cv (tftpd_start \<lparr>in_rest = cs, in_err = False\<rparr> (acks late 0 (n_blocks (wire_of cv cs))))) = Done"
proof -
  let ?es = "acks late 0 (n_blocks (wire_of cv cs))"
  let ?d = "tftpd_start \<lparr>in_rest = cs, in_err = False\<rparr> ?es"
  let ?d0 = "?d\<lparr>confirmed := 0, td_io := r_init (td_io ?d)\<rparr>"
  have "src_inv cv (wire_of cv cs) 0 (td_file ?d0, td_io ?d0)"
    using src_inv_init [OF start_wf, of cv "\<lparr>in_rest = cs, in_err = False\<rparr>"] by (simp add: tftpd_start_def)
  moreover have "no_err (td_file ?d0) (td_io ?d0)"
    by (simp add: no_err_def tftpd_start_def r_init_def rw_init_def BF_ALLOC_def BF_FREE_def)
  ultimately have "fst (send_blocks e cv (int 0 + 1) ?d0) = Done"
    using assms by (intro send_blocks_live) (auto simp: n_blocks_def blocks_sent_def tftpd_start_def)
  then show ?thesis by (simp add: sendfile_def)
qed

text \<open>A download of two bytes in netascii; the first wait ends by the alarm.\<close>

definition demo_download :: "outcome \<times> infile tftpd" where
  "demo_download = sendfile demo_tftp_sys 1 (tftpd_start \<lparr>in_rest = [65, 10], in_err = False\<rparr> [Alarm, Datagram [0, 4, 0, 1]])"

lemma demo_download_done: "fst demo_download = Done"
  by code_simp

theorem sendfile_in_order_witness:
  "blocks_sent (snd demo_download) = [[0, 3, 0, 1, 65, 13, 10]]"
proof -
  have run: "sendfile demo_tftp_sys 1 (tftpd_start \<lparr>in_rest = [65, 10], in_err = False\<rparr> [Alarm, Datagram [0, 4, 0, 1]])
      = (Done, snd demo_download)"
    using demo_download_done by (simp add: demo_download_def prod_eq_iff)
  have "wire_of 1 [65, 10] = [65, 13, 10]" "n_blocks [65, 13, 10] = 1" "data_packet [65, 13, 10] 0 = [0, 3, 0, 1, 65, 13, 10]"
    by code_simp+
  with sendfile_in_order [OF run] show ?thesis by simp
qed

theorem download_completes_witness:
  "fst (sendfile demo_tftp_sys 0 (tftpd_start \<lparr>in_rest = [65, 10], in_err = False\<rparr>
     (acks (\<lambda>k. 4) 0 (n_blocks (wire_of 0 [65, 10]))))) = Done"
  by (rule download_completes) (simp_all add: demo_tftp_sys_def n_blocks_def wire_of_def SEGSIZE_def)

section \<open>Uploads\<close>

text \<open>
  C7. Uploads are faithful. Suppose the data packets that arrive are blocks of the file
  \<open>cs\<close> in its transfer encoding (in any order, with losses and repetitions, at any pace,
  among packets of other types), the file has at most 32767 blocks and the disk has room.
  If \<^verbatim>\<open>recvfile\<close> completes, the bytes of the target file are those of \<open>cs\<close>; since the file is
  opened without truncation, what an older, longer file had beyond them remains.
\<close>
theorem recvfile_delivers:
  assumes "recvfile e cv (tftpd_start \<lparr>out_data = old, out_pos = 0, out_room = room\<rparr> es) = (Done, d)"
    and "net_ok (wire_of cv cs) es" "n_blocks (wire_of cv cs) \<le> 32767" "length (wire_of cv cs) \<le> room"
  shows "out_data (td_file d) = cs @ drop (length cs) old"
  using recvfile_spec [OF assms] by (simp add: uploaded_def over_def)

text \<open>
  An upload of \<open>A LF\<close> in netascii over an older file of four bytes; the block arrives twice.
\<close>

definition demo_upload_net :: "net list" where
  "demo_upload_net = [Alarm, Datagram [0, 3, 0, 1, 65, 13, 10], Datagram [0, 3, 0, 1, 65, 13, 10]]"

definition demo_upload :: "outcome \<times> outfile tftpd" where
  "demo_upload = recvfile demo_tftp_sys 1 (tftpd_start \<lparr>out_data = [1, 2, 3, 4], out_pos = 0, out_room = 100\<rparr> demo_upload_net)"

lemma demo_upload_facts:
  "fst demo_upload = Done" "wire_of 1 [65, 10] = [65, 13, 10]" "net_ok [65, 13, 10] demo_upload_net"
  "n_blocks [65, 13, 10] = 1"
  by code_simp+

lemma demo_upload_run:
  "recvfile demo_tftp_sys 1 (tftpd_start \<lparr>out_data = [1, 2, 3, 4], out_pos = 0, out_room = 100\<rparr> demo_upload_net) = (Done, snd demo_upload)"
  using demo_upload_facts(1) by (simp add: demo_upload_def prod_eq_iff)

theorem recvfile_delivers_witness:
  "out_data (td_file (snd demo_upload)) = [65, 10, 3, 4]"
  using recvfile_delivers [OF demo_upload_run, of "[65, 10]"] by (simp add: demo_upload_facts)

text \<open>
  C27. Uploads complete. If every send succeeds, the file has at most 32767 blocks, the disk
  has room, and each block arrives before the fifth expiry of the alarm, \<^verbatim>\<open>recvfile\<close>
  completes the transfer.
\<close>
theorem upload_completes:
  assumes "\<And>i. send_ok e i" "\<And>k. late k \<le> 4" "n_blocks w \<le> 32767" "length w \<le> room"
  shows "fst (recvfile e cv (tftpd_start \<lparr>out_data = old, out_pos = 0, out_room = room\<rparr> (datas late w 0))) = Done"
proof -
  let ?d = "tftpd_start \<lparr>out_data = old, out_pos = 0, out_room = room\<rparr> (datas late w 0)"
  have "fst (recv_blocks e cv (int 0) (?d\<lparr>confirmed := 0, td_io := w_init (td_io ?d)\<rparr>)) = Done"
    using assms recv_ready_start [OF net_ok_datas]
    by (intro recv_blocks_live) (auto simp: n_blocks_def tftpd_start_def)
  then show ?thesis by (simp add: recvfile_def)
qed

theorem upload_completes_witness:
  "fst (recvfile demo_tftp_sys 1 (tftpd_start \<lparr>out_data = [], out_pos = 0, out_room = 100\<rparr> (datas (\<lambda>k. 3) [65, 13, 10] 0))) = Done"
  by (rule upload_completes) (simp_all add: demo_tftp_sys_def n_blocks_def SEGSIZE_def)

text \<open>
  C16. Copying. The packets of a download, delivered to an upload in the same mode (some of
  them, in any order, repeatedly, and never altered), reproduce the file whenever the
  upload completes.
\<close>
theorem transfer_roundtrip:
  assumes "sendfile e cv (tftpd_start \<lparr>in_rest = cs, in_err = False\<rparr> es) = (r, d)"
    and "list_all (\<lambda>ev. case ev of Datagram p \<Rightarrow> p \<in> fst ` set (td_sent d) | _ \<Rightarrow> True) es'"
    and "n_blocks (wire_of cv cs) \<le> 32767" "length (wire_of cv cs) \<le> room"
    and "recvfile e' cv (tftpd_start \<lparr>out_data = [], out_pos = 0, out_room = room\<rparr> es') = (Done, d')"
  shows "out_data (td_file d') = cs"
proof -
  have "net_ok (wire_of cv cs) es'"
    unfolding net_ok_def list_all_iff
  proof
    fix ev assume "ev \<in> set es'"
    with assms(2) in_order_authentic [OF sendfile_spec [OF assms(1)]]
    show "case ev of Datagram p \<Rightarrow> authentic (wire_of cv cs) p | _ \<Rightarrow> True"
      by (auto simp: list_all_iff split: net.splits)
  qed
  from recvfile_spec [OF assms(5) this assms(3,4)] show ?thesis by (simp add: uploaded_def over_def)
qed

definition demo_copy :: "outcome \<times> outfile tftpd" where
  "demo_copy = recvfile demo_tftp_sys 1 (tftpd_start \<lparr>out_data = [], out_pos = 0, out_room = 100\<rparr>
     (map (Datagram \<circ> fst) (td_sent (snd demo_download))))"

lemma demo_copy_done: "fst demo_copy = Done"
  by code_simp

theorem transfer_roundtrip_witness: "out_data (td_file (snd demo_copy)) = [65, 10]"
proof (rule transfer_roundtrip [where cv = 1 and e = demo_tftp_sys and e' = demo_tftp_sys and room = 100])
  show "sendfile demo_tftp_sys 1 (tftpd_start \<lparr>in_rest = [65, 10], in_err = False\<rparr> [Alarm, Datagram [0, 4, 0, 1]])
      = (fst demo_download, snd demo_download)"
    by (simp add: demo_download_def)
  show "recvfile demo_tftp_sys 1 (tftpd_start \<lparr>out_data = [], out_pos = 0, out_room = 100\<rparr>
      (map (Datagram \<circ> fst) (td_sent (snd demo_download)))) = (Done, snd demo_copy)"
    using demo_copy_done by (simp add: demo_copy_def prod_eq_iff)
qed (auto simp: list_all_iff demo_upload_facts)

text \<open>
  The final acknowledgement goes out once. In an upload of \<open>n\<close> blocks the
  acknowledgements before the end have numbers below \<open>n\<close>, and number \<open>n\<close> is sent at most once: if
  it is lost and the peer repeats its last block, the server does not repeat the
  acknowledgement, because it receives the packet into one buffer and examines another.
\<close>
theorem final_ack_not_repeated:
  assumes "recvfile e cv (tftpd_start \<lparr>out_data = old, out_pos = 0, out_room = room\<rparr> es) = (Done, d)"
    and "net_ok w es" "n_blocks w \<le> 32767" "length w \<le> room"
  shows "\<exists>before final. td_sent d = before @ final \<and> fst ` set before \<subseteq> ack_packet ` {0..<n_blocks w}
    \<and> length final \<le> 1 \<and> fst ` set final \<subseteq> {ack_packet (n_blocks w)}"
  using recvfile_spec [OF assms] by (auto simp: uploaded_def)

text \<open>In the example the last block is repeated, and its acknowledgement is not.\<close>

theorem final_ack_not_repeated_witness:
  "count_list (map fst (td_sent (snd demo_upload))) (ack_packet 1) \<le> 1"
proof -
  obtain before final where b: "td_sent (snd demo_upload) = before @ final"
    "fst ` set before \<subseteq> ack_packet ` {0..<n_blocks [65, 13, 10]}" "length final \<le> 1"
    using final_ack_not_repeated [OF demo_upload_run demo_upload_facts(3)] by (auto simp: demo_upload_facts(4))
  have "ack_packet 0 \<noteq> ack_packet 1" by code_simp
  with b(2) have "ack_packet 1 \<notin> set (map fst before)" by (auto simp: demo_upload_facts(4))
  then have "count_list (map fst before) (ack_packet 1) = 0" by (simp add: count_list_0_iff)
  with b(1,3) show ?thesis
    using count_le_length [of "map fst final" "ack_packet 1"] by simp
qed

text \<open>
  The results of writing are not looked at: a full disk shows neither in the outcome nor in
  the acknowledgements.
\<close>

lemma full_disk_acknowledged:
  "fst (recvfile demo_tftp_sys 0 (tftpd_start \<lparr>out_data = [], out_pos = 0, out_room = 1\<rparr> demo_upload_net)) = Done"
  "out_data (td_file (snd (recvfile demo_tftp_sys 0 (tftpd_start \<lparr>out_data = [], out_pos = 0, out_room = 1\<rparr> demo_upload_net)))) = [65]"
  by code_simp+

section \<open>Requests\<close>

text \<open>
  C30. Where opened files lie. A file that \<^verbatim>\<open>validate_access\<close> opens is found at the served directory, a slash and the
  requested name without its leading slash, cut to fit the buffer. Followed from the served directory, without symbolic links, that
  name leads to the named components below the directory; only when its last component is \<open>..\<close>, which is not checked, does it lead one
  level up from there, at most to the parent of the served directory. The file is readable, respectively writable, for everyone. The
  path of the served directory is shorter than 1534 bytes, the size of the buffer.
\<close>
theorem validate_access_location:
  assumes "validate_access fs (Some dir) fn mode = Inr path" "length dir < 1534"
  shows "\<exists>rel st. path = dir @ [47] @ rel \<and> rel = take (1533 - length dir) (strip_slash fn)
    \<and> walk here (comps rel) = (if last (comps rel) = [46, 46] then butlast (here @ filter named (butlast (comps rel)))
        else here @ filter named (comps rel))
    \<and> fs_stat fs path = Inr st \<and> st AND (if mode = RRQ then 4 else 2) \<noteq> 0"
proof -
  define rel where "rel = take (1533 - length dir) (strip_slash fn)"
  have good: "\<not> bad_path fn" using assms(1) by (auto simp: validate_access_def)
  have tk: "take 1534 (dir @ [47] @ strip_slash fn) = dir @ [47] @ rel"
    using assms(2) by (simp add: rel_def take_Cons' diff_diff_eq)
  have "path = dir @ [47] @ rel \<and> (\<exists>st. fs_stat fs path = Inr st \<and> st AND (if mode = RRQ then 4 else 2) \<noteq> 0)"
    using assms(1) good unfolding validate_access_def Let_def option.case tk
    by (auto split: sum.splits option.splits if_splits)
  moreover have "[46, 46] \<notin> set (butlast (comps rel))"
    using good_strip [OF good] comps_take [of "1533 - length dir" "strip_slash fn"] by (auto simp: rel_def)
  then have "walk here (comps rel) = (if last (comps rel) = [46, 46] then butlast (here @ filter named (butlast (comps rel)))
      else here @ filter named (comps rel))" by (rule walk_last_up) simp
  ultimately show ?thesis unfolding rel_def by blast
qed

definition demo_fs :: tftp_fs where
  "demo_fs = \<lparr>fs_stat = (\<lambda>_. Inr 420), fs_open = (\<lambda>_ _. None), fs_fdopen = (\<lambda>_. None)\<rparr>"

text \<open>The names \<open>/a\<close> and \<open>/..\<close> requested from a server of the directory \<open>t\<close>: the first lies in it, the second is its parent.\<close>

theorem validate_access_location_witness:
  "walk [[116]] (comps [97]) = [[116], [97]] \<and> walk [[116]] (comps [46, 46]) = []"
proof -
  have "validate_access demo_fs (Some [116]) [47, 97] RRQ = Inr [116, 47, 97]"
    "validate_access demo_fs (Some [116]) [47, 46, 46] RRQ = Inr [116, 47, 46, 46]" by code_simp+
  from this [THEN validate_access_location, of "[[116]]"] show ?thesis by (simp add: named_def)
qed

text \<open>The last component is not checked: the parent of the served directory can be opened.\<close>

lemma trailing_dotdot_accepted: "validate_access demo_fs (Some [116]) [47, 46, 46] RRQ = Inr [116, 47, 46, 46]"
  by code_simp

text \<open>
  Bounds of the request scan. A request that leaves at least two bytes of the buffer
  unused is never read past the end of the buffer; a request that fills the buffer
  without any zero byte is.
\<close>
theorem tftp_request_bounds:
  "(2 \<le> n \<and> Suc n < length b \<longrightarrow> tftp_request fs dirs opcode b n \<noteq> Overread)
   \<and> (length b = n \<and> 2 \<le> n \<and> (\<forall>j < n. b ! j \<noteq> 0) \<longrightarrow> tftp_request fs dirs opcode b n = Overread)"
proof (intro conjI impI)
  assume n: "2 \<le> n \<and> Suc n < length b"
  let ?i = "scan_nul b n 2"
  have "?i \<le> n" "scan_nul b n (Suc ?i) \<le> Suc n"
    using n scan_nul_le [of b n 2] scan_nul_le [of b n "Suc ?i"] by simp_all
  with n show "tftp_request fs dirs opcode b n \<noteq> Overread"
    by (auto simp: tftp_request_def Let_def split: option.splits sum.splits)
next
  assume n: "length b = n \<and> 2 \<le> n \<and> (\<forall>j < n. b ! j \<noteq> 0)"
  then have "scan_nul b n 2 = n" by (intro scan_nul_none) auto
  with n show "tftp_request fs dirs opcode b n = Overread" by (simp add: tftp_request_def)
qed

theorem tftp_request_bounds_witness:
  "tftp_request demo_fs None RRQ (replicate 516 0) 3 \<noteq> Overread \<and> tftp_request demo_fs None RRQ [1, 1, 1] 3 = Overread"
  using tftp_request_bounds [of 3 "replicate 516 0" demo_fs None RRQ] tftp_request_bounds [of 3 "[1, 1, 1]" demo_fs None RRQ]
  by (simp add: less_Suc_eq numeral_3_eq_3)

text \<open>
  The bound on the retries of \<^verbatim>\<open>fork\<close> is not effective. The loop counter is overwritten by
  the result of \<^verbatim>\<open>recvfrom\<close>: while \<^verbatim>\<open>fork\<close> fails and no request is waiting, the loop runs
  forever, for any counter below the bound; and after a failure, a waiting request of 19
  bytes or more ends it at once.
\<close>
theorem fork_loop_counter_lost:
  "((\<forall>k. m_fork e k < 0) \<and> (\<forall>k. m_next e k = None) \<and> i < 20 \<longrightarrow> (\<forall>fuel. fork_loop e fuel k pid i n b = None))
   \<and> (m_fork e k < 0 \<and> m_next e k = Some p \<and> 19 \<le> length p \<and> i < 20 \<longrightarrow>
        fork_loop e (Suc (Suc fuel)) k pid i n b = Some (m_fork e k, length (take PKTSIZE p), recv_into p b))"
proof (intro conjI impI)
  assume "(\<forall>k. m_fork e k < 0) \<and> (\<forall>k. m_next e k = None) \<and> i < 20"
  then show "\<forall>fuel. fork_loop e fuel k pid i n b = None" using fork_loop_runs by blast
next
  assume a: "m_fork e k < 0 \<and> m_next e k = Some p \<and> 19 \<le> length p \<and> i < 20"
  then have "19 \<le> length (take PKTSIZE p)" by (simp add: PKTSIZE_def SEGSIZE_def)
  then have "0 < length (take PKTSIZE p)" "\<not> int (length (take PKTSIZE p)) + 1 < 20" by linarith+
  with a show "fork_loop e (Suc (Suc fuel)) k pid i n b = Some (m_fork e k, length (take PKTSIZE p), recv_into p b)"
    by (simp add: Let_def del: length_take length_greater_0_conv)
qed

definition demo_main :: tftp_main where
  "demo_main = \<lparr>m_root = False, m_setids = True, m_ioctl = True, m_first = Some [0, 1, 97, 0, 111, 0], m_fork = (\<lambda>_. -1),
     m_next = (\<lambda>_. None), m_socket = True, m_connect = True\<rparr>"

theorem fork_loop_counter_lost_witness: "fork_loop demo_main 1000 0 0 1 6 [0, 1, 97, 0, 111, 0] = None"
  using fork_loop_counter_lost [of demo_main 1 0 0 6 "[0, 1, 97, 0, 111, 0]"] by (simp add: demo_main_def)

end
