(* ===== verification/Ping_Checksum.thy ===== *)
theory Ping_Checksum
  imports Baseliner_Prelude
begin

text \<open>
  The Internet checksum (\<^verbatim>\<open>in_cksum\<close> of \<^verbatim>\<open>src/iputils-ns/ping.c\<close>) on the bytes of a packet, on
  a little-endian machine. The accumulator is an \<^verbatim>\<open>int\<close>; for the packets of \<^verbatim>\<open>ping\<close> it does
  not overflow.
\<close>

type_synonym octet = u8

fun cksum_sum :: "octet list \<Rightarrow> int \<Rightarrow> int" where
  "cksum_sum (a # b # r) s = cksum_sum r (s + (uint a + 256 * uint b))"
| "cksum_sum [a] s = s + uint a"
| "cksum_sum [] s = s"

definition in_cksum :: "octet list \<Rightarrow> u16 \<Rightarrow> u16" where
  "in_cksum bs csum =
    (let s = cksum_sum bs (uint csum);
         s1 = s div 65536 + s mod 65536;
         s2 = s1 + s1 div 65536
     in NOT (word_of_int s2))"

section \<open>Sums of words\<close>

lemma octet_bound: "uint (a :: octet) < 256" "0 \<le> uint a"
  using uint_lt2p [of a] by simp_all

lemma u16_bound: "uint (c :: u16) < 65536" "0 \<le> uint c"
  using uint_lt2p [of c] by simp_all

lemma word_of_bytes: "uint (ucast (w :: u16) :: octet) + 256 * uint (ucast (drop_bit 8 w) :: octet) = uint w"
proof -
  have "uint (ucast w :: octet) = uint w mod 256" by (simp add: unsigned_ucast_eq take_bit_eq_mod)
  moreover have "uint (ucast (drop_bit 8 w) :: octet) = uint w div 256"
  proof -
    have "uint w div 256 < 256" using u16_bound [of w] by simp
    moreover have "uint (drop_bit 8 w) = uint w div 256"
      by (simp add: drop_bit_eq_div uint_div_distrib)
    moreover have "0 \<le> uint w div 256" using u16_bound(2) [of w] by (simp add: div_int_pos_iff)
    ultimately show ?thesis by (simp add: unsigned_ucast_eq take_bit_eq_mod mod_pos_pos_trivial)
  qed
  ultimately show ?thesis by simp
qed

lemma cksum_sum_shift: "cksum_sum bs (s + t) = s + cksum_sum bs t"
proof (induction bs t arbitrary: s rule: cksum_sum.induct)
  case (1 a b r t)
  show ?case using 1 [of s] by (simp only: cksum_sum.simps add.assoc)
qed simp_all

lemma cksum_sum_add: "cksum_sum bs s = s + cksum_sum bs 0"
  using cksum_sum_shift [of bs s 0] by simp

lemma cksum_sum_append: "even (length xs) \<Longrightarrow> cksum_sum (xs @ ys) s = cksum_sum ys (cksum_sum xs s)"
  by (induction xs s rule: cksum_sum.induct) auto

lemma cksum_sum_bounds: "0 \<le> s \<Longrightarrow> s \<le> cksum_sum bs s \<and> cksum_sum bs s \<le> s + 65535 * int ((length bs + 1) div 2)"
proof (induction bs s rule: cksum_sum.induct)
  case (1 a b r s)
  note ab = octet_bound [of a] octet_bound [of b]
  have "0 \<le> s + (uint a + 256 * uint b)" using 1(2) ab by simp
  from 1(1) [OF this] have "s + (uint a + 256 * uint b) \<le> cksum_sum r (s + (uint a + 256 * uint b))"
    "cksum_sum r (s + (uint a + 256 * uint b)) \<le> s + (uint a + 256 * uint b) + 65535 * int ((length r + 1) div 2)" by simp_all
  moreover have "0 \<le> uint a + 256 * uint b" "uint a + 256 * uint b \<le> 65535" using ab by simp_all
  moreover have "int ((length (a # b # r) + 1) div 2) = int ((length r + 1) div 2) + 1" by simp
  ultimately show ?case unfolding cksum_sum.simps by (intro conjI) linarith+
next
  case (2 a s)
  then show ?case using octet_bound [of a] by simp
qed simp

lemma cksum_sum_small:
  assumes "length bs \<le> 65534"
  shows "cksum_sum bs (uint (c :: u16)) < 2 ^ 31" "0 \<le> cksum_sum bs (uint c)"
proof -
  have "int ((length bs + 1) div 2) \<le> 32767" using assms by simp
  moreover have "uint c \<le> cksum_sum bs (uint c)"
    "cksum_sum bs (uint c) \<le> uint c + 65535 * int ((length bs + 1) div 2)"
    using cksum_sum_bounds [OF u16_bound(2), of c bs] by blast+
  moreover note u16_bound [of c]
  ultimately have "0 \<le> cksum_sum bs (uint c)" "cksum_sum bs (uint c) < 2147483648" by linarith+
  then show "0 \<le> cksum_sum bs (uint c)" "cksum_sum bs (uint (c :: u16)) < 2 ^ 31" by simp_all
qed

section \<open>Folding\<close>

definition fold16 :: "int \<Rightarrow> int" where
  "fold16 s = (let s1 = s div 65536 + s mod 65536 in (s1 + s1 div 65536) mod 65536)"

lemma fold16_spec:
  assumes "0 \<le> s" "s < 2 ^ 32"
  shows "0 \<le> fold16 s" "fold16 s < 65536" "fold16 s mod 65535 = s mod 65535" "fold16 s = 0 \<longleftrightarrow> s = 0"
proof -
  define s1 where "s1 = s div 65536 + s mod 65536"
  have d: "s = 65536 * (s div 65536) + s mod 65536" by simp
  have q: "0 \<le> s div 65536" "s div 65536 \<le> 65535" "0 \<le> s mod 65536" "s mod 65536 \<le> 65535"
    using assms by (auto simp: div_int_pos_iff)
  then have s1: "0 \<le> s1" "s1 \<le> 131070" "s1 = s - 65535 * (s div 65536)" "s1 = 0 \<longleftrightarrow> s = 0"
    using d unfolding s1_def by linarith+
  show "0 \<le> fold16 s" "fold16 s < 65536" by (simp_all add: fold16_def Let_def)
  have f: "fold16 s = (if s1 < 65536 then s1 else s1 - 65535)"
  proof (cases "s1 < 65536")
    case True
    with s1(1) show ?thesis by (simp add: fold16_def Let_def s1_def [symmetric])
  next
    case False
    have "s1 div 65536 = 1" by (rule int_div_pos_eq [of _ _ _ "s1 - 65536"]) (use False s1(2) in simp_all)
    moreover have "(s1 + 1) mod 65536 = s1 - 65535"
      by (rule int_mod_pos_eq [of _ _ 1]) (use False s1(2) in simp_all)
    ultimately show ?thesis using False by (simp add: fold16_def Let_def s1_def [symmetric])
  qed
  have "s1 mod 65535 = s mod 65535" using s1(3) by (simp add: mod_diff_eq [symmetric, of s])
  moreover have "(s1 - 65535) mod 65535 = s1 mod 65535" by (simp add: mod_diff_eq [symmetric, of s1])
  ultimately show "fold16 s mod 65535 = s mod 65535" by (simp add: f)
  show "fold16 s = 0 \<longleftrightarrow> s = 0" using f s1 by auto
qed

lemma uint_not16: "uint (NOT (w :: u16)) = 65535 - uint w"
proof -
  have "uint (NOT w) = (- uint w - 1) mod 65536"
    unfolding word_not_def not_int_def by (simp only: uint_word_of_int) simp
  also have "\<dots> = 65535 - uint w" by (rule int_mod_pos_eq [of _ _ "-1"]) (use u16_bound [of w] in linarith)+
  finally show ?thesis .
qed

lemma uint_in_cksum: "uint (in_cksum bs c) = 65535 - fold16 (cksum_sum bs (uint c))"
  unfolding in_cksum_def Let_def uint_not16 fold16_def by (simp only: uint_word_of_int) simp

lemma mod_65535_zero: "(a :: int) mod 65535 = b mod 65535 \<Longrightarrow> (a - b) mod 65535 = 0"
  by (simp add: mod_eq_dvd_iff)

text \<open>
  The check of a receiver: the sum of a packet that contains its checksum folds to zero, if
  the words other than the checksum sum up to \<open>t > 0\<close> and the checksum is the complement of a
  fold of something congruent.
\<close>

lemma checksum_verifies:
  assumes "cksum_sum bs 0 = t + (65535 - fold16 t')" "0 < t" "t < 2 ^ 31" "0 \<le> t'" "t' < 2 ^ 32"
    and "t' mod 65535 = t mod 65535"
  shows "in_cksum bs 0 = 0"
proof -
  let ?s = "t + (65535 - fold16 t')"
  note f' = fold16_spec [OF assms(4,5)]
  have s: "0 < ?s" "?s < 2 ^ 32" using assms(2,3) f'(1,2) by simp_all
  note f = fold16_spec [OF less_imp_le [OF s(1)] s(2)]
  have "(t - fold16 t') mod 65535 = 0" using f'(3) assms(6) by (intro mod_65535_zero) simp
  then have "65535 dvd (t - fold16 t') + 65535" by (simp add: mod_eq_0_iff_dvd)
  then have "?s mod 65535 = 0" by (simp add: mod_eq_0_iff_dvd algebra_simps)
  then have "fold16 ?s mod 65535 = 0" "fold16 ?s \<noteq> 0" using f(3,4) s(1) by simp_all
  then have "fold16 ?s = 65535" using f(1,2) by (auto simp: mod_eq_0_iff_dvd dvd_def)
  then have "uint (in_cksum bs 0) = 0" using assms(1) by (simp add: uint_in_cksum)
  then show ?thesis by (simp add: word_uint_eq_iff)
qed

end
