(* ===== verification/Ping_State.thy ===== *)
theory Ping_State
  imports Timespec Ping_Checksum
begin

text \<open>
  The state and the operations of \<^verbatim>\<open>ping\<close> that do not depend on the protocol version
  (\<^verbatim>\<open>src/iputils-ns/ping.h\<close> and \<^verbatim>\<open>src/iputils-ns/ping_common.c\<close>), and the IPv4 probe and error
  queue of \<^verbatim>\<open>src/iputils-ns/ping.c\<close>. Times in this version of the program are in
  nanoseconds. Clock readings and the results of system calls are arguments. Printing is
  left out, except for the values of the final report.
\<close>

section \<open>Options, constants and the state\<close>

definition F_FLOOD :: u32 where "F_FLOOD = 0x001"
definition F_INTERVAL :: u32 where "F_INTERVAL = 0x002"
definition F_PINGFILLED :: u32 where "F_PINGFILLED = 0x008"
definition F_QUIET :: u32 where "F_QUIET = 0x010"
definition F_FLOOD_POLL :: u32 where "F_FLOOD_POLL = 0x800"
definition F_LATENCY :: u32 where "F_LATENCY = 0x1000"
definition F_ADAPTIVE :: u32 where "F_ADAPTIVE = 0x4000"

definition MININTERVAL :: int where "MININTERVAL = 10"
definition MINUSERINTERVAL :: int where "MINUSERINTERVAL = 200"

definition SCHINT :: "int \<Rightarrow> int" where
  "SCHINT a = (if a \<le> MININTERVAL then MININTERVAL else a)"

record ping =
  options :: u32
  rtt :: int
  rtt_addend :: int
  acked :: u16
  outpack :: "octet list"
  rcvd_tbl :: "u64 list"
  npackets :: int
  nreceived :: int
  nrepeats :: int
  ntransmitted :: int
  nchecksum :: int
  nerrors :: int
  interval :: int
  preload :: int
  deadline :: int
  lingertime :: int
  start_time :: timespec
  cur_time :: timespec
  exiting :: bool
  confirm :: int
  confirm_flag :: int
  timing :: bool
  tmin :: int
  tmax :: int
  tsum :: u64
  tsum2 :: u64
  pipesize :: int
  datalen :: nat
  uid :: int
  ident :: u16
  tokens :: int
  oom_count :: int
  waittime :: int

abbreviation opt :: "u32 \<Rightarrow> ping \<Rightarrow> bool" where
  "opt f s \<equiv> options s AND f \<noteq> 0"

section \<open>The table of received sequence numbers\<close>

definition bit_A :: "u16 \<Rightarrow> nat" where "bit_A seq = unat seq div 64"
definition bit_B :: "u16 \<Rightarrow> u64" where "bit_B seq = push_bit (unat seq mod 64) 1"

definition rcvd_set :: "u16 \<Rightarrow> u64 list \<Rightarrow> u64 list" where
  "rcvd_set seq t = t[bit_A seq := t ! bit_A seq OR bit_B seq]"

definition rcvd_clear :: "u16 \<Rightarrow> u64 list \<Rightarrow> u64 list" where
  "rcvd_clear seq t = t[bit_A seq := t ! bit_A seq AND NOT (bit_B seq)]"

definition rcvd_test :: "u16 \<Rightarrow> u64 list \<Rightarrow> u64" where
  "rcvd_test seq t = t ! bit_A seq AND bit_B seq"

section \<open>Times and packets in flight\<close>

definition tvsub :: "timespec \<Rightarrow> timespec \<Rightarrow> timespec" where
  "tvsub t t0 =
    (let ns = tv_nsec t - tv_nsec t0
     in if ns < 0 then \<lparr>tv_sec = tv_sec t - 1 - tv_sec t0, tv_nsec = ns + 1000000000\<rparr>
        else \<lparr>tv_sec = tv_sec t - tv_sec t0, tv_nsec = ns\<rparr>)"

definition in_flight :: "ping \<Rightarrow> int" where
  "in_flight s =
    (let diff = word_of_int (ntransmitted s) - acked s
     in if diff \<le> (0x7FFF :: u16) then uint diff else ntransmitted s - nreceived s - nerrors s)"

definition acknowledge :: "u16 \<Rightarrow> ping \<Rightarrow> ping" where
  "acknowledge seq s =
    (let diff = word_of_int (ntransmitted s) - seq
     in if diff \<le> (0x7FFF :: u16) then
          (let s1 = (if pipesize s < uint diff + 1 then s\<lparr>pipesize := uint diff + 1\<rparr> else s)
           in if 0 < sint (seq - acked s1) \<or> 0x7FFF < uint (word_of_int (ntransmitted s1) :: u16) - uint (acked s1)
              then s1\<lparr>acked := seq\<rparr> else s1)
        else s)"

definition advance_ntransmitted :: "ping \<Rightarrow> ping" where
  "advance_ntransmitted s =
    (let s1 = s\<lparr>ntransmitted := ntransmitted s + 1\<rparr>
     in if 0x7FFF < uint (word_of_int (ntransmitted s1) :: u16) - uint (acked s1)
        then s1\<lparr>acked := word_of_int (ntransmitted s1) + 1\<rparr> else s1)"

text \<open>\<^verbatim>\<open>est\<close> is an \<^verbatim>\<open>int\<close>, \<^verbatim>\<open>rtt\<close> a \<^verbatim>\<open>long\<close>.\<close>

definition to_int32 :: "int \<Rightarrow> int" where
  "to_int32 i = sint (word_of_int i :: 32 word)"

definition update_interval :: "ping \<Rightarrow> ping" where
  "update_interval s =
    (let est = to_int32 (if rtt s \<noteq> 0 then c_div (rtt s) 8 else interval s * 1000);
         i = c_div (est + rtt_addend s + 500) 1000
     in s\<lparr>interval := (if uid s \<noteq> 0 \<and> i < MINUSERINTERVAL then MINUSERINTERVAL else i)\<rparr>)"

text \<open>\<^verbatim>\<open>__schedule_exit\<close>; the wait, in microseconds, is what the alarm is set to.\<close>

definition schedule_exit_wait :: "int \<Rightarrow> ping \<Rightarrow> int \<times> ping" where
  "schedule_exit_wait nxt s =
    (if waittime s \<noteq> 0 then (nxt, s)
     else
       (let w = (if nreceived s \<noteq> 0 then
                   (if 2 * tmax s < 1000 * interval s then 1000 * interval s else 2 * tmax s)
                 else lingertime s * 1000)
        in (if nxt < 0 \<or> nxt < w div 1000 then w div 1000 else nxt, s\<lparr>waittime := w\<rparr>)))"

definition schedule_exit :: "int \<Rightarrow> ping \<Rightarrow> int \<times> ping" where
  "schedule_exit nxt s =
    (if npackets s \<noteq> 0 \<and> npackets s \<le> ntransmitted s \<and> deadline s = 0
     then schedule_exit_wait nxt s else (nxt, s))"

section \<open>Sending\<close>

text \<open>
  \<^verbatim>\<open>ping4_send_probe\<close> up to the call of \<^verbatim>\<open>sendto\<close>: the header, the time stamp and the checksum.
  \<open>stamp\<close> holds the sixteen bytes of the \<^verbatim>\<open>struct timespec\<close> the clock gives. \<open>outpack\<close> holds
  the \<^verbatim>\<open>datalen + 8\<close> bytes that are sent.
\<close>

definition bytes16 :: "u16 \<Rightarrow> octet list" where
  "bytes16 w = [ucast w, ucast (drop_bit 8 w)]"

definition bytes16_be :: "u16 \<Rightarrow> octet list" where
  "bytes16_be w = [ucast (drop_bit 8 w), ucast w]"

definition echo_header :: "u16 \<Rightarrow> u16 \<Rightarrow> u16 \<Rightarrow> octet list" where
  "echo_header ck idt sq = [8, 0] @ bytes16 ck @ bytes16 idt @ bytes16_be sq"

definition ping4_send_probe :: "octet list \<Rightarrow> ping \<Rightarrow> ping" where
  "ping4_send_probe stamp s =
    (let sq = word_of_int (ntransmitted s + 1);
         dat = drop 8 (outpack s);
         d0 = (if timing s then (if opt F_LATENCY s then stamp else replicate 16 0) @ drop 16 dat else dat);
         ck0 = in_cksum (echo_header 0 (ident s) sq @ d0) 0;
         pkt = (if timing s \<and> \<not> opt F_LATENCY s
                then echo_header (in_cksum stamp (NOT ck0)) (ident s) sq @ stamp @ drop 16 d0
                else echo_header ck0 (ident s) sq @ d0)
     in s\<lparr>outpack := pkt, rcvd_tbl := rcvd_clear sq (rcvd_tbl s)\<rparr>)"

text \<open>
  What the error queue holds: nothing, a local error, the report of an ICMP error for a
  packet of another program, or for an own probe. The result of \<^verbatim>\<open>ping4_receive_error_msg\<close>
  is its return value with the value it leaves in \<^verbatim>\<open>errno\<close>.
\<close>

datatype errmsg = Err_None | Err_Local int | Err_Other | Err_Icmp u16

fun ping4_receive_error_msg :: "errmsg \<Rightarrow> int \<Rightarrow> ping \<Rightarrow> int \<times> int \<times> ping" where
  "ping4_receive_error_msg Err_None er s = (0, er, s)"
| "ping4_receive_error_msg (Err_Local ee) er s = (-1, er, if opt F_QUIET s then s else s\<lparr>nerrors := nerrors s + 1\<rparr>)"
| "ping4_receive_error_msg Err_Other er s = (0, 0, s)"
| "ping4_receive_error_msg (Err_Icmp sq) er s = (let s1 = acknowledge sq s in (1, er, s1\<lparr>nerrors := nerrors s1 + 1\<rparr>))"

definition EAGAIN :: int where "EAGAIN = 11"
definition ENOMEM :: int where "ENOMEM = 12"
definition EINVAL :: int where "EINVAL = 22"
definition ENOBUFS :: int where "ENOBUFS = 105"

definition hard_local_error :: "ping \<Rightarrow> int \<times> ping" where
  "hard_local_error s = (let s1 = advance_ntransmitted s in (SCHINT (interval s1), s1\<lparr>tokens := 0\<rparr>))"

text \<open>
  The part of \<^verbatim>\<open>pinger\<close> from \<^verbatim>\<open>resend\<close> on. The list holds the failing attempts to send (error
  number and state of the error queue), after which an attempt succeeds; each attempt
  composes the packet again. An attempt that sends only a part of the packet, for which the source calls \<^verbatim>\<open>abort\<close>, is left out:
  a datagram is sent whole or not at all.
\<close>

fun pinger_send :: "octet list \<Rightarrow> (int \<times> errmsg) list \<Rightarrow> ping \<Rightarrow> int \<times> ping" where
  "pinger_send stamp [] s =
    (let s1 = advance_ntransmitted ((ping4_send_probe stamp s)\<lparr>oom_count := 0\<rparr>)
     in (interval s1 - tokens s1, s1))"
| "pinger_send stamp ((er, q) # as) s =
    (let s1 = ping4_send_probe stamp s
     in if er = ENOBUFS \<or> er = ENOMEM then
          (let s2 = s1\<lparr>tokens := 0, rtt_addend := rtt_addend s1 + (if rtt s1 < 400000 then c_div (rtt s1) 8 else 50000)\<rparr>;
               s3 = (if opt F_ADAPTIVE s2 then update_interval s2 else s2);
               nores = min 500 (SCHINT (c_div (interval s3) 2));
               s4 = s3\<lparr>oom_count := oom_count s3 + 1\<rparr>
           in if oom_count s4 * nores < lingertime s4 then (nores, s4) else hard_local_error s4)
        else if er = EAGAIN then (MININTERVAL, s1\<lparr>tokens := tokens s1 + interval s1\<rparr>)
        else
          (case ping4_receive_error_msg q er s1 of (i, er1, s2) \<Rightarrow>
             if 0 < i then hard_local_error s2
             else
               (let retry = (i = 0 \<and> confirm_flag s2 \<noteq> 0 \<and> er1 = EINVAL);
                    s3 = (if retry then s2\<lparr>confirm_flag := 0\<rparr> else s2)
                in if retry \<or> er1 = 0 then pinger_send stamp as s3 else hard_local_error s3)))"

text \<open>The token bucket in front of it. \<open>now\<close> is the clock reading of the call.\<close>

definition elapsed_ms :: "timespec \<Rightarrow> timespec \<Rightarrow> int" where
  "elapsed_ms t t0 = (tv_sec t - tv_sec t0) * 1000 + c_div (tv_nsec t - tv_nsec t0) 1000000"

definition pinger :: "timespec \<Rightarrow> octet list \<Rightarrow> (int \<times> errmsg) list \<Rightarrow> ping \<Rightarrow> int \<times> ping" where
  "pinger now stamp as s =
    (if exiting s \<or> npackets s \<noteq> 0 \<and> npackets s \<le> ntransmitted s \<and> deadline s = 0 then (1000, s)
     else if tv_sec (cur_time s) = 0 then
       pinger_send stamp as (s\<lparr>cur_time := now, tokens := interval s * (preload s - 1)\<rparr>)
     else
       (let n0 = elapsed_ms now (cur_time s)
        in if interval s = 0 \<and> n0 < MININTERVAL \<and> preload s \<le> in_flight s then (MININTERVAL - n0, s)
           else
             (let n1 = min (n0 + tokens s) (interval s * preload s)
              in if n1 < interval s then (interval s - n1, s)
                 else pinger_send stamp as (s\<lparr>cur_time := now, tokens := n1 - interval s\<rparr>))))"

section \<open>Receiving\<close>

text \<open>
  \<^verbatim>\<open>gather_statistics\<close> for a reply of \<open>cc\<close> bytes with sequence number \<open>sq\<close>: \<open>tv\<close> is the time of
  its arrival, \<open>sent\<close> the time stamp inside, \<open>now\<close> the clock in case the arrival lies before
  the departure.
\<close>

definition trip_time :: "timespec \<Rightarrow> timespec \<Rightarrow> int" where
  "trip_time t t0 = (let d = tvsub t t0 in tv_sec d * 1000000000 + tv_nsec d)"

definition measure_trip :: "timespec \<Rightarrow> timespec \<Rightarrow> timespec \<Rightarrow> ping \<Rightarrow> int \<times> ping" where
  "measure_trip tv sent now s =
    (let t = trip_time tv sent
     in if 0 \<le> t then (t, s)
        else if opt F_LATENCY s then (0, s)
        else (max 0 (trip_time now sent), s\<lparr>options := options s OR F_LATENCY\<rparr>))"

definition record_trip :: "int \<Rightarrow> ping \<Rightarrow> ping" where
  "record_trip t s =
    (let s1 = s\<lparr>tsum := tsum s + word_of_int t, tsum2 := tsum2 s + word_of_int (t * t),
               tmin := (if t < tmin s then t else tmin s), tmax := (if tmax s < t then t else tmax s),
               rtt := (if rtt s = 0 then t * 8 else rtt s + (t - c_div (rtt s) 8))\<rparr>
     in if opt F_ADAPTIVE s1 then update_interval s1 else s1)"

definition gather_time :: "int \<Rightarrow> u16 \<Rightarrow> bool \<Rightarrow> timespec \<Rightarrow> timespec \<Rightarrow> timespec \<Rightarrow> ping \<Rightarrow> ping" where
  "gather_time cc sq csfailed tv sent now s =
    (let s1 = s\<lparr>nreceived := nreceived s + 1\<rparr>;
         s2 = (if csfailed then s1 else acknowledge sq s1)
     in if timing s2 \<and> 24 \<le> cc then
          (case measure_trip tv sent now s2 of (t, s3) \<Rightarrow> if csfailed then s3 else record_trip t s3)
        else s2)"

definition gather_statistics ::
  "int \<Rightarrow> u16 \<Rightarrow> bool \<Rightarrow> timespec \<Rightarrow> timespec \<Rightarrow> timespec \<Rightarrow> ping \<Rightarrow> bool \<times> ping" where
  "gather_statistics cc sq csfailed tv sent now s =
    (let s1 = (gather_time cc sq csfailed tv sent now s)\<lparr>confirm := confirm_flag s\<rparr>
     in if csfailed then (False, s1\<lparr>nchecksum := nchecksum s1 + 1, nreceived := nreceived s1 - 1\<rparr>)
        else if rcvd_test sq (rcvd_tbl s1) \<noteq> 0
          then (True, s1\<lparr>nrepeats := nrepeats s1 + 1, nreceived := nreceived s1 - 1\<rparr>)
        else (False, s1\<lparr>rcvd_tbl := rcvd_set sq (rcvd_tbl s1)\<rparr>))"

text \<open>
  The parts of a received packet: 16-bit fields in memory and in network order, and the
  \<^verbatim>\<open>struct timespec\<close> at the start of the data.
\<close>

definition get16 :: "octet list \<Rightarrow> nat \<Rightarrow> u16" where
  "get16 b i = word_of_int (uint (b ! i) + 256 * uint (b ! (i + 1)))"

definition get16_be :: "octet list \<Rightarrow> nat \<Rightarrow> u16" where
  "get16_be b i = word_of_int (256 * uint (b ! i) + uint (b ! (i + 1)))"

definition get64 :: "octet list \<Rightarrow> int" where
  "get64 b = sint (word_of_int (foldr (\<lambda>x a. uint x + 256 * a) (take 8 b) 0) :: u64)"

definition get_timespec :: "octet list \<Rightarrow> timespec" where
  "get_timespec b = \<lparr>tv_sec = get64 b, tv_nsec = get64 (drop 8 b)\<rparr>"

text \<open>
  \<^verbatim>\<open>contains_pattern_in_payload\<close>, which looks at the bytes after the time stamp, and
  \<^verbatim>\<open>is_ours\<close>.
\<close>

definition contains_pattern_in_payload :: "octet list \<Rightarrow> ping \<Rightarrow> bool" where
  "contains_pattern_in_payload ptr s \<longleftrightarrow>
    list_all (\<lambda>i. ptr ! i = outpack s ! (8 + i)) [16..<datalen s]"

definition is_ours :: "bool \<Rightarrow> u16 \<Rightarrow> ping \<Rightarrow> bool" where
  "is_ours raw i s \<longleftrightarrow> \<not> raw \<or> i = ident s"

text \<open>
  \<^verbatim>\<open>ping4_parse_reply\<close>: \<open>raw\<close> tells the type of the socket, \<open>b\<close> is the receive buffer, of which
  the packet fills the first \<open>cc\<close> bytes, \<open>whereto\<close> the four bytes of the destination. The
  result is the return value, 1 for a packet that is not ours, and the new state.
\<close>

definition ping4_parse_reply ::
  "bool \<Rightarrow> octet list \<Rightarrow> nat \<Rightarrow> octet list \<Rightarrow> timespec \<Rightarrow> timespec \<Rightarrow> ping \<Rightarrow> int \<times> ping" where
  "ping4_parse_reply raw b cc whereto tv now s =
    (let ihl = unat (b ! 0 AND 15); hlen = (if raw then ihl * 4 else 0)
     in if raw \<and> (cc < hlen + 8 \<or> ihl < 5) then (1, s)
        else
          (let icp = drop hlen b; n = cc - hlen;
               csfailed = (in_cksum (take n icp) 0 \<noteq> 0);
               ty = icp ! 0
           in if ty = 0 then
                (if \<not> is_ours raw (get16 icp 4) s then (1, s)
                 else if \<not> contains_pattern_in_payload (drop 8 icp) s then (1, s)
                 else (0, snd (gather_statistics (int n) (get16_be icp 6) csfailed tv (get_timespec (drop 8 icp)) now s)))
              else if ty = 8 then (1, s)
              else if ty \<in> {4, 5, 3, 11, 12} then
                (let iph = drop 8 icp; ihl1 = unat (iph ! 0 AND 15) * 4; icp1 = drop ihl1 iph
                 in if n < 8 + 20 + 8 \<or> n < 8 + ihl1 + 8 then (1, s)
                    else if icp1 ! 0 \<noteq> 8 \<or> take 4 (drop 16 iph) \<noteq> whereto \<or> \<not> is_ours raw (get16 icp1 4) s then (1, s)
                    else if ty \<noteq> 5 \<and> ty \<noteq> 4 then (0, acknowledge (get16_be icp1 6) s)
                    else (1, s))
              else (0, s)))"

section \<open>The final report\<close>

text \<open>
  The loop of \<^verbatim>\<open>llsqrt\<close>. In the source the test for positive \<^verbatim>\<open>x\<close> stands in front of the
  loop; in it the values remain positive.
\<close>

function llsqrt_loop :: "int \<Rightarrow> int \<Rightarrow> int \<Rightarrow> int" where
  "llsqrt_loop a prev x = (if 0 < x \<and> x < prev then llsqrt_loop a x ((x + a div x) div 2) else x)"
  by pat_completeness auto
termination by (relation "measure (\<lambda>(a, prev, x). nat prev)") auto

declare llsqrt_loop.simps [simp del]

definition llsqrt :: "int \<Rightarrow> int" where
  "llsqrt a = (if 0 < a then llsqrt_loop a (2 ^ 63 - 1) a else a)"

text \<open>
  The values \<^verbatim>\<open>finish\<close> prints: the counters, the running time in milliseconds, minimum, mean,
  maximum and deviation of the round trip times if there is a reply and times were taken,
  the size of the pipe and the inter-packet gap with the moving average where they are
  shown, and the exit status. The percentage of lost packets, a floating point number, is
  left out.
\<close>

definition rtt_mean_dev :: "ping \<Rightarrow> u64 \<times> int" where
  "rtt_mean_dev s =
    (let n = word_of_int (nreceived s + nrepeats s) :: u64; avg = tsum s div n; sq = tsum2 s div n
     in (avg, llsqrt (sint (sq - avg * avg))))"

record ping_report =
  rep_transmitted :: int
  rep_received :: int
  rep_duplicates :: int
  rep_corrupted :: int
  rep_errors :: int
  rep_time :: "int option"
  rep_rtt :: "(int \<times> u64 \<times> int \<times> int) option"
  rep_pipe :: "int option"
  rep_ipg :: "(int \<times> int) option"
  rep_status :: int

definition finish :: "ping \<Rightarrow> ping_report" where
  "finish s =
    (let tv = tvsub (cur_time s) (start_time s); ns = 1000000000 * tv_sec tv + tv_nsec tv
     in \<lparr>rep_transmitted = ntransmitted s, rep_received = nreceived s, rep_duplicates = nrepeats s,
         rep_corrupted = nchecksum s, rep_errors = nerrors s,
         rep_time = (if ntransmitted s \<noteq> 0 then Some (c_div (ns + 500000) 1000000) else None),
         rep_rtt = (if nreceived s \<noteq> 0 \<and> timing s
                    then Some (tmin s, fst (rtt_mean_dev s), tmax s, snd (rtt_mean_dev s)) else None),
         rep_pipe = (if 1 < pipesize s then Some (pipesize s) else None),
         rep_ipg = (if nreceived s \<noteq> 0 \<and> (interval s = 0 \<or> opt F_FLOOD s \<or> opt F_ADAPTIVE s) \<and> 1 < ntransmitted s
                    then Some (c_div ns (ntransmitted s - 1), c_div (rtt s) 8) else None),
         rep_status = (if nreceived s = 0 \<or> deadline s \<noteq> 0 \<and> nreceived s < npackets s then 1 else 0)\<rparr>)"

text \<open>
  \<^verbatim>\<open>status\<close>: the loss in percent, and the mean when there is a reply and times were taken.
\<close>

definition status :: "ping \<Rightarrow> int \<times> u64 option" where
  "status s =
    (if ntransmitted s \<noteq> 0 then c_div ((ntransmitted s - nreceived s) * 100) (ntransmitted s) else 0,
     if nreceived s \<noteq> 0 \<and> timing s then Some (fst (rtt_mean_dev s)) else None)"

text \<open>
  \<^verbatim>\<open>write_stdout\<close>: the results of the calls of \<^verbatim>\<open>write\<close>; the offsets at which they start are
  collected. \<^verbatim>\<open>size_t\<close> is 64 bits wide.
\<close>

fun write_stdout :: "u64 \<Rightarrow> u64 \<Rightarrow> int list \<Rightarrow> u64 list" where
  "write_stdout len off [] = []"
| "write_stdout len off (cc # r) =
    off # (let o' = off + word_of_int cc in if o' < len \<or> cc < 0 then write_stdout len o' r else [])"

end
