(* ===== verification/Ping_Statistics.thy ===== *)
theory Ping_Statistics
  imports Ping_State
begin

text \<open>
  The statistics of \<^verbatim>\<open>ping\<close>: the checksum of its probes, the integer square root, the table of
  received sequence numbers as a set, and the sums behind the final report.
\<close>

section \<open>The checksum of a probe\<close>

lemma length_echo_header [simp]: "length (echo_header ck idt sq) = 8"
  by (simp add: echo_header_def bytes16_def bytes16_be_def)

lemma cksum_echo_header:
  "cksum_sum (echo_header ck idt sq) 0 = uint ck + cksum_sum (echo_header 0 idt sq) 0"
  "8 \<le> cksum_sum (echo_header 0 idt sq) 0"
proof -
  have e: "cksum_sum (echo_header ck idt sq) 0 = 8 + (uint ck + (uint idt + (uint (ucast (drop_bit 8 sq) :: octet) + 256 * uint (ucast sq :: octet))))"
    for ck
    using word_of_bytes [of ck] word_of_bytes [of idt] by (simp add: echo_header_def bytes16_def bytes16_be_def)
  show "cksum_sum (echo_header ck idt sq) 0 = uint ck + cksum_sum (echo_header 0 idt sq) 0" by (simp add: e)
  show "8 \<le> cksum_sum (echo_header 0 idt sq) 0"
    using u16_bound(2) [of idt] octet_bound(2) [of "ucast (drop_bit 8 sq)"] octet_bound(2) [of "ucast sq"] by (simp add: e)
qed

lemma cksum_packet:
  "cksum_sum (echo_header ck idt sq @ d) 0 = uint ck + cksum_sum (echo_header 0 idt sq @ d) 0"
  by (simp add: cksum_sum_append cksum_echo_header(1) [of ck] cksum_sum_shift)

lemma probe_checksum:
  assumes "length stamp = 16" "timing s \<Longrightarrow> 24 \<le> length (outpack s)" "8 \<le> length (outpack s)" "length (outpack s) \<le> 65534"
  shows "in_cksum (outpack (ping4_send_probe stamp s)) 0 = 0"
proof -
  let ?sq = "word_of_int (ntransmitted s + 1) :: u16" let ?h = "echo_header 0 (ident s) ?sq"
  let ?dat = "drop 8 (outpack s)"
  have small: "cksum_sum bs 0 < 2 ^ 31" "0 \<le> cksum_sum bs 0" if "length bs \<le> 65534" for bs
    using cksum_sum_small [OF that, of 0] by simp_all
  have pos: "8 \<le> cksum_sum (?h @ d) 0" for d
    using cksum_echo_header(2) [of "ident s" ?sq] cksum_sum_bounds [of "cksum_sum ?h 0" d]
    by (simp add: cksum_sum_append)
  show ?thesis
  proof (cases "timing s \<and> \<not> opt F_LATENCY s")
    case True
    let ?r = "drop 16 ?dat" let ?t0 = "cksum_sum (?h @ replicate 16 0 @ ?r) 0"
    let ?ck0 = "in_cksum (?h @ replicate 16 0 @ ?r) 0" let ?ck1 = "in_cksum stamp (NOT ?ck0)"
    let ?S = "cksum_sum stamp 0"
    have len: "24 + length ?r \<le> 65534" using assms True by simp
    have z: "cksum_sum (replicate 16 0) c = c" for c by (simp add: numeral_eq_Suc)
    have t: "cksum_sum (?h @ stamp @ ?r) 0 = ?t0 + ?S"
      using assms(1) cksum_sum_add [of stamp "cksum_sum ?h 0"] cksum_sum_shift [of ?r ?S "cksum_sum ?h 0"]
      by (simp add: cksum_sum_append z add.commute)
    have t0: "0 \<le> ?t0" "?t0 < 2 ^ 32" using small [of "?h @ replicate 16 0 @ ?r"] len by simp_all
    have f: "uint (NOT ?ck0) = fold16 ?t0" by (simp add: uint_not16 uint_in_cksum)
    have ck1: "uint ?ck1 = 65535 - fold16 (fold16 ?t0 + ?S)"
      by (simp only: uint_in_cksum f cksum_sum_add [of stamp "fold16 ?t0"])
    have "in_cksum (echo_header ?ck1 (ident s) ?sq @ stamp @ ?r) 0 = 0"
    proof (rule checksum_verifies)
      show "cksum_sum (echo_header ?ck1 (ident s) ?sq @ stamp @ ?r) 0 = (?t0 + ?S) + (65535 - fold16 (fold16 ?t0 + ?S))"
        unfolding cksum_packet [of ?ck1] t ck1 by (rule add.commute)
      show "0 < ?t0 + ?S" using pos [of "stamp @ ?r"] t by simp
      show "?t0 + ?S < 2 ^ 31" using small(1) [of "?h @ stamp @ ?r"] assms(1) len t by simp
      show "0 \<le> fold16 ?t0 + ?S" using fold16_spec(1) [OF t0] small(2) [of stamp] assms(1) by simp
      show "fold16 ?t0 + ?S < 2 ^ 32" using fold16_spec(2) [OF t0] small(1) [of stamp] assms(1) by simp
      show "(fold16 ?t0 + ?S) mod 65535 = (?t0 + ?S) mod 65535"
        by (rule mod_add_cong [OF fold16_spec(3) [OF t0] refl])
    qed
    with True show ?thesis by (simp add: ping4_send_probe_def Let_def)
  next
    case False
    let ?d = "if timing s then stamp @ drop 16 ?dat else ?dat"
    let ?t = "cksum_sum (?h @ ?d) 0" let ?ck = "in_cksum (?h @ ?d) 0"
    have len: "length (?h @ ?d) \<le> 65534" using assms by simp
    note sm = small [OF len]
    have "in_cksum (echo_header ?ck (ident s) ?sq @ ?d) 0 = 0"
    proof (rule checksum_verifies)
      show "cksum_sum (echo_header ?ck (ident s) ?sq @ ?d) 0 = ?t + (65535 - fold16 ?t)"
        by (simp only: cksum_packet [of ?ck] uint_in_cksum) simp
      show "0 < ?t" using pos [of ?d] by simp
    qed (use sm in simp_all)
    with False show ?thesis by (auto simp: ping4_send_probe_def Let_def)
  qed
qed

section \<open>The integer square root\<close>

lemma multiple_below: "0 < x \<Longrightarrow> x * (a div x) \<le> (a :: int)"
  using pos_mod_sign [of x a] mult_div_mod_eq [of x a] by linarith

lemma below_next_multiple: "0 < x \<Longrightarrow> (a :: int) < x * (a div x + 1)"
proof -
  assume "0 < x"
  then have "a mod x < x" by simp
  moreover have "a = x * (a div x) + a mod x" by simp
  moreover have "x * (a div x + 1) = x * (a div x) + x" by (simp add: distrib_left)
  ultimately show ?thesis by linarith
qed

lemma newton_ge:
  assumes "0 < x" "s * s \<le> (a :: int)"
  shows "s \<le> (x + a div x) div 2"
proof (rule ccontr)
  assume "\<not> s \<le> (x + a div x) div 2"
  then have "a div x < 2 * s - x" by linarith
  then have "x * (a div x + 1) \<le> x * (2 * s - x)" using assms(1) by (intro mult_left_mono) simp_all
  moreover have "a < x * (a div x + 1)" by (rule below_next_multiple [OF assms(1)])
  ultimately have "a < x * (2 * s - x)" by linarith
  moreover have "x * (2 * s - x) \<le> s * s" using zero_le_square [of "s - x"] by (simp add: algebra_simps)
  ultimately show False using assms(2) by linarith
qed

lemma newton_less:
  assumes "0 < x" "(a :: int) < x * x"
  shows "(x + a div x) div 2 < x"
proof -
  have "a div x < x"
  proof (rule ccontr)
    assume "\<not> a div x < x"
    then have "x * x \<le> x * (a div x)" using assms(1) by (intro mult_left_mono) simp_all
    moreover have "x * (a div x) \<le> a" using assms(1) by (rule multiple_below)
    ultimately show False using assms(2) by linarith
  qed
  then show ?thesis by linarith
qed

lemma llsqrt_loop_result:
  assumes "0 < s" "s * s \<le> a" "a < (s + 1) * (s + 1)" "s \<le> x" "x < prev"
  shows "llsqrt_loop a prev x = (s + a div s) div 2"
  using assms(4,5)
proof (induction "nat prev" arbitrary: prev x rule: less_induct)
  case less
  let ?y = "(x + a div x) div 2"
  have x: "0 < x" using assms(1) less.prems by simp
  then have step: "llsqrt_loop a prev x = llsqrt_loop a x ?y" using less.prems by (subst llsqrt_loop.simps) simp
  have y: "s \<le> ?y" by (rule newton_ge [OF x assms(2)])
  show ?case
  proof (cases "?y < x")
    case True
    with less.hyps [of x ?y] less.prems x y step show ?thesis by simp
  next
    case False
    have "\<not> a < x * x" using newton_less [OF x] False by blast
    moreover have "(s + 1) * (s + 1) \<le> x * x" if "s < x" using that assms(1) by (intro mult_mono) simp_all
    ultimately have "x = s" using less.prems(1) assms(3) by force
    with False step show ?thesis by (subst (asm) (2) llsqrt_loop.simps) simp
  qed
qed

lemma sqrt_exists: "0 < a \<Longrightarrow> \<exists>s > 0. s * s \<le> a \<and> (a :: int) < (s + 1) * (s + 1)"
proof -
  assume a: "0 < a"
  have "\<exists>s. 0 < s \<and> s * s \<le> int (Suc n) \<and> int (Suc n) < (s + 1) * (s + 1)" for n
  proof (induction n)
    case 0
    show ?case by (intro exI [of _ 1]) simp
  next
    case (Suc n)
    then obtain s where s: "0 < s" "s * s \<le> int (Suc n)" "int (Suc n) < (s + 1) * (s + 1)" by blast
    show ?case
    proof (cases "int (Suc (Suc n)) < (s + 1) * (s + 1)")
      case True
      with s show ?thesis by (intro exI [of _ s]) simp
    next
      case False
      with s show ?thesis by (intro exI [of _ "s + 1"]) (simp add: algebra_simps)
    qed
  qed
  from this [of "nat (a - 1)"] a show ?thesis by auto
qed

lemma llsqrt_exact:
  assumes "0 < a" "a < 2 ^ 63 - 1"
  shows "0 < llsqrt a" "llsqrt a * llsqrt a \<le> a + 1" "a + 1 < (llsqrt a + 1) * (llsqrt a + 1)"
proof -
  obtain s where s: "0 < s" "s * s \<le> a" "a < (s + 1) * (s + 1)" using sqrt_exists [OF assms(1)] by blast
  have "s * 1 \<le> s * s" using s(1) by (intro mult_left_mono) simp_all
  with s(2) have "s \<le> a" by simp
  with llsqrt_loop_result [OF s, of a "2 ^ 63 - 1"] assms have r: "llsqrt a = (s + a div s) div 2"
    by (simp add: llsqrt_def)
  let ?q = "a div s"
  have q: "s * ?q \<le> a" "a < s * (?q + 1)" using multiple_below [OF s(1)] below_next_multiple [OF s(1)] by blast+
  have lo: "s \<le> ?q" using zdiv_mono1 [OF s(2,1)] s(1) by simp
  have "a \<le> s * (s + 2)" using s(3) by (simp add: algebra_simps)
  from zdiv_mono1 [OF this s(1)] s(1) have hi: "?q \<le> s + 2" by simp
  consider "?q = s" | "?q = s + 1" | "?q = s + 2" using lo hi by linarith
  then show "0 < llsqrt a" "llsqrt a * llsqrt a \<le> a + 1" "a + 1 < (llsqrt a + 1) * (llsqrt a + 1)"
    using s q unfolding r by (cases; simp add: algebra_simps)+
qed

section \<open>The table of sequence numbers as a set\<close>

text \<open>The interface of a mutable set of numbers, and what its clients may conclude.\<close>

locale number_set =
  fixes inv :: "'t \<Rightarrow> bool"
    and member :: "'k \<Rightarrow> 't \<Rightarrow> bool"
    and add :: "'k \<Rightarrow> 't \<Rightarrow> 't"
    and remove :: "'k \<Rightarrow> 't \<Rightarrow> 't"
  assumes inv_add: "inv t \<Longrightarrow> inv (add k t)" and inv_remove: "inv t \<Longrightarrow> inv (remove k t)"
    and member_add: "inv t \<Longrightarrow> member j (add k t) \<longleftrightarrow> j = k \<or> member j t"
    and member_remove: "inv t \<Longrightarrow> member j (remove k t) \<longleftrightarrow> j \<noteq> k \<and> member j t"
begin

lemma set_add: "inv t \<Longrightarrow> {j. member j (add k t)} = insert k {j. member j t}"
  by (auto simp: member_add)

lemma set_remove: "inv t \<Longrightarrow> {j. member j (remove k t)} = {j. member j t} - {k}"
  by (auto simp: member_remove)

end

definition tbl_ok :: "u64 list \<Rightarrow> bool" where
  "tbl_ok t \<longleftrightarrow> length t = 1024"

definition rcvd_member :: "u16 \<Rightarrow> u64 list \<Rightarrow> bool" where
  "rcvd_member q t \<longleftrightarrow> rcvd_test q t \<noteq> 0"

lemma bit_A_less: "tbl_ok t \<Longrightarrow> bit_A q < length t"
proof -
  have "unat q < 65536" using unsigned_less [where 'a = nat, of q] by simp
  then show "tbl_ok t \<Longrightarrow> bit_A q < length t" by (simp add: bit_A_def tbl_ok_def less_mult_imp_div_less)
qed

lemma rcvd_member_bit: "rcvd_member q t \<longleftrightarrow> bit (t ! bit_A q) (unat q mod 64)"
  by (simp add: rcvd_member_def rcvd_test_def bit_B_def push_bit_eq_mult and_exp_eq_0_iff_not_bit)

lemma bit_bit_B: "bit (bit_B q) n \<longleftrightarrow> n = unat q mod 64"
  by (auto simp: bit_B_def push_bit_eq_mult bit_exp_iff possible_bit_word)

lemma same_slot: "bit_A j = bit_A k \<Longrightarrow> unat j mod 64 = unat k mod 64 \<Longrightarrow> j = k"
proof -
  assume "bit_A j = bit_A k" "unat j mod 64 = unat k mod 64"
  then have "unat j = unat k" by (metis bit_A_def div_mult_mod_eq)
  then show "j = k" by (simp only: unsigned_word_eqI)
qed

interpretation rcvd: number_set tbl_ok rcvd_member rcvd_set rcvd_clear
proof
  fix t :: "u64 list" and k :: u16
  show "tbl_ok t \<Longrightarrow> tbl_ok (rcvd_set k t)" "tbl_ok t \<Longrightarrow> tbl_ok (rcvd_clear k t)"
    by (simp_all add: tbl_ok_def rcvd_set_def rcvd_clear_def)
  fix j :: u16
  assume ok: "tbl_ok t"
  show "rcvd_member j (rcvd_set k t) \<longleftrightarrow> j = k \<or> rcvd_member j t"
    using bit_A_less [OF ok, of k] same_slot [of j k]
    by (auto simp: rcvd_member_bit rcvd_set_def nth_list_update bit_or_iff bit_bit_B)
  show "rcvd_member j (rcvd_clear k t) \<longleftrightarrow> j \<noteq> k \<and> rcvd_member j t"
    using bit_A_less [OF ok, of k] same_slot [of j k]
    by (auto simp: rcvd_member_bit rcvd_clear_def nth_list_update bit_and_iff bit_not_iff bit_bit_B possible_bit_word)
qed

definition received :: "ping \<Rightarrow> u16 set" where
  "received s = {q. rcvd_member q (rcvd_tbl s)}"

lemma ack_fields [simp]:
  "rcvd_tbl (acknowledge q s) = rcvd_tbl s" "nreceived (acknowledge q s) = nreceived s"
  "nrepeats (acknowledge q s) = nrepeats s" "nchecksum (acknowledge q s) = nchecksum s"
  "timing (acknowledge q s) = timing s" "options (acknowledge q s) = options s" "tsum (acknowledge q s) = tsum s"
  "tsum2 (acknowledge q s) = tsum2 s" "tmin (acknowledge q s) = tmin s" "tmax (acknowledge q s) = tmax s"
  by (simp_all add: acknowledge_def Let_def)

lemma update_interval_fields [simp]:
  "rcvd_tbl (update_interval s) = rcvd_tbl s" "nreceived (update_interval s) = nreceived s"
  "nrepeats (update_interval s) = nrepeats s" "nchecksum (update_interval s) = nchecksum s"
  "timing (update_interval s) = timing s" "options (update_interval s) = options s" "tsum (update_interval s) = tsum s"
  "tsum2 (update_interval s) = tsum2 s" "tmin (update_interval s) = tmin s" "tmax (update_interval s) = tmax s"
  by (simp_all add: update_interval_def Let_def)

lemma record_trip_fields [simp]:
  "rcvd_tbl (record_trip t s) = rcvd_tbl s" "nreceived (record_trip t s) = nreceived s"
  "nrepeats (record_trip t s) = nrepeats s" "nchecksum (record_trip t s) = nchecksum s"
  "timing (record_trip t s) = timing s" "options (record_trip t s) = options s"
  "tsum (record_trip t s) = tsum s + word_of_int t" "tsum2 (record_trip t s) = tsum2 s + word_of_int (t * t)"
  "tmin (record_trip t s) = min t (tmin s)" "tmax (record_trip t s) = max (tmax s) t"
  by (auto simp: record_trip_def Let_def min_def max_def)

lemma measure_trip_fields:
  assumes "measure_trip tv sent now s = (t, s')"
  shows "rcvd_tbl s' = rcvd_tbl s" "nreceived s' = nreceived s" "nrepeats s' = nrepeats s" "nchecksum s' = nchecksum s"
    "timing s' = timing s" "0 \<le> t"
  using assms by (auto simp: measure_trip_def Let_def split: if_splits)

lemma gather_time_fields:
  "rcvd_tbl (gather_time cc q csf tv sent now s) = rcvd_tbl s"
  "nreceived (gather_time cc q csf tv sent now s) = nreceived s + 1"
  "nrepeats (gather_time cc q csf tv sent now s) = nrepeats s"
  "nchecksum (gather_time cc q csf tv sent now s) = nchecksum s"
  by (auto simp: gather_time_def Let_def measure_trip_fields split: prod.splits)

lemma gather_refines:
  assumes "tbl_ok (rcvd_tbl s)" "gather_statistics cc q csf tv sent now s = (dup, s')"
  shows "tbl_ok (rcvd_tbl s')"
    "dup \<longleftrightarrow> \<not> csf \<and> q \<in> received s"
    "received s' = (if csf then received s else insert q (received s))"
    "nreceived s' = nreceived s + (if csf \<or> q \<in> received s then 0 else 1)"
    "nrepeats s' = nrepeats s + (if dup then 1 else 0)"
    "nchecksum s' = nchecksum s + (if csf then 1 else 0)"
proof -
  have t: "rcvd_test q (rcvd_tbl s) \<noteq> 0 \<longleftrightarrow> q \<in> received s" by (simp add: received_def rcvd_member_def)
  show "tbl_ok (rcvd_tbl s')" "dup \<longleftrightarrow> \<not> csf \<and> q \<in> received s"
    "nreceived s' = nreceived s + (if csf \<or> q \<in> received s then 0 else 1)"
    "nrepeats s' = nrepeats s + (if dup then 1 else 0)" "nchecksum s' = nchecksum s + (if csf then 1 else 0)"
    using assms rcvd.inv_add
    by (auto simp: gather_statistics_def Let_def gather_time_fields t split: if_splits)
  have "rcvd_tbl s' = (if csf \<or> q \<in> received s then rcvd_tbl s else rcvd_set q (rcvd_tbl s))"
    using assms(2) by (auto simp: gather_statistics_def Let_def gather_time_fields t split: if_splits)
  with rcvd.set_add [OF assms(1), of q] show "received s' = (if csf then received s else insert q (received s))"
    by (auto simp: received_def)
qed

section \<open>The sums behind the report\<close>

record reply =
  rp_cc :: int
  rp_seq :: u16
  rp_csf :: bool
  rp_tv :: timespec
  rp_sent :: timespec
  rp_now :: timespec

definition gather_reply :: "reply \<Rightarrow> ping \<Rightarrow> ping" where
  "gather_reply r s = snd (gather_statistics (rp_cc r) (rp_seq r) (rp_csf r) (rp_tv r) (rp_sent r) (rp_now r) s)"

text \<open>Replies long enough to carry a time stamp, on a clock that does not go back.\<close>

definition timed_reply :: "reply \<Rightarrow> bool" where
  "timed_reply r \<longleftrightarrow> 24 \<le> rp_cc r \<and> ts_ns (rp_sent r) \<le> ts_ns (rp_tv r)"

definition trips :: "reply list \<Rightarrow> int list" where
  "trips rs = map (\<lambda>r. ts_ns (rp_tv r) - ts_ns (rp_sent r)) (filter (\<lambda>r. \<not> rp_csf r) rs)"

definition squares :: "int list \<Rightarrow> int" where
  "squares ts = sum_list (map (\<lambda>t. t * t) ts)"

definition fresh_ping :: "ping \<Rightarrow> bool" where
  "fresh_ping s \<longleftrightarrow> rcvd_tbl s = replicate 1024 0 \<and> timing s \<and> tsum s = 0 \<and> tsum2 s = 0 \<and> tmin s = 2 ^ 63 - 1 \<and> tmax s = 0
    \<and> nreceived s = 0 \<and> nrepeats s = 0 \<and> nchecksum s = 0"

lemma trip_time_eq: "trip_time t t0 = ts_ns t - ts_ns t0"
  by (simp add: trip_time_def tvsub_def Let_def ts_ns_def algebra_simps)

lemma gather_reply_stats:
  assumes "timing s" "timed_reply r"
  shows "timing (gather_reply r s)"
    "tsum (gather_reply r s) = tsum s + word_of_int (sum_list (trips [r]))"
    "tsum2 (gather_reply r s) = tsum2 s + word_of_int (squares (trips [r]))"
    "tmin (gather_reply r s) = fold min (trips [r]) (tmin s)"
    "tmax (gather_reply r s) = fold max (trips [r]) (tmax s)"
proof -
  let ?t = "ts_ns (rp_tv r) - ts_ns (rp_sent r)"
  let ?s2 = "if rp_csf r then s\<lparr>nreceived := nreceived s + 1\<rparr> else acknowledge (rp_seq r) (s\<lparr>nreceived := nreceived s + 1\<rparr>)"
  have m: "measure_trip (rp_tv r) (rp_sent r) (rp_now r) x = (?t, x)" for x
    using assms(2) by (simp add: measure_trip_def trip_time_eq timed_reply_def)
  have g: "gather_time (rp_cc r) (rp_seq r) (rp_csf r) (rp_tv r) (rp_sent r) (rp_now r) s
      = (if rp_csf r then ?s2 else record_trip ?t ?s2)"
    using assms m by (simp add: gather_time_def timed_reply_def)
  show "timing (gather_reply r s)"
    "tsum (gather_reply r s) = tsum s + word_of_int (sum_list (trips [r]))"
    "tsum2 (gather_reply r s) = tsum2 s + word_of_int (squares (trips [r]))"
    "tmin (gather_reply r s) = fold min (trips [r]) (tmin s)"
    "tmax (gather_reply r s) = fold max (trips [r]) (tmax s)"
    using assms(1)
    by (simp_all add: gather_reply_def gather_statistics_def Let_def g trips_def squares_def max.commute)
qed

lemma gather_reply_counts:
  assumes "tbl_ok (rcvd_tbl s)"
  shows "tbl_ok (rcvd_tbl (gather_reply r s))"
    "nreceived (gather_reply r s) + nrepeats (gather_reply r s) = nreceived s + nrepeats s + int (length (trips [r]))"
    "nchecksum (gather_reply r s) = nchecksum s + (if rp_csf r then 1 else 0)"
proof -
  obtain dup s' where g: "gather_statistics (rp_cc r) (rp_seq r) (rp_csf r) (rp_tv r) (rp_sent r) (rp_now r) s = (dup, s')"
    by fastforce
  note f = gather_refines [OF assms g]
  show "tbl_ok (rcvd_tbl (gather_reply r s))"
    "nreceived (gather_reply r s) + nrepeats (gather_reply r s) = nreceived s + nrepeats s + int (length (trips [r]))"
    "nchecksum (gather_reply r s) = nchecksum s + (if rp_csf r then 1 else 0)"
    using f by (auto simp: gather_reply_def g trips_def)
qed

lemma trips_Cons: "trips (r # rs) = trips [r] @ trips rs"
  by (simp add: trips_def)

definition stats_of :: "ping \<Rightarrow> reply list \<Rightarrow> ping \<Rightarrow> bool" where
  "stats_of s rs s' \<longleftrightarrow>
    tsum s' = tsum s + word_of_int (sum_list (trips rs)) \<and> tsum2 s' = tsum2 s + word_of_int (squares (trips rs)) \<and>
    nreceived s' + nrepeats s' = nreceived s + nrepeats s + int (length (trips rs)) \<and>
    nchecksum s' = nchecksum s + int (length (filter rp_csf rs)) \<and>
    tmin s' = fold min (trips rs) (tmin s) \<and> tmax s' = fold max (trips rs) (tmax s) \<and> timing s'"

lemma gather_all:
  "tbl_ok (rcvd_tbl s) \<Longrightarrow> timing s \<Longrightarrow> list_all timed_reply rs \<Longrightarrow> stats_of s rs (fold gather_reply rs s)"
proof (induction rs arbitrary: s)
  case Nil
  then show ?case by (simp add: stats_of_def trips_def squares_def)
next
  case (Cons r rs)
  then have tr: "timed_reply r" "list_all timed_reply rs" by simp_all
  note st = gather_reply_stats [OF Cons.prems(2) tr(1)] and ct = gather_reply_counts [OF Cons.prems(1), of r]
  show ?case
    using Cons.IH [OF ct(1) st(1) tr(2)] st(2-5) ct(2,3)
    by (simp add: stats_of_def trips_Cons [of r rs] squares_def)
qed

lemma squares_shift: "sum_list (map (\<lambda>t. (t - a) * (t - a)) ts) = squares ts - 2 * a * sum_list ts + int (length ts) * (a * a)"
  by (induction ts) (simp_all add: squares_def algebra_simps)

lemma mean_square:
  assumes "ts \<noteq> []" "\<forall>t \<in> set ts. 0 \<le> t"
  shows "(sum_list ts div int (length ts)) * (sum_list ts div int (length ts)) \<le> squares ts div int (length ts)"
proof -
  let ?n = "int (length ts)" let ?a = "sum_list ts div int (length ts)"
  have n: "0 < ?n" using assms(1) by simp
  have "0 \<le> sum_list ts" using assms(2) by (simp add: sum_list_nonneg)
  then have a: "0 \<le> ?a" using n by (simp add: pos_imp_zdiv_nonneg_iff)
  have "?n * ?a \<le> sum_list ts" by (rule multiple_below [OF n])
  then have "?a * (?n * ?a) \<le> ?a * sum_list ts" using a by (intro mult_left_mono)
  moreover have "0 \<le> sum_list (map (\<lambda>t. (t - ?a) * (t - ?a)) ts)" by (intro sum_list_nonneg) auto
  ultimately have "?n * (?a * ?a) \<le> squares ts"
    unfolding squares_shift by (simp add: algebra_simps)
  then have "(?n * (?a * ?a)) div ?n \<le> squares ts div ?n" using n by (intro zdiv_mono1)
  with n show ?thesis by simp
qed

lemma trips_nonneg: "list_all timed_reply rs \<Longrightarrow> \<forall>t \<in> set (trips rs). 0 \<le> t"
  by (auto simp: trips_def timed_reply_def list_all_iff)

lemma sum_le_squares: "\<forall>t \<in> set ts. 0 \<le> (t :: int) \<Longrightarrow> sum_list ts \<le> squares ts"
proof (induction ts)
  case (Cons t ts)
  have "t \<le> t * t" using Cons.prems by (cases "t = 0") auto
  with Cons show ?case by (simp add: squares_def)
qed (simp add: squares_def)

lemma zdiv_le_self: "0 \<le> a \<Longrightarrow> 0 < b \<Longrightarrow> a div b \<le> (a :: int)"
  using multiple_below [of b a] mult_right_mono [of 1 b "a div b"] by (simp add: pos_imp_zdiv_nonneg_iff mult.commute)

lemma uint_u64: "0 \<le> x \<Longrightarrow> x < 2 ^ 64 \<Longrightarrow> uint (word_of_int x :: u64) = x"
  by (simp add: uint_word_of_int)

lemma sint_u64: "0 \<le> x \<Longrightarrow> x < 2 ^ 63 \<Longrightarrow> sint (word_of_int x :: u64) = x"
proof -
  assume "0 \<le> x" "x < 2 ^ 63"
  then have "signed_take_bit 63 x = x" by (intro signed_take_bit_int_eq_self) simp_all
  then show ?thesis by (simp add: sint_sbintrunc')
qed

lemma div_u64:
  assumes "0 \<le> a" "a < 2 ^ 63" "0 < b" "b < 2 ^ 63"
  shows "(word_of_int a :: u64) div word_of_int b = word_of_int (a div b)"
proof -
  have "0 \<le> a div b" "a div b \<le> a" using assms by (simp_all add: pos_imp_zdiv_nonneg_iff zdiv_le_self)
  then have "uint ((word_of_int a :: u64) div word_of_int b) = uint (word_of_int (a div b) :: u64)"
    using assms by (simp add: uint_div_distrib uint_u64)
  then show ?thesis by (simp add: word_uint_eq_iff)
qed

text \<open>
  With an empty table at the start, the number of received packets is the number of
  different sequence numbers among the good replies.
\<close>

lemma gather_distinct:
  assumes "tbl_ok (rcvd_tbl s)" "nreceived s = int (card (received s))"
  shows "tbl_ok (rcvd_tbl (fold gather_reply rs s)) \<and> nreceived (fold gather_reply rs s) = int (card (received (fold gather_reply rs s)))
    \<and> received (fold gather_reply rs s) = received s \<union> rp_seq ` set (filter (\<lambda>r. \<not> rp_csf r) rs)"
  using assms
proof (induction rs arbitrary: s)
  case Nil
  then show ?case by simp
next
  case (Cons r rs)
  obtain dup s1 where g: "gather_statistics (rp_cc r) (rp_seq r) (rp_csf r) (rp_tv r) (rp_sent r) (rp_now r) s = (dup, s1)"
    by fastforce
  note f = gather_refines [OF Cons.prems(1) g]
  have "nreceived s1 = int (card (received s1))" using f(3,4) Cons.prems(2) by (auto simp: insert_absorb)
  with Cons.IH [OF f(1)] f(3) show ?case by (auto simp: gather_reply_def g)
qed

lemma fold_min_eq: "ts \<noteq> [] \<Longrightarrow> \<forall>t \<in> set ts. t \<le> (a :: int) \<Longrightarrow> fold min ts a = Min (set ts)"
proof -
  assume "ts \<noteq> []" "\<forall>t \<in> set ts. t \<le> a"
  then have "Min (set ts) \<le> a" using Min_in [of "set ts"] by auto
  with \<open>ts \<noteq> []\<close> show ?thesis using Min.set_eq_fold [of a ts] by simp
qed

lemma fold_max_eq: "ts \<noteq> [] \<Longrightarrow> \<forall>t \<in> set ts. (a :: int) \<le> t \<Longrightarrow> fold max ts a = Max (set ts)"
proof -
  assume "ts \<noteq> []" "\<forall>t \<in> set ts. a \<le> t"
  then have "a \<le> Max (set ts)" using Max_in [of "set ts"] by auto
  with \<open>ts \<noteq> []\<close> show ?thesis using Max.set_eq_fold [of a ts] by simp
qed

lemma square_le_squares: "t \<in> set ts \<Longrightarrow> t * t \<le> squares ts"
  unfolding squares_def by (rule member_le_sum_list) auto

lemma report_values:
  assumes fresh: "fresh_ping s" and timed: "list_all timed_reply rs" and ne: "trips rs \<noteq> []"
    and small: "squares (trips rs) < 2 ^ 63" "int (length (trips rs)) < 2 ^ 63"
  shows "rep_rtt (finish (fold gather_reply rs s)) = Some (Min (set (trips rs)),
       word_of_int (sum_list (trips rs) div int (length (trips rs))), Max (set (trips rs)),
       llsqrt (squares (trips rs) div int (length (trips rs))
         - (sum_list (trips rs) div int (length (trips rs))) * (sum_list (trips rs) div int (length (trips rs)))))"
proof -
  let ?ts = "trips rs" let ?n = "int (length ?ts)" let ?S = "sum_list ?ts" let ?Q = "squares ?ts"
  let ?s = "fold gather_reply rs s" let ?A = "?S div ?n" let ?B = "?Q div ?n"
  have tb: "tbl_ok (rcvd_tbl s)" using fresh by (simp add: fresh_ping_def tbl_ok_def)
  have em: "received s = {}"
    using fresh bit_A_less [OF tb] by (auto simp: fresh_ping_def received_def rcvd_member_def rcvd_test_def)
  have st: "stats_of s rs ?s" using gather_all [of s rs] fresh timed tb by (simp add: fresh_ping_def)
  have gd: "received ?s = rp_seq ` set (filter (\<lambda>r. \<not> rp_csf r) rs)" "nreceived ?s = int (card (received ?s))"
    using gather_distinct [OF tb, of rs] em fresh by (simp_all add: fresh_ping_def)
  moreover have "filter (\<lambda>r. \<not> rp_csf r) rs \<noteq> []" using ne by (auto simp: trips_def)
  then obtain r where "r \<in> set (filter (\<lambda>r. \<not> rp_csf r) rs)" by (meson list.set_sel(1))
  ultimately have "received ?s \<noteq> {}" by blast
  then have nr: "nreceived ?s \<noteq> 0" using gd(2) by simp
  have n: "0 < ?n" using ne by simp
  note pos = trips_nonneg [OF timed]
  have S: "0 \<le> ?S" "?S \<le> ?Q" using sum_list_nonneg [of ?ts] pos sum_le_squares [OF pos] by auto
  have AB: "0 \<le> ?A" "0 \<le> ?B" "?B \<le> ?Q" "?A \<le> ?S" "?A * ?A \<le> ?B"
    using n S mean_square [OF ne pos] by (simp_all add: pos_imp_zdiv_nonneg_iff zdiv_le_self)
  have sums: "tsum ?s = word_of_int ?S" "tsum2 ?s = word_of_int ?Q" "nreceived ?s + nrepeats ?s = ?n"
    using st fresh by (simp_all add: stats_of_def fresh_ping_def)
  have avg: "tsum ?s div word_of_int ?n = word_of_int ?A" "tsum2 ?s div word_of_int ?n = word_of_int ?B"
    using div_u64 [of ?S ?n] div_u64 [of ?Q ?n] S small n by (simp_all add: sums)
  have "(word_of_int ?B - word_of_int ?A * word_of_int ?A :: u64) = word_of_int (?B - ?A * ?A)" by simp
  moreover have "sint (word_of_int (?B - ?A * ?A) :: u64) = ?B - ?A * ?A"
    by (rule sint_u64) (use AB small(1) zero_le_square [of ?A] in linarith)+
  ultimately have md: "rtt_mean_dev ?s = (word_of_int ?A, llsqrt (?B - ?A * ?A))"
    using avg by (simp add: rtt_mean_dev_def Let_def sums(3))
  have le: "t \<le> 2 ^ 63 - 1" if "t \<in> set ?ts" for t
  proof -
    have "t * 1 \<le> t * t" using pos that by (cases "t = 0") (auto intro: mult_left_mono)
    then show ?thesis using square_le_squares [OF that] small(1) by linarith
  qed
  have "tmin ?s = Min (set ?ts)" "tmax ?s = Max (set ?ts)"
    using st fresh fold_min_eq [OF ne] fold_max_eq [OF ne, of 0] le pos by (simp_all add: stats_of_def fresh_ping_def)
  with md nr st show ?thesis by (simp add: finish_def Let_def stats_of_def)
qed

section \<open>The echo of a probe\<close>

text \<open>
  The reply to a probe: type 0 and a checksum of its own, the rest as it was sent.
\<close>

definition echo_of :: "octet list \<Rightarrow> octet list \<Rightarrow> octet list" where
  "echo_of ck p = [0, 0] @ ck @ drop 4 p"

text \<open>The checksum an honest responder computes is valid.\<close>

definition reply_to :: "octet list \<Rightarrow> octet list" where
  "reply_to p = echo_of (bytes16 (in_cksum (echo_of [0, 0] p) 0)) p"

lemma cksum_echo_of: "cksum_sum (echo_of (bytes16 ck) p) 0 = uint ck + cksum_sum (echo_of [0, 0] p) 0"
  using word_of_bytes [of ck] by (simp add: echo_of_def bytes16_def cksum_sum_add [of "drop 4 p" "uint ck"])

lemma reply_to_valid:
  assumes "length p \<le> 65534" "4 \<le> length p"
  shows "in_cksum (reply_to p) 0 = 0"
proof -
  let ?t = "cksum_sum (echo_of [0, 0] p) 0"
  have t: "?t < 2 ^ 31" "0 \<le> ?t" using cksum_sum_small [of "echo_of [0, 0] p" 0] assms by (simp_all add: echo_of_def)
  have sum: "cksum_sum (reply_to p) 0 = ?t + (65535 - fold16 ?t)"
    by (simp add: reply_to_def cksum_echo_of uint_in_cksum)
  show ?thesis
  proof (cases "?t = 0")
    case True
    then have "cksum_sum (reply_to p) 0 = 65535" using sum by (simp add: fold16_def)
    then have "uint (in_cksum (reply_to p) 0) = 0" by (simp add: uint_in_cksum fold16_def)
    then show ?thesis by (simp add: word_uint_eq_iff)
  next
    case False
    then show ?thesis using checksum_verifies [OF sum] t by simp
  qed
qed

lemma get16_bytes16: "get16 (x # y # z # v # bytes16 w @ r) 4 = w"
  by (simp add: get16_def bytes16_def word_of_bytes)

lemma get16_be_bytes: "get16_be (x # y # z # v # a # b # bytes16_be w @ r) 6 = w"
  using word_of_bytes [of w] by (simp add: get16_be_def bytes16_be_def add.commute)

lemma probe_shape:
  assumes "length stamp = 16" "timing s" "24 \<le> length (outpack s)"
  shows "\<exists>ck. outpack (ping4_send_probe stamp s) =
    echo_header ck (ident s) (word_of_int (ntransmitted s + 1)) @ stamp @ drop 24 (outpack s)"
  using assms by (auto simp: ping4_send_probe_def Let_def)

lemma probe_fields [simp]:
  "ident (ping4_send_probe stamp s) = ident s" "datalen (ping4_send_probe stamp s) = datalen s"
  "timing (ping4_send_probe stamp s) = timing s" "nreceived (ping4_send_probe stamp s) = nreceived s"
  "nrepeats (ping4_send_probe stamp s) = nrepeats s" "nchecksum (ping4_send_probe stamp s) = nchecksum s"
  "nerrors (ping4_send_probe stamp s) = nerrors s" "tsum (ping4_send_probe stamp s) = tsum s"
  "acked (ping4_send_probe stamp s) = acked s" "npackets (ping4_send_probe stamp s) = npackets s"
  "deadline (ping4_send_probe stamp s) = deadline s" "exiting (ping4_send_probe stamp s) = exiting s"
  "rcvd_tbl (ping4_send_probe stamp s) = rcvd_clear (word_of_int (ntransmitted s + 1)) (rcvd_tbl s)"
  "waittime (ping4_send_probe stamp s) = waittime s"
  by (simp_all add: ping4_send_probe_def Let_def)

lemma echo_parsed:
  assumes st: "length stamp = 16" and tm: "timing s" and len: "24 \<le> length (outpack s)" "length (outpack s) = 8 + datalen s"
    and ck: "length ck = 2" "in_cksum (echo_of ck (outpack (ping4_send_probe stamp s))) 0 = 0"
    and s1: "outpack s1 = outpack (ping4_send_probe stamp s)" "ident s1 = ident s" "datalen s1 = datalen s"
    and b: "b = echo_of ck (outpack s1)"
  shows "ping4_parse_reply False b (length b) whereto tv now s1 =
    (0, snd (gather_statistics (int (length (outpack s))) (word_of_int (ntransmitted s + 1)) False tv (get_timespec stamp) now s1))"
proof -
  let ?sq = "word_of_int (ntransmitted s + 1) :: u16"
  obtain ck0 where o: "outpack s1 = echo_header ck0 (ident s) ?sq @ stamp @ drop 24 (outpack s)"
    using probe_shape [OF st tm len(1)] s1(1) by auto
  obtain c d where c: "ck = [c, d]" using ck(1) by (auto simp: numeral_2_eq_2 length_Suc_conv)
  have bb: "b = 0 # 0 # c # d # bytes16 (ident s) @ bytes16_be ?sq @ stamp @ drop 24 (outpack s)"
    by (simp add: b o echo_of_def echo_header_def c bytes16_def)
  have g: "get16 b 4 = ident s" "get16_be b 6 = ?sq"
    using get16_bytes16 [of 0 0 c d "ident s"] get16_be_bytes [of 0 0 c d _ _ ?sq] by (simp_all add: bb bytes16_def)
  have d8: "drop 8 b = stamp @ drop 24 (outpack s)" by (simp add: bb bytes16_def bytes16_be_def)
  have tsp: "get_timespec (drop 8 b) = get_timespec stamp"
    using st by (simp add: d8 get_timespec_def get64_def)
  have "drop 8 (outpack s1) = stamp @ drop 24 (outpack s)" by (simp add: o)
  then have "contains_pattern_in_payload (drop 8 b) s1"
    using len st s1(2,3) by (auto simp: contains_pattern_in_payload_def list_all_iff d8 o nth_append)
  moreover have "length b = length (outpack s)" using st len by (simp add: bb bytes16_def bytes16_be_def)
  moreover have "in_cksum b 0 = 0" using ck(2) s1(1) b by simp
  moreover have "b ! 0 = 0" by (simp add: bb)
  ultimately show ?thesis using g tsp s1(2) by (simp add: ping4_parse_reply_def Let_def is_ours_def)
qed

end
