(* ===== verification/Ping_Rate.thy ===== *)
theory Ping_Rate
  imports Ping_Statistics
begin

text \<open>
  The rate limit of \<^verbatim>\<open>pinger\<close>: whatever the errors on the way, the number of transmitted
  probes stays within the preload and what the elapsed time pays for.
\<close>

lemma send_fields [simp]:
  "interval (acknowledge q s) = interval s" "preload (acknowledge q s) = preload s"
  "cur_time (acknowledge q s) = cur_time s" "tokens (acknowledge q s) = tokens s"
  "ntransmitted (acknowledge q s) = ntransmitted s"
  "interval (advance_ntransmitted s) = interval s" "preload (advance_ntransmitted s) = preload s"
  "cur_time (advance_ntransmitted s) = cur_time s" "tokens (advance_ntransmitted s) = tokens s"
  "ntransmitted (advance_ntransmitted s) = ntransmitted s + 1" "options (advance_ntransmitted s) = options s"
  "interval (ping4_send_probe st s) = interval s" "preload (ping4_send_probe st s) = preload s"
  "cur_time (ping4_send_probe st s) = cur_time s" "tokens (ping4_send_probe st s) = tokens s"
  "ntransmitted (ping4_send_probe st s) = ntransmitted s" "options (ping4_send_probe st s) = options s"
  by (simp_all add: acknowledge_def advance_ntransmitted_def ping4_send_probe_def Let_def)

lemma error_msg_fields:
  assumes "ping4_receive_error_msg q er s = (i, er', s')"
  shows "interval s' = interval s" "preload s' = preload s" "cur_time s' = cur_time s" "tokens s' = tokens s"
    "ntransmitted s' = ntransmitted s" "options s' = options s"
  using assms by (cases q; auto simp: Let_def split: if_splits)+

text \<open>
  One unit of credit is a millisecond. A round of \<^verbatim>\<open>pinger_send\<close> spends at least the credit of
  what it transmits; \<open>paid\<close> relates the state before and after.
\<close>

definition paid :: "ping \<Rightarrow> ping \<Rightarrow> bool" where
  "paid s s' \<longleftrightarrow>
    interval s' = interval s \<and> preload s' = preload s \<and> cur_time s' = cur_time s \<and> options s' = options s \<and>
    0 \<le> tokens s' \<and> interval s * ntransmitted s' + tokens s' \<le> interval s * (ntransmitted s + 1) + tokens s"

lemma paid_hard:
  assumes "0 \<le> tokens s" "interval s' = interval s" "preload s' = preload s" "cur_time s' = cur_time s"
    "options s' = options s" "ntransmitted s' = ntransmitted s"
  shows "paid s (snd (hard_local_error s'))"
  using assms by (simp add: paid_def hard_local_error_def Let_def)

lemma pinger_send_paid:
  "\<not> opt F_ADAPTIVE s \<Longrightarrow> 0 \<le> tokens s \<Longrightarrow> 0 \<le> interval s \<Longrightarrow> paid s (snd (pinger_send st as s))"
proof (induction as arbitrary: s)
  case Nil
  then show ?case by (simp add: paid_def Let_def)
next
  case (Cons a as)
  obtain er q where a: "a = (er, q)" by (cases a)
  let ?s1 = "ping4_send_probe st s"
  consider (oom) "er = ENOBUFS \<or> er = ENOMEM" | (again) "er = EAGAIN" "\<not> (er = ENOBUFS \<or> er = ENOMEM)"
    | (other) "er \<noteq> EAGAIN" "\<not> (er = ENOBUFS \<or> er = ENOMEM)" by blast
  then show ?case
  proof cases
    case oom
    with Cons.prems a show ?thesis
      by (auto simp: Let_def paid_def hard_local_error_def algebra_simps)
  next
    case again
    with Cons.prems a show ?thesis by (simp add: Let_def paid_def algebra_simps)
  next
    case other
    obtain i er1 s2 where e: "ping4_receive_error_msg q er ?s1 = (i, er1, s2)" by (metis prod_cases3)
    note f = error_msg_fields [OF e]
    let ?retry = "i = 0 \<and> confirm_flag s2 \<noteq> 0 \<and> er1 = EINVAL"
    let ?s3 = "if ?retry then s2\<lparr>confirm_flag := 0\<rparr> else s2"
    have f3: "interval ?s3 = interval s" "preload ?s3 = preload s" "cur_time ?s3 = cur_time s" "tokens ?s3 = tokens s"
      "ntransmitted ?s3 = ntransmitted s" "options ?s3 = options s" using f by auto
    have run: "pinger_send st ((er, q) # as) s = (if 0 < i then hard_local_error s2
        else if ?retry \<or> er1 = 0 then pinger_send st as ?s3 else hard_local_error ?s3)"
      using other e by (simp add: Let_def)
    have hard: "paid s (snd (hard_local_error s2))" "paid s (snd (hard_local_error ?s3))"
      using paid_hard [of s s2] paid_hard [of s ?s3] f f3 Cons.prems(2) by simp_all
    have "paid s (snd (pinger_send st as ?s3))" if "\<not> 0 < i" "?retry \<or> er1 = 0"
    proof -
      have "paid ?s3 (snd (pinger_send st as ?s3))"
        by (rule Cons.IH) (use f3 Cons.prems in simp_all)
      with f3 show ?thesis by (simp add: paid_def)
    qed
    with run hard a show ?thesis by simp
  qed
qed

section \<open>Runs of calls\<close>

type_synonym call = "timespec \<times> octet list \<times> (int \<times> errmsg) list"

definition ping_call :: "call \<Rightarrow> ping \<Rightarrow> ping" where
  "ping_call c s = (case c of (now, st, as) \<Rightarrow> snd (pinger now st as s))"

lemma elapsed_ms_bound: "1000000 * elapsed_ms t t0 \<le> ts_ns t - ts_ns t0 + 999999"
proof -
  have "1000000 * c_div d 1000000 \<le> d + 999999" for d :: int
  proof (cases "0 \<le> d")
    case True
    then show ?thesis using multiple_below [of 1000000 d] by simp
  next
    case False
    then have "c_div d 1000000 = - ((- d) div 1000000)" by (simp add: c_div_def)
    moreover have "- d < 1000000 * ((- d) div 1000000 + 1)" by (rule below_next_multiple) simp
    ultimately show ?thesis by simp
  qed
  from this [of "tv_nsec t - tv_nsec t0"] show ?thesis by (simp add: elapsed_ms_def ts_ns_def algebra_simps)
qed

definition within_rate :: "int \<Rightarrow> int \<Rightarrow> int \<Rightarrow> nat \<Rightarrow> ping \<Rightarrow> bool" where
  "within_rate i p t0 k s \<longleftrightarrow>
    tv_sec (cur_time s) \<noteq> 0 \<and> 0 \<le> tokens s \<and> interval s = i \<and> preload s = p \<and> \<not> opt F_ADAPTIVE s \<and>
    1000000 * (i * ntransmitted s + tokens s) \<le> 1000000 * (i * p) + (ts_ns (cur_time s) - t0) + 999999 * int k"

lemma within_rate_call:
  assumes "within_rate i p t0 k s" "0 \<le> i" "tv_sec now \<noteq> 0"
  shows "within_rate i p t0 (Suc k) (ping_call (now, st, as) s)"
proof -
  let ?n0 = "elapsed_ms now (cur_time s)" let ?n1 = "min (?n0 + tokens s) (interval s * preload s)"
  let ?s1 = "s\<lparr>cur_time := now, tokens := ?n1 - interval s\<rparr>"
  have stay: "within_rate i p t0 (Suc k) s" using assms(1) by (simp add: within_rate_def)
  have step: "within_rate i p t0 (Suc k) (snd (pinger_send st as ?s1))" if "\<not> ?n1 < interval s"
  proof -
    have "paid ?s1 (snd (pinger_send st as ?s1))"
      using assms(1,2) that by (intro pinger_send_paid) (auto simp: within_rate_def)
    then have "i * ntransmitted (snd (pinger_send st as ?s1)) + tokens (snd (pinger_send st as ?s1)) \<le> i * ntransmitted s + ?n1"
      "0 \<le> tokens (snd (pinger_send st as ?s1))" "cur_time (snd (pinger_send st as ?s1)) = now"
      "interval (snd (pinger_send st as ?s1)) = i" "preload (snd (pinger_send st as ?s1)) = p"
      "options (snd (pinger_send st as ?s1)) = options s"
      using assms(1) by (simp_all add: paid_def within_rate_def algebra_simps)
    moreover have "1000000 * ?n1 \<le> 1000000 * tokens s + (ts_ns now - ts_ns (cur_time s) + 999999)"
    proof -
      have "?n1 \<le> ?n0 + tokens s" by simp
      then have "1000000 * ?n1 \<le> 1000000 * (?n0 + tokens s)" by (rule mult_left_mono) simp
      also have "\<dots> = 1000000 * tokens s + 1000000 * ?n0" by (simp add: distrib_left)
      also have "\<dots> \<le> 1000000 * tokens s + (ts_ns now - ts_ns (cur_time s) + 999999)"
        using elapsed_ms_bound by (rule add_left_mono)
      finally show ?thesis .
    qed
    ultimately show ?thesis using assms(1,3) by (simp add: within_rate_def)
  qed
  have "ping_call (now, st, as) s = s \<or> \<not> ?n1 < interval s \<and> ping_call (now, st, as) s = snd (pinger_send st as ?s1)"
    using assms(1) by (auto simp: ping_call_def pinger_def Let_def within_rate_def)
  with stay step show ?thesis by auto
qed

lemma within_rate_run:
  assumes "within_rate i p t0 k s" "0 \<le> i" "list_all (\<lambda>c. tv_sec (fst c) \<noteq> 0) cs"
  shows "within_rate i p t0 (k + length cs) (fold ping_call cs s)"
  using assms
proof (induction cs arbitrary: k s)
  case (Cons c cs)
  obtain now st as where c: "c = (now, st, as)" by (cases c)
  have "within_rate i p t0 (Suc k) (ping_call c s)"
    using within_rate_call [OF Cons.prems(1,2)] Cons.prems(3) by (simp add: c)
  from Cons.IH [OF this Cons.prems(2)] Cons.prems(3) show ?case by simp
qed simp

lemma within_rate_first:
  assumes "tv_sec (cur_time s) = 0" "ntransmitted s = 0" "1 \<le> preload s" "0 \<le> interval s" "\<not> opt F_ADAPTIVE s"
    and "\<not> exiting s" "npackets s = 0" "tv_sec now \<noteq> 0"
  shows "within_rate (interval s) (preload s) (ts_ns now) 0 (ping_call (now, st, as) s)"
proof -
  let ?s1 = "s\<lparr>cur_time := now, tokens := interval s * (preload s - 1)\<rparr>"
  have "paid ?s1 (snd (pinger_send st as ?s1))" using assms by (intro pinger_send_paid) simp_all
  moreover have "ping_call (now, st, as) s = snd (pinger_send st as ?s1)"
    using assms by (simp add: ping_call_def pinger_def)
  ultimately show ?thesis using assms by (simp add: paid_def within_rate_def algebra_simps)
qed

end
