(* ===== verification/Ping_Loop.thy ===== *)
theory Ping_Loop
  imports Ping_Rate
begin

text \<open>
  \<^verbatim>\<open>setup\<close> and \<^verbatim>\<open>main_loop\<close> of \<^verbatim>\<open>src/iputils-ns/ping_common.c\<close>. The environment of the loop is given
  by what happens in its rounds (signals, clock readings, results of sending and polling)
  and by the sequence of results of \<^verbatim>\<open>recvmsg\<close>. A run is cut off where these end, which gives
  every prefix of an execution.
\<close>

section \<open>Setup\<close>

definition INT_MAX :: int where "INT_MAX = 2147483647"

definition fill_pattern :: "ping \<Rightarrow> ping" where
  "fill_pattern s = s\<lparr>outpack := take 8 (outpack s) @ map word_of_nat [0..<datalen s]\<rparr>"

text \<open>
  \<open>norcv\<close>: whether the kernel refuses the receive timeout; \<open>pid\<close>: the process id in network
  order. The result is the exit status or the new state.
\<close>

definition ping_setup :: "bool \<Rightarrow> bool \<Rightarrow> u16 \<Rightarrow> timespec \<Rightarrow> ping \<Rightarrow> int + ping" where
  "ping_setup norcv raw pid now s =
    (let s1 = (if opt F_FLOOD s \<and> \<not> opt F_INTERVAL s then s\<lparr>interval := 0\<rparr> else s)
     in if uid s1 \<noteq> 0 \<and> interval s1 < MINUSERINTERVAL then Inl 2
        else if c_div INT_MAX (preload s1) \<le> interval s1 then Inl 2
        else
          (let s2 = (if norcv then s1\<lparr>options := options s1 OR F_FLOOD_POLL\<rparr> else s1);
               s3 = (if opt F_PINGFILLED s2 then s2 else fill_pattern s2);
               s4 = (if raw then s3\<lparr>ident := pid\<rparr> else s3)
           in Inr (s4\<lparr>start_time := now\<rparr>)))"

text \<open>The send and the receive timeout, in seconds and microseconds.\<close>

definition snd_timeout :: "int \<Rightarrow> int \<times> int" where
  "snd_timeout i = (if i < 1000 then (0, 1000 * SCHINT i) else (1, 0))"

definition rcv_timeout :: "int \<Rightarrow> int \<times> int" where
  "rcv_timeout i = (c_div (SCHINT i) 1000, 1000 * (SCHINT i mod 1000))"

section \<open>The main loop\<close>

text \<open>The conditions under which it ends.\<close>

definition main_loop_ends :: "ping \<Rightarrow> bool" where
  "main_loop_ends s \<longleftrightarrow>
    exiting s \<or> npackets s \<noteq> 0 \<and> npackets s \<le> nreceived s + nerrors s \<or> deadline s \<noteq> 0 \<and> nerrors s \<noteq> 0"

text \<open>The inner loop that sends, with the clock readings of its rounds.\<close>

fun send_due :: "call list \<Rightarrow> ping \<Rightarrow> int option \<times> ping" where
  "send_due [] s = (None, s)"
| "send_due ((now, stamp, as) # r) s =
    (case pinger now stamp as s of (n1, s1) \<Rightarrow>
       case schedule_exit n1 s1 of (n2, s2) \<Rightarrow> if n2 \<le> 0 then send_due r s2 else (Some n2, s2))"

text \<open>The timeout given to \<^verbatim>\<open>poll\<close>, if it is called at all; \<open>hz\<close> is the rate of the clock.\<close>

definition poll_wait :: "int \<Rightarrow> int \<Rightarrow> ping \<Rightarrow> int option" where
  "poll_wait hz nxt s =
    (let pl = opt F_ADAPTIVE s \<or> opt F_FLOOD_POLL s
     in if pl \<or> nxt < SCHINT (interval s) then
          (let short = (if 1000 mod hz = 0 then nxt \<le> 1000 div hz else nxt < INT_MAX div hz \<and> nxt * hz \<le> 1000)
           in if short \<and> in_flight s = 0 then None
              else if pl \<or> interval s \<noteq> 0 then Some (if short then MININTERVAL else nxt)
              else None)
        else None)"

definition EINTR :: int where "EINTR = 4"

text \<open>
  A result of \<^verbatim>\<open>recvmsg\<close>: an error with the state of the error queue, or a packet in the
  buffer, its length, the time stamps from the control message and from \<^verbatim>\<open>SIOCGSTAMP\<close>, and the
  clock readings.
\<close>

datatype recv_result =
  Recv_Err int errmsg
| Recv_Pkt "octet list" nat "timespec option" "timespec option" timespec timespec

definition recv_stamp :: "timespec option \<Rightarrow> timespec option \<Rightarrow> timespec \<Rightarrow> ping \<Rightarrow> timespec" where
  "recv_stamp cm ioc now s =
    (if opt F_LATENCY s then now
     else case cm of Some t \<Rightarrow> t | None \<Rightarrow> (case ioc of Some t \<Rightarrow> t | None \<Rightarrow> now))"

fun recv_loop :: "bool \<Rightarrow> octet list \<Rightarrow> bool \<Rightarrow> recv_result list \<Rightarrow> ping \<Rightarrow> recv_result list \<times> ping" where
  "recv_loop raw w re [] s = ([], s)"
| "recv_loop raw w re (Recv_Err er q # es) s =
    (if er = EAGAIN \<and> \<not> re \<or> er = EINTR then (es, s)
     else
       (case ping4_receive_error_msg q er s of (i, er1, s1) \<Rightarrow>
          if i = 0 \<and> er1 \<noteq> 0 then (es, s1)
          else if in_flight s1 = 0 then (es, s1) else recv_loop raw w False es s1))"
| "recv_loop raw w re (Recv_Pkt b cc cm ioc now now2 # es) s =
    (let s1 = snd (ping4_parse_reply raw b cc w (recv_stamp cm ioc now s) now2 s)
     in if in_flight s1 = 0 then (es, s1) else recv_loop raw w re es s1)"

datatype poll_result = Poll_Idle | Poll_Ready bool

record round =
  rd_signal :: bool
  rd_calls :: "call list"
  rd_poll :: poll_result

text \<open>
  A signal is seen at the start of a round. One that comes later in the round has the same effect on the variables, but \<^verbatim>\<open>pinger\<close> and the
  waits of that round would see it earlier.
\<close>

fun main_loop ::
  "bool \<Rightarrow> octet list \<Rightarrow> int \<Rightarrow> round list \<Rightarrow> recv_result list \<Rightarrow> ping \<Rightarrow> ping_report option \<times> ping" where
  "main_loop raw w hz [] es s = (None, s)"
| "main_loop raw w hz (rd # rds) es s =
    (let s0 = (if rd_signal rd then s\<lparr>exiting := True\<rparr> else s)
     in if main_loop_ends s0 then (Some (finish s0), s0)
        else
          (case send_due (rd_calls rd) s0 of
             (None, s1) \<Rightarrow> (None, s1)
           | (Some nxt, s1) \<Rightarrow>
               if poll_wait hz nxt s1 \<noteq> None \<and> rd_poll rd = Poll_Idle then main_loop raw w hz rds es s1
               else
                 (case recv_loop raw w (poll_wait hz nxt s1 \<noteq> None \<and> rd_poll rd = Poll_Ready True) es s1 of
                    (es1, s2) \<Rightarrow> main_loop raw w hz rds es1 s2)))"

end
