(* ===== verification/Ping_Run.thy ===== *)
theory Ping_Run
  imports Ping_Loop
begin

text \<open>
  Runs of the main loop of \<^verbatim>\<open>ping\<close>: an invariant of all runs, with the bound on the number of
  probes, and the run against a host that answers.
\<close>

section \<open>What every step keeps\<close>

text \<open>
  \<open>steady\<close> relates the states before and after any operation of the loop: the parameters of
  the run are kept, the packet keeps its length and its bytes after the time stamp, the
  table its size.
\<close>

definition steady :: "ping \<Rightarrow> ping \<Rightarrow> bool" where
  "steady s s' \<longleftrightarrow>
    npackets s' = npackets s \<and> deadline s' = deadline s \<and> preload s' = preload s \<and> timing s' = timing s \<and>
    datalen s' = datalen s \<and> ident s' = ident s \<and> uid s' = uid s \<and>
    length (rcvd_tbl s') = length (rcvd_tbl s) \<and> length (outpack s') = length (outpack s) \<and>
    drop 24 (outpack s') = drop 24 (outpack s)"

lemma steady_refl [simp]: "steady s s"
  by (simp add: steady_def)

lemma steady_trans [trans]: "steady s s1 \<Longrightarrow> steady s1 s2 \<Longrightarrow> steady s s2"
  by (simp add: steady_def)

lemma steady_length: "steady s s' \<Longrightarrow> length (outpack s') = length (outpack s) \<and> timing s' = timing s"
  by (simp add: steady_def)

lemma steady_acknowledge: "steady s (acknowledge q s)"
  by (simp add: steady_def acknowledge_def Let_def)

lemma steady_advance: "steady s (advance_ntransmitted s)"
  by (simp add: steady_def advance_ntransmitted_def Let_def)

lemma steady_probe:
  "length st = 16 \<Longrightarrow> timing s \<longrightarrow> 24 \<le> length (outpack s) \<Longrightarrow> 8 \<le> length (outpack s) \<Longrightarrow> steady s (ping4_send_probe st s)"
  by (auto simp: steady_def ping4_send_probe_def Let_def rcvd_clear_def)

lemma steady_error:
  "ping4_receive_error_msg q er s = (i, er', s') \<Longrightarrow> steady s s' \<and> ntransmitted s' = ntransmitted s"
  using steady_acknowledge [of s] by (cases q) (auto simp: steady_def Let_def split: if_splits)

lemma steady_interval: "steady s (update_interval s)"
  by (simp add: steady_def update_interval_def Let_def)

lemma steady_hard: "steady s s1 \<Longrightarrow> ntransmitted s1 = ntransmitted s \<Longrightarrow> hard_local_error s1 = (n, s') \<Longrightarrow>
    steady s s' \<and> ntransmitted s' = ntransmitted s + 1"
  using steady_advance [of s1] by (auto simp: hard_local_error_def Let_def steady_def)

definition can_probe :: "ping \<Rightarrow> bool" where
  "can_probe s \<longleftrightarrow> 8 \<le> length (outpack s) \<and> (timing s \<longrightarrow> 24 \<le> length (outpack s))"

lemma can_probe_steady: "can_probe s \<Longrightarrow> steady s s' \<Longrightarrow> can_probe s'"
  by (simp add: can_probe_def steady_def)

text \<open>Sending: at most one more probe is counted.\<close>

lemma pinger_send_steady:
  assumes "length st = 16" "can_probe s" "pinger_send st as s = (n, s')"
  shows "steady s s' \<and> ntransmitted s \<le> ntransmitted s' \<and> ntransmitted s' \<le> ntransmitted s + 1"
  using assms(2,3)
proof (induction as arbitrary: s)
  case Nil
  let ?p = "(ping4_send_probe st s)\<lparr>oom_count := 0\<rparr>"
  have "steady s ?p" using steady_probe [OF assms(1), of s] Nil.prems(1) by (simp add: can_probe_def steady_def)
  then have "steady s (advance_ntransmitted ?p)" using steady_advance steady_trans by blast
  then show ?case using Nil.prems(2) by (auto simp: Let_def)
next
  case (Cons a as)
  obtain er q where a: "a = (er, q)" by (cases a)
  let ?s1 = "ping4_send_probe st s"
  have s1: "steady s ?s1" "ntransmitted ?s1 = ntransmitted s"
    using steady_probe [OF assms(1), of s] Cons.prems(1) by (simp_all add: can_probe_def)
  consider (oom) "er = ENOBUFS \<or> er = ENOMEM" | (again) "er = EAGAIN" "\<not> (er = ENOBUFS \<or> er = ENOMEM)"
    | (other) "er \<noteq> EAGAIN" "\<not> (er = ENOBUFS \<or> er = ENOMEM)" by blast
  then show ?case
  proof cases
    case oom
    define s2 where "s2 = ?s1\<lparr>tokens := 0, rtt_addend := rtt_addend ?s1 + (if rtt ?s1 < 400000 then c_div (rtt ?s1) 8 else 50000)\<rparr>"
    define s3 where "s3 = (if opt F_ADAPTIVE s2 then update_interval s2 else s2)"
    define s4 where "s4 = s3\<lparr>oom_count := oom_count s3 + 1\<rparr>"
    have "steady s s2" "ntransmitted s2 = ntransmitted s" using s1 by (simp_all add: s2_def steady_def)
    then have "steady s s3" "ntransmitted s3 = ntransmitted s"
      using steady_trans [OF _ steady_interval] by (auto simp: s3_def update_interval_def Let_def)
    then have s4: "steady s s4" "ntransmitted s4 = ntransmitted s" by (simp_all add: s4_def steady_def)
    have "(let nores = min 500 (SCHINT (c_div (interval s3) 2))
        in if oom_count s4 * nores < lingertime s4 then (nores, s4) else hard_local_error s4) = (n, s')"
      using Cons.prems(2) oom unfolding a pinger_send.simps Let_def s2_def s3_def s4_def by simp
    then show ?thesis using s4 steady_hard [OF s4] by (auto simp: Let_def split: if_splits)
  next
    case again
    then show ?thesis using Cons.prems(2) s1 by (auto simp: a Let_def steady_def)
  next
    case other
    obtain i er1 s2 where e: "ping4_receive_error_msg q er ?s1 = (i, er1, s2)" by (cases "ping4_receive_error_msg q er ?s1") auto
    have s2: "steady s s2" "ntransmitted s2 = ntransmitted s"
      using steady_error [OF e] s1 steady_trans by (blast, simp)
    define s3 where "s3 = (if i = 0 \<and> confirm_flag s2 \<noteq> 0 \<and> er1 = EINVAL then s2\<lparr>confirm_flag := 0\<rparr> else s2)"
    have s3: "steady s s3" "ntransmitted s3 = ntransmitted s" using s2 by (simp_all add: s3_def steady_def)
    have "pinger_send st (a # as) s = hard_local_error s2 \<or> pinger_send st (a # as) s = hard_local_error s3
        \<or> pinger_send st (a # as) s = pinger_send st as s3"
      using other by (auto simp: a Let_def e s3_def)
    then consider "hard_local_error s2 = (n, s')" | "hard_local_error s3 = (n, s')" | "pinger_send st as s3 = (n, s')"
      using Cons.prems(2) by metis
    then show ?thesis
    proof cases
      case 3
      have "can_probe s3" using Cons.prems(1) s3(1) can_probe_steady by blast
      from Cons.IH [OF this 3] s3 show ?thesis using steady_trans by (metis (no_types))
    qed (use steady_hard [OF s2] steady_hard [OF s3] in auto)
  qed
qed

text \<open>
  The bound set by option \<^verbatim>\<open>-c\<close>, which holds without option \<^verbatim>\<open>-w\<close>.
\<close>

definition within_count :: "ping \<Rightarrow> bool" where
  "within_count s \<longleftrightarrow> (npackets s \<noteq> 0 \<and> deadline s = 0 \<longrightarrow> ntransmitted s \<le> npackets s)"

definition keeps :: "ping \<Rightarrow> ping \<Rightarrow> bool" where
  "keeps s s' \<longleftrightarrow> steady s s' \<and> ntransmitted s \<le> ntransmitted s' \<and> (within_count s \<longrightarrow> within_count s')"

lemma keeps_refl [simp]: "keeps s s"
  by (simp add: keeps_def)

lemma keeps_trans [trans]: "keeps s s1 \<Longrightarrow> keeps s1 s2 \<Longrightarrow> keeps s s2"
  using steady_trans by (auto simp: keeps_def)

lemma keepsI: "steady s s' \<Longrightarrow> ntransmitted s' = ntransmitted s \<Longrightarrow> keeps s s'"
  by (auto simp: keeps_def within_count_def steady_def)

lemma can_probe_keeps: "can_probe s \<Longrightarrow> keeps s s' \<Longrightarrow> can_probe s'"
  using can_probe_steady by (simp add: keeps_def)

lemma keeps_pinger:
  assumes "length st = 16" "can_probe s" "pinger now st as s = (n, s')"
  shows "keeps s s'"
proof (cases "exiting s \<or> npackets s \<noteq> 0 \<and> npackets s \<le> ntransmitted s \<and> deadline s = 0")
  case True
  then show ?thesis using assms(3) by (simp add: pinger_def)
next
  case False
  let ?f = "\<lambda>t. s\<lparr>cur_time := now, tokens := t\<rparr>"
  have "s' = s \<or> (\<exists>t. pinger_send st as (?f t) = (n, s'))"
    using assms(3) False by (auto simp: pinger_def Let_def split: if_splits)
  then show ?thesis
  proof
    assume "\<exists>t. pinger_send st as (?f t) = (n, s')"
    then obtain t where t: "pinger_send st as (?f t) = (n, s')" by blast
    have "can_probe (?f t)" using assms(2) by (simp add: can_probe_def)
    from pinger_send_steady [OF assms(1) this t] False show ?thesis
      by (auto simp: keeps_def steady_def within_count_def)
  qed simp
qed

lemma keeps_schedule: "schedule_exit n s = (n', s') \<Longrightarrow> keeps s s'"
  by (auto intro!: keepsI simp: schedule_exit_def schedule_exit_wait_def steady_def Let_def split: if_splits)

definition stamped :: "call \<Rightarrow> bool" where
  "stamped c \<longleftrightarrow> length (fst (snd c)) = 16"

lemma keeps_send_due:
  "list_all stamped cs \<Longrightarrow> can_probe s \<Longrightarrow> send_due cs s = (n, s') \<Longrightarrow> keeps s s'"
proof (induction cs arbitrary: s)
  case (Cons c cs)
  obtain now st as where c: "c = (now, st, as)" by (cases c)
  obtain n1 s1 where p: "pinger now st as s = (n1, s1)" by fastforce
  obtain n2 s2 where e: "schedule_exit n1 s1 = (n2, s2)" by fastforce
  have k: "keeps s s2"
    using keeps_pinger [OF _ Cons.prems(2) p] keeps_schedule [OF e] keeps_trans Cons.prems(1) by (auto simp: c stamped_def)
  then show ?case
    using Cons.IH [of s2] Cons.prems keeps_trans [OF k] can_probe_keeps [OF Cons.prems(2) k]
    by (auto simp: c p e split: if_splits)
qed simp

text \<open>Receiving.\<close>

lemma steady_record: "steady s (record_trip t s) \<and> ntransmitted (record_trip t s) = ntransmitted s"
  by (simp add: record_trip_def Let_def steady_def update_interval_def)

lemma steady_measure: "measure_trip tv sent now s = (t, s') \<Longrightarrow> steady s s' \<and> ntransmitted s' = ntransmitted s"
  by (auto simp: measure_trip_def Let_def steady_def split: if_splits)

lemma keeps_gather_time: "keeps s (gather_time cc q csf tv sent now s)"
proof -
  let ?s1 = "s\<lparr>nreceived := nreceived s + 1\<rparr>" let ?s2 = "if csf then ?s1 else acknowledge q ?s1"
  have "keeps s ?s1" by (rule keepsI) (simp_all add: steady_def)
  moreover have "keeps ?s1 ?s2" using keepsI [OF steady_acknowledge] by simp
  ultimately have k: "keeps s ?s2" by (rule keeps_trans)
  obtain t s3 where m: "measure_trip tv sent now ?s2 = (t, s3)" by fastforce
  then have k3: "keeps s s3" using keeps_trans [OF k] keepsI steady_measure by blast
  then have "keeps s (record_trip t s3)" using keeps_trans keepsI steady_record by blast
  with k k3 m show ?thesis by (auto simp: gather_time_def Let_def)
qed

lemma keeps_gather: "keeps s (snd (gather_statistics cc q csf tv sent now s))"
proof -
  let ?s1 = "gather_time cc q csf tv sent now s"
  have "keeps ?s1 (snd (gather_statistics cc q csf tv sent now s))"
    by (rule keepsI) (simp_all add: gather_statistics_def Let_def steady_def rcvd_set_def)
  with keeps_gather_time show ?thesis by (rule keeps_trans)
qed

lemma keeps_if: "keeps s (snd a) \<Longrightarrow> keeps s (snd b) \<Longrightarrow> keeps s (snd (if c then a else b))"
  by simp

lemma keeps_parse: "keeps s (snd (ping4_parse_reply raw b cc w tv now s))"
proof -
  have "keeps s (acknowledge q s)" for q using keepsI [OF steady_acknowledge] by simp
  then show ?thesis unfolding ping4_parse_reply_def Let_def by (intro keeps_if) (simp_all only: snd_conv keeps_gather keeps_refl)
qed

lemma keeps_recv_loop: "recv_loop raw w re es s = (es', s') \<Longrightarrow> keeps s s'"
proof (induction es arbitrary: re s)
  case (Cons e es)
  show ?case
  proof (cases e)
    case (Recv_Err er q)
    obtain i er1 s1 where r: "ping4_receive_error_msg q er s = (i, er1, s1)" by (cases "ping4_receive_error_msg q er s") auto
    have "keeps s s1" using steady_error [OF r] keepsI by blast
    then show ?thesis using Cons.prems Cons.IH keeps_trans by (auto simp: Recv_Err r split: if_splits)
  next
    case (Recv_Pkt b cc cm ioc now now2)
    let ?s1 = "snd (ping4_parse_reply raw b cc w (recv_stamp cm ioc now s) now2 s)"
    have "keeps s ?s1" by (rule keeps_parse)
    then show ?thesis using Cons.prems Cons.IH keeps_trans by (auto simp: Recv_Pkt Let_def split: if_splits)
  qed
qed simp

lemma keeps_main_loop:
  "list_all (\<lambda>rd. list_all stamped (rd_calls rd)) rds \<Longrightarrow> can_probe s \<Longrightarrow> main_loop raw w hz rds es s = (r, s') \<Longrightarrow> keeps s s'"
proof (induction rds arbitrary: es s)
  case (Cons rd rds)
  let ?s0 = "if rd_signal rd then s\<lparr>exiting := True\<rparr> else s"
  have k0: "keeps s ?s0" by (rule keepsI) (simp_all add: steady_def)
  obtain nx s1 where d: "send_due (rd_calls rd) ?s0 = (nx, s1)" by fastforce
  have k1: "keeps s s1"
    using keeps_send_due [OF _ can_probe_keeps [OF Cons.prems(2) k0] d] Cons.prems(1) keeps_trans [OF k0] by simp
  show ?case
  proof (cases "main_loop_ends ?s0 \<or> nx = None")
    case True
    then show ?thesis using Cons.prems(3) d k0 k1 by (auto simp: Let_def split: if_splits)
  next
    case False
    then obtain nxt where nx: "nx = Some nxt" by blast
    obtain es1 s2 where v: "recv_loop raw w (poll_wait hz nxt s1 \<noteq> None \<and> rd_poll rd = Poll_Ready True) es s1 = (es1, s2)"
      by fastforce
    have k2: "keeps s s2" using keeps_trans [OF k1 keeps_recv_loop [OF v]] .
    have m: "\<not> main_loop_ends ?s0" using False by blast
    have "main_loop raw w hz (rd # rds) es s = (if poll_wait hz nxt s1 \<noteq> None \<and> rd_poll rd = Poll_Idle
        then main_loop raw w hz rds es s1 else main_loop raw w hz rds es1 s2)"
      unfolding main_loop.simps Let_def d nx if_not_P [OF m] by (simp only: prod.case option.case v)
    then have "main_loop raw w hz rds es s1 = (r, s') \<or> main_loop raw w hz rds es1 s2 = (r, s')"
      using Cons.prems(3) by metis
    moreover have "keeps s1 s'" if "main_loop raw w hz rds es s1 = (r, s')"
      using Cons.IH [OF _ can_probe_keeps [OF Cons.prems(2) k1] that] Cons.prems(1) by simp
    moreover have "keeps s2 s'" if "main_loop raw w hz rds es1 s2 = (r, s')"
      using Cons.IH [OF _ can_probe_keeps [OF Cons.prems(2) k2] that] Cons.prems(1) by simp
    ultimately show ?thesis using keeps_trans k1 k2 by blast
  qed
qed simp

section \<open>A run against a host that answers\<close>

text \<open>
  \<open>idle_at k\<close>: \<open>k\<close> probes have been sent and answered, and nothing is in flight.
\<close>

definition idle_at :: "int \<Rightarrow> ping \<Rightarrow> bool" where
  "idle_at k s \<longleftrightarrow>
    ntransmitted s = k \<and> nreceived s = k \<and> nerrors s = 0 \<and> nrepeats s = 0 \<and> nchecksum s = 0 \<and> acked s = word_of_int k \<and>
    \<not> exiting s \<and> preload s = 1 \<and> 0 < interval s \<and> \<not> opt F_ADAPTIVE s \<and> deadline s = 0 \<and> timing s \<and>
    length (outpack s) = 8 + datalen s \<and> 16 \<le> datalen s \<and> datalen s \<le> 65526 \<and> tbl_ok (rcvd_tbl s) \<and>
    (tv_sec (cur_time s) = 0 \<or> tokens s = 0)"

text \<open>The parameters of a run that probes and answers do not change.\<close>

definition same_run :: "ping \<Rightarrow> ping \<Rightarrow> bool" where
  "same_run s s' \<longleftrightarrow> steady s s' \<and> options s' = options s \<and> interval s' = interval s"

lemma same_run_trans [trans]: "same_run s s1 \<Longrightarrow> same_run s1 s2 \<Longrightarrow> same_run s s2"
  by (auto simp: same_run_def intro: steady_trans)

definition echo_event :: "ping \<Rightarrow> int \<Rightarrow> octet list \<Rightarrow> timespec \<Rightarrow> recv_result" where
  "echo_event s k st tv =
    (let b = reply_to (outpack (ping4_send_probe st (s\<lparr>ntransmitted := k\<rparr>)))
     in Recv_Pkt b (length b) (Some tv) None tv tv)"

lemma probe_outpack_cong:
  assumes "length st = 16" "timing s" "same_run s s'"
  shows "outpack (ping4_send_probe st (s'\<lparr>ntransmitted := k\<rparr>)) = outpack (ping4_send_probe st (s\<lparr>ntransmitted := k\<rparr>))"
  using assms by (simp add: same_run_def steady_def ping4_send_probe_def Let_def)

lemma echo_event_cong:
  "length st = 16 \<Longrightarrow> timing s \<Longrightarrow> same_run s s' \<Longrightarrow> echo_event s' k st tv = echo_event s k st tv"
  unfolding echo_event_def by (simp only: probe_outpack_cong)

definition due :: "timespec \<Rightarrow> ping \<Rightarrow> bool" where
  "due now s \<longleftrightarrow> tv_sec (cur_time s) = 0 \<or> interval s \<le> elapsed_ms now (cur_time s)"

lemma pinger_probe:
  assumes "idle_at k s" "k < npackets s" "due now s"
  shows "pinger now st [] s =
    (interval s, advance_ntransmitted ((ping4_send_probe st (s\<lparr>cur_time := now, tokens := 0\<rparr>))\<lparr>oom_count := 0\<rparr>))"
  using assms by (auto simp: pinger_def idle_at_def due_def Let_def min_def)

lemma send_due_probe:
  assumes "idle_at k s" "k < npackets s" "due now s" "length st = 16"
  obtains nxt s1 where "send_due [(now, st, [])] s = (Some nxt, s1)" "same_run s s1"
    "outpack s1 = outpack (ping4_send_probe st s)" "ntransmitted s1 = k + 1" "nreceived s1 = k" "nerrors s1 = 0"
    "nrepeats s1 = 0" "nchecksum s1 = 0" "acked s1 = word_of_int k" "\<not> exiting s1" "tokens s1 = 0" "cur_time s1 = now"
    "rcvd_tbl s1 = rcvd_clear (word_of_int (k + 1)) (rcvd_tbl s)"
proof -
  let ?s0 = "(ping4_send_probe st (s\<lparr>cur_time := now, tokens := 0\<rparr>))\<lparr>oom_count := 0\<rparr>"
  let ?s1 = "advance_ntransmitted ?s0"
  have nt: "ntransmitted s = k" "acked s = word_of_int k" "0 < interval s" using assms(1) by (simp_all add: idle_at_def)
  have st: "steady s ?s1"
  proof -
    have "can_probe (s\<lparr>cur_time := now, tokens := 0\<rparr>)" using assms(1) by (simp add: idle_at_def can_probe_def)
    from pinger_send_steady [OF assms(4) this, of "[]"] show ?thesis by (simp add: Let_def steady_def)
  qed
  have "outpack ?s0 = outpack (ping4_send_probe st s)" by (simp add: ping4_send_probe_def Let_def)
  moreover have "uint (word_of_int (k + 1) :: u16) - uint (word_of_int k :: u16) \<le> 1"
    using uint_add_le [of "word_of_int k :: u16" 1] by (simp del: uint_word_of_int)
  ultimately have f: "same_run s ?s1" "outpack ?s1 = outpack (ping4_send_probe st s)" "ntransmitted ?s1 = k + 1" "nreceived ?s1 = k"
    "nerrors ?s1 = 0" "nrepeats ?s1 = 0" "nchecksum ?s1 = 0" "acked ?s1 = word_of_int k" "\<not> exiting ?s1" "tokens ?s1 = 0"
    "cur_time ?s1 = now" "rcvd_tbl ?s1 = rcvd_clear (word_of_int (k + 1)) (rcvd_tbl s)"
    using assms(1) st by (simp_all add: idle_at_def same_run_def advance_ntransmitted_def Let_def)
  obtain n2 w where e: "schedule_exit (interval s) ?s1 = (n2, ?s1\<lparr>waittime := w\<rparr>)" "0 < n2"
  proof -
    have "0 < fst (schedule_exit (interval s) ?s1)" "snd (schedule_exit (interval s) ?s1) = ?s1\<lparr>waittime := waittime (snd (schedule_exit (interval s) ?s1))\<rparr>"
      using nt(3) by (auto simp: schedule_exit_def schedule_exit_wait_def Let_def)
    then show ?thesis using that by (metis prod.collapse)
  qed
  have "send_due [(now, st, [])] s = (Some n2, ?s1\<lparr>waittime := w\<rparr>)"
    using e pinger_probe [OF assms(1-3)] by simp
  moreover have "same_run s (?s1\<lparr>waittime := w\<rparr>)" using f(1) by (simp add: same_run_def steady_def)
  ultimately show ?thesis using that [of n2 "?s1\<lparr>waittime := w\<rparr>"] f by simp
qed

lemma acknowledge_nreceived: "acknowledge q (s\<lparr>nreceived := n\<rparr>) = (acknowledge q s)\<lparr>nreceived := n\<rparr>"
  by (simp add: acknowledge_def Let_def)

lemma acknowledge_frame [simp]: "nerrors (acknowledge q s) = nerrors s" "exiting (acknowledge q s) = exiting s"
  by (simp_all add: acknowledge_def Let_def)

lemma record_trip_frame:
  assumes "\<not> opt F_ADAPTIVE s"
  shows "interval (record_trip t s) = interval s" "nerrors (record_trip t s) = nerrors s" "exiting (record_trip t s) = exiting s"
    "tokens (record_trip t s) = tokens s" "cur_time (record_trip t s) = cur_time s" "acked (record_trip t s) = acked s"
    "ntransmitted (record_trip t s) = ntransmitted s"
  using assms by (simp_all add: record_trip_def Let_def)

lemma gather_frame:
  assumes "timing s" "24 \<le> cc" "ts_ns sent \<le> ts_ns tv" "\<not> opt F_ADAPTIVE s" "s' = snd (gather_statistics cc q False tv sent now s)"
  shows "options s' = options s" "interval s' = interval s" "nerrors s' = nerrors s" "exiting s' = exiting s"
    "tokens s' = tokens s" "cur_time s' = cur_time s" "acked s' = acked (acknowledge q s)" "ntransmitted s' = ntransmitted s"
proof -
  define s1 where "s1 = (acknowledge q s)\<lparr>nreceived := nreceived s + 1\<rparr>"
  have g: "gather_time cc q False tv sent now s = record_trip (ts_ns tv - ts_ns sent) s1"
    using assms(1-3) by (simp add: gather_time_def measure_trip_def trip_time_eq s1_def acknowledge_nreceived)
  have "\<not> opt F_ADAPTIVE s1" using assms(4) by (simp add: s1_def)
  note fr = record_trip_frame [OF this]
  show "options s' = options s" "interval s' = interval s" "nerrors s' = nerrors s" "exiting s' = exiting s"
    "tokens s' = tokens s" "cur_time s' = cur_time s" "acked s' = acked (acknowledge q s)" "ntransmitted s' = ntransmitted s"
    unfolding assms(5) gather_statistics_def Let_def g by (simp_all add: fr) (simp_all add: s1_def)
qed

lemma acknowledge_next: "ntransmitted s = k + 1 \<Longrightarrow> acked s = word_of_int k \<Longrightarrow> acked (acknowledge (word_of_int (k + 1)) s) = word_of_int (k + 1)"
  by (simp add: acknowledge_def Let_def)

lemma length_bytes16 [simp]: "length (bytes16 w) = 2"
  by (simp add: bytes16_def)

lemma recv_echo:
  assumes idle: "idle_at k s" and st: "length st = 16" "ts_ns (get_timespec st) \<le> ts_ns tv"
    and s1: "same_run s s1" "outpack s1 = outpack (ping4_send_probe st s)" "ntransmitted s1 = k + 1" "nreceived s1 = k"
      "nerrors s1 = 0" "nrepeats s1 = 0" "nchecksum s1 = 0" "acked s1 = word_of_int k" "\<not> exiting s1" "tokens s1 = 0"
      "rcvd_tbl s1 = rcvd_clear (word_of_int (k + 1)) (rcvd_tbl s)"
  obtains s2 where "recv_loop False w re (echo_event s k st tv # es) s1 = (es, s2)" "idle_at (k + 1) s2" "same_run s s2"
    "cur_time s2 = cur_time s1"
proof -
  let ?q = "word_of_int (k + 1) :: u16" let ?b = "reply_to (outpack s1)"
  have p: "timing s" "24 \<le> length (outpack s)" "length (outpack s) = 8 + datalen s" "length (outpack s) \<le> 65534"
    "ntransmitted s = k" "tbl_ok (rcvd_tbl s)" "\<not> opt F_ADAPTIVE s"
    using idle by (auto simp: idle_at_def)
  have run: "timing s1" "ident s1 = ident s" "datalen s1 = datalen s" "length (outpack s1) = length (outpack s)" "options s1 = options s"
    "interval s1 = interval s"
    using s1(1) p(1) by (simp_all add: same_run_def steady_def)
  have ev: "echo_event s k st tv = Recv_Pkt ?b (length ?b) (Some tv) None tv tv"
    using p(5) s1(2) by (simp add: echo_event_def Let_def ping4_send_probe_def)
  define s2 where "s2 = snd (gather_statistics (int (length (outpack s))) ?q False tv (get_timespec st) tv s1)"
  have ok: "in_cksum ?b 0 = 0" by (rule reply_to_valid) (use run(4) p in simp_all)
  have "ping4_parse_reply False ?b (length ?b) w tv tv s1 = (0, s2)"
    using echo_parsed [OF st(1) p(1-3) _ _ s1(2) run(2,3), of "bytes16 (in_cksum (echo_of [0, 0] (outpack s1)) 0)" ?b w tv tv] ok
    unfolding s2_def p(5) s1(2) [symmetric] reply_to_def by (simp only: length_bytes16 refl simp_thms)
  moreover have "recv_stamp (Some tv) None tv s1 = tv" by (simp add: recv_stamp_def)
  moreover obtain dup where g: "gather_statistics (int (length (outpack s))) ?q False tv (get_timespec st) tv s1 = (dup, s2)"
    by (metis s2_def prod.collapse)
  have "24 \<le> int (length (outpack s))" "\<not> opt F_ADAPTIVE s1" using p(2,7) run(5) by simp_all
  note f = gather_frame [OF run(1) this(1) st(2) this(2) s2_def]
  have fr: "options s2 = options s" "interval s2 = interval s" "nerrors s2 = 0" "\<not> exiting s2" "tokens s2 = 0"
    "cur_time s2 = cur_time s1" "acked s2 = ?q" "ntransmitted s2 = k + 1"
    using f run(5,6) s1(3,5,9,10) acknowledge_next [OF s1(3,8)] by simp_all
  have t1: "tbl_ok (rcvd_tbl s1)" using rcvd.inv_remove [OF p(6)] s1(11) by simp
  have "?q \<notin> received s1" using rcvd.set_remove [OF p(6), of ?q] s1(11) by (simp add: received_def)
  with gather_refines [OF t1 g] s1(4,6,7) have c: "nreceived s2 = k + 1" "nrepeats s2 = 0" "nchecksum s2 = 0" "tbl_ok (rcvd_tbl s2)" by simp_all
  have sr: "same_run s s2"
    using keeps_gather [of s1] s1(1) fr(1,2) steady_trans unfolding s2_def same_run_def keeps_def by blast
  have "in_flight s2 = 0" using fr by (simp add: in_flight_def)
  ultimately have "recv_loop False w re (echo_event s k st tv # es) s1 = (es, s2)" by (simp add: ev)
  moreover have "idle_at (k + 1) s2" using idle fr c sr by (simp add: idle_at_def same_run_def steady_def)
  ultimately show ?thesis using that sr fr(6) by blast
qed

text \<open>
  A plan of the run: for each probe the time of sending, the bytes of its time stamp and the
  time its echo arrives.
\<close>

type_synonym plan = "(timespec \<times> octet list \<times> timespec) list"

fun well_paced :: "int \<Rightarrow> timespec list \<Rightarrow> bool" where
  "well_paced i (t # u # ts) \<longleftrightarrow> i \<le> elapsed_ms u t \<and> well_paced i (u # ts)"
| "well_paced i ts \<longleftrightarrow> True"

definition plan_ok :: "int \<Rightarrow> plan \<Rightarrow> bool" where
  "plan_ok i ps \<longleftrightarrow> well_paced i (map fst ps) \<and>
    list_all (\<lambda>(now, st, tv). length st = 16 \<and> ts_ns (get_timespec st) \<le> ts_ns tv) ps"

definition plan_round :: "timespec \<times> octet list \<times> timespec \<Rightarrow> round" where
  "plan_round p = (case p of (now, st, tv) \<Rightarrow> \<lparr>rd_signal = False, rd_calls = [(now, st, [])], rd_poll = Poll_Ready False\<rparr>)"

fun echo_events :: "ping \<Rightarrow> int \<Rightarrow> plan \<Rightarrow> recv_result list" where
  "echo_events s k [] = []"
| "echo_events s k ((now, st, tv) # ps) = echo_event s k st tv # echo_events s (k + 1) ps"

lemma echo_events_cong:
  "list_all (\<lambda>(now, st, tv). length st = 16 \<and> Q st tv) ps \<Longrightarrow> timing s \<Longrightarrow> same_run s s' \<Longrightarrow> echo_events s' k ps = echo_events s k ps"
  by (induction ps arbitrary: k) (auto simp: echo_event_cong)

lemma round_answered:
  assumes "idle_at k s" "k < npackets s" "due now s" "length st = 16" "ts_ns (get_timespec st) \<le> ts_ns tv"
  obtains s2 where "main_loop False w hz (plan_round (now, st, tv) # rds) (echo_event s k st tv # es) s = main_loop False w hz rds es s2"
    "idle_at (k + 1) s2" "same_run s s2" "cur_time s2 = now"
proof -
  obtain nxt s1 where d: "send_due [(now, st, [])] s = (Some nxt, s1)" and s1: "same_run s s1"
    "outpack s1 = outpack (ping4_send_probe st s)" "ntransmitted s1 = k + 1" "nreceived s1 = k" "nerrors s1 = 0"
    "nrepeats s1 = 0" "nchecksum s1 = 0" "acked s1 = word_of_int k" "\<not> exiting s1" "tokens s1 = 0"
    "rcvd_tbl s1 = rcvd_clear (word_of_int (k + 1)) (rcvd_tbl s)" and ct: "cur_time s1 = now"
    using send_due_probe [OF assms(1-4)] by metis
  obtain s2 where r: "recv_loop False w False (echo_event s k st tv # es) s1 = (es, s2)"
    and s2: "idle_at (k + 1) s2" "same_run s s2" "cur_time s2 = cur_time s1"
    using recv_echo [OF assms(1,4,5) s1] by metis
  have "\<not> main_loop_ends s" using assms(1,2) by (simp add: main_loop_ends_def idle_at_def)
  then have "main_loop False w hz (plan_round (now, st, tv) # rds) (echo_event s k st tv # es) s = main_loop False w hz rds es s2"
    using d r by (simp add: plan_round_def)
  with s2 ct show ?thesis using that by simp
qed

lemma run_answered:
  assumes "idle_at k s" "k + int (length ps) = npackets s" "0 < npackets s" "plan_ok (interval s) ps"
    and "ps = [] \<or> due (fst (hd ps)) s" "\<not> rd_signal rd"
  shows "\<exists>s'. main_loop False w hz (map plan_round ps @ [rd]) (echo_events s k ps @ es) s = (Some (finish s'), s')
    \<and> idle_at (npackets s) s' \<and> same_run s s'"
  using assms(1-5)
proof (induction ps arbitrary: k s)
  case Nil
  then have "main_loop_ends s" by (simp add: main_loop_ends_def idle_at_def)
  with Nil assms(6) show ?case by (simp add: same_run_def)
next
  case (Cons p ps)
  obtain now st tv where p: "p = (now, st, tv)" by (cases p)
  have st: "length st = 16" "ts_ns (get_timespec st) \<le> ts_ns tv" using Cons.prems(4) by (simp_all add: plan_ok_def p)
  have dn: "due now s" "k < npackets s" using Cons.prems(2,5) by (simp_all add: p)
  obtain s2 where r: "main_loop False w hz (plan_round (now, st, tv) # map plan_round ps @ [rd])
      (echo_event s k st tv # echo_events s (k + 1) ps @ es) s
      = main_loop False w hz (map plan_round ps @ [rd]) (echo_events s (k + 1) ps @ es) s2"
    and s2: "idle_at (k + 1) s2" "same_run s s2" "cur_time s2 = now"
    using round_answered [OF Cons.prems(1) dn(2,1) st] by metis
  have same: "npackets s2 = npackets s" "interval s2 = interval s" "timing s"
    using s2(2) Cons.prems(1) by (simp_all add: same_run_def steady_def idle_at_def)
  have pl: "plan_ok (interval s) ps" "ps \<noteq> [] \<longrightarrow> interval s \<le> elapsed_ms (fst (hd ps)) now"
    using Cons.prems(4) by (cases ps; simp add: plan_ok_def p)+
  then have "ps = [] \<or> due (fst (hd ps)) s2" using s2(3) same(2) by (auto simp: due_def)
  moreover have "k + 1 + int (length ps) = npackets s2" using Cons.prems(2) same(1) by simp
  ultimately obtain s' where s': "main_loop False w hz (map plan_round ps @ [rd]) (echo_events s2 (k + 1) ps @ es) s2 = (Some (finish s'), s')"
    "idle_at (npackets s2) s'" "same_run s2 s'"
    using Cons.IH [OF s2(1)] Cons.prems(3) pl(1) same(1,2) by auto
  have "echo_events s2 (k + 1) ps = echo_events s (k + 1) ps"
    using echo_events_cong [where Q = "\<lambda>st tv. ts_ns (get_timespec st) \<le> ts_ns tv", OF _ same(3) s2(2)] pl(1)
    unfolding plan_ok_def by simp
  with r s' same(1) same_run_trans [OF s2(2)] show ?case by (auto simp: p)
qed

end
