(* ===== verification/Ping_Properties.thy ===== *)
theory Ping_Properties
  imports Ping_Run
begin

text \<open>
  The properties of \<^verbatim>\<open>ping\<close>, with applications to a
  concrete state where they have hypotheses.
\<close>

definition demo_ping :: ping where
  "demo_ping = \<lparr>options = 0, rtt = 0, rtt_addend = 0, acked = 0, outpack = replicate 64 0, rcvd_tbl = replicate 1024 0,
     npackets = 0, nreceived = 0, nrepeats = 0, ntransmitted = 0, nchecksum = 0, nerrors = 0, interval = 1000, preload = 1,
     deadline = 0, lingertime = 10000, start_time = ts_make 5 0, cur_time = ts_make 0 0, exiting = False, confirm = 0, confirm_flag = 2048, timing = True,
     tmin = 2 ^ 63 - 1, tmax = 0, tsum = 0, tsum2 = 0, pipesize = -1, datalen = 56, uid = 0, ident = 7, tokens = 0,
     oom_count = 0, waittime = 0\<rparr>"

section \<open>Probes\<close>

text \<open>
  Probes carry a valid checksum. For every packet size IPv4 allows, the sum over the
  packet \<^verbatim>\<open>ping4_send_probe\<close> composes verifies, also when the time stamp is written after the
  checksum was computed and the checksum is amended.
\<close>
theorem probe_checksum_valid:
  assumes "length stamp = 16" "timing s \<Longrightarrow> 24 \<le> length (outpack s)" "8 \<le> length (outpack s)" "length (outpack s) \<le> 65534"
  shows "in_cksum (outpack (ping4_send_probe stamp s)) 0 = 0"
  by (rule probe_checksum [OF assms])

theorem probe_checksum_valid_witness:
  "in_cksum (outpack (ping4_send_probe [1, 2, 3, 4, 5, 6, 7, 8, 9, 10, 11, 12, 13, 14, 15, 16] demo_ping)) 0 = 0"
  by (rule probe_checksum_valid) (simp_all add: demo_ping_def)



section \<open>Setup and runs\<close>

text \<open>
  Bounds checked by \<^verbatim>\<open>setup\<close>. When it lets a run start, with a preload of at least one (which
  the option parser sees to), the product of interval and preload, the capacity of the token
  bucket, fits in an \<^verbatim>\<open>int\<close>; users other than root have an interval of at least 200 ms; the
  send and receive timeouts are valid time values; and the payload of the packet has the
  length that is sent.
\<close>
theorem ping_setup_bounds:
  assumes "ping_setup norcv raw pid now s = Inr s'" "1 \<le> preload s" "0 \<le> interval s" "length (outpack s) = 8 + datalen s"
  shows "0 \<le> interval s' * preload s' \<and> interval s' * preload s' < 2 ^ 31 \<and> (uid s' \<noteq> 0 \<longrightarrow> 200 \<le> interval s')
    \<and> 0 < fst (snd_timeout (interval s')) * 1000000 + snd (snd_timeout (interval s')) \<and> snd (snd_timeout (interval s')) < 1000000
    \<and> 0 < fst (rcv_timeout (interval s')) * 1000000 + snd (rcv_timeout (interval s')) \<and> snd (rcv_timeout (interval s')) < 1000000
    \<and> length (outpack s') = 8 + datalen s'"
proof -
  let ?i = "if opt F_FLOOD s \<and> \<not> opt F_INTERVAL s then 0 else interval s"
  have f: "interval s' = ?i" "preload s' = preload s" "uid s' = uid s" "length (outpack s') = 8 + datalen s'"
    and g: "uid s \<noteq> 0 \<longrightarrow> 200 \<le> ?i" "?i < c_div INT_MAX (preload s)"
    using assms(1,4) by (auto simp: ping_setup_def Let_def MINUSERINTERVAL_def fill_pattern_def split: if_splits)
  have c: "c_div INT_MAX (preload s) = 2147483647 div preload s" using assms(2) by (simp add: c_div_def INT_MAX_def)
  have "?i * preload s \<le> (2147483647 div preload s) * preload s" using g(2) assms(2) c by (intro mult_right_mono) simp_all
  also have "\<dots> \<le> 2147483647" using multiple_below [of "preload s" 2147483647] assms(2) by (simp add: mult.commute)
  finally have "?i * preload s < 2 ^ 31" by simp
  moreover have "0 \<le> interval s'" "0 \<le> ?i * preload s" using f(1) assms(2,3) by simp_all
  moreover have ms: "j div 1000 * 1000000 + 1000 * (j mod 1000) = 1000 * j" for j :: int
    using div_mult_mod_eq [of j 1000] by linarith
  moreover have "0 < fst (snd_timeout i) * 1000000 + snd (snd_timeout i)" "snd (snd_timeout i) < 1000000"
    "0 < fst (rcv_timeout i) * 1000000 + snd (rcv_timeout i)" "snd (rcv_timeout i) < 1000000" if "0 \<le> i" for i
    using that by (auto simp: snd_timeout_def rcv_timeout_def SCHINT_def MININTERVAL_def c_div_def ms)
  ultimately show ?thesis using f g by simp
qed

theorem ping_setup_bounds_witness:
  "\<exists>s'. ping_setup False True 7 (ts_make 5 0) demo_ping = Inr s' \<and> interval s' * preload s' < 2 ^ 31"
proof -
  obtain s' where s': "ping_setup False True 7 (ts_make 5 0) demo_ping = Inr s'"
    by (simp add: ping_setup_def demo_ping_def F_FLOOD_def Let_def c_div_def INT_MAX_def)
  show ?thesis using ping_setup_bounds [OF s'] s' by (simp add: demo_ping_def)
qed

text \<open>
  C29. Whatever happens in a run of the main loop (lost, foreign and corrupt packets, errors of
  every kind, signals), the table of sequence numbers keeps its 1024 words and the packet
  its length, so that no access to them is out of bounds, the payload that replies are
  compared with is never changed, and with option \<^verbatim>\<open>-c\<close> but no deadline, no more probes
  are transmitted than asked for.
\<close>
theorem ping_loop_invariant:
  assumes "tbl_ok (rcvd_tbl s)" "length (outpack s) = 8 + datalen s" "timing s \<longrightarrow> 16 \<le> datalen s"
    and "list_all (\<lambda>rd. list_all stamped (rd_calls rd)) rds" "main_loop raw w hz rds es s = (r, s')"
  shows "tbl_ok (rcvd_tbl s') \<and> length (outpack s') = 8 + datalen s' \<and> drop 24 (outpack s') = drop 24 (outpack s)
    \<and> ntransmitted s \<le> ntransmitted s'
    \<and> (npackets s \<noteq> 0 \<and> deadline s = 0 \<and> ntransmitted s \<le> npackets s \<longrightarrow> ntransmitted s' \<le> npackets s)"
proof -
  have "can_probe s" using assms(2,3) by (simp add: can_probe_def)
  from keeps_main_loop [OF assms(4) this assms(5)] assms(1,2) show ?thesis
    by (auto simp: keeps_def steady_def within_count_def tbl_ok_def)
qed

definition demo_plan :: plan where
  "demo_plan = [(ts_make 5 0, 5 # replicate 15 0, ts_make 5 4000), (ts_make 6 0, 6 # replicate 15 0, ts_make 6 2000)]"

theorem ping_loop_invariant_witness:
  "ntransmitted (snd (main_loop False [127, 0, 0, 1] 100 (map plan_round demo_plan) [] (demo_ping\<lparr>npackets := 1\<rparr>))) \<le> 1"
proof -
  let ?s = "demo_ping\<lparr>npackets := 1\<rparr>" let ?m = "main_loop False [127, 0, 0, 1] 100 (map plan_round demo_plan) [] ?s"
  have "?m = (fst ?m, snd ?m)" "list_all (\<lambda>rd. list_all stamped (rd_calls rd)) (map plan_round demo_plan)"
    by (simp_all add: demo_plan_def plan_round_def stamped_def)
  then show ?thesis
    using ping_loop_invariant [of ?s "map plan_round demo_plan" False "[127, 0, 0, 1]" 100 "[]" "fst ?m" "snd ?m"]
    by (simp add: demo_ping_def tbl_ok_def)
qed



section \<open>Statistics\<close>

text \<open>
  Duplicates. The table of 1024 words implements a set of sequence numbers: sending a
  probe removes its number; a reply with a good checksum is a duplicate exactly if its
  number is in the set, is counted as received otherwise, and is in the set afterwards; a
  reply with a bad checksum only counts as such.
\<close>
theorem duplicate_detection:
  assumes "tbl_ok (rcvd_tbl s)" "gather_statistics cc q csf tv sent now s = (dup, s')"
  shows "(dup \<longleftrightarrow> \<not> csf \<and> q \<in> received s) \<and> received s' = (if csf then received s else insert q (received s))
    \<and> nreceived s' = nreceived s + (if csf \<or> q \<in> received s then 0 else 1)
    \<and> nrepeats s' = nrepeats s + (if dup then 1 else 0) \<and> nchecksum s' = nchecksum s + (if csf then 1 else 0)
    \<and> tbl_ok (rcvd_tbl s')
    \<and> received (ping4_send_probe stamp s) = received s - {word_of_int (ntransmitted s + 1)}"
proof -
  have "received (ping4_send_probe stamp s) = received s - {word_of_int (ntransmitted s + 1)}"
    using rcvd.set_remove [OF assms(1)] by (simp add: received_def ping4_send_probe_def Let_def)
  with gather_refines [OF assms] show ?thesis by blast
qed

definition demo_gather :: "bool \<times> ping" where
  "demo_gather = gather_statistics 64 1 False (ts_make 5 3000000) (ts_make 5 1000000) (ts_make 5 0) demo_ping"

theorem duplicate_detection_witness:
  "received (snd demo_gather) = insert 1 (received demo_ping)"
  using duplicate_detection [of demo_ping 64 1 False "ts_make 5 3000000" "ts_make 5 1000000" "ts_make 5 0" "fst demo_gather" "snd demo_gather"]
  by (simp add: demo_gather_def tbl_ok_def demo_ping_def)

text \<open>
  A probe and its echo. If the echo of a probe comes back with a valid checksum of its
  own and was not altered otherwise, \<^verbatim>\<open>ping4_parse_reply\<close> takes it for an answer to this probe: it
  counts as received and not as a repetition, its sequence number is entered in the table,
  and the time between the stamp that was sent and the arrival is added to the sum of the
  round trip times.
\<close>
theorem echo_reply_counted:
  assumes "length stamp = 16" "timing s" "24 \<le> length (outpack s)" "length (outpack s) = 8 + datalen s"
    and "tbl_ok (rcvd_tbl s)" "length ck = 2" "in_cksum (echo_of ck (outpack (ping4_send_probe stamp s))) 0 = 0"
    and "ts_ns (get_timespec stamp) \<le> ts_ns tv"
    and "b = echo_of ck (outpack (ping4_send_probe stamp s))"
    and "ping4_parse_reply False b (length b) whereto tv now (ping4_send_probe stamp s) = (i, s')"
  shows "i = 0 \<and> nreceived s' = nreceived s + 1 \<and> nrepeats s' = nrepeats s \<and> nchecksum s' = nchecksum s
    \<and> received s' = insert (word_of_int (ntransmitted s + 1)) (received s)
    \<and> tsum s' = tsum s + word_of_int (ts_ns tv - ts_ns (get_timespec stamp))"
proof -
  let ?s1 = "ping4_send_probe stamp s"
  let ?q = "word_of_int (ntransmitted s + 1) :: u16"
  let ?r = "\<lparr>rp_cc = int (length (outpack s)), rp_seq = ?q, rp_csf = False, rp_tv = tv, rp_sent = get_timespec stamp, rp_now = now\<rparr>"
  have out: "i = 0" "s' = gather_reply ?r ?s1"
    using echo_parsed [OF assms(1-4,6,7) refl _ _ refl] assms(9,10) by (simp_all add: gather_reply_def)
  have f: "nreceived ?s1 = nreceived s" "nrepeats ?s1 = nrepeats s" "nchecksum ?s1 = nchecksum s" "tsum ?s1 = tsum s" "timing ?s1"
    "rcvd_tbl ?s1 = rcvd_clear ?q (rcvd_tbl s)"
    using assms(2) by simp_all
  have t1: "tbl_ok (rcvd_tbl ?s1)" using rcvd.inv_remove [OF assms(5)] f by simp
  have rec: "received ?s1 = received s - {?q}" using rcvd.set_remove [OF assms(5), of ?q] f by (simp add: received_def)
  obtain dup where g: "gather_statistics (int (length (outpack s))) ?q False tv (get_timespec stamp) now ?s1 = (dup, s')"
    using out(2) by (cases "gather_statistics (int (length (outpack s))) ?q False tv (get_timespec stamp) now ?s1") (simp add: gather_reply_def)
  have tr: "timed_reply ?r" using assms(3,8) by (simp add: timed_reply_def)
  have "tsum s' = tsum s + word_of_int (ts_ns tv - ts_ns (get_timespec stamp))"
    using gather_reply_stats(2) [OF f(5) tr] f(4) out(2) by (simp add: trips_def)
  with gather_refines [OF t1 g] rec f out(1) show ?thesis by auto
qed

theorem echo_reply_counted_witness:
  "nreceived (snd (ping4_parse_reply False (echo_of [0xF7, 0xFE] (outpack (ping4_send_probe (1 # replicate 15 0) demo_ping)))
     64 [127, 0, 0, 1] (ts_make 3 0) (ts_make 4 0) (ping4_send_probe (1 # replicate 15 0) demo_ping))) = 1"
proof -
  let ?st = "1 # replicate 15 (0 :: octet)"
  let ?s1 = "ping4_send_probe ?st demo_ping"
  let ?b = "echo_of [0xF7, 0xFE] (outpack ?s1)"
  let ?r = "ping4_parse_reply False ?b (length ?b) [127, 0, 0, 1] (ts_make 3 0) (ts_make 4 0) ?s1"
  have "in_cksum ?b 0 = 0" "ts_ns (get_timespec ?st) \<le> ts_ns (ts_make 3 0)" "length ?b = 64" by code_simp+
  then show ?thesis
    using echo_reply_counted [of ?st demo_ping "[0xF7, 0xFE]" "ts_make 3 0" ?b "[127, 0, 0, 1]" "ts_make 4 0" "fst ?r" "snd ?r"]
    by (simp add: tbl_ok_def) (simp add: demo_ping_def)
qed

text \<open>
  C25. The final report. Suppose the replies with a good checksum, duplicates included, took
  the times \<open>ts\<close> (in nanoseconds), and the sum of the squares is below \<open>2 ^ 63\<close>. Then the
  printed average is their mean, rounded down, and the printed deviation is 0 if \<open>v\<close>, the
  mean square minus the square of the mean, is 0, and otherwise the integer square root of
  \<open>v + 1\<close>: the loop of \<^verbatim>\<open>llsqrt\<close> returns a value of Newton's iteration, which is one above
  the root of \<open>v\<close> when \<open>v + 1\<close> is a square.
\<close>
theorem ping_report_correct:
  assumes "fresh_ping s" "list_all timed_reply rs" "ts = trips rs" "ts \<noteq> []"
    and "squares ts < 2 ^ 63 - 1" "int (length ts) < 2 ^ 63"
    and "v = squares ts div int (length ts) - (sum_list ts div int (length ts)) * (sum_list ts div int (length ts))"
    and "report = finish (fold gather_reply rs s)"
  shows "\<exists>avg mdev. rep_rtt report = Some (Min (set ts), avg, Max (set ts), mdev)
    \<and> uint avg = sum_list ts div int (length ts) \<and> 0 \<le> v \<and> (v = 0 \<longrightarrow> mdev = 0)
    \<and> (0 < v \<longrightarrow> 0 < mdev \<and> mdev * mdev \<le> v + 1 \<and> v + 1 < (mdev + 1) * (mdev + 1))"
proof -
  note pos = trips_nonneg [OF assms(2)]
  have ne: "trips rs \<noteq> []" and sq: "squares (trips rs) < 2 ^ 63" and ln: "int (length (trips rs)) < 2 ^ 63"
    using assms(3-6) by simp_all
  note r = report_values [OF assms(1,2) ne sq ln]
  have v: "0 \<le> v" using mean_square [OF ne pos] assms(3,7) by simp
  have S: "0 \<le> sum_list ts" "sum_list ts \<le> squares ts"
    using sum_le_squares [OF pos] sum_list_nonneg [of "trips rs"] pos assms(3) by auto
  then have "squares ts div int (length ts) \<le> squares ts" "sum_list ts div int (length ts) \<le> sum_list ts"
    "0 \<le> sum_list ts div int (length ts)"
    using assms(4) by (auto intro!: zdiv_le_self simp: pos_imp_zdiv_nonneg_iff)
  note le = this
  then have "v < 2 ^ 63 - 1" using assms(5,7) zero_le_square [of "sum_list ts div int (length ts)"] by linarith
  moreover have "uint (word_of_int (sum_list ts div int (length ts)) :: u64) = sum_list ts div int (length ts)"
    using le S assms(5) by (intro uint_u64) simp_all
  ultimately show ?thesis
    using r v assms(3,7,8) llsqrt_exact [of v] by (auto simp: llsqrt_def)
qed

definition demo_reply :: "u16 \<Rightarrow> int \<Rightarrow> reply" where
  "demo_reply q t = \<lparr>rp_cc = 64, rp_seq = q, rp_csf = False, rp_tv = ts_make (5 + t div 1000000000) (t mod 1000000000),
     rp_sent = ts_make 5 0, rp_now = ts_make 9 0\<rparr>"

theorem ping_report_correct_witness:
  "\<exists>avg mdev. rep_rtt (finish (fold gather_reply [demo_reply 1 2, demo_reply 2 4] demo_ping)) = Some (2, avg, 4, mdev) \<and> uint avg = 3"
proof -
  let ?rs = "[demo_reply 1 2, demo_reply 2 4]"
  have t: "trips ?rs = [2, 4]" by (simp add: trips_def demo_reply_def ts_ns_def)
  have "fresh_ping demo_ping" by (simp add: fresh_ping_def demo_ping_def)
  moreover have "list_all timed_reply ?rs" by (simp add: timed_reply_def demo_reply_def ts_ns_def)
  ultimately show ?thesis
    using ping_report_correct [of demo_ping ?rs "[2, 4]" _ "finish (fold gather_reply ?rs demo_ping)"] t
    by (auto simp: squares_def)
qed

text \<open>
  Beyond that bound the sum of squares wraps around: with nineteen replies of exactly one
  second the printed deviation is negative.
\<close>

lemma mdev_wraps:
  "snd (rtt_mean_dev (fold gather_reply (map (\<lambda>q. demo_reply (word_of_nat q) 1000000000) [1..<20]) demo_ping)) = -970881267037344822"
  by code_simp

text \<open>
  Units. Round trip times are kept in nanoseconds, but the code that uses them as a time
  scale still takes them for microseconds: in adaptive mode the first reply, after \<open>t\<close>
  nanoseconds, sets the interval to \<open>t / 1000\<close> milliseconds, a thousand times the round trip
  time; and after the last probe of a run the program waits \<open>2 * tmax\<close> microseconds for
  further replies instead of twice the longest round trip time.
\<close>
theorem time_scale_confused:
  assumes "opt F_ADAPTIVE s" "rtt s = 0" "rtt_addend s = 0" "uid s = 0" "0 < t" "t < 2 ^ 31"
    and "waittime s' = 0" "nreceived s' \<noteq> 0" "1000 * interval s' \<le> 2 * tmax s'"
  shows "interval (record_trip t s) = (t + 500) div 1000 \<and> waittime (snd (schedule_exit_wait nxt s')) = 2 * tmax s'"
proof -
  have "to_int32 t = t"
  proof -
    have "signed_take_bit 31 t = t" using assms(5,6) by (intro signed_take_bit_int_eq_self) simp_all
    then show ?thesis by (simp add: to_int32_def sint_sbintrunc')
  qed
  with assms show ?thesis
    by (simp add: record_trip_def update_interval_def schedule_exit_wait_def Let_def)
qed

theorem time_scale_confused_witness:
  "interval (record_trip 1000000 (demo_ping\<lparr>options := F_ADAPTIVE\<rparr>)) = 1000
   \<and> waittime (snd (schedule_exit_wait 5 (demo_ping\<lparr>nreceived := 1, tmax := 1000000\<rparr>))) = 2000000"
  using time_scale_confused [of "demo_ping\<lparr>options := F_ADAPTIVE\<rparr>" 1000000 "demo_ping\<lparr>nreceived := 1, tmax := 1000000\<rparr>" 5]
  by (simp add: demo_ping_def F_ADAPTIVE_def)

text \<open>
  A failed write moves the offset of \<^verbatim>\<open>write_stdout\<close> in front of the string.
\<close>

lemma write_stdout_underrun: "write_stdout 1 0 [-1, 2] = [0, 2 ^ 64 - 1]"
  by code_simp

text \<open>In quiet mode local errors are not counted.\<close>

lemma quiet_local_error: "opt F_QUIET s \<Longrightarrow> snd (snd (ping4_receive_error_msg (Err_Local ee) er s)) = s"
  by simp

end
