(* ===== verification/Rdisc_Table.thy ===== *)
theory Rdisc_Table
  imports Baseliner_Prelude
begin

text \<open>
  The table of routers of the router discovery daemon (\<^verbatim>\<open>src/iputils-ns/rdisc.c\<close>, from
  \<^verbatim>\<open>struct table\<close> to \<^verbatim>\<open>rtioctl\<close>). The linked list is a list with its head first. Every
  request to the kernel's routing table is kept in a log together with its outcome, which
  is a function of the number of the request; the daemon does not look at outcomes.
\<close>

section \<open>Entries and requests\<close>

type_synonym ip = u32

record rentry =
  router :: ip
  rpref :: int
  remaining_time :: int
  in_kernel :: bool

definition INELIGIBLE_PREF :: int where "INELIGIBLE_PREF = - 2147483648"

datatype route_op = SIOCADDRT | SIOCDELRT
datatype rt_outcome = Rt_done | Rt_exists | Rt_error | Rt_no_socket

type_synonym rt_log = "(route_op \<times> ip \<times> rt_outcome) list"
type_synonym rtable = "rentry list \<times> rt_log"

definition rtioctl :: "(nat \<Rightarrow> rt_outcome) \<Rightarrow> route_op \<Rightarrow> ip \<Rightarrow> rt_log \<Rightarrow> rt_log" where
  "rtioctl K op a L = L @ [(op, a, K (length L))]"

definition add_route :: "(nat \<Rightarrow> rt_outcome) \<Rightarrow> ip \<Rightarrow> rt_log \<Rightarrow> rt_log" where
  "add_route K a L = rtioctl K SIOCADDRT a L"

definition del_route :: "(nat \<Rightarrow> rt_outcome) \<Rightarrow> ip \<Rightarrow> rt_log \<Rightarrow> rt_log" where
  "del_route K a L = rtioctl K SIOCDELRT a L"

section \<open>Operations\<close>

fun find_router :: "ip \<Rightarrow> rentry list \<Rightarrow> rentry option" where
  "find_router a [] = None"
| "find_router a (e # es) = (if router e = a then Some e else find_router a es)"

fun max_loop :: "int \<Rightarrow> rentry list \<Rightarrow> int" where
  "max_loop m [] = m"
| "max_loop m (e # es) = max_loop (if rpref e > m then rpref e else m) es"

definition max_preference :: "rentry list \<Rightarrow> int" where
  "max_preference t = max_loop INELIGIBLE_PREF t"

text \<open>The loops that add the routes of preference \<open>m\<close> and remove those of smaller preference.\<close>

fun add_routes :: "(nat \<Rightarrow> rt_outcome) \<Rightarrow> int \<Rightarrow> rentry list \<Rightarrow> rt_log \<Rightarrow> rtable" where
  "add_routes K m [] L = ([], L)"
| "add_routes K m (e # es) L =
    (if rpref e = m \<and> \<not> in_kernel e
     then (let (es', L') = add_routes K m es (add_route K (router e) L) in (e\<lparr>in_kernel := True\<rparr> # es', L'))
     else (let (es', L') = add_routes K m es L in (e # es', L')))"

fun drop_routes :: "(nat \<Rightarrow> rt_outcome) \<Rightarrow> int \<Rightarrow> rentry list \<Rightarrow> rt_log \<Rightarrow> rtable" where
  "drop_routes K m [] L = ([], L)"
| "drop_routes K m (e # es) L =
    (if rpref e < m \<and> in_kernel e
     then (let (es', L') = drop_routes K m es (del_route K (router e) L) in (e\<lparr>in_kernel := False\<rparr> # es', L'))
     else (let (es', L') = drop_routes K m es L in (e # es', L')))"

text \<open>\<^verbatim>\<open>age_table\<close>; the first loop also returns whether the maximum has to be computed again.\<close>

fun age_loop :: "(nat \<Rightarrow> rt_outcome) \<Rightarrow> bool \<Rightarrow> int \<Rightarrow> int \<Rightarrow> rentry list \<Rightarrow> bool \<Rightarrow> rt_log \<Rightarrow> rentry list \<times> bool \<times> rt_log" where
  "age_loop K best mx tm [] r L = ([], r, L)"
| "age_loop K best mx tm (e # es) r L =
    (let e' = e\<lparr>remaining_time := remaining_time e - tm\<rparr>
     in if remaining_time e' \<le> 0
        then age_loop K best mx tm es (r \<or> best \<and> rpref e = mx) (if in_kernel e then del_route K (router e) L else L)
        else (let (es', r', L') = age_loop K best mx tm es r L in (e' # es', r', L')))"

definition age_table :: "(nat \<Rightarrow> rt_outcome) \<Rightarrow> bool \<Rightarrow> int \<Rightarrow> rtable \<Rightarrow> rtable" where
  "age_table K best tm = (\<lambda>(t, L).
    (let (t1, recalculate, L1) = age_loop K best (max_preference t) tm t False L
     in if recalculate \<and> max_preference t1 \<noteq> INELIGIBLE_PREF then add_routes K (max_preference t1) t1 L1
        else (t1, L1)))"

fun discard_loop :: "(nat \<Rightarrow> rt_outcome) \<Rightarrow> rentry list \<Rightarrow> rt_log \<Rightarrow> rt_log" where
  "discard_loop K [] L = L"
| "discard_loop K (e # es) L = discard_loop K es (if in_kernel e then del_route K (router e) L else L)"

definition discard_table :: "(nat \<Rightarrow> rt_outcome) \<Rightarrow> rtable \<Rightarrow> rtable" where
  "discard_table K = (\<lambda>(t, L). ([], discard_loop K t L))"

text \<open>
  \<^verbatim>\<open>record_router\<close>. The pointer to the entry of the router is the first entry with its
  address. The second half of the function is split at its four conditional statements.
\<close>

definition set_router :: "ip \<Rightarrow> (rentry \<Rightarrow> rentry) \<Rightarrow> rentry list \<Rightarrow> rentry list" where
  "set_router a f = upd_first (\<lambda>e. router e = a) (\<lambda>e. [f e])"

definition record_add :: "(nat \<Rightarrow> rt_outcome) \<Rightarrow> bool \<Rightarrow> ip \<Rightarrow> rtable \<Rightarrow> rtable" where
  "record_add K best a = (\<lambda>(t, L). case find_router a t of None \<Rightarrow> (t, L) | Some e \<Rightarrow>
    (if \<not> in_kernel e \<and> (\<not> best \<or> rpref e = max_preference t) \<and> rpref e \<noteq> INELIGIBLE_PREF
     then (set_router a (in_kernel_update (\<lambda>_. True)) t, add_route K a L) else (t, L)))"

definition record_del :: "(nat \<Rightarrow> rt_outcome) \<Rightarrow> ip \<Rightarrow> rtable \<Rightarrow> rtable" where
  "record_del K a = (\<lambda>(t, L). case find_router a t of None \<Rightarrow> (t, L) | Some e \<Rightarrow>
    (if rpref e = INELIGIBLE_PREF \<and> in_kernel e
     then (set_router a (in_kernel_update (\<lambda>_. False)) t, del_route K a L) else (t, L)))"

definition record_down :: "(nat \<Rightarrow> rt_outcome) \<Rightarrow> bool \<Rightarrow> bool \<Rightarrow> rtable \<Rightarrow> rtable" where
  "record_down K best down = (\<lambda>(t, L).
    (if best \<and> down \<and> max_preference t \<noteq> INELIGIBLE_PREF then add_routes K (max_preference t) t L else (t, L)))"

definition record_drop :: "(nat \<Rightarrow> rt_outcome) \<Rightarrow> bool \<Rightarrow> bool \<Rightarrow> rtable \<Rightarrow> rtable" where
  "record_drop K best changed = (\<lambda>(t, L).
    (if best \<and> changed then drop_routes K (max_preference t) t L else (t, L)))"

definition record_routes :: "(nat \<Rightarrow> rt_outcome) \<Rightarrow> bool \<Rightarrow> ip \<Rightarrow> bool \<Rightarrow> bool \<Rightarrow> rtable \<Rightarrow> rtable" where
  "record_routes K best a up down T =
    record_drop K best (up \<or> down) (record_down K best down (record_del K a (record_add K best a T)))"

definition record_router :: "(nat \<Rightarrow> rt_outcome) \<Rightarrow> bool \<Rightarrow> bool \<Rightarrow> ip \<Rightarrow> int \<Rightarrow> int \<Rightarrow> rtable \<Rightarrow> rtable" where
  "record_router K best mem a pref0 ttl = (\<lambda>(t, L).
    (let old_max = max_preference t;
         pref = (if ttl < 4 then INELIGIBLE_PREF else pref0)
     in case find_router a t of
          Some e \<Rightarrow>
            (let down = (rpref e > pref \<and> rpref e = old_max);
                 up = (\<not> down \<and> pref > rpref e)
             in record_routes K best a up down (set_router a (\<lambda>e. e\<lparr>rpref := pref, remaining_time := ttl\<rparr>) t, L))
        | None \<Rightarrow>
            (if mem
             then record_routes K best a (pref > old_max) False
                    (\<lparr>router = a, rpref = pref, remaining_time = ttl, in_kernel = False\<rparr> # t, L)
             else (t, L))))"

end
