(* ===== verification/Rdisc_Routes.thy ===== *)
theory Rdisc_Routes
  imports Rdisc_Table
begin

text \<open>
  The routes that \<^verbatim>\<open>rdisc\<close> keeps in the kernel. A router is wanted if it is eligible and, unless
  all routers are accepted, its preference is the largest in the table. The invariant: the
  flags of the table mark the wanted routers, and the log of requests leaves the kernel with
  the routes of the marked routers.
\<close>

section \<open>The maximal preference\<close>

lemma max_loop_le: "max_loop m t \<le> x \<longleftrightarrow> m \<le> x \<and> (\<forall>e \<in> set t. rpref e \<le> x)"
  by (induction t arbitrary: m) auto

lemma max_loop_attained: "max_loop m t = m \<or> (\<exists>e \<in> set t. rpref e = max_loop m t)"
  by (induction t arbitrary: m) force+

lemma max_preference_le: "max_preference t \<le> x \<longleftrightarrow> INELIGIBLE_PREF \<le> x \<and> (\<forall>e \<in> set t. rpref e \<le> x)"
  by (simp add: max_preference_def max_loop_le)

lemma rpref_le_max: "e \<in> set t \<Longrightarrow> rpref e \<le> max_preference t"
  using max_preference_le [of t "max_preference t"] by simp

lemma ineligible_le_max: "INELIGIBLE_PREF \<le> max_preference t"
  using max_preference_le [of t "max_preference t"] by simp

lemma max_preference_attained: "max_preference t = INELIGIBLE_PREF \<or> (\<exists>e \<in> set t. rpref e = max_preference t)"
  unfolding max_preference_def by (rule max_loop_attained)

lemma max_preference_eqI:
  assumes "INELIGIBLE_PREF \<le> m" "\<forall>e \<in> set t. rpref e \<le> m" "m = INELIGIBLE_PREF \<or> (\<exists>e \<in> set t. rpref e = m)"
  shows "max_preference t = m"
proof (rule antisym)
  show "max_preference t \<le> m" using assms by (simp add: max_preference_le)
  show "m \<le> max_preference t" using assms(3) ineligible_le_max [of t] rpref_le_max [of _ t] by auto
qed

section \<open>Changing flags\<close>

definition reflag :: "(rentry \<Rightarrow> bool) \<Rightarrow> rentry list \<Rightarrow> rentry list" where
  "reflag P t = map (\<lambda>e. e\<lparr>in_kernel := P e\<rparr>) t"

lemma reflag_reflag: "reflag P (reflag Q t) = reflag (\<lambda>e. P (e\<lparr>in_kernel := Q e\<rparr>)) t"
  by (simp add: reflag_def)

lemma reflag_same: "(\<And>e. e \<in> set t \<Longrightarrow> P e = in_kernel e) \<Longrightarrow> reflag P t = t"
  unfolding reflag_def by (rule map_idI) simp

lemma unflag_same [simp]: "e\<lparr>in_kernel := in_kernel e\<rparr> = e"
  by simp

lemma flag_same: "b = in_kernel e \<Longrightarrow> e = e\<lparr>in_kernel := b\<rparr>"
  by simp

lemma reflag_cong: "(\<And>e. e \<in> set t \<Longrightarrow> P e = Q e) \<Longrightarrow> reflag P t = reflag Q t"
  by (simp add: reflag_def)

lemma max_loop_reflag: "max_loop m (reflag P t) = max_loop m t"
  by (induction t arbitrary: m) (simp_all add: reflag_def)

lemma max_preference_reflag [simp]: "max_preference (reflag P t) = max_preference t"
  by (simp add: max_preference_def max_loop_reflag)

lemma routers_reflag [simp]: "map router (reflag P t) = map router t"
  by (simp add: reflag_def)

lemma find_router_reflag: "find_router a (reflag P t) = map_option (\<lambda>e. e\<lparr>in_kernel := P e\<rparr>) (find_router a t)"
  by (induction t) (simp_all add: reflag_def)

lemma find_router_None: "find_router a t = None \<longleftrightarrow> a \<notin> router ` set t"
  by (induction t) auto

lemma find_router_Some: "find_router a t = Some e \<Longrightarrow> e \<in> set t \<and> router e = a"
  by (induction t) (auto split: if_splits)

lemma find_router_unique:
  "find_router a t = Some e \<Longrightarrow> distinct (map router t) \<Longrightarrow> d \<in> set t \<Longrightarrow> router d = a \<Longrightarrow> d = e"
  using find_router_Some [of a t e] by (auto dest: eq_key_imp_eq_value simp: distinct_map inj_on_def)

lemma set_router_map:
  "distinct (map router t) \<Longrightarrow> set_router a f t = map (\<lambda>e. if router e = a then f e else e) t"
proof (induction t)
  case (Cons e t)
  have "map (\<lambda>e. if router e = a then f e else e) t = t" if "router e = a"
    by (rule map_idI) (use Cons.prems that in \<open>auto simp: image_iff\<close>)
  then show ?case using Cons by (simp add: set_router_def)
qed (simp add: set_router_def)

section \<open>Requests\<close>

definition requests :: "(nat \<Rightarrow> rt_outcome) \<Rightarrow> route_op \<Rightarrow> ip list \<Rightarrow> rt_log \<Rightarrow> rt_log" where
  "requests K op as L = fold (rtioctl K op) as L"

lemma requests_simps [simp]: "requests K op [] L = L" "requests K op (a # as) L = requests K op as (rtioctl K op a L)"
  by (simp_all add: requests_def)

lemma add_routes_eq:
  "add_routes K m t L = (reflag (\<lambda>e. in_kernel e \<or> rpref e = m) t,
     requests K SIOCADDRT (map router (filter (\<lambda>e. rpref e = m \<and> \<not> in_kernel e) t)) L)"
  by (induction t arbitrary: L) (auto simp: reflag_def add_route_def intro: flag_same)

lemma drop_routes_eq:
  "drop_routes K m t L = (reflag (\<lambda>e. in_kernel e \<and> \<not> rpref e < m) t,
     requests K SIOCDELRT (map router (filter (\<lambda>e. rpref e < m \<and> in_kernel e) t)) L)"
  by (induction t arbitrary: L) (auto simp: reflag_def del_route_def intro: flag_same)

lemma age_loop_eq:
  "age_loop K best mx tm t r L =
    (map (\<lambda>e. e\<lparr>remaining_time := remaining_time e - tm\<rparr>) (filter (\<lambda>e. remaining_time e > tm) t),
     r \<or> best \<and> (\<exists>e \<in> set t. remaining_time e \<le> tm \<and> rpref e = mx),
     requests K SIOCDELRT (map router (filter (\<lambda>e. remaining_time e \<le> tm \<and> in_kernel e) t)) L)"
  by (induction t arbitrary: r L) (auto simp: del_route_def)

lemma discard_loop_eq: "discard_loop K t L = requests K SIOCDELRT (map router (filter in_kernel t)) L"
  by (induction t arbitrary: L) (simp_all add: del_route_def)

text \<open>What the requests leave in the kernel, which had the routes \<open>R\<close> at the start.\<close>

fun kernel_step :: "route_op \<times> ip \<times> rt_outcome \<Rightarrow> ip set \<Rightarrow> ip set" where
  "kernel_step (SIOCADDRT, a, Rt_done) R = insert a R"
| "kernel_step (SIOCDELRT, a, Rt_done) R = R - {a}"
| "kernel_step _ R = R"

definition kernel_routes :: "ip set \<Rightarrow> rt_log \<Rightarrow> ip set" where
  "kernel_routes R L = fold kernel_step L R"

definition touched :: "rt_log \<Rightarrow> ip set" where
  "touched L = (fst \<circ> snd) ` set L"

definition all_done :: "(nat \<Rightarrow> rt_outcome) \<Rightarrow> bool" where
  "all_done K \<longleftrightarrow> (\<forall>n. K n = Rt_done)"

lemma kernel_adds: "all_done K \<Longrightarrow> kernel_routes R (requests K SIOCADDRT as L) = kernel_routes R L \<union> set as"
  by (induction "as" arbitrary: L) (auto simp: rtioctl_def all_done_def kernel_routes_def)

lemma kernel_dels: "all_done K \<Longrightarrow> kernel_routes R (requests K SIOCDELRT as L) = kernel_routes R L - set as"
  by (induction "as" arbitrary: L) (auto simp: rtioctl_def all_done_def kernel_routes_def)

lemma touched_requests: "touched (requests K op as L) = touched L \<union> set as"
  by (induction "as" arbitrary: L) (auto simp: rtioctl_def touched_def)

section \<open>The invariant\<close>

definition wanted :: "bool \<Rightarrow> rentry list \<Rightarrow> rentry \<Rightarrow> bool" where
  "wanted best t e \<longleftrightarrow> rpref e \<noteq> INELIGIBLE_PREF \<and> (best \<longrightarrow> rpref e = max_preference t)"

definition flags_ok :: "bool \<Rightarrow> rentry list \<Rightarrow> bool" where
  "flags_ok best t \<longleftrightarrow> distinct (map router t) \<and> (\<forall>e \<in> set t. in_kernel e = wanted best t e)"

definition flagged :: "rentry list \<Rightarrow> ip set" where
  "flagged t = router ` {e \<in> set t. in_kernel e}"

definition synced :: "ip set \<Rightarrow> rtable \<Rightarrow> bool" where
  "synced R T \<longleftrightarrow> kernel_routes R (snd T) = flagged (fst T) \<union> (R - touched (snd T))"

lemma flags_ok_reflag:
  assumes "distinct (map router t)" "\<And>e. e \<in> set t \<Longrightarrow> P e = wanted best t e"
  shows "flags_ok best (reflag P t)"
proof -
  have "in_kernel d = wanted best (reflag P t) d" if "d \<in> set (reflag P t)" for d
  proof -
    from that obtain e where "e \<in> set t" "d = e\<lparr>in_kernel := P e\<rparr>" by (auto simp: reflag_def)
    then show ?thesis using assms(2) by (simp add: wanted_def)
  qed
  then show ?thesis using assms(1) by (simp add: flags_ok_def)
qed

lemma synced_adds:
  assumes "all_done K" "synced R (t, L)" "flagged t' = flagged t \<union> set as"
  shows "synced R (t', requests K SIOCADDRT as L)"
  using assms by (auto simp: synced_def kernel_adds touched_requests)

lemma synced_dels:
  assumes "all_done K" "synced R (t, L)" "flagged t' = flagged t - set as"
  shows "synced R (t', requests K SIOCDELRT as L)"
  using assms by (auto simp: synced_def kernel_dels touched_requests)

lemma flagged_cong: "map (\<lambda>e. (router e, in_kernel e)) t = map (\<lambda>e. (router e, in_kernel e)) t' \<Longrightarrow> flagged t = flagged t'"
proof -
  have f: "flagged t = fst ` {p \<in> set (map (\<lambda>e. (router e, in_kernel e)) t). snd p}" for t
    by (force simp: flagged_def)
  assume "map (\<lambda>e. (router e, in_kernel e)) t = map (\<lambda>e. (router e, in_kernel e)) t'"
  then show ?thesis by (simp only: f)
qed

lemma in_flagged: "a \<in> flagged t \<longleftrightarrow> (\<exists>e \<in> set t. router e = a \<and> in_kernel e)"
  by (auto simp: flagged_def)

lemma in_flagged_reflag: "a \<in> flagged (reflag P t) \<longleftrightarrow> (\<exists>e \<in> set t. router e = a \<and> P e)"
  by (simp add: in_flagged reflag_def)

lemma flagged_add: "flagged (reflag (\<lambda>e. in_kernel e \<or> Q e) t) = flagged t \<union> router ` {e \<in> set t. Q e \<and> \<not> in_kernel e}"
proof (rule set_eqI)
  fix a
  have "a \<in> router ` {e \<in> set t. Q e \<and> \<not> in_kernel e} \<longleftrightarrow> (\<exists>e \<in> set t. router e = a \<and> Q e \<and> \<not> in_kernel e)" by blast
  then show "a \<in> flagged (reflag (\<lambda>e. in_kernel e \<or> Q e) t) \<longleftrightarrow> a \<in> flagged t \<union> router ` {e \<in> set t. Q e \<and> \<not> in_kernel e}"
    unfolding in_flagged_reflag Un_iff in_flagged [of a t] by blast
qed

lemma same_router: "distinct (map router t) \<Longrightarrow> d \<in> set t \<Longrightarrow> e \<in> set t \<Longrightarrow> router d = router e \<Longrightarrow> d = e"
  by (simp add: distinct_map inj_on_def)

lemma flagged_del:
  assumes "distinct (map router t)"
  shows "flagged (reflag (\<lambda>e. in_kernel e \<and> \<not> Q e) t) = flagged t - router ` {e \<in> set t. Q e \<and> in_kernel e}"
proof (rule set_eqI)
  fix a
  have "a \<in> router ` {e \<in> set t. Q e \<and> in_kernel e} \<longleftrightarrow> (\<exists>e \<in> set t. router e = a \<and> Q e \<and> in_kernel e)" by blast
  moreover have "(\<exists>e \<in> set t. router e = a \<and> in_kernel e \<and> \<not> Q e) \<longleftrightarrow>
    (\<exists>e \<in> set t. router e = a \<and> in_kernel e) \<and> \<not> (\<exists>e \<in> set t. router e = a \<and> Q e \<and> in_kernel e)" (is "?l \<longleftrightarrow> ?r")
  proof
    assume ?l
    then obtain e where e: "e \<in> set t" "router e = a" "in_kernel e" "\<not> Q e" by blast
    have "\<not> Q d" if "d \<in> set t" "router d = a" for d using same_router [OF assms that(1) e(1)] that(2) e by simp
    with e show ?r by blast
  qed blast
  ultimately show "a \<in> flagged (reflag (\<lambda>e. in_kernel e \<and> \<not> Q e) t) \<longleftrightarrow> a \<in> flagged t - router ` {e \<in> set t. Q e \<and> in_kernel e}"
    unfolding in_flagged_reflag Diff_iff in_flagged [of a t] by simp
qed

section \<open>The operations on flags and requests\<close>

lemma synced_add_routes:
  assumes "all_done K" "synced R (t, L)"
  shows "synced R (add_routes K m t L)"
  unfolding add_routes_eq by (rule synced_adds [OF assms]) (simp add: flagged_add)

lemma synced_drop_routes:
  assumes "all_done K" "synced R (t, L)" "distinct (map router t)"
  shows "synced R (drop_routes K m t L)"
  unfolding drop_routes_eq by (rule synced_dels [OF assms(1,2)]) (simp add: flagged_del [OF assms(3)])

lemma set_flag_eq:
  assumes "distinct (map router t)"
  shows "set_router a (in_kernel_update (\<lambda>_. b)) t = reflag (\<lambda>e. if router e = a then b else in_kernel e) t"
  unfolding set_router_map [OF assms] reflag_def by (rule map_cong) (auto intro: flag_same)

lemma flagged_set:
  assumes "distinct (map router t)" "find_router a t = Some e"
  shows "flagged (set_router a (in_kernel_update (\<lambda>_. b)) t) = (if b then insert a (flagged t) else flagged t - {a})"
proof (rule set_eqI)
  fix x
  note e = find_router_Some [OF assms(2)]
  show "x \<in> flagged (set_router a (in_kernel_update (\<lambda>_. b)) t) \<longleftrightarrow> x \<in> (if b then insert a (flagged t) else flagged t - {a})"
    unfolding set_flag_eq [OF assms(1)] in_flagged_reflag using e by (cases "x = a"; cases b) (auto simp: in_flagged)
qed

lemma record_add_eq:
  assumes d: "distinct (map router t)"
  shows "fst (record_add K best a (t, L)) = reflag (\<lambda>e. in_kernel e \<or> router e = a \<and> wanted best t e) t"
proof (cases "find_router a t")
  case None
  then have "a \<notin> router ` set t" by (simp add: find_router_None)
  then have "reflag (\<lambda>e. in_kernel e \<or> router e = a \<and> wanted best t e) t = t" by (intro reflag_same) auto
  with None show ?thesis by (simp add: record_add_def)
next
  case (Some e)
  note u = find_router_unique [OF Some d]
  show ?thesis
  proof (cases "wanted best t e \<and> \<not> in_kernel e")
    case True
    have "reflag (\<lambda>x. if router x = a then True else in_kernel x) t = reflag (\<lambda>e. in_kernel e \<or> router e = a \<and> wanted best t e) t"
      by (rule reflag_cong) (use u True in auto)
    then show ?thesis using True Some by (simp add: record_add_def wanted_def set_flag_eq [OF d])
  next
    case False
    then have "reflag (\<lambda>e. in_kernel e \<or> router e = a \<and> wanted best t e) t = t" by (intro reflag_same) (use u in auto)
    then show ?thesis using Some False by (auto simp: record_add_def wanted_def)
  qed
qed

lemma record_del_eq:
  assumes d: "distinct (map router t)"
  shows "fst (record_del K a (t, L)) = reflag (\<lambda>e. in_kernel e \<and> \<not> (router e = a \<and> rpref e = INELIGIBLE_PREF)) t"
proof (cases "find_router a t")
  case None
  then have "a \<notin> router ` set t" by (simp add: find_router_None)
  then have "reflag (\<lambda>e. in_kernel e \<and> \<not> (router e = a \<and> rpref e = INELIGIBLE_PREF)) t = t" by (intro reflag_same) auto
  with None show ?thesis by (simp add: record_del_def)
next
  case (Some e)
  note u = find_router_unique [OF Some d]
  show ?thesis
  proof (cases "rpref e = INELIGIBLE_PREF \<and> in_kernel e")
    case True
    have "reflag (\<lambda>x. if router x = a then False else in_kernel x) t
        = reflag (\<lambda>e. in_kernel e \<and> \<not> (router e = a \<and> rpref e = INELIGIBLE_PREF)) t"
      by (rule reflag_cong) (use u True in auto)
    then show ?thesis using True Some by (simp add: record_del_def set_flag_eq [OF d])
  next
    case False
    then have "reflag (\<lambda>e. in_kernel e \<and> \<not> (router e = a \<and> rpref e = INELIGIBLE_PREF)) t = t"
      by (intro reflag_same) (use u in auto)
    then show ?thesis using Some False by (auto simp: record_del_def)
  qed
qed

lemma synced_record_add:
  assumes "all_done K" "synced R (t, L)" "distinct (map router t)"
  shows "synced R (record_add K best a (t, L))"
proof -
  have "synced R (set_router a (in_kernel_update (\<lambda>_. True)) t, requests K SIOCADDRT [a] L)" if "find_router a t = Some e" for e
    by (rule synced_adds [OF assms(1,2)]) (simp add: flagged_set [OF assms(3) that])
  then show ?thesis using assms(2) by (auto simp: record_add_def add_route_def split: option.splits)
qed

lemma synced_record_del:
  assumes "all_done K" "synced R (t, L)" "distinct (map router t)"
  shows "synced R (record_del K a (t, L))"
proof -
  have "synced R (set_router a (in_kernel_update (\<lambda>_. False)) t, requests K SIOCDELRT [a] L)" if "find_router a t = Some e" for e
    by (rule synced_dels [OF assms(1,2)]) (simp add: flagged_set [OF assms(3) that])
  then show ?thesis using assms(2) by (auto simp: record_del_def del_route_def split: option.splits)
qed

section \<open>Recording a router\<close>

text \<open>The flags the second half of \<^verbatim>\<open>record_router\<close> computes.\<close>

definition new_flag :: "bool \<Rightarrow> ip \<Rightarrow> bool \<Rightarrow> bool \<Rightarrow> rentry list \<Rightarrow> rentry \<Rightarrow> bool" where
  "new_flag best a up down t e \<longleftrightarrow>
    ((in_kernel e \<or> router e = a \<and> wanted best t e) \<and> \<not> (router e = a \<and> rpref e = INELIGIBLE_PREF)
      \<or> best \<and> down \<and> max_preference t \<noteq> INELIGIBLE_PREF \<and> rpref e = max_preference t)
    \<and> \<not> (best \<and> (up \<or> down) \<and> rpref e < max_preference t)"

lemma record_routes_step:
  assumes d: "distinct (map router t)"
  shows "fst (record_routes K best a up down (t, L)) = reflag (new_flag best a up down t) t" (is ?flags)
    and "all_done K \<Longrightarrow> synced R (t, L) \<Longrightarrow> synced R (record_routes K best a up down (t, L))"
proof -
  obtain t1 L1 where 1: "record_add K best a (t, L) = (t1, L1)" by fastforce
  then have t1: "t1 = reflag (\<lambda>e. in_kernel e \<or> router e = a \<and> wanted best t e) t" using record_add_eq [OF d, of K best a L] by simp
  then have d1: "distinct (map router t1)" using d by simp
  obtain t2 L2 where 2: "record_del K a (t1, L1) = (t2, L2)" by fastforce
  then have t2: "t2 = reflag (\<lambda>e. in_kernel e \<and> \<not> (router e = a \<and> rpref e = INELIGIBLE_PREF)) t1"
    using record_del_eq [OF d1, of K a L1] by simp
  obtain t3 L3 where 3: "record_down K best down (t2, L2) = (t3, L3)" by fastforce
  have t3: "t3 = reflag (\<lambda>e. in_kernel e \<or> best \<and> down \<and> max_preference t \<noteq> INELIGIBLE_PREF \<and> rpref e = max_preference t) t2"
    using 3 t2 t1 by (auto simp: record_down_def add_routes_eq split: if_splits intro: reflag_same [symmetric])
  have d3: "distinct (map router t3)" using t3 t2 d1 by simp
  have 4: "record_routes K best a up down (t, L) = record_drop K best (up \<or> down) (t3, L3)"
    by (simp add: record_routes_def 1 2 3)
  have m: "max_preference t3 = max_preference t" by (simp add: t3 t2 t1)
  have "fst (record_drop K best (up \<or> down) (t3, L3)) = reflag (\<lambda>e. in_kernel e \<and> \<not> (best \<and> (up \<or> down) \<and> rpref e < max_preference t)) t3"
    using m by (auto simp: record_drop_def drop_routes_eq intro: reflag_same [symmetric] reflag_cong)
  then show ?flags unfolding 4 t3 t2 t1 reflag_reflag by (simp add: new_flag_def [abs_def])
  assume K: "all_done K" and "synced R (t, L)"
  then have "synced R (t1, L1)" using synced_record_add [OF K _ d, of R L best a] 1 by simp
  then have "synced R (t2, L2)" using synced_record_del [OF K _ d1, of R L1 a] 2 by simp
  then have "synced R (t3, L3)" using synced_add_routes [OF K, of R t2 L2 "max_preference t2"] 3
    by (simp add: record_down_def split: if_splits)
  then show "synced R (record_routes K best a up down (t, L))"
    unfolding 4 using synced_drop_routes [OF K _ d3, of R L3] by (simp add: record_drop_def)
qed

lemma flag_logic:
  fixes r m m' i :: int
  assumes "r \<le> m'" "i \<le> m'" and "own \<or> k = (r \<noteq> i \<and> (best \<longrightarrow> r = m)) \<and> r \<le> m" and "up \<longrightarrow> m \<le> m'"
    and "up \<or> down \<or> m' = m" and "own \<and> best \<and> \<not> up \<and> \<not> down \<and> k \<longrightarrow> r = m'"
    and "w = (r \<noteq> i \<and> (best \<longrightarrow> r = m'))"
  shows "(((k \<or> own \<and> w) \<and> \<not> (own \<and> r = i) \<or> best \<and> down \<and> m' \<noteq> i \<and> r = m') \<and> \<not> (best \<and> (up \<or> down) \<and> r < m')) = w"
proof (cases best)
  case False
  then show ?thesis using assms by auto
next
  case best: True
  have w: "w = (r \<noteq> i \<and> r = m')" using assms(7) best by simp
  show ?thesis
  proof (cases "up \<or> down")
    case True
    show ?thesis
    proof (cases "r = m'")
      case r: True
      show ?thesis
      proof (cases "own \<or> down")
        case True
        then show ?thesis using w r best assms(3) by auto
      next
        case False
        then have "k = (r \<noteq> i \<and> r = m)" "r \<le> m" "m \<le> m'" using True best assms(3,4) by auto
        then show ?thesis using False w r best by auto
      qed
    next
      case False
      then show ?thesis using assms(1) True best w by auto
    qed
  next
    case False
    then show ?thesis using w best assms(3,5,6) by auto
  qed
qed

lemma new_flag_wanted:
  assumes "e \<in> set t'"
    and "router e \<noteq> a \<Longrightarrow> in_kernel e = (rpref e \<noteq> INELIGIBLE_PREF \<and> (best \<longrightarrow> rpref e = m)) \<and> rpref e \<le> m"
    and "up \<Longrightarrow> m \<le> max_preference t'" and "\<not> up \<Longrightarrow> \<not> down \<Longrightarrow> max_preference t' = m"
    and "router e = a \<Longrightarrow> best \<Longrightarrow> \<not> up \<Longrightarrow> \<not> down \<Longrightarrow> in_kernel e \<Longrightarrow> rpref e = max_preference t'"
  shows "new_flag best a up down t' e = wanted best t' e"
  unfolding new_flag_def
  by (rule flag_logic [where m = m]) (use assms rpref_le_max [OF assms(1)] ineligible_le_max [of t'] in \<open>blast | simp add: wanted_def\<close>)+

lemma max_after_update:
  fixes p ttl :: int
  assumes d: "distinct (map router t)" and e: "find_router a t = Some e" and p: "INELIGIBLE_PREF \<le> p"
    and down: "down = (p < rpref e \<and> rpref e = max_preference t)" and up: "up = (\<not> down \<and> rpref e < p)"
    and t': "t' = set_router a (\<lambda>e. e\<lparr>rpref := p, remaining_time := ttl\<rparr>) t"
  shows "up \<Longrightarrow> max_preference t \<le> max_preference t'" and "\<not> up \<Longrightarrow> \<not> down \<Longrightarrow> max_preference t' = max_preference t"
proof -
  let ?f = "\<lambda>x. if router x = a then x\<lparr>rpref := p, remaining_time := ttl\<rparr> else x"
  have t': "t' = map ?f t" unfolding t' by (rule set_router_map [OF d])
  note u = find_router_unique [OF e d] and e1 = find_router_Some [OF e]
  have le: "rpref (?f x) \<le> max_preference t'" if "x \<in> set t" for x
    by (rule rpref_le_max) (use that in \<open>simp add: t'\<close>)
  { assume up
    have "rpref x \<le> max_preference t'" if "x \<in> set t" for x
      using le [OF that] u [OF that] \<open>up\<close> up by (cases "router x = a") auto
    then show "max_preference t \<le> max_preference t'" by (simp add: max_preference_le ineligible_le_max) }
  { assume n: "\<not> up" "\<not> down"
    then have pe: "p \<le> rpref e" "rpref e = max_preference t \<Longrightarrow> p = rpref e" using up down by auto
    show "max_preference t' = max_preference t"
    proof (rule max_preference_eqI [OF ineligible_le_max])
      show "\<forall>x \<in> set t'. rpref x \<le> max_preference t"
        using rpref_le_max [of _ t] e1 pe(1) by (auto simp: t' intro: order_trans)
      show "max_preference t = INELIGIBLE_PREF \<or> (\<exists>x \<in> set t'. rpref x = max_preference t)"
        using max_preference_attained [of t]
      proof
        assume "\<exists>x \<in> set t. rpref x = max_preference t"
        then obtain x where x: "x \<in> set t" "rpref x = max_preference t" by blast
        have "rpref (?f x) = max_preference t" using x u [OF x(1)] pe(2) by auto
        then show ?thesis using x(1) by (auto simp: t')
      qed simp
    qed }
qed

lemma record_new_flags:
  fixes p ttl :: int
  assumes ok: "flags_ok best t" and a: "a \<notin> router ` set t" and p: "INELIGIBLE_PREF \<le> p"
  defines "n \<equiv> \<lparr>router = a, rpref = p, remaining_time = ttl, in_kernel = False\<rparr>"
  shows "flags_ok best (fst (record_routes K best a (p > max_preference t) False (n # t, L)))"
proof -
  have d: "distinct (map router (n # t))" and k: "\<And>e. e \<in> set t \<Longrightarrow> in_kernel e = wanted best t e"
    using ok a by (force simp: flags_ok_def n_def)+
  have m: "max_preference (n # t) = max p (max_preference t)"
  proof (rule max_preference_eqI)
    show "INELIGIBLE_PREF \<le> max p (max_preference t)" using p by simp
    have "rpref x \<le> max p (max_preference t)" if "x \<in> set t" for x using rpref_le_max [OF that] by simp
    then show "\<forall>x \<in> set (n # t). rpref x \<le> max p (max_preference t)" by (simp add: n_def)
    show "max p (max_preference t) = INELIGIBLE_PREF \<or> (\<exists>x \<in> set (n # t). rpref x = max p (max_preference t))"
      using max_preference_attained [of t] p by (cases "p \<ge> max_preference t") (auto simp: n_def)
  qed
  have x: "x = n \<or> x \<in> set t \<and> router x \<noteq> a" if "x \<in> set (n # t)" for x using that a by auto
  show ?thesis unfolding record_routes_step(1) [OF d]
  proof (rule flags_ok_reflag [OF d])
    fix e assume e: "e \<in> set (n # t)"
    show "new_flag best a (p > max_preference t) False (n # t) e = wanted best (n # t) e"
    proof (rule new_flag_wanted [OF e, where m = "max_preference t"])
      show "in_kernel e = (rpref e \<noteq> INELIGIBLE_PREF \<and> (best \<longrightarrow> rpref e = max_preference t)) \<and> rpref e \<le> max_preference t"
        if "router e \<noteq> a" using x [OF e] that k [of e] rpref_le_max [of e t] by (auto simp: wanted_def n_def)
      show "rpref e = max_preference (n # t)" if "router e = a" "in_kernel e" using x [OF e] that by (auto simp: n_def)
    qed (simp_all add: m)
  qed
qed

lemma routers_set_router: "(\<And>e. router (f e) = router e) \<Longrightarrow> map router (set_router a f t) = map router t"
  unfolding set_router_def by (rule map_upd_first) simp

lemma record_known_flags:
  fixes p ttl :: int
  assumes ok: "flags_ok best t" and e: "find_router a t = Some e" and p: "INELIGIBLE_PREF \<le> p"
  defines "t' \<equiv> set_router a (\<lambda>e. e\<lparr>rpref := p, remaining_time := ttl\<rparr>) t"
    and "down \<equiv> (p < rpref e \<and> rpref e = max_preference t)"
  defines "up \<equiv> (\<not> down \<and> rpref e < p)"
  shows "flags_ok best (fst (record_routes K best a up down (t', L)))"
proof -
  have d: "distinct (map router t)" and k: "\<And>e. e \<in> set t \<Longrightarrow> in_kernel e = wanted best t e"
    using ok by (simp_all add: flags_ok_def)
  note mx = max_after_update [OF d e p down_def [THEN meta_eq_to_obj_eq] up_def [THEN meta_eq_to_obj_eq] t'_def [THEN meta_eq_to_obj_eq]]
  note u = find_router_unique [OF e d]
  have t': "t' = map (\<lambda>x. if router x = a then x\<lparr>rpref := p, remaining_time := ttl\<rparr> else x) t"
    unfolding t'_def by (rule set_router_map [OF d])
  have d': "distinct (map router t')" unfolding t'_def using d by (subst routers_set_router) simp_all
  show ?thesis unfolding record_routes_step(1) [OF d']
  proof (rule flags_ok_reflag [OF d'], rule new_flag_wanted [where m = "max_preference t"])
    fix x assume x: "x \<in> set t'"
    then obtain y where y: "y \<in> set t" "x = (if router y = a then y\<lparr>rpref := p, remaining_time := ttl\<rparr> else y)" by (auto simp: t')
    show "in_kernel x = (rpref x \<noteq> INELIGIBLE_PREF \<and> (best \<longrightarrow> rpref x = max_preference t)) \<and> rpref x \<le> max_preference t"
      if "router x \<noteq> a" using that y k [OF y(1)] rpref_le_max [OF y(1)] by (auto simp: wanted_def split: if_splits)
    show "rpref x = max_preference t'" if "router x = a" "best" "\<not> up" "\<not> down" "in_kernel x"
    proof -
      have ye: "y = e" "x = e\<lparr>rpref := p, remaining_time := ttl\<rparr>" using y that(1) u [OF y(1)] by (auto split: if_splits)
      then have "rpref e = max_preference t" using that k [OF y(1)] by (simp add: wanted_def)
      moreover have "p = rpref e" using that(3,4) calculation by (auto simp: up_def down_def)
      ultimately show ?thesis using mx(2) [OF that(3,4)] ye(2) by simp
    qed
  qed (use mx in simp_all)
qed

lemma record_router_flags:
  assumes "flags_ok best (fst T)" "INELIGIBLE_PREF \<le> pref0"
  shows "flags_ok best (fst (record_router K best mem a pref0 ttl T))"
proof -
  obtain t L where T: "T = (t, L)" by fastforce
  have ok: "flags_ok best t" using assms(1) by (simp add: T)
  have p: "INELIGIBLE_PREF \<le> (if ttl < 4 then INELIGIBLE_PREF else pref0)" using assms(2) by simp
  show ?thesis
  proof (cases "find_router a t")
    case None
    then have "a \<notin> router ` set t" by (simp add: find_router_None)
    from record_new_flags [OF ok this p, of K ttl L] None ok show ?thesis by (simp add: record_router_def T Let_def)
  next
    case (Some e)
    from record_known_flags [OF ok Some p, of K ttl L] Some show ?thesis by (simp add: record_router_def T Let_def)
  qed
qed

lemma flagged_set_router:
  assumes "\<And>e. router (f e) = router e" "\<And>e. in_kernel (f e) = in_kernel e"
  shows "flagged (set_router a f t) = flagged t"
proof -
  have "map (\<lambda>e. (router e, in_kernel e)) (set_router a f t) = map (\<lambda>e. (router e, in_kernel e)) t"
    unfolding set_router_def by (rule map_upd_first) (simp add: assms)
  then show ?thesis by (rule flagged_cong)
qed

lemma synced_table_cong: "flagged t = flagged t' \<Longrightarrow> synced R (t, L) = synced R (t', L)"
  by (simp add: synced_def)

lemma record_router_synced:
  assumes "distinct (map router (fst T))" "all_done K" "synced R T"
  shows "synced R (record_router K best mem a pref0 ttl T)"
proof -
  obtain t L where T: "T = (t, L)" by fastforce
  define p where "p = (if ttl < 4 then INELIGIBLE_PREF else pref0)"
  show ?thesis
  proof (cases "find_router a t")
    case None
    let ?n = "\<lparr>router = a, rpref = p, remaining_time = ttl, in_kernel = False\<rparr>"
    have d: "distinct (map router (?n # t))" using assms(1) None by (auto simp: T find_router_None)
    have "flagged t = flagged (?n # t)" by (auto simp: flagged_def)
    then have "synced R (?n # t, L)" using assms(3) unfolding T by (simp only: synced_table_cong [of t])
    from record_routes_step(2) [OF d assms(2) this] None assms(3) show ?thesis
      by (simp add: record_router_def T Let_def p_def [symmetric])
  next
    case (Some e)
    let ?t = "set_router a (\<lambda>e. e\<lparr>rpref := p, remaining_time := ttl\<rparr>) t"
    have d: "distinct (map router ?t)" using assms(1) by (subst routers_set_router) (simp_all add: T)
    have "flagged ?t = flagged t" by (rule flagged_set_router) simp_all
    then have "synced R (?t, L)" using assms(3) unfolding T by (simp only: synced_table_cong [of ?t t])
    from record_routes_step(2) [OF d assms(2) this] Some show ?thesis
      by (simp add: record_router_def T Let_def p_def [symmetric])
  qed
qed

end
