(* ===== verification/Rdisc_Daemon.thy ===== *)
theory Rdisc_Daemon
  imports Rdisc_Routes
begin

text \<open>
  Ageing of the table of routers, and the specification that the table refines: a finite
  map from the address of a router to its preference and the time it has left, from which
  the set of routes is computed.
\<close>

section \<open>Ageing\<close>

lemma age_table_eq:
  "age_table K best tm (t, L) =
    (let t1 = map (\<lambda>e. e\<lparr>remaining_time := remaining_time e - tm\<rparr>) (filter (\<lambda>e. remaining_time e > tm) t);
         L1 = requests K SIOCDELRT (map router (filter (\<lambda>e. remaining_time e \<le> tm \<and> in_kernel e) t)) L
     in if best \<and> (\<exists>e \<in> set t. remaining_time e \<le> tm \<and> rpref e = max_preference t) \<and> max_preference t1 \<noteq> INELIGIBLE_PREF
        then add_routes K (max_preference t1) t1 L1 else (t1, L1))"
  by (simp add: age_table_def age_loop_eq Let_def)

definition aged :: "int \<Rightarrow> rentry list \<Rightarrow> rentry list" where
  "aged tm t = map (\<lambda>e. e\<lparr>remaining_time := remaining_time e - tm\<rparr>) (filter (\<lambda>e. remaining_time e > tm) t)"

definition age_flag :: "bool \<Rightarrow> int \<Rightarrow> rentry list \<Rightarrow> rentry \<Rightarrow> bool" where
  "age_flag best tm t e \<longleftrightarrow> in_kernel e \<or>
    (best \<and> (\<exists>d \<in> set t. remaining_time d \<le> tm \<and> rpref d = max_preference t) \<and> max_preference (aged tm t) \<noteq> INELIGIBLE_PREF)
      \<and> rpref e = max_preference (aged tm t)"

lemma age_table_fst: "fst (age_table K best tm (t, L)) = reflag (age_flag best tm t) (aged tm t)"
  unfolding age_table_eq aged_def [symmetric]
  by (auto simp: Let_def add_routes_eq age_flag_def [abs_def] intro: reflag_same [symmetric])

lemma aged_routers: "distinct (map router t) \<Longrightarrow> distinct (map router (aged tm t))"
  by (simp add: aged_def o_def distinct_map_filter)

lemma aged_mem: "e \<in> set (aged tm t) \<longleftrightarrow> (\<exists>d \<in> set t. remaining_time d > tm \<and> e = d\<lparr>remaining_time := remaining_time d - tm\<rparr>)"
  by (auto simp: aged_def)

lemma bex_aged:
  "(\<exists>e \<in> set (aged tm t). P e) \<longleftrightarrow> (\<exists>d \<in> set t. remaining_time d > tm \<and> P (d\<lparr>remaining_time := remaining_time d - tm\<rparr>))"
  unfolding aged_def by auto

lemma max_aged_le: "max_preference (aged tm t) \<le> max_preference t"
  unfolding max_preference_le [of "aged tm t"] using ineligible_le_max [of t] rpref_le_max [of _ t] by (auto simp: aged_mem)

lemma max_aged_eq:
  assumes "\<not> (\<exists>d \<in> set t. remaining_time d \<le> tm \<and> rpref d = max_preference t)"
  shows "max_preference (aged tm t) = max_preference t"
proof (rule antisym [OF max_aged_le])
  show "max_preference t \<le> max_preference (aged tm t)" using max_preference_attained [of t]
  proof
    assume "\<exists>e \<in> set t. rpref e = max_preference t"
    then obtain e where e: "e \<in> set t" "rpref e = max_preference t" by blast
    then have "e\<lparr>remaining_time := remaining_time e - tm\<rparr> \<in> set (aged tm t)" using assms by (force simp: aged_mem)
    from rpref_le_max [OF this] e(2) show ?thesis by simp
  qed (simp add: ineligible_le_max)
qed

lemma age_table_flags:
  assumes "flags_ok best (fst T)"
  shows "flags_ok best (fst (age_table K best tm T))"
proof -
  obtain t L where T: "T = (t, L)" by fastforce
  have d: "distinct (map router t)" and k: "\<And>e. e \<in> set t \<Longrightarrow> in_kernel e = wanted best t e"
    using assms by (simp_all add: flags_ok_def T)
  show ?thesis unfolding T age_table_fst
  proof (rule flags_ok_reflag [OF aged_routers [OF d]])
    fix e assume e: "e \<in> set (aged tm t)"
    then have ke: "in_kernel e = (rpref e \<noteq> INELIGIBLE_PREF \<and> (best \<longrightarrow> rpref e = max_preference t))"
      using k by (auto simp: aged_mem wanted_def)
    note le = rpref_le_max [OF e] max_aged_le [of tm t] ineligible_le_max [of "aged tm t"]
    show "age_flag best tm t e = wanted best (aged tm t) e"
    proof (cases "best \<and> (\<exists>d \<in> set t. remaining_time d \<le> tm \<and> rpref d = max_preference t)")
      case True
      then have "age_flag best tm t e \<longleftrightarrow> in_kernel e \<or> max_preference (aged tm t) \<noteq> INELIGIBLE_PREF \<and> rpref e = max_preference (aged tm t)"
        by (simp add: age_flag_def)
      then show ?thesis using True ke le by (auto simp: wanted_def)
    next
      case False
      then have "age_flag best tm t e = in_kernel e" by (auto simp: age_flag_def)
      then show ?thesis using False ke max_aged_eq [of t tm] by (auto simp: wanted_def)
    qed
  qed
qed

lemma age_table_synced:
  assumes "distinct (map router (fst T))" "all_done K" "synced R T"
  shows "synced R (age_table K best tm T)"
proof -
  obtain t L where T: "T = (t, L)" by fastforce
  have d: "distinct (map router t)" using assms(1) by (simp add: T)
  let ?L = "requests K SIOCDELRT (map router (filter (\<lambda>e. remaining_time e \<le> tm \<and> in_kernel e) t)) L"
  have "flagged (aged tm t) = flagged (reflag (\<lambda>e. in_kernel e \<and> \<not> remaining_time e \<le> tm) t)"
    by (rule set_eqI) (unfold in_flagged_reflag, unfold in_flagged bex_aged not_le, simp, blast)
  also have "\<dots> = flagged t - set (map router (filter (\<lambda>e. remaining_time e \<le> tm \<and> in_kernel e) t))"
    by (simp add: flagged_del [OF d])
  finally have "synced R (aged tm t, ?L)" using assms(3) unfolding T by (intro synced_dels [OF assms(2)])
  then show ?thesis using synced_add_routes [OF assms(2), of R "aged tm t" ?L]
    unfolding T age_table_eq aged_def [symmetric] by (simp add: Let_def)
qed

lemma discard_table_synced:
  assumes "all_done K" "synced R T"
  shows "synced R (discard_table K T)"
proof -
  obtain t L where T: "T = (t, L)" by fastforce
  have "flagged [] = flagged t - set (map router (filter in_kernel t))" by (auto simp: flagged_def)
  from synced_dels [OF assms(1) _ this] assms(2) show ?thesis by (simp add: T discard_table_def discard_loop_eq)
qed

section \<open>The specification\<close>

type_synonym rview = "ip \<rightharpoonup> int \<times> int"

definition view_of :: "rentry list \<Rightarrow> rview" where
  "view_of t a = map_option (\<lambda>e. (rpref e, remaining_time e)) (find_router a t)"

definition record_view :: "ip \<Rightarrow> int \<Rightarrow> int \<Rightarrow> rview \<Rightarrow> rview" where
  "record_view a p ttl V = V(a \<mapsto> (if ttl < 4 then INELIGIBLE_PREF else p, ttl))"

definition age_view :: "int \<Rightarrow> rview \<Rightarrow> rview" where
  "age_view tm V a = (case V a of None \<Rightarrow> None | Some (p, r) \<Rightarrow> if r > tm then Some (p, r - tm) else None)"

definition best_routes :: "bool \<Rightarrow> rview \<Rightarrow> ip set" where
  "best_routes best V = {a. \<exists>p r. V a = Some (p, r) \<and> p \<noteq> INELIGIBLE_PREF \<and> (best \<longrightarrow> (\<forall>b q s. V b = Some (q, s) \<longrightarrow> q \<le> p))}"

lemma view_of_reflag: "view_of (reflag P t) = view_of t"
  by (rule ext) (simp add: view_of_def find_router_reflag option.map_comp o_def)

lemma find_router_set:
  "distinct (map router t) \<Longrightarrow> (\<And>e. router (f e) = router e) \<Longrightarrow>
    find_router b (set_router a f t) = (if b = a then map_option f (find_router b t) else find_router b t)"
  unfolding set_router_map by (induction t) auto

lemma view_of_mem:
  assumes "distinct (map router t)"
  shows "view_of t a = Some (p, r) \<longleftrightarrow> (\<exists>e \<in> set t. router e = a \<and> rpref e = p \<and> remaining_time e = r)"
proof
  assume "view_of t a = Some (p, r)"
  then show "\<exists>e \<in> set t. router e = a \<and> rpref e = p \<and> remaining_time e = r"
    using find_router_Some [of a t] by (auto simp: view_of_def)
next
  assume "\<exists>e \<in> set t. router e = a \<and> rpref e = p \<and> remaining_time e = r"
  then obtain e where e: "e \<in> set t" "router e = a" "rpref e = p" "remaining_time e = r" by blast
  then obtain d where "find_router a t = Some d" by (cases "find_router a t") (auto simp: find_router_None)
  with find_router_unique [OF this assms e(1,2)] e show "view_of t a = Some (p, r)" by (simp add: view_of_def)
qed

lemma record_routes_view: "distinct (map router t) \<Longrightarrow> view_of (fst (record_routes K best a up down (t, L))) = view_of t"
  by (simp add: record_routes_step(1) view_of_reflag)

lemma record_router_view:
  assumes "distinct (map router (fst T))"
  shows "view_of (fst (record_router K best True a pref ttl T)) = record_view a pref ttl (view_of (fst T))"
proof -
  obtain t L where T: "T = (t, L)" by fastforce
  define p where "p = (if ttl < 4 then INELIGIBLE_PREF else pref)"
  have d: "distinct (map router t)" using assms by (simp add: T)
  show ?thesis
  proof (cases "find_router a t")
    case None
    let ?n = "\<lparr>router = a, rpref = p, remaining_time = ttl, in_kernel = False\<rparr>"
    have "distinct (map router (?n # t))" using d None by (auto simp: find_router_None)
    note r = record_routes_view [OF this]
    have "view_of (?n # t) = record_view a pref ttl (view_of t)"
      by (rule ext) (simp add: view_of_def record_view_def p_def)
    then show ?thesis using None by (simp add: record_router_def T Let_def p_def [symmetric] r)
  next
    case (Some e)
    let ?t = "set_router a (\<lambda>e. e\<lparr>rpref := p, remaining_time := ttl\<rparr>) t"
    have "distinct (map router ?t)" using d by (subst routers_set_router) simp_all
    note r = record_routes_view [OF this]
    have "view_of ?t = record_view a pref ttl (view_of t)"
      by (rule ext) (simp add: view_of_def record_view_def find_router_set [OF d] p_def Some)
    then show ?thesis using Some by (simp add: record_router_def T Let_def p_def [symmetric] r)
  qed
qed

lemma age_table_view:
  assumes "distinct (map router (fst T))"
  shows "view_of (fst (age_table K best tm T)) = age_view tm (view_of (fst T))"
proof -
  obtain t L where T: "T = (t, L)" by fastforce
  have d: "distinct (map router t)" using assms by (simp add: T)
  have "view_of (aged tm t) a = Some (p, r) \<longleftrightarrow> age_view tm (view_of t) a = Some (p, r)" for a p r
  proof -
    have eq: "(tm < remaining_time d \<and> router d = a \<and> rpref d = p \<and> remaining_time d - tm = r)
        = ((router d = a \<and> rpref d = p \<and> remaining_time d = r + tm) \<and> r > 0)" for d by auto
    have "view_of (aged tm t) a = Some (p, r) \<longleftrightarrow>
        (\<exists>d \<in> set t. tm < remaining_time d \<and> router d = a \<and> rpref d = p \<and> remaining_time d - tm = r)"
      unfolding view_of_mem [OF aged_routers [OF d]] bex_aged by simp
    also have "\<dots> \<longleftrightarrow> view_of t a = Some (p, r + tm) \<and> r > 0"
      unfolding view_of_mem [OF d] eq by blast
    also have "\<dots> \<longleftrightarrow> age_view tm (view_of t) a = Some (p, r)"
      by (auto simp: age_view_def split: option.splits if_splits)
    finally show ?thesis .
  qed
  then have "view_of (aged tm t) = age_view tm (view_of t)" by (intro ext option.expand) (metis not_None_eq surj_pair option.sel)+
  then show ?thesis by (simp add: T age_table_fst view_of_reflag)
qed

lemma flagged_best_routes:
  assumes "flags_ok best t" "\<And>a p r. view_of t a = Some (p, r) \<Longrightarrow> INELIGIBLE_PREF \<le> p"
  shows "flagged t = best_routes best (view_of t)"
proof -
  have d: "distinct (map router t)" and k: "\<And>e. e \<in> set t \<Longrightarrow> in_kernel e = wanted best t e"
    using assms(1) by (simp_all add: flags_ok_def)
  have m: "rpref e = max_preference t \<longleftrightarrow> (\<forall>d \<in> set t. rpref d \<le> rpref e)" if "e \<in> set t" "rpref e \<noteq> INELIGIBLE_PREF" for e
  proof
    assume *: "\<forall>d \<in> set t. rpref d \<le> rpref e"
    have "INELIGIBLE_PREF \<le> rpref e" using assms(2) that(1) unfolding view_of_mem [OF d] by blast
    with * that show "rpref e = max_preference t" by (intro max_preference_eqI [symmetric]) auto
  qed (use rpref_le_max in auto)
  show ?thesis
  proof (rule set_eqI)
    fix a
    have "a \<in> best_routes best (view_of t) \<longleftrightarrow>
      (\<exists>e \<in> set t. router e = a \<and> rpref e \<noteq> INELIGIBLE_PREF \<and> (best \<longrightarrow> (\<forall>d \<in> set t. rpref d \<le> rpref e)))"
      unfolding best_routes_def view_of_mem [OF d] by blast
    then show "a \<in> flagged t \<longleftrightarrow> a \<in> best_routes best (view_of t)"
      using k m by (auto simp: in_flagged wanted_def)
  qed
qed

end
