(* ===== verification/Rdisc_Interfaces.thy ===== *)
theory Rdisc_Interfaces
  imports Rdisc_Table
begin

text \<open>
  The network interfaces of \<^verbatim>\<open>rdisc\<close> (\<^verbatim>\<open>initifs\<close>, \<^verbatim>\<open>init\<close>, \<^verbatim>\<open>join\<close>, \<^verbatim>\<open>is_directly_connected\<close>). What
  the \<^verbatim>\<open>ioctl\<close> calls return for a device is a record; \<open>None\<close> stands for a failing call. The array
  comes from \<^verbatim>\<open>malloc\<close> and its initial contents \<open>junk\<close> are a parameter. Addresses are the
  32 bits of \<^verbatim>\<open>s_addr\<close>.
\<close>

record iface =
  if_address :: ip
  if_localaddr :: ip
  if_preference :: int
  if_flags :: u16
  if_bcastaddr :: ip
  if_remoteaddr :: ip
  if_netmask :: ip
  if_index :: u32
  if_name :: string

definition IFF_UP :: u16 where "IFF_UP = 0x1"
definition IFF_BROADCAST :: u16 where "IFF_BROADCAST = 0x2"
definition IFF_LOOPBACK :: u16 where "IFF_LOOPBACK = 0x8"
definition IFF_POINTOPOINT :: u16 where "IFF_POINTOPOINT = 0x10"
definition IFF_MULTICAST :: u16 where "IFF_MULTICAST = 0x1000"
definition AF_INET :: u16 where "AF_INET = 2"
definition IFNAMSIZ :: nat where "IFNAMSIZ = 16"
definition MAXIFS :: nat where "MAXIFS = 32"

lemmas iff_defs = IFF_UP_def IFF_BROADCAST_def IFF_LOOPBACK_def IFF_POINTOPOINT_def IFF_MULTICAST_def AF_INET_def

text \<open>
  The union in \<^verbatim>\<open>struct ifreq\<close>: its members \<^verbatim>\<open>ifr_flags\<close> (a \<^verbatim>\<open>short\<close>), \<^verbatim>\<open>ifr_ifindex\<close> (an \<^verbatim>\<open>int\<close>) and
  \<^verbatim>\<open>ifr_addr\<close> (a socket address, which starts with the 16 bits of its family) share their
  storage. Reading the flags gives the first two bytes of what was written last, on a
  little-endian machine.
\<close>

datatype ifru = Ifr_flags u16 | Ifr_ifindex u32 | Ifr_addr u16 ip

fun ifr_flags :: "ifru \<Rightarrow> u16" where
  "ifr_flags (Ifr_flags f) = f"
| "ifr_flags (Ifr_ifindex i) = ucast i"
| "ifr_flags (Ifr_addr fam a) = fam"

record netdev =
  dev_name :: string
  dev_family :: u16
  dev_addr :: ip
  dev_flags :: "u16 option"
  dev_index :: "u32 option"
  dev_dstaddr :: "ip option"
  dev_netmask :: "ip option"
  dev_brdaddr :: "ip option"

text \<open>
  The end of the body of the loop, with \<open>ifr\<close> the union after \<^verbatim>\<open>SIOCGIFINDEX\<close>. The result is the
  array element and whether the loop moves on to the next element.
\<close>

definition probe_addrs :: "netdev \<Rightarrow> ifru \<Rightarrow> iface \<Rightarrow> iface \<times> bool" where
  "probe_addrs d ifr f =
    (if ifr_flags ifr AND IFF_POINTOPOINT \<noteq> 0
     then (case dev_dstaddr d of
             None \<Rightarrow> (f, False)
           | Some a \<Rightarrow> (f\<lparr>if_address := a, if_remoteaddr := a, if_bcastaddr := a, if_flags := if_flags f OR IFF_BROADCAST\<rparr>, True))
     else (let f1 = f\<lparr>if_address := if_localaddr f, if_remoteaddr := if_localaddr f\<rparr>
           in case dev_netmask d of
                None \<Rightarrow> (f1, False)
              | Some m \<Rightarrow>
                  (let f2 = f1\<lparr>if_netmask := m\<rparr>; ifr' = Ifr_addr AF_INET m
                   in if ifr_flags ifr' AND IFF_BROADCAST \<noteq> 0
                      then (case dev_brdaddr d of
                              None \<Rightarrow> (f2, False)
                            | Some b \<Rightarrow> (f2\<lparr>if_bcastaddr := b\<rparr>, True))
                      else (f2, True))))"

definition usable_dev :: "netdev \<Rightarrow> u16 \<Rightarrow> bool" where
  "usable_dev d fl \<longleftrightarrow> dev_family d = AF_INET \<and> fl AND IFF_UP \<noteq> 0 \<and> fl AND IFF_LOOPBACK = 0
     \<and> fl AND (IFF_MULTICAST OR IFF_BROADCAST OR IFF_POINTOPOINT) \<noteq> 0"

definition probe_dev :: "netdev \<Rightarrow> iface \<Rightarrow> iface \<times> bool" where
  "probe_dev d f =
    (if length (dev_name d) \<ge> IFNAMSIZ then (f, False)
     else case dev_flags d of
       None \<Rightarrow> (f, False)
     | Some fl \<Rightarrow>
         (if \<not> usable_dev d fl then (f, False)
          else (let f1 = f\<lparr>if_name := take (IFNAMSIZ - 1) (dev_name d), if_localaddr := dev_addr d, if_flags := fl, if_netmask := 0xffffffff\<rparr>
                in case dev_index d of
                     None \<Rightarrow> (f1, False)
                   | Some ix \<Rightarrow> probe_addrs d (Ifr_ifindex ix) (f1\<lparr>if_index := ix\<rparr>))))"

text \<open>
  The kernel fills a buffer for \<^verbatim>\<open>MAXIFS\<close> entries, as many as the array has elements, so that the list is never longer; the
  model has no effect for writes beyond the array.
\<close>

fun ifs_loop :: "netdev list \<Rightarrow> nat \<Rightarrow> iface list \<Rightarrow> iface list \<times> nat" where
  "ifs_loop [] i fs = (fs, i)"
| "ifs_loop (d # ds) i fs =
    (let (f, adv) = probe_dev d (fs ! i)
     in ifs_loop ds (if adv then i + 1 else i) (fs[i := f]))"

text \<open>The array is \<open>None\<close> while the pointer is null.\<close>

record ifstate =
  interfaces :: "iface list option"
  num_interfaces :: nat
  interfaces_size :: nat

record ifenv =
  if_sock_ok :: bool
  if_buf_ok :: bool
  if_mem_ok :: bool
  if_junk :: "nat \<Rightarrow> iface"
  if_conf :: "netdev list option"

definition initifs :: "ifenv \<Rightarrow> ifstate \<Rightarrow> ifstate" where
  "initifs E s =
    (if \<not> if_sock_ok E \<or> \<not> if_buf_ok E then s
     else if \<not> if_mem_ok E then s\<lparr>interfaces := None\<rparr>
     else (let fresh = map (if_junk E) [0..<MAXIFS];
               s1 = s\<lparr>interfaces := Some fresh, interfaces_size := MAXIFS\<rparr>
           in case if_conf E of
                None \<Rightarrow> s1
              | Some ds \<Rightarrow> (let (fs, n) = ifs_loop ds 0 fresh in s1\<lparr>interfaces := Some fs, num_interfaces := n\<rparr>)))"

text \<open>\<^verbatim>\<open>init\<close> sets the preference of all elements; \<open>None\<close> is an access through the null pointer.\<close>

definition init_ifs :: "ifenv \<Rightarrow> int \<Rightarrow> ifstate \<Rightarrow> ifstate option" where
  "init_ifs E pref s =
    (let s1 = initifs E s
     in case interfaces s1 of
          Some fs \<Rightarrow> (if interfaces_size s1 \<le> length fs
                     then Some (s1\<lparr>interfaces := Some (map (if_preference_update (\<lambda>_. pref)) (take (interfaces_size s1) fs) @ drop (interfaces_size s1) fs)\<rparr>)
                     else None)
        | None \<Rightarrow> (if interfaces_size s1 = 0 then Some s1 else None))"

text \<open>The interfaces that the loops up to \<^verbatim>\<open>num_interfaces\<close> read.\<close>

definition visible_ifs :: "ifstate \<Rightarrow> iface list option" where
  "visible_ifs s = (case interfaces s of
      None \<Rightarrow> if num_interfaces s = 0 then Some [] else None
    | Some fs \<Rightarrow> if num_interfaces s \<le> length fs then Some (take (num_interfaces s) fs) else None)"

fun is_directly_connected :: "ip \<Rightarrow> iface list \<Rightarrow> bool" where
  "is_directly_connected a [] = False"
| "is_directly_connected a (f # fs) =
    (if a AND if_netmask f = if_remoteaddr f AND if_netmask f then True else is_directly_connected a fs)"

text \<open>
  \<^verbatim>\<open>join\<close> for an address that is not the broadcast address. \<open>ok\<close> gives the outcome of the call for
  element \<open>i\<close>; the result is the list of joined indices, and whether all calls succeeded.
\<close>

fun join_loop :: "(nat \<Rightarrow> bool) \<Rightarrow> nat \<Rightarrow> u32 list \<Rightarrow> iface list \<Rightarrow> u32 list \<times> bool" where
  "join_loop ok i joined [] = (joined, True)"
| "join_loop ok i joined (f # fs) =
    (if if_index f \<in> set joined then join_loop ok (i + 1) (joined @ [0]) fs
     else if \<not> ok i then (joined, False)
     else join_loop ok (i + 1) (joined @ [if_index f]) fs)"

definition INADDR_BROADCAST :: ip where "INADDR_BROADCAST = 0xffffffff"

definition join :: "(nat \<Rightarrow> bool) \<Rightarrow> ip \<Rightarrow> iface list \<Rightarrow> u32 list \<times> bool" where
  "join ok a fs = (if a = INADDR_BROADCAST then ([], True) else join_loop ok 0 [] fs)"

end
