(* ===== verification/Rdisc_Packets.thy ===== *)
theory Rdisc_Packets
  imports Rdisc_Interfaces Ping_Checksum
begin

text \<open>
  The messages of router discovery (\<^verbatim>\<open>solicitor\<close>, \<^verbatim>\<open>advertise\<close> and the functions that send), as
  bytes of a little-endian machine. Every datagram that is passed to \<^verbatim>\<open>sendto\<close> is an element
  of a list; \<open>N i\<close> says for element \<open>i\<close> of the array of interfaces whether selecting the
  multicast interface succeeds and what \<^verbatim>\<open>sendto\<close> returns.
\<close>

section \<open>Bytes\<close>

definition le32_bytes :: "u32 \<Rightarrow> octet list" where
  "le32_bytes w = [ucast w, ucast (drop_bit 8 w), ucast (drop_bit 16 w), ucast (drop_bit 24 w)]"

definition be32_bytes :: "u32 \<Rightarrow> octet list" where
  "be32_bytes w = [ucast (drop_bit 24 w), ucast (drop_bit 16 w), ucast (drop_bit 8 w), ucast w]"

definition be16_bytes :: "u16 \<Rightarrow> octet list" where
  "be16_bytes w = [ucast (drop_bit 8 w), ucast w]"

definition le16_bytes :: "u16 \<Rightarrow> octet list" where
  "le16_bytes w = [ucast w, ucast (drop_bit 8 w)]"

fun le_value :: "octet list \<Rightarrow> int" where
  "le_value [] = 0"
| "le_value (b # bs) = uint b + 256 * le_value bs"

definition be_value :: "octet list \<Rightarrow> int" where
  "be_value bs = le_value (rev bs)"

definition ntohl :: "u32 \<Rightarrow> u32" where
  "ntohl w = word_of_int (be_value (le32_bytes w))"

section \<open>Checksum\<close>

definition rd_cksum :: "octet list \<Rightarrow> u16" where
  "rd_cksum bs =
    (let s = cksum_sum bs 0;
         s1 = s div 65536 + s mod 65536;
         s2 = s1 + s1 div 65536
     in NOT (word_of_int s2))"

lemma rd_cksum_eq: "rd_cksum bs = in_cksum bs 0"
  by (simp add: rd_cksum_def in_cksum_def)

section \<open>Sending\<close>

record dgram =
  dg_to :: ip
  dg_via :: "u32 option"
  dg_bytes :: "octet list"

type_synonym net_outcomes = "nat \<Rightarrow> bool \<times> int"

definition isbroadcast :: "ip \<Rightarrow> bool" where
  "isbroadcast a \<longleftrightarrow> a = INADDR_BROADCAST"

definition IN_CLASSD :: "u32 \<Rightarrow> bool" where
  "IN_CLASSD a \<longleftrightarrow> a AND 0xf0000000 = 0xe0000000"

definition ismulticast :: "ip \<Rightarrow> bool" where
  "ismulticast a \<longleftrightarrow> IN_CLASSD (ntohl a)"

definition sendbcastif :: "int \<Rightarrow> octet list \<Rightarrow> iface \<Rightarrow> dgram list \<times> int" where
  "sendbcastif cc pk f = ([\<lparr>dg_to = if_bcastaddr f, dg_via = None, dg_bytes = pk\<rparr>], cc)"

definition sendmcastif :: "bool \<times> int \<Rightarrow> octet list \<Rightarrow> ip \<Rightarrow> iface \<Rightarrow> dgram list \<times> int" where
  "sendmcastif n pk a f =
    (if \<not> fst n then ([], -1) else ([\<lparr>dg_to = a, dg_via = Some (if_index f), dg_bytes = pk\<rparr>], snd n))"

fun sendbcast :: "net_outcomes \<Rightarrow> nat \<Rightarrow> octet list \<Rightarrow> iface list \<Rightarrow> dgram list \<times> int" where
  "sendbcast N i pk [] = ([], int (length pk))"
| "sendbcast N i pk (f # fs) =
    (if if_flags f AND (IFF_BROADCAST OR IFF_POINTOPOINT) = 0 then sendbcast N (i + 1) pk fs
     else (let (d, cc) = sendbcastif (snd (N i)) pk f
           in if cc \<noteq> int (length pk) then (d, cc)
              else (let (ds, r) = sendbcast N (i + 1) pk fs in (d @ ds, r))))"

fun sendmcast :: "net_outcomes \<Rightarrow> nat \<Rightarrow> octet list \<Rightarrow> ip \<Rightarrow> iface list \<Rightarrow> dgram list \<times> int" where
  "sendmcast N i pk a [] = ([], int (length pk))"
| "sendmcast N i pk a (f # fs) =
    (if if_flags f AND (IFF_BROADCAST OR IFF_POINTOPOINT OR IFF_MULTICAST) = 0 then sendmcast N (i + 1) pk a fs
     else (let (d, cc) = sendmcastif (N i) pk a f
           in if cc \<noteq> int (length pk) then (d, cc)
              else (let (ds, r) = sendmcast N (i + 1) pk a fs in (d @ ds, r))))"

section \<open>The messages\<close>

definition ICMP_ROUTER_ADVERTISEMENT :: octet where "ICMP_ROUTER_ADVERTISEMENT = 9"
definition ICMP_ROUTER_SOLICITATION :: octet where "ICMP_ROUTER_SOLICITATION = 10"
definition ICMP_MINLEN :: nat where "ICMP_MINLEN = 8"

definition solicitation :: "octet list" where
  "solicitation =
    (let pk = (\<lambda>ck. [ICMP_ROUTER_SOLICITATION, 0] @ le16_bytes ck @ [0, 0, 0, 0]) in pk (rd_cksum (pk 0)))"

definition solicitor :: "net_outcomes \<Rightarrow> iface list \<Rightarrow> ip \<Rightarrow> dgram list" where
  "solicitor N fs a =
    (if isbroadcast a then fst (sendbcast N 0 solicitation fs)
     else if ismulticast a then fst (sendmcast N 0 solicitation a fs)
     else [\<lparr>dg_to = a, dg_via = None, dg_bytes = solicitation\<rparr>])"

text \<open>The advertisement of one interface with lifetime \<open>lft\<close>.\<close>

definition advertisement :: "int \<Rightarrow> iface \<Rightarrow> octet list" where
  "advertisement lft f =
    (let pk = (\<lambda>ck. [ICMP_ROUTER_ADVERTISEMENT, 0] @ le16_bytes ck @ [1, 2] @ be16_bytes (word_of_int lft)
                 @ le32_bytes (if_localaddr f) @ be32_bytes (word_of_int (if_preference f)))
     in pk (rd_cksum (pk 0)))"

definition advertise_if :: "net_outcomes \<Rightarrow> ip \<Rightarrow> int \<Rightarrow> nat \<Rightarrow> iface \<Rightarrow> dgram list" where
  "advertise_if N a lft i f =
    (if isbroadcast a then fst (sendbcastif (snd (N i)) (advertisement lft f) f)
     else if ismulticast a then fst (sendmcastif (N i) (advertisement lft f) a f)
     else if a AND if_netmask f = if_address f AND if_netmask f
       then [\<lparr>dg_to = a, dg_via = None, dg_bytes = advertisement lft f\<rparr>]
     else [])"

fun advertise :: "net_outcomes \<Rightarrow> ip \<Rightarrow> int \<Rightarrow> nat \<Rightarrow> iface list \<Rightarrow> dgram list" where
  "advertise N a lft i [] = []"
| "advertise N a lft i (f # fs) = advertise_if N a lft i f @ advertise N a lft (i + 1) fs"

end
