(* ===== verification/Rdisc_Main.thy ===== *)
theory Rdisc_Main
  imports Rdisc_Packets
begin

text \<open>
  The daemon \<^verbatim>\<open>rdisc\<close> itself: received packets, the timer, the signals and the start, compiled
  with support for both sides of the protocol (without \<^verbatim>\<open>RDISC_SERVER\<close> the responder flag is
  never set). The main loop is a machine whose events are packets and signals; a handler is
  taken as one step. An access outside of a packet or through a null pointer makes the
  state a fault.
\<close>

section \<open>State\<close>

datatype rd_status = Rd_running | Rd_exit int | Rd_fault

record rdisc =
  rd_rt :: rtable
  rd_ifs :: ifstate
  rd_whereto :: ip
  rd_trace :: bool
  rd_solicit :: bool
  rd_forever :: bool
  rd_responder :: bool
  rd_best :: bool
  rd_ntransmitted :: int
  rd_nreceived :: int
  rd_max_adv_int :: int
  rd_min_adv_int :: int
  rd_lifetime :: int
  rd_preference :: int
  left_until_advertise :: int
  left_until_getifconf :: int
  left_until_solicit :: int
  rd_background :: bool
  rd_sent :: "dgram list"
  rd_status :: rd_status

definition TIMER_INTERVAL :: int where "TIMER_INTERVAL = 3"
definition GETIFCONF_TIMER :: int where "GETIFCONF_TIMER = 30"
definition MAX_INITIAL_ADVERT_INTERVAL :: int where "MAX_INITIAL_ADVERT_INTERVAL = 16"
definition MAX_INITIAL_ADVERTISEMENTS :: int where "MAX_INITIAL_ADVERTISEMENTS = 3"
definition MAX_SOLICITATIONS :: int where "MAX_SOLICITATIONS = 3"
definition SOLICITATION_INTERVAL :: int where "SOLICITATION_INTERVAL = 3"
definition MAX_ADV_INT :: int where "MAX_ADV_INT = 600"

lemmas rd_consts = TIMER_INTERVAL_def GETIFCONF_TIMER_def MAX_INITIAL_ADVERT_INTERVAL_def
  MAX_INITIAL_ADVERTISEMENTS_def MAX_SOLICITATIONS_def SOLICITATION_INTERVAL_def MAX_ADV_INT_def

text \<open>What the system answers during one step.\<close>

datatype fork_outcome = Sysconf_fails | Fork_fails | Fork_done

record renv =
  ev_mem :: "nat \<Rightarrow> bool"
  ev_net :: net_outcomes
  ev_random :: int
  ev_fork :: fork_outcome

definition rd_exit :: "int \<Rightarrow> rdisc \<Rightarrow> rdisc" where
  "rd_exit c s = s\<lparr>rd_status := Rd_exit c\<rparr>"

definition rd_fault :: "rdisc \<Rightarrow> rdisc" where
  "rd_fault s = s\<lparr>rd_status := Rd_fault\<rparr>"

text \<open>\<^verbatim>\<open>do_fork\<close>: after a fork the model follows the child. A failing fork also ends the process.\<close>

definition do_fork :: "fork_outcome \<Rightarrow> rdisc \<Rightarrow> rdisc" where
  "do_fork fk s = (if rd_trace s then s else case fk of
      Sysconf_fails \<Rightarrow> rd_exit 1 s
    | Fork_fails \<Rightarrow> rd_exit 0 s
    | Fork_done \<Rightarrow> s\<lparr>rd_background := True\<rparr>)"

definition rd_advertise :: "renv \<Rightarrow> ip \<Rightarrow> int \<Rightarrow> rdisc \<Rightarrow> rdisc" where
  "rd_advertise E a lft s = (case visible_ifs (rd_ifs s) of
      None \<Rightarrow> rd_fault s
    | Some fs \<Rightarrow> s\<lparr>rd_sent := rd_sent s @ advertise (ev_net E) a lft 0 fs\<rparr>)"

definition rd_solicitor :: "renv \<Rightarrow> ip \<Rightarrow> rdisc \<Rightarrow> rdisc" where
  "rd_solicitor E a s = (case visible_ifs (rd_ifs s) of
      None \<Rightarrow> (if isbroadcast a \<or> ismulticast a then rd_fault s
               else s\<lparr>rd_sent := rd_sent s @ solicitor (ev_net E) [] a\<rparr>)
    | Some fs \<Rightarrow> s\<lparr>rd_sent := rd_sent s @ solicitor (ev_net E) fs a\<rparr>)"

definition next_advert :: "renv \<Rightarrow> rdisc \<Rightarrow> int" where
  "next_advert E s = rd_min_adv_int s + c_div ((rd_max_adv_int s - rd_min_adv_int s) * c_mod (ev_random E) 1000) 1000"

section \<open>Received packets\<close>

definition rd_bytes :: "nat \<Rightarrow> nat \<Rightarrow> octet list \<Rightarrow> octet list option" where
  "rd_bytes k n bs = (if k + n \<le> length bs then Some (take n (drop k bs)) else None)"

definition ra_entry :: "nat \<Rightarrow> nat \<Rightarrow> octet list \<Rightarrow> (ip \<times> int) option" where
  "ra_entry wpa i icmp = (case (rd_bytes (8 + i * wpa * 4) 4 icmp, rd_bytes (8 + i * wpa * 4 + 4) 4 icmp) of
      (Some ab, Some pb) \<Rightarrow> Some (word_of_int (le_value ab), sint (word_of_int (be_value pb) :: u32))
    | _ \<Rightarrow> None)"

fun ra_loop :: "(nat \<Rightarrow> rt_outcome) \<Rightarrow> renv \<Rightarrow> bool \<Rightarrow> iface list \<Rightarrow> int \<Rightarrow> nat \<Rightarrow> octet list \<Rightarrow> nat list \<Rightarrow> rtable \<Rightarrow> rtable option" where
  "ra_loop K E best fs ttl wpa icmp [] T = Some T"
| "ra_loop K E best fs ttl wpa icmp (i # is) T =
    (case ra_entry wpa i icmp of
       None \<Rightarrow> None
     | Some (a, p) \<Rightarrow> ra_loop K E best fs ttl wpa icmp is
         (if is_directly_connected a fs then record_router K best (ev_mem E i) a p ttl T else T))"

definition ra_valid :: "octet list \<Rightarrow> bool" where
  "ra_valid icmp \<longleftrightarrow> rd_cksum icmp = 0 \<and> icmp ! 1 = 0 \<and> unat (icmp ! 4) \<ge> 1 \<and> unat (icmp ! 5) \<ge> 2
     \<and> length icmp \<ge> 8 + unat (icmp ! 4) * unat (icmp ! 5) * 4"

definition ra_lifetime :: "octet list \<Rightarrow> int" where
  "ra_lifetime icmp = be_value [icmp ! 6, icmp ! 7]"

definition pr_advertisement :: "(nat \<Rightarrow> rt_outcome) \<Rightarrow> renv \<Rightarrow> octet list \<Rightarrow> rdisc \<Rightarrow> rdisc" where
  "pr_advertisement K E icmp s =
    (if rd_responder s \<or> \<not> ra_valid icmp then s
     else case visible_ifs (rd_ifs s) of
       None \<Rightarrow> rd_fault s
     | Some fs \<Rightarrow>
         (case ra_loop K E (rd_best s) fs (ra_lifetime icmp) (unat (icmp ! 5)) icmp [0..<unat (icmp ! 4)] (rd_rt s) of
            None \<Rightarrow> rd_fault s
          | Some T \<Rightarrow>
              (let s1 = s\<lparr>rd_rt := T, rd_nreceived := rd_nreceived s + 1\<rparr>
               in if rd_forever s1 then s1 else (do_fork (ev_fork E) s1)\<lparr>rd_forever := True\<rparr>)))"

definition pr_solicitation :: "renv \<Rightarrow> octet list \<Rightarrow> octet list \<Rightarrow> rdisc \<Rightarrow> rdisc" where
  "pr_solicitation E buf icmp s =
    (if \<not> rd_responder s \<or> rd_cksum icmp \<noteq> 0 \<or> icmp ! 1 \<noteq> 0 \<or> length icmp < ICMP_MINLEN then s
     else case (rd_bytes 12 4 buf, rd_bytes 16 4 buf, visible_ifs (rd_ifs s)) of
       (Some sb, Some db, Some fs) \<Rightarrow>
         (let saddr = word_of_int (le_value sb); daddr = word_of_int (le_value db)
          in if saddr = 0
             then (let s1 = s\<lparr>left_until_advertise := next_advert E s\<rparr>
                   in rd_advertise E (if IN_CLASSD (ntohl daddr) then ntohl 0xe0000001 else INADDR_BROADCAST) (rd_lifetime s1)
                        (s1\<lparr>rd_nreceived := rd_nreceived s1 + 1, rd_ntransmitted := rd_ntransmitted s1 + 1\<rparr>))
             else if \<not> is_directly_connected saddr fs then s
             else rd_advertise E saddr (rd_lifetime s) (s\<lparr>rd_nreceived := rd_nreceived s + 1, rd_ntransmitted := rd_ntransmitted s + 1\<rparr>))
     | _ \<Rightarrow> rd_fault s)"

definition pr_pack :: "(nat \<Rightarrow> rt_outcome) \<Rightarrow> renv \<Rightarrow> octet list \<Rightarrow> rdisc \<Rightarrow> rdisc" where
  "pr_pack K E buf s = (case rd_bytes 0 1 buf of
      None \<Rightarrow> rd_fault s
    | Some h \<Rightarrow>
        (let hlen = unat (hd h AND 15) * 4
         in if length buf < hlen + 8 then s
            else (let icmp = drop hlen buf
                  in if icmp ! 0 = ICMP_ROUTER_ADVERTISEMENT then pr_advertisement K E icmp s
                     else if icmp ! 0 = ICMP_ROUTER_SOLICITATION then pr_solicitation E buf icmp s
                     else s)))"

section \<open>Timer and signals\<close>

definition timer_count :: "rdisc \<Rightarrow> rdisc" where
  "timer_count s = s\<lparr>left_until_getifconf := left_until_getifconf s - TIMER_INTERVAL,
     left_until_advertise := left_until_advertise s - TIMER_INTERVAL,
     left_until_solicit := left_until_solicit s - TIMER_INTERVAL\<rparr>"

definition timer_ifs :: "ifenv \<Rightarrow> rdisc \<Rightarrow> rdisc" where
  "timer_ifs I s = (if left_until_getifconf s < 0
     then s\<lparr>rd_ifs := initifs I (rd_ifs s), left_until_getifconf := GETIFCONF_TIMER\<rparr> else s)"

definition timer_send :: "renv \<Rightarrow> rdisc \<Rightarrow> rdisc" where
  "timer_send E s =
    (if rd_responder s \<and> left_until_advertise s \<le> 0
     then (let s1 = rd_advertise E (rd_whereto s) (rd_lifetime s) (s\<lparr>rd_ntransmitted := rd_ntransmitted s + 1\<rparr>)
           in s1\<lparr>left_until_advertise :=
                (if rd_ntransmitted s1 < MAX_INITIAL_ADVERTISEMENTS then MAX_INITIAL_ADVERT_INTERVAL else next_advert E s1)\<rparr>)
     else if rd_solicit s \<and> left_until_solicit s \<le> 0
     then (let s1 = rd_solicitor E (rd_whereto s) (s\<lparr>rd_ntransmitted := rd_ntransmitted s + 1\<rparr>)
           in if rd_ntransmitted s1 < MAX_SOLICITATIONS then s1\<lparr>left_until_solicit := SOLICITATION_INTERVAL\<rparr>
              else (let s2 = s1\<lparr>rd_solicit := False\<rparr>
                    in if \<not> rd_forever s2 \<and> rd_nreceived s2 = 0 then rd_exit 5 s2 else s2))
     else s)"

definition rd_timer :: "(nat \<Rightarrow> rt_outcome) \<Rightarrow> ifenv \<Rightarrow> renv \<Rightarrow> rdisc \<Rightarrow> rdisc" where
  "rd_timer K I E s =
    (let s1 = timer_send E (timer_ifs I (timer_count s))
     in if rd_status s1 \<noteq> Rd_running then s1
        else s1\<lparr>rd_rt := age_table K (rd_best s1) TIMER_INTERVAL (rd_rt s1)\<rparr>)"

definition rd_finish :: "renv \<Rightarrow> rdisc \<Rightarrow> rdisc" where
  "rd_finish E s =
    (let s1 = (if rd_responder s
               then rd_advertise E (rd_whereto s) 0 (s\<lparr>rd_ntransmitted := rd_ntransmitted s + 1\<rparr>) else s)
     in if rd_status s1 \<noteq> Rd_running then s1 else rd_exit 0 s1)"

definition graceful_finish :: "(nat \<Rightarrow> rt_outcome) \<Rightarrow> renv \<Rightarrow> rdisc \<Rightarrow> rdisc" where
  "graceful_finish K E s = rd_finish E (s\<lparr>rd_rt := discard_table K (rd_rt s)\<rparr>)"

datatype rd_event =
    Ev_packet "octet list" renv
  | Ev_recv_error
  | Ev_alarm ifenv renv
  | Ev_hup ifenv
  | Ev_int renv
  | Ev_term renv

fun rd_handle :: "(nat \<Rightarrow> rt_outcome) \<Rightarrow> rd_event \<Rightarrow> rdisc \<Rightarrow> rdisc" where
  "rd_handle K (Ev_packet buf E) s = pr_pack K E buf s"
| "rd_handle K Ev_recv_error s = s"
| "rd_handle K (Ev_alarm I E) s = rd_timer K I E s"
| "rd_handle K (Ev_hup I) s = s\<lparr>rd_ifs := initifs I (rd_ifs s)\<rparr>"
| "rd_handle K (Ev_int E) s = rd_finish E s"
| "rd_handle K (Ev_term E) s = graceful_finish K E s"

definition rd_step :: "(nat \<Rightarrow> rt_outcome) \<Rightarrow> rd_event \<Rightarrow> rdisc \<Rightarrow> rdisc" where
  "rd_step K ev s = (if rd_status s = Rd_running then rd_handle K ev s else s)"

end
