(* ===== verification/Rdisc_Start.thy ===== *)
theory Rdisc_Start
  imports Rdisc_Main "HOL-Library.Char_ord"
begin

text \<open>
  The start of \<^verbatim>\<open>rdisc\<close>: options and addresses of the command line, and the steps of \<^verbatim>\<open>main\<close>
  up to its loop. \<open>srv\<close> says whether the responder is compiled in (\<^verbatim>\<open>RDISC_SERVER\<close>).
\<close>

section \<open>Numbers\<close>

text \<open>\<^verbatim>\<open>strtol\<close> with base 0, and the conversion of its result to an \<^verbatim>\<open>int\<close>.\<close>

definition isspace_c :: "char \<Rightarrow> bool" where
  "isspace_c c \<longleftrightarrow> c = CHR '' '' \<or> (9 \<le> (of_char c :: nat) \<and> (of_char c :: nat) \<le> 13)"

definition digit_value :: "char \<Rightarrow> nat" where
  "digit_value c = (let n = of_char c :: nat in
    if 48 \<le> n \<and> n \<le> 57 then n - 48 else if 97 \<le> n \<and> n \<le> 122 then n - 87 else if 65 \<le> n \<and> n \<le> 90 then n - 55 else 36)"

fun strtol_digits :: "nat \<Rightarrow> string \<Rightarrow> int \<Rightarrow> int" where
  "strtol_digits b [] acc = acc"
| "strtol_digits b (c # cs) acc = (if digit_value c < b then strtol_digits b cs (int b * acc + int (digit_value c)) else acc)"

fun strtol_abs :: "string \<Rightarrow> int" where
  "strtol_abs (z # x # d # cs) =
    (if z = CHR ''0'' \<and> (x = CHR ''x'' \<or> x = CHR ''X'') \<and> digit_value d < 16 then strtol_digits 16 (d # cs) 0
     else strtol_digits (if z = CHR ''0'' then 8 else 10) (z # x # d # cs) 0)"
| "strtol_abs (z # cs) = strtol_digits (if z = CHR ''0'' then 8 else 10) (z # cs) 0"
| "strtol_abs [] = 0"

definition strtol :: "string \<Rightarrow> int" where
  "strtol str = (case dropWhile isspace_c str of
      [] \<Rightarrow> 0
    | c # cs \<Rightarrow> (if c = CHR ''-'' then max (- (2 ^ 63)) (- strtol_abs cs)
                else if c = CHR ''+'' then min (2 ^ 63 - 1) (strtol_abs cs)
                else min (2 ^ 63 - 1) (strtol_abs (c # cs))))"

definition c_int :: "int \<Rightarrow> int" where
  "c_int i = sint (word_of_int i :: u32)"

section \<open>Options\<close>

record rd_opts =
  o_trace :: bool
  o_solicit :: bool
  o_responder :: bool
  o_best :: bool
  o_forever :: bool
  o_max_adv_int :: int
  o_min_adv_int :: int
  o_lifetime :: int
  o_preference :: int

definition set_adv_int :: "int \<Rightarrow> rd_opts \<Rightarrow> rd_opts" where
  "set_adv_int v opts = opts\<lparr>o_max_adv_int := v, o_min_adv_int := c_div (v * 3) 4, o_lifetime := 3 * v\<rparr>"

definition opts_start :: rd_opts where
  "opts_start = set_adv_int MAX_ADV_INT \<lparr>o_trace = False, o_solicit = False, o_responder = False, o_best = True,
     o_forever = False, o_max_adv_int = 0, o_min_adv_int = 0, o_lifetime = 0, o_preference = 0\<rparr>"

text \<open>The letters of one argument; options with a value take the next argument. \<open>Inl\<close> is an exit.\<close>

fun opt_letters :: "bool \<Rightarrow> string \<Rightarrow> string list \<Rightarrow> rd_opts \<Rightarrow> int + (string list \<times> rd_opts)" where
  "opt_letters srv [] av opts = Inr (av, opts)"
| "opt_letters srv (c # cs) av opts =
    (if c = CHR ''d'' \<or> c = CHR ''v'' then opt_letters srv cs av opts
     else if c = CHR ''t'' then opt_letters srv cs av (opts\<lparr>o_trace := True\<rparr>)
     else if c = CHR ''s'' then opt_letters srv cs av (opts\<lparr>o_solicit := True\<rparr>)
     else if c = CHR ''r'' \<and> srv then opt_letters srv cs av (opts\<lparr>o_responder := True\<rparr>)
     else if c = CHR ''a'' then opt_letters srv cs av (opts\<lparr>o_best := False\<rparr>)
     else if c = CHR ''b'' then opt_letters srv cs av (opts\<lparr>o_best := True\<rparr>)
     else if c = CHR ''f'' then opt_letters srv cs av (opts\<lparr>o_forever := True\<rparr>)
     else if c = CHR ''V'' then Inl 0
     else if c = CHR ''T'' \<and> srv then
       (case av of [] \<Rightarrow> Inl 1 | x # av' \<Rightarrow>
          (let v = c_int (strtol x) in if v < 4 \<or> v > 1800 then Inl 1 else Inr (av', set_adv_int v opts)))
     else if c = CHR ''p'' \<and> srv then
       (case av of [] \<Rightarrow> Inl 1 | x # av' \<Rightarrow> Inr (av', opts\<lparr>o_preference := c_int (strtol x)\<rparr>))
     else Inl 1)"

lemma opt_letters_args: "opt_letters srv cs av opts = Inr (av', opts') \<Longrightarrow> length av' \<le> length av"
  by (induction srv cs av opts rule: opt_letters.induct) (auto split: if_splits list.splits simp: Let_def)

function rd_options :: "bool \<Rightarrow> string list \<Rightarrow> rd_opts \<Rightarrow> int + (string list \<times> rd_opts)" where
  "rd_options srv [] opts = Inr ([], opts)"
| "rd_options srv (x # av) opts =
    (if x \<noteq> [] \<and> hd x = CHR ''-''
     then (case opt_letters srv (tl x) av opts of
             Inl c \<Rightarrow> Inl c
           | Inr (av', opts') \<Rightarrow> rd_options srv av' opts')
     else Inr (x # av, opts))"
  by pat_completeness auto
termination
  by (relation "measure (\<lambda>(srv, av, opts). length av)") (auto dest!: opt_letters_args)

text \<open>The addresses: \<^verbatim>\<open>argc\<close> is counted down, \<^verbatim>\<open>av\<close> stays. \<open>mc\<close> is the result of \<^verbatim>\<open>support_multicast\<close>.\<close>

definition rd_addresses :: "bool \<Rightarrow> bool \<Rightarrow> string list \<Rightarrow> int + (string \<times> string)" where
  "rd_addresses mc resp av =
    (let hosts = ''224.0.0.1''; routers = ''224.0.0.2''; bcast = ''255.255.255.255'';
         argc = length av;
         sendaddress = (if argc < 1 then if mc then if resp then hosts else routers else bcast else av ! 0);
         argc1 = (if argc < 1 then argc else argc - 1);
         recvaddress = (if argc1 < 1 then if mc then if resp then routers else hosts else bcast else av ! 0);
         argc2 = (if argc1 < 1 then argc1 else argc1 - 1)
     in if argc2 \<noteq> 0 then Inl 1 else Inr (sendaddress, recvaddress))"

definition rd_start :: "rd_opts \<Rightarrow> ip \<Rightarrow> rdisc" where
  "rd_start opts dest = \<lparr>rd_rt = ([], []), rd_ifs = \<lparr>interfaces = None, num_interfaces = 0, interfaces_size = 0\<rparr>, rd_whereto = dest,
     rd_trace = o_trace opts, rd_solicit = o_solicit opts, rd_forever = o_forever opts, rd_responder = o_responder opts,
     rd_best = o_best opts, rd_ntransmitted = 0, rd_nreceived = 0, rd_max_adv_int = o_max_adv_int opts,
     rd_min_adv_int = o_min_adv_int opts, rd_lifetime = o_lifetime opts, rd_preference = o_preference opts,
     left_until_advertise = 0, left_until_getifconf = 0, left_until_solicit = 0, rd_background = False, rd_sent = [],
     rd_status = Rd_running\<rparr>"

text \<open>
  \<^verbatim>\<open>main\<close> up to the loop. The environment: whether multicast is supported and the raw socket can be
  opened, the parser of addresses, the fork, the outcome of joining, and the answers for the
  two reads of the interfaces and the first call of the timer.
\<close>

record start_env =
  st_multicast :: bool
  st_inet_addr :: "string \<Rightarrow> ip"
  st_fork :: fork_outcome
  st_socket_ok :: bool
  st_join_ok :: "nat \<Rightarrow> bool"
  st_ifs :: ifenv
  st_timer_ifs :: ifenv
  st_timer :: renv

definition main_init :: "start_env \<Rightarrow> string \<Rightarrow> rdisc \<Rightarrow> rdisc" where
  "main_init M recvaddress s = (case init_ifs (st_ifs M) (rd_preference s) (rd_ifs s) of
      None \<Rightarrow> rd_fault s
    | Some ifs \<Rightarrow> (let s1 = s\<lparr>rd_ifs := ifs\<rparr> in case visible_ifs ifs of
         None \<Rightarrow> rd_fault s1
       | Some fs \<Rightarrow> (if snd (join (st_join_ok M) (st_inet_addr M recvaddress) fs) then s1 else rd_exit 2 s1)))"

definition rdisc_main :: "(nat \<Rightarrow> rt_outcome) \<Rightarrow> start_env \<Rightarrow> bool \<Rightarrow> string list \<Rightarrow> int + rdisc" where
  "rdisc_main K M srv args = (case rd_options srv args opts_start of
      Inl c \<Rightarrow> Inl c
    | Inr (av, opts) \<Rightarrow>
       (case rd_addresses (st_multicast M) (o_responder opts) av of
          Inl c \<Rightarrow> Inl c
        | Inr (sendaddress, recvaddress) \<Rightarrow>
           (if o_solicit opts \<and> o_responder opts then Inl 1
            else (let s = rd_start opts (st_inet_addr M sendaddress);
                      s1 = (if \<not> (rd_solicit s \<and> \<not> rd_forever s) then (do_fork (st_fork M) s)\<lparr>rd_forever := True\<rparr> else s);
                      s2 = (if rd_status s1 = Rd_running \<and> \<not> st_socket_ok M then rd_exit 5 s1 else s1);
                      s3 = (if rd_status s2 = Rd_running then main_init M recvaddress s2 else s2)
                  in Inr (if rd_status s3 = Rd_running then rd_timer K (st_timer_ifs M) (st_timer M) s3 else s3)))))"

end
