(* ===== verification/Rdisc_Runs.thy ===== *)
theory Rdisc_Runs
  imports Rdisc_Daemon Rdisc_Start
begin

text \<open>
  Invariants of all runs of \<^verbatim>\<open>rdisc\<close>: the table and the kernel's routes, what is read of a packet,
  how a valid advertisement changes the table, and the sequence of solicitations.
\<close>

section \<open>The table in all runs\<close>

definition prefs_ok :: "rentry list \<Rightarrow> bool" where
  "prefs_ok t \<longleftrightarrow> (\<forall>e \<in> set t. INELIGIBLE_PREF \<le> rpref e)"

definition table_inv :: "(nat \<Rightarrow> rt_outcome) \<Rightarrow> ip set \<Rightarrow> bool \<Rightarrow> rtable \<Rightarrow> bool" where
  "table_inv K R best T \<longleftrightarrow> flags_ok best (fst T) \<and> prefs_ok (fst T) \<and> (all_done K \<longrightarrow> synced R T)"

lemma table_inv_distinct: "table_inv K R best T \<Longrightarrow> distinct (map router (fst T))"
  by (simp add: table_inv_def flags_ok_def)

lemma prefs_ok_reflag: "prefs_ok (reflag P t) = prefs_ok t"
  by (simp add: prefs_ok_def reflag_def)

lemma prefs_ok_set_router: "prefs_ok t \<Longrightarrow> (\<And>e. INELIGIBLE_PREF \<le> rpref (f e)) \<Longrightarrow> prefs_ok (set_router a f t)"
  unfolding prefs_ok_def set_router_def by (rule upd_first_all) auto

lemma record_router_prefs:
  assumes "distinct (map router (fst T))" "prefs_ok (fst T)" "INELIGIBLE_PREF \<le> p"
  shows "prefs_ok (fst (record_router K best mem a p ttl T))"
proof -
  obtain t L where T: "T = (t, L)" by fastforce
  show ?thesis
  proof (cases "find_router a t")
    case None
    then have "distinct (map router (\<lparr>router = a, rpref = q, remaining_time = ttl, in_kernel = False\<rparr> # t))" for q
      using assms(1) by (auto simp: T find_router_None)
    from record_routes_step(1) [OF this] show ?thesis
      using None assms(2,3) by (simp add: T record_router_def Let_def prefs_ok_reflag) (simp add: prefs_ok_def)
  next
    case (Some e)
    have "distinct (map router (set_router a (\<lambda>e. e\<lparr>rpref := q, remaining_time := ttl\<rparr>) t))" for q
      using assms(1) by (subst routers_set_router) (simp_all add: T)
    from record_routes_step(1) [OF this] show ?thesis
      using Some assms(2,3) by (simp add: T record_router_def Let_def prefs_ok_reflag prefs_ok_set_router)
  qed
qed

lemma table_inv_record:
  assumes "table_inv K R best T" "INELIGIBLE_PREF \<le> p"
  shows "table_inv K R best (record_router K best mem a p ttl T)"
  using assms record_router_flags [of best T p] record_router_prefs [OF table_inv_distinct [OF assms(1)]]
    record_router_synced [OF table_inv_distinct [OF assms(1)]] by (simp add: table_inv_def)

lemma table_inv_age:
  assumes "table_inv K R best T"
  shows "table_inv K R best (age_table K best tm T)"
proof -
  obtain t L where T: "T = (t, L)" by fastforce
  have "prefs_ok (fst (age_table K best tm T))"
    using assms unfolding T age_table_fst prefs_ok_reflag by (auto simp: table_inv_def prefs_ok_def aged_mem)
  then show ?thesis using assms age_table_flags [of best T] age_table_synced [OF table_inv_distinct [OF assms]]
    by (simp add: table_inv_def)
qed

lemma table_inv_discard: "table_inv K R best T \<Longrightarrow> table_inv K R best (discard_table K T)"
  using discard_table_synced [of K R T] by (auto simp: table_inv_def discard_table_def flags_ok_def prefs_ok_def split: prod.splits)

lemma table_inv_start: "table_inv K R best ([], [])"
  by (simp add: table_inv_def flags_ok_def prefs_ok_def synced_def kernel_routes_def touched_def flagged_def)

lemma table_inv_routes:
  assumes "table_inv K R best T" "all_done K"
  shows "kernel_routes R (snd T) = best_routes best (view_of (fst T)) \<union> (R - touched (snd T))"
proof -
  have "flagged (fst T) = best_routes best (view_of (fst T))"
    by (rule flagged_best_routes)
      (use assms(1) in \<open>auto simp: table_inv_def prefs_ok_def view_of_mem [OF table_inv_distinct [OF assms(1)]]\<close>)
  then show ?thesis using assms by (simp add: table_inv_def synced_def)
qed

lemma sint_u32_ge: "INELIGIBLE_PREF \<le> sint (w :: u32)"
  using sint_greater_eq [of w] by (simp add: INELIGIBLE_PREF_def)

lemma ra_loop_inv:
  "table_inv K R best T \<Longrightarrow> ra_loop K E best fs ttl wpa icmp is T = Some T' \<Longrightarrow> table_inv K R best T'"
proof (induction "is" arbitrary: T)
  case (Cons i "is")
  then obtain a p where ap: "ra_entry wpa i icmp = Some (a, p)"
    by (auto split: option.splits)
  then have "INELIGIBLE_PREF \<le> p" by (auto simp: ra_entry_def sint_u32_ge split: option.splits)
  then have "table_inv K R best (if is_directly_connected a fs then record_router K best (ev_mem E i) a p ttl T else T)"
    using table_inv_record [OF Cons.prems(1)] Cons.prems(1) by simp
  with Cons ap show ?case by simp
qed simp

section \<open>The steps of the daemon\<close>

lemma rd_exit_simps [simp]: "rd_rt (rd_exit c s) = rd_rt s" "rd_best (rd_exit c s) = rd_best s" "rd_status (rd_exit c s) = Rd_exit c"
  by (simp_all add: rd_exit_def)

lemma rd_fault_simps [simp]: "rd_rt (rd_fault s) = rd_rt s" "rd_best (rd_fault s) = rd_best s" "rd_status (rd_fault s) = Rd_fault"
  by (simp_all add: rd_fault_def)

lemma do_fork_simps [simp]: "rd_rt (do_fork fk s) = rd_rt s" "rd_best (do_fork fk s) = rd_best s"
  by (simp_all add: do_fork_def split: fork_outcome.splits)

lemma rd_advertise_simps [simp]: "rd_rt (rd_advertise E a l s) = rd_rt s" "rd_best (rd_advertise E a l s) = rd_best s"
  by (simp_all add: rd_advertise_def split: option.splits)

lemma rd_solicitor_simps [simp]: "rd_rt (rd_solicitor E a s) = rd_rt s" "rd_best (rd_solicitor E a s) = rd_best s"
  by (simp_all add: rd_solicitor_def split: option.splits)

lemma timer_parts [simp]: "rd_rt (timer_send E s) = rd_rt s" "rd_best (timer_send E s) = rd_best s"
  "rd_rt (timer_ifs I s) = rd_rt s" "rd_best (timer_ifs I s) = rd_best s"
  "rd_rt (timer_count s) = rd_rt s" "rd_best (timer_count s) = rd_best s"
  by (simp_all add: timer_send_def timer_ifs_def timer_count_def Let_def)

lemma finish_simps [simp]: "rd_rt (rd_finish E s) = rd_rt s" "rd_best (rd_finish E s) = rd_best s"
  by (simp_all add: rd_finish_def Let_def)

definition rd_inv :: "(nat \<Rightarrow> rt_outcome) \<Rightarrow> ip set \<Rightarrow> rdisc \<Rightarrow> bool" where
  "rd_inv K R s \<longleftrightarrow> table_inv K R (rd_best s) (rd_rt s)"

lemma rd_inv_cong: "rd_rt s' = rd_rt s \<Longrightarrow> rd_best s' = rd_best s \<Longrightarrow> rd_inv K R s' = rd_inv K R s"
  by (simp add: rd_inv_def)

lemma rd_inv_advertisement: "rd_inv K R s \<Longrightarrow> rd_inv K R (pr_advertisement K E icmp s)"
  by (auto simp: pr_advertisement_def rd_inv_def Let_def dest: ra_loop_inv split: option.splits)

lemma rd_inv_solicitation: "rd_inv K R s \<Longrightarrow> rd_inv K R (pr_solicitation E buf icmp s)"
  by (auto simp: pr_solicitation_def rd_inv_def Let_def split: option.splits)

lemma rd_inv_timer: "rd_inv K R s \<Longrightarrow> rd_inv K R (rd_timer K I E s)"
  by (simp add: rd_timer_def rd_inv_def Let_def table_inv_age)

lemma rd_inv_handle: "rd_inv K R s \<Longrightarrow> rd_inv K R (rd_handle K ev s)"
proof (cases ev)
  case (Ev_packet buf E)
  then show "rd_inv K R s \<Longrightarrow> ?thesis"
    by (auto simp: pr_pack_def Let_def rd_inv_advertisement rd_inv_solicitation rd_inv_cong [of "rd_fault s" s] split: option.splits)
next
  case (Ev_term E)
  then show "rd_inv K R s \<Longrightarrow> ?thesis" by (simp add: graceful_finish_def rd_inv_def table_inv_discard)
qed (simp_all add: rd_inv_timer, simp_all add: rd_inv_def)

interpretation rd_sys: step_system "rd_step K" "rd_start opts dest" "\<lambda>_. True" "rd_inv K R"
  for K opts dest R
proof unfold_locales
  show "rd_inv K R (rd_start opts dest)" by (simp add: rd_inv_def rd_start_def table_inv_start)
  show "rd_inv K R s \<Longrightarrow> rd_inv K R (rd_step K ev s)" for s ev by (simp add: rd_step_def rd_inv_handle)
qed

lemma main_init_simps [simp]: "rd_rt (main_init M r s) = rd_rt s" "rd_best (main_init M r s) = rd_best s"
  by (simp_all add: main_init_def Let_def split: option.splits)

lemma rd_inv_main: "rdisc_main K M srv args = Inr s \<Longrightarrow> rd_inv K R s"
  by (auto simp: rdisc_main_def Let_def rd_inv_def rd_start_def rd_inv_timer [unfolded rd_inv_def] table_inv_start
    split: sum.splits if_splits prod.splits intro!: rd_inv_timer [unfolded rd_inv_def])

end
