(* ===== verification/Rdisc_Protocol.thy ===== *)
theory Rdisc_Protocol
  imports Rdisc_Runs
begin

text \<open>
  The two sides of the protocol: which bytes of a packet are read, that the advertisement one
  side composes is what the other side records, and how valid advertisements and ticks of the
  timer change the table.
\<close>

section \<open>Bytes\<close>

lemma uint_byte: "uint (ucast (drop_bit k (w :: u32)) :: octet) = uint w div 2 ^ k mod 256"
proof -
  have "unat (drop_bit k w) = unat w div 2 ^ k" unfolding unat_drop_bit_eq by (rule drop_bit_eq_div)
  then have "int (unat (drop_bit k w)) = int (unat w) div 2 ^ k" by (simp only: zdiv_int) simp
  then have "uint (drop_bit k w) = uint w div 2 ^ k" by simp
  then show ?thesis by (simp add: unsigned_ucast_eq take_bit_eq_mod)
qed

lemma uint_byte0: "uint (ucast (w :: u32) :: octet) = uint w mod 256"
  using uint_byte [of 0 w] by simp

lemma four_bytes:
  fixes x :: int
  assumes "0 \<le> x" "x < 4294967296"
  shows "x mod 256 + 256 * (x div 2 ^ 8 mod 256 + 256 * (x div 2 ^ 16 mod 256 + 256 * (x div 2 ^ 24 mod 256 + 256 * 0))) = x"
proof -
  have p: "(2 :: int) ^ 8 = 256" "(2 :: int) ^ 16 = 65536" "(2 :: int) ^ 24 = 16777216" by simp_all
  have "x div 65536 = x div 256 div 256" "x div 16777216 = x div 256 div 256 div 256" by (simp_all add: zdiv_zmult2_eq [symmetric])
  moreover have "x div 16777216 mod 256 = x div 16777216" using assms by (intro mod_pos_pos_trivial) (simp_all add: div_int_pos_iff)
  moreover have "y mod 256 + 256 * (y div 256) = y" for y :: int by simp
  ultimately show ?thesis unfolding p by (simp only: mult_zero_right add_0_right)
qed

lemma le_value_le32 [simp]: "le_value (le32_bytes w) = uint w"
proof -
  have "0 \<le> uint w" "uint w < 4294967296" using uint_lt2p [of w] by simp_all
  from four_bytes [OF this] show ?thesis unfolding le32_bytes_def le_value.simps unfolding uint_byte unfolding uint_byte0 .
qed

lemma rev_be32: "rev (be32_bytes w) = le32_bytes w"
  by (simp add: be32_bytes_def le32_bytes_def)

lemma be_value_be32 [simp]: "be_value (be32_bytes w) = uint w"
  by (simp add: be_value_def rev_be32)

lemma be_value_be16 [simp]: "be_value (be16_bytes w) = uint w"
  using word_of_bytes [of w] by (simp add: be_value_def be16_bytes_def)

lemma le_value_nonneg: "0 \<le> le_value bs"
  by (induction bs) (simp_all add: octet_bound)

lemma length_bytes [simp]: "length (le32_bytes a) = 4" "length (be32_bytes a) = 4" "length (be16_bytes v) = 2" "length (le16_bytes v) = 2"
  by (simp_all add: le32_bytes_def be32_bytes_def be16_bytes_def le16_bytes_def)

section \<open>Checksums\<close>

text \<open>A message whose second word is the checksum of the rest verifies.\<close>

lemma message_verifies:
  assumes "length r \<le> 60000" "x \<noteq> 0"
  defines "pk \<equiv> (\<lambda>ck. [x, 0] @ le16_bytes ck @ r)"
  shows "rd_cksum (pk (rd_cksum (pk 0))) = 0"
proof -
  have one: "cksum_sum (pk ck) 0 = uint x + uint ck + cksum_sum r 0" for ck
  proof -
    have "cksum_sum (pk ck) 0 = cksum_sum r (0 + (uint x + 256 * uint (0 :: octet)) + uint ck)"
      unfolding pk_def le16_bytes_def append_Cons append_Nil cksum_sum.simps word_of_bytes ..
    also have "\<dots> = (0 + (uint x + 256 * uint (0 :: octet)) + uint ck) + cksum_sum r 0" by (rule cksum_sum_add)
    finally show ?thesis by simp
  qed
  have sum: "cksum_sum (pk ck) 0 = cksum_sum (pk 0) 0 + uint ck" for ck unfolding one by simp
  have pos: "0 < cksum_sum (pk 0) 0"
  proof -
    have "0 < uint x" using assms(2) octet_bound(2) [of x] by (simp add: word_uint_eq_iff less_le)
    then show ?thesis using cksum_sum_bounds [of 0 r] one [of 0] by simp
  qed
  have small: "cksum_sum (pk 0) 0 < 2 ^ 31" using cksum_sum_small(1) [of "pk 0" 0] assms(1) by (simp add: pk_def)
  then have "cksum_sum (pk 0) 0 < 2 ^ 32" by simp
  then show ?thesis unfolding rd_cksum_eq
    by (intro checksum_verifies [OF _ pos small less_imp_le [OF pos] _ refl]) (simp_all only: sum [of "in_cksum (pk 0) 0"] uint_in_cksum unsigned_0)
qed

lemma solicitation_verifies: "rd_cksum solicitation = 0"
  unfolding solicitation_def Let_def by (rule message_verifies) (simp_all add: ICMP_ROUTER_SOLICITATION_def)

lemma advertisement_verifies: "rd_cksum (advertisement lft f) = 0"
  unfolding advertisement_def Let_def by (rule message_verifies) (simp_all add: ICMP_ROUTER_ADVERTISEMENT_def)

section \<open>Reading a packet\<close>

lemma rd_bytes_inside: "k + n \<le> length bs \<Longrightarrow> rd_bytes k n bs = Some (take n (drop k bs))"
  by (simp add: rd_bytes_def)

lemma ra_entry_inside:
  assumes "i < n" "2 \<le> wpa" "8 + n * wpa * 4 \<le> length icmp"
  shows "\<exists>a p. ra_entry wpa i icmp = Some (a, p)"
proof -
  have "(i + 1) * wpa \<le> n * wpa" using assms(1) by (intro mult_right_mono) simp_all
  then have "i * wpa * 4 + 8 \<le> n * wpa * 4" using assms(2) by simp
  then have "8 + i * wpa * 4 + 4 + 4 \<le> length icmp" using assms(3) by simp
  then show ?thesis by (simp add: ra_entry_def rd_bytes_inside)
qed

definition ra_entries :: "octet list \<Rightarrow> (ip \<times> int) list" where
  "ra_entries icmp = map (\<lambda>i. the (ra_entry (unat (icmp ! 5)) i icmp)) [0..<unat (icmp ! 4)]"

text \<open>The neighbours among the advertised routers, with their preferences.\<close>

definition neighbours :: "iface list \<Rightarrow> octet list \<Rightarrow> (ip \<times> int) list" where
  "neighbours fs icmp = filter (\<lambda>(a, p). is_directly_connected a fs) (ra_entries icmp)"

lemma record_router_distinct:
  assumes "flags_ok best (fst T)" "INELIGIBLE_PREF \<le> p"
  shows "distinct (map router (fst (record_router K best mem a p ttl T)))"
  using record_router_flags [OF assms] by (simp add: flags_ok_def)

lemma ra_loop_view:
  assumes "flags_ok best (fst T)" "\<forall>i. ev_mem E i" "\<forall>i \<in> set is. \<exists>a p. ra_entry wpa i icmp = Some (a, p)"
  shows "\<exists>T'. ra_loop K E best fs ttl wpa icmp is T = Some T' \<and>
    view_of (fst T') = fold (\<lambda>(a, p). record_view a p ttl)
      (filter (\<lambda>(a, p). is_directly_connected a fs) (map (\<lambda>i. the (ra_entry wpa i icmp)) is)) (view_of (fst T))"
  using assms(1,3)
proof (induction "is" arbitrary: T)
  case (Cons i "is")
  then obtain a p where ap: "ra_entry wpa i icmp = Some (a, p)" by auto
  then have p: "INELIGIBLE_PREF \<le> p" by (auto simp: ra_entry_def sint_u32_ge split: option.splits)
  let ?T = "if is_directly_connected a fs then record_router K best (ev_mem E i) a p ttl T else T"
  have d: "distinct (map router (fst T))" using Cons.prems(1) by (simp add: flags_ok_def)
  have "flags_ok best (fst ?T)" using record_router_flags [OF Cons.prems(1) p] Cons.prems(1) by simp
  moreover have "\<forall>i \<in> set is. \<exists>a p. ra_entry wpa i icmp = Some (a, p)" using Cons.prems(2) by simp
  ultimately have "\<exists>T'. ra_loop K E best fs ttl wpa icmp is ?T = Some T' \<and>
    view_of (fst T') = fold (\<lambda>(a, p). record_view a p ttl)
      (filter (\<lambda>(a, p). is_directly_connected a fs) (map (\<lambda>i. the (ra_entry wpa i icmp)) is)) (view_of (fst ?T))"
    by (rule Cons.IH)
  moreover have "view_of (fst ?T) = (if is_directly_connected a fs then record_view a p ttl (view_of (fst T)) else view_of (fst T))"
    using record_router_view [OF d, of K best a p ttl] assms(2) by simp
  ultimately show ?case by (cases "is_directly_connected a fs") (simp_all add: ap)
qed simp

lemma ra_valid_entries:
  "ra_valid icmp \<Longrightarrow> \<forall>i \<in> set [0..<unat (icmp ! 4)]. \<exists>a p. ra_entry (unat (icmp ! 5)) i icmp = Some (a, p)"
  by (auto simp: ra_valid_def intro: ra_entry_inside)

lemma advertisement_recorded:
  assumes "flags_ok (rd_best s) (fst (rd_rt s))" "\<forall>i. ev_mem E i" "ra_valid icmp" "\<not> rd_responder s"
    and "visible_ifs (rd_ifs s) = Some fs"
  shows "view_of (fst (rd_rt (pr_advertisement K E icmp s)))
    = fold (\<lambda>(a, p). record_view a p (ra_lifetime icmp)) (neighbours fs icmp) (view_of (fst (rd_rt s)))"
    and "rd_nreceived (pr_advertisement K E icmp s) = rd_nreceived s + 1"
proof -
  from ra_loop_view [OF assms(1,2) ra_valid_entries [OF assms(3)], of K fs "ra_lifetime icmp"]
  obtain T' where "ra_loop K E (rd_best s) fs (ra_lifetime icmp) (unat (icmp ! 5)) icmp [0..<unat (icmp ! 4)] (rd_rt s) = Some T'"
    "view_of (fst T') = fold (\<lambda>(a, p). record_view a p (ra_lifetime icmp)) (neighbours fs icmp) (view_of (fst (rd_rt s)))"
    by (auto simp: neighbours_def ra_entries_def)
  then show "view_of (fst (rd_rt (pr_advertisement K E icmp s)))
    = fold (\<lambda>(a, p). record_view a p (ra_lifetime icmp)) (neighbours fs icmp) (view_of (fst (rd_rt s)))"
    and "rd_nreceived (pr_advertisement K E icmp s) = rd_nreceived s + 1"
    using assms(3-5) by (simp_all add: pr_advertisement_def Let_def do_fork_def rd_exit_def split: fork_outcome.splits)
qed

section \<open>From the router to the host\<close>

definition adv_bytes :: "u16 \<Rightarrow> int \<Rightarrow> iface \<Rightarrow> octet list" where
  "adv_bytes ck lft f = [9, 0] @ le16_bytes ck @ [1, 2] @ be16_bytes (word_of_int lft)
     @ le32_bytes (if_localaddr f) @ be32_bytes (word_of_int (if_preference f))"

lemma advertisement_bytes: "\<exists>ck. advertisement lft f = adv_bytes ck lft f"
  by (simp add: advertisement_def adv_bytes_def Let_def ICMP_ROUTER_ADVERTISEMENT_def) blast

lemma adv_bytes_fields:
  "length (adv_bytes ck lft f) = 16" "adv_bytes ck lft f ! 0 = 9" "adv_bytes ck lft f ! 1 = 0"
  "adv_bytes ck lft f ! 4 = 1" "adv_bytes ck lft f ! 5 = 2"
  "take 4 (drop 8 (adv_bytes ck lft f)) = le32_bytes (if_localaddr f)"
  "take 4 (drop 12 (adv_bytes ck lft f)) = be32_bytes (word_of_int (if_preference f))"
  "[adv_bytes ck lft f ! 6, adv_bytes ck lft f ! 7] = be16_bytes (word_of_int lft)"
  by (simp_all add: adv_bytes_def le16_bytes_def be16_bytes_def le32_bytes_def be32_bytes_def)

lemma c_int_word: "- 2147483648 \<le> p \<Longrightarrow> p < 2147483648 \<Longrightarrow> sint (word_of_int p :: u32) = p"
  unfolding sint_sbintrunc' by (simp add: signed_take_bit_int_eq_self)

lemma advertisement_fields:
  assumes "0 \<le> lft" "lft < 65536" "- 2147483648 \<le> if_preference f" "if_preference f < 2147483648"
  shows "ra_valid (advertisement lft f)" "ra_lifetime (advertisement lft f) = lft"
    and "ra_entries (advertisement lft f) = [(if_localaddr f, if_preference f)]"
proof -
  obtain ck where a: "advertisement lft f = adv_bytes ck lft f" using advertisement_bytes by blast
  note fs = adv_bytes_fields [of ck lft f]
  show "ra_valid (advertisement lft f)"
    using advertisement_verifies [of lft f] fs(1,3-5) by (simp add: ra_valid_def a)
  show "ra_lifetime (advertisement lft f) = lft"
    using assms(1,2) unfolding ra_lifetime_def a fs(8) be_value_be16 by (simp add: uint_word_of_int)
  have "ra_entry 2 0 (adv_bytes ck lft f) = Some (if_localaddr f, if_preference f)"
    using fs(1,6,7) c_int_word [OF assms(3,4)] by (simp add: ra_entry_def rd_bytes_def)
  then show "ra_entries (advertisement lft f) = [(if_localaddr f, if_preference f)]"
    by (simp add: ra_entries_def a fs(4,5))
qed

lemma advertisement_received:
  assumes "flags_ok (rd_best s) (fst (rd_rt s))" "\<forall>i. ev_mem E i" "\<not> rd_responder s" "visible_ifs (rd_ifs s) = Some fs"
    and "hdr \<noteq> []" "unat (hd hdr AND 15) * 4 = length hdr"
    and "0 \<le> lft" "lft < 65536" "- 2147483648 \<le> if_preference f" "if_preference f < 2147483648"
  shows "view_of (fst (rd_rt (pr_pack K E (hdr @ advertisement lft f) s))) =
    (if is_directly_connected (if_localaddr f) fs then record_view (if_localaddr f) (if_preference f) lft (view_of (fst (rd_rt s)))
     else view_of (fst (rd_rt s)))"
proof -
  note v = advertisement_fields [OF assms(7-10)]
  obtain ck where a: "advertisement lft f = adv_bytes ck lft f" using advertisement_bytes by blast
  have "pr_pack K E (hdr @ advertisement lft f) s = pr_advertisement K E (advertisement lft f) s"
    using assms(5,6) adv_bytes_fields(1,2) [of ck lft f]
    by (cases hdr) (simp_all add: pr_pack_def rd_bytes_def ICMP_ROUTER_ADVERTISEMENT_def a)
  then show ?thesis using advertisement_recorded(1) [OF assms(1,2) v(1) assms(3,4)] v(2,3)
    by (simp add: neighbours_def)
qed

lemma advertise_bytes: "dg \<in> set (advertise N a lft i fs) \<Longrightarrow> \<exists>f \<in> set fs. dg_bytes dg = advertisement lft f"
proof (induction fs arbitrary: i)
  case (Cons f fs)
  then consider "dg \<in> set (advertise_if N a lft i f)" | "dg \<in> set (advertise N a lft (i + 1) fs)" by auto
  then show ?case
  proof cases
    case 1
    then have "dg_bytes dg = advertisement lft f"
      by (auto simp: advertise_if_def sendbcastif_def sendmcastif_def split: if_splits)
    then show ?thesis by simp
  next
    case 2
    then show ?thesis using Cons.IH by auto
  qed
qed simp

end
