(* ===== verification/Rdisc_Safety.thy ===== *)
theory Rdisc_Safety
  imports Rdisc_Protocol
begin

text \<open>
  Runs of \<^verbatim>\<open>rdisc\<close> without memory faults, expiry of silent routers, the solicitations, and what
  \<^verbatim>\<open>initifs\<close> stores about a device.
\<close>

section \<open>The array of interfaces\<close>

definition ifs_ok :: "ifstate \<Rightarrow> bool" where
  "ifs_ok s \<longleftrightarrow> num_interfaces s \<le> MAXIFS \<and> interfaces_size s \<le> MAXIFS \<and>
    (case interfaces s of None \<Rightarrow> num_interfaces s = 0 \<and> interfaces_size s = 0 | Some fs \<Rightarrow> length fs = MAXIFS)"

definition ifenv_ok :: "ifenv \<Rightarrow> bool" where
  "ifenv_ok E \<longleftrightarrow> if_mem_ok E \<and> (case if_conf E of None \<Rightarrow> True | Some ds \<Rightarrow> length ds \<le> MAXIFS)"

lemma ifs_loop_bounds:
  "length (fst (ifs_loop ds i fs)) = length fs \<and> i \<le> snd (ifs_loop ds i fs) \<and> snd (ifs_loop ds i fs) \<le> i + length ds"
proof (induction ds arbitrary: i fs)
  case (Cons d ds)
  obtain f adv where "probe_dev d (fs ! i) = (f, adv)" by fastforce
  then show ?case using Cons.IH [of "if adv then i + 1 else i" "fs[i := f]"] by (auto split: if_splits)
qed simp

lemma ifs_ok_initifs: "ifenv_ok E \<Longrightarrow> ifs_ok s \<Longrightarrow> ifs_ok (initifs E s)"
  using ifs_loop_bounds [of _ 0 "map (if_junk E) [0..<MAXIFS]"]
  by (auto simp: ifs_ok_def ifenv_ok_def initifs_def Let_def split: option.splits prod.splits) (metis le_trans fst_conv snd_conv add_0)+

lemma visible_ok: "ifs_ok s \<Longrightarrow> visible_ifs s \<noteq> None"
  by (auto simp: ifs_ok_def visible_ifs_def split: option.splits)

lemma ifs_ok_init: "ifenv_ok E \<Longrightarrow> ifs_ok s \<Longrightarrow> \<exists>s'. init_ifs E p s = Some s' \<and> ifs_ok s'"
  using ifs_ok_initifs [of E s] by (auto simp: init_ifs_def Let_def ifs_ok_def split: option.splits)

section \<open>No faults\<close>

definition rd_safe :: "rdisc \<Rightarrow> bool" where
  "rd_safe s \<longleftrightarrow> ifs_ok (rd_ifs s) \<and> rd_status s \<noteq> Rd_fault"

fun ev_ok :: "rd_event \<Rightarrow> bool" where
  "ev_ok (Ev_packet buf E) \<longleftrightarrow> 20 \<le> length buf"
| "ev_ok (Ev_alarm I E) \<longleftrightarrow> ifenv_ok I"
| "ev_ok (Ev_hup I) \<longleftrightarrow> ifenv_ok I"
| "ev_ok _ \<longleftrightarrow> True"

lemma rd_safe_cong: "rd_ifs s' = rd_ifs s \<Longrightarrow> rd_status s' = rd_status s \<Longrightarrow> rd_safe s' = rd_safe s"
  by (simp add: rd_safe_def)

lemma rd_safe_exit [simp]: "rd_safe s \<Longrightarrow> rd_safe (rd_exit c s)"
  by (simp add: rd_safe_def rd_exit_def)

lemma rd_safe_fork: "rd_safe s \<Longrightarrow> rd_safe (do_fork fk s)"
  by (simp add: do_fork_def rd_safe_def rd_exit_def split: fork_outcome.splits)

lemma rd_safe_advertise: "rd_safe s \<Longrightarrow> rd_safe (rd_advertise E a l s)"
  using visible_ok [of "rd_ifs s"] by (auto simp: rd_advertise_def rd_safe_def)

lemma rd_safe_solicitor: "rd_safe s \<Longrightarrow> rd_safe (rd_solicitor E a s)"
  using visible_ok [of "rd_ifs s"] by (auto simp: rd_solicitor_def rd_safe_def)

lemma ra_loop_reads:
  "\<forall>i \<in> set is. \<exists>a p. ra_entry wpa i icmp = Some (a, p) \<Longrightarrow> ra_loop K E best fs ttl wpa icmp is T \<noteq> None"
proof (induction "is" arbitrary: T)
  case (Cons i "is")
  then obtain a p where "ra_entry wpa i icmp = Some (a, p)" by auto
  with Cons show ?case by (simp del: not_None_eq)
qed simp

lemma rd_safe_advertisement:
  assumes "rd_safe s"
  shows "rd_safe (pr_advertisement K E icmp s)"
proof (cases "rd_responder s \<or> \<not> ra_valid icmp")
  case True
  then show ?thesis using assms by (auto simp: pr_advertisement_def)
next
  case False
  obtain fs where fs: "visible_ifs (rd_ifs s) = Some fs" using assms visible_ok by (auto simp: rd_safe_def)
  obtain T where T: "ra_loop K E (rd_best s) fs (ra_lifetime icmp) (unat (icmp ! 5)) icmp [0..<unat (icmp ! 4)] (rd_rt s) = Some T"
    using ra_loop_reads [OF ra_valid_entries] False by blast
  let ?s = "s\<lparr>rd_rt := T, rd_nreceived := rd_nreceived s + 1\<rparr>"
  have s: "rd_safe ?s" using assms by (simp add: rd_safe_def)
  then have "rd_safe ((do_fork (ev_fork E) ?s)\<lparr>rd_forever := True\<rparr>)" using rd_safe_fork [OF s] by (simp add: rd_safe_def)
  then show ?thesis using False fs T s by (simp add: pr_advertisement_def Let_def)
qed

lemma rd_safe_solicitation:
  assumes "rd_safe s" "20 \<le> length buf"
  shows "rd_safe (pr_solicitation E buf icmp s)"
proof -
  obtain fs where "visible_ifs (rd_ifs s) = Some fs" using assms(1) visible_ok by (auto simp: rd_safe_def)
  moreover have "rd_safe (rd_advertise E a l (s\<lparr>rd_nreceived := x, rd_ntransmitted := y\<rparr>))"
    "rd_safe (rd_advertise E a l (s\<lparr>left_until_advertise := z, rd_nreceived := x, rd_ntransmitted := y\<rparr>))" for a l x y z
    by (rule rd_safe_advertise, use assms(1) in \<open>simp add: rd_safe_def\<close>)+
  ultimately show ?thesis using assms by (simp add: pr_solicitation_def rd_bytes_inside Let_def)
qed

lemma rd_safe_pack:
  assumes "rd_safe s" "20 \<le> length buf"
  shows "rd_safe (pr_pack K E buf s)"
  using assms rd_safe_advertisement rd_safe_solicitation
  by (simp add: pr_pack_def rd_bytes_inside Let_def)

lemma rd_safe_send: "rd_safe s \<Longrightarrow> rd_safe (timer_send E s)"
proof -
  assume s: "rd_safe s"
  then have t: "rd_safe (s\<lparr>rd_ntransmitted := rd_ntransmitted s + 1\<rparr>)" by (simp add: rd_safe_def)
  from rd_safe_advertise [OF t] rd_safe_solicitor [OF t] s show ?thesis
    by (simp add: timer_send_def Let_def rd_safe_def rd_exit_def)
qed

lemma rd_safe_timer: "rd_safe s \<Longrightarrow> ifenv_ok I \<Longrightarrow> rd_safe (rd_timer K I E s)"
proof -
  assume "rd_safe s" "ifenv_ok I"
  then have "rd_safe (timer_ifs I (timer_count s))"
    by (simp add: timer_ifs_def timer_count_def rd_safe_def ifs_ok_initifs)
  from rd_safe_send [OF this] show ?thesis by (simp add: rd_timer_def Let_def rd_safe_def)
qed

lemma rd_safe_finish: "rd_safe s \<Longrightarrow> rd_safe (rd_finish E s)"
proof -
  assume s: "rd_safe s"
  then have t: "rd_safe (s\<lparr>rd_ntransmitted := rd_ntransmitted s + 1\<rparr>)" by (simp add: rd_safe_def)
  from rd_safe_advertise [OF t] s show ?thesis by (auto simp: rd_finish_def Let_def)
qed

lemma rd_safe_step: "rd_safe s \<Longrightarrow> ev_ok ev \<Longrightarrow> rd_safe (rd_step K ev s)"
proof (cases ev)
  case (Ev_term E)
  then show "rd_safe s \<Longrightarrow> ?thesis"
    using rd_safe_finish [of "s\<lparr>rd_rt := discard_table K (rd_rt s)\<rparr>" E] by (simp add: rd_step_def graceful_finish_def rd_safe_def)
next
  case (Ev_hup I)
  then show "rd_safe s \<Longrightarrow> ev_ok ev \<Longrightarrow> ?thesis" by (simp add: rd_step_def rd_safe_def ifs_ok_initifs)
qed (simp_all add: rd_step_def rd_safe_pack rd_safe_timer rd_safe_finish)

lemma rd_safe_start: "rd_safe (rd_start opts dest)"
  by (simp add: rd_safe_def rd_start_def ifs_ok_def)

interpretation rd_safety: step_system "rd_step K" "rd_start opts dest" ev_ok rd_safe
  for K opts dest
  by unfold_locales (simp_all add: rd_safe_start rd_safe_step)

lemma rd_safe_main:
  assumes "rdisc_main K M srv args = Inr s" "ifenv_ok (st_ifs M)" "ifenv_ok (st_timer_ifs M)"
  shows "rd_safe s"
proof -
  have init: "rd_safe (main_init M r s)" if "rd_safe s" for r s
  proof -
    obtain ifs where "init_ifs (st_ifs M) (rd_preference s) (rd_ifs s) = Some ifs" "ifs_ok ifs"
      using ifs_ok_init [OF assms(2)] \<open>rd_safe s\<close> by (auto simp: rd_safe_def)
    moreover from this visible_ok obtain fs where "visible_ifs ifs = Some fs" by auto
    ultimately show ?thesis using \<open>rd_safe s\<close> by (simp add: main_init_def Let_def rd_safe_def rd_exit_def)
  qed
  have fork: "rd_safe ((do_fork fk s)\<lparr>rd_forever := True\<rparr>)" if "rd_safe s" for fk s
    using rd_safe_fork [OF that] by (simp add: rd_safe_def)
  show ?thesis
    using assms(1) by (auto simp: rdisc_main_def Let_def split: sum.splits if_splits prod.splits
      intro!: rd_safe_timer [OF _ assms(3)] init fork rd_safe_start rd_safe_exit)
qed

section \<open>Silence\<close>

definition rd_quiet :: "rdisc \<Rightarrow> bool" where
  "rd_quiet s \<longleftrightarrow> \<not> rd_solicit s \<and> \<not> rd_responder s \<and> rd_status s = Rd_running \<and> flags_ok (rd_best s) (fst (rd_rt s))"

lemma timer_quiet:
  assumes "rd_quiet s"
  shows "rd_quiet (rd_timer K I E s)"
    and "view_of (fst (rd_rt (rd_timer K I E s))) = age_view TIMER_INTERVAL (view_of (fst (rd_rt s)))"
proof -
  have d: "distinct (map router (fst (rd_rt s)))" using assms by (simp add: rd_quiet_def flags_ok_def)
  let ?s = "timer_ifs I (timer_count s)"
  have s: "timer_send E ?s = ?s" "rd_status ?s = Rd_running" "\<not> rd_solicit ?s" "\<not> rd_responder ?s"
    using assms by (simp_all add: timer_send_def timer_ifs_def timer_count_def rd_quiet_def)
  then show "rd_quiet (rd_timer K I E s)" using assms by (simp add: rd_timer_def rd_quiet_def age_table_flags)
  show "view_of (fst (rd_rt (rd_timer K I E s))) = age_view TIMER_INTERVAL (view_of (fst (rd_rt s)))"
    using s by (simp add: rd_timer_def age_table_view [OF d])
qed

lemma alarms_view:
  "rd_quiet s \<Longrightarrow> rd_quiet (fold (rd_step K) (map (\<lambda>(I, E). Ev_alarm I E) xs) s) \<and>
    view_of (fst (rd_rt (fold (rd_step K) (map (\<lambda>(I, E). Ev_alarm I E) xs) s)))
      = (age_view TIMER_INTERVAL ^^ length xs) (view_of (fst (rd_rt s)))"
proof (induction xs arbitrary: s)
  case (Cons x xs)
  obtain I E where x: "x = (I, E)" by fastforce
  have "rd_step K (Ev_alarm I E) s = rd_timer K I E s" using Cons.prems by (simp add: rd_step_def rd_quiet_def)
  then show ?case using Cons.IH [OF timer_quiet(1) [OF Cons.prems]] timer_quiet(2) [OF Cons.prems]
    by (simp add: x funpow_swap1)
qed simp

lemma age_view_iterate:
  assumes "0 \<le> tm"
  shows "(age_view tm ^^ Suc n) V a = (case V a of None \<Rightarrow> None | Some (p, r) \<Rightarrow>
    if r > tm * int (Suc n) then Some (p, r - tm * int (Suc n)) else None)"
proof (induction n)
  case 0
  then show ?case by (simp add: age_view_def split: option.splits)
next
  case (Suc n)
  have "(age_view tm ^^ Suc (Suc n)) V a = age_view tm ((age_view tm ^^ Suc n) V) a" by simp
  also have "\<dots> = (case (age_view tm ^^ Suc n) V a of None \<Rightarrow> None | Some (p, r) \<Rightarrow> if r > tm then Some (p, r - tm) else None)"
    by (simp only: age_view_def)
  finally show ?case unfolding Suc.IH using assms by (auto simp: algebra_simps split: option.splits)
qed

section \<open>What is stored about a device\<close>

lemma probe_addrs_preference: "if_preference (fst (probe_addrs d ifr f)) = if_preference f"
  by (simp add: probe_addrs_def Let_def split: option.splits)

lemma probe_dev_preference: "if_preference (fst (probe_dev d f)) = if_preference f"
  by (simp add: probe_dev_def Let_def probe_addrs_preference split: option.splits)

lemma ifs_loop_preference: "map if_preference (fst (ifs_loop ds i fs)) = map if_preference fs"
proof (induction ds arbitrary: i fs)
  case (Cons d ds)
  obtain f adv where f: "probe_dev d (fs ! i) = (f, adv)" by fastforce
  then have "if_preference f = if_preference (fs ! i)" using probe_dev_preference [of d "fs ! i"] by simp
  then have "map if_preference (fs[i := f]) = map if_preference fs"
    by (cases "i < length fs") (simp_all add: map_update list_update_same_conv list_update_beyond)
  then show ?case using Cons.IH [of "if adv then i + 1 else i" "fs[i := f]"] f by simp
qed simp

lemma initifs_preference:
  assumes "if_sock_ok E" "if_buf_ok E" "if_mem_ok E" "if_conf E = Some ds" "visible_ifs (initifs E s) = Some fs" "i < length fs"
  shows "if_preference (fs ! i) = if_preference (if_junk E i)"
proof -
  let ?f = "ifs_loop ds 0 (map (if_junk E) [0..<MAXIFS])"
  have fs: "fs = take (snd ?f) (fst ?f)" using assms(1-5) by (auto simp: initifs_def visible_ifs_def Let_def split: prod.splits if_splits)
  have "if_preference (fst ?f ! i) = map if_preference (fst ?f) ! i" using assms(6) fs by simp
  also have "\<dots> = if_preference (if_junk E i)"
    using assms(6) fs ifs_loop_bounds [of ds 0 "map (if_junk E) [0..<MAXIFS]"] by (simp add: ifs_loop_preference)
  finally show ?thesis using assms(6) fs by simp
qed

lemma ucast_flag: "(ucast (ix :: u32) :: u16) AND IFF_POINTOPOINT \<noteq> 0 \<longleftrightarrow> bit ix 4"
proof -
  have p: "IFF_POINTOPOINT = 2 ^ 4" by (simp add: IFF_POINTOPOINT_def)
  have "(ucast ix :: u16) AND 2 ^ 4 = 0 \<longleftrightarrow> \<not> bit (ucast ix :: u16) 4" by (rule and_exp_eq_0_iff_not_bit)
  then show ?thesis unfolding p by (simp add: bit_simps)
qed

section \<open>The first tick\<close>

lemma rd_ifs_advertise [simp]: "rd_ifs (rd_advertise E a l s) = rd_ifs s" "rd_ifs (rd_solicitor E a s) = rd_ifs s"
  by (simp_all add: rd_advertise_def rd_solicitor_def rd_fault_def split: option.splits)

lemma rd_ifs_send [simp]: "rd_ifs (timer_send E s) = rd_ifs s"
  by (simp add: timer_send_def Let_def rd_exit_def)

lemma first_tick_rereads: "left_until_getifconf s = 0 \<Longrightarrow> rd_ifs (rd_timer K I E s) = initifs I (rd_ifs s)"
  by (simp add: rd_timer_def Let_def timer_ifs_def timer_count_def TIMER_INTERVAL_def)

lemma main_init_getifconf [simp]: "left_until_getifconf (main_init M r s) = left_until_getifconf s"
  by (simp add: main_init_def Let_def rd_fault_def rd_exit_def split: option.splits)

lemma do_fork_getifconf [simp]: "left_until_getifconf (do_fork fk s) = left_until_getifconf s"
  by (simp add: do_fork_def rd_exit_def split: fork_outcome.splits)

lemma main_rereads:
  assumes "rdisc_main K M srv args = Inr s" "rd_status s = Rd_running"
  shows "\<exists>x. rd_ifs s = initifs (st_timer_ifs M) x"
  using assms by (auto simp: rdisc_main_def Let_def first_tick_rereads rd_start_def rd_exit_def split: sum.splits if_splits prod.splits
    intro: exI [of _ "rd_ifs _"])

section \<open>Solicitation\<close>

definition soliciting :: "int \<Rightarrow> rdisc \<Rightarrow> bool" where
  "soliciting n s \<longleftrightarrow> rd_solicit s \<and> \<not> rd_forever s \<and> \<not> rd_responder s \<and> rd_nreceived s = 0 \<and> rd_ntransmitted s = n
     \<and> left_until_solicit s \<le> TIMER_INTERVAL \<and> rd_status s = Rd_running \<and> ifs_ok (rd_ifs s)"

lemma solicitor_sends:
  assumes "ifs_ok (rd_ifs s)"
  shows "\<exists>ds. rd_solicitor E a s = s\<lparr>rd_sent := rd_sent s @ ds\<rparr>"
  using visible_ok [OF assms] by (auto simp: rd_solicitor_def)

lemma timer_solicits:
  assumes "soliciting n s" "ifenv_ok I"
  shows "n + 1 < MAX_SOLICITATIONS \<Longrightarrow> soliciting (n + 1) (rd_timer K I E s)"
    and "\<not> n + 1 < MAX_SOLICITATIONS \<Longrightarrow> rd_status (rd_timer K I E s) = Rd_exit 5 \<and> rd_ntransmitted (rd_timer K I E s) = n + 1"
proof -
  let ?s = "timer_ifs I (timer_count s)"
  have s: "rd_solicit ?s" "\<not> rd_forever ?s" "\<not> rd_responder ?s" "rd_nreceived ?s = 0" "rd_ntransmitted ?s = n"
    "left_until_solicit ?s \<le> 0" "rd_status ?s = Rd_running" "ifs_ok (rd_ifs ?s)"
    using assms by (simp_all add: soliciting_def timer_ifs_def timer_count_def TIMER_INTERVAL_def ifs_ok_initifs)
  obtain ds where ds: "rd_solicitor E (rd_whereto ?s) (?s\<lparr>rd_ntransmitted := n + 1\<rparr>)
      = ?s\<lparr>rd_ntransmitted := n + 1, rd_sent := rd_sent ?s @ ds\<rparr>"
    using solicitor_sends [of "?s\<lparr>rd_ntransmitted := n + 1\<rparr>" E "rd_whereto ?s"] s(8) by auto
  show "soliciting (n + 1) (rd_timer K I E s)" if "n + 1 < MAX_SOLICITATIONS"
    using that s ds by (simp add: rd_timer_def timer_send_def soliciting_def SOLICITATION_INTERVAL_def TIMER_INTERVAL_def)
  show "rd_status (rd_timer K I E s) = Rd_exit 5 \<and> rd_ntransmitted (rd_timer K I E s) = n + 1" if "\<not> n + 1 < MAX_SOLICITATIONS"
    using that s ds by (simp add: rd_timer_def timer_send_def rd_exit_def)
qed

lemma main_solicits:
  assumes "rd_options srv args opts_start = Inr (av, opts)" "o_solicit opts" "\<not> o_forever opts"
    and "rdisc_main K M srv args = Inr s" "rd_status s = Rd_running" "ifenv_ok (st_ifs M)" "ifenv_ok (st_timer_ifs M)"
  shows "soliciting 1 s"
proof -
  obtain sa ra where "rd_addresses (st_multicast M) (o_responder opts) av = Inr (sa, ra)" "\<not> o_responder opts"
    using assms(1,2,4) by (auto simp: rdisc_main_def Let_def split: sum.splits if_splits prod.splits)
  then obtain s3 where s3: "s = rd_timer K (st_timer_ifs M) (st_timer M) s3"
      "s3 = main_init M ra (rd_start opts (st_inet_addr M sa))" "rd_status s3 = Rd_running"
    using assms(1-5) by (auto simp: rdisc_main_def Let_def rd_start_def rd_exit_def split: if_splits)
  obtain ifs where ifs: "init_ifs (st_ifs M) (rd_preference (rd_start opts (st_inet_addr M sa))) (rd_ifs (rd_start opts (st_inet_addr M sa))) = Some ifs"
      "ifs_ok ifs"
    using ifs_ok_init [OF assms(6)] rd_safe_start [of opts "st_inet_addr M sa"] unfolding rd_safe_def by blast
  then obtain fs where "visible_ifs ifs = Some fs" using visible_ok by blast
  then have "s3 = (rd_start opts (st_inet_addr M sa))\<lparr>rd_ifs := ifs\<rparr>"
    using s3(2,3) ifs by (auto simp: main_init_def Let_def split: if_splits)
  then have "soliciting 0 s3" using s3(3) ifs(2) assms(2,3) \<open>\<not> o_responder opts\<close>
    by (simp add: soliciting_def rd_start_def TIMER_INTERVAL_def)
  from timer_solicits(1) [OF this assms(7)] show ?thesis by (simp add: s3(1) MAX_SOLICITATIONS_def)
qed

end
