(* ===== verification/Rdisc_Properties.thy ===== *)
theory Rdisc_Properties
  imports Rdisc_Safety
begin

text \<open>
  The properties of \<^verbatim>\<open>rdisc\<close>, with applications to a
  host with one Ethernet interface, 10.0.0.5/24, and a router 10.0.0.1.
\<close>

definition demo_done :: "nat \<Rightarrow> rt_outcome" where
  "demo_done n = Rt_done"

definition demo_slot :: iface where
  "demo_slot = \<lparr>if_address = 0, if_localaddr = 0, if_preference = 77, if_flags = 0, if_bcastaddr = 0, if_remoteaddr = 0,
     if_netmask = 0, if_index = 0, if_name = []\<rparr>"

definition demo_dev :: netdev where
  "demo_dev = \<lparr>dev_name = ''eth0'', dev_family = AF_INET, dev_addr = 0x0500000a, dev_flags = Some 0x1003, dev_index = Some 2,
     dev_dstaddr = None, dev_netmask = Some 0x00ffffff, dev_brdaddr = Some 0xff00000a\<rparr>"

definition demo_ifenv :: ifenv where
  "demo_ifenv = \<lparr>if_sock_ok = True, if_buf_ok = True, if_mem_ok = True, if_junk = (\<lambda>_. demo_slot), if_conf = Some [demo_dev]\<rparr>"

definition demo_renv :: renv where
  "demo_renv = \<lparr>ev_mem = (\<lambda>_. True), ev_net = (\<lambda>_. (True, 8)), ev_random = 0, ev_fork = Fork_done\<rparr>"

definition demo_rd_main :: start_env where
  "demo_rd_main = \<lparr>st_multicast = True, st_inet_addr = (\<lambda>_. 0x020000e0), st_fork = Fork_done, st_socket_ok = True,
     st_join_ok = (\<lambda>_. True), st_ifs = demo_ifenv, st_timer_ifs = demo_ifenv, st_timer = demo_renv\<rparr>"

definition demo_rdisc :: "string list \<Rightarrow> rdisc" where
  "demo_rdisc args = (case rdisc_main demo_done demo_rd_main True args of Inr s \<Rightarrow> s | Inl _ \<Rightarrow> rd_start opts_start 0)"

definition demo_router :: iface where
  "demo_router = demo_slot\<lparr>if_localaddr := 0x0100000a, if_preference := 5\<rparr>"

definition demo_header :: "octet list" where
  "demo_header = 0x45 # replicate 19 0"

definition demo_packet :: rd_event where
  "demo_packet = Ev_packet (demo_header @ advertisement 1800 demo_router) demo_renv"

lemma demo_all_done: "all_done demo_done"
  by (simp add: all_done_def demo_done_def)

lemma demo_started: "rdisc_main demo_done demo_rd_main True [''-f''] = Inr (demo_rdisc [''-f''])"
  by code_simp

section \<open>Routes\<close>

text \<open>
  C6. In every run of \<^verbatim>\<open>rdisc\<close>, from any command line and under any sequence of packets and
  signals, the routes its requests leave in a kernel that accepts them are the default routes
  of the table's best routers: eligible, and of the largest preference unless all are accepted.
  Routes it never asked for are left alone.
\<close>
theorem rdisc_routes_best:
  assumes "rdisc_main K M srv args = Inr s0" "all_done K" "s = fold (rd_step K) evs s0"
  shows "kernel_routes R (snd (rd_rt s)) = best_routes (rd_best s) (view_of (fst (rd_rt s))) \<union> (R - touched (snd (rd_rt s)))"
proof -
  have "rd_inv K R s" unfolding assms(3) by (rule rd_sys.invar_fold [OF rd_inv_main [OF assms(1)]]) simp
  then show ?thesis unfolding rd_inv_def by (rule table_inv_routes [OF _ assms(2)])
qed

theorem rdisc_routes_best_witness:
  "kernel_routes {7} (snd (rd_rt (fold (rd_step demo_done) [demo_packet] (demo_rdisc [''-f'']))))
    = best_routes (rd_best (fold (rd_step demo_done) [demo_packet] (demo_rdisc [''-f''])))
        (view_of (fst (rd_rt (fold (rd_step demo_done) [demo_packet] (demo_rdisc [''-f''])))))
      \<union> ({7} - touched (snd (rd_rt (fold (rd_step demo_done) [demo_packet] (demo_rdisc [''-f''])))))
    \<and> snd (rd_rt (fold (rd_step demo_done) [demo_packet] (demo_rdisc [''-f'']))) = [(SIOCADDRT, 0x0100000a, Rt_done)]"
proof (rule conjI)
  show "snd (rd_rt (fold (rd_step demo_done) [demo_packet] (demo_rdisc [''-f'']))) = [(SIOCADDRT, 0x0100000a, Rt_done)]"
    by code_simp
qed (rule rdisc_routes_best [OF demo_started demo_all_done refl])

text \<open>
  C13. The table refines a finite map. In every state \<^verbatim>\<open>rdisc\<close> reaches, a packet with a valid
  advertisement enters each advertised address that is a neighbour, with its preference (the
  ineligible one if the lifetime is below four seconds) and its lifetime, in the order of the
  packet, and changes nothing else in the table.
\<close>
theorem rdisc_records_neighbours:
  assumes "rdisc_main K M srv args = Inr s0" "s = fold (rd_step K) evs s0" "rd_status s = Rd_running" "\<not> rd_responder s"
    and "visible_ifs (rd_ifs s) = Some fs" "\<forall>i. ev_mem E i"
    and "hdr \<noteq> []" "unat (hd hdr AND 15) * 4 = length hdr" "8 \<le> length icmp" "icmp ! 0 = ICMP_ROUTER_ADVERTISEMENT" "ra_valid icmp"
  shows "view_of (fst (rd_rt (rd_step K (Ev_packet (hdr @ icmp) E) s)))
    = fold (\<lambda>(a, p). record_view a p (ra_lifetime icmp)) (neighbours fs icmp) (view_of (fst (rd_rt s)))"
proof -
  have "rd_inv K {} s" unfolding assms(2) by (rule rd_sys.invar_fold [OF rd_inv_main [OF assms(1)]]) simp
  then have "flags_ok (rd_best s) (fst (rd_rt s))" by (simp add: rd_inv_def table_inv_def)
  from advertisement_recorded(1) [OF this assms(6,11,4,5)] show ?thesis
    using assms(3,7-10) by (cases hdr) (simp_all add: rd_step_def pr_pack_def rd_bytes_def)
qed

theorem rdisc_records_neighbours_witness:
  "view_of (fst (rd_rt (rd_step demo_done (Ev_packet (demo_header @ advertisement 1800 demo_router) demo_renv) (demo_rdisc [''-f'']))))
    = fold (\<lambda>(a, p). record_view a p (ra_lifetime (advertisement 1800 demo_router)))
        (neighbours (the (visible_ifs (rd_ifs (demo_rdisc [''-f''])))) (advertisement 1800 demo_router)) (view_of (fst (rd_rt (demo_rdisc [''-f'']))))"
  by (rule rdisc_records_neighbours [OF demo_started, of _ "[]"]) (simp add: demo_renv_def | code_simp)+

text \<open>
  C23. Routers and hosts agree. Every datagram that the router's side sends in one call of
  \<^verbatim>\<open>advertise\<close> is, on a host that receives it behind any IP header, recorded as the address of
  one of the router's interfaces with the preference and the lifetime given to the call,
  provided that the host has an interface on that network.
\<close>
theorem advertisement_roundtrip:
  assumes "dg \<in> set (advertise N a lft 0 ifs)" "0 \<le> lft" "lft < 65536"
    and "\<forall>f \<in> set ifs. - 2147483648 \<le> if_preference f \<and> if_preference f < 2147483648"
    and "flags_ok (rd_best s) (fst (rd_rt s))" "\<not> rd_responder s" "visible_ifs (rd_ifs s) = Some fs" "\<forall>i. ev_mem E i"
    and "hdr \<noteq> []" "unat (hd hdr AND 15) * 4 = length hdr"
  shows "\<exists>f \<in> set ifs. view_of (fst (rd_rt (pr_pack K E (hdr @ dg_bytes dg) s))) =
    (if is_directly_connected (if_localaddr f) fs then record_view (if_localaddr f) (if_preference f) lft (view_of (fst (rd_rt s)))
     else view_of (fst (rd_rt s)))"
proof -
  obtain f where f: "f \<in> set ifs" "dg_bytes dg = advertisement lft f" using advertise_bytes [OF assms(1)] by blast
  have "- 2147483648 \<le> if_preference f" "if_preference f < 2147483648" using assms(4) f(1) by blast+
  from advertisement_received [OF assms(5,8,6,7,9,10,2,3) this] f show ?thesis by (intro bexI [of _ f]) simp_all
qed

theorem advertisement_roundtrip_witness:
  "\<exists>f \<in> set [demo_router].
    view_of (fst (rd_rt (pr_pack demo_done demo_renv (demo_header @ dg_bytes (hd (advertise (\<lambda>_. (True, 16)) 0x010000e0 1800 0 [demo_router])))
      (demo_rdisc [''-f''])))) =
    (if is_directly_connected (if_localaddr f) (the (visible_ifs (rd_ifs (demo_rdisc [''-f'']))))
     then record_view (if_localaddr f) (if_preference f) 1800 (view_of (fst (rd_rt (demo_rdisc [''-f'']))))
     else view_of (fst (rd_rt (demo_rdisc [''-f'']))))"
  by (rule advertisement_roundtrip [where a = "0x010000e0" and N = "\<lambda>_. (True, 16)"]) (simp add: demo_renv_def | code_simp)+

text \<open>
  Routers that fall silent expire. When only the timer runs, \<open>n > 0\<close> ticks leave exactly the
  routers whose remaining time exceeded \<open>3 n\<close> seconds, with that much less time left and
  their preference unchanged.
\<close>
theorem silent_routers_expire:
  assumes "rdisc_main K M srv args = Inr s0" "s = fold (rd_step K) evs s0" "rd_status s = Rd_running"
    and "\<not> rd_solicit s" "\<not> rd_responder s" "xs \<noteq> []"
  shows "view_of (fst (rd_rt (fold (rd_step K) (map (\<lambda>(I, E). Ev_alarm I E) xs) s))) a =
    (case view_of (fst (rd_rt s)) a of None \<Rightarrow> None
     | Some (p, r) \<Rightarrow> if r > 3 * int (length xs) then Some (p, r - 3 * int (length xs)) else None)"
proof -
  have "rd_inv K {} s" unfolding assms(2) by (rule rd_sys.invar_fold [OF rd_inv_main [OF assms(1)]]) simp
  then have q: "rd_quiet s" using assms(3-5) by (simp add: rd_inv_def table_inv_def rd_quiet_def)
  obtain n where n: "length xs = Suc n" using assms(6) by (cases xs) simp_all
  have "(0 :: int) \<le> 3" by simp
  then show ?thesis unfolding conjunct2 [OF alarms_view [OF q]] TIMER_INTERVAL_def n by (rule age_view_iterate)
qed

theorem silent_routers_expire_witness:
  "view_of (fst (rd_rt (fold (rd_step demo_done) (map (\<lambda>(I, E). Ev_alarm I E) [(demo_ifenv, demo_renv), (demo_ifenv, demo_renv)])
      (fold (rd_step demo_done) [demo_packet] (demo_rdisc [''-f'']))))) 0x0100000a =
    (case view_of (fst (rd_rt (fold (rd_step demo_done) [demo_packet] (demo_rdisc [''-f''])))) 0x0100000a of None \<Rightarrow> None
     | Some (p, r) \<Rightarrow> if r > 3 * int (length [(demo_ifenv, demo_renv), (demo_ifenv, demo_renv)])
         then Some (p, r - 3 * int (length [(demo_ifenv, demo_renv), (demo_ifenv, demo_renv)])) else None)"
  by (rule silent_routers_expire [OF demo_started refl]) (simp | code_simp)+

section \<open>Solicitation\<close>

text \<open>
  Started with option \<^verbatim>\<open>-s\<close> and without \<^verbatim>\<open>-f\<close>, \<^verbatim>\<open>rdisc\<close> solicits three times, at its start and at the
  next two ticks, and then ends with status 5 if no router has answered.
\<close>
theorem solicits_three_times:
  assumes "rd_options srv args opts_start = Inr (av, opts)" "o_solicit opts" "\<not> o_forever opts"
    and "rdisc_main K M srv args = Inr s1" "rd_status s1 = Rd_running"
    and "ifenv_ok (st_ifs M)" "ifenv_ok (st_timer_ifs M)" "ifenv_ok I2" "ifenv_ok I3"
    and "s2 = rd_step K (Ev_alarm I2 E2) s1" "s3 = rd_step K (Ev_alarm I3 E3) s2"
  shows "rd_ntransmitted s1 = 1 \<and> rd_status s2 = Rd_running \<and> rd_ntransmitted s2 = 2 \<and> rd_status s3 = Rd_exit 5 \<and> rd_ntransmitted s3 = 3"
proof -
  note 1 = main_solicits [OF assms(1-7)]
  have s2: "s2 = rd_timer K I2 E2 s1" using 1 by (simp add: assms(10) rd_step_def soliciting_def)
  have 2: "soliciting 2 s2" using timer_solicits(1) [OF 1 assms(8), of K E2] by (simp add: s2 MAX_SOLICITATIONS_def)
  have s3: "s3 = rd_timer K I3 E3 s2" using 2 by (simp add: assms(11) rd_step_def soliciting_def)
  have "rd_status s3 = Rd_exit 5 \<and> rd_ntransmitted s3 = 3"
    using timer_solicits(2) [OF 2 assms(9), of K E3] by (simp add: s3 MAX_SOLICITATIONS_def)
  with 1 2 show ?thesis by (simp add: soliciting_def)
qed

theorem solicits_three_times_witness:
  "rd_ntransmitted (demo_rdisc [''-s'']) = 1
    \<and> rd_status (rd_step demo_done (Ev_alarm demo_ifenv demo_renv) (demo_rdisc [''-s''])) = Rd_running
    \<and> rd_ntransmitted (rd_step demo_done (Ev_alarm demo_ifenv demo_renv) (demo_rdisc [''-s''])) = 2
    \<and> rd_status (rd_step demo_done (Ev_alarm demo_ifenv demo_renv) (rd_step demo_done (Ev_alarm demo_ifenv demo_renv) (demo_rdisc [''-s'']))) = Rd_exit 5
    \<and> rd_ntransmitted (rd_step demo_done (Ev_alarm demo_ifenv demo_renv) (rd_step demo_done (Ev_alarm demo_ifenv demo_renv) (demo_rdisc [''-s'']))) = 3"
proof -
  have 1: "rd_options True [''-s''] opts_start = Inr ([], opts_start\<lparr>o_solicit := True\<rparr>)" by code_simp
  have 2: "rdisc_main demo_done demo_rd_main True [''-s''] = Inr (demo_rdisc [''-s''])" by code_simp
  show ?thesis
    by (rule solicits_three_times [OF 1 _ _ 2 _ _ _ _ _ refl refl]) code_simp+
qed

section \<open>Memory\<close>

text \<open>
  C18. While memory can be allocated for the interfaces, no run of \<^verbatim>\<open>rdisc\<close> reads beyond the end of a
  packet, whatever the packets contain behind twenty bytes of IP header, or accesses the
  array of interfaces outside of its bounds.
\<close>
theorem rdisc_never_faults:
  assumes "rdisc_main K M srv args = Inr s0" "ifenv_ok (st_ifs M)" "ifenv_ok (st_timer_ifs M)" "\<forall>ev \<in> set evs. ev_ok ev"
  shows "rd_status (fold (rd_step K) evs s0) \<noteq> Rd_fault"
  using rd_safety.invar_fold [OF rd_safe_main [OF assms(1-3)] assms(4), of K] by (simp add: rd_safe_def)

theorem rdisc_never_faults_witness:
  "rd_status (fold (rd_step demo_done) [demo_packet, Ev_alarm demo_ifenv demo_renv, Ev_hup demo_ifenv] (demo_rdisc [''-f''])) \<noteq> Rd_fault"
  by (rule rdisc_never_faults [OF demo_started]) code_simp+

text \<open>
  Without that memory the number of interfaces stays at its old value while the array is gone,
  and the next advertisement is a fault.
\<close>
lemma null_interfaces_fault:
  "rd_status (fold (rd_step demo_done) [Ev_hup (demo_ifenv\<lparr>if_mem_ok := False\<rparr>), demo_packet] (demo_rdisc [''-f''])) = Rd_fault"
  by code_simp

section \<open>Interfaces\<close>

text \<open>
  C32. Whether an interface is treated as a point-to-point link does not depend on its flags. The
  flags are read after the index of the interface was stored in the same union, so that bit 4 of
  the index decides; an Ethernet interface with index 16 is identified by a remote address, and a
  point-to-point link with index 2 by its own address and mask.
\<close>
theorem interface_kind_from_index:
  assumes "length (dev_name d) < IFNAMSIZ" "dev_flags d = Some fl" "usable_dev d fl" "dev_index d = Some ix"
    and "dev_dstaddr d = Some r" "dev_netmask d = Some m" "dev_brdaddr d = Some b"
  shows "snd (probe_dev d f)
    \<and> if_remoteaddr (fst (probe_dev d f)) = (if bit ix 4 then r else dev_addr d)
    \<and> if_netmask (fst (probe_dev d f)) = (if bit ix 4 then 0xffffffff else m)
    \<and> if_bcastaddr (fst (probe_dev d f)) = (if bit ix 4 then r else b)"
proof -
  have n: "\<not> IFNAMSIZ \<le> length (dev_name d)" using assms(1) by simp
  have k: "AF_INET AND IFF_BROADCAST \<noteq> 0" by (simp add: AF_INET_def IFF_BROADCAST_def)
  note defs = probe_dev_def probe_addrs_def Let_def ucast_flag ifr_flags.simps n assms(2-) k
  show ?thesis by (simp add: defs)
qed

definition demo_ppp :: netdev where
  "demo_ppp = \<lparr>dev_name = ''ppp0'', dev_family = AF_INET, dev_addr = 0x0500000a, dev_flags = Some 0x1011, dev_index = Some 2,
     dev_dstaddr = Some 0x0900000a, dev_netmask = Some 0xffffffff, dev_brdaddr = Some 0\<rparr>"

lemma demo_ppp_facts:
  "length (dev_name demo_ppp) < IFNAMSIZ" "dev_flags demo_ppp = Some 0x1011" "usable_dev demo_ppp 0x1011" "dev_index demo_ppp = Some 2"
  "dev_dstaddr demo_ppp = Some 0x0900000a" "dev_netmask demo_ppp = Some 0xffffffff" "dev_brdaddr demo_ppp = Some 0"
  by code_simp+

theorem interface_kind_from_index_witness:
  "if_remoteaddr (fst (probe_dev demo_ppp demo_slot)) = 0x0500000a \<and> 0x1011 AND IFF_POINTOPOINT \<noteq> 0
    \<and> \<not> is_directly_connected 0x0900000a [fst (probe_dev demo_ppp demo_slot)]"
proof (intro conjI)
  have "if_remoteaddr (fst (probe_dev demo_ppp demo_slot)) = (if bit (2 :: u32) 4 then 0x0900000a else dev_addr demo_ppp)"
    using interface_kind_from_index [of demo_ppp "0x1011" 2 "0x0900000a" "0xffffffff" 0 demo_slot]
    by (simp add: demo_ppp_facts)
  moreover have "\<not> bit (2 :: u32) 4" by code_simp
  ultimately show "if_remoteaddr (fst (probe_dev demo_ppp demo_slot)) = 0x0500000a" by (simp add: demo_ppp_def)
  show "0x1011 AND IFF_POINTOPOINT \<noteq> 0" by code_simp
  show "\<not> is_directly_connected 0x0900000a [fst (probe_dev demo_ppp demo_slot)]" by code_simp
qed

text \<open>
  The preference given with option \<^verbatim>\<open>-p\<close> is never advertised. It is stored for the first array of
  interfaces, which the first call of the timer replaces before it sends anything; the new
  array holds the preferences \<^verbatim>\<open>malloc\<close> left there.
\<close>
theorem rdisc_preference_lost:
  assumes "rdisc_main K M srv args = Inr s" "rd_status s = Rd_running"
    and "if_sock_ok (st_timer_ifs M)" "if_buf_ok (st_timer_ifs M)" "if_mem_ok (st_timer_ifs M)" "if_conf (st_timer_ifs M) = Some ds"
    and "visible_ifs (rd_ifs s) = Some fs" "i < length fs"
  shows "if_preference (fs ! i) = if_preference (if_junk (st_timer_ifs M) i)"
proof -
  obtain x where "rd_ifs s = initifs (st_timer_ifs M) x" using main_rereads [OF assms(1,2)] by blast
  then show ?thesis using initifs_preference [OF assms(3-6) _ assms(8)] assms(7) by simp
qed

theorem rdisc_preference_lost_witness:
  "if_preference (the (visible_ifs (rd_ifs (demo_rdisc [''-r'', ''-p'', ''5'']))) ! 0) = 77
    \<and> rd_preference (demo_rdisc [''-r'', ''-p'', ''5'']) = 5"
proof (rule conjI)
  have "rdisc_main demo_done demo_rd_main True [''-r'', ''-p'', ''5''] = Inr (demo_rdisc [''-r'', ''-p'', ''5''])" by code_simp
  then have "if_preference (the (visible_ifs (rd_ifs (demo_rdisc [''-r'', ''-p'', ''5'']))) ! 0) = if_preference (if_junk (st_timer_ifs demo_rd_main) 0)"
    by (rule rdisc_preference_lost) code_simp+
  then show "if_preference (the (visible_ifs (rd_ifs (demo_rdisc [''-r'', ''-p'', ''5'']))) ! 0) = 77"
    by (simp add: demo_rd_main_def demo_ifenv_def demo_slot_def)
qed code_simp

text \<open>With two addresses on the command line, the first is used for both purposes.\<close>
lemma receive_address_ignored: "rd_addresses mc resp [x, y] = Inr (x, x)"
  by (simp add: rd_addresses_def)

end
