(* ===== verification/Is_Random.thy ===== *)
theory Is_Random
  imports Probed_Stats
begin

text \<open>
  The random number generator and the creation of the keys in the integer-sort benchmark
  (\<^verbatim>\<open>src/NPB-CPUTests/IS/is.c\<close>). The generator works on variables of type \<^verbatim>\<open>double\<close>: every
  operation is the exact one followed by the rounding of the parameter \<open>u\<close>. All values that
  occur have at most 48 significant bits, so that a rounding which leaves the numbers with 53
  bits alone does not change them, and the generator is the multiplication modulo \<open>2 ^ 46\<close>.
\<close>

section \<open>Definitions\<close>

text \<open>The constants, computed in loops at the first call.\<close>

definition halves :: "fpu \<Rightarrow> nat \<Rightarrow> real" where
  "halves u n = ((\<lambda>r. rnd_double u (0.50 * r)) ^^ n) 1"

definition doubles :: "fpu \<Rightarrow> nat \<Rightarrow> real" where
  "doubles u n = ((\<lambda>r. rnd_double u (2.0 * r)) ^^ n) 1"

text \<open>The conversion of a \<^verbatim>\<open>double\<close> to an \<^verbatim>\<open>int\<close> truncates.\<close>

definition to_int :: "real \<Rightarrow> int" where
  "to_int x = (if 0 \<le> x then \<lfloor>x\<rfloor> else \<lceil>x\<rceil>)"

text \<open>
  \<^verbatim>\<open>randlc\<close>: the new value of \<^verbatim>\<open>*X\<close> and the result.
\<close>

definition randlc :: "fpu \<Rightarrow> real \<Rightarrow> real \<Rightarrow> real \<times> real" where
  "randlc u X A =
    (let rn = rnd_double u;
         R23 = halves u 23; R46 = halves u 46; T23 = doubles u 23; T46 = doubles u 46;
         A1 = real_of_int (to_int (rn (R23 * A))); A2 = rn (A - rn (T23 * A1));
         X1 = real_of_int (to_int (rn (R23 * X))); X2 = rn (X - rn (T23 * X1));
         T1 = rn (rn (A1 * X2) + rn (A2 * X1));
         T2 = real_of_int (to_int (rn (R23 * T1)));
         Z = rn (T1 - rn (T23 * T2));
         T3 = rn (rn (T23 * Z) + rn (A2 * X2));
         T4 = real_of_int (to_int (rn (R46 * T3)));
         X' = rn (T3 - rn (T46 * T4))
     in (X', rn (R46 * X')))"

text \<open>\<^verbatim>\<open>find_my_seed\<close>: the seed of thread \<open>kn\<close> of \<open>np\<close>.\<close>

function seed_loop :: "fpu \<Rightarrow> int \<Rightarrow> real \<Rightarrow> real \<Rightarrow> real \<times> real" where
  "seed_loop u kk t1 t2 =
    (if kk > 1 then
       (let ik = c_div kk 2
        in if 2 * ik = kk then seed_loop u ik t1 (fst (randlc u t2 t2))
           else seed_loop u (kk - 1) (fst (randlc u t1 t2)) t2)
     else (t1, t2))"
  by pat_completeness auto
termination by (relation "measure (\<lambda>(u, kk, t1, t2). nat kk)") auto

declare seed_loop.simps [simp del]

definition find_my_seed :: "fpu \<Rightarrow> int \<Rightarrow> int \<Rightarrow> int \<Rightarrow> real \<Rightarrow> real \<Rightarrow> real" where
  "find_my_seed u kn np nn s a =
    (if kn = 0 then s
     else
       (let mq = c_div (c_div nn 4 + np - 1) np; nq = mq * 4 * kn
        in case seed_loop u nq s a of (t1, t2) \<Rightarrow> fst (randlc u t1 t2)))"

text \<open>
  One key, from four numbers; \<open>mk\<close> is \<^verbatim>\<open>MAX_KEY\<close>. Then \<open>n\<close> keys, and the part of thread
  \<open>myid\<close>; the parts of all threads one after the other fill the array.
\<close>

definition next_key :: "fpu \<Rightarrow> int \<Rightarrow> real \<Rightarrow> real \<Rightarrow> int \<times> real" where
  "next_key u mk s an =
    (case randlc u s an of (s1, x1) \<Rightarrow>
     case randlc u s1 an of (s2, x2) \<Rightarrow>
     case randlc u s2 an of (s3, x3) \<Rightarrow>
     case randlc u s3 an of (s4, x4) \<Rightarrow>
       (let x = rnd_double u (rnd_double u (rnd_double u (x1 + x2) + x3) + x4)
        in (to_int (rnd_double u (real_of_int (c_div mk 4) * x)), s4)))"

fun key_loop :: "fpu \<Rightarrow> int \<Rightarrow> real \<Rightarrow> nat \<Rightarrow> real \<Rightarrow> int list" where
  "key_loop u mk an 0 s = []"
| "key_loop u mk an (Suc n) s = (case next_key u mk s an of (k, s') \<Rightarrow> k # key_loop u mk an n s')"

definition thread_range :: "int \<Rightarrow> int \<Rightarrow> int \<Rightarrow> int \<times> int" where
  "thread_range nk np myid =
    (let mq = c_div (nk + np - 1) np; k1 = mq * myid; k2 = k1 + mq in (k1, if k2 > nk then nk else k2))"

definition thread_keys :: "fpu \<Rightarrow> int \<Rightarrow> int \<Rightarrow> real \<Rightarrow> real \<Rightarrow> int \<Rightarrow> int \<Rightarrow> int list" where
  "thread_keys u mk nk seed a np myid =
    (case thread_range nk np myid of (k1, k2) \<Rightarrow>
       key_loop u mk a (nat (k2 - k1)) (find_my_seed u myid np (4 * nk) seed a))"

definition create_seq :: "fpu \<Rightarrow> int \<Rightarrow> int \<Rightarrow> nat \<Rightarrow> real \<Rightarrow> real \<Rightarrow> int list" where
  "create_seq u mk nk np seed a = concat (map (\<lambda>t. thread_keys u mk nk seed a (int np) (int t)) [0..<np])"

section \<open>Exactness\<close>

text \<open>
  What is used of the arithmetic: numbers \<open>m / 2 ^ e\<close> with an integer \<open>m\<close> of at most 53 bits are
  not changed by rounding.
\<close>

definition ieee_double :: "fpu \<Rightarrow> bool" where
  "ieee_double u \<longleftrightarrow> (\<forall>m :: int. \<forall>e :: nat. \<bar>m\<bar> \<le> 2 ^ 53 \<longrightarrow> e \<le> 1022 \<longrightarrow>
     rnd_double u (real_of_int m / 2 ^ e) = real_of_int m / 2 ^ e)"

lemma exact_fpu_ieee: "ieee_double exact_fpu"
  by (simp add: ieee_double_def exact_fpu_def)

lemma rnd_frac: "ieee_double u \<Longrightarrow> \<bar>m\<bar> \<le> 2 ^ 53 \<Longrightarrow> e \<le> 1022 \<Longrightarrow> rnd_double u (real_of_int m / 2 ^ e) = real_of_int m / 2 ^ e"
  by (simp add: ieee_double_def)

lemma rnd_int: "ieee_double u \<Longrightarrow> \<bar>m\<bar> \<le> 2 ^ 53 \<Longrightarrow> rnd_double u (real_of_int m) = real_of_int m"
  using rnd_frac [of u m 0] by simp

lemma halves_eq: "ieee_double u \<Longrightarrow> n \<le> 1022 \<Longrightarrow> halves u n = 1 / 2 ^ n"
proof (induction n)
  case (Suc n)
  then have "halves u (Suc n) = rnd_double u (real_of_int 1 / 2 ^ Suc n)" by (simp add: halves_def mult.commute)
  then show ?case using rnd_frac [OF Suc.prems(1), of 1 "Suc n"] Suc.prems(2) by simp
qed (simp add: halves_def)

lemma doubles_eq: "ieee_double u \<Longrightarrow> n \<le> 53 \<Longrightarrow> doubles u n = real_of_int (2 ^ n)"
proof (induction n)
  case (Suc n)
  then have "doubles u (Suc n) = rnd_double u (real_of_int (2 ^ Suc n))" by (simp add: doubles_def)
  also have "\<dots> = real_of_int (2 ^ Suc n)"
    using Suc.prems power_increasing [of "Suc n" 53 "2 :: int"] by (intro rnd_int) simp_all
  finally show ?case .
qed (simp add: doubles_def)

lemma to_int_frac: "0 \<le> m \<Longrightarrow> to_int (real_of_int m / 2 ^ e) = m div 2 ^ e"
  using floor_divide_of_int_eq [of m "2 ^ e", where 'a = real] by (simp add: to_int_def)

lemma rnd_scale: "ieee_double u \<Longrightarrow> 0 \<le> m \<Longrightarrow> m < 2 ^ 53 \<Longrightarrow> e \<le> 53 \<Longrightarrow>
    rnd_double u (halves u e * real_of_int m) = real_of_int m / 2 ^ e"
  using rnd_frac [of u m e] halves_eq [of u e] by simp

text \<open>Splitting a number into its upper and lower bits.\<close>

lemma split_bits:
  assumes u: "ieee_double u" and m: "0 \<le> m" "m < 2 ^ 53" and e: "e \<le> 53"
  shows "to_int (rnd_double u (halves u e * real_of_int m)) = m div 2 ^ e"
    and "rnd_double u (real_of_int m - rnd_double u (doubles u e * real_of_int (m div 2 ^ e))) = real_of_int (m mod 2 ^ e)"
proof -
  have "rnd_double u (halves u e * real_of_int m) = real_of_int m / 2 ^ e"
    by (rule rnd_scale [OF u m e])
  then show "to_int (rnd_double u (halves u e * real_of_int m)) = m div 2 ^ e" using to_int_frac [OF m(1)] by simp
  have le: "0 \<le> 2 ^ e * (m div 2 ^ e)" "2 ^ e * (m div 2 ^ e) \<le> m" "0 \<le> m mod 2 ^ e" "m mod 2 ^ e \<le> m"
    using m(1) by (simp_all add: pos_imp_zdiv_nonneg_iff minus_mod_eq_mult_div [symmetric] zmod_le_nonneg_dividend)
  have "rnd_double u (doubles u e * real_of_int (m div 2 ^ e)) = real_of_int (2 ^ e * (m div 2 ^ e))"
    using rnd_int [OF u, of "2 ^ e * (m div 2 ^ e)"] le m doubles_eq [OF u e] by simp
  then have "rnd_double u (real_of_int m - rnd_double u (doubles u e * real_of_int (m div 2 ^ e)))
      = rnd_double u (real_of_int (m - 2 ^ e * (m div 2 ^ e)))" by simp
  also have "m - 2 ^ e * (m div 2 ^ e) = m mod 2 ^ e" by (simp add: minus_mult_div_eq_mod)
  also have "rnd_double u (real_of_int (m mod 2 ^ e)) = real_of_int (m mod 2 ^ e)" using rnd_int [OF u] le m by simp
  finally show "rnd_double u (real_of_int m - rnd_double u (doubles u e * real_of_int (m div 2 ^ e))) = real_of_int (m mod 2 ^ e)" .
qed

lemma rnd_mult: "ieee_double u \<Longrightarrow> 0 \<le> a \<Longrightarrow> 0 \<le> b \<Longrightarrow> a < 2 ^ 23 \<Longrightarrow> b < 2 ^ 23 \<Longrightarrow>
    rnd_double u (real_of_int a * real_of_int b) = real_of_int (a * b) \<and> 0 \<le> a * b \<and> a * b < 2 ^ 46"
  using rnd_int [of u "a * b"] mult_strict_mono' [of a "2 ^ 23" b "2 ^ 23"] by simp

lemma rnd_add: "ieee_double u \<Longrightarrow> 0 \<le> a \<Longrightarrow> 0 \<le> b \<Longrightarrow> a < 2 ^ 46 \<Longrightarrow> b < 2 ^ 46 \<Longrightarrow>
    rnd_double u (real_of_int a + real_of_int b) = real_of_int (a + b) \<and> 0 \<le> a + b \<and> a + b < 2 ^ 47"
  using rnd_int [of u "a + b"] by simp

lemma rnd_shift: "ieee_double u \<Longrightarrow> 0 \<le> z \<Longrightarrow> z < 2 ^ 23 \<Longrightarrow>
    rnd_double u (doubles u 23 * real_of_int z) = real_of_int (2 ^ 23 * z) \<and> 0 \<le> 2 ^ 23 * z \<and> 2 ^ 23 * z < 2 ^ 46"
  using rnd_int [of u "2 ^ 23 * z"] doubles_eq [of u 23] by simp

text \<open>The product modulo \<open>2 ^ 46\<close> from the parts.\<close>

lemma product_parts:
  fixes a x :: int
  assumes "t = (a div 2 ^ 23) * (x mod 2 ^ 23) + (a mod 2 ^ 23) * (x div 2 ^ 23)"
  shows "(2 ^ 23 * (t mod 2 ^ 23) + (a mod 2 ^ 23) * (x mod 2 ^ 23)) mod 2 ^ 46 = (a * x) mod 2 ^ 46"
proof -
  define a1 a2 x1 x2 where d: "a1 = a div 2 ^ 23" "a2 = a mod 2 ^ 23" "x1 = x div 2 ^ 23" "x2 = x mod 2 ^ 23"
  have ax: "a = 2 ^ 23 * a1 + a2" "x = 2 ^ 23 * x1 + x2" "t = a1 * x2 + a2 * x1" "t = 2 ^ 23 * (t div 2 ^ 23) + t mod 2 ^ 23"
    using assms unfolding d by simp_all
  have "a * x = 2 ^ 46 * (a1 * x1) + 2 ^ 23 * t + a2 * x2" unfolding ax(3) by (simp add: ax(1,2) algebra_simps)
  also have "\<dots> = 2 ^ 46 * (a1 * x1 + t div 2 ^ 23) + (2 ^ 23 * (t mod 2 ^ 23) + a2 * x2)"
  proof -
    have "8388608 * t = 70368744177664 * (t div 8388608) + 8388608 * (t mod 8388608)"
      using div_mult_mod_eq [of t 8388608] by linarith
    then show ?thesis by (simp add: distrib_left)
  qed
  finally have "(a * x) mod 2 ^ 46 = (2 ^ 23 * (t mod 2 ^ 23) + a2 * x2) mod 2 ^ 46" by (simp only: mod_mult_self4)
  then show ?thesis unfolding d by simp
qed

lemma randlc_exact:
  assumes u: "ieee_double u" and x: "0 \<le> x" "x < 2 ^ 46" and a: "0 \<le> a" "a < 2 ^ 46"
  shows "randlc u (real_of_int x) (real_of_int a) = (real_of_int ((a * x) mod 2 ^ 46), real_of_int ((a * x) mod 2 ^ 46) / 2 ^ 46)"
proof -
  define a1 a2 x1 x2 where d: "a1 = a div 2 ^ 23" "a2 = a mod 2 ^ 23" "x1 = x div 2 ^ 23" "x2 = x mod 2 ^ 23"
  have div23: "0 \<le> m div 2 ^ 23" "m div 2 ^ 23 < 2 ^ 23" if "0 \<le> m" "m < 2 ^ 46" for m :: int
    using that zdiv_mono1 [of m "2 ^ 46 - 1" "2 ^ 23"] by (simp_all add: pos_imp_zdiv_nonneg_iff)
  have r: "0 \<le> a1" "a1 < 2 ^ 23" "0 \<le> a2" "a2 < 2 ^ 23" "0 \<le> x1" "x1 < 2 ^ 23" "0 \<le> x2" "x2 < 2 ^ 23"
    using div23 [OF a] div23 [OF x] unfolding d by simp_all
  have up: "m < 2 ^ 53" if "m < 2 ^ 47" for m :: int using that by simp
  have b: "a < 2 ^ 53" "x < 2 ^ 53" "(23 :: nat) \<le> 53" "(46 :: nat) \<le> 53" using a(2) x(2) by simp_all
  note sa = split_bits [OF u a(1) b(1,3), folded d] and sx = split_bits [OF u x(1) b(2,3), folded d]
  note p1 = rnd_mult [OF u r(1,7,2,8)] and p2 = rnd_mult [OF u r(3,5,4,6)] and p3 = rnd_mult [OF u r(3,7,4,8)]
  define t where "t = a1 * x2 + a2 * x1"
  have t: "rnd_double u (real_of_int (a1 * x2) + real_of_int (a2 * x1)) = real_of_int t" "0 \<le> t" "t < 2 ^ 47"
    using rnd_add [OF u, of "a1 * x2" "a2 * x1"] p1 p2 unfolding t_def by blast+
  note st = split_bits [OF u t(2) up [OF t(3)] b(3)]
  define z where "z = t mod 2 ^ 23"
  have "0 \<le> z" "z < 2 ^ 23" by (simp_all add: z_def)
  note z = rnd_shift [OF u this]
  define t3 where "t3 = 2 ^ 23 * z + a2 * x2"
  have t3: "rnd_double u (real_of_int (2 ^ 23 * z) + real_of_int (a2 * x2)) = real_of_int t3" "0 \<le> t3" "t3 < 2 ^ 47"
    using rnd_add [OF u, of "2 ^ 23 * z" "a2 * x2"] p3 z unfolding t3_def by blast+
  note s3 = split_bits [OF u t3(2) up [OF t3(3)] b(4)]
  have "0 \<le> t3 mod 2 ^ 46" "t3 mod 2 ^ 46 < 2 ^ 47"
    using pos_mod_bound [of "2 ^ 46" t3] by simp_all
  then have fin: "rnd_double u (halves u 46 * real_of_int (t3 mod 2 ^ 46)) = real_of_int (t3 mod 2 ^ 46) / 2 ^ 46"
    using rnd_scale [OF u _ up b(4)] by blast
  have "randlc u (real_of_int x) (real_of_int a) = (real_of_int (t3 mod 2 ^ 46), real_of_int (t3 mod 2 ^ 46) / 2 ^ 46)"
    unfolding randlc_def Let_def sa sx conjunct1 [OF p1] conjunct1 [OF p2] conjunct1 [OF p3] t(1) st z_def [symmetric] conjunct1 [OF z] t3(1) s3 fin ..
  moreover have "t3 mod 2 ^ 46 = (a * x) mod 2 ^ 46" unfolding t3_def z_def d by (rule product_parts) (simp only: t_def d)
  ultimately show ?thesis by simp
qed

section \<open>The sequence of numbers\<close>

text \<open>The \<open>i\<close>-th number after \<open>s\<close>, and the \<open>i\<close>-th key for keys of \<open>l\<close> bits.\<close>

definition nth_rand :: "int \<Rightarrow> int \<Rightarrow> nat \<Rightarrow> int" where
  "nth_rand a s i = (a ^ i * s) mod 2 ^ 46"

definition nth_key :: "nat \<Rightarrow> int \<Rightarrow> int \<Rightarrow> nat \<Rightarrow> int" where
  "nth_key l a s i =
    (nth_rand a s (4 * i + 1) + nth_rand a s (4 * i + 2) + nth_rand a s (4 * i + 3) + nth_rand a s (4 * i + 4)) div 2 ^ (48 - l)"

definition lcg :: "int \<Rightarrow> int \<Rightarrow> int" where
  "lcg a x = (a * x) mod 2 ^ 46"

definition rand_arg :: "int \<Rightarrow> bool" where
  "rand_arg x \<longleftrightarrow> 0 \<le> x \<and> x < 2 ^ 46"

lemma rand_arg_mod [simp]: "rand_arg (x mod 2 ^ 46)"
  by (simp add: rand_arg_def)

lemma rand_arg_lcg [simp]: "rand_arg (lcg a x)"
  unfolding lcg_def by (rule rand_arg_mod)

lemma rand_arg_nth [simp]: "rand_arg (nth_rand a s i)"
  unfolding nth_rand_def by (rule rand_arg_mod)

lemma nth_rand_0: "rand_arg s \<Longrightarrow> nth_rand a s 0 = s"
  by (simp add: nth_rand_def rand_arg_def)

lemma nth_rand_add: "nth_rand a (nth_rand a s j) i = nth_rand a s (j + i)"
proof -
  have "(a ^ i * ((a ^ j * s) mod 2 ^ 46)) mod 2 ^ 46 = (a ^ i * (a ^ j * s)) mod 2 ^ 46" by (rule mod_mult_right_eq)
  also have "a ^ i * (a ^ j * s) = a ^ (j + i) * s" by (simp only: power_add mult.assoc mult.left_commute)
  finally show ?thesis unfolding nth_rand_def .
qed

lemma nth_key_shift: "nth_key l a (nth_rand a s (4 * j)) i = nth_key l a s (j + i)"
  by (simp add: nth_key_def nth_rand_add distrib_left add.assoc)

lemma randlc_next: "ieee_double u \<Longrightarrow> rand_arg x \<Longrightarrow> rand_arg a \<Longrightarrow>
    randlc u (real_of_int x) (real_of_int a) = (real_of_int (lcg a x), real_of_int (lcg a x) / 2 ^ 46)"
  unfolding rand_arg_def lcg_def using randlc_exact by blast

lemma seed_loop_exact:
  assumes u: "ieee_double u"
  shows "0 < k \<Longrightarrow> rand_arg s \<Longrightarrow> rand_arg a \<Longrightarrow>
    \<exists>s' a'. seed_loop u (int k) (real_of_int s) (real_of_int a) = (real_of_int s', real_of_int a')
      \<and> rand_arg s' \<and> rand_arg a' \<and> lcg a' s' = nth_rand a s k"
proof (induction k arbitrary: s a rule: less_induct)
  case (less k)
  show ?case
  proof (cases "k = 1")
    case True
    then show ?thesis using less.prems by (auto simp: seed_loop.simps nth_rand_def lcg_def)
  next
    case False
    then have k: "1 < int k" using less.prems(1) by simp
    show ?thesis
    proof (cases "even k")
      case True
      then obtain m where m: "k = 2 * m" by (elim evenE)
      have "seed_loop u (int k) (real_of_int s) (real_of_int a) = seed_loop u (int m) (real_of_int s) (real_of_int (lcg a a))"
        using k randlc_next [OF u less.prems(3,3)] unfolding seed_loop.simps [of u "int k"] by (simp add: m Let_def)
      moreover obtain s' a' where "seed_loop u (int m) (real_of_int s) (real_of_int (lcg a a)) = (real_of_int s', real_of_int a')"
        "rand_arg s'" "rand_arg a'" "lcg a' s' = nth_rand (lcg a a) s m"
        using less.IH [of m s "lcg a a"] less.prems k m by auto
      moreover have "nth_rand (lcg a a) s m = nth_rand a s k"
        unfolding nth_rand_def lcg_def m power_mult power2_eq_square
        using mod_mult_left_eq [of "((a * a) mod 2 ^ 46) ^ m" "2 ^ 46" s] mod_mult_left_eq [of "(a * a) ^ m" "2 ^ 46" s]
        by (simp only: power_mod)
      ultimately show ?thesis by auto
    next
      case False
      have n: "2 * c_div (int k) 2 \<noteq> int k" "int k - 1 = int (k - 1)" using False k by (simp, presburger, simp)
      have "seed_loop u (int k) (real_of_int s) (real_of_int a) = seed_loop u (int (k - 1)) (real_of_int (lcg a s)) (real_of_int a)"
        using k n randlc_next [OF u less.prems(2,3)] unfolding seed_loop.simps [of u "int k"] by (simp add: Let_def)
      moreover obtain s' a' where "seed_loop u (int (k - 1)) (real_of_int (lcg a s)) (real_of_int a) = (real_of_int s', real_of_int a')"
        "rand_arg s'" "rand_arg a'" "lcg a' s' = nth_rand a (lcg a s) (k - 1)"
        using less.IH [of "k - 1" "lcg a s" a] less.prems k by auto
      moreover have "nth_rand a (lcg a s) (k - 1) = nth_rand a s k"
        using nth_rand_add [of a s 1 "k - 1"] k by (simp add: nth_rand_def lcg_def)
      ultimately show ?thesis by auto
    qed
  qed
qed

lemma find_my_seed_exact:
  assumes u: "ieee_double u" and r: "rand_arg s" "rand_arg a" and n: "0 < nk" "0 < np"
  shows "find_my_seed u (int t) (int np) (4 * int nk) (real_of_int s) (real_of_int a) = real_of_int (nth_rand a s (4 * ((nk + np - 1) div np * t)))"
proof (cases "t = 0")
  case True
  then show ?thesis using nth_rand_0 [OF r(1)] by (simp add: find_my_seed_def)
next
  case False
  let ?q = "(nk + np - 1) div np * t * 4"
  have "0 < (nk + np - 1) div np" using n by (simp add: div_greater_zero_iff)
  then have q: "0 < ?q" using False by simp
  have "c_div (c_div (4 * int nk) 4 + int np - 1) (int np) = int ((nk + np - 1) div np)"
    using n by (simp add: zdiv_int of_nat_diff)
  then have nq: "c_div (c_div (4 * int nk) 4 + int np - 1) (int np) * 4 * int t = int ?q" by simp
  obtain s' a' where "seed_loop u (int ?q) (real_of_int s) (real_of_int a) = (real_of_int s', real_of_int a')"
    "rand_arg s'" "rand_arg a'" "lcg a' s' = nth_rand a s ?q"
    using seed_loop_exact [OF u q r] by blast
  then show ?thesis
    using False randlc_next [OF u] unfolding find_my_seed_def Let_def nq by (simp add: mult.commute)
qed

section \<open>The keys\<close>

lemma rnd_add_frac: "ieee_double u \<Longrightarrow> 0 \<le> a \<Longrightarrow> 0 \<le> b \<Longrightarrow> a + b \<le> 2 ^ 53 \<Longrightarrow> e \<le> 1022 \<Longrightarrow>
    rnd_double u (real_of_int a / 2 ^ e + real_of_int b / 2 ^ e) = real_of_int (a + b) / 2 ^ e"
  using rnd_frac [of u "a + b" e] by (simp add: add_divide_distrib)

lemma key_of_sum:
  assumes u: "ieee_double u" and m: "0 \<le> m" "m < 2 ^ 53" and l: "2 \<le> l" "l \<le> 48"
  shows "to_int (rnd_double u (real_of_int (c_div (2 ^ l) 4) * (real_of_int m / 2 ^ 46))) = m div 2 ^ (48 - l)"
proof -
  obtain j where j: "l = 2 + j" using l(1) le_Suc_ex by blast
  have "(2 :: int) ^ l = 4 * 2 ^ j" by (simp add: j power_add)
  then have k: "c_div (2 ^ l) 4 = 2 ^ j" by simp
  have p: "(2 :: real) ^ 46 = 2 ^ j * 2 ^ (48 - l)" unfolding power_add [symmetric] using l(2) j by simp
  have "real_of_int (c_div (2 ^ l) 4) * (real_of_int m / 2 ^ 46) = real_of_int m / 2 ^ (48 - l)"
    unfolding k p by (simp add: field_simps)
  then show ?thesis using rnd_frac [OF u, of m "48 - l"] m to_int_frac [OF m(1)] by simp
qed

lemma next_key_exact:
  assumes u: "ieee_double u" and r: "rand_arg s" "rand_arg a" and l: "2 \<le> l" "l \<le> 48"
  shows "next_key u (2 ^ l) (real_of_int s) (real_of_int a) = (nth_key l a s 0, real_of_int (nth_rand a s 4))"
proof -
  define x1 x2 x3 x4 where x: "x1 = lcg a s" "x2 = lcg a x1" "x3 = lcg a x2" "x4 = lcg a x3"
  have b: "rand_arg x1" "rand_arg x2" "rand_arg x3" "rand_arg x4" by (simp_all add: x)
  note n = randlc_next [OF u r, folded x] randlc_next [OF u b(1) r(2), folded x] randlc_next [OF u b(2) r(2), folded x]
    randlc_next [OF u b(3) r(2), folded x]
  have step: "lcg a (nth_rand a s i) = nth_rand a s (i + 1)" for i
    using nth_rand_add [of a s i 1] by (simp add: lcg_def nth_rand_def)
  have e: "x1 = nth_rand a s 1" "x2 = nth_rand a s 2" "x3 = nth_rand a s 3" "x4 = nth_rand a s 4"
    using step [of 0] step [of 1] step [of 2] step [of 3] nth_rand_0 [OF r(1)] by (simp_all add: x eval_nat_numeral)
  have m: "0 \<le> x1" "x1 < 2 ^ 46" "0 \<le> x2" "x2 < 2 ^ 46" "0 \<le> x3" "x3 < 2 ^ 46" "0 \<le> x4" "x4 < 2 ^ 46"
    using b unfolding rand_arg_def by blast+
  have s: "x1 + x2 \<le> 2 ^ 53" "x1 + x2 + x3 \<le> 2 ^ 53" "x1 + x2 + x3 + x4 < 2 ^ 53" using m by simp_all
  have "rnd_double u (real_of_int x1 / 2 ^ 46 + real_of_int x2 / 2 ^ 46) = real_of_int (x1 + x2) / 2 ^ 46"
    by (rule rnd_add_frac [OF u]) (use m s in simp_all)
  moreover have "rnd_double u (real_of_int (x1 + x2) / 2 ^ 46 + real_of_int x3 / 2 ^ 46) = real_of_int (x1 + x2 + x3) / 2 ^ 46"
    by (rule rnd_add_frac [OF u]) (use m s in simp_all)
  moreover have "rnd_double u (real_of_int (x1 + x2 + x3) / 2 ^ 46 + real_of_int x4 / 2 ^ 46) = real_of_int (x1 + x2 + x3 + x4) / 2 ^ 46"
    by (rule rnd_add_frac [OF u]) (use m s in simp_all)
  ultimately have sm: "rnd_double u (rnd_double u (rnd_double u (real_of_int x1 / 2 ^ 46 + real_of_int x2 / 2 ^ 46)
      + real_of_int x3 / 2 ^ 46) + real_of_int x4 / 2 ^ 46) = real_of_int (x1 + x2 + x3 + x4) / 2 ^ 46" by (simp only:)
  have "next_key u (2 ^ l) (real_of_int s) (real_of_int a) = ((x1 + x2 + x3 + x4) div 2 ^ (48 - l), real_of_int x4)"
    unfolding next_key_def n prod.case sm Let_def using m s(3) by (subst key_of_sum [OF u _ _ l]) simp_all
  then show ?thesis by (simp add: nth_key_def e eval_nat_numeral)
qed

lemma key_loop_exact:
  assumes "ieee_double u" "rand_arg a" "2 \<le> l" "l \<le> 48"
  shows "rand_arg s \<Longrightarrow> key_loop u (2 ^ l) (real_of_int a) n (real_of_int s) = map (nth_key l a s) [0..<n]"
proof (induction n arbitrary: s)
  case (Suc n)
  have "nth_key l a (nth_rand a s 4) = (\<lambda>i. nth_key l a s (Suc i))" using nth_key_shift [of l a s 1] by (auto simp: fun_eq_iff)
  then show ?case using Suc assms next_key_exact [OF assms(1) Suc.prems assms(2-4)]
    by (simp add: map_Suc_upt [symmetric] upt_conv_Cons del: upt_Suc)
qed simp

text \<open>The ranges of the threads cover the array.\<close>

lemma concat_ranges: "concat (map (\<lambda>t. map f [q * t..<min (q * t + q) n]) [0..<np]) = map f [0..<min (q * np) (n :: nat)]"
proof (induction np)
  case (Suc np)
  have "[0..<min (q * Suc np) n] = [0..<min (q * np) n] @ [q * np..<min (q * np + q) n]"
  proof (cases "q * np \<le> n")
    case True
    then have "[0..<min (q * Suc np) n] = [0..<q * np] @ [q * np..<min (q * Suc np) n]"
      using upt_add_eq_append [of 0 "q * np" "min (q * Suc np) n - q * np"] by simp
    with True show ?thesis by (simp add: min_absorb1 add.commute)
  next
    case False
    then show ?thesis by (simp add: min_absorb2)
  qed
  with Suc show ?case by simp
qed simp

lemma ceiling_covers: "0 < np \<Longrightarrow> n \<le> (n + np - 1) div np * (np :: nat)"
proof -
  assume "0 < np"
  then have "(n + np - 1) mod np \<le> np - 1" using mod_less_divisor [of np "n + np - 1"] by linarith
  moreover have "n + np - 1 = (n + np - 1) div np * np + (n + np - 1) mod np" by simp
  ultimately show ?thesis using \<open>0 < np\<close> by linarith
qed

lemma thread_keys_exact:
  assumes u: "ieee_double u" and r: "rand_arg s" "rand_arg a" and l: "2 \<le> l" "l \<le> 48" and n: "0 < nk" "0 < np"
  shows "thread_keys u (2 ^ l) (int nk) (real_of_int s) (real_of_int a) (int np) (int t) =
    map (nth_key l a s) [(nk + np - 1) div np * t..<min ((nk + np - 1) div np * t + (nk + np - 1) div np) nk]"
proof -
  let ?q = "(nk + np - 1) div np"
  have q: "c_div (int nk + int np - 1) (int np) = int ?q" using n by (simp add: zdiv_int of_nat_diff)
  have rng: "thread_range (int nk) (int np) (int t) = (int (?q * t), int (min (?q * t + ?q) nk))"
    unfolding thread_range_def Let_def q by (simp add: min_def flip: of_nat_mult of_nat_add)
  have nd: "nat (int m - int n) = m - n" for m n by simp
  have "thread_keys u (2 ^ l) (int nk) (real_of_int s) (real_of_int a) (int np) (int t)
      = key_loop u (2 ^ l) (real_of_int a) (min (?q * t + ?q) nk - ?q * t) (real_of_int (nth_rand a s (4 * (?q * t))))"
    unfolding thread_keys_def rng find_my_seed_exact [OF u r n] by (simp only: prod.case nd)
  also have "\<dots> = map (nth_key l a (nth_rand a s (4 * (?q * t)))) [0..<min (?q * t + ?q) nk - ?q * t]"
    using key_loop_exact [OF u r(2) l] by simp
  also have "\<dots> = map (\<lambda>i. nth_key l a s (?q * t + i)) [0..<min (?q * t + ?q) nk - ?q * t]" by (simp add: nth_key_shift)
  also have "\<dots> = map (nth_key l a s) (map (\<lambda>i. i + ?q * t) [0..<min (?q * t + ?q) nk - ?q * t])"
    by (simp add: add.commute)
  also have "\<dots> = map (nth_key l a s) [?q * t..<min (?q * t + ?q) nk]" by (cases "?q * t \<le> min (?q * t + ?q) nk") (simp_all add: map_add_upt)
  finally show ?thesis .
qed

lemma create_seq_exact:
  assumes "ieee_double u" "rand_arg s" "rand_arg a" "2 \<le> l" "l \<le> 48" "0 < nk" "0 < np"
  shows "create_seq u (2 ^ l) (int nk) np (real_of_int s) (real_of_int a) = map (nth_key l a s) [0..<nk]"
proof -
  let ?q = "(nk + np - 1) div np"
  have "create_seq u (2 ^ l) (int nk) np (real_of_int s) (real_of_int a)
      = concat (map (\<lambda>t. map (nth_key l a s) [?q * t..<min (?q * t + ?q) nk]) [0..<np])"
    unfolding create_seq_def thread_keys_exact [OF assms] ..
  also have "\<dots> = map (nth_key l a s) [0..<min (?q * np) nk]" by (rule concat_ranges)
  also have "min (?q * np) nk = nk" using ceiling_covers [OF assms(7), of nk] by simp
  finally show ?thesis .
qed

lemma div_pred_self: "0 < (d :: int) \<Longrightarrow> (c * d - 1) div d = c - 1"
  by (rule int_div_pos_eq [of _ _ _ "d - 1"]) (simp_all add: algebra_simps)

lemma nth_key_range:
  assumes "l \<le> 48"
  shows "0 \<le> nth_key l a s i" "nth_key l a s i < 2 ^ l"
proof -
  let ?m = "nth_rand a s (4 * i + 1) + nth_rand a s (4 * i + 2) + nth_rand a s (4 * i + 3) + nth_rand a s (4 * i + 4)"
  have b: "0 \<le> nth_rand a s j" "nth_rand a s j < 2 ^ 46" for j using rand_arg_nth unfolding rand_arg_def by blast+
  have m: "0 \<le> ?m" "?m < 2 ^ 48"
    using b [of "4 * i + 1"] b [of "4 * i + 2"] b [of "4 * i + 3"] b [of "4 * i + 4"] by simp_all
  then show "0 \<le> nth_key l a s i" by (simp add: nth_key_def pos_imp_zdiv_nonneg_iff)
  have "(2 :: int) ^ 48 = 2 ^ l * 2 ^ (48 - l)" using assms by (simp only: power_add [symmetric]) simp
  with m(2) have "?m < 2 ^ l * 2 ^ (48 - l)" by simp
  then show "nth_key l a s i < 2 ^ l" unfolding nth_key_def using zdiv_mono1 [of ?m "2 ^ l * 2 ^ (48 - l) - 1" "2 ^ (48 - l)"] div_pred_self [of "2 ^ (48 - l)" "2 ^ l"] by simp
qed

end
