(* ===== verification/Is_Rank.thy ===== *)
theory Is_Rank
  imports Baseliner_Prelude
begin

text \<open>
  Ranking and sorting in the integer-sort benchmark (\<^verbatim>\<open>src/NPB-CPUTests/IS/is.c\<close>, with
  \<^verbatim>\<open>USE_BUCKETS\<close> and OpenMP). Keys, counts and indices are never negative and are natural
  numbers. The threads of a parallel region are explicit: the static schedule gives each of
  them a consecutive part of the keys, of any size; the phase in which all threads write to
  one array is a machine whose steps are taken in any order; and the buckets of a dynamic
  schedule are processed in any order, each by any thread.
\<close>

section \<open>Parameters\<close>

datatype npb_class = Class_S | Class_W | Class_A | Class_B | Class_C | Class_D

record is_params =
  TOTAL_KEYS_LOG_2 :: nat
  MAX_KEY_LOG_2 :: nat
  NUM_BUCKETS_LOG_2 :: nat
  test_index_array :: "nat list"
  test_rank_array :: "int list"

fun class_params :: "npb_class \<Rightarrow> is_params" where
  "class_params Class_S = \<lparr>TOTAL_KEYS_LOG_2 = 16, MAX_KEY_LOG_2 = 11, NUM_BUCKETS_LOG_2 = 9,
     test_index_array = [48427, 17148, 23627, 62548, 4431], test_rank_array = [0, 18, 346, 64917, 65463]\<rparr>"
| "class_params Class_W = \<lparr>TOTAL_KEYS_LOG_2 = 20, MAX_KEY_LOG_2 = 16, NUM_BUCKETS_LOG_2 = 10,
     test_index_array = [357773, 934767, 875723, 898999, 404505], test_rank_array = [1249, 11698, 1039987, 1043896, 1048018]\<rparr>"
| "class_params Class_A = \<lparr>TOTAL_KEYS_LOG_2 = 23, MAX_KEY_LOG_2 = 19, NUM_BUCKETS_LOG_2 = 10,
     test_index_array = [2112377, 662041, 5336171, 3642833, 4250760], test_rank_array = [104, 17523, 123928, 8288932, 8388264]\<rparr>"
| "class_params Class_B = \<lparr>TOTAL_KEYS_LOG_2 = 25, MAX_KEY_LOG_2 = 21, NUM_BUCKETS_LOG_2 = 10,
     test_index_array = [41869, 812306, 5102857, 18232239, 26860214], test_rank_array = [33422937, 10244, 59149, 33135281, 99]\<rparr>"
| "class_params Class_C = \<lparr>TOTAL_KEYS_LOG_2 = 27, MAX_KEY_LOG_2 = 23, NUM_BUCKETS_LOG_2 = 10,
     test_index_array = [44172927, 72999161, 74326391, 129606274, 21736814],
     test_rank_array = [61147, 882988, 266290, 133997595, 133525895]\<rparr>"
| "class_params Class_D = \<lparr>TOTAL_KEYS_LOG_2 = 31, MAX_KEY_LOG_2 = 27, NUM_BUCKETS_LOG_2 = 10,
     test_index_array = [1317351170, 995930646, 1157283250, 1503301535, 1453734525],
     test_rank_array = [1, 36538729, 1978098519, 2145192618, 2147425337]\<rparr>"

definition NUM_KEYS :: "is_params \<Rightarrow> nat" where "NUM_KEYS p = 2 ^ TOTAL_KEYS_LOG_2 p"
definition MAX_KEY :: "is_params \<Rightarrow> nat" where "MAX_KEY p = 2 ^ MAX_KEY_LOG_2 p"
definition NUM_BUCKETS :: "is_params \<Rightarrow> nat" where "NUM_BUCKETS p = 2 ^ NUM_BUCKETS_LOG_2 p"
definition MAX_ITERATIONS :: nat where "MAX_ITERATIONS = 10"
definition TEST_ARRAY_SIZE :: nat where "TEST_ARRAY_SIZE = 5"

definition shift :: "is_params \<Rightarrow> nat" where "shift p = MAX_KEY_LOG_2 p - NUM_BUCKETS_LOG_2 p"

section \<open>The parallel bucket sort\<close>

text \<open>The bucket of a key, and the static schedule with parts of the sizes \<open>ns\<close>.\<close>

definition bucket :: "nat \<Rightarrow> nat \<Rightarrow> nat" where
  "bucket sh k = k div 2 ^ sh"

fun split_parts :: "nat list \<Rightarrow> 'a list \<Rightarrow> 'a list list" where
  "split_parts [] xs = []"
| "split_parts (n # ns) xs = take n xs # split_parts ns (drop n xs)"

text \<open>\<^verbatim>\<open>bucket_size\<close> of one thread.\<close>

definition count_part :: "nat \<Rightarrow> nat \<Rightarrow> nat list \<Rightarrow> nat list" where
  "count_part sh nb ks = fold (\<lambda>k w. w[bucket sh k := w ! bucket sh k + 1]) ks (replicate nb 0)"

text \<open>\<^verbatim>\<open>bucket_ptrs\<close> of thread \<open>t\<close>, from the sizes of all threads.\<close>

definition sizes_at :: "nat list list \<Rightarrow> nat \<Rightarrow> nat list \<Rightarrow> nat" where
  "sizes_at szs i ts = sum_list (map (\<lambda>k. szs ! k ! i) ts)"

fun bucket_ptr :: "nat list list \<Rightarrow> nat \<Rightarrow> nat \<Rightarrow> nat" where
  "bucket_ptr szs t 0 = sizes_at szs 0 [0..<t]"
| "bucket_ptr szs t (Suc i) = bucket_ptr szs t i + sizes_at szs (Suc i) [0..<t] + sizes_at szs i [t..<length szs]"

definition bucket_ptrs :: "nat \<Rightarrow> nat list list \<Rightarrow> nat \<Rightarrow> nat list" where
  "bucket_ptrs nb szs t = map (bucket_ptr szs t) [0..<nb]"

text \<open>
  Sorting into buckets: thread \<open>t\<close> takes one step of its loop, or is at the end of its part.
\<close>

record scatter =
  sc_buff :: "nat list"
  sc_ptrs :: "nat list list"
  sc_next :: "nat list"

definition scatter_step :: "nat \<Rightarrow> nat list list \<Rightarrow> nat \<Rightarrow> scatter \<Rightarrow> scatter" where
  "scatter_step sh parts t st =
    (let i = sc_next st ! t
     in if i < length (parts ! t) then
          (let k = parts ! t ! i; b = bucket sh k; p = sc_ptrs st ! t ! b
           in \<lparr>sc_buff = (sc_buff st)[p := k], sc_ptrs = (sc_ptrs st)[t := (sc_ptrs st ! t)[b := p + 1]],
               sc_next = (sc_next st)[t := i + 1]\<rparr>)
        else st)"

text \<open>\<open>sched\<close> is the order in which the threads take their steps.\<close>

definition scatter_run :: "nat \<Rightarrow> nat list list \<Rightarrow> nat list \<Rightarrow> scatter \<Rightarrow> scatter" where
  "scatter_run sh parts sched st = fold (scatter_step sh parts) sched st"

text \<open>After it each thread adds the sizes of the later threads to its pointers.\<close>

definition final_ptrs :: "nat list list \<Rightarrow> nat \<Rightarrow> nat list \<Rightarrow> nat list" where
  "final_ptrs szs t ptrs = map (\<lambda>i. ptrs ! i + sizes_at szs i [Suc t..<length szs]) [0..<length ptrs]"

section \<open>Ranks\<close>

definition bucket_from :: "nat list \<Rightarrow> nat \<Rightarrow> nat" where
  "bucket_from ptrs i = (if 0 < i then ptrs ! (i - 1) else 0)"

definition clear_range :: "nat \<Rightarrow> nat \<Rightarrow> nat list \<Rightarrow> nat list" where
  "clear_range k1 k2 B = fold (\<lambda>k B. B[k := 0]) [k1..<k2] B"

definition populate :: "nat list \<Rightarrow> nat list \<Rightarrow> nat list" where
  "populate ks B = fold (\<lambda>k B. B[k := B ! k + 1]) ks B"

definition accumulate_range :: "nat \<Rightarrow> nat \<Rightarrow> nat list \<Rightarrow> nat list" where
  "accumulate_range k1 k2 B = fold (\<lambda>k B. B[k := B ! k + B ! (k - 1)]) [k1 + 1..<k2] B"

definition rank_bucket :: "nat \<Rightarrow> nat list \<Rightarrow> nat list \<Rightarrow> nat \<Rightarrow> nat list \<Rightarrow> nat list" where
  "rank_bucket sh ptrs buff2 i B =
    (let nbk = 2 ^ sh; k1 = i * nbk; k2 = k1 + nbk; m = bucket_from ptrs i;
         B1 = clear_range k1 k2 B;
         B2 = populate (map (\<lambda>k. buff2 ! k) [m..<ptrs ! i]) B1;
         B3 = B2[k1 := B2 ! k1 + m]
     in accumulate_range k1 k2 B3)"

text \<open>The dynamic schedule: buckets with the thread that takes them.\<close>

definition rank_buckets :: "nat \<Rightarrow> nat list list \<Rightarrow> nat list \<Rightarrow> (nat \<times> nat) list \<Rightarrow> nat list \<Rightarrow> nat list" where
  "rank_buckets sh ptrss buff2 order B = fold (\<lambda>(i, t) B. rank_bucket sh (ptrss ! t) buff2 i B) order B"

section \<open>The functions of the benchmark\<close>

record is_state =
  key_array :: "nat list"
  key_buff1 :: "nat list"
  key_buff2 :: "nat list"
  bucket_ptrss :: "nat list list"
  passed_verification :: int

record is_sched =
  sd_parts :: "nat list"
  sd_steps :: "nat list"
  sd_buckets :: "(nat \<times> nat) list"

text \<open>By how much an expected rank shifts with the iteration.\<close>

fun rank_shift :: "npb_class \<Rightarrow> nat \<Rightarrow> int \<Rightarrow> int" where
  "rank_shift Class_S i it = (if i \<le> 2 then it else - it)"
| "rank_shift Class_W i it = (if i < 2 then it - 2 else - it)"
| "rank_shift Class_A i it = (if i \<le> 2 then it - 1 else - (it - 1))"
| "rank_shift Class_B i it = (if i = 1 \<or> i = 2 \<or> i = 4 then it else - it)"
| "rank_shift Class_C i it = (if i \<le> 2 then it else - it)"
| "rank_shift Class_D i it = (if i < 2 then it else - it)"

definition partial_verify :: "npb_class \<Rightarrow> is_params \<Rightarrow> nat \<Rightarrow> nat list \<Rightarrow> nat list \<Rightarrow> nat" where
  "partial_verify cl p it vals B =
    length (filter (\<lambda>i. 0 < vals ! i \<and> vals ! i \<le> NUM_KEYS p - 1 \<and>
      int (B ! (vals ! i - 1)) = test_rank_array p ! i + rank_shift cl i (int it)) [0..<TEST_ARRAY_SIZE])"

definition set_keys :: "is_params \<Rightarrow> nat \<Rightarrow> nat list \<Rightarrow> nat list" where
  "set_keys p it ks = ks[it := it, it + MAX_ITERATIONS := MAX_KEY p - it]"

definition rank_parallel :: "is_params \<Rightarrow> is_sched \<Rightarrow> is_state \<Rightarrow> is_state" where
  "rank_parallel p sd s =
    (let sh = shift p; nb = NUM_BUCKETS p; parts = split_parts (sd_parts sd) (key_array s); np = length parts;
         szs = map (count_part sh nb) parts;
         st = scatter_run sh parts (sd_steps sd)
                \<lparr>sc_buff = key_buff2 s, sc_ptrs = map (bucket_ptrs nb szs) [0..<np], sc_next = replicate np 0\<rparr>;
         ptrss = map (\<lambda>t. final_ptrs szs t (sc_ptrs st ! t)) [0..<np]
     in s\<lparr>key_buff2 := sc_buff st, bucket_ptrss := ptrss,
          key_buff1 := rank_buckets sh ptrss (sc_buff st) (sd_buckets sd) (key_buff1 s)\<rparr>)"

definition is_rank :: "npb_class \<Rightarrow> is_params \<Rightarrow> is_sched \<Rightarrow> nat \<Rightarrow> is_state \<Rightarrow> is_state" where
  "is_rank cl p sd it s =
    (let s1 = s\<lparr>key_array := set_keys p it (key_array s)\<rparr>;
         vals = map (\<lambda>i. key_array s1 ! (test_index_array p ! i)) [0..<TEST_ARRAY_SIZE];
         s2 = rank_parallel p sd s1
     in s2\<lparr>passed_verification := passed_verification s2 + int (partial_verify cl p it vals (key_buff1 s2))\<rparr>)"

definition place :: "nat \<Rightarrow> nat list \<times> nat list \<Rightarrow> nat list \<times> nat list" where
  "place k st = (case st of (B, arr) \<Rightarrow> let c = B ! k - 1 in (B[k := c], arr[c := k]))"

definition out_of_order :: "nat list \<Rightarrow> nat" where
  "out_of_order arr = length (filter (\<lambda>i. arr ! (i - 1) > arr ! i) [1..<length arr])"

definition full_verify :: "(nat \<times> nat) list \<Rightarrow> is_state \<Rightarrow> is_state" where
  "full_verify order s =
    (case fold (\<lambda>(j, t) st. fold (\<lambda>i. place (key_buff2 s ! i))
         [bucket_from (bucket_ptrss s ! t) j..<bucket_ptrss s ! t ! j] st) order (key_buff1 s, key_array s) of
       (B, arr) \<Rightarrow>
         s\<lparr>key_buff1 := B, key_array := arr,
           passed_verification := passed_verification s + (if out_of_order arr = 0 then 1 else 0)\<rparr>)"

text \<open>The main program after the creation of the keys, with a schedule for every call.\<close>

definition is_main :: "npb_class \<Rightarrow> is_params \<Rightarrow> (nat \<Rightarrow> is_sched) \<Rightarrow> (nat \<times> nat) list \<Rightarrow> is_state \<Rightarrow> is_state" where
  "is_main cl p sds order s =
    (let s1 = (is_rank cl p (sds 0) 1 s)\<lparr>passed_verification := 0\<rparr>;
         s2 = fold (\<lambda>it. is_rank cl p (sds it) it) [1..<MAX_ITERATIONS + 1] s1;
         s3 = full_verify order s2
     in if passed_verification s3 \<noteq> 5 * int MAX_ITERATIONS + 1 then s3\<lparr>passed_verification := 0\<rparr> else s3)"

end
