(* ===== verification/Is_Sort.thy ===== *)
theory Is_Sort
  imports Is_Rank
begin

text \<open>
  Correctness of the parallel bucket sort: whatever the schedules, the work array holds the
  buckets one after the other, the ranks are the numbers of keys not greater than a value,
  and the final placement sorts.
\<close>

section \<open>Concatenations by position\<close>

definition offset :: "'a list list \<Rightarrow> nat \<Rightarrow> nat" where
  "offset xss i = sum_list (map length (take i xss))"

lemma offset_0 [simp]: "offset xss 0 = 0"
  by (simp add: offset_def)

lemma offset_Suc: "i < length xss \<Longrightarrow> offset xss (Suc i) = offset xss i + length (xss ! i)"
  by (simp add: offset_def take_Suc_conv_app_nth)

lemma offset_length: "offset xss (length xss) = length (concat xss)"
  by (simp add: offset_def length_concat)

lemma offset_map_upt: "i \<le> n \<Longrightarrow> offset (map f [0..<n]) i = sum_list (map (\<lambda>j. length (f j)) [0..<i])"
  by (simp add: offset_def take_map o_def)

lemma concat_nth_at:
  "i < length xss \<Longrightarrow> j < length (xss ! i) \<Longrightarrow>
   offset xss i + j < length (concat xss) \<and> concat xss ! (offset xss i + j) = xss ! i ! j"
proof (induction xss arbitrary: i)
  case (Cons xs xss)
  show ?case
  proof (cases i)
    case 0
    with Cons.prems show ?thesis by (simp add: offset_def nth_append)
  next
    case (Suc i')
    then have "offset (xs # xss) i = length xs + offset xss i'" by (simp add: offset_def)
    with Cons Suc show ?thesis by (simp add: add.assoc)
  qed
qed simp

lemma concat_nth_ex:
  "q < length (concat xss) \<Longrightarrow> \<exists>i j. i < length xss \<and> j < length (xss ! i) \<and> q = offset xss i + j"
proof (induction xss arbitrary: q)
  case (Cons xs xss)
  show ?case
  proof (cases "q < length xs")
    case True
    then show ?thesis by (intro exI [of _ 0] exI [of _ q]) (simp add: offset_def)
  next
    case False
    then have "q - length xs < length (concat xss)" using Cons.prems by simp
    from Cons.IH [OF this] obtain i j where "i < length xss" "j < length (xss ! i)" "q - length xs = offset xss i + j" by blast
    then show ?thesis using False by (intro exI [of _ "Suc i"] exI [of _ j]) (simp add: offset_def)
  qed
qed simp

lemma concat_slice: "i < length xss \<Longrightarrow> map ((!) (concat xss)) [offset xss i..<offset xss (Suc i)] = xss ! i"
  by (rule nth_equalityI) (simp_all add: offset_Suc concat_nth_at)

lemma concat_split_parts: "sum_list ns = length xs \<Longrightarrow> concat (split_parts ns xs) = xs"
  by (induction ns xs rule: split_parts.induct) (auto simp: min_def)

lemma length_split_parts [simp]: "length (split_parts ns xs) = length ns"
  by (induction ns xs rule: split_parts.induct) simp_all

section \<open>Counting\<close>

definition in_bucket :: "nat \<Rightarrow> nat \<Rightarrow> nat list \<Rightarrow> nat list" where
  "in_bucket sh b ks = filter (\<lambda>k. bucket sh k = b) ks"

lemma in_bucket_simps [simp]:
  "in_bucket sh b [] = []" "in_bucket sh b (xs @ ys) = in_bucket sh b xs @ in_bucket sh b ys"
  "in_bucket sh b (k # ks) = (if bucket sh k = b then k # in_bucket sh b ks else in_bucket sh b ks)"
  by (simp_all add: in_bucket_def)

lemma in_bucket_concat: "in_bucket sh b (concat parts) = concat (map (in_bucket sh b) parts)"
  by (induction parts) simp_all

lemma count_fold:
  "b < length w \<Longrightarrow> list_all (\<lambda>k. bucket sh k < length w) ks \<Longrightarrow>
   fold (\<lambda>k w. w[bucket sh k := w ! bucket sh k + 1]) ks w ! b = w ! b + length (in_bucket sh b ks)"
  by (induction ks arbitrary: w) (simp_all add: nth_list_update)

lemma count_part_nth: "b < nb \<Longrightarrow> list_all (\<lambda>k. bucket sh k < nb) ks \<Longrightarrow> count_part sh nb ks ! b = length (in_bucket sh b ks)"
  using count_fold [of b "replicate nb 0" sh ks] by (simp add: count_part_def)

text \<open>
  The buckets of all keys one after the other; \<open>start sh keys b\<close> is where bucket \<open>b\<close> starts.
\<close>

definition sorted_buckets :: "nat \<Rightarrow> nat \<Rightarrow> nat list \<Rightarrow> nat list list" where
  "sorted_buckets sh nb keys = map (\<lambda>b. in_bucket sh b keys) [0..<nb]"

abbreviation start :: "nat \<Rightarrow> nat \<Rightarrow> nat list \<Rightarrow> nat \<Rightarrow> nat" where
  "start sh nb keys b \<equiv> offset (sorted_buckets sh nb keys) b"

lemma start_Suc: "b < nb \<Longrightarrow> start sh nb keys (Suc b) = start sh nb keys b + length (in_bucket sh b keys)"
  by (simp add: offset_Suc sorted_buckets_def)

abbreviation inpos :: "nat \<Rightarrow> nat list list \<Rightarrow> nat \<Rightarrow> nat \<Rightarrow> nat" where
  "inpos sh parts b t \<equiv> offset (map (in_bucket sh b) parts) t"

lemma sizes_at_sum:
  assumes "b < nb" "list_all (list_all (\<lambda>k. bucket sh k < nb)) parts" "set ts \<subseteq> {0..<length parts}"
  shows "sizes_at (map (count_part sh nb) parts) b ts = sum_list (map (\<lambda>t. length (in_bucket sh b (parts ! t))) ts)"
  using assms(3)
proof (induction ts)
  case (Cons t ts)
  then have "list_all (\<lambda>k. bucket sh k < nb) (parts ! t)" using assms(2) by (auto simp: list_all_iff)
  with Cons assms(1) show ?case by (simp add: sizes_at_def count_part_nth)
qed (simp add: sizes_at_def)

lemma sum_inpos: "t \<le> length parts \<Longrightarrow> sum_list (map (\<lambda>t. length (in_bucket sh b (parts ! t))) [0..<t]) = inpos sh parts b t"
proof (induction t)
  case (Suc t)
  then show ?case by (simp add: offset_Suc)
qed simp

lemma sum_rest: "t \<le> length parts \<Longrightarrow> inpos sh parts b t + sum_list (map (\<lambda>t. length (in_bucket sh b (parts ! t))) [t..<length parts])
    = length (in_bucket sh b (concat parts))"
proof -
  assume t: "t \<le> length parts"
  let ?f = "\<lambda>t. length (in_bucket sh b (parts ! t))"
  have "sum_list (map ?f [0..<t]) + sum_list (map ?f [t..<length parts]) = sum_list (map ?f [0..<length parts])"
    using upt_add_eq_append [of 0 t "length parts - t"] t by simp
  then show ?thesis
    using t sum_inpos [of t parts sh b] sum_inpos [of "length parts" parts sh b] offset_length [of "map (in_bucket sh b) parts"]
    by (simp add: in_bucket_concat)
qed

lemma bucket_ptr_eq:
  assumes ok: "list_all (list_all (\<lambda>k. bucket sh k < nb)) parts" and t: "t < length parts"
  shows "b < nb \<Longrightarrow> bucket_ptr (map (count_part sh nb) parts) t b = start sh nb (concat parts) b + inpos sh parts b t"
proof (induction b)
  case 0
  then show ?case using sizes_at_sum [OF 0 ok, of "[0..<t]"] sum_inpos [of t parts sh 0] t by simp
next
  case (Suc b)
  have "sizes_at (map (count_part sh nb) parts) (Suc b) [0..<t] = inpos sh parts (Suc b) t"
    using sizes_at_sum [OF Suc.prems ok, of "[0..<t]"] sum_inpos [of t parts sh "Suc b"] t by simp
  moreover have "inpos sh parts b t + sizes_at (map (count_part sh nb) parts) b [t..<length parts] = length (in_bucket sh b (concat parts))"
    using sizes_at_sum [of b nb, OF _ ok, of "[t..<length parts]"] sum_rest [of t parts sh b] Suc.prems t by simp
  moreover have "start sh nb (concat parts) (Suc b) = start sh nb (concat parts) b + length (in_bucket sh b (concat parts))"
    using Suc.prems by (intro start_Suc) simp
  ultimately show ?case using Suc by simp
qed

section \<open>Parallel regions\<close>

text \<open>
  Threads that write to shared memory in steps. If every step of every thread keeps an
  invariant which, once all threads are through, determines the output, then the output does
  not depend on the order of the steps.
\<close>

locale parallel_region =
  fixes step :: "nat \<Rightarrow> 's \<Rightarrow> 's"
    and threads :: "nat set"
    and inv :: "'s \<Rightarrow> bool"
    and through :: "'s \<Rightarrow> bool"
    and outp :: "'s \<Rightarrow> 'o"
    and target :: 'o
  assumes inv_step: "inv s \<Longrightarrow> t \<in> threads \<Longrightarrow> inv (step t s)"
    and through_outp: "inv s \<Longrightarrow> through s \<Longrightarrow> outp s = target"
begin

lemma inv_run: "inv s \<Longrightarrow> set sched \<subseteq> threads \<Longrightarrow> inv (fold step sched s)"
  by (induction sched arbitrary: s) (simp_all add: inv_step)

lemma run_outp: "inv s \<Longrightarrow> set sched \<subseteq> threads \<Longrightarrow> through (fold step sched s) \<Longrightarrow> outp (fold step sched s) = target"
  using inv_run through_outp by blast

lemma schedule_irrelevant:
  "inv s \<Longrightarrow> set sc1 \<subseteq> threads \<Longrightarrow> set sc2 \<subseteq> threads \<Longrightarrow> through (fold step sc1 s) \<Longrightarrow> through (fold step sc2 s) \<Longrightarrow>
   outp (fold step sc1 s) = outp (fold step sc2 s)"
  by (simp add: run_outp)

end

section \<open>The parallel writes\<close>

text \<open>
  After any number of steps, thread \<open>t\<close> has handled the first \<open>sc_next ! t\<close> keys of its part,
  its pointers are advanced accordingly, and what has been written is what the sorted
  sequence of buckets has at the same place.
\<close>

definition handled :: "nat list list \<Rightarrow> scatter \<Rightarrow> nat \<Rightarrow> nat list" where
  "handled parts st t = take (sc_next st ! t) (parts ! t)"

definition slot :: "nat \<Rightarrow> nat \<Rightarrow> nat list list \<Rightarrow> nat \<Rightarrow> nat \<Rightarrow> nat \<Rightarrow> nat" where
  "slot sh nb parts t b j = start sh nb (concat parts) b + inpos sh parts b t + j"

definition scatter_inv :: "nat \<Rightarrow> nat \<Rightarrow> nat list list \<Rightarrow> scatter \<Rightarrow> bool" where
  "scatter_inv sh nb parts st \<longleftrightarrow>
    length (sc_next st) = length parts \<and> length (sc_ptrs st) = length parts \<and> length (sc_buff st) = length (concat parts) \<and>
    (\<forall>t < length parts. sc_next st ! t \<le> length (parts ! t) \<and> length (sc_ptrs st ! t) = nb \<and>
      (\<forall>b < nb. sc_ptrs st ! t ! b = slot sh nb parts t b (length (in_bucket sh b (handled parts st t))) \<and>
        (\<forall>j < length (in_bucket sh b (handled parts st t)).
           sc_buff st ! slot sh nb parts t b j = concat (sorted_buckets sh nb (concat parts)) ! slot sh nb parts t b j)))"

lemma slot_value:
  assumes "t < length parts" "b < nb" "j < length (in_bucket sh b (parts ! t))"
  shows "slot sh nb parts t b j < length (concat (sorted_buckets sh nb (concat parts)))"
    and "concat (sorted_buckets sh nb (concat parts)) ! slot sh nb parts t b j = in_bucket sh b (parts ! t) ! j"
proof -
  have c: "inpos sh parts b t + j < length (in_bucket sh b (concat parts))"
    "in_bucket sh b (concat parts) ! (inpos sh parts b t + j) = in_bucket sh b (parts ! t) ! j"
    using concat_nth_at [of t "map (in_bucket sh b) parts" j] assms by (simp_all add: in_bucket_concat)
  show "slot sh nb parts t b j < length (concat (sorted_buckets sh nb (concat parts)))"
    and "concat (sorted_buckets sh nb (concat parts)) ! slot sh nb parts t b j = in_bucket sh b (parts ! t) ! j"
    using concat_nth_at [of b "sorted_buckets sh nb (concat parts)" "inpos sh parts b t + j"] assms(2) c
    by (simp_all add: slot_def sorted_buckets_def add.assoc)
qed

lemma mset_buckets: "mset (concat (map (\<lambda>b. in_bucket sh b ks) [0..<n])) = mset (filter (\<lambda>k. bucket sh k < n) ks)"
proof (induction n)
  case (Suc n)
  have "mset (filter (\<lambda>k. bucket sh k < Suc n) ks) = mset (filter (\<lambda>k. bucket sh k < n) ks) + mset (in_bucket sh n ks)"
    by (induction ks) (auto simp: less_Suc_eq)
  with Suc show ?case by simp
qed simp

lemma mset_all_buckets: "list_all (\<lambda>k. bucket sh k < nb) keys \<Longrightarrow> mset (concat (sorted_buckets sh nb keys)) = mset keys"
  by (simp add: sorted_buckets_def mset_buckets list_all_iff flip: mset_filter)

lemma start_count: "b \<le> nb \<Longrightarrow> start sh nb keys b = length (filter (\<lambda>k. bucket sh k < b) keys)"
  using mset_eq_length [OF mset_buckets, of sh keys b]
  by (simp add: sorted_buckets_def offset_def take_map length_concat)

lemma scatter_inv_step:
  assumes inv: "scatter_inv sh nb parts st" and ok: "list_all (list_all (\<lambda>k. bucket sh k < nb)) parts" and t: "t < length parts"
  shows "scatter_inv sh nb parts (scatter_step sh parts t st)"
proof (cases "sc_next st ! t < length (parts ! t)")
  case False
  then show ?thesis using inv by (simp add: scatter_step_def Let_def)
next
  case True
  let ?T = "concat (sorted_buckets sh nb (concat parts))"
  define i where "i = sc_next st ! t"
  define k where "k = parts ! t ! i"
  define b where "b = bucket sh k"
  define p where "p = sc_ptrs st ! t ! b"
  define st' where "st' = scatter_step sh parts t st"
  have len: "length (sc_next st) = length parts" "length (sc_ptrs st) = length parts" "length (sc_buff st) = length (concat parts)"
    and per: "\<And>t. t < length parts \<Longrightarrow> sc_next st ! t \<le> length (parts ! t) \<and> length (sc_ptrs st ! t) = nb"
    and pt: "\<And>t b. t < length parts \<Longrightarrow> b < nb \<Longrightarrow> sc_ptrs st ! t ! b = slot sh nb parts t b (length (in_bucket sh b (handled parts st t)))"
    and bf: "\<And>t b j. t < length parts \<Longrightarrow> b < nb \<Longrightarrow> j < length (in_bucket sh b (handled parts st t)) \<Longrightarrow>
      sc_buff st ! slot sh nb parts t b j = ?T ! slot sh nb parts t b j"
    using inv by (auto simp: scatter_inv_def)
  have b: "b < nb" using ok True t by (simp add: b_def k_def i_def list_all_length)
  have st': "sc_buff st' = (sc_buff st)[p := k]" "sc_ptrs st' = (sc_ptrs st)[t := (sc_ptrs st ! t)[b := p + 1]]"
    "sc_next st' = (sc_next st)[t := i + 1]"
    using True by (simp_all add: st'_def scatter_step_def Let_def i_def k_def b_def p_def)
  have h: "handled parts st' t = handled parts st t @ [k]" "\<And>t'. t' \<noteq> t \<Longrightarrow> handled parts st' t' = handled parts st t'"
    using True t len(1) by (simp_all add: handled_def st' i_def k_def take_Suc_conv_app_nth)
  have whole: "parts ! t = handled parts st t @ k # drop (Suc i) (parts ! t)"
    using True by (simp add: handled_def k_def i_def id_take_nth_drop)
  have "length (in_bucket sh b (handled parts st t)) < length (in_bucket sh b (parts ! t))"
    "in_bucket sh b (parts ! t) ! length (in_bucket sh b (handled parts st t)) = k"
    using b_def by (subst whole, simp)+
  then have pk: "?T ! p = k" "p < length ?T"
    using slot_value [OF t b] pt [OF t b] by (simp_all add: p_def)
  have lT: "length (sc_buff st) = length ?T"
    using len(3) mset_eq_length [OF mset_all_buckets, of sh nb "concat parts"] ok by (simp add: list_all_iff)
  have keep: "sc_buff st' ! q = ?T ! q" if "sc_buff st ! q = ?T ! q \<or> q = p" for q
    using that pk lT by (cases "q = p") (simp_all add: st')
  have "sc_ptrs st' ! u ! c = slot sh nb parts u c (length (in_bucket sh c (handled parts st' u)))"
    if u: "u < length parts" "c < nb" for u c
    using pt [OF u] pt [OF t b] per [OF t] len t b b_def h u by (auto simp: st' nth_list_update slot_def p_def)
  moreover have "sc_buff st' ! slot sh nb parts u c j = ?T ! slot sh nb parts u c j"
    if u: "u < length parts" "c < nb" "j < length (in_bucket sh c (handled parts st' u))" for u c j
  proof (cases "j < length (in_bucket sh c (handled parts st u))")
    case True
    then show ?thesis using bf [OF u(1,2)] keep by blast
  next
    case False
    then have ut: "u = t" using u(3) h(2) [of u] by metis
    with False u(3) h(1) b_def have "c = b" by (simp split: if_splits)
    with ut False u(3) h(1) b_def have "j = length (in_bucket sh b (handled parts st t))" by simp
    then have "slot sh nb parts u c j = p" using pt [OF t b] ut \<open>c = b\<close> by (simp add: p_def)
    then show ?thesis using keep by blast
  qed
  ultimately show ?thesis
    using len per True t unfolding st'_def [symmetric] scatter_inv_def
    by (auto simp: st' nth_list_update i_def)
qed

lemma scatter_inv_start:
  assumes ok: "list_all (list_all (\<lambda>k. bucket sh k < nb)) parts" and len: "length buff = length (concat parts)"
    and szs: "szs = map (count_part sh nb) parts"
  shows "scatter_inv sh nb parts \<lparr>sc_buff = buff, sc_ptrs = map (bucket_ptrs nb szs) [0..<length parts], sc_next = replicate (length parts) 0\<rparr>"
  using len bucket_ptr_eq [OF ok] by (simp add: scatter_inv_def handled_def slot_def bucket_ptrs_def szs)

text \<open>When all threads are through, the array holds the buckets in order.\<close>

definition scatter_done :: "nat list list \<Rightarrow> scatter \<Rightarrow> bool" where
  "scatter_done parts st \<longleftrightarrow> (\<forall>t < length parts. length (parts ! t) \<le> sc_next st ! t)"

lemma scatter_result:
  assumes inv: "scatter_inv sh nb parts st" and ok: "list_all (list_all (\<lambda>k. bucket sh k < nb)) parts" and fin: "scatter_done parts st"
  shows "sc_buff st = concat (sorted_buckets sh nb (concat parts))"
proof (rule nth_equalityI)
  let ?T = "concat (sorted_buckets sh nb (concat parts))"
  show len: "length (sc_buff st) = length ?T"
    using inv mset_eq_length [OF mset_all_buckets, of sh nb "concat parts"] ok by (simp add: scatter_inv_def list_all_iff)
  fix q
  assume "q < length (sc_buff st)"
  then have "q < length ?T" using len by simp
  then obtain b i where b: "b < nb" "i < length (in_bucket sh b (concat parts))" "q = start sh nb (concat parts) b + i"
    using concat_nth_ex [of q "sorted_buckets sh nb (concat parts)"] by (auto simp: sorted_buckets_def)
  then obtain t j where t: "t < length parts" "j < length (in_bucket sh b (parts ! t))" "i = inpos sh parts b t + j"
    using concat_nth_ex [of i "map (in_bucket sh b) parts"] by (auto simp: in_bucket_concat)
  have "handled parts st t = parts ! t" using fin t(1) by (simp add: handled_def scatter_done_def)
  then have "sc_buff st ! slot sh nb parts t b j = ?T ! slot sh nb parts t b j"
    using inv t b(1) by (simp add: scatter_inv_def)
  then show "sc_buff st ! q = ?T ! q" using b(3) t(3) by (simp add: slot_def add.assoc)
qed

interpretation scatter_par: parallel_region "scatter_step sh parts" "{0..<length parts}"
  "\<lambda>st. scatter_inv sh nb parts st \<and> list_all (list_all (\<lambda>k. bucket sh k < nb)) parts"
  "scatter_done parts" sc_buff "concat (sorted_buckets sh nb (concat parts))" for sh nb parts
  by unfold_locales (auto simp: scatter_inv_step scatter_result)

lemma final_ptrs_eq:
  assumes inv: "scatter_inv sh nb parts st" and ok: "list_all (list_all (\<lambda>k. bucket sh k < nb)) parts" and fin: "scatter_done parts st"
    and t: "t < length parts" and szs: "szs = map (count_part sh nb) parts"
  shows "final_ptrs szs t (sc_ptrs st ! t) = map (\<lambda>b. start sh nb (concat parts) (Suc b)) [0..<nb]"
proof (rule nth_equalityI)
  show "length (final_ptrs szs t (sc_ptrs st ! t)) = length (map (\<lambda>b. start sh nb (concat parts) (Suc b)) [0..<nb])"
    using inv t by (simp add: final_ptrs_def scatter_inv_def)
  fix b
  assume "b < length (final_ptrs szs t (sc_ptrs st ! t))"
  then have b: "b < nb" using inv t by (simp add: final_ptrs_def scatter_inv_def)
  have "handled parts st t = parts ! t" using fin t by (simp add: handled_def scatter_done_def)
  then have "sc_ptrs st ! t ! b = slot sh nb parts t b (length (in_bucket sh b (parts ! t)))" "length (sc_ptrs st ! t) = nb"
    using inv t b by (simp_all add: scatter_inv_def)
  moreover have "sizes_at szs b [Suc t..<length parts] = sum_list (map (\<lambda>t. length (in_bucket sh b (parts ! t))) [Suc t..<length parts])"
    unfolding szs by (rule sizes_at_sum [OF b ok]) auto
  moreover have "inpos sh parts b (Suc t) = inpos sh parts b t + length (in_bucket sh b (parts ! t))"
    using t offset_Suc [of t "map (in_bucket sh b) parts"] by simp
  ultimately show "final_ptrs szs t (sc_ptrs st ! t) ! b = map (\<lambda>b. start sh nb (concat parts) (Suc b)) [0..<nb] ! b"
    using b sum_rest [of "Suc t" parts sh b] t start_Suc [OF b, of sh "concat parts"] by (simp add: final_ptrs_def slot_def szs)
qed

section \<open>Ranks\<close>

definition le_count :: "nat list \<Rightarrow> nat \<Rightarrow> nat" where
  "le_count ks v = length (filter (\<lambda>k. k \<le> v) ks)"

definition lt_count :: "nat list \<Rightarrow> nat \<Rightarrow> nat" where
  "lt_count ks v = length (filter (\<lambda>k. k < v) ks)"

lemma le_lt_count: "le_count ks v = lt_count ks v + count_list ks v"
  by (induction ks) (auto simp: le_count_def lt_count_def)

lemma lt_count_Suc: "lt_count ks (Suc v) = le_count ks v"
  by (simp add: le_count_def lt_count_def less_Suc_eq_le)

lemma le_count_length: "le_count ks v \<le> length ks"
  by (simp add: le_count_def)

lemma length_clear_range [simp]: "length (clear_range k1 k2 B) = length B"
proof -
  have "length (fold (\<lambda>k B. B[k := 0]) ks B) = length B" for ks :: "nat list" and B :: "nat list"
    by (induction ks arbitrary: B) simp_all
  then show ?thesis by (simp add: clear_range_def)
qed

lemma clear_range_nth:
  assumes "x < length B"
  shows "clear_range k1 k2 B ! x = (if k1 \<le> x \<and> x < k2 then 0 else B ! x)"
proof -
  have "fold (\<lambda>k B. B[k := 0]) ks B ! x = (if x \<in> set ks then 0 else B ! x)" if "x < length B" for ks :: "nat list" and B :: "nat list"
    using that by (induction ks arbitrary: B) (simp_all add: nth_list_update)
  with assms show ?thesis by (simp add: clear_range_def)
qed

lemma length_populate [simp]: "length (populate ks B) = length B"
  unfolding populate_def by (induction ks arbitrary: B) simp_all

lemma populate_nth: "x < length B \<Longrightarrow> populate ks B ! x = B ! x + count_list ks x"
  unfolding populate_def by (induction ks arbitrary: B) (auto simp: nth_list_update)

lemma accumulate_range_spec:
  assumes "k1 < k2" "k2 \<le> length B"
  shows "length (accumulate_range k1 k2 B) = length B \<and>
    (\<forall>x < length B. accumulate_range k1 k2 B ! x = (if k1 \<le> x \<and> x < k2 then sum_list (map ((!) B) [k1..<Suc x]) else B ! x))"
  using assms
proof (induction k2)
  case (Suc k2)
  show ?case
  proof (cases "k1 = k2")
    case True
    then show ?thesis by (auto simp: accumulate_range_def)
  next
    case False
    then have k: "k1 < k2" "k2 \<le> length B" "k2 < length B" using Suc.prems by simp_all
    let ?A = "accumulate_range k1 k2 B"
    have "accumulate_range k1 (Suc k2) B = ?A[k2 := ?A ! k2 + ?A ! (k2 - 1)]"
      using k(1) by (simp add: accumulate_range_def)
    moreover have "sum_list (map ((!) B) [k1..<Suc k2]) = sum_list (map ((!) B) [k1..<Suc (k2 - 1)]) + B ! k2"
      using k(1) by simp
    ultimately show ?thesis
      using Suc.IH [OF k(1,2)] k by (auto simp: nth_list_update less_Suc_eq simp del: upt_Suc)
  qed
qed simp

lemma sum_counts: "k1 \<le> Suc x \<Longrightarrow> lt_count ks k1 + sum_list (map (count_list ks) [k1..<Suc x]) = le_count ks x"
proof (induction x)
  case 0
  then show ?case using le_lt_count [of ks 0] lt_count_Suc [of ks 0] by (cases k1) (auto simp: le_Suc_eq)
next
  case (Suc x)
  show ?case
  proof (cases "k1 = Suc (Suc x)")
    case True
    then show ?thesis by (simp add: lt_count_Suc)
  next
    case False
    then have "lt_count ks k1 + sum_list (map (count_list ks) [k1..<Suc x]) = le_count ks x" using Suc by simp
    then show ?thesis using False Suc.prems le_lt_count [of ks "Suc x"] lt_count_Suc [of ks x] by simp
  qed
qed

lemma bucket_less: "bucket sh k < b \<longleftrightarrow> k < b * 2 ^ sh"
  by (simp add: bucket_def div_less_iff_less_mult)

lemma bucket_range: "bucket sh k = b \<longleftrightarrow> b * 2 ^ sh \<le> k \<and> k < b * 2 ^ sh + 2 ^ sh"
  using bucket_less [of sh k b] bucket_less [of sh k "Suc b"] by (auto simp: add.commute)

lemma start_lt_count: "b \<le> nb \<Longrightarrow> start sh nb keys b = lt_count keys (b * 2 ^ sh)"
  by (simp add: start_count bucket_less lt_count_def)

lemma count_in_bucket: "bucket sh v = b \<Longrightarrow> count_list (in_bucket sh b ks) v = count_list ks v"
  by (induction ks) auto

definition ends :: "nat \<Rightarrow> nat \<Rightarrow> nat list \<Rightarrow> nat list" where
  "ends sh nb keys = map (\<lambda>b. start sh nb keys (Suc b)) [0..<nb]"

lemma bucket_slice:
  assumes "i < nb" "buff2 = concat (sorted_buckets sh nb keys)"
  shows "bucket_from (ends sh nb keys) i = start sh nb keys i" "ends sh nb keys ! i = start sh nb keys (Suc i)"
    "map (\<lambda>k. buff2 ! k) [bucket_from (ends sh nb keys) i..<ends sh nb keys ! i] = in_bucket sh i keys"
proof -
  show f: "bucket_from (ends sh nb keys) i = start sh nb keys i" "ends sh nb keys ! i = start sh nb keys (Suc i)"
    using assms(1) by (auto simp: bucket_from_def ends_def)
  show "map (\<lambda>k. buff2 ! k) [bucket_from (ends sh nb keys) i..<ends sh nb keys ! i] = in_bucket sh i keys"
    unfolding f assms(2) using concat_slice [of i "sorted_buckets sh nb keys"] assms(1) by (simp add: sorted_buckets_def)
qed

lemma rank_bucket_spec:
  assumes i: "i < nb" and B: "length B = nb * 2 ^ sh" and b2: "buff2 = concat (sorted_buckets sh nb keys)"
  shows "length (rank_bucket sh (ends sh nb keys) buff2 i B) = length B \<and>
    (\<forall>x < length B. rank_bucket sh (ends sh nb keys) buff2 i B ! x = (if bucket sh x = i then le_count keys x else B ! x))"
proof -
  let ?k1 = "i * 2 ^ sh" let ?k2 = "i * 2 ^ sh + 2 ^ sh"
  define B2 where "B2 = populate (in_bucket sh i keys) (clear_range ?k1 ?k2 B)"
  define B3 where "B3 = B2[?k1 := B2 ! ?k1 + start sh nb keys i]"
  have k2: "?k2 \<le> length B"
  proof -
    have "Suc i * 2 ^ sh \<le> nb * 2 ^ sh" using i by (intro mult_right_mono) simp_all
    then show ?thesis using B by (simp add: add.commute)
  qed
  have r: "rank_bucket sh (ends sh nb keys) buff2 i B = accumulate_range ?k1 ?k2 B3"
    unfolding rank_bucket_def Let_def bucket_slice(1) [OF i b2] B2_def B3_def
      bucket_slice(3) [OF i b2, unfolded bucket_slice(1) [OF i b2]] ..
  have B2: "B2 ! x = (if bucket sh x = i then count_list keys x else B ! x)" if "x < length B" for x
  proof -
    have "count_list (in_bucket sh i keys) x = 0" if "bucket sh x \<noteq> i"
      using that by (auto simp: in_bucket_def count_list_0_iff)
    then show ?thesis using that by (auto simp: B2_def populate_nth clear_range_nth bucket_range [symmetric] count_in_bucket)
  qed
  have len: "length B3 = length B" by (simp add: B3_def B2_def)
  have "sum_list (map ((!) B3) [?k1..<Suc x]) = le_count keys x" if x: "?k1 \<le> x" "x < ?k2" for x
  proof -
    have cnt: "B2 ! v = count_list keys v" if "v \<in> {?k1..x}" for v
      using B2 [of v] that x k2 bucket_range [of sh v i] by simp
    have e: "map ((!) B3) [?k1..<Suc x] = (count_list keys ?k1 + start sh nb keys i) # map (count_list keys) [Suc ?k1..<Suc x]"
      using cnt x k2 by (subst upt_conv_Cons) (auto simp: B3_def B2_def simp del: upt_Suc)
    have "sum_list (map ((!) B3) [?k1..<Suc x]) = start sh nb keys i + sum_list (map (count_list keys) [?k1..<Suc x])"
      unfolding e using x(1) by (simp add: upt_conv_Cons del: upt_Suc)
    then show ?thesis using sum_counts [of ?k1 x keys] x(1) start_lt_count [of i nb sh keys] i by simp
  qed
  moreover have "B3 ! x = B ! x" if "x < length B" "\<not> (?k1 \<le> x \<and> x < ?k2)" for x
  proof -
    have "x \<noteq> ?k1" using that(2) by (intro notI) simp
    then show ?thesis using that B2 [of x] bucket_range [of sh x i] by (auto simp: B3_def)
  qed
  ultimately show ?thesis
    using accumulate_range_spec [of ?k1 ?k2 B3] k2 len bucket_range [of sh _ i] unfolding r by (auto simp del: upt_Suc)
qed

lemma rank_buckets_spec:
  assumes b2: "buff2 = concat (sorted_buckets sh nb keys)" and p: "\<And>t. t < np \<Longrightarrow> ptrss ! t = ends sh nb keys"
    and B: "length B = nb * 2 ^ sh" and ord: "list_all (\<lambda>(i, t). i < nb \<and> t < np) order"
  shows "length (rank_buckets sh ptrss buff2 order B) = length B \<and>
    (\<forall>x < length B. rank_buckets sh ptrss buff2 order B ! x = (if bucket sh x \<in> fst ` set order then le_count keys x else B ! x))"
  using B ord
proof (induction order arbitrary: B)
  case Nil
  then show ?case by (simp add: rank_buckets_def)
next
  case (Cons it order)
  obtain i t where it: "it = (i, t)" by (cases it)
  let ?B = "rank_bucket sh (ends sh nb keys) buff2 i B"
  have i: "i < nb" "t < np" using Cons.prems(2) by (simp_all add: it)
  note s = rank_bucket_spec [OF i(1) Cons.prems(1) b2]
  have "rank_buckets sh ptrss buff2 (it # order) B = rank_buckets sh ptrss buff2 order ?B"
    using p [OF i(2)] by (simp add: rank_buckets_def it)
  moreover have "length ?B = nb * 2 ^ sh" "list_all (\<lambda>(i, t). i < nb \<and> t < np) order" using s Cons.prems by simp_all
  ultimately show ?case using Cons.IH [of ?B] s by (auto simp: it)
qed

text \<open>A schedule is fair if it lets every thread finish and takes every bucket once.\<close>

definition sched_ok :: "is_params \<Rightarrow> is_sched \<Rightarrow> nat list \<Rightarrow> bool" where
  "sched_ok p sd ks \<longleftrightarrow>
    sd_parts sd \<noteq> [] \<and> sum_list (sd_parts sd) = length ks \<and> set (sd_steps sd) \<subseteq> {0..<length (sd_parts sd)} \<and>
    (\<forall>t < length (sd_parts sd). length (split_parts (sd_parts sd) ks ! t) \<le> count_list (sd_steps sd) t) \<and>
    list_all (\<lambda>(i, t). i < NUM_BUCKETS p \<and> t < length (sd_parts sd)) (sd_buckets sd) \<and>
    {0..<NUM_BUCKETS p} \<subseteq> fst ` set (sd_buckets sd)"

lemma scatter_next:
  "t < length parts \<Longrightarrow> length (sc_next st) = length parts \<Longrightarrow> set sched \<subseteq> {0..<length parts} \<Longrightarrow>
   min (sc_next st ! t + count_list sched t) (length (parts ! t)) \<le> sc_next (scatter_run sh parts sched st) ! t"
proof (induction sched arbitrary: st)
  case Nil
  then show ?case by (simp add: scatter_run_def)
next
  case (Cons u sched)
  let ?s = "scatter_step sh parts u st"
  have s: "length (sc_next ?s) = length parts"
    "min (sc_next st ! t + (if u = t then 1 else 0)) (length (parts ! t)) \<le> sc_next ?s ! t"
    using Cons.prems by (auto simp: scatter_step_def Let_def nth_list_update)
  have "min (sc_next ?s ! t + count_list sched t) (length (parts ! t)) \<le> sc_next (scatter_run sh parts (u # sched) st) ! t"
    using Cons.IH [OF Cons.prems(1) s(1)] Cons.prems(3) by (simp add: scatter_run_def)
  then show ?case using s(2) by (auto simp: min_def split: if_splits)
qed

lemma keys_in_buckets:
  assumes "NUM_BUCKETS_LOG_2 p \<le> MAX_KEY_LOG_2 p"
  shows "NUM_BUCKETS p * 2 ^ shift p = MAX_KEY p" "list_all (\<lambda>k. k < MAX_KEY p) ks \<Longrightarrow> list_all (\<lambda>k. bucket (shift p) k < NUM_BUCKETS p) ks"
proof -
  show e: "NUM_BUCKETS p * 2 ^ shift p = MAX_KEY p"
    using assms by (simp add: NUM_BUCKETS_def shift_def MAX_KEY_def power_add [symmetric])
  show "list_all (\<lambda>k. k < MAX_KEY p) ks \<Longrightarrow> list_all (\<lambda>k. bucket (shift p) k < NUM_BUCKETS p) ks"
    by (simp add: bucket_less e)
qed

text \<open>What the parallel region of \<^verbatim>\<open>rank\<close> leaves.\<close>

definition ranked :: "is_params \<Rightarrow> nat list \<Rightarrow> is_state \<Rightarrow> bool" where
  "ranked p ks s \<longleftrightarrow>
    key_buff2 s = concat (sorted_buckets (shift p) (NUM_BUCKETS p) ks) \<and> length (key_buff1 s) = MAX_KEY p \<and>
    (\<forall>v < MAX_KEY p. key_buff1 s ! v = le_count ks v) \<and>
    bucket_ptrss s \<noteq> [] \<and> (\<forall>ptrs \<in> set (bucket_ptrss s). ptrs = ends (shift p) (NUM_BUCKETS p) ks)"

lemma rank_parallel_spec:
  assumes log: "NUM_BUCKETS_LOG_2 p \<le> MAX_KEY_LOG_2 p" and ok: "sched_ok p sd (key_array s)"
    and ks: "list_all (\<lambda>k. k < MAX_KEY p) (key_array s)" and B: "length (key_buff1 s) = MAX_KEY p" "length (key_buff2 s) = length (key_array s)"
  shows "ranked p (key_array s) (rank_parallel p sd s)" "length (bucket_ptrss (rank_parallel p sd s)) = length (sd_parts sd)"
    "key_array (rank_parallel p sd s) = key_array s" "passed_verification (rank_parallel p sd s) = passed_verification s"
proof -
  define sh nb parts where d: "sh = shift p" "nb = NUM_BUCKETS p" "parts = split_parts (sd_parts sd) (key_array s)"
  define szs where "szs = map (count_part sh nb) parts"
  define st0 where "st0 = \<lparr>sc_buff = key_buff2 s, sc_ptrs = map (bucket_ptrs nb szs) [0..<length parts], sc_next = replicate (length parts) 0\<rparr>"
  define st where "st = scatter_run sh parts (sd_steps sd) st0"
  have cc: "concat parts = key_array s" using ok by (simp add: d sched_ok_def concat_split_parts)
  have lp: "length parts = length (sd_parts sd)" by (simp add: d)
  have all: "list_all (\<lambda>k. bucket sh k < nb) (concat parts)" using keys_in_buckets(2) [OF log ks] unfolding cc d(1,2) .
  then have okp: "list_all (list_all (\<lambda>k. bucket sh k < nb)) parts" by (auto simp: list_all_iff)
  have "scatter_inv sh nb parts st0" unfolding st0_def by (rule scatter_inv_start [OF okp _ szs_def]) (simp add: cc B)
  then have inv: "scatter_inv sh nb parts st"
    using scatter_par.inv_run [of sh nb parts st0 "sd_steps sd"] okp ok lp by (simp add: st_def scatter_run_def sched_ok_def)
  have fin: "scatter_done parts st"
    unfolding scatter_done_def
  proof (intro allI impI)
    fix t
    assume t: "t < length parts"
    then show "length (parts ! t) \<le> sc_next st ! t"
      using scatter_next [OF t, of st0 "sd_steps sd" sh] ok lp by (simp add: st0_def st_def sched_ok_def d [symmetric])
  qed
  define ptrss where "ptrss = map (\<lambda>t. final_ptrs szs t (sc_ptrs st ! t)) [0..<length parts]"
  have ends: "ptrss ! t = ends sh nb (key_array s)" if "t < length parts" for t
    using that final_ptrs_eq [OF inv okp fin that szs_def] by (simp add: ptrss_def ends_def cc)
  have buff: "sc_buff st = concat (sorted_buckets sh nb (key_array s))" using scatter_result [OF inv okp fin] by (simp add: cc)
  have r: "rank_parallel p sd s = s\<lparr>key_buff2 := sc_buff st, bucket_ptrss := ptrss,
      key_buff1 := rank_buckets sh ptrss (sc_buff st) (sd_buckets sd) (key_buff1 s)\<rparr>"
    unfolding rank_parallel_def Let_def by (simp add: d [symmetric] szs_def [symmetric] st0_def [symmetric] st_def [symmetric] ptrss_def)
  have lB: "length (key_buff1 s) = nb * 2 ^ sh" using keys_in_buckets(1) [OF log] B(1) by (simp add: d)
  have "list_all (\<lambda>(i, t). i < nb \<and> t < length parts) (sd_buckets sd)" "{0..<nb} \<subseteq> fst ` set (sd_buckets sd)"
    using ok lp by (simp_all add: sched_ok_def d)
  note rb = rank_buckets_spec [OF buff ends lB this(1)] and cover = this(2)
  have "bucket sh x \<in> fst ` set (sd_buckets sd)" if "x < length (key_buff1 s)" for x
    using that cover lB bucket_less [of sh x nb] by auto
  with rb B(1) buff have "length (rank_buckets sh ptrss (sc_buff st) (sd_buckets sd) (key_buff1 s)) = MAX_KEY p"
    "\<forall>v < MAX_KEY p. rank_buckets sh ptrss (sc_buff st) (sd_buckets sd) (key_buff1 s) ! v = le_count (key_array s) v"
    by auto
  moreover have "ptrss \<noteq> []" "\<forall>ptrs \<in> set ptrss. ptrs = ends sh nb (key_array s)"
    using ok lp ends by (auto simp: ptrss_def sched_ok_def)
  ultimately show "ranked p (key_array s) (rank_parallel p sd s)" using buff by (simp add: ranked_def r d)
  show "length (bucket_ptrss (rank_parallel p sd s)) = length (sd_parts sd)" by (simp add: r ptrss_def lp)
  show "key_array (rank_parallel p sd s) = key_array s" "passed_verification (rank_parallel p sd s) = passed_verification s"
    by (simp_all add: r)
qed

section \<open>The final placement\<close>

lemma sorted_split:
  "sorted s \<Longrightarrow> s = filter (\<lambda>k. k < v) s @ filter (\<lambda>k. k = v) s @ filter (\<lambda>k. v < (k :: nat)) s"
proof (induction s)
  case (Cons k s)
  then have "\<forall>x \<in> set s. k \<le> x" "s = filter (\<lambda>k. k < v) s @ filter (\<lambda>k. k = v) s @ filter (\<lambda>k. v < k) s" by simp_all
  moreover have "filter (\<lambda>k. k < v) s = []" if "v \<le> k" using that calculation(1) by (auto simp: filter_empty_conv)
  moreover have "filter (\<lambda>k. k = v) s = []" if "v < k" using that calculation(1) by (auto simp: filter_empty_conv)
  ultimately show ?case by (cases "k < v"; cases "k = v"; simp)
qed simp

lemma length_filter_sort: "length (filter P (sort ks)) = length (filter P ks)" for ks :: "nat list"
  by (metis mset_eq_length mset_filter mset_sort)

lemma count_list_filter: "length (filter (\<lambda>k. k = v) ks) = count_list ks v"
  by (induction ks) simp_all

lemma count_list_sort: "count_list (sort ks) v = count_list ks v" for v :: nat
  by (metis count_mset mset_sort)

lemma sort_nth:
  assumes "lt_count ks v \<le> c" "c < le_count ks v"
  shows "sort ks ! c = v"
proof -
  let ?s = "sort ks"
  have l: "length (filter (\<lambda>k. k < v) ?s) = lt_count ks v" "length (filter (\<lambda>k. k = v) ?s) = count_list ks v"
    by (simp_all add: length_filter_sort lt_count_def count_list_filter count_list_sort)
  let ?j = "c - lt_count ks v"
  have j: "?j < length (filter (\<lambda>k. k = v) ?s)" using assms le_lt_count [of ks v] l by simp
  have "?s ! c = (filter (\<lambda>k. k < v) ?s @ filter (\<lambda>k. k = v) ?s @ filter (\<lambda>k. v < k) ?s) ! c"
    using sorted_split [of ?s v] by simp
  also have "\<dots> = filter (\<lambda>k. k = v) ?s ! ?j" using j assms(1) l(1) by (simp add: nth_append)
  also have "\<dots> = v" using nth_mem [OF j] by simp
  finally show ?thesis .
qed

lemma sort_nth_above: "q < length ks \<Longrightarrow> lt_count ks (sort ks ! q) \<le> q"
proof (rule ccontr)
  assume q: "q < length ks" "\<not> lt_count ks (sort ks ! q) \<le> q"
  let ?s = "sort ks" let ?v = "sort ks ! q"
  have lt: "q < length (filter (\<lambda>k. k < ?v) ?s)" using q(2) by (simp add: length_filter_sort lt_count_def)
  have "?v = (filter (\<lambda>k. k < ?v) ?s @ filter (\<lambda>k. k = ?v) ?s @ filter (\<lambda>k. ?v < k) ?s) ! q"
    using arg_cong [OF sorted_split [of ?s ?v], of "\<lambda>xs. xs ! q"] by simp
  also have "\<dots> = filter (\<lambda>k. k < ?v) ?s ! q" using lt by (simp add: nth_append)
  also have "\<dots> < ?v" using nth_mem [OF lt] by simp
  finally show False by simp
qed

lemma sort_nth_below: "q < length ks \<Longrightarrow> q < le_count ks (sort ks ! q)"
proof (rule ccontr)
  assume q: "q < length ks" "\<not> q < le_count ks (sort ks ! q)"
  let ?s = "sort ks" let ?v = "sort ks ! q" let ?gt = "filter (\<lambda>k. ?v < k) ?s"
  have l: "length (filter (\<lambda>k. k < ?v) ?s) = lt_count ks ?v" "length (filter (\<lambda>k. k = ?v) ?s) = count_list ks ?v"
    by (simp_all add: length_filter_sort lt_count_def count_list_filter count_list_sort)
  have sp: "?s = filter (\<lambda>k. k < ?v) ?s @ filter (\<lambda>k. k = ?v) ?s @ ?gt" by (rule sorted_split) simp
  have "length ?s = lt_count ks ?v + count_list ks ?v + length ?gt" using arg_cong [OF sp, of length] l by simp
  then have j: "q - le_count ks ?v < length ?gt" using q le_lt_count [of ks ?v] by simp
  have "?v = (filter (\<lambda>k. k < ?v) ?s @ filter (\<lambda>k. k = ?v) ?s @ ?gt) ! q" using arg_cong [OF sp, of "\<lambda>xs. xs ! q"] .
  also have "\<dots> = ?gt ! (q - le_count ks ?v)" using q(2) l le_lt_count [of ks ?v] by (simp add: nth_append)
  also have "?v < \<dots>" using nth_mem [OF j] by simp
  finally show False by simp
qed

text \<open>
  After the keys \<open>zs\<close> have been placed: the rank of a value is lowered by the number of its
  copies among them, and every position from there on that belongs to the value holds it.
\<close>

definition place_inv :: "nat list \<Rightarrow> nat \<Rightarrow> nat list \<Rightarrow> nat list \<times> nat list \<Rightarrow> bool" where
  "place_inv ks mk zs st \<longleftrightarrow>
    length (snd st) = length ks \<and> length (fst st) = mk \<and> (\<forall>v < mk. fst st ! v = le_count ks v - count_list zs v) \<and>
    (\<forall>q < length ks. fst st ! (sort ks ! q) \<le> q \<longrightarrow> snd st ! q = sort ks ! q)"

lemma place_step:
  assumes inv: "place_inv ks mk zs st" and k: "k < mk" and c: "count_list zs k < count_list ks k" and all: "list_all (\<lambda>k. k < mk) ks"
  shows "place_inv ks mk (zs @ [k]) (place k st)"
proof -
  obtain B arr where st: "st = (B, arr)" by (cases st)
  have i: "length arr = length ks" "length B = mk" "\<And>v. v < mk \<Longrightarrow> B ! v = le_count ks v - count_list zs v"
    "\<And>q. q < length ks \<Longrightarrow> B ! (sort ks ! q) \<le> q \<Longrightarrow> arr ! q = sort ks ! q"
    using inv by (auto simp: place_inv_def st)
  define d where "d = B ! k - 1"
  have d: "lt_count ks k \<le> d" "d < le_count ks k" "B ! k = Suc d"
    using i(3) [OF k] c le_lt_count [of ks k] by (simp_all add: d_def)
  have dk: "sort ks ! d = k" "d < length ks" using sort_nth [OF d(1,2)] d(2) le_count_length [of ks k] by simp_all
  have p: "place k st = (B[k := d], arr[d := k])" by (simp add: place_def st d_def Let_def)
  have "B[k := d] ! v = le_count ks v - count_list (zs @ [k]) v" if "v < mk" for v
    using i(2) i(3) [OF that] d(3) k by (cases "v = k") simp_all
  moreover have "arr[d := k] ! q = sort ks ! q" if q: "q < length ks" "B[k := d] ! (sort ks ! q) \<le> q" for q
  proof (cases "q = d")
    case True
    then show ?thesis using dk i(1) by simp
  next
    case False
    have "B ! (sort ks ! q) \<le> q" using q(2) False d(3) i(2) k by (cases "sort ks ! q = k") simp_all
    then show ?thesis using i(4) [OF q(1)] False by simp
  qed
  ultimately show ?thesis using i(1,2) by (simp add: place_inv_def p)
qed

lemma place_run:
  assumes "place_inv ks mk zs st" "mset (zs @ ys) \<subseteq># mset ks" "list_all (\<lambda>k. k < mk) ks"
  shows "place_inv ks mk (zs @ ys) (fold place ys st)"
  using assms(1,2)
proof (induction ys arbitrary: zs st)
  case (Cons y ys)
  have sub: "mset (zs @ [y]) \<subseteq># mset ks"
    using Cons.prems(2) by (rule subset_mset.trans [rotated]) simp
  have "y \<in> set ks" using mset_subset_eqD [OF sub, of y] by simp
  then have y: "y < mk" using assms(3) by (simp add: list_all_iff)
  have "count_list zs y < count_list ks y" using mset_subset_eq_count [OF sub, of y] by (simp add: count_mset)
  from Cons.IH [OF place_step [OF Cons.prems(1) y this assms(3)]] Cons.prems(2) show ?case by simp
qed simp

lemma place_all:
  assumes "length B = mk" "\<forall>v < mk. B ! v = le_count ks v" "length arr = length ks" "list_all (\<lambda>k. k < mk) ks" "mset ys = mset ks"
  shows "snd (fold place ys (B, arr)) = sort ks"
proof -
  have lt: "sort ks ! q < mk" if "q < length ks" for q
    using nth_mem [of q "sort ks"] that assms(4) by (simp add: list_all_iff)
  have "place_inv ks mk [] (B, arr)"
    using assms lt sort_nth_below [of _ ks] by (auto simp: place_inv_def not_le [symmetric])
  then have inv: "place_inv ks mk ys (fold place ys (B, arr))" using place_run [of ks mk "[]"] assms(4,5) by simp
  let ?r = "fold place ys (B, arr)"
  have "count_list ys v = count_list ks v" for v using assms(5) by (metis count_mset)
  then have "fst ?r ! v = lt_count ks v" if "v < mk" for v
    using inv that le_lt_count [of ks v] by (simp add: place_inv_def)
  with inv lt sort_nth_above show ?thesis by (intro nth_equalityI) (simp_all add: place_inv_def)
qed

lemma fold_concat_map: "fold (\<lambda>x st. fold f (g x) st) xs st = fold f (concat (map g xs)) st"
  by (induction xs arbitrary: st) simp_all

lemma mset_concat_map: "mset (concat (map f xs)) = sum_mset (image_mset (\<lambda>x. mset (f x)) (mset xs))"
  by (induction xs) simp_all

lemma out_of_order_sorted: "sorted arr \<Longrightarrow> out_of_order arr = 0"
  unfolding out_of_order_def by (auto simp: filter_empty_conv not_less sorted_iff_nth_mono)

lemma full_verify_sorts:
  assumes rk: "ranked p ks s" and log: "NUM_BUCKETS_LOG_2 p \<le> MAX_KEY_LOG_2 p" and ks: "list_all (\<lambda>k. k < MAX_KEY p) ks"
    and len: "length (key_array s) = length ks"
    and ord: "mset (map fst order) = mset [0..<NUM_BUCKETS p]" "list_all (\<lambda>(j, t). t < length (bucket_ptrss s)) order"
  shows "key_array (full_verify order s) = sort ks" "passed_verification (full_verify order s) = passed_verification s + 1"
proof -
  let ?sh = "shift p" let ?nb = "NUM_BUCKETS p"
  have b2: "key_buff2 s = concat (sorted_buckets ?sh ?nb ks)" and B: "length (key_buff1 s) = MAX_KEY p" "\<forall>v < MAX_KEY p. key_buff1 s ! v = le_count ks v"
    and pt: "\<And>t. t < length (bucket_ptrss s) \<Longrightarrow> bucket_ptrss s ! t = ends ?sh ?nb ks"
    using rk by (auto simp: ranked_def)
  define g where "g = (\<lambda>(j, t). map ((!) (key_buff2 s)) [bucket_from (bucket_ptrss s ! t) j..<bucket_ptrss s ! t ! j])"
  have jn: "j < ?nb" if "(j, t) \<in> set order" for j t
  proof -
    have "j \<in> set (map fst order)" using that by force
    then show ?thesis using mset_eq_setD [OF ord(1)] by simp
  qed
  have g: "g x = in_bucket ?sh (fst x) ks" if "x \<in> set order" for x
    using that bucket_slice(3) [OF jn b2, of "fst x" "snd x"] pt ord(2) by (auto simp: g_def list_all_iff)
  have "mset (concat (map g order)) = mset (concat (map (\<lambda>j. in_bucket ?sh j ks) (map fst order)))"
    using g by (simp add: o_def cong: map_cong)
  also have "\<dots> = sum_mset (image_mset (\<lambda>j. mset (in_bucket ?sh j ks)) (mset (map fst order)))"
    by (rule mset_concat_map)
  also have "\<dots> = sum_mset (image_mset (\<lambda>j. mset (in_bucket ?sh j ks)) (mset [0..<?nb]))" by (simp only: ord(1))
  also have "\<dots> = mset (concat (sorted_buckets ?sh ?nb ks))"
    unfolding sorted_buckets_def by (rule mset_concat_map [symmetric])
  also have "\<dots> = mset ks" by (rule mset_all_buckets [OF keys_in_buckets(2) [OF log ks]])
  finally have perm: "mset (concat (map g order)) = mset ks" .
  have f: "fold (\<lambda>(j, t) st. fold (\<lambda>i. place (key_buff2 s ! i)) [bucket_from (bucket_ptrss s ! t) j..<bucket_ptrss s ! t ! j] st) order st0
      = fold place (concat (map g order)) st0" for st0
  proof -
    have "(\<lambda>(j, t) st. fold (\<lambda>i. place (key_buff2 s ! i)) [bucket_from (bucket_ptrss s ! t) j..<bucket_ptrss s ! t ! j] st)
        = (\<lambda>x st. fold place (g x) st)" by (auto simp: g_def fun_eq_iff fold_map o_def)
    then show ?thesis by (simp add: fold_concat_map)
  qed
  have res: "snd (fold place (concat (map g order)) (key_buff1 s, key_array s)) = sort ks"
    by (rule place_all [OF B len ks perm])
  then show "key_array (full_verify order s) = sort ks" "passed_verification (full_verify order s) = passed_verification s + 1"
    using out_of_order_sorted [of "sort ks"] unfolding full_verify_def f by (auto split: prod.splits)
qed

section \<open>The iterations\<close>

definition is_wf :: "is_params \<Rightarrow> nat \<Rightarrow> is_state \<Rightarrow> bool" where
  "is_wf p n s \<longleftrightarrow> length (key_array s) = n \<and> list_all (\<lambda>k. k < MAX_KEY p) (key_array s) \<and>
    length (key_buff1 s) = MAX_KEY p \<and> length (key_buff2 s) = n"

definition params_ok :: "is_params \<Rightarrow> bool" where
  "params_ok p \<longleftrightarrow> NUM_BUCKETS_LOG_2 p \<le> MAX_KEY_LOG_2 p \<and> MAX_ITERATIONS < MAX_KEY p \<and>
    length (test_index_array p) = TEST_ARRAY_SIZE \<and> list_all (\<lambda>i. i < NUM_KEYS p) (test_index_array p)"

text \<open>The number of test keys whose rank is the expected one, in terms of the keys alone.\<close>

definition tests_passed :: "npb_class \<Rightarrow> is_params \<Rightarrow> nat \<Rightarrow> nat list \<Rightarrow> nat" where
  "tests_passed cl p it ks =
    length (filter (\<lambda>i. let v = ks ! (test_index_array p ! i) in 0 < v \<and> v \<le> NUM_KEYS p - 1 \<and>
      int (le_count ks (v - 1)) = test_rank_array p ! i + rank_shift cl i (int it)) [0..<TEST_ARRAY_SIZE])"

lemma set_keys_range:
  assumes "list_all (\<lambda>k. k < MAX_KEY p) ks" "1 \<le> it" "it < MAX_KEY p"
  shows "list_all (\<lambda>k. k < MAX_KEY p) (set_keys p it ks)" "length (set_keys p it ks) = length ks"
proof -
  have "set (set_keys p it ks) \<subseteq> insert (MAX_KEY p - it) (insert it (set ks))"
    unfolding set_keys_def using set_update_subset_insert by (rule order_trans) (rule insert_mono [OF set_update_subset_insert])
  moreover have "\<forall>k \<in> insert (MAX_KEY p - it) (insert it (set ks)). k < MAX_KEY p" using assms by (auto simp: list_all_iff)
  ultimately show "list_all (\<lambda>k. k < MAX_KEY p) (set_keys p it ks)" unfolding list_all_iff by blast
  show "length (set_keys p it ks) = length ks" by (simp add: set_keys_def)
qed

lemma split_parts_lengths: "length xs = length ys \<Longrightarrow> map length (split_parts ns xs) = map length (split_parts ns ys)"
  by (induction ns arbitrary: xs ys) simp_all

lemma sched_ok_cong: "length ks = length ks' \<Longrightarrow> sched_ok p sd ks = sched_ok p sd ks'"
proof -
  assume l: "length ks = length ks'"
  have "length (split_parts (sd_parts sd) ks ! t) = length (split_parts (sd_parts sd) ks' ! t)" if "t < length (sd_parts sd)" for t
    using arg_cong [OF split_parts_lengths [OF l, of "sd_parts sd"], of "\<lambda>xs. xs ! t"] that by simp
  then show ?thesis using l by (auto simp: sched_ok_def)
qed

lemma is_rank_spec:
  assumes p: "params_ok p" and wf: "is_wf p (NUM_KEYS p) s" and ok: "sched_ok p sd (key_array s)" and it: "1 \<le> it" "it < MAX_KEY p"
    and s': "s' = is_rank cl p sd it s"
  shows "is_wf p (NUM_KEYS p) s'" "key_array s' = set_keys p it (key_array s)" "ranked p (key_array s') s'"
    "length (bucket_ptrss s') = length (sd_parts sd)"
    "passed_verification s' = passed_verification s + int (tests_passed cl p it (key_array s'))"
proof -
  define s1 where "s1 = s\<lparr>key_array := set_keys p it (key_array s)\<rparr>"
  let ?ks = "set_keys p it (key_array s)"
  have log: "NUM_BUCKETS_LOG_2 p \<le> MAX_KEY_LOG_2 p" using p by (simp add: params_ok_def)
  have k: "list_all (\<lambda>k. k < MAX_KEY p) ?ks" "length ?ks = length (key_array s)"
    using set_keys_range [OF _ it] wf by (simp_all add: is_wf_def)
  have "sched_ok p sd (key_array s1)" using ok sched_ok_cong [OF k(2)] by (simp add: s1_def)
  from rank_parallel_spec [OF log this] k wf
  have r: "ranked p ?ks (rank_parallel p sd s1)" "length (bucket_ptrss (rank_parallel p sd s1)) = length (sd_parts sd)"
    "key_array (rank_parallel p sd s1) = ?ks" "passed_verification (rank_parallel p sd s1) = passed_verification s"
    by (simp_all add: s1_def is_wf_def)
  define s2 where "s2 = rank_parallel p sd s1"
  define vals where "vals = map (\<lambda>i. ?ks ! (test_index_array p ! i)) [0..<TEST_ARRAY_SIZE]"
  have e: "s' = s2\<lparr>passed_verification := passed_verification s + int (partial_verify cl p it vals (key_buff1 s2))\<rparr>"
    unfolding s' is_rank_def Let_def using r(4) by (simp add: s1_def [symmetric] s2_def vals_def) (simp add: s1_def)
  show ks: "key_array s' = ?ks" using r(3) by (simp add: e s2_def)
  show rk: "ranked p (key_array s') s'" using r(1) ks by (simp add: e s2_def ranked_def)
  show "length (bucket_ptrss s') = length (sd_parts sd)" using r(2) by (simp add: e s2_def)
  have "length (concat (sorted_buckets (shift p) (NUM_BUCKETS p) ?ks)) = length ?ks"
    by (rule mset_eq_length [OF mset_all_buckets [OF keys_in_buckets(2) [OF log k(1)]]])
  then show "is_wf p (NUM_KEYS p) s'" using rk k wf by (simp add: is_wf_def ranked_def ks)
  have v: "?ks ! (test_index_array p ! i) < MAX_KEY p" if "i < TEST_ARRAY_SIZE" for i
    using that p k wf by (simp add: params_ok_def is_wf_def list_all_length)
  have "key_buff1 s2 ! (vals ! i - 1) = le_count ?ks (?ks ! (test_index_array p ! i) - 1)" if "i < TEST_ARRAY_SIZE" for i
    using that v [OF that] r(1) by (simp add: s2_def [symmetric] ranked_def vals_def)
  then have "partial_verify cl p it vals (key_buff1 s2) = tests_passed cl p it ?ks"
    unfolding partial_verify_def tests_passed_def Let_def
    by (intro arg_cong [of _ _ length] filter_cong) (auto simp: vals_def)
  then show "passed_verification s' = passed_verification s + int (tests_passed cl p it (key_array s'))" by (simp add: e ks [symmetric])
qed

text \<open>The keys before iteration \<open>n + 1\<close>, and the results of the first \<open>n\<close> iterations.\<close>

fun keys_after :: "is_params \<Rightarrow> nat list \<Rightarrow> nat \<Rightarrow> nat list" where
  "keys_after p ks 0 = ks"
| "keys_after p ks (Suc n) = set_keys p (Suc n) (keys_after p ks n)"

lemma iterations_spec:
  assumes p: "params_ok p" and wf: "is_wf p (NUM_KEYS p) s" and ok: "\<And>it. sched_ok p (sds it) (key_array s)"
    and s': "s' = fold (\<lambda>it. is_rank cl p (sds it) it) [1..<Suc n] s" and n: "n < MAX_KEY p"
  shows "is_wf p (NUM_KEYS p) s' \<and> key_array s' = keys_after p (key_array s) n
    \<and> passed_verification s' = passed_verification s + int (\<Sum>it\<leftarrow>[1..<Suc n]. tests_passed cl p it (keys_after p (key_array s) it))
    \<and> (0 < n \<longrightarrow> ranked p (key_array s') s' \<and> length (bucket_ptrss s') = length (sd_parts (sds n)))"
  using s' n
proof (induction n arbitrary: s')
  case 0
  then show ?case using wf by simp
next
  case (Suc n)
  let ?m = "fold (\<lambda>it. is_rank cl p (sds it) it) [1..<Suc n] s"
  have ih: "is_wf p (NUM_KEYS p) ?m" "key_array ?m = keys_after p (key_array s) n"
    "passed_verification ?m = passed_verification s + int (\<Sum>it\<leftarrow>[1..<Suc n]. tests_passed cl p it (keys_after p (key_array s) it))"
    using Suc.IH [OF refl] Suc.prems(2) by simp_all
  have e: "s' = is_rank cl p (sds (Suc n)) (Suc n) ?m" using Suc.prems(1) by simp
  have "length (key_array ?m) = length (key_array s)" using ih(1) wf by (simp add: is_wf_def)
  then have "sched_ok p (sds (Suc n)) (key_array ?m)" using ok sched_ok_cong by blast
  note r = is_rank_spec [OF p ih(1) this _ Suc.prems(2) e]
  have k: "key_array s' = keys_after p (key_array s) (Suc n)" using r(2) ih(2) by simp
  then show ?case using r ih(3) by simp
qed

lemma is_main_spec:
  assumes p: "params_ok p" and wf: "is_wf p (NUM_KEYS p) s" and ok: "\<And>it. sched_ok p (sds it) (key_array s)"
    and ord: "mset (map fst order) = mset [0..<NUM_BUCKETS p]" "list_all (\<lambda>(j, t). t < length (sd_parts (sds MAX_ITERATIONS))) order"
    and ks: "ks = keys_after p (set_keys p 1 (key_array s))"
    and good: "good = (\<Sum>it\<leftarrow>[1..<MAX_ITERATIONS + 1]. tests_passed cl p it (ks it))"
  shows "key_array (is_main cl p sds order s) = sort (ks MAX_ITERATIONS)"
    "passed_verification (is_main cl p sds order s) = (if good = 5 * MAX_ITERATIONS then 5 * int MAX_ITERATIONS + 1 else 0)"
proof -
  define s1 where "s1 = (is_rank cl p (sds 0) 1 s)\<lparr>passed_verification := 0\<rparr>"
  have mx: "MAX_ITERATIONS < MAX_KEY p" "1 < MAX_KEY p" using p by (simp_all add: params_ok_def MAX_ITERATIONS_def)
  note r1 = is_rank_spec [OF p wf ok le_refl mx(2) refl]
  have wf1: "is_wf p (NUM_KEYS p) s1" and k1: "key_array s1 = set_keys p 1 (key_array s)"
    using r1(1,2) by (simp_all add: s1_def is_wf_def)
  have "length (key_array s1) = length (key_array s)" using wf wf1 by (simp add: is_wf_def)
  then have ok1: "sched_ok p (sds it) (key_array s1)" for it using ok sched_ok_cong by blast
  define s2 where "s2 = fold (\<lambda>it. is_rank cl p (sds it) it) [1..<Suc MAX_ITERATIONS] s1"
  have p1: "passed_verification s1 = 0" by (simp add: s1_def)
  have "0 < MAX_ITERATIONS" by (simp add: MAX_ITERATIONS_def)
  with iterations_spec [OF p wf1 ok1 s2_def mx(1), unfolded k1 p1, folded ks]
  have r: "is_wf p (NUM_KEYS p) s2" "key_array s2 = ks MAX_ITERATIONS" "passed_verification s2 = int good"
    "ranked p (key_array s2) s2" "length (bucket_ptrss s2) = length (sd_parts (sds MAX_ITERATIONS))"
    unfolding good by auto
  have log: "NUM_BUCKETS_LOG_2 p \<le> MAX_KEY_LOG_2 p" using p by (simp add: params_ok_def)
  have kr: "list_all (\<lambda>k. k < MAX_KEY p) (key_array s2)" using r(1) by (simp add: is_wf_def)
  have o: "list_all (\<lambda>(j, t). t < length (bucket_ptrss s2)) order" using ord(2) r(5) by simp
  have m: "is_main cl p sds order s = (let s3 = full_verify order s2
      in if passed_verification s3 \<noteq> 5 * int MAX_ITERATIONS + 1 then s3\<lparr>passed_verification := 0\<rparr> else s3)"
    by (simp add: is_main_def s1_def s2_def Let_def del: upt_Suc)
  note fv = full_verify_sorts [OF r(4) log kr refl ord(1) o]
  show "key_array (is_main cl p sds order s) = sort (ks MAX_ITERATIONS)" using fv(1) r(2) by (simp add: m Let_def)
  show "passed_verification (is_main cl p sds order s) = (if good = 5 * MAX_ITERATIONS then 5 * int MAX_ITERATIONS + 1 else 0)"
    using fv(2) r(3) by (auto simp: m Let_def)
qed

end
