(* ===== verification/Is_Properties.thy ===== *)
theory Is_Properties
  imports Is_Random Is_Sort
begin

text \<open>
  The properties of the integer-sort benchmark.
\<close>

text \<open>
  The generator. On a machine whose \<^verbatim>\<open>double\<close> represents integers of 53 bits and their
  binary fractions exactly, \<^verbatim>\<open>randlc\<close> computes \<open>a * x mod 2 ^ 46\<close>, without any rounding error,
  and returns it scaled to the unit interval.
\<close>
theorem randlc_is_lcg:
  assumes "ieee_double u" "0 \<le> x" "x < 2 ^ 46" "0 \<le> a" "a < 2 ^ 46"
  shows "randlc u (real_of_int x) (real_of_int a) = (real_of_int ((a * x) mod 2 ^ 46), real_of_int ((a * x) mod 2 ^ 46) / 2 ^ 46)"
  by (rule randlc_exact [OF assms])

theorem randlc_is_lcg_witness: "fst (randlc exact_fpu (real_of_int 314159265) (real_of_int 1220703125)) = real_of_int 55909509111989"
  using randlc_is_lcg [OF exact_fpu_ieee, of 314159265 1220703125] by simp

text \<open>
  C22. The keys do not depend on the number of threads. Every thread computes the start of its
  own part of the sequence by repeated squaring; for every number of threads the array is
  filled with the keys of the sequential program, the \<open>i\<close>-th of which is made of the numbers
  \<open>4 i + 1\<close> to \<open>4 i + 4\<close> of the sequence, and every key is below \<^verbatim>\<open>MAX_KEY\<close>.
\<close>
theorem create_seq_threads:
  assumes "ieee_double u" "0 \<le> s" "s < 2 ^ 46" "0 \<le> a" "a < 2 ^ 46" "2 \<le> l" "l \<le> 48" "0 < nk" "0 < np"
  shows "create_seq u (2 ^ l) (int nk) np (real_of_int s) (real_of_int a) = create_seq u (2 ^ l) (int nk) 1 (real_of_int s) (real_of_int a)
    \<and> create_seq u (2 ^ l) (int nk) np (real_of_int s) (real_of_int a) = map (nth_key l a s) [0..<nk]
    \<and> list_all (\<lambda>k. 0 \<le> k \<and> k < 2 ^ l) (create_seq u (2 ^ l) (int nk) np (real_of_int s) (real_of_int a))"
proof -
  have r: "rand_arg s" "rand_arg a" using assms(2-5) by (simp_all add: rand_arg_def)
  note c = create_seq_exact [OF assms(1) r assms(6-8)]
  show ?thesis using c [OF assms(9)] c [of 1] nth_key_range [OF assms(7), of a s] by (simp add: list_all_iff)
qed

theorem create_seq_threads_witness:
  "create_seq exact_fpu (2 ^ 11) (int 65536) 3 (real_of_int 314159265) (real_of_int 1220703125)
    = create_seq exact_fpu (2 ^ 11) (int 65536) 1 (real_of_int 314159265) (real_of_int 1220703125)"
  using create_seq_threads [OF exact_fpu_ieee, of 314159265 1220703125 11 65536 3] by simp

text \<open>
  C15. The writes of the parallel bucket sort. Whatever the parts of the threads and in whatever
  order their steps are interleaved, when all threads have passed their part, the work array
  holds the keys of bucket 0, then those of bucket 1 and so on, each in the order of the
  input: no write of one thread ever destroys that of another.
\<close>
theorem scatter_any_interleaving:
  assumes "list_all (list_all (\<lambda>k. bucket sh k < nb)) parts" "length buff = length (concat parts)"
    and "set sched \<subseteq> {0..<length parts}"
    and "st = scatter_run sh parts sched \<lparr>sc_buff = buff,
       sc_ptrs = map (bucket_ptrs nb (map (count_part sh nb) parts)) [0..<length parts], sc_next = replicate (length parts) 0\<rparr>"
    and "\<And>t. t < length parts \<Longrightarrow> length (parts ! t) \<le> sc_next st ! t"
  shows "sc_buff st = concat (map (\<lambda>b. filter (\<lambda>k. bucket sh k = b) (concat parts)) [0..<nb])"
proof -
  let ?st0 = "\<lparr>sc_buff = buff, sc_ptrs = map (bucket_ptrs nb (map (count_part sh nb) parts)) [0..<length parts], sc_next = replicate (length parts) 0\<rparr>"
  have "scatter_inv sh nb parts ?st0" by (rule scatter_inv_start [OF assms(1,2) refl])
  moreover have "scatter_done parts (fold (scatter_step sh parts) sched ?st0)"
    using assms(5) by (simp add: scatter_done_def assms(4) scatter_run_def)
  ultimately have "sc_buff (fold (scatter_step sh parts) sched ?st0) = concat (sorted_buckets sh nb (concat parts))"
    using assms(1,3) by (intro scatter_par.run_outp) simp_all
  then show ?thesis by (simp add: assms(4) scatter_run_def sorted_buckets_def in_bucket_def)
qed

definition demo_scatter :: "nat list \<Rightarrow> scatter" where
  "demo_scatter sched = scatter_run 1 [[3, 0, 2], [1, 3]] sched \<lparr>sc_buff = [9, 9, 9, 9, 9],
     sc_ptrs = map (bucket_ptrs 2 (map (count_part 1 2) [[3, 0, 2], [1, 3]])) [0..<length [[3, 0, 2 :: nat], [1, 3]]],
     sc_next = replicate (length [[3, 0, 2 :: nat], [1, 3]]) 0\<rparr>"

theorem scatter_any_interleaving_witness: "sc_buff (demo_scatter [1, 0, 0, 1, 0]) = [0, 1, 3, 2, 3]"
proof -
  have "list_all (list_all (\<lambda>k. bucket 1 k < 2)) [[3, 0, 2], [1, 3]]" "sc_next (demo_scatter [1, 0, 0, 1, 0]) = [3, 2]" by code_simp+
  then have "sc_buff (demo_scatter [1, 0, 0, 1, 0])
      = concat (map (\<lambda>b. filter (\<lambda>k. bucket 1 k = b) (concat [[3, 0, 2], [1, 3]])) [0..<2])"
    by (intro scatter_any_interleaving [of 1 2 "[[3, 0, 2], [1, 3]]" "[9, 9, 9, 9, 9]" "[1, 0, 0, 1, 0]"])
      (auto simp: demo_scatter_def less_Suc_eq numeral_2_eq_2)
  also have "\<dots> = [0, 1, 3, 2, 3]" by code_simp
  finally show ?thesis .
qed

text \<open>
  Ranks. After an iteration of \<^verbatim>\<open>rank\<close>, under every fair schedule, the entry of a value in the
  array of ranks is the number of keys that are not greater, and the work array is a
  permutation of the keys.
\<close>
theorem rank_counts_keys:
  assumes "params_ok p" "is_wf p (NUM_KEYS p) s" "sched_ok p sd (key_array s)" "1 \<le> it" "it < MAX_KEY p" "v < MAX_KEY p"
    and "s' = is_rank cl p sd it s"
  shows "key_array s' = set_keys p it (key_array s) \<and> key_buff1 s' ! v = length (filter (\<lambda>k. k \<le> v) (key_array s'))
    \<and> mset (key_buff2 s') = mset (key_array s')"
proof -
  note r = is_rank_spec [OF assms(1-5,7)]
  have "NUM_BUCKETS_LOG_2 p \<le> MAX_KEY_LOG_2 p" using assms(1) by (simp add: params_ok_def)
  from keys_in_buckets(2) [OF this] r(1) have "list_all (\<lambda>k. bucket (shift p) k < NUM_BUCKETS p) (key_array s')" by (simp add: is_wf_def)
  then show ?thesis using r(2,3) assms(6) mset_all_buckets by (simp add: ranked_def le_count_def)
qed

definition demo_params :: is_params where
  "demo_params = \<lparr>TOTAL_KEYS_LOG_2 = 5, MAX_KEY_LOG_2 = 4, NUM_BUCKETS_LOG_2 = 2, test_index_array = [25, 26, 27, 28, 29],
     test_rank_array = [0, 0, 0, 0, 0]\<rparr>"

definition demo_is :: is_state where
  "demo_is = \<lparr>key_array = replicate 32 3, key_buff1 = replicate 16 0, key_buff2 = replicate 32 0, bucket_ptrss = [], passed_verification = 0\<rparr>"

definition demo_sched :: is_sched where
  "demo_sched = \<lparr>sd_parts = [20, 12], sd_steps = replicate 15 1 @ replicate 20 0, sd_buckets = [(2, 0), (1, 1), (0, 0), (3, 1)]\<rparr>"

lemma demo_is_ok: "params_ok demo_params" "is_wf demo_params (NUM_KEYS demo_params) demo_is" "sched_ok demo_params demo_sched (key_array demo_is)"
  by code_simp+

theorem rank_counts_keys_witness: "key_buff1 (is_rank Class_S demo_params demo_sched 1 demo_is) ! 3 = 31"
proof -
  let ?s = "is_rank Class_S demo_params demo_sched 1 demo_is"
  have "(1 :: nat) < MAX_KEY demo_params" "(3 :: nat) < MAX_KEY demo_params" by code_simp+
  from rank_counts_keys [OF demo_is_ok le_refl this refl, of Class_S]
  have "key_buff1 ?s ! 3 = length (filter (\<lambda>k. k \<le> 3) (set_keys demo_params 1 (key_array demo_is)))" by simp
  also have "\<dots> = 31" by code_simp
  finally show ?thesis .
qed

text \<open>
  C9. The benchmark sorts. For every number of threads, under all fair schedules of all parallel
  regions, the array of keys is sorted at the end and holds the keys of the last iteration;
  and the verdict is a function of the keys alone: 51 if all test keys had the expected rank
  in all ten iterations, 0 otherwise.
\<close>
theorem is_main_sorts:
  assumes "params_ok p" "is_wf p (NUM_KEYS p) s" "\<And>it. sched_ok p (sds it) (key_array s)"
    and "mset (map fst order) = mset [0..<NUM_BUCKETS p]" "list_all (\<lambda>(j, t). t < length (sd_parts (sds MAX_ITERATIONS))) order"
    and "ks = keys_after p (set_keys p 1 (key_array s))"
  shows "key_array (is_main cl p sds order s) = sort (ks MAX_ITERATIONS)
    \<and> passed_verification (is_main cl p sds order s) =
      (if (\<Sum>it\<leftarrow>[1..<MAX_ITERATIONS + 1]. tests_passed cl p it (ks it)) = 5 * MAX_ITERATIONS then 51 else 0)"
  using is_main_spec [where p = p and s = s and sds = sds and order = order and ks = ks and cl = cl, OF assms refl] by (simp add: MAX_ITERATIONS_def)

theorem is_main_sorts_witness:
  "sorted (key_array (is_main Class_S demo_params (\<lambda>_. demo_sched) [(3, 0), (0, 1), (1, 1), (2, 0)] demo_is))
   \<and> passed_verification (is_main Class_S demo_params (\<lambda>_. demo_sched) [(3, 0), (0, 1), (1, 1), (2, 0)] demo_is) \<in> {0, 51}"
proof -
  have "mset (map fst [(3 :: nat, 0 :: nat), (0, 1), (1, 1), (2, 0)]) = mset [0..<NUM_BUCKETS demo_params]"
    by (simp add: NUM_BUCKETS_def demo_params_def eval_nat_numeral add_mset_commute)
  moreover have "list_all (\<lambda>(j, t). t < length (sd_parts demo_sched)) [(3 :: nat, 0), (0, 1), (1, 1), (2, 0)]"
    by (simp add: demo_sched_def)
  ultimately show ?thesis
    using is_main_sorts [OF demo_is_ok(1,2), of "\<lambda>_. demo_sched" "[(3, 0), (0, 1), (1, 1), (2, 0)]" _ Class_S] demo_is_ok(3) by simp
qed

end
