(* ===== verification/Arping_State.thy ===== *)
theory Arping_State
  imports Timespec Rdisc_Main
begin

text \<open>
  The probing part of \<^verbatim>\<open>src/iputils-ns/arping.c\<close>: the globals of the program as a record, the
  frame \<^verbatim>\<open>send_pack\<close> builds, the alarm handler \<^verbatim>\<open>catcher\<close>, the receive filter \<^verbatim>\<open>recv_pack\<close>,
  the final report \<^verbatim>\<open>finish\<close> and the endless loop of \<^verbatim>\<open>main\<close> as a step function on events.
  Signals are blocked while a packet is handled, so the handlers are atomic steps. Reads outside an
  array end in the status \<open>Ar_fault\<close>.
\<close>

section \<open>Data\<close>

text \<open>
  A link-layer address (\<^verbatim>\<open>struct sockaddr_ll\<close>). \<open>sll_addr\<close> holds the bytes from the address field
  to the end of the object it lives in: \<^verbatim>\<open>me\<close> and \<^verbatim>\<open>he\<close> are \<^verbatim>\<open>sockaddr_storage\<close> of 128 bytes, of
  which 116 follow the header of twelve.
\<close>

record sll =
  sll_protocol :: u16
  sll_ifindex :: int
  sll_hatype :: u16
  sll_pkttype :: u8
  sll_halen :: u8
  sll_addr :: "octet list"

definition SLL_ROOM :: nat where "SLL_ROOM = 116"

definition ARPHRD_ETHER :: u16 where "ARPHRD_ETHER = 1"
definition ARPHRD_FDDI :: u16 where "ARPHRD_FDDI = 774"
definition ETH_P_IP :: u16 where "ETH_P_IP = 0x0800"
definition ETH_P_ARP :: u16 where "ETH_P_ARP = 0x0806"
definition ARPOP_REQUEST :: u16 where "ARPOP_REQUEST = 1"
definition ARPOP_REPLY :: u16 where "ARPOP_REPLY = 2"
definition PACKET_HOST :: u8 where "PACKET_HOST = 0"
definition PACKET_BROADCAST :: u8 where "PACKET_BROADCAST = 1"
definition PACKET_MULTICAST :: u8 where "PACKET_MULTICAST = 2"
definition ENETDOWN :: int where "ENETDOWN = 100"

datatype ar_status = Ar_running | Ar_exit int | Ar_fault

text \<open>
  What the program prints, as the values its \<^verbatim>\<open>printf\<close> calls get: the line of a reply (unicast or
  not, reply or request, sender, its hardware address, the two optional \<^verbatim>\<open>for\<close> parts, the time
  in milliseconds and the three digits behind it) and the report at the end.
\<close>

datatype ar_line =
    L_reply bool bool ip "octet list" "ip option" "octet list option" "(int \<times> int) option"
  | L_summary int int int int int

record arping =
  ar_quit_on_reply :: bool
  ar_dad :: bool
  ar_unsolicited :: bool
  ar_advert :: bool
  ar_quiet :: bool
  ar_broadcast_only :: bool
  ar_limit :: int
  ar_timeout :: int
  ar_src :: ip
  ar_dst :: ip
  ar_me :: sll
  ar_he :: sll
  ar_start :: timespec
  ar_last :: timespec
  ar_sent :: int
  ar_brd_sent :: int
  ar_received :: int
  ar_brd_recv :: int
  ar_req_recv :: int
  ar_unicasting :: bool
  ar_alarm :: bool
  ar_wire :: "(timespec \<times> octet list \<times> octet list) list"
  ar_out :: "ar_line list"
  ar_status :: ar_status

text \<open>
  \<open>ar_limit\<close> is \<^verbatim>\<open>count\<close>. \<open>ar_wire\<close> records the frames \<^verbatim>\<open>sendto\<close> took in full, each with the time
  \<^verbatim>\<open>send_pack\<close> read and the hardware address it was sent to; \<open>ar_out\<close> is what was printed.
\<close>

definition sll_zero :: sll where
  "sll_zero = \<lparr>sll_protocol = 0, sll_ifindex = 0, sll_hatype = 0, sll_pkttype = 0, sll_halen = 0,
     sll_addr = replicate SLL_ROOM 0\<rparr>"

definition ar_globals :: arping where
  "ar_globals = \<lparr>ar_quit_on_reply = False, ar_dad = False, ar_unsolicited = False, ar_advert = False, ar_quiet = False,
     ar_broadcast_only = False, ar_limit = -1, ar_timeout = 0, ar_src = 0, ar_dst = 0, ar_me = sll_zero, ar_he = sll_zero,
     ar_start = ts_zero, ar_last = ts_zero, ar_sent = 0, ar_brd_sent = 0, ar_received = 0, ar_brd_recv = 0,
     ar_req_recv = 0, ar_unicasting = False, ar_alarm = False, ar_wire = [], ar_out = [], ar_status = Ar_running\<rparr>"

section \<open>Sending a probe\<close>

definition sll_hw :: "sll \<Rightarrow> octet list option" where
  "sll_hw a = rd_bytes 0 (unat (sll_halen a)) (sll_addr a)"

definition ar_hrd :: "sll \<Rightarrow> u16" where
  "ar_hrd a = (if sll_hatype a = ARPHRD_FDDI then ARPHRD_ETHER else sll_hatype a)"

definition arp_frame :: "u16 \<Rightarrow> u8 \<Rightarrow> u16 \<Rightarrow> octet list \<Rightarrow> ip \<Rightarrow> octet list \<Rightarrow> ip \<Rightarrow> octet list" where
  "arp_frame hrd hln oper shw sip thw tip =
    be16_bytes hrd @ be16_bytes ETH_P_IP @ [hln, 4] @ be16_bytes oper
      @ shw @ le32_bytes sip @ thw @ le32_bytes tip"

text \<open>
  \<^verbatim>\<open>send_pack\<close>: \<open>err\<close> is what \<^verbatim>\<open>sendto\<close> returns. The frame has to fit the local buffer of 256 bytes,
  and both addresses have to hold as many bytes as \<^verbatim>\<open>me\<close> says.
\<close>

definition send_pack :: "timespec \<Rightarrow> int \<Rightarrow> arping \<Rightarrow> arping" where
  "send_pack now err s =
    (let hln = sll_halen (ar_me s) in
     case (sll_hw (ar_me s), rd_bytes 0 (unat hln) (sll_addr (ar_he s))) of
       (Some me_hw, Some he_hw) \<Rightarrow>
         (let buf = arp_frame (ar_hrd (ar_me s)) hln (if ar_advert s then ARPOP_REPLY else ARPOP_REQUEST)
                      me_hw (ar_src s) (if ar_advert s then me_hw else he_hw) (ar_dst s)
          in if 256 < length buf then s\<lparr>ar_status := Ar_fault\<rparr>
             else if err = int (length buf) then
               s\<lparr>ar_last := now, ar_sent := ar_sent s + 1,
                 ar_brd_sent := (if ar_unicasting s then ar_brd_sent s else ar_brd_sent s + 1),
                 ar_wire := ar_wire s @ [(now, buf, he_hw)]\<rparr>
             else s)
     | _ \<Rightarrow> s\<lparr>ar_status := Ar_fault\<rparr>)"

section \<open>The end of a run\<close>

definition ar_exit_code :: "arping \<Rightarrow> int" where
  "ar_exit_code s =
    (if ar_dad s then of_bool (ar_received s \<noteq> 0)
     else if ar_unsolicited s then 0
     else of_bool (ar_received s = 0))"

definition ar_finish :: "arping \<Rightarrow> arping" where
  "ar_finish s =
    s\<lparr>ar_out := (if ar_quiet s then ar_out s
        else ar_out s @ [L_summary (ar_sent s) (ar_brd_sent s) (ar_received s) (ar_req_recv s) (ar_brd_recv s)]),
      ar_status := Ar_exit (ar_exit_code s)\<rparr>"

section \<open>The alarm handler\<close>

definition timespec_sub :: "timespec \<Rightarrow> timespec \<Rightarrow> timespec" where
  "timespec_sub a b =
    (if tv_nsec a < tv_nsec b
     then \<lparr>tv_sec = tv_sec a - tv_sec b - 1, tv_nsec = tv_nsec a - tv_nsec b + 1000000000\<rparr>
     else \<lparr>tv_sec = tv_sec a - tv_sec b, tv_nsec = tv_nsec a - tv_nsec b\<rparr>)"

definition timespec_later :: "timespec \<Rightarrow> timespec \<Rightarrow> bool" where
  "timespec_later a b \<longleftrightarrow> tv_sec a > tv_sec b \<or> (tv_sec a = tv_sec b \<and> tv_nsec a > tv_nsec b)"

definition half_past :: "int \<Rightarrow> timespec" where
  "half_past n = \<lparr>tv_sec = n, tv_nsec = 500 * 1000000\<rparr>"

definition catcher_probe :: "timespec \<Rightarrow> int \<Rightarrow> arping \<Rightarrow> arping" where
  "catcher_probe now err s =
    (if ar_timeout s = 0 \<and> ar_sent s = ar_limit s then ar_finish s
     else let s1 = send_pack now err s in
       if ar_status s1 \<noteq> Ar_running then s1
       else if ar_sent s1 = ar_limit s1 \<and> ar_unsolicited s1 then ar_finish s1
       else s1\<lparr>ar_alarm := True\<rparr>)"

definition catcher :: "timespec \<Rightarrow> timespec \<Rightarrow> int \<Rightarrow> arping \<Rightarrow> arping" where
  "catcher ts now err s0 =
    (let s = (if tv_sec (ar_start s0) = 0 then s0\<lparr>ar_start := ts\<rparr> else s0) in
     if ar_timeout s \<noteq> 0 \<and> timespec_later (timespec_sub ts (ar_start s)) (half_past (ar_timeout s)) then ar_finish s
     else if tv_sec (ar_last s) = 0 \<or> timespec_later (timespec_sub ts (ar_last s)) (half_past 0)
       then catcher_probe now err s
     else s\<lparr>ar_alarm := True\<rparr>)"

section \<open>Received frames\<close>

text \<open>The time of a reply as it is printed: milliseconds and the three digits behind the point.\<close>

definition reply_time :: "timespec \<Rightarrow> timespec \<Rightarrow> int \<times> int" where
  "reply_time ts l =
    (let usecs = (tv_sec ts - tv_sec l) * 1000000 + c_div (tv_nsec ts - tv_nsec l + 500) 1000;
         msecs = c_div (usecs + 500) 1000
     in (msecs, usecs - (msecs * 1000 - 500)))"

definition ar_report :: "timespec \<Rightarrow> u8 \<Rightarrow> u16 \<Rightarrow> octet list \<Rightarrow> ip \<Rightarrow> octet list \<Rightarrow> ip \<Rightarrow> octet list \<Rightarrow> arping \<Rightarrow> arping" where
  "ar_report ts pkttype oper shw sip thw tip me_hw s =
    (if ar_quiet s then s
     else s\<lparr>ar_out := ar_out s @
       [L_reply (pkttype = PACKET_HOST) (oper = ARPOP_REPLY) sip shw
          (if tip \<noteq> ar_src s then Some tip else None)
          (if thw \<noteq> me_hw then Some thw else None)
          (if tv_sec (ar_last s) \<noteq> 0 then Some (reply_time ts (ar_last s)) else None)]\<rparr>)"

text \<open>The test of the addresses, in both modes.\<close>

definition ar_match :: "arping \<Rightarrow> octet list \<Rightarrow> octet list \<Rightarrow> ip \<Rightarrow> octet list \<Rightarrow> ip \<Rightarrow> bool" where
  "ar_match s me_hw shw sip thw tip =
    (if \<not> ar_dad s then sip = ar_dst s \<and> ar_src s = tip \<and> thw = me_hw
     else sip = ar_dst s \<and> shw \<noteq> me_hw \<and> \<not> (ar_src s \<noteq> 0 \<and> ar_src s \<noteq> tip))"

text \<open>What \<^verbatim>\<open>recv_pack\<close> does with a frame that passed.\<close>

definition ar_accept :: "u8 \<Rightarrow> u16 \<Rightarrow> octet list \<Rightarrow> arping \<Rightarrow> arping" where
  "ar_accept pkttype oper shw s =
    (let s1 = s\<lparr>ar_received := ar_received s + 1\<rparr> in
     if ar_timeout s1 \<noteq> 0 \<and> ar_received s1 = ar_limit s1 then ar_finish s1
     else let s2 = s1\<lparr>ar_brd_recv := (if pkttype \<noteq> PACKET_HOST then ar_brd_recv s1 + 1 else ar_brd_recv s1),
                       ar_req_recv := (if oper = ARPOP_REQUEST then ar_req_recv s1 + 1 else ar_req_recv s1)\<rparr> in
       if ar_quit_on_reply s2 \<or> (ar_limit s2 = 0 \<and> ar_received s2 = ar_sent s2) then ar_finish s2
       else if ar_broadcast_only s2 then s2
       else s2\<lparr>ar_he := (ar_he s2)\<lparr>sll_addr := shw @ drop (length shw) (sll_addr (ar_he s2))\<rparr>,
                ar_unicasting := True\<rparr>)"

text \<open>
  \<^verbatim>\<open>recv_pack\<close>. \<open>buf\<close> is the whole array \<^verbatim>\<open>packet\<close>, of which the first \<open>len\<close> bytes are the frame and
  the rest is whatever was there; the header is read before the length is known to reach that far.
\<close>

definition hdr16 :: "octet list \<Rightarrow> nat \<Rightarrow> u16" where
  "hdr16 ah i = word_of_int (be_value [ah ! i, ah ! (i + 1)])"

definition ar_header_ok :: "octet list \<Rightarrow> sll \<Rightarrow> arping \<Rightarrow> bool" where
  "ar_header_ok ah from s \<longleftrightarrow>
     sll_pkttype from \<in> {PACKET_HOST, PACKET_BROADCAST, PACKET_MULTICAST}
   \<and> hdr16 ah 6 \<in> {ARPOP_REQUEST, ARPOP_REPLY}
   \<and> (hdr16 ah 0 = sll_hatype from \<or> (sll_hatype from = ARPHRD_FDDI \<and> hdr16 ah 0 = ARPHRD_ETHER))
   \<and> hdr16 ah 2 = ETH_P_IP
   \<and> ah ! 5 = 4
   \<and> ah ! 4 = sll_halen (ar_me s)"

definition recv_pack :: "timespec \<Rightarrow> octet list \<Rightarrow> int \<Rightarrow> sll \<Rightarrow> arping \<Rightarrow> arping" where
  "recv_pack ts buf len from s =
    (case rd_bytes 0 8 buf of
       None \<Rightarrow> s\<lparr>ar_status := Ar_fault\<rparr>
     | Some ah \<Rightarrow>
         (if \<not> ar_header_ok ah from s then s
          else let hln = unat (ah ! 4) in
            if len < int (8 + 2 * (4 + hln)) then s
            else case (rd_bytes 8 hln buf, rd_bytes (8 + hln) 4 buf, rd_bytes (8 + hln + 4) hln buf,
                       rd_bytes (8 + hln + 4 + hln) 4 buf, sll_hw (ar_me s)) of
              (Some shw, Some sip, Some thw, Some tip, Some me_hw) \<Rightarrow>
                (let src_ip = word_of_int (le_value sip); dst_ip = word_of_int (le_value tip) in
                 if \<not> ar_match s me_hw shw src_ip thw dst_ip then s
                 else ar_accept (sll_pkttype from) (hdr16 ah 6) shw
                        (ar_report ts (sll_pkttype from) (hdr16 ah 6) shw src_ip thw dst_ip me_hw s))
            | _ \<Rightarrow> s\<lparr>ar_status := Ar_fault\<rparr>))"

section \<open>The loop\<close>

text \<open>
  An event is the alarm (with the two times the handler reads and the result of \<^verbatim>\<open>sendto\<close>), a
  frame, an error of \<^verbatim>\<open>recvfrom\<close> or the interrupt from the keyboard. The alarm rings only
  when \<^verbatim>\<open>alarm(1)\<close> has set it.
\<close>

datatype ar_event =
    Arp_alarm timespec timespec int
  | Arp_packet timespec "octet list" int sll
  | Arp_error int
  | Arp_interrupt

fun ar_handle :: "ar_event \<Rightarrow> arping \<Rightarrow> arping" where
  "ar_handle (Arp_alarm ts now err) s = (if ar_alarm s then catcher ts now err (s\<lparr>ar_alarm := False\<rparr>) else s)"
| "ar_handle (Arp_packet ts buf len from) s = recv_pack ts buf len from s"
| "ar_handle (Arp_error e) s = (if e = ENETDOWN then s\<lparr>ar_status := Ar_exit 2\<rparr> else s)"
| "ar_handle Arp_interrupt s = ar_finish s"

definition ar_step :: "ar_event \<Rightarrow> arping \<Rightarrow> arping" where
  "ar_step e s = (if ar_status s = Ar_running then ar_handle e s else s)"

text \<open>The end of \<^verbatim>\<open>main\<close>: one call of \<^verbatim>\<open>catcher\<close>, then the loop.\<close>

definition ar_run :: "timespec \<Rightarrow> timespec \<Rightarrow> int \<Rightarrow> ar_event list \<Rightarrow> arping \<Rightarrow> arping" where
  "ar_run ts now err evs s = fold ar_step evs (catcher ts now err s)"

end
