(* ===== verification/Arping_Device.thy ===== *)
theory Arping_Device
  imports Arping_State Rdisc_Start
begin

text \<open>
  How \<^verbatim>\<open>arping\<close> chooses its device: \<^verbatim>\<open>find_device\<close> with its three ways (the list of addresses, the files
  under \<^verbatim>\<open>/sys/class/net\<close>, the requests on a socket) and the choice of the broadcast address. What the
  system reports is an argument. An \<open>Inl\<close> is the end of the program with that status; \<open>None\<close> is an access through a
  pointer that does not point to a live object.
\<close>

section \<open>Data\<close>

definition AF_PACKET :: int where "AF_PACKET = 17"
definition ARP_IFF_UP :: u32 where "ARP_IFF_UP = 0x1"
definition ARP_IFF_LOOPBACK :: u32 where "ARP_IFF_LOOPBACK = 0x8"
definition IFF_RUNNING :: u32 where "IFF_RUNNING = 0x40"
definition IFF_NOARP :: u32 where "IFF_NOARP = 0x80"

text \<open>An entry of \<^verbatim>\<open>getifaddrs\<close>; \<open>ifa_addr\<close> is the family and the address.\<close>

record ifa =
  ifa_name :: string
  ifa_flags :: u32
  ifa_addr :: "(int \<times> sll) option"
  ifa_broadaddr :: "sll option"

text \<open>The attributes of a device under \<^verbatim>\<open>/sys\<close>, in the order of the source's \<^verbatim>\<open>enum\<close>.\<close>

record sysfs_values =
  sv_ifname :: "string option"
  sv_ifindex :: u64
  sv_flags :: u64
  sv_addr_len :: u64
  sv_broadcast :: "octet list option"

text \<open>\<open>dev_ifa\<close> carries whether the list the entry belongs to was released.\<close>

record device =
  dev_name :: "string option"
  dev_ifindex :: int
  dev_ifa :: "(ifa \<times> bool) option"
  dev_sysfs :: "sysfs_values option"

definition device_start :: device where
  "device_start = \<lparr>dev_name = None, dev_ifindex = 0, dev_ifa = None, dev_sysfs = None\<rparr>"

section \<open>The flags of an interface\<close>

definition check_ifflags :: "bool \<Rightarrow> u32 \<Rightarrow> bool \<Rightarrow> int + int" where
  "check_ifflags dad ifflags fatal =
    (if ifflags AND ARP_IFF_UP = 0 then (if fatal then Inl 2 else Inr (-1))
     else if ifflags AND (IFF_NOARP OR ARP_IFF_LOOPBACK) \<noteq> 0 then (if fatal then Inl (if dad then 0 else 2) else Inr (-1))
     else Inr 0)"

section \<open>The list of addresses\<close>

fun ifaddrs_loop :: "bool \<Rightarrow> ifa list \<Rightarrow> nat \<Rightarrow> device \<Rightarrow> int + (nat \<times> device)" where
  "ifaddrs_loop dad [] n dev = Inr (n, dev)"
| "ifaddrs_loop dad (x # xs) n dev =
    (case ifa_addr x of
       None \<Rightarrow> ifaddrs_loop dad xs n dev
     | Some (fam, a) \<Rightarrow>
         (if fam \<noteq> AF_PACKET then ifaddrs_loop dad xs n dev
          else if dev_name dev \<noteq> None \<and> dev_name dev \<noteq> Some (ifa_name x) then ifaddrs_loop dad xs n dev
          else case check_ifflags dad (ifa_flags x) (dev_name dev \<noteq> None) of
            Inl c \<Rightarrow> Inl c
          | Inr r \<Rightarrow>
              (if r < 0 then ifaddrs_loop dad xs n dev
               else if sll_halen a = 0 then ifaddrs_loop dad xs n dev
               else if ifa_broadaddr x = None then ifaddrs_loop dad xs n dev
               else let dev1 = dev\<lparr>dev_ifa := Some (x, False)\<rparr> in
                 if n \<noteq> 0 then Inr (n + 1, dev1) else ifaddrs_loop dad xs (n + 1) dev1)))"

definition find_device_by_ifaddrs :: "bool \<Rightarrow> ifa list option \<Rightarrow> (string \<Rightarrow> int) \<Rightarrow> device \<Rightarrow> int + (int \<times> device)" where
  "find_device_by_ifaddrs dad ifas nametoindex dev =
    (case ifas of
       None \<Rightarrow> Inr (-1, dev)
     | Some xs \<Rightarrow>
         (case ifaddrs_loop dad xs 0 dev of
            Inl c \<Rightarrow> Inl c
          | Inr (n, dev1) \<Rightarrow>
              (case dev_ifa dev1 of
                 Some (x, _) \<Rightarrow>
                   (if n = 1 then
                      (if nametoindex (ifa_name x) = 0 then Inr (-1, dev1\<lparr>dev_ifindex := 0, dev_ifa := Some (x, True)\<rparr>)
                       else Inr (0, dev1\<lparr>dev_ifindex := nametoindex (ifa_name x), dev_name := Some (ifa_name x)\<rparr>))
                    else Inr (1, dev1))
               | None \<Rightarrow> Inr (1, dev1))))"

section \<open>The files under /sys\<close>

text \<open>
  \<^verbatim>\<open>strtoul\<close>: the value, what is left of the text, and whether the value was out of range. \<^verbatim>\<open>sscanf\<close> with
  \<^verbatim>\<open>%02hhx\<close>: white space, then at most two characters, a sign and a digit or one or two digits.
\<close>

definition has_0x :: "string \<Rightarrow> bool" where
  "has_0x t \<longleftrightarrow> (case t of z # x # d # _ \<Rightarrow> z = CHR ''0'' \<and> (x = CHR ''x'' \<or> x = CHR ''X'') \<and> digit_value d < 16 | _ \<Rightarrow> False)"

definition strtoul :: "nat \<Rightarrow> string \<Rightarrow> u64 \<times> string \<times> bool" where
  "strtoul base str =
    (let t = dropWhile isspace_c str;
         neg = (t \<noteq> [] \<and> hd t = CHR ''-'');
         u = (if t \<noteq> [] \<and> (hd t = CHR ''-'' \<or> hd t = CHR ''+'') then tl t else t);
         v = (if base = 16 \<and> has_0x u then drop 2 u else u);
         ds = takeWhile (\<lambda>c. digit_value c < base) v;
         x = strtol_digits base ds 0
     in if ds = [] then (0, str, False)
        else if x \<ge> 2 ^ 64 then (-1, drop (length ds) v, True)
        else (if neg then - word_of_int x else word_of_int x, drop (length ds) v, False))"

definition NUL :: char where "NUL = CHR 0x00"

definition sysfs_devattr_ulong :: "nat \<Rightarrow> string \<Rightarrow> int \<times> u64" where
  "sysfs_devattr_ulong base buf =
    (let str = takeWhile (\<lambda>c. c \<noteq> NUL) buf; (x, ep, erange) = strtoul base str in
     if (str \<noteq> [] \<and> isspace_c (hd str)) \<or> erange \<or> \<not> (ep = [] \<or> hd ep = CHR 0x0A) then (-1, x) else (0, x))"

definition sysfs_devattr_ulong_dec :: "string \<Rightarrow> int \<times> u64" where
  "sysfs_devattr_ulong_dec buf = sysfs_devattr_ulong 10 buf"

definition sysfs_devattr_ulong_hex :: "string \<Rightarrow> int \<times> u64" where
  "sysfs_devattr_ulong_hex buf = sysfs_devattr_ulong 16 buf"

definition scan_hex2 :: "string \<Rightarrow> octet option" where
  "scan_hex2 str =
    (case dropWhile isspace_c str of
       [] \<Rightarrow> None
     | c # cs \<Rightarrow>
         (if c = CHR ''-'' \<or> c = CHR ''+'' then
            (if cs \<noteq> [] \<and> digit_value (hd cs) < 16
             then Some (if c = CHR ''-'' then - of_nat (digit_value (hd cs)) else of_nat (digit_value (hd cs))) else None)
          else if digit_value c < 16 then
            (if cs \<noteq> [] \<and> digit_value (hd cs) < 16 then Some (of_nat (16 * digit_value c + digit_value (hd cs)))
             else Some (of_nat (digit_value c)))
          else None))"

text \<open>
  \<^verbatim>\<open>sysfs_devattr_macaddr\<close> on the whole array of 256 characters, from byte \<open>i\<close> on with \<open>k\<close> bytes to come: \<open>None\<close> when
  it leaves the array, \<open>Some None\<close> when it fails. The separator is looked for at a fixed place, which may be behind the end
  of the text.
\<close>

fun mac_scan :: "string \<Rightarrow> nat \<Rightarrow> nat \<Rightarrow> octet list option option" where
  "mac_scan buf i 0 = Some (Some [])"
| "mac_scan buf i (Suc k) =
    (if length buf \<le> 3 * i \<or> NUL \<notin> set (drop (3 * i) buf) then None
     else if i \<noteq> 0 \<and> buf ! (3 * i - 1) \<noteq> CHR '':'' then Some None
     else case scan_hex2 (takeWhile (\<lambda>c. c \<noteq> NUL) (drop (3 * i) buf)) of
       None \<Rightarrow> Some None
     | Some b \<Rightarrow> map_option (map_option ((#) b)) (mac_scan buf (i + 1) k))"

definition sysfs_devattr_macaddr :: "string \<Rightarrow> u64 \<Rightarrow> octet list option option" where
  "sysfs_devattr_macaddr buf addr_len = mac_scan buf 0 (unat (ucast addr_len :: u32))"

definition sysfs_init :: sysfs_values where
  "sysfs_init = \<lparr>sv_ifname = None, sv_ifindex = 0, sv_flags = 0, sv_addr_len = 0, sv_broadcast = None\<rparr>"

text \<open>The handlers in the order of the table; \<open>files i\<close> is the array after reading attribute \<open>i\<close>, \<open>None\<close> if it cannot be opened.\<close>

definition sysfs_handler :: "nat \<Rightarrow> string \<Rightarrow> sysfs_values \<Rightarrow> (int \<times> sysfs_values) option" where
  "sysfs_handler i buf v =
    (if i = 0 then (case sysfs_devattr_ulong_dec buf of (rc, x) \<Rightarrow> Some (rc, v\<lparr>sv_ifindex := x\<rparr>))
     else if i = 1 then (case sysfs_devattr_ulong_hex buf of (rc, x) \<Rightarrow> Some (rc, v\<lparr>sv_flags := x\<rparr>))
     else if i = 2 then (case sysfs_devattr_ulong_dec buf of (rc, x) \<Rightarrow> Some (rc, v\<lparr>sv_addr_len := x\<rparr>))
     else case sysfs_devattr_macaddr buf (sv_addr_len v) of
       None \<Rightarrow> None
     | Some None \<Rightarrow> Some (-1, v)
     | Some (Some m) \<Rightarrow> Some (0, v\<lparr>sv_broadcast := Some m\<rparr>))"

fun sysfs_attrs :: "(nat \<Rightarrow> string option) \<Rightarrow> nat list \<Rightarrow> int \<Rightarrow> sysfs_values \<Rightarrow> (int \<times> sysfs_values) option" where
  "sysfs_attrs files [] rc v = Some (rc, v)"
| "sysfs_attrs files (i # is) rc v =
    (case files i of
       None \<Rightarrow> sysfs_attrs files is rc v
     | Some buf \<Rightarrow>
         (case sysfs_handler i buf v of
            None \<Rightarrow> None
          | Some (rc1, v1) \<Rightarrow> (if rc1 < 0 then Some (rc1, v1) else sysfs_attrs files is rc1 v1)))"

text \<open>
  The scan of the directory: \<open>dup name\<close> says whether \<^verbatim>\<open>strdup\<close> succeeds. The result of the loop is the number of
  devices taken, and whether the function leaves through its error exit.
\<close>

definition sysfs_suitable :: "bool \<Rightarrow> device \<Rightarrow> sysfs_values \<Rightarrow> int + bool" where
  "sysfs_suitable dad dev v =
    (case check_ifflags dad (ucast (sv_flags v)) (dev_name dev \<noteq> None) of
       Inl c \<Rightarrow> Inl c
     | Inr r \<Rightarrow> Inr (\<not> r < 0 \<and> sv_addr_len v \<noteq> 0 \<and>
         (case dev_sysfs dev of None \<Rightarrow> True
          | Some d \<Rightarrow> \<not> (sv_ifindex d \<noteq> 0 \<and> ucast (sv_flags d) AND IFF_RUNNING \<noteq> 0))))"

fun sysfs_loop :: "bool \<Rightarrow> (string \<Rightarrow> bool) \<Rightarrow> (string \<times> (nat \<Rightarrow> string option)) list \<Rightarrow> nat \<Rightarrow> device
    \<Rightarrow> (int + (nat \<times> bool \<times> device)) option" where
  "sysfs_loop dad dup [] n dev = Some (Inr (n, False, dev))"
| "sysfs_loop dad dup ((nm, files) # ds) n dev =
    (if nm = ''.'' \<or> nm = ''..'' then sysfs_loop dad dup ds n dev
     else if dev_name dev \<noteq> None \<and> dev_name dev \<noteq> Some nm then sysfs_loop dad dup ds n dev
     else case sysfs_attrs files [0, 1, 2, 3] (-1) sysfs_init of
       None \<Rightarrow> None
     | Some (rc, v) \<Rightarrow>
         (if rc < 0 then sysfs_loop dad dup ds n dev
          else case sysfs_suitable dad dev v of
            Inl c \<Rightarrow> Some (Inl c)
          | Inr False \<Rightarrow> sysfs_loop dad dup ds n dev
          | Inr True \<Rightarrow>
              (if \<not> dup nm then Some (Inr (n, True, dev))
               else let dev1 = dev\<lparr>dev_sysfs := Some (v\<lparr>sv_ifname := Some nm\<rparr>)\<rparr> in
                 if n \<noteq> 0 then Some (Inr (n + 1, False, dev1)) else sysfs_loop dad dup ds (n + 1) dev1)))"

definition find_device_by_sysfs :: "bool \<Rightarrow> (string \<Rightarrow> bool) \<Rightarrow> (string \<times> (nat \<Rightarrow> string option)) list option \<Rightarrow> device
    \<Rightarrow> (int + (int \<times> device)) option" where
  "find_device_by_sysfs dad dup dir dev =
    (let dev0 = (if dev_sysfs dev = None then dev\<lparr>dev_sysfs := Some sysfs_init\<rparr> else dev) in
     case dir of
       None \<Rightarrow> None
     | Some ds \<Rightarrow>
         (case sysfs_loop dad dup ds 0 dev0 of
            None \<Rightarrow> None
          | Some (Inl c) \<Rightarrow> Some (Inl c)
          | Some (Inr (n, True, dev1)) \<Rightarrow> Some (Inr (-1, dev1))
          | Some (Inr (n, False, dev1)) \<Rightarrow>
              (case dev_sysfs dev1 of
                 None \<Rightarrow> None
               | Some d \<Rightarrow>
                   (let dev2 = (if n = 1 then dev1\<lparr>dev_ifindex := sint (ucast (sv_ifindex d) :: u32), dev_name := sv_ifname d\<rparr> else dev1)
                    in Some (Inr (of_bool (dev_ifindex dev2 = 0), dev2))))))"

section \<open>Requests on a socket\<close>

text \<open>
  \<open>gifflags\<close>, \<open>gifindex\<close> and \<open>gifconf\<close> are the answers to \<^verbatim>\<open>SIOCGIFFLAGS\<close> and \<^verbatim>\<open>SIOCGIFINDEX\<close> for a name and to
  \<^verbatim>\<open>SIOCGIFCONF\<close>. A \<^verbatim>\<open>struct ifreq\<close> has 40 bytes; it is modelled as its name and its index, whose low half is also
  the place of the flags.
\<close>

record ioctl_env =
  io_socket :: bool
  io_flags :: "string \<Rightarrow> u16 option"
  io_index :: "string \<Rightarrow> int option"
  io_conf :: "string list option"

definition put_flags :: "u16 \<Rightarrow> int \<Rightarrow> int" where
  "put_flags fl i = sint ((word_of_int i AND 0xFFFF0000) OR ucast fl :: u32)"

definition check_device_by_ioctl :: "bool \<Rightarrow> ioctl_env \<Rightarrow> bool \<Rightarrow> string \<times> int \<Rightarrow> int + (int \<times> string \<times> int)" where
  "check_device_by_ioctl dad io named ifr =
    (case io_flags io (fst ifr) of
       None \<Rightarrow> Inr (-1, ifr)
     | Some fl \<Rightarrow>
         (let ifr1 = (fst ifr, put_flags fl (snd ifr)) in
          case check_ifflags dad (scast fl) named of
            Inl c \<Rightarrow> Inl c
          | Inr r \<Rightarrow> (if r < 0 then Inr (1, ifr1)
                      else case io_index io (fst ifr) of None \<Rightarrow> Inr (-1, ifr1) | Some i \<Rightarrow> Inr (0, fst ifr, i))))"

text \<open>The size of the array for \<^verbatim>\<open>SIOCGIFCONF\<close> with \<open>k\<close> interfaces: doubled until there is room to spare.\<close>

function ifconf_size :: "nat \<Rightarrow> nat \<Rightarrow> nat option" where
  "ifconf_size k ifrsize =
    (if 40 * min k (ifrsize div 40) + 152 \<le> ifrsize then Some ifrsize
     else if 0 < ifrsize \<and> 2 * ifrsize < 1073741823 then ifconf_size k (2 * ifrsize) else None)"
  by auto
termination by (relation "measure (\<lambda>(k, n). 1073741823 - n)") auto

declare ifconf_size.simps [simp del]

fun ioctl_loop :: "bool \<Rightarrow> ioctl_env \<Rightarrow> string list \<Rightarrow> string \<times> int \<Rightarrow> nat \<Rightarrow> int + (nat \<times> string \<times> int)" where
  "ioctl_loop dad io [] ifrbuf n = Inr (n, ifrbuf)"
| "ioctl_loop dad io (nm # nms) ifrbuf n =
    (case check_device_by_ioctl dad io False ifrbuf of
       Inl c \<Rightarrow> Inl c
     | Inr (rc, _, i) \<Rightarrow>
         (if rc \<noteq> 0 then ioctl_loop dad io nms (fst ifrbuf, i) n
          else if n \<noteq> 0 then Inr (n + 1, nm, i) else ioctl_loop dad io nms (nm, i) (n + 1)))"

definition ioctl_result :: "nat \<times> string \<times> int \<Rightarrow> device \<Rightarrow> int \<times> device" where
  "ioctl_result r dev =
    (case r of (n, nm, i) \<Rightarrow>
       let dev1 = (if n = 1 then dev\<lparr>dev_ifindex := i, dev_name := Some nm\<rparr> else dev)
       in (of_bool (dev_ifindex dev1 = 0), dev1))"

definition find_device_by_ioctl :: "bool \<Rightarrow> ioctl_env \<Rightarrow> device \<Rightarrow> int + (int \<times> device)" where
  "find_device_by_ioctl dad io dev =
    (if \<not> io_socket io then Inr (-1, dev)
     else case dev_name dev of
       Some nm \<Rightarrow>
         (case check_device_by_ioctl dad io True (take 15 nm, 0) of
            Inl c \<Rightarrow> Inl c
          | Inr (rc, _, i) \<Rightarrow> (if rc \<noteq> 0 then Inr (-1, dev) else Inr (ioctl_result (1, take 15 nm, i) dev)))
     | None \<Rightarrow>
         (case io_conf io of
            None \<Rightarrow> Inr (-1, dev)
          | Some nms \<Rightarrow>
              (if ifconf_size (length nms) 40 = None then Inr (-1, dev)
               else case ioctl_loop dad io nms ('''', 0) 0 of
                 Inl c \<Rightarrow> Inl c
               | Inr r \<Rightarrow> Inr (ioctl_result r dev))))"

section \<open>All three\<close>

record find_env =
  fe_ifas :: "ifa list option"
  fe_nametoindex :: "string \<Rightarrow> int"
  fe_strdup :: "string \<Rightarrow> bool"
  fe_sysdir :: "(string \<times> (nat \<Rightarrow> string option)) list option"
  fe_ioctl :: ioctl_env

definition find_device :: "bool \<Rightarrow> find_env \<Rightarrow> device \<Rightarrow> (int + (int \<times> device)) option" where
  "find_device dad F dev =
    (case find_device_by_ifaddrs dad (fe_ifas F) (fe_nametoindex F) dev of
       Inl c \<Rightarrow> Some (Inl c)
     | Inr (rc, dev1) \<Rightarrow>
         (if rc \<ge> 0 then Some (Inr (rc, dev1))
          else case find_device_by_sysfs dad (fe_strdup F) (fe_sysdir F) dev1 of
            None \<Rightarrow> None
          | Some (Inl c) \<Rightarrow> Some (Inl c)
          | Some (Inr (rc2, dev2)) \<Rightarrow>
              (if rc2 \<ge> 0 then Some (Inr (rc2, dev2)) else Some (find_device_by_ioctl dad (fe_ioctl F) dev2))))"

section \<open>The broadcast address\<close>

text \<open>Each returns what it writes into the address, \<open>Some None\<close> when it leaves the address to the next one.\<close>

definition set_device_broadcast_ifaddrs_one :: "device \<Rightarrow> nat \<Rightarrow> octet list option option" where
  "set_device_broadcast_ifaddrs_one dev balen =
    (case dev_ifa dev of
       None \<Rightarrow> Some None
     | Some (x, freed) \<Rightarrow>
         (if freed then None
          else case ifa_broadaddr x of
            None \<Rightarrow> None
          | Some b \<Rightarrow> (if unat (sll_halen b) \<noteq> balen then Some None else map_option Some (sll_hw b))))"

definition set_device_broadcast_sysfs :: "device \<Rightarrow> nat \<Rightarrow> octet list option option" where
  "set_device_broadcast_sysfs dev balen =
    (case dev_sysfs dev of
       None \<Rightarrow> Some None
     | Some v \<Rightarrow>
         (if unat (sv_addr_len v) \<noteq> balen then Some None
          else case sv_broadcast v of None \<Rightarrow> None | Some m \<Rightarrow> map_option Some (rd_bytes 0 balen m)))"

definition set_device_broadcast :: "device \<Rightarrow> nat \<Rightarrow> octet list option" where
  "set_device_broadcast dev balen =
    (case set_device_broadcast_ifaddrs_one dev balen of
       None \<Rightarrow> None
     | Some (Some b) \<Rightarrow> Some b
     | Some None \<Rightarrow>
         (case set_device_broadcast_sysfs dev balen of
            None \<Rightarrow> None
          | Some (Some b) \<Rightarrow> Some b
          | Some None \<Rightarrow> Some (replicate balen (-1))))"

section \<open>Printing an address\<close>

definition hex_digit :: "nat \<Rightarrow> char" where
  "hex_digit d = (if d < 10 then char_of (48 + d) else char_of (55 + d))"

fun print_hex :: "octet list \<Rightarrow> string" where
  "print_hex [] = []"
| "print_hex [b] = [hex_digit (unat b div 16), hex_digit (unat b mod 16)]"
| "print_hex (b # bs) = [hex_digit (unat b div 16), hex_digit (unat b mod 16), CHR '':''] @ print_hex bs"

end
