(* ===== verification/Arping_Frames.thy ===== *)
theory Arping_Frames
  imports Arping_State Rdisc_Protocol
begin

text \<open>
  What \<^verbatim>\<open>recv_pack\<close> of \<^verbatim>\<open>arping\<close> accepts, against a declarative description of an ARP frame:
  the bytes received are a frame with some padding, whatever the rest of the array holds.
\<close>

section \<open>Bytes and words\<close>

lemma be16_of_hdr [simp]: "hdr16 (be16_bytes w @ r) 0 = w"
  using be_value_be16 [of w] by (simp add: hdr16_def be16_bytes_def)

lemma uint_u16_of_int: "0 \<le> v \<Longrightarrow> v < 65536 \<Longrightarrow> uint (word_of_int v :: u16) = v"
  by (simp add: uint_word_of_int)

lemma uint_two_bytes: "uint (word_of_int (uint a + 256 * uint b) :: u16) = uint (a :: octet) + 256 * uint (b :: octet)"
proof -
  have "uint a + 256 * uint b < 65536" "0 \<le> uint a + 256 * uint b"
    using octet_bound [of a] octet_bound [of b] by simp_all
  then show ?thesis by (intro uint_u16_of_int)
qed

lemma bytes_eqI:
  assumes "uint (a :: octet) + 256 * x = uint (b :: octet) + 256 * y"
  shows "a = b \<and> x = y"
proof -
  have "(uint a + 256 * x) mod 256 = (uint b + 256 * y) mod 256" using assms by simp
  then have "uint a = uint b" using octet_bound [of a] octet_bound [of b] by simp
  then show ?thesis using assms by (simp add: word_uint_eq_iff)
qed

lemma be16_bytes_hdr16: "i + 1 < length ah \<Longrightarrow> be16_bytes (hdr16 ah i) = [ah ! i, ah ! (i + 1)]"
proof -
  define w where "w = hdr16 ah i"
  have "uint w = uint (ah ! (i + 1)) + 256 * uint (ah ! i)"
    unfolding w_def hdr16_def using uint_two_bytes [of "ah ! (i + 1)" "ah ! i"] by (simp add: be_value_def)
  then have "uint (ucast w :: octet) + 256 * uint (ucast (drop_bit 8 w) :: octet) = uint (ah ! (i + 1)) + 256 * uint (ah ! i)"
    using word_of_bytes [of w] by simp
  from bytes_eqI [OF this] show ?thesis unfolding w_def [symmetric] be16_bytes_def by (simp add: word_uint_eq_iff)
qed

lemma le_value_inj: "length xs = length ys \<Longrightarrow> le_value xs = le_value ys \<Longrightarrow> xs = ys"
proof (induction xs ys rule: list_induct2)
  case (Cons x xs y ys)
  from bytes_eqI [of x "le_value xs" y "le_value ys"] Cons show ?case by simp
qed simp

lemma le_value_less: "le_value bs < 256 ^ length bs"
proof (induction bs)
  case (Cons b bs)
  then have "le_value bs + 1 \<le> 256 ^ length bs" by simp
  then have "256 * (le_value bs + 1) \<le> 256 * 256 ^ length bs" by simp
  then show ?case using octet_bound [of b] by simp
qed simp

lemma le32_of_value: "length bs = 4 \<Longrightarrow> le32_bytes (word_of_int (le_value bs)) = bs"
proof -
  assume l: "length bs = 4"
  have "le_value bs < 4294967296" using le_value_less [of bs] l by simp
  then have "le_value (le32_bytes (word_of_int (le_value bs))) = le_value bs"
    using le_value_nonneg [of bs] by (simp add: uint_word_of_int)
  with l show ?thesis by (intro le_value_inj) simp_all
qed

section \<open>The format of a frame\<close>

definition is_arp :: "octet list \<Rightarrow> u16 \<Rightarrow> u8 \<Rightarrow> u16 \<Rightarrow> octet list \<Rightarrow> ip \<Rightarrow> octet list \<Rightarrow> ip \<Rightarrow> bool" where
  "is_arp fr hrd hln oper shw sip thw tip \<longleftrightarrow>
     length shw = unat hln \<and> length thw = unat hln
   \<and> (\<exists>pad. fr = arp_frame hrd hln oper shw sip thw tip @ pad)"

lemma length_arp_frame [simp]: "length (arp_frame hrd hln oper shw sip thw tip) = 16 + length shw + length thw"
  by (simp add: arp_frame_def)

abbreviation arp_head :: "u16 \<Rightarrow> u8 \<Rightarrow> u16 \<Rightarrow> octet list" where
  "arp_head hrd hln oper \<equiv> be16_bytes hrd @ be16_bytes ETH_P_IP @ [hln, 4] @ be16_bytes oper"

lemma rd_bytes_append: "length xs = k \<Longrightarrow> length ys = n \<Longrightarrow> rd_bytes k n (xs @ ys @ zs) = Some ys"
  by (simp add: rd_bytes_def)

lemma rd_bytes_prefix: "length ys = n \<Longrightarrow> rd_bytes 0 n (ys @ zs) = Some ys"
  using rd_bytes_append [of "[]" 0 ys n zs] by simp

lemma head_fields:
  "hdr16 (arp_head hrd hln oper) 0 = hrd" "hdr16 (arp_head hrd hln oper) 2 = ETH_P_IP"
  "hdr16 (arp_head hrd hln oper) 6 = oper" "arp_head hrd hln oper ! 4 = hln" "arp_head hrd hln oper ! 5 = 4"
  using be_value_be16 [of hrd] be_value_be16 [of ETH_P_IP] be_value_be16 [of oper]
  by (simp_all add: hdr16_def be16_bytes_def)

text \<open>Reading the fields of a frame that starts the array.\<close>

lemma frame_reads:
  assumes "is_arp (take n buf) hrd hln oper shw sip thw tip"
  shows "rd_bytes 0 8 buf = Some (arp_head hrd hln oper)"
    and "rd_bytes 8 (unat hln) buf = Some shw"
    and "rd_bytes (8 + unat hln) 4 buf = Some (le32_bytes sip)"
    and "rd_bytes (8 + unat hln + 4) (unat hln) buf = Some thw"
    and "rd_bytes (8 + unat hln + 4 + unat hln) 4 buf = Some (le32_bytes tip)"
    and "8 + 2 * (4 + unat hln) \<le> n"
proof -
  from assms obtain pad where l: "length shw = unat hln" "length thw = unat hln"
    and b: "take n buf = arp_frame hrd hln oper shw sip thw tip @ pad" by (auto simp: is_arp_def)
  define rest where "rest = pad @ drop n buf"
  have buf: "buf = arp_head hrd hln oper @ shw @ le32_bytes sip @ thw @ le32_bytes tip @ rest"
    using arg_cong [OF b, of "\<lambda>t. t @ drop n buf"] by (simp add: rest_def arp_frame_def)
  show "rd_bytes 0 8 buf = Some (arp_head hrd hln oper)"
    unfolding buf by (rule rd_bytes_prefix) simp
  show "rd_bytes 8 (unat hln) buf = Some shw"
    unfolding buf by (rule rd_bytes_append) (simp_all add: l)
  show "rd_bytes (8 + unat hln) 4 buf = Some (le32_bytes sip)"
    unfolding buf using rd_bytes_append [of "arp_head hrd hln oper @ shw" "8 + unat hln" "le32_bytes sip" 4] l by simp
  show "rd_bytes (8 + unat hln + 4) (unat hln) buf = Some thw"
    unfolding buf using rd_bytes_append [of "arp_head hrd hln oper @ shw @ le32_bytes sip" "8 + unat hln + 4" thw "unat hln"] l
    by simp
  show "rd_bytes (8 + unat hln + 4 + unat hln) 4 buf = Some (le32_bytes tip)"
    unfolding buf
    using rd_bytes_append [of "arp_head hrd hln oper @ shw @ le32_bytes sip @ thw" "8 + unat hln + 4 + unat hln" "le32_bytes tip" 4] l
    by simp
  have "length (take n buf) \<ge> 16 + 2 * unat hln" unfolding b by (simp add: l)
  then show "8 + 2 * (4 + unat hln) \<le> n" by simp
qed

lemma is_arp_unique:
  assumes "is_arp fr hrd hln oper shw sip thw tip" and "is_arp fr hrd' hln' oper' shw' sip' thw' tip'"
  shows "hrd = hrd' \<and> hln = hln' \<and> oper = oper' \<and> shw = shw' \<and> sip = sip' \<and> thw = thw' \<and> tip = tip'"
proof -
  note a = frame_reads [where buf = fr and n = "length fr", simplified take_all_iff order_refl, simplified]
  from a(1) [OF assms(1)] a(1) [OF assms(2)] have h: "arp_head hrd hln oper = arp_head hrd' hln' oper'" by simp
  have 1: "hrd = hrd'" "oper = oper'" "hln = hln'"
    using head_fields(1,3,4) [of hrd hln oper] head_fields(1,3,4) [of hrd' hln' oper'] unfolding h by simp_all
  note b = a [OF assms(1)] and c = a [OF assms(2), folded 1(3)]
  have s: "le32_bytes sip = le32_bytes sip'" "le32_bytes tip = le32_bytes tip'" using b c by simp_all
  have "uint sip = uint sip'" "uint tip = uint tip'"
    using arg_cong [OF s(1), of le_value] arg_cong [OF s(2), of le_value] by simp_all
  then show ?thesis using 1 b c by (simp add: word_uint_eq_iff)
qed

text \<open>Every sufficiently long array whose header passes is such a frame.\<close>

lemma is_arp_of_buffer:
  assumes "hdr16 buf 2 = ETH_P_IP" and "buf ! 5 = 4"
    and "8 + 2 * (4 + unat (buf ! 4)) \<le> n" and "n \<le> length buf"
  shows "\<exists>shw sip thw tip. is_arp (take n buf) (hdr16 buf 0) (buf ! 4) (hdr16 buf 6) shw sip thw tip"
proof -
  define h where "h = unat (buf ! 4)"
  define shw where "shw = take h (drop 8 buf)"
  define sip where "sip = take 4 (drop (8 + h) buf)"
  define thw where "thw = take h (drop (12 + h) buf)"
  define tip where "tip = take 4 (drop (12 + 2 * h) buf)"
  have n: "16 + 2 * h \<le> n" using assms(3) by (simp add: h_def)
  have l: "length shw = h" "length sip = 4" "length thw = h" "length tip = 4"
    using n assms(4) by (simp_all add: shw_def sip_def thw_def tip_def)
  have head: "take 8 buf = arp_head (hdr16 buf 0) (buf ! 4) (hdr16 buf 6)"
  proof -
    have b8: "8 \<le> length buf" using n assms(4) by simp
    have "take 8 buf = [buf ! 0, buf ! 1, buf ! 2, buf ! 3, buf ! 4, buf ! 5, buf ! 6, buf ! 7]"
    proof -
      have "buf \<noteq> []" using b8 by auto
      then show ?thesis using b8 by (simp add: take_Suc_conv_app_nth numeral_eq_Suc)
    qed
    moreover have "be16_bytes ETH_P_IP = [buf ! 2, buf ! 3]"
      using be16_bytes_hdr16 [of 2 buf] b8 assms(1) by simp
    moreover have "be16_bytes (hdr16 buf 0) = [buf ! 0, buf ! 1]" "be16_bytes (hdr16 buf 6) = [buf ! 6, buf ! 7]"
      using be16_bytes_hdr16 [of 0 buf] be16_bytes_hdr16 [of 6 buf] b8 by simp_all
    ultimately show ?thesis using assms(2) by simp
  qed
  have chop: "drop k buf = take m (drop k buf) @ drop (k + m) buf" for k m
    by (metis append_take_drop_id drop_drop add.commute)
  have "buf = take 8 buf @ drop 8 buf" by simp
  also have "drop 8 buf = shw @ drop (8 + h) buf" unfolding shw_def by (rule chop)
  also have "drop (8 + h) buf = sip @ drop (8 + h + 4) buf" unfolding sip_def by (rule chop)
  also have "drop (8 + h + 4) buf = thw @ drop (8 + h + 4 + h) buf"
    unfolding thw_def using chop [of "12 + h" h] by (simp add: algebra_simps)
  also have "drop (8 + h + 4 + h) buf = tip @ drop (16 + 2 * h) buf"
    unfolding tip_def using chop [of "12 + 2 * h" 4] by (simp add: algebra_simps mult_2)
  finally have buf: "buf = take 8 buf @ shw @ sip @ thw @ tip @ drop (16 + 2 * h) buf" by simp
  define fr where "fr = arp_frame (hdr16 buf 0) (buf ! 4) (hdr16 buf 6) shw (word_of_int (le_value sip)) thw (word_of_int (le_value tip))"
  have fr: "fr = take 8 buf @ shw @ sip @ thw @ tip"
    unfolding fr_def arp_frame_def by (simp only: head le32_of_value l append_assoc)
  have lfr: "length fr = 16 + 2 * h" using l by (simp add: fr_def)
  have "fr @ drop (16 + 2 * h) buf = buf" unfolding fr using buf by (simp only: append_assoc)
  then have "take n buf = take n (fr @ drop (16 + 2 * h) buf)" by (simp only:)
  also have "\<dots> = fr @ take (n - (16 + 2 * h)) (drop (16 + 2 * h) buf)"
    using n lfr by simp
  finally have "is_arp (take n buf) (hdr16 buf 0) (buf ! 4) (hdr16 buf 6) shw (word_of_int (le_value sip)) thw (word_of_int (le_value tip))"
    using l unfolding is_arp_def h_def fr_def by blast
  then show ?thesis by blast
qed

section \<open>What is accepted\<close>

definition arp_heard :: "u16 \<Rightarrow> u16 \<Rightarrow> sll \<Rightarrow> bool" where
  "arp_heard hrd oper from \<longleftrightarrow>
     sll_pkttype from \<in> {PACKET_HOST, PACKET_BROADCAST, PACKET_MULTICAST}
   \<and> oper \<in> {ARPOP_REQUEST, ARPOP_REPLY}
   \<and> (hrd = sll_hatype from \<or> (sll_hatype from = ARPHRD_FDDI \<and> hrd = ARPHRD_ETHER))"

lemma header_of_frame:
  "ar_header_ok (arp_head hrd (sll_halen (ar_me s)) oper) from s \<longleftrightarrow> arp_heard hrd oper from"
  unfolding ar_header_ok_def arp_heard_def head_fields by simp

lemma recv_pack_frame:
  assumes "is_arp (take (nat len) buf) hrd (sll_halen (ar_me s)) oper shw sip thw tip"
    and "arp_heard hrd oper from" and "0 \<le> len" and "sll_hw (ar_me s) = Some me_hw"
  shows "recv_pack ts buf len from s =
    (if ar_match s me_hw shw sip thw tip
     then ar_accept (sll_pkttype from) oper shw (ar_report ts (sll_pkttype from) oper shw sip thw tip me_hw s) else s)"
proof -
  note r = frame_reads [OF assms(1)]
  have "int (8 + 2 * (4 + unat (sll_halen (ar_me s)))) \<le> len" using r(6) assms(3) by linarith
  then have "\<not> len < int (8 + 2 * (4 + unat (sll_halen (ar_me s))))" by simp
  moreover have "ar_header_ok (arp_head hrd (sll_halen (ar_me s)) oper) from s" using assms(2) by (simp only: header_of_frame)
  ultimately show ?thesis
    unfolding recv_pack_def r(1) Let_def option.case head_fields r(2-5) assms(4) prod.case le_value_le32 word_of_int_uint
    by (simp add: Let_def)
qed

lemma hdr16_take: "i + 1 < n \<Longrightarrow> hdr16 (take n buf) i = hdr16 buf i"
  by (simp add: hdr16_def)

lemma recv_pack_ignores:
  assumes "\<nexists>hrd oper shw sip thw tip. is_arp (take (nat len) buf) hrd (sll_halen (ar_me s)) oper shw sip thw tip
      \<and> arp_heard hrd oper from"
    and "8 \<le> length buf" and "0 \<le> len" and "len \<le> int (length buf)"
  shows "recv_pack ts buf len from s = s"
proof (cases "ar_header_ok (take 8 buf) from s \<and> \<not> len < int (8 + 2 * (4 + unat (buf ! 4)))")
  case True
  then have h: "hdr16 buf 2 = ETH_P_IP" "buf ! 5 = 4" "buf ! 4 = sll_halen (ar_me s)" "arp_heard (hdr16 buf 0) (hdr16 buf 6) from"
    by (simp_all add: ar_header_ok_def arp_heard_def hdr16_take)
  have "8 + 2 * (4 + unat (buf ! 4)) \<le> nat len" "nat len \<le> length buf" using True assms(3,4) by linarith+
  from is_arp_of_buffer [OF h(1,2) this] h(3,4) have False using assms(1) by metis
  then show ?thesis ..
next
  case False
  have "rd_bytes 0 8 buf = Some (take 8 buf)" using assms(2) by (simp add: rd_bytes_def)
  then show ?thesis using False by (auto simp: recv_pack_def Let_def)
qed

text \<open>
  So the outcome is a function of the bytes received: what an earlier frame left behind in the array is never looked at
  in earnest, although the header is read before the length is checked.
\<close>

lemma recv_pack_received_bytes:
  assumes "take (nat len) buf = take (nat len) buf'" and "8 \<le> length buf" and "8 \<le> length buf'"
    and "0 \<le> len" and "len \<le> int (length buf)" and "len \<le> int (length buf')" and "sll_hw (ar_me s) = Some me_hw"
  shows "recv_pack ts buf len from s = recv_pack ts buf' len from s"
proof (cases "\<exists>hrd oper shw sip thw tip. is_arp (take (nat len) buf) hrd (sll_halen (ar_me s)) oper shw sip thw tip \<and> arp_heard hrd oper from")
  case True
  then obtain hrd oper shw sip thw tip where
    a: "is_arp (take (nat len) buf) hrd (sll_halen (ar_me s)) oper shw sip thw tip" and h: "arp_heard hrd oper from" by blast
  from recv_pack_frame [OF a h assms(4,7)] recv_pack_frame [OF a [unfolded assms(1)] h assms(4,7)] show ?thesis by simp
next
  case False
  with recv_pack_ignores [OF _ assms(2,4,5), of s "from" ts] recv_pack_ignores [OF _ assms(3,4,6), of s "from" ts] assms(1)
  show ?thesis by simp
qed

end
