(* ===== verification/Arping_Runs.thy ===== *)
theory Arping_Runs
  imports Arping_Frames
begin

text \<open>
  Runs of \<^verbatim>\<open>arping\<close>: the configuration never changes, no array is overrun, probes keep their distance
  (all three as an instance of \<open>step_system\<close>), and what ends a run and with which exit code.
\<close>

section \<open>Times\<close>

lemma timespec_sub_ok:
  assumes "ts_ok a" and "ts_ok b"
  shows "ts_ok (timespec_sub a b)" and "ts_ns (timespec_sub a b) = ts_ns a - ts_ns b"
  using assms by (auto simp: timespec_sub_def ts_ok_def ts_ns_def algebra_simps)

lemma timespec_later_ns: "ts_ok a \<Longrightarrow> ts_ok b \<Longrightarrow> timespec_later a b \<longleftrightarrow> ts_ns a > ts_ns b"
  unfolding timespec_later_def ts_ok_def ts_ns_def by linarith

lemma half_past_ns [simp]: "ts_ok (half_past n)" "ts_ns (half_past n) = n * 1000000000 + 500000000"
  by (simp_all add: half_past_def ts_ok_def ts_ns_def)

lemma past_by:
  assumes "ts_ok a" and "ts_ok b"
  shows "timespec_later (timespec_sub a b) (half_past n) \<longleftrightarrow> ts_ns a - ts_ns b > n * 1000000000 + 500000000"
  using timespec_sub_ok [OF assms] by (simp add: timespec_later_ns)

text \<open>
  The time printed for a reply: its three digits are in range, and together with the milliseconds they
  give the microseconds elapsed (rounded from nanoseconds) plus 500, half a millisecond more than
  the reply took.
\<close>

lemma reply_time_value:
  assumes "ts_ok ts" and "ts_ok l" and "ts_ns l \<le> ts_ns ts" and "reply_time ts l = (ms, us)"
  shows "0 \<le> us \<and> us < 1000 \<and>
    ms * 1000 + us = (tv_sec ts - tv_sec l) * 1000000 + c_div (tv_nsec ts - tv_nsec l + 500) 1000 + 500"
proof -
  define u where "u = (tv_sec ts - tv_sec l) * 1000000 + c_div (tv_nsec ts - tv_nsec l + 500) 1000"
  have "0 \<le> u + 500"
  proof (cases "0 \<le> tv_nsec ts - tv_nsec l + 500")
    case True
    have "tv_sec l \<le> tv_sec ts" using assms(1-3) by (auto simp: ts_ok_def ts_ns_def)
    then have "0 \<le> (tv_sec ts - tv_sec l) * 1000000" by simp
    moreover have "0 \<le> (tv_nsec ts - tv_nsec l + 500) div 1000" using True by simp
    ultimately show ?thesis using True by (simp add: u_def)
  next
    case False
    define d where "d = \<bar>tv_nsec ts - tv_nsec l + 500\<bar>"
    have d: "d < 1000000000" "0 \<le> d" using False assms(1,2) by (simp_all add: d_def ts_ok_def)
    have c: "c_div (tv_nsec ts - tv_nsec l + 500) 1000 = - (d div 1000)" using False by (simp add: c_div_def d_def)
    have "tv_sec l < tv_sec ts" using assms(1-3) False by (auto simp: ts_ok_def ts_ns_def)
    then have "1000000 \<le> (tv_sec ts - tv_sec l) * 1000000" by simp
    moreover have "d div 1000 \<le> 1000000" using d by simp
    ultimately show ?thesis unfolding u_def c by linarith
  qed
  then have "c_div (u + 500) 1000 = (u + 500) div 1000" by simp
  then have "ms = (u + 500) div 1000" "us = u - (ms * 1000 - 500)"
    using assms(4) unfolding reply_time_def u_def [symmetric] Let_def by auto
  then show ?thesis unfolding u_def [symmetric] by (auto simp: minus_div_mult_eq_mod [symmetric])
qed

section \<open>Configuration\<close>

definition my_hw :: "arping \<Rightarrow> octet list" where
  "my_hw s = take (unat (sll_halen (ar_me s))) (sll_addr (ar_me s))"

definition same_conf :: "arping \<Rightarrow> arping \<Rightarrow> bool" where
  "same_conf s t \<longleftrightarrow> ar_dad t = ar_dad s \<and> ar_unsolicited t = ar_unsolicited s \<and> ar_advert t = ar_advert s
    \<and> ar_quit_on_reply t = ar_quit_on_reply s \<and> ar_quiet t = ar_quiet s \<and> ar_broadcast_only t = ar_broadcast_only s
    \<and> ar_limit t = ar_limit s \<and> ar_timeout t = ar_timeout s \<and> ar_src t = ar_src s \<and> ar_dst t = ar_dst s
    \<and> ar_me t = ar_me s"

lemma same_conf_refl [simp]: "same_conf s s"
  by (simp add: same_conf_def)

lemma same_conf_trans: "same_conf s t \<Longrightarrow> same_conf t u \<Longrightarrow> same_conf s u"
  by (simp add: same_conf_def)

lemma same_conf_finish [simp]: "same_conf s (ar_finish s)"
  by (simp add: same_conf_def ar_finish_def)

lemma same_conf_alarm [simp]: "same_conf s (t\<lparr>ar_alarm := b\<rparr>) = same_conf s t" "same_conf (s\<lparr>ar_alarm := b\<rparr>) t = same_conf s t"
  by (simp_all add: same_conf_def)

lemma same_conf_send: "same_conf s (send_pack now err s)"
  by (auto simp: same_conf_def send_pack_def Let_def split: option.splits)

lemma same_conf_catcher: "same_conf s (catcher ts now err s)"
proof -
  have p: "same_conf s (catcher_probe now err s)" for s
    unfolding catcher_probe_def Let_def
    by (simp add: same_conf_send same_conf_trans [OF same_conf_send same_conf_finish])
  have q: "same_conf s (s\<lparr>ar_start := ts\<rparr>)" by (simp add: same_conf_def)
  show ?thesis unfolding catcher_def Let_def
    using p [of s] same_conf_trans [OF q p] same_conf_trans [OF q same_conf_finish] q by (simp split: if_split)
qed

lemma same_conf_accept: "same_conf s (ar_accept pk oper shw s)"
  by (simp add: ar_accept_def Let_def same_conf_def ar_finish_def)

lemma same_conf_report: "same_conf s (ar_report ts pk oper shw sip thw tip hw s)"
  by (simp add: ar_report_def same_conf_def)

lemma same_conf_recv: "same_conf s (recv_pack ts buf len from s)"
proof -
  have "same_conf s (ar_accept pk oper shw (ar_report ts pk' oper' shw' sip thw tip hw s))" for pk oper shw pk' oper' shw' sip thw tip hw
    by (rule same_conf_trans [OF same_conf_report same_conf_accept])
  then show ?thesis
    by (auto simp: recv_pack_def Let_def same_conf_def split: option.splits)
qed

lemma same_conf_step: "same_conf s (ar_step e s)"
proof (cases e)
  case (Arp_alarm ts now err)
  then show ?thesis using same_conf_catcher [of "s\<lparr>ar_alarm := False\<rparr>" ts now err] by (simp add: ar_step_def)
qed (auto simp: ar_step_def same_conf_recv, simp add: same_conf_def)

lemma same_conf_fold: "same_conf s (fold ar_step evs s)"
  by (induction evs arbitrary: s) (auto intro: same_conf_trans same_conf_step)

section \<open>Safety and pacing\<close>

text \<open>
  The kernel's link-layer addresses have at most 32 bytes (\<^verbatim>\<open>MAX_ADDR_LEN\<close>); the buffer of \<^verbatim>\<open>recvfrom\<close> has 4096.
\<close>

definition ar_safe :: "arping \<Rightarrow> bool" where
  "ar_safe s \<longleftrightarrow> unat (sll_halen (ar_me s)) \<le> 32 \<and> length (sll_addr (ar_me s)) = SLL_ROOM
    \<and> length (sll_addr (ar_he s)) = SLL_ROOM \<and> ar_status s \<noteq> Ar_fault"

fun probe_gaps :: "(timespec \<times> 'a) list \<Rightarrow> bool" where
  "probe_gaps (a # b # w) \<longleftrightarrow> ts_ns (fst b) - ts_ns (fst a) > 500000000 \<and> probe_gaps (b # w)"
| "probe_gaps _ \<longleftrightarrow> True"

definition ar_log :: "arping \<Rightarrow> bool" where
  "ar_log s \<longleftrightarrow> ar_sent s = int (length (ar_wire s)) \<and> 0 \<le> ar_brd_sent s \<and> ar_brd_sent s \<le> ar_sent s
    \<and> ts_ok (ar_last s) \<and> (tv_sec (ar_last s) = 0 \<longleftrightarrow> ar_wire s = [])
    \<and> (ar_wire s \<noteq> [] \<longrightarrow> ar_last s = fst (List.last (ar_wire s))) \<and> probe_gaps (ar_wire s)"

definition ar_tally :: "arping \<Rightarrow> bool" where
  "ar_tally s \<longleftrightarrow> 0 \<le> ar_brd_recv s \<and> ar_brd_recv s \<le> ar_received s \<and> 0 \<le> ar_req_recv s \<and> ar_req_recv s \<le> ar_received s"

definition ar_inv :: "arping \<Rightarrow> bool" where
  "ar_inv s \<longleftrightarrow> ar_safe s \<and> ar_log s \<and> ar_tally s"

fun ar_adm :: "ar_event \<Rightarrow> bool" where
  "ar_adm (Arp_alarm ts now err) \<longleftrightarrow> ts_ok ts \<and> ts_ok now \<and> ts_ns ts \<le> ts_ns now \<and> tv_sec now > 0"
| "ar_adm (Arp_packet ts buf len from) \<longleftrightarrow> length buf = 4096 \<and> 0 \<le> len \<and> len \<le> 4096"
| "ar_adm _ \<longleftrightarrow> True"

lemma probe_gaps_snoc:
  "probe_gaps (w @ [b]) \<longleftrightarrow> probe_gaps w \<and> (w \<noteq> [] \<longrightarrow> ts_ns (fst b) - ts_ns (fst (List.last w)) > 500000000)"
  by (induction w rule: probe_gaps.induct) auto

lemma safe_hw:
  assumes "ar_safe s"
  shows "sll_hw (ar_me s) = Some (my_hw s)"
    and "rd_bytes 0 (unat (sll_halen (ar_me s))) (sll_addr (ar_he s)) = Some (take (unat (sll_halen (ar_me s))) (sll_addr (ar_he s)))"
    and "length (my_hw s) = unat (sll_halen (ar_me s))"
  using assms by (simp_all add: ar_safe_def sll_hw_def my_hw_def rd_bytes_def SLL_ROOM_def)

text \<open>The frame a probe consists of; it fits the buffer.\<close>

definition he_hw :: "arping \<Rightarrow> octet list" where
  "he_hw s = take (unat (sll_halen (ar_me s))) (sll_addr (ar_he s))"

definition probe_frame :: "arping \<Rightarrow> octet list" where
  "probe_frame s = arp_frame (ar_hrd (ar_me s)) (sll_halen (ar_me s)) (if ar_advert s then ARPOP_REPLY else ARPOP_REQUEST)
     (my_hw s) (ar_src s) (if ar_advert s then my_hw s else he_hw s) (ar_dst s)"

lemma length_he_hw: "ar_safe s \<Longrightarrow> length (he_hw s) = unat (sll_halen (ar_me s))"
  by (simp add: ar_safe_def he_hw_def SLL_ROOM_def)

lemma length_probe: "ar_safe s \<Longrightarrow> length (probe_frame s) = 16 + 2 * unat (sll_halen (ar_me s))"
  by (simp add: probe_frame_def safe_hw length_he_hw)

lemma send_pack_safe:
  assumes "ar_safe s"
  shows "send_pack now err s =
    (if err = int (length (probe_frame s))
     then s\<lparr>ar_last := now, ar_sent := ar_sent s + 1,
       ar_brd_sent := (if ar_unicasting s then ar_brd_sent s else ar_brd_sent s + 1),
       ar_wire := ar_wire s @ [(now, probe_frame s, he_hw s)]\<rparr>
     else s)"
proof -
  have "\<not> 256 < length (probe_frame s)" using length_probe [OF assms] assms by (simp add: ar_safe_def)
  then show ?thesis
    unfolding send_pack_def Let_def safe_hw [OF assms] option.case prod.case he_hw_def [symmetric] probe_frame_def [symmetric]
    by simp
qed

lemma safe_finish: "ar_safe s \<Longrightarrow> ar_safe (ar_finish s)"
  by (simp add: ar_safe_def ar_finish_def)

lemma inv_finish: "ar_inv s \<Longrightarrow> ar_inv (ar_finish s)"
  by (simp add: ar_inv_def ar_safe_def ar_log_def ar_tally_def ar_finish_def)

lemma inv_alarm [simp]: "ar_inv (s\<lparr>ar_alarm := b\<rparr>) = ar_inv s"
  by (simp add: ar_inv_def ar_safe_def ar_log_def ar_tally_def)

lemma inv_start [simp]: "ar_inv (s\<lparr>ar_start := ts\<rparr>) = ar_inv s"
  by (simp add: ar_inv_def ar_safe_def ar_log_def ar_tally_def)

lemma inv_send:
  assumes "ar_inv s" and "ts_ok now" and "tv_sec now > 0"
    and "ar_wire s \<noteq> [] \<Longrightarrow> ts_ns now - ts_ns (ar_last s) > 500000000"
  shows "ar_inv (send_pack now err s)"
proof (cases "err = int (length (probe_frame s))")
  case True
  have sf: "ar_safe s" using assms(1) by (simp add: ar_inv_def)
  have lg: "ar_log s" "ar_tally s" using assms(1) by (simp_all add: ar_inv_def)
  define t where "t = s\<lparr>ar_last := now, ar_sent := ar_sent s + 1,
       ar_brd_sent := (if ar_unicasting s then ar_brd_sent s else ar_brd_sent s + 1),
       ar_wire := ar_wire s @ [(now, probe_frame s, he_hw s)]\<rparr>"
  have t: "send_pack now err s = t" using True by (simp add: send_pack_safe [OF sf] t_def)
  have "ar_safe t" "ar_tally t" using sf lg by (simp_all add: t_def ar_safe_def ar_tally_def)
  moreover have "ar_log t"
    using lg assms(2-4) by (auto simp: ar_log_def t_def probe_gaps_snoc)
  ultimately show ?thesis unfolding t by (simp add: ar_inv_def)
next
  case False
  have "ar_safe s" using assms(1) by (simp add: ar_inv_def)
  then show ?thesis using False assms(1) by (simp add: send_pack_safe)
qed

lemma inv_catcher:
  assumes "ar_inv s" and "ts_ok ts" and "ts_ok now" and "ts_ns ts \<le> ts_ns now" and "tv_sec now > 0"
  shows "ar_inv (catcher ts now err s)"
proof -
  have probe: "ar_inv (catcher_probe now err t)"
    if t: "ar_inv t" and l: "tv_sec (ar_last t) = 0 \<or> timespec_later (timespec_sub ts (ar_last t)) (half_past 0)" for t
  proof -
    have "ts_ok (ar_last t)" "tv_sec (ar_last t) = 0 \<longleftrightarrow> ar_wire t = []" using t by (simp_all add: ar_inv_def ar_log_def)
    then have "ts_ns now - ts_ns (ar_last t) > 500000000" if "ar_wire t \<noteq> []"
      using l that assms(2,4) by (simp add: past_by)
    from inv_send [OF t assms(3,5) this, of err] show ?thesis
      using t by (simp add: catcher_probe_def Let_def inv_finish)
  qed
  have body: "ar_inv (if c then ar_finish t else if tv_sec (ar_last t) = 0 \<or> timespec_later (timespec_sub ts (ar_last t)) (half_past 0)
      then catcher_probe now err t else t\<lparr>ar_alarm := True\<rparr>)" if "ar_inv t" for c t
    using probe [OF that] that inv_finish [OF that] by (simp split: if_split)
  show ?thesis unfolding catcher_def Let_def by (rule body) (use assms(1) in simp)
qed

lemma inv_recv:
  assumes "ar_inv s" and "length buf = 4096" and "0 \<le> len" and "len \<le> 4096"
  shows "ar_inv (recv_pack ts buf len from s)"
proof (cases "\<exists>hrd oper shw sip thw tip. is_arp (take (nat len) buf) hrd (sll_halen (ar_me s)) oper shw sip thw tip \<and> arp_heard hrd oper from")
  case True
  then obtain hrd oper shw sip thw tip where
    a: "is_arp (take (nat len) buf) hrd (sll_halen (ar_me s)) oper shw sip thw tip" and h: "arp_heard hrd oper from" by blast
  have sf: "ar_safe s" using assms(1) by (simp add: ar_inv_def)
  have l: "length shw = unat (sll_halen (ar_me s))" using a by (simp add: is_arp_def)
  have rep: "ar_inv (ar_report ts pk oper shw sip thw tip hw s)" for pk hw
    using assms(1) by (simp add: ar_inv_def ar_safe_def ar_log_def ar_tally_def ar_report_def)
  have acc: "ar_inv (ar_accept pk oper shw t)" if "ar_inv t" "ar_me t = ar_me s" for t pk
    using that l by (simp add: ar_accept_def Let_def ar_inv_def ar_safe_def ar_log_def ar_tally_def ar_finish_def SLL_ROOM_def)
  show ?thesis
    unfolding recv_pack_frame [OF a h assms(3) safe_hw(1) [OF sf]]
    using assms(1) acc [OF rep] by (simp add: ar_report_def)
next
  case False
  with recv_pack_ignores [OF _ _ assms(3), of buf s "from" ts] assms show ?thesis by simp
qed

lemma inv_step: "ar_inv s \<Longrightarrow> ar_adm e \<Longrightarrow> ar_inv (ar_step e s)"
proof (cases e)
  case (Arp_error x)
  then show "ar_inv s \<Longrightarrow> ?thesis" by (simp add: ar_step_def ar_inv_def ar_safe_def ar_log_def ar_tally_def)
qed (auto simp: ar_step_def inv_finish intro!: inv_catcher inv_recv)

interpretation ar: step_system ar_step ar_globals ar_adm ar_inv
proof
  show "ar_inv ar_globals"
    by (simp add: ar_inv_def ar_safe_def ar_log_def ar_tally_def ar_globals_def sll_zero_def SLL_ROOM_def)
  show "ar_inv (ar_step i s)" if "ar_inv s" "ar_adm i" for s i using that by (rule inv_step)
qed

section \<open>Answers\<close>

text \<open>
  The frames that count in a configuration: in ordinary mode a frame from the target to us, in duplicate address
  detection a frame in which somebody else uses the address.
\<close>

fun ar_answers :: "arping \<Rightarrow> ar_event \<Rightarrow> bool" where
  "ar_answers s (Arp_packet ts buf len from) \<longleftrightarrow>
    (\<exists>hrd oper shw thw tip. is_arp (take (nat len) buf) hrd (sll_halen (ar_me s)) oper shw (ar_dst s) thw tip
      \<and> arp_heard hrd oper from
      \<and> (if ar_dad s then shw \<noteq> my_hw s \<and> (ar_src s = 0 \<or> tip = ar_src s) else tip = ar_src s \<and> thw = my_hw s))"
| "ar_answers s _ \<longleftrightarrow> False"

lemma answers_conf: "same_conf s t \<Longrightarrow> ar_answers t e = ar_answers s e"
  by (cases e) (simp_all add: same_conf_def my_hw_def)

lemma recv_answer:
  assumes "ar_inv s" and "ar_answers s (Arp_packet ts buf len from)" and "ar_adm (Arp_packet ts buf len from)"
  shows "\<exists>oper shw sip thw tip. length shw = unat (sll_halen (ar_me s)) \<and>
    recv_pack ts buf len from s = ar_accept (sll_pkttype from) oper shw (ar_report ts (sll_pkttype from) oper shw sip thw tip (my_hw s) s)"
proof -
  have sf: "ar_safe s" using assms(1) by (simp add: ar_inv_def)
  from assms(2) obtain hrd oper shw thw tip where
    a: "is_arp (take (nat len) buf) hrd (sll_halen (ar_me s)) oper shw (ar_dst s) thw tip" and h: "arp_heard hrd oper from"
    and c: "if ar_dad s then shw \<noteq> my_hw s \<and> (ar_src s = 0 \<or> tip = ar_src s) else tip = ar_src s \<and> thw = my_hw s" by auto
  have "ar_match s (my_hw s) shw (ar_dst s) thw tip" using c by (auto simp: ar_match_def split: if_splits)
  moreover have "length shw = unat (sll_halen (ar_me s))" using a by (simp add: is_arp_def)
  ultimately show ?thesis
    using recv_pack_frame [OF a h _ safe_hw(1) [OF sf], of ts] assms(3) by (metis ar_adm.simps(2))
qed

lemma recv_no_answer:
  assumes "ar_inv s" and "\<not> ar_answers s (Arp_packet ts buf len from)" and "ar_adm (Arp_packet ts buf len from)"
  shows "recv_pack ts buf len from s = s"
proof (cases "\<exists>hrd oper shw sip thw tip. is_arp (take (nat len) buf) hrd (sll_halen (ar_me s)) oper shw sip thw tip \<and> arp_heard hrd oper from")
  case True
  then obtain hrd oper shw sip thw tip where
    a: "is_arp (take (nat len) buf) hrd (sll_halen (ar_me s)) oper shw sip thw tip" and h: "arp_heard hrd oper from" by blast
  have sf: "ar_safe s" using assms(1) by (simp add: ar_inv_def)
  have "\<not> ar_match s (my_hw s) shw sip thw tip"
  proof
    assume m: "ar_match s (my_hw s) shw sip thw tip"
    then have "sip = ar_dst s" by (simp add: ar_match_def split: if_splits)
    with m a h have "ar_answers s (Arp_packet ts buf len from)"
      unfolding ar_answers.simps by (intro exI [of _ hrd] exI [of _ oper] exI [of _ shw] exI [of _ thw] exI [of _ tip])
        (auto simp: ar_match_def split: if_splits)
    with assms(2) show False ..
  qed
  then show ?thesis using recv_pack_frame [OF a h _ safe_hw(1) [OF sf], of ts] assms(3) by simp
next
  case False
  with recv_pack_ignores [OF _ _ _ , of len buf s "from" ts] assms(3) show ?thesis by simp
qed

section \<open>Alarms\<close>

lemma received_finish [simp]: "ar_received (ar_finish s) = ar_received s"
  by (simp add: ar_finish_def)

lemma status_finish [simp]: "ar_status (ar_finish s) = Ar_exit (ar_exit_code s)"
  by (simp add: ar_finish_def)

lemma send_pack_keeps:
  assumes "ar_inv s"
  shows "ar_received (send_pack now err s) = ar_received s" and "ar_status (send_pack now err s) = ar_status s"
  using assms by (simp_all add: send_pack_safe ar_inv_def)

lemma exit_code_conf: "same_conf s t \<Longrightarrow> ar_received t = ar_received s \<Longrightarrow> ar_exit_code t = ar_exit_code s"
  by (simp add: ar_exit_code_def same_conf_def)

lemma catcher_probe_keeps:
  assumes "ar_inv s" and "ar_status s = Ar_running"
  shows "ar_received (catcher_probe now err s) = ar_received s"
    and "ar_status (catcher_probe now err s) \<in> {Ar_running, Ar_exit (ar_exit_code s)}"
  using send_pack_keeps [OF assms(1), of now err] assms(2) exit_code_conf [OF same_conf_send [of s now err]]
  by (simp_all add: catcher_probe_def Let_def)

lemma catcher_keeps:
  assumes "ar_inv s" and "ar_status s = Ar_running"
  shows "ar_received (catcher ts now err s) = ar_received s"
    and "ar_status (catcher ts now err s) \<in> {Ar_running, Ar_exit (ar_exit_code s)}"
proof -
  have c: "ar_exit_code (s\<lparr>ar_start := ts\<rparr>) = ar_exit_code s" by (simp add: ar_exit_code_def)
  note a = catcher_probe_keeps [OF assms, of now err] catcher_probe_keeps [of "s\<lparr>ar_start := ts\<rparr>" now err]
  show "ar_received (catcher ts now err s) = ar_received s"
    using a assms by (simp add: catcher_def Let_def)
  show "ar_status (catcher ts now err s) \<in> {Ar_running, Ar_exit (ar_exit_code s)}"
    using a assms c by (simp add: catcher_def Let_def)
qed

section \<open>Duplicate address detection\<close>

definition dad_idle :: "arping \<Rightarrow> bool" where
  "dad_idle s \<longleftrightarrow> ar_inv s \<and> ar_dad s \<and> ar_quit_on_reply s \<and> ar_received s = 0 \<and> ar_status s = Ar_running"

lemma dad_step:
  assumes "dad_idle s" and "ar_adm e"
  shows "ar_status (ar_step e s) = Ar_exit 1 \<longleftrightarrow> ar_answers s e"
    and "ar_status (ar_step e s) = Ar_running \<Longrightarrow> dad_idle (ar_step e s)"
proof -
  have s: "ar_inv s" "ar_dad s" "ar_quit_on_reply s" "ar_received s = 0" "ar_status s = Ar_running"
    using assms(1) by (simp_all add: dad_idle_def)
  have x0: "ar_exit_code s = 0" using s by (simp add: ar_exit_code_def)
  have 1: "(ar_status (ar_step e s) = Ar_exit 1 \<longleftrightarrow> ar_answers s e) \<and> (ar_status (ar_step e s) = Ar_running \<longrightarrow> ar_received (ar_step e s) = 0)"
  proof (cases e)
    case (Arp_alarm ts now err)
    then show ?thesis
      using catcher_keeps [of "s\<lparr>ar_alarm := False\<rparr>" ts now err] s x0
      by (auto simp: ar_step_def ar_exit_code_def)
  next
    case (Arp_packet ts buf len "from")
    show ?thesis
    proof (cases "ar_answers s e")
      case True
      from recv_answer [OF s(1) True [unfolded Arp_packet] assms(2) [unfolded Arp_packet]] obtain oper shw sip thw tip where
        r: "recv_pack ts buf len from s = ar_accept (sll_pkttype from) oper shw (ar_report ts (sll_pkttype from) oper shw sip thw tip (my_hw s) s)"
        by blast
      have "ar_status (ar_step e s) = Ar_exit 1"
        using s by (simp add: Arp_packet ar_step_def r ar_accept_def ar_report_def Let_def ar_exit_code_def)
      with True show ?thesis by simp
    next
      case False
      with recv_no_answer [OF s(1) _ assms(2) [unfolded Arp_packet]] s show ?thesis by (simp add: Arp_packet ar_step_def)
    qed
  qed (use s x0 in \<open>simp_all add: ar_step_def\<close>)
  then show "ar_status (ar_step e s) = Ar_exit 1 \<longleftrightarrow> ar_answers s e" by blast
  show "dad_idle (ar_step e s)" if "ar_status (ar_step e s) = Ar_running"
    using that 1 inv_step [OF s(1) assms(2)] same_conf_step [of s e] s by (simp add: dad_idle_def same_conf_def)
qed

lemma step_ended: "ar_status s \<noteq> Ar_running \<Longrightarrow> fold ar_step evs s = s"
  by (induction evs) (simp_all add: ar_step_def)

lemma dad_run:
  assumes "dad_idle s" and "\<forall>e \<in> set evs. ar_adm e" and "ar_status (fold ar_step evs s) = Ar_running"
  shows "dad_idle (fold ar_step evs s) \<and> (\<forall>e \<in> set evs. \<not> ar_answers s e)"
  using assms
proof (induction evs arbitrary: s)
  case (Cons e evs)
  have run: "ar_status (ar_step e s) = Ar_running"
    by (rule ccontr) (use Cons.prems(3) step_ended [of "ar_step e s" evs] in simp)
  have "dad_idle (ar_step e s)" using dad_step(2) [OF Cons.prems(1) _ run] Cons.prems(2) by simp
  from Cons.IH [OF this] Cons.prems(2,3) have
    ih: "dad_idle (fold ar_step evs (ar_step e s))" "\<forall>x \<in> set evs. \<not> ar_answers (ar_step e s) x" by simp_all
  moreover have "\<not> ar_answers s e" using dad_step(1) [OF Cons.prems(1), of e] run Cons.prems(2) by simp
  ultimately show ?case using answers_conf [OF same_conf_step [of s e]] by simp
qed simp

end
