(* ===== verification/Arping_Choice.thy ===== *)
theory Arping_Choice
  imports Arping_Device Arping_Runs
begin

text \<open>
  What the choice of the device of \<^verbatim>\<open>arping\<close> amounts to, and the text form of a hardware address.
\<close>

section \<open>The only suitable device\<close>

definition ifa_suitable :: "ifa \<Rightarrow> bool" where
  "ifa_suitable x \<longleftrightarrow> (case ifa_addr x of None \<Rightarrow> False | Some (fam, a) \<Rightarrow> fam = AF_PACKET \<and> sll_halen a \<noteq> 0)
     \<and> ifa_flags x AND ARP_IFF_UP \<noteq> 0 \<and> ifa_flags x AND (IFF_NOARP OR ARP_IFF_LOOPBACK) = 0 \<and> ifa_broadaddr x \<noteq> None"

lemma ifaddrs_loop_free:
  assumes "dev_name dev = None"
  shows "ifaddrs_loop dad xs n dev =
    Inr (case filter ifa_suitable xs of
           [] \<Rightarrow> (n, dev)
         | x # ys \<Rightarrow> if n \<noteq> 0 then (n + 1, dev\<lparr>dev_ifa := Some (x, False)\<rparr>)
             else (case ys of [] \<Rightarrow> (1, dev\<lparr>dev_ifa := Some (x, False)\<rparr>)
                   | y # _ \<Rightarrow> (2, dev\<lparr>dev_ifa := Some (y, False)\<rparr>)))"
  using assms
proof (induction xs arbitrary: n dev)
  case (Cons x xs)
  show ?case
  proof (cases "ifa_suitable x")
    case True
    then obtain a where "ifa_addr x = Some (AF_PACKET, a)" "sll_halen a \<noteq> 0" "check_ifflags dad (ifa_flags x) False = Inr 0" "ifa_broadaddr x \<noteq> None"
      by (auto simp: ifa_suitable_def check_ifflags_def split: option.splits)
    then show ?thesis using True Cons.prems Cons.IH [of "dev\<lparr>dev_ifa := Some (x, False)\<rparr>" "n + 1"]
      by (auto simp: Let_def split: list.splits)
  next
    case False
    then have "ifaddrs_loop dad (x # xs) n dev = ifaddrs_loop dad xs n dev"
      using Cons.prems by (auto simp: ifa_suitable_def check_ifflags_def split: option.splits)
    then show ?thesis using False Cons.IH [OF Cons.prems] by simp
  qed
qed simp

lemma ifaddrs_choice:
  assumes "dev_name dev = None" and "dev_ifa dev = None" and "dev_ifindex dev = 0"
  shows "find_device_by_ifaddrs dad (Some xs) nti dev = Inr (0, dev') \<longleftrightarrow>
    (\<exists>x. filter ifa_suitable xs = [x] \<and> nti (ifa_name x) \<noteq> 0
       \<and> dev' = dev\<lparr>dev_ifa := Some (x, False), dev_ifindex := nti (ifa_name x), dev_name := Some (ifa_name x)\<rparr>)"
  unfolding find_device_by_ifaddrs_def option.case ifaddrs_loop_free [OF assms(1)] sum.case
  using assms by (auto split: list.splits)

section \<open>Requests on a socket\<close>

text \<open>
  Without a name on the command line the scan asks for the flags of the empty name, which no
  interface has: nothing is found, whatever interfaces there are.
\<close>

lemma ioctl_loop_blind: "io_flags io '''' = None \<Longrightarrow> ioctl_loop dad io nms ('''', i) 0 = Inr (0, '''', i)"
  by (induction nms) (simp_all add: check_device_by_ioctl_def)

lemma ioctl_never_finds:
  assumes "io_socket io" and "io_flags io '''' = None" and "dev_name dev = None" and "dev_ifindex dev = 0"
  shows "find_device_by_ioctl dad io dev \<in> {Inr (1, dev), Inr (-1, dev)}"
  using assms by (auto simp: find_device_by_ioctl_def ioctl_loop_blind ioctl_result_def split: option.splits)

lemma ioctl_named:
  assumes "io_socket io" and "dev_name dev = Some nm" and "length nm \<le> 15"
    and "io_flags io nm = Some fl" and "check_ifflags dad (scast fl) True = Inr 0" and "io_index io nm = Some i" and "i \<noteq> 0"
  shows "find_device_by_ioctl dad io dev = Inr (0, dev\<lparr>dev_ifindex := i\<rparr>)"
  using assms by (simp add: find_device_by_ioctl_def check_device_by_ioctl_def Let_def ioctl_result_def)

text \<open>The array for the list of interfaces is large enough for all of them, whatever their number.\<close>

lemma ifconf_size_all: "ifconf_size k n = Some m \<Longrightarrow> min k (m div 40) = k"
proof (induction k n rule: ifconf_size.induct)
  case (1 k n)
  show ?case
  proof (cases "40 * min k (n div 40) + 152 \<le> n")
    case True
    have "ifconf_size k n = Some n" by (subst ifconf_size.simps) (simp only: True if_True)
    then have m: "m = n" using 1(2) by simp
    have "\<not> n div 40 \<le> k"
    proof
      assume "n div 40 \<le> k"
      then have "40 * (n div 40) + 152 \<le> n" using True by (simp add: min_def split: if_splits)
      then show False using div_mult_mod_eq [of n 40] mod_less_divisor [of 40 n] by simp
    qed
    then show ?thesis unfolding m by simp
  next
    case False
    have "ifconf_size k n = (if 0 < n \<and> 2 * n < 1073741823 then ifconf_size k (2 * n) else None)"
      by (subst ifconf_size.simps) (simp only: False if_False)
    then have "0 < n \<and> 2 * n < 1073741823" "ifconf_size k (2 * n) = Some m"
      using 1(2) by (simp_all split: if_splits)
    then show ?thesis using 1(1) False by blast
  qed
qed

section \<open>Addresses as text\<close>

lemma of_char_hex: "d < 16 \<Longrightarrow> (of_char (hex_digit d) :: nat) = (if d < 10 then 48 + d else 55 + d)"
  by (simp add: hex_digit_def)

lemma digit_value_hex: "d < 16 \<Longrightarrow> digit_value (hex_digit d) = d"
  by (simp add: digit_value_def of_char_hex Let_def)

lemma hex_digit_plain: "d < 16 \<Longrightarrow> \<not> isspace_c (hex_digit d) \<and> hex_digit d \<noteq> NUL \<and> hex_digit d \<noteq> CHR ''-'' \<and> hex_digit d \<noteq> CHR ''+''"
proof -
  assume d: "d < 16"
  then have g: "48 \<le> (of_char (hex_digit d) :: nat)" by (simp add: of_char_hex)
  have "hex_digit d \<noteq> c" if "(of_char c :: nat) < 48" for c using g that by auto
  then show ?thesis using g by (simp add: isspace_c_def NUL_def)
qed

lemma unat_octet: "unat (b :: octet) < 256"
  using unsigned_less [where 'a = nat, of b] by simp

lemma scan_hex2_printed:
  "scan_hex2 (hex_digit (unat b div 16) # hex_digit (unat b mod 16) # r) = Some b"
proof -
  define h l where "h = unat b div 16" and "l = unat b mod 16"
  have h: "h < 16" using unat_octet [of b] by (simp add: h_def less_mult_imp_div_less)
  have l: "l < 16" by (simp add: l_def)
  have "16 * h + l = unat b" by (simp add: h_def l_def)
  then have "of_nat (16 * h + l) = b" by simp
  then show ?thesis unfolding h_def [symmetric] l_def [symmetric] scan_hex2_def
    using hex_digit_plain [OF h] digit_value_hex [OF h] digit_value_hex [OF l] h l by simp
qed

text \<open>The text from byte \<open>i\<close> on, when the array holds a printed address.\<close>

lemma print_hex_Cons:
  "print_hex (b # bs) = hex_digit (unat b div 16) # hex_digit (unat b mod 16) # (if bs = [] then [] else CHR '':'' # print_hex bs)"
  by (cases bs) simp_all

lemma mac_scan_printed:
  assumes "drop (3 * i) buf = print_hex m @ NUL # junk" and "i \<noteq> 0 \<Longrightarrow> m \<noteq> [] \<Longrightarrow> buf ! (3 * i - 1) = CHR '':''"
    and "3 * i < length buf"
  shows "mac_scan buf i (length m) = Some (Some m)"
  using assms
proof (induction m arbitrary: i)
  case (Cons b m)
  let ?h = "hex_digit (unat b div 16)" and ?l = "hex_digit (unat b mod 16)"
  have hl: "unat b div 16 < 16" "unat b mod 16 < 16" using unat_octet [of b] by (simp_all add: less_mult_imp_div_less)
  note pl = hex_digit_plain [OF hl(1)] hex_digit_plain [OF hl(2)]
  let ?t = "if m = [] then [] else CHR '':'' # print_hex m"
  have d: "drop (3 * i) buf = ?h # ?l # ?t @ NUL # junk" using Cons.prems(1) by (simp only: print_hex_Cons append_Cons)
  obtain r where "takeWhile (\<lambda>c. c \<noteq> NUL) (drop (3 * i) buf) = ?h # ?l # r" unfolding d using pl by simp
  then have sc: "scan_hex2 (takeWhile (\<lambda>c. c \<noteq> NUL) (drop (3 * i) buf)) = Some b" by (simp only: scan_hex2_printed)
  have nul: "NUL \<in> set (drop (3 * i) buf)" unfolding d by simp
  have rest: "mac_scan buf (i + 1) (length m) = Some (Some m)"
  proof (cases "m = []")
    case False
    then have d2: "drop (3 * i) buf = ?h # ?l # CHR '':'' # print_hex m @ NUL # junk" using d by simp
    have dr: "drop (3 * (i + 1)) buf = drop 3 (drop (3 * i) buf)" by (simp add: algebra_simps)
    show ?thesis
    proof (rule Cons.IH)
      show "drop (3 * (i + 1)) buf = print_hex m @ NUL # junk" unfolding dr d2 by simp
      have "drop (3 * i) buf ! 2 = CHR '':''" unfolding d2 by simp
      then show "buf ! (3 * (i + 1) - 1) = CHR '':''" using Cons.prems(3) by (simp add: algebra_simps)
      have "length (drop (3 * i) buf) > 3" unfolding d2 using False by simp
      then show "3 * (i + 1) < length buf" by simp
    qed
  qed simp
  have sep: "\<not> (i \<noteq> 0 \<and> buf ! (3 * i - 1) \<noteq> CHR '':'')" using Cons.prems(2) by auto
  show ?case using Cons.prems(3) nul sep by (simp add: sc rest [simplified])
qed simp

lemma macaddr_printed:
  assumes "length m < 2 ^ 32"
  shows "sysfs_devattr_macaddr (print_hex m @ NUL # junk) (of_nat (length m)) = Some (Some m)"
proof -
  have "unat (ucast (of_nat (length m) :: u64) :: u32) = length m"
    using assms by (simp add: unsigned_ucast_eq unsigned_of_nat take_bit_nat_eq_self)
  then show ?thesis using mac_scan_printed [of 0 "print_hex m @ NUL # junk" m junk] by (simp add: sysfs_devattr_macaddr_def)
qed

section \<open>The broadcast address\<close>

definition dev_live :: "device \<Rightarrow> bool" where
  "dev_live dev \<longleftrightarrow> (case dev_ifa dev of None \<Rightarrow> True
      | Some (x, freed) \<Rightarrow> \<not> freed \<and> (\<exists>b. ifa_broadaddr x = Some b \<and> unat (sll_halen b) \<le> length (sll_addr b)))
    \<and> (case dev_sysfs dev of None \<Rightarrow> True
      | Some v \<Rightarrow> (\<exists>m. sv_broadcast v = Some m \<and> unat (sv_addr_len v) \<le> length m) \<or> sv_addr_len v = 0)"

lemma broadcast_set:
  assumes "dev_live dev" and "0 < balen"
  shows "\<exists>b. set_device_broadcast dev balen = Some b \<and> length b = balen"
proof (cases "\<exists>b. set_device_broadcast_ifaddrs_one dev balen = Some (Some b)")
  case True
  then obtain b where b: "set_device_broadcast_ifaddrs_one dev balen = Some (Some b)" by blast
  then have "length b = balen"
    by (auto simp: set_device_broadcast_ifaddrs_one_def sll_hw_def rd_bytes_def split: option.splits if_splits)
  with b show ?thesis by (simp add: set_device_broadcast_def)
next
  case False
  have n1: "set_device_broadcast_ifaddrs_one dev balen = Some None"
  proof -
    have "set_device_broadcast_ifaddrs_one dev balen \<noteq> None"
      using assms(1) by (auto simp: dev_live_def set_device_broadcast_ifaddrs_one_def sll_hw_def rd_bytes_def split: option.splits)
    with False show ?thesis by auto
  qed
  have "set_device_broadcast_sysfs dev balen = Some None \<or> (\<exists>b. set_device_broadcast_sysfs dev balen = Some (Some b) \<and> length b = balen)"
    using assms by (auto simp: dev_live_def set_device_broadcast_sysfs_def rd_bytes_def split: option.splits)
  then show ?thesis by (auto simp: set_device_broadcast_def n1)
qed

text \<open>
  A device that has vanished between \<^verbatim>\<open>getifaddrs\<close> and \<^verbatim>\<open>if_nametoindex\<close> leaves a pointer into the released
  list; when another way finds a device, the broadcast address is read through it.
\<close>

lemma vanished_device_dangles:
  assumes "dev_name dev = None" and "dev_ifa dev = None" and "filter ifa_suitable xs = [x]" and "nti (ifa_name x) = 0"
  shows "\<exists>dev1. find_device_by_ifaddrs dad (Some xs) nti dev = Inr (-1, dev1) \<and> set_device_broadcast dev1 balen = None"
proof -
  have "find_device_by_ifaddrs dad (Some xs) nti dev = Inr (-1, dev\<lparr>dev_ifa := Some (x, True), dev_ifindex := 0\<rparr>)"
    unfolding find_device_by_ifaddrs_def option.case ifaddrs_loop_free [OF assms(1)] sum.case using assms by simp
  then show ?thesis
    by (intro exI [of _ "dev\<lparr>dev_ifa := Some (x, True), dev_ifindex := 0\<rparr>"]) (simp add: set_device_broadcast_def set_device_broadcast_ifaddrs_one_def)
qed

end
