(* ===== verification/Arping_Count.thy ===== *)
theory Arping_Count
  imports Arping_Runs
begin

text \<open>
  How runs of \<^verbatim>\<open>arping\<close> end: the number of probes with \<^verbatim>\<open>-c\<close>, and the deadline of \<^verbatim>\<open>-w\<close>.
\<close>

section \<open>A fixed number of probes\<close>

fun is_alarm :: "ar_event \<Rightarrow> bool" where
  "is_alarm (Arp_alarm _ _ _) = True"
| "is_alarm _ = False"

text \<open>
  The alarms of a run in which the kernel takes every frame and each alarm comes more than half a
  second after the previous probe (\<^verbatim>\<open>alarm(1)\<close> asks for one second); other events in between are frames.
\<close>

fun paced_alarms :: "int \<Rightarrow> timespec \<Rightarrow> ar_event list \<Rightarrow> bool" where
  "paced_alarms n l [] \<longleftrightarrow> True"
| "paced_alarms n l (Arp_alarm ts now err # es) \<longleftrightarrow> err = n \<and> ts_ns ts - ts_ns l > 500000000 \<and> paced_alarms n now es"
| "paced_alarms n l (Arp_packet ts buf len from # es) \<longleftrightarrow> paced_alarms n l es"
| "paced_alarms n l (_ # es) \<longleftrightarrow> False"

definition counting :: "int \<Rightarrow> arping \<Rightarrow> bool" where
  "counting n s \<longleftrightarrow> ar_inv s \<and> ar_status s = Ar_running \<and> ar_alarm s \<and> ar_timeout s = 0
     \<and> ar_limit s = n \<and> ar_received s = 0"

lemma catcher_due:
  assumes "ar_inv s" and "ts_ok ts" and "ts_ns ts - ts_ns (ar_last s) > 500000000" and "ar_timeout s = 0"
  shows "catcher ts now err s = catcher_probe now err (if tv_sec (ar_start s) = 0 then s\<lparr>ar_start := ts\<rparr> else s)"
proof -
  have "ts_ok (ar_last s)" using assms(1) by (simp add: ar_inv_def ar_log_def)
  then have "timespec_later (timespec_sub ts (ar_last s)) (half_past 0)" using assms(2,3) by (simp add: past_by)
  then show ?thesis using assms(4) by (simp add: catcher_def Let_def)
qed

lemma alarm_probes:
  assumes "counting n s" and "ar_sent s \<noteq> n" and "ar_adm (Arp_alarm ts now err)"
    and "err = int (length (probe_frame s))" and "ts_ns ts - ts_ns (ar_last s) > 500000000"
  defines "t \<equiv> ar_step (Arp_alarm ts now err) s"
  shows "ar_wire t = ar_wire s @ [(now, probe_frame s, he_hw s)]" and "ar_he t = ar_he s"
    and "\<not> (ar_sent s + 1 = n \<and> ar_unsolicited s) \<Longrightarrow> counting n t \<and> ar_last t = now \<and> ar_sent t = ar_sent s + 1"
    and "ar_sent s + 1 = n \<and> ar_unsolicited s \<Longrightarrow> ar_status t = Ar_exit (ar_exit_code s)"
proof -
  have s: "ar_inv s" "ar_status s = Ar_running" "ar_alarm s" "ar_timeout s = 0" "ar_limit s = n" "ar_received s = 0"
    using assms(1) by (simp_all add: counting_def)
  define s0 where "s0 = s\<lparr>ar_alarm := False, ar_start := (if tv_sec (ar_start s) = 0 then ts else ar_start s)\<rparr>"
  define s1 where "s1 = s0\<lparr>ar_last := now, ar_sent := ar_sent s + 1,
      ar_brd_sent := (if ar_unicasting s then ar_brd_sent s else ar_brd_sent s + 1),
      ar_wire := ar_wire s @ [(now, probe_frame s, he_hw s)]\<rparr>"
  have i0: "ar_inv s0" "ar_safe s0" using s(1) by (simp_all add: s0_def ar_inv_def ar_safe_def ar_log_def ar_tally_def)
  have p0: "probe_frame s0 = probe_frame s" "he_hw s0 = he_hw s" by (simp_all add: s0_def probe_frame_def he_hw_def my_hw_def)
  have sp: "send_pack now err s0 = s1"
    using assms(4) by (simp add: send_pack_safe [OF i0(2)] p0 s1_def) (simp add: s0_def)
  have r1: "ar_status s1 = Ar_running" "ar_sent s1 = ar_sent s + 1" "ar_limit s1 = n" "ar_unsolicited s1 = ar_unsolicited s"
    "ar_exit_code s1 = ar_exit_code s" using s by (simp_all add: s1_def s0_def ar_exit_code_def)
  have "t = catcher ts now err (s\<lparr>ar_alarm := False\<rparr>)" using s by (simp add: t_def ar_step_def)
  also have "\<dots> = catcher_probe now err s0"
    using catcher_due [of "s\<lparr>ar_alarm := False\<rparr>" ts now err] s assms(3,5) by (simp add: s0_def)
  also have "\<dots> = (if ar_sent s + 1 = n \<and> ar_unsolicited s then ar_finish s1 else s1\<lparr>ar_alarm := True\<rparr>)"
    using s assms(2) r1 by (simp add: catcher_probe_def sp Let_def) (simp add: s0_def)
  finally have t: "t = (if ar_sent s + 1 = n \<and> ar_unsolicited s then ar_finish s1 else s1\<lparr>ar_alarm := True\<rparr>)" .
  have inv: "ar_inv t" unfolding t_def by (rule inv_step [OF s(1) assms(3)])
  show "ar_wire t = ar_wire s @ [(now, probe_frame s, he_hw s)]" "ar_he t = ar_he s"
    by (simp_all add: t ar_finish_def s1_def s0_def)
  show "counting n t \<and> ar_last t = now \<and> ar_sent t = ar_sent s + 1" if "\<not> (ar_sent s + 1 = n \<and> ar_unsolicited s)"
  proof -
    have "t = s1\<lparr>ar_alarm := True\<rparr>" using t that by (simp only: if_False)
    then show ?thesis using inv s by (simp add: counting_def) (simp add: s1_def s0_def)
  qed
  show "ar_status t = Ar_exit (ar_exit_code s)" if "ar_sent s + 1 = n \<and> ar_unsolicited s"
    using t that r1(5) by (simp add: ar_finish_def ar_exit_code_def)
qed

lemma alarm_ends:
  assumes "counting n s" and "ar_sent s = n" and "ar_adm (Arp_alarm ts now err)" and "ts_ns ts - ts_ns (ar_last s) > 500000000"
  defines "t \<equiv> ar_step (Arp_alarm ts now err) s"
  shows "ar_status t = Ar_exit (ar_exit_code s) \<and> ar_wire t = ar_wire s"
proof -
  have s: "ar_inv s" "ar_status s = Ar_running" "ar_alarm s" "ar_timeout s = 0" "ar_limit s = n"
    using assms(1) by (simp_all add: counting_def)
  have "t = catcher ts now err (s\<lparr>ar_alarm := False\<rparr>)" using s by (simp add: t_def ar_step_def)
  also have "\<dots> = ar_finish (if tv_sec (ar_start s) = 0 then s\<lparr>ar_alarm := False, ar_start := ts\<rparr> else s\<lparr>ar_alarm := False\<rparr>)"
    using catcher_due [of "s\<lparr>ar_alarm := False\<rparr>" ts now err] s assms(2-4) by (simp add: catcher_probe_def)
  finally show ?thesis by (simp add: ar_finish_def ar_exit_code_def)
qed

lemma probe_conf: "same_conf s t \<Longrightarrow> ar_he t = ar_he s \<Longrightarrow> probe_frame t = probe_frame s \<and> he_hw t = he_hw s"
  by (simp add: probe_frame_def he_hw_def my_hw_def same_conf_def)

lemma count_run:
  assumes "counting n s" and "ar_sent s \<le> n" and "\<forall>e \<in> set evs. ar_adm e \<and> \<not> ar_answers s e"
    and "paced_alarms (int (length (probe_frame s))) (ar_last s) evs"
    and "int (length (filter is_alarm evs)) = n - ar_sent s + 1"
    and "\<forall>w \<in> set (ar_wire s). snd w = (probe_frame s, he_hw s)"
  shows "ar_status (fold ar_step evs s) = Ar_exit (ar_exit_code s)
    \<and> int (length (ar_wire (fold ar_step evs s))) = n
    \<and> (\<forall>w \<in> set (ar_wire (fold ar_step evs s)). snd w = (probe_frame s, he_hw s))"
  using assms
proof (induction evs arbitrary: s)
  case Nil
  then show ?case by simp
next
  case (Cons e evs)
  have inv: "ar_inv s" and run: "ar_status s = Ar_running" using Cons.prems(1) by (simp_all add: counting_def)
  show ?case
  proof (cases e)
    case (Arp_alarm ts now err)
    define t where "t = ar_step e s"
    have adm: "ar_adm (Arp_alarm ts now err)" using Cons.prems(3) Arp_alarm by simp
    have pc: "err = int (length (probe_frame s))" "ts_ns ts - ts_ns (ar_last s) > 500000000"
      "paced_alarms (int (length (probe_frame s))) now evs" using Cons.prems(4) Arp_alarm by simp_all
    have conf: "same_conf s t" unfolding t_def by (rule same_conf_step)
    show ?thesis
    proof (cases "ar_sent s = n")
      case True
      note fin = alarm_ends [OF Cons.prems(1) True adm pc(2)]
      then have "ar_status t = Ar_exit (ar_exit_code s)" "ar_wire t = ar_wire s" by (simp_all add: t_def Arp_alarm)
      moreover from this have "fold ar_step evs t = t" by (intro step_ended) simp
      moreover have "int (length (ar_wire s)) = n" using inv True by (simp add: ar_inv_def ar_log_def)
      ultimately show ?thesis using Cons.prems(6) by (simp add: t_def)
    next
      case False
      note st = alarm_probes [OF Cons.prems(1) False adm pc(1,2), folded Arp_alarm, folded t_def]
      have same: "probe_frame t = probe_frame s" "he_hw t = he_hw s" using probe_conf [OF conf st(2)] by simp_all
      show ?thesis
      proof (cases "ar_sent s + 1 = n \<and> ar_unsolicited s")
        case True
        have "ar_status t = Ar_exit (ar_exit_code s)" by (rule st(4) [OF True])
        moreover from this have "fold ar_step evs t = t" by (intro step_ended) simp
        moreover have "int (length (ar_wire s)) = n - 1" using inv True by (simp add: ar_inv_def ar_log_def)
        ultimately show ?thesis using Cons.prems(6) st(1) by (simp add: t_def [symmetric])
      next
        case False
        have on: "counting n t" "ar_last t = now" "ar_sent t = ar_sent s + 1" using st(3) [OF False] by blast+
        have ec: "ar_exit_code t = ar_exit_code s"
          using Cons.prems(1) on(1) by (intro exit_code_conf [OF conf]) (simp add: counting_def)
        have "ar_status (fold ar_step evs t) = Ar_exit (ar_exit_code t) \<and> int (length (ar_wire (fold ar_step evs t))) = n
          \<and> (\<forall>w \<in> set (ar_wire (fold ar_step evs t)). snd w = (probe_frame t, he_hw t))"
        proof (rule Cons.IH [OF on(1)])
          show "ar_sent t \<le> n" using on(3) \<open>ar_sent s \<noteq> n\<close> Cons.prems(2) by simp
          show "\<forall>e \<in> set evs. ar_adm e \<and> \<not> ar_answers t e" using Cons.prems(3) answers_conf [OF conf] by simp
          show "paced_alarms (int (length (probe_frame t))) (ar_last t) evs" using pc(3) by (simp add: same on(2))
          show "int (length (filter is_alarm evs)) = n - ar_sent t + 1"
            using Cons.prems(5) on(3) by (simp add: Arp_alarm)
          show "\<forall>w \<in> set (ar_wire t). snd w = (probe_frame t, he_hw t)" using Cons.prems(6) by (simp add: st(1) same)
        qed
        then show ?thesis by (simp add: t_def [symmetric] same ec)
      qed
    qed
  next
    case (Arp_packet ts buf len "from")
    have "ar_step e s = s" using recv_no_answer [OF inv] Cons.prems(3) run by (simp add: Arp_packet ar_step_def)
    then show ?thesis using Cons.IH [OF Cons.prems(1,2)] Cons.prems(3-6) by (simp add: Arp_packet)
  qed (use Cons.prems(4) in simp_all)
qed

section \<open>The deadline\<close>

lemma deadline_ends:
  assumes "ar_inv s" and "ar_status s = Ar_running" and "ar_alarm s" and "ar_timeout s \<noteq> 0"
    and "tv_sec (ar_start s) \<noteq> 0" and "ts_ok (ar_start s)" and "ts_ok ts"
    and "ts_ns ts - ts_ns (ar_start s) > ar_timeout s * 1000000000 + 500000000"
  shows "ar_status (ar_step (Arp_alarm ts now err) s) = Ar_exit (ar_exit_code s)"
  using assms by (simp add: ar_step_def catcher_def Let_def past_by ar_finish_def ar_exit_code_def)

end
