(* ===== verification/Arping_Main.thy ===== *)
theory Arping_Main
  imports Arping_Choice Arping_Count Probed_Config
begin

text \<open>
  The start of \<^verbatim>\<open>arping\<close>: privileges, options, target, source and link-layer addresses. The requests that change the
  privileges of the process, and the two system calls that need them, are recorded in the order in which they are
  made; the sets of capabilities are lists of numbers.
\<close>

section \<open>Privileges\<close>

definition CAP_NET_RAW :: nat where "CAP_NET_RAW = 13"

text \<open>\<open>P_setcap p e\<close> asks for the permitted capabilities \<open>p\<close> and the effective ones \<open>e\<close>.\<close>

datatype priv_call = P_setcap "nat list" "nat list" | P_keepcaps bool | P_setuid | P_packet_socket | P_bindtodevice

text \<open>
  \<open>pv_get\<close> is the answer of \<^verbatim>\<open>cap_get_proc\<close> (the permitted and the effective set), \<open>pv_set\<close> whether \<^verbatim>\<open>cap_set_proc\<close>
  succeeds and whether its failure is \<^verbatim>\<open>EPERM\<close>; both as functions of the requests made so far.
\<close>

record priv_env =
  pv_get :: "priv_call list \<Rightarrow> (nat list \<times> nat list) option"
  pv_clear :: bool
  pv_set :: "priv_call list \<Rightarrow> bool \<times> bool"
  pv_prctl :: "bool \<Rightarrow> bool"
  pv_setuid :: bool
  pv_init :: bool

definition limit_setcap :: "priv_env \<Rightarrow> bool \<Rightarrow> priv_call list \<Rightarrow> int + priv_call list" where
  "limit_setcap V raw tr =
    (if \<not> raw then Inr tr
     else if \<not> pv_clear V then Inl (-1)
     else let tr1 = tr @ [P_setcap [CAP_NET_RAW] []] in
       if fst (pv_set V tr) \<or> snd (pv_set V tr) then Inr tr1 else Inl (-1))"

text \<open>\<^verbatim>\<open>limit_capabilities\<close>: the value of \<^verbatim>\<open>cap_raw\<close> and the requests, or the exit status.\<close>

definition limit_capabilities :: "priv_env \<Rightarrow> priv_call list \<Rightarrow> int + (bool \<times> priv_call list)" where
  "limit_capabilities V tr =
    (case pv_get V tr of
       None \<Rightarrow> Inl (-1)
     | Some (perm, eff) \<Rightarrow>
         (case limit_setcap V (CAP_NET_RAW \<in> set perm) tr of
            Inl c \<Rightarrow> Inl c
          | Inr tr1 \<Rightarrow>
              (if \<not> pv_prctl V True then Inl (-1)
               else if \<not> pv_setuid V then Inl (-1)
               else if \<not> pv_prctl V False then Inl (-1)
               else Inr (CAP_NET_RAW \<in> set perm, tr1 @ [P_keepcaps True, P_setuid, P_keepcaps False]))))"

text \<open>
  The list of calls holds what is requested of the kernel; whether it complies is the answer of \<open>pv_set\<close>, after which the program
  goes on or returns an error.
\<close>

definition modify_capability_raw :: "priv_env \<Rightarrow> bool \<Rightarrow> bool \<Rightarrow> priv_call list \<Rightarrow> int \<times> priv_call list" where
  "modify_capability_raw V cap_raw on tr =
    (if \<not> cap_raw then (if on then -1 else 0, tr)
     else case pv_get V tr of
       None \<Rightarrow> (-1, tr)
     | Some (perm, eff) \<Rightarrow>
         (if fst (pv_set V tr) then 0 else -1,
          tr @ [P_setcap perm (if on then List.insert CAP_NET_RAW eff else removeAll CAP_NET_RAW eff)]))"

definition enable_capability_raw :: "priv_env \<Rightarrow> bool \<Rightarrow> priv_call list \<Rightarrow> int \<times> priv_call list" where
  "enable_capability_raw V cap_raw tr = modify_capability_raw V cap_raw True tr"

definition disable_capability_raw :: "priv_env \<Rightarrow> bool \<Rightarrow> priv_call list \<Rightarrow> int \<times> priv_call list" where
  "disable_capability_raw V cap_raw tr = modify_capability_raw V cap_raw False tr"

definition drop_capabilities :: "priv_env \<Rightarrow> priv_call list \<Rightarrow> int + priv_call list" where
  "drop_capabilities V tr =
    (if \<not> pv_init V then Inl (-1)
     else if \<not> fst (pv_set V tr) then Inl (-1) else Inr (tr @ [P_setcap [] []]))"

text \<open>A call made between \<^verbatim>\<open>enable_capability_raw\<close> and \<^verbatim>\<open>disable_capability_raw\<close>.\<close>

definition with_raw :: "priv_env \<Rightarrow> bool \<Rightarrow> priv_call \<Rightarrow> priv_call list \<Rightarrow> priv_call list" where
  "with_raw V cap_raw call tr =
    snd (disable_capability_raw V cap_raw (snd (enable_capability_raw V cap_raw tr) @ [call]))"

section \<open>Options\<close>

record ar_boot =
  bt_ar :: arping
  bt_dev :: device
  bt_source :: "string option"
  bt_calls :: "priv_call list"

definition ar_option :: "char \<Rightarrow> string \<Rightarrow> ar_boot \<Rightarrow> int + ar_boot" where
  "ar_option ch optarg b =
    (let a = bt_ar b in
     if ch = CHR ''b'' then Inr (b\<lparr>bt_ar := a\<lparr>ar_broadcast_only := True\<rparr>\<rparr>)
     else if ch = CHR ''D'' then Inr (b\<lparr>bt_ar := a\<lparr>ar_dad := True, ar_quit_on_reply := True\<rparr>\<rparr>)
     else if ch = CHR ''U'' then Inr (b\<lparr>bt_ar := a\<lparr>ar_unsolicited := True\<rparr>\<rparr>)
     else if ch = CHR ''A'' then Inr (b\<lparr>bt_ar := a\<lparr>ar_advert := True, ar_unsolicited := True\<rparr>\<rparr>)
     else if ch = CHR ''q'' then Inr (b\<lparr>bt_ar := a\<lparr>ar_quiet := True\<rparr>\<rparr>)
     else if ch = CHR ''c'' then Inr (b\<lparr>bt_ar := a\<lparr>ar_limit := atoi optarg\<rparr>\<rparr>)
     else if ch = CHR ''w'' then Inr (b\<lparr>bt_ar := a\<lparr>ar_timeout := atoi optarg\<rparr>\<rparr>)
     else if ch = CHR ''I'' then Inr (b\<lparr>bt_dev := (bt_dev b)\<lparr>dev_name := Some optarg\<rparr>\<rparr>)
     else if ch = CHR ''f'' then Inr (b\<lparr>bt_ar := a\<lparr>ar_quit_on_reply := True\<rparr>\<rparr>)
     else if ch = CHR ''s'' then Inr (b\<lparr>bt_source := Some optarg\<rparr>)
     else if ch = CHR ''V'' then Inl 0
     else Inl 2)"

fun ar_options :: "(char \<times> string) list \<Rightarrow> ar_boot \<Rightarrow> int + ar_boot" where
  "ar_options [] b = Inr b"
| "ar_options ((ch, optarg) # os) b = (case ar_option ch optarg b of Inl c \<Rightarrow> Inl c | Inr b1 \<Rightarrow> ar_options os b1)"

section \<open>Addresses\<close>

text \<open>
  What the system answers during the start: the packet socket, the resolver (\<^verbatim>\<open>inet_aton\<close>, then \<^verbatim>\<open>getaddrinfo\<close>), the
  probing socket (created, bound to the source, connected to the target, its own address), and the
  packet socket's address after \<^verbatim>\<open>bind\<close> (\<open>None\<close> for a failure of \<^verbatim>\<open>bind\<close> or \<^verbatim>\<open>getsockname\<close>).
\<close>

record ar_env =
  en_priv :: priv_env
  en_socket :: bool
  en_find :: find_env
  en_aton :: "string \<Rightarrow> ip option"
  en_lookup :: "string \<Rightarrow> ip option"
  en_probe_socket :: bool
  en_bind_src :: "ip \<Rightarrow> bool"
  en_connect :: "ip \<Rightarrow> bool"
  en_sockname :: "ip \<Rightarrow> ip option"
  en_packet_name :: "int \<Rightarrow> sll option"

definition ar_target :: "ar_env \<Rightarrow> string \<Rightarrow> ip option" where
  "ar_target E target = (case en_aton E target of Some a \<Rightarrow> Some a | None \<Rightarrow> en_lookup E target)"

text \<open>The source address: given, the target itself for announcements, or what the probing socket gets.\<close>

definition ar_probe_source :: "ar_env \<Rightarrow> bool \<Rightarrow> ar_boot \<Rightarrow> int + ar_boot" where
  "ar_probe_source E cap_raw b =
    (let a = bt_ar b in
     if ar_dad a \<and> ar_src a = 0 then Inr b
     else if \<not> en_probe_socket E then Inl 2
     else let b1 = (if dev_name (bt_dev b) \<noteq> None
                    then b\<lparr>bt_calls := with_raw (en_priv E) cap_raw P_bindtodevice (bt_calls b)\<rparr> else b) in
       if ar_src a \<noteq> 0 then (if en_bind_src E (ar_src a) then Inr b1 else Inl 2)
       else if \<not> ar_dad a then
         (if \<not> en_connect E (ar_dst a) then Inl 2
          else case en_sockname E (ar_dst a) of
            None \<Rightarrow> Inl 2
          | Some ad \<Rightarrow> Inr (b1\<lparr>bt_ar := a\<lparr>ar_src := ad\<rparr>\<rparr>))
       else Inr b1)"

definition ar_addresses :: "ar_env \<Rightarrow> bool \<Rightarrow> string \<Rightarrow> ar_boot \<Rightarrow> int + ar_boot" where
  "ar_addresses E cap_raw target b =
    (case ar_target E target of
       None \<Rightarrow> Inl 2
     | Some d \<Rightarrow>
         (case (case bt_source b of None \<Rightarrow> Some (ar_src (bt_ar b)) | Some str \<Rightarrow> en_aton E str) of
            None \<Rightarrow> Inl 2
          | Some sr \<Rightarrow>
              (let a = (bt_ar b)\<lparr>ar_dst := d, ar_src := sr\<rparr>;
                   a1 = (if \<not> ar_dad a \<and> ar_unsolicited a \<and> ar_src a = 0 then a\<lparr>ar_src := ar_dst a\<rparr> else a)
               in ar_probe_source E cap_raw (b\<lparr>bt_ar := a1\<rparr>))))"

definition ar_link :: "ar_env \<Rightarrow> ar_boot \<Rightarrow> (int + ar_boot) option" where
  "ar_link E b =
    (let a = bt_ar b in
     case en_packet_name E (dev_ifindex (bt_dev b)) of
       None \<Rightarrow> Some (Inl 2)
     | Some me \<Rightarrow>
         (if sll_halen me = 0 then Some (Inl (if ar_dad a then 0 else 2))
          else case set_device_broadcast (bt_dev b) (unat (sll_halen me)) of
            None \<Rightarrow> None
          | Some ba \<Rightarrow>
              (let a1 = a\<lparr>ar_me := me, ar_he := me\<lparr>sll_addr := ba @ drop (length ba) (sll_addr me)\<rparr>\<rparr>
               in if ar_src a1 = 0 \<and> \<not> ar_dad a1 then Some (Inl 2) else Some (Inr (b\<lparr>bt_ar := a1\<rparr>)))))"

definition ar_boot_start :: "priv_call list \<Rightarrow> ar_boot" where
  "ar_boot_start tr = \<lparr>bt_ar = ar_globals, bt_dev = device_start, bt_source = None, bt_calls = tr\<rparr>"

text \<open>\<^verbatim>\<open>main\<close> up to its first call of \<^verbatim>\<open>catcher\<close>: \<open>opts\<close> and \<open>args\<close> are what \<^verbatim>\<open>getopt\<close> makes of the command line.\<close>

definition ar_find :: "ar_env \<Rightarrow> string list \<Rightarrow> ar_boot \<Rightarrow> (int + ar_boot) option" where
  "ar_find E args b =
    (if length args \<noteq> 1 then Some (Inl 2)
     else let dev = (if dev_name (bt_dev b) = Some '''' then (bt_dev b)\<lparr>dev_name := None\<rparr> else bt_dev b) in
       if \<not> en_socket E then Some (Inl 2)
       else case find_device (ar_dad (bt_ar b)) (en_find E) dev of
         None \<Rightarrow> None
       | Some (Inl c) \<Rightarrow> Some (Inl c)
       | Some (Inr (rc, dev1)) \<Rightarrow>
           (if rc < 0 \<or> dev_ifindex dev1 = 0 then Some (Inl 2) else Some (Inr (b\<lparr>bt_dev := dev1\<rparr>))))"

definition arping_main :: "ar_env \<Rightarrow> (char \<times> string) list \<Rightarrow> string list \<Rightarrow> (int + ar_boot) option" where
  "arping_main E opts args =
    (case limit_capabilities (en_priv E) [] of
       Inl c \<Rightarrow> Some (Inl c)
     | Inr (cap_raw, tr) \<Rightarrow>
         (case ar_options opts (ar_boot_start (with_raw (en_priv E) cap_raw P_packet_socket tr)) of
            Inl c \<Rightarrow> Some (Inl c)
          | Inr b \<Rightarrow>
              (case ar_find E args b of
                 None \<Rightarrow> None
               | Some (Inl c) \<Rightarrow> Some (Inl c)
               | Some (Inr b1) \<Rightarrow>
                   (case ar_addresses E cap_raw (hd args) b1 of
                      Inl c \<Rightarrow> Some (Inl c)
                    | Inr b2 \<Rightarrow>
                        (case ar_link E b2 of
                           None \<Rightarrow> None
                         | Some (Inl c) \<Rightarrow> Some (Inl c)
                         | Some (Inr b3) \<Rightarrow>
                             (case drop_capabilities (en_priv E) (bt_calls b3) of
                                Inl c \<Rightarrow> Some (Inl c)
                              | Inr tr2 \<Rightarrow> Some (Inr (b3\<lparr>bt_calls := tr2\<rparr>))))))))"

end
