(* ===== verification/Arping_Start.thy ===== *)
theory Arping_Start
  imports Arping_Main
begin

text \<open>
  What the start of \<^verbatim>\<open>arping\<close> establishes: privileges are held for single calls and given up at the end, the globals are in
  the state the loop expects, and the source address is the one the manual promises.
\<close>

section \<open>Privileges\<close>

text \<open>
  \<open>brief tr\<close>: whenever the raw capability is made effective, the next request is one of the two calls that need it, and
  the one after that takes it away again.
\<close>

fun brief :: "priv_call list \<Rightarrow> bool" where
  "brief [] \<longleftrightarrow> True"
| "brief (P_setcap p e # r) \<longleftrightarrow>
    (if CAP_NET_RAW \<in> set e
     then (case r of c # P_setcap p' e' # r' \<Rightarrow> c \<in> {P_packet_socket, P_bindtodevice} \<and> CAP_NET_RAW \<notin> set e' \<and> brief r' | _ \<Rightarrow> False)
     else brief r)"
| "brief (_ # r) \<longleftrightarrow> brief r"

lemma brief_append: "brief xs \<Longrightarrow> brief (xs @ ys) = brief ys"
proof (induction xs rule: brief.induct)
  case (2 p e r)
  show ?case
  proof (cases "CAP_NET_RAW \<in> set e")
    case True
    with 2(3) obtain c p' e' r' where r: "r = c # P_setcap p' e' # r'"
      and ok: "c \<in> {P_packet_socket, P_bindtodevice}" "CAP_NET_RAW \<notin> set e'" "brief r'"
      by (auto split: list.splits priv_call.splits)
    from 2(1) [OF True r refl] ok(3) have "brief (r' @ ys) = brief ys" by blast
    then show ?thesis using True ok by (simp add: r)
  next
    case False
    then show ?thesis using 2 by simp
  qed
qed simp_all

lemma with_raw_brief:
  assumes "\<forall>tr. pv_get V tr \<noteq> None" and "call \<in> {P_packet_socket, P_bindtodevice}" and "brief tr"
  shows "brief (with_raw V raw call tr)"
proof (cases raw)
  case True
  obtain p e where g: "pv_get V tr = Some (p, e)" using assms(1) by (metis option.exhaust prod.exhaust)
  define tr1 where "tr1 = tr @ [P_setcap p (List.insert CAP_NET_RAW e), call]"
  obtain p' e' where g': "pv_get V tr1 = Some (p', e')" using assms(1) by (metis option.exhaust prod.exhaust)
  have "with_raw V raw call tr = tr @ [P_setcap p (List.insert CAP_NET_RAW e), call, P_setcap p' (removeAll CAP_NET_RAW e')]"
    using True g g' by (simp add: with_raw_def enable_capability_raw_def disable_capability_raw_def modify_capability_raw_def tr1_def)
  then show ?thesis using assms(2,3) by (simp add: brief_append)
next
  case False
  then have "with_raw V raw call tr = tr @ [call]"
    by (simp add: with_raw_def enable_capability_raw_def disable_capability_raw_def modify_capability_raw_def)
  then show ?thesis using assms(2,3) by (auto simp: brief_append)
qed

lemma limit_brief: "limit_capabilities V [] = Inr (raw, tr) \<Longrightarrow> brief tr"
  by (auto simp: limit_capabilities_def limit_setcap_def Let_def split: option.splits sum.splits if_splits)

section \<open>Options\<close>

definition fresh :: "arping \<Rightarrow> bool" where
  "fresh a \<longleftrightarrow> ar_wire a = [] \<and> ar_sent a = 0 \<and> ar_brd_sent a = 0 \<and> ar_received a = 0 \<and> ar_brd_recv a = 0 \<and> ar_req_recv a = 0
    \<and> ar_last a = ts_zero \<and> ar_start a = ts_zero \<and> \<not> ar_unicasting a \<and> \<not> ar_alarm a \<and> ar_status a = Ar_running"

text \<open>An option changes neither the counters nor the requests; duplicate address detection always stops at the first answer.\<close>

lemma option_keeps:
  assumes "ar_option ch optarg b = Inr b'"
  shows "fresh (bt_ar b) \<Longrightarrow> fresh (bt_ar b')" and "bt_calls b' = bt_calls b" and "ar_src (bt_ar b') = ar_src (bt_ar b)"
    and "(ar_dad (bt_ar b) \<longrightarrow> ar_quit_on_reply (bt_ar b)) \<Longrightarrow> (ar_dad (bt_ar b') \<longrightarrow> ar_quit_on_reply (bt_ar b'))"
    and "ar_dad (bt_ar b') = (ar_dad (bt_ar b) \<or> ch = CHR ''D'')"
    and "bt_source b' = (if ch = CHR ''s'' then Some optarg else bt_source b)"
  using assms by (auto simp: ar_option_def Let_def fresh_def split: if_splits)

lemma options_keep:
  assumes "ar_options opts b = Inr b'"
  shows "(fresh (bt_ar b) \<longrightarrow> fresh (bt_ar b')) \<and> bt_calls b' = bt_calls b \<and> ar_src (bt_ar b') = ar_src (bt_ar b)
    \<and> ((ar_dad (bt_ar b) \<longrightarrow> ar_quit_on_reply (bt_ar b)) \<longrightarrow> (ar_dad (bt_ar b') \<longrightarrow> ar_quit_on_reply (bt_ar b')))
    \<and> ar_dad (bt_ar b') = (ar_dad (bt_ar b) \<or> CHR ''D'' \<in> fst ` set opts)
    \<and> (CHR ''s'' \<notin> fst ` set opts \<longrightarrow> bt_source b' = bt_source b)"
  using assms
proof (induction opts arbitrary: b)
  case (Cons x opts)
  obtain ch optarg where x: "x = (ch, optarg)" by (cases x)
  with Cons.prems obtain b1 where b1: "ar_option ch optarg b = Inr b1" "ar_options opts b1 = Inr b'"
    by (auto split: sum.splits)
  from Cons.IH [OF b1(2)] option_keeps [OF b1(1)] show ?case by (auto simp: x)
qed simp

section \<open>Start to loop\<close>

text \<open>The packet socket's own address: the array of a \<^verbatim>\<open>sockaddr_storage\<close>, at most 32 bytes of address.\<close>

definition link_ok :: "ar_env \<Rightarrow> bool" where
  "link_ok E \<longleftrightarrow> (\<forall>i me. en_packet_name E i = Some me \<longrightarrow> length (sll_addr me) = SLL_ROOM \<and> unat (sll_halen me) \<le> 32)"

lemma find_keeps: "ar_find E args b = Some (Inr b1) \<Longrightarrow> bt_ar b1 = bt_ar b \<and> bt_calls b1 = bt_calls b \<and> bt_source b1 = bt_source b"
  by (auto simp: ar_find_def Let_def split: if_splits option.splits sum.splits)

lemma probe_source_keeps:
  assumes "ar_probe_source E raw b = Inr b1"
  shows "\<exists>sr. bt_ar b1 = (bt_ar b)\<lparr>ar_src := sr\<rparr> \<and> (ar_src (bt_ar b) \<noteq> 0 \<longrightarrow> sr = ar_src (bt_ar b))
      \<and> (ar_src (bt_ar b) = 0 \<and> ar_dad (bt_ar b) \<longrightarrow> sr = 0)
      \<and> (ar_src (bt_ar b) = 0 \<and> \<not> ar_dad (bt_ar b) \<longrightarrow> en_sockname E (ar_dst (bt_ar b)) = Some sr)"
    and "bt_calls b1 \<in> {bt_calls b, with_raw (en_priv E) raw P_bindtodevice (bt_calls b)}"
proof -
  show "\<exists>sr. bt_ar b1 = (bt_ar b)\<lparr>ar_src := sr\<rparr> \<and> (ar_src (bt_ar b) \<noteq> 0 \<longrightarrow> sr = ar_src (bt_ar b))
      \<and> (ar_src (bt_ar b) = 0 \<and> ar_dad (bt_ar b) \<longrightarrow> sr = 0)
      \<and> (ar_src (bt_ar b) = 0 \<and> \<not> ar_dad (bt_ar b) \<longrightarrow> en_sockname E (ar_dst (bt_ar b)) = Some sr)"
  proof (cases "ar_src (bt_ar b) = 0 \<and> \<not> ar_dad (bt_ar b)")
    case True
    then obtain ad where "en_sockname E (ar_dst (bt_ar b)) = Some ad" "bt_ar b1 = (bt_ar b)\<lparr>ar_src := ad\<rparr>"
      using assms by (auto simp: ar_probe_source_def Let_def split: if_splits option.splits)
    with True show ?thesis by (intro exI [of _ ad]) simp
  next
    case False
    then have "bt_ar b1 = bt_ar b" using assms by (auto simp: ar_probe_source_def Let_def split: if_splits)
    with False show ?thesis by (intro exI [of _ "ar_src (bt_ar b)"]) auto
  qed
  show "bt_calls b1 \<in> {bt_calls b, with_raw (en_priv E) raw P_bindtodevice (bt_calls b)}"
    using assms by (auto simp: ar_probe_source_def Let_def split: if_splits option.splits)
qed

lemma addresses_keep:
  assumes "ar_addresses E raw target b = Inr b1"
  shows "\<exists>d sr. bt_ar b1 = (bt_ar b)\<lparr>ar_dst := d, ar_src := sr\<rparr> \<and> ar_target E target = Some d
      \<and> (bt_source b = None \<and> ar_src (bt_ar b) = 0 \<longrightarrow>
          (if ar_dad (bt_ar b) then sr = 0 else if ar_unsolicited (bt_ar b) \<and> d \<noteq> 0 then sr = d else en_sockname E d = Some sr))"
    and "bt_calls b1 \<in> {bt_calls b, with_raw (en_priv E) raw P_bindtodevice (bt_calls b)}"
proof -
  obtain d sr where d: "ar_target E target = Some d"
    and sr: "(case bt_source b of None \<Rightarrow> Some (ar_src (bt_ar b)) | Some str \<Rightarrow> en_aton E str) = Some sr"
    and p: "ar_probe_source E raw (b\<lparr>bt_ar := (let a = (bt_ar b)\<lparr>ar_dst := d, ar_src := sr\<rparr> in
        if \<not> ar_dad a \<and> ar_unsolicited a \<and> ar_src a = 0 then a\<lparr>ar_src := ar_dst a\<rparr> else a)\<rparr>) = Inr b1"
    using assms by (auto simp: ar_addresses_def Let_def split: option.splits)
  define a where "a = (let a = (bt_ar b)\<lparr>ar_dst := d, ar_src := sr\<rparr> in
        if \<not> ar_dad a \<and> ar_unsolicited a \<and> ar_src a = 0 then a\<lparr>ar_src := ar_dst a\<rparr> else a)"
  have a: "ar_dad a = ar_dad (bt_ar b)" "ar_dst a = d" "\<And>x. a\<lparr>ar_src := x\<rparr> = (bt_ar b)\<lparr>ar_dst := d, ar_src := x\<rparr>"
    by (simp_all add: a_def Let_def)
  obtain x where x: "bt_ar b1 = a\<lparr>ar_src := x\<rparr>" "ar_src a \<noteq> 0 \<longrightarrow> x = ar_src a" "ar_src a = 0 \<and> ar_dad a \<longrightarrow> x = 0"
    "ar_src a = 0 \<and> \<not> ar_dad a \<longrightarrow> en_sockname E (ar_dst a) = Some x"
    using probe_source_keeps(1) [OF p] by (auto simp: a_def [symmetric])
  have "if ar_dad (bt_ar b) then x = 0 else if ar_unsolicited (bt_ar b) \<and> d \<noteq> 0 then x = d else en_sockname E d = Some x"
    if "bt_source b = None" "ar_src (bt_ar b) = 0"
  proof -
    have "sr = 0" using sr that by simp
    then have "ar_src a = (if \<not> ar_dad (bt_ar b) \<and> ar_unsolicited (bt_ar b) then d else 0)" by (simp add: a_def)
    then show ?thesis using x(2-4) a by (cases "ar_dad (bt_ar b)"; cases "ar_unsolicited (bt_ar b)"; cases "d = 0") simp_all
  qed
  then show "\<exists>d sr. bt_ar b1 = (bt_ar b)\<lparr>ar_dst := d, ar_src := sr\<rparr> \<and> ar_target E target = Some d
      \<and> (bt_source b = None \<and> ar_src (bt_ar b) = 0 \<longrightarrow>
          (if ar_dad (bt_ar b) then sr = 0 else if ar_unsolicited (bt_ar b) \<and> d \<noteq> 0 then sr = d else en_sockname E d = Some sr))"
    using x(1) d unfolding a(3) by (intro exI [of _ d] exI [of _ x] conjI impI) auto
  show "bt_calls b1 \<in> {bt_calls b, with_raw (en_priv E) raw P_bindtodevice (bt_calls b)}"
    using probe_source_keeps(2) [OF p] by simp
qed

lemma link_keeps:
  assumes "ar_link E b = Some (Inr b1)" and "link_ok E" and "fresh (bt_ar b)"
  shows "ar_inv (bt_ar b1)" and "fresh (bt_ar b1)" and "bt_calls b1 = bt_calls b"
    and "ar_dad (bt_ar b1) = ar_dad (bt_ar b)" and "ar_quit_on_reply (bt_ar b1) = ar_quit_on_reply (bt_ar b)"
    and "ar_src (bt_ar b1) = ar_src (bt_ar b)" and "ar_dst (bt_ar b1) = ar_dst (bt_ar b)"
    and "ar_unsolicited (bt_ar b1) = ar_unsolicited (bt_ar b)"
    and "ar_src (bt_ar b1) = 0 \<Longrightarrow> ar_dad (bt_ar b1)"
proof -
  from assms(1) obtain me ba where me: "en_packet_name E (dev_ifindex (bt_dev b)) = Some me"
    and ba: "set_device_broadcast (bt_dev b) (unat (sll_halen me)) = Some ba"
    and b1: "b1 = b\<lparr>bt_ar := (bt_ar b)\<lparr>ar_me := me, ar_he := me\<lparr>sll_addr := ba @ drop (length ba) (sll_addr me)\<rparr>\<rparr>\<rparr>"
    and src: "\<not> (ar_src (bt_ar b) = 0 \<and> \<not> ar_dad (bt_ar b))"
    by (auto simp: ar_link_def Let_def split: option.splits if_splits)
  have lba: "length ba = unat (sll_halen me)"
    using ba by (auto simp: set_device_broadcast_def set_device_broadcast_ifaddrs_one_def set_device_broadcast_sysfs_def
        sll_hw_def rd_bytes_def split: option.splits if_splits)
  have "length (sll_addr me) = SLL_ROOM" "unat (sll_halen me) \<le> 32" using assms(2) me by (auto simp: link_ok_def)
  then show "ar_inv (bt_ar b1)"
    using assms(3) lba by (simp add: b1 ar_inv_def ar_safe_def ar_log_def ar_tally_def fresh_def SLL_ROOM_def)
  show "fresh (bt_ar b1)" using assms(3) by (simp add: b1 fresh_def)
qed (use assms(1) in \<open>auto simp: ar_link_def Let_def split: option.splits if_splits\<close>)

text \<open>The state in which \<^verbatim>\<open>main\<close> enters its loop.\<close>

lemma main_cases:
  assumes "arping_main E opts args = Some (Inr b)"
  obtains raw tr b0 b1 b2 b3 tr2 where "limit_capabilities (en_priv E) [] = Inr (raw, tr)"
    and "ar_options opts (ar_boot_start (with_raw (en_priv E) raw P_packet_socket tr)) = Inr b0"
    and "ar_find E args b0 = Some (Inr b1)" and "ar_addresses E raw (hd args) b1 = Inr b2"
    and "ar_link E b2 = Some (Inr b3)" and "drop_capabilities (en_priv E) (bt_calls b3) = Inr tr2"
    and "b = b3\<lparr>bt_calls := tr2\<rparr>"
  using assms unfolding arping_main_def by (auto split: option.splits sum.splits)

lemma fresh_start: "fresh (bt_ar (ar_boot_start tr))"
  by (simp add: fresh_def ar_boot_start_def ar_globals_def)

lemma main_ready:
  assumes "arping_main E opts args = Some (Inr b)" and "link_ok E"
  shows "ar_inv (bt_ar b)" and "fresh (bt_ar b)"
    and "ar_dad (bt_ar b) = (CHR ''D'' \<in> fst ` set opts)" and "ar_dad (bt_ar b) \<longrightarrow> ar_quit_on_reply (bt_ar b)"
    and "ar_src (bt_ar b) = 0 \<longrightarrow> ar_dad (bt_ar b)"
proof -
  obtain raw tr b0 b1 b2 b3 tr2 where st: "limit_capabilities (en_priv E) [] = Inr (raw, tr)"
    "ar_options opts (ar_boot_start (with_raw (en_priv E) raw P_packet_socket tr)) = Inr b0"
    "ar_find E args b0 = Some (Inr b1)" "ar_addresses E raw (hd args) b1 = Inr b2"
    "ar_link E b2 = Some (Inr b3)" "b = b3\<lparr>bt_calls := tr2\<rparr>"
    using assms(1) by (rule main_cases) blast
  note o = options_keep [OF st(2)] and f = find_keeps [OF st(3)]
  have s0: "\<not> ar_dad (bt_ar (ar_boot_start x))" for x by (simp add: ar_boot_start_def ar_globals_def)
  obtain d sr where a: "bt_ar b2 = (bt_ar b1)\<lparr>ar_dst := d, ar_src := sr\<rparr>" using addresses_keep(1) [OF st(4)] by blast
  have fr: "fresh (bt_ar b2)" using o f fresh_start by (simp add: a fresh_def)
  note l = link_keeps [OF st(5) assms(2) fr]
  show "ar_inv (bt_ar b)" "fresh (bt_ar b)" "ar_src (bt_ar b) = 0 \<longrightarrow> ar_dad (bt_ar b)" using l by (simp_all add: st(6))
  show "ar_dad (bt_ar b) = (CHR ''D'' \<in> fst ` set opts)" "ar_dad (bt_ar b) \<longrightarrow> ar_quit_on_reply (bt_ar b)"
    using l(4,5) o f s0 by (simp_all add: st(6) a)
qed

lemma main_privileges:
  assumes "arping_main E opts args = Some (Inr b)" and "\<forall>tr. pv_get (en_priv E) tr \<noteq> None" and "link_ok E"
  shows "\<exists>tr. bt_calls b = tr @ [P_setcap [] []] \<and> brief (bt_calls b)"
proof -
  obtain raw tr b0 b1 b2 b3 tr2 where st: "limit_capabilities (en_priv E) [] = Inr (raw, tr)"
    "ar_options opts (ar_boot_start (with_raw (en_priv E) raw P_packet_socket tr)) = Inr b0"
    "ar_find E args b0 = Some (Inr b1)" "ar_addresses E raw (hd args) b1 = Inr b2"
    "ar_link E b2 = Some (Inr b3)" "drop_capabilities (en_priv E) (bt_calls b3) = Inr tr2" "b = b3\<lparr>bt_calls := tr2\<rparr>"
    using assms(1) by (rule main_cases) blast
  note o = options_keep [OF st(2)] and f = find_keeps [OF st(3)]
  have c3: "bt_calls b3 = bt_calls b2" using st(5) by (auto simp: ar_link_def Let_def split: option.splits if_splits)
  have "brief (bt_calls b1)"
    using with_raw_brief [OF assms(2) _ limit_brief [OF st(1)]] o f by (simp add: ar_boot_start_def)
  then have "brief (bt_calls b3)"
    using addresses_keep(2) [OF st(4)] with_raw_brief [OF assms(2)] unfolding c3 by auto
  moreover have "tr2 = bt_calls b3 @ [P_setcap [] []]"
    using st(6) by (auto simp: drop_capabilities_def split: if_splits)
  ultimately show ?thesis by (simp add: st(7) brief_append)
qed

text \<open>The source address, as the manual describes it for runs without \<^verbatim>\<open>-s\<close>.\<close>

lemma main_source:
  assumes "arping_main E opts args = Some (Inr b)" and "link_ok E" and "CHR ''s'' \<notin> fst ` set opts"
  shows "ar_target E (hd args) = Some (ar_dst (bt_ar b)) \<and>
    (if ar_dad (bt_ar b) then ar_src (bt_ar b) = 0
     else if ar_unsolicited (bt_ar b) \<and> ar_dst (bt_ar b) \<noteq> 0 then ar_src (bt_ar b) = ar_dst (bt_ar b)
     else en_sockname E (ar_dst (bt_ar b)) = Some (ar_src (bt_ar b)))"
proof -
  obtain raw tr b0 b1 b2 b3 tr2 where st: "limit_capabilities (en_priv E) [] = Inr (raw, tr)"
    "ar_options opts (ar_boot_start (with_raw (en_priv E) raw P_packet_socket tr)) = Inr b0"
    "ar_find E args b0 = Some (Inr b1)" "ar_addresses E raw (hd args) b1 = Inr b2"
    "ar_link E b2 = Some (Inr b3)" "b = b3\<lparr>bt_calls := tr2\<rparr>"
    using assms(1) by (rule main_cases) blast
  note o = options_keep [OF st(2)] and f = find_keeps [OF st(3)]
  have s0: "ar_src (bt_ar (ar_boot_start x)) = 0" "bt_source (ar_boot_start x) = None" for x
    by (simp_all add: ar_boot_start_def ar_globals_def)
  have b1: "bt_source b1 = None" "ar_src (bt_ar b1) = 0" using o f s0 assms(3) by simp_all
  obtain d sr where a: "bt_ar b2 = (bt_ar b1)\<lparr>ar_dst := d, ar_src := sr\<rparr>" "ar_target E (hd args) = Some d"
    "if ar_dad (bt_ar b1) then sr = 0 else if ar_unsolicited (bt_ar b1) \<and> d \<noteq> 0 then sr = d else en_sockname E d = Some sr"
    using addresses_keep(1) [OF st(4)] b1 by blast
  have fr: "fresh (bt_ar b2)" using o f fresh_start by (simp add: a fresh_def)
  note l = link_keeps [OF st(5) assms(2) fr]
  show ?thesis using a l(4,6,7,8) by (simp add: st(6))
qed

section \<open>The first probe\<close>

lemma run_as_fold:
  assumes "ar_status s = Ar_running" and "\<not> ar_alarm s"
  shows "ar_run ts now err evs s = fold ar_step (Arp_alarm ts now err # evs) (s\<lparr>ar_alarm := True\<rparr>)"
proof -
  have "s\<lparr>ar_alarm := False\<rparr> = s" using assms(2) by (cases s) simp
  then show ?thesis using assms(1) by (simp add: ar_run_def ar_step_def)
qed

lemma ar_run_inv:
  assumes "ar_inv s" and "ar_adm (Arp_alarm ts now err)" and "\<forall>e \<in> set evs. ar_adm e"
  shows "ar_inv (ar_run ts now err evs s)"
  unfolding ar_run_def using inv_catcher [OF assms(1), of ts now err] assms(2,3) by (intro ar.invar_fold) simp_all

lemma same_conf_run: "same_conf s (ar_run ts now err evs s)"
  unfolding ar_run_def by (rule same_conf_trans [OF same_conf_catcher same_conf_fold])

section \<open>The frames on the wire\<close>

text \<open>Whatever happens, every frame carries the sender's own addresses and the address asked for.\<close>

definition own_frame :: "arping \<Rightarrow> octet list \<Rightarrow> bool" where
  "own_frame s f \<longleftrightarrow> (\<exists>thw. length thw = unat (sll_halen (ar_me s)) \<and>
     f = arp_frame (ar_hrd (ar_me s)) (sll_halen (ar_me s)) (if ar_advert s then ARPOP_REPLY else ARPOP_REQUEST) (my_hw s) (ar_src s) thw (ar_dst s))"

definition own_wire :: "arping \<Rightarrow> bool" where
  "own_wire s \<longleftrightarrow> (\<forall>w \<in> set (ar_wire s). own_frame s (fst (snd w)))"

lemma own_frame_conf: "same_conf s t \<Longrightarrow> own_frame t f = own_frame s f"
  by (simp add: own_frame_def same_conf_def my_hw_def)

lemma own_probe: "ar_safe s \<Longrightarrow> own_frame s (probe_frame s)"
  using safe_hw(3) [of s] length_he_hw [of s]
  by (auto simp: own_frame_def probe_frame_def intro: exI [of _ "if ar_advert s then my_hw s else he_hw s"])

lemma own_wire_same: "same_conf s t \<Longrightarrow> ar_wire t = ar_wire s \<Longrightarrow> own_wire s \<Longrightarrow> own_wire t"
  by (simp add: own_wire_def own_frame_conf)

lemma own_wire_send:
  assumes "ar_safe s" and "own_wire s"
  shows "own_wire (send_pack now err s)"
proof -
  have "set (ar_wire (send_pack now err s)) \<subseteq> insert (now, probe_frame s, he_hw s) (set (ar_wire s))"
    by (auto simp: send_pack_safe [OF assms(1)])
  then show ?thesis
    using assms(2) own_probe [OF assms(1)] own_frame_conf [OF same_conf_send [of s now err]] by (auto simp: own_wire_def)
qed

lemma own_wire_finish: "own_wire s \<Longrightarrow> own_wire (ar_finish s)"
  by (rule own_wire_same [OF same_conf_finish]) (simp_all add: ar_finish_def)

lemma own_wire_alarm: "own_wire s \<Longrightarrow> own_wire (s\<lparr>ar_alarm := b\<rparr>)"
  by (rule own_wire_same) simp_all

lemma own_wire_catcher:
  assumes "ar_safe s" and "own_wire s"
  shows "own_wire (catcher ts now err s)"
proof -
  have p: "own_wire (catcher_probe now err t)" if "ar_safe t" "own_wire t" for t
    using own_wire_send [OF that] that unfolding catcher_probe_def Let_def
    by (auto intro: own_wire_finish own_wire_alarm)
  define t where "t = (if tv_sec (ar_start s) = 0 then s\<lparr>ar_start := ts\<rparr> else s)"
  have "ar_safe t" "own_wire t"
    using assms by (auto simp: t_def ar_safe_def intro: own_wire_same [of s] simp: same_conf_def)
  then show ?thesis unfolding catcher_def Let_def t_def [symmetric] using p own_wire_finish own_wire_alarm by simp
qed

lemma wire_accept: "ar_wire (ar_accept pk oper shw s) = ar_wire s"
  by (simp add: ar_accept_def Let_def ar_finish_def)

lemma wire_recv: "ar_wire (recv_pack ts buf len from s) = ar_wire s"
  by (auto simp: recv_pack_def Let_def wire_accept ar_report_def split: option.splits)

lemma own_wire_step:
  assumes "ar_inv s" and "own_wire s"
  shows "own_wire (ar_step e s)"
proof (cases e)
  case (Arp_alarm ts now err)
  have "ar_safe (s\<lparr>ar_alarm := False\<rparr>)" using assms(1) by (simp add: ar_inv_def ar_safe_def)
  then show ?thesis
    using own_wire_catcher [OF _ own_wire_alarm [OF assms(2)]] assms(2) by (simp add: Arp_alarm ar_step_def)
next
  case (Arp_packet ts buf len "from")
  then show ?thesis using assms(2) by (intro own_wire_same [OF same_conf_step _ assms(2)]) (simp add: ar_step_def wire_recv)
qed (use assms(2) in \<open>auto simp: ar_step_def own_wire_finish intro: own_wire_same simp: same_conf_def\<close>)

lemma own_wire_fold:
  "ar_inv s \<Longrightarrow> own_wire s \<Longrightarrow> \<forall>e \<in> set evs. ar_adm e \<Longrightarrow> own_wire (fold ar_step evs s)"
  by (induction evs arbitrary: s) (auto intro: own_wire_step inv_step)

lemma own_wire_run:
  assumes "ar_inv s" and "ar_wire s = []" and "ar_adm (Arp_alarm ts now err)" and "\<forall>e \<in> set evs. ar_adm e"
    and "w \<in> set (ar_wire (ar_run ts now err evs s))"
  shows "own_frame s (fst (snd w))"
proof -
  have "ar_safe s" "own_wire s" using assms(1,2) by (simp_all add: ar_inv_def own_wire_def)
  then have "own_wire (ar_run ts now err evs s)"
    unfolding ar_run_def using inv_catcher [OF assms(1), of ts now err] assms(3,4) own_wire_catcher
    by (intro own_wire_fold) simp_all
  then show ?thesis using assms(5) own_frame_conf [OF same_conf_run] by (simp add: own_wire_def)
qed

section \<open>Announcement and detection\<close>

text \<open>
  Two copies of the program on a link: a frame in which one gives the address as its own ends the detection of the other.
  \<open>pad\<close> is the padding a short frame gets on the way.
\<close>

lemma announcement_detected:
  assumes "dad_idle a" and "own_frame b f" and "ar_safe b"
    and "ar_src b = ar_dst a" and "my_hw b \<noteq> my_hw a" and "sll_halen (ar_me b) = sll_halen (ar_me a)"
    and "ar_src a = 0 \<or> ar_dst b = ar_src a"
    and "sll_pkttype from \<in> {PACKET_HOST, PACKET_BROADCAST, PACKET_MULTICAST}"
    and "sll_hatype from = sll_hatype (ar_me b)"
    and "ar_adm (Arp_packet ts buf len from)" and "take (nat len) buf = f @ pad"
  shows "ar_status (ar_step (Arp_packet ts buf len from) a) = Ar_exit 1"
proof -
  have d: "ar_dad a" using assms(1) by (simp add: dad_idle_def)
  let ?op = "if ar_advert b then ARPOP_REPLY else ARPOP_REQUEST"
  obtain thw where thw: "length thw = unat (sll_halen (ar_me b))"
    "f = arp_frame (ar_hrd (ar_me b)) (sll_halen (ar_me b)) ?op (my_hw b) (ar_src b) thw (ar_dst b)"
    using assms(2) by (auto simp: own_frame_def)
  have f: "is_arp (take (nat len) buf) (ar_hrd (ar_me b)) (sll_halen (ar_me a)) ?op (my_hw b) (ar_dst a) thw (ar_dst b)"
    unfolding assms(11) is_arp_def using thw assms(4,6) safe_hw(3) [OF assms(3)] by auto
  have h: "arp_heard (ar_hrd (ar_me b)) ?op from" using assms(8,9) by (simp add: arp_heard_def ar_hrd_def)
  have "ar_answers a (Arp_packet ts buf len from)"
    unfolding ar_answers.simps using f h d assms(5,7) by (intro exI conjI) (assumption | simp)+
  then show ?thesis using dad_step(1) [OF assms(1,10)] by simp
qed

end
