(* ===== verification/Arping_Properties.thy ===== *)
theory Arping_Properties
  imports Arping_Start
begin

text \<open>
  The properties of \<^verbatim>\<open>arping\<close>, each with a run on a small system: one interface \<^verbatim>\<open>eth0\<close> with a hardware address of two
  bytes.
\<close>

section \<open>A small system\<close>

definition demo_sll :: "octet \<Rightarrow> octet \<Rightarrow> sll" where
  "demo_sll x y = \<lparr>sll_protocol = ETH_P_ARP, sll_ifindex = 2, sll_hatype = ARPHRD_ETHER, sll_pkttype = 0, sll_halen = 2,
     sll_addr = [x, y] @ replicate 114 0\<rparr>"

definition demo_ifa :: ifa where
  "demo_ifa = \<lparr>ifa_name = ''eth0'', ifa_flags = 0x1003, ifa_addr = Some (AF_PACKET, demo_sll 1 2), ifa_broadaddr = Some (demo_sll 255 255)\<rparr>"

definition demo_ar_env :: "octet \<Rightarrow> ar_env" where
  "demo_ar_env x = \<lparr>
     en_priv = \<lparr>pv_get = (\<lambda>tr. Some ([13], [])), pv_clear = True, pv_set = (\<lambda>tr. (True, False)), pv_prctl = (\<lambda>b. True),
       pv_setuid = True, pv_init = True\<rparr>,
     en_socket = True,
     en_find = \<lparr>fe_ifas = Some [demo_ifa], fe_nametoindex = (\<lambda>nm. 2), fe_strdup = (\<lambda>nm. True), fe_sysdir = Some [],
       fe_ioctl = \<lparr>io_socket = True, io_flags = (\<lambda>nm. None), io_index = (\<lambda>nm. None), io_conf = Some []\<rparr>\<rparr>,
     en_aton = (\<lambda>str. Some 7), en_lookup = (\<lambda>str. None), en_probe_socket = True, en_bind_src = (\<lambda>a. True), en_connect = (\<lambda>a. True),
     en_sockname = (\<lambda>a. Some 9), en_packet_name = (\<lambda>i. Some (demo_sll x 2))\<rparr>"

definition demo_boot :: "octet \<Rightarrow> (char \<times> string) list \<Rightarrow> ar_boot" where
  "demo_boot x opts = (case arping_main (demo_ar_env x) opts [''h''] of Some (Inr b) \<Rightarrow> b | _ \<Rightarrow> ar_boot_start [])"

text \<open>An array that received the frame \<open>f\<close>.\<close>

definition demo_arp_packet :: "octet list \<Rightarrow> ar_event" where
  "demo_arp_packet f = Arp_packet (ts_make 11 0) (f @ replicate (4096 - length f) 0) (int (length f)) (demo_sll 9 9)"

definition demo_dad :: arping where
  "demo_dad = bt_ar (demo_boot 1 [(CHR ''D'', '''')])"

definition demo_claim :: "octet list" where
  "demo_claim = arp_frame ARPHRD_ETHER 2 ARPOP_REPLY [5, 6] 7 [1, 2] 7"

lemma demo_arping:
  "arping_main (demo_ar_env 1) [(CHR ''D'', '''')] [''h''] = Some (Inr (demo_boot 1 [(CHR ''D'', '''')]))"
  "arping_main (demo_ar_env 5) [(CHR ''U'', '''')] [''h''] = Some (Inr (demo_boot 5 [(CHR ''U'', '''')]))"
  "arping_main (demo_ar_env 1) [(CHR ''c'', ''2'')] [''h''] = Some (Inr (demo_boot 1 [(CHR ''c'', ''2'')]))"
  "arping_main (demo_ar_env 1) [(CHR ''U'', ''''), (CHR ''c'', ''2'')] [''h''] = Some (Inr (demo_boot 1 [(CHR ''U'', ''''), (CHR ''c'', ''2'')]))"
  by code_simp+

lemma demo_link: "link_ok (demo_ar_env x)"
  by (simp add: link_ok_def demo_ar_env_def demo_sll_def SLL_ROOM_def)

lemma demo_adm:
  "ar_adm (Arp_alarm (ts_make 10 0) (ts_make 10 0) 20)"
  "length f \<le> 4096 \<Longrightarrow> ar_adm (demo_arp_packet f)"
  by (simp_all add: ts_ok_def ts_ns_def demo_arp_packet_def)

section \<open>Duplicate address detection\<close>

text \<open>
  C3. Duplicate address detection (\<^verbatim>\<open>-D\<close>) gives the right verdict. Take any start of the program with this option that
  reaches the loop, and any sequence of alarms, frames, errors and interrupts. As long as the program runs, no frame so far
  came from another host that uses the address; and it exits with status 1 at an event exactly if that event is a frame, as
  received, in which another hardware address gives the tested address as its own (and, when a source address was given,
  speaks to that address).
\<close>

theorem arping_dad_verdict:
  assumes "arping_main E opts args = Some (Inr b)" and "CHR ''D'' \<in> fst ` set opts" and "link_ok E"
    and "ar_adm (Arp_alarm ts now err)" and "\<forall>x \<in> set (pre @ [e]). ar_adm x"
    and "ar_status (ar_run ts now err pre (bt_ar b)) = Ar_running"
  shows "(\<forall>x \<in> set pre. \<not> ar_answers (bt_ar b) x)
    \<and> (ar_status (ar_run ts now err (pre @ [e]) (bt_ar b)) = Ar_exit 1 \<longleftrightarrow> ar_answers (bt_ar b) e)"
proof -
  define s where "s = catcher ts now err (bt_ar b)"
  note r = main_ready [OF assms(1,3)]
  have b: "ar_inv (bt_ar b)" "ar_dad (bt_ar b)" "ar_quit_on_reply (bt_ar b)" "ar_received (bt_ar b) = 0" "ar_status (bt_ar b) = Ar_running"
    using r assms(2) by (simp_all add: fresh_def)
  have run: "ar_status (fold ar_step pre s) = Ar_running" using assms(6) by (simp add: ar_run_def s_def)
  have "ar_status s = Ar_running" by (rule ccontr) (use run step_ended [of s pre] in simp)
  then have idle: "dad_idle s"
    using inv_catcher [OF b(1), of ts now err] catcher_keeps(1) [OF b(1,5), of ts now err] same_conf_catcher [of "bt_ar b" ts now err] b assms(4)
    by (simp add: dad_idle_def s_def same_conf_def)
  have conf: "same_conf (bt_ar b) s" unfolding s_def by (rule same_conf_catcher)
  from dad_run [OF idle _ run] assms(5)
  have d: "dad_idle (fold ar_step pre s)" "\<forall>x \<in> set pre. \<not> ar_answers s x" by simp_all
  have "ar_answers (fold ar_step pre s) e = ar_answers (bt_ar b) e"
    by (rule answers_conf [OF same_conf_trans [OF conf same_conf_fold]])
  with dad_step(1) [OF d(1), of e] assms(5) d(2) answers_conf [OF conf]
  show ?thesis by (simp add: ar_run_def s_def)
qed

theorem arping_dad_verdict_witness:
  "ar_status (ar_run (ts_make 10 0) (ts_make 10 0) 20 [] demo_dad) = Ar_running
   \<and> ar_status (ar_run (ts_make 10 0) (ts_make 10 0) 20 ([] @ [demo_arp_packet demo_claim]) demo_dad) = Ar_exit 1"
proof -
  have run: "ar_status (ar_run (ts_make 10 0) (ts_make 10 0) 20 [] demo_dad) = Ar_running" by code_simp
  have l: "length demo_claim = 20" by code_simp
  have me: "sll_halen (ar_me demo_dad) = 2" "ar_dst demo_dad = 7" "ar_dad demo_dad" "ar_src demo_dad = 0" "my_hw demo_dad = [1, 2]"
    by code_simp+
  have "is_arp demo_claim ARPHRD_ETHER 2 ARPOP_REPLY [5, 6] 7 [1, 2] 7" by (simp add: is_arp_def demo_claim_def)
  moreover have "arp_heard ARPHRD_ETHER ARPOP_REPLY (demo_sll 9 9)" by code_simp
  ultimately have "ar_answers demo_dad (demo_arp_packet demo_claim)"
    unfolding demo_arp_packet_def ar_answers.simps me using l me(3)
    by - (rule exI [of _ ARPHRD_ETHER], rule exI [of _ ARPOP_REPLY], rule exI [of _ "[5, 6]"], rule exI [of _ "[1, 2]"],
        rule exI [of _ 7], simp)
  with arping_dad_verdict [OF demo_arping(1) _ demo_link demo_adm(1), of "[]" "demo_arp_packet demo_claim"] run demo_adm(2) [of demo_claim] l
  show ?thesis by (simp add: demo_dad_def)
qed

section \<open>Two copies on a link\<close>

text \<open>
  C33. An announcement is detected. One copy of the program announces an address (\<^verbatim>\<open>-U\<close> or \<^verbatim>\<open>-A\<close>, no \<^verbatim>\<open>-s\<close>), another one
  on the same link, with another hardware address of the same length, tests the same address (\<^verbatim>\<open>-D\<close>, no \<^verbatim>\<open>-s\<close>). Whenever the
  second is still running and receives a frame the first put on the wire at any point of its run, padded or not, it exits
  with status 1.
\<close>

theorem arping_announcement_detected:
  assumes "arping_main Ea oa aa = Some (Inr a)" and "link_ok Ea" and "CHR ''D'' \<in> fst ` set oa" and "CHR ''s'' \<notin> fst ` set oa"
    and "arping_main Eb ob ab = Some (Inr b)" and "link_ok Eb" and "CHR ''D'' \<notin> fst ` set ob" and "CHR ''s'' \<notin> fst ` set ob"
    and "ar_unsolicited (bt_ar b)" and "ar_dst (bt_ar b) = ar_dst (bt_ar a)" and "ar_dst (bt_ar a) \<noteq> 0"
    and "my_hw (bt_ar b) \<noteq> my_hw (bt_ar a)" and "sll_halen (ar_me (bt_ar b)) = sll_halen (ar_me (bt_ar a))"
    and "ar_adm (Arp_alarm tb nb eb)" and "\<forall>x \<in> set evb. ar_adm x"
    and "(t, f, d) \<in> set (ar_wire (ar_run tb nb eb evb (bt_ar b)))"
    and "ar_adm (Arp_alarm ta na ea)" and "\<forall>x \<in> set eva. ar_adm x"
    and "ar_status (ar_run ta na ea eva (bt_ar a)) = Ar_running"
    and "sll_pkttype from \<in> {PACKET_HOST, PACKET_BROADCAST, PACKET_MULTICAST}" and "sll_hatype from = sll_hatype (ar_me (bt_ar b))"
    and "ar_adm (Arp_packet ts buf len from)" and "take (nat len) buf = f @ pad"
  shows "ar_status (ar_run ta na ea (eva @ [Arp_packet ts buf len from]) (bt_ar a)) = Ar_exit 1"
proof -
  note ra = main_ready [OF assms(1,2)] and rb = main_ready [OF assms(5,6)]
  have a: "ar_inv (bt_ar a)" "ar_dad (bt_ar a)" "ar_quit_on_reply (bt_ar a)" "ar_received (bt_ar a) = 0" "ar_status (bt_ar a) = Ar_running"
    using ra assms(3) by (simp_all add: fresh_def)
  have sa: "ar_src (bt_ar a) = 0" using main_source [OF assms(1,2,4)] a(2) by simp
  have sb: "ar_src (bt_ar b) = ar_dst (bt_ar b)" using main_source [OF assms(5,6,8)] rb(3) assms(7,9,10,11) by simp
  have fb: "own_frame (bt_ar b) f" "ar_safe (bt_ar b)"
    using own_wire_run [OF rb(1) _ assms(14,15,16)] rb by (simp_all add: fresh_def ar_inv_def)
  define s where "s = catcher ta na ea (bt_ar a)"
  define u where "u = fold ar_step eva s"
  have run: "ar_status u = Ar_running" using assms(19) by (simp add: ar_run_def s_def u_def)
  have "ar_status s = Ar_running" by (rule ccontr) (use run step_ended [of s eva] in \<open>simp add: u_def\<close>)
  then have "dad_idle s"
    using inv_catcher [OF a(1), of ta na ea] catcher_keeps(1) [OF a(1,5), of ta na ea] same_conf_catcher [of "bt_ar a" ta na ea] a assms(17)
    by (simp add: dad_idle_def s_def same_conf_def)
  then have idle: "dad_idle u" using dad_run [of s eva] run assms(18) by (simp add: u_def)
  have conf: "same_conf (bt_ar a) u" unfolding u_def s_def by (rule same_conf_trans [OF same_conf_catcher same_conf_fold])
  then have "ar_dst u = ar_dst (bt_ar a)" "ar_src u = 0" "ar_me u = ar_me (bt_ar a)" "my_hw u = my_hw (bt_ar a)"
    using sa by (simp_all add: same_conf_def my_hw_def)
  then have "ar_status (ar_step (Arp_packet ts buf len from) u) = Ar_exit 1"
    using announcement_detected [OF idle fb _ _ _ _ assms(20-23)] sb assms(10,12,13) by simp
  then show ?thesis by (simp add: ar_run_def u_def s_def)
qed

theorem arping_announcement_detected_witness:
  "ar_status (ar_run (ts_make 10 0) (ts_make 10 0) 20 ([] @
     [demo_arp_packet (probe_frame (bt_ar (demo_boot 5 [(CHR ''U'', '''')])))]) (bt_ar (demo_boot 1 [(CHR ''D'', '''')]))) = Ar_exit 1"
proof -
  let ?b = "bt_ar (demo_boot 5 [(CHR ''U'', '''')])" and ?a = "bt_ar (demo_boot 1 [(CHR ''D'', '''')])"
  have ab: "ar_unsolicited ?b" "ar_dst ?b = ar_dst ?a" "ar_dst ?a \<noteq> 0" "my_hw ?b \<noteq> my_hw ?a" "sll_halen (ar_me ?b) = sll_halen (ar_me ?a)"
    by code_simp+
  have w: "(ts_make 10 0, probe_frame ?b, [255, 255]) \<in> set (ar_wire (ar_run (ts_make 10 0) (ts_make 10 0) 20 [] ?b))" by code_simp
  have run: "ar_status (ar_run (ts_make 10 0) (ts_make 10 0) 20 [] ?a) = Ar_running" by code_simp
  have l: "length (probe_frame ?b) = 20" by code_simp
  have fr: "sll_pkttype (demo_sll 9 9) \<in> {PACKET_HOST, PACKET_BROADCAST, PACKET_MULTICAST}" "sll_hatype (demo_sll 9 9) = sll_hatype (ar_me ?b)"
    by code_simp+
  have adm: "ar_adm (demo_arp_packet (probe_frame ?b))" using l by (intro demo_adm(2)) simp
  show ?thesis
    unfolding demo_arp_packet_def
    by (rule arping_announcement_detected [where pad = "[]", OF demo_arping(1) demo_link _ _ demo_arping(2) demo_link _ _ ab demo_adm(1) _ w
          demo_adm(1) _ run fr adm [unfolded demo_arp_packet_def]]) simp_all
qed

section \<open>Counting probes\<close>

text \<open>
  C34. With \<^verbatim>\<open>-c n\<close>, \<open>n > 0\<close>, and no deadline (\<^verbatim>\<open>-w\<close>), a program that gets no answer sends exactly \<open>n\<close> probes and then ends: after
  \<open>n + 1\<close> calls of the alarm handler (the first from \<^verbatim>\<open>main\<close>) that come more than half a second apart, with any other frames in
  between, there are \<open>n\<close> frames on the wire, each the probe of the start sent to the broadcast address. The exit status is 0 in
  duplicate address detection and for announcements (\<^verbatim>\<open>-U\<close>, \<^verbatim>\<open>-A\<close>), which end with their last frame already, and 1 otherwise.
\<close>

theorem arping_counts_probes:
  assumes "arping_main E opts args = Some (Inr b)" and "link_ok E"
    and "ar_limit (bt_ar b) = n" and "0 < n" and "ar_timeout (bt_ar b) = 0"
    and "\<forall>e \<in> set (Arp_alarm ts now err # evs). ar_adm e \<and> \<not> ar_answers (bt_ar b) e"
    and "paced_alarms (int (length (probe_frame (bt_ar b)))) ts_zero (Arp_alarm ts now err # evs)"
    and "int (length (filter is_alarm (Arp_alarm ts now err # evs))) = n + 1"
  shows "ar_status (ar_run ts now err evs (bt_ar b)) = Ar_exit (if ar_dad (bt_ar b) \<or> ar_unsolicited (bt_ar b) then 0 else 1)
    \<and> int (length (ar_wire (ar_run ts now err evs (bt_ar b)))) = n
    \<and> (\<forall>w \<in> set (ar_wire (ar_run ts now err evs (bt_ar b))). snd w = (probe_frame (bt_ar b), he_hw (bt_ar b)))"
proof -
  define s where "s = (bt_ar b)\<lparr>ar_alarm := True\<rparr>"
  note r = main_ready [OF assms(1,2)]
  have fr: "fresh (bt_ar b)" using r(2) .
  have run: "ar_run ts now err evs (bt_ar b) = fold ar_step (Arp_alarm ts now err # evs) s"
    unfolding s_def by (rule run_as_fold) (use fr in \<open>simp_all add: fresh_def\<close>)
  have conf: "same_conf (bt_ar b) s" by (simp add: s_def)
  have same: "probe_frame s = probe_frame (bt_ar b)" "he_hw s = he_hw (bt_ar b)"
    using probe_conf [OF conf] by (simp_all add: s_def)
  have cnt: "counting n s" using r(1) fr assms(3,5) by (simp add: counting_def s_def fresh_def)
  have code: "ar_exit_code s = (if ar_dad (bt_ar b) \<or> ar_unsolicited (bt_ar b) then 0 else 1)"
    using fr by (simp add: ar_exit_code_def s_def fresh_def)
  have "ar_status (fold ar_step (Arp_alarm ts now err # evs) s) = Ar_exit (ar_exit_code s)
    \<and> int (length (ar_wire (fold ar_step (Arp_alarm ts now err # evs) s))) = n
    \<and> (\<forall>w \<in> set (ar_wire (fold ar_step (Arp_alarm ts now err # evs) s)). snd w = (probe_frame s, he_hw s))"
  proof (rule count_run [OF cnt])
    show "ar_sent s \<le> n" using fr assms(4) by (simp add: s_def fresh_def)
    show "\<forall>e \<in> set (Arp_alarm ts now err # evs). ar_adm e \<and> \<not> ar_answers s e" using assms(6) answers_conf [OF conf] by simp
    show "paced_alarms (int (length (probe_frame s))) (ar_last s) (Arp_alarm ts now err # evs)"
      unfolding same using assms(7) fr by (simp add: s_def fresh_def)
    show "int (length (filter is_alarm (Arp_alarm ts now err # evs))) = n - ar_sent s + 1"
      using assms(8) fr by (simp add: s_def fresh_def)
    show "\<forall>w \<in> set (ar_wire s). snd w = (probe_frame s, he_hw s)" using fr by (simp add: s_def fresh_def)
  qed
  then show ?thesis unfolding run code same .
qed

theorem arping_counts_probes_witness:
  "ar_status (ar_run (ts_make 10 0) (ts_make 10 0) 20
     [Arp_alarm (ts_make 11 0) (ts_make 11 0) 20, Arp_alarm (ts_make 12 0) (ts_make 12 0) 20] (bt_ar (demo_boot 1 [(CHR ''c'', ''2'')]))) = Ar_exit 1
   \<and> ar_status (ar_run (ts_make 10 0) (ts_make 10 0) 20
     [Arp_alarm (ts_make 11 0) (ts_make 11 0) 20, Arp_alarm (ts_make 12 0) (ts_make 12 0) 20] (bt_ar (demo_boot 1 [(CHR ''U'', ''''), (CHR ''c'', ''2'')]))) = Ar_exit 0"
proof -
  let ?b = "bt_ar (demo_boot 1 [(CHR ''c'', ''2'')])" and ?u = "bt_ar (demo_boot 1 [(CHR ''U'', ''''), (CHR ''c'', ''2'')])"
  have b: "ar_limit ?b = 2" "ar_timeout ?b = 0" "\<not> ar_unsolicited ?b" "\<not> ar_dad ?b" "length (probe_frame ?b) = 20" by code_simp+
  have u: "ar_limit ?u = 2" "ar_timeout ?u = 0" "ar_unsolicited ?u" "length (probe_frame ?u) = 20" by code_simp+
  show ?thesis
    using arping_counts_probes [OF demo_arping(3) demo_link b(1) _ b(2), of "ts_make 10 0" "ts_make 10 0" 20
        "[Arp_alarm (ts_make 11 0) (ts_make 11 0) 20, Arp_alarm (ts_make 12 0) (ts_make 12 0) 20]"] b(3-5)
      arping_counts_probes [OF demo_arping(4) demo_link u(1) _ u(2), of "ts_make 10 0" "ts_make 10 0" 20
        "[Arp_alarm (ts_make 11 0) (ts_make 11 0) 20, Arp_alarm (ts_make 12 0) (ts_make 12 0) 20]"] u(3,4)
    by (simp add: ts_ok_def ts_ns_def)
qed

section \<open>Every run\<close>

text \<open>
  C40. In every run of the program, whatever the network sends: no array is read or written out of bounds; each frame on the wire
  follows the previous one by more than half a second; as many probes are counted as frames were sent; and the privileges
  are gone before the first of them, the raw capability having been effective only for single calls.
\<close>

theorem arping_run_safe:
  assumes "arping_main E opts args = Some (Inr b)" and "link_ok E" and "\<forall>tr. pv_get (en_priv E) tr \<noteq> None"
    and "ar_adm (Arp_alarm ts now err)" and "\<forall>e \<in> set evs. ar_adm e"
  shows "ar_status (ar_run ts now err evs (bt_ar b)) \<noteq> Ar_fault
    \<and> probe_gaps (ar_wire (ar_run ts now err evs (bt_ar b)))
    \<and> ar_sent (ar_run ts now err evs (bt_ar b)) = int (length (ar_wire (ar_run ts now err evs (bt_ar b))))
    \<and> (\<exists>tr. bt_calls b = tr @ [P_setcap [] []]) \<and> brief (bt_calls b)"
proof -
  have "ar_inv (ar_run ts now err evs (bt_ar b))" by (rule ar_run_inv [OF main_ready(1) [OF assms(1,2)] assms(4,5)])
  then show ?thesis using main_privileges [OF assms(1,3,2)] by (auto simp: ar_inv_def ar_safe_def ar_log_def)
qed

theorem arping_run_safe_witness:
  "probe_gaps (ar_wire (ar_run (ts_make 10 0) (ts_make 10 0) 20 [Arp_alarm (ts_make 11 0) (ts_make 11 0) 20, Arp_interrupt]
     (bt_ar (demo_boot 1 [(CHR ''c'', ''2'')]))))"
proof -
  have "\<forall>tr. pv_get (en_priv (demo_ar_env 1)) tr \<noteq> None" by (simp add: demo_ar_env_def)
  from arping_run_safe [OF demo_arping(3) demo_link this demo_adm(1), of "[Arp_alarm (ts_make 11 0) (ts_make 11 0) 20, Arp_interrupt]"]
  show ?thesis by (simp add: ts_ok_def ts_ns_def)
qed

end
