(* ===== verification/Clockdiff_Measure.thy ===== *)
theory Clockdiff_Measure
  imports Rdisc_Start
begin

text \<open>
  The measurement of \<^verbatim>\<open>src/iputils-ns/clockdiff.c\<close>: the checksum in its TAHOE form, the time-stamp request, the two
  loops \<^verbatim>\<open>measure\<close> (ICMP time stamps) and \<^verbatim>\<open>measure_opt\<close> (echo with the IP time-stamp option), and \<^verbatim>\<open>main\<close>.

  A run of a loop is driven by a list of rounds: the time read before a probe, the result of \<^verbatim>\<open>sendto\<close>, and
  what arrives until \<^verbatim>\<open>select\<close> gives up, a finite list: in the source a wait lasts for as long as packets keep coming. The result is \<open>None\<close> when the rounds end before the loop does.
\<close>

section \<open>Checksum\<close>

definition ADDCARRY :: "int \<Rightarrow> int" where
  "ADDCARRY sm = (if sm div 65536 \<noteq> 0 then sm mod 65536 + 1 else sm)"

fun tahoe_sum :: "octet list \<Rightarrow> int \<Rightarrow> int" where
  "tahoe_sum (a # b # r) sm = tahoe_sum r (ADDCARRY (sm + (uint a + 256 * uint b)))"
| "tahoe_sum [a] sm = ADDCARRY (sm + uint a)"
| "tahoe_sum [] sm = sm"

definition tahoe_cksum :: "octet list \<Rightarrow> u16" where
  "tahoe_cksum bs = NOT (word_of_int (tahoe_sum bs 0))"

section \<open>State\<close>

definition RANGE :: int where "RANGE = 1"
definition MSGS :: int where "MSGS = 50"
definition TRIALS :: int where "TRIALS = 10"
definition GOOD :: int where "GOOD = 0"
definition UNREACHABLE :: int where "UNREACHABLE = 2"
definition NONSTDTIME :: int where "NONSTDTIME = 3"
definition HOSTDOWN :: int where "HOSTDOWN = 0x7fffffff"
definition BIASP :: int where "BIASP = 43199999"
definition BIASN :: int where "BIASN = -43200000"
definition MODULO :: int where "MODULO = 86400000"
definition PACKET_IN :: nat where "PACKET_IN = 1024"

definition ICMP_ECHOREPLY :: u8 where "ICMP_ECHOREPLY = 0"
definition ICMP_ECHO :: u8 where "ICMP_ECHO = 8"
definition ICMP_TIMESTAMP :: u8 where "ICMP_TIMESTAMP = 13"
definition ICMP_TIMESTAMPREPLY :: u8 where "ICMP_TIMESTAMPREPLY = 14"
definition IPOPT_TIMESTAMP :: u8 where "IPOPT_TIMESTAMP = 68"
definition IPOPT_TS_PRESPEC :: int where "IPOPT_TS_PRESPEC = 3"

text \<open>
  The globals and the locals of a measurement. \<open>cd_log\<close> keeps the packets passed to \<^verbatim>\<open>sendto\<close>, \<open>cd_samples\<close> the time stamps
  of the answers that were counted: when the probe left, when it was seen there, when the answer left there, when
  it was back.
\<close>

record clockdiff =
  cd_id :: u16
  cd_seqno :: u16
  cd_acked :: u16
  cd_rtt :: int
  cd_rtt_sigma :: int
  cd_min_rtt :: int
  cd_min1 :: int
  cd_min2 :: int
  cd_delta :: int
  cd_delta1 :: int
  cd_msgcount :: int
  cd_log :: "octet list list"
  cd_samples :: "(int \<times> int \<times> int \<times> int) list"

type_synonym timeval = "int \<times> int"

definition ms_of_day :: "timeval \<Rightarrow> int" where
  "ms_of_day tv = c_mod (fst tv) (24 * 60 * 60) * 1000 + c_div (snd tv) 1000"

section \<open>Probes\<close>

definition ts_body :: "u8 \<Rightarrow> u16 \<Rightarrow> u16 \<Rightarrow> u16 \<Rightarrow> int \<Rightarrow> octet list" where
  "ts_body ty ck i sq t = [ty, 0] @ le16_bytes ck @ le16_bytes i @ le16_bytes sq @ be32_bytes (word_of_int t) @ replicate 8 0"

definition ts_request :: "u8 \<Rightarrow> u16 \<Rightarrow> u16 \<Rightarrow> int \<Rightarrow> octet list" where
  "ts_request ty i sq t = ts_body ty (tahoe_cksum (ts_body ty 0 i sq t)) i sq t"

text \<open>A probe: the sequence number, the time and the checksum are filled in and the packet goes out.\<close>

definition cd_probe :: "u8 \<Rightarrow> timeval \<Rightarrow> clockdiff \<Rightarrow> clockdiff" where
  "cd_probe ty tv s =
    (let sq = cd_seqno s + 1
     in s\<lparr>cd_seqno := sq, cd_log := cd_log s @ [ts_request ty (cd_id s) sq (ms_of_day tv)]\<rparr>)"

section \<open>Answers\<close>

text \<open>Differences of times of day are brought into twelve hours either way.\<close>

definition cd_wrap :: "int \<Rightarrow> int" where
  "cd_wrap d = (if d < BIASN then d + MODULO else if d > BIASP then d - MODULO else d)"

definition cd_smooth :: "int \<Rightarrow> clockdiff \<Rightarrow> clockdiff" where
  "cd_smooth diff s =
    (let rtt = c_div (cd_rtt s * 3 + diff) 4
     in s\<lparr>cd_rtt := rtt, cd_rtt_sigma := c_div (cd_rtt_sigma s * 3 + \<bar>c_int (diff - rtt)\<bar>) 4, cd_msgcount := cd_msgcount s + 1\<rparr>)"

text \<open>
  The part both loops share once the four time stamps are known: the minima in each direction, the best round trip and
  whether this answer ends the measurement.
\<close>

definition cd_minima :: "int \<Rightarrow> int \<Rightarrow> clockdiff \<Rightarrow> clockdiff" where
  "cd_minima delta1 delta2 s =
    (let s1 = s\<lparr>cd_min1 := (if delta1 < cd_min1 s then delta1 else cd_min1 s),
                cd_min2 := (if delta2 < cd_min2 s then delta2 else cd_min2 s)\<rparr>
     in if delta1 + delta2 < cd_min_rtt s1
        then s1\<lparr>cd_min_rtt := delta1 + delta2, cd_delta1 := c_int (c_div (delta1 - delta2) 2)\<rparr> else s1)"

definition cd_account :: "int \<Rightarrow> int \<Rightarrow> int \<Rightarrow> int \<Rightarrow> clockdiff \<Rightarrow> bool \<times> clockdiff" where
  "cd_account sendtime histime histime1 recvtime s =
    (let delta1 = cd_wrap (histime - sendtime);
         delta2 = cd_wrap (recvtime - histime1);
         s1 = (cd_minima delta1 delta2 s)\<lparr>cd_samples := cd_samples s @ [(sendtime, histime, histime1, recvtime)]\<rparr>
     in if recvtime - sendtime < RANGE then (True, s1\<lparr>cd_min1 := delta1, cd_min2 := delta2\<rparr>) else (False, s1))"

definition cd_good :: "clockdiff \<Rightarrow> clockdiff" where
  "cd_good s = s\<lparr>cd_delta := c_int (c_div (cd_min1 s - cd_min2 s) 2)\<rparr>"

text \<open>
  The outcome of one received packet: wait for more, or return from the function. \<open>pkt\<close> is the whole array of
  1024 bytes; the header length in the first byte says where the ICMP message starts.
\<close>

datatype cd_outcome = Go_on clockdiff | Return int clockdiff

definition icmp_at :: "octet list \<Rightarrow> nat" where
  "icmp_at pkt = 4 * unat (take_bit 4 (pkt ! 0))"

definition le16_at :: "octet list \<Rightarrow> nat \<Rightarrow> u16" where
  "le16_at pkt i = word_of_int (le_value [pkt ! i, pkt ! (i + 1)])"

definition be32_at :: "octet list \<Rightarrow> nat \<Rightarrow> int" where
  "be32_at pkt i = be_value [pkt ! i, pkt ! (i + 1), pkt ! (i + 2), pkt ! (i + 3)]"

definition cd_ours :: "u8 \<Rightarrow> octet list \<Rightarrow> clockdiff \<Rightarrow> bool" where
  "cd_ours ty pkt s \<longleftrightarrow> pkt ! icmp_at pkt = ty \<and> le16_at pkt (icmp_at pkt + 4) = cd_id s
     \<and> 0 \<le> le16_at pkt (icmp_at pkt + 6) \<and> le16_at pkt (icmp_at pkt + 6) \<le> cd_seqno s"

definition cd_ack :: "octet list \<Rightarrow> clockdiff \<Rightarrow> clockdiff" where
  "cd_ack pkt s = (let q = le16_at pkt (icmp_at pkt + 6) in if cd_acked s < q then s\<lparr>cd_acked := q\<rparr> else s)"

definition cd_finish :: "bool \<times> clockdiff \<Rightarrow> cd_outcome" where
  "cd_finish r = (if fst r then Return GOOD (cd_good (snd r)) else Go_on (snd r))"

definition measure_packet :: "timeval \<Rightarrow> octet list \<Rightarrow> clockdiff \<Rightarrow> cd_outcome" where
  "measure_packet tv pkt s =
    (if \<not> cd_ours ICMP_TIMESTAMPREPLY pkt s then Go_on s
     else let s1 = cd_ack pkt s;
              icp = icmp_at pkt;
              recvtime = ms_of_day tv;
              sendtime = be32_at pkt (icp + 8);
              diff = recvtime - sendtime
          in if diff < 0 then Go_on s1
             else let s2 = cd_smooth diff s1;
                      histime = be32_at pkt (icp + 12)
                  in if 2 ^ 31 \<le> histime then Return NONSTDTIME s2
                     else cd_finish (cd_account sendtime histime histime recvtime s2))"

text \<open>
  The time stamps of the IP option: entry \<open>i\<close> at byte \<open>28 + 8 i\<close> of the packet. The fields are those after the loop over the
  entries: \<open>Inl\<close> for a stamp with the high bit set.
\<close>

record opt_times =
  ot_send :: int
  ot_his :: int
  ot_his1 :: int
  ot_recv :: int

definition opt_entry :: "int \<Rightarrow> nat \<Rightarrow> int \<Rightarrow> opt_times \<Rightarrow> opt_times" where
  "opt_entry ip_opt_len i t o0 =
    (if i = 0 then o0\<lparr>ot_send := t\<rparr>
     else if i = 1 then o0\<lparr>ot_his := t, ot_his1 := t\<rparr>
     else if i = 2 then (if ip_opt_len = 4 + 4 * 8 then o0\<lparr>ot_his1 := t\<rparr> else o0\<lparr>ot_recv := t\<rparr>)
     else if i = 3 then o0\<lparr>ot_recv := t\<rparr>
     else o0)"

fun opt_loop :: "int \<Rightarrow> octet list \<Rightarrow> nat list \<Rightarrow> opt_times \<Rightarrow> int + opt_times" where
  "opt_loop ip_opt_len pkt [] o0 = Inr o0"
| "opt_loop ip_opt_len pkt (i # is) o0 =
    (let t = be32_at pkt (20 + 4 + i * 8 + 4)
     in if 2 ^ 31 \<le> t then Inl NONSTDTIME else opt_loop ip_opt_len pkt is (opt_entry ip_opt_len i t o0))"

definition opt_entries :: "octet list \<Rightarrow> nat" where
  "opt_entries pkt = nat (c_div (uint (pkt ! 22) - 5) 8)"

definition measure_opt_packet :: "int \<Rightarrow> octet list \<Rightarrow> clockdiff \<Rightarrow> cd_outcome" where
  "measure_opt_packet ip_opt_len pkt s =
    (if \<not> (cd_ours ICMP_ECHOREPLY pkt s \<and> pkt ! 20 = IPOPT_TIMESTAMP) then Go_on s
     else let s1 = cd_ack pkt s in
       if uint (pkt ! 23) mod 16 \<noteq> IPOPT_TS_PRESPEC then Return NONSTDTIME s1
       else case opt_loop ip_opt_len pkt [0..<opt_entries pkt] \<lparr>ot_send = 0, ot_his = 0, ot_his1 = 0, ot_recv = 0\<rparr> of
         Inl st \<Rightarrow> Return st s1
       | Inr ot \<Rightarrow>
           (if (ot_send ot AND ot_his ot AND ot_his1 ot AND ot_recv ot) = 0 then Return (-1) s1
            else let diff = ot_recv ot - ot_send ot
                 in if diff < 0 then Go_on s1
                    else cd_finish (cd_account (ot_send ot) (ot_his ot) (ot_his1 ot) (ot_recv ot) (cd_smooth diff s1))))"

section \<open>The loops\<close>

text \<open>
  A round: time and result of sending, and the packets that arrive before \<^verbatim>\<open>select\<close> times out, each with the
  time read before \<^verbatim>\<open>recvfrom\<close>, its result and the array. \<open>handle\<close> is one of the two functions above.
\<close>

record cd_round =
  rn_time :: timeval
  rn_sendto :: int
  rn_recv :: "(timeval \<times> int \<times> octet list) list"

fun recv_all :: "(timeval \<Rightarrow> octet list \<Rightarrow> clockdiff \<Rightarrow> cd_outcome) \<Rightarrow> (timeval \<times> int \<times> octet list) list \<Rightarrow> clockdiff \<Rightarrow> cd_outcome" where
  "recv_all handle [] s = Go_on s"
| "recv_all handle ((tv, cc, pkt) # rs) s =
    (if cc < 0 then Return (-1) s
     else case handle tv pkt s of Return st s1 \<Rightarrow> Return st s1 | Go_on s1 \<Rightarrow> recv_all handle rs s1)"

fun measure_loop :: "u8 \<Rightarrow> (timeval \<Rightarrow> octet list \<Rightarrow> clockdiff \<Rightarrow> cd_outcome) \<Rightarrow> cd_round list \<Rightarrow> clockdiff \<Rightarrow> (int \<times> clockdiff) option" where
  "measure_loop ty handle rs s =
    (if MSGS \<le> cd_msgcount s then Some (GOOD, cd_good s)
     else if uint (cd_seqno s) - uint (cd_acked s) > TRIALS then Some (HOSTDOWN, s)
     else case rs of
       [] \<Rightarrow> None
     | r # rs' \<Rightarrow>
         (let s1 = cd_probe ty (rn_time r) s in
          if rn_sendto r < 0 then Some (UNREACHABLE, s1)
          else case recv_all handle (rn_recv r) s1 of
            Return st s2 \<Rightarrow> Some (st, s2)
          | Go_on s2 \<Rightarrow> measure_loop ty handle rs' s2))"

declare measure_loop.simps [simp del]

definition cd_begin :: "clockdiff \<Rightarrow> clockdiff" where
  "cd_begin s = s\<lparr>cd_min1 := 0x7fffffff, cd_min2 := 0x7fffffff, cd_min_rtt := 0x7fffffff, cd_delta := HOSTDOWN, cd_delta1 := HOSTDOWN,
     cd_seqno := 0, cd_acked := 0, cd_msgcount := 0\<rparr>"

text \<open>\<open>drain\<close> lists the results of \<^verbatim>\<open>recvfrom\<close> while the input queue is emptied.\<close>

definition measure_with :: "u8 \<Rightarrow> (timeval \<Rightarrow> octet list \<Rightarrow> clockdiff \<Rightarrow> cd_outcome) \<Rightarrow> int list \<Rightarrow> cd_round list \<Rightarrow> clockdiff
    \<Rightarrow> (int \<times> clockdiff) option" where
  "measure_with ty handle drain rs s =
    (if \<exists>cc \<in> set drain. cc < 0 then Some (-1, cd_begin s) else measure_loop ty handle rs (cd_begin s))"

definition cd_measure :: "int list \<Rightarrow> cd_round list \<Rightarrow> clockdiff \<Rightarrow> (int \<times> clockdiff) option" where
  "cd_measure drain rs s = measure_with ICMP_TIMESTAMP measure_packet drain rs s"

definition measure_opt :: "int \<Rightarrow> int list \<Rightarrow> cd_round list \<Rightarrow> clockdiff \<Rightarrow> (int \<times> clockdiff) option" where
  "measure_opt ip_opt_len drain rs s = measure_with ICMP_ECHO (\<lambda>tv. measure_opt_packet ip_opt_len) drain rs s"

section \<open>The program\<close>

text \<open>The bytes of the IP option that asks for time stamps at prescribed hosts.\<close>

definition ts_option :: "int \<Rightarrow> ip \<Rightarrow> ip \<Rightarrow> octet list" where
  "ts_option ip_opt_len me srv =
    [IPOPT_TIMESTAMP, word_of_int ip_opt_len, 5, word_of_int IPOPT_TS_PRESPEC]
    @ le32_bytes me @ replicate 4 0 @ le32_bytes srv @ replicate 4 0
    @ (if ip_opt_len = 4 + 4 * 8
       then le32_bytes srv @ replicate 4 0 @ le32_bytes me @ replicate 4 0
       else le32_bytes me @ replicate 4 0)"

record cd_env =
  ce_rights :: bool
  ce_socket :: bool
  ce_pid :: int
  ce_myname :: bool
  ce_hisname :: "string \<Rightarrow> ip option"
  ce_connect :: bool
  ce_sockname :: "ip option"
  ce_setopt :: bool
  ce_drain :: "int list"
  ce_rounds :: "cd_round list"

definition cd_start :: "int \<Rightarrow> clockdiff" where
  "cd_start pid = \<lparr>cd_id = word_of_int pid, cd_seqno = 0, cd_acked = 0, cd_rtt = 1000, cd_rtt_sigma = 0, cd_min_rtt = 0, cd_min1 = 0, cd_min2 = 0,
     cd_delta = 0, cd_delta1 = 0, cd_msgcount = 0, cd_log = [], cd_samples = []\<rparr>"

text \<open>The arguments behind the name of the program: the length of the option and the host.\<close>

definition cd_args :: "string list \<Rightarrow> (int \<times> string) option" where
  "cd_args args =
    (case args of
       [h] \<Rightarrow> Some (0, h)
     | [f, h] \<Rightarrow> (if f = ''-o'' then Some (4 + 4 * 8, h) else if f = ''-o1'' then Some (4 + 3 * 8, h) else None)
     | _ \<Rightarrow> None)"

text \<open>The length of the option that is in force: none was asked for, or the system refused it.\<close>

definition cd_option :: "cd_env \<Rightarrow> int \<Rightarrow> int + int" where
  "cd_option E ip_opt_len =
    (if ip_opt_len = 0 then Inr 0
     else case ce_sockname E of None \<Rightarrow> Inl 1 | Some me \<Rightarrow> Inr (if ce_setopt E then ip_opt_len else 0))"

definition cd_report :: "int \<times> clockdiff \<Rightarrow> int \<times> (int \<times> int) option" where
  "cd_report r = (if fst r < 0 \<or> fst r \<in> {HOSTDOWN, NONSTDTIME, UNREACHABLE} then (1, None) else (0, Some (cd_delta (snd r), cd_delta1 (snd r))))"

text \<open>
  \<^verbatim>\<open>main\<close>: the exit status and the two differences it prints; \<open>None\<close> while the measurement still waits. A failure of \<^verbatim>\<open>nice\<close> has
  no effect, since its error number is never negative.
\<close>

definition clockdiff_main :: "cd_env \<Rightarrow> string list \<Rightarrow> (int \<times> (int \<times> int) option) option" where
  "clockdiff_main E args =
    (if \<not> ce_rights E then Some (-1, None)
     else case cd_args args of
       None \<Rightarrow> Some (1, None)
     | Some (len, h) \<Rightarrow>
         (if \<not> ce_socket E then Some (1, None)
          else if \<not> ce_myname E then Some (2, None)
          else case ce_hisname E h of
            None \<Rightarrow> Some (1, None)
          | Some srv \<Rightarrow>
              (if \<not> ce_connect E then Some (1, None)
               else case cd_option E len of
                 Inl c \<Rightarrow> Some (c, None)
               | Inr len1 \<Rightarrow>
                   map_option cd_report
                     (if len1 \<noteq> 0 then measure_opt len1 (ce_drain E) (ce_rounds E) (cd_start (ce_pid E))
                      else cd_measure (ce_drain E) (ce_rounds E) (cd_start (ce_pid E))))))"

end
