(* ===== verification/Clockdiff_Runs.thy ===== *)
theory Clockdiff_Runs
  imports Clockdiff_Measure Rdisc_Protocol
begin

text \<open>
  The measurement of \<^verbatim>\<open>clockdiff\<close>: its checksum is that of \<^verbatim>\<open>ping\<close>, its differences are those of the clocks up to the delays
  of the network, and it always comes to an end.
\<close>

section \<open>Checksum\<close>

lemma ADDCARRY_spec:
  assumes "0 \<le> x" and "x \<le> 131070"
  shows "0 \<le> ADDCARRY x" "ADDCARRY x \<le> 65535" "ADDCARRY x mod 65535 = x mod 65535" "ADDCARRY x = 0 \<longleftrightarrow> x = 0"
proof -
  have "ADDCARRY x = (if x < 65536 then x else x - 65535)"
  proof (cases "x < 65536")
    case True
    then show ?thesis using assms(1) by (simp add: ADDCARRY_def)
  next
    case False
    have d: "x div 65536 = 1" by (rule int_div_pos_eq [of _ _ _ "x - 65536"]) (use False assms(2) in simp_all)
    then have "x mod 65536 = x - 65536" using minus_div_mult_eq_mod [of x 65536] by simp
    with d False show ?thesis by (simp add: ADDCARRY_def)
  qed
  moreover have "(x - 65535) mod 65535 = x mod 65535" by (simp add: mod_diff_eq [symmetric, of x])
  ultimately show "0 \<le> ADDCARRY x" "ADDCARRY x \<le> 65535" "ADDCARRY x mod 65535 = x mod 65535" "ADDCARRY x = 0 \<longleftrightarrow> x = 0"
    using assms by auto
qed

lemma cksum_sum_mod: "s mod 65535 = t mod 65535 \<Longrightarrow> cksum_sum bs s mod 65535 = cksum_sum bs t mod 65535"
  by (subst cksum_sum_add, subst (2) cksum_sum_add) (metis mod_add_cong)

lemma cksum_sum_zero: "0 \<le> s \<Longrightarrow> cksum_sum bs s = 0 \<longleftrightarrow> s = 0 \<and> cksum_sum bs 0 = 0"
  using cksum_sum_add [of bs s] cksum_sum_bounds [of 0 bs] by linarith

lemma tahoe_sum_spec:
  assumes "0 \<le> s" and "s \<le> 65535"
  shows "0 \<le> tahoe_sum bs s \<and> tahoe_sum bs s \<le> 65535 \<and> tahoe_sum bs s mod 65535 = cksum_sum bs s mod 65535
    \<and> (tahoe_sum bs s = 0 \<longleftrightarrow> cksum_sum bs s = 0)"
  using assms
proof (induction bs s rule: tahoe_sum.induct)
  case (1 a b r s)
  let ?x = "s + (uint a + 256 * uint b)"
  have x: "0 \<le> ?x" "?x \<le> 131070" using 1(2,3) octet_bound [of a] octet_bound [of b] by simp_all
  note c = ADDCARRY_spec [OF x]
  from 1(1) [OF c(1,2)] show ?case
    using cksum_sum_mod [OF c(3), of r] cksum_sum_zero [OF c(1), of r] cksum_sum_zero [OF x(1), of r] c(4) by simp
next
  case (2 a s)
  have x: "0 \<le> s + uint a" "s + uint a \<le> 131070" using 2 octet_bound [of a] by simp_all
  from ADDCARRY_spec [OF x] show ?case by simp
qed simp

lemma tahoe_is_in_cksum:
  assumes "length bs \<le> 65534"
  shows "tahoe_cksum bs = in_cksum bs 0"
proof -
  let ?t = "tahoe_sum bs 0" and ?s = "cksum_sum bs 0"
  have "?s < 2 ^ 31" "0 \<le> ?s" using cksum_sum_small [OF assms, of 0] by simp_all
  then have s: "0 \<le> ?s" "?s < 2 ^ 32" by simp_all
  note f = fold16_spec [OF s] and t = tahoe_sum_spec [of 0 bs, simplified]
  have eq: "fold16 ?s = ?t"
  proof (cases "?s = 0")
    case True
    then show ?thesis using f(4) t by simp
  next
    case False
    then have nz: "0 < fold16 ?s" "0 < ?t" "fold16 ?s \<le> 65535" "?t \<le> 65535" using f t by auto
    have "fold16 ?s mod 65535 = ?t mod 65535" using f(3) t by simp
    then have "65535 dvd fold16 ?s - ?t" by (simp only: mod_eq_dvd_iff)
    then obtain k where k: "fold16 ?s - ?t = 65535 * k" by (auto simp: dvd_def)
    have "- 65535 < 65535 * k" "65535 * k < 65535" using nz unfolding k [symmetric] by linarith+
    then have "k = 0" by simp
    then show ?thesis using k by simp
  qed
  have "uint (word_of_int ?t :: u16) = ?t" using t by (simp add: uint_word_of_int)
  then have "uint (tahoe_cksum bs) = uint (in_cksum bs 0)" by (simp add: tahoe_cksum_def uint_not16 uint_in_cksum eq)
  then show ?thesis by (simp add: word_uint_eq_iff)
qed

lemma ts_request_verifies:
  assumes "ty \<noteq> 0"
  shows "in_cksum (ts_request ty i sq t) 0 = 0"
proof -
  define r where "r = le16_bytes i @ le16_bytes sq @ be32_bytes (word_of_int t) @ replicate 8 (0 :: octet)"
  have b: "ts_body ty ck i sq t = [ty, 0] @ le16_bytes ck @ r" for ck by (simp add: ts_body_def r_def)
  have l: "length r = 16" by (simp add: r_def)
  have "tahoe_cksum (ts_body ty 0 i sq t) = rd_cksum ([ty, 0] @ le16_bytes 0 @ r)"
    using tahoe_is_in_cksum [of "ts_body ty 0 i sq t"] l by (simp add: b rd_cksum_eq)
  then have "ts_request ty i sq t = [ty, 0] @ le16_bytes (rd_cksum ([ty, 0] @ le16_bytes 0 @ r)) @ r"
    by (simp add: ts_request_def b)
  then show ?thesis using message_verifies [of r ty] assms l by (simp add: rd_cksum_eq)
qed

section \<open>Differences around midnight\<close>

lemma cd_wrap_range:
  assumes "- MODULO < d" and "d < MODULO"
  shows "BIASN \<le> cd_wrap d" "cd_wrap d \<le> BIASP" "cd_wrap d mod MODULO = d mod MODULO"
  using assms by (auto simp: cd_wrap_def BIASN_def BIASP_def MODULO_def)

lemma cd_wrap_unique:
  assumes "- MODULO < d" and "d < MODULO" and "BIASN \<le> x" and "x \<le> BIASP" and "x mod MODULO = d mod MODULO"
  shows "cd_wrap d = x"
proof -
  note w = cd_wrap_range [OF assms(1,2)]
  have "cd_wrap d mod MODULO = x mod MODULO" using w(3) assms(5) by simp
  then have "MODULO dvd cd_wrap d - x" by (simp only: mod_eq_dvd_iff)
  then obtain k where k: "cd_wrap d - x = MODULO * k" by (auto simp: dvd_def)
  have "- MODULO < MODULO * k" "MODULO * k < MODULO" using w(1,2) assms(3,4) k by (simp_all add: BIASN_def BIASP_def MODULO_def)
  then have "k = 0" by (simp add: MODULO_def)
  then show ?thesis using k by simp
qed

lemma day_time_range: "0 \<le> t mod MODULO" "t mod MODULO < MODULO"
  by (simp_all add: MODULO_def)

lemma cd_wrap_day:
  assumes "BIASN \<le> x" and "x \<le> BIASP" and "x = a - b"
  shows "cd_wrap (a mod MODULO - b mod MODULO) = x"
proof (rule cd_wrap_unique [OF _ _ assms(1,2)])
  show "x mod MODULO = (a mod MODULO - b mod MODULO) mod MODULO" by (simp add: assms(3) mod_diff_eq)
  show "- MODULO < a mod MODULO - b mod MODULO" "a mod MODULO - b mod MODULO < MODULO"
    using day_time_range [of a] day_time_range [of b] by linarith+
qed

section \<open>Honest answers\<close>

text \<open>
  The other clock is \<open>D\<close> milliseconds ahead of ours; the probe takes \<open>f\<close> milliseconds to get there, stays for \<open>p\<close> and the answer
  takes \<open>b\<close> to come back, neither way taking more than \<open>F\<close>.
\<close>

definition honest :: "int \<Rightarrow> int \<Rightarrow> int \<times> int \<times> int \<times> int \<Rightarrow> bool" where
  "honest D F x \<longleftrightarrow> (\<exists>t f p b. 0 \<le> f \<and> f \<le> F \<and> 0 \<le> b \<and> b \<le> F \<and>
     x = (t mod MODULO, (t + f + D) mod MODULO, (t + f + p + D) mod MODULO, (t + f + p + b) mod MODULO))"

definition near :: "int \<Rightarrow> int \<Rightarrow> int \<Rightarrow> bool" where
  "near D F x \<longleftrightarrow> (\<exists>f b. 0 \<le> f \<and> f \<le> F \<and> 0 \<le> b \<and> b \<le> F \<and> x = (D + f) - (b - D))"

lemma honest_deltas:
  assumes "honest D F (st, ht, ht1, rt)" and "\<bar>D\<bar> + F \<le> BIASP"
  shows "\<exists>f b. 0 \<le> f \<and> f \<le> F \<and> 0 \<le> b \<and> b \<le> F \<and> cd_wrap (ht - st) = D + f \<and> cd_wrap (rt - ht1) = b - D"
proof -
  from assms(1) obtain t f p b where h: "0 \<le> f" "f \<le> F" "0 \<le> b" "b \<le> F"
    and x: "st = t mod MODULO" "ht = (t + f + D) mod MODULO" "ht1 = (t + f + p + D) mod MODULO" "rt = (t + f + p + b) mod MODULO"
    by (auto simp: honest_def)
  have "cd_wrap (ht - st) = D + f" unfolding x by (rule cd_wrap_day) (use h assms(2) in \<open>auto simp: BIASN_def BIASP_def\<close>)
  moreover have "cd_wrap (rt - ht1) = b - D" unfolding x by (rule cd_wrap_day) (use h assms(2) in \<open>auto simp: BIASN_def BIASP_def\<close>)
  ultimately show ?thesis using h by blast
qed

text \<open>Half of such a difference is the difference of the clocks, up to half the delay and the rounding.\<close>

lemma c_int_small: "\<bar>x\<bar> < 2 ^ 31 \<Longrightarrow> c_int x = x"
  by (simp add: c_int_def signed_take_bit_int_eq_self sint_sbintrunc')

lemma c_div_2: "2 * c_div x 2 \<le> x + 1" "x - 1 \<le> 2 * c_div x 2" "even x \<Longrightarrow> 2 * c_div x 2 = x"
  by (cases "x < 0"; simp add: c_div_def sgn_if; auto elim!: evenE; presburger)+

lemma near_half:
  assumes "near D F x" and "\<bar>D\<bar> + F \<le> BIASP"
  shows "2 * \<bar>c_int (c_div x 2) - D\<bar> \<le> F + 1"
proof -
  from assms(1) obtain f b where fb: "0 \<le> f" "f \<le> F" "0 \<le> b" "b \<le> F" "x = 2 * D + f - b" by (auto simp: near_def)
  note h = c_div_2(1,2) [of x]
  have "\<bar>c_div x 2\<bar> < 2 ^ 31" using h fb assms(2) by (auto simp: BIASP_def)
  then have q: "c_int (c_div x 2) = c_div x 2" by (rule c_int_small)
  have "2 * (c_div x 2 - D) \<le> F + 1" "- (F + 1) \<le> 2 * (c_div x 2 - D)" using h fb by simp_all
  then show ?thesis unfolding q abs_if by simp
qed

section \<open>Loops\<close>

text \<open>
  What holds when a measurement returns: \<open>P\<close> is kept by a probe and by every packet after which the loop waits on; \<open>R\<close> holds of every
  status and state it can return with.
\<close>

locale cd_loop =
  fixes ty :: u8
    and handle :: "timeval \<Rightarrow> octet list \<Rightarrow> clockdiff \<Rightarrow> cd_outcome"
    and P :: "clockdiff \<Rightarrow> bool"
    and R :: "int \<Rightarrow> clockdiff \<Rightarrow> bool"
  assumes probe: "P s \<Longrightarrow> P (cd_probe ty tv s)"
    and go: "P s \<Longrightarrow> handle tv pkt s = Go_on s' \<Longrightarrow> P s'"
    and ret: "P s \<Longrightarrow> handle tv pkt s = Return st s' \<Longrightarrow> R st s'"
    and enough: "P s \<Longrightarrow> MSGS \<le> cd_msgcount s \<Longrightarrow> R GOOD (cd_good s)"
    and failed: "P s \<Longrightarrow> st \<noteq> GOOD \<Longrightarrow> R st s"
begin

lemma recv_all_go: "P s \<Longrightarrow> recv_all handle rs s = Go_on s' \<Longrightarrow> P s'"
proof (induction rs arbitrary: s)
  case (Cons x rs)
  obtain tv cc pkt where x: "x = (tv, cc, pkt)" by (cases x)
  with Cons.prems(2) obtain s1 where "handle tv pkt s = Go_on s1" "recv_all handle rs s1 = Go_on s'"
    by (auto split: if_splits cd_outcome.splits)
  then show ?case using Cons.IH go [OF Cons.prems(1)] by blast
qed simp

lemma recv_all_ret: "P s \<Longrightarrow> recv_all handle rs s = Return st s' \<Longrightarrow> R st s'"
proof (induction rs arbitrary: s)
  case (Cons x rs)
  obtain tv cc pkt where x: "x = (tv, cc, pkt)" by (cases x)
  show ?case
  proof (cases "cc < 0")
    case True
    then show ?thesis using Cons.prems failed [of s "-1"] by (simp add: x GOOD_def)
  next
    case False
    then show ?thesis using Cons.prems Cons.IH by (auto simp: x split: cd_outcome.splits intro: ret go)
  qed
qed simp

lemma loop_result: "P s \<Longrightarrow> measure_loop ty handle rs s = Some (st, s') \<Longrightarrow> R st s'"
proof (induction rs arbitrary: s)
  case Nil
  have st: "HOSTDOWN \<noteq> GOOD" by (simp add: HOSTDOWN_def GOOD_def)
  from Nil(2) have "MSGS \<le> cd_msgcount s \<and> (st, s') = (GOOD, cd_good s) \<or> (st, s') = (HOSTDOWN, s)"
    by (subst (asm) measure_loop.simps) (auto split: if_splits)
  then show ?case using Nil(1) st enough failed by blast
next
  case (Cons r rs)
  let ?s1 = "cd_probe ty (rn_time r) s"
  have p1: "P ?s1" using Cons.prems(1) by (rule probe)
  have st: "HOSTDOWN \<noteq> GOOD" "UNREACHABLE \<noteq> GOOD" by (simp_all add: HOSTDOWN_def UNREACHABLE_def GOOD_def)
  from Cons.prems(2) have "MSGS \<le> cd_msgcount s \<and> (st, s') = (GOOD, cd_good s) \<or> (st, s') = (HOSTDOWN, s) \<or> (st, s') = (UNREACHABLE, ?s1)
    \<or> recv_all handle (rn_recv r) ?s1 = Return st s'
    \<or> (\<exists>s2. recv_all handle (rn_recv r) ?s1 = Go_on s2 \<and> measure_loop ty handle rs s2 = Some (st, s'))"
    by (subst (asm) measure_loop.simps) (auto simp: Let_def split: if_splits cd_outcome.splits)
  then show ?case
    using Cons.prems(1) p1 st enough failed recv_all_ret [OF p1] recv_all_go [OF p1] Cons.IH by blast
qed

end

section \<open>Accuracy\<close>

definition cd_acc :: "int \<Rightarrow> int \<Rightarrow> clockdiff \<Rightarrow> bool" where
  "cd_acc D F s \<longleftrightarrow> cd_msgcount s = int (length (cd_samples s)) \<and>
    (\<bar>D\<bar> + F \<le> BIASP \<longrightarrow> (\<forall>x \<in> set (cd_samples s). honest D F x) \<longrightarrow>
      (if cd_samples s = [] then cd_min1 s = 0x7fffffff \<and> cd_min2 s = 0x7fffffff \<and> cd_min_rtt s = 0x7fffffff
       else (\<exists>f. 0 \<le> f \<and> f \<le> F \<and> cd_min1 s = D + f) \<and> (\<exists>b. 0 \<le> b \<and> b \<le> F \<and> cd_min2 s = b - D)
          \<and> (\<exists>x. near D F x \<and> cd_delta1 s = c_int (c_div x 2))))"

definition cd_res :: "int \<Rightarrow> int \<Rightarrow> int \<Rightarrow> clockdiff \<Rightarrow> bool" where
  "cd_res D F st s \<longleftrightarrow> (st = GOOD \<longrightarrow> \<bar>D\<bar> + F \<le> BIASP \<longrightarrow> (\<forall>x \<in> set (cd_samples s). honest D F x) \<longrightarrow>
      (\<exists>x. near D F x \<and> cd_delta s = c_int (c_div x 2)) \<and> (\<exists>x. near D F x \<and> cd_delta1 s = c_int (c_div x 2)))"

lemma acc_probe: "cd_acc D F s \<Longrightarrow> cd_acc D F (cd_probe ty tv s)"
  by (simp add: cd_acc_def cd_probe_def Let_def)

lemma acc_ack: "cd_acc D F s \<Longrightarrow> cd_acc D F (cd_ack pkt s)"
  by (simp add: cd_acc_def cd_ack_def Let_def)

lemma acc_good:
  assumes "cd_acc D F s" and "cd_samples s \<noteq> []"
  shows "cd_res D F GOOD (cd_good s)"
proof -
  have "near D F (cd_min1 s - cd_min2 s) \<and> (\<exists>x. near D F x \<and> cd_delta1 s = c_int (c_div x 2))"
    if "\<bar>D\<bar> + F \<le> BIASP" "\<forall>x \<in> set (cd_samples s). honest D F x"
    using assms that by (auto simp: cd_acc_def near_def)
  then show ?thesis by (auto simp: cd_res_def cd_good_def)
qed

text \<open>One more honest answer.\<close>

lemma acc_account:
  assumes "cd_acc D F s" and "cd_account st ht ht1 rt (cd_smooth diff s) = (e, s')"
  shows "cd_acc D F s' \<and> cd_samples s' \<noteq> []"
proof -
  define d1 d2 where "d1 = cd_wrap (ht - st)" and "d2 = cd_wrap (rt - ht1)"
  define m where "m = cd_minima d1 d2 (cd_smooth diff s)"
  have sam: "cd_samples s' = cd_samples s @ [(st, ht, ht1, rt)]"
    and cnt: "cd_msgcount s' = cd_msgcount s + 1"
    and mins: "cd_min1 s' = (if e then d1 else cd_min1 m)" "cd_min2 s' = (if e then d2 else cd_min2 m)" "cd_delta1 s' = cd_delta1 m"
    using assms(2) by (auto simp: cd_account_def cd_minima_def cd_smooth_def Let_def d1_def d2_def m_def split: if_splits)
  have m: "cd_min1 m = (if d1 < cd_min1 s then d1 else cd_min1 s)" "cd_min2 m = (if d2 < cd_min2 s then d2 else cd_min2 s)"
    "cd_delta1 m = (if d1 + d2 < cd_min_rtt s then c_int (c_div (d1 - d2) 2) else cd_delta1 s)"
    by (simp_all add: m_def cd_minima_def cd_smooth_def Let_def)
  have "(\<exists>f. 0 \<le> f \<and> f \<le> F \<and> cd_min1 s' = D + f) \<and> (\<exists>b. 0 \<le> b \<and> b \<le> F \<and> cd_min2 s' = b - D)
          \<and> (\<exists>x. near D F x \<and> cd_delta1 s' = c_int (c_div x 2))"
    if DF: "\<bar>D\<bar> + F \<le> BIASP" and h: "\<forall>x \<in> set (cd_samples s'). honest D F x"
  proof -
    have "honest D F (st, ht, ht1, rt)" using h sam by simp
    from honest_deltas [OF this DF] obtain f b where fb: "0 \<le> f" "f \<le> F" "0 \<le> b" "b \<le> F" "d1 = D + f" "d2 = b - D"
      by (auto simp: d1_def d2_def)
    have new: "near D F (d1 - d2)" using fb by (auto simp: near_def)
    have old: "if cd_samples s = [] then cd_min1 s = 0x7fffffff \<and> cd_min2 s = 0x7fffffff \<and> cd_min_rtt s = 0x7fffffff
       else (\<exists>f. 0 \<le> f \<and> f \<le> F \<and> cd_min1 s = D + f) \<and> (\<exists>b. 0 \<le> b \<and> b \<le> F \<and> cd_min2 s = b - D)
          \<and> (\<exists>x. near D F x \<and> cd_delta1 s = c_int (c_div x 2))"
      using assms(1) DF h sam by (auto simp: cd_acc_def)
    have small: "d1 < 0x7fffffff" "d2 < 0x7fffffff" "d1 + d2 < 0x7fffffff" using fb DF by (auto simp: BIASP_def)
    show ?thesis
    proof (cases "cd_samples s = []")
      case True
      then have "cd_min1 s' = d1" "cd_min2 s' = d2" "cd_delta1 s' = c_int (c_div (d1 - d2) 2)"
        using old small by (simp_all add: mins m)
      then show ?thesis using fb new by blast
    next
      case False
      with old have o: "\<exists>f. 0 \<le> f \<and> f \<le> F \<and> cd_min1 s = D + f" "\<exists>b. 0 \<le> b \<and> b \<le> F \<and> cd_min2 s = b - D"
        "\<exists>x. near D F x \<and> cd_delta1 s = c_int (c_div x 2)" by simp_all
      have "cd_min1 s' = d1 \<or> cd_min1 s' = cd_min1 s" by (simp add: mins m)
      then have 1: "\<exists>f. 0 \<le> f \<and> f \<le> F \<and> cd_min1 s' = D + f" using o(1) fb(1,2,5) by metis
      have "cd_min2 s' = d2 \<or> cd_min2 s' = cd_min2 s" by (simp add: mins m)
      then have 2: "\<exists>b. 0 \<le> b \<and> b \<le> F \<and> cd_min2 s' = b - D" using o(2) fb(3,4,6) by metis
      have "cd_delta1 s' = c_int (c_div (d1 - d2) 2) \<or> cd_delta1 s' = cd_delta1 s" by (simp add: mins m)
      then have 3: "\<exists>x. near D F x \<and> cd_delta1 s' = c_int (c_div x 2)" using o(3) new by metis
      show ?thesis using 1 2 3 by (intro conjI)
    qed
  qed
  note mins' = this
  have ne: "cd_samples s' \<noteq> []" by (simp add: sam)
  have "cd_msgcount s' = int (length (cd_samples s'))" using assms(1) by (simp add: cd_acc_def sam cnt)
  then have "cd_acc D F s'" unfolding cd_acc_def if_not_P [OF ne] using mins' by blast
  then show ?thesis using ne by blast
qed

definition cd_fine :: "int \<Rightarrow> int \<Rightarrow> cd_outcome \<Rightarrow> bool" where
  "cd_fine D F r = (case r of Go_on s \<Rightarrow> cd_acc D F s | Return st s \<Rightarrow> cd_res D F st s)"

lemma cd_fine_simps [simp]:
  "cd_fine D F (Go_on s) = cd_acc D F s" "cd_fine D F (Return st s) = cd_res D F st s"
  by (simp_all add: cd_fine_def)

lemma finish_fine:
  assumes "cd_acc D F s"
  shows "cd_fine D F (cd_finish (cd_account st ht ht1 rt (cd_smooth diff s)))"
proof -
  obtain e s' where e: "cd_account st ht ht1 rt (cd_smooth diff s) = (e, s')" by (cases "cd_account st ht ht1 rt (cd_smooth diff s)")
  from acc_account [OF assms e] acc_good [of D F s'] show ?thesis by (cases e) (simp_all add: cd_finish_def e)
qed

lemma res_failed: "st \<noteq> GOOD \<Longrightarrow> cd_res D F st s"
  by (simp add: cd_res_def)

lemma status_codes: "HOSTDOWN \<noteq> GOOD" "UNREACHABLE \<noteq> GOOD" "NONSTDTIME \<noteq> GOOD" "- 1 \<noteq> GOOD"
  by (simp_all add: HOSTDOWN_def UNREACHABLE_def NONSTDTIME_def GOOD_def)

lemma measure_packet_fine: "cd_acc D F s \<Longrightarrow> cd_fine D F (measure_packet tv pkt s)"
  using acc_ack [of D F s pkt] by (simp add: measure_packet_def Let_def finish_fine res_failed status_codes)

lemma measure_opt_packet_fine:
  assumes "cd_acc D F s"
  shows "cd_fine D F (measure_opt_packet len pkt s)"
proof -
  have nonstd: "opt_loop len pkt is ot = Inl st \<Longrightarrow> st = NONSTDTIME" for "is" ot st
    by (induction "is" arbitrary: ot) (auto simp: Let_def split: if_splits)
  show ?thesis
    using assms acc_ack [OF assms, of pkt]
    by (auto simp: measure_opt_packet_def Let_def finish_fine res_failed status_codes dest!: nonstd split: sum.splits)
qed

lemma acc_enough: "cd_acc D F s \<Longrightarrow> MSGS \<le> cd_msgcount s \<Longrightarrow> cd_res D F GOOD (cd_good s)"
  by (rule acc_good) (auto simp: cd_acc_def MSGS_def)

interpretation stamps: cd_loop ICMP_TIMESTAMP measure_packet "cd_acc D F" "cd_res D F" for D F
proof
  show "cd_acc D F s'" if "cd_acc D F s" "measure_packet tv pkt s = Go_on s'" for s tv pkt s'
    using measure_packet_fine [OF that(1), of tv pkt] that(2) by simp
  show "cd_res D F st s'" if "cd_acc D F s" "measure_packet tv pkt s = Return st s'" for s tv pkt st s'
    using measure_packet_fine [OF that(1), of tv pkt] that(2) by simp
qed (simp_all add: acc_probe acc_enough res_failed)

interpretation options: cd_loop ICMP_ECHO "\<lambda>tv. measure_opt_packet len" "cd_acc D F" "cd_res D F" for len D F
proof
  show "cd_acc D F s'" if "cd_acc D F s" "measure_opt_packet len pkt s = Go_on s'" for s tv pkt s'
    using measure_opt_packet_fine [OF that(1), of len pkt] that(2) by simp
  show "cd_res D F st s'" if "cd_acc D F s" "measure_opt_packet len pkt s = Return st s'" for s tv pkt st s'
    using measure_opt_packet_fine [OF that(1), of len pkt] that(2) by simp
qed (simp_all add: acc_probe acc_enough res_failed)

lemma acc_begin: "cd_samples s = [] \<Longrightarrow> cd_acc D F (cd_begin s)"
  by (simp add: cd_acc_def cd_begin_def)

lemma measurement_accurate:
  assumes "cd_measure drain rs s = Some (GOOD, s') \<or> measure_opt len drain rs s = Some (GOOD, s')" and "cd_samples s = []"
    and "\<bar>D\<bar> + F \<le> BIASP" and "\<forall>x \<in> set (cd_samples s'). honest D F x"
  shows "2 * \<bar>cd_delta s' - D\<bar> \<le> F + 1 \<and> 2 * \<bar>cd_delta1 s' - D\<bar> \<le> F + 1"
proof -
  have "cd_res D F GOOD s'"
    using assms(1) stamps.loop_result [OF acc_begin [OF assms(2)]] options.loop_result [OF acc_begin [OF assms(2)]]
    by (auto simp: cd_measure_def measure_opt_def measure_with_def GOOD_def split: if_splits)
  then show ?thesis using assms(3,4) near_half by (auto simp: cd_res_def)
qed

end
