(* ===== verification/Clockdiff_Ends.thy ===== *)
theory Clockdiff_Ends
  imports Clockdiff_Runs
begin

text \<open>
  A measurement of \<^verbatim>\<open>clockdiff\<close> ends: after eleven unanswered probes in a row, or after fifty answers, and so after at most 550
  probes, as long as no answer seems to have come back before its probe left.
\<close>

section \<open>Progress\<close>

text \<open>
  \<open>timely i tv pkt\<close> says of a packet received at \<open>tv\<close> that it is not an answer to the program with identifier \<open>i\<close>, or that it does not
  claim to answer a probe sent later than \<open>tv\<close>; such an answer is counted.
\<close>

locale cd_progress =
  fixes handle :: "timeval \<Rightarrow> octet list \<Rightarrow> clockdiff \<Rightarrow> cd_outcome"
    and timely :: "u16 \<Rightarrow> timeval \<Rightarrow> octet list \<Rightarrow> bool"
  assumes counted: "timely (cd_id s) tv pkt \<Longrightarrow> handle tv pkt s = Go_on s' \<Longrightarrow>
    s' = s \<or> (cd_id s' = cd_id s \<and> cd_seqno s' = cd_seqno s \<and> cd_msgcount s' = cd_msgcount s + 1 \<and> (cd_acked s' = cd_acked s \<or> cd_acked s' \<le> cd_seqno s))"
begin

definition on_course :: "clockdiff \<Rightarrow> bool" where
  "on_course s \<longleftrightarrow> 0 \<le> cd_msgcount s \<and> uint (cd_acked s) \<le> 11 * cd_msgcount s \<and> uint (cd_seqno s) \<le> 11 * cd_msgcount s + 11"

lemma handle_course:
  assumes "on_course s" and "timely (cd_id s) tv pkt" and "handle tv pkt s = Go_on s'"
  shows "on_course s' \<and> cd_seqno s' = cd_seqno s \<and> cd_id s' = cd_id s"
proof -
  have "uint (cd_acked s') \<le> uint (cd_seqno s)" if "cd_acked s' \<le> cd_seqno s"
    using that by (simp add: word_le_def)
  then show ?thesis using counted [OF assms(2,3)] assms(1) by (auto simp: on_course_def)
qed

lemma recv_all_course:
  assumes "on_course s" and "\<forall>(tv, cc, pkt) \<in> set rs. timely (cd_id s) tv pkt" and "recv_all handle rs s = Go_on s'"
  shows "on_course s' \<and> cd_seqno s' = cd_seqno s \<and> cd_id s' = cd_id s"
  using assms
proof (induction rs arbitrary: s)
  case (Cons x rs)
  obtain tv cc pkt where x: "x = (tv, cc, pkt)" by (cases x)
  with Cons.prems(3) obtain s1 where h: "handle tv pkt s = Go_on s1" and r: "recv_all handle rs s1 = Go_on s'"
    by (auto split: if_splits cd_outcome.splits)
  from handle_course [OF Cons.prems(1) _ h] Cons.prems(2) have "on_course s1" "cd_seqno s1 = cd_seqno s" "cd_id s1 = cd_id s" by (auto simp: x)
  with Cons.IH [OF this(1) _ r] Cons.prems(2) show ?case by simp
qed simp

lemma loop_ends:
  assumes "on_course s" and "\<forall>r \<in> set rs. \<forall>(tv, cc, pkt) \<in> set (rn_recv r). timely (cd_id s) tv pkt"
    and "550 \<le> int (length rs) + uint (cd_seqno s)"
  shows "\<exists>st s'. measure_loop ty handle rs s = Some (st, s')"
  using assms
proof (induction rs arbitrary: s)
  case Nil
  have "MSGS \<le> cd_msgcount s \<or> uint (cd_seqno s) - uint (cd_acked s) > TRIALS"
    using Nil(1,3) by (auto simp: on_course_def MSGS_def TRIALS_def)
  then show ?case by (subst measure_loop.simps) auto
next
  case (Cons r rs)
  show ?case
  proof (cases "MSGS \<le> cd_msgcount s \<or> uint (cd_seqno s) - uint (cd_acked s) > TRIALS")
    case True
    then show ?thesis by (subst measure_loop.simps) auto
  next
    case False
    let ?s1 = "cd_probe ty (rn_time r) s"
    have sq: "uint (cd_seqno s) \<le> 549" "uint (cd_seqno s) \<le> 11 * cd_msgcount s + 10"
      using False Cons.prems(1) by (auto simp: on_course_def MSGS_def TRIALS_def)
    then have sq1: "uint (cd_seqno ?s1) = uint (cd_seqno s) + 1"
      by (simp add: cd_probe_def Let_def uint_word_ariths)
    have c1: "on_course ?s1" using Cons.prems(1) sq(2) sq1 by (simp add: on_course_def cd_probe_def Let_def)
    show ?thesis
    proof (cases "rn_sendto r < 0")
      case True
      then show ?thesis using False by (subst measure_loop.simps) (simp add: Let_def)
    next
      case ok: False
      show ?thesis
      proof (cases "recv_all handle (rn_recv r) ?s1")
        case (Return st s2)
        then show ?thesis using False ok by (subst measure_loop.simps) (simp add: Let_def)
      next
        case (Go_on s2)
        have id1: "cd_id ?s1 = cd_id s" by (simp add: cd_probe_def Let_def)
        have s2: "on_course s2" "cd_seqno s2 = cd_seqno ?s1" "cd_id s2 = cd_id s"
          using recv_all_course [OF c1 _ Go_on] Cons.prems(2) by (simp_all add: id1)
        have "\<exists>st s'. measure_loop ty handle rs s2 = Some (st, s')"
          by (rule Cons.IH [OF s2(1)]) (use Cons.prems(2,3) s2(2,3) sq1 in simp_all)
        moreover have "measure_loop ty handle (r # rs) s = measure_loop ty handle rs s2"
          using False ok Go_on by (subst measure_loop.simps) (simp add: Let_def)
        ultimately show ?thesis by simp
      qed
    qed
  qed
qed

lemma course_begin: "on_course (cd_begin s)"
  by (simp add: on_course_def cd_begin_def)

end

definition timely_stamp :: "u16 \<Rightarrow> timeval \<Rightarrow> octet list \<Rightarrow> bool" where
  "timely_stamp i tv pkt \<longleftrightarrow> (pkt ! icmp_at pkt = ICMP_TIMESTAMPREPLY \<and> le16_at pkt (icmp_at pkt + 4) = i \<longrightarrow>
     be32_at pkt (icmp_at pkt + 8) \<le> ms_of_day tv)"

definition timely_option :: "int \<Rightarrow> u16 \<Rightarrow> timeval \<Rightarrow> octet list \<Rightarrow> bool" where
  "timely_option len i tv pkt \<longleftrightarrow>
    (pkt ! icmp_at pkt = ICMP_ECHOREPLY \<and> le16_at pkt (icmp_at pkt + 4) = i \<and> pkt ! 20 = IPOPT_TIMESTAMP \<longrightarrow>
     (case opt_loop len pkt [0..<opt_entries pkt] \<lparr>ot_send = 0, ot_his = 0, ot_his1 = 0, ot_recv = 0\<rparr> of
       Inl _ \<Rightarrow> True | Inr ot \<Rightarrow> ot_send ot \<le> ot_recv ot))"

lemma account_keeps:
  "cd_account st ht ht1 rt (cd_smooth diff s) = (e, s') \<Longrightarrow>
   cd_id s' = cd_id s \<and> cd_seqno s' = cd_seqno s \<and> cd_msgcount s' = cd_msgcount s + 1 \<and> cd_acked s' = cd_acked s \<and> cd_log s' = cd_log s"
  by (auto simp: cd_account_def cd_minima_def cd_smooth_def Let_def split: if_splits)

lemma finish_go:
  assumes "cd_finish (cd_account st ht ht1 rt (cd_smooth diff s)) = Go_on s'"
  shows "cd_id s' = cd_id s \<and> cd_seqno s' = cd_seqno s \<and> cd_msgcount s' = cd_msgcount s + 1 \<and> cd_acked s' = cd_acked s \<and> cd_log s' = cd_log s"
  using assms account_keeps [of st ht ht1 rt diff s]
  by (cases "cd_account st ht ht1 rt (cd_smooth diff s)") (auto simp: cd_finish_def split: if_splits)

lemma ack_keeps:
  assumes "cd_ours ty pkt s"
  shows "cd_id (cd_ack pkt s) = cd_id s" "cd_seqno (cd_ack pkt s) = cd_seqno s" "cd_msgcount (cd_ack pkt s) = cd_msgcount s"
    and "cd_acked (cd_ack pkt s) = cd_acked s \<or> cd_acked (cd_ack pkt s) \<le> cd_seqno s"
  using assms by (auto simp: cd_ack_def cd_ours_def Let_def)

interpretation stamp_run: cd_progress measure_packet timely_stamp
proof
  fix tv pkt s s'
  assume t: "timely_stamp (cd_id s) tv pkt" and h: "measure_packet tv pkt s = Go_on s'"
  show "s' = s \<or> (cd_id s' = cd_id s \<and> cd_seqno s' = cd_seqno s \<and> cd_msgcount s' = cd_msgcount s + 1 \<and> (cd_acked s' = cd_acked s \<or> cd_acked s' \<le> cd_seqno s))"
  proof (cases "cd_ours ICMP_TIMESTAMPREPLY pkt s")
    case True
    then show ?thesis using t h ack_keeps [OF True]
      by (auto simp: measure_packet_def timely_stamp_def cd_ours_def Let_def split: if_splits dest!: finish_go)
  next
    case False
    then show ?thesis using h by (simp add: measure_packet_def)
  qed
qed

interpretation option_run: cd_progress "\<lambda>tv. measure_opt_packet len" "timely_option len" for len
proof
  fix tv :: timeval and pkt s s'
  assume t: "timely_option len (cd_id s) tv pkt" and h: "measure_opt_packet len pkt s = Go_on s'"
  show "s' = s \<or> (cd_id s' = cd_id s \<and> cd_seqno s' = cd_seqno s \<and> cd_msgcount s' = cd_msgcount s + 1 \<and> (cd_acked s' = cd_acked s \<or> cd_acked s' \<le> cd_seqno s))"
  proof (cases "cd_ours ICMP_ECHOREPLY pkt s \<and> pkt ! 20 = IPOPT_TIMESTAMP")
    case True
    then have o: "cd_ours ICMP_ECHOREPLY pkt s" by simp
    show ?thesis using True t h ack_keeps [OF o]
      by (auto simp: measure_opt_packet_def timely_option_def cd_ours_def Let_def split: if_splits sum.splits dest!: finish_go)
  next
    case False
    then show ?thesis using h by (simp add: measure_opt_packet_def)
  qed
qed

text \<open>Rounds after the end of a measurement do not matter.\<close>

lemma measure_loop_more: "measure_loop ty handle rs s = Some x \<Longrightarrow> measure_loop ty handle (rs @ qs) s = Some x"
proof (induction rs arbitrary: s)
  case Nil
  then show ?case by (subst measure_loop.simps) (subst (asm) measure_loop.simps, auto split: if_splits)
next
  case (Cons r rs)
  show ?case using Cons.prems Cons.IH
    by (subst measure_loop.simps) (subst (asm) measure_loop.simps, auto simp: Let_def split: if_splits cd_outcome.splits)
qed

lemma measurement_ends:
  assumes "550 \<le> length rs"
  shows "\<forall>r \<in> set rs. \<forall>(tv, cc, pkt) \<in> set (rn_recv r). timely_stamp (cd_id s) tv pkt \<Longrightarrow>
      \<exists>st s'. cd_measure drain (take 550 rs) s = Some (st, s') \<and> cd_measure drain rs s = Some (st, s')"
    and "\<forall>r \<in> set rs. \<forall>(tv, cc, pkt) \<in> set (rn_recv r). timely_option len (cd_id s) tv pkt \<Longrightarrow>
      \<exists>st s'. measure_opt len drain (take 550 rs) s = Some (st, s') \<and> measure_opt len drain rs s = Some (st, s')"
proof -
  define t where "t = take 550 rs"
  have t: "rs = t @ drop 550 rs" "set t \<subseteq> set rs" by (simp_all add: t_def set_take_subset)
  have n: "550 \<le> int (length t) + uint (cd_seqno (cd_begin s))" using assms by (simp add: cd_begin_def t_def)
  have more: "\<exists>st s'. measure_with ty handle drain t s = Some (st, s') \<and> measure_with ty handle drain rs s = Some (st, s')"
    if "\<exists>st s'. measure_loop ty handle t (cd_begin s) = Some (st, s')" for ty handle
    using that measure_loop_more [of ty handle t "cd_begin s" _ "drop 550 rs"] t(1) by (auto simp: measure_with_def)
  have i: "cd_id (cd_begin s) = cd_id s" by (simp add: cd_begin_def)
  show "\<exists>st s'. cd_measure drain (take 550 rs) s = Some (st, s') \<and> cd_measure drain rs s = Some (st, s')"
    if h: "\<forall>r \<in> set rs. \<forall>(tv, cc, pkt) \<in> set (rn_recv r). timely_stamp (cd_id s) tv pkt"
  proof -
    have "\<forall>r \<in> set t. \<forall>(tv, cc, pkt) \<in> set (rn_recv r). timely_stamp (cd_id (cd_begin s)) tv pkt" using h t(2) i by auto
    from stamp_run.loop_ends [OF stamp_run.course_begin this n] show ?thesis
      unfolding cd_measure_def t_def [symmetric] by (intro more) blast
  qed
  show "\<exists>st s'. measure_opt len drain (take 550 rs) s = Some (st, s') \<and> measure_opt len drain rs s = Some (st, s')"
    if h: "\<forall>r \<in> set rs. \<forall>(tv, cc, pkt) \<in> set (rn_recv r). timely_option len (cd_id s) tv pkt"
  proof -
    have "\<forall>r \<in> set t. \<forall>(tv, cc, pkt) \<in> set (rn_recv r). timely_option len (cd_id (cd_begin s)) tv pkt" using h t(2) i by auto
    from option_run.loop_ends [OF option_run.course_begin this n] show ?thesis
      unfolding measure_opt_def t_def [symmetric] by (intro more) blast
  qed
qed

section \<open>A silent host\<close>

text \<open>No answer of ours arrives: the packets of every round are ignored.\<close>

definition silent_round :: "cd_round \<Rightarrow> bool" where
  "silent_round r \<longleftrightarrow> 0 \<le> rn_sendto r \<and> (\<forall>(tv, cc, pkt) \<in> set (rn_recv r). 0 \<le> cc \<and> pkt ! icmp_at pkt \<noteq> ICMP_TIMESTAMPREPLY)"

lemma silent_recv:
  "\<forall>(tv, cc, pkt) \<in> set rs. 0 \<le> cc \<and> pkt ! icmp_at pkt \<noteq> ICMP_TIMESTAMPREPLY \<Longrightarrow> recv_all measure_packet rs s = Go_on s"
  by (induction rs) (auto simp: measure_packet_def cd_ours_def)

lemma silent_loop:
  assumes "\<forall>r \<in> set rs. silent_round r" and "cd_msgcount s = 0" and "cd_acked s = 0" and "uint (cd_seqno s) \<le> 11"
    and "11 \<le> int (length rs) + uint (cd_seqno s)"
  shows "\<exists>s'. measure_loop ICMP_TIMESTAMP measure_packet rs s = Some (HOSTDOWN, s')
    \<and> length (cd_log s') = length (cd_log s) + nat (11 - uint (cd_seqno s))"
  using assms
proof (induction rs arbitrary: s)
  case Nil
  then show ?case by (subst measure_loop.simps) (simp add: MSGS_def TRIALS_def)
next
  case (Cons r rs)
  show ?case
  proof (cases "uint (cd_seqno s) = 11")
    case True
    then show ?thesis using Cons.prems(2,3) by (subst measure_loop.simps) (simp add: MSGS_def TRIALS_def)
  next
    case False
    let ?s1 = "cd_probe ICMP_TIMESTAMP (rn_time r) s"
    have sq: "uint (cd_seqno s) \<le> 10" "0 \<le> uint (cd_seqno s)" using False Cons.prems(4) by simp_all
    then have sq1: "uint (cd_seqno ?s1) = uint (cd_seqno s) + 1" by (simp add: cd_probe_def Let_def uint_word_ariths)
    have k1: "cd_msgcount ?s1 = 0" "cd_acked ?s1 = 0" "length (cd_log ?s1) = length (cd_log s) + 1"
      using Cons.prems(2,3) by (simp_all add: cd_probe_def Let_def)
    have r: "0 \<le> rn_sendto r" "recv_all measure_packet (rn_recv r) ?s1 = Go_on ?s1"
      using Cons.prems(1) silent_recv [of "rn_recv r" ?s1] by (simp_all add: silent_round_def)
    have "measure_loop ICMP_TIMESTAMP measure_packet (r # rs) s = measure_loop ICMP_TIMESTAMP measure_packet rs ?s1"
      using Cons.prems(2,3) sq r by (subst measure_loop.simps) (simp add: Let_def MSGS_def TRIALS_def)
    moreover have "\<exists>s'. measure_loop ICMP_TIMESTAMP measure_packet rs ?s1 = Some (HOSTDOWN, s')
      \<and> length (cd_log s') = length (cd_log ?s1) + nat (11 - uint (cd_seqno ?s1))"
      by (rule Cons.IH) (use Cons.prems k1 sq sq1 in simp_all)
    ultimately show ?thesis using sq sq1 k1(3) by auto
  qed
qed

end
