(* ===== verification/Clockdiff_Properties.thy ===== *)
theory Clockdiff_Properties
  imports Clockdiff_Ends
begin

text \<open>The properties of \<^verbatim>\<open>clockdiff\<close>, each with a small run.\<close>

section \<open>Packets for the runs\<close>

text \<open>An answer with identifier 7 and sequence number 1, behind an IP header without options.\<close>

definition demo_stamp :: "int \<Rightarrow> int \<Rightarrow> octet list" where
  "demo_stamp st ht = [0x45] @ replicate 19 0 @ [14, 0, 0, 0, 7, 0, 1, 0]
     @ be32_bytes (word_of_int st) @ be32_bytes (word_of_int ht) @ be32_bytes (word_of_int ht)"

definition demo_round :: "(timeval \<times> int \<times> octet list) list \<Rightarrow> cd_round" where
  "demo_round rs = \<lparr>rn_time = (1000, 0), rn_sendto = 20, rn_recv = rs\<rparr>"

text \<open>An echo reply with the four-term option: identifier 7, sequence number 1.\<close>

definition demo_option :: "int \<Rightarrow> int \<Rightarrow> int \<Rightarrow> int \<Rightarrow> octet list" where
  "demo_option t0 t1 t2 t3 = [0x4e] @ replicate 19 0 @ [68, 36, 37, 3]
     @ replicate 4 0 @ be32_bytes (word_of_int t0) @ replicate 4 0 @ be32_bytes (word_of_int t1)
     @ replicate 4 0 @ be32_bytes (word_of_int t2) @ replicate 4 0 @ be32_bytes (word_of_int t3)
     @ [0, 0, 0, 0, 7, 0, 1, 0]"

text \<open>
  The test for missing time stamps of the option combines them bit by bit: four good stamps, a few milliseconds after
  midnight here, are refused when they have no bit in common.
\<close>

lemma good_stamps_refused:
  "measure_opt_packet 36 (demo_option 4 9 9 6) ((cd_start 7)\<lparr>cd_seqno := 1\<rparr>) = Return (-1) ((cd_start 7)\<lparr>cd_seqno := 1, cd_acked := 1\<rparr>)"
  "case measure_opt_packet 36 (demo_option 4 12 12 6) ((cd_start 7)\<lparr>cd_seqno := 1\<rparr>) of Go_on s \<Rightarrow> True | Return st s \<Rightarrow> False"
  by code_simp+

section \<open>Accuracy\<close>

text \<open>
  C4. The difference \<^verbatim>\<open>clockdiff\<close> reports is the difference of the clocks. If the other clock is \<open>D\<close> milliseconds ahead and every
  answer that was counted carries honest times of day, with delays of at most \<open>F\<close> milliseconds each way, then both numbers of the
  report are within half of \<open>F\<close> (and the rounding) of \<open>D\<close>; this holds for both kinds of probes, across midnight,
  as long as \<open>D\<close> and \<open>F\<close> together stay below twelve hours.
\<close>

theorem clockdiff_accuracy:
  assumes "cd_measure drain rs s = Some (GOOD, s') \<or> measure_opt len drain rs s = Some (GOOD, s')" and "cd_samples s = []"
    and "\<bar>D\<bar> + F \<le> BIASP" and "\<forall>x \<in> set (cd_samples s'). honest D F x"
  shows "cd_report (GOOD, s') = (0, Some (cd_delta s', cd_delta1 s'))
    \<and> 2 * \<bar>cd_delta s' - D\<bar> \<le> F + 1 \<and> 2 * \<bar>cd_delta1 s' - D\<bar> \<le> F + 1"
  using measurement_accurate [OF assms] by (simp add: cd_report_def GOOD_def HOSTDOWN_def NONSTDTIME_def UNREACHABLE_def)

theorem clockdiff_accuracy_witness:
  "\<exists>s'. cd_measure [] [demo_round [((1000, 0), 40, demo_stamp 1000000 1005000)]] (cd_start 7) = Some (GOOD, s')
     \<and> 2 * \<bar>cd_delta s' - 5000\<bar> \<le> 0 + 1 \<and> 2 * \<bar>cd_delta1 s' - 5000\<bar> \<le> 0 + 1"
proof -
  define r where "r = cd_measure [] [demo_round [((1000, 0), 40, demo_stamp 1000000 1005000)]] (cd_start 7)"
  have st: "map_option fst r = Some GOOD" unfolding r_def by code_simp
  have sm: "map_option (\<lambda>(c, s). cd_samples s) r = Some [(1000000, 1005000, 1005000, 1000000)]" unfolding r_def by code_simp
  obtain s' where r: "r = Some (GOOD, s')" using st by (cases r) auto
  then have "cd_samples s' = [(1000000, 1005000, 1005000, 1000000)]" using sm by simp
  moreover have "honest 5000 0 (1000000, 1005000, 1005000, 1000000)"
    unfolding honest_def MODULO_def by (rule exI [of _ 1000000], rule exI [of _ 0], rule exI [of _ 0], rule exI [of _ 0]) simp
  ultimately show ?thesis
    using clockdiff_accuracy [of "[]" "[demo_round [((1000, 0), 40, demo_stamp 1000000 1005000)]]" "cd_start 7" s' 0 5000 0] r
    by (simp add: r_def cd_start_def BIASP_def)
qed

section \<open>The end of a measurement\<close>

text \<open>
  C35. A measurement ends. For both kinds of probes the function returns within the first 550 probes, whatever answers are
  lost, repeated or reordered and whatever unrelated packets arrive, under two conditions: each wait for packets ends (a round of
  the model has finitely many), and no answer to a probe of this program carries a send time later than the time it is received (as
  one can around midnight, or when it was tampered with: such an answer is acknowledged but not counted). The sequence number
  of sixteen bits does not wrap around on the way.
\<close>

theorem clockdiff_terminates:
  assumes "550 \<le> length rs"
  shows "((\<forall>r \<in> set rs. \<forall>(tv, cc, pkt) \<in> set (rn_recv r). timely_stamp (cd_id s) tv pkt) \<longrightarrow>
      (\<exists>st s'. cd_measure drain (take 550 rs) s = Some (st, s') \<and> cd_measure drain rs s = Some (st, s')))
    \<and> ((\<forall>r \<in> set rs. \<forall>(tv, cc, pkt) \<in> set (rn_recv r). timely_option len (cd_id s) tv pkt) \<longrightarrow>
      (\<exists>st s'. measure_opt len drain (take 550 rs) s = Some (st, s') \<and> measure_opt len drain rs s = Some (st, s')))"
  using measurement_ends [OF assms] by blast

text \<open>
  In every round of the first run an answer that took five milliseconds arrives, which is counted, and one to another program with a
  send time in the future; likewise with the option in the second run.
\<close>

definition demo_answers :: "(timeval \<times> int \<times> octet list) list" where
  "demo_answers = [((1000, 5000), 40, demo_stamp 1000000 1005000), ((1000, 0), 40, (demo_stamp 2000000 0)[24 := 8])]"

definition demo_opt_answers :: "(timeval \<times> int \<times> octet list) list" where
  "demo_opt_answers = [((1000, 5000), 64, demo_option 4 12 12 6), ((1000, 0), 64, (demo_option 9 12 12 6)[60 := 8])]"

lemma demo_answers_timely:
  "\<forall>(tv, cc, pkt) \<in> set demo_answers. timely_stamp 7 tv pkt" "\<forall>(tv, cc, pkt) \<in> set demo_opt_answers. timely_option 36 7 tv pkt"
  by code_simp+

lemma demo_answers_counted:
  "case recv_all measure_packet demo_answers ((cd_start 7)\<lparr>cd_seqno := 1\<rparr>) of Go_on s \<Rightarrow> cd_msgcount s = 1 | Return st s \<Rightarrow> False"
  "case recv_all (\<lambda>tv. measure_opt_packet 36) demo_opt_answers ((cd_start 7)\<lparr>cd_seqno := 1\<rparr>) of Go_on s \<Rightarrow> cd_msgcount s = 1 | Return st s \<Rightarrow> False"
  by code_simp+

theorem clockdiff_terminates_witness:
  "(\<exists>st s'. cd_measure [] (replicate 550 (demo_round demo_answers)) (cd_start 7) = Some (st, s'))
   \<and> (\<exists>st s'. measure_opt 36 [] (replicate 550 (demo_round demo_opt_answers)) (cd_start 7) = Some (st, s'))"
proof
  have i: "cd_id (cd_start 7) = 7" by (simp add: cd_start_def)
  show "\<exists>st s'. cd_measure [] (replicate 550 (demo_round demo_answers)) (cd_start 7) = Some (st, s')"
    using clockdiff_terminates [of "replicate 550 (demo_round demo_answers)" "cd_start 7" "[]"] demo_answers_timely(1)
    by (auto simp: demo_round_def i)
  show "\<exists>st s'. measure_opt 36 [] (replicate 550 (demo_round demo_opt_answers)) (cd_start 7) = Some (st, s')"
    using clockdiff_terminates [of "replicate 550 (demo_round demo_opt_answers)" "cd_start 7" "[]" 36] demo_answers_timely(2)
    by (auto simp: demo_round_def i)
qed

text \<open>
  A silent host is reported as down: if no time-stamp reply arrives, whatever else does, the program sends eleven probes, one more than
  the limit of ten says, and ends with status 1 and no difference.
\<close>

theorem clockdiff_host_down:
  assumes "\<forall>r \<in> set rs. silent_round r" and "11 \<le> length rs" and "\<forall>cc \<in> set drain. 0 \<le> cc"
  shows "\<exists>s'. cd_measure drain rs s = Some (HOSTDOWN, s') \<and> length (cd_log s') = length (cd_log s) + 11
    \<and> cd_report (HOSTDOWN, s') = (1, None)"
proof -
  have "\<exists>s'. measure_loop ICMP_TIMESTAMP measure_packet rs (cd_begin s) = Some (HOSTDOWN, s')
    \<and> length (cd_log s') = length (cd_log (cd_begin s)) + nat (11 - uint (cd_seqno (cd_begin s)))"
    by (rule silent_loop [OF assms(1)]) (use assms(2) in \<open>simp_all add: cd_begin_def\<close>)
  moreover have "\<not> (\<exists>cc \<in> set drain. cc < 0)" using assms(3) by force
  ultimately show ?thesis by (auto simp: cd_measure_def measure_with_def cd_begin_def cd_report_def)
qed

theorem clockdiff_host_down_witness:
  "\<exists>s'. cd_measure [] (replicate 11 (demo_round [])) (cd_start 7) = Some (HOSTDOWN, s') \<and> length (cd_log s') = 11"
  using clockdiff_host_down [of "replicate 11 (demo_round [])" "[]" "cd_start 7"] by (auto simp: demo_round_def silent_round_def cd_start_def)

section \<open>Checksum\<close>

text \<open>
  The checksum of \<^verbatim>\<open>clockdiff\<close>, which adds the carry back after every word, is the one \<^verbatim>\<open>ping\<close> computes with a single fold at the
  end, for every packet up to 65534 bytes; and every probe it sends verifies.
\<close>

theorem tahoe_checksum_equivalent:
  assumes "length bs \<le> 65534" and "ty \<noteq> 0"
  shows "tahoe_cksum bs = in_cksum bs 0 \<and> in_cksum (ts_request ty i sq t) 0 = 0"
  using tahoe_is_in_cksum [OF assms(1)] ts_request_verifies [OF assms(2)] by blast

theorem tahoe_checksum_equivalent_witness:
  "tahoe_cksum [255, 255, 1, 2, 3] = in_cksum [255, 255, 1, 2, 3] 0 \<and> in_cksum (ts_request ICMP_TIMESTAMP 7 1 1000000) 0 = 0"
  using tahoe_checksum_equivalent [of "[255, 255, 1, 2, 3]" ICMP_TIMESTAMP 7 1 1000000] by (simp add: ICMP_TIMESTAMP_def)

end
