(* ===== verification/Rarpd_Daemon.thy ===== *)
theory Rarpd_Daemon
  imports Arping_Device Arping_Frames
begin

text \<open>
  The daemon of \<^verbatim>\<open>src/iputils-ns/rarpd.c\<close>: its table of links and addresses (\<^verbatim>\<open>load_if\<close>), the choice of an address for a
  client (\<^verbatim>\<open>select_ipaddr\<close>, \<^verbatim>\<open>bootable\<close>, \<^verbatim>\<open>rarp_lookup\<close>), the answer (\<^verbatim>\<open>serve_it\<close>) and \<^verbatim>\<open>main\<close>. The answers of the system, of
  \<^verbatim>\<open>/etc/ethers\<close> and of the resolver are arguments. What is only logged is left out, except where logging writes to memory.
\<close>

section \<open>Data\<close>

definition ARPOP_RREQUEST :: u16 where "ARPOP_RREQUEST = 3"
definition ARPOP_RREPLY :: u16 where "ARPOP_RREPLY = 4"
definition ARPHRD_IEEE802 :: u16 where "ARPHRD_IEEE802 = 6"

record ifaddr =
  fa_prefix :: ip
  fa_mask :: ip
  fa_local :: ip

record iflink =
  il_index :: int
  il_hatype :: u16
  il_lladdr :: "octet list"
  il_name :: string
  il_ifas :: "ifaddr list"

record rarp_map =
  rm_ifindex :: int
  rm_arp_type :: int
  rm_lladdr :: "octet list"
  rm_ipaddr :: ip

datatype rp_status = Rp_running | Rp_fault

text \<open>
  \<open>rp_sent\<close> is what was passed to \<^verbatim>\<open>sendto\<close>, with the link-layer address it goes to; \<open>rp_arp\<close> the entries requested for the
  kernel's ARP table.
\<close>

record rarpd =
  rp_verbose :: bool
  rp_ifidx :: int
  rp_offlink :: bool
  rp_only_ethers :: bool
  rp_tftp_dir :: string
  rp_reload :: bool
  rp_links :: "iflink list"
  rp_db :: "rarp_map list"
  rp_sent :: "(octet list \<times> sll) list"
  rp_arp :: "(string \<times> u16 \<times> octet list \<times> ip) list"
  rp_status :: rp_status

section \<open>Links and addresses\<close>

text \<open>
  An entry of \<^verbatim>\<open>SIOCGIFCONF\<close> with the answers to the requests made for it: index, hardware type and address, mask, and the other
  end (which is the address itself on a broadcast link). \<open>in_mem\<close>: whether a new link can be allocated.
\<close>

record ifreq_env =
  in_name :: string
  in_family :: int
  in_addr :: ip
  in_index :: "int option"
  in_hwaddr :: "(u16 \<times> octet list) option"
  in_mem :: bool
  in_mask :: "ip option"
  in_dst :: "ip option"

definition find_link :: "int \<Rightarrow> iflink list \<Rightarrow> iflink option" where
  "find_link i ls = List.find (\<lambda>l. il_index l = i) ls"

definition new_link :: "int \<Rightarrow> u16 \<Rightarrow> octet list \<Rightarrow> string \<Rightarrow> iflink" where
  "new_link i hatype hw nm =
    \<lparr>il_index = i, il_hatype = hatype, il_lladdr = take 14 hw @ replicate (16 - length (take 14 hw)) 0,
     il_name = takeWhile (\<lambda>c. c \<noteq> CHR '':'') (take 16 nm), il_ifas = []\<rparr>"

definition add_ifaddr :: "int \<Rightarrow> ifaddr \<Rightarrow> iflink list \<Rightarrow> iflink list" where
  "add_ifaddr i a ls = upd_first (\<lambda>l. il_index l = i)
     (\<lambda>l. [if a \<in> set (il_ifas l) \<or> fa_mask a = 0 \<or> fa_prefix a = 0 then l else l\<lparr>il_ifas := a # il_ifas l\<rparr>]) ls"

definition load_link :: "int \<Rightarrow> ifreq_env \<Rightarrow> iflink list \<Rightarrow> iflink list option" where
  "load_link i q ls =
    (case find_link i ls of
       Some l \<Rightarrow> Some ls
     | None \<Rightarrow> (case in_hwaddr q of
           None \<Rightarrow> None
         | Some (ty, hw) \<Rightarrow> (if in_mem q then Some (new_link i ty hw (in_name q) # ls) else None)))"

definition load_entry :: "int \<Rightarrow> ifreq_env \<Rightarrow> iflink list \<Rightarrow> iflink list" where
  "load_entry ifidx q ls =
    (if in_family q \<noteq> 2 \<or> in_addr q = 0 then ls
     else case in_index q of
       None \<Rightarrow> ls
     | Some i \<Rightarrow>
         (if ifidx \<noteq> 0 \<and> i \<noteq> ifidx then ls
          else case load_link i q ls of
            None \<Rightarrow> ls
          | Some ls1 \<Rightarrow>
              (case (in_mask q, in_dst q) of
                 (Some m, Some p) \<Rightarrow> add_ifaddr i \<lparr>fa_prefix = p, fa_mask = m, fa_local = in_addr q\<rparr> ls1
               | _ \<Rightarrow> ls1)))"

text \<open>\<open>conf\<close>: the entries, at most 256 of them; \<open>None\<close> if the socket or the request fails or the list is empty.\<close>

definition load_if :: "ifreq_env list option \<Rightarrow> rarpd \<Rightarrow> rarpd" where
  "load_if conf s =
    (case conf of
       None \<Rightarrow> s
     | Some qs \<Rightarrow> (if qs = [] then s else s\<lparr>rp_links := fold (load_entry (rp_ifidx s)) (take 256 qs) []\<rparr>))"

definition load_db :: "rarpd \<Rightarrow> rarpd" where
  "load_db s = s"

definition configure :: "ifreq_env list option \<Rightarrow> rarpd \<Rightarrow> rarpd" where
  "configure conf s = load_db (load_if conf s)"

section \<open>The address of a client\<close>

text \<open>The name of a boot image starts with the address in hexadecimal; \<open>dir\<close> is what \<^verbatim>\<open>readdir\<close> gives, \<open>None\<close> if it cannot be opened.\<close>

definition boot_name :: "ip \<Rightarrow> string" where
  "boot_name a = concat (map (\<lambda>b. [hex_digit (unat b div 16), hex_digit (unat b mod 16)]) (le32_bytes a))"

definition bootable :: "string list option \<Rightarrow> ip \<Rightarrow> bool" where
  "bootable dir a = (case dir of None \<Rightarrow> False | Some fs \<Rightarrow> \<exists>f \<in> set fs. take 8 f = boot_name a)"

definition on_link :: "iflink \<Rightarrow> ip \<Rightarrow> bool" where
  "on_link l a \<longleftrightarrow> (\<exists>f \<in> set (il_ifas l). (fa_prefix f XOR a) AND fa_mask f = 0)"

datatype selection = Sel_addr ip | Sel_reload | Sel_none

fun select_scan :: "bool \<Rightarrow> iflink \<Rightarrow> ip list \<Rightarrow> selection" where
  "select_scan retry l [] = Sel_none"
| "select_scan retry l (a # alist) =
    (if on_link l a then Sel_addr a else if \<not> retry then Sel_reload else select_scan retry l alist)"

definition select_pass :: "bool \<Rightarrow> int \<Rightarrow> ip list \<Rightarrow> rarpd \<Rightarrow> selection" where
  "select_pass retry i alist s =
    (case find_link i (rp_links s) of
       None \<Rightarrow> (if retry then Sel_none else Sel_reload)
     | Some l \<Rightarrow>
         (case select_scan retry l alist of
            Sel_none \<Rightarrow> (if length alist = 1 \<and> rp_offlink s \<and> il_ifas l \<noteq> [] then Sel_addr (hd alist) else Sel_none)
          | r \<Rightarrow> r))"

definition select_ipaddr :: "ifreq_env list option \<Rightarrow> int \<Rightarrow> ip list \<Rightarrow> rarpd \<Rightarrow> ip option \<times> rarpd" where
  "select_ipaddr conf i alist s =
    (case select_pass False i alist s of
       Sel_addr a \<Rightarrow> (Some a, s)
     | Sel_none \<Rightarrow> (None, s)
     | Sel_reload \<Rightarrow>
         (let s1 = load_if conf s in
          case select_pass True i alist s1 of Sel_addr a \<Rightarrow> (Some a, s1) | _ \<Rightarrow> (None, s1)))"

text \<open>
  What the lookup relies on: \<^verbatim>\<open>ether_ntohost\<close>, \<^verbatim>\<open>gethostbyname\<close> (the family and the list of addresses), the boot directory and the
  interfaces.
\<close>

record lookup_env =
  lk_ethers :: "octet list \<Rightarrow> string option"
  lk_host :: "string \<Rightarrow> (int \<times> ip list) option"
  lk_dir :: "string \<Rightarrow> string list option"
  lk_conf :: "ifreq_env list option"

definition db_match :: "int \<Rightarrow> u16 \<Rightarrow> octet list \<Rightarrow> rarp_map \<Rightarrow> bool" where
  "db_match i hatype hw r \<longleftrightarrow> (rm_arp_type r = uint hatype \<or> rm_arp_type r = -1) \<and> length (rm_lladdr r) = length hw
     \<and> (rm_ifindex r = i \<or> rm_ifindex r = 0) \<and> rm_lladdr r = hw"

definition ethers_lookup :: "lookup_env \<Rightarrow> int \<Rightarrow> octet list \<Rightarrow> rarpd \<Rightarrow> rarp_map option \<times> rarpd" where
  "ethers_lookup K i hw s =
    (case (case lk_ethers K hw of None \<Rightarrow> None | Some nm \<Rightarrow> lk_host K nm) of
       None \<Rightarrow> (None, s)
     | Some (fam, alist) \<Rightarrow>
         (if fam \<noteq> 2 then (None, s)
          else case select_ipaddr (lk_conf K) i alist s of
            (None, s1) \<Rightarrow> (None, s1)
          | (Some a, s1) \<Rightarrow>
              (if rp_only_ethers s1 \<or> bootable (lk_dir K (rp_tftp_dir s1)) a
               then (Some \<lparr>rm_ifindex = 0, rm_arp_type = uint ARPHRD_ETHER, rm_lladdr = hw, rm_ipaddr = a\<rparr>, s1) else (None, s1))))"

definition rarp_lookup :: "lookup_env \<Rightarrow> int \<Rightarrow> u16 \<Rightarrow> octet list \<Rightarrow> rarpd \<Rightarrow> rarp_map option \<times> rarpd" where
  "rarp_lookup K i hatype hw s =
    (case List.find (db_match i hatype hw) (rp_db s) of
       Some r \<Rightarrow> (Some r, s)
     | None \<Rightarrow> (if hatype = ARPHRD_ETHER \<and> length hw = 6 then ethers_lookup K i hw s else (None, s)))"

section \<open>An answer\<close>

definition my_ipaddr :: "iflink \<Rightarrow> ip \<Rightarrow> ip" where
  "my_ipaddr l his = (case List.find (\<lambda>f. (fa_prefix f XOR his) AND fa_mask f = 0) (il_ifas l) of None \<Rightarrow> 0 | Some f \<Rightarrow> fa_local f)"

text \<open>The bytes \<open>n\<close> of \<open>xs\<close> from \<open>k\<close> on are replaced by \<open>ys\<close>.\<close>

definition splice :: "nat \<Rightarrow> octet list \<Rightarrow> octet list \<Rightarrow> octet list" where
  "splice k ys xs = take k xs @ ys @ drop (k + length ys) xs"

definition arp_advise :: "int \<Rightarrow> octet list \<Rightarrow> ip \<Rightarrow> rarpd \<Rightarrow> rarpd" where
  "arp_advise i hw a s =
    (case find_link i (rp_links s) of
       None \<Rightarrow> s
     | Some l \<Rightarrow> s\<lparr>rp_arp := rp_arp s @ [(il_name l, il_hatype l, hw, a)]\<rparr>)"

text \<open>The checks of a request: \<open>a\<close> is the header, \<open>n\<close> the length of the packet.\<close>

definition rarp_sane :: "octet list \<Rightarrow> int \<Rightarrow> sll \<Rightarrow> bool" where
  "rarp_sane a n sll \<longleftrightarrow>
     a ! 5 = 4 \<and> hdr16 a 2 = ETH_P_IP
   \<and> (hdr16 a 0 = sll_hatype sll \<or> (sll_hatype sll = ARPHRD_FDDI \<and> hdr16 a 0 \<in> {ARPHRD_ETHER, ARPHRD_IEEE802}))
   \<and> a ! 4 = sll_halen sll
   \<and> int (8 + 2 * 4 + 2 * unat (a ! 4)) \<le> n"

text \<open>The reply: our addresses as source, the address found as target; everything else stays as it was received.\<close>

definition rarp_reply :: "octet list \<Rightarrow> rarp_map \<Rightarrow> iflink \<Rightarrow> octet list" where
  "rarp_reply buf r l =
    (let k = length (rm_lladdr r);
         b1 = splice 6 (be16_bytes ARPOP_RREPLY) buf;
         b2 = splice 8 (take k (il_lladdr l)) b1;
         b3 = splice (8 + k) (le32_bytes (my_ipaddr l (rm_ipaddr r))) b2;
         b4 = splice (8 + k + 4 + k) (le32_bytes (rm_ipaddr r)) b3
     in take (8 + k + 4 + k + 4) b4)"

definition rarp_answer :: "lookup_env \<Rightarrow> octet list \<Rightarrow> sll \<Rightarrow> rarpd \<Rightarrow> rarpd" where
  "rarp_answer K buf sll s =
    (case rd_bytes (8 + unat (sll_halen sll) + 4) (unat (sll_halen sll)) buf of
       None \<Rightarrow> s\<lparr>rp_status := Rp_fault\<rparr>
     | Some hw \<Rightarrow>
         (case rarp_lookup K (sll_ifindex sll) (sll_hatype sll) hw s of
            (None, s1) \<Rightarrow> s1
          | (Some r, s1) \<Rightarrow>
              (case find_link (sll_ifindex sll) (rp_links s1) of
                 None \<Rightarrow> s1
               | Some l \<Rightarrow>
                   (let s2 = arp_advise (sll_ifindex sll) (rm_lladdr r) (rm_ipaddr r) s1
                    in s2\<lparr>rp_sent := rp_sent s2 @ [(rarp_reply buf r l, sll)]\<rparr>))))"

text \<open>
  \<^verbatim>\<open>serve_it\<close> on a packet of length \<open>n\<close> in the array \<open>buf\<close> of 1024 bytes (an error of \<^verbatim>\<open>recvfrom\<close> changes nothing). \<open>sll_addr\<close> holds the
  eight bytes of a \<^verbatim>\<open>struct sockaddr_ll\<close>. The verbose message is put together in an array of 48 bytes.
\<close>

definition serve_it :: "lookup_env \<Rightarrow> octet list \<Rightarrow> int \<Rightarrow> sll \<Rightarrow> rarpd \<Rightarrow> rarpd" where
  "serve_it K buf n sll s =
    (if n < 0 then s
     else if sll_pkttype sll \<notin> {PACKET_BROADCAST, PACKET_MULTICAST, PACKET_HOST} then s
     else if rp_ifidx s \<noteq> 0 \<and> sll_ifindex sll \<noteq> rp_ifidx s then s
     else if n < 8 then s
     else case rd_bytes 0 8 buf of
       None \<Rightarrow> s\<lparr>rp_status := Rp_fault\<rparr>
     | Some a \<Rightarrow>
         (if hdr16 a 6 \<noteq> ARPOP_RREQUEST then s
          else if rp_verbose s \<and> (length (sll_addr sll) < unat (sll_halen sll) \<or> 48 < 3 * unat (sll_halen sll)) then s\<lparr>rp_status := Rp_fault\<rparr>
          else if \<not> rarp_sane a n sll then s
          else case (rd_bytes 0 (unat (sll_halen sll)) (sll_addr sll), rd_bytes 8 (unat (sll_halen sll)) buf) of
            (Some h, Some shw) \<Rightarrow> (if h \<noteq> shw then s else rarp_answer K buf sll s)
          | _ \<Rightarrow> s\<lparr>rp_status := Rp_fault\<rparr>))"

section \<open>The program\<close>

record rp_opts =
  op_all_ifaces :: bool
  op_listen_arp :: bool
  op_debug :: bool
  op_verbose :: bool
  op_offlink :: bool
  op_only_ethers :: bool
  op_tftp_dir :: string

definition rp_opts_start :: rp_opts where
  "rp_opts_start = \<lparr>op_all_ifaces = False, op_listen_arp = False, op_debug = False, op_verbose = False, op_offlink = False,
     op_only_ethers = False, op_tftp_dir = ''/etc/tftpboot''\<rparr>"

definition rp_option :: "char \<Rightarrow> string \<Rightarrow> rp_opts \<Rightarrow> rp_opts option" where
  "rp_option ch optarg p =
    (if ch = CHR ''a'' then Some (p\<lparr>op_all_ifaces := True\<rparr>)
     else if ch = CHR ''A'' then Some (p\<lparr>op_listen_arp := True\<rparr>)
     else if ch = CHR ''d'' then Some (p\<lparr>op_debug := True\<rparr>)
     else if ch = CHR ''v'' then Some (p\<lparr>op_verbose := True\<rparr>)
     else if ch = CHR ''o'' then Some (p\<lparr>op_offlink := True\<rparr>)
     else if ch = CHR ''e'' then Some (p\<lparr>op_only_ethers := True\<rparr>)
     else if ch = CHR ''b'' then Some (p\<lparr>op_tftp_dir := optarg\<rparr>)
     else None)"

fun rp_options :: "(char \<times> string) list \<Rightarrow> rp_opts \<Rightarrow> rp_opts option" where
  "rp_options [] p = Some p"
| "rp_options ((ch, optarg) # os) p = (case rp_option ch optarg p of None \<Rightarrow> None | Some p1 \<Rightarrow> rp_options os p1)"

text \<open>
  The descriptors, negative if the call failed: the RARP socket and the result of its \<^verbatim>\<open>bind\<close>, the same for the ARP socket, and
  the index of a named interface. \<open>arp_bpflet\<close> is the filter on the ARP socket: how many bytes of a packet it lets through. The
  result is the array given to \<^verbatim>\<open>poll\<close>, which is empty if the program gives up.
\<close>

record rp_env =
  re_rarp_fd :: int
  re_rarp_bind :: bool
  re_arp_fd :: int
  re_arp_bind :: bool
  re_ifindex :: "string \<Rightarrow> int option"
  re_fork :: "int option"
  re_chdir :: bool

definition arp_bpflet :: "octet list \<Rightarrow> nat" where
  "arp_bpflet buf = (if hdr16 buf 6 = ARPOP_RREQUEST then 1024 else 0)"

definition rp_sockets :: "rp_env \<Rightarrow> bool \<Rightarrow> int list" where
  "rp_sockets E listen_arp =
    (let fd1 = (if listen_arp \<and> re_arp_fd E \<ge> 0 \<and> re_arp_bind E then re_arp_fd E else -1);
         fd0 = (if re_rarp_fd E \<ge> 0 \<and> re_rarp_bind E then re_rarp_fd E else -1);
         psize = (1 :: nat);
         pset0 = (if fd0 < 0 then fd1 else fd0);
         psize1 = (if fd0 < 0 then psize - 1 else psize)
     in take psize1 [pset0, fd1])"

text \<open>\<^verbatim>\<open>main\<close> up to its loop: the exit status, or what is polled and the state. \<open>re_fork\<close>: \<open>Some 0\<close> in the child.\<close>

definition rarpd_main :: "rp_env \<Rightarrow> (char \<times> string) list \<Rightarrow> string list \<Rightarrow> int + (int list \<times> rarpd)" where
  "rarpd_main E opts args =
    (case rp_options opts rp_opts_start of
       None \<Rightarrow> Inl 1
     | Some p \<Rightarrow>
         (if length args > 1 then Inl 1
          else case (case args of [] \<Rightarrow> Some 0 | nm # _ \<Rightarrow> re_ifindex E nm) of
            None \<Rightarrow> Inl 1
          | Some idx \<Rightarrow>
              (let fds = rp_sockets E (op_listen_arp p);
                   s = \<lparr>rp_verbose = op_verbose p, rp_ifidx = idx, rp_offlink = op_offlink p, rp_only_ethers = op_only_ethers p,
                        rp_tftp_dir = op_tftp_dir p, rp_reload = True, rp_links = [], rp_db = [], rp_sent = [], rp_arp = [],
                        rp_status = Rp_running\<rparr>
               in if fds = [] then Inl 1
                  else if op_debug p then Inr (fds, s)
                  else case re_fork E of
                    None \<Rightarrow> Inl 1
                  | Some pid \<Rightarrow> (if pid > 0 then Inl 0 else if \<not> re_chdir E then Inl 1 else Inr (fds, s)))))"

text \<open>
  One turn of the loop: a reload if one is due, then \<^verbatim>\<open>poll\<close>. It is interrupted by the hangup signal, fails, or finds packets on
  descriptors; those among \<open>fds\<close> are served in order.
\<close>

datatype rp_event = Rp_hup | Rp_poll_error | Rp_ready "(int \<times> lookup_env \<times> octet list \<times> int \<times> sll) list"

definition rp_serve :: "int list \<Rightarrow> (int \<times> lookup_env \<times> octet list \<times> int \<times> sll) \<Rightarrow> rarpd \<Rightarrow> rarpd" where
  "rp_serve fds x s = (case x of (fd, K, buf, n, sll) \<Rightarrow> if fd \<in> set fds \<and> rp_status s = Rp_running then serve_it K buf n sll s else s)"

fun rp_handle :: "int list \<Rightarrow> rp_event \<Rightarrow> rarpd \<Rightarrow> rarpd" where
  "rp_handle fds Rp_hup s = s\<lparr>rp_reload := True\<rparr>"
| "rp_handle fds Rp_poll_error s = s"
| "rp_handle fds (Rp_ready xs) s = fold (rp_serve fds) xs s"

definition rp_turn :: "int list \<Rightarrow> ifreq_env list option \<times> rp_event \<Rightarrow> rarpd \<Rightarrow> rarpd" where
  "rp_turn fds x s =
    (if rp_status s \<noteq> Rp_running then s
     else let s1 = (if rp_reload s then (configure (fst x) s)\<lparr>rp_reload := False\<rparr> else s) in rp_handle fds (snd x) s1)"

end
