(* ===== verification/Rarpd_Runs.thy ===== *)
theory Rarpd_Runs
  imports Rarpd_Daemon
begin

text \<open>
  What \<^verbatim>\<open>rarpd\<close> keeps and what it answers: the table of links is consistent at all times, a reply is a proper RARP reply with the
  address the databases give for the hardware address asked for, and nothing else is ever sent.
\<close>

section \<open>The table of links\<close>

definition links_ok :: "int \<Rightarrow> iflink list \<Rightarrow> bool" where
  "links_ok ifidx ls \<longleftrightarrow> distinct (map il_index ls)
    \<and> (\<forall>l \<in> set ls. (ifidx \<noteq> 0 \<longrightarrow> il_index l = ifidx) \<and> length (il_lladdr l) = 16 \<and> distinct (il_ifas l)
        \<and> (\<forall>f \<in> set (il_ifas l). fa_local f \<noteq> 0 \<and> fa_mask f \<noteq> 0 \<and> fa_prefix f \<noteq> 0))"

lemma find_link_None: "find_link i ls = None \<longleftrightarrow> i \<notin> il_index ` set ls"
  by (auto simp: find_link_def find_none_iff)

lemma find_link_Some: "find_link i ls = Some l \<Longrightarrow> l \<in> set ls \<and> il_index l = i"
  by (auto simp: find_link_def dest: find_SomeD)

lemma links_ok_new:
  assumes "links_ok ifidx ls" and "find_link i ls = None" and "ifidx \<noteq> 0 \<longrightarrow> i = ifidx"
  shows "links_ok ifidx (new_link i ty hw nm # ls)"
  using assms by (auto simp: links_ok_def new_link_def find_link_None)

lemma links_ok_load_link:
  assumes "links_ok ifidx ls" and "load_link i q ls = Some ls1" and "ifidx \<noteq> 0 \<longrightarrow> i = ifidx"
  shows "links_ok ifidx ls1"
  using assms links_ok_new by (auto simp: load_link_def split: option.splits if_splits)

lemma links_ok_add:
  assumes "links_ok ifidx ls" and "fa_local a \<noteq> 0"
  shows "links_ok ifidx (add_ifaddr i a ls)"
proof -
  let ?f = "\<lambda>l. [if a \<in> set (il_ifas l) \<or> fa_mask a = 0 \<or> fa_prefix a = 0 then l else l\<lparr>il_ifas := a # il_ifas l\<rparr>]"
  have "map il_index (upd_first (\<lambda>l. il_index l = i) ?f ls) = map il_index ls" by (rule map_upd_first) simp
  then have "distinct (map il_index (upd_first (\<lambda>l. il_index l = i) ?f ls))" using assms(1) by (simp only: links_ok_def)
  moreover have "\<forall>l \<in> set (upd_first (\<lambda>l. il_index l = i) ?f ls). (ifidx \<noteq> 0 \<longrightarrow> il_index l = ifidx) \<and> length (il_lladdr l) = 16
      \<and> distinct (il_ifas l) \<and> (\<forall>f \<in> set (il_ifas l). fa_local f \<noteq> 0 \<and> fa_mask f \<noteq> 0 \<and> fa_prefix f \<noteq> 0)"
    by (rule upd_first_all) (use assms in \<open>auto simp: links_ok_def\<close>)
  ultimately show ?thesis unfolding links_ok_def add_ifaddr_def by (intro conjI)
qed

lemma links_ok_entry: "links_ok ifidx ls \<Longrightarrow> links_ok ifidx (load_entry ifidx q ls)"
  by (auto simp: load_entry_def split: option.splits intro!: links_ok_add dest: links_ok_load_link)

lemma links_ok_fold: "links_ok ifidx ls \<Longrightarrow> links_ok ifidx (fold (load_entry ifidx) qs ls)"
  by (induction qs arbitrary: ls) (auto intro: links_ok_entry)

lemma links_ok_nil [simp]: "links_ok ifidx []"
  by (simp add: links_ok_def)

definition rp_inv :: "rarpd \<Rightarrow> bool" where
  "rp_inv s \<longleftrightarrow> links_ok (rp_ifidx s) (rp_links s) \<and> rp_db s = [] \<and> rp_status s = Rp_running"

text \<open>Nothing but the links, the log and the status changes after the start.\<close>

definition rp_same :: "rarpd \<Rightarrow> rarpd \<Rightarrow> bool" where
  "rp_same s t \<longleftrightarrow> rp_verbose t = rp_verbose s \<and> rp_ifidx t = rp_ifidx s \<and> rp_offlink t = rp_offlink s
     \<and> rp_only_ethers t = rp_only_ethers s \<and> rp_tftp_dir t = rp_tftp_dir s \<and> rp_db t = rp_db s"

lemma load_if_keeps:
  assumes "rp_inv s"
  shows "rp_inv (load_if conf s)" "rp_same s (load_if conf s)" "rp_sent (load_if conf s) = rp_sent s" "rp_arp (load_if conf s) = rp_arp s"
  using assms links_ok_fold [of "rp_ifidx s" "[]"] by (auto simp: load_if_def rp_inv_def rp_same_def split: option.splits)

section \<open>The address of a client\<close>

lemma select_scan_addr: "select_scan retry l alist = Sel_addr a \<Longrightarrow> a \<in> set alist \<and> on_link l a"
  by (induction alist) (auto split: if_splits)

lemma select_pass_addr:
  assumes "select_pass retry i alist s = Sel_addr a"
  shows "\<exists>l. find_link i (rp_links s) = Some l \<and> a \<in> set alist \<and> (on_link l a \<or> rp_offlink s)"
  using assms by (cases alist) (auto simp: select_pass_def dest: select_scan_addr split: option.splits selection.splits if_splits)

lemma select_ipaddr_keeps:
  assumes "rp_inv s" and "select_ipaddr conf i alist s = (r, s1)"
  shows "rp_inv s1" "rp_same s s1" "rp_sent s1 = rp_sent s" "rp_arp s1 = rp_arp s"
    and "\<And>a. r = Some a \<Longrightarrow> \<exists>l. find_link i (rp_links s1) = Some l \<and> a \<in> set alist \<and> (on_link l a \<or> rp_offlink s1)"
proof -
  have cases: "s1 = s \<and> (\<forall>a. r = Some a \<longrightarrow> select_pass False i alist s = Sel_addr a)
    \<or> s1 = load_if conf s \<and> (\<forall>a. r = Some a \<longrightarrow> select_pass True i alist s1 = Sel_addr a)"
    using assms(2) by (auto simp: select_ipaddr_def Let_def split: selection.splits)
  then show "rp_inv s1" "rp_same s s1" "rp_sent s1 = rp_sent s" "rp_arp s1 = rp_arp s"
    using assms(1) load_if_keeps [OF assms(1), of conf] by (auto simp: rp_same_def)
  show "\<exists>l. find_link i (rp_links s1) = Some l \<and> a \<in> set alist \<and> (on_link l a \<or> rp_offlink s1)" if "r = Some a" for a
    using cases that select_pass_addr by blast
qed

text \<open>When the databases know the hardware address and the first address is on the link, it is the one that is given.\<close>

lemma select_ipaddr_first:
  assumes "find_link i (rp_links s) = Some l" and "on_link l a"
  shows "select_ipaddr conf i (a # alist) s = (Some a, s)"
  using assms by (simp add: select_ipaddr_def select_pass_def)

text \<open>What the databases say about a hardware address on a link.\<close>

definition resolves :: "lookup_env \<Rightarrow> rarpd \<Rightarrow> iflink \<Rightarrow> octet list \<Rightarrow> ip \<Rightarrow> bool" where
  "resolves K s l hw a \<longleftrightarrow> (\<exists>nm alist. lk_ethers K hw = Some nm \<and> lk_host K nm = Some (2, alist) \<and> a \<in> set alist)
     \<and> (on_link l a \<or> rp_offlink s) \<and> (rp_only_ethers s \<or> bootable (lk_dir K (rp_tftp_dir s)) a)"

lemma rarp_lookup_keeps:
  assumes "rp_inv s" and "rarp_lookup K i ty hw s = (r, s1)"
  shows "rp_inv s1" "rp_same s s1" "rp_sent s1 = rp_sent s" "rp_arp s1 = rp_arp s"
    and "\<And>m. r = Some m \<Longrightarrow> ty = ARPHRD_ETHER \<and> length hw = 6 \<and> rm_lladdr m = hw
      \<and> (\<exists>l. find_link i (rp_links s1) = Some l \<and> resolves K s1 l hw (rm_ipaddr m))"
proof -
  have db: "rp_db s = []" using assms(1) by (simp add: rp_inv_def)
  have same [simp]: "rp_same s s" by (simp add: rp_same_def)
  consider (none) "s1 = s" "r = None"
    | (sel) nm alist x where "ty = ARPHRD_ETHER" "length hw = 6" "lk_ethers K hw = Some nm" "lk_host K nm = Some (2, alist)"
        "select_ipaddr (lk_conf K) i alist s = (x, s1)"
        "\<forall>m. r = Some m \<longrightarrow> rm_lladdr m = hw \<and> x = Some (rm_ipaddr m) \<and> (rp_only_ethers s1 \<or> bootable (lk_dir K (rp_tftp_dir s1)) (rm_ipaddr m))"
    using assms(2) db
    by (auto simp: rarp_lookup_def ethers_lookup_def split: if_splits option.splits prod.splits)
  then have all: "rp_inv s1 \<and> rp_same s s1 \<and> rp_sent s1 = rp_sent s \<and> rp_arp s1 = rp_arp s \<and>
    (\<forall>m. r = Some m \<longrightarrow> ty = ARPHRD_ETHER \<and> length hw = 6 \<and> rm_lladdr m = hw
      \<and> (\<exists>l. find_link i (rp_links s1) = Some l \<and> resolves K s1 l hw (rm_ipaddr m)))"
  proof cases
    case none
    then show ?thesis using assms(1) by simp
  next
    case sel
    note k = select_ipaddr_keeps [OF assms(1) sel(5)]
    have "\<exists>l. find_link i (rp_links s1) = Some l \<and> resolves K s1 l hw (rm_ipaddr m)" if "r = Some m" for m
      using k(5) [of "rm_ipaddr m"] sel that by (auto simp: resolves_def)
    then show ?thesis using k(1-4) sel by blast
  qed
  then show "rp_inv s1" "rp_same s s1" "rp_sent s1 = rp_sent s" "rp_arp s1 = rp_arp s"
    and "\<And>m. r = Some m \<Longrightarrow> ty = ARPHRD_ETHER \<and> length hw = 6 \<and> rm_lladdr m = hw
      \<and> (\<exists>l. find_link i (rp_links s1) = Some l \<and> resolves K s1 l hw (rm_ipaddr m))" by blast+
qed

section \<open>Bytes of a reply\<close>

lemma splice_at: "length xs = k \<Longrightarrow> length zs = length ys \<Longrightarrow> splice k ys (xs @ zs @ ws) = xs @ ys @ ws"
  by (simp add: splice_def)

lemma rarp_reply_frame:
  assumes "is_arp (take n buf) hrd 6 oper shw sip (rm_lladdr r) tip" and "length (il_lladdr l) = 16"
  shows "rarp_reply buf r l =
    arp_frame hrd 6 ARPOP_RREPLY (take 6 (il_lladdr l)) (my_ipaddr l (rm_ipaddr r)) (rm_lladdr r) (rm_ipaddr r)"
proof -
  from assms(1) obtain pad where len: "length shw = 6" "length (rm_lladdr r) = 6"
    and b: "take n buf = arp_frame hrd 6 oper shw sip (rm_lladdr r) tip @ pad" by (auto simp: is_arp_def)
  define rest where "rest = pad @ drop n buf"
  define h where "h = be16_bytes hrd @ be16_bytes ETH_P_IP @ [6, 4 :: octet]"
  define mac where "mac = take 6 (il_lladdr l)"
  define myip where "myip = le32_bytes (my_ipaddr l (rm_ipaddr r))"
  have lens: "length h = 6" "length mac = 6" "length myip = 4" using assms(2) by (simp_all add: h_def mac_def myip_def)
  have buf: "buf = h @ be16_bytes oper @ shw @ le32_bytes sip @ rm_lladdr r @ le32_bytes tip @ rest"
    using arg_cong [OF b, of "\<lambda>t. t @ drop n buf"] by (simp add: rest_def arp_frame_def h_def)
  have 1: "splice 6 (be16_bytes ARPOP_RREPLY) buf = h @ be16_bytes ARPOP_RREPLY @ shw @ le32_bytes sip @ rm_lladdr r @ le32_bytes tip @ rest"
    unfolding buf by (rule splice_at) (simp_all add: lens)
  have 2: "splice 8 mac (h @ be16_bytes ARPOP_RREPLY @ shw @ le32_bytes sip @ rm_lladdr r @ le32_bytes tip @ rest)
      = h @ be16_bytes ARPOP_RREPLY @ mac @ le32_bytes sip @ rm_lladdr r @ le32_bytes tip @ rest"
    using splice_at [of "h @ be16_bytes ARPOP_RREPLY" 8 shw mac] by (simp add: lens len)
  have 3: "splice 14 myip (h @ be16_bytes ARPOP_RREPLY @ mac @ le32_bytes sip @ rm_lladdr r @ le32_bytes tip @ rest)
      = h @ be16_bytes ARPOP_RREPLY @ mac @ myip @ rm_lladdr r @ le32_bytes tip @ rest"
    using splice_at [of "h @ be16_bytes ARPOP_RREPLY @ mac" 14 "le32_bytes sip" myip] by (simp add: lens len)
  have 4: "splice 24 (le32_bytes (rm_ipaddr r)) (h @ be16_bytes ARPOP_RREPLY @ mac @ myip @ rm_lladdr r @ le32_bytes tip @ rest)
      = h @ be16_bytes ARPOP_RREPLY @ mac @ myip @ rm_lladdr r @ le32_bytes (rm_ipaddr r) @ rest"
    using splice_at [of "h @ be16_bytes ARPOP_RREPLY @ mac @ myip @ rm_lladdr r" 24 "le32_bytes tip" "le32_bytes (rm_ipaddr r)"]
    by (simp add: lens len)
  have "rarp_reply buf r l = take 28 (h @ be16_bytes ARPOP_RREPLY @ mac @ myip @ rm_lladdr r @ le32_bytes (rm_ipaddr r) @ rest)"
    unfolding rarp_reply_def Let_def len mac_def [symmetric] myip_def [symmetric] using 1 2 3 4 by simp
  also have "\<dots> = h @ be16_bytes ARPOP_RREPLY @ mac @ myip @ rm_lladdr r @ le32_bytes (rm_ipaddr r)" by (simp add: lens len)
  finally show ?thesis by (simp add: arp_frame_def h_def mac_def myip_def)
qed

section \<open>One request\<close>

text \<open>\<open>answered\<close>: the one reply sent for a request, in the state after it was handled.\<close>

definition answered :: "lookup_env \<Rightarrow> octet list \<Rightarrow> sll \<Rightarrow> rarpd \<Rightarrow> rarpd \<Rightarrow> bool" where
  "answered K frame sll s t \<longleftrightarrow> (\<exists>hrd shw sip hw tip a l.
     is_arp frame hrd 6 ARPOP_RREQUEST shw sip hw tip \<and> find_link (sll_ifindex sll) (rp_links t) = Some l \<and> resolves K t l hw a
   \<and> rp_sent t = rp_sent s @ [(arp_frame hrd 6 ARPOP_RREPLY (take 6 (il_lladdr l)) (my_ipaddr l a) hw a, sll)]
   \<and> rp_arp t = rp_arp s @ [(il_name l, il_hatype l, hw, a)])"

definition quiet_step :: "rarpd \<Rightarrow> rarpd \<Rightarrow> bool" where
  "quiet_step s t \<longleftrightarrow> rp_sent t = rp_sent s \<and> rp_arp t = rp_arp s"

lemma unat_6: "unat (h :: octet) = 6 \<Longrightarrow> h = 6"
  by (simp add: word_unat_eq_iff)

lemma rarp_answer_spec:
  fixes K :: lookup_env
  assumes "rp_inv s" and "is_arp (take n buf) hrd (sll_halen sll) ARPOP_RREQUEST shw sip hw tip"
  defines "t \<equiv> rarp_answer K buf sll s"
  shows "rp_inv t \<and> rp_same s t \<and> (quiet_step s t \<or> answered K (take n buf) sll s t)"
proof -
  have lhw: "length hw = unat (sll_halen sll)" using assms(2) by (simp add: is_arp_def)
  note rd = frame_reads(4) [OF assms(2)]
  obtain r s1 where look: "rarp_lookup K (sll_ifindex sll) (sll_hatype sll) hw s = (r, s1)" by (cases "rarp_lookup K (sll_ifindex sll) (sll_hatype sll) hw s")
  note k = rarp_lookup_keeps [OF assms(1) look]
  show ?thesis
  proof (cases r)
    case None
    then have "t = s1" unfolding t_def rarp_answer_def rd by (simp add: look)
    then show ?thesis using k(1-4) by (simp add: quiet_step_def)
  next
    case (Some m)
    from k(5) [OF Some] obtain l where m: "length hw = 6" "rm_lladdr m = hw" and l: "find_link (sll_ifindex sll) (rp_links s1) = Some l"
      and res: "resolves K s1 l hw (rm_ipaddr m)" by blast
    have h6: "sll_halen sll = 6" using lhw m(1) by (intro unat_6) simp
    have ll: "length (il_lladdr l) = 16" using k(1) find_link_Some [OF l] by (auto simp: rp_inv_def links_ok_def)
    define s2 where "s2 = s1\<lparr>rp_arp := rp_arp s1 @ [(il_name l, il_hatype l, hw, rm_ipaddr m)]\<rparr>"
    have t: "t = s2\<lparr>rp_sent := rp_sent s1 @ [(rarp_reply buf m l, sll)]\<rparr>"
      unfolding t_def rarp_answer_def rd using look Some l m(2) by (simp add: arp_advise_def Let_def s2_def)
    have rep: "rarp_reply buf m l = arp_frame hrd 6 ARPOP_RREPLY (take 6 (il_lladdr l)) (my_ipaddr l (rm_ipaddr m)) hw (rm_ipaddr m)"
      using rarp_reply_frame [of n buf hrd ARPOP_RREQUEST shw sip m tip l] assms(2) ll by (simp add: h6 m(2))
    have inv: "rp_inv t" "rp_same s t" using k(1,2) by (simp_all add: t s2_def rp_inv_def rp_same_def)
    have "resolves K t l hw (rm_ipaddr m)" using res by (simp add: resolves_def t s2_def)
    then have "answered K (take n buf) sll s t"
      unfolding answered_def using assms(2) l k(3,4)
      by (intro exI [of _ hrd] exI) (auto simp: t s2_def rep h6)
    then show ?thesis using inv by blast
  qed
qed

lemma rp_same_refl [simp]: "rp_same s s"
  by (simp add: rp_same_def)

lemma quiet_refl [simp]: "quiet_step s s"
  by (simp add: quiet_step_def)

lemma serve_it_spec:
  fixes K :: lookup_env
  assumes "rp_inv s" and "length buf = 1024" and "n \<le> 1024" and "length (sll_addr sll) = 8" and "unat (sll_halen sll) \<le> 8"
  defines "t \<equiv> serve_it K buf n sll s"
  shows "rp_inv t \<and> rp_same s t \<and> (quiet_step s t \<or> answered K (take (nat n) buf) sll s t)"
proof (cases "t = s")
  case True
  then show ?thesis using assms(1) by simp
next
  case False
  let ?a = "take 8 buf"
  have rd8: "rd_bytes 0 8 buf = Some ?a" using assms(2) by (simp add: rd_bytes_def)
  have rd: "rd_bytes 0 (unat (sll_halen sll)) (sll_addr sll) = Some (take (unat (sll_halen sll)) (sll_addr sll))"
    "rd_bytes 8 (unat (sll_halen sll)) buf = Some (take (unat (sll_halen sll)) (drop 8 buf))"
    using assms(2,4,5) by (simp_all add: rd_bytes_def)
  have nf: "\<not> (rp_verbose s \<and> (length (sll_addr sll) < unat (sll_halen sll) \<or> 48 < 3 * unat (sll_halen sll)))" using assms(4,5) by auto
  have ok: "0 \<le> n" "8 \<le> n" "hdr16 ?a 6 = ARPOP_RREQUEST" "rarp_sane ?a n sll" "t = rarp_answer K buf sll s"
    using False nf unfolding t_def serve_it_def rd8 rd by (auto split: if_splits)
  have hdr: "hdr16 buf 2 = ETH_P_IP" "buf ! 5 = 4" "buf ! 4 = sll_halen sll" "hdr16 buf 6 = ARPOP_RREQUEST"
    using ok(1,3,4) by (simp_all add: rarp_sane_def hdr16_take)
  have "int (8 + 2 * 4 + 2 * unat (?a ! 4)) \<le> n" using ok(4) unfolding rarp_sane_def by blast
  then have "8 + 2 * 4 + 2 * unat (buf ! 4) \<le> nat n" using ok(1) by (subst le_nat_iff) simp_all
  then have len: "8 + 2 * (4 + unat (buf ! 4)) \<le> nat n" by simp
  obtain shw sip hw tip where "is_arp (take (nat n) buf) (hdr16 buf 0) (buf ! 4) (hdr16 buf 6) shw sip hw tip"
    using is_arp_of_buffer [OF hdr(1,2) len] assms(2,3) by (auto simp: nat_le_iff)
  from rarp_answer_spec [OF assms(1) this [unfolded hdr(3,4)], of K] show ?thesis unfolding ok(5) .
qed

text \<open>Conversely, a client the databases know gets its answer.\<close>

lemma known_client_answered:
  assumes "rp_inv s" and "length buf = 1024" and "0 \<le> n" and "n \<le> 1024"
    and "is_arp (take (nat n) buf) ARPHRD_ETHER 6 ARPOP_RREQUEST shw sip hw tip"
    and "sll_pkttype sll \<in> {PACKET_BROADCAST, PACKET_MULTICAST, PACKET_HOST}" and "sll_hatype sll = ARPHRD_ETHER" and "sll_halen sll = 6"
    and "sll_addr sll = shw @ [0, 0]" and "rp_ifidx s = 0 \<or> sll_ifindex sll = rp_ifidx s"
    and "find_link (sll_ifindex sll) (rp_links s) = Some l" and "on_link l a"
    and "lk_ethers K hw = Some nm" and "lk_host K nm = Some (2, a # alist)" and "rp_only_ethers s \<or> bootable (lk_dir K (rp_tftp_dir s)) a"
  shows "rp_sent (serve_it K buf n sll s) =
    rp_sent s @ [(arp_frame ARPHRD_ETHER 6 ARPOP_RREPLY (take 6 (il_lladdr l)) (my_ipaddr l a) hw a, sll)]"
proof -
  note fr = frame_reads [OF assms(5)]
  have u6: "unat (6 :: octet) = 6" by simp
  have len: "length shw = 6" "length hw = 6" using assms(5) by (simp_all add: is_arp_def)
  let ?a = "arp_head ARPHRD_ETHER 6 ARPOP_RREQUEST"
  have ll: "length (il_lladdr l) = 16" using assms(1) find_link_Some [OF assms(11)] by (auto simp: rp_inv_def links_ok_def)
  have n: "28 \<le> n" using fr(6) assms(3) by (simp add: u6)
  have sane: "rarp_sane ?a n sll" unfolding rarp_sane_def head_fields using n assms(7,8) by simp
  have nf: "\<not> (rp_verbose s \<and> (length (sll_addr sll) < unat (sll_halen sll) \<or> 48 < 3 * unat (sll_halen sll)))"
    using assms(8,9) len by simp
  have shw: "rd_bytes 0 6 (sll_addr sll) = Some shw" using assms(9) len by (simp add: rd_bytes_def)
  have "serve_it K buf n sll s = rarp_answer K buf sll s"
    unfolding serve_it_def fr(1) option.case head_fields assms(8) u6 using n assms(6,10) sane nf shw fr(2) by (auto simp: u6 assms(8))
  moreover define m where "m = \<lparr>rm_ifindex = 0, rm_arp_type = uint ARPHRD_ETHER, rm_lladdr = hw, rm_ipaddr = a\<rparr>"
  moreover have "rarp_lookup K (sll_ifindex sll) ARPHRD_ETHER hw s = (Some m, s)"
    using assms(1,11-15) len select_ipaddr_first [OF assms(11,12)] by (simp add: rarp_lookup_def ethers_lookup_def rp_inv_def m_def)
  moreover have "rarp_reply buf m l = arp_frame ARPHRD_ETHER 6 ARPOP_RREPLY (take 6 (il_lladdr l)) (my_ipaddr l a) hw a"
    using rarp_reply_frame [of "nat n" buf ARPHRD_ETHER ARPOP_RREQUEST shw sip m tip l] assms(5) ll by (simp add: m_def)
  moreover have "rd_bytes (8 + unat (sll_halen sll) + 4) (unat (sll_halen sll)) buf = Some hw" using fr(4) by (simp add: assms(8) u6)
  ultimately show ?thesis using assms(7,11) by (simp add: rarp_answer_def arp_advise_def Let_def)
qed

section \<open>Runs\<close>

text \<open>
  The events of a run: every packet in its array of 1024 bytes, on links whose addresses fit a \<^verbatim>\<open>struct sockaddr_ll\<close>.
\<close>

definition packet_ok :: "(int \<times> lookup_env \<times> octet list \<times> int \<times> sll) \<Rightarrow> bool" where
  "packet_ok x = (case x of (fd, K, buf, n, sll) \<Rightarrow> length buf = 1024 \<and> n \<le> 1024 \<and> length (sll_addr sll) = 8 \<and> unat (sll_halen sll) \<le> 8)"

fun rp_adm :: "ifreq_env list option \<times> rp_event \<Rightarrow> bool" where
  "rp_adm (conf, Rp_ready xs) = list_all packet_ok xs"
| "rp_adm _ = True"

lemma serve_inv: "rp_inv s \<Longrightarrow> packet_ok x \<Longrightarrow> rp_inv (rp_serve fds x s)"
  using serve_it_spec by (auto simp: rp_serve_def packet_ok_def split: prod.splits)

lemma configure_inv: "rp_inv s \<Longrightarrow> rp_inv ((configure conf s)\<lparr>rp_reload := False\<rparr>)"
  using load_if_keeps(1) [of s conf] by (simp add: configure_def load_db_def rp_inv_def)

lemma handle_inv: "rp_inv s \<Longrightarrow> rp_adm (conf, e) \<Longrightarrow> rp_inv (rp_handle fds e s)"
proof (cases e)
  case (Rp_ready xs)
  have "rp_inv s \<Longrightarrow> list_all packet_ok xs \<Longrightarrow> rp_inv (fold (rp_serve fds) xs s)"
    by (induction xs arbitrary: s) (auto intro: serve_inv)
  then show "rp_inv s \<Longrightarrow> rp_adm (conf, e) \<Longrightarrow> ?thesis" by (simp add: Rp_ready)
qed (simp_all add: rp_inv_def)

lemma turn_inv: "rp_inv s \<Longrightarrow> rp_adm x \<Longrightarrow> rp_inv (rp_turn fds x s)"
  using handle_inv [of _ "fst x" "snd x" fds] configure_inv [of s "fst x"] by (auto simp: rp_turn_def Let_def)

definition rp_start :: "rp_opts \<Rightarrow> int \<Rightarrow> rarpd" where
  "rp_start p idx = \<lparr>rp_verbose = op_verbose p, rp_ifidx = idx, rp_offlink = op_offlink p, rp_only_ethers = op_only_ethers p,
     rp_tftp_dir = op_tftp_dir p, rp_reload = True, rp_links = [], rp_db = [], rp_sent = [], rp_arp = [], rp_status = Rp_running\<rparr>"

interpretation rp: step_system "rp_turn fds" "rp_start p idx" rp_adm rp_inv for fds p idx
proof
  show "rp_inv (rp_start p idx)" by (simp add: rp_start_def rp_inv_def)
qed (rule turn_inv)

lemma main_start: "rarpd_main E opts args = Inr (fds, s) \<Longrightarrow> \<exists>p idx. s = rp_start p idx \<and> fds = rp_sockets E (op_listen_arp p)"
  by (auto simp: rarpd_main_def rp_start_def Let_def split: option.splits if_splits)

text \<open>The ARP socket that \<^verbatim>\<open>-A\<close> opens is never polled: what the loop watches does not depend on the option.\<close>

lemma listen_arp_ignored: "rp_sockets E True = rp_sockets E False"
  by (simp add: rp_sockets_def Let_def)

end
