(* ===== verification/Rarpd_Properties.thy ===== *)
theory Rarpd_Properties
  imports Rarpd_Runs
begin

text \<open>The properties of \<^verbatim>\<open>rarpd\<close>, with a run on one Ethernet link.\<close>

section \<open>A small system\<close>

definition demo_ifreq :: ifreq_env where
  "demo_ifreq = \<lparr>in_name = ''eth0'', in_family = 2, in_addr = 0x0100000A, in_index = Some 2, in_hwaddr = Some (1, [2, 0, 0, 0, 0, 1]), in_mem = True,
     in_mask = Some 0x00FFFFFF, in_dst = Some 0x0100000A\<rparr>"

definition demo_rp_env :: rp_env where
  "demo_rp_env = \<lparr>re_rarp_fd = 3, re_rarp_bind = True, re_arp_fd = 4, re_arp_bind = True, re_ifindex = (\<lambda>nm. None), re_fork = Some 0, re_chdir = True\<rparr>"

definition demo_lookup :: lookup_env where
  "demo_lookup = \<lparr>lk_ethers = (\<lambda>hw. if hw = [2, 0, 0, 0, 0, 9] then Some ''client'' else None), lk_host = (\<lambda>nm. Some (2, [0x0900000A])),
     lk_dir = (\<lambda>d. Some [''.'', ''0A000009.SUN4M'']), lk_conf = None\<rparr>"

definition demo_request :: "octet list" where
  "demo_request = arp_frame ARPHRD_ETHER 6 ARPOP_RREQUEST [2, 0, 0, 0, 0, 9] 0 [2, 0, 0, 0, 0, 9] 0"

definition demo_from :: sll where
  "demo_from = \<lparr>sll_protocol = 0x8035, sll_ifindex = 2, sll_hatype = ARPHRD_ETHER, sll_pkttype = PACKET_BROADCAST, sll_halen = 6,
     sll_addr = [2, 0, 0, 0, 0, 9, 0, 0]\<rparr>"

definition demo_rarpd :: rarpd where
  "demo_rarpd = fold (rp_turn [3]) [(Some [demo_ifreq], Rp_poll_error)] (rp_start rp_opts_start 0)"

lemma demo_rarpd_main: "rarpd_main demo_rp_env [] [] = Inr ([3], rp_start rp_opts_start 0)"
  by code_simp

section \<open>Who gets an answer\<close>

text \<open>
  C5. Whatever the network sends and however the interfaces change, \<^verbatim>\<open>rarpd\<close> stays within its arrays, keeps a consistent table of links
  (no index twice, only the interface it was started for, no address without mask or network), and answers a packet with at most one frame.
  That frame is a RARP reply to a well-formed RARP request: its source is the hardware address and an address of the link the request came
  in on, its target hardware address is the one asked about, and its target address is one that \<^verbatim>\<open>/etc/ethers\<close> and the resolver give for
  it, that belongs to a network of the link unless off-link answers were allowed, and for which there is a boot image unless the check
  was switched off. The same address goes into the ARP table.
\<close>

theorem rarpd_answers_only_known:
  assumes "rarpd_main E opts args = Inr (fds, s0)" and "\<forall>x \<in> set xs. rp_adm x"
    and "length buf = 1024" and "n \<le> 1024" and "length (sll_addr sll) = 8" and "unat (sll_halen sll) \<le> 8"
    and "s = fold (rp_turn fds) xs s0" and "t = serve_it K buf n sll s"
  shows "rp_status t \<noteq> Rp_fault \<and> links_ok (rp_ifidx t) (rp_links t) \<and> (quiet_step s t \<or> answered K (take (nat n) buf) sll s t)"
proof -
  obtain p idx where "s0 = rp_start p idx" using main_start [OF assms(1)] by blast
  then have "rp_inv s" using rp.invar_run [OF assms(2)] by (simp add: assms(7))
  from serve_it_spec [OF this assms(3-6), of K] show ?thesis by (simp add: assms(8) rp_inv_def)
qed

theorem rarpd_answers_only_known_witness:
  "rp_status (serve_it demo_lookup (demo_request @ replicate 996 0) 28 demo_from demo_rarpd) \<noteq> Rp_fault"
proof -
  have l: "length (demo_request @ replicate 996 0) = 1024" by (simp add: demo_request_def)
  have "\<forall>x \<in> set [(Some [demo_ifreq], Rp_poll_error)]. rp_adm x" by simp
  from rarpd_answers_only_known [OF demo_rarpd_main this l, of 28 demo_from _ _ demo_lookup] show ?thesis
    by (simp add: demo_from_def demo_rarpd_def)
qed

text \<open>
  C39. A client the databases know is served: if its request is a well-formed RARP request on an Ethernet link the daemon listens on, the header of the frame
  agrees with it, and \<^verbatim>\<open>/etc/ethers\<close> and the resolver give it first an address of a network of that link, with a boot image or without the check,
  then exactly one frame goes out, to where the request came from: the RARP reply with that address.
\<close>

theorem rarpd_serves_known_client:
  assumes "rarpd_main E opts args = Inr (fds, s0)" and "\<forall>x \<in> set xs. rp_adm x" and "s = fold (rp_turn fds) xs s0"
    and "length buf = 1024" and "0 \<le> n" and "n \<le> 1024"
    and "is_arp (take (nat n) buf) ARPHRD_ETHER 6 ARPOP_RREQUEST shw sip hw tip"
    and "sll_pkttype sll \<in> {PACKET_BROADCAST, PACKET_MULTICAST, PACKET_HOST}" and "sll_hatype sll = ARPHRD_ETHER" and "sll_halen sll = 6"
    and "sll_addr sll = shw @ [0, 0]" and "rp_ifidx s = 0 \<or> sll_ifindex sll = rp_ifidx s"
    and "find_link (sll_ifindex sll) (rp_links s) = Some l" and "on_link l a"
    and "lk_ethers K hw = Some nm" and "lk_host K nm = Some (2, a # alist)" and "rp_only_ethers s \<or> bootable (lk_dir K (rp_tftp_dir s)) a"
  shows "rp_sent (serve_it K buf n sll s) =
    rp_sent s @ [(arp_frame ARPHRD_ETHER 6 ARPOP_RREPLY (take 6 (il_lladdr l)) (my_ipaddr l a) hw a, sll)]"
proof -
  obtain p idx where "s0 = rp_start p idx" using main_start [OF assms(1)] by blast
  then have "rp_inv s" using rp.invar_run [OF assms(2)] by (simp add: assms(3))
  from known_client_answered [OF this assms(4-17)] show ?thesis .
qed

theorem rarpd_serves_known_client_witness:
  "rp_sent (serve_it demo_lookup (demo_request @ replicate 996 0) 28 demo_from demo_rarpd) =
    rp_sent demo_rarpd @ [(arp_frame ARPHRD_ETHER 6 ARPOP_RREPLY [2, 0, 0, 0, 0, 1] 0x0100000A [2, 0, 0, 0, 0, 9] 0x0900000A, demo_from)]"
proof -
  define l where "l = hd (rp_links demo_rarpd)"
  have l: "find_link (sll_ifindex demo_from) (rp_links demo_rarpd) = Some l" "on_link l 0x0900000A" "take 6 (il_lladdr l) = [2, 0, 0, 0, 0, 1]"
    "my_ipaddr l 0x0900000A = 0x0100000A" unfolding l_def by code_simp+
  have len: "length (demo_request @ replicate 996 0) = 1024" by (simp add: demo_request_def)
  have l28: "length demo_request = 28" by code_simp
  have arp: "is_arp (take (nat 28) (demo_request @ replicate 996 0)) ARPHRD_ETHER 6 ARPOP_RREQUEST [2, 0, 0, 0, 0, 9] 0 [2, 0, 0, 0, 0, 9] 0"
    using l28 by (simp add: is_arp_def) (simp add: demo_request_def)
  have adm: "\<forall>x \<in> set [(Some [demo_ifreq], Rp_poll_error)]. rp_adm x" by simp
  have fr: "sll_pkttype demo_from \<in> {PACKET_BROADCAST, PACKET_MULTICAST, PACKET_HOST}" "sll_hatype demo_from = ARPHRD_ETHER" "sll_halen demo_from = 6"
    "sll_addr demo_from = [2, 0, 0, 0, 0, 9] @ [0, 0]" by (simp_all add: demo_from_def)
  have st: "rp_ifidx demo_rarpd = 0 \<or> sll_ifindex demo_from = rp_ifidx demo_rarpd" by code_simp
  have db: "lk_ethers demo_lookup [2, 0, 0, 0, 0, 9] = Some ''client''" "lk_host demo_lookup ''client'' = Some (2, 0x0900000A # [])"
    by (simp_all add: demo_lookup_def)
  have boot: "rp_only_ethers demo_rarpd \<or> bootable (lk_dir demo_lookup (rp_tftp_dir demo_rarpd)) 0x0900000A" by code_simp
  from rarpd_serves_known_client [OF demo_rarpd_main adm demo_rarpd_def len _ _ arp fr st l(1,2) db boot] l(3,4) show ?thesis by simp
qed

end
