(* ===== verification/Tracepath_Probe.thy ===== *)
theory Tracepath_Probe
  imports Clockdiff_Measure Ping_State
begin

text \<open>
  The probes of \<^verbatim>\<open>src/iputils-ns/tracepath.c\<close>: the history of probes, \<^verbatim>\<open>recverr\<close>, which empties the error queue of the
  socket, \<^verbatim>\<open>probe_ttl\<close> and the loop of \<^verbatim>\<open>main\<close> over the hops. What \<^verbatim>\<open>recvmsg\<close>, \<^verbatim>\<open>sendto\<close>, \<^verbatim>\<open>recv\<close> and \<^verbatim>\<open>gettimeofday\<close> answer
  is given as lists; a result \<open>None\<close> means that a list ends before the loop that reads it does.
\<close>

section \<open>Data\<close>

definition MAX_HOPS_LIMIT :: int where "MAX_HOPS_LIMIT = 255"
definition MAX_HOPS_DEFAULT :: int where "MAX_HOPS_DEFAULT = 30"
definition HOST_COLUMN_SIZE :: nat where "HOST_COLUMN_SIZE = 52"

definition ETIMEDOUT :: u32 where "ETIMEDOUT = 110"
definition EMSGSIZE :: u32 where "EMSGSIZE = 90"
definition ECONNREFUSED :: u32 where "ECONNREFUSED = 111"
definition EPROTO :: u32 where "EPROTO = 71"
definition EHOSTUNREACH :: u32 where "EHOSTUNREACH = 113"
definition ENETUNREACH :: u32 where "ENETUNREACH = 101"
definition EACCES :: u32 where "EACCES = 13"
definition SO_EE_ORIGIN_LOCAL :: u8 where "SO_EE_ORIGIN_LOCAL = 1"
definition SO_EE_ORIGIN_ICMP :: u8 where "SO_EE_ORIGIN_ICMP = 2"
definition SO_EE_ORIGIN_ICMP6 :: u8 where "SO_EE_ORIGIN_ICMP6 = 3"

lemmas errno_defs = ETIMEDOUT_def EMSGSIZE_def ECONNREFUSED_def EPROTO_def EHOSTUNREACH_def ENETUNREACH_def EACCES_def

record hhistory =
  hh_hops :: int
  hh_sendtime :: timeval

record probehdr =
  ph_ttl :: u32
  ph_tv :: timeval

definition sizeof_probehdr :: int where "sizeof_probehdr = 24"

text \<open>What is printed, as the format and the values passed to \<^verbatim>\<open>printf\<close>.\<close>

datatype tp_print =
    Pr_cmsg6 int | Pr_cmsg4 int | Pr_no_info | Pr_local int | Pr_hop int | Pr_hop_guess int | Pr_host string
  | Pr_time int int | Pr_broken | Pr_newline | Pr_pmtu int | Pr_reached | Pr_bang char | Pr_asymm int | Pr_net_error u32
  | Pr_reply int | Pr_send_failed int | Pr_no_reply int | Pr_too_many int | Pr_resume int "int option" "int option"

text \<open>
  The globals. \<open>tp_buf\<close> is the size \<^verbatim>\<open>pktbuf\<close> was allocated with, \<open>tp_fault\<close> whether a write has left it; \<open>tp_sent\<close> keeps
  what was passed to \<^verbatim>\<open>sendto\<close>: the target, the header of the packet (zeros follow it) and the length.
\<close>

record tracepath =
  tp_his :: "hhistory list"
  tp_hisptr :: nat
  tp_target :: "octet list"
  tp_base_port :: u16
  tp_max_hops :: int
  tp_overhead :: int
  tp_mtu :: int
  tp_hops_to :: int
  tp_hops_from :: int
  tp_no_resolve :: bool
  tp_show_both :: bool
  tp_mapped :: bool
  tp_buf :: int
  tp_fault :: bool
  tp_sent :: "(octet list \<times> probehdr \<times> int) list"
  tp_out :: "tp_print list"

definition tp_put :: "tp_print \<Rightarrow> tracepath \<Rightarrow> tracepath" where
  "tp_put x s = s\<lparr>tp_out := tp_out s @ [x]\<rparr>"

text \<open>A name, in a column of 52 characters.\<close>

definition print_host :: "string \<Rightarrow> string \<Rightarrow> bool \<Rightarrow> string" where
  "print_host a b both =
    (let txt = a @ (if both then '' ('' @ b @ '')'' else []);
         plen = length txt;
         plen1 = (if plen \<ge> HOST_COLUMN_SIZE then HOST_COLUMN_SIZE - 1 else plen)
     in txt @ replicate (HOST_COLUMN_SIZE - plen1) CHR '' '')"

section \<open>The error queue\<close>

text \<open>The extended error of a message; \<open>ee_num\<close> and \<open>ee_name\<close>: what \<^verbatim>\<open>getnameinfo\<close> says of the address behind it.\<close>

record sock_extended_err =
  ee_errno :: u32
  ee_origin :: u8
  ee_type :: u8
  ee_code :: u8
  ee_info :: u32
  ee_num :: "string option"
  ee_name :: "string option"

datatype tp_cmsg =
    Cm_recverr6 sock_extended_err | Cm_hoplimit6 int | Cm_other6 int
  | Cm_recverr4 sock_extended_err | Cm_ttl4 u8 | Cm_other4 int | Cm_level

record tp_msg =
  ms_time :: timeval
  ms_res :: int
  ms_port :: u16
  ms_hdr :: probehdr
  ms_cmsgs :: "tp_cmsg list"

datatype tp_recv = Rv_error int | Rv_msg tp_msg

text \<open>
  The slot of the history the port of the answer belongs to. The port is read from the same place of the address for both
  families, the only ones \<^verbatim>\<open>main\<close> lets through.
\<close>

definition tp_history :: "u16 \<Rightarrow> tracepath \<Rightarrow> int \<times> timeval option \<times> tracepath" where
  "tp_history port s =
    (let slot = - uint (tp_base_port s) + uint port;
         h = tp_his s ! nat slot
     in if slot \<ge> 0 \<and> slot < 63 \<and> hh_hops h \<noteq> 0
        then (hh_hops h, Some (hh_sendtime h), s\<lparr>tp_his := (tp_his s)[nat slot := h\<lparr>hh_hops := 0\<rparr>]\<rparr>)
        else (-1, None, s))"

text \<open>The payload that came back: whether the router spoilt it, and what it says of the probe.\<close>

definition tp_payload :: "tp_msg \<Rightarrow> int \<Rightarrow> timeval option \<Rightarrow> bool \<times> int \<times> timeval option" where
  "tp_payload m sndhops rettv =
    (if ms_res m = sizeof_probehdr
     then if ph_ttl (ms_hdr m) = 0 \<or> fst (ph_tv (ms_hdr m)) = 0 then (True, sndhops, rettv)
          else (False, c_int (uint (ph_ttl (ms_hdr m))), Some (ph_tv (ms_hdr m)))
     else (False, sndhops, rettv))"

fun tp_cmsgs :: "tp_cmsg list \<Rightarrow> sock_extended_err option \<Rightarrow> int \<Rightarrow> tracepath \<Rightarrow> sock_extended_err option \<times> int \<times> tracepath" where
  "tp_cmsgs [] e rethops s = (e, rethops, s)"
| "tp_cmsgs (c # cs) e rethops s =
    (case c of
       Cm_recverr6 x \<Rightarrow> tp_cmsgs cs (Some x) rethops s
     | Cm_hoplimit6 h \<Rightarrow> tp_cmsgs cs e h s
     | Cm_other6 t \<Rightarrow> tp_cmsgs cs e rethops (tp_put (Pr_cmsg6 t) s)
     | Cm_recverr4 x \<Rightarrow> tp_cmsgs cs (Some x) rethops s
     | Cm_ttl4 h \<Rightarrow> tp_cmsgs cs e (uint h) s
     | Cm_other4 t \<Rightarrow> tp_cmsgs cs e rethops (tp_put (Pr_cmsg4 t) s)
     | Cm_level \<Rightarrow> tp_cmsgs cs e rethops s)"

definition name_or_marks :: "string option \<Rightarrow> string" where
  "name_or_marks n = (case n of None \<Rightarrow> ''???'' | Some x \<Rightarrow> x)"

definition tp_origin :: "int \<Rightarrow> int \<Rightarrow> sock_extended_err \<Rightarrow> tracepath \<Rightarrow> tracepath" where
  "tp_origin ttl sndhops e s =
    (if ee_origin e = SO_EE_ORIGIN_LOCAL then tp_put (Pr_local ttl) s
     else if ee_origin e = SO_EE_ORIGIN_ICMP6 \<or> ee_origin e = SO_EE_ORIGIN_ICMP then
       (let s1 = tp_put (if sndhops > 0 then Pr_hop sndhops else Pr_hop_guess ttl) s;
            abuf = (if tp_no_resolve s \<or> tp_show_both s then name_or_marks (ee_num e) else []);
            hnamebuf = (if \<not> tp_no_resolve s \<or> tp_show_both s then name_or_marks (ee_name e) else [])
        in tp_put (Pr_host (if tp_no_resolve s then print_host abuf hnamebuf (tp_show_both s)
                            else print_host hnamebuf abuf (tp_show_both s))) s1)
     else s)"

definition tp_elapsed :: "timeval \<Rightarrow> timeval option \<Rightarrow> bool \<Rightarrow> tracepath \<Rightarrow> tracepath" where
  "tp_elapsed tv rettv broken s =
    (case rettv of
       None \<Rightarrow> s
     | Some rt \<Rightarrow>
         (let diff = c_int ((fst tv - fst rt) * 1000000 + (snd tv - snd rt));
              s1 = tp_put (Pr_time (c_div diff 1000) (c_mod diff 1000)) s
          in if broken then tp_put Pr_broken s1 else s1))"

definition back_hops :: "int \<Rightarrow> int" where
  "back_hops rethops = (if rethops \<le> 64 then 65 - rethops else if rethops \<le> 128 then 129 - rethops else 256 - rethops)"

text \<open>After a message the function returns a value or reads the next one, with the new value of \<^verbatim>\<open>progress\<close>.\<close>

datatype tp_next = Tp_again int tracepath | Tp_back int tracepath

definition time_exceeded :: "sock_extended_err \<Rightarrow> bool" where
  "time_exceeded e \<longleftrightarrow> ee_origin e = SO_EE_ORIGIN_ICMP \<and> ee_type e = 11 \<and> ee_code e = 0
     \<or> ee_origin e = SO_EE_ORIGIN_ICMP6 \<and> ee_type e = 3 \<and> ee_code e = 0"

definition tp_asymm :: "int \<Rightarrow> int \<Rightarrow> int \<Rightarrow> tracepath \<Rightarrow> tracepath" where
  "tp_asymm ttl sndhops rethops s =
    (if rethops \<ge> 0 \<and> (sndhops \<ge> 0 \<and> rethops \<noteq> sndhops \<or> sndhops < 0 \<and> rethops \<noteq> ttl) then tp_put (Pr_asymm rethops) s else s)"

definition tp_verdict :: "int \<Rightarrow> int \<Rightarrow> int \<Rightarrow> sock_extended_err \<Rightarrow> int \<Rightarrow> tracepath \<Rightarrow> tp_next" where
  "tp_verdict ttl sndhops rethops e progress s =
    (if ee_errno e = ETIMEDOUT then Tp_again progress (tp_put Pr_newline s)
     else if ee_errno e = EMSGSIZE
     then let v = c_int (uint (ee_info e)) in Tp_again v ((tp_put (Pr_pmtu v) s)\<lparr>tp_mtu := v\<rparr>)
     else if ee_errno e = ECONNREFUSED
     then Tp_back 0 ((tp_put Pr_reached s)\<lparr>tp_hops_to := (if sndhops < 0 then ttl else sndhops), tp_hops_from := rethops\<rparr>)
     else if ee_errno e = EPROTO then Tp_back 0 (tp_put (Pr_bang (CHR ''P'')) s)
     else if ee_errno e = EHOSTUNREACH
     then if time_exceeded e then Tp_again progress (tp_put Pr_newline (tp_asymm ttl sndhops rethops s))
          else Tp_back 0 (tp_put (Pr_bang (CHR ''H'')) s)
     else if ee_errno e = ENETUNREACH then Tp_back 0 (tp_put (Pr_bang (CHR ''N'')) s)
     else if ee_errno e = EACCES then Tp_back 0 (tp_put (Pr_bang (CHR ''A'')) s)
     else Tp_back 0 (tp_put (Pr_net_error (ee_errno e)) (tp_put Pr_newline s)))"

definition recverr_msg :: "int \<Rightarrow> tp_msg \<Rightarrow> tracepath \<Rightarrow> tp_next" where
  "recverr_msg ttl m s =
    (let progress = tp_mtu s;
         (hops0, tv0, s1) = tp_history (ms_port m) s;
         (broken, sndhops, rettv) = tp_payload m hops0 tv0;
         (eo, rethops, s2) = tp_cmsgs (ms_cmsgs m) None (-1) s1
     in case eo of
          None \<Rightarrow> Tp_back 0 (tp_put Pr_no_info s2)
        | Some e \<Rightarrow> tp_verdict ttl sndhops (back_hops rethops) e progress
            (tp_elapsed (ms_time m) rettv broken (tp_origin ttl sndhops e s2)))"

fun recverr_from :: "int \<Rightarrow> int \<Rightarrow> tp_recv list \<Rightarrow> tracepath \<Rightarrow> (int \<times> tracepath) option" where
  "recverr_from ttl progress [] s = None"
| "recverr_from ttl progress (Rv_error er # rs) s =
    (if er = EAGAIN then Some (progress, s) else recverr_from ttl progress rs s)"
| "recverr_from ttl progress (Rv_msg m # rs) s =
    (case recverr_msg ttl m s of Tp_back r s1 \<Rightarrow> Some (r, s1) | Tp_again p s1 \<Rightarrow> recverr_from ttl p rs s1)"

definition recverr :: "int \<Rightarrow> tp_recv list \<Rightarrow> tracepath \<Rightarrow> (int \<times> tracepath) option" where
  "recverr ttl rs s = recverr_from ttl (-1) rs s"

section \<open>One probe\<close>

definition write_buf :: "int \<Rightarrow> tracepath \<Rightarrow> tracepath" where
  "write_buf n s = (if n < 0 \<or> tp_buf s < n then s\<lparr>tp_fault := True\<rparr> else s)"

definition set_port :: "u16 \<Rightarrow> octet list \<Rightarrow> octet list" where
  "set_port p t = take 2 t @ be16_bytes p @ drop 4 t"

definition set_history :: "int \<Rightarrow> tracepath \<Rightarrow> tracepath" where
  "set_history h s = s\<lparr>tp_his := (tp_his s)[tp_hisptr s := (tp_his s ! tp_hisptr s)\<lparr>hh_hops := h\<rparr>]\<rparr>"

text \<open>
  One try: the time read before it, the result of \<^verbatim>\<open>sendto\<close>, and what \<^verbatim>\<open>recvmsg\<close> answers when it failed. A probe: its
  tries, the result of \<^verbatim>\<open>recv\<close> after the wait, and the answers of \<^verbatim>\<open>recvmsg\<close> at the end.
\<close>

record tp_try =
  ty_time :: timeval
  ty_sendto :: int
  ty_err :: "tp_recv list"

record tp_probe =
  pb_tries :: "tp_try list"
  pb_recv :: int
  pb_err :: "tp_recv list"

definition tp_send :: "int \<Rightarrow> timeval \<Rightarrow> tracepath \<Rightarrow> tracepath" where
  "tp_send ttl tv s =
    (let tgt = set_port (word_of_int (uint (tp_base_port s) + int (tp_hisptr s))) (tp_target s)
     in (write_buf sizeof_probehdr s)\<lparr>tp_target := tgt, tp_his := (tp_his s)[tp_hisptr s := \<lparr>hh_hops = ttl, hh_sendtime = tv\<rparr>],
          tp_sent := tp_sent s @ [(tgt, \<lparr>ph_ttl = word_of_int ttl, ph_tv = tv\<rparr>, tp_mtu s - tp_overhead s)]\<rparr>)"

datatype tp_tried = Tried_sent | Tried_failed | Tried_quit

fun send_tries :: "int \<Rightarrow> nat \<Rightarrow> tp_try list \<Rightarrow> tracepath \<Rightarrow> (tp_tried \<times> tracepath) option" where
  "send_tries ttl i tries s =
    (if \<not> i < 10 then Some (Tried_failed, s)
     else case tries of
       [] \<Rightarrow> None
     | t # ts \<Rightarrow>
         (let s1 = tp_send ttl (ty_time t) s in
          if ty_sendto t > 0 then Some (Tried_sent, s1)
          else case recverr ttl (ty_err t) s1 of
            None \<Rightarrow> None
          | Some (res, s2) \<Rightarrow>
              (let s3 = set_history 0 s2 in
               if res = 0 then Some (Tried_quit, s3)
               else if res > 0 then send_tries ttl 0 ts s3
               else send_tries ttl (i + 1) ts s3)))"

declare send_tries.simps [simp del]

definition next_slot :: "tracepath \<Rightarrow> tracepath" where
  "next_slot s = s\<lparr>tp_hisptr := (tp_hisptr s + 1) mod 64\<rparr>"

definition probe_ttl :: "int \<Rightarrow> tp_probe \<Rightarrow> tracepath \<Rightarrow> (int \<times> tracepath) option" where
  "probe_ttl ttl p s =
    (case send_tries ttl 0 (pb_tries p) (write_buf (tp_mtu s) s) of
       None \<Rightarrow> None
     | Some (Tried_quit, s1) \<Rightarrow> Some (0, s1)
     | Some (Tried_sent, s1) \<Rightarrow>
         (let s2 = next_slot s1 in
          if pb_recv p > 0 then Some (0, tp_put (Pr_reply ttl) (write_buf (pb_recv p) s2))
          else recverr ttl (pb_err p) s2)
     | Some (Tried_failed, s1) \<Rightarrow> Some (0, tp_put (Pr_send_failed ttl) (next_slot s1)))"

section \<open>The hops\<close>

text \<open>Three probes for a hop; a change of the packet size starts it anew.\<close>

fun probes_at :: "int \<Rightarrow> nat \<Rightarrow> int \<Rightarrow> tp_probe list \<Rightarrow> tracepath \<Rightarrow> (int \<times> tracepath \<times> tp_probe list) option" where
  "probes_at ttl i res ps s =
    (if \<not> i < 3 then Some (res, s, ps)
     else case ps of
       [] \<Rightarrow> None
     | p # ps' \<Rightarrow>
         (case probe_ttl ttl p s of
            None \<Rightarrow> None
          | Some (res1, s1) \<Rightarrow>
              (if tp_mtu s1 \<noteq> tp_mtu s then probes_at ttl 0 res1 ps' s1
               else if res1 = 0 \<or> res1 > 0 then Some (res1, s1, ps')
               else probes_at ttl (i + 1) res1 ps' s1)))"

declare probes_at.simps [simp del]

lemma probes_at_consumes: "probes_at ttl i res ps s = Some (r, s1, rest) \<Longrightarrow> i < 3 \<Longrightarrow> length rest < length ps"
proof (induction ttl i res ps s rule: probes_at.induct)
  case (1 ttl i res ps s)
  obtain p ps' res1 s1' where ps: "ps = p # ps'" and run: "probe_ttl ttl p s = Some (res1, s1')"
    using 1(3,4) by (subst (asm) probes_at.simps) (auto split: list.splits option.splits)
  show ?case
  proof (cases "tp_mtu s1' \<noteq> tp_mtu s")
    case True
    then have "length rest < length ps'"
      using 1(1)[OF _ ps run refl] 1(3,4) ps run by (subst (asm) (2) probes_at.simps) simp
    then show ?thesis using ps by simp
  next
    case same: False
    show ?thesis
    proof (cases "0 \<le> res1")
      case True
      then show ?thesis using 1(3,4) ps run same by (subst (asm) probes_at.simps) (auto split: if_splits)
    next
      case False
      then have step: "probes_at ttl (i + 1) res1 ps' s1' = Some (r, s1, rest)"
        using 1(3,4) ps run same by (subst (asm) probes_at.simps) simp
      show ?thesis
      proof (cases "i + 1 < 3")
        case True
        then show ?thesis using 1(2)[OF _ ps run refl] 1(4) same False step ps by simp
      next
        case False
        then show ?thesis using step ps by (subst (asm) probes_at.simps) simp
      qed
    qed
  qed
qed

text \<open>
  \<open>hopopt ttl\<close>: whether the hop limit can be set. The loop ends by \<^verbatim>\<open>goto done\<close>, at the last hop, or with status 1.
\<close>

datatype tp_end = End_done | End_too_many | End_exit int

function hops_loop :: "(int \<Rightarrow> bool) \<Rightarrow> int \<Rightarrow> tp_probe list \<Rightarrow> tracepath \<Rightarrow> (tp_end \<times> tracepath) option" where
  "hops_loop hopopt ttl ps s =
    (if \<not> ttl \<le> tp_max_hops s then Some (End_too_many, tp_put (Pr_too_many (tp_mtu s)) s)
     else if \<not> hopopt ttl then Some (End_exit 1, s)
     else case probes_at ttl 0 0 ps s of
       None \<Rightarrow> None
     | Some (res, s1, rest) \<Rightarrow>
         (if res = 0 then Some (End_done, s1)
          else hops_loop hopopt (ttl + 1) rest (if res < 0 then tp_put (Pr_no_reply ttl) s1 else s1)))"
  by pat_completeness auto
termination
  by (relation "measure (\<lambda>(h, ttl, ps, s). length ps)") (auto dest: probes_at_consumes)

declare hops_loop.simps [simp del]

end
