(* ===== verification/Tracepath_Main.thy ===== *)
theory Tracepath_Main
  imports Tracepath_Probe
begin

text \<open>
  The start of \<^verbatim>\<open>src/iputils-ns/tracepath.c\<close>: options, destination, socket, and \<^verbatim>\<open>main\<close> as a whole. \<open>Inl st\<close> stands for
  \<^verbatim>\<open>exit(st)\<close>. The resolver and the socket calls are arguments.
\<close>

section \<open>Options\<close>

definition TP_UNSPEC :: u16 where "TP_UNSPEC = 0"
definition TP_INET6 :: u16 where "TP_INET6 = 10"

definition tp_globals :: tracepath where
  "tp_globals = \<lparr>tp_his = replicate 64 \<lparr>hh_hops = 0, hh_sendtime = (0, 0)\<rparr>, tp_hisptr = 0, tp_target = replicate 128 0,
     tp_base_port = 0, tp_max_hops = MAX_HOPS_DEFAULT, tp_overhead = 0, tp_mtu = 0, tp_hops_to = -1, tp_hops_from = -1,
     tp_no_resolve = False, tp_show_both = False, tp_mapped = False, tp_buf = 0, tp_fault = False, tp_sent = [], tp_out = []\<rparr>"

text \<open>The family asked for by the name of the program, whose last character is looked at.\<close>

definition tp_name_family :: "string \<Rightarrow> u16" where
  "tp_name_family argv0 =
    (if argv0 \<noteq> [] \<and> last argv0 = CHR ''4'' then AF_INET else if argv0 \<noteq> [] \<and> last argv0 = CHR ''6'' then TP_INET6 else TP_UNSPEC)"

definition tp_atoi :: "string \<Rightarrow> int" where
  "tp_atoi str = c_int (strtol str)"

definition tp_option :: "char \<times> string \<Rightarrow> u16 \<times> tracepath \<Rightarrow> int + (u16 \<times> tracepath)" where
  "tp_option co fs =
    (let (ch, optarg) = co; (fam, s) = fs in
     if ch = CHR ''4'' then (if fam \<noteq> TP_UNSPEC then Inl 2 else Inr (AF_INET, s))
     else if ch = CHR ''6'' then (if fam \<noteq> TP_UNSPEC then Inl 2 else Inr (TP_INET6, s))
     else if ch = CHR ''n'' then Inr (fam, s\<lparr>tp_no_resolve := True\<rparr>)
     else if ch = CHR ''b'' then Inr (fam, s\<lparr>tp_show_both := True\<rparr>)
     else if ch = CHR ''l'' then
       (let s1 = s\<lparr>tp_mtu := tp_atoi optarg\<rparr> in if tp_mtu s1 \<le> tp_overhead s1 then Inl 1 else Inr (fam, s1))
     else if ch = CHR ''m'' then Inr (fam, s\<lparr>tp_max_hops := tp_atoi optarg\<rparr>)
     else if ch = CHR ''p'' then Inr (fam, s\<lparr>tp_base_port := word_of_int (tp_atoi optarg)\<rparr>)
     else Inl (-1))"

fun tp_options :: "(char \<times> string) list \<Rightarrow> u16 \<times> tracepath \<Rightarrow> int + (u16 \<times> tracepath)" where
  "tp_options [] fs = Inr fs"
| "tp_options (co # rest) fs = (case tp_option co fs of Inl st \<Rightarrow> Inl st | Inr fs1 \<Rightarrow> tp_options rest fs1)"

text \<open>The port behind a slash in the destination, or 44444, when no port was given; the rest is the name.\<close>

definition tp_destination :: "string \<Rightarrow> tracepath \<Rightarrow> string \<times> tracepath" where
  "tp_destination dst s =
    (if tp_base_port s \<noteq> 0 then (dst, s)
     else if CHR ''/'' \<in> set dst
     then (takeWhile (\<lambda>c. c \<noteq> CHR ''/'') dst, s\<lparr>tp_base_port := word_of_int (tp_atoi (tl (dropWhile (\<lambda>c. c \<noteq> CHR ''/'') dst)))\<rparr>)
     else (dst, s\<lparr>tp_base_port := 44444\<rparr>))"

section \<open>The socket\<close>

record tp_ai =
  ai_family :: u16
  ai_addr :: "octet list"
  ai_socket :: int

definition sizeof_sockaddr :: nat where "sizeof_sockaddr = 16"

fun tp_socket :: "tp_ai list \<Rightarrow> tracepath \<Rightarrow> (u16 \<times> tracepath) option" where
  "tp_socket [] s = None"
| "tp_socket (ai # ais) s =
    (if ai_family ai \<noteq> TP_INET6 \<and> ai_family ai \<noteq> AF_INET then tp_socket ais s
     else if ai_socket ai < 0 then tp_socket ais s
     else Some (ai_family ai, s\<lparr>tp_target := take sizeof_sockaddr (ai_addr ai) @ drop sizeof_sockaddr (tp_target s)\<rparr>))"

datatype tp_sockopt =
    So6_mtu_discover | So6_mtu_discover_again | So6_recverr | So6_hoplimit | So6_hoplimit_2292
  | So4_mtu_discover | So4_recverr | So4_recvttl

definition v4mapped :: "octet list \<Rightarrow> bool" where
  "v4mapped a \<longleftrightarrow> take 12 a = replicate 10 0 @ [0xff, 0xff]"

definition tp_setup4 :: "(tp_sockopt \<Rightarrow> bool) \<Rightarrow> tracepath \<Rightarrow> int + tracepath" where
  "tp_setup4 so s =
    (let s1 = s\<lparr>tp_overhead := 28, tp_mtu := (if tp_mtu s = 0 then 65535 else tp_mtu s)\<rparr> in
     if tp_mtu s1 \<le> tp_overhead s1 then Inl 1
     else if \<not> so So4_mtu_discover then Inl 1
     else if \<not> so So4_recverr then Inl 1
     else if \<not> so So4_recvttl then Inl 1
     else Inr s1)"

definition tp_setup6 :: "(tp_sockopt \<Rightarrow> bool) \<Rightarrow> tracepath \<Rightarrow> int + tracepath" where
  "tp_setup6 so s =
    (let s1 = s\<lparr>tp_overhead := 48, tp_mtu := (if tp_mtu s = 0 then 128000 else tp_mtu s)\<rparr> in
     if tp_mtu s1 \<le> tp_overhead s1 then Inl 1
     else if \<not> so So6_mtu_discover \<and> \<not> so So6_mtu_discover_again then Inl 1
     else if \<not> so So6_recverr then Inl 1
     else if \<not> so So6_hoplimit \<and> \<not> so So6_hoplimit_2292 then Inl 1
     else if \<not> v4mapped (drop 8 (tp_target s1)) then Inr s1
     else tp_setup4 so (s1\<lparr>tp_mapped := True\<rparr>))"

definition tp_setup :: "(tp_sockopt \<Rightarrow> bool) \<Rightarrow> u16 \<Rightarrow> tracepath \<Rightarrow> int + tracepath" where
  "tp_setup so fam s = (if fam = TP_INET6 then tp_setup6 so s else if fam = AF_INET then tp_setup4 so s else Inr s)"

definition tp_malloc :: "bool \<Rightarrow> tracepath \<Rightarrow> int + tracepath" where
  "tp_malloc mem s = (if mem then Inr (s\<lparr>tp_buf := tp_mtu s\<rparr>) else Inl 1)"

text \<open>Setting the hop limit: \<open>hops6\<close> and \<open>ttl4\<close> say for which values the two options can be set.\<close>

definition tp_hopopt :: "(int \<Rightarrow> bool) \<Rightarrow> (int \<Rightarrow> bool) \<Rightarrow> u16 \<Rightarrow> bool \<Rightarrow> int \<Rightarrow> bool" where
  "tp_hopopt hops6 ttl4 fam mapped ttl =
    (if fam = TP_INET6 then hops6 ttl \<and> (\<not> mapped \<or> ttl4 ttl) else if fam = AF_INET then ttl4 ttl else True)"

section \<open>The program\<close>

text \<open>What the system answers: the resolver for a name, a port and a family, the socket options, memory.\<close>

record tp_system =
  sy_gai :: "string \<Rightarrow> u16 \<Rightarrow> u16 \<Rightarrow> int + tp_ai list"
  sy_so :: "tp_sockopt \<Rightarrow> bool"
  sy_mem :: bool
  sy_hops6 :: "int \<Rightarrow> bool"
  sy_ttl4 :: "int \<Rightarrow> bool"

definition tp_start :: "tp_system \<Rightarrow> string \<Rightarrow> (char \<times> string) list \<Rightarrow> string list \<Rightarrow> int + (u16 \<times> tracepath)" where
  "tp_start sy argv0 opts args =
    (case tp_options opts (tp_name_family argv0, tp_globals) of
       Inl st \<Rightarrow> Inl st
     | Inr (fam, s) \<Rightarrow>
         (if length args \<noteq> 1 then Inl (-1)
          else let (dst, s1) = tp_destination (args ! 0) s in
            case sy_gai sy dst (tp_base_port s1) fam of
              Inl er \<Rightarrow> Inl 1
            | Inr ais \<Rightarrow>
                (case tp_socket ais s1 of
                   None \<Rightarrow> Inl 1
                 | Some (afam, s2) \<Rightarrow>
                     (case tp_setup (sy_so sy) afam s2 of
                        Inl st \<Rightarrow> Inl st
                      | Inr s3 \<Rightarrow>
                          (case tp_malloc (sy_mem sy) s3 of Inl st \<Rightarrow> Inl st | Inr s4 \<Rightarrow> Inr (afam, s4))))))"

definition known_hops :: "int \<Rightarrow> int option" where
  "known_hops h = (if h \<ge> 0 then Some h else None)"

definition tp_resume :: "tracepath \<Rightarrow> tracepath" where
  "tp_resume s = tp_put (Pr_resume (tp_mtu s) (known_hops (tp_hops_to s)) (known_hops (tp_hops_from s))) s"

text \<open>The exit status and the final state, the latter unless the program ends before the loop.\<close>

definition tracepath_main :: "tp_system \<Rightarrow> string \<Rightarrow> (char \<times> string) list \<Rightarrow> string list \<Rightarrow> tp_probe list
    \<Rightarrow> (int \<times> tracepath option) option" where
  "tracepath_main sy argv0 opts args ps =
    (case tp_start sy argv0 opts args of
       Inl st \<Rightarrow> Some (st, None)
     | Inr (fam, s) \<Rightarrow>
         (case hops_loop (tp_hopopt (sy_hops6 sy) (sy_ttl4 sy) fam (tp_mapped s)) 1 ps s of
            None \<Rightarrow> None
          | Some (End_exit st, s1) \<Rightarrow> Some (st, Some s1)
          | Some (_, s1) \<Rightarrow> Some (0, Some (tp_resume s1))))"

end
