(* ===== verification/Tracepath_Runs.thy ===== *)
theory Tracepath_Runs
  imports Tracepath_Main
begin

text \<open>
  What the runs of tracepath keep. The locales \<open>tp_answers\<close> and \<open>tp_steps\<close> take a relation between states that the single
  updates respect and show that \<^verbatim>\<open>recverr\<close>, \<^verbatim>\<open>probe_ttl\<close> and the loop over the hops respect it; it is interpreted on the relations behind the
  properties: unchanged globals, the packet size against the printed lines, writes within the buffer, and the history
  against the probes sent.
\<close>

section \<open>Errors named in the input\<close>

definition cmsg_errs :: "tp_cmsg list \<Rightarrow> sock_extended_err set" where
  "cmsg_errs cs = {e. Cm_recverr6 e \<in> set cs \<or> Cm_recverr4 e \<in> set cs}"

definition recv_errs :: "tp_recv list \<Rightarrow> sock_extended_err set" where
  "recv_errs rs = (\<Union>m \<in> {m. Rv_msg m \<in> set rs}. cmsg_errs (ms_cmsgs m))"

definition probe_errs :: "tp_probe \<Rightarrow> sock_extended_err set" where
  "probe_errs p = (\<Union>t \<in> set (pb_tries p). recv_errs (ty_err t)) \<union> recv_errs (pb_err p)"

lemma recv_errs_simps [simp]:
  "recv_errs [] = {}" "recv_errs (Rv_error er # rs) = recv_errs rs"
  "recv_errs (Rv_msg m # rs) = cmsg_errs (ms_cmsgs m) \<union> recv_errs rs"
  by (auto simp: recv_errs_def)

fun tp_state :: "tp_next \<Rightarrow> tracepath" where
  "tp_state (Tp_again p s) = s"
| "tp_state (Tp_back r s) = s"

lemma tp_cmsgs_err: "fst (tp_cmsgs cs e r s) = Some x \<Longrightarrow> e = Some x \<or> x \<in> cmsg_errs cs"
proof (induction cs arbitrary: e r s)
  case (Cons c cs)
  then show ?case by (cases c) (fastforce simp: cmsg_errs_def)+
qed simp

section \<open>Relations kept by runs\<close>

fun is_pmtu :: "tp_print \<Rightarrow> bool" where
  "is_pmtu (Pr_pmtu v) = True"
| "is_pmtu x = False"

locale tp_answers =
  fixes R :: "tracepath \<Rightarrow> tracepath \<Rightarrow> bool"
    and ok :: "sock_extended_err \<Rightarrow> bool"
  assumes R_refl: "R s s"
    and R_trans: "R s1 s2 \<Longrightarrow> R s2 s3 \<Longrightarrow> R s1 s3"
    and R_put: "\<not> is_pmtu x \<Longrightarrow> x \<noteq> Pr_reached \<Longrightarrow> R s (tp_put x s)"
    and R_history: "R s (snd (snd (tp_history port s)))"
    and R_pmtu: "ok e \<Longrightarrow> ee_errno e = EMSGSIZE \<Longrightarrow>
      R s ((tp_put (Pr_pmtu (c_int (uint (ee_info e)))) s)\<lparr>tp_mtu := c_int (uint (ee_info e))\<rparr>)"
    and R_reached: "R s ((tp_put Pr_reached s)\<lparr>tp_hops_to := a, tp_hops_from := b\<rparr>)"
begin

lemma R_put_after: "R s1 s2 \<Longrightarrow> \<not> is_pmtu x \<Longrightarrow> x \<noteq> Pr_reached \<Longrightarrow> R s1 (tp_put x s2)"
  using R_trans R_put by blast

lemma R_cmsgs: "R s (snd (snd (tp_cmsgs cs e r s)))"
proof (induction cs arbitrary: e r s)
  case Nil
  then show ?case by (simp add: R_refl)
next
  case (Cons c cs)
  show ?case
  proof (cases c)
    case (Cm_other6 t)
    then show ?thesis using R_trans [OF R_put [of "Pr_cmsg6 t"] Cons] by simp
  next
    case (Cm_other4 t)
    then show ?thesis using R_trans [OF R_put [of "Pr_cmsg4 t"] Cons] by simp
  qed (use Cons in simp_all)
qed

lemma R_origin: "R s (tp_origin ttl h e s)"
  by (auto simp: tp_origin_def Let_def intro!: R_put_after R_refl)

lemma R_elapsed: "R s (tp_elapsed tv rt b s)"
  by (auto simp: tp_elapsed_def Let_def intro!: R_put_after R_refl split: option.split)

lemma R_put2: "\<not> is_pmtu x \<Longrightarrow> x \<noteq> Pr_reached \<Longrightarrow> \<not> is_pmtu y \<Longrightarrow> y \<noteq> Pr_reached \<Longrightarrow> R s (tp_put x (tp_put y s))"
  by (rule R_put_after [OF R_put])

lemma R_verdict: "ok e \<Longrightarrow> R s (tp_state (tp_verdict ttl h r e p s))"
  unfolding tp_verdict_def tp_asymm_def Let_def by (simp add: R_pmtu R_reached R_put R_put2)

lemma R_msg:
  assumes "\<forall>e \<in> cmsg_errs (ms_cmsgs m). ok e"
  shows "R s (tp_state (recverr_msg ttl m s))"
proof -
  obtain h0 t0 s1 where hist: "tp_history (ms_port m) s = (h0, t0, s1)" by (metis prod_cases3)
  obtain br sh rt where pay: "tp_payload m h0 t0 = (br, sh, rt)" by (metis prod_cases3)
  obtain eo rh s2 where cm: "tp_cmsgs (ms_cmsgs m) None (-1) s1 = (eo, rh, s2)" by (metis prod_cases3)
  have s2: "R s s2" using R_trans [OF R_history R_cmsgs] hist cm by (metis snd_conv)
  show ?thesis
  proof (cases eo)
    case None
    then show ?thesis using R_put_after [OF s2] by (simp add: recverr_msg_def hist pay cm)
  next
    case (Some e)
    have "ok e" using assms tp_cmsgs_err [of "ms_cmsgs m" None "-1" s1 e] cm Some by auto
    then have "R s (tp_state (tp_verdict ttl sh (back_hops rh) e (tp_mtu s) (tp_elapsed (ms_time m) rt br (tp_origin ttl sh e s2))))"
      by (rule R_trans [OF R_trans [OF R_trans [OF s2 R_origin] R_elapsed] R_verdict])
    then show ?thesis by (simp add: recverr_msg_def hist pay cm Some)
  qed
qed

lemma R_recverr_from:
  "recverr_from ttl p rs s = Some (r, s1) \<Longrightarrow> \<forall>e \<in> recv_errs rs. ok e \<Longrightarrow> R s s1"
proof (induction ttl p rs s rule: recverr_from.induct)
  case (3 ttl p m rs s)
  have m: "R s (tp_state (recverr_msg ttl m s))" using R_msg 3(3) by simp
  show ?case
  proof (cases "recverr_msg ttl m s")
    case (Tp_again p' s')
    then show ?thesis using 3 m R_trans [of s s'] by simp
  next
    case (Tp_back r' s')
    then show ?thesis using 3(2) m by simp
  qed
qed (auto simp: R_refl split: if_splits)

lemma R_recverr: "recverr ttl rs s = Some (r, s1) \<Longrightarrow> \<forall>e \<in> recv_errs rs. ok e \<Longrightarrow> R s s1"
  unfolding recverr_def by (rule R_recverr_from)

end

text \<open>The relation is also kept by sending.\<close>

locale tp_steps = tp_answers +
  fixes okn :: "int \<Rightarrow> bool"
  assumes R_memset: "R s (write_buf (tp_mtu s) s)"
    and R_recv: "okn n \<Longrightarrow> 0 < n \<Longrightarrow> R s (write_buf n s)"
    and R_send: "R s (tp_send ttl tv s)"
    and R_unsent: "R s (set_history 0 s)"
    and R_next: "R s (next_slot s)"
begin

lemma R_tries:
  "send_tries ttl i ts s = Some (r, s1) \<Longrightarrow> \<forall>t \<in> set ts. \<forall>e \<in> recv_errs (ty_err t). ok e \<Longrightarrow> R s s1"
proof (induction ts arbitrary: i s)
  case Nil
  then show ?case by (simp add: send_tries.simps R_refl split: if_splits)
next
  case (Cons t ts)
  show ?case
  proof (cases "\<not> i < 10 \<or> ty_sendto t > 0")
    case True
    then show ?thesis using Cons(2) by (auto simp: send_tries.simps [of ttl i] Let_def R_refl R_send split: if_splits)
  next
    case False
    then obtain res s2 where rec: "recverr ttl (ty_err t) (tp_send ttl (ty_time t) s) = Some (res, s2)"
      using Cons(2) by (auto simp: send_tries.simps [of ttl i] Let_def split: option.splits)
    have s3: "R s (set_history 0 s2)"
      by (rule R_trans [OF R_trans [OF R_send R_recverr [OF rec]] R_unsent]) (use Cons(3) in simp)
    then have rest: "send_tries ttl j ts (set_history 0 s2) = Some (r, s1) \<Longrightarrow> R s s1" for j
      using Cons(1,3) R_trans [of s] by simp
    show ?thesis using False Cons(2) rec rest s3
      by (auto simp: send_tries.simps [of ttl i] Let_def split: if_splits)
  qed
qed

lemma R_probe:
  assumes "probe_ttl ttl p s = Some (r, s1)" "\<forall>e \<in> probe_errs p. ok e" "okn (pb_recv p)"
  shows "R s s1"
proof -
  obtain w s2 where tried: "send_tries ttl 0 (pb_tries p) (write_buf (tp_mtu s) s) = Some (w, s2)"
    using assms(1) by (auto simp: probe_ttl_def split: option.splits)
  have s2: "R s s2" by (rule R_trans [OF R_memset R_tries [OF tried]]) (use assms(2) in \<open>auto simp: probe_errs_def\<close>)
  have nx: "R s (next_slot s2)" using R_trans [OF s2 R_next] .
  show ?thesis
  proof (cases w)
    case Tried_sent
    show ?thesis
    proof (cases "pb_recv p > 0")
      case True
      then show ?thesis using assms(1,3) tried Tried_sent R_put_after [OF R_trans [OF nx R_recv [OF assms(3) True]]]
        by (auto simp: probe_ttl_def Let_def)
    next
      case False
      then have "recverr ttl (pb_err p) (next_slot s2) = Some (r, s1)"
        using assms(1) tried Tried_sent by (simp add: probe_ttl_def Let_def)
      then show ?thesis using R_trans [OF nx R_recverr] assms(2) by (simp add: probe_errs_def)
    qed
  next
    case Tried_failed
    then show ?thesis using assms(1) tried R_put_after [OF nx] by (auto simp: probe_ttl_def)
  next
    case Tried_quit
    then show ?thesis using assms(1) tried s2 by (auto simp: probe_ttl_def)
  qed
qed

lemma R_probes_at:
  "probes_at ttl i res ps s = Some (r, s1, rest) \<Longrightarrow> \<forall>p \<in> set ps. (\<forall>e \<in> probe_errs p. ok e) \<and> okn (pb_recv p)
    \<Longrightarrow> R s s1 \<and> set rest \<subseteq> set ps"
proof (induction ps arbitrary: i res s)
  case Nil
  then show ?case by (simp add: probes_at.simps R_refl split: if_splits)
next
  case (Cons p ps)
  show ?case
  proof (cases "i < 3")
    case False
    then show ?thesis using Cons(2) by (simp add: probes_at.simps R_refl)
  next
    case True
    then obtain res1 s2 where pr: "probe_ttl ttl p s = Some (res1, s2)"
      using Cons(2) by (auto simp: probes_at.simps [of ttl i] split: option.splits)
    then have s2: "R s s2" using Cons(3) by (intro R_probe) auto
    then have rest: "probes_at ttl j res1 ps s2 = Some (r, s1, rest) \<Longrightarrow> R s s1 \<and> set rest \<subseteq> set (p # ps)" for j
      using Cons(1)[of j res1 s2] Cons(3) R_trans [of s] by auto
    show ?thesis using True Cons(2) pr s2 rest by (auto simp: probes_at.simps [of ttl i] split: if_splits)
  qed
qed

lemma R_hops_loop:
  "hops_loop ho ttl ps s = Some (r, s1) \<Longrightarrow> \<forall>p \<in> set ps. (\<forall>e \<in> probe_errs p. ok e) \<and> okn (pb_recv p) \<Longrightarrow> R s s1"
proof (induction ho ttl ps s rule: hops_loop.induct)
  case (1 ho ttl ps s)
  show ?case
  proof (cases "ttl \<le> tp_max_hops s \<and> ho ttl")
    case False
    then show ?thesis using 1(2) R_put_after [OF R_refl] by (auto simp: hops_loop.simps [of ho ttl] R_refl split: if_splits)
  next
    case True
    then obtain res s2 rest where pr: "probes_at ttl 0 0 ps s = Some (res, s2, rest)"
      using 1(2) by (auto simp: hops_loop.simps [of ho ttl] split: option.splits)
    then have s2: "R s s2" "set rest \<subseteq> set ps" using R_probes_at 1(3) by blast+
    define s3 where "s3 = (if res < 0 then tp_put (Pr_no_reply ttl) s2 else s2)"
    have s3: "R s s3" using s2(1) R_put_after [OF s2(1)] by (simp add: s3_def)
    show ?thesis
    proof (cases "res = 0")
      case True
      then show ?thesis using \<open>ttl \<le> _ \<and> _\<close> 1(2) pr s2 by (auto simp: hops_loop.simps [of ho ttl])
    next
      case False
      then have run: "hops_loop ho (ttl + 1) rest s3 = Some (r, s1)"
        using True 1(2) pr by (simp add: hops_loop.simps [of ho ttl] s3_def)
      have "R s3 s1"
        by (rule 1(1)[OF _ _ pr refl refl False, folded s3_def, OF _ _ run]) (use True s2(2) 1(3) in auto)
      then show ?thesis using R_trans s3 by blast
    qed
  qed
qed

end

end
