(* ===== verification/Tracepath_Kept.thy ===== *)
theory Tracepath_Kept
  imports Tracepath_Runs Clockdiff_Runs
begin

text \<open>The relations that the runs of tracepath keep, each with its interpretation of \<open>tp_steps\<close>.\<close>

lemmas tp_op_defs = tp_put_def tp_history_def write_buf_def tp_send_def set_history_def next_slot_def Let_def

section \<open>Globals that stay as they are\<close>

definition same_conf :: "tracepath \<Rightarrow> tracepath \<Rightarrow> bool" where
  "same_conf s s1 \<longleftrightarrow> tp_base_port s1 = tp_base_port s \<and> tp_max_hops s1 = tp_max_hops s \<and> tp_overhead s1 = tp_overhead s
     \<and> tp_buf s1 = tp_buf s \<and> tp_mapped s1 = tp_mapped s"

interpretation conf: tp_steps same_conf "\<lambda>e. True" "\<lambda>n. True"
  by unfold_locales (auto simp: same_conf_def tp_op_defs)

section \<open>The packet size and the lines printed\<close>

text \<open>The sizes printed as \<^verbatim>\<open>pmtu\<close>, in order.\<close>

fun pmtus :: "tp_print list \<Rightarrow> int list" where
  "pmtus [] = []"
| "pmtus (Pr_pmtu v # xs) = v # pmtus xs"
| "pmtus (x # xs) = pmtus xs"

lemma pmtus_other [simp]: "\<not> is_pmtu x \<Longrightarrow> pmtus (x # xs) = pmtus xs"
  by (cases x) auto

lemma pmtus_append [simp]: "pmtus (xs @ ys) = pmtus xs @ pmtus ys"
  by (induction xs rule: pmtus.induct) auto

lemma last_Cons_append: "last (last (a # xs) # ys) = last (a # xs @ ys)"
  by (cases ys) auto

definition size_printed :: "tracepath \<Rightarrow> tracepath \<Rightarrow> bool" where
  "size_printed s s1 \<longleftrightarrow> (\<exists>out. tp_out s1 = tp_out s @ out \<and> tp_mtu s1 = last (tp_mtu s # pmtus out)
     \<and> (Pr_reached \<notin> set out \<longrightarrow> tp_hops_to s1 = tp_hops_to s \<and> tp_hops_from s1 = tp_hops_from s))"

lemma size_printed_quiet:
  "tp_out s1 = tp_out s \<Longrightarrow> tp_mtu s1 = tp_mtu s \<Longrightarrow> tp_hops_to s1 = tp_hops_to s \<Longrightarrow> tp_hops_from s1 = tp_hops_from s
    \<Longrightarrow> size_printed s s1"
  unfolding size_printed_def by (rule exI [of _ "[]"]) simp

lemma size_printed_one:
  "tp_out s1 = tp_out s @ [x] \<Longrightarrow> tp_mtu s1 = last (tp_mtu s # pmtus [x])
    \<Longrightarrow> x = Pr_reached \<or> tp_hops_to s1 = tp_hops_to s \<and> tp_hops_from s1 = tp_hops_from s \<Longrightarrow> size_printed s s1"
  unfolding size_printed_def by (rule exI [of _ "[x]"]) auto

lemma size_printed_trans:
  assumes "size_printed s1 s2" "size_printed s2 s3"
  shows "size_printed s1 s3"
proof -
  obtain o1 o2 where o: "tp_out s2 = tp_out s1 @ o1" "tp_out s3 = tp_out s2 @ o2"
    and m: "tp_mtu s2 = last (tp_mtu s1 # pmtus o1)" "tp_mtu s3 = last (tp_mtu s2 # pmtus o2)"
    and h: "Pr_reached \<notin> set o1 \<longrightarrow> tp_hops_to s2 = tp_hops_to s1 \<and> tp_hops_from s2 = tp_hops_from s1"
      "Pr_reached \<notin> set o2 \<longrightarrow> tp_hops_to s3 = tp_hops_to s2 \<and> tp_hops_from s3 = tp_hops_from s2"
    using assms unfolding size_printed_def by blast
  have "tp_mtu s3 = last (tp_mtu s1 # pmtus (o1 @ o2))"
    using m last_Cons_append [of "tp_mtu s1" "pmtus o1"] by simp
  then show ?thesis unfolding size_printed_def using o h by (intro exI [of _ "o1 @ o2"]) simp
qed

interpretation printed: tp_steps size_printed "\<lambda>e. True" "\<lambda>n. True"
proof unfold_locales
  show "size_printed s (tp_put x s)" if "\<not> is_pmtu x" for x s
    by (rule size_printed_one [of _ _ x]) (use that in \<open>auto simp: tp_put_def\<close>)
  show "size_printed s ((tp_put (Pr_pmtu v) s)\<lparr>tp_mtu := v\<rparr>)" for v s
    by (rule size_printed_one [of _ _ "Pr_pmtu v"]) (auto simp: tp_put_def)
  show "size_printed s ((tp_put Pr_reached s)\<lparr>tp_hops_to := a, tp_hops_from := b\<rparr>)" for s a b
    by (rule size_printed_one [of _ _ Pr_reached]) (auto simp: tp_put_def)
qed (rule size_printed_quiet size_printed_trans; (simp add: tp_op_defs)?; assumption?)+

section \<open>The buffer\<close>

text \<open>Nothing was written outside the buffer of \<open>N\<close> bytes, and the next packet fits into it.\<close>

definition buf_safe :: "int \<Rightarrow> tracepath \<Rightarrow> bool" where
  "buf_safe N s \<longleftrightarrow> tp_buf s = N \<and> sizeof_probehdr \<le> N \<and> \<not> tp_fault s \<and> 0 \<le> tp_mtu s \<and> tp_mtu s \<le> N"

definition keeps_buf :: "int \<Rightarrow> tracepath \<Rightarrow> tracepath \<Rightarrow> bool" where
  "keeps_buf N s s1 \<longleftrightarrow> (buf_safe N s \<longrightarrow> buf_safe N s1)"

definition size_fits :: "int \<Rightarrow> sock_extended_err \<Rightarrow> bool" where
  "size_fits N e \<longleftrightarrow> (ee_errno e = EMSGSIZE \<longrightarrow> uint (ee_info e) \<le> N \<and> uint (ee_info e) < 2 ^ 31)"

lemma c_int_uint_small: "uint (w :: u32) < 2 ^ 31 \<Longrightarrow> c_int (uint w) = uint w"
  by (rule c_int_small) simp

interpretation buf: tp_steps "keeps_buf N" "size_fits N" "\<lambda>n. n \<le> N" for N
proof unfold_locales
  show "keeps_buf N s ((tp_put (Pr_pmtu (c_int (uint (ee_info e)))) s)\<lparr>tp_mtu := c_int (uint (ee_info e))\<rparr>)"
    if "size_fits N e" "ee_errno e = EMSGSIZE" for e s
    using that c_int_uint_small [of "ee_info e"] by (auto simp: keeps_buf_def buf_safe_def size_fits_def tp_put_def)
qed (auto simp: keeps_buf_def buf_safe_def tp_op_defs sizeof_probehdr_def)

section \<open>The history\<close>

definition port_of :: "octet list \<Rightarrow> octet list" where
  "port_of t = take 2 (drop 2 t)"

text \<open>The last probe sent to a port.\<close>

definition latest_probe :: "u16 \<Rightarrow> (octet list \<times> probehdr \<times> int) list \<Rightarrow> probehdr option" where
  "latest_probe port sent = map_option (fst \<circ> snd) (find (\<lambda>x. port_of (fst x) = be16_bytes port) (rev sent))"

definition slot_port :: "tracepath \<Rightarrow> nat \<Rightarrow> u16" where
  "slot_port s k = word_of_int (uint (tp_base_port s) + int k)"

text \<open>Every slot in use holds the hop count and the time of the last probe to its port.\<close>

definition his_ok :: "tracepath \<Rightarrow> bool" where
  "his_ok s \<longleftrightarrow> length (tp_his s) = 64 \<and> tp_hisptr s < 64 \<and> 4 \<le> length (tp_target s)
     \<and> (\<forall>k < 64. hh_hops (tp_his s ! k) \<noteq> 0 \<longrightarrow> latest_probe (slot_port s k) (tp_sent s)
          = Some \<lparr>ph_ttl = word_of_int (hh_hops (tp_his s ! k)), ph_tv = hh_sendtime (tp_his s ! k)\<rparr>)"

definition keeps_his :: "tracepath \<Rightarrow> tracepath \<Rightarrow> bool" where
  "keeps_his s s1 \<longleftrightarrow> (his_ok s \<longrightarrow> his_ok s1)"

lemma be16_bytes_inj: "be16_bytes v = be16_bytes w \<longleftrightarrow> v = w"
  using be_value_be16 word_uint_eq_iff by metis

lemma port_of_set_port [simp]: "2 \<le> length t \<Longrightarrow> port_of (set_port p t) = be16_bytes p"
  by (simp add: port_of_def set_port_def)

lemma slot_port_inj: "j < 64 \<Longrightarrow> k < 64 \<Longrightarrow> slot_port s j = slot_port s k \<longleftrightarrow> j = k"
proof -
  assume "j < 64" "k < 64"
  then have "unat (of_nat j :: u16) = j" "unat (of_nat k :: u16) = k" by (simp_all add: unat_of_nat)
  then have "(of_nat j :: u16) = of_nat k \<longleftrightarrow> j = k" by metis
  then show ?thesis by (simp add: slot_port_def)
qed

lemma latest_probe_snoc:
  "latest_probe p (sent @ [(t, h, n)]) = (if port_of t = be16_bytes p then Some h else latest_probe p sent)"
  by (simp add: latest_probe_def)

lemma his_ok_cong:
  "tp_sent s1 = tp_sent s \<Longrightarrow> tp_base_port s1 = tp_base_port s \<Longrightarrow> tp_his s1 = tp_his s \<Longrightarrow> tp_target s1 = tp_target s
    \<Longrightarrow> tp_hisptr s1 = tp_hisptr s \<or> tp_hisptr s1 < 64 \<Longrightarrow> keeps_his s s1"
  by (auto simp: keeps_his_def his_ok_def slot_port_def)

lemma his_ok_clear:
  assumes "hh_hops h = 0"
  shows "keeps_his s (s\<lparr>tp_his := (tp_his s)[k := h]\<rparr>)"
proof -
  have "(tp_his s)[k := h] ! j = tp_his s ! j" if "hh_hops ((tp_his s)[k := h] ! j) \<noteq> 0" "j < length (tp_his s)" for j
    using assms that by (cases "k = j") auto
  then show ?thesis by (auto simp: keeps_his_def his_ok_def slot_port_def)
qed

lemma tp_history_keeps: "keeps_his s (snd (snd (tp_history port s)))"
  by (simp add: tp_history_def Let_def his_ok_clear his_ok_cong)

lemma tp_send_keeps: "keeps_his s (tp_send ttl tv s)"
proof -
  define p where "p = slot_port s (tp_hisptr s)"
  define s1 where "s1 = tp_send ttl tv s"
  have s1: "tp_his s1 = (tp_his s)[tp_hisptr s := \<lparr>hh_hops = ttl, hh_sendtime = tv\<rparr>]" "tp_hisptr s1 = tp_hisptr s"
    "tp_target s1 = set_port p (tp_target s)" "slot_port s1 k = slot_port s k"
    "tp_sent s1 = tp_sent s @ [(set_port p (tp_target s), \<lparr>ph_ttl = word_of_int ttl, ph_tv = tv\<rparr>, tp_mtu s - tp_overhead s)]" for k
    by (simp_all add: s1_def tp_send_def Let_def p_def slot_port_def write_buf_def)
  have "his_ok s1" if h: "his_ok s"
  proof -
    have len: "2 \<le> length (tp_target s)" "4 \<le> length (set_port p (tp_target s))" using h by (simp_all add: his_ok_def set_port_def)
    have "latest_probe (slot_port s1 k) (tp_sent s1)
        = Some \<lparr>ph_ttl = word_of_int (hh_hops (tp_his s1 ! k)), ph_tv = hh_sendtime (tp_his s1 ! k)\<rparr>"
      if k: "k < 64" "hh_hops (tp_his s1 ! k) \<noteq> 0" for k
    proof (cases "k = tp_hisptr s")
      case True
      then show ?thesis using h len k by (simp add: s1 latest_probe_snoc p_def his_ok_def)
    next
      case False
      then have "be16_bytes p \<noteq> be16_bytes (slot_port s k)"
        using h k slot_port_inj [of k "tp_hisptr s" s] unfolding be16_bytes_inj p_def his_ok_def by metis
      then show ?thesis using h len k False by (simp add: s1 latest_probe_snoc his_ok_def)
    qed
    then show ?thesis using h len unfolding his_ok_def by (simp add: s1)
  qed
  then show ?thesis by (simp add: keeps_his_def s1_def)
qed

interpretation his: tp_steps keeps_his "\<lambda>e. True" "\<lambda>n. True"
proof unfold_locales
  show "keeps_his s1 s3" if "keeps_his s1 s2" "keeps_his s2 s3" for s1 s2 s3 using that by (simp add: keeps_his_def)
  show "keeps_his s (set_history 0 s)" for s unfolding set_history_def by (rule his_ok_clear) simp
  show "keeps_his s (next_slot s)" for s unfolding next_slot_def by (rule his_ok_cong) simp_all
qed (rule tp_history_keeps tp_send_keeps his_ok_cong; simp add: tp_put_def write_buf_def)+

end
