(* ===== verification/Tracepath_Ends.thy ===== *)
theory Tracepath_Ends
  imports Tracepath_Kept
begin

text \<open>The state tracepath starts its loop in, and that its loops end.\<close>

section \<open>The start\<close>

definition tp_fresh :: "tracepath \<Rightarrow> bool" where
  "tp_fresh s \<longleftrightarrow> tp_his s = tp_his tp_globals \<and> tp_hisptr s = 0 \<and> tp_target s = replicate 128 0 \<and> tp_overhead s = 0
     \<and> tp_hops_to s = -1 \<and> tp_hops_from s = -1 \<and> \<not> tp_mapped s \<and> \<not> tp_fault s \<and> tp_sent s = [] \<and> tp_out s = [] \<and> 0 \<le> tp_mtu s"

lemma tp_option_fresh: "tp_option co (f, s) = Inr (f1, s1) \<Longrightarrow> tp_fresh s \<Longrightarrow> tp_fresh s1"
  by (auto simp: tp_option_def tp_fresh_def Let_def split: if_splits prod.splits)

lemma tp_options_fresh: "tp_options opts (f, s) = Inr (f1, s1) \<Longrightarrow> tp_fresh s \<Longrightarrow> tp_fresh s1"
proof (induction opts arbitrary: f s)
  case (Cons co opts)
  then show ?case by (auto split: sum.splits dest: tp_option_fresh)
qed simp

lemma tp_destination_fresh: "tp_fresh s \<Longrightarrow> tp_fresh (snd (tp_destination dst s))"
  by (simp add: tp_destination_def tp_fresh_def)

lemma tp_socket_target:
  "tp_socket ais s = Some (f, s1) \<Longrightarrow> (f = TP_INET6 \<or> f = AF_INET) \<and> (\<exists>ai \<in> set ais. ai_family ai = f \<and> 0 \<le> ai_socket ai
     \<and> s1 = s\<lparr>tp_target := take 16 (ai_addr ai) @ drop 16 (tp_target s)\<rparr>)"
  by (induction ais) (auto simp: sizeof_sockaddr_def split: if_splits)

text \<open>The bytes that tell a mapped address are beyond the 16 that were copied.\<close>

lemma v4mapped_never: "\<not> v4mapped (drop 8 (take 16 a @ replicate 112 0))"
proof
  define x where "x = take 16 a @ replicate 112 0"
  have "x ! 19 = 0" "20 \<le> length x" by (auto simp: x_def nth_append)
  moreover assume "v4mapped (drop 8 (take 16 a @ replicate 112 0))"
  then have "take 12 (drop 8 x) ! 11 = (replicate 10 0 @ [0xff, 0xff :: octet]) ! 11" by (simp add: v4mapped_def x_def)
  ultimately show False by (simp add: nth_append)
qed

lemma tp_setup_cases:
  assumes "tp_setup so f s = Inr s1" "f = TP_INET6 \<or> f = AF_INET" "\<not> v4mapped (drop 8 (tp_target s))" "0 \<le> tp_mtu s"
  shows "\<exists>v h. s1 = s\<lparr>tp_overhead := h, tp_mtu := v\<rparr> \<and> h = (if f = TP_INET6 then 48 else 28) \<and> h < v
    \<and> v = (if tp_mtu s \<noteq> 0 then tp_mtu s else if f = TP_INET6 then 128000 else 65535)"
  using assms by (auto simp: tp_setup_def tp_setup6_def tp_setup4_def Let_def TP_INET6_def AF_INET_def split: if_splits)

text \<open>The loop starts with nothing sent or printed and a buffer of the size of the packets.\<close>

definition tp_ready :: "tracepath \<Rightarrow> bool" where
  "tp_ready s \<longleftrightarrow> his_ok s \<and> tp_hisptr s = 0 \<and> tp_hops_to s = -1 \<and> tp_hops_from s = -1 \<and> tp_sent s = [] \<and> tp_out s = []
     \<and> \<not> tp_fault s \<and> \<not> tp_mapped s \<and> tp_overhead s \<in> {28, 48} \<and> tp_overhead s < tp_mtu s \<and> tp_buf s = tp_mtu s"

lemma tp_start_parts:
  assumes "tp_start sy argv0 opts args = Inr (f, s)"
  obtains f0 s0 dst s1 ais ai v h where "tp_options opts (tp_name_family argv0, tp_globals) = Inr (f0, s0)"
    "tp_destination (args ! 0) s0 = (dst, s1)" "sy_gai sy dst (tp_base_port s1) f0 = Inr ais" "ai \<in> set ais" "ai_family ai = f"
    "f = TP_INET6 \<or> f = AF_INET" "tp_fresh s1" "h = (if f = TP_INET6 then 48 else 28)" "h < v"
    "v = (if tp_mtu s1 \<noteq> 0 then tp_mtu s1 else if f = TP_INET6 then 128000 else 65535)"
    "s = s1\<lparr>tp_target := take 16 (ai_addr ai) @ replicate 112 0, tp_overhead := h, tp_mtu := v, tp_buf := v\<rparr>"
proof -
  obtain f0 s0 where opt: "tp_options opts (tp_name_family argv0, tp_globals) = Inr (f0, s0)"
    using assms by (auto simp: tp_start_def split: sum.splits)
  obtain dst s1 where dst: "tp_destination (args ! 0) s0 = (dst, s1)" by fastforce
  obtain ais s2 s3 where ais: "sy_gai sy dst (tp_base_port s1) f0 = Inr ais" and sk: "tp_socket ais s1 = Some (f, s2)"
    and su: "tp_setup (sy_so sy) f s2 = Inr s3" and s: "s = s3\<lparr>tp_buf := tp_mtu s3\<rparr>"
    using assms opt dst by (auto simp: tp_start_def tp_malloc_def split: sum.splits option.splits if_splits)
  have "tp_fresh tp_globals" by (simp add: tp_fresh_def tp_globals_def)
  then have fr: "tp_fresh s1" using tp_destination_fresh [of s0 "args ! 0"] tp_options_fresh [OF opt] dst by simp
  obtain ai where ai: "f = TP_INET6 \<or> f = AF_INET" "ai \<in> set ais" "ai_family ai = f"
      "s2 = s1\<lparr>tp_target := take 16 (ai_addr ai) @ replicate 112 0\<rparr>"
    using tp_socket_target [OF sk] fr by (auto simp: tp_fresh_def)
  have "\<not> v4mapped (drop 8 (tp_target s2))" "0 \<le> tp_mtu s2" using v4mapped_never fr ai by (simp_all add: tp_fresh_def)
  from tp_setup_cases [OF su ai(1) this] obtain v h where "s3 = s2\<lparr>tp_overhead := h, tp_mtu := v\<rparr>"
    "h = (if f = TP_INET6 then 48 else 28)" "h < v" "v = (if tp_mtu s2 \<noteq> 0 then tp_mtu s2 else if f = TP_INET6 then 128000 else 65535)"
    by blast
  then show thesis using ai(4) s by (intro that [OF opt dst ais ai(2,3,1) fr, of h v]) simp_all
qed

lemma tp_start_ready:
  assumes "tp_start sy argv0 opts args = Inr (f, s)"
  shows "tp_ready s"
  using assms
proof (rule tp_start_parts)
  fix s1 ai v and h :: int
  assume "tp_fresh s1" "h = (if f = TP_INET6 then 48 else 28)" "h < v"
    "s = s1\<lparr>tp_target := take 16 (ai_addr ai) @ replicate 112 0, tp_overhead := h, tp_mtu := v, tp_buf := v\<rparr>"
  then show ?thesis by (simp add: tp_ready_def tp_fresh_def his_ok_def tp_globals_def)
qed

section \<open>Ends of the loops\<close>

text \<open>
  The error queue is empty in the end. This is a condition on the system: when \<^verbatim>\<open>recvmsg\<close> fails for another reason for ever, or
  messages come for ever, \<^verbatim>\<open>recverr\<close> does not return.
\<close>

definition drained :: "tp_recv list \<Rightarrow> bool" where
  "drained rs \<longleftrightarrow> Rv_error EAGAIN \<in> set rs"

lemma recverr_from_ends: "drained rs \<Longrightarrow> \<exists>r. recverr_from ttl p rs s = Some r"
  by (induction ttl p rs s rule: recverr_from.induct) (auto simp: drained_def split: tp_next.splits)

lemma recverr_ends: "drained rs \<Longrightarrow> \<exists>r s1. recverr ttl rs s = Some (r, s1)"
  using recverr_from_ends [of rs ttl "-1" s] by (auto simp: recverr_def)

definition noisy :: "tp_try \<Rightarrow> bool" where
  "noisy t \<longleftrightarrow> (\<exists>m. Rv_msg m \<in> set (ty_err t))"

lemma recverr_from_quiet: "(\<forall>m. Rv_msg m \<notin> set rs) \<Longrightarrow> recverr_from ttl p rs s = Some (r, s1) \<Longrightarrow> r = p"
  by (induction ttl p rs s rule: recverr_from.induct) (auto split: if_splits)

text \<open>
  Ten tries without an error message end the loop of \<^verbatim>\<open>probe_ttl\<close>, and each message may start it anew.
\<close>

definition tries_suffice :: "tp_try list \<Rightarrow> bool" where
  "tries_suffice ts \<longleftrightarrow> (\<forall>t \<in> set ts. drained (ty_err t))
     \<and> ((\<exists>t \<in> set ts. 0 < ty_sendto t) \<or> 10 + 10 * length (filter noisy ts) \<le> length ts)"

lemma send_tries_ends:
  "\<forall>t \<in> set ts. drained (ty_err t) \<Longrightarrow>
    (\<exists>t \<in> set ts. 0 < ty_sendto t) \<or> 10 + 10 * length (filter noisy ts) \<le> length ts + i \<Longrightarrow>
    \<exists>r s1. send_tries ttl i ts s = Some (r, s1)"
proof (induction ts arbitrary: i s)
  case Nil
  then show ?case by (simp add: send_tries.simps)
next
  case (Cons t ts)
  show ?case
  proof (cases "\<not> i < 10 \<or> 0 < ty_sendto t")
    case True
    then show ?thesis by (auto simp: send_tries.simps [of ttl i] Let_def)
  next
    case False
    obtain res s2 where rec: "recverr ttl (ty_err t) (tp_send ttl (ty_time t) s) = Some (res, s2)"
      using recverr_ends Cons(2) by (metis list.set_intros(1))
    have again: "\<exists>r s1. send_tries ttl j ts (set_history 0 s2) = Some (r, s1)"
      if "noisy t \<or> j = i + 1" for j
      by (rule Cons(1)) (use Cons(2,3) False that in \<open>auto split: if_splits\<close>)
    have "noisy t" if "0 < res"
      using that recverr_from_quiet [of "ty_err t" ttl "-1"] rec by (fastforce simp: noisy_def recverr_def)
    then show ?thesis using False rec again [of 0] again [of "i + 1"] by (simp add: send_tries.simps [of ttl i] Let_def)
  qed
qed

definition probe_suffices :: "tp_probe \<Rightarrow> bool" where
  "probe_suffices p \<longleftrightarrow> tries_suffice (pb_tries p) \<and> drained (pb_err p)"

lemma probe_ttl_ends: "probe_suffices p \<Longrightarrow> \<exists>r s1. probe_ttl ttl p s = Some (r, s1)"
  using send_tries_ends [of "pb_tries p" 0 ttl "write_buf (tp_mtu s) s"] recverr_ends [of "pb_err p" ttl]
  by (auto simp: probe_suffices_def tries_suffice_def probe_ttl_def Let_def split: tp_tried.split)

text \<open>The packet size changes only in a probe with a message that says so.\<close>

definition resized :: "tp_probe \<Rightarrow> bool" where
  "resized p \<longleftrightarrow> (\<exists>e \<in> probe_errs p. ee_errno e = EMSGSIZE)"

definition keeps_size :: "tracepath \<Rightarrow> tracepath \<Rightarrow> bool" where
  "keeps_size s s1 \<longleftrightarrow> tp_mtu s1 = tp_mtu s"

interpretation unsized: tp_steps keeps_size "\<lambda>e. ee_errno e \<noteq> EMSGSIZE" "\<lambda>n. True"
  by unfold_locales (auto simp: keeps_size_def tp_op_defs)

lemma probe_same_size: "probe_ttl ttl p s = Some (r, s1) \<Longrightarrow> \<not> resized p \<Longrightarrow> tp_mtu s1 = tp_mtu s"
  using unsized.R_probe by (auto simp: resized_def keeps_size_def)

lemma probes_at_ends:
  "\<forall>p \<in> set ps. probe_suffices p \<Longrightarrow> i < 3 \<Longrightarrow> 3 * K + 3 + 3 * length (filter resized ps) \<le> length ps + i \<Longrightarrow>
    \<exists>r s1 rest. probes_at ttl i res ps s = Some (r, s1, rest) \<and> set rest \<subseteq> set ps
      \<and> 3 * K + 3 * length (filter resized rest) \<le> length rest"
proof (induction ps arbitrary: i res s)
  case (Cons p ps)
  obtain r1 s1 where pr: "probe_ttl ttl p s = Some (r1, s1)" using probe_ttl_ends Cons(2) by (metis list.set_intros(1))
  have more: "\<exists>r s2 rest. probes_at ttl j r1 ps s1 = Some (r, s2, rest) \<and> set rest \<subseteq> set (p # ps)
      \<and> 3 * K + 3 * length (filter resized rest) \<le> length rest"
    if j: "j < 3" "j = i + 1 \<or> resized p" for j
  proof -
    have "3 * K + 3 + 3 * length (filter resized ps) \<le> length ps + j" using j Cons(3,4) by (auto split: if_splits)
    then show ?thesis using Cons(1)[of j r1 s1] Cons(2) j(1) by (auto 4 4)
  qed
  consider (new) "tp_mtu s1 \<noteq> tp_mtu s" | (stop) "tp_mtu s1 = tp_mtu s" "0 \<le> r1"
    | (go) "tp_mtu s1 = tp_mtu s" "r1 < 0" "i + 1 < 3" | (out) "tp_mtu s1 = tp_mtu s" "r1 < 0" "\<not> i + 1 < 3" by linarith
  then show ?case
  proof cases
    case new
    then have "resized p" using probe_same_size [OF pr] by blast
    then show ?thesis using more [of 0] new pr Cons(3) by (simp add: probes_at.simps [of ttl i])
  next
    case stop
    then have "probes_at ttl i res (p # ps) s = Some (r1, s1, ps)" using pr Cons(3) by (auto simp: probes_at.simps [of ttl i])
    then show ?thesis using Cons(3,4) by (auto split: if_splits)
  next
    case go
    then show ?thesis using more [of "i + 1"] pr Cons(3) by (simp add: probes_at.simps [of ttl i])
  next
    case out
    then have "probes_at ttl i res (p # ps) s = Some (r1, s1, ps)"
      using pr Cons(3) by (simp add: probes_at.simps [of ttl i] probes_at.simps [of ttl "Suc i"])
    then show ?thesis using Cons(3,4) by (auto split: if_splits)
  qed
qed simp

lemma hops_loop_ends:
  "\<forall>p \<in> set ps. probe_suffices p \<Longrightarrow> 3 * nat (tp_max_hops s + 1 - ttl) + 3 * length (filter resized ps) \<le> length ps
    \<Longrightarrow> \<exists>r s1. hops_loop ho ttl ps s = Some (r, s1)"
proof (induction "nat (tp_max_hops s + 1 - ttl)" arbitrary: ttl ps s)
  case 0
  then show ?case by (simp add: hops_loop.simps)
next
  case (Suc K)
  then have le: "ttl \<le> tp_max_hops s" by linarith
  have K: "K = nat (tp_max_hops s + 1 - (ttl + 1))" using Suc(2) by linarith
  show ?case
  proof (cases "ho ttl")
    case False
    then show ?thesis using le by (simp add: hops_loop.simps)
  next
    case True
    have "3 * K + 3 + 3 * length (filter resized ps) \<le> length ps + 0" using Suc(2,4) by linarith
    then obtain r s1 rest where pr: "probes_at ttl 0 0 ps s = Some (r, s1, rest)" "set rest \<subseteq> set ps"
        "3 * K + 3 * length (filter resized rest) \<le> length rest"
      using probes_at_ends [OF Suc(3), of 0 K ttl 0 s] by auto
    define s2 where "s2 = (if r < 0 then tp_put (Pr_no_reply ttl) s1 else s1)"
    have "tp_max_hops s2 = tp_max_hops s" using conf.R_probes_at [OF pr(1)] by (simp add: s2_def same_conf_def tp_put_def)
    then have "\<exists>r s3. hops_loop ho (ttl + 1) rest s2 = Some (r, s3)"
      using Suc(1)[of s2 "ttl + 1" rest] K pr Suc(3) by auto
    then show ?thesis using le True pr(1) by (auto simp: hops_loop.simps [of ho ttl] s2_def)
  qed
qed

end
