(* ===== verification/Tracepath_Paths.thy ===== *)
theory Tracepath_Paths
  imports Tracepath_Ends
begin

text \<open>
  What tracepath finds on a path that answers: every router reports that the hop limit was exceeded, the destination that
  nobody listens on the port, and at each distance at most two probes are lost before.
\<close>

section \<open>Answers\<close>

definition msg_error :: "tp_msg \<Rightarrow> sock_extended_err option" where
  "msg_error m = fst (tp_cmsgs (ms_cmsgs m) None (-1) tp_globals)"

definition msg_back :: "tp_msg \<Rightarrow> int" where
  "msg_back m = back_hops (fst (snd (tp_cmsgs (ms_cmsgs m) None (-1) tp_globals)))"

definition passes :: "tp_msg \<Rightarrow> bool" where
  "passes m \<longleftrightarrow> (case msg_error m of None \<Rightarrow> False | Some e \<Rightarrow> ee_errno e = EHOSTUNREACH \<and> time_exceeded e)"

definition arrives :: "tp_msg \<Rightarrow> bool" where
  "arrives m \<longleftrightarrow> (case msg_error m of None \<Rightarrow> False | Some e \<Rightarrow> ee_errno e = ECONNREFUSED)"

text \<open>The message tells of the probe with this hop count: its payload is missing, spoilt or that of the probe.\<close>

definition quotes :: "int \<Rightarrow> tp_msg \<Rightarrow> bool" where
  "quotes ttl m \<longleftrightarrow> (ms_res m = sizeof_probehdr \<longrightarrow>
     ph_ttl (ms_hdr m) = 0 \<or> fst (ph_tv (ms_hdr m)) = 0 \<or> ph_ttl (ms_hdr m) = word_of_int ttl)"

lemma tp_cmsgs_any: "fst (tp_cmsgs cs e r s) = fst (tp_cmsgs cs e r s')" "fst (snd (tp_cmsgs cs e r s)) = fst (snd (tp_cmsgs cs e r s'))"
proof (induction cs arbitrary: e r s s')
  case (Cons c cs)
  { case 1 then show ?case using Cons(1) by (cases c) auto }
  { case 2 then show ?case using Cons(2) by (cases c) auto }
qed auto

lemma tp_cmsgs_msg:
  "tp_cmsgs (ms_cmsgs m) None (-1) s = (msg_error m, rh, s1) \<and> back_hops rh = msg_back m"
  if "tp_cmsgs (ms_cmsgs m) None (-1) s = (eo, rh, s1)" for m s eo rh s1
  using that tp_cmsgs_any [of "ms_cmsgs m" None "-1" s tp_globals] by (simp add: msg_error_def msg_back_def)

text \<open>What an answer means to the caller; the position in the history and the size are as before.\<close>

definition same_place :: "tracepath \<Rightarrow> tracepath \<Rightarrow> bool" where
  "same_place s s1 \<longleftrightarrow> tp_hisptr s1 = tp_hisptr s \<and> tp_sent s1 = tp_sent s \<and> tp_base_port s1 = tp_base_port s
     \<and> tp_max_hops s1 = tp_max_hops s"

interpretation place: tp_answers same_place "\<lambda>e. True"
  by unfold_locales (auto simp: same_place_def tp_op_defs)

lemma tp_mtu_same [simp]:
  "tp_mtu (snd (snd (tp_history port s))) = tp_mtu s" "tp_mtu (snd (snd (tp_cmsgs cs eo r s))) = tp_mtu s"
  "tp_mtu (tp_origin ttl h e s) = tp_mtu s" "tp_mtu (tp_elapsed tv rt b s) = tp_mtu s" "tp_mtu (tp_asymm ttl h r s) = tp_mtu s"
  "tp_mtu (tp_put x s) = tp_mtu s"
  using unsized.R_history [of s port] unsized.R_cmsgs [of s cs eo r] unsized.R_origin [of s ttl h e] unsized.R_elapsed [of s tv rt b]
  by (simp_all add: keeps_size_def tp_asymm_def tp_put_def)

lemma recverr_msg_passes:
  assumes "passes m"
  shows "\<exists>s1. recverr_msg ttl m s = Tp_again (tp_mtu s) s1 \<and> tp_mtu s1 = tp_mtu s"
proof -
  obtain h0 t0 s1 where hist: "tp_history (ms_port m) s = (h0, t0, s1)" by (metis prod_cases3)
  obtain br sh rt where pay: "tp_payload m h0 t0 = (br, sh, rt)" by (metis prod_cases3)
  obtain eo rh s2 where cm: "tp_cmsgs (ms_cmsgs m) None (-1) s1 = (eo, rh, s2)" by (metis prod_cases3)
  obtain e where e: "eo = Some e" "ee_errno e = EHOSTUNREACH" "time_exceeded e"
    using assms tp_cmsgs_msg [OF cm] cm by (auto simp: passes_def split: option.splits)
  have "tp_mtu s2 = tp_mtu s" using tp_mtu_same(1)[of "ms_port m" s] tp_mtu_same(2)[of "ms_cmsgs m" None "-1" s1] hist cm by simp
  then show ?thesis by (simp add: recverr_msg_def hist pay cm e tp_verdict_def errno_defs)
qed

lemma recverr_msg_arrives:
  assumes "arrives m" "tp_payload m (fst (tp_history (ms_port m) s)) (fst (snd (tp_history (ms_port m) s))) = (br, sh, rt)"
  shows "\<exists>s1. recverr_msg ttl m s = Tp_back 0 s1 \<and> tp_hops_to s1 = (if sh < 0 then ttl else sh) \<and> tp_hops_from s1 = msg_back m
    \<and> tp_mtu s1 = tp_mtu s"
proof -
  obtain h0 t0 s1 where hist: "tp_history (ms_port m) s = (h0, t0, s1)" by (metis prod_cases3)
  have pay: "tp_payload m h0 t0 = (br, sh, rt)" using assms(2) hist by simp
  obtain eo rh s2 where cm: "tp_cmsgs (ms_cmsgs m) None (-1) s1 = (eo, rh, s2)" by (metis prod_cases3)
  obtain e where e: "eo = Some e" "ee_errno e = ECONNREFUSED" and rh: "back_hops rh = msg_back m"
    using assms(1) tp_cmsgs_msg [OF cm] cm by (auto simp: arrives_def split: option.splits)
  have "tp_mtu s2 = tp_mtu s" using tp_mtu_same(1)[of "ms_port m" s] tp_mtu_same(2)[of "ms_cmsgs m" None "-1" s1] hist cm by simp
  then show ?thesis by (simp add: recverr_msg_def hist pay cm e rh tp_verdict_def errno_defs)
qed

section \<open>Probes\<close>

text \<open>The first try of the probe goes out, and no datagram comes back.\<close>

definition goes_out :: "tp_probe \<Rightarrow> bool" where
  "goes_out p \<longleftrightarrow> pb_tries p \<noteq> [] \<and> 0 < ty_sendto (hd (pb_tries p)) \<and> pb_recv p \<le> 0"

definition silent :: "tp_probe \<Rightarrow> bool" where
  "silent p \<longleftrightarrow> goes_out p \<and> pb_err p = [Rv_error EAGAIN]"

definition answered_by :: "tp_probe \<Rightarrow> tp_msg \<Rightarrow> bool" where
  "answered_by p m \<longleftrightarrow> goes_out p \<and> pb_err p = [Rv_msg m, Rv_error EAGAIN]"

definition after_send :: "int \<Rightarrow> tp_probe \<Rightarrow> tracepath \<Rightarrow> tracepath" where
  "after_send ttl p s = next_slot (tp_send ttl (ty_time (hd (pb_tries p))) (write_buf (tp_mtu s) s))"

lemma probe_goes_out: "goes_out p \<Longrightarrow> probe_ttl ttl p s = recverr ttl (pb_err p) (after_send ttl p s)"
  by (cases "pb_tries p") (auto simp: goes_out_def probe_ttl_def send_tries.simps after_send_def Let_def)

lemma after_send_simps [simp]:
  "tp_hisptr (after_send ttl p s) = (tp_hisptr s + 1) mod 64" "tp_mtu (after_send ttl p s) = tp_mtu s"
  "tp_base_port (after_send ttl p s) = tp_base_port s" "tp_max_hops (after_send ttl p s) = tp_max_hops s"
  "tp_his (after_send ttl p s) = (tp_his s)[tp_hisptr s := \<lparr>hh_hops = ttl, hh_sendtime = ty_time (hd (pb_tries p))\<rparr>]"
  by (simp_all add: after_send_def tp_op_defs)

text \<open>The states between probes on such a path.\<close>

definition tp_mid :: "nat \<Rightarrow> int \<Rightarrow> tracepath \<Rightarrow> tracepath \<Rightarrow> bool" where
  "tp_mid n v s0 s \<longleftrightarrow> tp_hisptr s = n mod 64 \<and> tp_mtu s = v \<and> 0 < v \<and> his_ok s \<and> tp_base_port s = tp_base_port s0
     \<and> tp_max_hops s = tp_max_hops s0"

lemma after_send_mid: "tp_mid n v s0 s \<Longrightarrow> tp_mid (n + 1) v s0 (after_send ttl p s)"
proof -
  have "keeps_his s (after_send ttl p s)"
    unfolding after_send_def by (rule his.R_trans [OF his.R_trans [OF his.R_memset his.R_send] his.R_next])
  then show "tp_mid n v s0 s \<Longrightarrow> tp_mid (n + 1) v s0 (after_send ttl p s)"
    by (simp add: tp_mid_def keeps_his_def mod_Suc_eq)
qed

lemma probe_silent:
  assumes "silent p" "tp_mid n v s0 s"
  shows "probe_ttl ttl p s = Some (-1, after_send ttl p s)"
  using assms by (simp add: silent_def probe_goes_out recverr_def)

lemma probe_passes:
  assumes "answered_by p m" "passes m" "tp_mid n v s0 s"
  shows "\<exists>s1. probe_ttl ttl p s = Some (v, s1) \<and> tp_mid (n + 1) v s0 s1"
proof -
  define s1 where "s1 = after_send ttl p s"
  have mid: "tp_mid (n + 1) v s0 s1" using after_send_mid assms(3) by (simp add: s1_def)
  obtain s2 where s2: "recverr_msg ttl m s1 = Tp_again (tp_mtu s1) s2" "tp_mtu s2 = tp_mtu s1"
    using recverr_msg_passes assms(2) by blast
  have run: "recverr ttl (pb_err p) s1 = Some (v, s2)"
    using assms(1) s2 mid by (simp add: answered_by_def recverr_def tp_mid_def)
  have "same_place s1 s2" "keeps_his s1 s2" using place.R_recverr [OF run] his.R_recverr [OF run] by simp_all
  moreover have "tp_mtu s2 = v" using s2 mid by (simp add: tp_mid_def)
  ultimately have "tp_mid (n + 1) v s0 s2" using mid by (simp add: tp_mid_def same_place_def keeps_his_def)
  then show ?thesis using run probe_goes_out assms(1) by (auto simp: answered_by_def s1_def)
qed

lemma history_of_probe:
  assumes "tp_mid n v s0 s" "ms_port m = slot_port s0 (n mod 64)"
  shows "fst (tp_history (ms_port m) (after_send ttl p s)) \<in> {ttl, -1}"
proof -
  define b where "b = uint (tp_base_port s0)"
  define k where "k = n mod 64"
  have b: "0 \<le> b" "b < 65536" "k < 64" using uint_lt2p [of "tp_base_port s0"] by (simp_all add: b_def k_def)
  have s: "tp_hisptr s = k" "tp_base_port s = tp_base_port s0" "length (tp_his s) = 64"
    using assms(1) by (simp_all add: tp_mid_def his_ok_def k_def)
  have "uint (ms_port m) = take_bit LENGTH(16) (b + int k)"
    by (simp only: assms(2) slot_port_def b_def k_def uint_word_of_int_eq)
  then have "uint (ms_port m) = (b + int k) mod 65536" by (simp add: take_bit_eq_mod)
  also have "\<dots> = (if b + int k < 65536 then b + int k else b + int k - 65536)" using b mod_pos_pos_trivial [of "b + int k - 65536" 65536] by simp
  finally have "- b + uint (ms_port m) = int k \<or> - b + uint (ms_port m) < 0" using b by (auto split: if_splits)
  then show ?thesis using b s by (auto simp: tp_history_def Let_def b_def)
qed

lemma probe_arrives:
  assumes "answered_by p m" "arrives m" "quotes ttl m" "tp_mid n v s0 s" "ms_port m = slot_port s0 (n mod 64)" "1 \<le> ttl" "ttl < 2 ^ 31"
  shows "\<exists>s1. probe_ttl ttl p s = Some (0, s1) \<and> tp_hops_to s1 = ttl \<and> tp_hops_from s1 = msg_back m \<and> tp_mtu s1 = v"
proof -
  define s1 where "s1 = after_send ttl p s"
  obtain br sh rt where pay: "tp_payload m (fst (tp_history (ms_port m) s1)) (fst (snd (tp_history (ms_port m) s1))) = (br, sh, rt)"
    by (metis prod_cases3)
  have "c_int (uint (word_of_int ttl :: u32)) = ttl"
    using assms(6,7) by (simp add: c_int_small uint_word_of_int)
  then have "sh \<in> {ttl, -1}" using pay assms(3) history_of_probe [OF assms(4,5), of ttl p]
    by (auto simp: tp_payload_def quotes_def s1_def split: if_splits)
  moreover obtain s2 where "recverr_msg ttl m s1 = Tp_back 0 s2" "tp_hops_to s2 = (if sh < 0 then ttl else sh)"
      "tp_hops_from s2 = msg_back m" "tp_mtu s2 = tp_mtu s1"
    using recverr_msg_arrives [OF assms(2) pay] by blast
  ultimately show ?thesis using assms(1,4,6) probe_goes_out [of p ttl s]
    by (auto simp: answered_by_def recverr_def s1_def tp_mid_def)
qed

section \<open>Paths\<close>

text \<open>A distance: the probes that are lost, the one that is answered, and the answer.\<close>

type_synonym tp_hop = "tp_probe list \<times> tp_probe \<times> tp_msg"

definition hop_ok :: "(tp_msg \<Rightarrow> bool) \<Rightarrow> tp_hop \<Rightarrow> bool" where
  "hop_ok kind g \<longleftrightarrow> length (fst g) \<le> 2 \<and> (\<forall>p \<in> set (fst g). silent p) \<and> answered_by (fst (snd g)) (snd (snd g)) \<and> kind (snd (snd g))"

definition hop_probes :: "tp_hop \<Rightarrow> tp_probe list" where
  "hop_probes g = fst g @ [fst (snd g)]"

lemma probes_at_silent:
  "\<forall>p \<in> set ps. silent p \<Longrightarrow> i + length ps < 3 \<Longrightarrow> tp_mid n v s0 s \<Longrightarrow>
    \<exists>s1 res1. probes_at ttl i res (ps @ qs) s = probes_at ttl (i + length ps) res1 qs s1 \<and> tp_mid (n + length ps) v s0 s1"
proof (induction ps arbitrary: i n res s)
  case (Cons p ps)
  define s1 where "s1 = after_send ttl p s"
  have mid: "tp_mid (n + 1) v s0 s1" unfolding s1_def by (rule after_send_mid [OF Cons(4)])
  have "probe_ttl ttl p s = Some (-1, s1)" "tp_mtu s1 = tp_mtu s"
    using probe_silent Cons(2,4) by (auto simp: s1_def)
  then have "probes_at ttl i res ((p # ps) @ qs) s = probes_at ttl (i + 1) (-1) (ps @ qs) s1"
    using Cons(3) by (simp add: probes_at.simps [of ttl i])
  then show ?case using Cons(1)[OF _ _ mid, of "i + 1" "-1"] Cons(2,3) by (simp add: add.assoc)
qed auto

lemma probes_at_hop:
  assumes "hop_ok kind g" "tp_mid n v s0 s"
  shows "\<exists>s1 i res1. i < 3 \<and> probes_at ttl 0 res (hop_probes g @ qs) s = probes_at ttl i res1 (fst (snd g) # qs) s1
    \<and> tp_mid (n + length (fst g)) v s0 s1"
proof -
  have "\<forall>p \<in> set (fst g). silent p" "0 + length (fst g) < 3" using assms(1) by (auto simp: hop_ok_def)
  from probes_at_silent [OF this assms(2), of ttl res "fst (snd g) # qs"] show ?thesis
    using \<open>0 + length (fst g) < 3\<close> unfolding hop_probes_def by auto
qed

lemma probes_at_passes:
  assumes "hop_ok passes g" "tp_mid n v s0 s"
  shows "\<exists>s1. probes_at ttl 0 res (hop_probes g @ qs) s = Some (v, s1, qs) \<and> tp_mid (n + length (hop_probes g)) v s0 s1"
proof -
  obtain s1 i res1 where g: "i < 3" "probes_at ttl 0 res (hop_probes g @ qs) s = probes_at ttl i res1 (fst (snd g) # qs) s1"
    and mid: "tp_mid (n + length (fst g)) v s0 s1" using probes_at_hop [OF assms] by blast
  obtain s2 where s2: "probe_ttl ttl (fst (snd g)) s1 = Some (v, s2)" and mid2: "tp_mid (n + length (fst g) + 1) v s0 s2"
    using probe_passes [OF _ _ mid, of "fst (snd g)" "snd (snd g)" ttl] assms(1) by (auto simp: hop_ok_def)
  have "tp_mtu s1 = v" "tp_mtu s2 = v" "0 < v" using mid mid2 by (simp_all add: tp_mid_def)
  then have "probes_at ttl i res1 (fst (snd g) # qs) s1 = Some (v, s2, qs)" using g(1) s2 by (simp add: probes_at.simps [of ttl i])
  then show ?thesis using g(2) mid2 by (simp add: hop_probes_def)
qed

lemma probes_at_arrives:
  assumes "hop_ok (\<lambda>m. arrives m \<and> quotes ttl m \<and> ms_port m = slot_port s0 ((n + length (fst g)) mod 64)) g" "tp_mid n v s0 s"
    "1 \<le> ttl" "ttl < 2 ^ 31"
  shows "\<exists>s1. probes_at ttl 0 res (hop_probes g @ qs) s = Some (0, s1, qs) \<and> tp_hops_to s1 = ttl
    \<and> tp_hops_from s1 = msg_back (snd (snd g)) \<and> tp_mtu s1 = v"
proof -
  obtain s1 i res1 where g: "i < 3" "probes_at ttl 0 res (hop_probes g @ qs) s = probes_at ttl i res1 (fst (snd g) # qs) s1"
    and mid: "tp_mid (n + length (fst g)) v s0 s1" using probes_at_hop [OF assms(1,2)] by blast
  obtain s2 where s2: "probe_ttl ttl (fst (snd g)) s1 = Some (0, s2)" "tp_hops_to s2 = ttl"
      "tp_hops_from s2 = msg_back (snd (snd g))" "tp_mtu s2 = v"
    using probe_arrives [OF _ _ _ mid _ assms(3,4), of "fst (snd g)" "snd (snd g)"] assms(1) by (auto simp: hop_ok_def)
  have "tp_mtu s1 = v" using mid by (simp add: tp_mid_def)
  then have "probes_at ttl i res1 (fst (snd g) # qs) s1 = Some (0, s2, qs)" using g(1) s2 by (simp add: probes_at.simps [of ttl i])
  then show ?thesis using g(2) s2 by simp
qed

lemma hops_loop_passes:
  "\<forall>g \<in> set gs. hop_ok passes g \<Longrightarrow> tp_mid n v s0 s \<Longrightarrow> ttl + int (length gs) \<le> tp_max_hops s0 + 1 \<Longrightarrow>
    (\<forall>t. ttl \<le> t \<and> t < ttl + int (length gs) \<longrightarrow> ho t) \<Longrightarrow>
    \<exists>s1. hops_loop ho ttl (concat (map hop_probes gs) @ qs) s = hops_loop ho (ttl + int (length gs)) qs s1
      \<and> tp_mid (n + length (concat (map hop_probes gs))) v s0 s1"
proof (induction gs arbitrary: ttl n s)
  case (Cons g gs)
  define ps where "ps = concat (map hop_probes gs) @ qs"
  have "hop_ok passes g" using Cons(2) by simp
  then obtain s1 where s1: "probes_at ttl 0 0 (hop_probes g @ ps) s = Some (v, s1, ps)"
      and mid: "tp_mid (n + length (hop_probes g)) v s0 s1"
    using probes_at_passes Cons(3) by blast
  have "ttl \<le> tp_max_hops s" "ho ttl" "0 < v" using Cons(3,4,5) by (simp_all add: tp_mid_def)
  then have "hops_loop ho ttl (hop_probes g @ ps) s = hops_loop ho (ttl + 1) ps s1"
    using s1 by (simp add: hops_loop.simps [of ho ttl])
  moreover have "\<exists>s2. hops_loop ho (ttl + 1) ps s1 = hops_loop ho (ttl + 1 + int (length gs)) qs s2
      \<and> tp_mid (n + length (hop_probes g) + length (concat (map hop_probes gs))) v s0 s2"
    unfolding ps_def by (rule Cons(1)[OF _ mid]) (use Cons(2,4,5) in auto)
  ultimately show ?case by (simp add: ps_def algebra_simps)
qed auto

end
