(* ===== verification/Tracepath_Properties.thy ===== *)
theory Tracepath_Properties
  imports Tracepath_Paths
begin

text \<open>The properties of tracepath, with inputs at which they apply.\<close>

section \<open>Inputs\<close>

definition tp_sys :: tp_system where
  "tp_sys = \<lparr>sy_gai = (\<lambda>dst port fam. Inr [\<lparr>ai_family = AF_INET, ai_addr = [2, 0, 173, 156, 10, 0, 0, 1] @ replicate 8 0, ai_socket = 3\<rparr>]),
     sy_so = (\<lambda>so. True), sy_mem = True, sy_hops6 = (\<lambda>t. True), sy_ttl4 = (\<lambda>t. True)\<rparr>"

definition tp_err :: "u32 \<Rightarrow> u8 \<Rightarrow> u32 \<Rightarrow> sock_extended_err" where
  "tp_err er ty info = \<lparr>ee_errno = er, ee_origin = SO_EE_ORIGIN_ICMP, ee_type = ty, ee_code = (if ty = 11 then 0 else 3), ee_info = info,
     ee_num = Some ''10.0.0.1'', ee_name = None\<rparr>"

text \<open>A router that returns eight bytes of the probe, as old routers do, and one that returns its header.\<close>

definition tp_short :: "u16 \<Rightarrow> sock_extended_err \<Rightarrow> tp_msg" where
  "tp_short port e = \<lparr>ms_time = (100, 400), ms_res = 0, ms_port = port, ms_hdr = \<lparr>ph_ttl = 0xffffffff, ph_tv = (-1, -1)\<rparr>,
     ms_cmsgs = [Cm_ttl4 63, Cm_recverr4 e]\<rparr>"

definition tp_full :: "u16 \<Rightarrow> u32 \<Rightarrow> sock_extended_err \<Rightarrow> tp_msg" where
  "tp_full port ttl e = (tp_short port e)\<lparr>ms_res := 24, ms_hdr := \<lparr>ph_ttl = ttl, ph_tv = (100, 0)\<rparr>\<rparr>"

definition tp_one :: "tp_recv list \<Rightarrow> tp_probe" where
  "tp_one rs = \<lparr>pb_tries = [\<lparr>ty_time = (100, 0), ty_sendto = 65507, ty_err = [Rv_error EAGAIN]\<rparr>], pb_recv = -1, pb_err = rs @ [Rv_error EAGAIN]\<rparr>"

definition tp_begin :: tracepath where
  "tp_begin = tp_globals\<lparr>tp_target := [2, 0, 173, 156, 10, 0, 0, 1] @ replicate 120 0, tp_base_port := 44444, tp_overhead := 28,
     tp_mtu := 65535, tp_buf := 65535\<rparr>"

lemma tp_sys_starts: "tp_start tp_sys ''tracepath'' [] [''host''] = Inr (AF_INET, tp_begin)"
  by code_simp

lemma tp_sys_hopopt: "tp_hopopt (sy_hops6 tp_sys) (sy_ttl4 tp_sys) AF_INET (tp_mapped tp_begin) t"
  by (simp add: tp_hopopt_def tp_sys_def)

section \<open>The destination is found\<close>

text \<open>C2. On a path on which every router reports the exceeded hop limit and the destination the unused port, with at most
  two probes lost at each distance, the program ends with status 0 and resumes with the number of hops of the path, the
  guess of the way back, and the size it started with, whether the answers quote the probe, a spoilt copy or only its port.\<close>

theorem tracepath_reaches_destination:
  assumes "tp_start sy argv0 opts args = Inr (f, s0)"
    and "\<And>t. 1 \<le> t \<Longrightarrow> t \<le> int (length gs) + 1 \<Longrightarrow> tp_hopopt (sy_hops6 sy) (sy_ttl4 sy) f (tp_mapped s0) t"
    and "\<forall>h \<in> set gs. hop_ok passes h"
    and "hop_ok (\<lambda>m. arrives m \<and> quotes (int (length gs) + 1) m
      \<and> ms_port m = tp_base_port s0 + of_nat ((length (concat (map hop_probes gs)) + length (fst g)) mod 64)) g"
    and "int (length gs) + 1 \<le> tp_max_hops s0" and "tp_max_hops s0 < 2 ^ 31"
  shows "\<exists>s1. tracepath_main sy argv0 opts args (concat (map hop_probes (gs @ [g])) @ qs) = Some (0, Some s1)
    \<and> last (tp_out s1) = Pr_resume (tp_mtu s0) (Some (int (length gs) + 1)) (known_hops (msg_back (snd (snd g))))"
proof -
  define ho where "ho = tp_hopopt (sy_hops6 sy) (sy_ttl4 sy) f (tp_mapped s0)"
  define n where "n = length (concat (map hop_probes gs))"
  define ttl where "ttl = 1 + int (length gs)"
  have mid: "tp_mid 0 (tp_mtu s0) s0 s0" using tp_start_ready [OF assms(1)] by (auto simp: tp_mid_def tp_ready_def)
  have ho: "ho t" if "1 \<le> t" "t \<le> ttl" for t unfolding ho_def by (rule assms(2)) (use that in \<open>simp_all add: ttl_def\<close>)
  obtain s1 where s1: "hops_loop ho 1 (concat (map hop_probes gs) @ hop_probes g @ qs) s0 = hops_loop ho ttl (hop_probes g @ qs) s1"
      and mid1: "tp_mid n (tp_mtu s0) s0 s1"
    using hops_loop_passes [OF assms(3) mid, of 1 ho "hop_probes g @ qs"] ho assms(5) by (auto simp: ttl_def n_def)
  have g: "hop_ok (\<lambda>m. arrives m \<and> quotes ttl m \<and> ms_port m = slot_port s0 ((n + length (fst g)) mod 64)) g"
    using assms(4) by (simp add: n_def ttl_def slot_port_def add.commute)
  obtain s2 where s2: "probes_at ttl 0 0 (hop_probes g @ qs) s1 = Some (0, s2, qs)" "tp_hops_to s2 = ttl"
      "tp_hops_from s2 = msg_back (snd (snd g))" "tp_mtu s2 = tp_mtu s0"
    using probes_at_arrives [OF g mid1] assms(5,6) by (auto simp: ttl_def)
  have "ttl \<le> tp_max_hops s1" "ho ttl" using mid1 assms(5) ho [of ttl] by (auto simp: ttl_def tp_mid_def)
  then have "hops_loop ho ttl (hop_probes g @ qs) s1 = Some (End_done, s2)" using s2(1) by (simp add: hops_loop.simps [of ho ttl])
  then have "tracepath_main sy argv0 opts args (concat (map hop_probes (gs @ [g])) @ qs) = Some (0, Some (tp_resume s2))"
    using s1 by (simp add: tracepath_main_def assms(1) ho_def)
  moreover have "last (tp_out (tp_resume s2)) = Pr_resume (tp_mtu s0) (Some ttl) (known_hops (msg_back (snd (snd g))))"
    using s2 by (simp add: tp_resume_def tp_put_def known_hops_def ttl_def)
  ultimately show ?thesis by (auto simp: ttl_def add.commute)
qed

theorem tracepath_reaches_destination_witness:
  "\<exists>s1. tracepath_main tp_sys ''tracepath'' [] [''host''] (concat (map hop_probes (
      [([], tp_one [Rv_msg (tp_full 44444 1 (tp_err EHOSTUNREACH 11 0))], tp_full 44444 1 (tp_err EHOSTUNREACH 11 0))]
      @ [([tp_one []], tp_one [Rv_msg (tp_short 44446 (tp_err ECONNREFUSED 3 0))], tp_short 44446 (tp_err ECONNREFUSED 3 0))])) @ [])
    = Some (0, Some s1) \<and> last (tp_out s1) = Pr_resume 65535 (Some 2) (Some 2)"
proof -
  define gs where "gs = [([] :: tp_probe list, tp_one [Rv_msg (tp_full 44444 1 (tp_err EHOSTUNREACH 11 0))], tp_full 44444 1 (tp_err EHOSTUNREACH 11 0))]"
  define g where "g = ([tp_one []], tp_one [Rv_msg (tp_short 44446 (tp_err ECONNREFUSED 3 0))], tp_short 44446 (tp_err ECONNREFUSED 3 0))"
  have gs: "\<forall>h \<in> set gs. hop_ok passes h" unfolding gs_def by code_simp
  have g: "hop_ok (\<lambda>m. arrives m \<and> quotes (int (length gs) + 1) m
      \<and> ms_port m = tp_base_port tp_begin + of_nat ((length (concat (map hop_probes gs)) + length (fst g)) mod 64)) g"
    unfolding gs_def g_def by code_simp
  have bk: "known_hops (msg_back (snd (snd g))) = Some 2" unfolding g_def by code_simp
  have n: "int (length gs) + 1 \<le> tp_max_hops tp_begin" "tp_max_hops tp_begin < 2 ^ 31" "tp_mtu tp_begin = 65535" "int (length gs) + 1 = 2"
    by (simp_all add: tp_begin_def tp_globals_def MAX_HOPS_DEFAULT_def gs_def)
  show ?thesis using tracepath_reaches_destination [OF tp_sys_starts tp_sys_hopopt gs g n(1,2), of "[]"]
    unfolding n bk unfolding gs_def g_def .
qed

section \<open>What is resumed\<close>

lemma hops_loop_exit: "hops_loop ho ttl ps s = Some (End_exit st, s1) \<Longrightarrow> st = 1"
  by (induction ho ttl ps s rule: hops_loop.induct) (subst (asm) (2) hops_loop.simps, auto split: if_splits option.splits)

lemma tracepath_main_runs:
  assumes "tp_start sy argv0 opts args = Inr (f, s0)" "tracepath_main sy argv0 opts args ps = Some (st, Some s1)"
  obtains e s2 where "hops_loop (tp_hopopt (sy_hops6 sy) (sy_ttl4 sy) f (tp_mapped s0)) 1 ps s0 = Some (e, s2)"
    "st = (case e of End_exit x \<Rightarrow> 1 | _ \<Rightarrow> 0)" "s1 = (case e of End_exit x \<Rightarrow> s2 | _ \<Rightarrow> tp_resume s2)"
  using assms hops_loop_exit by (fastforce simp: tracepath_main_def split: option.splits tp_end.splits)

text \<open>C36. A run that ends with status 0 has printed, as its last line, the size of the last \<^verbatim>\<open>pmtu\<close> line, or the size
  it started with when there is none, and numbers of hops only when the destination was reached.\<close>

theorem tracepath_resume_size:
  assumes "tp_start sy argv0 opts args = Inr (f, s0)" and "tracepath_main sy argv0 opts args ps = Some (0, Some s1)"
  shows "\<exists>h b. last (tp_out s1) = Pr_resume (last (tp_mtu s0 # pmtus (tp_out s1))) h b
    \<and> (Pr_reached \<notin> set (tp_out s1) \<longrightarrow> h = None \<and> b = None)"
proof -
  have s0: "tp_out s0 = []" "tp_hops_to s0 = -1" "tp_hops_from s0 = -1" using tp_start_ready [OF assms(1)] by (simp_all add: tp_ready_def)
  from assms show ?thesis
  proof (rule tracepath_main_runs)
    fix e s2
    assume run: "hops_loop (tp_hopopt (sy_hops6 sy) (sy_ttl4 sy) f (tp_mapped s0)) 1 ps s0 = Some (e, s2)"
      and e: "0 = (case e of End_exit x \<Rightarrow> (1 :: int) | _ \<Rightarrow> 0)" "s1 = (case e of End_exit x \<Rightarrow> s2 | _ \<Rightarrow> tp_resume s2)"
    from e have s1: "s1 = tp_resume s2" by (cases e) simp_all
    have "size_printed s0 s2" using printed.R_hops_loop [OF run] by simp
    then have "tp_mtu s2 = last (tp_mtu s0 # pmtus (tp_out s2))"
      "Pr_reached \<notin> set (tp_out s2) \<longrightarrow> tp_hops_to s2 = -1 \<and> tp_hops_from s2 = -1"
      using s0 by (auto simp: size_printed_def)
    then show ?thesis unfolding s1 tp_resume_def tp_put_def known_hops_def by auto
  qed
qed

text \<open>A path with a link of 1500 bytes.\<close>

definition tp_narrow :: "tp_probe list" where
  "tp_narrow = [tp_one [Rv_msg (tp_short 44444 (tp_err EMSGSIZE 3 1500))], tp_one [Rv_msg (tp_short 44445 (tp_err ECONNREFUSED 3 0))]]"

definition tp_narrow_end :: tracepath where
  "tp_narrow_end = (case tracepath_main tp_sys ''tracepath'' [] [''host''] tp_narrow of Some (st, Some s) \<Rightarrow> s | _ \<Rightarrow> tp_begin)"

lemma tp_narrow_run: "tracepath_main tp_sys ''tracepath'' [] [''host''] tp_narrow = Some (0, Some tp_narrow_end)"
  by code_simp

theorem tracepath_resume_size_witness:
  "last (tp_out tp_narrow_end) = Pr_resume 1500 (Some 1) (Some 2)
    \<and> (\<exists>h b. last (tp_out tp_narrow_end) = Pr_resume (last (tp_mtu tp_begin # pmtus (tp_out tp_narrow_end))) h b)"
proof (rule conjI)
  show "last (tp_out tp_narrow_end) = Pr_resume 1500 (Some 1) (Some 2)" by code_simp
  show "\<exists>h b. last (tp_out tp_narrow_end) = Pr_resume (last (tp_mtu tp_begin # pmtus (tp_out tp_narrow_end))) h b"
    using tracepath_resume_size [OF tp_sys_starts tp_narrow_run] by blast
qed

section \<open>The buffer\<close>

text \<open>C37. While no message reports a size above the one the program started with, and no longer datagram is received,
  nothing is written outside of the packet buffer, and the size of the packets stays within it.\<close>

theorem tracepath_buffer_safe:
  assumes "tp_start sy argv0 opts args = Inr (f, s0)" and "tracepath_main sy argv0 opts args ps = Some (st, Some s1)"
    and "\<forall>p \<in> set ps. (\<forall>e \<in> probe_errs p. size_fits (tp_mtu s0) e) \<and> pb_recv p \<le> tp_mtu s0"
  shows "\<not> tp_fault s1 \<and> 0 \<le> tp_mtu s1 \<and> tp_mtu s1 \<le> tp_buf s1 \<and> tp_buf s1 = tp_mtu s0"
proof -
  have s0: "buf_safe (tp_mtu s0) s0"
    using tp_start_ready [OF assms(1)] by (auto simp: tp_ready_def buf_safe_def sizeof_probehdr_def)
  from assms(1,2) show ?thesis
  proof (rule tracepath_main_runs)
    fix e s2
    assume run: "hops_loop (tp_hopopt (sy_hops6 sy) (sy_ttl4 sy) f (tp_mapped s0)) 1 ps s0 = Some (e, s2)"
      and s1: "s1 = (case e of End_exit x \<Rightarrow> s2 | _ \<Rightarrow> tp_resume s2)"
    have "buf_safe (tp_mtu s0) s2" using buf.R_hops_loop [OF run assms(3)] s0 by (simp add: keeps_buf_def)
    then show ?thesis unfolding s1 by (cases e) (simp_all add: buf_safe_def tp_resume_def tp_put_def)
  qed
qed

theorem tracepath_buffer_safe_witness:
  "\<not> tp_fault tp_narrow_end \<and> 0 \<le> tp_mtu tp_narrow_end \<and> tp_mtu tp_narrow_end \<le> tp_buf tp_narrow_end \<and> tp_buf tp_narrow_end = tp_mtu tp_begin"
proof (rule tracepath_buffer_safe [OF tp_sys_starts tp_narrow_run])
  have "probe_errs p \<subseteq> {tp_err EMSGSIZE 3 1500, tp_err ECONNREFUSED 3 0}" "pb_recv p = -1" if "p \<in> set tp_narrow" for p
    using that by (auto simp: tp_narrow_def probe_errs_def tp_one_def tp_short_def cmsg_errs_def)
  then show "\<forall>p \<in> set tp_narrow. (\<forall>e \<in> probe_errs p. size_fits (tp_mtu tp_begin) e) \<and> pb_recv p \<le> tp_mtu tp_begin"
    by (fastforce simp: size_fits_def tp_err_def errno_defs tp_begin_def)
qed

text \<open>
  With \<^verbatim>\<open>-l 1000\<close> a router that reports 1500 bytes makes the next probe clear 1500 bytes of a buffer of 1000.
\<close>

theorem tracepath_overruns_buffer:
  "map_option (map_option tp_fault \<circ> snd) (tracepath_main tp_sys ''tracepath'' [(CHR ''l'', ''1000'')] [''host''] tp_narrow) = Some (Some True)"
  by code_simp

section \<open>The program ends\<close>

text \<open>C38. The loop over the hops ends. Assume of the inner loops that every call of \<^verbatim>\<open>recverr\<close> finds the error queue empty in the end
  (it tries for ever when \<^verbatim>\<open>recvmsg\<close> keeps failing otherwise), and of every probe that one of its tries is sent, or that it has ten tries
  and ten more for each try that fails with a message in the queue (each such message lets \<^verbatim>\<open>probe_ttl\<close> start counting again). Then the
  program ends after at most three probes for every hop and three more for every probe that changes the packet size, whatever
  the messages say.\<close>

theorem tracepath_ends:
  assumes "tp_start sy argv0 opts args = Inr (f, s0)" and "\<forall>p \<in> set ps. probe_suffices p"
    and "3 * nat (tp_max_hops s0) + 3 * length (filter resized ps) \<le> length ps"
  shows "\<exists>st s1. tracepath_main sy argv0 opts args ps = Some (st, Some s1)"
proof -
  have "\<exists>r s1. hops_loop (tp_hopopt (sy_hops6 sy) (sy_ttl4 sy) f (tp_mapped s0)) 1 ps s0 = Some (r, s1)"
    by (rule hops_loop_ends [OF assms(2)]) (use assms(3) in simp)
  then show ?thesis by (auto simp: tracepath_main_def assms(1) split: tp_end.split)
qed

text \<open>
  The first probe cannot be sent until the local size of 1500 bytes is known; then the same router answers all others, with every hop
  limit, and the program gives up after the thirtieth.
\<close>

definition tp_local :: tp_probe where
  "tp_local = \<lparr>pb_tries = [\<lparr>ty_time = (100, 0), ty_sendto = -1,
       ty_err = [Rv_msg (tp_short 44444 ((tp_err EMSGSIZE 3 1500)\<lparr>ee_origin := SO_EE_ORIGIN_LOCAL\<rparr>)), Rv_error EAGAIN]\<rparr>,
       \<lparr>ty_time = (100, 0), ty_sendto = 1472, ty_err = [Rv_error EAGAIN]\<rparr>],
     pb_recv = -1, pb_err = [Rv_msg (tp_short 44444 (tp_err EHOSTUNREACH 11 0)), Rv_error EAGAIN]\<rparr>"

definition tp_routed :: tp_probe where
  "tp_routed = tp_one [Rv_msg (tp_short 44445 (tp_err EHOSTUNREACH 11 0))]"

theorem tracepath_ends_witness:
  "\<exists>st s1. tracepath_main tp_sys ''tracepath'' [] [''host''] (tp_local # replicate 92 tp_routed) = Some (st, Some s1)"
proof (rule tracepath_ends [OF tp_sys_starts])
  have "probe_suffices tp_local" "probe_suffices tp_routed"
    by (simp_all add: probe_suffices_def tries_suffice_def tp_local_def tp_routed_def tp_one_def drained_def)
  then show "\<forall>p \<in> set (tp_local # replicate 92 tp_routed). probe_suffices p" by simp
  have "\<not> resized tp_routed"
    by (auto simp: resized_def probe_errs_def tp_routed_def tp_one_def tp_short_def cmsg_errs_def tp_err_def errno_defs)
  then have "length (filter resized (tp_local # replicate 92 tp_routed)) \<le> 1" by simp
  then show "3 * nat (tp_max_hops tp_begin) + 3 * length (filter resized (tp_local # replicate 92 tp_routed)) \<le> length (tp_local # replicate 92 tp_routed)"
    by (simp add: tp_begin_def tp_globals_def MAX_HOPS_DEFAULT_def)
qed

section \<open>The history of probes\<close>

text \<open>A sequence of probes, each with its hop count.\<close>

fun probe_seq :: "(int \<times> tp_probe) list \<Rightarrow> tracepath \<Rightarrow> tracepath option" where
  "probe_seq [] s = Some s"
| "probe_seq ((ttl, p) # ps) s = (case probe_ttl ttl p s of None \<Rightarrow> None | Some (r, s1) \<Rightarrow> probe_seq ps s1)"

lemma probe_seq_his: "probe_seq ps s = Some s1 \<Longrightarrow> his_ok s \<Longrightarrow> his_ok s1"
proof (induction ps s rule: probe_seq.induct)
  case (2 ttl p ps s)
  then show ?case using his.R_probe by (fastforce simp: keeps_his_def split: option.splits)
qed simp

text \<open>
  After any probes, an answer whose port belongs to a slot in use is taken for the last probe to that port: its hop count
  and its time are found, once; a second answer from the port finds nothing.
\<close>

theorem tracepath_attributes_answers:
  assumes "tp_start sy argv0 opts args = Inr (f, s0)" and "probe_seq ps s0 = Some s" and "tp_history port s = (h, Some tv, s1)"
  shows "latest_probe port (tp_sent s) = Some \<lparr>ph_ttl = word_of_int h, ph_tv = tv\<rparr> \<and> tp_history port s1 = (-1, None, s1)"
proof -
  have ok: "his_ok s" using probe_seq_his [OF assms(2)] tp_start_ready [OF assms(1)] by (simp add: tp_ready_def)
  define slot where "slot = - uint (tp_base_port s) + uint port"
  have slot: "0 \<le> slot" "slot < 63" "hh_hops (tp_his s ! nat slot) \<noteq> 0" and h: "h = hh_hops (tp_his s ! nat slot)"
      "tv = hh_sendtime (tp_his s ! nat slot)" "s1 = s\<lparr>tp_his := (tp_his s)[nat slot := (tp_his s ! nat slot)\<lparr>hh_hops := 0\<rparr>]\<rparr>"
    using assms(3) by (auto simp: tp_history_def Let_def slot_def split: if_splits)
  have "slot_port s (nat slot) = word_of_int (uint (tp_base_port s) + slot)" using slot(1) by (simp only: slot_port_def int_nat_eq if_True)
  also have "\<dots> = port" unfolding slot_def by simp
  finally have port: "slot_port s (nat slot) = port" .
  have "nat slot < 64" using slot(2) by simp
  then have "latest_probe port (tp_sent s) = Some \<lparr>ph_ttl = word_of_int h, ph_tv = tv\<rparr>"
    using ok slot(3) unfolding his_ok_def port [symmetric] h(1,2) by blast
  moreover have "tp_history port s1 = (-1, None, s1)"
    using ok slot h by (simp add: tp_history_def Let_def slot_def his_ok_def)
  ultimately show ?thesis by blast
qed

text \<open>The last slot is filled but never looked up.\<close>

theorem last_slot_unused:
  assumes "tp_base_port s = 44444"
  shows "tp_history 44507 s = (-1, None, s)" "slot_port s 63 = 44507"
  using assms by (simp_all add: tp_history_def slot_port_def)

text \<open>Without a hop count in the answer the way back is said to have 66 hops: the test for an unknown number comes too late.\<close>

theorem unknown_way_back: "ms_cmsgs m = [Cm_recverr4 e] \<Longrightarrow> msg_back m = 66"
  by (simp add: msg_back_def back_hops_def)

text \<open>Of an IPv6 address only the first half is copied, and a mapped IPv4 address is never recognised.\<close>

theorem ipv6_target_truncated:
  assumes "tp_start sy argv0 opts args = Inr (TP_INET6, s)"
  shows "drop 16 (tp_target s) = replicate (length (drop 16 (tp_target s))) 0 \<and> \<not> tp_mapped s"
  using assms
proof (rule tp_start_parts)
  fix s1 ai v h
  assume "tp_fresh s1"
    "s = s1\<lparr>tp_target := take 16 (ai_addr ai) @ replicate 112 0, tp_overhead := h, tp_mtu := v, tp_buf := v\<rparr>"
  then show ?thesis by (simp add: tp_fresh_def)
qed

text \<open>A failure of \<^verbatim>\<open>recvmsg\<close> other than an empty queue is tried again without end.\<close>

theorem recverr_spins: "er \<noteq> EAGAIN \<Longrightarrow> recverr ttl (replicate n (Rv_error er)) s = None"
  unfolding recverr_def by (induction n) auto

text \<open>A number of hops out of range is accepted.\<close>

theorem max_hops_unchecked: "tp_option (CHR ''m'', ''300'') (f, s) = Inr (f, s\<lparr>tp_max_hops := 300\<rparr>)"
proof -
  have "tp_atoi ''300'' = 300" by code_simp
  then show ?thesis by (simp add: tp_option_def)
qed

end
