(* ===== verification/Spec2Isabelle.thy ===== *)
theory Spec2Isabelle
  imports Probed_Properties Cube_Properties Tftp_Properties Ping_Properties Rdisc_Properties Is_Properties
    Arping_Properties Clockdiff_Properties Rarpd_Properties Tracepath_Properties
begin

text \<open>
  \<^bold>\<open>The program.\<close> The repository packs the tools of a machine baseliner into one image: the
  network prober \<^verbatim>\<open>probed\<close> (\<^verbatim>\<open>src/SLANG-probed\<close>), a variant of the \<^verbatim>\<open>iputils\<close> with nanosecond
  times (\<^verbatim>\<open>src/iputils-ns\<close>), the NAS benchmarks (\<^verbatim>\<open>src/NPB-CPUTests\<close>), memory benchmarks and
  a driver script. The tools are separate programs; they share no state and no code. This
  development models those written in C that carry the most logic of their own.

  \<^bold>\<open>Prelude.\<close> \<open>Baseliner_Prelude\<close> has the machine types, C's division, list operations for the
  queue macros, and the locale \<open>step_system\<close>: a machine whose invariant holds at the start and
  is kept by each step under a condition on the inputs. It is interpreted on the transmit
  timer, on three invariants of the probing client, on the main loop of \<^verbatim>\<open>probed\<close>, on \<^verbatim>\<open>rdisc\<close>, on
  \<^verbatim>\<open>arping\<close> and on \<^verbatim>\<open>rarpd\<close>.
  \<open>Timespec\<close> models \<^verbatim>\<open>util.c\<close> (\<^verbatim>\<open>diff_ts\<close>, \<^verbatim>\<open>cmp_ts\<close>) and the locale \<open>comparator\<close>.

  \<^bold>\<open>The prober\<close> sends PING datagrams, receives PONG datagrams and, over TCP, the time stamps
  of the remote side, and matches them.
  \<^item> \<open>Probed_Net\<close>: packets, control messages, \<^verbatim>\<open>tstamp.c\<close> and \<^verbatim>\<open>net.c\<close>. Results of system calls
    are arguments.
  \<^item> \<open>Probed_Stats\<close>: the running statistics, with floating point as exact operation followed
    by a rounding that is a parameter; \<open>Probed_Rounding\<close>: the error of the means for roundings with the precision of IEEE doubles.
  \<^item> \<open>Probed_Client\<close>: the state of \<^verbatim>\<open>client.c\<close> (sessions, lists of probes, counters, queue of
    results) and every operation on it; \<open>Probed_Config\<close>: the reload of the configuration,
    with the parsed XML document and the name resolver as parameters; \<open>Probed_Processes\<close>: the
    two kinds of child processes; \<open>Probed_Summary\<close>: the report.
  \<^item> \<open>Probed_Probes\<close>, \<open>Probed_Runs\<close>: the life of a probe and invariants of all runs (mask states,
    accounting, order of the lists, timeouts).
  \<^item> \<open>Probed_Server\<close>: \<^verbatim>\<open>loop.c\<close>, one iteration with the results of its system calls as input, and that all it does to the client are
    operations of the client, so that the invariants of runs of the client hold in the running program;
    \<open>Probed_Main\<close>: \<^verbatim>\<open>main.c\<close>. \<open>Probed_Properties\<close> states the properties.
  The outcomes of the calls of one operation are functions of the number of the call, so
  that no assumption on their order of success is made.

  \<^bold>\<open>The data-cube benchmark\<close> (\<^verbatim>\<open>NPB-CPUTests/DC\<close>) computes grouped sums of a table of rows for
  sets of attributes.
  \<^item> \<open>Cube_Records\<close>: rows, key comparison, projection, and the specification \<open>groupby\<close>.
  \<^item> \<open>Cube_Tree\<close>: the red-black tree in a pool of nodes (\<^verbatim>\<open>rbt.c\<close>). The arrays of nodes and
    directions on the way down are a path that the fix-up consumes. Locale \<open>aggregator\<close>, the
    contract of an insertion that refines insertion into an ordered list, is interpreted on
    \<^verbatim>\<open>TreeInsert\<close>.
  \<^item> \<open>Cube_Views\<close>, \<open>Cube_Sort\<close>, \<open>Cube_Compute\<close>: traversals, the in-memory view, and the external
    sort with its runs and multi-way merge (\<^verbatim>\<open>extbuild.c\<close>). Files are lists of rows, the
    outcome of each write is an oracle; the merge has as many steps of fuel as there are rows
    in all chunks, which is proved to be enough. \<open>Cube_Prefixed\<close>: the single pass over a parent
    view that shares the order (\<^verbatim>\<open>PrefixedAggregate\<close>).
  \<^item> \<open>Cube_Heapsort\<close>, \<open>Cube_Jobs\<close>: the heap sorts and the choice of a parent view over bit
    tuples (\<^verbatim>\<open>jobcntl.c\<close>). \<open>Cube_Properties\<close> states the properties.

  \<^bold>\<open>The TFTP server\<close> (\<^verbatim>\<open>iputils-ns/tftpd.c\<close>, \<^verbatim>\<open>tftpsubs.c\<close>).
  \<^item> \<open>Tftp_Buffers\<close>: the two packet buffers with read-ahead, write-behind and netascii
    conversion, byte by byte; locales \<open>segment_source\<close> and \<open>segment_sink\<close> are what the transfer
    loops rely on, interpreted on the buffers.
  \<^item> \<open>Tftp_Transfer\<close>: \<^verbatim>\<open>sendfile\<close> and \<^verbatim>\<open>recvfile\<close>. The network is a finite list of events
    (datagrams, an empty queue, socket errors); when it is silent the alarm goes off until the
    retries are exhausted, so every loop ends. The handler's long jump is a step back to the
    label of the send; both loops are instances of the locale \<open>waiting_loop\<close>.
  \<^item> \<open>Tftp_Send\<close>, \<open>Tftp_Recv\<close>: what arrives and what is on disk in the end.
  \<^item> \<open>Tftp_Server\<close>: start, request parsing and access checks, with the file system as a
    parameter. \<open>Tftp_Properties\<close> states the properties.

  \<^bold>\<open>ping\<close> (\<^verbatim>\<open>iputils-ns/ping_common.c\<close>, \<^verbatim>\<open>ping.h\<close>, \<^verbatim>\<open>ping.c\<close>).
  \<^item> \<open>Ping_Checksum\<close>: \<^verbatim>\<open>in_cksum\<close> and the algebra of one's complement sums.
  \<^item> \<open>Ping_State\<close>: the global variables as a record, sending with its token bucket and error
    handling, replies, statistics and the final report. Packets are lists of bytes of a
    little-endian machine.
  \<^item> \<open>Ping_Loop\<close>: \<^verbatim>\<open>setup\<close> and \<^verbatim>\<open>main_loop\<close>; the environment is a list of rounds and the list of
    the results of \<^verbatim>\<open>recvmsg\<close>, and a run is cut off where these end.
  \<^item> \<open>Ping_Statistics\<close> (with locale \<open>number_set\<close>, interpreted on the bit table), \<open>Ping_Rate\<close>,
    \<open>Ping_Run\<close>: lemmas; \<open>Ping_Properties\<close> states the properties.

  \<^bold>\<open>rdisc\<close> (\<^verbatim>\<open>iputils-ns/rdisc.c\<close>), the router discovery daemon, keeps default routes to the best
  advertised routers; it can also act as a router.
  \<^item> \<open>Rdisc_Table\<close>: the table of routers and every operation on it. Requests to the kernel go to a
    log with their outcomes, which the daemon ignores.
  \<^item> \<open>Rdisc_Routes\<close>, \<open>Rdisc_Daemon\<close>: the flags of the table mark the best routers and the log leaves
    their routes in the kernel; the table refines a map from routers to preference and time.
  \<^item> \<open>Rdisc_Interfaces\<close>: \<^verbatim>\<open>initifs\<close> with the union of \<^verbatim>\<open>struct ifreq\<close> and fresh memory as a parameter;
    \<open>Rdisc_Packets\<close>: checksum and messages; \<open>Rdisc_Main\<close>: \<^verbatim>\<open>pr_pack\<close>, timer and signals as events of a
    machine; \<open>Rdisc_Start\<close>: command line and start.
  \<^item> \<open>Rdisc_Runs\<close>, \<open>Rdisc_Protocol\<close>, \<open>Rdisc_Safety\<close>: invariants of all runs (two instances of
    \<open>step_system\<close>), both ends of the protocol, absence of faults; \<open>Rdisc_Properties\<close> states the
    properties.

  \<^bold>\<open>arping\<close> (\<^verbatim>\<open>iputils-ns/arping.c\<close>) asks for the owner of an address on a link, detects duplicate addresses
  and announces addresses.
  \<^item> \<open>Arping_State\<close>: the globals as a record, \<^verbatim>\<open>send_pack\<close>, \<^verbatim>\<open>catcher\<close>, \<^verbatim>\<open>recv_pack\<close>, \<^verbatim>\<open>finish\<close> and the loop of \<^verbatim>\<open>main\<close> as steps on
    events; a read outside an array is a status. \<open>Arping_Device\<close>: the three ways of \<^verbatim>\<open>find_device\<close> and the broadcast
    address; \<open>Arping_Main\<close>: privileges, options and addresses. Requests that change privileges are recorded in their order.
  \<^item> \<open>Arping_Frames\<close>: the receive filter against a declarative format of a frame; \<open>Arping_Runs\<close>, \<open>Arping_Count\<close>: invariants, pacing,
    duplicate address detection, number of probes, deadline; \<open>Arping_Choice\<close>: which device is chosen, addresses as text;
    \<open>Arping_Start\<close>: what the start establishes, and two copies of the program on one link. \<open>Arping_Properties\<close> states the
    properties.

  \<^bold>\<open>clockdiff\<close> (\<^verbatim>\<open>iputils-ns/clockdiff.c\<close>) measures the difference of two clocks.
  \<^item> \<open>Clockdiff_Measure\<close>: checksum, probes, \<^verbatim>\<open>measure\<close>, \<^verbatim>\<open>measure_opt\<close> and \<^verbatim>\<open>main\<close>. A measurement is driven by a list of rounds; its
    result is \<open>None\<close> where the list ends first, and 550 rounds are proved to be enough.
  \<^item> \<open>Clockdiff_Runs\<close>: the checksum is that of \<^verbatim>\<open>ping\<close>; locale \<open>cd_loop\<close>, what holds when a measurement returns, is interpreted on
    both kinds of probes for the accuracy. \<open>Clockdiff_Ends\<close>: locale \<open>cd_progress\<close> for the end of a measurement, likewise.
    \<open>Clockdiff_Properties\<close> states the properties.

  \<^bold>\<open>rarpd\<close> (\<^verbatim>\<open>iputils-ns/rarpd.c\<close>) tells clients their addresses.
  \<^item> \<open>Rarpd_Daemon\<close>: the table of links, the lookup with \<^verbatim>\<open>/etc/ethers\<close>, the resolver and the boot directory as parameters, the
    reply, \<^verbatim>\<open>main\<close> and its loop. \<open>Rarpd_Runs\<close>: the table stays consistent, every reply is justified, known clients are
    served; \<open>Rarpd_Properties\<close> states the properties.

  \<^bold>\<open>tracepath\<close> (\<^verbatim>\<open>iputils-ns/tracepath.c\<close>) finds the routers and the packet size on the way to a host.
  \<^item> \<open>Tracepath_Probe\<close>: the history of probes, \<^verbatim>\<open>recverr\<close> on the messages of the error queue, \<^verbatim>\<open>probe_ttl\<close> and the loop over the hops;
    \<open>Tracepath_Main\<close>: options, destination, socket and \<^verbatim>\<open>main\<close>. The answers of the calls are lists, and a result is \<open>None\<close> where
    one of them ends first; three probes for each hop and for each change of the size are proved to be enough.
  \<^item> \<open>Tracepath_Runs\<close>: the locales \<open>tp_answers\<close> and \<open>tp_steps\<close>, a relation between states that every update keeps, from which
    runs keep it; \<open>Tracepath_Kept\<close>, \<open>Tracepath_Ends\<close>, \<open>Tracepath_Paths\<close> interpret them for the globals, the printed sizes, the packet
    buffer and the history, and show the end of the loops and what is found on a path that answers.
    \<open>Tracepath_Properties\<close> states the properties.

  \<^bold>\<open>The integer sort benchmark\<close> (\<^verbatim>\<open>NPB-CPUTests/IS/is.c\<close>).
  \<^item> \<open>Is_Random\<close>: \<^verbatim>\<open>randlc\<close>, \<^verbatim>\<open>find_my_seed\<close> and \<^verbatim>\<open>create_seq\<close>. Doubles are reals with the rounding of
    each operation a parameter, of which it is assumed that it is exact on numbers with 53 bits
    of precision; the generator is proved to be linear congruential modulo \<open>2 ^ 46\<close>.
  \<^item> \<open>Is_Rank\<close>: \<^verbatim>\<open>rank\<close>, \<^verbatim>\<open>full_verify\<close> and \<^verbatim>\<open>main\<close>. The steps of the threads of a parallel loop are taken
    in any order.
  \<^item> \<open>Is_Sort\<close>: whatever the schedule, the keys end up sorted. The locale \<open>parallel_region\<close> has the
    argument that a finished region has one result, and is interpreted on the scatter of the
    keys. \<open>Is_Properties\<close> states the properties.

  \<^bold>\<open>Not modelled.\<close> Of the modelled programs: log messages and printed text other than reported
  numbers, socket set-up that only calls the system, name resolution, option parsing of \<^verbatim>\<open>ping\<close>;
  of \<^verbatim>\<open>ping\<close> partial sends (\<^verbatim>\<open>abort\<close>) and signals in the middle of a round; waits of \<^verbatim>\<open>clockdiff\<close> and error queues of \<^verbatim>\<open>tracepath\<close> that
  never end; of \<^verbatim>\<open>arping\<close> whether the kernel grants what is requested beyond the result of the call;
  of the data cube the aggregation over shared sort orders and the row generator; of \<^verbatim>\<open>rdisc\<close>
  signal handlers that interrupt each other. Other
  programs: the remaining \<^verbatim>\<open>iputils\<close> (\<^verbatim>\<open>ping6\<close>, \<^verbatim>\<open>traceroute6\<close>, \<^verbatim>\<open>ninfod\<close>), the kernel module \<^verbatim>\<open>pg3\<close>, the benchmarks in Fortran, and the
  memory benchmarks, whose result is a time. Overflow of counters of packets and of \<^verbatim>\<open>int\<close>
  variables other than those named in the properties is not modelled: they are unbounded
  integers.
\<close>

end
